(* ===== verification/Prelude.thy ===== *)
theory Prelude
  imports Main "HOL-Library.Word" "HOL-Library.AList" "HOL-Library.Multiset"
    "HOL-Library.Char_ord" "HOL-Library.List_Lexorder"
begin

text \<open>
  Shared vocabulary of the development: the Go machine types as words, Go's
  byte strings as \<^typ>\<open>string\<close>, Go maps as association lists with distinct keys,
  byte encodings of integers, the decimal conversions of \<open>math/big\<close>, and the
  generic facts on lists, association lists and words that the component
  theories use.

  Conventions.  A \<open>uint64\<close>, \<open>uint32\<close>, \<open>uint16\<close> or \<open>byte\<close> is a word of that
  width, so \<open>+\<close> wraps as in Go.  An \<open>int64\<close> is an \<^typ>\<open>int\<close>; where the code does
  arithmetic on it the wrap-around is written out with \<open>wrap_i64\<close>.  A Go
  \<open>string\<close> is a list of 8-bit characters, so \<open>length\<close> is Go's \<open>len\<close>.  A Go map
  is an association list: \<open>map_of\<close> is the lookup, \<open>AList.update\<close> the assignment,
  \<open>AList.delete\<close> the \<open>delete\<close> and \<open>length\<close> the \<open>len\<close> of a map with distinct
  keys; the list order stands for one iteration order, and where the code
  ranges over a map a theorem shows that the order does not matter.
\<close>

type_synonym u8 = "8 word"
type_synonym u16 = "16 word"
type_synonym u32 = "32 word"
type_synonym u64 = "64 word"
type_synonym i64 = int
type_synonym bytes = "8 word list"
type_synonym hash = "8 word list"

named_theorems codec_simps \<open>facts on the integer byte encodings\<close>
named_theorems alist_simps \<open>facts on Go maps as association lists\<close>

subsection \<open>Machine integers\<close>

abbreviation max_u64 :: u64 where
  "max_u64 \<equiv> - 1"

definition wrap_i64 :: "int \<Rightarrow> i64" where
  "wrap_i64 x = ((x + 2 ^ 63) mod 2 ^ 64) - 2 ^ 63"

definition in_i64 :: "int \<Rightarrow> bool" where
  "in_i64 x \<longleftrightarrow> - (2 ^ 63) \<le> x \<and> x < 2 ^ 63"

lemma wrap_i64_id: "in_i64 x \<Longrightarrow> wrap_i64 x = x"
  by (simp add: in_i64_def wrap_i64_def)

lemma unat_bound: "unat (w :: 'a::len word) < 2 ^ LENGTH('a)"
  by (rule unsigned_less)

lemma word_succ_no_wrap: "(b :: 'a::len word) \<noteq> - 1 \<Longrightarrow> unat (b + 1) = unat b + 1"
proof -
  assume "b \<noteq> - 1"
  then have "b + 1 \<noteq> 0"
    by (metis add_eq_0_iff2)
  then show ?thesis
    using unatSuc [of b] by (simp add: add.commute)
qed

lemma word_less_succ_iff: "(b :: 'a::len word) \<noteq> - 1 \<Longrightarrow> (a < b + 1) = (a \<le> b)"
  by (simp add: word_less_nat_alt word_le_nat_alt word_succ_no_wrap less_Suc_eq_le)

lemma word_succ_le_iff: "(b :: 'a::len word) \<noteq> - 1 \<Longrightarrow> (b + 1 \<le> a) = (b < a)"
  by (simp add: word_less_nat_alt word_le_nat_alt word_succ_no_wrap Suc_le_eq)

lemma unat_of_nat_u32: "n < 2 ^ 32 \<Longrightarrow> unat (of_nat n :: u32) = n"
  by (simp add: unat_of_nat)

lemma unat_of_nat_u64: "n < 2 ^ 64 \<Longrightarrow> unat (of_nat n :: u64) = n"
  by (simp add: unat_of_nat)

lemma unat_add_no_wrap:
  "unat (a :: 'a::len word) + unat b < 2 ^ LENGTH('a) \<Longrightarrow> unat (a + b) = unat a + unat b"
  by (simp add: unat_word_ariths)

lemma unat_sub_no_wrap: "b \<le> (a :: 'a::len word) \<Longrightarrow> unat (a - b) = unat a - unat b"
  by (simp add: word_le_nat_alt unat_sub_if')

lemma unat_max_minus: "unat (max_u64 - b) = 2 ^ 64 - 1 - unat b"
proof -
  have "unat max_u64 = 2 ^ 64 - 1" by (simp add: unsigned_minus_1_eq_mask mask_eq_exp_minus_1)
  then show ?thesis by (simp add: unat_sub_no_wrap)
qed

subsection \<open>Integers as bytes\<close>

text \<open>
  \<open>encoding/binary\<close>: little-endian and big-endian images of a natural number
  on a fixed number of bytes, and the reading functions.
\<close>

fun le_put :: "nat \<Rightarrow> nat \<Rightarrow> bytes" where
  "le_put 0 x = []"
| "le_put (Suc k) x = of_nat (x mod 256) # le_put k (x div 256)"

fun le_get :: "bytes \<Rightarrow> nat" where
  "le_get [] = 0"
| "le_get (b # bs) = unat b + 256 * le_get bs"

definition be_put :: "nat \<Rightarrow> nat \<Rightarrow> bytes" where
  "be_put k x = rev (le_put k x)"

lemma length_le_put [simp, codec_simps]: "length (le_put k x) = k"
  by (induction k arbitrary: x) auto

lemma length_be_put [simp, codec_simps]: "length (be_put k x) = k"
  by (simp add: be_put_def)

lemma unat_of_nat_byte: "unat (of_nat (x mod 256) :: u8) = x mod 256"
  by (simp add: unat_of_nat)

lemma le_get_put: "x < 256 ^ k \<Longrightarrow> le_get (le_put k x) = x"
proof (induction k arbitrary: x)
  case (Suc k)
  then have "x div 256 < 256 ^ k"
    by (simp add: less_mult_imp_div_less mult.commute)
  with Suc.IH show ?case
    by (simp add: unat_of_nat_byte)
qed simp

lemma le_get_less: "le_get bs < 256 ^ length bs"
proof (induction bs)
  case (Cons b bs)
  have "unat b < 256"
    using unat_bound [of b] by simp
  with Cons show ?case by simp
qed simp

lemma le_put_inj: "x < 256 ^ k \<Longrightarrow> y < 256 ^ k \<Longrightarrow> le_put k x = le_put k y \<Longrightarrow> x = y"
  by (metis le_get_put)

lemma be_put_inj: "x < 256 ^ k \<Longrightarrow> y < 256 ^ k \<Longrightarrow> be_put k x = be_put k y \<Longrightarrow> x = y"
  by (simp add: be_put_def le_put_inj)

definition be_u16 :: "u16 \<Rightarrow> bytes" where "be_u16 w = be_put 2 (unat w)"
definition be_u32 :: "u32 \<Rightarrow> bytes" where "be_u32 w = be_put 4 (unat w)"
definition be_u64 :: "u64 \<Rightarrow> bytes" where "be_u64 w = be_put 8 (unat w)"
definition le_u16 :: "u16 \<Rightarrow> bytes" where "le_u16 w = le_put 2 (unat w)"
definition le_u32 :: "u32 \<Rightarrow> bytes" where "le_u32 w = le_put 4 (unat w)"
definition le_u64 :: "u64 \<Rightarrow> bytes" where "le_u64 w = le_put 8 (unat w)"

lemma length_codecs [simp, codec_simps]:
  "length (be_u16 a) = 2" "length (be_u32 b) = 4" "length (be_u64 c) = 8"
  "length (le_u16 a) = 2" "length (le_u32 b) = 4" "length (le_u64 c) = 8"
  by (simp_all add: be_u16_def be_u32_def be_u64_def le_u16_def le_u32_def le_u64_def)

lemma le_get_u16 [simp, codec_simps]: "(of_nat (le_get (le_u16 w)) :: u16) = w"
  using unat_bound [of w] by (simp add: le_u16_def le_get_put)

lemma le_get_u32 [simp, codec_simps]: "(of_nat (le_get (le_u32 w)) :: u32) = w"
  using unat_bound [of w] by (simp add: le_u32_def le_get_put)

lemma le_get_u64 [simp, codec_simps]: "(of_nat (le_get (le_u64 w)) :: u64) = w"
  using unat_bound [of w] by (simp add: le_u64_def le_get_put)

lemma be_u16_inj: "be_u16 v = be_u16 w \<longleftrightarrow> v = w"
  using be_put_inj [of "unat v" 2 "unat w"] unat_bound [of v] unat_bound [of w]
  by (auto simp: be_u16_def word_unat_eq_iff)

lemma be_u32_inj: "be_u32 v = be_u32 w \<longleftrightarrow> v = w"
  using be_put_inj [of "unat v" 4 "unat w"] unat_bound [of v] unat_bound [of w]
  by (auto simp: be_u32_def word_unat_eq_iff)

lemma be_u64_inj: "be_u64 v = be_u64 w \<longleftrightarrow> v = w"
  using be_put_inj [of "unat v" 8 "unat w"] unat_bound [of v] unat_bound [of w]
  by (auto simp: be_u64_def word_unat_eq_iff)

subsection \<open>Strings\<close>

definition char_byte :: "char \<Rightarrow> u8" where
  "char_byte c = word_of_nat (of_char c)"

definition str_bytes :: "string \<Rightarrow> bytes" where
  "str_bytes s = map char_byte s"

definition has_nul :: "string \<Rightarrow> bool" where
  "has_nul s \<longleftrightarrow> CHR 0x00 \<in> set s"

lemma length_str_bytes [simp, codec_simps]: "length (str_bytes s) = length s"
  by (simp add: str_bytes_def)

lemma unat_char_byte: "unat (char_byte c) = of_char c"
  unfolding char_byte_def by (simp add: unat_of_nat del: of_nat_of_char)

lemma char_byte_inj: "inj char_byte"
proof (rule injI)
  fix c d
  assume "char_byte c = char_byte d"
  then have "unat (char_byte c) = unat (char_byte d)" by (rule arg_cong)
  then show "c = d" by (simp add: unat_char_byte)
qed

lemma str_bytes_inj: "str_bytes s = str_bytes t \<longleftrightarrow> s = t"
  by (simp add: str_bytes_def inj_map_eq_map [OF char_byte_inj])

subsection \<open>Decimal text of arbitrary-width integers\<close>

text \<open>
  \<open>big.Int.SetString(s, 10)\<close>: an optional sign and at least one digit, nothing
  else; \<open>big.Int.String()\<close>: the shortest decimal text.
\<close>

definition is_digit :: "char \<Rightarrow> bool" where
  "is_digit c \<longleftrightarrow> 48 \<le> (of_char c :: nat) \<and> (of_char c :: nat) \<le> 57"

definition digit_val :: "char \<Rightarrow> nat" where
  "digit_val c = of_char c - 48"

definition digit_char :: "nat \<Rightarrow> char" where
  "digit_char d = char_of (48 + d)"

definition nat_of_digits :: "string \<Rightarrow> nat" where
  "nat_of_digits s = foldl (\<lambda>acc c. 10 * acc + digit_val c) 0 s"

fun nat_text :: "nat \<Rightarrow> string" where
  "nat_text n = (if n < 10 then [digit_char n] else nat_text (n div 10) @ [digit_char (n mod 10)])"

declare nat_text.simps [simp del]

definition big_set_string :: "string \<Rightarrow> int option" where
  "big_set_string s =
     (let (neg, body) = (case s of
            [] \<Rightarrow> (False, [])
          | c # cs \<Rightarrow> (if c = CHR ''-'' then (True, cs) else if c = CHR ''+'' then (False, cs)
                      else (False, s)))
      in if body = [] \<or> \<not> list_all is_digit body then None
         else Some (if neg then - int (nat_of_digits body) else int (nat_of_digits body)))"

definition big_string :: "int \<Rightarrow> string" where
  "big_string z = (if z < 0 then CHR ''-'' # nat_text (nat (- z)) else nat_text (nat z))"

lemma digit_val_char: "d < 10 \<Longrightarrow> digit_val (digit_char d) = d"
  by (simp add: digit_val_def digit_char_def)

lemma digit_char_zero: "digit_char 0 = CHR ''0''"
  unfolding digit_char_def by (simp add: char_of_eq_iff bit_simps numeral_2_eq_2 char_of_def)

lemma digit_val_zero: "digit_val CHR ''0'' = 0"
  by (simp add: digit_val_def)

lemma is_digit_char: "d < 10 \<Longrightarrow> is_digit (digit_char d)"
  by (simp add: is_digit_def digit_char_def)

lemma digit_char_val: "is_digit c \<Longrightarrow> digit_char (digit_val c) = c"
  by (auto simp: is_digit_def digit_char_def digit_val_def)

lemma digit_val_less: "is_digit c \<Longrightarrow> digit_val c < 10"
  by (auto simp: is_digit_def digit_val_def)

lemma nat_of_digits_snoc: "nat_of_digits (s @ [c]) = 10 * nat_of_digits s + digit_val c"
  by (simp add: nat_of_digits_def)

lemma nat_of_digits_append:
  "nat_of_digits (s @ t) = nat_of_digits s * 10 ^ length t + nat_of_digits t"
proof (induction t rule: rev_induct)
  case Nil
  show ?case by (simp add: nat_of_digits_def)
next
  case (snoc c t)
  have "nat_of_digits (s @ t @ [c]) = 10 * nat_of_digits (s @ t) + digit_val c"
    using nat_of_digits_snoc [of "s @ t" c] by simp
  with snoc show ?case by (simp add: nat_of_digits_snoc algebra_simps)
qed

lemma nat_of_digits_zeros: "nat_of_digits (replicate k CHR ''0'') = 0"
proof (induction k)
  case (Suc k)
  have "nat_of_digits (replicate k CHR ''0'' @ [CHR ''0'']) = 0"
    unfolding nat_of_digits_snoc using Suc by (simp add: digit_val_def)
  then show ?case by (simp add: replicate_append_same)
qed (simp add: nat_of_digits_def)

lemma nat_text_digits: "list_all is_digit (nat_text n)"
proof (induction n rule: nat_text.induct)
  case (1 n)
  then show ?case
    by (subst nat_text.simps) (auto simp: is_digit_char)
qed

lemma nat_text_nonempty: "nat_text n \<noteq> []"
  by (subst nat_text.simps) simp

lemma nat_of_nat_text [simp]: "nat_of_digits (nat_text n) = n"
proof (induction n rule: nat_text.induct)
  case (1 n)
  show ?case
  proof (cases "n < 10")
    case True
    then show ?thesis
      by (subst nat_text.simps) (simp add: nat_of_digits_def digit_val_char)
  next
    case False
    with 1 show ?thesis
      by (subst nat_text.simps) (simp add: nat_of_digits_snoc digit_val_char)
  qed
qed

lemma nat_text_head: "hd (nat_text n) = CHR ''0'' \<longleftrightarrow> n = 0"
proof (induction n rule: nat_text.induct)
  case (1 n)
  show ?case
  proof (cases "n < 10")
    case True
    have "digit_char n = CHR ''0'' \<longleftrightarrow> n = 0"
      using digit_val_char [OF True] digit_char_zero by (metis digit_val_zero)
    with True show ?thesis by (subst nat_text.simps) simp
  next
    case False
    with 1 show ?thesis
      by (subst nat_text.simps) (simp add: nat_text_nonempty)
  qed
qed

lemma nat_text_not_sign: "is_digit c \<Longrightarrow> c \<noteq> CHR ''-'' \<and> c \<noteq> CHR ''+''"
  by (auto simp: is_digit_def)

lemma big_set_string_nat: "big_set_string (nat_text n) = Some (int n)"
proof -
  obtain c cs where c: "nat_text n = c # cs"
    using nat_text_nonempty [of n] by (cases "nat_text n") auto
  have "is_digit c" and digits: "list_all is_digit (c # cs)"
    using nat_text_digits [of n] c by auto
  then have "c \<noteq> CHR ''-''" "c \<noteq> CHR ''+''"
    using nat_text_not_sign by auto
  moreover have "nat_of_digits (c # cs) = n"
    using nat_of_nat_text [of n] c by simp
  ultimately show ?thesis
    using digits c by (simp add: big_set_string_def)
qed

lemma big_set_string_neg: "big_set_string (CHR ''-'' # nat_text n) = Some (- int n)"
  using nat_text_digits [of n] nat_text_nonempty [of n]
  by (simp add: big_set_string_def)

text \<open>Printing and reading back is the identity, so canonical texts are in bijection with integers.\<close>

lemma big_set_string_big_string [simp]: "big_set_string (big_string z) = Some z"
  by (simp add: big_string_def big_set_string_nat big_set_string_neg)

lemma big_string_inj: "big_string y = big_string z \<longleftrightarrow> y = z"
  by (metis big_set_string_big_string option.inject)

lemma big_string_nonempty [simp]: "big_string z \<noteq> []"
  by (simp add: big_string_def nat_text_nonempty)

lemma big_string_minus_head: "(\<exists>cs. big_string z = CHR ''-'' # cs) \<longleftrightarrow> z < 0"
proof -
  obtain c cs where c: "nat_text (nat z) = c # cs"
    using nat_text_nonempty [of "nat z"] by (cases "nat_text (nat z)") auto
  then have "c \<noteq> CHR ''-''"
    using nat_text_digits [of "nat z"] nat_text_not_sign by auto
  with c show ?thesis
    by (auto simp: big_string_def)
qed

lemma big_string_zero: "big_string z = ''0'' \<longleftrightarrow> z = 0"
proof -
  have "big_string 0 = ''0''"
    by (simp add: big_string_def nat_text.simps digit_char_zero)
  then show ?thesis by (metis big_string_inj)
qed

lemma nat_text_length_less:
  "n < 10 ^ k \<Longrightarrow> 0 < k \<Longrightarrow> length (nat_text n) \<le> k"
proof (induction n arbitrary: k rule: nat_text.induct)
  case (1 n)
  show ?case
  proof (cases "n < 10")
    case True
    with 1 show ?thesis by (subst nat_text.simps) simp
  next
    case False
    then obtain j where k: "k = Suc j" and j: "0 < j"
      using "1.prems" by (cases k; cases "k - 1") auto
    have "n div 10 < 10 ^ j"
      using "1.prems" k by (simp add: less_mult_imp_div_less mult.commute)
    with 1 False j have "length (nat_text (n div 10)) \<le> j" by simp
    with False k show ?thesis by (subst nat_text.simps) simp
  qed
qed

subsection \<open>Go maps as association lists\<close>

definition wf_map :: "('k \<times> 'v) list \<Rightarrow> bool" where
  "wf_map m \<longleftrightarrow> distinct (map fst m)"

definition go_get :: "('k \<times> 'v) list \<Rightarrow> 'k \<Rightarrow> 'v option" where
  "go_get m = map_of m"

definition go_put :: "'k \<Rightarrow> 'v \<Rightarrow> ('k \<times> 'v) list \<Rightarrow> ('k \<times> 'v) list" where
  "go_put k v m = AList.update k v m"

definition go_delete :: "'k \<Rightarrow> ('k \<times> 'v) list \<Rightarrow> ('k \<times> 'v) list" where
  "go_delete k m = AList.delete k m"

lemma wf_map_Nil [simp, alist_simps]: "wf_map []"
  by (simp add: wf_map_def)

lemma wf_map_put [simp, alist_simps]: "wf_map m \<Longrightarrow> wf_map (go_put k v m)"
  by (simp add: wf_map_def go_put_def distinct_update)

lemma wf_map_delete [simp, alist_simps]: "wf_map m \<Longrightarrow> wf_map (go_delete k m)"
  by (simp add: wf_map_def go_delete_def distinct_delete)

lemma go_get_Nil [simp, alist_simps]: "go_get [] k = None"
  by (simp add: go_get_def)

lemma go_get_put [simp, alist_simps]:
  "go_get (go_put k v m) k' = (if k' = k then Some v else go_get m k')"
  by (simp add: go_get_def go_put_def update_conv)

lemma go_get_delete [simp, alist_simps]:
  "go_get (go_delete k m) k' = (if k' = k then None else go_get m k')"
  by (simp add: go_get_def go_delete_def delete_conv)

lemma go_get_mem: "wf_map m \<Longrightarrow> go_get m k = Some v \<longleftrightarrow> (k, v) \<in> set m"
  by (simp add: wf_map_def go_get_def)

lemma go_get_None: "go_get m k = None \<longleftrightarrow> k \<notin> fst ` set m"
  by (simp add: go_get_def map_of_eq_None_iff)

lemma length_wf_map: "wf_map m \<Longrightarrow> length m = card (dom (go_get m))"
proof -
  assume "wf_map m"
  then have "length m = card (set (map fst m))"
    using distinct_card [of "map fst m"] by (simp add: wf_map_def)
  also have "set (map fst m) = dom (go_get m)"
    unfolding go_get_def dom_map_of_conv_image_fst by simp
  finally show ?thesis .
qed

text \<open>Two representations of one map are permutations of each other.\<close>

lemma wf_map_same_mset:
  assumes "wf_map m" "wf_map n" "go_get m = go_get n"
  shows "mset m = mset n"
proof -
  have "distinct m" and "distinct n"
    using assms by (auto simp: wf_map_def distinct_map)
  moreover have "set m = set n"
    using assms by (metis go_get_mem subset_antisym subsetI surj_pair)
  ultimately show ?thesis by (simp add: set_eq_iff_mset_eq_distinct)
qed

lemma length_go_put_le: "length (go_put k v m) \<le> Suc (length m)"
  unfolding go_put_def by (induction m) auto

lemma length_go_delete_le: "length (go_delete k m) \<le> length m"
  by (simp add: go_delete_def length_delete_le)

text \<open>Sorting by a key that is injective on the elements does not depend on their order.\<close>

lemma sort_key_mset_unique:
  fixes k :: "'a \<Rightarrow> 'b::linorder"
  assumes "mset xs = mset ys" "inj_on k (set xs)"
  shows "sort_key k xs = sort_key k ys"
proof (rule properties_for_sort_key)
  show "mset (sort_key k ys) = mset xs" using assms(1) by simp
  show "sorted (map k (sort_key k ys))" by simp
next
  fix x
  have set: "set xs = set ys" using assms(1) by (rule mset_eq_setD)
  assume "x \<in> set (sort_key k ys)"
  then have "x \<in> set xs" using set by simp
  have "filter (\<lambda>y. k x = k y) zs = replicate (count (mset zs) x) x" if "set zs = set xs" for zs
  proof -
    have "filter (\<lambda>y. k x = k y) zs = filter (\<lambda>y. y = x) zs"
      using assms(2) that \<open>x \<in> set xs\<close> by (intro filter_cong) (auto simp: inj_on_def)
    also have "\<dots> = replicate (count (mset zs) x) x"
      by (induction zs) auto
    finally show ?thesis .
  qed
  from this [of "sort_key k ys"] this [of xs]
  show "filter (\<lambda>y. k x = k y) (sort_key k ys) = filter (\<lambda>y. k x = k y) xs"
    using set assms(1) by simp
qed

end
