(* ===== verification/Decimal.thy ===== *)
theory Decimal
  imports Prelude
begin

text \<open>
  \<open>src/normalize/decimal.go\<close>: canonical signed decimals, a base-10 coefficient
  held as text at a fixed scale.  \<open>ParseDecimal\<close> is translated with all of its
  early returns (one constructor of \<open>decimal_error\<close> per message), the scanning
  loop as the recursion \<open>scan_decimal\<close>.  The theorems say that parsing is exact
  (no rounding, no loss), characterise the accepted texts, and show that a
  canonical coefficient is a faithful name of a number, which is what the order
  books rely on when they key their maps by the coefficient.
\<close>

subsection \<open>Data and operations\<close>

datatype decimal_error =
    InvalidParserBounds | EmptyOrOversized | SignWithoutDigits | LeadingPlus
  | RepeatedPoint | NonDecimalCharacter | MalformedDecimal | PrecisionExceeded
  | ConversionFailed | DigitBoundExceeded

record decimal =
  coefficient :: string
  dec_scale :: u8

record decimal_bounds =
  max_input_bytes :: int
  max_coefficient_digits :: int

definition CanonicalPriceScale :: u8 where "CanonicalPriceScale = 18"
definition CanonicalAmountScale :: u8 where "CanonicalAmountScale = 18"
definition MaxDecimalInputBytes :: int where "MaxDecimalInputBytes = 128"
definition MaxCanonicalCoefficientDigits :: int where "MaxCanonicalCoefficientDigits = 38"
definition MaxCanonicalScale :: u8 where "MaxCanonicalScale = 38"

lemmas decimal_limits [simp] =
  CanonicalPriceScale_def CanonicalAmountScale_def MaxDecimalInputBytes_def
  MaxCanonicalCoefficientDigits_def MaxCanonicalScale_def

definition DefaultDecimalBounds :: decimal_bounds where
  "DefaultDecimalBounds = \<lparr>max_input_bytes = MaxDecimalInputBytes,
     max_coefficient_digits = MaxCanonicalCoefficientDigits\<rparr>"

text \<open>The character loop: position of the point (if any) and number of digits.\<close>

fun scan_decimal ::
  "string \<Rightarrow> nat \<Rightarrow> nat option \<Rightarrow> nat \<Rightarrow> decimal_error + (nat option \<times> nat)" where
  "scan_decimal [] i dot digits = Inr (dot, digits)"
| "scan_decimal (c # cs) i dot digits =
     (if c = CHR ''.'' then
        (if dot \<noteq> None then Inl RepeatedPoint else scan_decimal cs (Suc i) (Some i) digits)
      else if \<not> is_digit c then Inl NonDecimalCharacter
      else scan_decimal cs (Suc i) dot (Suc digits))"

definition trim_minus :: "string \<Rightarrow> string" where
  "trim_minus s = (case s of [] \<Rightarrow> [] | c # cs \<Rightarrow> if c = CHR ''-'' then cs else s)"

definition has_minus :: "string \<Rightarrow> bool" where
  "has_minus s = (case s of [] \<Rightarrow> False | c # _ \<Rightarrow> c = CHR ''-'')"

definition ParseDecimal :: "string \<Rightarrow> u8 \<Rightarrow> decimal_bounds \<Rightarrow> decimal_error + decimal" where
  "ParseDecimal text sc bounds =
     (if max_input_bytes bounds \<le> 0 \<or> max_input_bytes bounds > MaxDecimalInputBytes \<or>
         max_coefficient_digits bounds \<le> 0 \<or>
         max_coefficient_digits bounds > MaxCanonicalCoefficientDigits \<or>
         sc > MaxCanonicalScale then Inl InvalidParserBounds
      else if text = [] \<or> int (length text) > max_input_bytes bounds then Inl EmptyOrOversized
      else
        let negative = (hd text = CHR ''-''); start = (if negative then 1 else 0) in
        if negative \<and> start = length text then Inl SignWithoutDigits
        else if \<not> negative \<and> hd text = CHR ''+'' then Inl LeadingPlus
        else (case scan_decimal (drop start text) start None 0 of
            Inl e \<Rightarrow> Inl e
          | Inr (dot, digits) \<Rightarrow>
              if digits = 0 \<or> dot = Some start \<or> dot = Some (length text - 1)
              then Inl MalformedDecimal
              else
                let fractional = (case dot of None \<Rightarrow> 0 | Some d \<Rightarrow> length text - d - 1) in
                if fractional > unat sc then Inl PrecisionExceeded
                else
                  let built = (if negative then ''-'' else []) @
                        filter (\<lambda>c. c \<noteq> CHR ''.'') (drop start text) @
                        replicate (unat sc - fractional) CHR ''0''
                  in (case big_set_string built of
                        None \<Rightarrow> Inl ConversionFailed
                      | Some wide \<Rightarrow>
                          let coef = big_string wide in
                          if int (length (trim_minus coef)) > max_coefficient_digits bounds
                          then Inl DigitBoundExceeded
                          else Inr \<lparr>coefficient = coef, dec_scale = sc\<rparr>)))"

text \<open>\<open>Decimal.Validate\<close> returns \<open>nil\<close>.\<close>

definition Decimal_Validate :: "decimal \<Rightarrow> bool" where
  "Decimal_Validate d \<longleftrightarrow>
     \<not> (coefficient d = [] \<or> dec_scale d > MaxCanonicalScale \<or>
        int (length (coefficient d)) > MaxCanonicalCoefficientDigits + 1) \<and>
     (case big_set_string (coefficient d) of
        None \<Rightarrow> False
      | Some wide \<Rightarrow> big_string wide = coefficient d \<and>
          \<not> int (length (trim_minus (coefficient d))) > MaxCanonicalCoefficientDigits)"

definition IsZero :: "decimal \<Rightarrow> bool" where
  "IsZero d \<longleftrightarrow> coefficient d = ''0''"

text \<open>The integer a coefficient text denotes (0 where it is not an integer text).\<close>

definition coef_int :: "string \<Rightarrow> int" where
  "coef_int s = (case big_set_string s of None \<Rightarrow> 0 | Some z \<Rightarrow> z)"

text \<open>A source text: sign, integer digits, fraction digits.\<close>

definition decimal_text :: "bool \<Rightarrow> string \<Rightarrow> string \<Rightarrow> string" where
  "decimal_text neg ip fp = (if neg then ''-'' else []) @ ip @ (if fp = [] then [] else CHR ''.'' # fp)"

definition decimal_int :: "bool \<Rightarrow> string \<Rightarrow> string \<Rightarrow> nat \<Rightarrow> int" where
  "decimal_int neg ip fp sc =
     (if neg then -1 else 1) * int (nat_of_digits (ip @ fp) * 10 ^ (sc - length fp))"

subsection \<open>Canonical coefficients\<close>

lemma coef_int_big_string [simp]: "coef_int (big_string z) = z"
  by (simp add: coef_int_def)

lemma trim_minus_big_string: "trim_minus (big_string z) = nat_text (nat \<bar>z\<bar>)"
proof (cases "z < 0")
  case False
  then obtain c cs where c: "big_string z = c # cs" "c \<noteq> CHR ''-''"
    using big_string_minus_head [of z] by (cases "big_string z") auto
  with False show ?thesis
    by (simp add: trim_minus_def big_string_def)
qed (simp add: trim_minus_def big_string_def)

lemma has_minus_big_string [simp]: "has_minus (big_string z) \<longleftrightarrow> z < 0"
  using big_string_minus_head [of z] by (cases "big_string z") (auto simp: has_minus_def)

lemma nat_of_digits_bound: "list_all is_digit s \<Longrightarrow> nat_of_digits s < 10 ^ length s"
proof (induction s rule: rev_induct)
  case (snoc c s)
  then have "nat_of_digits s < 10 ^ length s" "digit_val c < 10"
    by (auto simp: digit_val_less)
  then show ?case by (simp add: nat_of_digits_snoc)
qed (simp add: nat_of_digits_def)

lemma nat_text_length_iff: "0 < k \<Longrightarrow> length (nat_text n) \<le> k \<longleftrightarrow> n < 10 ^ k"
proof
  assume "0 < k" and le: "length (nat_text n) \<le> k"
  have "n < 10 ^ length (nat_text n)"
    using nat_of_digits_bound [OF nat_text_digits [of n]] by simp
  also have "\<dots> \<le> 10 ^ k"
    using le by (simp add: power_increasing)
  finally show "n < 10 ^ k" .
qed (rule nat_text_length_less)

text \<open>A valid decimal is the canonical text of an integer of at most 38 digits, and conversely.\<close>

lemma Decimal_Validate_iff:
  "Decimal_Validate d \<longleftrightarrow>
     (\<exists>z. coefficient d = big_string z \<and> \<bar>z\<bar> < 10 ^ 38 \<and> dec_scale d \<le> 38)"
proof
  assume v: "Decimal_Validate d"
  then obtain z where z: "coefficient d = big_string z"
      and len: "length (trim_minus (coefficient d)) \<le> 38" and sc: "dec_scale d \<le> 38"
    by (auto simp: Decimal_Validate_def not_less dest: sym split: option.splits)
  then have "length (nat_text (nat \<bar>z\<bar>)) \<le> 38"
    by (simp add: trim_minus_big_string)
  then have "nat \<bar>z\<bar> < 10 ^ 38"
    by (simp add: nat_text_length_iff)
  then have "\<bar>z\<bar> < 10 ^ 38" by (simp add: nat_less_iff)
  with z sc show "\<exists>z. coefficient d = big_string z \<and> \<bar>z\<bar> < 10 ^ 38 \<and> dec_scale d \<le> 38"
    by blast
next
  assume "\<exists>z. coefficient d = big_string z \<and> \<bar>z\<bar> < 10 ^ 38 \<and> dec_scale d \<le> 38"
  then obtain z where z: "coefficient d = big_string z" and b: "\<bar>z\<bar> < 10 ^ 38"
      and sc: "dec_scale d \<le> 38" by blast
  from b have "nat \<bar>z\<bar> < 10 ^ 38" by (simp add: nat_less_iff)
  then have len: "length (nat_text (nat \<bar>z\<bar>)) \<le> 38"
    by (simp add: nat_text_length_iff)
  then have "length (big_string z) \<le> 39"
    by (auto simp: big_string_def)
  with z sc len show "Decimal_Validate d"
    by (simp add: Decimal_Validate_def not_less trim_minus_big_string)
qed

lemma valid_coefficient: "Decimal_Validate d \<Longrightarrow> coefficient d = big_string (coef_int (coefficient d))"
  by (auto simp: Decimal_Validate_iff)

lemma has_minus_valid: "Decimal_Validate d \<Longrightarrow> has_minus (coefficient d) \<longleftrightarrow> coef_int (coefficient d) < 0"
  by (auto simp: Decimal_Validate_iff)

lemma zero_text_valid: "Decimal_Validate d \<Longrightarrow> coefficient d = ''0'' \<longleftrightarrow> coef_int (coefficient d) = 0"
  by (metis valid_coefficient big_string_zero)

subsection \<open>The scanning loop\<close>

lemma scan_decimal_digits:
  "list_all is_digit ds \<Longrightarrow>
     scan_decimal (ds @ rest) i dot n = scan_decimal rest (i + length ds) dot (n + length ds)"
proof (induction ds arbitrary: i n)
  case (Cons d ds)
  then have "d \<noteq> CHR ''.''" by (auto simp: is_digit_def)
  with Cons show ?case by simp
qed simp

lemma scan_decimal_point_inv:
  "scan_decimal cs i (Some p) n = Inr (dot, m) \<Longrightarrow>
     dot = Some p \<and> list_all is_digit cs \<and> m = n + length cs"
  by (induction cs arbitrary: i n) (fastforce split: if_splits)+

lemma scan_decimal_inv:
  "scan_decimal cs i None n = Inr (dot, m) \<Longrightarrow>
     (dot = None \<and> list_all is_digit cs \<and> m = n + length cs) \<or>
     (\<exists>ip fp. cs = ip @ CHR ''.'' # fp \<and> dot = Some (i + length ip) \<and> list_all is_digit ip \<and>
        list_all is_digit fp \<and> m = n + length ip + length fp)"
proof (induction cs arbitrary: i n)
  case (Cons c cs)
  consider (point) "c = CHR ''.''" | (digit) "c \<noteq> CHR ''.''" "is_digit c" | (bad) "c \<noteq> CHR ''.''" "\<not> is_digit c"
    by blast
  then show ?case
  proof cases
    case point
    with Cons.prems have "dot = Some i" "list_all is_digit cs" "m = n + length cs"
      by (auto dest: scan_decimal_point_inv)
    with point show ?thesis by (intro disjI2 exI [of _ "[]"] exI [of _ cs]) simp
  next
    case digit
    with Cons.prems have "scan_decimal cs (Suc i) None (Suc n) = Inr (dot, m)" by simp
    from Cons.IH [OF this] show ?thesis
    proof (elim disjE exE conjE)
      fix ip fp
      assume "cs = ip @ CHR ''.'' # fp" "dot = Some (Suc i + length ip)" "list_all is_digit ip"
        "list_all is_digit fp" "m = Suc n + length ip + length fp"
      with digit show ?thesis
        by (intro disjI2 exI [of _ "c # ip"] exI [of _ fp]) simp
    qed (use digit in simp)
  qed (use Cons.prems in simp)
qed simp

subsection \<open>Parsing is exact\<close>

lemma filter_point_digits: "list_all is_digit ds \<Longrightarrow> filter (\<lambda>c. c \<noteq> CHR ''.'') ds = ds"
  by (induction ds) (auto simp: is_digit_def)

lemma hd_digits: "list_all is_digit ip \<Longrightarrow> ip \<noteq> [] \<Longrightarrow> hd (ip @ rest) \<noteq> CHR ''-'' \<and> hd (ip @ rest) \<noteq> CHR ''+''"
  by (cases ip) (auto simp: is_digit_def)

lemma big_set_string_built:
  assumes "list_all is_digit ds" "ds \<noteq> []"
  shows "big_set_string ((if neg then ''-'' else []) @ ds @ replicate k CHR ''0'') =
     Some ((if neg then -1 else 1) * int (nat_of_digits ds * 10 ^ k))"
proof -
  obtain c cs where c: "ds = c # cs" using assms(2) by (cases ds) auto
  have digits: "list_all is_digit (ds @ replicate k CHR ''0'')"
    using assms(1) by (induction k) (auto simp: is_digit_def)
  have sign: "c \<noteq> CHR ''-''" "c \<noteq> CHR ''+''"
    using assms(1) c by (auto simp: is_digit_def)
  have val: "nat_of_digits (ds @ replicate k CHR ''0'') = nat_of_digits ds * 10 ^ k"
    by (simp add: nat_of_digits_append nat_of_digits_zeros)
  show ?thesis
    using digits sign val c by (auto simp: big_set_string_def)
qed

lemma length_trim_le_iff:
  "0 < k \<Longrightarrow> int (length (trim_minus (big_string z))) > int k \<longleftrightarrow> \<not> \<bar>z\<bar> < 10 ^ k"
proof -
  assume "0 < k"
  then have "length (nat_text (nat \<bar>z\<bar>)) \<le> k \<longleftrightarrow> nat \<bar>z\<bar> < 10 ^ k"
    by (rule nat_text_length_iff)
  moreover have "nat \<bar>z\<bar> < 10 ^ k \<longleftrightarrow> \<bar>z\<bar> < 10 ^ k"
    by (simp add: nat_less_iff)
  ultimately show ?thesis by (auto simp: trim_minus_big_string)
qed

lemma scan_decimal_text:
  assumes "list_all is_digit ip" "list_all is_digit fp"
  shows "scan_decimal (ip @ (if fp = [] then [] else CHR ''.'' # fp)) i None 0 =
     Inr (if fp = [] then None else Some (i + length ip), length ip + length fp)"
  using assms scan_decimal_digits [OF assms(2), of "[]"]
  by (simp add: scan_decimal_digits)

text \<open>The run of the parser on a text whose scan succeeds.\<close>

lemma ParseDecimal_run:
  assumes "t \<noteq> []" "length t \<le> 128" "sc \<le> 38" "hd t \<noteq> CHR ''+''"
    and start: "start = (if hd t = CHR ''-'' then 1 else 0)" "start < length t"
    and scan: "scan_decimal (drop start t) start None 0 = Inr (dot, digits)"
    and ok: "digits \<noteq> 0" "dot \<noteq> Some start" "dot \<noteq> Some (length t - 1)"
    and frac: "frac = (case dot of None \<Rightarrow> 0 | Some d \<Rightarrow> length t - d - 1)" "frac \<le> unat sc"
    and built: "big_set_string ((if hd t = CHR ''-'' then ''-'' else []) @
        filter (\<lambda>c. c \<noteq> CHR ''.'') (drop start t) @ replicate (unat sc - frac) CHR ''0'') = Some z"
  shows "ParseDecimal t sc DefaultDecimalBounds =
     (if \<bar>z\<bar> < 10 ^ 38 then Inr \<lparr>coefficient = big_string z, dec_scale = sc\<rparr>
      else Inl DigitBoundExceeded)"
proof -
  have lm: "38 < int (length (trim_minus (big_string z))) \<longleftrightarrow> \<not> \<bar>z\<bar> < 10 ^ 38"
    using length_trim_le_iff [of 38 z] by simp
  have "ParseDecimal t sc DefaultDecimalBounds =
     (if 38 < int (length (trim_minus (big_string z))) then Inl DigitBoundExceeded
      else Inr \<lparr>coefficient = big_string z, dec_scale = sc\<rparr>)"
    using assms(1-4) start
    unfolding ParseDecimal_def DefaultDecimalBounds_def Let_def start(1) [symmetric] scan
    by (simp add: ok ok(3) [simplified] frac(2) not_less built frac(1) [symmetric])
  with lm show ?thesis by simp
qed

lemma ParseDecimal_text:
  assumes ip: "list_all is_digit ip" "ip \<noteq> []" and fp: "list_all is_digit fp"
    and len: "length (decimal_text neg ip fp) \<le> 128" and sc: "sc \<le> 38" "length fp \<le> unat sc"
    and z: "z = decimal_int neg ip fp (unat sc)"
  shows "ParseDecimal (decimal_text neg ip fp) sc DefaultDecimalBounds =
     (if \<bar>z\<bar> < 10 ^ 38 then Inr \<lparr>coefficient = big_string z, dec_scale = sc\<rparr>
      else Inl DigitBoundExceeded)"
proof -
  let ?tail = "if fp = [] then [] else CHR ''.'' # fp"
  let ?start = "if neg then 1 else 0 :: nat"
  let ?t = "decimal_text neg ip fp"
  have t: "?t = (if neg then ''-'' else []) @ ip @ ?tail"
    by (simp add: decimal_text_def)
  have neg: "(hd ?t = CHR ''-'') = neg" and plus: "hd ?t \<noteq> CHR ''+''"
    using hd_digits [OF ip, of ?tail] by (auto simp: t)
  have dr: "drop ?start ?t = ip @ ?tail" by (simp add: t)
  have lt: "length ?t = ?start + length ip + (if fp = [] then 0 else Suc (length fp))"
    by (simp add: t)
  have flt: "filter (\<lambda>c. c \<noteq> CHR ''.'') (ip @ ?tail) = ip @ fp"
    using ip fp by (simp add: filter_point_digits)
  have bs: "big_set_string ((if neg then ''-'' else []) @ (ip @ fp) @
      replicate (unat sc - length fp) CHR ''0'') = Some z"
    unfolding z decimal_int_def using ip fp by (subst big_set_string_built) auto
  show ?thesis
  proof (rule ParseDecimal_run [where start = ?start and frac = "length fp"
        and dot = "if fp = [] then None else Some (?start + length ip)"
        and digits = "length ip + length fp"])
    show "scan_decimal (drop ?start ?t) ?start None 0 =
        Inr (if fp = [] then None else Some (?start + length ip), length ip + length fp)"
      unfolding dr by (rule scan_decimal_text [OF ip(1) fp])
    show "big_set_string ((if hd ?t = CHR ''-'' then ''-'' else []) @
        filter (\<lambda>c. c \<noteq> CHR ''.'') (drop ?start ?t) @ replicate (unat sc - length fp) CHR ''0'') = Some z"
      unfolding dr flt neg using bs by simp
    show "length ?t \<le> 128" by (rule len)
  qed (use ip sc lt neg plus in auto)
qed

lemma ParseDecimal_inv:
  assumes "ParseDecimal tx sc b = Inr d"
  shows "\<exists>neg ip fp. tx = decimal_text neg ip fp \<and> list_all is_digit ip \<and> ip \<noteq> [] \<and>
     list_all is_digit fp \<and> length fp \<le> unat sc"
proof -
  define neg where "neg = (hd tx = CHR ''-'')"
  define start where "start = (if neg then 1 else 0 :: nat)"
  from assms have ne: "tx \<noteq> []"
    by (auto simp: ParseDecimal_def split: if_splits)
  from assms obtain dot digits where scan: "scan_decimal (drop start tx) start None 0 = Inr (dot, digits)"
      and ok: "digits \<noteq> 0" "dot \<noteq> Some start" "dot \<noteq> Some (length tx - 1)"
      and frac: "(case dot of None \<Rightarrow> 0 | Some p \<Rightarrow> length tx - p - 1) \<le> unat sc"
    by (auto simp: ParseDecimal_def Let_def neg_def start_def not_less
        split: if_splits sum.splits prod.splits option.splits)
  have tx: "tx = (if neg then ''-'' else []) @ drop start tx"
    using ne by (cases tx) (auto simp: neg_def start_def)
  from scan_decimal_inv [OF scan] show ?thesis
  proof (elim disjE exE conjE)
    assume "dot = None" "list_all is_digit (drop start tx)" "digits = 0 + length (drop start tx)"
    with ok tx show ?thesis
      by (intro exI [of _ neg] exI [of _ "drop start tx"] exI [of _ "[]"])
         (auto simp: decimal_text_def)
  next
    fix ip fp
    assume d: "drop start tx = ip @ CHR ''.'' # fp" "dot = Some (start + length ip)"
      "list_all is_digit ip" "list_all is_digit fp"
    have "length tx = start + length (drop start tx)"
      using arg_cong [OF tx, of length] unfolding start_def by (cases neg) simp_all
    then have len: "length tx = start + length ip + Suc (length fp)"
      unfolding d(1) by simp
    with ok d have "ip \<noteq> []" "fp \<noteq> []" by auto
    with tx d frac len show ?thesis
      by (intro exI [of _ neg] exI [of _ ip] exI [of _ fp]) (auto simp: decimal_text_def)
  qed
qed

lemma ParseDecimal_default_bounds:
  assumes "ParseDecimal tx sc DefaultDecimalBounds = Inr d"
  shows "length tx \<le> 128 \<and> sc \<le> 38"
  using assms
  by (auto simp: ParseDecimal_def DefaultDecimalBounds_def not_less split: if_splits)

lemma ParseDecimal_result:
  assumes "ParseDecimal tx sc b = Inr d"
  shows "dec_scale d = sc \<and> sc \<le> 38 \<and> max_coefficient_digits b \<le> 38 \<and>
     (\<exists>z. coefficient d = big_string z) \<and>
     int (length (trim_minus (coefficient d))) \<le> max_coefficient_digits b"
  using assms
  by (auto simp: ParseDecimal_def Let_def not_less
      split: if_splits sum.splits prod.splits option.splits)

lemma ParseDecimal_Validate:
  assumes "ParseDecimal tx sc b = Inr d"
  shows "Decimal_Validate d"
proof -
  from ParseDecimal_result [OF assms] obtain z where z: "coefficient d = big_string z"
      and sc: "dec_scale d \<le> 38" and len: "int (length (trim_minus (big_string z))) \<le> 38"
    by auto
  from len have "\<bar>z\<bar> < 10 ^ 38"
    using length_trim_le_iff [of 38 z] by simp
  with z sc show ?thesis by (auto simp: Decimal_Validate_iff)
qed

subsection \<open>Properties\<close>

text \<open>
  C17. Exactness of \<open>ParseDecimal\<close> under the default bounds.  A text is accepted
  exactly when it is an optional minus sign, at least one integer digit and,
  after a point, at least one fraction digit and no more of them than the
  schema scale, in at most 128 bytes, denoting a number of at most 38 digits at
  that scale; and the result then is the canonical text of precisely that number
  scaled by the schema's power of ten: nothing is rounded or truncated.
\<close>

theorem parse_decimal_exact:
  "ParseDecimal tx sc DefaultDecimalBounds = Inr d \<longleftrightarrow>
     (\<exists>neg ip fp. tx = decimal_text neg ip fp \<and> list_all is_digit ip \<and> ip \<noteq> [] \<and>
        list_all is_digit fp \<and> length fp \<le> unat sc \<and> sc \<le> 38 \<and> length tx \<le> 128 \<and>
        \<bar>decimal_int neg ip fp (unat sc)\<bar> < 10 ^ 38 \<and>
        d = \<lparr>coefficient = big_string (decimal_int neg ip fp (unat sc)), dec_scale = sc\<rparr>)"
proof
  assume run: "ParseDecimal tx sc DefaultDecimalBounds = Inr d"
  from ParseDecimal_inv [OF run] obtain neg ip fp where
    t: "tx = decimal_text neg ip fp" and ip: "list_all is_digit ip" "ip \<noteq> []"
    and fp: "list_all is_digit fp" "length fp \<le> unat sc" by blast
  have b: "length tx \<le> 128" "sc \<le> 38"
    using ParseDecimal_default_bounds [OF run] by simp_all
  have "\<bar>decimal_int neg ip fp (unat sc)\<bar> < 10 ^ 38 \<and>
      d = \<lparr>coefficient = big_string (decimal_int neg ip fp (unat sc)), dec_scale = sc\<rparr>"
    using ParseDecimal_text [OF ip fp(1) b(1) [unfolded t] b(2) fp(2) refl] run t
    by (auto split: if_splits)
  with t ip fp b show "\<exists>neg ip fp. tx = decimal_text neg ip fp \<and> list_all is_digit ip \<and> ip \<noteq> [] \<and>
        list_all is_digit fp \<and> length fp \<le> unat sc \<and> sc \<le> 38 \<and> length tx \<le> 128 \<and>
        \<bar>decimal_int neg ip fp (unat sc)\<bar> < 10 ^ 38 \<and>
        d = \<lparr>coefficient = big_string (decimal_int neg ip fp (unat sc)), dec_scale = sc\<rparr>"
    by blast
qed (auto simp: ParseDecimal_text)

text \<open>
  Every parsed decimal passes \<open>Decimal.Validate\<close>, whatever the caller's
  bounds, and between two valid decimals of one scale equality of the text is
  equality of the number: the coefficient is a sound map key for a price.
\<close>

theorem parse_decimal_canonical:
  assumes "ParseDecimal tx sc b = Inr d" and "ParseDecimal tx' sc b' = Inr e"
  shows "Decimal_Validate d \<and> Decimal_Validate e \<and> dec_scale d = sc \<and>
     (coefficient d = coefficient e \<longleftrightarrow> coef_int (coefficient d) = coef_int (coefficient e))"
proof -
  have v: "Decimal_Validate d" "Decimal_Validate e"
    using assms by (auto dest: ParseDecimal_Validate)
  then have "coefficient d = big_string (coef_int (coefficient d))"
    "coefficient e = big_string (coef_int (coefficient e))"
    by (auto dest: valid_coefficient)
  then have "coefficient d = coefficient e \<longleftrightarrow> coef_int (coefficient d) = coef_int (coefficient e)"
    by (metis big_string_inj)
  with v ParseDecimal_result [OF assms(1)] show ?thesis by simp
qed

theorem parse_decimal_canonical_witness:
  "Decimal_Validate \<lparr>coefficient = ''-150'', dec_scale = 2\<rparr> \<and>
   coef_int ''-150'' = coef_int ''-150''"
proof -
  have "ParseDecimal ''-1.5'' 2 DefaultDecimalBounds = Inr \<lparr>coefficient = ''-150'', dec_scale = 2\<rparr>"
    by code_simp
  from parse_decimal_canonical [OF this this] show ?thesis by simp
qed

end
