(* ===== verification/Normalize.thy ===== *)
theory Normalize
  imports Decimal
begin

text \<open>
  The part of \<open>src/normalize\<close> the order books consume: units and numerics, raw
  coordinates, event metadata, the canonical encoder and event identity, and the
  validation of \<open>BookUpdateV1\<close>.  Enumerations that arrive from outside are Go
  string types, so a value may be any string and the model keeps the text; the
  validators reject what the code rejects.

  \<open>crypto/sha256\<close> is the parameter \<open>sha\<close> of every definition that hashes: the
  theorems hold for every function from byte strings to hashes, in particular
  for SHA-256, and an identity is stated through the exact bytes that are hashed.
\<close>

subsection \<open>Units and numerics\<close>

record nunit =
  u_kind :: string
  u_asset :: string
  u_base :: string
  u_quote :: string

record numeric =
  n_dec :: decimal
  n_unit :: nunit

record opt_i64 =
  oi_value :: i64
  oi_valid :: bool

record opt_u64 =
  ou_value :: u64
  ou_valid :: bool

definition UnitBaseAssetAmount :: string where "UnitBaseAssetAmount = ''base_asset''"
definition UnitQuoteAssetAmount :: string where "UnitQuoteAssetAmount = ''quote_asset''"
definition UnitQuotePerBase :: string where "UnitQuotePerBase = ''quote_asset_per_base_asset''"
definition UnitPercent :: string where "UnitPercent = ''percent''"
definition UnitRate :: string where "UnitRate = ''rate''"
definition UnitImpliedVolatility :: string where "UnitImpliedVolatility = ''implied_volatility''"

definition MaxUnitIDBytes :: nat where "MaxUnitIDBytes = 256"
definition MaxBookLevelsPerSide :: nat where "MaxBookLevelsPerSide = 10000"

definition BaseAssetUnit :: "string \<Rightarrow> nunit" where
  "BaseAssetUnit a = \<lparr>u_kind = UnitBaseAssetAmount, u_asset = a, u_base = [], u_quote = []\<rparr>"

definition SpotPriceUnit :: "string \<Rightarrow> string \<Rightarrow> nunit" where
  "SpotPriceUnit b q = \<lparr>u_kind = UnitQuotePerBase, u_asset = [], u_base = b, u_quote = q\<rparr>"

definition Unit_Validate :: "nunit \<Rightarrow> bool" where
  "Unit_Validate u \<longleftrightarrow>
     list_all (\<lambda>s. \<not> (length s > MaxUnitIDBytes \<or> has_nul s)) [u_asset u, u_base u, u_quote u] \<and>
     (if u_kind u = UnitBaseAssetAmount \<or> u_kind u = UnitQuoteAssetAmount then
        \<not> (u_asset u = [] \<or> u_base u \<noteq> [] \<or> u_quote u \<noteq> [])
      else if u_kind u = UnitQuotePerBase then
        \<not> (u_asset u \<noteq> [] \<or> u_base u = [] \<or> u_quote u = [] \<or> u_base u = u_quote u)
      else if u_kind u = UnitPercent \<or> u_kind u = UnitRate \<or> u_kind u = UnitImpliedVolatility then
        \<not> (u_asset u \<noteq> [] \<or> u_base u \<noteq> [] \<or> u_quote u \<noteq> [])
      else False)"

definition Numeric_Validate :: "numeric \<Rightarrow> bool" where
  "Numeric_Validate n \<longleftrightarrow> Decimal_Validate (n_dec n) \<and> Unit_Validate (n_unit n)"

subsection \<open>Raw coordinates, instrument identity and metadata\<close>

definition ConnectionEpoch :: string where "ConnectionEpoch = ''connection''"
definition PollCycleEpoch :: string where "PollCycleEpoch = ''poll_cycle''"

abbreviation zero_hash :: hash where "zero_hash \<equiv> replicate 32 0"
abbreviation zero_epoch_id :: bytes where "zero_epoch_id \<equiv> replicate 16 0"

record raw_coordinate =
  rc_source :: string
  rc_channel :: string
  rc_epoch_kind :: string
  rc_epoch_id :: bytes
  rc_arrival :: u64
  rc_message :: u32
  rc_segment :: hash
  rc_record :: u64
  rc_payload :: hash

record instrument_identity =
  ii_uid :: string
  ii_native :: string
  ii_base :: string
  ii_quote :: string

record metadata =
  md_event_id :: hash
  md_event_id_version :: u16
  md_schema :: string
  md_schema_version :: u16
  md_source :: string
  md_channel :: string
  md_instrument :: string
  md_epoch_kind :: string
  md_epoch_id :: bytes
  md_arrival :: u64
  md_message :: u32
  md_exchange_time :: opt_i64
  md_exchange_resolution :: string
  md_source_time :: opt_i64
  md_source_resolution :: string
  md_received :: i64
  md_segment :: hash
  md_record :: u64
  md_payload :: hash
  md_fingerprint :: hash
  md_mapper_version :: string
  md_binding :: hash
  md_catalog :: hash
  md_flags :: "string list"

subsection \<open>The canonical encoder and event identity\<close>

definition ce_string :: "string \<Rightarrow> bytes" where
  "ce_string s = be_u32 (of_nat (length s)) @ str_bytes s"

definition EventIDEncodingVersion :: u16 where "EventIDEncodingVersion = 1"

definition event_id_bytes :: "metadata \<Rightarrow> bytes" where
  "event_id_bytes m =
     ce_string ''normalized-event-id'' @ be_u16 EventIDEncodingVersion @
     ce_string (md_source m) @ ce_string (md_channel m) @ ce_string (md_epoch_kind m) @
     md_epoch_id m @ be_u64 (md_arrival m) @ be_u32 (md_message m) @ md_segment m @
     be_u64 (md_record m) @ md_payload m @ ce_string (md_mapper_version m) @
     ce_string (md_source_resolution m) @ ce_string (md_schema m) @ be_u16 (md_schema_version m)"

definition eventID :: "(bytes \<Rightarrow> hash) \<Rightarrow> metadata \<Rightarrow> hash" where
  "eventID sha m = sha (event_id_bytes m)"

subsection \<open>Schema registry\<close>

text \<open>
  The frozen registry \<open>schemaV1\<close>, as far as lookups by name and version see it:
  event kind, schema name and version of the nine descriptors in order.
\<close>

definition schema_v1 :: "(string \<times> string \<times> u16) list" where
  "schema_v1 = [
     (''trade'', ''TradeV1'', 1), (''book_update'', ''BookUpdateV1'', 1),
     (''quote'', ''QuoteV1'', 1), (''ticker'', ''TickerV1'', 1),
     (''derivative_ticker'', ''DerivativeTickerV1'', 1), (''liquidation'', ''LiquidationV1'', 1),
     (''option_summary'', ''OptionSummaryV1'', 1), (''instrument_event'', ''InstrumentEventV1'', 1),
     (''source_health'', ''SourceHealthV1'', 1)]"

definition LookupSchema :: "string \<Rightarrow> u16 \<Rightarrow> string option" where
  "LookupSchema name v =
     map_option fst (List.find (\<lambda>(kind, n, w). n = name \<and> w = v) schema_v1)"

definition schemaAllowsEmptyInstrument :: "string \<Rightarrow> u16 \<Rightarrow> bool" where
  "schemaAllowsEmptyInstrument name v \<longleftrightarrow> LookupSchema name v = Some ''source_health''"

subsection \<open>Validation\<close>

definition ResolutionAbsent :: string where "ResolutionAbsent = ''absent''"

definition validTimeResolution :: "string \<Rightarrow> bool" where
  "validTimeResolution r \<longleftrightarrow>
     r \<in> set [ResolutionAbsent, ''nanosecond'', ''microsecond'', ''millisecond'', ''second'']"

definition valid_quality_flags :: "string list" where
  "valid_quality_flags = [''clock_uncertain'', ''exchange_time_regression'',
     ''schema_additive_field'', ''source_duplicate_candidate'']"

text \<open>The loop over the quality flags, with the previous flag of the slice.\<close>

fun flags_ok :: "string option \<Rightarrow> string list \<Rightarrow> bool" where
  "flags_ok prev [] = True"
| "flags_ok prev (f # fs) =
     (\<not> (f \<notin> set valid_quality_flags \<or> prev = Some f) \<and> flags_ok (Some f) fs)"

text \<open>The successive guards of \<open>Metadata.Validate\<close>.\<close>

definition metadata_common_ok :: "metadata \<Rightarrow> bool" where
  "metadata_common_ok m \<longleftrightarrow>
     (let registered = (LookupSchema (md_schema m) (md_schema_version m) \<noteq> None);
          instrument_valid =
            ((md_instrument m \<noteq> [] \<or> schemaAllowsEmptyInstrument (md_schema m) (md_schema_version m)) \<and>
             length (md_instrument m) \<le> 256 \<and> \<not> has_nul (md_instrument m))
      in \<not> (md_event_id_version m \<noteq> EventIDEncodingVersion \<or> \<not> registered \<or>
            md_schema m = [] \<or> length (md_schema m) > 64 \<or> has_nul (md_schema m) \<or>
            md_source m = [] \<or> length (md_source m) > 128 \<or>
            md_channel m = [] \<or> length (md_channel m) > 128 \<or> \<not> instrument_valid \<or>
            md_arrival m = 0 \<or> md_received m < 0 \<or> md_mapper_version m = [] \<or>
            length (md_mapper_version m) > 128 \<or> has_nul (md_mapper_version m) \<or>
            (md_epoch_kind m \<noteq> ConnectionEpoch \<and> md_epoch_kind m \<noteq> PollCycleEpoch) \<or>
            md_epoch_id m = zero_epoch_id))"

definition metadata_hashes_ok :: "metadata \<Rightarrow> bool" where
  "metadata_hashes_ok m \<longleftrightarrow>
     \<not> (md_segment m = zero_hash \<or> md_payload m = zero_hash \<or> md_fingerprint m = zero_hash \<or>
        md_binding m = zero_hash \<or> md_catalog m = zero_hash)"

definition metadata_times_ok :: "metadata \<Rightarrow> bool" where
  "metadata_times_ok m \<longleftrightarrow>
     \<not> ((\<not> oi_valid (md_exchange_time m) \<and> oi_value (md_exchange_time m) \<noteq> 0) \<or>
        (\<not> oi_valid (md_source_time m) \<and> oi_value (md_source_time m) \<noteq> 0) \<or>
        oi_valid (md_exchange_time m) \<noteq> (md_exchange_resolution m \<noteq> ResolutionAbsent) \<or>
        \<not> validTimeResolution (md_exchange_resolution m) \<or>
        md_source_resolution m = ResolutionAbsent \<or>
        \<not> validTimeResolution (md_source_resolution m))"

definition Metadata_Validate :: "(bytes \<Rightarrow> hash) \<Rightarrow> metadata \<Rightarrow> bool" where
  "Metadata_Validate sha m \<longleftrightarrow>
     metadata_common_ok m \<and> metadata_hashes_ok m \<and> metadata_times_ok m \<and>
     \<not> (length (md_flags m) > 64 \<or> \<not> sorted (md_flags m)) \<and>
     flags_ok None (md_flags m) \<and>
     md_event_id m = eventID sha m"

definition SideBuy :: string where "SideBuy = ''buy''"
definition SideSell :: string where "SideSell = ''sell''"
definition LevelUpsert :: string where "LevelUpsert = ''upsert_absolute''"
definition LevelDelete :: string where "LevelDelete = ''delete_zero_amount''"

record book_level =
  bl_side :: string
  bl_ordinal :: u32
  bl_action :: string
  bl_price :: numeric
  bl_amount :: numeric

record book_update =
  bu_meta :: metadata
  bu_kind :: string
  bu_depth :: string
  bu_aggregation :: string
  bu_first :: u64
  bu_last :: u64
  bu_previous :: opt_u64
  bu_checksum :: string
  bu_bids :: "book_level list"
  bu_asks :: "book_level list"
  bu_semantics :: string
  bu_eligibility :: string

definition validateSchema :: "(bytes \<Rightarrow> hash) \<Rightarrow> metadata \<Rightarrow> string \<Rightarrow> u16 \<Rightarrow> bool" where
  "validateSchema sha m name v \<longleftrightarrow>
     Metadata_Validate sha m \<and> \<not> (md_schema m \<noteq> name \<or> md_schema_version m \<noteq> v)"

fun levels_ok :: "string \<Rightarrow> nat \<Rightarrow> book_level list \<Rightarrow> bool" where
  "levels_ok side i [] = True"
| "levels_ok side i (l # ls) =
     (\<not> (bl_side l \<noteq> side \<or> bl_ordinal l \<noteq> of_nat i \<or>
         (bl_action l \<noteq> LevelUpsert \<and> bl_action l \<noteq> LevelDelete)) \<and>
      Numeric_Validate (bl_price l) \<and> Numeric_Validate (bl_amount l) \<and>
      \<not> (u_kind (n_unit (bl_price l)) \<noteq> UnitQuotePerBase \<or>
         u_kind (n_unit (bl_amount l)) \<noteq> UnitBaseAssetAmount \<or>
         u_base (n_unit (bl_price l)) \<noteq> u_asset (n_unit (bl_amount l))) \<and>
      (bl_action l = LevelDelete) = IsZero (n_dec (bl_amount l)) \<and>
      levels_ok side (Suc i) ls)"

definition validateLevels :: "book_level list \<Rightarrow> string \<Rightarrow> bool" where
  "validateLevels ls side \<longleftrightarrow> \<not> length ls > MaxBookLevelsPerSide \<and> levels_ok side 0 ls"

definition BookUpdate_Validate :: "(bytes \<Rightarrow> hash) \<Rightarrow> book_update \<Rightarrow> bool" where
  "BookUpdate_Validate sha e \<longleftrightarrow>
     validateSchema sha (bu_meta e) ''BookUpdateV1'' 1 \<and>
     \<not> (md_exchange_resolution (bu_meta e) \<noteq> md_source_resolution (bu_meta e) \<or>
        bu_kind e \<noteq> ''delta'' \<or> bu_depth e \<noteq> ''diff_depth'' \<or> bu_aggregation e \<noteq> ''100ms'' \<or>
        bu_semantics e \<noteq> ''absolute_base_asset_quantity'' \<or>
        bu_eligibility e \<noteq> ''eligible_with_rest_snapshot_bridge'' \<or>
        bu_first e > bu_last e \<or> bu_checksum e \<noteq> ''missing'') \<and>
     \<not> ou_valid (bu_previous e) \<and>
     validateLevels (bu_bids e) SideBuy \<and> validateLevels (bu_asks e) SideSell"

subsection \<open>The framing is unambiguous\<close>

lemma ce_string_append_inj:
  assumes "length s < 2 ^ 32" "length t < 2 ^ 32"
  shows "ce_string s @ x = ce_string t @ y \<longleftrightarrow> s = t \<and> x = y"
proof
  assume eq: "ce_string s @ x = ce_string t @ y"
  then have "be_u32 (of_nat (length s)) = be_u32 (of_nat (length t))"
      and rest: "str_bytes s @ x = str_bytes t @ y"
    by (simp_all add: ce_string_def)
  then have "(of_nat (length s) :: u32) = of_nat (length t)"
    by (simp add: be_u32_inj)
  then have "length s = length t"
    using assms by (metis unat_of_nat_u32)
  with rest have "str_bytes s = str_bytes t" "x = y" by simp_all
  then show "s = t \<and> x = y" by (simp add: str_bytes_inj)
qed auto

text \<open>The sizes of the fixed-size Go arrays in the metadata.\<close>

definition metadata_shape :: "metadata \<Rightarrow> bool" where
  "metadata_shape m \<longleftrightarrow> length (md_epoch_id m) = 16 \<and> length (md_segment m) = 32 \<and>
     length (md_payload m) = 32"

definition event_identity :: "metadata \<Rightarrow> raw_coordinate \<times> string \<times> string \<times> string \<times> u16" where
  "event_identity m =
     (\<lparr>rc_source = md_source m, rc_channel = md_channel m, rc_epoch_kind = md_epoch_kind m,
       rc_epoch_id = md_epoch_id m, rc_arrival = md_arrival m, rc_message = md_message m,
       rc_segment = md_segment m, rc_record = md_record m, rc_payload = md_payload m\<rparr>,
      md_mapper_version m, md_source_resolution m, md_schema m, md_schema_version m)"

lemma ce_string_inj:
  "length s < 2 ^ 32 \<Longrightarrow> length t < 2 ^ 32 \<Longrightarrow> ce_string s = ce_string t \<longleftrightarrow> s = t"
  using ce_string_append_inj [of s t "[]" "[]"] by simp

lemma validTimeResolution_length: "validTimeResolution r \<Longrightarrow> length r \<le> 11"
  by (auto simp: validTimeResolution_def ResolutionAbsent_def)

lemma Metadata_Validate_sizes:
  assumes "Metadata_Validate sha m"
  shows "length (md_source m) < 2 ^ 32" "length (md_channel m) < 2 ^ 32"
    "length (md_epoch_kind m) < 2 ^ 32" "length (md_mapper_version m) < 2 ^ 32"
    "length (md_source_resolution m) < 2 ^ 32" "length (md_schema m) < 2 ^ 32"
proof -
  have c: "metadata_common_ok m" and t: "metadata_times_ok m"
    using assms by (simp_all add: Metadata_Validate_def)
  show "length (md_source m) < 2 ^ 32" "length (md_channel m) < 2 ^ 32"
    "length (md_mapper_version m) < 2 ^ 32" "length (md_schema m) < 2 ^ 32"
    using c by (simp_all add: metadata_common_ok_def Let_def)
  have "md_epoch_kind m = ConnectionEpoch \<or> md_epoch_kind m = PollCycleEpoch"
    using c by (auto simp: metadata_common_ok_def Let_def)
  then show "length (md_epoch_kind m) < 2 ^ 32"
    by (auto simp: ConnectionEpoch_def PollCycleEpoch_def)
  have "validTimeResolution (md_source_resolution m)"
    using t by (simp add: metadata_times_ok_def)
  then show "length (md_source_resolution m) < 2 ^ 32"
    by (auto dest: validTimeResolution_length)
qed

lemma event_id_bytes_inj:
  assumes "Metadata_Validate sha m" "Metadata_Validate sha m'" "metadata_shape m" "metadata_shape m'"
  shows "event_id_bytes m = event_id_bytes m' \<longleftrightarrow> event_identity m = event_identity m'"
  using Metadata_Validate_sizes [OF assms(1)] Metadata_Validate_sizes [OF assms(2)] assms(3,4)
  by (auto simp: event_id_bytes_def event_identity_def metadata_shape_def ce_string_append_inj
      ce_string_inj be_u16_inj be_u32_inj be_u64_inj)

text \<open>
  Event identities name one raw record and mapping.  If two validated
  metadata values carry the same event ID, then either every field of the event
  identity agrees (raw coordinate, mapper version, source time resolution,
  schema name and version), or the two encodings are a collision of the hash:
  the canonical framing itself never confuses two identities.
\<close>

theorem event_id_identifies:
  assumes "Metadata_Validate sha m" "Metadata_Validate sha m'"
    and "metadata_shape m" "metadata_shape m'"
    and "md_event_id m = md_event_id m'"
  shows "event_identity m = event_identity m' \<or>
     (event_id_bytes m \<noteq> event_id_bytes m' \<and> sha (event_id_bytes m) = sha (event_id_bytes m'))"
proof (cases "event_id_bytes m = event_id_bytes m'")
  case True
  then show ?thesis
    using event_id_bytes_inj [OF assms(1-4)] by simp
next
  case False
  moreover have "md_event_id m = sha (event_id_bytes m)" "md_event_id m' = sha (event_id_bytes m')"
    using assms(1,2) by (simp_all add: Metadata_Validate_def eventID_def)
  ultimately show ?thesis using assms(5) by simp
qed

definition sample_metadata :: metadata where
  "sample_metadata = \<lparr>md_event_id = replicate 32 7, md_event_id_version = 1,
     md_schema = ''BookUpdateV1'', md_schema_version = 1, md_source = ''src'', md_channel = ''ws'',
     md_instrument = ''BTCUSDT'', md_epoch_kind = ''connection'', md_epoch_id = replicate 16 1,
     md_arrival = 1, md_message = 0, md_exchange_time = \<lparr>oi_value = 5, oi_valid = True\<rparr>,
     md_exchange_resolution = ''millisecond'', md_source_time = \<lparr>oi_value = 5, oi_valid = True\<rparr>,
     md_source_resolution = ''millisecond'', md_received = 9, md_segment = replicate 32 2,
     md_record = 0, md_payload = replicate 32 3, md_fingerprint = replicate 32 4,
     md_mapper_version = ''m1'', md_binding = replicate 32 5, md_catalog = replicate 32 6,
     md_flags = [''clock_uncertain'']\<rparr>"

lemma sample_metadata_valid: "Metadata_Validate (\<lambda>_. replicate 32 7) sample_metadata"
  unfolding Metadata_Validate_def eventID_def by code_simp

lemma sample_metadata_shape: "metadata_shape sample_metadata"
  by (simp add: metadata_shape_def sample_metadata_def)

theorem event_id_identifies_witness:
  "Metadata_Validate (\<lambda>_. replicate 32 7) sample_metadata \<and>
   event_identity sample_metadata = event_identity sample_metadata"
  using event_id_identifies [OF sample_metadata_valid sample_metadata_valid
      sample_metadata_shape sample_metadata_shape refl] sample_metadata_valid
  by simp

end
