(* ===== verification/Book.thy ===== *)
theory Book
  imports Normalize
begin

text \<open>
  \<open>src/orderbook/book.go\<close> with the configuration and error types of
  \<open>src/orderbook/types.go\<close>: the two price-keyed sides of a book, validation of
  levels, preparation of an update's changes, the checks made before anything is
  mutated (projected level count, crossed book) and the projection to sorted
  levels.  An error is the list of sentinel errors that \<open>errors.Is\<close> finds in it,
  and \<open>[]\<close> is \<open>nil\<close>.

  The lemmas show that the two checks, which are computed without building the
  new book, are exact for the book that is then built; that an accepted update
  is the sequence of its level assignments and deletions on a price map; that
  the invariant of a side (canonical keys, positive prices, bounded size, no
  crossing) is kept; and that the projection does not depend on Go's map order.
\<close>

subsection \<open>Configuration and errors\<close>

datatype ob_error =
    ErrInvalidConfig | ErrInvalidUpdate | ErrInvalidSnapshot | ErrInvalidTransition | ErrClosed
  | ErrBufferMessages | ErrBufferBytes | ErrBufferTime | ErrLevelLimit | ErrSnapshotLimit
  | ErrSnapshotBytes | ErrSnapshotBehind | ErrBoundary | ErrSequenceGap | ErrCrossedBook
  | ErrNegativeLevel | ErrInvalidLevel | ErrOutputLimit | ErrRawDiscontinuity
  | ErrIdentityDiscontinuity
  | CtxCanceled | CtxDeadlineExceeded | ForeignError string

type_synonym errs = "ob_error list"

record bounds =
  b_messages :: u32
  b_bytes :: u64
  b_span :: i64
  b_levels :: u32
  b_snapshot_bytes :: u64
  b_fetches :: u32
  b_outputs :: u32

record config =
  cfg_source :: string
  cfg_update_channel :: string
  cfg_snapshot_channel :: string
  cfg_instrument :: instrument_identity
  cfg_catalog :: hash
  cfg_mapper_version :: string
  cfg_binding :: hash
  cfg_reject_crossed :: bool
  cfg_bounds :: bounds

record snapshot_level =
  sn_price :: numeric
  sn_amount :: numeric

record snapshot_observation =
  so_version :: u16
  so_identity :: hash
  so_source :: string
  so_channel :: string
  so_instrument :: string
  so_last :: u64
  so_bids :: "snapshot_level list"
  so_asks :: "snapshot_level list"
  so_coordinate :: raw_coordinate
  so_bytes :: u64

record stored_level =
  sl_price :: decimal
  sl_amount :: decimal
  sl_coef :: int

record level_change =
  lc_key :: string
  lc_delete :: bool
  lc_level :: stored_level

type_synonym side_map = "(string \<times> stored_level) list"
type_synonym change_map = "(string \<times> level_change) list"

record book_state =
  bs_bids :: side_map
  bs_asks :: side_map

record level =
  lv_price :: decimal
  lv_amount :: decimal

definition empty_book :: book_state where
  "empty_book = \<lparr>bs_bids = [], bs_asks = []\<rparr>"

subsection \<open>Level validation\<close>

definition validateStoredLevel ::
  "config \<Rightarrow> numeric \<Rightarrow> numeric \<Rightarrow> bool \<Rightarrow> ob_error + stored_level" where
  "validateStoredLevel cfg price amount deleting =
     (if \<not> Numeric_Validate price then Inl ErrInvalidLevel
      else if \<not> Numeric_Validate amount then Inl ErrInvalidLevel
      else
        let pc = coefficient (n_dec price); ac = coefficient (n_dec amount) in
        if has_minus pc \<or> has_minus ac then Inl ErrNegativeLevel
        else if pc = ''0'' \<or> deleting \<noteq> (ac = ''0'') then Inl ErrInvalidLevel
        else if dec_scale (n_dec price) \<noteq> CanonicalPriceScale \<or>
                dec_scale (n_dec amount) \<noteq> CanonicalAmountScale \<or>
                n_unit price \<noteq> SpotPriceUnit (ii_base (cfg_instrument cfg)) (ii_quote (cfg_instrument cfg)) \<or>
                n_unit amount \<noteq> BaseAssetUnit (ii_base (cfg_instrument cfg))
        then Inl ErrInvalidLevel
        else (case big_set_string pc of
            None \<Rightarrow> Inl ErrInvalidLevel
          | Some wide \<Rightarrow>
              if wide \<le> 0 then Inl ErrInvalidLevel
              else Inr \<lparr>sl_price = n_dec price, sl_amount = n_dec amount, sl_coef = wide\<rparr>))"

subsection \<open>Best prices and the crossed-book check\<close>

definition chooseBest :: "int option \<Rightarrow> int \<Rightarrow> bool \<Rightarrow> int option" where
  "chooseBest current candidate maximum =
     (case current of
        None \<Rightarrow> Some candidate
      | Some c \<Rightarrow> if (maximum \<and> candidate > c) \<or> (\<not> maximum \<and> candidate < c) then Some candidate
                  else current)"

definition effectiveBest :: "side_map \<Rightarrow> change_map \<Rightarrow> bool \<Rightarrow> int option" where
  "effectiveBest levels changes maximum =
     (let best = foldl (\<lambda>best (key, l). if go_get changes key \<noteq> None then best
                          else chooseBest best (sl_coef l) maximum) None levels
      in foldl (\<lambda>best (key, c). if lc_delete c then best
                          else chooseBest best (sl_coef (lc_level c)) maximum) best changes)"

definition crossed :: "side_map \<Rightarrow> side_map \<Rightarrow> change_map \<Rightarrow> change_map \<Rightarrow> bool" where
  "crossed bids asks bidChanges askChanges =
     (case (effectiveBest bids bidChanges True, effectiveBest asks askChanges False) of
        (Some bestBid, Some bestAsk) \<Rightarrow> bestBid \<ge> bestAsk
      | _ \<Rightarrow> False)"

subsection \<open>Changes of an update\<close>

fun prepare_loop :: "config \<Rightarrow> string \<Rightarrow> nat \<Rightarrow> book_level list \<Rightarrow> level_change list \<Rightarrow> change_map
    \<Rightarrow> ob_error + (level_change list \<times> change_map)" where
  "prepare_loop cfg side i [] changes final = Inr (changes, final)"
| "prepare_loop cfg side i (l # ls) changes final =
     (if bl_side l \<noteq> side \<or> bl_ordinal l \<noteq> of_nat i then Inl ErrInvalidLevel
      else
        let deleting = (bl_action l = LevelDelete) in
        if \<not> deleting \<and> bl_action l \<noteq> LevelUpsert then Inl ErrInvalidLevel
        else (case validateStoredLevel cfg (bl_price l) (bl_amount l) deleting of
            Inl err \<Rightarrow> Inl err
          | Inr stored \<Rightarrow>
              let change = \<lparr>lc_key = coefficient (sl_price stored), lc_delete = deleting, lc_level = stored\<rparr>
              in prepare_loop cfg side (Suc i) ls (changes @ [change])
                   (go_put (lc_key change) change final)))"

definition prepareChanges ::
  "config \<Rightarrow> book_level list \<Rightarrow> string \<Rightarrow> ob_error + (level_change list \<times> change_map)" where
  "prepareChanges cfg levels side =
     (if (of_nat (length levels) :: u32) > b_levels (cfg_bounds cfg) then Inl ErrLevelLimit
      else prepare_loop cfg side 0 levels [] [])"

definition projectedLevelCount :: "side_map \<Rightarrow> change_map \<Rightarrow> int" where
  "projectedLevelCount levels changes =
     foldl (\<lambda>count (key, change).
        let exists = (go_get levels key \<noteq> None) in
        if lc_delete change \<and> exists then count - 1
        else if \<not> lc_delete change \<and> \<not> exists then count + 1 else count)
       (int (length levels)) changes"

fun applyChanges :: "side_map \<Rightarrow> level_change list \<Rightarrow> side_map" where
  "applyChanges levels [] = levels"
| "applyChanges levels (c # cs) =
     applyChanges (if lc_delete c then go_delete (lc_key c) levels
                   else go_put (lc_key c) (lc_level c) levels) cs"

definition applyEventAtomically :: "config \<Rightarrow> book_state \<Rightarrow> book_update \<Rightarrow> ob_error + book_state" where
  "applyEventAtomically cfg st event =
     (case prepareChanges cfg (bu_bids event) SideBuy of
        Inl err \<Rightarrow> Inl err
      | Inr (bidChanges, finalBids) \<Rightarrow>
          (case prepareChanges cfg (bu_asks event) SideSell of
             Inl err \<Rightarrow> Inl err
           | Inr (askChanges, finalAsks) \<Rightarrow>
               if projectedLevelCount (bs_bids st) finalBids > int (unat (b_levels (cfg_bounds cfg))) \<or>
                  projectedLevelCount (bs_asks st) finalAsks > int (unat (b_levels (cfg_bounds cfg)))
               then Inl ErrLevelLimit
               else if cfg_reject_crossed cfg \<and> crossed (bs_bids st) (bs_asks st) finalBids finalAsks
               then Inl ErrCrossedBook
               else Inr \<lparr>bs_bids = applyChanges (bs_bids st) bidChanges,
                         bs_asks = applyChanges (bs_asks st) askChanges\<rparr>))"

subsection \<open>Snapshots and projection\<close>

fun snapshot_side :: "config \<Rightarrow> snapshot_level list \<Rightarrow> side_map \<Rightarrow> ob_error + side_map" where
  "snapshot_side cfg [] acc = Inr acc"
| "snapshot_side cfg (l # ls) acc =
     (case validateStoredLevel cfg (sn_price l) (sn_amount l) False of
        Inl err \<Rightarrow> Inl err
      | Inr stored \<Rightarrow> snapshot_side cfg ls (go_put (coefficient (sl_price stored)) stored acc))"

definition prepareSnapshot :: "config \<Rightarrow> snapshot_observation \<Rightarrow> ob_error + book_state" where
  "prepareSnapshot cfg snapshot =
     (if (of_nat (length (so_bids snapshot)) :: u32) > b_levels (cfg_bounds cfg) \<or>
         (of_nat (length (so_asks snapshot)) :: u32) > b_levels (cfg_bounds cfg) then Inl ErrLevelLimit
      else (case snapshot_side cfg (so_bids snapshot) [] of
          Inl err \<Rightarrow> Inl err
        | Inr candBids \<Rightarrow>
            (case snapshot_side cfg (so_asks snapshot) [] of
               Inl err \<Rightarrow> Inl err
             | Inr candAsks \<Rightarrow>
                 if (of_nat (length candBids) :: u32) > b_levels (cfg_bounds cfg) \<or>
                    (of_nat (length candAsks) :: u32) > b_levels (cfg_bounds cfg) then Inl ErrLevelLimit
                 else if cfg_reject_crossed cfg \<and> crossed candBids candAsks [] [] then Inl ErrCrossedBook
                 else Inr \<lparr>bs_bids = candBids, bs_asks = candAsks\<rparr>)))"

definition projectedLevels :: "side_map \<Rightarrow> bool \<Rightarrow> level list" where
  "projectedLevels levels descending =
     map (\<lambda>l. \<lparr>lv_price = sl_price l, lv_amount = sl_amount l\<rparr>)
       (sort_key (\<lambda>l. if descending then - sl_coef l else sl_coef l) (map snd levels))"

subsection \<open>Stored levels\<close>

text \<open>What every stored level satisfies: its key is the canonical text of its positive price.\<close>

definition stored_ok :: "config \<Rightarrow> stored_level \<Rightarrow> bool" where
  "stored_ok cfg l \<longleftrightarrow>
     Decimal_Validate (sl_price l) \<and> Decimal_Validate (sl_amount l) \<and>
     coefficient (sl_price l) = big_string (sl_coef l) \<and> 0 < sl_coef l \<and>
     dec_scale (sl_price l) = CanonicalPriceScale \<and> dec_scale (sl_amount l) = CanonicalAmountScale"

lemma validateStoredLevel_ok:
  assumes "validateStoredLevel cfg price amount deleting = Inr l"
  shows "stored_ok cfg l" "sl_price l = n_dec price" "sl_amount l = n_dec amount"
    "coef_int (coefficient (sl_amount l)) \<ge> 0"
    "deleting = (coef_int (coefficient (sl_amount l)) = 0)"
proof -
  have num: "Numeric_Validate price" "Numeric_Validate amount"
    and sgn: "\<not> has_minus (coefficient (n_dec price))" "\<not> has_minus (coefficient (n_dec amount))"
    and del: "deleting = (coefficient (n_dec amount) = ''0'')"
    and sc: "dec_scale (n_dec price) = CanonicalPriceScale" "dec_scale (n_dec amount) = CanonicalAmountScale"
    and pos: "big_set_string (coefficient (n_dec price)) = Some (sl_coef l)" "0 < sl_coef l"
    and l: "sl_price l = n_dec price" "sl_amount l = n_dec amount"
    using assms by (auto simp: validateStoredLevel_def Let_def split: if_splits option.splits)
  have d: "Decimal_Validate (n_dec price)" "Decimal_Validate (n_dec amount)"
    using num by (simp_all add: Numeric_Validate_def)
  have "coefficient (n_dec price) = big_string (sl_coef l)"
    using valid_coefficient [OF d(1)] pos(1) by (simp add: coef_int_def)
  with d sc pos l show "stored_ok cfg l" by (simp add: stored_ok_def)
  show "sl_price l = n_dec price" "sl_amount l = n_dec amount" by (fact l)+
  show "coef_int (coefficient (sl_amount l)) \<ge> 0"
    using has_minus_valid [OF d(2)] sgn l by simp
  show "deleting = (coef_int (coefficient (sl_amount l)) = 0)"
    using del zero_text_valid [OF d(2)] l by simp
qed

definition side_ok :: "config \<Rightarrow> side_map \<Rightarrow> bool" where
  "side_ok cfg m \<longleftrightarrow> wf_map m \<and>
     (\<forall>(k, l) \<in> set m. k = coefficient (sl_price l) \<and> stored_ok cfg l \<and>
        0 < coef_int (coefficient (sl_amount l)))"

definition change_ok :: "config \<Rightarrow> level_change \<Rightarrow> bool" where
  "change_ok cfg c \<longleftrightarrow> lc_key c = coefficient (sl_price (lc_level c)) \<and> stored_ok cfg (lc_level c) \<and>
     0 \<le> coef_int (coefficient (sl_amount (lc_level c))) \<and>
     lc_delete c = (coef_int (coefficient (sl_amount (lc_level c))) = 0)"

lemma side_ok_Nil [simp]: "side_ok cfg []"
  by (simp add: side_ok_def)

lemma side_ok_getD: "side_ok cfg m \<Longrightarrow> go_get m k = Some l \<Longrightarrow>
    k = coefficient (sl_price l) \<and> stored_ok cfg l \<and> 0 < coef_int (coefficient (sl_amount l))"
  by (auto simp: side_ok_def go_get_mem)

lemma side_okI:
  assumes "wf_map m" "\<And>k l. go_get m k = Some l \<Longrightarrow>
    k = coefficient (sl_price l) \<and> stored_ok cfg l \<and> 0 < coef_int (coefficient (sl_amount l))"
  shows "side_ok cfg m"
  using assms by (auto simp: side_ok_def go_get_mem)

lemma side_ok_wf [simp, dest]: "side_ok cfg m \<Longrightarrow> wf_map m"
  by (simp add: side_ok_def)

lemma side_ok_put:
  assumes "side_ok cfg m" "stored_ok cfg l" "0 < coef_int (coefficient (sl_amount l))"
    "k = coefficient (sl_price l)"
  shows "side_ok cfg (go_put k l m)"
proof (rule side_okI)
  show "wf_map (go_put k l m)" using assms(1) by simp
next
  fix k' l'
  assume "go_get (go_put k l m) k' = Some l'"
  then show "k' = coefficient (sl_price l') \<and> stored_ok cfg l' \<and> 0 < coef_int (coefficient (sl_amount l'))"
    using assms side_ok_getD [OF assms(1)] by (cases "k' = k") auto
qed

lemma side_ok_delete:
  assumes "side_ok cfg m"
  shows "side_ok cfg (go_delete k m)"
proof (rule side_okI)
  show "wf_map (go_delete k m)" using assms by simp
next
  fix k' l'
  assume "go_get (go_delete k m) k' = Some l'"
  then show "k' = coefficient (sl_price l') \<and> stored_ok cfg l' \<and> 0 < coef_int (coefficient (sl_amount l'))"
    using side_ok_getD [OF assms] by (cases "k' = k") auto
qed

text \<open>Distinct keys carry distinct prices.\<close>

lemma side_ok_coef_inj:
  assumes "side_ok cfg m" "(k, l) \<in> set m" "(k', l') \<in> set m" "sl_coef l = sl_coef l'"
  shows "k = k' \<and> l = l'"
proof -
  have "k = big_string (sl_coef l)" "k' = big_string (sl_coef l')"
    using assms(1-3) by (auto simp: side_ok_def stored_ok_def)
  then have "k = k'" using assms(4) by simp
  moreover have "go_get m k = Some l" "go_get m k' = Some l'"
    using assms(1-3) by (auto simp: side_ok_def go_get_mem)
  ultimately show ?thesis by simp
qed

subsection \<open>What the prepared changes are\<close>

text \<open>The final change per key, seen as an overlay of the side.\<close>

definition overlay :: "('k \<Rightarrow> stored_level option) \<Rightarrow> ('k \<Rightarrow> level_change option) \<Rightarrow> 'k \<Rightarrow> stored_level option" where
  "overlay m f k = (case f k of None \<Rightarrow> m k | Some c \<Rightarrow> if lc_delete c then None else Some (lc_level c))"

lemma overlay_Some: "overlay m f k = Some l \<longleftrightarrow>
    (m k = Some l \<and> f k = None) \<or> (\<exists>c. f k = Some c \<and> \<not> lc_delete c \<and> l = lc_level c)"
  by (auto simp: overlay_def split: option.splits)

definition final_of :: "level_change list \<Rightarrow> change_map \<Rightarrow> change_map" where
  "final_of cs final = foldl (\<lambda>m c. go_put (lc_key c) c m) final cs"

lemma final_of_simps [simp]:
  "final_of [] final = final"
  "final_of (c # cs) final = final_of cs (go_put (lc_key c) c final)"
  "final_of (cs @ ds) final = final_of ds (final_of cs final)"
  by (simp_all add: final_of_def)

lemma wf_final_of: "wf_map final \<Longrightarrow> wf_map (final_of cs final)"
  by (induction cs arbitrary: final) auto

lemma prepare_loop_sound:
  assumes "prepare_loop cfg side i ls changes final = Inr (changes', final')"
  shows "\<exists>cs. changes' = changes @ cs \<and> final' = final_of cs final \<and> list_all (change_ok cfg) cs \<and>
     length cs = length ls \<and>
     list_all2 (\<lambda>l c. sl_price (lc_level c) = n_dec (bl_price l) \<and>
        sl_amount (lc_level c) = n_dec (bl_amount l) \<and> lc_delete c = (bl_action l = LevelDelete)) ls cs"
  using assms
proof (induction ls arbitrary: i changes final)
  case (Cons l ls)
  then obtain stored where
    v: "validateStoredLevel cfg (bl_price l) (bl_amount l) (bl_action l = LevelDelete) = Inr stored"
    and rest: "prepare_loop cfg side (Suc i) ls
      (changes @ [\<lparr>lc_key = coefficient (sl_price stored), lc_delete = (bl_action l = LevelDelete), lc_level = stored\<rparr>])
      (go_put (coefficient (sl_price stored))
        \<lparr>lc_key = coefficient (sl_price stored), lc_delete = (bl_action l = LevelDelete), lc_level = stored\<rparr> final)
      = Inr (changes', final')"
    by (auto simp: Let_def split: if_splits sum.splits)
  let ?c = "\<lparr>lc_key = coefficient (sl_price stored), lc_delete = (bl_action l = LevelDelete), lc_level = stored\<rparr>"
  from Cons.IH [OF rest] obtain cs where cs: "changes' = (changes @ [?c]) @ cs"
    "final' = final_of cs (go_put (coefficient (sl_price stored)) ?c final)"
    "list_all (change_ok cfg) cs" "length cs = length ls"
    "list_all2 (\<lambda>l c. sl_price (lc_level c) = n_dec (bl_price l) \<and>
        sl_amount (lc_level c) = n_dec (bl_amount l) \<and> lc_delete c = (bl_action l = LevelDelete)) ls cs"
    by blast
  have "change_ok cfg ?c"
    using validateStoredLevel_ok [OF v] by (simp add: change_ok_def)
  with cs validateStoredLevel_ok(2,3) [OF v] show ?case
    by (intro exI [of _ "?c # cs"]) simp
qed simp

lemma prepareChanges_sound:
  assumes "prepareChanges cfg ls side = Inr (changes, final)"
  shows "final = final_of changes []" "wf_map final" "list_all (change_ok cfg) changes"
    "list_all2 (\<lambda>l c. sl_price (lc_level c) = n_dec (bl_price l) \<and>
        sl_amount (lc_level c) = n_dec (bl_amount l) \<and> lc_delete c = (bl_action l = LevelDelete)) ls changes"
  using assms prepare_loop_sound [of cfg side 0 ls "[]" "[]" changes final]
  by (auto simp: prepareChanges_def wf_final_of split: if_splits)

lemma go_get_final_of:
  "go_get (final_of cs final) k =
     (case filter (\<lambda>c. lc_key c = k) cs of [] \<Rightarrow> go_get final k | ds \<Rightarrow> Some (last ds))"
  by (induction cs arbitrary: final) (auto split: list.splits)

text \<open>Applying the changes one by one is overlaying the final change of each key.\<close>

lemma go_get_applyChanges:
  "go_get (applyChanges m cs) = overlay (go_get m) (go_get (final_of cs []))"
proof -
  have "go_get (applyChanges m cs) k =
     (case filter (\<lambda>c. lc_key c = k) cs of [] \<Rightarrow> go_get m k
      | ds \<Rightarrow> if lc_delete (last ds) then None else Some (lc_level (last ds)))" for k
    by (induction cs arbitrary: m) (auto split: list.splits)
  then show ?thesis
    by (auto simp: overlay_def go_get_final_of fun_eq_iff split: list.splits)
qed

lemma wf_applyChanges: "wf_map m \<Longrightarrow> wf_map (applyChanges m cs)"
  by (induction cs arbitrary: m) auto

lemma side_ok_applyChanges:
  "side_ok cfg m \<Longrightarrow> list_all (change_ok cfg) cs \<Longrightarrow> side_ok cfg (applyChanges m cs)"
proof (induction cs arbitrary: m)
  case (Cons c cs)
  have "side_ok cfg (if lc_delete c then go_delete (lc_key c) m else go_put (lc_key c) (lc_level c) m)"
    using Cons.prems by (auto simp: change_ok_def intro: side_ok_put side_ok_delete)
  with Cons show ?case by simp
qed simp

subsection \<open>The pre-checks are exact\<close>

lemma overlay_cons:
  "overlay m (go_get ((k, c) # fs)) =
     (overlay m (go_get fs))(k := if lc_delete c then None else Some (lc_level c))"
  by (auto simp: overlay_def go_get_def fun_eq_iff)

lemma dom_overlay_finite: "finite (dom m) \<Longrightarrow> finite (dom (overlay m (go_get fs)))"
proof (rule finite_subset)
  show "dom (overlay m (go_get fs)) \<subseteq> dom m \<union> fst ` set fs"
    by (auto simp: overlay_def go_get_def split: option.splits if_splits dest: map_of_SomeD image_eqI [rotated])
      (metis domI domIff fst_conv image_eqI map_of_SomeD)+
qed auto

lemma projected_fold:
  assumes "distinct (map fst fs)" "finite (dom m)" "\<And>k. k \<in> fst ` set fs \<Longrightarrow> g k = m k"
  shows "foldl (\<lambda>count (key, change).
        let exists = (g key \<noteq> None) in
        if lc_delete change \<and> exists then count - 1
        else if \<not> lc_delete change \<and> \<not> exists then count + 1 else count) (a :: int) fs
     = a + int (card (dom (overlay m (go_get fs)))) - int (card (dom m))"
  using assms
proof (induction fs arbitrary: a)
  case Nil
  have "overlay m (go_get []) = m" by (rule ext) (simp add: overlay_def)
  then show ?case by (simp del: go_get_Nil)
next
  case (Cons kc fs)
  obtain k c where kc: "kc = (k, c)" by (cases kc)
  let ?o = "overlay m (go_get fs)"
  have k: "k \<notin> fst ` set fs" using Cons.prems(1) kc by (auto simp: image_iff)
  then have ok: "?o k = m k"
    by (simp add: overlay_def go_get_None [THEN iffD2])
  have fin: "finite (dom ?o)" by (rule dom_overlay_finite [OF Cons.prems(2)])
  have gk: "g k = m k" using Cons.prems(3) kc by simp
  have step: "int (card (dom (overlay m (go_get ((k, c) # fs))))) = int (card (dom ?o)) +
      (if lc_delete c \<and> m k \<noteq> None then - 1 else if \<not> lc_delete c \<and> m k = None then 1 else 0)"
  proof (cases "m k")
    case None
    then have "k \<notin> dom ?o" using ok by auto
    with fin None show ?thesis by (simp add: overlay_cons dom_def [symmetric] insert_absorb)
  next
    case (Some l)
    then have "k \<in> dom ?o" using ok by auto
    then have "0 < card (dom ?o)" using fin by (auto simp: card_gt_0_iff)
    with \<open>k \<in> dom ?o\<close> Some show ?thesis
      by (simp add: overlay_cons insert_absorb card_Diff_singleton of_nat_diff)
  qed
  show ?case
    unfolding kc foldl.simps prod.case using Cons gk step kc
    by (cases "lc_delete c"; cases "m k") (simp_all add: Let_def)
qed

text \<open>The projected count is the number of levels after the changes.\<close>

lemma projectedLevelCount_exact:
  assumes "wf_map m"
  shows "projectedLevelCount m (final_of cs []) = int (length (applyChanges m cs))"
proof -
  have wf: "wf_map (final_of cs [])" by (simp add: wf_final_of)
  have fin: "finite (dom (go_get m))"
    by (simp add: go_get_def finite_dom_map_of)
  have "projectedLevelCount m (final_of cs []) =
      int (length m) + int (card (dom (overlay (go_get m) (go_get (final_of cs []))))) - int (card (dom (go_get m)))"
    unfolding projectedLevelCount_def using wf fin
    by (intro projected_fold) (simp_all add: wf_map_def)
  also have "\<dots> = int (card (dom (go_get (applyChanges m cs))))"
    by (simp add: length_wf_map [OF assms] go_get_applyChanges)
  finally show ?thesis
    by (simp add: length_wf_map [OF wf_applyChanges [OF assms]])
qed

text \<open>The prices that a side holds.\<close>

definition price_set :: "('k \<Rightarrow> stored_level option) \<Rightarrow> int set" where
  "price_set m = {sl_coef l |k l. m k = Some l}"

definition best_of :: "bool \<Rightarrow> int set \<Rightarrow> int option" where
  "best_of maximum S = (if S = {} then None else Some (if maximum then Max S else Min S))"

lemma price_set_go_get: "wf_map m \<Longrightarrow> price_set (go_get m) = sl_coef ` snd ` set m"
  by (force simp: price_set_def go_get_mem image_iff)

lemma chooseBest_best_of:
  "finite S \<Longrightarrow> chooseBest (best_of maximum S) x maximum = best_of maximum (insert x S)"
proof (cases "S = {}")
  case False
  assume fin: "finite S"
  have "Max (insert x S) = max x (Max S)" "Min (insert x S) = min x (Min S)"
    using fin False by simp_all
  with False show ?thesis
    by (auto simp: chooseBest_def best_of_def max_def min_def)
qed (simp add: chooseBest_def best_of_def)

lemma foldl_chooseBest:
  "finite S \<Longrightarrow> foldl (\<lambda>b x. chooseBest b x maximum) (best_of maximum S) xs = best_of maximum (set xs \<union> S)"
proof (induction xs arbitrary: S)
  case (Cons x xs)
  have "foldl (\<lambda>b x. chooseBest b x maximum) (best_of maximum (insert x S)) xs
      = best_of maximum (set xs \<union> insert x S)"
    using Cons.prems by (intro Cons.IH) simp
  then show ?case using Cons.prems by (simp add: chooseBest_best_of)
qed simp

lemma foldl_skip:
  "foldl (\<lambda>b (k, v). if P k v then b else g b (f v)) b xs
     = foldl g b (map (\<lambda>(k, v). f v) (filter (\<lambda>(k, v). \<not> P k v) xs))"
  by (induction xs arbitrary: b) auto

text \<open>\<open>effectiveBest\<close> is the best price of the side as it will be after the changes.\<close>

lemma effectiveBest_exact:
  assumes "wf_map m" "wf_map f"
  shows "effectiveBest m f maximum = best_of maximum (price_set (overlay (go_get m) (go_get f)))"
proof -
  let ?kept = "map (\<lambda>(k, l). sl_coef l) (filter (\<lambda>(k, l). \<not> go_get f k \<noteq> None) m)"
  let ?new = "map (\<lambda>(k, c). sl_coef (lc_level c)) (filter (\<lambda>(k, c). \<not> lc_delete c) f)"
  have "effectiveBest m f maximum =
      foldl (\<lambda>b x. chooseBest b x maximum)
        (foldl (\<lambda>b x. chooseBest b x maximum) (best_of maximum {}) ?kept) ?new"
    unfolding effectiveBest_def Let_def
      foldl_skip [of "\<lambda>k l. go_get f k \<noteq> None" "\<lambda>b x. chooseBest b x maximum" sl_coef]
      foldl_skip [of "\<lambda>k c. lc_delete c" "\<lambda>b x. chooseBest b x maximum" "\<lambda>c. sl_coef (lc_level c)"]
    by (simp add: best_of_def)
  also have "\<dots> = best_of maximum (set ?new \<union> set ?kept)"
    by (simp add: foldl_chooseBest)
  also have "set ?new \<union> set ?kept = price_set (overlay (go_get m) (go_get f))"
  proof (rule set_eqI)
    fix x
    have "x \<in> set ?kept \<longleftrightarrow> (\<exists>k l. go_get m k = Some l \<and> go_get f k = None \<and> x = sl_coef l)"
      using go_get_mem [OF assms(1)] by force
    moreover have "x \<in> set ?new \<longleftrightarrow>
        (\<exists>k c. go_get f k = Some c \<and> \<not> lc_delete c \<and> x = sl_coef (lc_level c))"
      using go_get_mem [OF assms(2)] by force
    moreover have "x \<in> price_set (overlay (go_get m) (go_get f)) \<longleftrightarrow>
        (\<exists>k l. go_get m k = Some l \<and> go_get f k = None \<and> x = sl_coef l) \<or>
        (\<exists>k c. go_get f k = Some c \<and> \<not> lc_delete c \<and> x = sl_coef (lc_level c))"
      by (simp add: price_set_def overlay_Some) blast
    ultimately show "x \<in> set ?new \<union> set ?kept \<longleftrightarrow> x \<in> price_set (overlay (go_get m) (go_get f))"
      by blast
  qed
  finally show ?thesis .
qed

text \<open>A book is crossed when some bid is at or above some ask.\<close>

definition crossing :: "side_map \<Rightarrow> side_map \<Rightarrow> bool" where
  "crossing bids asks \<longleftrightarrow> (\<exists>b \<in> set bids. \<exists>a \<in> set asks. sl_coef (snd b) \<ge> sl_coef (snd a))"

lemma crossing_price_sets:
  "wf_map bids \<Longrightarrow> wf_map asks \<Longrightarrow> crossing bids asks \<longleftrightarrow>
     (\<exists>b \<in> price_set (go_get bids). \<exists>a \<in> price_set (go_get asks). b \<ge> a)"
  by (auto simp: crossing_def price_set_go_get)

lemma best_of_crossed:
  assumes "finite B" "finite A"
  shows "(case (best_of True B, best_of False A) of (Some b, Some a) \<Rightarrow> b \<ge> a | _ \<Rightarrow> False)
     \<longleftrightarrow> (\<exists>b \<in> B. \<exists>a \<in> A. b \<ge> a)"
proof (cases "B = {} \<or> A = {}")
  case False
  then have "Max B \<in> B" "Min A \<in> A" using assms by auto
  moreover have "b \<le> Max B" if "b \<in> B" for b using that assms by simp
  moreover have "Min A \<le> a" if "a \<in> A" for a using that assms by simp
  ultimately have "Min A \<le> Max B \<longleftrightarrow> (\<exists>b \<in> B. \<exists>a \<in> A. b \<ge> a)"
    by (meson order_trans)
  with False show ?thesis by (simp add: best_of_def)
qed (auto simp: best_of_def)

lemma crossed_exact:
  assumes "wf_map bids" "wf_map asks"
  shows "crossed bids asks (final_of cs []) (final_of ds []) =
     crossing (applyChanges bids cs) (applyChanges asks ds)"
proof -
  have fin: "finite (price_set (go_get m))" if "wf_map m" for m
    using that by (simp add: price_set_go_get)
  have wf: "wf_map (applyChanges bids cs)" "wf_map (applyChanges asks ds)"
    using assms by (simp_all add: wf_applyChanges)
  show ?thesis
    unfolding crossed_def
    using assms wf best_of_crossed [OF fin [OF wf(1)] fin [OF wf(2)]]
    by (simp add: effectiveBest_exact wf_final_of crossing_price_sets
        go_get_applyChanges [symmetric])
qed

subsection \<open>Applying an update\<close>

text \<open>
  The reference reading of \<open>applyEventAtomically\<close>: build both new sides, then
  look at the result.
\<close>

definition apply_reference :: "config \<Rightarrow> book_state \<Rightarrow> level_change list \<Rightarrow> level_change list
    \<Rightarrow> ob_error + book_state" where
  "apply_reference cfg st bidChanges askChanges =
     (let st' = \<lparr>bs_bids = applyChanges (bs_bids st) bidChanges, bs_asks = applyChanges (bs_asks st) askChanges\<rparr>
      in if length (bs_bids st') > unat (b_levels (cfg_bounds cfg)) \<or>
            length (bs_asks st') > unat (b_levels (cfg_bounds cfg)) then Inl ErrLevelLimit
         else if cfg_reject_crossed cfg \<and> crossing (bs_bids st') (bs_asks st') then Inl ErrCrossedBook
         else Inr st')"

lemma int_unat_less: "int (unat w) < int n \<longleftrightarrow> unat w < n"
  by (rule of_nat_less_iff)

lemma applyEventAtomically_reference:
  assumes "wf_map (bs_bids st)" "wf_map (bs_asks st)"
  shows "applyEventAtomically cfg st event =
     (case prepareChanges cfg (bu_bids event) SideBuy of
        Inl err \<Rightarrow> Inl err
      | Inr (bidChanges, _) \<Rightarrow>
          (case prepareChanges cfg (bu_asks event) SideSell of
             Inl err \<Rightarrow> Inl err
           | Inr (askChanges, _) \<Rightarrow> apply_reference cfg st bidChanges askChanges))"
proof -
  have f: "final = final_of changes []" if "prepareChanges cfg ls side = Inr (changes, final)" for ls side changes final
    using prepareChanges_sound(1) [OF that] .
  show ?thesis
    unfolding applyEventAtomically_def apply_reference_def Let_def
    using assms
    by (auto simp: projectedLevelCount_exact crossed_exact int_unat_less simp del: int_nat_eq of_nat_unat
        dest!: f split: sum.splits)
qed

text \<open>The invariant of a book: both sides canonical, bounded, and not crossed when that is rejected.\<close>

definition book_ok :: "config \<Rightarrow> book_state \<Rightarrow> bool" where
  "book_ok cfg st \<longleftrightarrow> side_ok cfg (bs_bids st) \<and> side_ok cfg (bs_asks st) \<and>
     length (bs_bids st) \<le> unat (b_levels (cfg_bounds cfg)) \<and>
     length (bs_asks st) \<le> unat (b_levels (cfg_bounds cfg)) \<and>
     (cfg_reject_crossed cfg \<longrightarrow> \<not> crossing (bs_bids st) (bs_asks st))"

lemma book_ok_empty [simp]: "book_ok cfg empty_book"
  by (simp add: book_ok_def empty_book_def crossing_def)

lemma book_okD:
  "book_ok cfg st \<Longrightarrow> side_ok cfg (bs_bids st)" "book_ok cfg st \<Longrightarrow> side_ok cfg (bs_asks st)"
  by (simp_all add: book_ok_def)

lemma applyEventAtomically_cases:
  assumes "applyEventAtomically cfg st event = Inr st'" "book_ok cfg st"
  obtains cs ds f g where "prepareChanges cfg (bu_bids event) SideBuy = Inr (cs, f)"
    "prepareChanges cfg (bu_asks event) SideSell = Inr (ds, g)"
    "apply_reference cfg st cs ds = Inr st'"
  using assms applyEventAtomically_reference [of st cfg event]
  by (auto simp: book_ok_def split: sum.splits)

lemma applyEventAtomically_book_ok:
  assumes "book_ok cfg st" "applyEventAtomically cfg st event = Inr st'"
  shows "book_ok cfg st'"
  using assms
  by (elim applyEventAtomically_cases)
    (auto simp: apply_reference_def Let_def book_ok_def
      dest!: prepareChanges_sound(3) intro: side_ok_applyChanges split: if_splits)

subsection \<open>Refinement of a price map\<close>

text \<open>
  The abstract side is a map from canonical price to amount; an update assigns
  the amount of each of its levels in order, an amount of zero removing the price.
\<close>

definition abs_side :: "side_map \<Rightarrow> string \<Rightarrow> decimal option" where
  "abs_side m k = map_option sl_amount (go_get m k)"

definition assign_level :: "(string \<Rightarrow> decimal option) \<Rightarrow> book_level \<Rightarrow> string \<Rightarrow> decimal option" where
  "assign_level a l = a(coefficient (n_dec (bl_price l)) :=
     (if bl_action l = LevelDelete then None else Some (n_dec (bl_amount l))))"

lemma abs_side_applyChanges:
  assumes "list_all2 (\<lambda>l c. sl_price (lc_level c) = n_dec (bl_price l) \<and>
        sl_amount (lc_level c) = n_dec (bl_amount l) \<and> lc_delete c = (bl_action l = LevelDelete)) ls cs"
    "list_all (change_ok cfg) cs"
  shows "abs_side (applyChanges m cs) = foldl assign_level (abs_side m) ls"
  using assms
proof (induction ls cs arbitrary: m rule: list_all2_induct)
  case (Cons l ls c cs)
  have "abs_side (if lc_delete c then go_delete (lc_key c) m else go_put (lc_key c) (lc_level c) m)
      = assign_level (abs_side m) l"
    using Cons by (auto simp: abs_side_def assign_level_def change_ok_def fun_eq_iff)
  with Cons show ?case by simp
qed simp

lemma applyEventAtomically_refines:
  assumes "book_ok cfg st" "applyEventAtomically cfg st event = Inr st'"
  shows "abs_side (bs_bids st') = foldl assign_level (abs_side (bs_bids st)) (bu_bids event) \<and>
    abs_side (bs_asks st') = foldl assign_level (abs_side (bs_asks st)) (bu_asks event)"
  using assms
  by (elim applyEventAtomically_cases)
    (auto simp: apply_reference_def Let_def split: if_splits
      intro!: abs_side_applyChanges dest: prepareChanges_sound(3,4))

subsection \<open>Snapshots\<close>

lemma snapshot_side_ok:
  assumes "snapshot_side cfg ls acc = Inr m" "side_ok cfg acc"
  shows "side_ok cfg m \<and> length m \<le> length acc + length ls"
  using assms
proof (induction ls arbitrary: acc)
  case (Cons l ls)
  then obtain stored where v: "validateStoredLevel cfg (sn_price l) (sn_amount l) False = Inr stored"
    and rest: "snapshot_side cfg ls (go_put (coefficient (sl_price stored)) stored acc) = Inr m"
    by (auto split: sum.splits)
  have "side_ok cfg (go_put (coefficient (sl_price stored)) stored acc)"
    using validateStoredLevel_ok [OF v] Cons.prems(2) by (intro side_ok_put) auto
  from Cons.IH [OF rest this] show ?case
    using length_go_put_le [of "coefficient (sl_price stored)" stored acc] by simp
qed simp

lemma prepareSnapshot_book_ok:
  assumes "prepareSnapshot cfg s = Inr st" "length (so_bids s) < 2 ^ 32" "length (so_asks s) < 2 ^ 32"
  shows "book_ok cfg st"
proof -
  obtain b a where b: "snapshot_side cfg (so_bids s) [] = Inr b" and a: "snapshot_side cfg (so_asks s) [] = Inr a"
    and st: "st = \<lparr>bs_bids = b, bs_asks = a\<rparr>"
    and len: "(of_nat (length b) :: u32) \<le> b_levels (cfg_bounds cfg)" "(of_nat (length a) :: u32) \<le> b_levels (cfg_bounds cfg)"
    and cr: "\<not> (cfg_reject_crossed cfg \<and> crossed b a [] [])"
    using assms(1) by (auto simp: prepareSnapshot_def not_less split: if_splits sum.splits)
  have sb: "side_ok cfg b" "length b < 2 ^ 32" and sa: "side_ok cfg a" "length a < 2 ^ 32"
    using snapshot_side_ok [OF b] snapshot_side_ok [OF a] assms(2,3) by auto
  have "crossed b a [] [] = crossing b a"
    using crossed_exact [of b a "[]" "[]"] sb sa by simp
  with sb sa st len cr show ?thesis
    by (simp add: book_ok_def word_le_nat_alt unat_of_nat_u32)
qed

subsection \<open>Projection\<close>

definition level_coef :: "level \<Rightarrow> int" where
  "level_coef l = coef_int (coefficient (lv_price l))"

lemma stored_ok_level_coef: "stored_ok cfg l \<Longrightarrow> coef_int (coefficient (sl_price l)) = sl_coef l"
  by (simp add: stored_ok_def coef_int_def)

lemma side_ok_distinct_coef:
  assumes "side_ok cfg m"
  shows "distinct (map (\<lambda>l. sl_coef l) (map snd m))"
  using assms
proof (induction m)
  case (Cons kl m)
  then have ok: "side_ok cfg m" by (auto simp: side_ok_def wf_map_def)
  have "sl_coef (snd kl) \<noteq> sl_coef (snd kl')" if "kl' \<in> set m" for kl'
  proof
    assume eq: "sl_coef (snd kl) = sl_coef (snd kl')"
    have "fst kl = fst kl'"
      using side_ok_coef_inj [OF Cons.prems, of "fst kl" "snd kl" "fst kl'" "snd kl'"] eq that by simp
    with that Cons.prems show False by (auto simp: side_ok_def wf_map_def)
  qed
  with Cons.IH [OF ok] show ?case by auto
qed simp

lemma projectedLevels_coefs:
  assumes "side_ok cfg m"
  shows "map level_coef (projectedLevels m descending) =
    map sl_coef (sort_key (\<lambda>l. if descending then - sl_coef l else sl_coef l) (map snd m))"
proof -
  have "stored_ok cfg l" if "l \<in> set (map snd m)" for l
    using that assms by (auto simp: side_ok_def)
  then show ?thesis
    by (auto simp: projectedLevels_def level_coef_def dest: stored_ok_level_coef)
qed

lemma sorted_neg_iff: "sorted_wrt (>) (map f xs) \<longleftrightarrow> sorted_wrt (<) (map (\<lambda>x. - (f x :: int)) xs)"
  by (simp add: sorted_wrt_map)

lemma projectedLevels_sorted:
  assumes "side_ok cfg m"
  shows "sorted_wrt (if descending then (>) else (<)) (map level_coef (projectedLevels m descending))"
proof -
  let ?k = "\<lambda>l. if descending then - sl_coef l else sl_coef l"
  let ?xs = "sort_key ?k (map snd m)"
  have "sorted (map ?k ?xs)" by simp
  moreover have "distinct (map ?k ?xs)"
    using side_ok_distinct_coef [OF assms]
    by (auto simp: distinct_map inj_on_def)
  ultimately have "sorted_wrt (<) (map ?k ?xs)"
    by (simp add: strict_sorted_iff)
  then show ?thesis
    by (cases descending) (simp_all add: projectedLevels_coefs [OF assms] sorted_neg_iff)
qed

text \<open>Go's random map order does not show: equal maps project to the same list.\<close>

lemma projectedLevels_order_free:
  assumes "side_ok cfg m" "side_ok cfg m'" "go_get m = go_get m'"
  shows "projectedLevels m descending = projectedLevels m' descending"
proof -
  let ?k = "\<lambda>l. if descending then - sl_coef l else sl_coef l"
  have "mset m = mset m'"
    using assms by (intro wf_map_same_mset) auto
  then have "mset (map snd m) = mset (map snd m')" by simp
  moreover have "inj_on ?k (set (map snd m))"
    using side_ok_distinct_coef [OF assms(1)] by (auto simp: distinct_map inj_on_def)
  ultimately have "sort_key ?k (map snd m) = sort_key ?k (map snd m')"
    by (rule sort_key_mset_unique)
  then show ?thesis by (simp add: projectedLevels_def)
qed

subsection \<open>Properties\<close>

text \<open>
  C15. The checks that \<open>applyEventAtomically\<close> makes before it mutates anything are
  exact: it rejects an update for its level count or for crossing exactly when
  the book that the update would produce has too many levels or is crossed, and
  otherwise returns exactly that book.
\<close>

theorem apply_event_exact:
  assumes "wf_map (bs_bids st)" "wf_map (bs_asks st)"
  shows "applyEventAtomically cfg st event =
     (case prepareChanges cfg (bu_bids event) SideBuy of
        Inl err \<Rightarrow> Inl err
      | Inr (bidChanges, _) \<Rightarrow>
          (case prepareChanges cfg (bu_asks event) SideSell of
             Inl err \<Rightarrow> Inl err
           | Inr (askChanges, _) \<Rightarrow> apply_reference cfg st bidChanges askChanges))"
  using assms by (rule applyEventAtomically_reference)

text \<open>
  An accepted update keeps the invariant of the book: each side has distinct canonical
  positive prices with positive amounts, at most \<open>MaxLevelsPerSide\<close> levels, and no bid at
  or above an ask when crossed books are rejected; a rejected update has no new book.
\<close>

theorem apply_event_invariant:
  assumes "book_ok cfg st" "applyEventAtomically cfg st event = Inr st'"
  shows "book_ok cfg st'"
  using assms by (rule applyEventAtomically_book_ok)

text \<open>
  C16. Refinement: seen as maps from price to amount, the book after an accepted
  update is the old one with every level of the update assigned in order, where a deletion
  removes the price.
\<close>

theorem apply_event_refines:
  assumes "book_ok cfg st" "applyEventAtomically cfg st event = Inr st'"
  shows "abs_side (bs_bids st') = foldl assign_level (abs_side (bs_bids st)) (bu_bids event) \<and>
    abs_side (bs_asks st') = foldl assign_level (abs_side (bs_asks st)) (bu_asks event)"
  using assms by (rule applyEventAtomically_refines)

text \<open>
  A snapshot that \<open>prepareSnapshot\<close> accepts gives a book that satisfies the
  invariant, for snapshots of fewer than \<open>2 ^ 32\<close> levels a side (the count is
  compared as a \<open>uint32\<close>).
\<close>

theorem prepare_snapshot_invariant:
  assumes "prepareSnapshot cfg s = Inr st" "length (so_bids s) < 2 ^ 32" "length (so_asks s) < 2 ^ 32"
  shows "book_ok cfg st"
  using assms by (rule prepareSnapshot_book_ok)

text \<open>
  The projection of a side is a function of the map alone: it lists exactly the levels
  of the side, in strictly descending order of price for bids and strictly
  ascending order for asks, and two maps with the same contents give the same
  list whatever order Go ranges over them.
\<close>

theorem projected_levels_canonical:
  assumes "side_ok cfg m" "side_ok cfg m'" "go_get m = go_get m'"
  shows "sorted_wrt (if descending then (>) else (<)) (map level_coef (projectedLevels m descending)) \<and>
    set (projectedLevels m descending) =
      {\<lparr>lv_price = sl_price l, lv_amount = sl_amount l\<rparr> |k l. go_get m k = Some l} \<and>
    projectedLevels m' descending = projectedLevels m descending"
proof -
  have "set (projectedLevels m descending) =
      {\<lparr>lv_price = sl_price l, lv_amount = sl_amount l\<rparr> |k l. go_get m k = Some l}"
    using side_ok_wf [OF assms(1)] by (force simp: projectedLevels_def go_get_mem image_iff)
  then show ?thesis
    using projectedLevels_sorted [OF assms(1)] projectedLevels_order_free [OF assms] by simp
qed

subsection \<open>Concrete instances\<close>

definition sample_price :: "string \<Rightarrow> numeric" where
  "sample_price c = \<lparr>n_dec = \<lparr>coefficient = c, dec_scale = CanonicalPriceScale\<rparr>,
     n_unit = SpotPriceUnit ''btc'' ''usdt''\<rparr>"

definition sample_amount :: "string \<Rightarrow> numeric" where
  "sample_amount c = \<lparr>n_dec = \<lparr>coefficient = c, dec_scale = CanonicalAmountScale\<rparr>,
     n_unit = BaseAssetUnit ''btc''\<rparr>"

definition sample_config :: config where
  "sample_config = \<lparr>cfg_source = ''src'', cfg_update_channel = ''ws'', cfg_snapshot_channel = ''rest'',
     cfg_instrument = \<lparr>ii_uid = ''BTCUSDT'', ii_native = ''BTCUSDT'', ii_base = ''btc'', ii_quote = ''usdt''\<rparr>,
     cfg_catalog = replicate 32 6, cfg_mapper_version = ''m1'', cfg_binding = replicate 32 5,
     cfg_reject_crossed = True,
     cfg_bounds = \<lparr>b_messages = 4, b_bytes = 1000, b_span = 1000, b_levels = 3,
       b_snapshot_bytes = 1000, b_fetches = 2, b_outputs = 5\<rparr>\<rparr>"

definition sample_level :: "string \<Rightarrow> u32 \<Rightarrow> string \<Rightarrow> string \<Rightarrow> book_level" where
  "sample_level side i price amount = \<lparr>bl_side = side, bl_ordinal = i,
     bl_action = (if amount = ''0'' then LevelDelete else LevelUpsert),
     bl_price = sample_price price, bl_amount = sample_amount amount\<rparr>"

definition sample_update :: "u64 \<Rightarrow> u64 \<Rightarrow> u64 \<Rightarrow> book_level list \<Rightarrow> book_level list \<Rightarrow> book_update" where
  "sample_update arrival f l bids asks = \<lparr>bu_meta = sample_metadata\<lparr>md_arrival := arrival\<rparr>,
     bu_kind = ''delta'', bu_depth = ''diff_depth'', bu_aggregation = ''100ms'', bu_first = f,
     bu_last = l, bu_previous = \<lparr>ou_value = 0, ou_valid = False\<rparr>, bu_checksum = ''missing'',
     bu_bids = bids, bu_asks = asks, bu_semantics = ''absolute_base_asset_quantity'',
     bu_eligibility = ''eligible_with_rest_snapshot_bridge''\<rparr>"

definition sample_event :: book_update where
  "sample_event = sample_update 1 10 12
     [sample_level SideBuy 0 ''100'' ''3'', sample_level SideBuy 1 ''99'' ''0'']
     [sample_level SideSell 0 ''101'' ''2'']"

definition sample_stored :: "int \<Rightarrow> string \<Rightarrow> string \<Rightarrow> stored_level" where
  "sample_stored z price amount = \<lparr>sl_price = n_dec (sample_price price),
     sl_amount = n_dec (sample_amount amount), sl_coef = z\<rparr>"

definition sample_book :: book_state where
  "sample_book = \<lparr>bs_bids = [(''99'', sample_stored 99 ''99'' ''5'')],
     bs_asks = [(''101'', sample_stored 101 ''101'' ''4'')]\<rparr>"

definition sample_book' :: book_state where
  "sample_book' = \<lparr>bs_bids = [(''100'', sample_stored 100 ''100'' ''3'')],
     bs_asks = [(''101'', sample_stored 101 ''101'' ''2'')]\<rparr>"

lemma sample_book_ok: "book_ok sample_config sample_book"
  by code_simp

lemma sample_book_apply: "applyEventAtomically sample_config sample_book sample_event = Inr sample_book'"
  by code_simp

theorem apply_event_exact_witness:
  "(\<exists>cs f ds g. prepareChanges sample_config (bu_bids sample_event) SideBuy = Inr (cs, f) \<and>
      prepareChanges sample_config (bu_asks sample_event) SideSell = Inr (ds, g) \<and>
      apply_reference sample_config sample_book cs ds = Inr sample_book')"
proof -
  have "wf_map (bs_bids sample_book)" "wf_map (bs_asks sample_book)" by code_simp+
  from apply_event_exact [OF this, of sample_config sample_event] show ?thesis
    by (auto simp: sample_book_apply split: sum.splits)
qed

theorem apply_event_invariant_witness: "book_ok sample_config sample_book'"
  by (rule apply_event_invariant [OF sample_book_ok sample_book_apply])

theorem apply_event_refines_witness:
  "foldl assign_level (abs_side (bs_bids sample_book)) (bu_bids sample_event) ''99'' = None \<and>
   foldl assign_level (abs_side (bs_bids sample_book)) (bu_bids sample_event) ''100''
     = Some (n_dec (sample_amount ''3''))"
proof -
  have "abs_side (bs_bids sample_book') ''99'' = None"
    "abs_side (bs_bids sample_book') ''100'' = Some (n_dec (sample_amount ''3''))" by code_simp+
  then show ?thesis
    using apply_event_refines [OF sample_book_ok sample_book_apply] by simp
qed

definition sample_levels_snapshot :: snapshot_observation where
  "sample_levels_snapshot = \<lparr>so_version = 1, so_identity = replicate 32 7, so_source = ''src'',
     so_channel = ''rest'', so_instrument = ''BTCUSDT'', so_last = 10,
     so_bids = [\<lparr>sn_price = sample_price ''99'', sn_amount = sample_amount ''5''\<rparr>],
     so_asks = [\<lparr>sn_price = sample_price ''101'', sn_amount = sample_amount ''4''\<rparr>],
     so_coordinate = \<lparr>rc_source = ''src'', rc_channel = ''rest'', rc_epoch_kind = ''poll_cycle'',
       rc_epoch_id = replicate 16 2, rc_arrival = 1, rc_message = 0, rc_segment = replicate 32 2,
       rc_record = 0, rc_payload = replicate 32 3\<rparr>, so_bytes = 100\<rparr>"

theorem prepare_snapshot_invariant_witness:
  "prepareSnapshot sample_config sample_levels_snapshot = Inr sample_book \<and> book_ok sample_config sample_book"
proof -
  have p: "prepareSnapshot sample_config sample_levels_snapshot = Inr sample_book" by code_simp
  have "length (so_bids sample_levels_snapshot) < 2 ^ 32" "length (so_asks sample_levels_snapshot) < 2 ^ 32"
    by (simp_all add: sample_levels_snapshot_def)
  from p prepare_snapshot_invariant [OF p this] show ?thesis by simp
qed

theorem projected_levels_canonical_witness:
  "sorted_wrt (>) (map level_coef (projectedLevels [(''99'', sample_stored 99 ''99'' ''5''),
      (''100'', sample_stored 100 ''100'' ''3'')] True)) \<and>
   projectedLevels [(''100'', sample_stored 100 ''100'' ''3''), (''99'', sample_stored 99 ''99'' ''5'')] True
     = projectedLevels [(''99'', sample_stored 99 ''99'' ''5''), (''100'', sample_stored 100 ''100'' ''3'')] True"
proof -
  let ?m = "[(''99'', sample_stored 99 ''99'' ''5''), (''100'', sample_stored 100 ''100'' ''3'')]"
  let ?n = "[(''100'', sample_stored 100 ''100'' ''3''), (''99'', sample_stored 99 ''99'' ''5'')]"
  have "side_ok sample_config ?m" "side_ok sample_config ?n" by code_simp+
  moreover have "go_get ?m = go_get ?n" by (simp add: go_get_def fun_eq_iff)
  ultimately show ?thesis
    using projected_levels_canonical [of sample_config ?m ?n True] by simp
qed

end
