(* ===== verification/Digest.thy ===== *)
theory Digest
  imports Book
begin

text \<open>
  \<open>src/orderbook/hash.go\<close> and the observation and projection types of
  \<open>src/orderbook/types.go\<close>.  A \<open>digestEncoder\<close> is the byte string written to
  its hash so far; \<open>sum\<close> is the parameter \<open>sha\<close> applied to it.  Each method of
  the encoder is the function from its argument to the bytes it appends.

  The locale \<open>framed\<close> is what the identities rely on: an encoding from which
  the encoded value can be split off whatever follows.  It is interpreted for the
  encoders of strings, raw coordinates, decimals, numerics and levels; with it an
  identity hash determines every field it covers, up to a collision of the hash.
\<close>

subsection \<open>Types of the observation and the projection\<close>

record input_range =
  ir_first :: raw_coordinate
  ir_last :: raw_coordinate
  ir_count :: u64
  ir_hash :: hash

record book_snapshot =
  bk_schema :: string
  bk_schema_version :: u16
  bk_encoding_version :: u16
  bk_hash :: hash
  bk_source :: string
  bk_update_channel :: string
  bk_snapshot_channel :: string
  bk_instrument :: string
  bk_base :: string
  bk_quote :: string
  bk_catalog :: hash
  bk_mapper_version :: string
  bk_binding :: hash
  bk_policy_name :: string
  bk_policy_version :: string
  bk_policy_id :: hash
  bk_epoch_id :: hash
  bk_initial_id :: hash
  bk_initial_raw :: raw_coordinate
  bk_last :: u64
  bk_ordinal :: u32
  bk_range :: input_range
  bk_bids :: "level list"
  bk_asks :: "level list"

definition BookSnapshotSchemaName :: string where "BookSnapshotSchemaName = ''BookSnapshotV1''"
definition BookSnapshotSchemaVersion :: u16 where "BookSnapshotSchemaVersion = 1"
definition PolicyEncodingVersion :: u16 where "PolicyEncodingVersion = 1"
definition SnapshotEncodingVersion :: u16 where "SnapshotEncodingVersion = 1"
definition ProjectionEncodingVersion :: u16 where "ProjectionEncodingVersion = 1"

subsection \<open>The digest encoder\<close>

definition de_bytes :: "bytes \<Rightarrow> bytes" where
  "de_bytes v = be_u64 (of_nat (length v)) @ v"

definition de_string :: "string \<Rightarrow> bytes" where
  "de_string s = de_bytes (str_bytes s)"

definition de_bool :: "bool \<Rightarrow> bytes" where
  "de_bool b = (if b then [1] else [0])"

definition de_int64 :: "i64 \<Rightarrow> bytes" where
  "de_int64 x = be_u64 (word_of_int x)"

definition newDigestEncoder :: "string \<Rightarrow> u16 \<Rightarrow> bytes" where
  "newDigestEncoder domain version = de_string domain @ be_u16 version"

definition de_rawCoordinate :: "raw_coordinate \<Rightarrow> bytes" where
  "de_rawCoordinate c =
     de_string (rc_source c) @ de_string (rc_channel c) @ de_string (rc_epoch_kind c) @
     rc_epoch_id c @ be_u64 (rc_arrival c) @ be_u32 (rc_message c) @ rc_segment c @
     be_u64 (rc_record c) @ rc_payload c"

definition de_decimal :: "decimal \<Rightarrow> bytes" where
  "de_decimal d = de_string (coefficient d) @ [dec_scale d]"

definition de_unit :: "nunit \<Rightarrow> bytes" where
  "de_unit u = de_string (u_kind u) @ de_string (u_asset u) @ de_string (u_base u) @ de_string (u_quote u)"

definition de_numeric :: "numeric \<Rightarrow> bytes" where
  "de_numeric n = de_decimal (n_dec n) @ de_unit (n_unit n)"

definition de_snapshotLevel :: "snapshot_level \<Rightarrow> bytes" where
  "de_snapshotLevel l = de_numeric (sn_price l) @ de_numeric (sn_amount l)"

definition de_snapshotLevels :: "snapshot_level list \<Rightarrow> bytes" where
  "de_snapshotLevels ls = be_u64 (of_nat (length ls)) @ concat (map de_snapshotLevel ls)"

definition de_level :: "level \<Rightarrow> bytes" where
  "de_level l = de_decimal (lv_price l) @ de_decimal (lv_amount l)"

definition de_levels :: "level list \<Rightarrow> bytes" where
  "de_levels ls = be_u64 (of_nat (length ls)) @ concat (map de_level ls)"

subsection \<open>Identities\<close>

definition snapshot_bytes :: "snapshot_observation \<Rightarrow> bytes" where
  "snapshot_bytes s =
     newDigestEncoder ''enable-labs/orderbook/snapshot-observation'' SnapshotEncodingVersion @
     de_string (so_source s) @ de_string (so_channel s) @ de_string (so_instrument s) @
     be_u64 (so_last s) @ de_rawCoordinate (so_coordinate s) @ be_u64 (so_bytes s) @
     de_snapshotLevels (so_bids s) @ de_snapshotLevels (so_asks s)"

definition snapshotIdentity :: "(bytes \<Rightarrow> hash) \<Rightarrow> snapshot_observation \<Rightarrow> hash" where
  "snapshotIdentity sha s = sha (snapshot_bytes s)"

definition policy_bytes :: "config \<Rightarrow> string \<Rightarrow> string \<Rightarrow> bytes" where
  "policy_bytes cfg name version =
     newDigestEncoder ''enable-labs/orderbook/reconstruction-policy'' PolicyEncodingVersion @
     de_string (cfg_source cfg) @ de_string (cfg_update_channel cfg) @
     de_string (cfg_snapshot_channel cfg) @ de_string (ii_uid (cfg_instrument cfg)) @
     de_string (ii_base (cfg_instrument cfg)) @ de_string (ii_quote (cfg_instrument cfg)) @
     de_string name @ de_string version @ de_bool (cfg_reject_crossed cfg) @
     be_u32 (b_messages (cfg_bounds cfg)) @ be_u64 (b_bytes (cfg_bounds cfg)) @
     de_int64 (b_span (cfg_bounds cfg)) @ be_u32 (b_levels (cfg_bounds cfg)) @
     be_u64 (b_snapshot_bytes (cfg_bounds cfg)) @ be_u32 (b_fetches (cfg_bounds cfg)) @
     be_u32 (b_outputs (cfg_bounds cfg))"

definition policyIdentity :: "(bytes \<Rightarrow> hash) \<Rightarrow> config \<Rightarrow> string \<Rightarrow> string \<Rightarrow> hash" where
  "policyIdentity sha cfg name version = sha (policy_bytes cfg name version)"

definition epoch_bytes :: "hash \<Rightarrow> hash \<Rightarrow> string \<Rightarrow> raw_coordinate \<Rightarrow> bytes" where
  "epoch_bytes policyID parent reason first =
     newDigestEncoder ''enable-labs/orderbook/reconstruction-epoch'' 1 @ policyID @ parent @
     de_string reason @ de_rawCoordinate first"

definition reconstructionEpochIdentity ::
  "(bytes \<Rightarrow> hash) \<Rightarrow> hash \<Rightarrow> hash \<Rightarrow> string \<Rightarrow> raw_coordinate \<Rightarrow> hash" where
  "reconstructionEpochIdentity sha policyID parent reason first =
     sha (epoch_bytes policyID parent reason first)"

definition projection_bytes :: "book_snapshot \<Rightarrow> bytes" where
  "projection_bytes s =
     newDigestEncoder ''enable-labs/orderbook/book-snapshot-v1'' ProjectionEncodingVersion @
     de_string (bk_schema s) @ be_u16 (bk_schema_version s) @ de_string (bk_source s) @
     de_string (bk_update_channel s) @ de_string (bk_snapshot_channel s) @
     de_string (bk_instrument s) @ de_string (bk_base s) @ de_string (bk_quote s) @
     bk_catalog s @ de_string (bk_mapper_version s) @ bk_binding s @
     de_string (bk_policy_name s) @ de_string (bk_policy_version s) @
     bk_policy_id s @ bk_epoch_id s @ bk_initial_id s @ de_rawCoordinate (bk_initial_raw s) @
     be_u64 (bk_last s) @ be_u32 (bk_ordinal s) @
     de_rawCoordinate (ir_first (bk_range s)) @ de_rawCoordinate (ir_last (bk_range s)) @
     be_u64 (ir_count (bk_range s)) @ ir_hash (bk_range s) @
     de_levels (bk_bids s) @ de_levels (bk_asks s)"

definition projectionIdentity :: "(bytes \<Rightarrow> hash) \<Rightarrow> book_snapshot \<Rightarrow> hash" where
  "projectionIdentity sha s = sha (projection_bytes s)"

definition metadataCoordinate :: "metadata \<Rightarrow> raw_coordinate" where
  "metadataCoordinate m =
     \<lparr>rc_source = md_source m, rc_channel = md_channel m, rc_epoch_kind = md_epoch_kind m,
      rc_epoch_id = md_epoch_id m, rc_arrival = md_arrival m, rc_message = md_message m,
      rc_segment = md_segment m, rc_record = md_record m, rc_payload = md_payload m\<rparr>"

definition input_bytes :: "book_update \<Rightarrow> bytes" where
  "input_bytes e = md_event_id (bu_meta e) @ de_rawCoordinate (metadataCoordinate (bu_meta e)) @
     be_u64 (bu_first e) @ be_u64 (bu_last e)"

definition appendInputIdentity :: "bytes \<Rightarrow> book_update \<Rightarrow> bytes" where
  "appendInputIdentity encoder e = encoder @ input_bytes e"

subsection \<open>Validation of observations and projections\<close>

definition validRawCoordinate :: "raw_coordinate \<Rightarrow> bool" where
  "validRawCoordinate c \<longleftrightarrow>
     rc_source c \<noteq> [] \<and> rc_channel c \<noteq> [] \<and>
     (rc_epoch_kind c = ConnectionEpoch \<or> rc_epoch_kind c = PollCycleEpoch) \<and>
     rc_epoch_id c \<noteq> zero_epoch_id \<and> rc_arrival c \<noteq> 0 \<and>
     rc_segment c \<noteq> zero_hash \<and> rc_payload c \<noteq> zero_hash"

definition SnapshotObservation_Validate :: "(bytes \<Rightarrow> hash) \<Rightarrow> snapshot_observation \<Rightarrow> bool" where
  "SnapshotObservation_Validate sha s \<longleftrightarrow>
     \<not> (so_version s \<noteq> SnapshotEncodingVersion \<or> so_source s = [] \<or> so_channel s = [] \<or>
        so_instrument s = [] \<or> so_bytes s = 0 \<or> \<not> validRawCoordinate (so_coordinate s) \<or>
        rc_source (so_coordinate s) \<noteq> so_source s \<or> rc_channel (so_coordinate s) \<noteq> so_channel s) \<and>
     list_all (list_all (\<lambda>l. Numeric_Validate (sn_price l) \<and> Numeric_Validate (sn_amount l)))
       [so_bids s, so_asks s] \<and>
     \<not> so_identity s \<noteq> snapshotIdentity sha s"

definition NewSnapshotObservation :: "(bytes \<Rightarrow> hash) \<Rightarrow> string \<Rightarrow> string \<Rightarrow> string \<Rightarrow> u64
    \<Rightarrow> snapshot_level list \<Rightarrow> snapshot_level list \<Rightarrow> raw_coordinate \<Rightarrow> u64
    \<Rightarrow> ob_error + snapshot_observation" where
  "NewSnapshotObservation sha source channel instrument lastSeq bids asks coordinate payloadBytes =
     (let o0 = \<lparr>so_version = SnapshotEncodingVersion, so_identity = zero_hash, so_source = source,
                so_channel = channel, so_instrument = instrument, so_last = lastSeq, so_bids = bids,
                so_asks = asks, so_coordinate = coordinate, so_bytes = payloadBytes\<rparr>;
          o1 = o0\<lparr>so_identity := snapshotIdentity sha o0\<rparr>
      in if SnapshotObservation_Validate sha o1 then Inr o1 else Inl ErrInvalidSnapshot)"

definition BookSnapshot_Validate :: "(bytes \<Rightarrow> hash) \<Rightarrow> book_snapshot \<Rightarrow> bool" where
  "BookSnapshot_Validate sha s \<longleftrightarrow>
     \<not> (bk_schema s \<noteq> BookSnapshotSchemaName \<or> bk_schema_version s \<noteq> BookSnapshotSchemaVersion \<or>
        bk_encoding_version s \<noteq> ProjectionEncodingVersion \<or> bk_source s = [] \<or>
        bk_update_channel s = [] \<or> bk_snapshot_channel s = [] \<or> bk_instrument s = [] \<or>
        bk_base s = [] \<or> bk_quote s = [] \<or> bk_base s = bk_quote s \<or>
        bk_mapper_version s = [] \<or> bk_ordinal s = 0 \<or> ir_count (bk_range s) = 0 \<or>
        bk_catalog s = zero_hash \<or> bk_binding s = zero_hash \<or>
        bk_policy_id s = zero_hash \<or> bk_epoch_id s = zero_hash \<or>
        bk_initial_id s = zero_hash \<or> \<not> validRawCoordinate (bk_initial_raw s) \<or>
        \<not> validRawCoordinate (ir_first (bk_range s)) \<or> \<not> validRawCoordinate (ir_last (bk_range s))) \<and>
     \<not> bk_hash s \<noteq> projectionIdentity sha s"

subsection \<open>Framed encodings\<close>

locale framed =
  fixes enc :: "'a \<Rightarrow> bytes" and ok :: "'a \<Rightarrow> bool"
  assumes split_off: "ok x \<Longrightarrow> ok y \<Longrightarrow> enc x @ u = enc y @ v \<Longrightarrow> x = y \<and> u = v"
begin

lemma frame_iff: "ok x \<Longrightarrow> ok y \<Longrightarrow> enc x @ u = enc y @ v \<longleftrightarrow> x = y \<and> u = v"
  using split_off by blast

lemma frame_end: "ok x \<Longrightarrow> ok y \<Longrightarrow> enc x = enc y \<longleftrightarrow> x = y"
  using frame_iff [of x y "[]" "[]"] by simp

lemma concat_frame:
  "list_all ok xs \<Longrightarrow> list_all ok ys \<Longrightarrow> length xs = length ys \<Longrightarrow>
   concat (map enc xs) @ u = concat (map enc ys) @ v \<Longrightarrow> xs = ys \<and> u = v"
proof (induction xs arbitrary: ys)
  case (Cons x xs)
  then obtain y zs where ys: "ys = y # zs" by (cases ys) auto
  from Cons.prems ys have "enc x @ concat (map enc xs) @ u = enc y @ concat (map enc zs) @ v" by simp
  then have "x = y" "concat (map enc xs) @ u = concat (map enc zs) @ v"
    using split_off Cons.prems ys by (simp_all) blast+
  with Cons ys show ?case by simp
qed simp

text \<open>A counted sequence of framed values is framed.\<close>

lemma counted_frame:
  assumes "list_all ok xs" "list_all ok ys" "length xs < 2 ^ 64" "length ys < 2 ^ 64"
    and eq: "(be_u64 (of_nat (length xs)) @ concat (map enc xs)) @ u
           = (be_u64 (of_nat (length ys)) @ concat (map enc ys)) @ v"
  shows "xs = ys \<and> u = v"
proof -
  have "be_u64 (of_nat (length xs)) = be_u64 (of_nat (length ys))"
    and rest: "concat (map enc xs) @ u = concat (map enc ys) @ v"
    using eq by simp_all
  then have "length xs = length ys"
    using assms(3,4) by (metis be_u64_inj unat_of_nat_u64)
  with rest assms show ?thesis by (intro concat_frame)
qed

end

abbreviation sized :: "'a list \<Rightarrow> bool" where
  "sized xs \<equiv> length xs < 2 ^ 64"

definition coordinate_shape :: "raw_coordinate \<Rightarrow> bool" where
  "coordinate_shape c \<longleftrightarrow> sized (rc_source c) \<and> sized (rc_channel c) \<and> sized (rc_epoch_kind c) \<and>
     length (rc_epoch_id c) = 16 \<and> length (rc_segment c) = 32 \<and> length (rc_payload c) = 32"

definition decimal_shape :: "decimal \<Rightarrow> bool" where
  "decimal_shape d \<longleftrightarrow> sized (coefficient d)"

definition numeric_shape :: "numeric \<Rightarrow> bool" where
  "numeric_shape n \<longleftrightarrow> decimal_shape (n_dec n) \<and> sized (u_kind (n_unit n)) \<and>
     sized (u_asset (n_unit n)) \<and> sized (u_base (n_unit n)) \<and> sized (u_quote (n_unit n))"

definition snapshot_level_shape :: "snapshot_level \<Rightarrow> bool" where
  "snapshot_level_shape l \<longleftrightarrow> numeric_shape (sn_price l) \<and> numeric_shape (sn_amount l)"

definition level_shape :: "level \<Rightarrow> bool" where
  "level_shape l \<longleftrightarrow> decimal_shape (lv_price l) \<and> decimal_shape (lv_amount l)"

interpretation str: framed de_string sized
proof
  fix x y :: string and u v
  assume "sized x" "sized y" and eq: "de_string x @ u = de_string y @ v"
  have "be_u64 (of_nat (length x)) = be_u64 (of_nat (length y))"
    and rest: "str_bytes x @ u = str_bytes y @ v"
    using eq by (simp_all add: de_string_def de_bytes_def)
  then have "length x = length y"
    using \<open>sized x\<close> \<open>sized y\<close> by (metis be_u64_inj unat_of_nat_u64)
  with rest have "str_bytes x = str_bytes y" "u = v" by simp_all
  then show "x = y \<and> u = v" by (simp add: str_bytes_inj)
qed

lemmas frame_simps = str.frame_iff be_u16_inj be_u32_inj be_u64_inj

interpretation coord: framed de_rawCoordinate coordinate_shape
  by unfold_locales (auto simp: de_rawCoordinate_def coordinate_shape_def frame_simps)

interpretation dec: framed de_decimal decimal_shape
  by unfold_locales (auto simp: de_decimal_def decimal_shape_def frame_simps)

interpretation num: framed de_numeric numeric_shape
  by unfold_locales
    (auto simp: de_numeric_def de_unit_def numeric_shape_def frame_simps dec.frame_iff)

interpretation slev: framed de_snapshotLevel snapshot_level_shape
  by unfold_locales (auto simp: de_snapshotLevel_def snapshot_level_shape_def num.frame_iff)

interpretation lev: framed de_level level_shape
  by unfold_locales (auto simp: de_level_def level_shape_def dec.frame_iff)

interpretation slevs: framed de_snapshotLevels "\<lambda>ls. list_all snapshot_level_shape ls \<and> sized ls"
  by unfold_locales (auto simp: de_snapshotLevels_def dest: slev.counted_frame)

interpretation levs: framed de_levels "\<lambda>ls. list_all level_shape ls \<and> sized ls"
  by unfold_locales (auto simp: de_levels_def dest: lev.counted_frame)

subsection \<open>What the identities bind\<close>

definition snapshot_shape :: "snapshot_observation \<Rightarrow> bool" where
  "snapshot_shape s \<longleftrightarrow> sized (so_source s) \<and> sized (so_channel s) \<and> sized (so_instrument s) \<and>
     coordinate_shape (so_coordinate s) \<and> list_all snapshot_level_shape (so_bids s) \<and>
     list_all snapshot_level_shape (so_asks s) \<and> sized (so_bids s) \<and> sized (so_asks s)"

definition projection_shape :: "book_snapshot \<Rightarrow> bool" where
  "projection_shape s \<longleftrightarrow>
     list_all sized [bk_schema s, bk_source s, bk_update_channel s, bk_snapshot_channel s,
       bk_instrument s, bk_base s, bk_quote s, bk_mapper_version s, bk_policy_name s, bk_policy_version s] \<and>
     list_all (\<lambda>h. length h = 32) [bk_catalog s, bk_binding s, bk_policy_id s, bk_epoch_id s,
       bk_initial_id s, ir_hash (bk_range s)] \<and>
     coordinate_shape (bk_initial_raw s) \<and> coordinate_shape (ir_first (bk_range s)) \<and>
     coordinate_shape (ir_last (bk_range s)) \<and>
     list_all level_shape (bk_bids s) \<and> list_all level_shape (bk_asks s) \<and>
     sized (bk_bids s) \<and> sized (bk_asks s)"

lemma snapshot_bytes_inj:
  assumes "snapshot_shape s" "snapshot_shape s'" "snapshot_bytes s = snapshot_bytes s'"
    "so_version s = so_version s'" "so_identity s = so_identity s'"
  shows "s = s'"
  using assms unfolding snapshot_bytes_def snapshot_shape_def
  by (simp add: frame_simps coord.frame_iff slevs.frame_iff slevs.frame_end snapshot_observation.equality)

lemma projection_bytes_inj:
  assumes "projection_shape s" "projection_shape s'" "projection_bytes s = projection_bytes s'"
    "bk_encoding_version s = bk_encoding_version s'" "bk_hash s = bk_hash s'"
  shows "s = s'"
proof -
  have "ir_first (bk_range s) = ir_first (bk_range s') \<and> ir_last (bk_range s) = ir_last (bk_range s') \<and>
     ir_count (bk_range s) = ir_count (bk_range s') \<and> ir_hash (bk_range s) = ir_hash (bk_range s')"
    using assms(1-3) unfolding projection_bytes_def projection_shape_def
    by (simp add: frame_simps coord.frame_iff levs.frame_iff)
  then have r: "bk_range s = bk_range s'" by (simp add: input_range.equality)
  show ?thesis
    using assms r unfolding projection_bytes_def projection_shape_def
    by (simp add: frame_simps coord.frame_iff levs.frame_iff levs.frame_end book_snapshot.equality)
qed

text \<open>
  A snapshot identity binds the whole observation.  Two snapshot observations
  that both pass \<open>SnapshotObservation.Validate\<close> and carry the same identity are equal
  in every field (source, channel, instrument, sequence, raw coordinate, payload size and
  every level with its units), or their encodings are a collision of the hash.
\<close>

theorem snapshot_identity_binds:
  assumes "SnapshotObservation_Validate sha s" "SnapshotObservation_Validate sha s'"
    and "snapshot_shape s" "snapshot_shape s'" and "so_identity s = so_identity s'"
  shows "s = s' \<or> (snapshot_bytes s \<noteq> snapshot_bytes s' \<and> sha (snapshot_bytes s) = sha (snapshot_bytes s'))"
proof (cases "snapshot_bytes s = snapshot_bytes s'")
  case True
  moreover have "so_version s = so_version s'"
    using assms(1,2) by (simp add: SnapshotObservation_Validate_def)
  ultimately show ?thesis
    using snapshot_bytes_inj [OF assms(3,4)] assms(5) by simp
next
  case False
  then show ?thesis
    using assms(1,2,5) by (simp add: SnapshotObservation_Validate_def snapshotIdentity_def)
qed

text \<open>
  A projection hash binds the whole output.  Two \<open>BookSnapshotV1\<close> values that both
  pass \<open>BookSnapshotV1.Validate\<close> and carry the same projection hash agree in every
  field (epoch, policy, input range, sequence, ordinal, every level of both sides),
  or their encodings are a collision of the hash.
\<close>

theorem projection_identity_binds:
  assumes "BookSnapshot_Validate sha s" "BookSnapshot_Validate sha s'"
    and "projection_shape s" "projection_shape s'" and "bk_hash s = bk_hash s'"
  shows "s = s' \<or> (projection_bytes s \<noteq> projection_bytes s' \<and>
     sha (projection_bytes s) = sha (projection_bytes s'))"
proof (cases "projection_bytes s = projection_bytes s'")
  case True
  moreover have "bk_encoding_version s = bk_encoding_version s'"
    using assms(1,2) by (simp add: BookSnapshot_Validate_def)
  ultimately show ?thesis
    using projection_bytes_inj [OF assms(3,4)] assms(5) by simp
next
  case False
  then show ?thesis
    using assms(1,2,5) by (simp add: BookSnapshot_Validate_def projectionIdentity_def)
qed

subsection \<open>Concrete instances\<close>

definition sample_poll :: raw_coordinate where
  "sample_poll = \<lparr>rc_source = ''src'', rc_channel = ''rest'', rc_epoch_kind = ''poll_cycle'',
     rc_epoch_id = replicate 16 2, rc_arrival = 1, rc_message = 0, rc_segment = replicate 32 2,
     rc_record = 0, rc_payload = replicate 32 3\<rparr>"

definition sample_snapshot :: snapshot_observation where
  "sample_snapshot = \<lparr>so_version = 1, so_identity = replicate 32 7, so_source = ''src'',
     so_channel = ''rest'', so_instrument = ''BTCUSDT'', so_last = 10,
     so_bids = [\<lparr>sn_price = sample_price ''99'', sn_amount = sample_amount ''5''\<rparr>],
     so_asks = [\<lparr>sn_price = sample_price ''101'', sn_amount = sample_amount ''4''\<rparr>],
     so_coordinate = sample_poll, so_bytes = 100\<rparr>"

definition sample_projection :: book_snapshot where
  "sample_projection = \<lparr>bk_schema = BookSnapshotSchemaName, bk_schema_version = 1,
     bk_encoding_version = 1, bk_hash = replicate 32 7, bk_source = ''src'',
     bk_update_channel = ''ws'', bk_snapshot_channel = ''rest'', bk_instrument = ''BTCUSDT'',
     bk_base = ''btc'', bk_quote = ''usdt'', bk_catalog = replicate 32 6, bk_mapper_version = ''m1'',
     bk_binding = replicate 32 5, bk_policy_name = ''p'', bk_policy_version = ''1'',
     bk_policy_id = replicate 32 7, bk_epoch_id = replicate 32 7, bk_initial_id = replicate 32 7,
     bk_initial_raw = sample_poll, bk_last = 11, bk_ordinal = 1,
     bk_range = \<lparr>ir_first = sample_poll, ir_last = sample_poll, ir_count = 1, ir_hash = replicate 32 7\<rparr>,
     bk_bids = [\<lparr>lv_price = n_dec (sample_price ''99''), lv_amount = n_dec (sample_amount ''5'')\<rparr>],
     bk_asks = []\<rparr>"

lemma sample_snapshot_valid: "SnapshotObservation_Validate (\<lambda>_. replicate 32 7) sample_snapshot"
  unfolding SnapshotObservation_Validate_def snapshotIdentity_def by code_simp

lemmas sample_shape_defs = coordinate_shape_def decimal_shape_def numeric_shape_def
  snapshot_level_shape_def level_shape_def sample_price_def sample_amount_def sample_poll_def
  SpotPriceUnit_def BaseAssetUnit_def UnitQuotePerBase_def UnitBaseAssetAmount_def
  BookSnapshotSchemaName_def

lemma sample_snapshot_shape: "snapshot_shape sample_snapshot"
  by (simp add: snapshot_shape_def sample_snapshot_def sample_shape_defs)

lemma sample_projection_valid: "BookSnapshot_Validate (\<lambda>_. replicate 32 7) sample_projection"
  unfolding BookSnapshot_Validate_def projectionIdentity_def by code_simp

lemma sample_projection_shape: "projection_shape sample_projection"
  by (simp add: projection_shape_def sample_projection_def sample_shape_defs)

theorem snapshot_identity_binds_witness:
  "SnapshotObservation_Validate (\<lambda>_. replicate 32 7) sample_snapshot \<and> snapshot_shape sample_snapshot \<and>
   sample_snapshot = sample_snapshot"
  using snapshot_identity_binds [OF sample_snapshot_valid sample_snapshot_valid
      sample_snapshot_shape sample_snapshot_shape refl] sample_snapshot_valid sample_snapshot_shape
  by simp

theorem projection_identity_binds_witness:
  "BookSnapshot_Validate (\<lambda>_. replicate 32 7) sample_projection \<and> projection_shape sample_projection \<and>
   sample_projection = sample_projection"
  using projection_identity_binds [OF sample_projection_valid sample_projection_valid
      sample_projection_shape sample_projection_shape refl] sample_projection_valid sample_projection_shape
  by simp

end
