(* ===== verification/Engine.thy ===== *)
theory Engine
  imports Digest
begin

text \<open>
  \<open>src/orderbook/engine.go\<close>: the reconstruction engine.  An \<open>Engine\<close> is a
  record; each method is a function from the engine to the engine it leaves,
  its \<open>Result\<close> and its error.  An error is the list of sentinels that
  \<open>errors.Is\<close> finds in it (\<open>errors.Join\<close> is append) and \<open>[]\<close> is \<open>nil\<close>.  The
  defensive copies (\<open>clone\<close>, \<open>cloneUpdate\<close>, \<open>cloneEvidence\<close>) are the identity on
  values.  A \<open>SequencePolicy\<close> is a record of its five methods; a snapshot
  fetcher is a function from the number of fetches already made by the call to
  what the fetch did, including what \<open>ctx.Err()\<close> says afterwards.
\<close>

subsection \<open>Types\<close>

datatype state = StateUnseeded | StateBuffering | StateSeeded | StateLive | StateGap | StateClosed

datatype seq_action = SequenceApply | SequenceStale | SequenceGap | SequenceOther

record seq_policy =
  p_name :: string
  p_version :: string
  p_behind :: "u64 \<Rightarrow> u64 \<Rightarrow> bool"
  p_first :: "u64 \<Rightarrow> book_update \<Rightarrow> seq_action"
  p_next :: "u64 \<Rightarrow> book_update \<Rightarrow> seq_action"

datatype ctx = CtxNil | Ctx errs

record fetch_outcome =
  fo_ctx :: errs
  fo_err :: errs
  fo_obs :: snapshot_observation

definition CloseExplicit :: string where "CloseExplicit = ''explicit_close''"
definition CloseReconnect :: string where "CloseReconnect = ''raw_connection_epoch_changed''"
definition CloseRawDiscontinuity :: string where "CloseRawDiscontinuity = ''raw_discontinuity''"
definition CloseForwardGap :: string where "CloseForwardGap = ''forward_sequence_gap''"
definition CloseSeedBoundary :: string where "CloseSeedBoundary = ''seed_boundary_not_spanned''"
definition CloseBufferOverflow :: string where "CloseBufferOverflow = ''buffer_overflow''"
definition CloseSnapshotLimit :: string where "CloseSnapshotLimit = ''snapshot_limit''"
definition CloseSnapshotBytes :: string where "CloseSnapshotBytes = ''snapshot_byte_limit''"
definition CloseMalformedInput :: string where "CloseMalformedInput = ''malformed_input''"
definition CloseLevelLimit :: string where "CloseLevelLimit = ''level_limit''"
definition CloseCrossedBook :: string where "CloseCrossedBook = ''crossed_book''"
definition CloseOutputLimit :: string where "CloseOutputLimit = ''output_limit''"
definition CloseCancelled :: string where "CloseCancelled = ''cancelled''"

record transition_rec =
  tr_state :: state
  tr_has :: bool
  tr_coordinate :: raw_coordinate

record attempt_evidence =
  sa_identity :: hash
  sa_raw :: raw_coordinate
  sa_last :: u64
  sa_behind :: bool

record evidence =
  ev_id :: hash
  ev_parent :: hash
  ev_source :: string
  ev_update_channel :: string
  ev_snapshot_channel :: string
  ev_instrument :: string
  ev_catalog :: hash
  ev_mapper_version :: string
  ev_binding :: hash
  ev_policy_name :: string
  ev_policy_version :: string
  ev_policy_id :: hash
  ev_state :: state
  ev_reason :: string
  ev_transitions :: "transition_rec list"
  ev_attempts :: "attempt_evidence list"
  ev_fetches :: u32
  ev_initial_id :: hash
  ev_initial_raw :: raw_coordinate
  ev_has_initial :: bool
  ev_first_observed :: raw_coordinate
  ev_last_observed :: raw_coordinate
  ev_has_observed :: bool
  ev_first_accepted :: raw_coordinate
  ev_last_accepted :: raw_coordinate
  ev_has_accepted :: bool
  ev_accepted :: u64
  ev_applied :: u64
  ev_stale :: u64
  ev_last_sequence :: u64
  ev_outputs :: u32
  ev_output_hash :: hash
  ev_last_output_hash :: hash

record buffered_update =
  bf_event :: book_update
  bf_bytes :: u64

record pending_snapshot =
  ps_obs :: snapshot_observation
  ps_attempt :: nat

record recon_epoch =
  ep_evidence :: evidence
  ep_buffer :: "buffered_update list"
  ep_bytes :: u64
  ep_min :: i64
  ep_max :: i64
  ep_pending :: "pending_snapshot option"
  ep_book :: book_state
  ep_local :: u64
  ep_input :: bytes
  ep_output :: bytes

record engine =
  en_config :: config
  en_policy :: seq_policy
  en_policy_id :: hash
  en_state :: state
  en_epoch :: "recon_epoch option"
  en_parent :: hash
  en_terminal :: bool
  en_restart :: bool

record result =
  rs_state :: state
  rs_output :: "book_snapshot option"
  rs_closed :: "evidence list"
  rs_stale :: bool
  rs_fetches :: u32

type_synonym outcome = "engine \<times> result \<times> errs"

definition plain_result :: "state \<Rightarrow> result" where
  "plain_result s = \<lparr>rs_state = s, rs_output = None, rs_closed = [], rs_stale = False, rs_fetches = 0\<rparr>"

subsection \<open>Zero values\<close>

definition zero_coordinate :: raw_coordinate where
  "zero_coordinate = \<lparr>rc_source = [], rc_channel = [], rc_epoch_kind = [], rc_epoch_id = zero_epoch_id,
     rc_arrival = 0, rc_message = 0, rc_segment = zero_hash, rc_record = 0, rc_payload = zero_hash\<rparr>"

definition zero_evidence :: evidence where
  "zero_evidence = \<lparr>ev_id = zero_hash, ev_parent = zero_hash, ev_source = [], ev_update_channel = [],
     ev_snapshot_channel = [], ev_instrument = [], ev_catalog = zero_hash, ev_mapper_version = [],
     ev_binding = zero_hash, ev_policy_name = [], ev_policy_version = [], ev_policy_id = zero_hash,
     ev_state = StateUnseeded, ev_reason = [], ev_transitions = [], ev_attempts = [], ev_fetches = 0,
     ev_initial_id = zero_hash, ev_initial_raw = zero_coordinate, ev_has_initial = False,
     ev_first_observed = zero_coordinate, ev_last_observed = zero_coordinate, ev_has_observed = False,
     ev_first_accepted = zero_coordinate, ev_last_accepted = zero_coordinate, ev_has_accepted = False,
     ev_accepted = 0, ev_applied = 0, ev_stale = 0, ev_last_sequence = 0, ev_outputs = 0,
     ev_output_hash = zero_hash, ev_last_output_hash = zero_hash\<rparr>"

definition zero_epoch :: recon_epoch where
  "zero_epoch = \<lparr>ep_evidence = zero_evidence, ep_buffer = [], ep_bytes = 0, ep_min = 0, ep_max = 0,
     ep_pending = None, ep_book = empty_book, ep_local = 0, ep_input = [], ep_output = []\<rparr>"

text \<open>
  \<open>e.epoch\<close> as a dereference: the methods that use it are only called with an
  epoch, so the value at \<open>nil\<close> (where Go would panic) is never read.
\<close>

definition ep :: "engine \<Rightarrow> recon_epoch" where
  "ep e = (case en_epoch e of Some p \<Rightarrow> p | None \<Rightarrow> zero_epoch)"

abbreviation evd :: "engine \<Rightarrow> evidence" where
  "evd e \<equiv> ep_evidence (ep e)"

definition set_ep :: "(recon_epoch \<Rightarrow> recon_epoch) \<Rightarrow> engine \<Rightarrow> engine" where
  "set_ep f e = e\<lparr>en_epoch := map_option f (en_epoch e)\<rparr>"

definition set_ev :: "(evidence \<Rightarrow> evidence) \<Rightarrow> engine \<Rightarrow> engine" where
  "set_ev f = set_ep (\<lambda>p. p\<lparr>ep_evidence := f (ep_evidence p)\<rparr>)"

subsection \<open>Construction\<close>

definition checkContext :: "ctx \<Rightarrow> errs" where
  "checkContext c = (case c of CtxNil \<Rightarrow> [ErrInvalidConfig] | Ctx err \<Rightarrow> err)"

definition validateConfig :: "config \<Rightarrow> seq_policy option \<Rightarrow> bool \<Rightarrow> bool" where
  "validateConfig cfg pol has_fetcher \<longleftrightarrow>
     (case pol of None \<Rightarrow> False | Some p \<Rightarrow>
       \<not> (\<not> has_fetcher \<or> cfg_source cfg = [] \<or> cfg_update_channel cfg = [] \<or>
          cfg_snapshot_channel cfg = [] \<or> cfg_update_channel cfg = cfg_snapshot_channel cfg \<or>
          ii_uid (cfg_instrument cfg) = [] \<or> ii_base (cfg_instrument cfg) = [] \<or>
          ii_quote (cfg_instrument cfg) = [] \<or> ii_base (cfg_instrument cfg) = ii_quote (cfg_instrument cfg) \<or>
          cfg_catalog cfg = zero_hash \<or> cfg_binding cfg = zero_hash \<or>
          cfg_mapper_version cfg = [] \<or> p_name p = [] \<or> p_version p = []) \<and>
       list_all (\<lambda>v. \<not> (length v > 256 \<or> has_nul v))
         [cfg_source cfg, cfg_update_channel cfg, cfg_snapshot_channel cfg,
          ii_uid (cfg_instrument cfg), ii_base (cfg_instrument cfg), ii_quote (cfg_instrument cfg),
          cfg_mapper_version cfg, p_name p, p_version p] \<and>
       (let b = cfg_bounds cfg in
        \<not> (b_messages b = 0 \<or> b_bytes b = 0 \<or> b_span b \<le> 0 \<or> b_levels b = 0 \<or>
           b_snapshot_bytes b = 0 \<or> b_fetches b = 0 \<or> b_outputs b = 0 \<or>
           b_levels b > of_nat MaxBookLevelsPerSide)))"

definition New :: "(bytes \<Rightarrow> hash) \<Rightarrow> config \<Rightarrow> seq_policy option \<Rightarrow> bool \<Rightarrow> errs + engine" where
  "New sha cfg pol has_fetcher =
     (if validateConfig cfg pol has_fetcher
      then Inr \<lparr>en_config = cfg, en_policy = the pol,
                en_policy_id = policyIdentity sha cfg (p_name (the pol)) (p_version (the pol)),
                en_state = StateUnseeded, en_epoch = None, en_parent = zero_hash,
                en_terminal = False, en_restart = False\<rparr>
      else Inl [ErrInvalidConfig])"

definition Buffered :: "engine \<Rightarrow> u32 \<times> u64" where
  "Buffered e = (case en_epoch e of None \<Rightarrow> (0, 0)
     | Some p \<Rightarrow> (of_nat (length (ep_buffer p)), ep_bytes p))"

definition CurrentEvidence :: "engine \<Rightarrow> evidence \<times> bool" where
  "CurrentEvidence e = (case en_epoch e of None \<Rightarrow> (zero_evidence, False)
     | Some p \<Rightarrow> (ep_evidence p, True))"

subsection \<open>Coordinates and reasons\<close>

definition sameRawEpoch :: "raw_coordinate \<Rightarrow> raw_coordinate \<Rightarrow> bool" where
  "sameRawEpoch l r \<longleftrightarrow> rc_source l = rc_source r \<and> rc_channel l = rc_channel r \<and>
     rc_epoch_kind l = rc_epoch_kind r \<and> rc_epoch_id l = rc_epoch_id r"

definition compareCoordinate :: "raw_coordinate \<Rightarrow> raw_coordinate \<Rightarrow> int" where
  "compareCoordinate l r =
     (if rc_arrival l < rc_arrival r then - 1
      else if rc_arrival l > rc_arrival r then 1
      else if rc_message l < rc_message r then - 1
      else if rc_message l > rc_message r then 1 else 0)"

definition closeReasonForLevelError :: "errs \<Rightarrow> string" where
  "closeReasonForLevelError err =
     (if ErrLevelLimit \<in> set err then CloseLevelLimit
      else if ErrCrossedBook \<in> set err then CloseCrossedBook
      else CloseMalformedInput)"

definition validateUpdate :: "(bytes \<Rightarrow> hash) \<Rightarrow> config \<Rightarrow> book_update \<Rightarrow> errs" where
  "validateUpdate sha cfg event =
     (if \<not> BookUpdate_Validate sha event then [ErrInvalidUpdate]
      else let m = bu_meta event in
        if md_source m \<noteq> cfg_source cfg \<or> md_channel m \<noteq> cfg_update_channel cfg \<or>
           md_instrument m \<noteq> ii_uid (cfg_instrument cfg) \<or> md_catalog m \<noteq> cfg_catalog cfg \<or>
           md_mapper_version m \<noteq> cfg_mapper_version cfg \<or> md_binding m \<noteq> cfg_binding cfg
        then [ErrIdentityDiscontinuity]
        else let c = metadataCoordinate m in
          if \<not> validRawCoordinate c \<or> rc_epoch_kind c \<noteq> ConnectionEpoch then [ErrInvalidUpdate]
          else (case prepareChanges cfg (bu_bids event) SideBuy of
              Inl err \<Rightarrow> [err]
            | Inr _ \<Rightarrow> (case prepareChanges cfg (bu_asks event) SideSell of
                  Inl err \<Rightarrow> [err]
                | Inr _ \<Rightarrow> [])))"

subsection \<open>Epoch bookkeeping\<close>

definition transition :: "state \<Rightarrow> raw_coordinate \<Rightarrow> bool \<Rightarrow> engine \<Rightarrow> engine" where
  "transition s c has e =
     set_ev (\<lambda>v. v\<lparr>ev_state := s,
       ev_transitions := ev_transitions v @ [\<lparr>tr_state = s, tr_has = has, tr_coordinate = c\<rparr>]\<rparr>)
       (e\<lparr>en_state := s\<rparr>)"

definition observe :: "raw_coordinate \<Rightarrow> engine \<Rightarrow> engine" where
  "observe c = set_ev (\<lambda>v.
     let v' = (if \<not> ev_has_observed v then v\<lparr>ev_first_observed := c, ev_has_observed := True\<rparr> else v)
     in v'\<lparr>ev_last_observed := c\<rparr>)"

definition acceptInput :: "book_update \<Rightarrow> bool \<Rightarrow> engine \<Rightarrow> engine" where
  "acceptInput event applied = set_ep (\<lambda>p.
     let c = metadataCoordinate (bu_meta event);
         v = ep_evidence p;
         v1 = (if \<not> ev_has_accepted v then v\<lparr>ev_first_accepted := c, ev_has_accepted := True\<rparr> else v);
         v2 = v1\<lparr>ev_last_accepted := c, ev_accepted := ev_accepted v1 + 1\<rparr>;
         v3 = (if applied then v2\<lparr>ev_applied := ev_applied v2 + 1\<rparr> else v2\<lparr>ev_stale := ev_stale v2 + 1\<rparr>)
     in p\<lparr>ep_evidence := v3, ep_input := appendInputIdentity (ep_input p) event\<rparr>)"

definition startEpoch :: "(bytes \<Rightarrow> hash) \<Rightarrow> raw_coordinate \<Rightarrow> string \<Rightarrow> engine \<Rightarrow> engine" where
  "startEpoch sha first reason e =
     (let identity = reconstructionEpochIdentity sha (en_policy_id e) (en_parent e) reason first;
          cfg = en_config e;
          evidence = zero_evidence\<lparr>ev_id := identity, ev_parent := en_parent e,
            ev_source := cfg_source cfg, ev_update_channel := cfg_update_channel cfg,
            ev_snapshot_channel := cfg_snapshot_channel cfg, ev_instrument := ii_uid (cfg_instrument cfg),
            ev_catalog := cfg_catalog cfg, ev_mapper_version := cfg_mapper_version cfg,
            ev_binding := cfg_binding cfg, ev_policy_name := p_name (en_policy e),
            ev_policy_version := p_version (en_policy e), ev_policy_id := en_policy_id e,
            ev_state := StateUnseeded,
            ev_transitions := [\<lparr>tr_state = StateUnseeded, tr_has = False, tr_coordinate = zero_coordinate\<rparr>]\<rparr>
      in transition StateBuffering first True
           (e\<lparr>en_epoch := Some (zero_epoch\<lparr>ep_evidence := evidence,
                ep_input := newDigestEncoder ''enable-labs/orderbook/input-range'' 1 @ en_policy_id e @ identity,
                ep_output := newDigestEncoder ''enable-labs/orderbook/output-range'' 1 @ identity\<rparr>),
              en_state := StateUnseeded\<rparr>))"

definition closeCurrent :: "string \<Rightarrow> raw_coordinate \<Rightarrow> bool \<Rightarrow> engine \<Rightarrow> engine \<times> evidence" where
  "closeCurrent reason c has e =
     (let e1 = (if reason = CloseForwardGap \<or> reason = CloseSeedBoundary then transition StateGap c has e else e);
          e2 = transition StateClosed c has e1;
          e3 = set_ev (\<lambda>v. v\<lparr>ev_reason := reason\<rparr>) e2;
          e4 = e3\<lparr>en_parent := ev_id (evd e3), en_state := StateClosed\<rparr>
      in (e4, evd e4))"

definition failCurrent :: "string \<Rightarrow> errs \<Rightarrow> engine \<Rightarrow> outcome" where
  "failCurrent reason cause e =
     (if en_epoch e \<noteq> None \<and> en_state e \<noteq> StateClosed then
        let (e', closed) = closeCurrent reason (ev_last_observed (evd e)) (ev_has_observed (evd e)) e
        in (e', (plain_result (en_state e'))\<lparr>rs_closed := [closed]\<rparr>, cause)
      else
        let e' = (if en_epoch e = None then e\<lparr>en_state := StateClosed\<rparr> else e)
        in (e', plain_result (en_state e'), cause))"

definition cancel :: "errs \<Rightarrow> engine \<Rightarrow> outcome" where
  "cancel cause e =
     (let (e', r, _) = failCurrent CloseCancelled cause e
      in (e'\<lparr>en_terminal := True, en_state := StateClosed\<rparr>, r\<lparr>rs_state := StateClosed\<rparr>, cause))"

definition clearBuffer :: "engine \<Rightarrow> engine" where
  "clearBuffer = set_ep (\<lambda>p. p\<lparr>ep_buffer := [], ep_bytes := 0, ep_min := 0, ep_max := 0\<rparr>)"

fun recalc_loop :: "buffered_update list \<Rightarrow> nat \<Rightarrow> u64 \<Rightarrow> i64 \<Rightarrow> i64 \<Rightarrow> u64 \<times> i64 \<times> i64" where
  "recalc_loop [] i tot mn mx = (tot, mn, mx)"
| "recalc_loop (b # bs) i tot mn mx =
     (let tot' = tot + bf_bytes b; received = md_received (bu_meta (bf_event b)) in
      if i = 0 then recalc_loop bs (Suc i) tot' received received
      else recalc_loop bs (Suc i) tot' (min mn received) (max mx received))"

definition recalculateBuffer :: "engine \<Rightarrow> engine" where
  "recalculateBuffer = set_ep (\<lambda>p.
     let (tot, mn, mx) = recalc_loop (ep_buffer p) 0 0 0 0
     in p\<lparr>ep_bytes := tot, ep_min := mn, ep_max := mx\<rparr>)"

subsection \<open>Buffering\<close>

definition appendBuffered :: "book_update \<Rightarrow> u64 \<Rightarrow> engine \<Rightarrow> outcome" where
  "appendBuffered event encodedBytes e =
     (let c = metadataCoordinate (bu_meta event); b = cfg_bounds (en_config e); p = ep e in
      if encodedBytes = 0 \<or> encodedBytes > b_bytes b \<or> ep_bytes p > max_u64 - encodedBytes \<or>
         ep_bytes p + encodedBytes > b_bytes b
      then failCurrent CloseBufferOverflow [ErrBufferBytes] (observe c e)
      else if length (ep_buffer p) \<ge> unat (b_messages b)
      then failCurrent CloseBufferOverflow [ErrBufferMessages] (observe c e)
      else
        let received = md_received (bu_meta event);
            minimum = (if ep_buffer p \<noteq> [] then min (ep_min p) received else received);
            maximum = (if ep_buffer p \<noteq> [] then max (ep_max p) received else received)
        in if wrap_i64 (maximum - minimum) > b_span b
           then failCurrent CloseBufferOverflow [ErrBufferTime] (observe c e)
           else
             let e' = observe c (set_ep (\<lambda>p. p\<lparr>
                   ep_buffer := ep_buffer p @ [\<lparr>bf_event = event, bf_bytes = encodedBytes\<rparr>],
                   ep_bytes := ep_bytes p + encodedBytes, ep_min := minimum, ep_max := maximum\<rparr>) e)
             in (e', plain_result (en_state e'), []))"

subsection \<open>Emission\<close>

definition emit :: "(bytes \<Rightarrow> hash) \<Rightarrow> engine \<Rightarrow> engine \<times> (errs + book_snapshot)" where
  "emit sha e =
     (let cfg = en_config e; p = ep e; v = ep_evidence p in
      if ev_outputs v \<ge> b_outputs (cfg_bounds cfg) then (e, Inl [ErrOutputLimit])
      else if \<not> ev_has_accepted v \<or> \<not> ev_has_initial v \<or> en_state e \<noteq> StateLive
      then (e, Inl [ErrInvalidTransition])
      else
        let o0 = \<lparr>bk_schema = BookSnapshotSchemaName, bk_schema_version = BookSnapshotSchemaVersion,
              bk_encoding_version = ProjectionEncodingVersion, bk_hash = zero_hash,
              bk_source = cfg_source cfg, bk_update_channel = cfg_update_channel cfg,
              bk_snapshot_channel = cfg_snapshot_channel cfg, bk_instrument = ii_uid (cfg_instrument cfg),
              bk_base = ii_base (cfg_instrument cfg), bk_quote = ii_quote (cfg_instrument cfg),
              bk_catalog = cfg_catalog cfg, bk_mapper_version = cfg_mapper_version cfg,
              bk_binding = cfg_binding cfg, bk_policy_name = p_name (en_policy e),
              bk_policy_version = p_version (en_policy e), bk_policy_id = en_policy_id e,
              bk_epoch_id = ev_id v, bk_initial_id = ev_initial_id v, bk_initial_raw = ev_initial_raw v,
              bk_last = ep_local p, bk_ordinal = ev_outputs v + 1,
              bk_range = \<lparr>ir_first = ev_first_accepted v, ir_last = ev_last_accepted v,
                ir_count = ev_accepted v, ir_hash = sha (ep_input p)\<rparr>,
              bk_bids = projectedLevels (bs_bids (ep_book p)) True,
              bk_asks = projectedLevels (bs_asks (ep_book p)) False\<rparr>;
            output = o0\<lparr>bk_hash := projectionIdentity sha o0\<rparr>
        in if \<not> BookSnapshot_Validate sha output then (e, Inl [ErrInvalidLevel])
           else
             (set_ep (\<lambda>p.
                let digest = ep_output p @ bk_hash output in
                p\<lparr>ep_output := digest,
                  ep_evidence := (ep_evidence p)\<lparr>ev_outputs := ev_outputs (ep_evidence p) + 1,
                    ev_output_hash := sha digest, ev_last_output_hash := bk_hash output,
                    ev_last_sequence := ep_local p\<rparr>\<rparr>) e,
              Inr output))"

subsection \<open>Live updates\<close>

definition acceptLive :: "(bytes \<Rightarrow> hash) \<Rightarrow> book_update \<Rightarrow> u64 \<Rightarrow> engine \<Rightarrow> outcome" where
  "acceptLive sha event encodedBytes e =
     (let cfg = en_config e; c = metadataCoordinate (bu_meta event) in
      if encodedBytes = 0 \<or> encodedBytes > b_bytes (cfg_bounds cfg)
      then failCurrent CloseMalformedInput [ErrBufferBytes] e
      else (case p_next (en_policy e) (ep_local (ep e)) event of
          SequenceStale \<Rightarrow>
            let e' = acceptInput event False (observe c e)
            in (e', (plain_result (en_state e'))\<lparr>rs_stale := True\<rparr>, [])
        | SequenceGap \<Rightarrow>
            let (e1, closed) = closeCurrent CloseForwardGap c True e;
                (e2, r, err) = appendBuffered event encodedBytes (startEpoch sha c CloseForwardGap e1)
            in (e2, (plain_result (en_state e2))\<lparr>rs_closed := closed # rs_closed r\<rparr>, ErrSequenceGap # err)
        | SequenceApply \<Rightarrow>
            let e1 = observe c e in
            if ev_outputs (evd e1) \<ge> b_outputs (cfg_bounds cfg)
            then failCurrent CloseOutputLimit [ErrOutputLimit] e1
            else (case applyEventAtomically cfg (ep_book (ep e1)) event of
                Inl err \<Rightarrow> failCurrent (closeReasonForLevelError [err]) [err] e1
              | Inr book \<Rightarrow>
                  let e2 = acceptInput event True (set_ep (\<lambda>p. p\<lparr>ep_book := book, ep_local := bu_last event\<rparr>) e1)
                  in (case emit sha e2 of
                        (e3, Inl err) \<Rightarrow> failCurrent CloseOutputLimit err e3
                      | (e3, Inr output) \<Rightarrow>
                          (e3, (plain_result (en_state e3))\<lparr>rs_output := Some output\<rparr>, [])))
        | SequenceOther \<Rightarrow> failCurrent CloseMalformedInput [ErrInvalidTransition] e))"

text \<open>The part of \<open>Accept\<close> after the epoch has been settled, with the epochs closed so far.\<close>

definition accept_settled :: "(bytes \<Rightarrow> hash) \<Rightarrow> evidence list \<Rightarrow> book_update \<Rightarrow> u64 \<Rightarrow> engine \<Rightarrow> outcome" where
  "accept_settled sha closed event encodedBytes e =
     (if en_state e = StateBuffering then
        let (e', r, err) = appendBuffered event encodedBytes e
        in (e', (plain_result (en_state e'))\<lparr>rs_closed := closed @ rs_closed r\<rparr>, err)
      else if en_state e \<noteq> StateLive then failCurrent CloseMalformedInput [ErrInvalidTransition] e
      else
        let (e', r, err) = acceptLive sha event encodedBytes e
        in (e', (plain_result (en_state e'))\<lparr>rs_output := rs_output r, rs_stale := rs_stale r,
                  rs_closed := closed @ rs_closed r\<rparr>, err))"

definition Accept :: "(bytes \<Rightarrow> hash) \<Rightarrow> ctx \<Rightarrow> book_update \<Rightarrow> u64 \<Rightarrow> engine \<Rightarrow> outcome" where
  "Accept sha ctx event encodedBytes e =
     (let cerr = checkContext ctx in
      if cerr \<noteq> [] then cancel cerr e
      else if en_terminal e then (e, plain_result StateClosed, [ErrClosed])
      else let verr = validateUpdate sha (en_config e) event in
      if verr \<noteq> [] then failCurrent (closeReasonForLevelError verr) verr e
      else let c = metadataCoordinate (bu_meta event) in
      if en_epoch e = None then
        (if en_state e = StateClosed \<and> \<not> en_restart e then (e, plain_result StateClosed, [ErrClosed])
         else accept_settled sha [] event encodedBytes ((startEpoch sha c ''initial'' e)\<lparr>en_restart := False\<rparr>))
      else if en_state e = StateClosed then
        (if \<not> en_restart e \<and> sameRawEpoch (ev_last_observed (evd e)) c
         then (e, plain_result StateClosed, [ErrClosed])
         else
           let reason = (if sameRawEpoch (ev_last_observed (evd e)) c then CloseRawDiscontinuity
                         else CloseReconnect)
           in accept_settled sha [] event encodedBytes ((startEpoch sha c reason e)\<lparr>en_restart := False\<rparr>))
      else if ev_has_observed (evd e) \<and> \<not> sameRawEpoch (ev_last_observed (evd e)) c then
        let (e1, closed) = closeCurrent CloseReconnect c True e
        in accept_settled sha [closed] event encodedBytes (startEpoch sha c CloseReconnect e1)
      else if ev_has_observed (evd e) \<and> compareCoordinate (ev_last_observed (evd e)) c \<ge> 0 then
        let (e1, closed) = closeCurrent CloseRawDiscontinuity c True e;
            (e2, r, err) = appendBuffered event encodedBytes (startEpoch sha c CloseRawDiscontinuity e1)
        in (e2, (plain_result (en_state e2))\<lparr>rs_closed := closed # rs_closed r\<rparr>, ErrRawDiscontinuity # err)
      else accept_settled sha [] event encodedBytes e)"

subsection \<open>Seeding\<close>

definition fetch_snapshot :: "(bytes \<Rightarrow> hash) \<Rightarrow> fetch_outcome \<Rightarrow> engine \<Rightarrow> engine \<times> (errs + snapshot_observation)" where
  "fetch_snapshot sha fo e =
     (case ep_pending (ep e) of
        Some ps \<Rightarrow> (e, Inr (ps_obs ps))
      | None \<Rightarrow>
         if ev_fetches (evd e) \<ge> b_fetches (cfg_bounds (en_config e)) then (e, Inl [ErrSnapshotLimit])
         else
           let e1 = set_ev (\<lambda>v. v\<lparr>ev_fetches := ev_fetches v + 1\<rparr>) e;
               ob = fo_obs fo; cfg = en_config e
           in if fo_ctx fo \<noteq> [] then (e1, Inl (fo_ctx fo))
              else if fo_err fo \<noteq> [] then (e1, Inl (fo_err fo))
              else if \<not> SnapshotObservation_Validate sha ob then (e1, Inl [ErrInvalidSnapshot])
              else if so_source ob \<noteq> cfg_source cfg \<or> so_channel ob \<noteq> cfg_snapshot_channel cfg \<or>
                      so_instrument ob \<noteq> ii_uid (cfg_instrument cfg) \<or>
                      rc_epoch_kind (so_coordinate ob) \<noteq> PollCycleEpoch
              then (e1, Inl [ErrInvalidSnapshot])
              else if so_bytes ob > b_snapshot_bytes (cfg_bounds cfg) then (e1, Inl [ErrSnapshotBytes])
              else if (of_nat (length (so_bids ob)) :: u32) > b_levels (cfg_bounds cfg) \<or>
                      (of_nat (length (so_asks ob)) :: u32) > b_levels (cfg_bounds cfg)
              then (e1, Inl [ErrLevelLimit])
              else
                (set_ep (\<lambda>p.
                   let attempts = ev_attempts (ep_evidence p) @
                         [\<lparr>sa_identity = so_identity ob, sa_raw = so_coordinate ob, sa_last = so_last ob, sa_behind = False\<rparr>]
                   in p\<lparr>ep_evidence := (ep_evidence p)\<lparr>ev_attempts := attempts\<rparr>,
                        ep_pending := Some \<lparr>ps_obs = ob, ps_attempt = length attempts - 1\<rparr>\<rparr>) e1,
                 Inr ob))"

fun discard_loop :: "u64 \<Rightarrow> buffered_update list \<Rightarrow> engine \<Rightarrow> nat \<times> engine" where
  "discard_loop snapshotLast [] e = (0, e)"
| "discard_loop snapshotLast (b # bs) e =
     (if bu_last (bf_event b) \<le> snapshotLast then
        let (count, e') = discard_loop snapshotLast bs (acceptInput (bf_event b) False e)
        in (Suc count, e')
      else (0, e))"

definition discardSnapshotStale :: "u64 \<Rightarrow> engine \<Rightarrow> engine" where
  "discardSnapshotStale snapshotLast e =
     (let (count, e1) = discard_loop snapshotLast (ep_buffer (ep e)) e in
      if count = 0 then e1
      else recalculateBuffer (set_ep (\<lambda>p. p\<lparr>ep_buffer := drop count (ep_buffer p)\<rparr>) e1))"

fun rebuffer :: "buffered_update list \<Rightarrow> evidence list \<Rightarrow> errs \<Rightarrow> engine \<Rightarrow> outcome" where
  "rebuffer [] closed cause e = (e, (plain_result (en_state e))\<lparr>rs_closed := closed\<rparr>, cause)"
| "rebuffer (b # bs) closed cause e =
     (let (e', r, err) = appendBuffered (bf_event b) (bf_bytes b) e;
          closed' = closed @ rs_closed r
      in if err \<noteq> [] then (e', (plain_result (en_state e'))\<lparr>rs_closed := closed'\<rparr>, cause @ err)
         else rebuffer bs closed' cause e')"

definition splitBuffered :: "(bytes \<Rightarrow> hash) \<Rightarrow> nat \<Rightarrow> string \<Rightarrow> errs \<Rightarrow> engine \<Rightarrow> outcome" where
  "splitBuffered sha index reason cause e =
     (let remaining = drop index (ep_buffer (ep e));
          c = metadataCoordinate (bu_meta (bf_event (hd remaining)));
          e1 = set_ev (\<lambda>v. if ev_has_accepted v then v\<lparr>ev_last_observed := ev_last_accepted v\<rparr>
                 else v\<lparr>ev_has_observed := False, ev_first_observed := zero_coordinate,
                        ev_last_observed := zero_coordinate\<rparr>) e;
          (e2, closed) = closeCurrent reason c True e1
      in rebuffer remaining [closed] cause (startEpoch sha c reason e2))"

datatype replay = ReplayOk engine | ReplayReturn outcome

fun replay_loop :: "(bytes \<Rightarrow> hash) \<Rightarrow> u64 \<Rightarrow> nat \<Rightarrow> buffered_update list \<Rightarrow> engine \<Rightarrow> replay" where
  "replay_loop sha snapshotLast index [] e = ReplayOk e"
| "replay_loop sha snapshotLast index (b # bs) e =
     (let event = bf_event b;
          action = (if index = 0 then p_first (en_policy e) snapshotLast event
                    else p_next (en_policy e) (ep_local (ep e)) event)
      in case action of
           SequenceStale \<Rightarrow> replay_loop sha snapshotLast (Suc index) bs (acceptInput event False e)
         | SequenceGap \<Rightarrow> ReplayReturn (splitBuffered sha index CloseForwardGap [ErrSequenceGap] e)
         | SequenceApply \<Rightarrow>
             (case applyEventAtomically (en_config e) (ep_book (ep e)) event of
                Inl err \<Rightarrow> ReplayReturn (failCurrent (closeReasonForLevelError [err]) [err] e)
              | Inr book \<Rightarrow>
                  replay_loop sha snapshotLast (Suc index) bs
                    (acceptInput event True (set_ep (\<lambda>p. p\<lparr>ep_book := book, ep_local := bu_last event\<rparr>) e)))
         | SequenceOther \<Rightarrow> ReplayReturn (failCurrent CloseMalformedInput [ErrInvalidTransition] e))"

definition seed_error :: "errs \<Rightarrow> engine \<Rightarrow> outcome" where
  "seed_error err e =
     (if CtxCanceled \<in> set err \<or> CtxDeadlineExceeded \<in> set err then cancel err e
      else if ErrSnapshotLimit \<in> set err \<or> ErrSnapshotBytes \<in> set err \<or> ErrInvalidSnapshot \<in> set err \<or>
              ErrLevelLimit \<in> set err \<or> ErrCrossedBook \<in> set err \<or> ErrNegativeLevel \<in> set err then
        failCurrent
          (if ErrSnapshotLimit \<in> set err then CloseSnapshotLimit
           else if ErrSnapshotBytes \<in> set err then CloseSnapshotBytes
           else if ErrLevelLimit \<in> set err then CloseLevelLimit
           else if ErrCrossedBook \<in> set err then CloseCrossedBook
           else CloseMalformedInput) err e
      else (e, (plain_result (en_state e))\<lparr>rs_fetches := ev_fetches (evd e)\<rparr>, err))"

definition mark_behind :: "engine \<Rightarrow> engine" where
  "mark_behind = set_ep (\<lambda>p.
     case ep_pending p of None \<Rightarrow> p
     | Some ps \<Rightarrow> p\<lparr>ep_evidence := (ep_evidence p)\<lparr>ev_attempts :=
          (ev_attempts (ep_evidence p))[ps_attempt ps := (ev_attempts (ep_evidence p) ! ps_attempt ps)\<lparr>sa_behind := True\<rparr>]\<rparr>,
        ep_pending := None\<rparr>)"

text \<open>The part of one iteration of \<open>Seed\<close> after the snapshot is known not to be behind.\<close>

definition seed_from :: "(bytes \<Rightarrow> hash) \<Rightarrow> snapshot_observation \<Rightarrow> engine \<Rightarrow> outcome" where
  "seed_from sha snapshot e =
     (case prepareSnapshot (en_config e) snapshot of
        Inl err \<Rightarrow> failCurrent (if err = ErrLevelLimit then CloseLevelLimit
                      else if err = ErrCrossedBook then CloseCrossedBook else CloseMalformedInput) [err] e
      | Inr candidate \<Rightarrow>
          let e1 = discardSnapshotStale (so_last snapshot) e in
          (case ep_buffer (ep e1) of
             [] \<Rightarrow> (e1, (plain_result (en_state e1))\<lparr>rs_fetches := ev_fetches (evd e1)\<rparr>, [])
           | b # bs \<Rightarrow>
               if p_first (en_policy e1) (so_last snapshot) (bf_event b) \<noteq> SequenceApply
               then splitBuffered sha 0 CloseSeedBoundary [ErrBoundary] e1
               else
                 let e2 = transition StateSeeded (so_coordinate snapshot) True
                       (set_ep (\<lambda>p. p\<lparr>ep_book := candidate, ep_local := so_last snapshot,
                          ep_evidence := (ep_evidence p)\<lparr>ev_initial_id := so_identity snapshot,
                            ev_initial_raw := so_coordinate snapshot, ev_has_initial := True\<rparr>\<rparr>) e1)
                 in (case replay_loop sha (so_last snapshot) 0 (b # bs) e2 of
                       ReplayReturn out \<Rightarrow> out
                     | ReplayOk e3 \<Rightarrow>
                         let e4 = set_ep (\<lambda>p. p\<lparr>ep_pending := None\<rparr>) (clearBuffer e3);
                             e5 = transition StateLive (ev_last_accepted (evd e4)) True e4
                         in (case emit sha e5 of
                               (e6, Inl err) \<Rightarrow> failCurrent CloseOutputLimit err e6
                             | (e6, Inr output) \<Rightarrow>
                                 (e6, (plain_result (en_state e6))\<lparr>rs_output := Some output,
                                    rs_fetches := ev_fetches (evd e6)\<rparr>, [])))))"

datatype seed_iter = SeedReturn outcome | SeedAgain engine

definition seed_iteration :: "(bytes \<Rightarrow> hash) \<Rightarrow> fetch_outcome \<Rightarrow> engine \<Rightarrow> seed_iter" where
  "seed_iteration sha fo e =
     (let first = bu_first (bf_event (hd (ep_buffer (ep e)))) in
      case fetch_snapshot sha fo e of
        (e1, Inl err) \<Rightarrow> SeedReturn (seed_error err e1)
      | (e1, Inr snapshot) \<Rightarrow>
          if p_behind (en_policy e1) (so_last snapshot) first then
            let e2 = mark_behind e1 in
            if ev_fetches (evd e2) \<ge> b_fetches (cfg_bounds (en_config e2))
            then SeedReturn (failCurrent CloseSnapshotLimit [ErrSnapshotLimit] e2)
            else SeedAgain e2
          else SeedReturn (seed_from sha snapshot e1))"

text \<open>
  The loop ends because an iteration that continues has used up a fetch or the
  pending snapshot.
\<close>

definition fetches_left :: "engine \<Rightarrow> nat" where
  "fetches_left e = 2 * (unat (b_fetches (cfg_bounds (en_config e))) - unat (ev_fetches (evd e))) +
     (if ep_pending (ep e) = None then 0 else 1)"

subsection \<open>Reading back what the helpers write\<close>

named_theorems engine_simps \<open>field projections of the bookkeeping helpers\<close>

lemma set_ep_simps [simp, engine_simps]:
  "en_config (set_ep f e) = en_config e" "en_policy (set_ep f e) = en_policy e"
  "en_policy_id (set_ep f e) = en_policy_id e" "en_state (set_ep f e) = en_state e"
  "en_parent (set_ep f e) = en_parent e" "en_terminal (set_ep f e) = en_terminal e"
  "en_restart (set_ep f e) = en_restart e" "en_epoch (set_ep f e) = map_option f (en_epoch e)"
  by (simp_all add: set_ep_def)

lemma set_ev_simps [simp, engine_simps]:
  "en_config (set_ev f e) = en_config e" "en_policy (set_ev f e) = en_policy e"
  "en_policy_id (set_ev f e) = en_policy_id e" "en_state (set_ev f e) = en_state e"
  "en_parent (set_ev f e) = en_parent e" "en_terminal (set_ev f e) = en_terminal e"
  "en_restart (set_ev f e) = en_restart e"
  "en_epoch (set_ev f e) = map_option (\<lambda>p. p\<lparr>ep_evidence := f (ep_evidence p)\<rparr>) (en_epoch e)"
  by (simp_all add: set_ev_def)

lemma ep_Some [simp]: "en_epoch e = Some p \<Longrightarrow> ep e = p"
  by (simp add: ep_def)

lemma transition_simps [simp, engine_simps]:
  "en_config (transition s c h e) = en_config e" "en_policy (transition s c h e) = en_policy e"
  "en_policy_id (transition s c h e) = en_policy_id e" "en_state (transition s c h e) = s"
  "en_parent (transition s c h e) = en_parent e" "en_terminal (transition s c h e) = en_terminal e"
  "en_restart (transition s c h e) = en_restart e"
  "en_epoch (transition s c h e) = map_option (\<lambda>p. p\<lparr>ep_evidence := (ep_evidence p)\<lparr>ev_state := s,
     ev_transitions := ev_transitions (ep_evidence p) @ [\<lparr>tr_state = s, tr_has = h, tr_coordinate = c\<rparr>]\<rparr>\<rparr>) (en_epoch e)"
  by (simp_all add: transition_def)

lemma observe_simps [simp, engine_simps]:
  "en_config (observe c e) = en_config e" "en_policy (observe c e) = en_policy e"
  "en_policy_id (observe c e) = en_policy_id e" "en_state (observe c e) = en_state e"
  "en_parent (observe c e) = en_parent e" "en_terminal (observe c e) = en_terminal e"
  "en_restart (observe c e) = en_restart e"
  by (simp_all add: observe_def)

lemma acceptInput_simps [simp, engine_simps]:
  "en_config (acceptInput ev a e) = en_config e" "en_policy (acceptInput ev a e) = en_policy e"
  "en_policy_id (acceptInput ev a e) = en_policy_id e" "en_state (acceptInput ev a e) = en_state e"
  "en_parent (acceptInput ev a e) = en_parent e" "en_terminal (acceptInput ev a e) = en_terminal e"
  "en_restart (acceptInput ev a e) = en_restart e"
  by (simp_all add: acceptInput_def)

subsection \<open>The seeding loop\<close>

lemma fetch_snapshot_fields:
  assumes "fetch_snapshot sha fo e = (e', r)"
  shows "en_config e' = en_config e \<and> en_policy e' = en_policy e \<and> en_policy_id e' = en_policy_id e \<and>
    en_state e' = en_state e \<and> en_parent e' = en_parent e \<and> en_terminal e' = en_terminal e \<and>
    en_restart e' = en_restart e \<and> (en_epoch e' = None \<longleftrightarrow> en_epoch e = None)"
  using assms unfolding fetch_snapshot_def Let_def
  by (auto split: option.splits if_splits)

lemma fetch_snapshot_progress:
  assumes "fetch_snapshot sha fo e = (e', Inr snap)" "en_epoch e = Some p"
  obtains ps where "ep_pending (ep e') = Some ps" and "ps_obs ps = snap"
    and "ep_pending p = None \<Longrightarrow>
      ev_fetches (evd e') = ev_fetches (ep_evidence p) + 1 \<and>
      ev_fetches (ep_evidence p) < b_fetches (cfg_bounds (en_config e))"
    and "ep_pending p \<noteq> None \<Longrightarrow> e' = e"
proof (cases "ep_pending p")
  case None
  with assms show ?thesis
    by (intro that) (auto simp: fetch_snapshot_def Let_def ep_def not_le split: if_splits)
next
  case (Some ps)
  with assms show ?thesis
    by (intro that) (auto simp: fetch_snapshot_def)
qed

lemma mark_behind_simps [simp, engine_simps]:
  "en_config (mark_behind e) = en_config e" "en_policy (mark_behind e) = en_policy e"
  "en_policy_id (mark_behind e) = en_policy_id e" "en_state (mark_behind e) = en_state e"
  "en_parent (mark_behind e) = en_parent e" "en_terminal (mark_behind e) = en_terminal e"
  "en_restart (mark_behind e) = en_restart e" "ep_pending (ep (mark_behind e)) = None"
  "ev_fetches (evd (mark_behind e)) = ev_fetches (evd e)"
  "ep_buffer (ep (mark_behind e)) = ep_buffer (ep e)"
  "en_epoch (mark_behind e) = None \<longleftrightarrow> en_epoch e = None"
  by (auto simp: mark_behind_def ep_def zero_epoch_def split: option.splits)

lemma seed_iteration_decreases:
  assumes "seed_iteration sha fo e = SeedAgain e'" "en_epoch e \<noteq> None"
  shows "fetches_left e' < fetches_left e"
proof -
  obtain p where p: "en_epoch e = Some p" using assms(2) by auto
  obtain e1 snap where f: "fetch_snapshot sha fo e = (e1, Inr snap)" and e': "e' = mark_behind e1"
    and left: "ev_fetches (evd e1) < b_fetches (cfg_bounds (en_config e1))"
    using assms(1) unfolding seed_iteration_def Let_def
    by (auto simp: not_le split: prod.splits sum.splits if_splits)
  have cfg: "en_config e1 = en_config e" using fetch_snapshot_fields [OF f] by simp
  from fetch_snapshot_progress [OF f p] consider
      "ep_pending p = None" "ev_fetches (evd e1) = ev_fetches (ep_evidence p) + 1"
      "ev_fetches (ep_evidence p) < b_fetches (cfg_bounds (en_config e))"
    | "ep_pending p \<noteq> None" "e1 = e" by metis
  then show ?thesis
  proof cases
    case 1
    have "unat (ev_fetches (ep_evidence p) + 1) = unat (ev_fetches (ep_evidence p)) + 1"
      using 1(3) by (intro word_succ_no_wrap) auto
    with 1 p e' cfg left show ?thesis
      by (simp add: fetches_left_def word_less_nat_alt)
  next
    case 2
    with p e' show ?thesis by (simp add: fetches_left_def)
  qed
qed

function seed_loop :: "(bytes \<Rightarrow> hash) \<Rightarrow> (nat \<Rightarrow> fetch_outcome) \<Rightarrow> nat \<Rightarrow> engine \<Rightarrow> outcome" where
  "seed_loop sha fetch n e =
     (if en_epoch e = None then (e, plain_result (en_state e), [ErrInvalidTransition])
      else (case seed_iteration sha (fetch n) e of
          SeedReturn out \<Rightarrow> out
        | SeedAgain e' \<Rightarrow> seed_loop sha fetch (if ep_pending (ep e) = None then Suc n else n) e'))"
  by pat_completeness auto

termination
  by (relation "measure (\<lambda>(_, _, _, e). fetches_left e)") (auto intro: seed_iteration_decreases)

declare seed_loop.simps [simp del]

definition Seed :: "(bytes \<Rightarrow> hash) \<Rightarrow> (nat \<Rightarrow> fetch_outcome) \<Rightarrow> ctx \<Rightarrow> engine \<Rightarrow> outcome" where
  "Seed sha fetch ctx e =
     (if en_terminal e then (e, plain_result StateClosed, [ErrClosed])
      else let cerr = checkContext ctx in
      if cerr \<noteq> [] then cancel cerr e
      else if en_state e \<noteq> StateBuffering \<or> en_epoch e = None
      then (e, plain_result (en_state e), [ErrInvalidTransition])
      else if ep_buffer (ep e) = []
      then (e, (plain_result (en_state e))\<lparr>rs_fetches := ev_fetches (evd e)\<rparr>, [])
      else seed_loop sha fetch 0 e)"

subsection \<open>Ending\<close>

definition Discontinuity :: "ctx \<Rightarrow> engine \<Rightarrow> outcome" where
  "Discontinuity ctx e =
     (if en_terminal e then (e, plain_result StateClosed, [ErrClosed])
      else let cerr = checkContext ctx in
      if cerr \<noteq> [] then cancel cerr e
      else
        let (e1, closed) = (if en_epoch e \<noteq> None \<and> en_state e \<noteq> StateClosed then
              (case closeCurrent CloseRawDiscontinuity (ev_last_observed (evd e)) (ev_has_observed (evd e)) e of
                 (e', v) \<Rightarrow> (e', [v])) else (e, []))
        in (e1\<lparr>en_restart := True, en_state := StateClosed\<rparr>,
            (plain_result StateClosed)\<lparr>rs_closed := closed\<rparr>, []))"

definition Close :: "ctx \<Rightarrow> engine \<Rightarrow> outcome" where
  "Close ctx e =
     (let cerr = checkContext ctx in
      if cerr \<noteq> [] then cancel cerr e
      else if en_terminal e then (e, plain_result StateClosed, [])
      else
        let (e1, closed) = (if en_epoch e \<noteq> None \<and> en_state e \<noteq> StateClosed then
              (case closeCurrent CloseExplicit (ev_last_observed (evd e)) (ev_has_observed (evd e)) e of
                 (e', v) \<Rightarrow> (e', [v])) else (e, []))
        in (e1\<lparr>en_terminal := True, en_state := StateClosed\<rparr>,
            (plain_result StateClosed)\<lparr>rs_closed := closed\<rparr>, []))"

end
