(* ===== verification/EngineInv.thy ===== *)
theory EngineInv
  imports Engine
begin

text \<open>
  The invariant of the reconstruction engine and its preservation by every
  operation of \<open>src/orderbook/engine.go\<close>.  \<open>core_ok\<close> is what holds of an epoch at
  every point, also inside an operation; \<open>engine_ok\<close> is what holds between
  operations.  \<open>good\<close> says what an operation owes its caller: the invariant
  again, the fixed configuration, a result that names the new state, an unbroken
  parent chain of the epochs it closed, and a well-formed output.
\<close>

subsection \<open>The buffer\<close>

abbreviation recv :: "buffered_update \<Rightarrow> i64" where
  "recv b \<equiv> md_received (bu_meta (bf_event b))"

abbreviation coord :: "buffered_update \<Rightarrow> raw_coordinate" where
  "coord b \<equiv> metadataCoordinate (bu_meta (bf_event b))"

definition buf_sum :: "buffered_update list \<Rightarrow> nat" where
  "buf_sum bs = sum_list (map (\<lambda>b. unat (bf_bytes b)) bs)"

definition fits :: "bounds \<Rightarrow> buffered_update list \<Rightarrow> bool" where
  "fits bnd bs \<longleftrightarrow> length bs \<le> unat (b_messages bnd) \<and> buf_sum bs \<le> unat (b_bytes bnd) \<and>
     (\<forall>b \<in> set bs. bf_bytes b \<noteq> 0) \<and> (\<forall>x \<in> set bs. \<forall>y \<in> set bs. recv x - recv y \<le> b_span bnd)"

definition buf_exact :: "recon_epoch \<Rightarrow> bool" where
  "buf_exact p \<longleftrightarrow> unat (ep_bytes p) = buf_sum (ep_buffer p) \<and>
     (ep_buffer p \<noteq> [] \<longrightarrow> ep_min p = Min (recv ` set (ep_buffer p)) \<and>
        ep_max p = Max (recv ` set (ep_buffer p)))"

definition coord_before :: "raw_coordinate \<Rightarrow> raw_coordinate \<Rightarrow> bool" where
  "coord_before l r \<longleftrightarrow> sameRawEpoch l r \<and> compareCoordinate l r < 0"

definition update_ok :: "(bytes \<Rightarrow> hash) \<Rightarrow> config \<Rightarrow> book_update \<Rightarrow> bool" where
  "update_ok sha cfg event \<longleftrightarrow> validateUpdate sha cfg event = [] \<and>
     0 \<le> md_received (bu_meta event) \<and> md_received (bu_meta event) < 2 ^ 63"

lemma buf_sum_simps [simp]:
  "buf_sum [] = 0" "buf_sum (b # bs) = unat (bf_bytes b) + buf_sum bs"
  "buf_sum (bs @ cs) = buf_sum bs + buf_sum cs"
  by (simp_all add: buf_sum_def)

lemma fits_Nil [simp]: "fits bnd []"
  by (simp add: fits_def)

lemma fits_drop: "fits bnd bs \<Longrightarrow> fits bnd (drop n bs)"
proof -
  assume a: "fits bnd bs"
  have "buf_sum bs = buf_sum (take n bs) + buf_sum (drop n bs)"
    using buf_sum_simps(3) [of "take n bs" "drop n bs"] by simp
  with a show ?thesis by (auto simp: fits_def dest: in_set_dropD)
qed

lemma fits_take: "fits bnd bs \<Longrightarrow> fits bnd (take n bs)"
proof -
  assume a: "fits bnd bs"
  have "buf_sum bs = buf_sum (take n bs) + buf_sum (drop n bs)"
    using buf_sum_simps(3) [of "take n bs" "drop n bs"] by simp
  with a show ?thesis by (auto simp: fits_def dest: in_set_takeD)
qed

lemma coord_before_trans: "coord_before a b \<Longrightarrow> coord_before b c \<Longrightarrow> coord_before a c"
  by (auto simp: coord_before_def sameRawEpoch_def compareCoordinate_def split: if_splits)

lemma buf_exact_span:
  assumes "buf_exact p" "ep_buffer p \<noteq> []"
  shows "(\<forall>x \<in> set (ep_buffer p @ [b]). \<forall>y \<in> set (ep_buffer p @ [b]). recv x - recv y \<le> s) \<longleftrightarrow>
     max (ep_max p) (recv b) - min (ep_min p) (recv b) \<le> s"
proof -
  let ?R = "recv ` set (ep_buffer p)"
  have R: "finite ?R" "?R \<noteq> {}" using assms(2) by auto
  have m: "ep_min p = Min ?R" "ep_max p = Max ?R" using assms by (auto simp: buf_exact_def)
  have mx: "max (ep_max p) (recv b) = Max (insert (recv b) ?R)"
    and mn: "min (ep_min p) (recv b) = Min (insert (recv b) ?R)"
    using Max_insert [OF R, of "recv b"] Min_insert [OF R, of "recv b"] m by linarith+
  let ?S = "insert (recv b) ?R"
  have S: "finite ?S" "?S \<noteq> {}" by auto
  have "(\<forall>x \<in> ?S. \<forall>y \<in> ?S. x - y \<le> s) \<longleftrightarrow> Max ?S - Min ?S \<le> s"
  proof
    assume "\<forall>x \<in> ?S. \<forall>y \<in> ?S. x - y \<le> s"
    then show "Max ?S - Min ?S \<le> s" using Max_in [OF S] Min_in [OF S] by blast
  next
    assume a: "Max ?S - Min ?S \<le> s"
    show "\<forall>x \<in> ?S. \<forall>y \<in> ?S. x - y \<le> s"
    proof (intro ballI)
      fix x y assume "x \<in> ?S" "y \<in> ?S"
      then have "x \<le> Max ?S" "Min ?S \<le> y" using S by simp_all
      with a show "x - y \<le> s" by linarith
    qed
  qed
  then show ?thesis unfolding mx mn by auto
qed

text \<open>The guards of \<open>appendBuffered\<close> hold exactly when the longer buffer fits.\<close>

lemma append_guards:
  assumes "buf_exact p" "fits bnd (ep_buffer p)" "0 < b_span bnd"
    and nonneg: "0 \<le> recv b" "recv b < 2 ^ 63" "\<forall>x \<in> set (ep_buffer p). 0 \<le> recv x \<and> recv x < 2 ^ 63"
  shows "fits bnd (ep_buffer p @ [b]) \<longleftrightarrow>
     \<not> (bf_bytes b = 0 \<or> bf_bytes b > b_bytes bnd \<or> ep_bytes p > max_u64 - bf_bytes b \<or>
        ep_bytes p + bf_bytes b > b_bytes bnd) \<and>
     \<not> length (ep_buffer p) \<ge> unat (b_messages bnd) \<and>
     \<not> wrap_i64 ((if ep_buffer p \<noteq> [] then max (ep_max p) (recv b) else recv b) -
        (if ep_buffer p \<noteq> [] then min (ep_min p) (recv b) else recv b)) > b_span bnd"
proof -
  let ?mx = "if ep_buffer p \<noteq> [] then max (ep_max p) (recv b) else recv b"
  let ?mn = "if ep_buffer p \<noteq> [] then min (ep_min p) (recv b) else recv b"
  have len: "length (ep_buffer p @ [b]) \<le> unat (b_messages bnd) \<longleftrightarrow> \<not> length (ep_buffer p) \<ge> unat (b_messages bnd)"
    by auto
  have sum: "unat (ep_bytes p) = buf_sum (ep_buffer p)" using assms(1) by (simp add: buf_exact_def)
  have mm: "unat (max_u64 - bf_bytes b) = 2 ^ 64 - 1 - unat (bf_bytes b)"
    by (rule unat_max_minus)
  have bytes: "buf_sum (ep_buffer p @ [b]) \<le> unat (b_bytes bnd) \<longleftrightarrow>
     \<not> (bf_bytes b > b_bytes bnd \<or> ep_bytes p > max_u64 - bf_bytes b \<or> ep_bytes p + bf_bytes b > b_bytes bnd)"
    (is "?l \<longleftrightarrow> \<not> ?r")
  proof (cases "unat (ep_bytes p) + unat (bf_bytes b) < 2 ^ 64")
    case True
    have "unat (ep_bytes p + bf_bytes b) = unat (ep_bytes p) + unat (bf_bytes b)"
      using True by (intro unat_add_no_wrap) simp
    with True sum show ?thesis by (auto simp: word_less_nat_alt word_le_nat_alt mm)
  next
    case False
    then show ?thesis
      using sum unat_bound [of "b_bytes bnd"] unat_bound [of "bf_bytes b"]
      by (auto simp: word_less_nat_alt mm)
  qed
  have span: "(\<forall>x \<in> set (ep_buffer p @ [b]). \<forall>y \<in> set (ep_buffer p @ [b]). recv x - recv y \<le> b_span bnd)
      \<longleftrightarrow> ?mx - ?mn \<le> b_span bnd"
    using buf_exact_span [OF assms(1), of b "b_span bnd"] assms(3) by (cases "ep_buffer p = []") auto
  have "0 \<le> ?mn \<and> ?mn \<le> ?mx \<and> ?mx < 2 ^ 63"
    using nonneg assms(1) by (auto simp: buf_exact_def)
  then have wrap: "wrap_i64 (?mx - ?mn) = ?mx - ?mn"
    by (intro wrap_i64_id) (auto simp: in_i64_def)
  have nz: "(\<forall>x \<in> set (ep_buffer p @ [b]). bf_bytes x \<noteq> 0) \<longleftrightarrow> bf_bytes b \<noteq> 0"
    using assms(2) by (auto simp: fits_def)
  show ?thesis
    unfolding fits_def len bytes span nz wrap by (auto simp: not_less)
qed

subsection \<open>The invariant\<close>

definition pending_ok :: "config \<Rightarrow> recon_epoch \<Rightarrow> bool" where
  "pending_ok cfg p \<longleftrightarrow> (case ep_pending p of None \<Rightarrow> True
     | Some ps \<Rightarrow> ps_attempt ps < length (ev_attempts (ep_evidence p)) \<and>
         length (so_bids (ps_obs ps)) < 2 ^ 32 \<and> length (so_asks (ps_obs ps)) < 2 ^ 32)"

definition counters_ok :: "config \<Rightarrow> evidence \<Rightarrow> bool" where
  "counters_ok cfg v \<longleftrightarrow> ev_fetches v \<le> b_fetches (cfg_bounds cfg) \<and>
     ev_outputs v \<le> b_outputs (cfg_bounds cfg) \<and> ev_accepted v = ev_applied v + ev_stale v"

definition buffer_ok :: "(bytes \<Rightarrow> hash) \<Rightarrow> config \<Rightarrow> recon_epoch \<Rightarrow> bool" where
  "buffer_ok sha cfg p \<longleftrightarrow> fits (cfg_bounds cfg) (ep_buffer p) \<and> buf_exact p \<and>
     (\<forall>b \<in> set (ep_buffer p). update_ok sha cfg (bf_event b)) \<and>
     sorted_wrt coord_before (map coord (ep_buffer p))"

definition core_ok :: "(bytes \<Rightarrow> hash) \<Rightarrow> config \<Rightarrow> recon_epoch \<Rightarrow> bool" where
  "core_ok sha cfg p \<longleftrightarrow> buffer_ok sha cfg p \<and> counters_ok cfg (ep_evidence p) \<and>
     book_ok cfg (ep_book p) \<and> pending_ok cfg p"

definition state_ok :: "state \<Rightarrow> recon_epoch \<Rightarrow> bool" where
  "state_ok s p \<longleftrightarrow> ev_state (ep_evidence p) = s \<and>
     (s = StateLive \<longrightarrow> ep_buffer p = [] \<and> ep_pending p = None \<and>
        ev_has_accepted (ep_evidence p) \<and> ev_has_initial (ep_evidence p)) \<and>
     (s = StateBuffering \<and> ep_buffer p \<noteq> [] \<longrightarrow> ev_has_observed (ep_evidence p) \<and>
        ev_last_observed (ep_evidence p) = coord (last (ep_buffer p)))"

definition engine_ok :: "(bytes \<Rightarrow> hash) \<Rightarrow> engine \<Rightarrow> bool" where
  "engine_ok sha e \<longleftrightarrow>
     validateConfig (en_config e) (Some (en_policy e)) True \<and>
     (en_terminal e \<longrightarrow> en_state e = StateClosed) \<and>
     (case en_epoch e of
        None \<Rightarrow> en_state e \<in> {StateUnseeded, StateClosed}
      | Some p \<Rightarrow> en_state e \<in> {StateBuffering, StateLive, StateClosed} \<and>
          core_ok sha (en_config e) p \<and> state_ok (en_state e) p \<and>
          (en_state e \<noteq> StateClosed \<longrightarrow> ev_parent (ep_evidence p) = en_parent e))"

text \<open>What holds inside an operation: an epoch with a sound core whose parent is the engine's.\<close>

definition inner_ok :: "(bytes \<Rightarrow> hash) \<Rightarrow> engine \<Rightarrow> bool" where
  "inner_ok sha e \<longleftrightarrow> validateConfig (en_config e) (Some (en_policy e)) True \<and>
     (\<exists>p. en_epoch e = Some p \<and> core_ok sha (en_config e) p \<and> ev_parent (ep_evidence p) = en_parent e) \<and>
     en_state e \<noteq> StateClosed \<and> \<not> en_terminal e"

lemma inner_okI:
  "engine_ok sha e \<Longrightarrow> en_epoch e \<noteq> None \<Longrightarrow> en_state e \<noteq> StateClosed \<Longrightarrow> inner_ok sha e"
  by (auto simp: engine_ok_def inner_ok_def)

lemma inner_okE:
  assumes "inner_ok sha e"
  obtains p where "en_epoch e = Some p" "ep e = p" "core_ok sha (en_config e) p"
    "ev_parent (ep_evidence p) = en_parent e"
  using assms by (auto simp: inner_ok_def)

lemma core_ok_evidence:
  assumes "core_ok sha cfg p" "counters_ok cfg v" "length (ev_attempts v) \<ge> length (ev_attempts (ep_evidence p))"
  shows "core_ok sha cfg (p\<lparr>ep_evidence := v\<rparr>)"
  using assms by (auto simp: core_ok_def buffer_ok_def buf_exact_def pending_ok_def split: option.splits)

lemma inner_set_ev:
  assumes "inner_ok sha e" "\<And>v. counters_ok (en_config e) v \<Longrightarrow> counters_ok (en_config e) (f v)"
    "\<And>v. length (ev_attempts (f v)) \<ge> length (ev_attempts v)" "\<And>v. ev_parent (f v) = ev_parent v"
  shows "inner_ok sha (set_ev f e)"
  using assms by (auto simp: inner_ok_def intro!: core_ok_evidence) (simp add: core_ok_def)

lemma inner_observe: "inner_ok sha e \<Longrightarrow> inner_ok sha (observe c e)"
  unfolding observe_def
  by (rule inner_set_ev) (auto simp: Let_def counters_ok_def)

lemma inner_transition:
  "inner_ok sha e \<Longrightarrow> s \<noteq> StateClosed \<Longrightarrow> inner_ok sha (transition s c h e)"
  by (auto simp: inner_ok_def intro!: core_ok_evidence) (simp_all add: core_ok_def counters_ok_def)

lemma inner_set_ep:
  assumes "inner_ok sha e" "\<And>p. core_ok sha (en_config e) p \<Longrightarrow> core_ok sha (en_config e) (f p)"
    "\<And>p. ev_parent (ep_evidence (f p)) = ev_parent (ep_evidence p)"
  shows "inner_ok sha (set_ep f e)"
  using assms by (auto simp: inner_ok_def)

lemma core_ok_input: "core_ok sha cfg (p\<lparr>ep_evidence := v, ep_input := x\<rparr>) = core_ok sha cfg (p\<lparr>ep_evidence := v\<rparr>)"
  by (simp add: core_ok_def buffer_ok_def buf_exact_def pending_ok_def split: option.split)

lemma inner_acceptInput: "inner_ok sha e \<Longrightarrow> inner_ok sha (acceptInput ev a e)"
  unfolding acceptInput_def
proof (rule inner_set_ep)
  fix p
  assume c: "core_ok sha (en_config e) p"
  then have "counters_ok (en_config e) (ep_evidence p)" by (simp add: core_ok_def)
  then show "core_ok sha (en_config e) (let c = metadataCoordinate (bu_meta ev);
         v = ep_evidence p;
         v1 = (if \<not> ev_has_accepted v then v\<lparr>ev_first_accepted := c, ev_has_accepted := True\<rparr> else v);
         v2 = v1\<lparr>ev_last_accepted := c, ev_accepted := ev_accepted v1 + 1\<rparr>;
         v3 = (if a then v2\<lparr>ev_applied := ev_applied v2 + 1\<rparr> else v2\<lparr>ev_stale := ev_stale v2 + 1\<rparr>)
     in p\<lparr>ep_evidence := v3, ep_input := appendInputIdentity (ep_input p) ev\<rparr>)"
    unfolding Let_def core_ok_input
    by (intro core_ok_evidence [OF c]) (auto simp: counters_ok_def add.assoc add.left_commute)
qed (auto simp: Let_def)

lemma inner_set_book:
  "inner_ok sha e \<Longrightarrow> book_ok (en_config e) book \<Longrightarrow>
   inner_ok sha (set_ep (\<lambda>p. p\<lparr>ep_book := book, ep_local := n\<rparr>) e)"
  by (auto simp: inner_ok_def core_ok_def buffer_ok_def buf_exact_def pending_ok_def split: option.splits)

subsection \<open>What an operation owes\<close>

fun lineage :: "hash \<Rightarrow> evidence list \<Rightarrow> hash \<Rightarrow> bool" where
  "lineage parent [] parent' \<longleftrightarrow> parent' = parent"
| "lineage parent (v # vs) parent' \<longleftrightarrow>
     ev_parent v = parent \<and> ev_state v = StateClosed \<and> ev_reason v \<noteq> [] \<and> lineage (ev_id v) vs parent'"

lemma lineage_append: "lineage a vs b \<Longrightarrow> lineage b ws c \<Longrightarrow> lineage a (vs @ ws) c"
  by (induction vs arbitrary: a) auto

definition snapshot_sound :: "(bytes \<Rightarrow> hash) \<Rightarrow> config \<Rightarrow> book_snapshot \<Rightarrow> bool" where
  "snapshot_sound sha cfg s \<longleftrightarrow> BookSnapshot_Validate sha s \<and>
     sorted_wrt (>) (map level_coef (bk_bids s)) \<and> sorted_wrt (<) (map level_coef (bk_asks s)) \<and>
     (\<forall>l \<in> set (bk_bids s @ bk_asks s). 0 < level_coef l \<and> 0 < coef_int (coefficient (lv_amount l))) \<and>
     length (bk_bids s) \<le> unat (b_levels (cfg_bounds cfg)) \<and>
     length (bk_asks s) \<le> unat (b_levels (cfg_bounds cfg)) \<and>
     (cfg_reject_crossed cfg \<longrightarrow> (\<forall>b \<in> set (bk_bids s). \<forall>a \<in> set (bk_asks s). level_coef b < level_coef a))"

definition output_ok :: "(bytes \<Rightarrow> hash) \<Rightarrow> engine \<Rightarrow> book_snapshot option \<Rightarrow> bool" where
  "output_ok sha e out \<longleftrightarrow> (case out of None \<Rightarrow> True
     | Some s \<Rightarrow> snapshot_sound sha (en_config e) s \<and> en_state e = StateLive \<and>
         bk_last s = ep_local (ep e) \<and> bk_ordinal s = ev_outputs (evd e) \<and>
         bk_epoch_id s = ev_id (evd e) \<and> bk_hash s = ev_last_output_hash (evd e))"

definition good :: "(bytes \<Rightarrow> hash) \<Rightarrow> engine \<Rightarrow> outcome \<Rightarrow> bool" where
  "good sha e out \<longleftrightarrow> (case out of (e', r, err) \<Rightarrow>
     engine_ok sha e' \<and> en_config e' = en_config e \<and> en_policy e' = en_policy e \<and>
     en_policy_id e' = en_policy_id e \<and> rs_state r = en_state e' \<and>
     lineage (en_parent e) (rs_closed r) (en_parent e') \<and> output_ok sha e' (rs_output r))"

definition closing :: "string \<Rightarrow> raw_coordinate \<Rightarrow> bool \<Rightarrow> evidence \<Rightarrow> evidence" where
  "closing reason c h v =
     (let v1 = (if reason = CloseForwardGap \<or> reason = CloseSeedBoundary
            then v\<lparr>ev_state := StateGap, ev_transitions := ev_transitions v @ [\<lparr>tr_state = StateGap, tr_has = h, tr_coordinate = c\<rparr>]\<rparr>
            else v)
      in v1\<lparr>ev_state := StateClosed, ev_reason := reason,
           ev_transitions := ev_transitions v1 @ [\<lparr>tr_state = StateClosed, tr_has = h, tr_coordinate = c\<rparr>]\<rparr>)"

lemma closeCurrent_eq:
  assumes "en_epoch e = Some p"
  shows "closeCurrent reason c h e =
    (e\<lparr>en_epoch := Some (p\<lparr>ep_evidence := closing reason c h (ep_evidence p)\<rparr>),
       en_parent := ev_id (ep_evidence p), en_state := StateClosed\<rparr>, closing reason c h (ep_evidence p))"
  using assms
  by (cases "reason = CloseForwardGap \<or> reason = CloseSeedBoundary")
    (simp_all add: closeCurrent_def closing_def Let_def transition_def set_ev_def set_ep_def ep_def)

lemma closing_simps [simp]:
  "ev_state (closing reason c h v) = StateClosed" "ev_reason (closing reason c h v) = reason"
  "ev_id (closing reason c h v) = ev_id v" "ev_parent (closing reason c h v) = ev_parent v"
  "ev_attempts (closing reason c h v) = ev_attempts v"
  "counters_ok cfg (closing reason c h v) = counters_ok cfg v"
  by (simp_all add: closing_def Let_def counters_ok_def)

lemma closeCurrent_spec:
  assumes "inner_ok sha e" "reason \<noteq> []" "closeCurrent reason c h e = (e', v)"
  shows "engine_ok sha (e'\<lparr>en_terminal := t, en_restart := r\<rparr>)" "en_config e' = en_config e" "en_policy e' = en_policy e"
    "en_policy_id e' = en_policy_id e" "en_state e' = StateClosed" "en_epoch e' \<noteq> None"
    "lineage (en_parent e) [v] (en_parent e')" "en_terminal e' = en_terminal e" "en_restart e' = en_restart e"
    "validateConfig (en_config e') (Some (en_policy e')) True"
proof -
  obtain p where p: "en_epoch e = Some p" "core_ok sha (en_config e) p" "ev_parent (ep_evidence p) = en_parent e"
    using assms(1) by (rule inner_okE) auto
  have e': "e' = e\<lparr>en_epoch := Some (p\<lparr>ep_evidence := v\<rparr>), en_parent := ev_id (ep_evidence p),
      en_state := StateClosed\<rparr>" and v: "v = closing reason c h (ep_evidence p)"
    using assms(3) closeCurrent_eq [OF p(1), of reason c h] by auto
  have vc: "validateConfig (en_config e) (Some (en_policy e)) True" using assms(1) by (simp add: inner_ok_def)
  have core: "core_ok sha (en_config e) (p\<lparr>ep_evidence := v\<rparr>)"
    using p(2) v by (intro core_ok_evidence) (auto simp: core_ok_def)
  show "engine_ok sha (e'\<lparr>en_terminal := t, en_restart := r\<rparr>)"
    using e' v core vc by (simp add: engine_ok_def state_ok_def)
  show "en_config e' = en_config e" "en_policy e' = en_policy e"
    "en_policy_id e' = en_policy_id e" "en_state e' = StateClosed" "en_epoch e' \<noteq> None"
    "en_terminal e' = en_terminal e" "en_restart e' = en_restart e"
    "validateConfig (en_config e') (Some (en_policy e')) True"
    using e' vc by simp_all
  show "lineage (en_parent e) [v] (en_parent e')"
    using assms(2) e' v p by simp
qed

lemma failCurrent_good:
  assumes "inner_ok sha e" "reason \<noteq> []"
  shows "good sha e (failCurrent reason cause e)"
proof -
  obtain e' v where c: "closeCurrent reason (ev_last_observed (evd e)) (ev_has_observed (evd e)) e = (e', v)"
    by fastforce
  note s = closeCurrent_spec [OF assms c]
  have "en_epoch e \<noteq> None \<and> en_state e \<noteq> StateClosed" using assms(1) by (auto simp: inner_ok_def)
  moreover have "engine_ok sha e'"
    using s(1) [where t = "en_terminal e'" and r = "en_restart e'"] by simp
  ultimately show ?thesis
    using s(2-8) by (simp add: failCurrent_def c good_def plain_result_def output_ok_def)
qed

lemma startEpoch_spec:
  assumes "validateConfig (en_config e) (Some (en_policy e)) True" "\<not> en_terminal e"
  shows "engine_ok sha (startEpoch sha c reason e)" "inner_ok sha (startEpoch sha c reason e)"
    "en_config (startEpoch sha c reason e) = en_config e" "en_policy (startEpoch sha c reason e) = en_policy e"
    "en_policy_id (startEpoch sha c reason e) = en_policy_id e" "en_parent (startEpoch sha c reason e) = en_parent e"
    "en_state (startEpoch sha c reason e) = StateBuffering" "ep_buffer (ep (startEpoch sha c reason e)) = []"
    "\<not> ev_has_observed (evd (startEpoch sha c reason e))"
    "en_terminal (startEpoch sha c reason e) = en_terminal e"
  using assms
  by (auto simp: startEpoch_def Let_def engine_ok_def inner_ok_def core_ok_def state_ok_def buffer_ok_def
      buf_exact_def counters_ok_def pending_ok_def zero_epoch_def zero_evidence_def ep_def)

subsection \<open>Appending to the buffer\<close>

definition appended :: "book_update \<Rightarrow> u64 \<Rightarrow> recon_epoch \<Rightarrow> recon_epoch" where
  "appended event n p = (let received = md_received (bu_meta event) in
     p\<lparr>ep_buffer := ep_buffer p @ [\<lparr>bf_event = event, bf_bytes = n\<rparr>], ep_bytes := ep_bytes p + n,
       ep_min := (if ep_buffer p \<noteq> [] then min (ep_min p) received else received),
       ep_max := (if ep_buffer p \<noteq> [] then max (ep_max p) received else received)\<rparr>)"

lemma appended_simps [simp]:
  "ep_buffer (appended event n p) = ep_buffer p @ [\<lparr>bf_event = event, bf_bytes = n\<rparr>]"
  "ep_evidence (appended event n p) = ep_evidence p" "ep_book (appended event n p) = ep_book p"
  "ep_pending (appended event n p) = ep_pending p"
  by (simp_all add: appended_def Let_def)

lemma buf_exact_appended:
  assumes "buf_exact p" "fits bnd (ep_buffer p @ [\<lparr>bf_event = event, bf_bytes = n\<rparr>])"
  shows "buf_exact (appended event n p)"
proof -
  have "buf_sum (ep_buffer p) + unat n \<le> unat (b_bytes bnd)" using assms(2) by (simp add: fits_def)
  then have "unat (ep_bytes p + n) = unat (ep_bytes p) + unat n"
    using assms(1) unat_bound [of "b_bytes bnd"] by (intro unat_add_no_wrap) (simp add: buf_exact_def)
  moreover have "Min (insert x (recv ` set (ep_buffer p))) = min (ep_min p) x \<and>
      Max (insert x (recv ` set (ep_buffer p))) = max (ep_max p) x" if "ep_buffer p \<noteq> []" for x
    using assms(1) that by (simp add: buf_exact_def min.commute max.commute)
  ultimately show ?thesis
    using assms(1) by (cases "ep_buffer p = []") (simp_all add: buf_exact_def appended_def Let_def)
qed

lemma buffer_ok_appended:
  assumes "buffer_ok sha cfg p" "fits (cfg_bounds cfg) (ep_buffer p @ [\<lparr>bf_event = event, bf_bytes = n\<rparr>])"
    "update_ok sha cfg event"
    "ep_buffer p \<noteq> [] \<Longrightarrow> coord_before (coord (last (ep_buffer p))) (metadataCoordinate (bu_meta event))"
  shows "buffer_ok sha cfg (appended event n p)"
proof -
  have sw: "sorted_wrt coord_before (map coord (ep_buffer p))" using assms(1) by (simp add: buffer_ok_def)
  have "coord_before (coord b) (metadataCoordinate (bu_meta event))" if "b \<in> set (ep_buffer p)" for b
  proof -
    have ne: "ep_buffer p \<noteq> []" using that by auto
    have split: "ep_buffer p = butlast (ep_buffer p) @ [last (ep_buffer p)]" using ne by simp
    have "b = last (ep_buffer p) \<or> coord_before (coord b) (coord (last (ep_buffer p)))"
      using sw that by (subst (asm) (1 2) split) (auto simp: sorted_wrt_append)
    with assms(4) [OF ne] show ?thesis using coord_before_trans by blast
  qed
  with assms sw buf_exact_appended [of p "cfg_bounds cfg" event n] show ?thesis
    by (auto simp: buffer_ok_def sorted_wrt_append)
qed

definition observing :: "raw_coordinate \<Rightarrow> evidence \<Rightarrow> evidence" where
  "observing c v = (if ev_has_observed v then v else v\<lparr>ev_first_observed := c, ev_has_observed := True\<rparr>)\<lparr>ev_last_observed := c\<rparr>"

lemma observe_eq:
  "en_epoch e = Some p \<Longrightarrow> observe c e = e\<lparr>en_epoch := Some (p\<lparr>ep_evidence := observing c (ep_evidence p)\<rparr>)\<rparr>"
  by (simp add: observe_def observing_def set_ev_def set_ep_def Let_def)

lemma observing_simps [simp]:
  "ev_has_observed (observing c v)" "ev_last_observed (observing c v) = c" "ev_state (observing c v) = ev_state v"
  "ev_parent (observing c v) = ev_parent v" "ev_id (observing c v) = ev_id v"
  "ev_attempts (observing c v) = ev_attempts v" "counters_ok cfg (observing c v) = counters_ok cfg v"
  "ev_has_accepted (observing c v) = ev_has_accepted v" "ev_has_initial (observing c v) = ev_has_initial v"
  "ev_fetches (observing c v) = ev_fetches v" "ev_outputs (observing c v) = ev_outputs v"
  by (simp_all add: observing_def counters_ok_def)

definition overflow_errors :: "errs set" where
  "overflow_errors = {[ErrBufferBytes], [ErrBufferMessages], [ErrBufferTime]}"

lemma appendBuffered_cases:
  assumes "en_epoch e = Some p" "buffer_ok sha (en_config e) p" "update_ok sha (en_config e) event"
    "0 < b_span (cfg_bounds (en_config e))"
  shows "if fits (cfg_bounds (en_config e)) (ep_buffer p @ [\<lparr>bf_event = event, bf_bytes = n\<rparr>])
    then appendBuffered event n e =
      (observe (metadataCoordinate (bu_meta event)) (e\<lparr>en_epoch := Some (appended event n p)\<rparr>), plain_result (en_state e), [])
    else \<exists>err \<in> overflow_errors.
      appendBuffered event n e = failCurrent CloseBufferOverflow err (observe (metadataCoordinate (bu_meta event)) e)"
proof -
  have ex: "buf_exact p" and ft: "fits (cfg_bounds (en_config e)) (ep_buffer p)"
    and all: "\<forall>x \<in> set (ep_buffer p). 0 \<le> recv x \<and> recv x < 2 ^ 63"
    using assms(2) by (auto simp: buffer_ok_def update_ok_def)
  have ev: "0 \<le> md_received (bu_meta event)" "md_received (bu_meta event) < 2 ^ 63"
    using assms(3) by (auto simp: update_ok_def)
  note g = append_guards [OF ex ft assms(4), of "\<lparr>bf_event = event, bf_bytes = n\<rparr>"]
  have eq: "set_ep (\<lambda>p. p\<lparr>ep_buffer := ep_buffer p @ [\<lparr>bf_event = event, bf_bytes = n\<rparr>],
      ep_bytes := ep_bytes p + n, ep_min := (if ep_buffer (ep e) \<noteq> [] then min (ep_min (ep e)) (md_received (bu_meta event)) else md_received (bu_meta event)),
      ep_max := (if ep_buffer (ep e) \<noteq> [] then max (ep_max (ep e)) (md_received (bu_meta event)) else md_received (bu_meta event))\<rparr>) e
      = e\<lparr>en_epoch := Some (appended event n p)\<rparr>"
    using assms(1) by (simp add: set_ep_def appended_def Let_def)
  show ?thesis
    using g ev all eq assms(1)
    unfolding appendBuffered_def Let_def
    by (simp add: overflow_errors_def)
qed

lemma validateConfig_span: "validateConfig cfg pol True \<Longrightarrow> 0 < b_span (cfg_bounds cfg)"
  by (auto simp: validateConfig_def Let_def not_le split: option.splits)

lemma reasons_nonempty [simp]:
  "CloseExplicit \<noteq> []" "CloseReconnect \<noteq> []" "CloseRawDiscontinuity \<noteq> []" "CloseForwardGap \<noteq> []"
  "CloseSeedBoundary \<noteq> []" "CloseBufferOverflow \<noteq> []" "CloseSnapshotLimit \<noteq> []" "CloseSnapshotBytes \<noteq> []"
  "CloseMalformedInput \<noteq> []" "CloseLevelLimit \<noteq> []" "CloseCrossedBook \<noteq> []" "CloseOutputLimit \<noteq> []"
  "CloseCancelled \<noteq> []" "closeReasonForLevelError err \<noteq> []"
  by (simp_all add: CloseExplicit_def CloseReconnect_def CloseRawDiscontinuity_def CloseForwardGap_def
      CloseSeedBoundary_def CloseBufferOverflow_def CloseSnapshotLimit_def CloseSnapshotBytes_def
      CloseMalformedInput_def CloseLevelLimit_def CloseCrossedBook_def CloseOutputLimit_def
      CloseCancelled_def closeReasonForLevelError_def)

lemma good_trans:
  assumes "good sha e' (e2, r, err)" "en_config e' = en_config e" "en_policy e' = en_policy e"
    "en_policy_id e' = en_policy_id e" "lineage (en_parent e) vs (en_parent e')"
  shows "good sha e (e2, r\<lparr>rs_closed := vs @ rs_closed r\<rparr>, err')"
  using assms by (auto simp: good_def intro: lineage_append)

lemma good_same:
  assumes "good sha e' out" "en_config e' = en_config e" "en_policy e' = en_policy e"
    "en_policy_id e' = en_policy_id e" "en_parent e' = en_parent e"
  shows "good sha e out"
  using assms by (auto simp: good_def)

text \<open>The two outcomes of \<open>appendBuffered\<close> on a buffering engine.\<close>

definition next_coord :: "engine \<Rightarrow> book_update \<Rightarrow> bool" where
  "next_coord e event \<longleftrightarrow> (ep_buffer (ep e) \<noteq> [] \<longrightarrow>
     coord_before (coord (last (ep_buffer (ep e)))) (metadataCoordinate (bu_meta event)))"

lemma appendBuffered_fits:
  assumes "engine_ok sha e" "en_state e = StateBuffering" "update_ok sha (en_config e) event" "next_coord e event"
    and fits: "fits (cfg_bounds (en_config e)) (ep_buffer (ep e) @ [\<lparr>bf_event = event, bf_bytes = n\<rparr>])"
  obtains e' where "appendBuffered event n e = (e', plain_result StateBuffering, [])"
    "engine_ok sha e'" "en_state e' = StateBuffering" "en_config e' = en_config e" "en_policy e' = en_policy e"
    "en_policy_id e' = en_policy_id e" "en_parent e' = en_parent e"
    "ep_buffer (ep e') = ep_buffer (ep e) @ [\<lparr>bf_event = event, bf_bytes = n\<rparr>]"
    "ev_has_observed (evd e')" "ev_last_observed (evd e') = metadataCoordinate (bu_meta event)"
    "ev_fetches (evd e') = ev_fetches (evd e)" "ev_id (evd e') = ev_id (evd e)"
proof -
  obtain p where p: "en_epoch e = Some p" using assms(1,2) by (auto simp: engine_ok_def split: option.splits)
  have core: "core_ok sha (en_config e) p" and vc: "validateConfig (en_config e) (Some (en_policy e)) True"
    using assms(1) p by (simp_all add: engine_ok_def)
  have buf: "buffer_ok sha (en_config e) p" using core by (simp add: core_ok_def)
  have buf': "buffer_ok sha (en_config e) (appended event n p)"
    using buffer_ok_appended [OF buf] fits assms(3,4) p by (simp add: next_coord_def)
  let ?p = "appended event n p"
  let ?e = "e\<lparr>en_epoch := Some (?p\<lparr>ep_evidence := observing (metadataCoordinate (bu_meta event)) (ep_evidence p)\<rparr>)\<rparr>"
  have app: "appendBuffered event n e = (?e, plain_result StateBuffering, [])"
    using appendBuffered_cases [OF p buf assms(3) validateConfig_span [OF vc]] fits p assms(2)
      observe_eq [of "e\<lparr>en_epoch := Some ?p\<rparr>" ?p "metadataCoordinate (bu_meta event)"] by simp
  have core': "core_ok sha (en_config e) (?p\<lparr>ep_evidence := observing (metadataCoordinate (bu_meta event)) (ep_evidence p)\<rparr>)"
    using core buf' by (intro core_ok_evidence) (auto simp: core_ok_def pending_ok_def split: option.splits)
  have "engine_ok sha ?e"
    using assms(1,2) p core' vc by (simp add: engine_ok_def state_ok_def)
  with app show ?thesis
    using that [of ?e] p assms(2) by (simp add: ep_def)
qed

lemma appendBuffered_good:
  assumes "engine_ok sha e" "en_state e = StateBuffering" "update_ok sha (en_config e) event" "next_coord e event"
  shows "good sha e (appendBuffered event n e)"
proof (cases "fits (cfg_bounds (en_config e)) (ep_buffer (ep e) @ [\<lparr>bf_event = event, bf_bytes = n\<rparr>])")
  case True
  obtain e' where e': "appendBuffered event n e = (e', plain_result StateBuffering, [])"
    "engine_ok sha e'" "en_state e' = StateBuffering" "en_config e' = en_config e" "en_policy e' = en_policy e"
    "en_policy_id e' = en_policy_id e" "en_parent e' = en_parent e"
    by (rule appendBuffered_fits [OF assms True])
  then show ?thesis by (simp add: good_def plain_result_def output_ok_def)
next
  case False
  obtain p where p: "en_epoch e = Some p" using assms(1,2) by (auto simp: engine_ok_def split: option.splits)
  have buf: "buffer_ok sha (en_config e) p" and vc: "validateConfig (en_config e) (Some (en_policy e)) True"
    using assms(1) p by (simp_all add: engine_ok_def core_ok_def)
  from appendBuffered_cases [OF p buf assms(3) validateConfig_span [OF vc], of n] False p
  obtain err where "appendBuffered event n e =
      failCurrent CloseBufferOverflow err (observe (metadataCoordinate (bu_meta event)) e)" by auto
  moreover have "inner_ok sha e" using assms(1,2) p by (intro inner_okI) auto
  then have "good sha (observe (metadataCoordinate (bu_meta event)) e)
      (failCurrent CloseBufferOverflow err (observe (metadataCoordinate (bu_meta event)) e))"
    by (intro failCurrent_good inner_observe) auto
  ultimately show ?thesis using good_same by fastforce
qed

subsection \<open>Live operation\<close>

definition live_ok :: "(bytes \<Rightarrow> hash) \<Rightarrow> engine \<Rightarrow> bool" where
  "live_ok sha e \<longleftrightarrow> inner_ok sha e \<and> en_state e = StateLive \<and> state_ok StateLive (ep e)"

lemma live_ok_engine: "live_ok sha e \<Longrightarrow> engine_ok sha e"
  by (auto simp: live_ok_def inner_ok_def engine_ok_def)

lemma engine_ok_live: "engine_ok sha e \<Longrightarrow> en_state e = StateLive \<Longrightarrow> live_ok sha e"
  by (auto simp: live_ok_def inner_ok_def engine_ok_def split: option.splits)

lemma live_ok_inner: "live_ok sha e \<Longrightarrow> inner_ok sha e"
  by (simp add: live_ok_def)

lemma live_observe:
  assumes "live_ok sha e"
  shows "live_ok sha (observe c e)"
proof -
  obtain p where "en_epoch e = Some p" using assms by (auto simp: live_ok_def inner_ok_def)
  with assms show ?thesis
    by (simp add: live_ok_def inner_observe) (simp add: observe_eq state_ok_def ep_def)
qed

lemma live_acceptInput:
  assumes "live_ok sha e"
  shows "live_ok sha (acceptInput ev a e)"
proof -
  obtain p where p: "en_epoch e = Some p" using assms by (auto simp: live_ok_def inner_ok_def)
  have "state_ok StateLive (ep (acceptInput ev a e))"
    using assms p by (simp add: live_ok_def state_ok_def acceptInput_def Let_def ep_def)
  with assms show ?thesis by (simp add: live_ok_def inner_acceptInput)
qed

lemma live_set_book:
  assumes "live_ok sha e" "book_ok (en_config e) book"
  shows "live_ok sha (set_ep (\<lambda>p. p\<lparr>ep_book := book, ep_local := n\<rparr>) e)"
proof -
  obtain p where "en_epoch e = Some p" using assms by (auto simp: live_ok_def inner_ok_def)
  with assms show ?thesis
    by (simp add: live_ok_def inner_set_book) (simp add: state_ok_def ep_def)
qed

lemma level_coef_projected:
  assumes "side_ok cfg m" "l \<in> set (projectedLevels m d)"
  obtains k s where "(k, s) \<in> set m" "level_coef l = sl_coef s" "lv_amount l = sl_amount s" "stored_ok cfg s"
    "0 < coef_int (coefficient (sl_amount s))"
proof -
  obtain k s where ks: "(k, s) \<in> set m" "l = \<lparr>lv_price = sl_price s, lv_amount = sl_amount s\<rparr>"
    using assms(2) by (auto simp: projectedLevels_def)
  then have "stored_ok cfg s" "0 < coef_int (coefficient (sl_amount s))"
    using assms(1) by (auto simp: side_ok_def)
  with ks show ?thesis
    by (intro that [of k s]) (auto simp: level_coef_def stored_ok_level_coef)
qed

lemma projection_sound:
  assumes "book_ok cfg book" "bk_bids s = projectedLevels (bs_bids book) True"
    "bk_asks s = projectedLevels (bs_asks book) False" "BookSnapshot_Validate sha s"
  shows "snapshot_sound sha cfg s"
proof -
  have sb: "side_ok cfg (bs_bids book)" and sa: "side_ok cfg (bs_asks book)" using assms(1) by (auto simp: book_ok_def)
  have pos: "0 < level_coef l \<and> 0 < coef_int (coefficient (lv_amount l))"
    if "side_ok cfg m" "l \<in> set (projectedLevels m d)" for m l d
    using level_coef_projected [OF that] by (metis stored_ok_def)
  have cross: "level_coef b < level_coef a"
    if r: "cfg_reject_crossed cfg" and b: "b \<in> set (bk_bids s)" and a: "a \<in> set (bk_asks s)" for a b
  proof -
    obtain k l k' l' where "(k, l) \<in> set (bs_bids book)" "level_coef b = sl_coef l"
      "(k', l') \<in> set (bs_asks book)" "level_coef a = sl_coef l'"
      using level_coef_projected [OF sb] level_coef_projected [OF sa] a b assms(2,3) by metis
    moreover have "\<not> crossing (bs_bids book) (bs_asks book)" using assms(1) r by (simp add: book_ok_def)
    ultimately show ?thesis by (force simp: crossing_def not_le)
  qed
  have len: "length (projectedLevels m d) = length m" for m d by (simp add: projectedLevels_def)
  show ?thesis
    unfolding snapshot_sound_def
    using projectedLevels_sorted [OF sb, of True] projectedLevels_sorted [OF sa, of False]
      assms pos [OF sb] pos [OF sa] cross
    by (auto simp: len book_ok_def)
qed

lemma emit_spec:
  assumes "live_ok sha e" "emit sha e = (e', res)"
  shows "case res of Inl err \<Rightarrow> e' = e
    | Inr out \<Rightarrow> live_ok sha e' \<and> en_config e' = en_config e \<and> en_policy e' = en_policy e \<and>
        en_policy_id e' = en_policy_id e \<and> en_parent e' = en_parent e \<and> output_ok sha e' (Some out) \<and>
        ep_local (ep e') = ep_local (ep e) \<and> ep_book (ep e') = ep_book (ep e) \<and>
        ev_fetches (evd e') = ev_fetches (evd e)"
proof (cases res)
  case (Inl err)
  with assms(2) show ?thesis by (auto simp: emit_def Let_def split: if_splits)
next
  case (Inr out)
  obtain p where p: "en_epoch e = Some p" and core: "core_ok sha (en_config e) p"
    using assms(1) by (auto simp: live_ok_def inner_ok_def)
  have less: "ev_outputs (ep_evidence p) < b_outputs (cfg_bounds (en_config e))"
    and val: "BookSnapshot_Validate sha out"
    and flds: "bk_bids out = projectedLevels (bs_bids (ep_book p)) True"
      "bk_asks out = projectedLevels (bs_asks (ep_book p)) False" "bk_last out = ep_local p"
      "bk_ordinal out = ev_outputs (ep_evidence p) + 1" "bk_epoch_id out = ev_id (ep_evidence p)"
    and e': "e' = set_ep (\<lambda>p. p\<lparr>ep_output := ep_output p @ bk_hash out,
                  ep_evidence := (ep_evidence p)\<lparr>ev_outputs := ev_outputs (ep_evidence p) + 1,
                    ev_output_hash := sha (ep_output p @ bk_hash out), ev_last_output_hash := bk_hash out,
                    ev_last_sequence := ep_local p\<rparr>\<rparr>) e"
    using assms(2) Inr p unfolding emit_def Let_def by (auto simp: not_le split: if_splits)
  have snd: "snapshot_sound sha (en_config e) out"
    using core val flds by (intro projection_sound [of _ "ep_book p"]) (auto simp: core_ok_def)
  have le: "ev_outputs (ep_evidence p) + 1 \<le> b_outputs (cfg_bounds (en_config e))"
    using less by (subst word_succ_le_iff) auto
  have "core_ok sha (en_config e) (p\<lparr>ep_output := ep_output p @ bk_hash out,
                  ep_evidence := (ep_evidence p)\<lparr>ev_outputs := ev_outputs (ep_evidence p) + 1,
                    ev_output_hash := sha (ep_output p @ bk_hash out), ev_last_output_hash := bk_hash out,
                    ev_last_sequence := ep_local p\<rparr>\<rparr>)"
    using core le by (auto simp: core_ok_def buffer_ok_def buf_exact_def pending_ok_def counters_ok_def split: option.splits)
  then have "live_ok sha e'"
    using assms(1) p e' by (simp add: live_ok_def inner_ok_def state_ok_def ep_def)
  then show ?thesis
    using Inr e' p snd flds assms(1) by (simp add: output_ok_def ep_def live_ok_def)
qed

lemma good_output:
  assumes "live_ok sha e'" "en_config e' = en_config e" "en_policy e' = en_policy e"
    "en_policy_id e' = en_policy_id e" "en_parent e' = en_parent e" "output_ok sha e' out"
  shows "good sha e (e', (plain_result (en_state e'))\<lparr>rs_output := out, rs_stale := b, rs_fetches := n\<rparr>, err)"
  using assms by (simp add: good_def plain_result_def live_ok_engine)

lemma good_gap:
  assumes "inner_ok sha e" "reason \<noteq> []" "closeCurrent reason c h e = (e1, closed)"
    "good sha (startEpoch sha c' reason' e1) (e2, r, err)" "rs_output r = None"
  shows "good sha e (e2, (plain_result (en_state e2))\<lparr>rs_closed := closed # rs_closed r\<rparr>, err')"
proof -
  note s = closeCurrent_spec [OF assms(1-3)]
  have "\<not> en_terminal e1" using s(8) assms(1) by (simp add: inner_ok_def)
  note t = startEpoch_spec [OF s(10) this, of sha c' reason']
  have "lineage (en_parent e) ([closed] @ rs_closed r) (en_parent e2)"
    using s(7) assms(4) t(6) by (intro lineage_append) (auto simp: good_def)
  with assms(4,5) s t show ?thesis
    by (simp add: good_def plain_result_def output_ok_def)
qed

lemma fresh_next_coord: "ep_buffer (ep e) = [] \<Longrightarrow> next_coord e event"
  by (simp add: next_coord_def)

lemma appendBuffered_no_output: "appendBuffered event n e = (e', r, err) \<Longrightarrow> rs_output r = None"
  by (auto simp: appendBuffered_def failCurrent_def closeCurrent_def Let_def plain_result_def split: if_splits prod.splits)

lemma restart_append:
  assumes "inner_ok sha e" "reason \<noteq> []" "closeCurrent reason c h e = (e1, closed)"
    "update_ok sha (en_config e) event"
    "appendBuffered event n (startEpoch sha c' reason' e1) = (e2, r, err)"
  shows "good sha e (e2, (plain_result (en_state e2))\<lparr>rs_closed := closed # rs_closed r\<rparr>, err')"
proof -
  note s = closeCurrent_spec [OF assms(1-3)]
  have nt: "\<not> en_terminal e1" using s(8) assms(1) by (simp add: inner_ok_def)
  note t = startEpoch_spec [OF s(10) nt, of sha c' reason']
  have "good sha (startEpoch sha c' reason' e1) (e2, r, err)"
    using appendBuffered_good [OF t(1,7) _ fresh_next_coord [OF t(8)], of event n] assms(4,5) s(2) t(3)
    by simp
  then show ?thesis
    using good_gap [OF assms(1-3)] appendBuffered_no_output [OF assms(5)] by blast
qed

lemma acceptLive_good:
  assumes "live_ok sha e" "update_ok sha (en_config e) event"
  shows "good sha e (acceptLive sha event n e)"
proof -
  let ?c = "metadataCoordinate (bu_meta event)"
  have inner: "inner_ok sha e" using assms(1) by (simp add: live_ok_def)
  have lo: "live_ok sha (observe ?c e)" by (rule live_observe [OF assms(1)])
  have book: "book_ok (en_config e) (ep_book (ep (observe ?c e)))"
    using lo by (auto simp: live_ok_def inner_ok_def core_ok_def)
  have fail_obs: "good sha e (failCurrent reason err (observe ?c e))" if "reason \<noteq> []" for reason err
    using failCurrent_good [OF live_ok_inner [OF lo] that] by (rule good_same) auto
  show ?thesis
  proof (cases "n = 0 \<or> n > b_bytes (cfg_bounds (en_config e))")
    case True
    then show ?thesis unfolding acceptLive_def Let_def using failCurrent_good [OF inner] by simp
  next
    case False
    show ?thesis
    proof (cases "p_next (en_policy e) (ep_local (ep e)) event")
      case SequenceStale
      have "live_ok sha (acceptInput event False (observe ?c e))" using lo by (rule live_acceptInput)
      from good_output [OF this, where e = e and out = None and b = True and n = 0 and err = "[]"] show ?thesis
        using SequenceStale False
        by (simp add: acceptLive_def Let_def output_ok_def plain_result_def)
    next
      case SequenceGap
      obtain e1 closed where c: "closeCurrent CloseForwardGap ?c True e = (e1, closed)" by fastforce
      obtain e2 r err where a: "appendBuffered event n (startEpoch sha ?c CloseForwardGap e1) = (e2, r, err)"
        using prod_cases3 by blast
      show ?thesis
        using restart_append [OF inner _ c assms(2) a] SequenceGap False c a
        by (simp add: acceptLive_def Let_def)
    next
      case SequenceApply
      show ?thesis
      proof (cases "ev_outputs (evd (observe ?c e)) \<ge> b_outputs (cfg_bounds (en_config e))")
        case True
        with SequenceApply False show ?thesis by (simp add: acceptLive_def Let_def fail_obs)
      next
        case cap: False
        show ?thesis
        proof (cases "applyEventAtomically (en_config e) (ep_book (ep (observe ?c e))) event")
          case (Inl err)
          with SequenceApply False cap show ?thesis by (simp add: acceptLive_def Let_def fail_obs)
        next
          case (Inr b)
          have b: "book_ok (en_config e) b" by (rule applyEventAtomically_book_ok [OF book Inr])
          let ?e2 = "acceptInput event True (set_ep (\<lambda>p. p\<lparr>ep_book := b, ep_local := bu_last event\<rparr>) (observe ?c e))"
          have l2: "live_ok sha ?e2" using lo b by (intro live_acceptInput live_set_book) auto
          obtain e3 res where em: "emit sha ?e2 = (e3, res)" by fastforce
          note es = emit_spec [OF l2 em]
          show ?thesis
          proof (cases res)
            case (Inl err)
            have "good sha e (failCurrent CloseOutputLimit err ?e2)"
              by (rule good_same [OF failCurrent_good [OF live_ok_inner [OF l2]]]) auto
            with Inl es em SequenceApply False cap Inr show ?thesis by (simp add: acceptLive_def Let_def)
          next
            case res: (Inr out)
            have "good sha e (e3, (plain_result (en_state e3))\<lparr>rs_output := Some out, rs_stale := False, rs_fetches := 0\<rparr>, [])"
              using es res by (intro good_output) auto
            with res em SequenceApply False cap Inr show ?thesis
              by (simp add: acceptLive_def Let_def plain_result_def)
          qed
        qed
      qed
    next
      case SequenceOther
      with False show ?thesis by (simp add: acceptLive_def Let_def failCurrent_good [OF inner])
    qed
  qed
qed

subsection \<open>Accept\<close>

lemma accept_settled_good:
  assumes "engine_ok sha e1" "en_state e1 = StateBuffering \<or> en_state e1 = StateLive"
    "update_ok sha (en_config e1) event" "en_state e1 = StateBuffering \<longrightarrow> next_coord e1 event"
    "en_config e1 = en_config e" "en_policy e1 = en_policy e" "en_policy_id e1 = en_policy_id e"
    "lineage (en_parent e) vs (en_parent e1)"
  shows "good sha e (accept_settled sha vs event n e1)"
proof (cases "en_state e1 = StateBuffering")
  case True
  obtain e2 r err where a: "appendBuffered event n e1 = (e2, r, err)" using prod_cases3 by blast
  have "good sha e1 (e2, r, err)" using appendBuffered_good [OF assms(1) True assms(3), of n] assms(4) True a by simp
  moreover have "rs_output r = None" by (rule appendBuffered_no_output [OF a])
  ultimately show ?thesis
    using True a assms(5-8)
    by (auto simp: accept_settled_def good_def plain_result_def output_ok_def intro: lineage_append)
next
  case False
  then have live: "en_state e1 = StateLive" using assms(2) by simp
  obtain e2 r err where a: "acceptLive sha event n e1 = (e2, r, err)" using prod_cases3 by blast
  have "good sha e1 (e2, r, err)"
    using acceptLive_good [OF engine_ok_live [OF assms(1) live] assms(3), of n] a by simp
  then show ?thesis
    using live a assms(5-8)
    by (auto simp: accept_settled_def good_def plain_result_def intro: lineage_append)
qed

lemma validateUpdate_ok:
  "validateUpdate sha cfg event = [] \<Longrightarrow> md_received (bu_meta event) < 2 ^ 63 \<Longrightarrow> update_ok sha cfg event"
  by (auto simp: validateUpdate_def BookUpdate_Validate_def validateSchema_def Metadata_Validate_def
      metadata_common_ok_def update_ok_def Let_def not_less split: if_splits)

lemma cancel_good:
  assumes "engine_ok sha e"
  shows "good sha e (cancel err e)"
proof (cases "en_epoch e \<noteq> None \<and> en_state e \<noteq> StateClosed")
  case True
  obtain e' v where c: "closeCurrent CloseCancelled (ev_last_observed (evd e)) (ev_has_observed (evd e)) e = (e', v)"
    by fastforce
  have "inner_ok sha e" using assms True by (intro inner_okI) auto
  note s = closeCurrent_spec [OF this _ c]
  have "e'\<lparr>en_terminal := True, en_restart := en_restart e'\<rparr> = e'\<lparr>en_terminal := True, en_state := StateClosed\<rparr>"
    using s(5) by (intro engine.equality) auto
  then have "engine_ok sha (e'\<lparr>en_terminal := True, en_state := StateClosed\<rparr>)"
    using s(1) [where t = True and r = "en_restart e'"] by simp
  with s True c show ?thesis
    by (simp add: cancel_def failCurrent_def good_def plain_result_def output_ok_def)
next
  case False
  then show ?thesis using assms
    by (auto simp: cancel_def failCurrent_def good_def plain_result_def output_ok_def engine_ok_def Let_def
        split: option.splits)
qed

lemma good_unchanged: "engine_ok sha e \<Longrightarrow> rs_state r = en_state e \<Longrightarrow> rs_closed r = [] \<Longrightarrow> rs_output r = None \<Longrightarrow> good sha e (e, r, err)"
  by (simp add: good_def output_ok_def)

lemma plain_result_simps [simp]:
  "rs_state (plain_result s) = s" "rs_closed (plain_result s) = []" "rs_output (plain_result s) = None"
  by (simp_all add: plain_result_def)

lemma failCurrent_good':
  assumes "engine_ok sha e" "reason \<noteq> []"
  shows "good sha e (failCurrent reason err e)"
proof (cases "en_epoch e \<noteq> None \<and> en_state e \<noteq> StateClosed")
  case True
  with assms show ?thesis by (intro failCurrent_good inner_okI) auto
next
  case False
  with assms(1) show ?thesis
    by (auto simp: failCurrent_def good_def plain_result_def output_ok_def engine_ok_def Let_def split: option.splits)
qed

lemma start_settled_good:
  assumes "engine_ok sha e" "\<not> en_terminal e" "update_ok sha (en_config e) event"
  shows "good sha e (accept_settled sha [] event n ((startEpoch sha c reason e)\<lparr>en_restart := False\<rparr>))"
proof -
  have vc: "validateConfig (en_config e) (Some (en_policy e)) True" using assms(1) by (simp add: engine_ok_def)
  note t = startEpoch_spec [OF vc assms(2), of sha c reason]
  have "engine_ok sha ((startEpoch sha c reason e)\<lparr>en_restart := False\<rparr>)"
    using t(1) by (simp add: engine_ok_def split: option.splits)
  moreover have "ep ((startEpoch sha c reason e)\<lparr>en_restart := False\<rparr>) = ep (startEpoch sha c reason e)"
    by (simp add: ep_def)
  ultimately show ?thesis
    using t assms(3) by (intro accept_settled_good) (simp_all add: next_coord_def)
qed

lemma Accept_good:
  assumes "engine_ok sha e" "md_received (bu_meta event) < 2 ^ 63"
  shows "good sha e (Accept sha ctx event n e)"
proof -
  let ?c = "metadataCoordinate (bu_meta event)"
  show ?thesis
  proof (cases "checkContext ctx \<noteq> [] \<or> en_terminal e \<or> validateUpdate sha (en_config e) event \<noteq> []")
    case True
    then show ?thesis
      using assms(1) cancel_good [OF assms(1)] failCurrent_good' [OF assms(1)]
      by (auto simp: Accept_def Let_def engine_ok_def intro!: good_unchanged)
  next
    case False
    then have upd: "update_ok sha (en_config e) event" and nt: "\<not> en_terminal e"
      using assms(2) by (auto intro: validateUpdate_ok)
    show ?thesis
    proof (cases "en_epoch e = None \<or> en_state e = StateClosed")
      case True
      then show ?thesis
        using False start_settled_good [OF assms(1) nt upd] assms(1)
        by (auto simp: Accept_def Let_def intro!: good_unchanged)
    next
      case open_epoch: False
      then have inner: "inner_ok sha e" using assms(1) by (intro inner_okI) auto
      obtain p where p: "en_epoch e = Some p" using open_epoch by auto
      have st: "en_state e = StateBuffering \<or> en_state e = StateLive" "state_ok (en_state e) p"
        using assms(1) p open_epoch by (auto simp: engine_ok_def)
      consider (reconnect) "ev_has_observed (evd e)" "\<not> sameRawEpoch (ev_last_observed (evd e)) ?c"
        | (regress) "ev_has_observed (evd e)" "sameRawEpoch (ev_last_observed (evd e)) ?c"
            "compareCoordinate (ev_last_observed (evd e)) ?c \<ge> 0"
        | (go) "ev_has_observed (evd e) \<longrightarrow> coord_before (ev_last_observed (evd e)) ?c"
        unfolding coord_before_def not_le [symmetric] by blast
      then show ?thesis
      proof cases
        case reconnect
        obtain e1 closed where c: "closeCurrent CloseReconnect ?c True e = (e1, closed)" by fastforce
        note s = closeCurrent_spec [OF inner _ c]
        have nt1: "\<not> en_terminal e1" using s(8) nt by simp
        note t = startEpoch_spec [OF s(10) nt1, of sha ?c CloseReconnect]
        have "good sha e (accept_settled sha [closed] event n (startEpoch sha ?c CloseReconnect e1))"
          using t s upd by (intro accept_settled_good) (simp_all add: next_coord_def)
        with reconnect False open_epoch p c show ?thesis by (simp add: Accept_def Let_def)
      next
        case regress
        obtain e1 closed where c: "closeCurrent CloseRawDiscontinuity ?c True e = (e1, closed)" by fastforce
        obtain e2 r err where a: "appendBuffered event n (startEpoch sha ?c CloseRawDiscontinuity e1) = (e2, r, err)"
          using prod_cases3 by blast
        show ?thesis
          using restart_append [OF inner _ c upd a] regress False open_epoch p c a by (simp add: Accept_def Let_def)
      next
        case go
        have "en_state e = StateBuffering \<longrightarrow> next_coord e event"
          using go st p by (auto simp: next_coord_def state_ok_def)
        then have "good sha e (accept_settled sha [] event n e)"
          using assms(1) st upd by (intro accept_settled_good) auto
        moreover have "\<not> (ev_has_observed (evd e) \<and> \<not> sameRawEpoch (ev_last_observed (evd e)) ?c)"
          "\<not> (ev_has_observed (evd e) \<and> compareCoordinate (ev_last_observed (evd e)) ?c \<ge> 0)"
          using go by (auto simp: coord_before_def)
        ultimately show ?thesis
          using False open_epoch p by (simp only: Accept_def Let_def) simp
      qed
    qed
  qed
qed

end
