(* ===== verification/EngineSeed.thy ===== *)
theory EngineSeed
  imports EngineInv
begin

text \<open>
  Seeding (\<open>Engine.Seed\<close> in \<open>src/orderbook/engine.go\<close>): the snapshot fetch, the
  discarding of stale buffered updates, the replay of the rest and the splitting
  of an epoch at a gap keep the invariant of \<open>EngineInv\<close>, and the refilling of the
  buffer after a split never overflows.
\<close>

subsection \<open>Refilling the buffer\<close>

lemma sorted_coord_next:
  assumes "sorted_wrt coord_before (map coord (xs @ b # ys))" "xs \<noteq> []"
  shows "coord_before (coord (last xs)) (coord b)"
  using assms by (auto simp: sorted_wrt_append)

lemma rebuffer_fits:
  assumes "engine_ok sha e" "en_state e = StateBuffering" "fits (cfg_bounds (en_config e)) (ep_buffer (ep e) @ bs)"
    "\<forall>b \<in> set bs. update_ok sha (en_config e) (bf_event b)"
    "sorted_wrt coord_before (map coord (ep_buffer (ep e) @ bs))"
  shows "\<exists>e'. rebuffer bs closed cause e = (e', (plain_result StateBuffering)\<lparr>rs_closed := closed\<rparr>, cause) \<and>
    engine_ok sha e' \<and> en_state e' = StateBuffering \<and> en_config e' = en_config e \<and> en_policy e' = en_policy e \<and>
    en_policy_id e' = en_policy_id e \<and> en_parent e' = en_parent e \<and> ep_buffer (ep e') = ep_buffer (ep e) @ bs"
  using assms
proof (induction bs arbitrary: e)
  case Nil
  then show ?case by simp
next
  case (Cons b bs)
  have b: "\<lparr>bf_event = bf_event b, bf_bytes = bf_bytes b\<rparr> = b" by simp
  have "fits (cfg_bounds (en_config e)) (take (Suc (length (ep_buffer (ep e)))) (ep_buffer (ep e) @ b # bs))"
    by (rule fits_take [OF Cons.prems(3)])
  then have ft: "fits (cfg_bounds (en_config e)) (ep_buffer (ep e) @ [\<lparr>bf_event = bf_event b, bf_bytes = bf_bytes b\<rparr>])"
    by (simp add: b)
  have nc: "next_coord e (bf_event b)"
    unfolding next_coord_def using sorted_coord_next [OF Cons.prems(5)] by blast
  have upd: "update_ok sha (en_config e) (bf_event b)" using Cons.prems(4) by simp
  obtain e1 where e1: "appendBuffered (bf_event b) (bf_bytes b) e = (e1, plain_result StateBuffering, [])"
    "engine_ok sha e1" "en_state e1 = StateBuffering" "en_config e1 = en_config e" "en_policy e1 = en_policy e"
    "en_policy_id e1 = en_policy_id e" "en_parent e1 = en_parent e"
    "ep_buffer (ep e1) = ep_buffer (ep e) @ [\<lparr>bf_event = bf_event b, bf_bytes = bf_bytes b\<rparr>]"
    by (rule appendBuffered_fits [OF Cons.prems(1,2) upd nc ft])
  have "\<exists>e'. rebuffer bs closed cause e1 = (e', (plain_result StateBuffering)\<lparr>rs_closed := closed\<rparr>, cause) \<and>
    engine_ok sha e' \<and> en_state e' = StateBuffering \<and> en_config e' = en_config e1 \<and> en_policy e' = en_policy e1 \<and>
    en_policy_id e' = en_policy_id e1 \<and> en_parent e' = en_parent e1 \<and> ep_buffer (ep e') = ep_buffer (ep e1) @ bs"
    using Cons.prems e1 b by (intro Cons.IH) simp_all
  with e1 b show ?case by auto
qed

lemma splitBuffered_spec:
  assumes "inner_ok sha e" "index < length (ep_buffer (ep e))" "reason \<noteq> []"
  shows "\<exists>e' closed. splitBuffered sha index reason cause e =
      (e', (plain_result StateBuffering)\<lparr>rs_closed := [closed]\<rparr>, cause) \<and>
    good sha e (splitBuffered sha index reason cause e) \<and> en_state e' = StateBuffering \<and>
    ep_buffer (ep e') = drop index (ep_buffer (ep e)) \<and> ev_reason closed = reason"
proof -
  let ?f = "\<lambda>v. if ev_has_accepted v then v\<lparr>ev_last_observed := ev_last_accepted v\<rparr>
                 else v\<lparr>ev_has_observed := False, ev_first_observed := zero_coordinate,
                        ev_last_observed := zero_coordinate\<rparr>"
  let ?rem = "drop index (ep_buffer (ep e))"
  let ?c = "coord (hd ?rem)"
  let ?e1 = "set_ev ?f e"
  obtain p where p: "en_epoch e = Some p" "core_ok sha (en_config e) p"
    using assms(1) by (auto simp: inner_ok_def)
  have i1: "inner_ok sha ?e1" using assms(1) by (rule inner_set_ev) (auto simp: counters_ok_def)
  obtain e2 closed where c: "closeCurrent reason ?c True ?e1 = (e2, closed)" by fastforce
  note s = closeCurrent_spec [OF i1 assms(3) c]
  have p1: "en_epoch ?e1 = Some (p\<lparr>ep_evidence := ?f (ep_evidence p)\<rparr>)" using p by simp
  have reason: "ev_reason closed = reason" using c closeCurrent_eq [OF p1, of reason ?c True] by auto
  have nt: "\<not> en_terminal e2" using s(8) i1 by (simp add: inner_ok_def)
  note t = startEpoch_spec [OF s(10) nt, of sha ?c reason]
  let ?e3 = "startEpoch sha ?c reason e2"
  have buf: "buffer_ok sha (en_config e) p" using p by (simp add: core_ok_def)
  have cfg: "en_config ?e3 = en_config e" using t(3) s(2) by simp
  have "fits (cfg_bounds (en_config ?e3)) (ep_buffer (ep ?e3) @ ?rem)"
    using buf p t(8) cfg by (simp add: buffer_ok_def fits_drop)
  moreover have "\<forall>b \<in> set ?rem. update_ok sha (en_config ?e3) (bf_event b)"
    using buf p cfg by (auto simp: buffer_ok_def dest: in_set_dropD)
  moreover have "sorted_wrt coord_before (map coord (ep_buffer (ep ?e3) @ ?rem))"
    using buf p t(8) by (simp add: buffer_ok_def drop_map [symmetric] sorted_wrt_drop)
  ultimately obtain e' where e': "rebuffer ?rem [closed] cause ?e3 =
      (e', (plain_result StateBuffering)\<lparr>rs_closed := [closed]\<rparr>, cause)"
    "engine_ok sha e'" "en_state e' = StateBuffering" "en_config e' = en_config ?e3" "en_policy e' = en_policy ?e3"
    "en_policy_id e' = en_policy_id ?e3" "en_parent e' = en_parent ?e3" "ep_buffer (ep e') = ep_buffer (ep ?e3) @ ?rem"
    using rebuffer_fits [OF t(1,7), of ?rem "[closed]" cause] by blast
  have split: "splitBuffered sha index reason cause e = (e', (plain_result StateBuffering)\<lparr>rs_closed := [closed]\<rparr>, cause)"
    unfolding splitBuffered_def Let_def using c e'(1) by simp
  moreover have "good sha e (splitBuffered sha index reason cause e)"
    unfolding split good_def using e' t s by (simp add: output_ok_def)
  ultimately show ?thesis using e' t(8) reason by auto
qed

subsection \<open>Discarding stale updates\<close>

lemma recalc_loop_Suc:
  "recalc_loop bs (Suc i) tot mn mx =
     (tot + of_nat (buf_sum bs), Min (insert mn (recv ` set bs)), Max (insert mx (recv ` set bs)))"
proof (induction bs arbitrary: i tot mn mx)
  case (Cons b bs)
  have "Min (insert (min mn (recv b)) (recv ` set bs)) = Min (insert mn (insert (recv b) (recv ` set bs)))"
    "Max (insert (max mx (recv b)) (recv ` set bs)) = Max (insert mx (insert (recv b) (recv ` set bs)))"
    by (cases "bs = []"; simp add: min.assoc max.assoc)+
  with Cons show ?case by (simp add: Let_def add.assoc)
qed simp

lemma recalc_loop_zero:
  assumes "recalc_loop bs 0 0 0 0 = (tot, mn, mx)" "buf_sum bs < 2 ^ 64"
  shows "unat tot = buf_sum bs \<and> (bs \<noteq> [] \<longrightarrow> mn = Min (recv ` set bs) \<and> mx = Max (recv ` set bs))"
proof (cases bs)
  case (Cons b cs)
  with assms(1) have t: "tot = bf_bytes b + of_nat (buf_sum cs)"
    and m: "mn = Min (insert (recv b) (recv ` set cs))" "mx = Max (insert (recv b) (recv ` set cs))"
    by (simp_all add: Let_def recalc_loop_Suc)
  have "unat (of_nat (buf_sum cs) :: u64) = buf_sum cs" using assms(2) Cons by (simp add: unat_of_nat_u64)
  then have "unat tot = unat (bf_bytes b) + buf_sum cs"
    unfolding t using assms(2) Cons by (subst unat_add_no_wrap) simp_all
  with m Cons show ?thesis by simp
qed (use assms in simp)

lemma acceptInput_ep [simp]:
  "ep_buffer (ep (acceptInput ev a e)) = ep_buffer (ep e)" "ep_pending (ep (acceptInput ev a e)) = ep_pending (ep e)"
  "ep_local (ep (acceptInput ev a e)) = ep_local (ep e)" "ep_book (ep (acceptInput ev a e)) = ep_book (ep e)"
  "ev_state (evd (acceptInput ev a e)) = ev_state (evd e)" "ev_has_initial (evd (acceptInput ev a e)) = ev_has_initial (evd e)"
  "ev_has_observed (evd (acceptInput ev a e)) = ev_has_observed (evd e)"
  "ev_last_observed (evd (acceptInput ev a e)) = ev_last_observed (evd e)"
  "ev_fetches (evd (acceptInput ev a e)) = ev_fetches (evd e)"
  "en_epoch (acceptInput ev a e) = None \<longleftrightarrow> en_epoch e = None"
  "en_epoch e \<noteq> None \<Longrightarrow> ev_has_accepted (evd (acceptInput ev a e))"
  by (auto simp: acceptInput_def ep_def Let_def split: option.splits)

lemma discard_loop_spec:
  assumes "discard_loop sl bs e = (cnt, e')" "inner_ok sha e"
  shows "inner_ok sha e' \<and> en_state e' = en_state e \<and> en_config e' = en_config e \<and> en_policy e' = en_policy e \<and>
    en_policy_id e' = en_policy_id e \<and> en_parent e' = en_parent e \<and> ep_buffer (ep e') = ep_buffer (ep e) \<and>
    ep_pending (ep e') = ep_pending (ep e) \<and> ev_state (evd e') = ev_state (evd e) \<and>
    ev_has_observed (evd e') = ev_has_observed (evd e) \<and> ev_last_observed (evd e') = ev_last_observed (evd e) \<and>
    ev_fetches (evd e') = ev_fetches (evd e) \<and>
    cnt = length (takeWhile (\<lambda>b. bu_last (bf_event b) \<le> sl) bs)"
  using assms
proof (induction bs arbitrary: e cnt)
  case (Cons b bs)
  show ?case
  proof (cases "bu_last (bf_event b) \<le> sl")
    case True
    then obtain c where c: "discard_loop sl bs (acceptInput (bf_event b) False e) = (c, e')" "cnt = Suc c"
      using Cons.prems(1) by (auto split: prod.splits)
    from Cons.IH [OF c(1) inner_acceptInput [OF Cons.prems(2)]] c(2) True show ?thesis by simp
  next
    case False
    with Cons.prems show ?thesis by auto
  qed
qed auto

text \<open>Dropping a prefix and recomputing the totals keeps the buffer sound.\<close>

lemma core_recalculated:
  assumes "core_ok sha cfg p" "recalc_loop (drop n (ep_buffer p)) 0 0 0 0 = (tot, mn, mx)"
  shows "core_ok sha cfg (p\<lparr>ep_buffer := drop n (ep_buffer p), ep_bytes := tot, ep_min := mn, ep_max := mx\<rparr>)"
proof -
  have b: "buffer_ok sha cfg p" using assms(1) by (simp add: core_ok_def)
  have ft: "fits (cfg_bounds cfg) (drop n (ep_buffer p))" using b by (simp add: buffer_ok_def fits_drop)
  have "buf_sum (drop n (ep_buffer p)) < 2 ^ 64"
    using ft unat_bound [of "b_bytes (cfg_bounds cfg)"] by (simp add: fits_def)
  note r = recalc_loop_zero [OF assms(2) this]
  have "sorted_wrt coord_before (map coord (drop n (ep_buffer p)))"
    using b by (simp add: buffer_ok_def drop_map [symmetric] sorted_wrt_drop)
  with b ft r have "buffer_ok sha cfg (p\<lparr>ep_buffer := drop n (ep_buffer p), ep_bytes := tot, ep_min := mn, ep_max := mx\<rparr>)"
    by (auto simp: buffer_ok_def buf_exact_def dest: in_set_dropD)
  with assms(1) show ?thesis
    by (auto simp: core_ok_def pending_ok_def split: option.splits)
qed

lemma discardSnapshotStale_spec:
  assumes "inner_ok sha e" "e' = discardSnapshotStale sl e"
  shows "inner_ok sha e' \<and> en_state e' = en_state e \<and> en_config e' = en_config e \<and> en_policy e' = en_policy e \<and>
    en_policy_id e' = en_policy_id e \<and> en_parent e' = en_parent e \<and>
    ep_buffer (ep e') = dropWhile (\<lambda>b. bu_last (bf_event b) \<le> sl) (ep_buffer (ep e)) \<and>
    ev_state (evd e') = ev_state (evd e) \<and> ev_has_observed (evd e') = ev_has_observed (evd e) \<and>
    ev_last_observed (evd e') = ev_last_observed (evd e) \<and> ev_fetches (evd e') = ev_fetches (evd e)"
proof -
  obtain cnt e1 where d: "discard_loop sl (ep_buffer (ep e)) e = (cnt, e1)" by fastforce
  note s = discard_loop_spec [OF d assms(1)]
  obtain p where p: "en_epoch e1 = Some p" "core_ok sha (en_config e1) p" using s by (auto simp: inner_ok_def)
  have dw: "drop cnt (ep_buffer (ep e1)) = dropWhile (\<lambda>b. bu_last (bf_event b) \<le> sl) (ep_buffer (ep e))"
    using s by (simp add: dropWhile_eq_drop)
  show ?thesis
  proof (cases "cnt = 0")
    case True
    with d assms(2) have "e' = e1" by (simp add: discardSnapshotStale_def)
    with s dw True show ?thesis by simp
  next
    case False
    obtain tot mn mx where r: "recalc_loop (drop cnt (ep_buffer p)) 0 0 0 0 = (tot, mn, mx)"
      using prod_cases3 by blast
    let ?p = "p\<lparr>ep_buffer := drop cnt (ep_buffer p), ep_bytes := tot, ep_min := mn, ep_max := mx\<rparr>"
    have e': "e' = e1\<lparr>en_epoch := Some ?p\<rparr>"
      using False d assms(2) p r by (simp add: discardSnapshotStale_def recalculateBuffer_def set_ep_def)
    have "core_ok sha (en_config e1) ?p" by (rule core_recalculated [OF p(2) r])
    with e' s p dw show ?thesis by (auto simp: inner_ok_def ep_def)
  qed
qed

subsection \<open>Replaying the buffer\<close>

definition replay_inv :: "(bytes \<Rightarrow> hash) \<Rightarrow> engine \<Rightarrow> engine \<Rightarrow> bool" where
  "replay_inv sha e0 e \<longleftrightarrow> inner_ok sha e \<and> en_state e = StateSeeded \<and> en_config e = en_config e0 \<and>
     en_policy e = en_policy e0 \<and> en_policy_id e = en_policy_id e0 \<and> en_parent e = en_parent e0 \<and>
     ep_buffer (ep e) = ep_buffer (ep e0) \<and> ev_has_initial (evd e) \<and> ev_fetches (evd e) = ev_fetches (evd e0)"

lemma replay_inv_accept:
  "replay_inv sha e0 e \<Longrightarrow> replay_inv sha e0 (acceptInput ev a e)"
  by (simp add: replay_inv_def inner_acceptInput)

lemma replay_inv_book:
  assumes "replay_inv sha e0 e" "book_ok (en_config e) b"
  shows "replay_inv sha e0 (set_ep (\<lambda>p. p\<lparr>ep_book := b, ep_local := n\<rparr>) e)"
proof -
  obtain p where "en_epoch e = Some p" using assms(1) by (auto simp: replay_inv_def inner_ok_def)
  with assms show ?thesis by (auto simp: replay_inv_def inner_set_book ep_def)
qed

lemma replay_inv_good:
  assumes "replay_inv sha e0 e" "good sha e out"
  shows "good sha e0 out"
  using assms by (intro good_same [OF assms(2)]) (simp_all add: replay_inv_def)

lemma replay_loop_spec:
  assumes "replay_inv sha e0 e" "ep_buffer (ep e0) = done @ bs" "length done = index"
    "bs = [] \<longrightarrow> ev_has_accepted (evd e)"
  shows "case replay_loop sha sl index bs e of
      ReplayReturn out \<Rightarrow> good sha e0 out
    | ReplayOk e' \<Rightarrow> replay_inv sha e0 e' \<and> ev_has_accepted (evd e')"
  using assms
proof (induction bs arbitrary: e "done" index)
  case Nil
  then show ?case by simp
next
  case (Cons b bs)
  have inner: "inner_ok sha e" and book: "book_ok (en_config e) (ep_book (ep e))" and some: "en_epoch e \<noteq> None"
    using Cons.prems(1) by (auto simp: replay_inv_def inner_ok_def core_ok_def)
  have buf: "ep_buffer (ep e) = done @ b # bs" using Cons.prems by (simp add: replay_inv_def)
  let ?act = "if index = 0 then p_first (en_policy e) sl (bf_event b) else p_next (en_policy e) (ep_local (ep e)) (bf_event b)"
  have step: "case replay_loop sha sl (Suc index) bs e' of
      ReplayReturn out \<Rightarrow> good sha e0 out
    | ReplayOk e'' \<Rightarrow> replay_inv sha e0 e'' \<and> ev_has_accepted (evd e'')"
    if "replay_inv sha e0 e'" "ev_has_accepted (evd e')" for e'
    using that Cons.prems by (intro Cons.IH [of e' "done @ [b]"]) simp_all
  have fail: "good sha e0 (failCurrent reason err e)" if "reason \<noteq> []" for reason err
    by (rule replay_inv_good [OF Cons.prems(1) failCurrent_good [OF inner that]])
  show ?case
  proof (cases ?act)
    case SequenceStale
    then show ?thesis
      using step [OF replay_inv_accept [OF Cons.prems(1)]] some by (simp add: Let_def)
  next
    case SequenceGap
    have "index < length (ep_buffer (ep e))" using buf Cons.prems(3) by simp
    from splitBuffered_spec [OF inner this, of CloseForwardGap "[ErrSequenceGap]"]
    have "good sha e0 (splitBuffered sha index CloseForwardGap [ErrSequenceGap] e)"
      using replay_inv_good [OF Cons.prems(1)] by auto
    with SequenceGap show ?thesis by (simp add: Let_def)
  next
    case SequenceApply
    show ?thesis
    proof (cases "applyEventAtomically (en_config e) (ep_book (ep e)) (bf_event b)")
      case (Inl err)
      with SequenceApply show ?thesis by (simp add: Let_def fail)
    next
      case (Inr bk)
      have "book_ok (en_config e) bk" by (rule applyEventAtomically_book_ok [OF book Inr])
      then have "replay_inv sha e0 (acceptInput (bf_event b) True
          (set_ep (\<lambda>p. p\<lparr>ep_book := bk, ep_local := bu_last (bf_event b)\<rparr>) e))"
        using Cons.prems(1) by (intro replay_inv_accept replay_inv_book)
      from step [OF this] SequenceApply Inr some show ?thesis by (simp add: Let_def)
    qed
  next
    case SequenceOther
    then show ?thesis by (simp add: Let_def fail)
  qed
qed

declare replay_loop.simps [simp del]

subsection \<open>One iteration and the loop\<close>

definition small :: "snapshot_observation \<Rightarrow> bool" where
  "small s \<longleftrightarrow> length (so_bids s) < 2 ^ 32 \<and> length (so_asks s) < 2 ^ 32"

definition buffering_ok :: "(bytes \<Rightarrow> hash) \<Rightarrow> engine \<Rightarrow> bool" where
  "buffering_ok sha e \<longleftrightarrow> engine_ok sha e \<and> en_state e = StateBuffering \<and> ep_buffer (ep e) \<noteq> []"

lemma buffering_inner:
  "buffering_ok sha e \<Longrightarrow> inner_ok sha e"
  by (auto simp: buffering_ok_def engine_ok_def inner_ok_def split: option.splits)

lemma buffering_okI:
  assumes "inner_ok sha e" "en_state e = StateBuffering" "state_ok StateBuffering (ep e)"
  shows "engine_ok sha e"
  using assms by (auto simp: inner_ok_def engine_ok_def)

lemma buffering_state: "buffering_ok sha e \<Longrightarrow> state_ok StateBuffering (ep e)"
  by (auto simp: buffering_ok_def engine_ok_def split: option.splits)

lemma clear_to_live:
  assumes "replay_inv sha e0 e" "ev_has_accepted (evd e)"
    "e' = transition StateLive c True (set_ep (\<lambda>p. p\<lparr>ep_pending := None\<rparr>) (clearBuffer e))"
  shows "live_ok sha e' \<and> en_config e' = en_config e0 \<and> en_policy e' = en_policy e0 \<and>
    en_policy_id e' = en_policy_id e0 \<and> en_parent e' = en_parent e0"
proof -
  obtain p where p: "en_epoch e = Some p" "core_ok sha (en_config e) p" using assms(1) by (auto simp: replay_inv_def inner_ok_def)
  have "core_ok sha (en_config e) (p\<lparr>ep_buffer := [], ep_bytes := 0, ep_min := 0, ep_max := 0, ep_pending := None,
      ep_evidence := (ep_evidence p)\<lparr>ev_state := StateLive, ev_transitions := ev_transitions (ep_evidence p) @
        [\<lparr>tr_state = StateLive, tr_has = True, tr_coordinate = c\<rparr>]\<rparr>\<rparr>)"
    using p(2) by (simp add: core_ok_def buffer_ok_def buf_exact_def pending_ok_def counters_ok_def)
  then show ?thesis
    using assms p
    by (auto simp: replay_inv_def live_ok_def inner_ok_def clearBuffer_def state_ok_def ep_def)
qed

lemma seed_from_good:
  assumes "buffering_ok sha e" "small snap"
  shows "good sha e (seed_from sha snap e)"
proof (cases "prepareSnapshot (en_config e) snap")
  case (Inl err)
  then show ?thesis using failCurrent_good [OF buffering_inner [OF assms(1)]] by (simp add: seed_from_def)
next
  case (Inr candidate)
  have book: "book_ok (en_config e) candidate"
    using prepareSnapshot_book_ok [OF Inr] assms(2) by (simp add: small_def)
  let ?e1 = "discardSnapshotStale (so_last snap) e"
  note d = discardSnapshotStale_spec [OF buffering_inner [OF assms(1)] refl, of "so_last snap"]
  have st: "en_state e = StateBuffering" using assms(1) by (simp add: buffering_ok_def)
  have e_ok: "good sha e out" if "good sha ?e1 out" for out
    using that d by (intro good_same [OF that]) auto
  show ?thesis
  proof (cases "ep_buffer (ep ?e1)")
    case Nil
    have "engine_ok sha ?e1"
      using d st Nil buffering_state [OF assms(1)] by (intro buffering_okI) (auto simp: state_ok_def)
    moreover have "seed_from sha snap e =
        (?e1, (plain_result (en_state ?e1))\<lparr>rs_fetches := ev_fetches (evd ?e1)\<rparr>, [])"
      by (simp add: seed_from_def Inr Nil Let_def)
    ultimately show ?thesis
      using d by (simp add: good_def output_ok_def plain_result_def)
  next
    case (Cons b bs)
    show ?thesis
    proof (cases "p_first (en_policy ?e1) (so_last snap) (bf_event b) = SequenceApply")
      case False
      have "inner_ok sha ?e1" using d by simp
      moreover have "0 < length (ep_buffer (ep ?e1))" using Cons by simp
      ultimately have i: "inner_ok sha ?e1" "0 < length (ep_buffer (ep ?e1))" by blast+
      from splitBuffered_spec [OF i, of CloseSeedBoundary "[ErrBoundary]"]
      have "good sha ?e1 (splitBuffered sha 0 CloseSeedBoundary [ErrBoundary] ?e1)" by fastforce
      with False Inr Cons e_ok show ?thesis by (simp add: seed_from_def Let_def)
    next
      case True
      let ?s = "set_ep (\<lambda>p. p\<lparr>ep_book := candidate, ep_local := so_last snap,
                          ep_evidence := (ep_evidence p)\<lparr>ev_initial_id := so_identity snap,
                            ev_initial_raw := so_coordinate snap, ev_has_initial := True\<rparr>\<rparr>) ?e1"
      let ?e2 = "transition StateSeeded (so_coordinate snap) True ?s"
      obtain p where p: "en_epoch ?e1 = Some p" using d by (auto simp: inner_ok_def)
      have "inner_ok sha ?s"
      proof (rule inner_set_ep)
        show "inner_ok sha ?e1" using d by simp
      next
        fix p assume "core_ok sha (en_config ?e1) p"
        then show "core_ok sha (en_config ?e1) (p\<lparr>ep_book := candidate, ep_local := so_last snap,
                          ep_evidence := (ep_evidence p)\<lparr>ev_initial_id := so_identity snap,
                            ev_initial_raw := so_coordinate snap, ev_has_initial := True\<rparr>\<rparr>)"
          using book d by (auto simp: core_ok_def buffer_ok_def buf_exact_def pending_ok_def counters_ok_def split: option.splits)
      qed simp
      then have "inner_ok sha ?e2" by (rule inner_transition) simp
      then have inv: "replay_inv sha ?e2 ?e2" and buf: "ep_buffer (ep ?e2) = [] @ b # bs"
        using p Cons by (simp_all add: replay_inv_def ep_def)
      note r = replay_loop_spec [OF inv buf, of 0 "so_last snap"]
      have e2_ok: "good sha e out" if "good sha ?e2 out" for out
        using d by (intro good_same [OF that]) auto
      show ?thesis
      proof (cases "replay_loop sha (so_last snap) 0 (b # bs) ?e2")
        case (ReplayReturn out)
        with r have "good sha ?e2 out" by (simp only: replay.case) simp
        with ReplayReturn True Inr Cons e2_ok show ?thesis by (simp add: seed_from_def Let_def)
      next
        case (ReplayOk e3)
        let ?e4 = "set_ep (\<lambda>p. p\<lparr>ep_pending := None\<rparr>) (clearBuffer e3)"
        let ?e5 = "transition StateLive (ev_last_accepted (evd ?e4)) True ?e4"
        have r3: "replay_inv sha ?e2 e3" "ev_has_accepted (evd e3)" using r ReplayOk by simp_all
        note live = clear_to_live [OF r3 refl, of "ev_last_accepted (evd ?e4)"]
        obtain e6 res where em: "emit sha ?e5 = (e6, res)" by fastforce
        have l5: "live_ok sha ?e5" using live by simp
        note es = emit_spec [OF l5 em]
        have "good sha ?e2 (case (e6, res) of
                (e6, Inl err) \<Rightarrow> failCurrent CloseOutputLimit err e6
              | (e6, Inr output) \<Rightarrow> (e6, (plain_result (en_state e6))\<lparr>rs_output := Some output,
                                    rs_fetches := ev_fetches (evd e6)\<rparr>, []))"
        proof (cases res)
          case (Inl err)
          have "good sha ?e2 (failCurrent CloseOutputLimit err ?e5)"
            by (rule good_same [OF failCurrent_good [OF live_ok_inner [OF l5]]]) (use live in auto)
          with Inl es show ?thesis by simp
        next
          case res: (Inr out)
          with es live have "good sha ?e2 (e6, (plain_result (en_state e6))\<lparr>rs_output := Some out, rs_stale := False,
              rs_fetches := ev_fetches (evd e6)\<rparr>, [])"
            by (intro good_output) auto
          with res show ?thesis by (simp add: plain_result_def)
        qed
        with e2_ok ReplayOk True Inr Cons em show ?thesis by (simp add: seed_from_def Let_def)
      qed
    qed
  qed
qed

lemma core_fetch:
  assumes "core_ok sha cfg p" "ev_fetches (ep_evidence p) < b_fetches (cfg_bounds cfg)"
  shows "core_ok sha cfg (p\<lparr>ep_evidence := (ep_evidence p)\<lparr>ev_fetches := ev_fetches (ep_evidence p) + 1\<rparr>\<rparr>)"
proof (rule core_ok_evidence [OF assms(1)])
  have "ev_fetches (ep_evidence p) + 1 \<le> b_fetches (cfg_bounds cfg)"
    using assms(2) by (subst word_succ_le_iff) auto
  then show "counters_ok cfg ((ep_evidence p)\<lparr>ev_fetches := ev_fetches (ep_evidence p) + 1\<rparr>)"
    using assms(1) by (simp add: core_ok_def counters_ok_def)
qed simp

lemma core_attempt:
  assumes "core_ok sha cfg p" "small ob"
  shows "core_ok sha cfg (p\<lparr>ep_evidence := (ep_evidence p)\<lparr>ev_attempts := ev_attempts (ep_evidence p) @ [a]\<rparr>,
      ep_pending := Some \<lparr>ps_obs = ob, ps_attempt = length (ev_attempts (ep_evidence p) @ [a]) - 1\<rparr>\<rparr>)"
  using assms by (auto simp: core_ok_def buffer_ok_def buf_exact_def counters_ok_def pending_ok_def small_def)

lemma fetch_snapshot_ok:
  assumes "buffering_ok sha e" "small (fo_obs fo)" "fetch_snapshot sha fo e = (e', res)"
  shows "buffering_ok sha e' \<and> ep_buffer (ep e') = ep_buffer (ep e) \<and> (\<forall>snap. res = Inr snap \<longrightarrow> small snap)"
proof -
  obtain p where p: "en_epoch e = Some p" "core_ok sha (en_config e) p" "state_ok StateBuffering p"
    and st: "en_state e = StateBuffering"
    using assms(1) by (auto simp: buffering_ok_def engine_ok_def split: option.splits)
  show ?thesis
  proof (cases "ep_pending p")
    case (Some ps)
    then have "e' = e" "res = Inr (ps_obs ps)" using assms(3) p by (simp_all add: fetch_snapshot_def)
    with assms(1) p Some show ?thesis by (auto simp: core_ok_def pending_ok_def small_def)
  next
    case None
    let ?v = "(ep_evidence p)\<lparr>ev_fetches := ev_fetches (ep_evidence p) + 1\<rparr>"
    let ?p = "p\<lparr>ep_evidence := ?v\<rparr>"
    let ?ob = "fo_obs fo"
    let ?a = "\<lparr>sa_identity = so_identity ?ob, sa_raw = so_coordinate ?ob, sa_last = so_last ?ob, sa_behind = False\<rparr>"
    let ?q = "?p\<lparr>ep_evidence := ?v\<lparr>ev_attempts := ev_attempts ?v @ [?a]\<rparr>,
        ep_pending := Some \<lparr>ps_obs = ?ob, ps_attempt = length (ev_attempts ?v @ [?a]) - 1\<rparr>\<rparr>"
    have ok: "buffering_ok sha (e\<lparr>en_epoch := Some q\<rparr>)"
      if "core_ok sha (en_config e) q" "state_ok StateBuffering q" "ev_parent (ep_evidence q) = ev_parent (ep_evidence p)"
        "ep_buffer q = ep_buffer p" for q
      using that assms(1) p st by (auto simp: buffering_ok_def engine_ok_def ep_def)
    define e1 where "e1 = set_ev (\<lambda>v. v\<lparr>ev_fetches := ev_fetches v + 1\<rparr>) e"
    define e2 where "e2 = set_ep (\<lambda>p. p\<lparr>ep_evidence := (ep_evidence p)\<lparr>ev_attempts := ev_attempts (ep_evidence p) @ [?a]\<rparr>,
        ep_pending := Some \<lparr>ps_obs = ?ob, ps_attempt = length (ev_attempts (ep_evidence p) @ [?a]) - 1\<rparr>\<rparr>) e1"
    have "fetch_snapshot sha fo e = (e, Inl [ErrSnapshotLimit]) \<or>
        ev_fetches (ep_evidence p) < b_fetches (cfg_bounds (en_config e)) \<and>
          ((\<exists>err. fetch_snapshot sha fo e = (e1, Inl err)) \<or> fetch_snapshot sha fo e = (e2, Inr ?ob))"
      using p(1) None by (auto simp: fetch_snapshot_def Let_def e1_def e2_def not_le)
    moreover have "e1 = e\<lparr>en_epoch := Some ?p\<rparr>" using p(1) by (simp add: e1_def set_ev_def set_ep_def)
    moreover from this have "e2 = e\<lparr>en_epoch := Some ?q\<rparr>" by (simp add: e2_def set_ep_def)
    ultimately consider "e' = e" "res = Inl [ErrSnapshotLimit]"
      | "ev_fetches (ep_evidence p) < b_fetches (cfg_bounds (en_config e))" "e' = e\<lparr>en_epoch := Some ?p\<rparr>" "\<exists>err. res = Inl err"
      | "ev_fetches (ep_evidence p) < b_fetches (cfg_bounds (en_config e))" "e' = e\<lparr>en_epoch := Some ?q\<rparr>" "res = Inr ?ob"
      using assms(3) by (metis prod.inject)
    then show ?thesis
    proof cases
      case 1
      with assms(1) show ?thesis by simp
    next
      case 2
      have "buffering_ok sha e'" unfolding 2(2)
        using core_fetch [OF p(2) 2(1)] p(3) by (intro ok) (auto simp: state_ok_def)
      with 2 p show ?thesis by (auto simp: ep_def)
    next
      case 3
      have "buffering_ok sha e'" unfolding 3(2)
        using core_attempt [OF core_fetch [OF p(2) 3(1)] assms(2), of ?a] p(3) by (intro ok) (auto simp: state_ok_def)
      with 3 p assms(2) show ?thesis by (auto simp: ep_def)
    qed
  qed
qed

lemma mark_behind_ok:
  assumes "buffering_ok sha e"
  shows "buffering_ok sha (mark_behind e)"
proof -
  obtain p where p: "en_epoch e = Some p" "core_ok sha (en_config e) p"
    using assms by (auto simp: buffering_ok_def engine_ok_def split: option.splits)
  show ?thesis
  proof (cases "ep_pending p")
    case None
    then have "mark_behind e = e" using p by (simp add: mark_behind_def set_ep_def)
    with assms show ?thesis by simp
  next
    case (Some ps)
    let ?q = "p\<lparr>ep_evidence := (ep_evidence p)\<lparr>ev_attempts :=
          (ev_attempts (ep_evidence p))[ps_attempt ps := (ev_attempts (ep_evidence p) ! ps_attempt ps)\<lparr>sa_behind := True\<rparr>]\<rparr>,
        ep_pending := None\<rparr>"
    have m: "mark_behind e = e\<lparr>en_epoch := Some ?q\<rparr>" using p Some by (simp add: mark_behind_def set_ep_def)
    have "core_ok sha (en_config e) ?q"
      using p(2) by (simp add: core_ok_def buffer_ok_def buf_exact_def counters_ok_def pending_ok_def)
    with assms p m show ?thesis by (auto simp: buffering_ok_def engine_ok_def state_ok_def ep_def)
  qed
qed

lemma seed_error_good:
  assumes "buffering_ok sha e"
  shows "good sha e (seed_error err e)"
proof -
  have ok: "engine_ok sha e" using assms by (simp add: buffering_ok_def)
  show ?thesis
    using cancel_good [OF ok] failCurrent_good' [OF ok]
    by (auto simp: seed_error_def intro!: good_unchanged [OF ok])
qed

lemma seed_iteration_good:
  assumes "buffering_ok sha e" "small (fo_obs fo)"
  shows "case seed_iteration sha fo e of
      SeedReturn out \<Rightarrow> good sha e out
    | SeedAgain e' \<Rightarrow> buffering_ok sha e' \<and> en_config e' = en_config e \<and> en_policy e' = en_policy e \<and>
        en_policy_id e' = en_policy_id e \<and> en_parent e' = en_parent e"
proof -
  obtain e1 res where f: "fetch_snapshot sha fo e = (e1, res)" by fastforce
  note ok = fetch_snapshot_ok [OF assms f] and fields = fetch_snapshot_fields [OF f]
  have lift: "good sha e out" if "good sha e1 out" for out
    using fields by (intro good_same [OF that]) auto
  show ?thesis
  proof (cases res)
    case (Inl err)
    with f ok lift seed_error_good show ?thesis by (simp add: seed_iteration_def)
  next
    case (Inr snap)
    have m: "buffering_ok sha (mark_behind e1)" using ok by (intro mark_behind_ok) auto
    have "good sha e (failCurrent CloseSnapshotLimit [ErrSnapshotLimit] (mark_behind e1))"
      by (rule good_same [OF failCurrent_good [OF buffering_inner [OF m]]]) (use fields in auto)
    moreover have "good sha e (seed_from sha snap e1)"
      using ok Inr by (intro lift seed_from_good) auto
    ultimately show ?thesis
      using f Inr m fields by (auto simp: seed_iteration_def Let_def)
  qed
qed

lemma seed_loop_good:
  assumes "buffering_ok sha e" "\<And>k. small (fo_obs (fetch k))"
  shows "good sha e (seed_loop sha fetch n e)"
  using assms
proof (induction sha fetch n e rule: seed_loop.induct)
  case (1 sha fetch n e)
  obtain p where p: "en_epoch e = Some p"
    using buffering_inner [OF "1.prems"(1)] by (auto simp: inner_ok_def)
  then have some: "en_epoch e \<noteq> None" by simp
  note it = seed_iteration_good [OF "1.prems"(1) "1.prems"(2) [of n]]
  show ?case
  proof (cases "seed_iteration sha (fetch n) e")
    case (SeedReturn out)
    with it p show ?thesis by (simp add: seed_loop.simps [of sha fetch n e])
  next
    case (SeedAgain e')
    with it have e': "buffering_ok sha e'" "en_config e' = en_config e" "en_policy e' = en_policy e"
        "en_policy_id e' = en_policy_id e" "en_parent e' = en_parent e" by simp_all
    have "good sha e' (seed_loop sha fetch (if ep_pending (ep e) = None then Suc n else n) e')"
      using "1.IH" [OF some SeedAgain e'(1) "1.prems"(2)] .
    then have "good sha e (seed_loop sha fetch (if ep_pending (ep e) = None then Suc n else n) e')"
      by (rule good_same) (simp_all add: e')
    with SeedAgain p show ?thesis by (simp add: seed_loop.simps [of sha fetch n e])
  qed
qed

lemma Seed_good:
  assumes "engine_ok sha e" "\<And>k. small (fo_obs (fetch k))"
  shows "good sha e (Seed sha fetch ctx e)"
proof -
  consider (terminal) "en_terminal e" | (cancelled) "\<not> en_terminal e" "checkContext ctx \<noteq> []"
    | (idle) "\<not> en_terminal e" "checkContext ctx = []" "en_state e \<noteq> StateBuffering \<or> en_epoch e = None \<or> ep_buffer (ep e) = []"
    | (run) "\<not> en_terminal e" "checkContext ctx = []" "en_state e = StateBuffering" "en_epoch e \<noteq> None" "ep_buffer (ep e) \<noteq> []"
    by blast
  then show ?thesis
  proof cases
    case terminal
    with assms(1) show ?thesis by (auto simp: Seed_def engine_ok_def intro!: good_unchanged)
  next
    case cancelled
    with cancel_good [OF assms(1)] show ?thesis by (simp add: Seed_def Let_def)
  next
    case idle
    with assms(1) show ?thesis by (auto simp: Seed_def Let_def intro!: good_unchanged)
  next
    case run
    with assms show ?thesis by (auto simp: Seed_def Let_def buffering_ok_def intro!: seed_loop_good)
  qed
qed

subsection \<open>Discontinuity and Close\<close>

lemma close_ending_good:
  assumes "engine_ok sha e" "reason \<noteq> []"
    "(e1, closed) = (if en_epoch e \<noteq> None \<and> en_state e \<noteq> StateClosed then
        (case closeCurrent reason (ev_last_observed (evd e)) (ev_has_observed (evd e)) e of
           (e', v) \<Rightarrow> (e', [v])) else (e, []))"
  shows "good sha e (e1\<lparr>en_terminal := t, en_restart := r, en_state := StateClosed\<rparr>,
     (plain_result StateClosed)\<lparr>rs_closed := closed\<rparr>, err)"
proof (cases "en_epoch e \<noteq> None \<and> en_state e \<noteq> StateClosed")
  case True
  obtain v where c: "closeCurrent reason (ev_last_observed (evd e)) (ev_has_observed (evd e)) e = (e1, v)"
    and v: "closed = [v]" using True assms(3) by (auto split: prod.splits)
  have "inner_ok sha e" using assms(1) True by (intro inner_okI) auto
  note s = closeCurrent_spec [OF this assms(2) c]
  have "e1\<lparr>en_terminal := t, en_restart := r\<rparr> = e1\<lparr>en_terminal := t, en_restart := r, en_state := StateClosed\<rparr>"
    using s(5) by (intro engine.equality) auto
  then have "engine_ok sha (e1\<lparr>en_terminal := t, en_restart := r, en_state := StateClosed\<rparr>)"
    using s(1) [where t = t and r = r] by simp
  with s(2-10) v show ?thesis
    by (simp add: good_def plain_result_def output_ok_def)
next
  case False
  with assms show ?thesis
    by (auto simp: good_def plain_result_def output_ok_def engine_ok_def split: option.splits)
qed

lemma Discontinuity_good:
  assumes "engine_ok sha e"
  shows "good sha e (Discontinuity ctx e)"
proof -
  obtain e1 closed where c: "(e1, closed) = (if en_epoch e \<noteq> None \<and> en_state e \<noteq> StateClosed then
        (case closeCurrent CloseRawDiscontinuity (ev_last_observed (evd e)) (ev_has_observed (evd e)) e of
           (e', v) \<Rightarrow> (e', [v])) else (e, []))" by (metis surj_pair)
  have t: "en_terminal e1 = en_terminal e"
    using c by (auto simp: closeCurrent_def Let_def split: if_splits)
  have "e1\<lparr>en_restart := True, en_state := StateClosed\<rparr> =
      e1\<lparr>en_terminal := en_terminal e, en_restart := True, en_state := StateClosed\<rparr>"
    using t by (intro engine.equality) auto
  then have "good sha e (e1\<lparr>en_restart := True, en_state := StateClosed\<rparr>, (plain_result StateClosed)\<lparr>rs_closed := closed\<rparr>, [])"
    using close_ending_good [OF assms _ c, where t = "en_terminal e" and r = True and err = "[]"] by simp
  then show ?thesis
    using assms cancel_good [OF assms]
    unfolding Discontinuity_def Let_def c [symmetric] prod.case
    by (auto simp: engine_ok_def intro!: good_unchanged)
qed

lemma Close_good:
  assumes "engine_ok sha e"
  shows "good sha e (Close ctx e)"
proof -
  obtain e1 closed where c: "(e1, closed) = (if en_epoch e \<noteq> None \<and> en_state e \<noteq> StateClosed then
        (case closeCurrent CloseExplicit (ev_last_observed (evd e)) (ev_has_observed (evd e)) e of
           (e', v) \<Rightarrow> (e', [v])) else (e, []))" by (metis surj_pair)
  have t: "en_restart e1 = en_restart e"
    using c by (auto simp: closeCurrent_def Let_def split: if_splits)
  have "e1\<lparr>en_terminal := True, en_state := StateClosed\<rparr> =
      e1\<lparr>en_terminal := True, en_restart := en_restart e, en_state := StateClosed\<rparr>"
    using t by (intro engine.equality) auto
  then have "good sha e (e1\<lparr>en_terminal := True, en_state := StateClosed\<rparr>, (plain_result StateClosed)\<lparr>rs_closed := closed\<rparr>, [])"
    using close_ending_good [OF assms _ c, where t = True and r = "en_restart e" and err = "[]"] by simp
  then show ?thesis
    using assms cancel_good [OF assms]
    unfolding Close_def Let_def c [symmetric] prod.case
    by (auto simp: engine_ok_def intro!: good_unchanged)
qed

end
