(* ===== verification/EngineSpec.thy ===== *)
theory EngineSpec
  imports EngineSeed
begin

text \<open>
  What the reconstruction engine promises its users: the invariant on every
  reachable engine, a terminal state that absorbs, a bound on snapshot fetches,
  lossless splitting of an epoch at a gap, and exact live updates.  The locale
  \<open>sequence_policy\<close> is the contract between the engine and a venue's
  \<open>SequencePolicy\<close>; the lemmas inside it show that what the engine applies is
  contiguous in the venue's sequence numbers.
\<close>

subsection \<open>Reachable engines\<close>

inductive engine_reach :: "(bytes \<Rightarrow> hash) \<Rightarrow> config \<Rightarrow> seq_policy \<Rightarrow> engine \<Rightarrow> bool"
  for sha :: "bytes \<Rightarrow> hash" and cfg :: config and pol :: seq_policy where
  reach_new: "New sha cfg (Some pol) True = Inr e \<Longrightarrow> engine_reach sha cfg pol e"
| reach_accept: "engine_reach sha cfg pol e \<Longrightarrow> md_received (bu_meta event) < 2 ^ 63 \<Longrightarrow>
     engine_reach sha cfg pol (fst (Accept sha ctx event n e))"
| reach_seed: "engine_reach sha cfg pol e \<Longrightarrow> (\<And>k. small (fo_obs (fetch k))) \<Longrightarrow>
     engine_reach sha cfg pol (fst (Seed sha fetch ctx e))"
| reach_discontinuity: "engine_reach sha cfg pol e \<Longrightarrow> engine_reach sha cfg pol (fst (Discontinuity ctx e))"
| reach_close: "engine_reach sha cfg pol e \<Longrightarrow> engine_reach sha cfg pol (fst (Close ctx e))"

lemma good_fst:
  assumes "good sha e out"
  shows "engine_ok sha (fst out) \<and> en_config (fst out) = en_config e \<and> en_policy (fst out) = en_policy e \<and>
    en_policy_id (fst out) = en_policy_id e"
  using assms by (auto simp: good_def split: prod.splits)

lemma New_ok:
  "New sha cfg (Some pol) True = Inr e \<Longrightarrow> engine_ok sha e \<and> en_config e = cfg \<and> en_policy e = pol \<and>
     en_policy_id e = policyIdentity sha cfg (p_name pol) (p_version pol)"
  by (auto simp: New_def engine_ok_def split: if_splits)

lemma reach_ok:
  assumes "engine_reach sha cfg pol e"
  shows "engine_ok sha e \<and> en_config e = cfg \<and> en_policy e = pol \<and>
     en_policy_id e = policyIdentity sha cfg (p_name pol) (p_version pol)"
  using assms
proof induction
  case (reach_new e)
  then show ?case by (rule New_ok)
next
  case (reach_accept e event ctx n)
  then show ?case using good_fst [OF Accept_good [of sha e event ctx n]] by simp
next
  case (reach_seed e fetch ctx)
  then show ?case using good_fst [OF Seed_good [of sha e fetch ctx]] by simp
next
  case (reach_discontinuity e ctx)
  then show ?case using good_fst [OF Discontinuity_good [of sha e ctx]] by simp
next
  case (reach_close e ctx)
  then show ?case using good_fst [OF Close_good [of sha e ctx]] by simp
qed

subsection \<open>Terminal engines\<close>

lemma cancel_terminal:
  assumes "engine_ok sha e" "en_terminal e"
  shows "cancel err e = (e, plain_result StateClosed, err)"
proof -
  have st: "en_state e = StateClosed" using assms by (simp add: engine_ok_def)
  then have "e\<lparr>en_state := StateClosed, en_terminal := True\<rparr> = e" "e\<lparr>en_terminal := True, en_state := StateClosed\<rparr> = e"
    using assms(2) by (auto intro!: engine.equality)
  with st show ?thesis
    by (auto simp: cancel_def failCurrent_def plain_result_def Let_def)
qed

lemma terminal_ops:
  assumes "engine_ok sha e" "en_terminal e"
  shows "\<exists>err. Accept sha ctx event n e = (e, plain_result StateClosed, err) \<and> err \<noteq> []"
    "\<exists>err. Seed sha fetch ctx e = (e, plain_result StateClosed, err) \<and> err \<noteq> []"
    "\<exists>err. Discontinuity ctx e = (e, plain_result StateClosed, err) \<and> err \<noteq> []"
    "\<exists>err. Close ctx e = (e, plain_result StateClosed, err)"
  using assms cancel_terminal [OF assms]
  by (simp_all add: Accept_def Seed_def Discontinuity_def Close_def Let_def)

subsection \<open>Fetches\<close>

definition fetch_budget :: "engine \<Rightarrow> nat" where
  "fetch_budget e = unat (b_fetches (cfg_bounds (en_config e))) - unat (ev_fetches (evd e))"

lemma fetch_snapshot_irrelevant:
  assumes "ep_pending (ep e) \<noteq> None \<or> fetch_budget e = 0"
  shows "fetch_snapshot sha fo e = fetch_snapshot sha fo' e"
  using assms by (auto simp: fetch_snapshot_def fetch_budget_def word_le_nat_alt split: option.splits)

lemma seed_iteration_budget:
  assumes "seed_iteration sha fo e = SeedAgain e'" "en_epoch e = Some p"
  shows "fetch_budget e' = fetch_budget e - (if ep_pending p = None then 1 else 0)"
    "ep_pending p = None \<longrightarrow> 0 < fetch_budget e"
proof -
  obtain e1 snap where f: "fetch_snapshot sha fo e = (e1, Inr snap)" and e': "e' = mark_behind e1"
    using assms(1) unfolding seed_iteration_def Let_def
    by (auto split: prod.splits sum.splits if_splits)
  have cfg: "en_config e1 = en_config e" using fetch_snapshot_fields [OF f] by simp
  from fetch_snapshot_progress [OF f assms(2)] consider
      "ep_pending p = None" "ev_fetches (evd e1) = ev_fetches (ep_evidence p) + 1"
      "ev_fetches (ep_evidence p) < b_fetches (cfg_bounds (en_config e))"
    | "ep_pending p \<noteq> None" "e1 = e" by metis
  then have "fetch_budget e' = fetch_budget e - (if ep_pending p = None then 1 else 0) \<and>
      (ep_pending p = None \<longrightarrow> 0 < fetch_budget e)"
  proof cases
    case 1
    have "unat (ev_fetches (ep_evidence p) + 1) = unat (ev_fetches (ep_evidence p)) + 1"
      using 1(3) by (intro word_succ_no_wrap) auto
    with 1 assms(2) e' cfg show ?thesis by (simp add: fetch_budget_def word_less_nat_alt)
  next
    case 2
    with assms(2) e' show ?thesis by (auto simp: fetch_budget_def)
  qed
  then show "fetch_budget e' = fetch_budget e - (if ep_pending p = None then 1 else 0)"
    "ep_pending p = None \<longrightarrow> 0 < fetch_budget e" by simp_all
qed

lemma seed_loop_budget:
  assumes "\<And>k. n \<le> k \<Longrightarrow> k < n + fetch_budget e \<Longrightarrow> fetch k = fetch' k"
  shows "seed_loop sha fetch n e = seed_loop sha fetch' n e"
  using assms
proof (induction sha fetch n e rule: seed_loop.induct)
  case (1 sha fetch n e)
  show ?case
  proof (cases "en_epoch e")
    case None
    then show ?thesis by (simp add: seed_loop.simps [of _ _ n e])
  next
    case (Some p)
    have "fetch_snapshot sha (fetch n) e = fetch_snapshot sha (fetch' n) e"
    proof (cases "ep_pending p \<noteq> None \<or> fetch_budget e = 0")
      case True
      then show ?thesis using Some by (intro fetch_snapshot_irrelevant) simp
    next
      case False
      then show ?thesis using "1.prems" [of n] by simp
    qed
    then have it: "seed_iteration sha (fetch n) e = seed_iteration sha (fetch' n) e"
      by (simp add: seed_iteration_def)
    show ?thesis
    proof (cases "seed_iteration sha (fetch n) e")
      case (SeedReturn out)
      moreover have "seed_iteration sha (fetch' n) e = SeedReturn out" using SeedReturn it by simp
      ultimately show ?thesis using Some by (simp add: seed_loop.simps [of _ _ n e])
    next
      case (SeedAgain e')
      note b = seed_iteration_budget [OF SeedAgain Some]
      have "seed_loop sha fetch (if ep_pending (ep e) = None then Suc n else n) e' =
          seed_loop sha fetch' (if ep_pending (ep e) = None then Suc n else n) e'"
        using Some b by (intro "1.IH" [OF _ SeedAgain]) (auto intro!: "1.prems" split: if_splits)
      moreover have "seed_iteration sha (fetch' n) e = SeedAgain e'" using SeedAgain it by simp
      ultimately show ?thesis using SeedAgain Some
        by (simp only: seed_loop.simps [of sha fetch n e] seed_loop.simps [of sha fetch' n e]) simp
    qed
  qed
qed

subsection \<open>Live updates\<close>

text \<open>An output of \<open>acceptLive\<close> comes from the apply branch, with the update applied exactly.\<close>

lemma closing_no_output:
  "failCurrent reason err e = (e', r, err') \<Longrightarrow> rs_output r = None"
  by (auto simp: failCurrent_def Let_def split: if_splits prod.splits)

lemma emit_output:
  assumes "emit sha e = (e', Inr out)"
  shows "bk_bids out = projectedLevels (bs_bids (ep_book (ep e))) True"
    "bk_asks out = projectedLevels (bs_asks (ep_book (ep e))) False" "bk_last out = ep_local (ep e)"
    "bk_initial_id out = ev_initial_id (evd e)" "bk_initial_raw out = ev_initial_raw (evd e)"
  using assms unfolding emit_def Let_def by (auto split: if_splits)

lemma acceptLive_output:
  assumes "live_ok sha e" "acceptLive sha event n e = (e', r, err)" "rs_output r = Some out"
  shows "p_next (en_policy e) (ep_local (ep e)) event = SequenceApply"
    "applyEventAtomically (en_config e) (ep_book (ep e)) event = Inr (ep_book (ep e'))"
    "ep_local (ep e') = bu_last event" "bk_last out = bu_last event"
    "bk_bids out = projectedLevels (bs_bids (ep_book (ep e'))) True"
    "bk_asks out = projectedLevels (bs_asks (ep_book (ep e'))) False"
proof -
  let ?c = "metadataCoordinate (bu_meta event)"
  obtain p where p: "en_epoch e = Some p" using assms(1) by (auto simp: live_ok_def inner_ok_def)
  have ob: "ep_book (ep (observe ?c e)) = ep_book (ep e)" using p by (simp add: observe_eq ep_def)
  have guard: "\<not> (n = 0 \<or> n > b_bytes (cfg_bounds (en_config e)))"
    using assms(2,3) by (auto simp: acceptLive_def Let_def dest!: closing_no_output)
  show nx: "p_next (en_policy e) (ep_local (ep e)) event = SequenceApply"
    using assms(2,3) guard
    by (auto simp: acceptLive_def Let_def dest!: closing_no_output split: seq_action.splits prod.splits)
  have cap: "\<not> ev_outputs (evd (observe ?c e)) \<ge> b_outputs (cfg_bounds (en_config e))"
    using assms(2,3) guard nx by (auto simp: acceptLive_def Let_def dest!: closing_no_output)
  obtain b where b: "applyEventAtomically (en_config e) (ep_book (ep e)) event = Inr b"
    using assms(2,3) guard nx cap ob
    by (cases "applyEventAtomically (en_config e) (ep_book (ep e)) event")
      (auto simp: acceptLive_def Let_def dest!: closing_no_output)
  let ?e2 = "acceptInput event True (set_ep (\<lambda>p. p\<lparr>ep_book := b, ep_local := bu_last event\<rparr>) (observe ?c e))"
  have book: "book_ok (en_config e) (ep_book (ep e))" using assms(1) p by (auto simp: live_ok_def inner_ok_def core_ok_def)
  have l2: "live_ok sha ?e2"
    using live_observe [OF assms(1)] applyEventAtomically_book_ok [OF book b]
    by (intro live_acceptInput live_set_book) auto
  obtain e3 res where em: "emit sha ?e2 = (e3, res)" by fastforce
  have eq: "acceptLive sha event n e = (case (e3, res) of
      (e3, Inl err) \<Rightarrow> failCurrent CloseOutputLimit err e3
    | (e3, Inr output) \<Rightarrow> (e3, (plain_result (en_state e3))\<lparr>rs_output := Some output\<rparr>, []))"
    using guard nx cap b ob em by (simp add: acceptLive_def Let_def)
  then obtain out' where res: "res = Inr out'" "e' = e3" "out' = out"
    using assms(2,3) by (cases res) (auto dest!: closing_no_output [OF sym])
  have e2: "ep_book (ep ?e2) = b" "ep_local (ep ?e2) = bu_last event"
    unfolding acceptInput_ep using p by (simp_all add: observe_eq ep_def)
  from emit_spec [OF l2 em] res e2 b
  show "applyEventAtomically (en_config e) (ep_book (ep e)) event = Inr (ep_book (ep e'))"
    "ep_local (ep e') = bu_last event" "bk_last out = bu_last event"
    by (simp_all add: output_ok_def)
  have "emit sha ?e2 = (e', Inr out)" using em res by simp
  from emit_output(1,2) [OF this] emit_spec [OF l2 em] res
  show "bk_bids out = projectedLevels (bs_bids (ep_book (ep e'))) True"
    "bk_asks out = projectedLevels (bs_asks (ep_book (ep e'))) False" by simp_all
qed

lemma accept_settled_output:
  assumes "accept_settled sha vs event n e1 = (e', r, err)" "rs_output r = Some out"
  shows "en_state e1 = StateLive" "\<exists>r'. acceptLive sha event n e1 = (e', r', err) \<and> rs_output r' = Some out"
  using assms
  by (auto simp: accept_settled_def split: if_splits prod.splits dest!: closing_no_output)

lemma Accept_output:
  assumes "engine_ok sha e" "Accept sha ctx event n e = (e', r, err)" "rs_output r = Some out"
  shows "live_ok sha e" "\<exists>r'. acceptLive sha event n e = (e', r', err) \<and> rs_output r' = Some out"
proof -
  have vc: "validateConfig (en_config e) (Some (en_policy e)) True" using assms(1) by (simp add: engine_ok_def)
  have started: "en_state (startEpoch sha c reason x) = StateBuffering" for c reason x
    by (simp add: startEpoch_def Let_def)
  have no_start: "accept_settled sha vs event n (startEpoch sha c reason x) \<noteq> (e', r, err)"
    "accept_settled sha vs event n ((startEpoch sha c reason x)\<lparr>en_restart := False\<rparr>) \<noteq> (e', r, err)" for vs c reason x
    using accept_settled_output(1) [of sha vs event n _ e' r err out] assms(3) started by fastforce+
  have no_cancel: "cancel x e \<noteq> (e', r, err)" for x
    using assms(3) by (auto simp: cancel_def split: prod.splits dest!: closing_no_output)
  have no_fail: "failCurrent x y e \<noteq> (e', r, err)" for x y
    using assms(3) closing_no_output by fastforce
  have settled: "accept_settled sha [] event n e = (e', r, err)"
    using assms(2,3) no_start no_cancel no_fail
    unfolding Accept_def Let_def by (auto split: if_splits prod.splits)
  note s = accept_settled_output [OF settled assms(3)]
  show "live_ok sha e" using engine_ok_live [OF assms(1) s(1)] .
  show "\<exists>r'. acceptLive sha event n e = (e', r', err) \<and> rs_output r' = Some out" by (rule s(2))
qed

subsection \<open>The policy contract\<close>

fun contiguous :: "u64 \<Rightarrow> book_update list \<Rightarrow> u64 \<Rightarrow> bool" where
  "contiguous s [] t \<longleftrightarrow> t = s"
| "contiguous s (u # us) t \<longleftrightarrow>
     unat (bu_first u) \<le> unat s + 1 \<and> s < bu_last u \<and> contiguous (bu_last u) us t"

lemma contiguous_append: "contiguous s us t \<Longrightarrow> contiguous t vs w \<Longrightarrow> contiguous s (us @ vs) w"
  by (induction us arbitrary: s) auto

lemma contiguous_le: "contiguous s us t \<Longrightarrow> s \<le> t"
  by (induction us arbitrary: s) (auto dest: less_imp_le intro: order_trans)

fun apply_all :: "config \<Rightarrow> book_state \<Rightarrow> book_update list \<Rightarrow> ob_error + book_state" where
  "apply_all cfg st [] = Inr st"
| "apply_all cfg st (u # us) = (case applyEventAtomically cfg st u of Inl err \<Rightarrow> Inl err | Inr st' \<Rightarrow> apply_all cfg st' us)"

definition same_origin :: "engine \<Rightarrow> engine \<Rightarrow> bool" where
  "same_origin e e' \<longleftrightarrow> ev_initial_id (evd e') = ev_initial_id (evd e) \<and> ev_initial_raw (evd e') = ev_initial_raw (evd e)"

lemma same_origin_trans: "same_origin a b \<Longrightarrow> same_origin b c \<Longrightarrow> same_origin a c"
  by (simp add: same_origin_def)

lemma same_origin_accept: "same_origin e (acceptInput ev x e)"
  by (auto simp: same_origin_def acceptInput_def ep_def Let_def split: option.splits)

text \<open>The buffered updates that go beyond a position, each measured against the one before it.\<close>

fun fresh_updates :: "u64 \<Rightarrow> book_update list \<Rightarrow> book_update list" where
  "fresh_updates s [] = []"
| "fresh_updates s (u # us) = (if bu_last u \<le> s then fresh_updates s us else u # fresh_updates (bu_last u) us)"

lemma fresh_dropWhile: "fresh_updates s (dropWhile (\<lambda>u. bu_last u \<le> s) us) = fresh_updates s us"
  by (induction us) auto

text \<open>
  What an output must be: exactly this snapshot with exactly the buffered updates beyond it,
  which leave no gap, applied in order.
\<close>

definition reconstructs :: "config \<Rightarrow> snapshot_observation \<Rightarrow> book_update list \<Rightarrow> book_snapshot \<Rightarrow> bool" where
  "reconstructs cfg snap buffered out \<longleftrightarrow> (\<exists>start final.
     prepareSnapshot cfg snap = Inr start \<and> bk_initial_id out = so_identity snap \<and>
     bk_initial_raw out = so_coordinate snap \<and> fresh_updates (so_last snap) buffered \<noteq> [] \<and>
     contiguous (so_last snap) (fresh_updates (so_last snap) buffered) (bk_last out) \<and>
     apply_all cfg start (fresh_updates (so_last snap) buffered) = Inr final \<and>
     bk_bids out = projectedLevels (bs_bids final) True \<and> bk_asks out = projectedLevels (bs_asks final) False)"

text \<open>The snapshots a call of \<open>Seed\<close> looks at, in order: the pending one, then what it fetches.\<close>

definition candidate :: "(nat \<Rightarrow> fetch_outcome) \<Rightarrow> engine \<Rightarrow> nat \<Rightarrow> snapshot_observation" where
  "candidate fetch e k =
     (case ep_pending (ep e) of
        None \<Rightarrow> fo_obs (fetch k)
      | Some ps \<Rightarrow> if k = 0 then ps_obs ps else fo_obs (fetch (k - 1)))"

lemma candidate_first: "fetch_snapshot sha (fetch n) e = (e1, Inr snap) \<Longrightarrow> candidate (\<lambda>i. fetch (n + i)) e 0 = snap"
  by (auto simp: candidate_def fetch_snapshot_def Let_def split: option.splits if_splits)

lemma candidate_later:
  "ep_pending (ep e2) = None \<Longrightarrow>
   candidate (\<lambda>i. fetch ((if ep_pending (ep e) = None then Suc n else n) + i)) e2 k = candidate (\<lambda>i. fetch (n + i)) e (Suc k)"
  by (auto simp: candidate_def split: option.splits)

text \<open>The snapshot is the first that is not behind the buffer.\<close>

definition chosen :: "(u64 \<Rightarrow> u64 \<Rightarrow> bool) \<Rightarrow> (nat \<Rightarrow> snapshot_observation) \<Rightarrow> u64 \<Rightarrow> nat \<Rightarrow> bool" where
  "chosen behind cand first k \<longleftrightarrow> (\<forall>j < k. behind (so_last (cand j)) first) \<and> \<not> behind (so_last (cand k)) first"

lemma splitBuffered_no_output: "splitBuffered sha i reason cause e = (e', r, err) \<Longrightarrow> rs_output r = None"
proof -
  have "rebuffer bs closed cause e = (e', r, err) \<Longrightarrow> rs_output r = None" for bs closed e
    by (induction bs arbitrary: closed e) (auto simp: Let_def split: prod.splits if_splits)
  then show "splitBuffered sha i reason cause e = (e', r, err) \<Longrightarrow> rs_output r = None"
    by (auto simp: splitBuffered_def Let_def split: prod.splits)
qed

lemma replay_no_output:
  "replay_loop sha sl i bs e = ReplayReturn (e', r, err) \<Longrightarrow> rs_output r = None"
proof (induction bs arbitrary: i e)
  case (Cons b bs)
  show ?case
    using Cons.prems
    by (auto simp: replay_loop.simps Let_def split: seq_action.splits sum.splits
        dest: Cons.IH dest!: closing_no_output splitBuffered_no_output)
qed (simp add: replay_loop.simps)

lemma seed_error_no_output: "seed_error x e = (e', r, err) \<Longrightarrow> rs_output r = None"
  by (auto simp: seed_error_def cancel_def split: prod.splits if_splits dest!: closing_no_output)

locale sequence_policy =
  fixes pol :: seq_policy
  assumes first_apply: "p_first pol s u = SequenceApply \<Longrightarrow> unat (bu_first u) \<le> unat s + 1 \<and> s < bu_last u"
    and next_apply: "p_next pol s u = SequenceApply \<Longrightarrow> unat (bu_first u) \<le> unat s + 1 \<and> s < bu_last u"
    and next_stale: "p_next pol s u = SequenceStale \<Longrightarrow> bu_last u \<le> s"
    and known: "p_first pol s u \<noteq> SequenceOther" "p_next pol s u \<noteq> SequenceOther"
begin

lemma live_contiguous:
  assumes "live_ok sha e" "en_policy e = pol" "acceptLive sha event n e = (e', r, err)" "rs_output r = Some out"
  shows "contiguous (ep_local (ep e)) [event] (ep_local (ep e'))"
  using acceptLive_output [OF assms(1,3,4)] next_apply assms(2) by simp

text \<open>The updates that a replay applies, in buffer order, start at the snapshot and leave no gap.\<close>

lemma replay_contiguous:
  assumes "replay_loop sha sl index bs e = ReplayOk e'" "en_policy e = pol" "en_epoch e \<noteq> None"
    "index = 0 \<longrightarrow> ep_local (ep e) = sl"
    "index = 0 \<longrightarrow> (case bs of [] \<Rightarrow> True | b # _ \<Rightarrow> p_first pol sl (bf_event b) = SequenceApply)"
  defines "us \<equiv> \<lambda>e bs. fresh_updates (ep_local (ep e)) (map bf_event bs)"
  shows "contiguous (ep_local (ep e)) (us e bs) (ep_local (ep e')) \<and>
    apply_all (en_config e) (ep_book (ep e)) (us e bs) = Inr (ep_book (ep e')) \<and> same_origin e e'"
  using assms(1-5) unfolding us_def
proof (induction bs arbitrary: index e)
  case Nil
  then show ?case by (auto simp: replay_loop.simps same_origin_def)
next
  case (Cons b bs)
  let ?ev = "bf_event b"
  obtain p where p: "en_epoch e = Some p" using Cons.prems(3) by auto
  let ?act = "if index = 0 then p_first pol sl ?ev else p_next pol (ep_local (ep e)) ?ev"
  show ?case
  proof (cases ?act)
    case SequenceApply
    obtain bk where bk: "applyEventAtomically (en_config e) (ep_book (ep e)) ?ev = Inr bk"
      using Cons.prems(1,2) SequenceApply
      by (cases "index = 0") (auto simp: replay_loop.simps Let_def split: sum.splits)
    let ?e1 = "acceptInput ?ev True (set_ep (\<lambda>p. p\<lparr>ep_book := bk, ep_local := bu_last ?ev\<rparr>) e)"
    have r: "replay_loop sha sl (Suc index) bs ?e1 = ReplayOk e'"
      using Cons.prems(1,2) SequenceApply bk by (cases "index = 0") (simp_all add: replay_loop.simps Let_def)
    have l: "ep_local (ep ?e1) = bu_last ?ev" "ep_book (ep ?e1) = bk"
      unfolding acceptInput_ep using p by (simp_all add: ep_def)
    have o1: "same_origin e ?e1" using p
      by (intro same_origin_trans [OF _ same_origin_accept]) (simp add: same_origin_def ep_def)
    have c: "en_policy ?e1 = pol" "en_epoch ?e1 \<noteq> None" "en_config ?e1 = en_config e" using Cons.prems(2) p by simp_all
    have us: "contiguous (bu_last ?ev) (fresh_updates (bu_last ?ev) (map bf_event bs)) (ep_local (ep e'))"
      "apply_all (en_config e) bk (fresh_updates (bu_last ?ev) (map bf_event bs)) = Inr (ep_book (ep e'))" "same_origin ?e1 e'"
      using Cons.IH [OF r c(1,2)] unfolding l c(3) by simp_all
    have "unat (bu_first ?ev) \<le> unat (ep_local (ep e)) + 1 \<and> ep_local (ep e) < bu_last ?ev"
      using SequenceApply first_apply next_apply Cons.prems(4) by (auto split: if_splits)
    with us bk same_origin_trans [OF o1 us(3)] show ?thesis by auto
  next
    case SequenceStale
    have r: "replay_loop sha sl (Suc index) bs (acceptInput ?ev False e) = ReplayOk e'"
      using Cons.prems(1,2) SequenceStale by (cases "index = 0") (simp_all add: replay_loop.simps Let_def)
    have "index \<noteq> 0" using SequenceStale Cons.prems(5) by (intro notI) simp
    then have "bu_last ?ev \<le> ep_local (ep e)" using SequenceStale next_stale by simp
    moreover from Cons.IH [OF r] Cons.prems(2,3)
    have us: "contiguous (ep_local (ep e)) (fresh_updates (ep_local (ep e)) (map bf_event bs)) (ep_local (ep e'))"
      "apply_all (en_config e) (ep_book (ep e)) (fresh_updates (ep_local (ep e)) (map bf_event bs)) = Inr (ep_book (ep e'))"
      "same_origin (acceptInput ?ev False e) e'" by auto
    ultimately show ?thesis using same_origin_trans [OF same_origin_accept us(3)] by simp
  next
    case SequenceGap
    with Cons.prems(1,2) show ?thesis by (cases "index = 0") (simp_all add: replay_loop.simps Let_def)
  next
    case SequenceOther
    with known show ?thesis by (simp split: if_splits)
  qed
qed

lemma seed_from_reconstructs:
  assumes "buffering_ok sha e" "en_policy e = pol" "seed_from sha snap e = (e', r, err)" "rs_output r = Some out"
  shows "reconstructs (en_config e) snap (map bf_event (ep_buffer (ep e))) out"
proof -
  obtain start where start: "prepareSnapshot (en_config e) snap = Inr start"
    using assms(3,4) by (cases "prepareSnapshot (en_config e) snap") (auto simp: seed_from_def dest!: closing_no_output)
  define e1 where "e1 = discardSnapshotStale (so_last snap) e"
  note d = discardSnapshotStale_spec [OF buffering_inner [OF assms(1)] e1_def]
  obtain b bs where bs: "ep_buffer (ep e1) = b # bs"
    using assms(3,4) start by (cases "ep_buffer (ep e1)") (auto simp: seed_from_def Let_def e1_def [symmetric])
  have pol1: "en_policy e1 = pol" using d assms(2) by simp
  have first: "p_first pol (so_last snap) (bf_event b) = SequenceApply"
  proof (rule ccontr)
    assume "p_first pol (so_last snap) (bf_event b) \<noteq> SequenceApply"
    then have "splitBuffered sha 0 CloseSeedBoundary [ErrBoundary] e1 = (e', r, err)"
      using assms(3) start bs pol1 by (simp add: seed_from_def Let_def e1_def [symmetric])
    then show False using splitBuffered_no_output assms(4) by fastforce
  qed
  define e2 where "e2 = transition StateSeeded (so_coordinate snap) True
      (set_ep (\<lambda>p. p\<lparr>ep_book := start, ep_local := so_last snap,
                          ep_evidence := (ep_evidence p)\<lparr>ev_initial_id := so_identity snap,
                            ev_initial_raw := so_coordinate snap, ev_has_initial := True\<rparr>\<rparr>) e1)"
  obtain p where p: "en_epoch e1 = Some p" using d by (auto simp: inner_ok_def)
  have e2: "ep_local (ep e2) = so_last snap" "ep_book (ep e2) = start" "en_epoch e2 \<noteq> None" "en_policy e2 = pol"
    "ev_initial_id (evd e2) = so_identity snap" "ev_initial_raw (evd e2) = so_coordinate snap" "en_config e2 = en_config e"
    using p d assms(2) by (simp_all add: e2_def ep_def)
  have split: "seed_from sha snap e = (case replay_loop sha (so_last snap) 0 (b # bs) e2 of
      ReplayReturn out \<Rightarrow> out
    | ReplayOk e3 \<Rightarrow> let e4 = set_ep (\<lambda>p. p\<lparr>ep_pending := None\<rparr>) (clearBuffer e3);
           e5 = transition StateLive (ev_last_accepted (evd e4)) True e4
       in (case emit sha e5 of
             (e6, Inl err) \<Rightarrow> failCurrent CloseOutputLimit err e6
           | (e6, Inr output) \<Rightarrow> (e6, (plain_result (en_state e6))\<lparr>rs_output := Some output,
                                    rs_fetches := ev_fetches (evd e6)\<rparr>, [])))"
    using start bs first pol1 by (simp add: seed_from_def Let_def e1_def [symmetric] e2_def)
  obtain e3 where e3: "replay_loop sha (so_last snap) 0 (b # bs) e2 = ReplayOk e3"
    using split assms(3,4) replay_no_output [of sha "so_last snap" 0 "b # bs" e2]
    by (cases "replay_loop sha (so_last snap) 0 (b # bs) e2") auto
  let ?us = "fresh_updates (so_last snap) (map bf_event (ep_buffer (ep e)))"
  have drop: "b # bs = dropWhile (\<lambda>b. bu_last (bf_event b) \<le> so_last snap) (ep_buffer (ep e))" using bs d by simp
  have fresh: "fresh_updates (so_last snap) (map bf_event (b # bs)) = ?us"
    unfolding drop using fresh_dropWhile [of "so_last snap" "map bf_event (ep_buffer (ep e))"] by (simp add: dropWhile_map o_def)
  have us: "contiguous (so_last snap) ?us (ep_local (ep e3))"
    "apply_all (en_config e) start ?us = Inr (ep_book (ep e3))" "same_origin e2 e3"
    using replay_contiguous [OF e3 e2(4,3)] e2 first unfolding fresh [symmetric] by auto
  have "\<not> bu_last (bf_event b) \<le> so_last snap" using first_apply [OF first] by (simp add: not_le)
  then have some: "?us \<noteq> []" unfolding fresh [symmetric] by simp
  define e5 where "e5 = transition StateLive (ev_last_accepted (evd (set_ep (\<lambda>p. p\<lparr>ep_pending := None\<rparr>) (clearBuffer e3)))) True
      (set_ep (\<lambda>p. p\<lparr>ep_pending := None\<rparr>) (clearBuffer e3))"
  have e5: "ep_book (ep e5) = ep_book (ep e3)" "ep_local (ep e5) = ep_local (ep e3)" "same_origin e3 e5"
    by (auto simp: e5_def ep_def clearBuffer_def same_origin_def split: option.splits)
  obtain e6 res where res: "emit sha e5 = (e6, res)" by fastforce
  have "seed_from sha snap e = (case emit sha e5 of
        (e6, Inl err) \<Rightarrow> failCurrent CloseOutputLimit err e6
      | (e6, Inr output) \<Rightarrow> (e6, (plain_result (en_state e6))\<lparr>rs_output := Some output,
                                    rs_fetches := ev_fetches (evd e6)\<rparr>, []))"
    unfolding split e3 replay.case Let_def e5_def by (rule refl)
  then have eq: "(e', r, err) = (case res of
        Inl err \<Rightarrow> failCurrent CloseOutputLimit err e6
      | Inr output \<Rightarrow> (e6, (plain_result (en_state e6))\<lparr>rs_output := Some output,
                                    rs_fetches := ev_fetches (evd e6)\<rparr>, []))"
    using assms(3) res by simp
  have em: "emit sha e5 = (e6, Inr out)"
  proof (cases res)
    case (Inl err2)
    with eq have "failCurrent CloseOutputLimit err2 e6 = (e', r, err)" by simp
    from closing_no_output [OF this] assms(4) show ?thesis by simp
  next
    case (Inr emitted)
    with eq assms(4) res show ?thesis by simp
  qed
  show ?thesis
    unfolding reconstructs_def
    using start us some emit_output [OF em] e5 e2(5,6)
    by (intro exI [of _ start] exI [of _ "ep_book (ep e3)"]) (simp add: same_origin_def)
qed

lemma seed_loop_reconstructs:
  assumes "buffering_ok sha e" "en_policy e = pol" "\<And>k. small (fo_obs (fetch k))"
    "seed_loop sha fetch n e = (e', r, err)" "rs_output r = Some out"
  shows "\<exists>k. chosen (p_behind pol) (candidate (\<lambda>i. fetch (n + i)) e) (bu_first (bf_event (hd (ep_buffer (ep e))))) k \<and>
    reconstructs (en_config e) (candidate (\<lambda>i. fetch (n + i)) e k) (map bf_event (ep_buffer (ep e))) out"
  using assms
proof (induction sha fetch n e rule: seed_loop.induct)
  case (1 sha fetch n e)
  obtain p where p: "en_epoch e = Some p"
    using buffering_inner [OF "1.prems"(1)] by (auto simp: inner_ok_def)
  obtain e1 res where f: "fetch_snapshot sha (fetch n) e = (e1, res)" by fastforce
  note ok = fetch_snapshot_ok [OF "1.prems"(1) "1.prems"(3) [of n] f] and fields = fetch_snapshot_fields [OF f]
  let ?c = "candidate (\<lambda>i. fetch (n + i)) e" and ?first = "bu_first (bf_event (hd (ep_buffer (ep e))))"
  show ?case
  proof (cases "seed_iteration sha (fetch n) e")
    case (SeedReturn ret)
    then have ret: "ret = (e', r, err)"
      using "1.prems"(4) p by (simp add: seed_loop.simps [of sha fetch n e])
    obtain snap where snap: "res = Inr snap" "seed_from sha snap e1 = (e', r, err)" "\<not> p_behind pol (so_last snap) ?first"
    proof (cases res)
      case (Inl x)
      then have "seed_error x e1 = (e', r, err)" using SeedReturn ret f by (simp add: seed_iteration_def)
      then show ?thesis using "1.prems"(5) seed_error_no_output by fastforce
    next
      case (Inr snap)
      then have "seed_from sha snap e1 = (e', r, err) \<and> \<not> p_behind pol (so_last snap) ?first \<or>
          failCurrent CloseSnapshotLimit [ErrSnapshotLimit] (mark_behind e1) = (e', r, err)"
        using SeedReturn ret f fields "1.prems"(2) by (auto simp: seed_iteration_def Let_def split: if_splits)
      then show ?thesis using that Inr "1.prems"(5) closing_no_output by fastforce
    qed
    have c: "?c 0 = snap" using candidate_first f snap(1) by blast
    have "reconstructs (en_config e) (?c 0) (map bf_event (ep_buffer (ep e))) out"
      using seed_from_reconstructs [OF _ _ snap(2) "1.prems"(5)] ok fields "1.prems"(2) c by auto
    then show ?thesis using snap(3) c by (intro exI [of _ 0]) (simp add: chosen_def)
  next
    case (SeedAgain e2)
    obtain snap where e2: "e2 = mark_behind e1" "res = Inr snap" "p_behind pol (so_last snap) ?first"
      using SeedAgain f fields "1.prems"(2) by (cases res) (auto simp: seed_iteration_def Let_def split: if_splits)
    let ?n = "if ep_pending (ep e) = None then Suc n else n"
    have loop: "seed_loop sha fetch ?n e2 = (e', r, err)"
      using "1.prems"(4) SeedAgain p by (simp add: seed_loop.simps [of sha fetch n e])
    have c0: "?c 0 = snap" using candidate_first f e2(2) by blast
    have "buffering_ok sha e2" using mark_behind_ok ok e2 by simp
    moreover have same: "en_policy e2 = pol" "en_config e2 = en_config e" "ep_buffer (ep e2) = ep_buffer (ep e)" "ep_pending (ep e2) = None"
      using e2 fields ok "1.prems"(2) by simp_all
    ultimately obtain k where k: "chosen (p_behind pol) (candidate (\<lambda>i. fetch (?n + i)) e2) ?first k"
      "reconstructs (en_config e) (candidate (\<lambda>i. fetch (?n + i)) e2 k) (map bf_event (ep_buffer (ep e))) out"
      using "1.IH" [OF _ SeedAgain] p loop "1.prems"(3,5) by auto
    have later: "candidate (\<lambda>i. fetch (?n + i)) e2 j = ?c (Suc j)" for j by (rule candidate_later [OF same(4)])
    have "chosen (p_behind pol) ?c ?first (Suc k)"
      using k(1) e2(3) c0 unfolding chosen_def later by (metis less_Suc_eq_0_disj)
    then show ?thesis using k(2) unfolding later by blast
  qed
qed

lemma Seed_reconstructs:
  assumes "engine_ok sha e" "en_policy e = pol" "\<And>k. small (fo_obs (fetch k))"
    "Seed sha fetch ctx e = (e', r, err)" "rs_output r = Some out"
  shows "\<exists>k. chosen (p_behind pol) (candidate fetch e) (bu_first (bf_event (hd (ep_buffer (ep e))))) k \<and>
    reconstructs (en_config e) (candidate fetch e k) (map bf_event (ep_buffer (ep e))) out"
proof -
  have "cancel x e = (e', r, err) \<Longrightarrow> False" for x
    using assms(5) by (auto simp: cancel_def split: prod.splits dest!: closing_no_output)
  then have "buffering_ok sha e" "seed_loop sha fetch 0 e = (e', r, err)"
    using assms(1,4,5) by (auto simp: Seed_def Let_def buffering_ok_def split: if_splits)
  from seed_loop_reconstructs [OF this(1) assms(2,3) this(2) assms(5)] show ?thesis by simp
qed

end

end
