(* ===== verification/SpotBook.thy ===== *)
theory SpotBook
  imports EngineSpec
begin

text \<open>
  \<open>src/binance/spot_book.go\<close>: the sequence policy of Binance Spot diff-depth
  streams and the \<open>SpotBook\<close> wrapper around the engine.  The policy is an
  instance of the contract \<open>sequence_policy\<close>, so the books it reconstructs are
  contiguous in update ids.  The properties of the engine are stated here, with
  runs of the Spot book as their concrete instances.

  \<open>ParseSpotBookSnapshot\<close> decodes JSON and is not modelled; the snapshot fetcher
  stays a parameter.
\<close>

subsection \<open>The policy\<close>

definition SpotBookPolicyName :: string where "SpotBookPolicyName = ''binance-spot-diff-depth''"
definition SpotBookPolicyVersion :: string where
  "SpotBookPolicyVersion = ''binance.spot.diff-depth.reconstruction.v1''"

definition spot_SnapshotBehind :: "u64 \<Rightarrow> u64 \<Rightarrow> bool" where
  "spot_SnapshotBehind snapshotLast firstBuffered \<longleftrightarrow>
     snapshotLast \<noteq> max_u64 \<and> snapshotLast + 1 < firstBuffered"

definition spot_First :: "u64 \<Rightarrow> book_update \<Rightarrow> seq_action" where
  "spot_First snapshotLast update =
     (if bu_last update \<le> snapshotLast then SequenceStale
      else if snapshotLast = max_u64 then SequenceStale
      else let boundary = snapshotLast + 1 in
        if bu_first update \<le> boundary \<and> boundary \<le> bu_last update then SequenceApply else SequenceGap)"

definition spot_Next :: "u64 \<Rightarrow> book_update \<Rightarrow> seq_action" where
  "spot_Next localLast update =
     (if bu_last update \<le> localLast then SequenceStale
      else if localLast = max_u64 then SequenceStale
      else if bu_first update > localLast + 1 then SequenceGap
      else SequenceApply)"

definition spotBookSequencePolicy :: seq_policy where
  "spotBookSequencePolicy = \<lparr>p_name = SpotBookPolicyName, p_version = SpotBookPolicyVersion,
     p_behind = spot_SnapshotBehind, p_first = spot_First, p_next = spot_Next\<rparr>"

subsection \<open>The wrapper\<close>

definition SpotSourceID :: string where "SpotSourceID = ''7d1e8644-35af-5fd7-b0ba-3bf1b59ac6fc''"
definition SpotRawChannel :: string where "SpotRawChannel = ''ws.spot.raw.v1''"
definition SpotDepthChannel :: string where "SpotDepthChannel = ''rest.depth.v3''"

record spot_config =
  sc_instrument :: instrument_identity
  sc_catalog :: hash
  sc_mapper_version :: string
  sc_binding :: hash
  sc_bounds :: bounds

definition zero_bounds :: bounds where
  "zero_bounds = \<lparr>b_messages = 0, b_bytes = 0, b_span = 0, b_levels = 0, b_snapshot_bytes = 0,
     b_fetches = 0, b_outputs = 0\<rparr>"

definition DefaultSpotBookBounds :: bounds where
  "DefaultSpotBookBounds = \<lparr>b_messages = 4096, b_bytes = 33554432, b_span = 10000000000, b_levels = 5000,
     b_snapshot_bytes = 1048576, b_fetches = 3, b_outputs = 1000000\<rparr>"

definition NewSpotBook :: "(bytes \<Rightarrow> hash) \<Rightarrow> spot_config \<Rightarrow> bool \<Rightarrow> errs + engine" where
  "NewSpotBook sha sc has_fetcher =
     (let bnd = (if sc_bounds sc = zero_bounds then DefaultSpotBookBounds else sc_bounds sc) in
      case New sha \<lparr>cfg_source = SpotSourceID, cfg_update_channel = SpotRawChannel,
             cfg_snapshot_channel = SpotDepthChannel, cfg_instrument = sc_instrument sc,
             cfg_catalog = sc_catalog sc, cfg_mapper_version = sc_mapper_version sc,
             cfg_binding = sc_binding sc, cfg_reject_crossed = True, cfg_bounds = bnd\<rparr>
             (Some spotBookSequencePolicy) has_fetcher of
        Inl err \<Rightarrow> Inl (ForeignError ''ErrSpotBook'' # err)
      | Inr e \<Rightarrow> Inr e)"

text \<open>A nil book or a book without an engine is \<open>None\<close>.\<close>

type_synonym spot_outcome = "engine option \<times> result \<times> errs"

definition on_book :: "(engine \<Rightarrow> outcome) \<Rightarrow> engine option \<Rightarrow> spot_outcome" where
  "on_book f b = (case b of
     None \<Rightarrow> (None, plain_result StateClosed, [ErrClosed])
   | Some e \<Rightarrow> (case f e of (e', r, err) \<Rightarrow> (Some e', r, err)))"

definition SpotBook_State :: "engine option \<Rightarrow> state" where
  "SpotBook_State b = (case b of None \<Rightarrow> StateClosed | Some e \<Rightarrow> en_state e)"

definition SpotBook_PolicyID :: "engine option \<Rightarrow> hash" where
  "SpotBook_PolicyID b = (case b of None \<Rightarrow> zero_hash | Some e \<Rightarrow> en_policy_id e)"

definition SpotBook_Buffered :: "engine option \<Rightarrow> u32 \<times> u64" where
  "SpotBook_Buffered b = (case b of None \<Rightarrow> (0, 0) | Some e \<Rightarrow> Buffered e)"

definition SpotBook_CurrentEvidence :: "engine option \<Rightarrow> evidence \<times> bool" where
  "SpotBook_CurrentEvidence b = (case b of None \<Rightarrow> (zero_evidence, False) | Some e \<Rightarrow> CurrentEvidence e)"

definition SpotBook_Accept :: "(bytes \<Rightarrow> hash) \<Rightarrow> ctx \<Rightarrow> book_update \<Rightarrow> u64 \<Rightarrow> engine option \<Rightarrow> spot_outcome" where
  "SpotBook_Accept sha ctx update n = on_book (Accept sha ctx update n)"

definition SpotBook_Seed :: "(bytes \<Rightarrow> hash) \<Rightarrow> (nat \<Rightarrow> fetch_outcome) \<Rightarrow> ctx \<Rightarrow> engine option \<Rightarrow> spot_outcome" where
  "SpotBook_Seed sha fetch ctx = on_book (Seed sha fetch ctx)"

definition SpotBook_Discontinuity :: "ctx \<Rightarrow> engine option \<Rightarrow> spot_outcome" where
  "SpotBook_Discontinuity ctx = on_book (Discontinuity ctx)"

definition SpotBook_Close :: "ctx \<Rightarrow> engine option \<Rightarrow> spot_outcome" where
  "SpotBook_Close ctx = on_book (Close ctx)"

subsection \<open>The policy meets the contract\<close>

interpretation spot: sequence_policy spotBookSequencePolicy
proof
  fix s :: u64 and u :: book_update
  show "p_first spotBookSequencePolicy s u = SequenceApply \<Longrightarrow>
      unat (bu_first u) \<le> unat s + 1 \<and> s < bu_last u"
    by (auto simp: spotBookSequencePolicy_def spot_First_def Let_def word_le_nat_alt not_le
        word_less_nat_alt word_succ_no_wrap split: if_splits)
  show "p_next spotBookSequencePolicy s u = SequenceApply \<Longrightarrow>
      unat (bu_first u) \<le> unat s + 1 \<and> s < bu_last u"
    by (auto simp: spotBookSequencePolicy_def spot_Next_def not_less word_le_nat_alt not_le
        word_less_nat_alt word_succ_no_wrap split: if_splits)
  show "p_next spotBookSequencePolicy s u = SequenceStale \<Longrightarrow> bu_last u \<le> s"
    by (auto simp: spotBookSequencePolicy_def spot_Next_def split: if_splits)
  show "p_first spotBookSequencePolicy s u \<noteq> SequenceOther"
    by (simp add: spotBookSequencePolicy_def spot_First_def Let_def)
  show "p_next spotBookSequencePolicy s u \<noteq> SequenceOther"
    by (simp add: spotBookSequencePolicy_def spot_Next_def)
qed

subsection \<open>A run of the Spot book\<close>

definition sha7 :: "bytes \<Rightarrow> hash" where
  "sha7 b = replicate 32 7"

definition run_new :: engine where
  "run_new = (case New sha7 sample_config (Some spotBookSequencePolicy) True of Inr e \<Rightarrow> e
     | Inl _ \<Rightarrow> \<lparr>en_config = sample_config, en_policy = spotBookSequencePolicy, en_policy_id = [],
         en_state = StateClosed, en_epoch = None, en_parent = [], en_terminal = True, en_restart = False\<rparr>)"

definition run_buffered :: engine where
  "run_buffered = fst (Accept sha7 (Ctx []) sample_event 10 run_new)"

definition run_fetch :: "nat \<Rightarrow> fetch_outcome" where
  "run_fetch k = \<lparr>fo_ctx = [], fo_err = [], fo_obs = sample_snapshot\<rparr>"

definition run_live :: engine where
  "run_live = fst (Seed sha7 run_fetch (Ctx []) run_buffered)"

definition run_update :: book_update where
  "run_update = sample_update 2 13 14 [] [sample_level SideSell 0 ''101'' ''0'']"

definition run_closed :: engine where
  "run_closed = fst (Close (Ctx []) run_live)"

lemma run_reach_new: "engine_reach sha7 sample_config spotBookSequencePolicy run_new"
proof (rule reach_new)
  show "New sha7 sample_config (Some spotBookSequencePolicy) True = Inr run_new"
  proof -
    have "validateConfig sample_config (Some spotBookSequencePolicy) True" by code_simp
    then show ?thesis by (simp add: run_new_def New_def)
  qed
qed

lemma run_reach_buffered: "engine_reach sha7 sample_config spotBookSequencePolicy run_buffered"
proof -
  have "md_received (bu_meta sample_event) < 2 ^ 63"
    by (simp add: sample_event_def sample_update_def sample_metadata_def)
  then show ?thesis unfolding run_buffered_def by (rule reach_accept [OF run_reach_new])
qed

lemma run_fetch_small: "small (fo_obs (run_fetch k))"
  by (simp add: small_def run_fetch_def sample_snapshot_def)

lemma run_reach_live: "engine_reach sha7 sample_config spotBookSequencePolicy run_live"
  unfolding run_live_def by (rule reach_seed [OF run_reach_buffered run_fetch_small])

lemma run_reach_closed: "engine_reach sha7 sample_config spotBookSequencePolicy run_closed"
  unfolding run_closed_def by (rule reach_close [OF run_reach_live])

subsection \<open>Properties of the engine\<close>

text \<open>
  C9. Every engine that \<open>New\<close> and any sequence of \<open>Accept\<close>, \<open>Seed\<close>, \<open>Discontinuity\<close> and
  \<open>Close\<close> calls can produce satisfies the engine's invariant: its state is
  never \<open>SEEDED\<close> or \<open>GAP\<close> between calls, a buffering epoch holds validated
  updates of one raw connection in strictly increasing order within the message,
  byte and time bounds with exact totals, a live epoch has an empty buffer and a
  canonical, bounded and uncrossed book, the fetch and output counts are within
  their bounds, accepted messages are the applied and the stale ones, and the
  configuration, policy and policy identity never change.
\<close>

theorem engine_reachable_invariant:
  assumes "engine_reach sha cfg pol e"
  shows "engine_ok sha e \<and> en_config e = cfg \<and> en_policy e = pol \<and>
     en_policy_id e = policyIdentity sha cfg (p_name pol) (p_version pol)"
  using assms by (rule reach_ok)

theorem engine_reachable_invariant_witness:
  "engine_reach sha7 sample_config spotBookSequencePolicy run_live \<and> en_state run_live = StateLive \<and>
   engine_ok sha7 run_live"
proof -
  have "en_state run_live = StateLive" by code_simp
  with engine_reachable_invariant [OF run_reach_live] run_reach_live show ?thesis by simp
qed

text \<open>
  C12. What every call owes its caller: on a reachable engine each of \<open>Accept\<close>, \<open>Seed\<close>,
  \<open>Discontinuity\<close> and \<open>Close\<close> reports the state it leaves, reports the epochs it closed
  as an unbroken parent chain that ends in the engine's parent identity, and
  returns at most an output that is valid, strictly ordered on both sides,
  positive, within the level bound, uncrossed when that is required, and
  stamped with the sequence, ordinal, epoch and hash the engine then records.
\<close>

theorem engine_operations_sound:
  assumes "engine_reach sha cfg pol e" "md_received (bu_meta event) < 2 ^ 63"
    and "\<And>k. small (fo_obs (fetch k))"
  shows "good sha e (Accept sha ctx event n e) \<and> good sha e (Seed sha fetch ctx e) \<and>
    good sha e (Discontinuity ctx e) \<and> good sha e (Close ctx e)"
proof -
  have "engine_ok sha e" using reach_ok [OF assms(1)] by simp
  with assms(2,3) show ?thesis
    by (simp add: Accept_good Seed_good Discontinuity_good Close_good)
qed

theorem engine_operations_sound_witness:
  "good sha7 run_live (Accept sha7 (Ctx []) run_update 5 run_live) \<and>
   rs_output (fst (snd (Accept sha7 (Ctx []) run_update 5 run_live))) \<noteq> None"
proof -
  have "md_received (bu_meta run_update) < 2 ^ 63"
    by (simp add: run_update_def sample_update_def sample_metadata_def)
  from engine_operations_sound [OF run_reach_live this run_fetch_small, of "Ctx []" 5]
  have "good sha7 run_live (Accept sha7 (Ctx []) run_update 5 run_live)" by simp
  moreover have "rs_output (fst (snd (Accept sha7 (Ctx []) run_update 5 run_live))) \<noteq> None" by code_simp
  ultimately show ?thesis by simp
qed

text \<open>
  A terminal engine absorbs: after \<open>Close\<close> or a cancelled call, no call changes
  anything, every call reports the closed state with no output and no closed
  epoch, and every call but \<open>Close\<close> returns an error.
\<close>

theorem terminal_absorbing:
  assumes "engine_reach sha cfg pol e" "en_terminal e"
  shows "(\<exists>err. Accept sha ctx event n e = (e, plain_result StateClosed, err) \<and> err \<noteq> []) \<and>
    (\<exists>err. Seed sha fetch ctx e = (e, plain_result StateClosed, err) \<and> err \<noteq> []) \<and>
    (\<exists>err. Discontinuity ctx e = (e, plain_result StateClosed, err) \<and> err \<noteq> []) \<and>
    (\<exists>err. Close ctx e = (e, plain_result StateClosed, err))"
proof -
  have ok: "engine_ok sha e" using reach_ok [OF assms(1)] by simp
  show ?thesis
    using terminal_ops [OF ok assms(2)] by blast
qed

theorem terminal_absorbing_witness:
  "en_terminal run_closed \<and>
   (\<exists>err. Accept sha7 (Ctx []) run_update 5 run_closed = (run_closed, plain_result StateClosed, err) \<and> err \<noteq> [])"
proof -
  have t: "en_terminal run_closed" by code_simp
  from terminal_absorbing [OF run_reach_closed this, of "Ctx []" run_update 5] t show ?thesis by blast
qed

text \<open>
  C14. \<open>Seed\<close> terminates after at most the fetches that are left to the epoch: its result
  depends only on the first \<open>MaxSnapshotFetches - SnapshotFetches\<close> answers of the
  fetcher, whatever the fetcher would answer afterwards.
\<close>

theorem seed_fetch_bound:
  assumes "\<And>k. k < fetch_budget e \<Longrightarrow> fetch k = fetch' k"
  shows "Seed sha fetch ctx e = Seed sha fetch' ctx e"
proof -
  have "seed_loop sha fetch 0 e = seed_loop sha fetch' 0 e"
    using assms by (intro seed_loop_budget) simp
  then show ?thesis unfolding Seed_def by (simp only:)
qed

theorem seed_fetch_bound_witness:
  "fetch_budget run_buffered = 2 \<and>
   Seed sha7 run_fetch (Ctx []) run_buffered =
   Seed sha7 (\<lambda>k. if k < 2 then run_fetch k else (run_fetch k)\<lparr>fo_err := [ErrClosed]\<rparr>) (Ctx []) run_buffered"
proof -
  have b: "fetch_budget run_buffered = 2" by code_simp
  have "run_fetch k = (if k < 2 then run_fetch k else (run_fetch k)\<lparr>fo_err := [ErrClosed]\<rparr>)"
    if "k < fetch_budget run_buffered" for k using that b by simp
  from b seed_fetch_bound [OF this] show ?thesis by simp
qed

text \<open>
  Splitting an epoch at a gap loses nothing: \<open>splitBuffered\<close> closes the epoch with the
  given reason, starts a new one, and every remaining buffered update, from the
  gap on, is in the new buffer in order; the refill never overflows a bound, so
  the error is exactly the cause.
\<close>

theorem split_lossless:
  assumes "inner_ok sha e" "index < length (ep_buffer (ep e))" "reason \<noteq> []"
  shows "\<exists>e' closed. splitBuffered sha index reason cause e =
      (e', (plain_result StateBuffering)\<lparr>rs_closed := [closed]\<rparr>, cause) \<and>
    good sha e (splitBuffered sha index reason cause e) \<and> en_state e' = StateBuffering \<and>
    ep_buffer (ep e') = drop index (ep_buffer (ep e)) \<and> ev_reason closed = reason"
  using assms by (rule splitBuffered_spec)

theorem split_lossless_witness:
  "\<exists>e' closed. splitBuffered sha7 0 CloseSeedBoundary [ErrBoundary] run_buffered =
      (e', (plain_result StateBuffering)\<lparr>rs_closed := [closed]\<rparr>, [ErrBoundary]) \<and>
    ep_buffer (ep e') = [\<lparr>bf_event = sample_event, bf_bytes = 10\<rparr>]"
proof -
  have "engine_ok sha7 run_buffered" using reach_ok [OF run_reach_buffered] by simp
  moreover have "en_epoch run_buffered \<noteq> None" "en_state run_buffered \<noteq> StateClosed" by code_simp+
  ultimately have i: "inner_ok sha7 run_buffered" by (rule inner_okI)
  have buf: "ep_buffer (ep run_buffered) = [\<lparr>bf_event = sample_event, bf_bytes = 10\<rparr>]" by code_simp
  have "0 < length (ep_buffer (ep run_buffered))" "CloseSeedBoundary \<noteq> []" by (simp_all add: buf)
  from split_lossless [OF i this, of "[ErrBoundary]"] show ?thesis by (auto simp: buf)
qed

text \<open>
  C11. A live output is exact.  When \<open>Accept\<close> on a reachable Spot engine returns an
  output, the engine was live, the update continues the sequence without a gap
  (its first id is at most one past the local id and its last id is beyond it), the new
  book is \<open>applyEventAtomically\<close> of the old one, and the output is the projection of
  that book at the update's last id.
\<close>

theorem spot_live_output_exact:
  assumes "engine_reach sha cfg spotBookSequencePolicy e"
    and "Accept sha ctx event n e = (e', r, err)" "rs_output r = Some out"
  shows "en_state e = StateLive \<and> contiguous (ep_local (ep e)) [event] (bk_last out) \<and>
    applyEventAtomically cfg (ep_book (ep e)) event = Inr (ep_book (ep e')) \<and>
    bk_bids out = projectedLevels (bs_bids (ep_book (ep e'))) True \<and>
    bk_asks out = projectedLevels (bs_asks (ep_book (ep e'))) False"
proof -
  have ok: "engine_ok sha e" "en_config e = cfg" "en_policy e = spotBookSequencePolicy"
    using reach_ok [OF assms(1)] by auto
  note live = Accept_output(1) [OF ok(1) assms(2,3)]
  obtain r' where a: "acceptLive sha event n e = (e', r', err)" "rs_output r' = Some out"
    using Accept_output(2) [OF ok(1) assms(2,3)] by blast
  have "en_state e = StateLive" using live by (simp add: live_ok_def)
  with acceptLive_output [OF live a] spot.live_contiguous [OF live ok(3) a] ok(2)
  show ?thesis by simp
qed

theorem spot_live_output_exact_witness:
  "\<exists>e' r err out. Accept sha7 (Ctx []) run_update 5 run_live = (e', r, err) \<and> rs_output r = Some out \<and>
     contiguous 12 [run_update] (bk_last out) \<and> bk_asks out = []"
proof -
  obtain e' r err where a: "Accept sha7 (Ctx []) run_update 5 run_live = (e', r, err)" using prod_cases3 by blast
  have "rs_output (fst (snd (Accept sha7 (Ctx []) run_update 5 run_live))) \<noteq> None" by code_simp
  then obtain out where out: "rs_output r = Some out" using a by auto
  have "ep_local (ep run_live) = 12" by code_simp
  moreover have "map_option bk_asks (rs_output (fst (snd (Accept sha7 (Ctx []) run_update 5 run_live)))) = Some []"
    by code_simp
  ultimately show ?thesis using spot_live_output_exact [OF run_reach_live a out] a out by auto
qed

lemma spot_behind: "spot_SnapshotBehind s f \<longleftrightarrow> unat s + 1 < unat f"
proof (cases "s = max_u64")
  case True
  then have "unat s + 1 = 2 ^ 64" by (simp add: unsigned_minus_1_eq_mask mask_eq_exp_minus_1)
  then show ?thesis using True unat_bound [of f] by (simp add: spot_SnapshotBehind_def)
next
  case False
  then show ?thesis by (simp add: spot_SnapshotBehind_def word_less_nat_alt word_succ_no_wrap)
qed

text \<open>
  C10. Seeding reconstructs the book.  When \<open>Seed\<close> on a reachable Spot engine returns an
  output, that output is made from one snapshot: the first, among the pending one and
  those fetched in order, that is not behind the first buffered update.  The output
  carries its identity and raw coordinate, and its levels are those of the snapshot with
  every buffered update beyond it applied, in buffer order, none left out and none
  twice; these updates leave no gap from the snapshot's last id to the output's.
\<close>

theorem spot_seed_reconstructs:
  assumes "engine_reach sha cfg spotBookSequencePolicy e" "\<And>k. small (fo_obs (fetch k))"
    and "Seed sha fetch ctx e = (e', r, err)" "rs_output r = Some out"
  shows "\<exists>k. (\<forall>j < k. unat (so_last (candidate fetch e j)) + 1 < unat (bu_first (bf_event (hd (ep_buffer (ep e)))))) \<and>
    unat (bu_first (bf_event (hd (ep_buffer (ep e))))) \<le> unat (so_last (candidate fetch e k)) + 1 \<and>
    reconstructs cfg (candidate fetch e k) (map bf_event (ep_buffer (ep e))) out"
proof -
  have "engine_ok sha e" "en_config e = cfg" "en_policy e = spotBookSequencePolicy"
    using reach_ok [OF assms(1)] by auto
  with spot.Seed_reconstructs [OF _ _ assms(2-4)] obtain k
    where k: "chosen spot_SnapshotBehind (candidate fetch e) (bu_first (bf_event (hd (ep_buffer (ep e))))) k"
      "reconstructs cfg (candidate fetch e k) (map bf_event (ep_buffer (ep e))) out"
    by (auto simp: spotBookSequencePolicy_def)
  then show ?thesis by (intro exI [of _ k]) (simp add: chosen_def spot_behind not_less)
qed

theorem spot_seed_reconstructs_witness:
  "\<exists>e' r err out k. Seed sha7 run_fetch (Ctx []) run_buffered = (e', r, err) \<and> rs_output r = Some out \<and>
     reconstructs sample_config (candidate run_fetch run_buffered k) [sample_event] out \<and>
     fresh_updates (so_last sample_snapshot) [sample_event] = [sample_event]"
proof -
  obtain e' r err where a: "Seed sha7 run_fetch (Ctx []) run_buffered = (e', r, err)" using prod_cases3 by blast
  have "rs_output (fst (snd (Seed sha7 run_fetch (Ctx []) run_buffered))) \<noteq> None" by code_simp
  then obtain out where out: "rs_output r = Some out" using a by auto
  have "map bf_event (ep_buffer (ep run_buffered)) = [sample_event]" by code_simp
  moreover have "fresh_updates (so_last sample_snapshot) [sample_event] = [sample_event]" by code_simp
  ultimately show ?thesis using spot_seed_reconstructs [OF run_reach_buffered run_fetch_small a out] a out by auto
qed

end
