(* ===== verification/SideMap.thy ===== *)
theory SideMap
  imports Prelude
begin

text \<open>
  Two interfaces that the venue books share.  \<open>delta_side\<close>: a side of a book is a
  Go map, and a list of levels is applied to it one by one, each level either
  removing its key or storing a value under it; the lemmas give the lookup
  after a list of levels and the facts that do not depend on the map's order.
  \<open>sequenced_book\<close>: a book that is driven by messages, is live or not, and
  promises that while it is live it only moves along linked messages; the lemma
  is that the applied messages of any run that stays live form one chain.
\<close>

subsection \<open>Sides\<close>

locale delta_side =
  fixes apply_levels :: "('k \<times> 'v) list \<Rightarrow> 'l list \<Rightarrow> ('k \<times> 'v) list"
    and key :: "'l \<Rightarrow> 'k" and removes :: "'l \<Rightarrow> bool" and stored :: "'l \<Rightarrow> 'v"
  assumes apply_Nil: "apply_levels m [] = m"
    and apply_Cons: "apply_levels m (l # ls) =
      apply_levels (if removes l then go_delete (key l) m else go_put (key l) (stored l) m) ls"
begin

lemma apply_wf: "wf_map m \<Longrightarrow> wf_map (apply_levels m ls)"
  by (induction ls arbitrary: m) (auto simp: apply_Nil apply_Cons)

lemma apply_append: "apply_levels m (ls @ ls') = apply_levels (apply_levels m ls) ls'"
  by (induction ls arbitrary: m) (auto simp: apply_Nil apply_Cons)

text \<open>The last level with a key decides what the side holds there.\<close>

lemma apply_lookup:
  "go_get (apply_levels m ls) k =
     (case filter (\<lambda>l. key l = k) ls of [] \<Rightarrow> go_get m k
      | ds \<Rightarrow> if removes (last ds) then None else Some (stored (last ds)))"
  by (induction ls arbitrary: m) (auto simp: apply_Nil apply_Cons split: list.splits)

text \<open>A property of the entries that every stored level has is kept.\<close>

lemma apply_all_entries:
  assumes "\<And>k v. go_get m k = Some v \<Longrightarrow> P k v" "\<And>l. l \<in> set ls \<Longrightarrow> \<not> removes l \<Longrightarrow> P (key l) (stored l)"
    and "go_get (apply_levels m ls) k = Some v"
  shows "P k v"
proof (cases "filter (\<lambda>l. key l = k) ls")
  case Nil
  then show ?thesis using assms(1,3) by (simp add: apply_lookup)
next
  case (Cons d ds)
  then have "last (d # ds) \<in> set (filter (\<lambda>l. key l = k) ls)" by (metis last_in_set list.discI)
  then have "last (d # ds) \<in> set ls" "key (last (d # ds)) = k" by auto
  moreover have "\<not> removes (last (d # ds))" "v = stored (last (d # ds))"
    using assms(3) Cons by (auto simp: apply_lookup split: if_splits)
  ultimately show ?thesis using assms(2) by metis
qed

lemma apply_length: "length (apply_levels m ls) \<le> length m + length ls"
proof (induction ls arbitrary: m)
  case (Cons l ls)
  have "length (if removes l then go_delete (key l) m else go_put (key l) (stored l) m) \<le> Suc (length m)"
    using length_go_put_le [of "key l" "stored l" m] length_go_delete_le [of "key l" m] by auto
  with Cons [of "if removes l then go_delete (key l) m else go_put (key l) (stored l) m"]
  show ?case by (simp add: apply_Cons)
qed (simp add: apply_Nil)

text \<open>Two lists of levels that agree on the last level of every key build the same map.\<close>

lemma apply_order_free:
  assumes "wf_map m" "wf_map m'" "go_get m = go_get m'"
  shows "go_get (apply_levels m ls) = go_get (apply_levels m' ls)"
  using assms by (auto simp: apply_lookup fun_eq_iff split: list.splits)

end

subsection \<open>Message-driven books\<close>

text \<open>The states and replies of a run, and what it means for messages to be linked.\<close>

fun run_book :: "('s \<Rightarrow> 'u \<Rightarrow> 's \<times> 'r) \<Rightarrow> 's \<Rightarrow> 'u list \<Rightarrow> 's \<times> ('u \<times> 's \<times> 'r) list" where
  "run_book step s [] = (s, [])"
| "run_book step s (u # us) =
     (let (s1, r) = step s u; (s', log) = run_book step s1 us in (s', (u, s1, r) # log))"

fun linked :: "('q \<Rightarrow> 'u \<Rightarrow> bool) \<Rightarrow> ('u \<Rightarrow> 'q) \<Rightarrow> 'q \<Rightarrow> 'u list \<Rightarrow> 'q \<Rightarrow> bool" where
  "linked follows ends q [] q' \<longleftrightarrow> q' = q"
| "linked follows ends q (u # us) q' \<longleftrightarrow> follows q u \<and> linked follows ends (ends u) us q'"

locale sequenced_book =
  fixes step :: "'s \<Rightarrow> 'u \<Rightarrow> 's \<times> 'r"
    and inv :: "'s \<Rightarrow> bool" and live :: "'s \<Rightarrow> bool" and pos :: "'s \<Rightarrow> 'q"
    and applied :: "'r \<Rightarrow> bool" and follows :: "'q \<Rightarrow> 'u \<Rightarrow> bool" and ends :: "'u \<Rightarrow> 'q"
    and blank :: "'s \<Rightarrow> bool"
  assumes step_inv: "inv s \<Longrightarrow> step s u = (s', r) \<Longrightarrow> inv s'"
    and step_applied: "inv s \<Longrightarrow> live s \<Longrightarrow> step s u = (s', r) \<Longrightarrow> applied r \<Longrightarrow>
      follows (pos s) u \<and> pos s' = ends u \<and> live s'"
    and step_skipped: "inv s \<Longrightarrow> live s \<Longrightarrow> step s u = (s', r) \<Longrightarrow> \<not> applied r \<Longrightarrow> live s' \<Longrightarrow> s' = s"
    and idle_blank: "inv s \<Longrightarrow> \<not> live s \<Longrightarrow> blank s"
begin

lemma run_inv: "inv s \<Longrightarrow> run_book step s us = (s', log) \<Longrightarrow> inv s'"
  by (induction us arbitrary: s log) (auto simp: Let_def dest: step_inv split: prod.splits)

text \<open>
  While the book stays live, the messages it reports as applied are linked one to
  the next, from where it was to where it is; the others left it alone.
\<close>

lemma run_linked:
  assumes "inv s" "live s" "run_book step s us = (s', log)" "\<forall>(u, t, r) \<in> set log. live t"
  shows "linked follows ends (pos s) (map fst (filter (\<lambda>(u, t, r). applied r) log)) (pos s')"
  using assms
proof (induction us arbitrary: s log)
  case (Cons u us)
  obtain s1 r where s1: "step s u = (s1, r)" by fastforce
  obtain log1 where l1: "run_book step s1 us = (s', log1)" "log = (u, s1, r) # log1"
    using Cons.prems(3) s1 by (auto simp: Let_def split: prod.splits)
  have live1: "live s1" using Cons.prems(4) l1(2) by auto
  have "linked follows ends (pos s1) (map fst (filter (\<lambda>(u, t, r). applied r) log1)) (pos s')"
    using Cons.IH [OF step_inv [OF Cons.prems(1) s1] live1 l1(1)] Cons.prems(4) l1(2) by auto
  then show ?case
    using step_applied [OF Cons.prems(1,2) s1] step_skipped [OF Cons.prems(1,2) s1 _ live1] l1(2) by auto
qed simp

text \<open>A book that is not live never shows stale contents.\<close>

lemma run_blank: "inv s \<Longrightarrow> run_book step s us = (s', log) \<Longrightarrow> \<not> live s' \<Longrightarrow> blank s'"
  using run_inv idle_blank by blast

end

subsection \<open>Books that a snapshot seeds\<close>

text \<open>
  The messages of a run that were accepted, and what they must look like for the
  contents to be exactly the last snapshot and the deltas after it.
\<close>

definition accepted :: "('m \<times> 's \<times> 'e option) list \<Rightarrow> 'm list" where
  "accepted lg = map fst (filter (\<lambda>(m, s, err). err = None) lg)"

definition rebuilt :: "('m \<Rightarrow> bool) \<Rightarrow> ('m \<Rightarrow> 'v) \<Rightarrow> ('v \<Rightarrow> 'm \<Rightarrow> 'v) \<Rightarrow> 'm list \<Rightarrow> 'v \<Rightarrow> bool" where
  "rebuilt replaces build change ms v \<longleftrightarrow>
     (\<exists>pre m ds. ms = pre @ m # ds \<and> replaces m \<and> (\<forall>d \<in> set ds. \<not> replaces d) \<and> v = foldl change (build m) ds)"

locale seeded_book =
  fixes step :: "'s \<Rightarrow> 'm \<Rightarrow> 's \<times> 'e option"
    and seeded :: "'s \<Rightarrow> bool" and contents :: "'s \<Rightarrow> 'v"
    and replaces :: "'m \<Rightarrow> bool" and build :: "'m \<Rightarrow> 'v" and change :: "'v \<Rightarrow> 'm \<Rightarrow> 'v"
    and blank :: "'v"
  assumes step_accepts: "step s m = (s', None) \<Longrightarrow> seeded s' \<and>
      (if replaces m then contents s' = build m else seeded s \<and> contents s' = change (contents s) m)"
    and step_refuses: "step s m = (s', Some err) \<Longrightarrow> s' = s \<or> (\<not> seeded s' \<and> contents s' = blank)"
begin

lemma run_rebuilt_from:
  assumes "seeded s \<longrightarrow> rebuilt replaces build change ms (contents s)" "run_book step s us = (s', lg)" "seeded s'"
  shows "rebuilt replaces build change (ms @ accepted lg) (contents s')"
  using assms
proof (induction us arbitrary: s ms lg)
  case (Cons u us)
  obtain s1 err where s1: "step s u = (s1, err)" by fastforce
  obtain lg1 where l1: "run_book step s1 us = (s', lg1)" "lg = (u, s1, err) # lg1"
    using Cons.prems(2) s1 by (auto simp: Let_def split: prod.splits)
  show ?case
  proof (cases err)
    case None
    have "rebuilt replaces build change (ms @ [u]) (contents s1)"
    proof (cases "replaces u")
      case True
      then show ?thesis using step_accepts [of s u s1] s1 None unfolding rebuilt_def by fastforce
    next
      case False
      then obtain pre m ds where "ms = pre @ m # ds" "replaces m" "\<forall>d \<in> set ds. \<not> replaces d"
        "contents s = foldl change (build m) ds"
        using step_accepts [of s u s1] s1 None Cons.prems(1) unfolding rebuilt_def by auto
      with False step_accepts [of s u s1] s1 None show ?thesis
        unfolding rebuilt_def by (intro exI [of _ pre] exI [of _ m] exI [of _ "ds @ [u]"]) auto
    qed
    then show ?thesis
      using Cons.IH [of s1 "ms @ [u]", OF _ l1(1) Cons.prems(3)] l1(2) None by (simp add: accepted_def)
  next
    case (Some e)
    have "seeded s1 \<longrightarrow> rebuilt replaces build change ms (contents s1)"
      using step_refuses [of s u s1 e] s1 Some Cons.prems(1) by auto
    from Cons.IH [OF this l1(1) Cons.prems(3)] show ?thesis using l1(2) Some by (simp add: accepted_def)
  qed
qed (simp add: accepted_def)

text \<open>A seeded book holds the last accepted snapshot and the deltas accepted after it, nothing older.\<close>

lemma run_rebuilt:
  "\<not> seeded s \<Longrightarrow> run_book step s us = (s', lg) \<Longrightarrow> seeded s' \<Longrightarrow>
     rebuilt replaces build change (accepted lg) (contents s')"
  using run_rebuilt_from [of s "[]" us s' lg] by simp

lemma step_blank: "(\<not> seeded s \<longrightarrow> contents s = blank) \<Longrightarrow> step s u = (s', err) \<Longrightarrow> \<not> seeded s' \<longrightarrow> contents s' = blank"
  using step_accepts [of s u s'] step_refuses [of s u s'] by (cases err) auto

lemma run_blank_unseeded:
  "(\<not> seeded s \<longrightarrow> contents s = blank) \<Longrightarrow> run_book step s us = (s', lg) \<Longrightarrow> \<not> seeded s' \<longrightarrow> contents s' = blank"
proof (induction us arbitrary: s lg)
  case (Cons u us)
  then show ?case using step_blank [OF Cons.prems(1)] by (fastforce simp: Let_def split: prod.splits)
qed simp

end

end
