(* ===== verification/UsdmBook.thy ===== *)
theory UsdmBook
  imports SideMap Normalize
begin

text \<open>
  \<open>src/binance/usdm_book.go\<close>: the synchronizer of a Binance USD-M book.  The
  state is a record, the two sides are Go maps from price text to quantity text
  (a nil map is the empty list: the code writes to the maps only in the two states
  that \<open>Seed\<close> has given maps), and every method returns the book it leaves, the
  transition and the error.  The JSON decoding functions are not modelled; the
  methods take the decoded updates and snapshots.

  The lemmas show the invariant, that a live book only moves along updates whose
  \<open>pu\<close> is the previous \<open>u\<close>, when \<open>Seed\<close> bridges its snapshot with the buffered updates,
  waits or reports a gap, what the book then holds at every price, and that nothing is
  served unless the book is live.
\<close>

subsection \<open>Types\<close>

datatype usdm_error = ErrUSDMBookGap | ErrUSDMBufferOverflow | ErrUSDMInvalidBook

datatype usdm_state = USDMBookAwaitingSnapshot | USDMBookBridging | USDMBookLive | USDMBookGap

record usdm_level =
  ul_price :: string
  ul_quantity :: string

record usdm_snapshot =
  us_last :: u64
  us_event_time :: i64
  us_tx_time :: i64
  us_bids :: "usdm_level list"
  us_asks :: "usdm_level list"

record usdm_update =
  uu_type :: string
  uu_event_time :: i64
  uu_tx_time :: i64
  uu_symbol :: string
  uu_first :: u64
  uu_final :: u64
  uu_previous :: u64
  uu_bids :: "usdm_level list"
  uu_asks :: "usdm_level list"

record usdm_transition =
  ut_state :: usdm_state
  ut_epoch :: u64
  ut_closed :: u64
  ut_last :: u64
  ut_applied :: bool
  ut_stale :: bool
  ut_needs :: bool
  ut_error :: "usdm_error option"

record usdm_book =
  ub_symbol :: string
  ub_max :: int
  ub_state :: usdm_state
  ub_epoch :: u64
  ub_last :: u64
  ub_buffer :: "usdm_update list"
  ub_bids :: "(string \<times> string) list"
  ub_asks :: "(string \<times> string) list"

type_synonym usdm_outcome = "usdm_book \<times> usdm_transition \<times> usdm_error option"

subsection \<open>Operations\<close>

definition NewUSDMBookSynchronizer :: "string \<Rightarrow> int \<Rightarrow> usdm_error + usdm_book" where
  "NewUSDMBookSynchronizer symbol maxBuffered =
     (if symbol = [] \<or> maxBuffered \<le> 0 then Inl ErrUSDMInvalidBook
      else Inr \<lparr>ub_symbol = symbol, ub_max = maxBuffered, ub_state = USDMBookAwaitingSnapshot, ub_epoch = 1,
                ub_last = 0, ub_buffer = [], ub_bids = [], ub_asks = []\<rparr>)"

definition USDMDepthUpdate_Validate :: "usdm_update \<Rightarrow> usdm_error option" where
  "USDMDepthUpdate_Validate u =
     (if uu_type u \<noteq> ''depthUpdate'' \<or> uu_symbol u = [] \<or> uu_event_time u < 0 \<or> uu_tx_time u < 0 \<or>
         uu_first u = 0 \<or> uu_final u < uu_first u then Some ErrUSDMInvalidBook
      else if length (uu_bids u) > MaxBookLevelsPerSide \<or> length (uu_asks u) > MaxBookLevelsPerSide
      then Some ErrUSDMInvalidBook
      else None)"

definition usdm_validateUpdate :: "usdm_book \<Rightarrow> usdm_update \<Rightarrow> usdm_error option" where
  "usdm_validateUpdate b u =
     (case USDMDepthUpdate_Validate u of
        Some err \<Rightarrow> Some err
      | None \<Rightarrow> if uu_symbol u \<noteq> ub_symbol b then Some ErrUSDMInvalidBook else None)"

definition usdm_transition_of :: "usdm_book \<Rightarrow> bool \<Rightarrow> bool \<Rightarrow> usdm_error option \<Rightarrow> usdm_transition" where
  "usdm_transition_of b applied stale err =
     \<lparr>ut_state = ub_state b, ut_epoch = ub_epoch b, ut_closed = 0, ut_last = ub_last b, ut_applied = applied,
      ut_stale = stale, ut_needs = (ub_state b \<noteq> USDMBookLive), ut_error = err\<rparr>"

definition usdm_closeEpoch :: "usdm_book \<Rightarrow> usdm_error \<Rightarrow> usdm_book \<times> usdm_transition" where
  "usdm_closeEpoch b err =
     (let b' = b\<lparr>ub_epoch := ub_epoch b + 1, ub_state := USDMBookGap, ub_last := 0, ub_buffer := [],
                ub_bids := [], ub_asks := []\<rparr>
      in (b', \<lparr>ut_state = ub_state b', ut_epoch = ub_epoch b', ut_closed = ub_epoch b, ut_last = 0,
               ut_applied = False, ut_stale = False, ut_needs = True, ut_error = Some err\<rparr>))"

definition normalizeCoefficientIsZero :: "string \<Rightarrow> bool" where
  "normalizeCoefficientIsZero value =
     (case ParseDecimal value CanonicalAmountScale DefaultDecimalBounds of
        Inl _ \<Rightarrow> False | Inr d \<Rightarrow> IsZero d)"

definition usdm_zero :: "usdm_level \<Rightarrow> bool" where
  "usdm_zero l \<longleftrightarrow> ul_quantity l = ''0'' \<or> normalizeCoefficientIsZero (ul_quantity l)"

fun replaceUSDMSide :: "(string \<times> string) list \<Rightarrow> usdm_level list \<Rightarrow> (string \<times> string) list" where
  "replaceUSDMSide dest [] = dest"
| "replaceUSDMSide dest (l # ls) =
     (if usdm_zero l then replaceUSDMSide dest ls
      else replaceUSDMSide (go_put (ul_price l) (ul_quantity l) dest) ls)"

fun applyUSDMSide :: "(string \<times> string) list \<Rightarrow> usdm_level list \<Rightarrow> (string \<times> string) list" where
  "applyUSDMSide dest [] = dest"
| "applyUSDMSide dest (l # ls) =
     applyUSDMSide (if usdm_zero l then go_delete (ul_price l) dest
                    else go_put (ul_price l) (ul_quantity l) dest) ls"

definition usdm_write :: "usdm_book \<Rightarrow> usdm_update \<Rightarrow> usdm_book" where
  "usdm_write b u = b\<lparr>ub_bids := applyUSDMSide (ub_bids b) (uu_bids u),
     ub_asks := applyUSDMSide (ub_asks b) (uu_asks u), ub_last := uu_final u\<rparr>"

definition usdm_applyBridge :: "usdm_book \<Rightarrow> usdm_update \<Rightarrow> usdm_outcome" where
  "usdm_applyBridge b u =
     (if uu_final u < ub_last b then (b, usdm_transition_of b False True None, None)
      else if uu_first u > ub_last b \<or> uu_final u < ub_last b then
        (case usdm_closeEpoch b ErrUSDMBookGap of (b', t) \<Rightarrow> (b', t, Some ErrUSDMBookGap))
      else let b' = (usdm_write b u)\<lparr>ub_state := USDMBookLive\<rparr>
        in (b', usdm_transition_of b' True False None, None))"

definition usdm_applyLive :: "usdm_book \<Rightarrow> usdm_update \<Rightarrow> usdm_outcome" where
  "usdm_applyLive b u =
     (if uu_final u \<le> ub_last b then (b, usdm_transition_of b False True None, None)
      else if uu_previous u \<noteq> ub_last b then
        (case usdm_closeEpoch b ErrUSDMBookGap of (b', t) \<Rightarrow> (b', t, Some ErrUSDMBookGap))
      else let b' = usdm_write b u in (b', usdm_transition_of b' True False None, None))"

definition usdm_ApplyUpdate :: "usdm_book \<Rightarrow> usdm_update \<Rightarrow> usdm_outcome" where
  "usdm_ApplyUpdate b u =
     (case usdm_validateUpdate b u of
        Some err \<Rightarrow> (b, usdm_transition_of b False False (Some err), Some err)
      | None \<Rightarrow>
         (case ub_state b of
            USDMBookLive \<Rightarrow> usdm_applyLive b u
          | USDMBookBridging \<Rightarrow> usdm_applyBridge b u
          | _ \<Rightarrow>
             if int (length (ub_buffer b)) = ub_max b then
               (case usdm_closeEpoch b ErrUSDMBufferOverflow of (b', t) \<Rightarrow> (b', t, Some ErrUSDMBufferOverflow))
             else let b' = b\<lparr>ub_buffer := ub_buffer b @ [u]\<rparr>
               in (b', usdm_transition_of b' False False None, None)))"

fun usdm_seed_loop :: "usdm_book \<Rightarrow> usdm_update list \<Rightarrow> usdm_outcome" where
  "usdm_seed_loop b [] = (b, usdm_transition_of b False False None, None)"
| "usdm_seed_loop b (u # us) =
     (case usdm_ApplyUpdate b u of
        (b', t, Some err) \<Rightarrow> (b', t, Some err)
      | (b', t, None) \<Rightarrow> usdm_seed_loop b' us)"

definition usdm_Seed :: "usdm_book \<Rightarrow> usdm_snapshot \<Rightarrow> usdm_outcome" where
  "usdm_Seed b s =
     (if us_last s = 0 \<or> ub_state b = USDMBookLive
      then (b, usdm_transition_of b False False (Some ErrUSDMInvalidBook), Some ErrUSDMInvalidBook)
      else usdm_seed_loop
        (b\<lparr>ub_bids := replaceUSDMSide [] (us_bids s), ub_asks := replaceUSDMSide [] (us_asks s),
           ub_last := us_last s, ub_state := USDMBookBridging, ub_buffer := []\<rparr>) (ub_buffer b))"

definition usdm_Level :: "usdm_book \<Rightarrow> string \<Rightarrow> string \<Rightarrow> string option" where
  "usdm_Level b side price =
     (if ub_state b \<noteq> USDMBookLive then None
      else if side = SideBuy then go_get (ub_bids b) price
      else if side \<noteq> SideSell then None
      else go_get (ub_asks b) price)"

subsection \<open>Sides\<close>

interpretation usdm_side: delta_side applyUSDMSide ul_price usdm_zero ul_quantity
  by unfold_locales auto

lemma replaceUSDMSide_apply: "replaceUSDMSide dest ls = applyUSDMSide dest (filter (\<lambda>l. \<not> usdm_zero l) ls)"
  by (induction ls arbitrary: dest) auto

definition usdm_side_ok :: "(string \<times> string) list \<Rightarrow> bool" where
  "usdm_side_ok m \<longleftrightarrow> wf_map m \<and>
     (\<forall>(p, q) \<in> set m. \<not> usdm_zero \<lparr>ul_price = p, ul_quantity = q\<rparr>)"

lemma usdm_side_ok_apply:
  assumes "usdm_side_ok m"
  shows "usdm_side_ok (applyUSDMSide m ls)"
proof -
  have wf: "wf_map m" "wf_map (applyUSDMSide m ls)"
    using assms usdm_side.apply_wf by (auto simp: usdm_side_ok_def)
  have "\<not> usdm_zero \<lparr>ul_price = p, ul_quantity = q\<rparr>" if "go_get (applyUSDMSide m ls) p = Some q" for p q
  proof (rule usdm_side.apply_all_entries [where P = "\<lambda>p q. \<not> usdm_zero \<lparr>ul_price = p, ul_quantity = q\<rparr>"])
    show "go_get m k = Some v \<Longrightarrow> \<not> usdm_zero \<lparr>ul_price = k, ul_quantity = v\<rparr>" for k v
      using assms wf(1) by (auto simp: usdm_side_ok_def go_get_mem)
    show "\<not> usdm_zero l \<Longrightarrow> \<not> usdm_zero \<lparr>ul_price = ul_price l, ul_quantity = ul_quantity l\<rparr>" for l
      by (simp add: usdm_zero_def)
  qed (rule that)
  then show ?thesis using wf(2) by (auto simp: usdm_side_ok_def go_get_mem)
qed

lemma usdm_side_ok_Nil [simp]: "usdm_side_ok []"
  by (simp add: usdm_side_ok_def)

subsection \<open>The invariant\<close>

definition usdm_ok :: "usdm_book \<Rightarrow> bool" where
  "usdm_ok b \<longleftrightarrow> ub_symbol b \<noteq> [] \<and> 0 < ub_max b \<and> int (length (ub_buffer b)) \<le> ub_max b \<and>
     (\<forall>u \<in> set (ub_buffer b). usdm_validateUpdate b u = None) \<and>
     usdm_side_ok (ub_bids b) \<and> usdm_side_ok (ub_asks b) \<and>
     (if ub_state b = USDMBookBridging \<or> ub_state b = USDMBookLive
      then ub_buffer b = [] \<and> ub_last b \<noteq> 0
      else ub_bids b = [] \<and> ub_asks b = [] \<and> ub_last b = 0)"

lemma usdm_validate_final: "usdm_validateUpdate b u = None \<Longrightarrow> uu_final u \<noteq> 0"
  by (auto simp: usdm_validateUpdate_def USDMDepthUpdate_Validate_def word_less_nat_alt unat_eq_0
      split: if_splits option.splits)

lemma usdm_validate_upd [simp]:
  "usdm_validateUpdate (b\<lparr>ub_buffer := us\<rparr>) u = usdm_validateUpdate b u"
  "usdm_validateUpdate (b\<lparr>ub_state := st\<rparr>) u = usdm_validateUpdate b u"
  "usdm_validateUpdate (b\<lparr>ub_last := q\<rparr>) u = usdm_validateUpdate b u"
  "usdm_validateUpdate (b\<lparr>ub_bids := m\<rparr>) u = usdm_validateUpdate b u"
  "usdm_validateUpdate (b\<lparr>ub_asks := m\<rparr>) u = usdm_validateUpdate b u"
  "usdm_validateUpdate (b\<lparr>ub_epoch := e\<rparr>) u = usdm_validateUpdate b u"
  by (simp_all add: usdm_validateUpdate_def)

lemma usdm_write_ok:
  "usdm_ok b \<Longrightarrow> usdm_validateUpdate b u = None \<Longrightarrow> ub_buffer b = [] \<Longrightarrow> usdm_ok ((usdm_write b u)\<lparr>ub_state := USDMBookLive\<rparr>)"
  by (auto simp: usdm_ok_def usdm_write_def usdm_side_ok_apply usdm_validate_final)

lemma usdm_closeEpoch_ok: "usdm_ok b \<Longrightarrow> usdm_ok (fst (usdm_closeEpoch b err))"
  by (auto simp: usdm_ok_def usdm_closeEpoch_def)

lemma usdm_ApplyUpdate_ok:
  assumes "usdm_ok b"
  shows "usdm_ok (fst (usdm_ApplyUpdate b u))"
proof (cases "usdm_validateUpdate b u")
  case None
  have live: "usdm_write b u = (usdm_write b u)\<lparr>ub_state := USDMBookLive\<rparr>" if "ub_state b = USDMBookLive"
    using that by (simp add: usdm_write_def)
  have buf: "ub_buffer b = []" if "ub_state b = USDMBookLive \<or> ub_state b = USDMBookBridging"
    using that assms by (auto simp: usdm_ok_def)
  have app: "usdm_ok (b\<lparr>ub_buffer := ub_buffer b @ [u]\<rparr>)"
    if "int (length (ub_buffer b)) \<noteq> ub_max b" "ub_state b \<noteq> USDMBookLive" "ub_state b \<noteq> USDMBookBridging"
    using that assms None by (auto simp: usdm_ok_def)
  show ?thesis
  proof (cases "ub_state b")
    case USDMBookLive
    with assms None buf live usdm_write_ok [OF assms None] usdm_closeEpoch_ok [OF assms] show ?thesis
      by (auto simp: usdm_ApplyUpdate_def usdm_applyLive_def Let_def case_prod_beta)
  next
    case USDMBookBridging
    with assms None buf usdm_write_ok [OF assms None] usdm_closeEpoch_ok [OF assms] show ?thesis
      by (auto simp: usdm_ApplyUpdate_def usdm_applyBridge_def Let_def case_prod_beta)
  qed (use None app usdm_closeEpoch_ok [OF assms] in \<open>auto simp: usdm_ApplyUpdate_def Let_def case_prod_beta\<close>)
qed (use assms in \<open>simp add: usdm_ApplyUpdate_def\<close>)

lemma usdm_seed_loop_ok: "usdm_ok b \<Longrightarrow> usdm_ok (fst (usdm_seed_loop b us))"
proof (induction us arbitrary: b)
  case (Cons u us)
  obtain b' t err where a: "usdm_ApplyUpdate b u = (b', t, err)" using prod_cases3 by blast
  have "usdm_ok b'" using usdm_ApplyUpdate_ok [OF Cons.prems, of u] a by simp
  with Cons.IH a show ?case by (cases err) auto
qed simp

lemma usdm_seeded_ok:
  assumes "usdm_ok b" "us_last s \<noteq> 0"
  shows "usdm_ok (b\<lparr>ub_bids := replaceUSDMSide [] (us_bids s), ub_asks := replaceUSDMSide [] (us_asks s),
           ub_last := us_last s, ub_state := USDMBookBridging, ub_buffer := []\<rparr>)"
  using assms by (simp add: usdm_ok_def replaceUSDMSide_apply usdm_side_ok_apply)

lemma usdm_Seed_ok: "usdm_ok b \<Longrightarrow> usdm_ok (fst (usdm_Seed b s))"
  by (simp add: usdm_Seed_def usdm_seed_loop_ok usdm_seeded_ok)


lemma usdm_New_ok: "NewUSDMBookSynchronizer symb n = Inr b \<Longrightarrow> usdm_ok b"
  by (auto simp: NewUSDMBookSynchronizer_def usdm_ok_def split: if_splits)

lemma usdm_Level_idle: "ub_state b \<noteq> USDMBookLive \<Longrightarrow> usdm_Level b side price = None"
  by (simp add: usdm_Level_def)

text \<open>What a valid update does to a live or bridging book, without the reply.\<close>

lemma usdm_closeEpoch_simps [simp]:
  "ub_state (fst (usdm_closeEpoch b err)) = USDMBookGap" "ub_epoch (fst (usdm_closeEpoch b err)) = ub_epoch b + 1"
  "ut_applied (snd (usdm_closeEpoch b err)) = False"
  by (simp_all add: usdm_closeEpoch_def Let_def)

lemma usdm_transition_simps [simp]:
  "ut_applied (usdm_transition_of b ap st err) = ap" "ut_state (usdm_transition_of b ap st err) = ub_state b"
  "ut_needs (usdm_transition_of b ap st err) = (ub_state b \<noteq> USDMBookLive)"
  by (simp_all add: usdm_transition_of_def)

lemma usdm_write_simps [simp]:
  "ub_state (usdm_write b u) = ub_state b" "ub_last (usdm_write b u) = uu_final u"
  "ub_bids (usdm_write b u) = applyUSDMSide (ub_bids b) (uu_bids u)"
  "ub_asks (usdm_write b u) = applyUSDMSide (ub_asks b) (uu_asks u)"
  "ub_buffer (usdm_write b u) = ub_buffer b" "ub_epoch (usdm_write b u) = ub_epoch b"
  by (simp_all add: usdm_write_def)

definition usdm_follows :: "u64 \<Rightarrow> usdm_update \<Rightarrow> bool" where
  "usdm_follows q u \<longleftrightarrow> uu_previous u = q \<and> q < uu_final u"

definition usdm_spans :: "u64 \<Rightarrow> usdm_update \<Rightarrow> bool" where
  "usdm_spans q u \<longleftrightarrow> uu_first u \<le> q \<and> q \<le> uu_final u"

lemma usdm_ApplyUpdate_live:
  assumes "ub_state b = USDMBookLive" "usdm_ApplyUpdate b u = (b', r)"
  obtains (applied) "usdm_follows (ub_last b) u" "b' = usdm_write b u" "ut_applied (fst r)" "snd r = None"
  | (kept) "b' = b" "\<not> ut_applied (fst r)"
  | (closed) "ub_state b' = USDMBookGap" "\<not> ut_applied (fst r)" "snd r = Some ErrUSDMBookGap"
proof (cases "usdm_validateUpdate b u")
  case (Some e)
  then show thesis using assms kept by (auto simp: usdm_ApplyUpdate_def)
next
  case None
  with assms have "usdm_applyLive b u = (b', r)" by (simp add: usdm_ApplyUpdate_def)
  then show thesis
    using applied kept closed usdm_closeEpoch_simps [of b ErrUSDMBookGap]
    by (fastforce simp: usdm_applyLive_def usdm_follows_def Let_def case_prod_beta not_le split: if_splits)
qed

lemma usdm_ApplyUpdate_bridge:
  assumes "ub_state b = USDMBookBridging" "usdm_ApplyUpdate b u = (b', t, None)"
  shows "b' = b \<and> uu_final u < ub_last b \<or> usdm_spans (ub_last b) u \<and> b' = (usdm_write b u)\<lparr>ub_state := USDMBookLive\<rparr>"
  using assms
  by (auto simp: usdm_ApplyUpdate_def usdm_applyBridge_def usdm_spans_def Let_def case_prod_beta not_le not_less
      split: option.splits if_splits)

interpretation usdm: sequenced_book usdm_ApplyUpdate usdm_ok "\<lambda>b. ub_state b = USDMBookLive" ub_last
  "\<lambda>r. ut_applied (fst r)" usdm_follows uu_final "\<lambda>b. \<forall>side price. usdm_Level b side price = None"
proof
  show "usdm_ok s'" if "usdm_ok s" "usdm_ApplyUpdate s u = (s', r)" for s u s' r
    using usdm_ApplyUpdate_ok [OF that(1), of u] that(2) by simp
  show "usdm_follows (ub_last s) u \<and> ub_last s' = uu_final u \<and> ub_state s' = USDMBookLive"
    if "ub_state s = USDMBookLive" "usdm_ApplyUpdate s u = (s', r)" "ut_applied (fst r)" for s u s' r
    using that(1) that(2) by (cases rule: usdm_ApplyUpdate_live) (use that in auto)
  show "s' = s" if "ub_state s = USDMBookLive" "usdm_ApplyUpdate s u = (s', r)"
    "\<not> ut_applied (fst r)" "ub_state s' = USDMBookLive" for s u s' r
    using that(1) that(2) by (cases rule: usdm_ApplyUpdate_live) (use that in auto)
qed (simp add: usdm_Level_idle)

subsection \<open>Seeding\<close>

text \<open>
  The buffered updates that reach a snapshot: the first whose final ID is not below the
  snapshot's last, and after it every update beyond the one before it.
\<close>

fun usdm_fresh :: "u64 \<Rightarrow> usdm_update list \<Rightarrow> usdm_update list" where
  "usdm_fresh q [] = []"
| "usdm_fresh q (u # us) = (if uu_final u \<le> q then usdm_fresh q us else u # usdm_fresh (uu_final u) us)"

fun usdm_reaching :: "u64 \<Rightarrow> usdm_update list \<Rightarrow> usdm_update list" where
  "usdm_reaching q [] = []"
| "usdm_reaching q (u # us) = (if uu_final u < q then usdm_reaching q us else u # usdm_fresh (uu_final u) us)"

text \<open>Whether they bridge: the first spans the snapshot's last ID and each later one names the one before.\<close>

fun usdm_bridge :: "u64 \<Rightarrow> usdm_update list \<Rightarrow> bool" where
  "usdm_bridge q [] = True"
| "usdm_bridge q (v # vs) = (usdm_spans q v \<and> linked usdm_follows uu_final (uu_final v) vs (uu_final (last (v # vs))))"

definition usdm_write_all :: "usdm_book \<Rightarrow> usdm_update list \<Rightarrow> usdm_book" where
  "usdm_write_all b vs = b\<lparr>ub_bids := applyUSDMSide (ub_bids b) (concat (map uu_bids vs)),
     ub_asks := applyUSDMSide (ub_asks b) (concat (map uu_asks vs)),
     ub_last := (if vs = [] then ub_last b else uu_final (last vs)),
     ub_state := (if vs = [] then ub_state b else USDMBookLive)\<rparr>"

lemma usdm_write_all_Nil: "usdm_write_all b [] = b"
  by (simp add: usdm_write_all_def usdm_side.apply_Nil)

lemma usdm_write_all_Cons: "usdm_write_all b (v # vs) = usdm_write_all ((usdm_write b v)\<lparr>ub_state := USDMBookLive\<rparr>) vs"
  by (simp add: usdm_write_all_def usdm_write_def usdm_side.apply_append)

definition usdm_dropped :: "usdm_book \<Rightarrow> usdm_outcome \<Rightarrow> bool" where
  "usdm_dropped b r \<longleftrightarrow> fst r = b\<lparr>ub_epoch := ub_epoch b + 1, ub_state := USDMBookGap, ub_last := 0, ub_buffer := [],
     ub_bids := [], ub_asks := []\<rparr> \<and> snd (snd r) = Some ErrUSDMBookGap"

lemma usdm_dropped_close: "usdm_dropped b (case usdm_closeEpoch b ErrUSDMBookGap of (b', t) \<Rightarrow> (b', t, Some ErrUSDMBookGap))"
  by (simp add: usdm_dropped_def usdm_closeEpoch_def Let_def)

lemma usdm_dropped_write: "usdm_dropped ((usdm_write b u)\<lparr>ub_state := st\<rparr>) r = usdm_dropped b r"
  by (simp add: usdm_dropped_def usdm_write_def)

lemma usdm_validate_write [simp]: "usdm_validateUpdate (usdm_write b v) u = usdm_validateUpdate b u"
  by (simp add: usdm_write_def)

lemma usdm_seed_loop_live:
  assumes "ub_state b = USDMBookLive" "\<forall>u \<in> set us. usdm_validateUpdate b u = None"
  shows "if linked usdm_follows uu_final (ub_last b) (usdm_fresh (ub_last b) us) (ub_last (usdm_write_all b (usdm_fresh (ub_last b) us)))
    then fst (usdm_seed_loop b us) = usdm_write_all b (usdm_fresh (ub_last b) us) \<and> snd (snd (usdm_seed_loop b us)) = None
    else usdm_dropped b (usdm_seed_loop b us)"
  using assms
proof (induction us arbitrary: b)
  case Nil
  then show ?case by (simp add: usdm_write_all_Nil)
next
  case (Cons u us)
  have ok: "usdm_validateUpdate b u = None" "\<forall>v \<in> set us. usdm_validateUpdate b v = None" using Cons.prems(2) by simp_all
  have step: "usdm_ApplyUpdate b u = usdm_applyLive b u" using ok(1) Cons.prems(1) by (simp add: usdm_ApplyUpdate_def)
  consider "uu_final u \<le> ub_last b" | "\<not> uu_final u \<le> ub_last b" "uu_previous u \<noteq> ub_last b"
    | "\<not> uu_final u \<le> ub_last b" "uu_previous u = ub_last b" by blast
  then show ?case
  proof cases
    case 1
    then show ?thesis using Cons.IH [OF Cons.prems(1) ok(2)] by (simp add: step usdm_applyLive_def)
  next
    case 2
    then have "usdm_seed_loop b (u # us) = (case usdm_closeEpoch b ErrUSDMBookGap of (b', t) \<Rightarrow> (b', t, Some ErrUSDMBookGap))"
      by (simp add: step usdm_applyLive_def case_prod_beta)
    then have "usdm_dropped b (usdm_seed_loop b (u # us))" using usdm_dropped_close [of b] by simp
    moreover have "\<not> linked usdm_follows uu_final (ub_last b) (usdm_fresh (ub_last b) (u # us)) q" for q
      using 2 by (simp add: usdm_follows_def)
    ultimately show ?thesis by (simp only: if_False)
  next
    case 3
    let ?b = "(usdm_write b u)\<lparr>ub_state := USDMBookLive\<rparr>"
    have b: "usdm_write b u = ?b" using Cons.prems(1) by (simp add: usdm_write_def)
    have run: "usdm_seed_loop b (u # us) = usdm_seed_loop ?b us" using 3 b by (simp add: step usdm_applyLive_def Let_def)
    have "usdm_follows (ub_last b) u" using 3 by (simp add: usdm_follows_def)
    then have chain: "linked usdm_follows uu_final (ub_last b) (u # vs) q \<longleftrightarrow> linked usdm_follows uu_final (uu_final u) vs q" for vs q
      by simp
    have fresh: "usdm_fresh (ub_last b) (u # us) = u # usdm_fresh (uu_final u) us" using 3 by simp
    have "ub_state ?b = USDMBookLive" "\<forall>v \<in> set us. usdm_validateUpdate ?b v = None" "ub_last ?b = uu_final u" using ok(2) by simp_all
    then show ?thesis
      using Cons.IH [of ?b] unfolding run fresh usdm_write_all_Cons chain usdm_dropped_write by simp
  qed
qed

lemma usdm_seed_loop_bridge:
  assumes "ub_state b = USDMBookBridging" "\<forall>u \<in> set us. usdm_validateUpdate b u = None"
  shows "if usdm_bridge (ub_last b) (usdm_reaching (ub_last b) us)
    then fst (usdm_seed_loop b us) = usdm_write_all b (usdm_reaching (ub_last b) us) \<and> snd (snd (usdm_seed_loop b us)) = None
    else usdm_dropped b (usdm_seed_loop b us)"
  using assms
proof (induction us)
  case Nil
  then show ?case by (simp add: usdm_write_all_Nil)
next
  case (Cons u us)
  have ok: "usdm_validateUpdate b u = None" "\<forall>v \<in> set us. usdm_validateUpdate b v = None" using Cons.prems(2) by simp_all
  have step: "usdm_ApplyUpdate b u = usdm_applyBridge b u" using ok(1) Cons.prems(1) by (simp add: usdm_ApplyUpdate_def)
  consider "uu_final u < ub_last b" | "\<not> uu_final u < ub_last b" "uu_first u > ub_last b"
    | "\<not> uu_final u < ub_last b" "\<not> uu_first u > ub_last b" by blast
  then show ?case
  proof cases
    case 1
    then show ?thesis using Cons.IH [OF Cons.prems(1) ok(2)] by (simp add: step usdm_applyBridge_def)
  next
    case 2
    then have "usdm_seed_loop b (u # us) = (case usdm_closeEpoch b ErrUSDMBookGap of (b', t) \<Rightarrow> (b', t, Some ErrUSDMBookGap))"
      by (simp add: step usdm_applyBridge_def case_prod_beta)
    then have "usdm_dropped b (usdm_seed_loop b (u # us))" using usdm_dropped_close [of b] by simp
    moreover have "\<not> usdm_bridge (ub_last b) (usdm_reaching (ub_last b) (u # us))" using 2 by (auto simp: usdm_spans_def)
    ultimately show ?thesis by (simp only: if_False)
  next
    case 3
    let ?b = "(usdm_write b u)\<lparr>ub_state := USDMBookLive\<rparr>" and ?vs = "usdm_fresh (uu_final u) us"
    have run: "usdm_seed_loop b (u # us) = usdm_seed_loop ?b us" using 3 by (simp add: step usdm_applyBridge_def Let_def)
    have spans: "usdm_spans (ub_last b) u" using 3 by (simp add: usdm_spans_def not_less)
    have reach: "usdm_reaching (ub_last b) (u # us) = u # ?vs" using 3 by simp
    have bridge: "usdm_bridge (ub_last b) (u # ?vs) \<longleftrightarrow> linked usdm_follows uu_final (uu_final u) ?vs (ub_last (usdm_write_all ?b ?vs))"
      using spans by (simp add: usdm_write_all_def)
    have "ub_state ?b = USDMBookLive" "\<forall>v \<in> set us. usdm_validateUpdate ?b v = None" "ub_last ?b = uu_final u" using ok(2) by simp_all
    then show ?thesis
      using usdm_seed_loop_live [of ?b us] unfolding run reach bridge usdm_write_all_Cons usdm_dropped_write by simp
  qed
qed

text \<open>
  What a list of price and quantity texts makes of the quantity held at a price: the last
  entry for the price decides, and a zero quantity removes it.
\<close>

definition quoted :: "usdm_level list \<Rightarrow> (string \<times> string) list" where
  "quoted ls = map (\<lambda>l. (ul_price l, ul_quantity l)) ls"

definition zero_text :: "string \<Rightarrow> bool" where
  "zero_text q \<longleftrightarrow> q = ''0'' \<or> normalizeCoefficientIsZero q"

definition level_after :: "(string \<times> string) list \<Rightarrow> string \<Rightarrow> string option \<Rightarrow> string option" where
  "level_after ls p held =
     (case rev (filter (\<lambda>l. fst l = p) ls) of [] \<Rightarrow> held | l # _ \<Rightarrow> if zero_text (snd l) then None else Some (snd l))"

lemma usdm_zero_text: "usdm_zero l \<longleftrightarrow> zero_text (ul_quantity l)"
  by (simp add: usdm_zero_def zero_text_def)

lemma level_after_apply: "go_get (applyUSDMSide m ls) p = level_after (quoted ls) p (go_get m p)"
  by (induction ls rule: rev_induct)
    (simp_all add: usdm_side.apply_append level_after_def quoted_def usdm_zero_text)

lemma level_after_replace:
  "go_get (replaceUSDMSide [] ls) p = level_after (filter (\<lambda>l. \<not> zero_text (snd l)) (quoted ls)) p None"
  by (simp add: replaceUSDMSide_apply level_after_apply quoted_def filter_map o_def usdm_zero_text)

subsection \<open>Reachable books\<close>

inductive usdm_reach :: "string \<Rightarrow> int \<Rightarrow> usdm_book \<Rightarrow> bool" for symb n where
  New: "NewUSDMBookSynchronizer symb n = Inr b \<Longrightarrow> usdm_reach symb n b"
| Apply: "usdm_reach symb n b \<Longrightarrow> usdm_reach symb n (fst (usdm_ApplyUpdate b u))"
| Seed: "usdm_reach symb n b \<Longrightarrow> usdm_reach symb n (fst (usdm_Seed b s))"

lemma usdm_reach_ok: "usdm_reach symb n b \<Longrightarrow> usdm_ok b"
  by (induction rule: usdm_reach.induct) (simp_all add: usdm_New_ok usdm_ApplyUpdate_ok usdm_Seed_ok)

lemma usdm_ApplyUpdate_symbol: "ub_symbol (fst (usdm_ApplyUpdate b u)) = ub_symbol b"
  by (auto simp: usdm_ApplyUpdate_def usdm_applyLive_def usdm_applyBridge_def usdm_closeEpoch_def usdm_write_def Let_def
      split: option.splits usdm_state.splits)

lemma usdm_Seed_symbol: "ub_symbol (fst (usdm_Seed b s)) = ub_symbol b"
proof -
  have "ub_symbol (fst (usdm_seed_loop c us)) = ub_symbol c" for c us
  proof (induction us arbitrary: c)
    case (Cons u us)
    obtain c' t err where a: "usdm_ApplyUpdate c u = (c', t, err)" by (metis prod_cases3)
    then show ?case using Cons.IH [of c'] usdm_ApplyUpdate_symbol [of c u] by (cases err) simp_all
  qed simp
  then show ?thesis by (simp add: usdm_Seed_def)
qed

lemma usdm_Level_stored:
  "usdm_ok b \<Longrightarrow> usdm_Level b side price = Some q \<Longrightarrow> \<not> usdm_zero \<lparr>ul_price = price, ul_quantity = q\<rparr>"
  by (auto simp: usdm_Level_def usdm_ok_def usdm_side_ok_def go_get_mem split: if_splits)

text \<open>
  C20. Every USD-M book that the constructor, updates and snapshots can reach
  buffers at most its bound of updates, buffers only before it is seeded and only
  valid updates of its own symbol, has a position exactly when it is seeded, and
  answers a level query only when it is live, never with a zero quantity.
\<close>

theorem usdm_reachable_sound:
  assumes "usdm_reach symb n b"
  shows "int (length (ub_buffer b)) \<le> ub_max b \<and> (\<forall>u \<in> set (ub_buffer b). usdm_validateUpdate b u = None) \<and>
     (ub_last b \<noteq> 0 \<longleftrightarrow> ub_state b = USDMBookBridging \<or> ub_state b = USDMBookLive) \<and>
     (ub_last b \<noteq> 0 \<longrightarrow> ub_buffer b = []) \<and>
     (\<forall>side price q. usdm_Level b side price = Some q \<longrightarrow>
        ub_state b = USDMBookLive \<and> \<not> usdm_zero \<lparr>ul_price = price, ul_quantity = q\<rparr>)"
proof -
  have ok: "usdm_ok b" using assms by (rule usdm_reach_ok)
  then have "ub_last b \<noteq> 0 \<longleftrightarrow> ub_state b = USDMBookBridging \<or> ub_state b = USDMBookLive"
    "ub_last b \<noteq> 0 \<longrightarrow> ub_buffer b = []" by (auto simp: usdm_ok_def split: if_splits)
  moreover have "ub_state b = USDMBookLive" if "usdm_Level b side price = Some q" for side price q
    using that usdm_Level_idle by force
  ultimately show ?thesis using ok usdm_Level_stored [OF ok] by (simp add: usdm_ok_def)
qed

text \<open>
  A live USD-M book never skips an update: in any run of updates in which the
  book stays live, the updates it reports as applied form one chain, each naming
  as its previous final ID the final ID of the one before and moving strictly
  forward, from the position before the run to the position after it.
\<close>

theorem usdm_live_chain:
  assumes "usdm_reach symb n b" "ub_state b = USDMBookLive"
    and "run_book usdm_ApplyUpdate b us = (b', log)"
    and "\<forall>(u, c, r) \<in> set log. ub_state c = USDMBookLive"
  shows "linked usdm_follows uu_final (ub_last b) (map fst (filter (\<lambda>(u, c, r). ut_applied (fst r)) log)) (ub_last b')"
  using usdm.run_linked [OF usdm_reach_ok [OF assms(1)] assms(2-4)] .

text \<open>
  C19. Seeding bridges exactly.  Take a reachable book that is not live and a snapshot with
  an ID.  Of the buffered updates, those that reach the snapshot are the first whose
  final ID is not below the snapshot's last and every later one beyond the update before
  it.  If there is none, the book holds the snapshot's non-zero levels at its ID and waits for the
  bridge.  If the first spans the snapshot's last ID and each later one names the final ID
  before it, the book is live and, at every price, holds what the last of their levels for
  that price says, or else the snapshot's non-zero level.
  Otherwise, and only then, \<open>Seed\<close> reports a gap and leaves an empty book in a new epoch.
\<close>

theorem usdm_seed_bridges:
  assumes "usdm_reach symb n b" "ub_state b \<noteq> USDMBookLive" "us_last s \<noteq> 0"
  defines "vs \<equiv> usdm_reaching (us_last s) (ub_buffer b)"
  shows "case usdm_Seed b s of (b', t, err) \<Rightarrow>
    (err = None \<longleftrightarrow> usdm_bridge (us_last s) vs) \<and>
    (if usdm_bridge (us_last s) vs then
       ub_state b' = (if vs = [] then USDMBookBridging else USDMBookLive) \<and> ub_buffer b' = [] \<and> ub_epoch b' = ub_epoch b \<and>
       ub_last b' = (if vs = [] then us_last s else uu_final (last vs)) \<and>
       (\<forall>p. go_get (ub_bids b') p = level_after (quoted (concat (map uu_bids vs))) p
              (level_after (filter (\<lambda>l. \<not> zero_text (snd l)) (quoted (us_bids s))) p None) \<and>
            go_get (ub_asks b') p = level_after (quoted (concat (map uu_asks vs))) p
              (level_after (filter (\<lambda>l. \<not> zero_text (snd l)) (quoted (us_asks s))) p None))
     else err = Some ErrUSDMBookGap \<and> ub_state b' = USDMBookGap \<and> ub_buffer b' = [] \<and> ub_epoch b' = ub_epoch b + 1 \<and>
       ub_bids b' = [] \<and> ub_asks b' = [])"
proof -
  let ?b = "b\<lparr>ub_bids := replaceUSDMSide [] (us_bids s), ub_asks := replaceUSDMSide [] (us_asks s),
     ub_last := us_last s, ub_state := USDMBookBridging, ub_buffer := []\<rparr>"
  have "\<forall>u \<in> set (ub_buffer b). usdm_validateUpdate ?b u = None"
    using usdm_reach_ok [OF assms(1)] by (simp add: usdm_ok_def)
  from usdm_seed_loop_bridge [OF _ this] have loop: "if usdm_bridge (us_last s) vs
    then fst (usdm_seed_loop ?b (ub_buffer b)) = usdm_write_all ?b vs \<and> snd (snd (usdm_seed_loop ?b (ub_buffer b))) = None
    else usdm_dropped ?b (usdm_seed_loop ?b (ub_buffer b))" by (simp add: vs_def)
  have run: "usdm_Seed b s = usdm_seed_loop ?b (ub_buffer b)" using assms(2,3) by (simp add: usdm_Seed_def)
  show ?thesis
  proof (cases "usdm_bridge (us_last s) vs")
    case True
    then show ?thesis using loop unfolding run case_prod_beta by (simp add: usdm_write_all_def level_after_apply level_after_replace)
  next
    case False
    then show ?thesis using loop unfolding run case_prod_beta by (simp add: usdm_dropped_def)
  qed
qed

subsection \<open>A run\<close>

definition sample_usdm_book :: usdm_book where
  "sample_usdm_book = \<lparr>ub_symbol = ''BTCUSDT'', ub_max = 2, ub_state = USDMBookAwaitingSnapshot, ub_epoch = 1,
     ub_last = 0, ub_buffer = [], ub_bids = [], ub_asks = []\<rparr>"

definition sample_usdm_update :: "u64 \<Rightarrow> u64 \<Rightarrow> u64 \<Rightarrow> usdm_update" where
  "sample_usdm_update f l p = \<lparr>uu_type = ''depthUpdate'', uu_event_time = 1, uu_tx_time = 1, uu_symbol = ''BTCUSDT'',
     uu_first = f, uu_final = l, uu_previous = p, uu_bids = [\<lparr>ul_price = ''9'', ul_quantity = ''2''\<rparr>], uu_asks = []\<rparr>"

definition sample_usdm_snapshot :: usdm_snapshot where
  "sample_usdm_snapshot = \<lparr>us_last = 5, us_event_time = 1, us_tx_time = 1,
     us_bids = [\<lparr>ul_price = ''8'', ul_quantity = ''1''\<rparr>], us_asks = [\<lparr>ul_price = ''10'', ul_quantity = ''0''\<rparr>]\<rparr>"

definition sample_usdm_buffered :: usdm_book where
  "sample_usdm_buffered = fst (usdm_ApplyUpdate sample_usdm_book (sample_usdm_update 4 6 3))"

definition sample_usdm_live :: usdm_book where
  "sample_usdm_live = fst (usdm_Seed sample_usdm_buffered sample_usdm_snapshot)"

lemma sample_usdm_new: "NewUSDMBookSynchronizer ''BTCUSDT'' 2 = Inr sample_usdm_book"
  by (simp add: NewUSDMBookSynchronizer_def sample_usdm_book_def)

lemma sample_usdm_reach: "usdm_reach ''BTCUSDT'' 2 sample_usdm_live"
  unfolding sample_usdm_live_def sample_usdm_buffered_def
  by (intro usdm_reach.Seed usdm_reach.Apply usdm_reach.New sample_usdm_new)

lemma normalizeCoefficientIsZero_digits:
  assumes "list_all is_digit ip" "ip \<noteq> []" "length ip \<le> 20"
  shows "normalizeCoefficientIsZero ip \<longleftrightarrow> nat_of_digits ip = 0"
proof -
  let ?z = "decimal_int False ip [] 18"
  have t: "decimal_text False ip [] = ip" by (simp add: decimal_text_def)
  have z: "?z = int (nat_of_digits ip * 10 ^ 18)" by (simp add: decimal_int_def)
  have "nat_of_digits ip < 10 ^ length ip" by (rule nat_of_digits_bound [OF assms(1)])
  also have "\<dots> \<le> 10 ^ 20" using assms(3) by (rule power_increasing) simp
  finally have "\<bar>?z\<bar> < 10 ^ 38" unfolding z by simp
  then show ?thesis
    using ParseDecimal_text [of ip "[]" False 18 ?z] assms
    by (simp add: normalizeCoefficientIsZero_def t IsZero_def big_string_zero z)
qed

lemma sample_usdm_zero: "\<not> usdm_zero \<lparr>ul_price = ''9'', ul_quantity = ''2''\<rparr>"
  "\<not> usdm_zero \<lparr>ul_price = ''8'', ul_quantity = ''1''\<rparr>" "usdm_zero \<lparr>ul_price = ''10'', ul_quantity = ''0''\<rparr>"
  by (simp_all add: usdm_zero_def normalizeCoefficientIsZero_digits is_digit_def nat_of_digits_def digit_val_def)

lemmas sample_usdm_defs = sample_usdm_book_def sample_usdm_update_def sample_usdm_snapshot_def
  usdm_ApplyUpdate_def usdm_validateUpdate_def USDMDepthUpdate_Validate_def MaxBookLevelsPerSide_def Let_def
  usdm_applyBridge_def usdm_applyLive_def usdm_write_def usdm_Seed_def sample_usdm_zero go_put_def

lemma sample_usdm_buffered_eq: "sample_usdm_buffered = sample_usdm_book\<lparr>ub_buffer := [sample_usdm_update 4 6 3]\<rparr>"
  by (simp add: sample_usdm_buffered_def sample_usdm_defs)

lemma sample_usdm_seed: "fst (usdm_Seed sample_usdm_buffered sample_usdm_snapshot) =
    sample_usdm_book\<lparr>ub_state := USDMBookLive, ub_last := 6, ub_bids := [(''8'', ''1''), (''9'', ''2'')]\<rparr> \<and>
  snd (snd (usdm_Seed sample_usdm_buffered sample_usdm_snapshot)) = None"
  by (simp add: sample_usdm_buffered_eq sample_usdm_defs)

lemma sample_usdm_runs:
  "ub_state sample_usdm_live = USDMBookLive" "usdm_Level sample_usdm_live SideBuy ''9'' = Some ''2''"
  "snd (snd (usdm_Seed sample_usdm_buffered sample_usdm_snapshot)) = None"
  using sample_usdm_seed by (simp_all add: sample_usdm_live_def usdm_Level_def go_get_def)

lemma sample_usdm_chain:
  "map (\<lambda>(u, c, r). (ub_state c = USDMBookLive, u, ut_applied (fst r)))
     (snd (run_book usdm_ApplyUpdate sample_usdm_live [sample_usdm_update 7 9 6, sample_usdm_update 10 12 9])) =
   [(True, sample_usdm_update 7 9 6, True), (True, sample_usdm_update 10 12 9, True)]"
  using sample_usdm_seed by (simp add: sample_usdm_live_def sample_usdm_defs)

theorem usdm_reachable_sound_witness:
  "usdm_Level sample_usdm_live SideBuy ''9'' = Some ''2'' \<and> ub_buffer sample_usdm_live = []"
  using usdm_reachable_sound [OF sample_usdm_reach] sample_usdm_runs(1,2) by blast

theorem usdm_live_chain_witness:
  "linked usdm_follows uu_final (ub_last sample_usdm_live) [sample_usdm_update 7 9 6, sample_usdm_update 10 12 9]
     (ub_last (fst (run_book usdm_ApplyUpdate sample_usdm_live [sample_usdm_update 7 9 6, sample_usdm_update 10 12 9])))"
proof -
  obtain b' u c r u' c' r' where run: "run_book usdm_ApplyUpdate sample_usdm_live
      [sample_usdm_update 7 9 6, sample_usdm_update 10 12 9] = (b', [(u, c, r), (u', c', r')])"
    by (simp add: Let_def case_prod_beta) (metis surj_pair)
  have eqs: "u = sample_usdm_update 7 9 6" "u' = sample_usdm_update 10 12 9" "ut_applied (fst r)" "ut_applied (fst r')"
    "ub_state c = USDMBookLive" "ub_state c' = USDMBookLive"
    using sample_usdm_chain unfolding run by auto
  show ?thesis using usdm_live_chain [OF sample_usdm_reach sample_usdm_runs(1) run] eqs unfolding run by simp
qed

lemma sample_usdm_buffered_reach: "usdm_reach ''BTCUSDT'' 2 sample_usdm_buffered"
  unfolding sample_usdm_buffered_def by (intro usdm_reach.Apply usdm_reach.New sample_usdm_new)

theorem usdm_seed_bridges_witness:
  "ub_buffer sample_usdm_buffered = [sample_usdm_update 4 6 3] \<and> ub_state (fst (usdm_Seed sample_usdm_buffered sample_usdm_snapshot)) = USDMBookLive \<and>
   ub_last (fst (usdm_Seed sample_usdm_buffered sample_usdm_snapshot)) = 6"
proof -
  let ?u = "sample_usdm_update 4 6 3"
  have "ub_state sample_usdm_buffered \<noteq> USDMBookLive" "us_last sample_usdm_snapshot \<noteq> 0" "us_last sample_usdm_snapshot = 5"
    "ub_buffer sample_usdm_buffered = [?u]"
    by (simp_all add: sample_usdm_buffered_eq sample_usdm_book_def sample_usdm_snapshot_def)
  moreover have "usdm_reaching 5 [?u] = [?u]" "usdm_bridge 5 [?u]" "uu_final ?u = 6"
    by (simp_all add: sample_usdm_update_def usdm_spans_def)
  ultimately show ?thesis
    using usdm_seed_bridges [OF sample_usdm_buffered_reach, of sample_usdm_snapshot] by (simp add: case_prod_beta)
qed

end
