(* ===== verification/Derivative.thy ===== *)
theory Derivative
  imports Normalize
begin

text \<open>
  \<open>src/normalize/derivative.go\<close>: field provenance, numeric and time fields with
  their source state, native units and values, derived values, open-interest
  observations and the validation of \<open>DerivativeTickerV1\<close>.  As in \<open>Normalize\<close>,
  a validator is a bool-valued function, true where the Go function returns nil:
  all its errors wrap the one sentinel \<open>ErrInvalidNormalized\<close>.  The zero value of
  a Go struct, against which the code compares, is written out.
\<close>

subsection \<open>Fields with a source state\<close>

definition SourceMissing :: string where "SourceMissing = ''missing''"
definition SourceNull :: string where "SourceNull = ''null''"
definition SourceEmpty :: string where "SourceEmpty = ''empty''"
definition SourceValue :: string where "SourceValue = ''value''"

definition zero_decimal :: decimal where "zero_decimal = \<lparr>coefficient = [], dec_scale = 0\<rparr>"
definition zero_unit :: nunit where "zero_unit = \<lparr>u_kind = [], u_asset = [], u_base = [], u_quote = []\<rparr>"
definition zero_numeric :: numeric where "zero_numeric = \<lparr>n_dec = zero_decimal, n_unit = zero_unit\<rparr>"

definition RateUnit :: nunit where
  "RateUnit = \<lparr>u_kind = UnitRate, u_asset = [], u_base = [], u_quote = []\<rparr>"

record field_provenance =
  fp_time :: opt_i64
  fp_resolution :: string
  fp_age :: opt_u64

definition zero_provenance :: field_provenance where
  "zero_provenance = \<lparr>fp_time = \<lparr>oi_value = 0, oi_valid = False\<rparr>, fp_resolution = [],
     fp_age = \<lparr>ou_value = 0, ou_valid = False\<rparr>\<rparr>"

definition FieldProvenance_Validate :: "field_provenance \<Rightarrow> bool \<Rightarrow> bool" where
  "FieldProvenance_Validate p observed \<longleftrightarrow>
     (if \<not> observed then p = zero_provenance \<or> p = zero_provenance\<lparr>fp_resolution := ResolutionAbsent\<rparr>
      else \<not> (oi_valid (fp_time p) \<noteq> (fp_resolution p \<noteq> ResolutionAbsent) \<or>
              \<not> validTimeResolution (fp_resolution p)) \<and>
           \<not> (\<not> oi_valid (fp_time p) \<or> oi_value (fp_time p) < 0 \<or> \<not> ou_valid (fp_age p)))"

record numeric_field =
  nf_state :: string
  nf_value :: numeric
  nf_provenance :: field_provenance

definition validFieldState :: "string \<Rightarrow> bool" where
  "validFieldState s \<longleftrightarrow> s \<in> set [SourceMissing, SourceNull, SourceEmpty, SourceValue]"

definition NumericField_Validate :: "numeric_field \<Rightarrow> bool" where
  "NumericField_Validate f \<longleftrightarrow>
     validFieldState (nf_state f) \<and>
     FieldProvenance_Validate (nf_provenance f) (nf_state f \<noteq> SourceMissing) \<and>
     (if nf_state f \<noteq> SourceValue then nf_value f = zero_numeric else Numeric_Validate (nf_value f))"

record time_field =
  tf_state :: string
  tf_value :: i64
  tf_resolution :: string
  tf_provenance :: field_provenance

definition TimeField_Validate :: "time_field \<Rightarrow> bool" where
  "TimeField_Validate f \<longleftrightarrow>
     validFieldState (tf_state f) \<and>
     FieldProvenance_Validate (tf_provenance f) (tf_state f \<noteq> SourceMissing) \<and>
     (if tf_state f \<noteq> SourceValue then \<not> (tf_value f \<noteq> 0 \<or> tf_resolution f \<noteq> ResolutionAbsent)
      else \<not> (tf_value f < 0 \<or> tf_resolution f = ResolutionAbsent \<or> \<not> validTimeResolution (tf_resolution f)))"

subsection \<open>Native units and values\<close>

definition NativeUnitBaseAsset :: string where "NativeUnitBaseAsset = ''base_asset''"
definition NativeUnitQuoteAsset :: string where "NativeUnitQuoteAsset = ''quote_asset''"
definition NativeUnitContracts :: string where "NativeUnitContracts = ''contracts''"
definition NativeUnitUSD :: string where "NativeUnitUSD = ''usd''"
definition NativeUnitRate :: string where "NativeUnitRate = ''rate''"
definition NativeUnitImpliedVolatility :: string where "NativeUnitImpliedVolatility = ''implied_volatility''"
definition NativeUnitVenueUnspecified :: string where "NativeUnitVenueUnspecified = ''venue_native_unspecified''"

definition MaxNativeUnitLabelBytes :: nat where "MaxNativeUnitLabelBytes = 128"

record native_unit =
  nu_kind :: string
  nu_asset :: string
  nu_instrument :: string
  nu_label :: string

definition zero_native_unit :: native_unit where
  "zero_native_unit = \<lparr>nu_kind = [], nu_asset = [], nu_instrument = [], nu_label = []\<rparr>"

definition NativeUnit_Validate :: "native_unit \<Rightarrow> bool" where
  "NativeUnit_Validate u \<longleftrightarrow>
     list_all (\<lambda>s. \<not> (length s > MaxUnitIDBytes \<or> has_nul s)) [nu_asset u, nu_instrument u, nu_label u] \<and>
     (if nu_kind u = NativeUnitBaseAsset \<or> nu_kind u = NativeUnitQuoteAsset then
        \<not> (nu_asset u = [] \<or> nu_instrument u \<noteq> [] \<or> nu_label u \<noteq> [])
      else if nu_kind u = NativeUnitContracts then
        \<not> (nu_asset u \<noteq> [] \<or> nu_instrument u = [] \<or> nu_label u \<noteq> [])
      else if nu_kind u = NativeUnitUSD then
        \<not> (nu_asset u \<noteq> ''USD'' \<or> nu_instrument u \<noteq> [] \<or> nu_label u \<noteq> [])
      else if nu_kind u = NativeUnitRate \<or> nu_kind u = NativeUnitImpliedVolatility then
        \<not> (nu_asset u \<noteq> [] \<or> nu_instrument u \<noteq> [] \<or> nu_label u \<noteq> [])
      else if nu_kind u = NativeUnitVenueUnspecified then
        \<not> (nu_asset u \<noteq> [] \<or> nu_instrument u \<noteq> [] \<or> nu_label u = [] \<or>
           length (nu_label u) > MaxNativeUnitLabelBytes)
      else False)"

record native_value =
  nv_dec :: decimal
  nv_unit :: native_unit

definition zero_native_value :: native_value where
  "zero_native_value = \<lparr>nv_dec = zero_decimal, nv_unit = zero_native_unit\<rparr>"

definition NativeValue_Validate :: "native_value \<Rightarrow> bool" where
  "NativeValue_Validate v \<longleftrightarrow> Decimal_Validate (nv_dec v) \<and> NativeUnit_Validate (nv_unit v)"

subsection \<open>Open interest and the derivative ticker\<close>

definition MaxReportedVariantNameBytes :: nat where "MaxReportedVariantNameBytes = 128"
definition MaxOpenInterestVariants :: nat where "MaxOpenInterestVariants = 16"
definition MaxDerivativeSourceRoleBytes :: nat where "MaxDerivativeSourceRoleBytes = 128"

record reported_value =
  rv_name :: string
  rv_value :: native_value

record derived_value =
  dv_field :: numeric_field
  dv_formula :: string
  dv_catalog :: string
  dv_confidence :: string

definition ConversionConfidenceExact :: string where "ConversionConfidenceExact = ''exact''"
definition ConversionConfidenceProvisional :: string where "ConversionConfidenceProvisional = ''provisional''"

definition DerivedValue_Validate :: "derived_value \<Rightarrow> bool" where
  "DerivedValue_Validate v \<longleftrightarrow>
     NumericField_Validate (dv_field v) \<and>
     (if nf_state (dv_field v) \<noteq> SourceValue
      then \<not> (dv_formula v \<noteq> [] \<or> dv_catalog v \<noteq> [] \<or> dv_confidence v \<noteq> [])
      else \<not> (dv_formula v = [] \<or> dv_catalog v = [] \<or>
              (dv_confidence v \<noteq> ConversionConfidenceExact \<and> dv_confidence v \<noteq> ConversionConfidenceProvisional)))"

record open_interest =
  oi_state :: string
  oi_variant :: string
  oi_native :: native_value
  oi_sidedness :: string
  oi_reported :: "reported_value list"
  oi_multiplier :: string
  oi_base :: derived_value
  oi_quote :: derived_value
  oi_usd :: derived_value
  oi_provenance :: field_provenance

definition OpenInterestSingleSide :: string where "OpenInterestSingleSide = ''single_side''"
definition OpenInterestBothSides :: string where "OpenInterestBothSides = ''both_sides''"
definition OpenInterestUnspecified :: string where "OpenInterestUnspecified = ''unspecified''"

text \<open>The loop over the reported variants, with the set of names seen.\<close>

fun reported_ok :: "string list \<Rightarrow> reported_value list \<Rightarrow> bool" where
  "reported_ok seen [] = True"
| "reported_ok seen (v # vs) =
     (\<not> (rv_name v = [] \<or> length (rv_name v) > MaxReportedVariantNameBytes \<or> has_nul (rv_name v)) \<and>
      rv_name v \<notin> set seen \<and> NativeValue_Validate (rv_value v) \<and> reported_ok (rv_name v # seen) vs)"

definition OpenInterest_Validate :: "open_interest \<Rightarrow> bool" where
  "OpenInterest_Validate o' \<longleftrightarrow>
     \<not> (\<not> validFieldState (oi_state o') \<or> oi_variant o' = [] \<or>
        length (oi_variant o') > MaxReportedVariantNameBytes \<or> has_nul (oi_variant o')) \<and>
     FieldProvenance_Validate (oi_provenance o') (oi_state o' \<noteq> SourceMissing) \<and>
     (if oi_state o' \<noteq> SourceValue
      then \<not> (oi_native o' \<noteq> zero_native_value \<or> oi_sidedness o' \<noteq> [] \<or> length (oi_reported o') \<noteq> 0 \<or>
              oi_multiplier o' \<noteq> [])
      else NativeValue_Validate (oi_native o') \<and>
           \<not> (oi_sidedness o' \<noteq> OpenInterestSingleSide \<and> oi_sidedness o' \<noteq> OpenInterestBothSides \<and>
              oi_sidedness o' \<noteq> OpenInterestUnspecified) \<and>
           \<not> length (oi_reported o') > MaxOpenInterestVariants \<and> reported_ok [] (oi_reported o')) \<and>
     list_all DerivedValue_Validate [oi_base o', oi_quote o', oi_usd o']"

record derivative_ticker =
  dt_meta :: metadata
  dt_role :: string
  dt_last :: numeric_field
  dt_mark :: numeric_field
  dt_index :: numeric_field
  dt_funding :: numeric_field
  dt_next_funding :: time_field
  dt_open_interest :: "open_interest list"
  dt_settlement :: numeric_field
  dt_basis :: numeric_field
  dt_premium :: numeric_field

fun observations_ok :: "string list \<Rightarrow> open_interest list \<Rightarrow> bool" where
  "observations_ok seen [] = True"
| "observations_ok seen (x # xs) =
     (oi_variant x \<notin> set seen \<and> OpenInterest_Validate x \<and> observations_ok (oi_variant x # seen) xs)"

definition dt_fields :: "derivative_ticker \<Rightarrow> numeric_field list" where
  "dt_fields e = [dt_last e, dt_mark e, dt_index e, dt_funding e, dt_settlement e, dt_basis e, dt_premium e]"

definition DerivativeTicker_Validate :: "(bytes \<Rightarrow> hash) \<Rightarrow> derivative_ticker \<Rightarrow> bool" where
  "DerivativeTicker_Validate sha e \<longleftrightarrow>
     validateSchema sha (dt_meta e) ''DerivativeTickerV1'' 1 \<and>
     \<not> (dt_role e = [] \<or> length (dt_role e) > MaxDerivativeSourceRoleBytes \<or> has_nul (dt_role e)) \<and>
     list_all NumericField_Validate (dt_fields e) \<and>
     TimeField_Validate (dt_next_funding e) \<and>
     \<not> length (dt_open_interest e) > MaxOpenInterestVariants \<and>
     observations_ok [] (dt_open_interest e)"

subsection \<open>What validation guarantees\<close>

lemma reported_ok_iff:
  "reported_ok seen vs \<longleftrightarrow> distinct (map rv_name vs) \<and> set seen \<inter> rv_name ` set vs = {} \<and>
     (\<forall>v \<in> set vs. rv_name v \<noteq> [] \<and> length (rv_name v) \<le> MaxReportedVariantNameBytes \<and> \<not> has_nul (rv_name v) \<and>
        NativeValue_Validate (rv_value v))"
  by (induction vs arbitrary: seen) auto

lemma observations_ok_iff:
  "observations_ok seen xs \<longleftrightarrow> distinct (map oi_variant xs) \<and> set seen \<inter> oi_variant ` set xs = {} \<and>
     (\<forall>x \<in> set xs. OpenInterest_Validate x)"
  by (induction xs arbitrary: seen) auto

definition sample_missing_field :: numeric_field where
  "sample_missing_field = \<lparr>nf_state = SourceMissing, nf_value = zero_numeric, nf_provenance = zero_provenance\<rparr>"

definition sample_provenance :: field_provenance where
  "sample_provenance = \<lparr>fp_time = \<lparr>oi_value = 5, oi_valid = True\<rparr>, fp_resolution = ''millisecond'',
     fp_age = \<lparr>ou_value = 0, ou_valid = True\<rparr>\<rparr>"

definition sample_derived :: derived_value where
  "sample_derived = \<lparr>dv_field = sample_missing_field, dv_formula = [], dv_catalog = [], dv_confidence = []\<rparr>"

definition sample_open_interest :: open_interest where
  "sample_open_interest = \<lparr>oi_state = SourceValue, oi_variant = ''contracts'',
     oi_native = \<lparr>nv_dec = \<lparr>coefficient = ''12'', dec_scale = 18\<rparr>,
        nv_unit = \<lparr>nu_kind = NativeUnitContracts, nu_asset = [], nu_instrument = ''I'', nu_label = []\<rparr>\<rparr>,
     oi_sidedness = OpenInterestUnspecified, oi_reported = [], oi_multiplier = [], oi_base = sample_derived,
     oi_quote = sample_derived, oi_usd = sample_derived, oi_provenance = sample_provenance\<rparr>"

definition sample_ticker :: derivative_ticker where
  "sample_ticker = \<lparr>dt_meta = sample_metadata\<lparr>md_schema := ''DerivativeTickerV1''\<rparr>, dt_role = ''ticker'',
     dt_last = \<lparr>nf_state = SourceValue, nf_value = \<lparr>n_dec = \<lparr>coefficient = ''7'', dec_scale = 18\<rparr>, n_unit = RateUnit\<rparr>,
       nf_provenance = sample_provenance\<rparr>,
     dt_mark = sample_missing_field, dt_index = sample_missing_field, dt_funding = sample_missing_field,
     dt_next_funding = \<lparr>tf_state = SourceMissing, tf_value = 0, tf_resolution = ResolutionAbsent,
       tf_provenance = zero_provenance\<rparr>,
     dt_open_interest = [sample_open_interest], dt_settlement = sample_missing_field,
     dt_basis = sample_missing_field, dt_premium = sample_missing_field\<rparr>"

lemma sample_ticker_valid: "DerivativeTicker_Validate (\<lambda>_. replicate 32 7) sample_ticker"
  unfolding DerivativeTicker_Validate_def validateSchema_def Metadata_Validate_def eventID_def by code_simp

end
