(* ===== verification/CoinMBook.thy ===== *)
theory CoinMBook
  imports UsdmBook Derivative
begin

text \<open>
  \<open>src/binance/coinm_book.go\<close>: the COIN-M synchronizer, a wrapper around the USD-M
  one with its own validation.  A nil synchronizer is \<^term>\<open>None\<close>.  The lemmas show
  that a run of COIN-M messages is the run of the USD-M synchronizer on the
  messages that pass the COIN-M validation, and state on the fields of a COIN-M update
  what it does to a book in each of its states.
\<close>

subsection \<open>Types and operations\<close>

datatype coinm_error = ErrCoinMInvalidMarketPayload | CoinM_USDM usdm_error

datatype coinm_state = CoinMBookAwaitingSnapshot | CoinMBookBridging | CoinMBookLive | CoinMBookClosed

definition CoinMSourceID :: string where "CoinMSourceID = ''073c210e-04b7-527b-b9b8-1d144341a534''"
definition CoinMMaxMergedRecords :: nat where "CoinMMaxMergedRecords = 20000"

record coinm_level =
  cl_price_text :: string
  cl_contracts_text :: string
  cl_price :: numeric
  cl_contracts :: native_value

record coinm_snapshot =
  cs_source :: string
  cs_symbol :: string
  cs_last :: u64
  cs_event_time :: i64
  cs_tx_time :: i64
  cs_bids :: "coinm_level list"
  cs_asks :: "coinm_level list"

record coinm_update =
  cu_source :: string
  cu_symbol_type :: u8
  cu_type :: string
  cu_event_time :: i64
  cu_tx_time :: i64
  cu_symbol :: string
  cu_pair :: string
  cu_first :: u64
  cu_final :: u64
  cu_previous :: u64
  cu_bids :: "coinm_level list"
  cu_asks :: "coinm_level list"

text \<open>The zero value of the transition has the empty state text, here \<^term>\<open>None\<close>.\<close>

record coinm_transition =
  ct_state :: "coinm_state option"
  ct_epoch :: u64
  ct_last :: u64
  ct_applied :: bool
  ct_stale :: bool
  ct_needs :: bool
  ct_error :: "usdm_error option"

type_synonym coinm_book = "usdm_book option"
type_synonym coinm_outcome = "coinm_book \<times> coinm_transition \<times> coinm_error option"

definition zero_coinm_transition :: coinm_transition where
  "zero_coinm_transition = \<lparr>ct_state = None, ct_epoch = 0, ct_last = 0, ct_applied = False, ct_stale = False,
     ct_needs = False, ct_error = None\<rparr>"

definition CoinMDepthUpdate_Validate :: "coinm_update \<Rightarrow> bool" where
  "CoinMDepthUpdate_Validate u \<longleftrightarrow>
     \<not> (cu_source u \<noteq> CoinMSourceID \<or> cu_symbol_type u \<noteq> 2 \<or> cu_type u \<noteq> ''depthUpdate'' \<or> cu_symbol u = [] \<or>
        cu_first u = 0 \<or> cu_final u < cu_first u \<or> length (cu_bids u) > CoinMMaxMergedRecords \<or>
        length (cu_asks u) > CoinMMaxMergedRecords)"

definition coinMUSDMLevels :: "coinm_level list \<Rightarrow> usdm_level list" where
  "coinMUSDMLevels ls = map (\<lambda>l. \<lparr>ul_price = cl_price_text l, ul_quantity = cl_contracts_text l\<rparr>) ls"

fun coinMBookState :: "usdm_state \<Rightarrow> coinm_state" where
  "coinMBookState USDMBookAwaitingSnapshot = CoinMBookAwaitingSnapshot"
| "coinMBookState USDMBookBridging = CoinMBookBridging"
| "coinMBookState USDMBookLive = CoinMBookLive"
| "coinMBookState USDMBookGap = CoinMBookClosed"

definition coinMBookTransition :: "usdm_transition \<Rightarrow> coinm_transition" where
  "coinMBookTransition t = \<lparr>ct_state = Some (coinMBookState (ut_state t)), ct_epoch = ut_epoch t, ct_last = ut_last t,
     ct_applied = ut_applied t, ct_stale = ut_stale t, ct_needs = ut_needs t, ct_error = ut_error t\<rparr>"

definition NewCoinMBookSynchronizer :: "string \<Rightarrow> int \<Rightarrow> usdm_error + coinm_book" where
  "NewCoinMBookSynchronizer symb n =
     (case NewUSDMBookSynchronizer symb n of Inl err \<Rightarrow> Inl err | Inr inner \<Rightarrow> Inr (Some inner))"

definition coinm_State :: "coinm_book \<Rightarrow> coinm_state" where
  "coinm_State b = (case b of None \<Rightarrow> CoinMBookClosed | Some inner \<Rightarrow> coinMBookState (ub_state inner))"

definition coinm_Epoch :: "coinm_book \<Rightarrow> u64" where
  "coinm_Epoch b = (case b of None \<Rightarrow> 0 | Some inner \<Rightarrow> ub_epoch inner)"

definition coinm_LastUpdateID :: "coinm_book \<Rightarrow> u64" where
  "coinm_LastUpdateID b = (case b of None \<Rightarrow> 0 | Some inner \<Rightarrow> ub_last inner)"

definition coinm_usdm_update :: "coinm_update \<Rightarrow> usdm_update" where
  "coinm_usdm_update u = \<lparr>uu_type = cu_type u, uu_event_time = cu_event_time u, uu_tx_time = cu_tx_time u,
     uu_symbol = cu_symbol u, uu_first = cu_first u, uu_final = cu_final u, uu_previous = cu_previous u,
     uu_bids = coinMUSDMLevels (cu_bids u), uu_asks = coinMUSDMLevels (cu_asks u)\<rparr>"

definition coinm_ApplyUpdate :: "coinm_book \<Rightarrow> coinm_update \<Rightarrow> coinm_outcome" where
  "coinm_ApplyUpdate b u =
     (case b of
        None \<Rightarrow> (None, zero_coinm_transition, Some ErrCoinMInvalidMarketPayload)
      | Some inner \<Rightarrow>
         if \<not> CoinMDepthUpdate_Validate u then (b, zero_coinm_transition, Some ErrCoinMInvalidMarketPayload)
         else (case usdm_ApplyUpdate inner (coinm_usdm_update u) of
                 (inner', t, err) \<Rightarrow> (Some inner', coinMBookTransition t, map_option CoinM_USDM err)))"

definition coinm_usdm_snapshot :: "coinm_snapshot \<Rightarrow> usdm_snapshot" where
  "coinm_usdm_snapshot s = \<lparr>us_last = cs_last s, us_event_time = cs_event_time s, us_tx_time = cs_tx_time s,
     us_bids = coinMUSDMLevels (cs_bids s), us_asks = coinMUSDMLevels (cs_asks s)\<rparr>"

definition coinm_Seed :: "coinm_book \<Rightarrow> coinm_snapshot \<Rightarrow> coinm_outcome" where
  "coinm_Seed b s =
     (case b of
        None \<Rightarrow> (None, zero_coinm_transition, Some ErrCoinMInvalidMarketPayload)
      | Some inner \<Rightarrow>
         if cs_source s \<noteq> CoinMSourceID \<or> cs_symbol s = [] \<or> cs_last s = 0
         then (b, zero_coinm_transition, Some ErrCoinMInvalidMarketPayload)
         else (case usdm_Seed inner (coinm_usdm_snapshot s) of
                 (inner', t, err) \<Rightarrow> (Some inner', coinMBookTransition t, map_option CoinM_USDM err)))"

definition coinm_Level :: "coinm_book \<Rightarrow> string \<Rightarrow> string \<Rightarrow> string option" where
  "coinm_Level b side price = (case b of None \<Rightarrow> None | Some inner \<Rightarrow> usdm_Level inner side price)"

subsection \<open>Refinement\<close>

lemma coinm_ApplyUpdate_Some:
  "coinm_ApplyUpdate (Some inner) u =
     (if CoinMDepthUpdate_Validate u
      then (Some (fst (usdm_ApplyUpdate inner (coinm_usdm_update u))),
            coinMBookTransition (fst (snd (usdm_ApplyUpdate inner (coinm_usdm_update u)))),
            map_option CoinM_USDM (snd (snd (usdm_ApplyUpdate inner (coinm_usdm_update u)))))
      else (Some inner, zero_coinm_transition, Some ErrCoinMInvalidMarketPayload))"
  by (simp add: coinm_ApplyUpdate_def case_prod_beta)

lemma coinm_Seed_Some: "\<exists>inner'. fst (coinm_Seed (Some inner) s) = Some inner' \<and>
    (inner' = inner \<or> inner' = fst (usdm_Seed inner (coinm_usdm_snapshot s)))"
  by (simp add: coinm_Seed_def case_prod_beta)

text \<open>A run of COIN-M updates is the USD-M run of those that pass the COIN-M validation.\<close>

lemma coinm_run_usdm:
  "fst (run_book coinm_ApplyUpdate (Some inner) us) =
     Some (fst (run_book usdm_ApplyUpdate inner (map coinm_usdm_update (filter CoinMDepthUpdate_Validate us)))) \<and>
   map (\<lambda>(u, c, r). r) (filter (\<lambda>(u, c, r). CoinMDepthUpdate_Validate u) (snd (run_book coinm_ApplyUpdate (Some inner) us))) =
     map (\<lambda>(u, c, t, err). (coinMBookTransition t, map_option CoinM_USDM err))
       (snd (run_book usdm_ApplyUpdate inner (map coinm_usdm_update (filter CoinMDepthUpdate_Validate us))))"
  by (induction us arbitrary: inner) (simp_all add: coinm_ApplyUpdate_Some case_prod_beta Let_def)

inductive coinm_reach :: "string \<Rightarrow> int \<Rightarrow> coinm_book \<Rightarrow> bool" for symb n where
  New: "NewCoinMBookSynchronizer symb n = Inr b \<Longrightarrow> coinm_reach symb n b"
| Apply: "coinm_reach symb n b \<Longrightarrow> coinm_reach symb n (fst (coinm_ApplyUpdate b u))"
| Seed: "coinm_reach symb n b \<Longrightarrow> coinm_reach symb n (fst (coinm_Seed b s))"

lemma coinm_reach_usdm: "coinm_reach symb n b \<Longrightarrow> \<exists>inner. b = Some inner \<and> usdm_reach symb n inner"
proof (induction rule: coinm_reach.induct)
  case (New b)
  then show ?case
    by (auto simp: NewCoinMBookSynchronizer_def split: sum.splits intro: usdm_reach.New)
next
  case (Apply b u)
  then obtain inner where "b = Some inner" "usdm_reach symb n inner" by blast
  then show ?case by (auto simp: coinm_ApplyUpdate_Some intro: usdm_reach.Apply)
next
  case (Seed b s)
  then obtain inner where "b = Some inner" "usdm_reach symb n inner" by blast
  then show ?case using coinm_Seed_Some [of inner s] by (auto intro: usdm_reach.Seed)
qed

text \<open>
  A COIN-M book that the program can reach wraps a USD-M book that the USD-M operations
  can reach, and a run of COIN-M updates leaves in it the book that the USD-M
  synchronizer leaves on the updates that pass the COIN-M validation.
\<close>

lemma coinm_refines_usdm:
  assumes "coinm_reach symb n b"
  shows "\<exists>inner. b = Some inner \<and> usdm_reach symb n inner \<and>
    fst (run_book coinm_ApplyUpdate b us) =
      Some (fst (run_book usdm_ApplyUpdate inner (map coinm_usdm_update (filter CoinMDepthUpdate_Validate us))))"
  using coinm_reach_usdm [OF assms] coinm_run_usdm by auto

subsection \<open>What an update does\<close>

text \<open>The updates a book of a symbol takes, in the fields of the update.\<close>

definition coinm_acceptable :: "string \<Rightarrow> coinm_update \<Rightarrow> bool" where
  "coinm_acceptable symb u \<longleftrightarrow> cu_source u = ''073c210e-04b7-527b-b9b8-1d144341a534'' \<and> cu_symbol_type u = 2 \<and>
     cu_type u = ''depthUpdate'' \<and> cu_symbol u = symb \<and> 0 \<le> cu_event_time u \<and> 0 \<le> cu_tx_time u \<and>
     0 < unat (cu_first u) \<and> cu_first u \<le> cu_final u \<and>
     length (cu_bids u) \<le> min 20000 MaxBookLevelsPerSide \<and> length (cu_asks u) \<le> min 20000 MaxBookLevelsPerSide"

definition coinm_quoted :: "coinm_level list \<Rightarrow> (string \<times> string) list" where
  "coinm_quoted ls = map (\<lambda>l. (cl_price_text l, cl_contracts_text l)) ls"

text \<open>
  What an update can do to a book: move it to the update's final ID with its levels
  applied, close its epoch, enter the buffer, or nothing.
\<close>

definition coinm_moves :: "coinm_update \<Rightarrow> usdm_book \<Rightarrow> coinm_outcome \<Rightarrow> bool" where
  "coinm_moves u inner r \<longleftrightarrow> (case r of (b', t, err) \<Rightarrow> err = None \<and> ct_applied t \<and> \<not> ct_stale t \<and> coinm_State b' = CoinMBookLive \<and>
     coinm_LastUpdateID b' = cu_final u \<and> coinm_Epoch b' = ub_epoch inner \<and>
     (\<forall>p. coinm_Level b' SideBuy p = level_after (coinm_quoted (cu_bids u)) p (go_get (ub_bids inner) p) \<and>
          coinm_Level b' SideSell p = level_after (coinm_quoted (cu_asks u)) p (go_get (ub_asks inner) p)))"

definition coinm_closes :: "usdm_error \<Rightarrow> usdm_book \<Rightarrow> coinm_outcome \<Rightarrow> bool" where
  "coinm_closes cause inner r \<longleftrightarrow> (case r of (b', t, err) \<Rightarrow> err = Some (CoinM_USDM cause) \<and> \<not> ct_applied t \<and>
     coinm_State b' = CoinMBookClosed \<and> coinm_LastUpdateID b' = 0 \<and> coinm_Epoch b' = ub_epoch inner + 1 \<and>
     (\<exists>inner'. b' = Some inner' \<and> ub_buffer inner' = [] \<and> ub_bids inner' = [] \<and> ub_asks inner' = []))"

definition coinm_buffers :: "coinm_update \<Rightarrow> usdm_book \<Rightarrow> coinm_outcome \<Rightarrow> bool" where
  "coinm_buffers u inner r \<longleftrightarrow> (case r of (b', t, err) \<Rightarrow> err = None \<and> \<not> ct_applied t \<and>
     (\<exists>v. b' = Some (inner\<lparr>ub_buffer := ub_buffer inner @ [v]\<rparr>) \<and> uu_symbol v = cu_symbol u \<and> uu_first v = cu_first u \<and>
        uu_final v = cu_final u \<and> uu_previous v = cu_previous u \<and> uu_event_time v = cu_event_time u \<and> uu_tx_time v = cu_tx_time u \<and>
        quoted (uu_bids v) = coinm_quoted (cu_bids u) \<and> quoted (uu_asks v) = coinm_quoted (cu_asks u)))"

definition coinm_keeps :: "coinm_book \<Rightarrow> coinm_outcome \<Rightarrow> bool" where
  "coinm_keeps b r \<longleftrightarrow> (case r of (b', t, err) \<Rightarrow> b' = b \<and> err = None \<and> ct_stale t \<and> \<not> ct_applied t)"

lemma usdm_reach_symbol: "usdm_reach symb n b \<Longrightarrow> ub_symbol b = symb \<and> symb \<noteq> []"
proof (induction rule: usdm_reach.induct)
  case (New b)
  then show ?case by (auto simp: NewUSDMBookSynchronizer_def split: if_splits)
next
  case (Apply b u)
  then show ?case using usdm_ApplyUpdate_symbol by simp
next
  case (Seed b s)
  then show ?case using usdm_Seed_symbol by simp
qed

lemma coinm_acceptable_iff:
  "symb \<noteq> [] \<Longrightarrow> ub_symbol inner = symb \<Longrightarrow>
   coinm_acceptable symb u \<longleftrightarrow> CoinMDepthUpdate_Validate u \<and> usdm_validateUpdate inner (coinm_usdm_update u) = None"
  by (auto simp: coinm_acceptable_def CoinMDepthUpdate_Validate_def usdm_validateUpdate_def USDMDepthUpdate_Validate_def
      coinm_usdm_update_def coinMUSDMLevels_def CoinMSourceID_def CoinMMaxMergedRecords_def unat_gt_0 split: if_splits)

lemma quoted_coinm [simp]: "quoted (coinMUSDMLevels ls) = coinm_quoted ls"
  by (simp add: quoted_def coinMUSDMLevels_def coinm_quoted_def)

lemma coinm_moves_write:
  "inner' = (usdm_write inner (coinm_usdm_update u))\<lparr>ub_state := USDMBookLive\<rparr> \<Longrightarrow>
   coinm_moves u inner (Some inner', coinMBookTransition (usdm_transition_of inner' True False None), None)"
  by (auto simp: coinm_moves_def coinMBookTransition_def usdm_transition_of_def coinm_State_def coinm_LastUpdateID_def
      coinm_Epoch_def coinm_Level_def usdm_Level_def usdm_write_def coinm_usdm_update_def level_after_apply SideBuy_def SideSell_def)

text \<open>
  C21. What a COIN-M update does, in its own fields.  A reachable book refuses an update that
  is not for its source, symbol type, event type and symbol, or has a negative time, no
  first ID, IDs out of order or too many levels, and is unchanged.  Any other update:
  a live book ignores it when its final ID is not beyond the book's, applies it when
  it names the book's ID as the previous one, and otherwise closes; a bridging book ignores
  it when its final ID is below the snapshot's, applies it when its IDs span the
  snapshot's, and otherwise closes; a book without a snapshot appends it to the buffer, or
  closes when that is full.  Applying sets the book's ID to the final ID and, at every
  price, the quantity of the last level for that price, none if that is zero.
\<close>

theorem coinm_update_exact:
  assumes "coinm_reach symb n b"
  shows "\<exists>inner. b = Some inner \<and>
    (if \<not> coinm_acceptable symb u
     then fst (coinm_ApplyUpdate b u) = b \<and> snd (snd (coinm_ApplyUpdate b u)) \<noteq> None \<and> \<not> ct_applied (fst (snd (coinm_ApplyUpdate b u)))
     else case coinm_State b of
       CoinMBookLive \<Rightarrow>
         if cu_final u \<le> coinm_LastUpdateID b then coinm_keeps b (coinm_ApplyUpdate b u)
         else if cu_previous u = coinm_LastUpdateID b then coinm_moves u inner (coinm_ApplyUpdate b u)
         else coinm_closes ErrUSDMBookGap inner (coinm_ApplyUpdate b u)
     | CoinMBookBridging \<Rightarrow>
         if cu_final u < coinm_LastUpdateID b then coinm_keeps b (coinm_ApplyUpdate b u)
         else if cu_first u \<le> coinm_LastUpdateID b then coinm_moves u inner (coinm_ApplyUpdate b u)
         else coinm_closes ErrUSDMBookGap inner (coinm_ApplyUpdate b u)
     | _ \<Rightarrow>
         if int (length (ub_buffer inner)) < ub_max inner then coinm_buffers u inner (coinm_ApplyUpdate b u)
         else coinm_closes ErrUSDMBufferOverflow inner (coinm_ApplyUpdate b u))"
proof -
  obtain inner where inner: "b = Some inner" "usdm_reach symb n inner" using coinm_reach_usdm [OF assms] by blast
  have sym: "symb \<noteq> []" "ub_symbol inner = symb" using usdm_reach_symbol [OF inner(2)] by simp_all
  note acc = coinm_acceptable_iff [OF sym]
  have room: "int (length (ub_buffer inner)) \<le> ub_max inner" using usdm_reach_ok [OF inner(2)] by (simp add: usdm_ok_def)
  have fields: "uu_final (coinm_usdm_update u) = cu_final u" "uu_first (coinm_usdm_update u) = cu_first u"
    "uu_previous (coinm_usdm_update u) = cu_previous u" by (simp_all add: coinm_usdm_update_def)
  let ?v = "coinm_usdm_update u"
  show ?thesis
  proof (cases "coinm_acceptable symb u")
    case False
    then show ?thesis using acc inner(1)
      by (auto simp: coinm_ApplyUpdate_Some usdm_ApplyUpdate_def coinMBookTransition_def usdm_transition_of_def zero_coinm_transition_def)
  next
    case True
    then have run: "coinm_ApplyUpdate b u = (Some (fst (usdm_ApplyUpdate inner ?v)),
        coinMBookTransition (fst (snd (usdm_ApplyUpdate inner ?v))), map_option CoinM_USDM (snd (snd (usdm_ApplyUpdate inner ?v))))"
      and ok: "usdm_validateUpdate inner ?v = None" using acc inner(1) by (simp_all add: coinm_ApplyUpdate_Some)
    have closes: "coinm_closes cause inner (Some (fst (usdm_closeEpoch inner cause)),
        coinMBookTransition (snd (usdm_closeEpoch inner cause)), Some (CoinM_USDM cause))" for cause
      by (simp add: coinm_closes_def usdm_closeEpoch_def Let_def coinMBookTransition_def coinm_State_def coinm_LastUpdateID_def coinm_Epoch_def)
    have keeps: "coinm_keeps b (Some inner, coinMBookTransition (usdm_transition_of inner False True None), None)"
      using inner(1) by (simp add: coinm_keeps_def coinMBookTransition_def usdm_transition_of_def)
    have buffers: "coinm_buffers u inner (Some (inner\<lparr>ub_buffer := ub_buffer inner @ [?v]\<rparr>),
        coinMBookTransition (usdm_transition_of (inner\<lparr>ub_buffer := ub_buffer inner @ [?v]\<rparr>) False False None), None)"
      by (auto simp: coinm_buffers_def coinMBookTransition_def usdm_transition_of_def coinm_usdm_update_def)
    note moves = coinm_moves_write [of "(usdm_write inner ?v)\<lparr>ub_state := USDMBookLive\<rparr>" inner u, OF refl]
    have live: "usdm_write inner ?v = (usdm_write inner ?v)\<lparr>ub_state := USDMBookLive\<rparr>" if "ub_state inner = USDMBookLive"
      using that by (simp add: usdm_write_def)
    show ?thesis
    proof (intro exI conjI)
      show "b = Some inner" by (rule inner(1))
      show "if \<not> coinm_acceptable symb u
     then fst (coinm_ApplyUpdate b u) = b \<and> snd (snd (coinm_ApplyUpdate b u)) \<noteq> None \<and> \<not> ct_applied (fst (snd (coinm_ApplyUpdate b u)))
     else case coinm_State b of
       CoinMBookLive \<Rightarrow>
         if cu_final u \<le> coinm_LastUpdateID b then coinm_keeps b (coinm_ApplyUpdate b u)
         else if cu_previous u = coinm_LastUpdateID b then coinm_moves u inner (coinm_ApplyUpdate b u)
         else coinm_closes ErrUSDMBookGap inner (coinm_ApplyUpdate b u)
     | CoinMBookBridging \<Rightarrow>
         if cu_final u < coinm_LastUpdateID b then coinm_keeps b (coinm_ApplyUpdate b u)
         else if cu_first u \<le> coinm_LastUpdateID b then coinm_moves u inner (coinm_ApplyUpdate b u)
         else coinm_closes ErrUSDMBookGap inner (coinm_ApplyUpdate b u)
     | _ \<Rightarrow>
         if int (length (ub_buffer inner)) < ub_max inner then coinm_buffers u inner (coinm_ApplyUpdate b u)
         else coinm_closes ErrUSDMBufferOverflow inner (coinm_ApplyUpdate b u)"
        unfolding run
        using True ok closes keeps buffers moves live room inner(1) fields
        by (cases "ub_state inner")
          (auto simp: usdm_ApplyUpdate_def usdm_applyLive_def usdm_applyBridge_def Let_def case_prod_beta coinm_State_def
            coinm_LastUpdateID_def not_less not_le)
    qed
  qed
qed

subsection \<open>A run\<close>

definition sample_coinm_level :: "string \<Rightarrow> string \<Rightarrow> coinm_level" where
  "sample_coinm_level p q = \<lparr>cl_price_text = p, cl_contracts_text = q, cl_price = zero_numeric, cl_contracts = zero_native_value\<rparr>"

definition sample_coinm_update :: "u64 \<Rightarrow> u64 \<Rightarrow> u64 \<Rightarrow> string \<Rightarrow> coinm_update" where
  "sample_coinm_update f l p q = \<lparr>cu_source = CoinMSourceID, cu_symbol_type = 2, cu_type = ''depthUpdate'', cu_event_time = 1,
     cu_tx_time = 1, cu_symbol = ''BTCUSDT'', cu_pair = ''BTCUSD'', cu_first = f, cu_final = l, cu_previous = p,
     cu_bids = [sample_coinm_level ''9'' q], cu_asks = []\<rparr>"

definition sample_coinm_snapshot :: coinm_snapshot where
  "sample_coinm_snapshot = \<lparr>cs_source = CoinMSourceID, cs_symbol = ''BTCUSDT'', cs_last = 5, cs_event_time = 1, cs_tx_time = 1,
     cs_bids = [sample_coinm_level ''8'' ''1''], cs_asks = [sample_coinm_level ''10'' ''0'']\<rparr>"

definition sample_coinm_live :: coinm_book where
  "sample_coinm_live =
     fst (coinm_Seed (fst (coinm_ApplyUpdate (Some sample_usdm_book) (sample_coinm_update 4 6 3 ''2''))) sample_coinm_snapshot)"

lemma sample_coinm_usdm: "coinm_usdm_update (sample_coinm_update f l p ''2'') = sample_usdm_update f l p"
  "coinm_usdm_snapshot sample_coinm_snapshot = sample_usdm_snapshot"
  by (simp_all add: coinm_usdm_update_def coinm_usdm_snapshot_def sample_coinm_update_def sample_coinm_snapshot_def
      sample_coinm_level_def coinMUSDMLevels_def sample_usdm_update_def sample_usdm_snapshot_def)

lemma sample_coinm_valid: "CoinMDepthUpdate_Validate (sample_coinm_update 4 6 3 q)"
  by (simp add: CoinMDepthUpdate_Validate_def sample_coinm_update_def CoinMMaxMergedRecords_def)

lemma sample_coinm_live_eq: "sample_coinm_live = Some sample_usdm_live"
proof -
  have "fst (coinm_ApplyUpdate (Some sample_usdm_book) (sample_coinm_update 4 6 3 ''2'')) = Some sample_usdm_buffered"
    by (simp add: coinm_ApplyUpdate_Some sample_coinm_valid sample_coinm_usdm sample_usdm_buffered_def)
  then show ?thesis
    by (simp add: sample_coinm_live_def coinm_Seed_def case_prod_beta sample_coinm_usdm sample_usdm_live_def)
      (simp add: sample_coinm_snapshot_def)
qed

lemma sample_coinm_reach: "coinm_reach ''BTCUSDT'' 2 sample_coinm_live"
  unfolding sample_coinm_live_def
  by (intro coinm_reach.Seed coinm_reach.Apply coinm_reach.New) (simp add: NewCoinMBookSynchronizer_def sample_usdm_new)

lemma sample_coinm_acceptable: "coinm_acceptable ''BTCUSDT'' (sample_coinm_update 7 9 6 q)"
  by (simp add: coinm_acceptable_def sample_coinm_update_def CoinMSourceID_def MaxBookLevelsPerSide_def)

theorem coinm_update_exact_witness:
  "coinm_State sample_coinm_live = CoinMBookLive \<and> coinm_LastUpdateID sample_coinm_live = 6 \<and>
   (case coinm_ApplyUpdate sample_coinm_live (sample_coinm_update 7 9 6 ''0'') of (b', t, err) \<Rightarrow>
      err = None \<and> ct_applied t \<and> coinm_LastUpdateID b' = 9 \<and>
      coinm_Level b' SideBuy ''9'' = None \<and> coinm_Level b' SideBuy ''8'' = Some ''1'')"
proof -
  let ?u = "sample_coinm_update 7 9 6 ''0''"
  have live: "coinm_State sample_coinm_live = CoinMBookLive" "coinm_LastUpdateID sample_coinm_live = 6"
    "ub_bids sample_usdm_live = [(''8'', ''1''), (''9'', ''2'')]"
    using sample_usdm_seed by (simp_all add: sample_coinm_live_eq coinm_State_def coinm_LastUpdateID_def sample_usdm_live_def)
  have u: "cu_final ?u = 9" "cu_previous ?u = 6" "coinm_quoted (cu_bids ?u) = [(''9'', ''0'')]"
    by (simp_all add: sample_coinm_update_def coinm_quoted_def sample_coinm_level_def)
  have "coinm_moves ?u sample_usdm_live (coinm_ApplyUpdate sample_coinm_live ?u)"
    using coinm_update_exact [OF sample_coinm_reach, of ?u] live u sample_coinm_acceptable by (simp add: sample_coinm_live_eq)
  then show ?thesis
    using live u by (simp add: coinm_moves_def case_prod_beta level_after_def zero_text_def go_get_def)
qed

end
