(* ===== verification/DeribitUnits.thy ===== *)
theory DeribitUnits
  imports Derivative
begin

text \<open>
  \<open>src/normalize/deribit.go\<close>: the temporal instrument terms, the inference of the
  amount unit from them, native amounts and the validation of a Deribit book
  update.  A validator is true where the Go function returns nil; an operation
  that returns a value together with an error returns both.
\<close>

subsection \<open>Constants and terms\<close>

definition DeribitUnitInferenceVersion :: string where
  "DeribitUnitInferenceVersion = ''deribit_temporal_instrument_type_contract_size_v1''"
definition DeribitFixtureClassificationSynthetic :: string where
  "DeribitFixtureClassificationSynthetic = ''synthetic''"
definition DeribitInstrumentProvenanceURL :: string where
  "DeribitInstrumentProvenanceURL = ''https://docs.deribit.com/api-reference/market-data/public-get_instruments''"
definition DeribitInstrumentProvenanceSection :: string where
  "DeribitInstrumentProvenanceSection = ''components.schemas.instrument.properties.contract_size''"
definition DeribitInstrumentDerivedFrom :: string where
  "DeribitInstrumentDerivedFrom = DeribitInstrumentProvenanceURL @ ''#'' @ DeribitInstrumentProvenanceSection"

definition DeribitInstrumentFuture :: string where "DeribitInstrumentFuture = ''future''"
definition DeribitInstrumentOption :: string where "DeribitInstrumentOption = ''option''"
definition DeribitInstrumentSpot :: string where "DeribitInstrumentSpot = ''spot''"
definition DeribitInstrumentLinear :: string where "DeribitInstrumentLinear = ''linear''"
definition DeribitInstrumentReversed :: string where "DeribitInstrumentReversed = ''reversed''"
definition DeribitInferenceProvisional :: string where "DeribitInferenceProvisional = ''provisional''"
definition DeribitInferenceFixtureProven :: string where "DeribitInferenceFixtureProven = ''fixture_proven''"

text \<open>\<open>capture.RuleAuthority\<close>: \<open>iota + 1\<close> numbers the official rule 1 and the inferred one 2.\<close>

definition RuleAdapterPolicyInference :: u8 where "RuleAdapterPolicyInference = 2"

record deribit_terms =
  de_uid :: string
  de_name :: string
  de_kind :: string
  de_type :: string
  de_base :: string
  de_quote :: string
  de_counter :: string
  de_settlement :: string
  de_size :: decimal
  de_size_state :: string
  de_from :: i64
  de_until :: opt_i64
  de_generation :: u64
  de_raw_hash :: hash
  de_documented :: i64
  de_fixture :: string
  de_url :: string
  de_section :: string
  de_derived :: string

definition positiveDeribitDecimal :: "decimal \<Rightarrow> bool" where
  "positiveDeribitDecimal d \<longleftrightarrow> coefficient d \<noteq> ''0'' \<and> \<not> has_minus (coefficient d)"

definition DeribitTerms_Validate :: "deribit_terms \<Rightarrow> bool" where
  "DeribitTerms_Validate t \<longleftrightarrow>
     list_all (\<lambda>s. \<not> (s = [] \<or> length s > MaxUnitIDBytes \<or> has_nul s))
       [de_uid t, de_name t, de_base t, de_quote t, de_counter t, de_settlement t] \<and>
     \<not> (de_kind t \<noteq> DeribitInstrumentFuture \<and> de_kind t \<noteq> DeribitInstrumentOption \<and> de_kind t \<noteq> DeribitInstrumentSpot) \<and>
     \<not> (de_type t \<noteq> [] \<and> de_type t \<noteq> DeribitInstrumentLinear \<and> de_type t \<noteq> DeribitInstrumentReversed) \<and>
     \<not> (de_from t < 0 \<or> (\<not> oi_valid (de_until t) \<and> oi_value (de_until t) \<noteq> 0) \<or>
        (oi_valid (de_until t) \<and> oi_value (de_until t) \<le> de_from t)) \<and>
     \<not> de_documented t \<le> 0 \<and>
     list_all (\<lambda>s. \<not> (length s > 512 \<or> has_nul s)) [de_fixture t, de_url t, de_section t, de_derived t] \<and>
     (if de_size_state t = SourceMissing \<or> de_size_state t = SourceNull then de_size t = zero_decimal
      else if de_size_state t = SourceValue then
        Decimal_Validate (de_size t) \<and> dec_scale (de_size t) = CanonicalAmountScale \<and> positiveDeribitDecimal (de_size t)
      else False)"

definition DeribitTerms_Contains :: "deribit_terms \<Rightarrow> i64 \<Rightarrow> bool" where
  "DeribitTerms_Contains t observed \<longleftrightarrow>
     observed \<ge> de_from t \<and> (\<not> oi_valid (de_until t) \<or> observed < oi_value (de_until t))"

datatype unit_error = ErrInvalidDeribitInference | ErrInvalidNormalizedUnit

definition PremiumPriceUnit :: "deribit_terms \<Rightarrow> nunit \<times> unit_error option" where
  "PremiumPriceUnit t =
     (if \<not> DeribitTerms_Validate t then (zero_unit, Some ErrInvalidDeribitInference)
      else let u = (if de_kind t = DeribitInstrumentOption then BaseAssetUnit (de_base t)
                    else SpotPriceUnit (de_base t) (de_quote t))
        in (u, if Unit_Validate u then None else Some ErrInvalidNormalizedUnit))"

definition ReferencePriceUnit :: "deribit_terms \<Rightarrow> nunit \<times> unit_error option" where
  "ReferencePriceUnit t =
     (if \<not> DeribitTerms_Validate t then (zero_unit, Some ErrInvalidDeribitInference)
      else let u = SpotPriceUnit (de_base t) (de_counter t)
        in (u, if Unit_Validate u then None else Some ErrInvalidNormalizedUnit))"

subsection \<open>The inference\<close>

record deribit_inference =
  df_version :: string
  df_state :: string
  df_authority :: u8
  df_unit :: native_unit
  df_uid :: string
  df_generation :: u64
  df_raw_hash :: hash
  df_documented :: i64
  df_reason :: string
  df_fixture :: string
  df_url :: string
  df_section :: string
  df_derived :: string

definition DeribitInference_Validate :: "deribit_inference \<Rightarrow> bool" where
  "DeribitInference_Validate i \<longleftrightarrow>
     \<not> (df_version i \<noteq> DeribitUnitInferenceVersion \<or> df_authority i \<noteq> RuleAdapterPolicyInference \<or>
        df_uid i = [] \<or> length (df_uid i) > MaxUnitIDBytes \<or> has_nul (df_uid i) \<or>
        df_documented i \<le> 0 \<or> length (df_reason i) > MaxNativeUnitLabelBytes \<or> has_nul (df_reason i)) \<and>
     NativeUnit_Validate (df_unit i) \<and>
     (if df_state i = DeribitInferenceProvisional then
        \<not> (nu_kind (df_unit i) \<noteq> NativeUnitVenueUnspecified \<or> df_generation i \<noteq> 0 \<or> df_raw_hash i \<noteq> zero_hash \<or>
           df_fixture i \<noteq> [] \<or> df_url i \<noteq> [] \<or> df_section i \<noteq> [] \<or> df_derived i \<noteq> [] \<or> df_reason i = [])
      else if df_state i = DeribitInferenceFixtureProven then
        \<not> (df_generation i = 0 \<or> df_raw_hash i = zero_hash \<or> df_reason i \<noteq> [] \<or>
           df_fixture i \<noteq> DeribitFixtureClassificationSynthetic \<or> df_url i \<noteq> DeribitInstrumentProvenanceURL \<or>
           df_section i \<noteq> DeribitInstrumentProvenanceSection \<or> df_derived i \<noteq> DeribitInstrumentDerivedFrom \<or>
           (nu_kind (df_unit i) \<noteq> NativeUnitUSD \<and> nu_kind (df_unit i) \<noteq> NativeUnitBaseAsset))
      else False)"

definition zero_inference :: deribit_inference where
  "zero_inference = \<lparr>df_version = [], df_state = [], df_authority = 0, df_unit = zero_native_unit, df_uid = [],
     df_generation = 0, df_raw_hash = zero_hash, df_documented = 0, df_reason = [], df_fixture = [], df_url = [],
     df_section = [], df_derived = []\<rparr>"

definition deribit_provisional :: "deribit_terms \<Rightarrow> string \<Rightarrow> deribit_inference" where
  "deribit_provisional t reason = \<lparr>df_version = DeribitUnitInferenceVersion, df_state = DeribitInferenceProvisional,
     df_authority = RuleAdapterPolicyInference,
     df_unit = \<lparr>nu_kind = NativeUnitVenueUnspecified, nu_asset = [], nu_instrument = [],
       nu_label = ''deribit_amount_unit_unresolved''\<rparr>,
     df_uid = de_uid t, df_generation = 0, df_raw_hash = zero_hash, df_documented = de_documented t,
     df_reason = reason, df_fixture = [], df_url = [], df_section = [], df_derived = []\<rparr>"

definition deribit_proven :: "deribit_terms \<Rightarrow> native_unit \<Rightarrow> deribit_inference" where
  "deribit_proven t u = \<lparr>df_version = DeribitUnitInferenceVersion, df_state = DeribitInferenceFixtureProven,
     df_authority = RuleAdapterPolicyInference, df_unit = u, df_uid = de_uid t, df_generation = de_generation t,
     df_raw_hash = de_raw_hash t, df_documented = de_documented t, df_reason = [], df_fixture = de_fixture t,
     df_url = de_url t, df_section = de_section t, df_derived = de_derived t\<rparr>"

text \<open>The switch on kind and type; \<^term>\<open>None\<close> is its default branch.\<close>

definition deribit_unit_rule :: "deribit_terms \<Rightarrow> native_unit option" where
  "deribit_unit_rule t =
     (let base = \<lparr>nu_kind = NativeUnitBaseAsset, nu_asset = de_base t, nu_instrument = [], nu_label = []\<rparr> in
      if de_kind t = DeribitInstrumentFuture \<and> de_type t = DeribitInstrumentReversed
      then Some \<lparr>nu_kind = NativeUnitUSD, nu_asset = ''USD'', nu_instrument = [], nu_label = []\<rparr>
      else if de_kind t = DeribitInstrumentFuture \<and> de_type t = DeribitInstrumentLinear then Some base
      else if de_kind t = DeribitInstrumentOption then Some base
      else if de_kind t = DeribitInstrumentSpot \<and> de_type t = DeribitInstrumentLinear then Some base
      else None)"

definition InferDeribitAmountUnit :: "deribit_terms \<Rightarrow> i64 \<Rightarrow> deribit_inference \<times> unit_error option" where
  "InferDeribitAmountUnit t observed =
     (let checked = (\<lambda>i. (i, if DeribitInference_Validate i then None else Some ErrInvalidDeribitInference)) in
      if \<not> DeribitTerms_Validate t then (zero_inference, Some ErrInvalidDeribitInference)
      else if observed < 0 \<or> \<not> DeribitTerms_Contains t observed then (zero_inference, Some ErrInvalidDeribitInference)
      else if de_generation t = 0 \<or> de_raw_hash t = zero_hash
      then checked (deribit_provisional t ''temporal catalog generation or raw metadata hash is unavailable'')
      else if de_fixture t \<noteq> DeribitFixtureClassificationSynthetic \<or> de_url t \<noteq> DeribitInstrumentProvenanceURL \<or>
              de_section t \<noteq> DeribitInstrumentProvenanceSection \<or> de_derived t \<noteq> DeribitInstrumentDerivedFrom
      then checked (deribit_provisional t
             ''fixture provenance is not bound to the access-dated official contract_size section'')
      else if de_size_state t \<noteq> SourceValue then checked (deribit_provisional t ''contract_size is unavailable'')
      else (case deribit_unit_rule t of
              None \<Rightarrow> checked (deribit_provisional t ''instrument_type and kind do not prove the amount unit'')
            | Some u \<Rightarrow> checked (deribit_proven t u)))"

definition DeribitNativeAmount :: "string \<Rightarrow> deribit_inference \<Rightarrow> unit_error + native_value" where
  "DeribitNativeAmount text i =
     (if \<not> DeribitInference_Validate i then Inl ErrInvalidDeribitInference
      else (case ParseDecimal text CanonicalAmountScale DefaultDecimalBounds of
              Inl _ \<Rightarrow> Inl ErrInvalidDeribitInference
            | Inr d \<Rightarrow>
                if has_minus (coefficient d) then Inl ErrInvalidDeribitInference
                else let native = \<lparr>nv_dec = d, nv_unit = df_unit i\<rparr>
                  in if \<not> NativeValue_Validate native then Inl ErrInvalidDeribitInference else Inr native))"

subsection \<open>Book updates\<close>

definition DeribitBookSnapshot :: string where "DeribitBookSnapshot = ''snapshot''"
definition DeribitBookChange :: string where "DeribitBookChange = ''change''"
definition DeribitBookNew :: string where "DeribitBookNew = ''new''"
definition DeribitBookModify :: string where "DeribitBookModify = ''change''"
definition DeribitBookDelete :: string where "DeribitBookDelete = ''delete''"

record deribit_book_level =
  dl_action :: string
  dl_price :: numeric
  dl_amount :: native_value
  dl_ordinal :: u32

record deribit_update =
  du_uid :: string
  du_channel :: string
  du_kind :: string
  du_change :: u64
  du_previous :: opt_u64
  du_time :: i64
  du_grouped :: bool
  du_price_unit :: nunit
  du_inference :: deribit_inference
  du_bids :: "deribit_book_level list"
  du_asks :: "deribit_book_level list"

definition deribit_level_ok :: "deribit_update \<Rightarrow> deribit_book_level \<Rightarrow> bool" where
  "deribit_level_ok u l \<longleftrightarrow>
     \<not> (\<not> Numeric_Validate (dl_price l) \<or> \<not> NativeValue_Validate (dl_amount l) \<or>
        dec_scale (n_dec (dl_price l)) \<noteq> CanonicalPriceScale \<or> dec_scale (nv_dec (dl_amount l)) \<noteq> CanonicalAmountScale) \<and>
     \<not> (n_unit (dl_price l) \<noteq> du_price_unit u \<or> nv_unit (dl_amount l) \<noteq> df_unit (du_inference u) \<or>
        (dl_action l = DeribitBookDelete) \<noteq> IsZero (nv_dec (dl_amount l)))"

fun deribit_levels_ok :: "deribit_update \<Rightarrow> nat \<Rightarrow> deribit_book_level list \<Rightarrow> bool" where
  "deribit_levels_ok u i [] = True"
| "deribit_levels_ok u i (l # ls) =
     (\<not> (dl_ordinal l \<noteq> of_nat i \<or>
         (dl_action l \<noteq> DeribitBookNew \<and> dl_action l \<noteq> DeribitBookModify \<and> dl_action l \<noteq> DeribitBookDelete)) \<and>
      deribit_level_ok u l \<and> deribit_levels_ok u (Suc i) ls)"

definition DeribitUpdate_Validate :: "deribit_update \<Rightarrow> bool" where
  "DeribitUpdate_Validate u \<longleftrightarrow>
     \<not> (du_uid u = [] \<or> du_channel u = [] \<or> du_change u = 0 \<or> du_time u < 0 \<or>
        (du_kind u \<noteq> DeribitBookSnapshot \<and> du_kind u \<noteq> DeribitBookChange)) \<and>
     \<not> (du_kind u = DeribitBookSnapshot \<and> ou_valid (du_previous u)) \<and>
     \<not> (du_kind u = DeribitBookChange \<and> (\<not> ou_valid (du_previous u) \<or> ou_value (du_previous u) = 0)) \<and>
     Unit_Validate (du_price_unit u) \<and>
     \<not> (\<not> DeribitInference_Validate (du_inference u) \<or> df_uid (du_inference u) \<noteq> du_uid u) \<and>
     list_all (deribit_levels_ok u 0) [du_bids u, du_asks u]"

subsection \<open>The inference is sound\<close>

definition deribit_evidence :: "deribit_terms \<Rightarrow> bool" where
  "deribit_evidence t \<longleftrightarrow> de_generation t \<noteq> 0 \<and> de_raw_hash t \<noteq> zero_hash \<and>
     de_fixture t = DeribitFixtureClassificationSynthetic \<and> de_url t = DeribitInstrumentProvenanceURL \<and>
     de_section t = DeribitInstrumentProvenanceSection \<and> de_derived t = DeribitInstrumentDerivedFrom \<and>
     de_size_state t = SourceValue"

lemma terms_base_ok: "DeribitTerms_Validate t \<Longrightarrow> de_base t \<noteq> [] \<and> length (de_base t) \<le> 256 \<and> \<not> has_nul (de_base t)"
  "DeribitTerms_Validate t \<Longrightarrow> de_uid t \<noteq> [] \<and> length (de_uid t) \<le> 256 \<and> \<not> has_nul (de_uid t) \<and> 0 < de_documented t"
  by (auto simp: DeribitTerms_Validate_def MaxUnitIDBytes_def)

lemma deribit_unit_rule_valid:
  assumes "DeribitTerms_Validate t" "deribit_unit_rule t = Some u"
  shows "NativeUnit_Validate u \<and> (nu_kind u = NativeUnitUSD \<or> nu_kind u = NativeUnitBaseAsset)"
  using assms(2) terms_base_ok(1) [OF assms(1)]
  by (auto simp: deribit_unit_rule_def Let_def NativeUnit_Validate_def has_nul_def MaxUnitIDBytes_def
      NativeUnitBaseAsset_def NativeUnitQuoteAsset_def NativeUnitContracts_def NativeUnitUSD_def split: if_splits)

lemma deribit_provisional_valid:
  assumes "DeribitTerms_Validate t" "reason \<noteq> []" "length reason \<le> 128" "\<not> has_nul reason"
  shows "DeribitInference_Validate (deribit_provisional t reason)"
  using assms terms_base_ok(2) [OF assms(1)]
  by (simp add: DeribitInference_Validate_def deribit_provisional_def NativeUnit_Validate_def has_nul_def
      NativeUnitBaseAsset_def NativeUnitQuoteAsset_def NativeUnitContracts_def NativeUnitUSD_def NativeUnitRate_def
      NativeUnitImpliedVolatility_def NativeUnitVenueUnspecified_def MaxUnitIDBytes_def MaxNativeUnitLabelBytes_def)

lemma deribit_proven_valid:
  assumes "DeribitTerms_Validate t" "deribit_evidence t" "deribit_unit_rule t = Some u"
  shows "DeribitInference_Validate (deribit_proven t u)"
  using assms(2) deribit_unit_rule_valid [OF assms(1,3)] terms_base_ok(2) [OF assms(1)]
  by (auto simp: DeribitInference_Validate_def deribit_proven_def deribit_evidence_def MaxUnitIDBytes_def has_nul_def
      DeribitInferenceProvisional_def DeribitInferenceFixtureProven_def MaxNativeUnitLabelBytes_def)

lemma deribit_infer_cases:
  assumes "DeribitTerms_Validate t" "0 \<le> observed" "DeribitTerms_Contains t observed"
  shows "(\<exists>u. deribit_evidence t \<and> deribit_unit_rule t = Some u \<and>
           InferDeribitAmountUnit t observed = (deribit_proven t u, None)) \<or>
         (\<not> (deribit_evidence t \<and> deribit_unit_rule t \<noteq> None) \<and>
           (\<exists>reason. DeribitInference_Validate (deribit_provisional t reason) \<and>
              InferDeribitAmountUnit t observed = (deribit_provisional t reason, None)))"
proof (cases "deribit_evidence t")
  case True
  then have "InferDeribitAmountUnit t observed =
     (case deribit_unit_rule t of
        None \<Rightarrow> (let i = deribit_provisional t ''instrument_type and kind do not prove the amount unit''
                 in (i, if DeribitInference_Validate i then None else Some ErrInvalidDeribitInference))
      | Some u \<Rightarrow> (deribit_proven t u, if DeribitInference_Validate (deribit_proven t u) then None
                    else Some ErrInvalidDeribitInference))"
    using assms by (simp add: InferDeribitAmountUnit_def deribit_evidence_def Let_def split: option.split)
  moreover have "DeribitInference_Validate (deribit_provisional t ''instrument_type and kind do not prove the amount unit'')"
    by (rule deribit_provisional_valid [OF assms(1)]) (simp_all add: has_nul_def)
  ultimately show ?thesis
    using True deribit_proven_valid [OF assms(1) True] by (cases "deribit_unit_rule t") (auto simp: Let_def)
next
  case False
  let ?ev = "de_fixture t \<noteq> DeribitFixtureClassificationSynthetic \<or> de_url t \<noteq> DeribitInstrumentProvenanceURL \<or>
     de_section t \<noteq> DeribitInstrumentProvenanceSection \<or> de_derived t \<noteq> DeribitInstrumentDerivedFrom"
  let ?out = "\<lambda>reason. InferDeribitAmountUnit t observed = (deribit_provisional t reason, None)"
  have v: "DeribitInference_Validate (deribit_provisional t ''temporal catalog generation or raw metadata hash is unavailable'')"
    "DeribitInference_Validate (deribit_provisional t
       ''fixture provenance is not bound to the access-dated official contract_size section'')"
    "DeribitInference_Validate (deribit_provisional t ''contract_size is unavailable'')"
    by (rule deribit_provisional_valid [OF assms(1)]; simp add: has_nul_def)+
  consider "de_generation t = 0 \<or> de_raw_hash t = zero_hash"
    | "\<not> (de_generation t = 0 \<or> de_raw_hash t = zero_hash)" ?ev
    | "\<not> (de_generation t = 0 \<or> de_raw_hash t = zero_hash)" "\<not> ?ev" "de_size_state t \<noteq> SourceValue"
    using False unfolding deribit_evidence_def by blast
  then have "\<exists>reason. DeribitInference_Validate (deribit_provisional t reason) \<and> ?out reason"
  proof cases
    case 1
    then have "?out ''temporal catalog generation or raw metadata hash is unavailable''"
      using assms v(1) by (simp add: InferDeribitAmountUnit_def Let_def)
    with v(1) show ?thesis by blast
  next
    case 2
    then have "?out ''fixture provenance is not bound to the access-dated official contract_size section''"
      using assms v(2) unfolding InferDeribitAmountUnit_def Let_def by presburger
    with v(2) show ?thesis by blast
  next
    case 3
    then have "?out ''contract_size is unavailable''"
      using assms v(3) unfolding InferDeribitAmountUnit_def Let_def by presburger
    with v(3) show ?thesis by blast
  qed
  with False show ?thesis by blast
qed

text \<open>
  The unit inference neither fails nor overclaims.  On valid terms that are in
  force at the observation time it returns a valid inference and no error; the
  inference is proven exactly when the terms carry the whole evidence and the
  kind and type decide the unit, and then its unit is the one of the rule (dollars
  for reversed futures, the base asset otherwise); in every other case it is
  provisional, with the unresolved venue unit and a reason.
\<close>

theorem deribit_inference_sound:
  assumes "DeribitTerms_Validate t" "0 \<le> observed" "DeribitTerms_Contains t observed"
  shows "\<exists>i. InferDeribitAmountUnit t observed = (i, None) \<and> DeribitInference_Validate i \<and> df_uid i = de_uid t \<and>
     (df_state i = DeribitInferenceFixtureProven \<longleftrightarrow> deribit_evidence t \<and> deribit_unit_rule t \<noteq> None) \<and>
     (df_state i = DeribitInferenceFixtureProven \<longrightarrow> deribit_unit_rule t = Some (df_unit i)) \<and>
     (df_state i \<noteq> DeribitInferenceFixtureProven \<longrightarrow>
        nu_kind (df_unit i) = NativeUnitVenueUnspecified \<and> df_reason i \<noteq> [])"
  using deribit_infer_cases [OF assms]
proof (elim disjE exE conjE)
  fix u
  assume u: "deribit_evidence t" "deribit_unit_rule t = Some u"
    "InferDeribitAmountUnit t observed = (deribit_proven t u, None)"
  then show ?thesis using deribit_proven_valid [OF assms(1) u(1,2)]
    by (intro exI [of _ "deribit_proven t u"]) (simp add: deribit_proven_def)
next
  fix reason
  assume r: "\<not> (deribit_evidence t \<and> deribit_unit_rule t \<noteq> None)" "DeribitInference_Validate (deribit_provisional t reason)"
    "InferDeribitAmountUnit t observed = (deribit_provisional t reason, None)"
  have "reason \<noteq> []" using r(2) by (auto simp: DeribitInference_Validate_def deribit_provisional_def)
  with r show ?thesis
    by (intro exI [of _ "deribit_provisional t reason"])
      (simp add: deribit_provisional_def DeribitInferenceProvisional_def DeribitInferenceFixtureProven_def)
qed

definition sample_terms :: deribit_terms where
  "sample_terms = \<lparr>de_uid = ''I'', de_name = ''BTC-PERPETUAL'', de_kind = ''future'', de_type = ''reversed'',
     de_base = ''BTC'', de_quote = ''USD'', de_counter = ''USD'', de_settlement = ''BTC'',
     de_size = \<lparr>coefficient = ''10'', dec_scale = 18\<rparr>, de_size_state = ''value'', de_from = 0,
     de_until = \<lparr>oi_value = 0, oi_valid = False\<rparr>, de_generation = 1, de_raw_hash = replicate 32 1, de_documented = 1,
     de_fixture = DeribitFixtureClassificationSynthetic, de_url = DeribitInstrumentProvenanceURL,
     de_section = DeribitInstrumentProvenanceSection, de_derived = DeribitInstrumentDerivedFrom\<rparr>"

lemma sample_terms_ok: "DeribitTerms_Validate sample_terms" "DeribitTerms_Contains sample_terms 5"
  "deribit_evidence sample_terms" "deribit_unit_rule sample_terms \<noteq> None"
  by code_simp+

theorem deribit_inference_sound_witness:
  "df_state (fst (InferDeribitAmountUnit sample_terms 5)) = DeribitInferenceFixtureProven"
  using deribit_inference_sound [OF sample_terms_ok(1) _ sample_terms_ok(2)] sample_terms_ok(3,4) by fastforce

end
