(* ===== verification/DeribitBook.thy ===== *)
theory DeribitBook
  imports SideMap DeribitUnits
begin

text \<open>
  \<open>src/orderbook/deribit.go\<close>: the Deribit book.  It takes validated updates, seeds
  itself from a snapshot message, follows \<open>prev_change_id\<close>, and drops its state on
  any mismatch until the next snapshot.  A nil receiver is \<^term>\<open>None\<close>; the clones
  of the side maps are the maps themselves, since a failed update discards them.

  The lemmas show the invariant of every reachable book, that a live book follows
  the change IDs, that an action is applied exactly when it matches the local
  state, and that the exported sides are sorted independently of map order.
\<close>

subsection \<open>Types and operations\<close>

datatype deribit_error = ErrDeribitBookInvalid | ErrDeribitGroupedBook | ErrDeribitChangeIDGap
  | ErrDeribitProvisionalUnit | ErrDeribitMutationMismatch

datatype deribit_recovery = DeribitRecoveryNone | DeribitRecoveryResubscribe | DeribitRecoverySnapshot

definition DeribitContinuityRuleVersion :: string where
  "DeribitContinuityRuleVersion = ''deribit_prev_change_id_resubscribe_v1''"

record deribit_transition =
  dx_applied :: bool
  dx_seeded :: bool
  dx_prior :: u64
  dx_change :: u64
  dx_recovery :: deribit_recovery
  dx_authority :: u8
  dx_rule :: string
  dx_guarantee :: bool

record deribit_level =
  dv_price :: numeric
  dv_amount :: native_value

type_synonym deribit_side = "(string \<times> deribit_level) list"

record deribit_snapshot =
  ds_uid :: string
  ds_change :: u64
  ds_bids :: "deribit_level list"
  ds_asks :: "deribit_level list"

record deribit_book =
  db_uid :: string
  db_seeded :: bool
  db_invalidated :: bool
  db_change :: u64
  db_bids :: deribit_side
  db_asks :: deribit_side

type_synonym deribit_reply = "deribit_transition \<times> deribit_error option"

definition NewDeribitBook :: "string \<Rightarrow> deribit_error + deribit_book" where
  "NewDeribitBook uid = (if uid = [] then Inl ErrDeribitBookInvalid
     else Inr \<lparr>db_uid = uid, db_seeded = False, db_invalidated = False, db_change = 0, db_bids = [], db_asks = []\<rparr>)"

definition deribitPriceKey :: "numeric \<Rightarrow> string" where
  "deribitPriceKey p = nat_text (unat (dec_scale (n_dec p))) @ '':'' @ coefficient (n_dec p)"

definition deribit_stored :: "deribit_book_level \<Rightarrow> deribit_level" where
  "deribit_stored l = \<lparr>dv_price = dl_price l, dv_amount = dl_amount l\<rparr>"

fun deribit_build_side :: "deribit_side \<Rightarrow> deribit_book_level list \<Rightarrow> deribit_error + deribit_side" where
  "deribit_build_side m [] = Inr m"
| "deribit_build_side m (l # ls) =
     (if dl_action l = DeribitBookDelete \<or> IsZero (nv_dec (dl_amount l)) then Inl ErrDeribitMutationMismatch
      else if go_get m (deribitPriceKey (dl_price l)) \<noteq> None then Inl ErrDeribitMutationMismatch
      else deribit_build_side (go_put (deribitPriceKey (dl_price l)) (deribit_stored l) m) ls)"

definition buildDeribitSnapshot :: "deribit_update \<Rightarrow> deribit_error + deribit_side \<times> deribit_side" where
  "buildDeribitSnapshot u =
     (case deribit_build_side [] (du_bids u) of
        Inl err \<Rightarrow> Inl err
      | Inr bids \<Rightarrow> (case deribit_build_side [] (du_asks u) of Inl err \<Rightarrow> Inl err | Inr asks \<Rightarrow> Inr (bids, asks)))"

fun applyDeribitLevels :: "deribit_side \<Rightarrow> deribit_book_level list \<Rightarrow> deribit_error + deribit_side" where
  "applyDeribitLevels m [] = Inr m"
| "applyDeribitLevels m (l # ls) =
     (let key = deribitPriceKey (dl_price l); present = (go_get m key \<noteq> None) in
      if dl_action l = DeribitBookNew then
        (if present then Inl ErrDeribitMutationMismatch else applyDeribitLevels (go_put key (deribit_stored l) m) ls)
      else if dl_action l = DeribitBookModify then
        (if \<not> present then Inl ErrDeribitMutationMismatch else applyDeribitLevels (go_put key (deribit_stored l) m) ls)
      else if dl_action l = DeribitBookDelete then
        (if \<not> present then Inl ErrDeribitMutationMismatch else applyDeribitLevels (go_delete key m) ls)
      else Inl ErrDeribitBookInvalid)"

definition deribit_invalidate :: "deribit_book \<Rightarrow> deribit_book" where
  "deribit_invalidate b = b\<lparr>db_seeded := False, db_invalidated := True, db_change := 0, db_bids := [], db_asks := []\<rparr>"

definition deribit_idle_transition :: deribit_transition where
  "deribit_idle_transition = \<lparr>dx_applied = False, dx_seeded = False, dx_prior = 0, dx_change = 0,
     dx_recovery = DeribitRecoveryNone, dx_authority = RuleAdapterPolicyInference,
     dx_rule = DeribitContinuityRuleVersion, dx_guarantee = False\<rparr>"

text \<open>The part of \<open>Apply\<close> after the guards.\<close>

definition deribit_install :: "deribit_book \<Rightarrow> deribit_update \<Rightarrow> deribit_side \<times> deribit_side \<Rightarrow> deribit_book" where
  "deribit_install b u m = b\<lparr>db_seeded := True, db_invalidated := False, db_change := du_change u,
     db_bids := fst m, db_asks := snd m\<rparr>"

definition deribit_change_sides :: "deribit_book \<Rightarrow> deribit_update \<Rightarrow> deribit_error + deribit_side \<times> deribit_side" where
  "deribit_change_sides b u =
     (case applyDeribitLevels (db_bids b) (du_bids u) of
        Inl err \<Rightarrow> Inl err
      | Inr bids \<Rightarrow> (case applyDeribitLevels (db_asks b) (du_asks u) of Inl err \<Rightarrow> Inl err | Inr asks \<Rightarrow> Inr (bids, asks)))"

definition deribit_apply_valid :: "deribit_book \<Rightarrow> deribit_update \<Rightarrow> deribit_book \<times> deribit_reply" where
  "deribit_apply_valid b u =
     (let t = deribit_idle_transition\<lparr>dx_prior := db_change b, dx_change := du_change u\<rparr>;
          broken = (\<lambda>err. (deribit_invalidate b, t\<lparr>dx_recovery := DeribitRecoveryResubscribe\<rparr>, Some err)) in
      if du_kind u = DeribitBookSnapshot then
        (case buildDeribitSnapshot u of
           Inl err \<Rightarrow> broken err
         | Inr m \<Rightarrow> (deribit_install b u m,
             t\<lparr>dx_applied := True, dx_seeded := True,
               dx_recovery := (if db_invalidated b then DeribitRecoverySnapshot else DeribitRecoveryNone)\<rparr>, None))
      else if \<not> db_seeded b \<or> db_invalidated b \<or> \<not> ou_valid (du_previous u) \<or> ou_value (du_previous u) \<noteq> db_change b
      then broken ErrDeribitChangeIDGap
      else (case deribit_change_sides b u of
              Inl err \<Rightarrow> broken err
            | Inr m \<Rightarrow> (b\<lparr>db_bids := fst m, db_asks := snd m, db_change := du_change u\<rparr>,
                t\<lparr>dx_applied := True, dx_seeded := True\<rparr>, None)))"

definition deribit_apply :: "deribit_book \<Rightarrow> deribit_update \<Rightarrow> deribit_book \<times> deribit_reply" where
  "deribit_apply b u =
     (if du_uid u \<noteq> db_uid b then (b, deribit_idle_transition, Some ErrDeribitBookInvalid)
      else if \<not> DeribitUpdate_Validate u then (b, deribit_idle_transition, Some ErrDeribitBookInvalid)
      else if du_grouped u then (b, deribit_idle_transition, Some ErrDeribitGroupedBook)
      else if df_state (du_inference u) \<noteq> DeribitInferenceFixtureProven
      then (b, deribit_idle_transition, Some ErrDeribitProvisionalUnit)
      else deribit_apply_valid b u)"

definition DeribitBook_Apply :: "deribit_book option \<Rightarrow> deribit_update \<Rightarrow> deribit_book option \<times> deribit_reply" where
  "DeribitBook_Apply p u =
     (case p of None \<Rightarrow> (None, deribit_idle_transition, Some ErrDeribitBookInvalid)
      | Some b \<Rightarrow> (case deribit_apply b u of (b', r) \<Rightarrow> (Some b', r)))"

definition compareDeribitPrice :: "numeric \<Rightarrow> numeric \<Rightarrow> int" where
  "compareDeribitPrice l r =
     (case (big_set_string (coefficient (n_dec l)), big_set_string (coefficient (n_dec r))) of
        (Some x, Some y) \<Rightarrow> sgn (x - y) | _ \<Rightarrow> 0)"

text \<open>
  \<open>slices.SortFunc\<close> with that comparison, on the values of the map: the order of
  the coefficients as integers.  (Stored coefficients are valid, so the
  comparison never takes its fallback; \<open>deribit_compare_coef\<close> below.)
\<close>

definition deribit_sorted :: "deribit_side \<Rightarrow> bool \<Rightarrow> deribit_level list" where
  "deribit_sorted m descending =
     sort_key (\<lambda>l. (if descending then -1 else 1) * coef_int (coefficient (n_dec (dv_price l)))) (map snd m)"

definition DeribitBook_Snapshot :: "deribit_book option \<Rightarrow> deribit_error + deribit_snapshot" where
  "DeribitBook_Snapshot p =
     (case p of None \<Rightarrow> Inl ErrDeribitBookInvalid
      | Some b \<Rightarrow>
         if \<not> db_seeded b \<or> db_invalidated b then Inl ErrDeribitBookInvalid
         else Inr \<lparr>ds_uid = db_uid b, ds_change = db_change b, ds_bids = deribit_sorted (db_bids b) True,
           ds_asks = deribit_sorted (db_asks b) False\<rparr>)"

subsection \<open>Sides\<close>

lemmas deribit_actions = DeribitBookNew_def DeribitBookModify_def DeribitBookDelete_def

text \<open>The reference: a list of levels written one by one, with no state check.\<close>

fun deribit_write :: "deribit_side \<Rightarrow> deribit_book_level list \<Rightarrow> deribit_side" where
  "deribit_write m [] = m"
| "deribit_write m (l # ls) = deribit_write (if dl_action l = DeribitBookDelete then go_delete (deribitPriceKey (dl_price l)) m
     else go_put (deribitPriceKey (dl_price l)) (deribit_stored l) m) ls"

interpretation deribit_side: delta_side deribit_write "\<lambda>l. deribitPriceKey (dl_price l)"
  "\<lambda>l. dl_action l = DeribitBookDelete" deribit_stored
  by unfold_locales simp_all

text \<open>An action fits a side when it creates what is absent or touches what is there.\<close>

definition deribit_fits :: "deribit_side \<Rightarrow> deribit_book_level \<Rightarrow> bool" where
  "deribit_fits m l \<longleftrightarrow> (dl_action l = DeribitBookNew) = (go_get m (deribitPriceKey (dl_price l)) = None)"

definition known_action :: "deribit_book_level \<Rightarrow> bool" where
  "known_action l \<longleftrightarrow> dl_action l = DeribitBookNew \<or> dl_action l = DeribitBookModify \<or> dl_action l = DeribitBookDelete"

lemma applyDeribitLevels_iff:
  "applyDeribitLevels m ls = Inr m' \<longleftrightarrow>
     m' = deribit_write m ls \<and>
     (\<forall>i < length ls. known_action (ls ! i) \<and> deribit_fits (deribit_write m (take i ls)) (ls ! i))"
proof (induction ls arbitrary: m)
  case (Cons l ls)
  have split: "(\<forall>i < length (l # ls). P i) \<longleftrightarrow> P 0 \<and> (\<forall>i < length ls. P (Suc i))" for P
    by (metis length_Cons less_Suc_eq_0_disj)
  have hd: "applyDeribitLevels m (l # ls) =
     (if known_action l \<and> deribit_fits m l then applyDeribitLevels (deribit_write m [l]) ls
      else Inl (if known_action l then ErrDeribitMutationMismatch else ErrDeribitBookInvalid))"
    by (auto simp: known_action_def deribit_fits_def Let_def deribit_actions)
  show ?case unfolding hd split using Cons.IH by (auto simp: deribit_side.apply_append [of m "[l]", simplified])
qed auto

lemma deribit_build_side_iff:
  assumes "\<forall>l \<in> set ls. (dl_action l = DeribitBookDelete) = IsZero (nv_dec (dl_amount l))"
  shows "deribit_build_side m ls = Inr m' \<longleftrightarrow> m' = deribit_write m ls \<and>
     (\<forall>l \<in> set ls. dl_action l \<noteq> DeribitBookDelete) \<and> distinct (map (\<lambda>l. deribitPriceKey (dl_price l)) ls) \<and>
     (\<forall>l \<in> set ls. go_get m (deribitPriceKey (dl_price l)) = None)"
  using assms by (induction ls arbitrary: m) (auto split: if_splits intro: rev_image_eqI)

subsection \<open>Invariant\<close>

definition deribit_entry_ok :: "string \<Rightarrow> deribit_level \<Rightarrow> bool" where
  "deribit_entry_ok k l \<longleftrightarrow> k = deribitPriceKey (dv_price l) \<and> Decimal_Validate (n_dec (dv_price l)) \<and>
     NativeValue_Validate (dv_amount l) \<and> dec_scale (n_dec (dv_price l)) = CanonicalPriceScale \<and>
     \<not> IsZero (nv_dec (dv_amount l)) \<and>
     (nu_kind (nv_unit (dv_amount l)) = NativeUnitUSD \<or> nu_kind (nv_unit (dv_amount l)) = NativeUnitBaseAsset)"

definition deribit_side_ok :: "deribit_side \<Rightarrow> bool" where
  "deribit_side_ok m \<longleftrightarrow> wf_map m \<and> (\<forall>k l. go_get m k = Some l \<longrightarrow> deribit_entry_ok k l)"

definition deribit_live :: "deribit_book \<Rightarrow> bool" where
  "deribit_live b \<longleftrightarrow> db_seeded b \<and> \<not> db_invalidated b"

definition deribit_ok :: "deribit_book \<Rightarrow> bool" where
  "deribit_ok b \<longleftrightarrow> db_uid b \<noteq> [] \<and> deribit_side_ok (db_bids b) \<and> deribit_side_ok (db_asks b) \<and>
     (if db_seeded b then \<not> db_invalidated b \<and> db_change b \<noteq> 0
      else db_change b = 0 \<and> db_bids b = [] \<and> db_asks b = [])"

lemma deribit_levels_all: "deribit_levels_ok u i ls \<Longrightarrow> l \<in> set ls \<Longrightarrow> known_action l \<and> deribit_level_ok u l"
  by (induction ls arbitrary: i) (auto simp: known_action_def)

lemma deribit_valid_level:
  assumes "DeribitUpdate_Validate u" "df_state (du_inference u) = DeribitInferenceFixtureProven"
    and "l \<in> set (du_bids u) \<union> set (du_asks u)"
  shows "(dl_action l = DeribitBookDelete) = IsZero (nv_dec (dl_amount l))" "known_action l"
    "dl_action l \<noteq> DeribitBookDelete \<Longrightarrow> deribit_entry_ok (deribitPriceKey (dl_price l)) (deribit_stored l)"
proof -
  have i: "DeribitInference_Validate (du_inference u)" and ls: "deribit_levels_ok u 0 (du_bids u)" "deribit_levels_ok u 0 (du_asks u)"
    using assms(1) by (simp_all add: DeribitUpdate_Validate_def)
  have l: "known_action l" "deribit_level_ok u l"
    using deribit_levels_all [OF ls(1)] deribit_levels_all [OF ls(2)] assms(3) by blast+
  have "nu_kind (df_unit (du_inference u)) = NativeUnitUSD \<or> nu_kind (df_unit (du_inference u)) = NativeUnitBaseAsset"
    using i assms(2) by (auto simp: DeribitInference_Validate_def DeribitInferenceFixtureProven_def
        DeribitInferenceProvisional_def)
  with l show "(dl_action l = DeribitBookDelete) = IsZero (nv_dec (dl_amount l))" "known_action l"
    "dl_action l \<noteq> DeribitBookDelete \<Longrightarrow> deribit_entry_ok (deribitPriceKey (dl_price l)) (deribit_stored l)"
    by (simp_all add: deribit_level_ok_def deribit_entry_ok_def deribit_stored_def Numeric_Validate_def)
qed

lemma deribit_side_ok_write:
  assumes "deribit_side_ok m"
    and "\<And>l. l \<in> set ls \<Longrightarrow> dl_action l \<noteq> DeribitBookDelete \<Longrightarrow> deribit_entry_ok (deribitPriceKey (dl_price l)) (deribit_stored l)"
  shows "deribit_side_ok (deribit_write m ls)"
  unfolding deribit_side_ok_def
proof (intro conjI allI impI)
  show "wf_map (deribit_write m ls)" using assms(1) deribit_side.apply_wf by (simp add: deribit_side_ok_def)
  fix k l assume "go_get (deribit_write m ls) k = Some l"
  then show "deribit_entry_ok k l"
    by (rule deribit_side.apply_all_entries [where P = deribit_entry_ok, rotated 2])
      (use assms in \<open>auto simp: deribit_side_ok_def\<close>)
qed

lemma deribit_side_ok_Nil [simp]: "deribit_side_ok []"
  by (simp add: deribit_side_ok_def)

text \<open>What an update does, by cases.\<close>

definition deribit_rewrites :: "deribit_book \<Rightarrow> deribit_update \<Rightarrow> deribit_book \<Rightarrow> bool" where
  "deribit_rewrites b u b' \<longleftrightarrow>
     (let from = (\<lambda>m. if du_kind u = DeribitBookSnapshot then [] else m)
      in b' = deribit_install b u (deribit_write (from (db_bids b)) (du_bids u), deribit_write (from (db_asks b)) (du_asks u)))"

definition deribit_follows :: "u64 \<Rightarrow> deribit_update \<Rightarrow> bool" where
  "deribit_follows q u \<longleftrightarrow> du_kind u = DeribitBookSnapshot \<or> du_previous u = \<lparr>ou_value = q, ou_valid = True\<rparr>"

definition deribit_accepts :: "deribit_book \<Rightarrow> deribit_update \<Rightarrow> bool" where
  "deribit_accepts b u \<longleftrightarrow> du_uid u = db_uid b \<and> DeribitUpdate_Validate u \<and> \<not> du_grouped u \<and>
     df_state (du_inference u) = DeribitInferenceFixtureProven"

text \<open>The action of every level matches the side it finds.\<close>

definition deribit_side_fits :: "deribit_side \<Rightarrow> deribit_book_level list \<Rightarrow> bool" where
  "deribit_side_fits m ls \<longleftrightarrow> (\<forall>i < length ls. deribit_fits (deribit_write m (take i ls)) (ls ! i))"

definition deribit_fresh_side :: "deribit_book_level list \<Rightarrow> bool" where
  "deribit_fresh_side ls \<longleftrightarrow> (\<forall>l \<in> set ls. dl_action l \<noteq> DeribitBookDelete) \<and> distinct (map (\<lambda>l. deribitPriceKey (dl_price l)) ls)"

definition deribit_matches :: "deribit_book \<Rightarrow> deribit_update \<Rightarrow> bool" where
  "deribit_matches b u \<longleftrightarrow>
     (if du_kind u = DeribitBookSnapshot then deribit_fresh_side (du_bids u) \<and> deribit_fresh_side (du_asks u)
      else deribit_live b \<and> deribit_follows (db_change b) u \<and>
        deribit_side_fits (db_bids b) (du_bids u) \<and> deribit_side_fits (db_asks b) (du_asks u))"

lemma both_sides_Inr:
  "(case a of Inl err \<Rightarrow> Inl err | Inr x \<Rightarrow> (case b of Inl err \<Rightarrow> Inl err | Inr y \<Rightarrow> Inr (x, y))) = Inr m \<longleftrightarrow>
     a = Inr (fst m) \<and> b = Inr (snd m)"
  by (cases m) (auto split: sum.splits)

lemma buildDeribitSnapshot_iff:
  assumes "deribit_accepts b u"
  shows "buildDeribitSnapshot u = Inr m \<longleftrightarrow>
     m = (deribit_write [] (du_bids u), deribit_write [] (du_asks u)) \<and> deribit_fresh_side (du_bids u) \<and> deribit_fresh_side (du_asks u)"
proof -
  have v: "\<forall>l \<in> set (du_bids u). (dl_action l = DeribitBookDelete) = IsZero (nv_dec (dl_amount l))"
    "\<forall>l \<in> set (du_asks u). (dl_action l = DeribitBookDelete) = IsZero (nv_dec (dl_amount l))"
    using deribit_valid_level(1) assms by (auto simp: deribit_accepts_def)
  show ?thesis unfolding buildDeribitSnapshot_def both_sides_Inr
      deribit_build_side_iff [OF v(1), of "[]"] deribit_build_side_iff [OF v(2), of "[]"]
    by (cases m) (auto simp: deribit_fresh_side_def)
qed

lemma deribit_change_sides_iff:
  assumes "deribit_accepts b u"
  shows "deribit_change_sides c u = Inr m \<longleftrightarrow>
     m = (deribit_write (db_bids c) (du_bids u), deribit_write (db_asks c) (du_asks u)) \<and>
     deribit_side_fits (db_bids c) (du_bids u) \<and> deribit_side_fits (db_asks c) (du_asks u)"
proof -
  have v: "known_action l" if "l \<in> set (du_bids u) \<union> set (du_asks u)" for l
    using deribit_valid_level(2) assms that by (auto simp: deribit_accepts_def)
  have "applyDeribitLevels n ls = Inr n' \<longleftrightarrow> n' = deribit_write n ls \<and> deribit_side_fits n ls"
    if "set ls \<subseteq> set (du_bids u) \<union> set (du_asks u)" for n ls n'
    using v that by (auto simp: applyDeribitLevels_iff deribit_side_fits_def dest: nth_mem)
  from this [of "du_bids u"] this [of "du_asks u"] show ?thesis
    unfolding deribit_change_sides_def both_sides_Inr by (cases m) auto
qed

lemma deribit_previous_iff:
  "\<not> (\<not> ou_valid p \<or> ou_value p \<noteq> q) \<longleftrightarrow> p = \<lparr>ou_value = q, ou_valid = True\<rparr>"
  by (cases p) auto

lemma deribit_apply_cases:
  shows "if \<not> deribit_accepts b u then fst (deribit_apply b u) = b \<and> \<not> dx_applied (fst (snd (deribit_apply b u))) \<and>
       snd (snd (deribit_apply b u)) \<noteq> None
     else if deribit_matches b u then deribit_rewrites b u (fst (deribit_apply b u)) \<and>
       dx_applied (fst (snd (deribit_apply b u))) \<and> snd (snd (deribit_apply b u)) = None
     else fst (deribit_apply b u) = deribit_invalidate b \<and> \<not> dx_applied (fst (snd (deribit_apply b u))) \<and>
       snd (snd (deribit_apply b u)) \<noteq> None \<and> dx_recovery (fst (snd (deribit_apply b u))) = DeribitRecoveryResubscribe"
proof (cases "deribit_accepts b u")
  case False
  then show ?thesis by (auto simp: deribit_accepts_def deribit_apply_def deribit_idle_transition_def)
next
  case True
  then have a: "deribit_apply b u = deribit_apply_valid b u"
    by (simp add: deribit_accepts_def deribit_apply_def)
  show ?thesis
  proof (cases "du_kind u = DeribitBookSnapshot")
    case snap: True
    show ?thesis
    proof (cases "buildDeribitSnapshot u")
      case (Inl err)
      then have "\<not> deribit_matches b u"
        using snap buildDeribitSnapshot_iff [OF True] by (auto simp: deribit_matches_def)
      with True snap Inl show ?thesis by (simp add: a deribit_apply_valid_def deribit_idle_transition_def)
    next
      case (Inr m)
      then have "deribit_matches b u" "m = (deribit_write [] (du_bids u), deribit_write [] (du_asks u))"
        using snap buildDeribitSnapshot_iff [OF True] by (auto simp: deribit_matches_def)
      with True snap Inr show ?thesis by (simp add: a deribit_apply_valid_def deribit_rewrites_def)
    qed
  next
    case change: False
    show ?thesis
    proof (cases "deribit_live b \<and> deribit_follows (db_change b) u")
      case stay: True
      then have go: "\<not> (\<not> db_seeded b \<or> db_invalidated b \<or> \<not> ou_valid (du_previous u) \<or> ou_value (du_previous u) \<noteq> db_change b)"
        using change by (auto simp: deribit_live_def deribit_follows_def)
      show ?thesis
      proof (cases "deribit_change_sides b u")
        case (Inl err)
        then have "\<not> deribit_matches b u"
          using change deribit_change_sides_iff [OF True, where c = b and m = "(deribit_write (db_bids b) (du_bids u),
            deribit_write (db_asks b) (du_asks u))"] by (auto simp: deribit_matches_def)
        with True change go Inl show ?thesis by (simp add: a deribit_apply_valid_def deribit_idle_transition_def)
      next
        case (Inr m)
        then have "deribit_matches b u" "m = (deribit_write (db_bids b) (du_bids u), deribit_write (db_asks b) (du_asks u))"
          using stay change deribit_change_sides_iff [OF True] by (auto simp: deribit_matches_def)
        with True change go Inr show ?thesis
          by (simp add: a deribit_apply_valid_def deribit_rewrites_def deribit_install_def)
      qed
    next
      case gap: False
      then have "\<not> deribit_matches b u"
        "\<not> db_seeded b \<or> db_invalidated b \<or> \<not> ou_valid (du_previous u) \<or> ou_value (du_previous u) \<noteq> db_change b"
        using change deribit_previous_iff by (auto simp: deribit_matches_def deribit_live_def deribit_follows_def)
      with True change show ?thesis by (simp add: a deribit_apply_valid_def deribit_idle_transition_def)
    qed
  qed
qed

lemma deribit_rewrites_ok:
  assumes "deribit_ok b" "deribit_accepts b u" "deribit_rewrites b u b'"
  shows "deribit_ok b' \<and> deribit_live b' \<and> db_change b' = du_change u"
proof -
  have v: "\<And>l. l \<in> set (du_bids u) \<union> set (du_asks u) \<Longrightarrow> dl_action l \<noteq> DeribitBookDelete \<Longrightarrow>
      deribit_entry_ok (deribitPriceKey (dl_price l)) (deribit_stored l)" and "du_change u \<noteq> 0"
    using deribit_valid_level(3) assms(2) by (auto simp: deribit_accepts_def DeribitUpdate_Validate_def)
  with assms show ?thesis
    by (auto simp: deribit_rewrites_def deribit_install_def deribit_ok_def deribit_live_def Let_def
        intro!: deribit_side_ok_write)
qed

lemma deribit_invalidate_ok: "deribit_ok b \<Longrightarrow> deribit_ok (deribit_invalidate b) \<and> \<not> deribit_live (deribit_invalidate b)"
  by (simp add: deribit_ok_def deribit_invalidate_def deribit_live_def)

lemma deribit_apply_ok: "deribit_ok b \<Longrightarrow> deribit_ok (fst (deribit_apply b u))"
  using deribit_apply_cases [of b u] deribit_rewrites_ok [of b u] deribit_invalidate_ok [of b] by (auto split: if_splits)

lemma deribit_Snapshot_idle: "\<not> deribit_live b \<Longrightarrow> DeribitBook_Snapshot (Some b) = Inl ErrDeribitBookInvalid"
  by (auto simp: DeribitBook_Snapshot_def deribit_live_def)

interpretation deribit: sequenced_book deribit_apply deribit_ok deribit_live db_change
  "\<lambda>r. dx_applied (fst r)" deribit_follows du_change "\<lambda>b. DeribitBook_Snapshot (Some b) = Inl ErrDeribitBookInvalid"
proof
  show "deribit_ok s'" if "deribit_ok s" "deribit_apply s u = (s', r)" for s u s' r
    using deribit_apply_ok [OF that(1), of u] that(2) by simp
  show "deribit_follows (db_change s) u \<and> db_change s' = du_change u \<and> deribit_live s'"
    if "deribit_ok s" "deribit_live s" "deribit_apply s u = (s', r)" "dx_applied (fst r)" for s u s' r
    using deribit_apply_cases [of s u] that deribit_rewrites_ok [of s u s']
    by (auto simp: deribit_matches_def deribit_follows_def split: if_splits)
  show "s' = s" if "deribit_ok s" "deribit_apply s u = (s', r)" "\<not> dx_applied (fst r)" "deribit_live s'" for s u s' r
    using deribit_apply_cases [of s u] that deribit_invalidate_ok [of s] by (auto split: if_splits)
qed (rule deribit_Snapshot_idle)

subsection \<open>Exported sides\<close>

definition deribit_coef :: "deribit_level \<Rightarrow> int" where
  "deribit_coef l = coef_int (coefficient (n_dec (dv_price l)))"

lemma deribit_compare_coef:
  "Decimal_Validate (n_dec l) \<Longrightarrow> Decimal_Validate (n_dec r) \<Longrightarrow>
     compareDeribitPrice l r = sgn (coef_int (coefficient (n_dec l)) - coef_int (coefficient (n_dec r)))"
  by (auto simp: compareDeribitPrice_def coef_int_def Decimal_Validate_def split: option.splits)

lemma deribit_side_coefs:
  assumes "deribit_side_ok m"
  shows "distinct (map deribit_coef (map snd m))"
proof -
  have "inj_on (\<lambda>x. deribit_coef (snd x)) (set m)"
  proof (rule inj_onI, clarify)
    fix k l k' l'
    assume mem: "(k, l) \<in> set m" "(k', l') \<in> set m" and eq: "deribit_coef (snd (k, l)) = deribit_coef (snd (k', l'))"
    have "go_get m k = Some l" "go_get m k' = Some l'" using mem assms by (auto simp: deribit_side_ok_def go_get_mem)
    then have e: "deribit_entry_ok k l" "deribit_entry_ok k' l'" using assms by (auto simp: deribit_side_ok_def)
    have "coefficient (n_dec (dv_price l)) = coefficient (n_dec (dv_price l'))"
      using e eq [simplified] valid_coefficient unfolding deribit_entry_ok_def deribit_coef_def by metis
    then have "k = k'" using e by (simp add: deribit_entry_ok_def deribitPriceKey_def)
    with \<open>go_get m k = Some l\<close> \<open>go_get m k' = Some l'\<close> show "k = k' \<and> l = l'" by simp
  qed
  moreover have "distinct m" using assms by (auto simp: deribit_side_ok_def wf_map_def distinct_map)
  ultimately have "distinct (map (\<lambda>x. deribit_coef (snd x)) m)" by (simp add: distinct_map)
  then show ?thesis by (simp add: comp_def)
qed

lemma set_deribit_sorted [simp]: "set (deribit_sorted m descending) = snd ` set m"
  by (simp add: deribit_sorted_def)

lemma deribit_sorted_strict:
  assumes "deribit_side_ok m"
  shows "sorted_wrt (if descending then (>) else (<)) (map deribit_coef (deribit_sorted m descending))"
proof -
  let ?k = "\<lambda>l. (if descending then -1 else 1) * deribit_coef l"
  let ?xs = "sort_key ?k (map snd m)"
  have xs: "deribit_sorted m descending = ?xs" by (simp add: deribit_sorted_def deribit_coef_def)
  have "distinct (map deribit_coef ?xs)"
    using deribit_side_coefs [OF assms] distinct_map by (metis (no_types, lifting) distinct_sort set_sort)
  then have "distinct (map ?k ?xs)"
    by (auto simp: distinct_map inj_on_def)
  moreover have "sorted (map ?k ?xs)" by simp
  ultimately have "sorted_wrt (<) (map ?k ?xs)" by (simp add: strict_sorted_iff)
  then show ?thesis unfolding xs by (cases descending) (simp_all add: sorted_wrt_map)
qed

lemma deribit_sorted_order_free:
  assumes "deribit_side_ok m" "wf_map m'" "go_get m' = go_get m"
  shows "deribit_sorted m' descending = deribit_sorted m descending"
proof -
  have "mset m = mset m'" using assms by (intro wf_map_same_mset) (simp_all add: deribit_side_ok_def)
  then have "mset (map snd m) = mset (map snd m')" by simp
  moreover have "inj_on deribit_coef (set (map snd m))"
    using deribit_side_coefs [OF assms(1)] by (metis distinct_map)
  then have "inj_on (\<lambda>l. (if descending then -1 else 1) * deribit_coef l) (set (map snd m))"
    by (auto simp: inj_on_def)
  ultimately show ?thesis
    unfolding deribit_sorted_def deribit_coef_def [symmetric] by (rule sort_key_mset_unique [symmetric])
qed

subsection \<open>Reachable books\<close>

inductive deribit_reach :: "string \<Rightarrow> deribit_book \<Rightarrow> bool" for uid where
  New: "NewDeribitBook uid = Inr b \<Longrightarrow> deribit_reach uid b"
| Apply: "deribit_reach uid b \<Longrightarrow> deribit_reach uid (fst (deribit_apply b u))"

lemma deribit_New_ok: "NewDeribitBook uid = Inr b \<Longrightarrow> deribit_ok b"
  by (auto simp: NewDeribitBook_def deribit_ok_def split: if_splits)

lemma deribit_reach_ok: "deribit_reach uid b \<Longrightarrow> deribit_ok b"
  by (induction rule: deribit_reach.induct) (simp_all add: deribit_New_ok deribit_apply_ok)

text \<open>
  C24. A Deribit update is applied exactly when it fits.  An update for another
  instrument, an invalid one, a grouped view or one with a provisional unit is
  refused and leaves the book as it was.  Otherwise a snapshot with no deletes and
  no repeated price rebuilds the book, and a change is applied exactly when the
  book is live, its previous change ID is the book's, and each action fits (new on
  an absent price, change or delete on a present one); anything else empties the
  book, marks it invalid and asks for resubscription.
\<close>

theorem deribit_apply_exact:
  "if \<not> deribit_accepts b u
   then fst (deribit_apply b u) = b \<and> snd (snd (deribit_apply b u)) \<noteq> None
   else if deribit_matches b u
   then deribit_rewrites b u (fst (deribit_apply b u)) \<and> snd (snd (deribit_apply b u)) = None
   else fst (deribit_apply b u) = deribit_invalidate b \<and> snd (snd (deribit_apply b u)) \<noteq> None \<and>
     dx_recovery (fst (snd (deribit_apply b u))) = DeribitRecoveryResubscribe"
  using deribit_apply_cases [of b u] by presburger

text \<open>
  A live Deribit book follows the change IDs: in any run of updates in which a
  reachable book stays live, the updates it applied form one chain of change IDs,
  broken only by full snapshots, from its position before the run to the one after.
\<close>

theorem deribit_live_chain:
  assumes "deribit_reach uid b" "deribit_live b" "run_book deribit_apply b us = (b', log)"
    and "\<forall>(u, c, r) \<in> set log. deribit_live c"
  shows "linked deribit_follows du_change (db_change b) (map fst (filter (\<lambda>(u, c, r). dx_applied (fst r)) log)) (db_change b')"
  using deribit.run_linked [OF deribit_reach_ok [OF assms(1)] assms(2-4)] .

text \<open>
  The export of a reachable book is canonical: it fails exactly when the book
  is not live; otherwise the bids are strictly descending and the asks strictly
  ascending by price, every exported amount is non-zero in dollars or the base
  asset, and the result is the same whatever order the side maps are ranged in.
\<close>

theorem deribit_snapshot_canonical:
  assumes "deribit_reach uid b"
  shows "(if deribit_live b then
       (\<exists>s. DeribitBook_Snapshot (Some b) = Inr s \<and> ds_change s = db_change b \<and>
          sorted_wrt (>) (map deribit_coef (ds_bids s)) \<and> sorted_wrt (<) (map deribit_coef (ds_asks s)) \<and>
          (\<forall>l \<in> set (ds_bids s) \<union> set (ds_asks s). \<not> IsZero (nv_dec (dv_amount l)) \<and>
             (nu_kind (nv_unit (dv_amount l)) = NativeUnitUSD \<or> nu_kind (nv_unit (dv_amount l)) = NativeUnitBaseAsset)) \<and>
          (\<forall>bids asks. wf_map bids \<and> wf_map asks \<and> go_get bids = go_get (db_bids b) \<and> go_get asks = go_get (db_asks b) \<longrightarrow>
             DeribitBook_Snapshot (Some (b\<lparr>db_bids := bids, db_asks := asks\<rparr>)) = Inr s))
     else DeribitBook_Snapshot (Some b) = Inl ErrDeribitBookInvalid)"
proof (cases "deribit_live b")
  case True
  have ok: "deribit_side_ok (db_bids b)" "deribit_side_ok (db_asks b)"
    using deribit_reach_ok [OF assms] by (simp_all add: deribit_ok_def)
  have "\<forall>(k, l) \<in> set (db_bids b) \<union> set (db_asks b). deribit_entry_ok k l"
    using ok by (auto simp: deribit_side_ok_def go_get_mem)
  then have "\<forall>l \<in> snd ` set (db_bids b) \<union> snd ` set (db_asks b). \<not> IsZero (nv_dec (dv_amount l)) \<and>
    (nu_kind (nv_unit (dv_amount l)) = NativeUnitUSD \<or> nu_kind (nv_unit (dv_amount l)) = NativeUnitBaseAsset)"
    by (fastforce simp: deribit_entry_ok_def)
  then show ?thesis
    using True deribit_sorted_strict [OF ok(1), of True] deribit_sorted_strict [OF ok(2), of False]
      deribit_sorted_order_free [OF ok(1)] deribit_sorted_order_free [OF ok(2)]
    by (auto simp: DeribitBook_Snapshot_def deribit_live_def)
qed (simp add: deribit_Snapshot_idle)

subsection \<open>A run\<close>

definition sample_deribit_inference :: deribit_inference where
  "sample_deribit_inference = fst (InferDeribitAmountUnit sample_terms 5)"

definition sample_deribit_level :: "string \<Rightarrow> string \<Rightarrow> deribit_book_level" where
  "sample_deribit_level action amount = \<lparr>dl_action = action,
     dl_price = \<lparr>n_dec = \<lparr>coefficient = ''99'', dec_scale = 18\<rparr>, n_unit = SpotPriceUnit ''BTC'' ''USD''\<rparr>,
     dl_amount = \<lparr>nv_dec = \<lparr>coefficient = amount, dec_scale = 18\<rparr>, nv_unit = df_unit sample_deribit_inference\<rparr>,
     dl_ordinal = 0\<rparr>"

definition sample_deribit_update :: "string \<Rightarrow> u64 \<Rightarrow> opt_u64 \<Rightarrow> deribit_book_level \<Rightarrow> deribit_update" where
  "sample_deribit_update kind chg prev l = \<lparr>du_uid = ''I'', du_channel = ''book'', du_kind = kind, du_change = chg,
     du_previous = prev, du_time = 1, du_grouped = False, du_price_unit = SpotPriceUnit ''BTC'' ''USD'',
     du_inference = sample_deribit_inference, du_bids = [l], du_asks = []\<rparr>"

definition sample_deribit_seed :: deribit_update where
  "sample_deribit_seed = sample_deribit_update ''snapshot'' 7 \<lparr>ou_value = 0, ou_valid = False\<rparr> (sample_deribit_level ''new'' ''5'')"

definition sample_deribit_change :: deribit_update where
  "sample_deribit_change = sample_deribit_update ''change'' 9 \<lparr>ou_value = 7, ou_valid = True\<rparr> (sample_deribit_level ''change'' ''6'')"

definition sample_deribit_live :: deribit_book where
  "sample_deribit_live = fst (deribit_apply \<lparr>db_uid = ''I'', db_seeded = False, db_invalidated = False, db_change = 0,
     db_bids = [], db_asks = []\<rparr> sample_deribit_seed)"

lemma sample_deribit_reach: "deribit_reach ''I'' sample_deribit_live"
  unfolding sample_deribit_live_def
  by (intro deribit_reach.Apply deribit_reach.New) (simp add: NewDeribitBook_def)

lemma sample_deribit_runs: "deribit_live sample_deribit_live"
  "list_all (\<lambda>(u, c, r). deribit_live c) (snd (run_book deribit_apply sample_deribit_live [sample_deribit_change]))"
  "map fst (filter (\<lambda>(u, c, r). dx_applied (fst r)) (snd (run_book deribit_apply sample_deribit_live [sample_deribit_change]))) =
     [sample_deribit_change]"
  by code_simp+

theorem deribit_live_chain_witness:
  "linked deribit_follows du_change (db_change sample_deribit_live) [sample_deribit_change]
     (db_change (fst (run_book deribit_apply sample_deribit_live [sample_deribit_change])))"
proof -
  obtain b' log where run: "run_book deribit_apply sample_deribit_live [sample_deribit_change] = (b', log)"
    by (rule prod.exhaust)
  have "\<forall>(u, c, r) \<in> set log. deribit_live c" using sample_deribit_runs(2) unfolding run by (simp add: list_all_iff)
  from deribit_live_chain [OF sample_deribit_reach sample_deribit_runs(1) run this] sample_deribit_runs(3)
  show ?thesis unfolding run by simp
qed

theorem deribit_snapshot_canonical_witness:
  "\<exists>s. DeribitBook_Snapshot (Some sample_deribit_live) = Inr s \<and> sorted_wrt (>) (map deribit_coef (ds_bids s))"
  using deribit_snapshot_canonical [OF sample_deribit_reach] sample_deribit_runs(1) by auto

end
