(* ===== verification/OkxBook.thy ===== *)
theory OkxBook
  imports Complex_Main SideMap Decimal
begin

text \<open>
  \<open>src/orderbook/okx.go\<close>: the OKX book.  It is seeded by a WebSocket snapshot,
  follows \<open>prevSeqId\<close>, checks the venue's CRC32 over the best 25 levels until the
  field was retired, and drops its state on any failure.  The sides are Go maps
  from price text to level.  A nil receiver is \<^term>\<open>None\<close>.

  \<open>big.Rat.SetString\<close> is modelled on the plain decimal texts that the code lets
  through to it (\<open>validOKXDecimal\<close> scans a text before it converts it), and
  \<open>hash/crc32\<close>'s IEEE checksum bit by bit.

  \<open>sortedOKXLevels\<close> iterates over a Go map, in an order that the language leaves open and
  that differs from call to call, and then sorts by the numeric price with a sort
  that is not stable.  Levels whose price texts denote one number therefore come in any
  order.  The order is an argument of the model: a function that rearranges
  the levels of a side before a stable sort, one for the call of \<open>Apply\<close> and one for the call
  of \<open>View\<close>.  Every outcome of the Go code is the outcome for some such function,
  and the lemmas hold for each of them.
\<close>

subsection \<open>Types\<close>

datatype okx_error = ErrOKXBookConfiguration | ErrOKXBookUnseeded | ErrOKXBookGap | ErrOKXBookChecksum

datatype okx_state = OKXBookUnseeded | OKXBookLive | OKXBookNeedsResubscribe

datatype okx_liquidity = OKXRegularLiquidity | OKXRPILiquidity

datatype okx_checksum_status = OKXChecksumValidated | OKXChecksumUnavailable

datatype okx_apply_kind = OKXAppliedSnapshot | OKXAppliedUpdate | OKXAppliedNoChange | OKXAppliedMaintenance | OKXResubscribe

definition OKXChecksumCutoverTimeNS :: i64 where "OKXChecksumCutoverTimeNS = 1782172800000000000"

record okx_level =
  ol_price :: string
  ol_size :: string
  ol_deprecated :: string
  ol_count :: string

record okx_update =
  ox_channel :: string
  ox_instrument :: string
  ox_action :: string
  ox_source_time :: i64
  ox_received_time :: i64
  ox_previous :: i64
  ox_seq :: i64
  ox_checksum :: int
  ox_bids :: "okx_level list"
  ox_asks :: "okx_level list"

record okx_result =
  or_kind :: okx_apply_kind
  or_state :: okx_state
  or_sequence :: i64
  or_checksum :: int
  or_status :: "okx_checksum_status option"

record okx_view =
  ov_state :: okx_state
  ov_channel :: string
  ov_instrument :: string
  ov_liquidity :: okx_liquidity
  ov_sequence :: i64
  ov_status :: "okx_checksum_status option"
  ov_bids :: "okx_level list"
  ov_asks :: "okx_level list"

type_synonym okx_side = "(string \<times> okx_level) list"

record okx_book =
  ob_channel :: string
  ob_instrument :: string
  ob_liquidity :: okx_liquidity
  ob_depth :: int
  ob_state :: okx_state
  ob_sequence :: i64
  ob_status :: "okx_checksum_status option"
  ob_bids :: okx_side
  ob_asks :: okx_side

type_synonym okx_reply = "okx_result \<times> okx_error option"

subsection \<open>Standard library\<close>

definition rat_set_string :: "string \<Rightarrow> rat option" where
  "rat_set_string s =
     (let (neg, body) = (case s of [] \<Rightarrow> (False, [])
            | c # cs \<Rightarrow> if c = CHR ''-'' then (True, cs) else if c = CHR ''+'' then (False, cs) else (False, s));
          ip = takeWhile (\<lambda>c. c \<noteq> CHR ''.'') body;
          fp = drop 1 (dropWhile (\<lambda>c. c \<noteq> CHR ''.'') body)
      in if ip @ fp = [] \<or> \<not> list_all is_digit (ip @ fp) then None
         else Some ((if neg then -1 else 1) * of_nat (nat_of_digits (ip @ fp)) / 10 ^ length fp))"

definition crc32_shift :: "u32 \<Rightarrow> u32" where
  "crc32_shift c = (if bit c 0 then xor (drop_bit 1 c) 0xEDB88320 else drop_bit 1 c)"

definition crc32_byte :: "u32 \<Rightarrow> u8 \<Rightarrow> u32" where
  "crc32_byte c b = (crc32_shift ^^ 8) (xor c (ucast b))"

definition crc32_ieee :: "bytes \<Rightarrow> u32" where
  "crc32_ieee bs = xor (foldl crc32_byte 0xFFFFFFFF bs) 0xFFFFFFFF"

fun strings_join :: "string list \<Rightarrow> string \<Rightarrow> string" where
  "strings_join [] sep = []"
| "strings_join [x] sep = x"
| "strings_join (x # y # ys) sep = x @ sep @ strings_join (y # ys) sep"

subsection \<open>Validation\<close>

definition validOKXChannel :: "string \<Rightarrow> bool" where
  "validOKXChannel c \<longleftrightarrow> c \<in> set [''books'', ''books50-l2-tbt'', ''books-l2-tbt'', ''books-rpi-tbt'']"

definition okx_identity_char :: "char \<Rightarrow> bool" where
  "okx_identity_char c \<longleftrightarrow>
     \<not> (((of_char c :: nat) < 65 \<or> (of_char c :: nat) > 90) \<and> \<not> is_digit c \<and> c \<noteq> CHR ''-'' \<and> c \<noteq> CHR ''_'')"

definition validOKXIdentity :: "string \<Rightarrow> bool" where
  "validOKXIdentity s \<longleftrightarrow> \<not> (s = [] \<or> length s > 128 \<or> has_nul s) \<and> list_all okx_identity_char s"

fun okx_scan :: "string \<Rightarrow> nat \<Rightarrow> nat option \<Rightarrow> nat \<Rightarrow> (nat option \<times> nat) option" where
  "okx_scan [] i dot digits = Some (dot, digits)"
| "okx_scan (c # cs) i dot digits =
     (if is_digit c then okx_scan cs (Suc i) dot (Suc digits)
      else if c = CHR ''.'' \<and> dot = None then okx_scan cs (Suc i) (Some i) digits
      else None)"

definition validOKXDecimal :: "string \<Rightarrow> bool \<Rightarrow> bool" where
  "validOKXDecimal s zeroAllowed \<longleftrightarrow>
     (if s = [] \<or> length s > 128 \<or> hd s = CHR ''+'' then False
      else if hd s = CHR ''-'' \<and> length s = 1 then False
      else let start = (if hd s = CHR ''-'' then 1 else 0) in
        (case okx_scan (drop start s) start None 0 of
           None \<Rightarrow> False
         | Some (dot, digits) \<Rightarrow>
             if digits = 0 \<or> dot = Some start \<or> dot = Some (length s - 1) then False
             else (case rat_set_string s of
                     None \<Rightarrow> False
                   | Some d \<Rightarrow> if zeroAllowed then d \<ge> 0 else d > 0)))"

fun okx_levels_check :: "string list \<Rightarrow> okx_level list \<Rightarrow> bool" where
  "okx_levels_check seen [] = True"
| "okx_levels_check seen (l # ls) =
     (\<not> (\<not> validOKXDecimal (ol_price l) False \<or> \<not> validOKXDecimal (ol_size l) True \<or>
         \<not> validOKXDecimal (ol_deprecated l) True \<or> \<not> validOKXDecimal (ol_count l) True) \<and>
      ol_price l \<notin> set seen \<and> okx_levels_check (ol_price l # seen) ls)"

text \<open>Both errors of \<open>validateOKXLevels\<close> wrap \<open>ErrOKXBookConfiguration\<close>.\<close>

definition validateOKXLevels :: "okx_level list \<Rightarrow> bool" where
  "validateOKXLevels ls = okx_levels_check [] ls"

subsection \<open>Sides and checksum\<close>

definition okx_zero :: "okx_level \<Rightarrow> bool" where
  "okx_zero l \<longleftrightarrow> rat_set_string (ol_size l) = Some 0"

fun applyOKXLevels :: "okx_side \<Rightarrow> okx_level list \<Rightarrow> okx_side" where
  "applyOKXLevels m [] = m"
| "applyOKXLevels m (l # ls) =
     applyOKXLevels (if okx_zero l then go_delete (ol_price l) m else go_put (ol_price l) l m) ls"

definition okx_price :: "okx_level \<Rightarrow> rat" where
  "okx_price l = (case rat_set_string (ol_price l) of None \<Rightarrow> 0 | Some q \<Rightarrow> q)"

text \<open>
  The order of the levels of the bid side (\<^term>\<open>True\<close>) and of the ask side (\<^term>\<open>False\<close>)
  before the comparison: every level of the map comes once.
\<close>

type_synonym okx_order = "bool \<Rightarrow> okx_level list \<Rightarrow> okx_level list"

definition iterates :: "okx_order \<Rightarrow> bool" where
  "iterates it \<longleftrightarrow> (\<forall>d ls. mset (it d ls) = mset ls)"

definition sortedOKXLevels :: "okx_order \<Rightarrow> okx_side \<Rightarrow> bool \<Rightarrow> okx_level list" where
  "sortedOKXLevels it m descending =
     sort_key (\<lambda>l. if descending then - okx_price l else okx_price l) (it descending (map snd m))"

fun okx_parts :: "okx_level list \<Rightarrow> okx_level list \<Rightarrow> string list" where
  "okx_parts [] [] = []"
| "okx_parts (b # bs) [] = [ol_price b, ol_size b] @ okx_parts bs []"
| "okx_parts [] (a # as) = [ol_price a, ol_size a] @ okx_parts [] as"
| "okx_parts (b # bs) (a # as) = [ol_price b, ol_size b] @ [ol_price a, ol_size a] @ okx_parts bs as"

definition OKXChecksum :: "okx_level list \<Rightarrow> okx_level list \<Rightarrow> int" where
  "OKXChecksum bids asks = sint (crc32_ieee (str_bytes (strings_join (okx_parts (take 25 bids) (take 25 asks)) '':'')))"

definition validateOKXChecksum :: "okx_order \<Rightarrow> i64 \<Rightarrow> int \<Rightarrow> okx_side \<Rightarrow> okx_side \<Rightarrow> okx_error + okx_checksum_status" where
  "validateOKXChecksum it sourceTime supplied bids asks =
     (if sourceTime \<ge> OKXChecksumCutoverTimeNS then
        (if supplied \<noteq> 0 then Inl ErrOKXBookChecksum else Inr OKXChecksumUnavailable)
      else if OKXChecksum (sortedOKXLevels it bids True) (sortedOKXLevels it asks False) \<noteq> supplied then Inl ErrOKXBookChecksum
      else Inr OKXChecksumValidated)"

subsection \<open>Operations\<close>

definition NewOKXBook :: "string \<Rightarrow> string \<Rightarrow> int \<Rightarrow> okx_error + okx_book" where
  "NewOKXBook channel instrument depth =
     (if \<not> validOKXChannel channel \<or> \<not> validOKXIdentity instrument \<or> depth < 1 \<or> depth > 400
      then Inl ErrOKXBookConfiguration
      else Inr \<lparr>ob_channel = channel, ob_instrument = instrument,
        ob_liquidity = (if channel = ''books-rpi-tbt'' then OKXRPILiquidity else OKXRegularLiquidity),
        ob_depth = depth, ob_state = OKXBookUnseeded, ob_sequence = 0, ob_status = None, ob_bids = [], ob_asks = []\<rparr>)"

definition okx_cleared :: "okx_book \<Rightarrow> okx_state \<Rightarrow> okx_book" where
  "okx_cleared b st = b\<lparr>ob_state := st, ob_sequence := 0, ob_status := None, ob_bids := [], ob_asks := []\<rparr>"

definition okx_fail :: "okx_book \<Rightarrow> okx_error \<Rightarrow> okx_book \<times> okx_reply" where
  "okx_fail b err = (okx_cleared b OKXBookNeedsResubscribe,
     \<lparr>or_kind = OKXResubscribe, or_state = OKXBookNeedsResubscribe, or_sequence = 0, or_checksum = 0, or_status = None\<rparr>,
     Some err)"

definition Reconnect :: "okx_book \<Rightarrow> okx_book" where
  "Reconnect b = okx_cleared b OKXBookUnseeded"

definition okx_install :: "okx_book \<Rightarrow> okx_update \<Rightarrow> okx_side \<Rightarrow> okx_side \<Rightarrow> okx_checksum_status \<Rightarrow> okx_book" where
  "okx_install b u bids asks status = b\<lparr>ob_bids := bids, ob_asks := asks, ob_sequence := ox_seq u,
     ob_status := Some status, ob_state := OKXBookLive\<rparr>"

text \<open>The common tail of both branches of \<open>Apply\<close>: depth bound, checksum, commit.\<close>

definition okx_commit :: "okx_order \<Rightarrow> okx_book \<Rightarrow> okx_update \<Rightarrow> okx_side \<Rightarrow> okx_side \<Rightarrow> okx_apply_kind \<Rightarrow> okx_book \<times> okx_reply" where
  "okx_commit it b u bids asks kind =
     (if int (length bids) > ob_depth b \<or> int (length asks) > ob_depth b then okx_fail b ErrOKXBookConfiguration
      else (case validateOKXChecksum it (ox_source_time u) (ox_checksum u) bids asks of
              Inl err \<Rightarrow> okx_fail b err
            | Inr status \<Rightarrow> (okx_install b u bids asks status,
                \<lparr>or_kind = kind, or_state = OKXBookLive, or_sequence = ox_seq u, or_checksum = ox_checksum u,
                 or_status = Some status\<rparr>, None)))"

definition okx_identity_ok :: "okx_book \<Rightarrow> okx_update \<Rightarrow> bool" where
  "okx_identity_ok b u \<longleftrightarrow>
     \<not> (ox_channel u \<noteq> ob_channel b \<or> ox_instrument u \<noteq> ob_instrument b \<or> ox_source_time u < 0 \<or> ox_received_time u < 0 \<or>
        ox_seq u < 0 \<or> ox_previous u < -1 \<or> (ox_action u \<noteq> ''snapshot'' \<and> ox_action u \<noteq> ''update'') \<or>
        int (length (ox_bids u)) > ob_depth b \<or> int (length (ox_asks u)) > ob_depth b)"

definition okx_apply :: "okx_order \<Rightarrow> okx_book \<Rightarrow> okx_update \<Rightarrow> okx_book \<times> okx_reply" where
  "okx_apply it b u =
     (if \<not> okx_identity_ok b u then okx_fail b ErrOKXBookConfiguration
      else if \<not> validateOKXLevels (ox_bids u) then okx_fail b ErrOKXBookConfiguration
      else if \<not> validateOKXLevels (ox_asks u) then okx_fail b ErrOKXBookConfiguration
      else if ox_action u = ''snapshot'' then
        (if ox_previous u \<noteq> -1 then okx_fail b ErrOKXBookGap
         else okx_commit it b u (applyOKXLevels [] (ox_bids u)) (applyOKXLevels [] (ox_asks u)) OKXAppliedSnapshot)
      else if ob_state b \<noteq> OKXBookLive then okx_fail b ErrOKXBookUnseeded
      else if ox_previous u \<noteq> ob_sequence b then okx_fail b ErrOKXBookGap
      else
        let noChange = (length (ox_bids u) = 0 \<and> length (ox_asks u) = 0 \<and> ox_seq u = ox_previous u);
            maintenanceReset = (ox_seq u < ox_previous u) in
        if \<not> noChange \<and> \<not> maintenanceReset \<and> ox_seq u \<le> ox_previous u then okx_fail b ErrOKXBookGap
        else okx_commit it b u (applyOKXLevels (ob_bids b) (ox_bids u)) (applyOKXLevels (ob_asks b) (ox_asks u))
          (if noChange then OKXAppliedNoChange else if maintenanceReset then OKXAppliedMaintenance else OKXAppliedUpdate))"

definition OKXBook_Apply :: "okx_order \<Rightarrow> okx_book option \<Rightarrow> okx_update \<Rightarrow> okx_book option \<times> okx_reply" where
  "OKXBook_Apply it p u =
     (case p of
        None \<Rightarrow> (None, \<lparr>or_kind = OKXResubscribe, or_state = OKXBookNeedsResubscribe, or_sequence = 0, or_checksum = 0,
                      or_status = None\<rparr>, Some ErrOKXBookConfiguration)
      | Some b \<Rightarrow> (case okx_apply it b u of (b', r) \<Rightarrow> (Some b', r)))"

definition View :: "okx_order \<Rightarrow> okx_book \<Rightarrow> okx_view" where
  "View it b = \<lparr>ov_state = ob_state b, ov_channel = ob_channel b, ov_instrument = ob_instrument b,
     ov_liquidity = ob_liquidity b, ov_sequence = ob_sequence b, ov_status = ob_status b,
     ov_bids = sortedOKXLevels it (ob_bids b) True, ov_asks = sortedOKXLevels it (ob_asks b) False\<rparr>"

subsection \<open>Decimal texts\<close>

lemma okx_scan_decimal: "okx_scan s i dot n = (case scan_decimal s i dot n of Inl _ \<Rightarrow> None | Inr x \<Rightarrow> Some x)"
proof (induction s i dot n rule: okx_scan.induct)
  case (2 c cs i dot digits)
  show ?case
  proof (cases "c = CHR ''.''")
    case True
    then have "\<not> is_digit c" by (simp add: is_digit_def)
    with True 2 show ?thesis by (cases dot) simp_all
  qed (use 2 in simp)
qed simp

lemma digit_not_point: "is_digit c \<Longrightarrow> c \<noteq> CHR ''.''"
  by (auto simp: is_digit_def)

lemma takeWhile_digits: "list_all is_digit ip \<Longrightarrow> takeWhile (\<lambda>c. c \<noteq> CHR ''.'') (ip @ CHR ''.'' # fp) = ip \<and>
   dropWhile (\<lambda>c. c \<noteq> CHR ''.'') (ip @ CHR ''.'' # fp) = CHR ''.'' # fp"
  by (induction ip) (simp_all add: digit_not_point)

lemma takeWhile_no_point: "list_all is_digit ip \<Longrightarrow> takeWhile (\<lambda>c. c \<noteq> CHR ''.'') ip = ip \<and>
   dropWhile (\<lambda>c. c \<noteq> CHR ''.'') ip = []"
  by (induction ip) (simp_all add: digit_not_point)

lemma rat_set_string_text:
  assumes "list_all is_digit ip" "ip \<noteq> []" "list_all is_digit fp"
  shows "rat_set_string (decimal_text neg ip fp) =
     Some ((if neg then -1 else 1) * of_nat (nat_of_digits (ip @ fp)) / 10 ^ length fp)"
proof -
  obtain c cs where ip: "ip = c # cs" using assms(2) by (cases ip) auto
  then have c: "c \<noteq> CHR ''-''" "c \<noteq> CHR ''+''" using assms(1) nat_text_not_sign by auto
  let ?body = "ip @ (if fp = [] then [] else CHR ''.'' # fp)"
  have tw: "takeWhile (\<lambda>c. c \<noteq> CHR ''.'') ?body = ip" "drop 1 (dropWhile (\<lambda>c. c \<noteq> CHR ''.'') ?body) = fp"
    using takeWhile_digits [OF assms(1), of fp] takeWhile_no_point [OF assms(1)] by auto
  have "(case decimal_text neg ip fp of [] \<Rightarrow> (False, [])
            | c # cs \<Rightarrow> if c = CHR ''-'' then (True, cs) else if c = CHR ''+'' then (False, cs)
               else (False, decimal_text neg ip fp)) = (neg, ?body)"
    using c ip by (simp add: decimal_text_def)
  then show ?thesis unfolding rat_set_string_def using tw assms by (simp del: drop_Suc_Cons)
qed

subsection \<open>Sides\<close>

interpretation okx_side: delta_side applyOKXLevels ol_price okx_zero "\<lambda>l. l"
  by unfold_locales simp_all

lemma okx_levels_check_iff:
  "okx_levels_check seen ls \<longleftrightarrow> distinct (map ol_price ls) \<and> set seen \<inter> ol_price ` set ls = {} \<and>
     (\<forall>l \<in> set ls. validOKXDecimal (ol_price l) False \<and> validOKXDecimal (ol_size l) True \<and>
        validOKXDecimal (ol_deprecated l) True \<and> validOKXDecimal (ol_count l) True)"
  by (induction ls arbitrary: seen) auto

definition okx_entry_ok :: "string \<Rightarrow> okx_level \<Rightarrow> bool" where
  "okx_entry_ok k l \<longleftrightarrow> k = ol_price l \<and> validOKXDecimal (ol_price l) False \<and> validOKXDecimal (ol_size l) True \<and> \<not> okx_zero l"

definition okx_side_ok :: "okx_side \<Rightarrow> bool" where
  "okx_side_ok m \<longleftrightarrow> wf_map m \<and> (\<forall>k l. go_get m k = Some l \<longrightarrow> okx_entry_ok k l)"

lemma okx_side_ok_Nil [simp]: "okx_side_ok []"
  by (simp add: okx_side_ok_def)

lemma okx_side_ok_apply:
  assumes "okx_side_ok m" "validateOKXLevels ls"
  shows "okx_side_ok (applyOKXLevels m ls)"
  unfolding okx_side_ok_def
proof (intro conjI allI impI)
  show "wf_map (applyOKXLevels m ls)" using assms(1) okx_side.apply_wf by (simp add: okx_side_ok_def)
  fix k l assume "go_get (applyOKXLevels m ls) k = Some l"
  then show "okx_entry_ok k l"
    by (rule okx_side.apply_all_entries [where P = okx_entry_ok, rotated 2])
      (use assms in \<open>auto simp: okx_side_ok_def okx_entry_ok_def validateOKXLevels_def okx_levels_check_iff\<close>)
qed

text \<open>A level is in the side after an update exactly as the update and the side before say.\<close>

lemma find_filter: "List.find P xs = (case filter P xs of [] \<Rightarrow> None | x # _ \<Rightarrow> Some x)"
  by (induction xs) auto

lemma applyOKXLevels_lookup:
  assumes "validateOKXLevels ls"
  shows "go_get (applyOKXLevels m ls) k =
     (case List.find (\<lambda>l. ol_price l = k) ls of None \<Rightarrow> go_get m k | Some l \<Rightarrow> if okx_zero l then None else Some l)"
proof (cases "filter (\<lambda>l. ol_price l = k) ls")
  case Nil
  then show ?thesis by (simp add: okx_side.apply_lookup find_filter)
next
  case (Cons l ds)
  have "distinct (map ol_price ls)" using assms by (simp add: validateOKXLevels_def okx_levels_check_iff)
  then have "distinct (map ol_price (l # ds))" unfolding Cons [symmetric] by (rule distinct_map_filter)
  then have "ol_price l \<notin> ol_price ` set ds" by simp
  moreover have "\<forall>d \<in> set (filter (\<lambda>l. ol_price l = k) ls). ol_price d = k" by simp
  then have "ol_price l = k" "\<forall>d \<in> set ds. ol_price d = k" unfolding Cons by simp_all
  ultimately have "set ds = {}" by (metis ex_in_conv imageI)
  then have "ds = []" by simp
  with Cons show ?thesis by (simp add: okx_side.apply_lookup find_filter)
qed

subsection \<open>What an update does\<close>

definition okx_base :: "okx_update \<Rightarrow> okx_side \<Rightarrow> okx_side" where
  "okx_base u m = (if ox_action u = ''snapshot'' then [] else m)"

definition okx_next_bids :: "okx_book \<Rightarrow> okx_update \<Rightarrow> okx_side" where
  "okx_next_bids b u = applyOKXLevels (okx_base u (ob_bids b)) (ox_bids u)"

definition okx_next_asks :: "okx_book \<Rightarrow> okx_update \<Rightarrow> okx_side" where
  "okx_next_asks b u = applyOKXLevels (okx_base u (ob_asks b)) (ox_asks u)"

definition okx_follows :: "i64 \<Rightarrow> okx_update \<Rightarrow> bool" where
  "okx_follows q u \<longleftrightarrow> (if ox_action u = ''snapshot'' then ox_previous u = -1
     else ox_previous u = q \<and> (ox_seq u = q \<longrightarrow> ox_bids u = [] \<and> ox_asks u = []))"

definition okx_admits :: "okx_book \<Rightarrow> okx_update \<Rightarrow> bool" where
  "okx_admits b u \<longleftrightarrow> okx_identity_ok b u \<and> validateOKXLevels (ox_bids u) \<and> validateOKXLevels (ox_asks u) \<and>
     okx_follows (ob_sequence b) u \<and> (ox_action u \<noteq> ''snapshot'' \<longrightarrow> ob_state b = OKXBookLive) \<and>
     int (length (okx_next_bids b u)) \<le> ob_depth b \<and> int (length (okx_next_asks b u)) \<le> ob_depth b"

lemma okx_fail_simps [simp]:
  "fst (okx_fail b err) = okx_cleared b OKXBookNeedsResubscribe" "snd (snd (okx_fail b err)) = Some err"
  by (simp_all add: okx_fail_def)

lemma okx_apply_commit:
  "if okx_identity_ok b u \<and> validateOKXLevels (ox_bids u) \<and> validateOKXLevels (ox_asks u) \<and>
     okx_follows (ob_sequence b) u \<and> (ox_action u \<noteq> ''snapshot'' \<longrightarrow> ob_state b = OKXBookLive)
   then \<exists>kind. okx_apply it b u = okx_commit it b u (okx_next_bids b u) (okx_next_asks b u) kind
   else \<exists>err. okx_apply it b u = okx_fail b err"
  unfolding okx_apply_def okx_follows_def okx_next_bids_def okx_next_asks_def okx_base_def Let_def
  by auto

abbreviation okx_verdict :: "okx_order \<Rightarrow> okx_book \<Rightarrow> okx_update \<Rightarrow> okx_error + okx_checksum_status" where
  "okx_verdict it b u \<equiv> validateOKXChecksum it (ox_source_time u) (ox_checksum u) (okx_next_bids b u) (okx_next_asks b u)"

lemma okx_apply_cases:
  obtains (applied) status where "okx_admits b u" "okx_verdict it b u = Inr status" "snd (snd (okx_apply it b u)) = None"
    "fst (okx_apply it b u) = okx_install b u (okx_next_bids b u) (okx_next_asks b u) status"
  | (failed) "\<not> okx_admits b u \<or> (\<exists>err. okx_verdict it b u = Inl err)" "snd (snd (okx_apply it b u)) \<noteq> None"
    "fst (okx_apply it b u) = okx_cleared b OKXBookNeedsResubscribe"
proof (cases "okx_identity_ok b u \<and> validateOKXLevels (ox_bids u) \<and> validateOKXLevels (ox_asks u) \<and>
     okx_follows (ob_sequence b) u \<and> (ox_action u \<noteq> ''snapshot'' \<longrightarrow> ob_state b = OKXBookLive)")
  case pre: True
  then obtain kind where a: "okx_apply it b u = okx_commit it b u (okx_next_bids b u) (okx_next_asks b u) kind"
    using okx_apply_commit [of b u it] by auto
  show ?thesis
  proof (cases "int (length (okx_next_bids b u)) > ob_depth b \<or> int (length (okx_next_asks b u)) > ob_depth b")
    case True
    then show ?thesis using a by (intro failed) (auto simp: okx_commit_def okx_admits_def)
  next
    case False
    with pre have adm: "okx_admits b u" by (simp add: okx_admits_def)
    show ?thesis
    proof (cases "okx_verdict it b u")
      case (Inl err)
      then show ?thesis using a False by (intro failed) (auto simp: okx_commit_def)
    next
      case (Inr status)
      then show ?thesis using a False adm by (intro applied) (auto simp: okx_commit_def)
    qed
  qed
next
  case False
  then obtain err where "okx_apply it b u = okx_fail b err" using okx_apply_commit [of b u it] by auto
  then show ?thesis using False by (intro failed) (auto simp: okx_admits_def)
qed

lemma okx_apply_verdict:
  assumes "okx_admits b u"
  shows "case okx_verdict it b u of
      Inl err \<Rightarrow> snd (snd (okx_apply it b u)) \<noteq> None
    | Inr status \<Rightarrow> snd (snd (okx_apply it b u)) = None \<and>
        fst (okx_apply it b u) = okx_install b u (okx_next_bids b u) (okx_next_asks b u) status"
  using assms by (cases rule: okx_apply_cases [where b = b and u = u and it = it]) auto

subsection \<open>Invariant\<close>

definition okx_ok :: "okx_book \<Rightarrow> bool" where
  "okx_ok b \<longleftrightarrow> 1 \<le> ob_depth b \<and> ob_depth b \<le> 400 \<and> okx_side_ok (ob_bids b) \<and> okx_side_ok (ob_asks b) \<and>
     int (length (ob_bids b)) \<le> ob_depth b \<and> int (length (ob_asks b)) \<le> ob_depth b \<and>
     (if ob_state b = OKXBookLive then ob_status b \<noteq> None \<and> 0 \<le> ob_sequence b
      else ob_bids b = [] \<and> ob_asks b = [] \<and> ob_sequence b = 0 \<and> ob_status b = None)"

lemma okx_cleared_ok: "okx_ok b \<Longrightarrow> st \<noteq> OKXBookLive \<Longrightarrow> okx_ok (okx_cleared b st)"
  by (simp add: okx_ok_def okx_cleared_def)

lemma okx_install_ok:
  assumes "okx_ok b" "okx_admits b u"
  shows "okx_ok (okx_install b u (okx_next_bids b u) (okx_next_asks b u) status)"
  using assms by (auto simp: okx_ok_def okx_install_def okx_admits_def okx_identity_ok_def okx_next_bids_def
      okx_next_asks_def okx_base_def intro!: okx_side_ok_apply)

lemma okx_apply_ok: "okx_ok b \<Longrightarrow> okx_ok (fst (okx_apply it b u))"
  by (cases rule: okx_apply_cases [where b = b and u = u and it = it]) (simp_all add: okx_install_ok okx_cleared_ok)

lemma okx_New_ok: "NewOKXBook channel instrument depth = Inr b \<Longrightarrow> okx_ok b"
  by (auto simp: NewOKXBook_def okx_ok_def split: if_splits)

text \<open>The messages of a run: an update and the order in which its call meets the levels.\<close>

definition okx_step :: "okx_book \<Rightarrow> okx_update \<times> okx_order \<Rightarrow> okx_book \<times> okx_reply" where
  "okx_step b m = okx_apply (snd m) b (fst m)"

lemma sortedOKXLevels_mset: "iterates it \<Longrightarrow> mset (sortedOKXLevels it m d) = mset (map snd m)"
  by (simp add: sortedOKXLevels_def iterates_def)

lemma set_sortedOKXLevels: "iterates it \<Longrightarrow> set (sortedOKXLevels it m d) = snd ` set m"
  using arg_cong [OF sortedOKXLevels_mset, of it set_mset m d] by simp

lemma length_sortedOKXLevels: "iterates it \<Longrightarrow> length (sortedOKXLevels it m d) = length m"
  using arg_cong [OF sortedOKXLevels_mset, of it size m d] by simp

interpretation okx: sequenced_book okx_step okx_ok "\<lambda>b. ob_state b = OKXBookLive" ob_sequence
  "\<lambda>r. snd r = None" "\<lambda>q m. okx_follows q (fst m)" "\<lambda>m. ox_seq (fst m)"
  "\<lambda>b. \<forall>it. iterates it \<longrightarrow> ov_bids (View it b) = [] \<and> ov_asks (View it b) = []"
proof
  show "okx_ok s'" if "okx_ok s" "okx_step s m = (s', r)" for s m s' r
    using okx_apply_ok [OF that(1), of "snd m" "fst m"] that(2) by (simp add: okx_step_def)
  show "okx_follows (ob_sequence s) (fst m) \<and> ob_sequence s' = ox_seq (fst m) \<and> ob_state s' = OKXBookLive"
    if "okx_step s m = (s', r)" "snd r = None" for s m s' r
    using that by (cases rule: okx_apply_cases [where b = s and u = "fst m" and it = "snd m"]) (auto simp: okx_step_def okx_admits_def okx_install_def)
  show "s' = s" if "okx_step s m = (s', r)" "snd r \<noteq> None" "ob_state s' = OKXBookLive" for s m s' r
    using that by (cases rule: okx_apply_cases [where b = s and u = "fst m" and it = "snd m"]) (auto simp: okx_step_def okx_cleared_def)
  show "\<forall>it. iterates it \<longrightarrow> ov_bids (View it s) = [] \<and> ov_asks (View it s) = []" if "okx_ok s" "ob_state s \<noteq> OKXBookLive" for s
    using that length_sortedOKXLevels [of _ "[]"] by (simp add: okx_ok_def View_def)
qed

lemma run_book_messages: "map fst (snd (run_book step s us)) = us"
  by (induction us arbitrary: s) (simp_all add: Let_def case_prod_beta)

subsection \<open>Reachable books\<close>

inductive okx_reach :: "okx_book \<Rightarrow> bool" where
  New: "NewOKXBook channel instrument depth = Inr b \<Longrightarrow> okx_reach b"
| Apply: "okx_reach b \<Longrightarrow> iterates it \<Longrightarrow> okx_reach (fst (okx_apply it b u))"
| Reconnect: "okx_reach b \<Longrightarrow> okx_reach (Reconnect b)"

lemma okx_reach_ok: "okx_reach b \<Longrightarrow> okx_ok b"
  by (induction rule: okx_reach.induct) (simp_all add: okx_New_ok okx_apply_ok Reconnect_def okx_cleared_ok)

text \<open>Best price first: the lists that hold each level of the two sides once, in the order of the prices.\<close>

definition best_first :: "okx_side \<Rightarrow> okx_side \<Rightarrow> okx_level list \<Rightarrow> okx_level list \<Rightarrow> bool" where
  "best_first bm am bids asks \<longleftrightarrow> mset bids = mset (map snd bm) \<and> mset asks = mset (map snd am) \<and>
     sorted_wrt (\<ge>) (map okx_price bids) \<and> sorted (map okx_price asks)"

lemma sorted_descending: "sorted_wrt (\<ge>) (map okx_price ls) \<longleftrightarrow> sorted (map (\<lambda>l. - okx_price l) ls)"
  by (simp add: sorted_wrt_map)

lemma sortedOKXLevels_best:
  assumes "iterates it"
  shows "best_first bm am (sortedOKXLevels it bm True) (sortedOKXLevels it am False)"
proof -
  have "sorted (map (\<lambda>l. - okx_price l) (sortedOKXLevels it bm True))" "sorted (map okx_price (sortedOKXLevels it am False))"
    by (simp_all add: sortedOKXLevels_def)
  then show ?thesis using assms by (simp add: best_first_def sortedOKXLevels_mset sorted_descending)
qed

text \<open>Without two levels of one price there is one such arrangement.\<close>

definition one_text :: "okx_side \<Rightarrow> bool" where
  "one_text m \<longleftrightarrow> distinct (map okx_price (map snd m))"

lemma sorted_unique:
  fixes key :: "okx_level \<Rightarrow> rat"
  assumes "mset xs = mset ys" "distinct (map key ys)" "sorted (map key xs)" "sorted (map key ys)"
  shows "xs = ys"
proof (rule map_sorted_distinct_set_unique [of key])
  show eq: "set xs = set ys" using assms(1) by (rule mset_eq_setD)
  then show "inj_on key (set xs \<union> set ys)" using assms(2) by (simp add: distinct_map)
  show "distinct (map key xs)" using assms(1,2) by (metis mset_eq_imp_distinct_iff mset_map)
qed (use assms in simp_all)

lemma best_first_distinct:
  assumes "one_text bm" "one_text am" "best_first bm am bids asks"
  shows "distinct (map okx_price bids) \<and> distinct (map okx_price asks)"
proof -
  have "mset (map okx_price bids) = mset (map okx_price (map snd bm))" "mset (map okx_price asks) = mset (map okx_price (map snd am))"
    using assms(3) by (simp_all only: best_first_def mset_map)
  then show ?thesis using assms(1,2) unfolding one_text_def by (metis mset_eq_imp_distinct_iff)
qed

lemma best_first_unique:
  assumes "one_text bm" "one_text am" "best_first bm am bids asks" "best_first bm am bids' asks'"
  shows "bids = bids' \<and> asks = asks'"
proof
  have dist: "distinct (map okx_price bids')" "distinct (map okx_price asks')"
    using best_first_distinct [OF assms(1,2,4)] by simp_all
  then have neg: "distinct (map (\<lambda>l. - okx_price l) bids')" by (auto simp: distinct_map inj_on_def)
  show "asks = asks'" by (rule sorted_unique [OF _ dist(2)]) (use assms in \<open>simp_all add: best_first_def\<close>)
  show "bids = bids'" by (rule sorted_unique [OF _ neg]) (use assms in \<open>simp_all add: best_first_def sorted_descending\<close>)
qed

lemma okx_entry_mem: "okx_side_ok m \<Longrightarrow> l \<in> snd ` set m \<Longrightarrow> okx_entry_ok (ol_price l) l"
  by (auto simp: okx_side_ok_def go_get_mem) (metis okx_entry_ok_def)

lemma okx_price_pos: "okx_entry_ok k l \<Longrightarrow> 0 < okx_price l"
  by (auto simp: okx_entry_ok_def okx_price_def validOKXDecimal_def Let_def split: if_splits option.splits)

text \<open>
  C27. Every OKX book that the constructor, updates and reconnects can reach shows
  at most its depth of levels per side, none of them with a zero size or a price
  that is not positive, best price first on both sides; and it shows none at all,
  at sequence zero and with no checksum verdict, unless it is live.  This holds in
  whatever order the map of each side is read.
\<close>

theorem okx_reachable_view:
  assumes "okx_reach b" "iterates it"
  shows "int (length (ov_bids (View it b))) \<le> ob_depth b \<and> int (length (ov_asks (View it b))) \<le> ob_depth b \<and> ob_depth b \<le> 400 \<and>
     (\<forall>l \<in> set (ov_bids (View it b)) \<union> set (ov_asks (View it b)). 0 < okx_price l \<and> \<not> okx_zero l) \<and>
     sorted_wrt (\<ge>) (map okx_price (ov_bids (View it b))) \<and> sorted (map okx_price (ov_asks (View it b))) \<and>
     (ov_state (View it b) \<noteq> OKXBookLive \<longrightarrow>
        ov_bids (View it b) = [] \<and> ov_asks (View it b) = [] \<and> ov_sequence (View it b) = 0 \<and> ov_status (View it b) = None)"
proof -
  have ok: "okx_ok b" using assms(1) by (rule okx_reach_ok)
  then have "okx_entry_ok (ol_price l) l" if "l \<in> snd ` set (ob_bids b) \<union> snd ` set (ob_asks b)" for l
    using that okx_entry_mem by (auto simp: okx_ok_def)
  then have "\<forall>l \<in> snd ` set (ob_bids b) \<union> snd ` set (ob_asks b). 0 < okx_price l \<and> \<not> okx_zero l"
    using okx_price_pos okx_entry_ok_def by blast
  moreover have "ob_state b \<noteq> OKXBookLive \<Longrightarrow> sortedOKXLevels it (ob_bids b) True = [] \<and> sortedOKXLevels it (ob_asks b) False = []"
    using okx.idle_blank [OF ok] assms(2) by (simp add: View_def)
  moreover have "best_first (ob_bids b) (ob_asks b) (ov_bids (View it b)) (ov_asks (View it b))"
    using sortedOKXLevels_best [OF assms(2)] by (simp add: View_def)
  ultimately show ?thesis
    using ok by (simp add: View_def okx_ok_def best_first_def set_sortedOKXLevels [OF assms(2)] length_sortedOKXLevels [OF assms(2)])
qed

text \<open>
  C25. An OKX update either takes effect exactly or the book is dropped.  Apply
  reports no error exactly when the update is for this book, its levels are valid,
  it is a snapshot or continues the live book's sequence, the sides stay within
  the depth and the checksum verdict is positive; then each price holds the
  update's level for it (nothing if its size is zero), else what it held before
  (nothing before a snapshot).  Otherwise the book is empty and must be
  resubscribed.
\<close>

theorem okx_apply_exact:
  shows "(snd (snd (okx_apply it b u)) = None \<longleftrightarrow> okx_admits b u \<and> (\<exists>status. okx_verdict it b u = Inr status)) \<and>
    (if snd (snd (okx_apply it b u)) = None then
       ob_state (fst (okx_apply it b u)) = OKXBookLive \<and> ob_sequence (fst (okx_apply it b u)) = ox_seq u \<and>
       (\<forall>k. go_get (ob_bids (fst (okx_apply it b u))) k =
          (case List.find (\<lambda>l. ol_price l = k) (ox_bids u) of None \<Rightarrow> go_get (okx_base u (ob_bids b)) k
           | Some l \<Rightarrow> if okx_zero l then None else Some l)) \<and>
       (\<forall>k. go_get (ob_asks (fst (okx_apply it b u))) k =
          (case List.find (\<lambda>l. ol_price l = k) (ox_asks u) of None \<Rightarrow> go_get (okx_base u (ob_asks b)) k
           | Some l \<Rightarrow> if okx_zero l then None else Some l))
     else fst (okx_apply it b u) = okx_cleared b OKXBookNeedsResubscribe)"
proof (cases rule: okx_apply_cases [where b = b and u = u and it = it])
  case (applied status)
  then show ?thesis
    using applyOKXLevels_lookup [of "ox_bids u" "okx_base u (ob_bids b)"] applyOKXLevels_lookup [of "ox_asks u" "okx_base u (ob_asks b)"]
    by (auto simp: okx_admits_def okx_install_def okx_next_bids_def okx_next_asks_def)
next
  case failed
  then show ?thesis by auto
qed

text \<open>
  C26. While the venue still sent checksums, an OKX book takes only contents that the
  venue's checksum confirms.  Before the cutover, an update that takes effect carried the
  signed CRC32 of the 25 best levels of some best-first arrangement of the sides it
  leaves, and the book is marked validated.  When no two levels of a side have one price
  the arrangement is unique: an otherwise valid update takes effect exactly when its
  checksum is that of the arrangement, and every later view of the book, in whatever order
  the maps are read, has this checksum.  After the cutover an otherwise valid
  update takes effect exactly when its checksum field is zero, and the verdict is unavailable.
\<close>

theorem okx_checksum_guard:
  assumes "okx_admits b u" "iterates it"
  defines "taken \<equiv> snd (snd (okx_apply it b u)) = None" and "b' \<equiv> fst (okx_apply it b u)"
  shows "if ox_source_time u < OKXChecksumCutoverTimeNS then
       (taken \<longrightarrow> ob_status b' = Some OKXChecksumValidated \<and>
          (\<exists>bids asks. best_first (ob_bids b') (ob_asks b') bids asks \<and> OKXChecksum bids asks = ox_checksum u)) \<and>
       (one_text (okx_next_bids b u) \<and> one_text (okx_next_asks b u) \<longrightarrow>
          (taken \<longleftrightarrow> (\<exists>bids asks. best_first (okx_next_bids b u) (okx_next_asks b u) bids asks \<and> OKXChecksum bids asks = ox_checksum u)) \<and>
          (taken \<longrightarrow> (\<forall>it'. iterates it' \<longrightarrow> OKXChecksum (ov_bids (View it' b')) (ov_asks (View it' b')) = ox_checksum u)))
     else (taken \<longleftrightarrow> ox_checksum u = 0) \<and> (taken \<longrightarrow> ob_status b' = Some OKXChecksumUnavailable)"
proof -
  let ?bm = "okx_next_bids b u" and ?am = "okx_next_asks b u"
  let ?crc = "\<lambda>it. OKXChecksum (sortedOKXLevels it ?bm True) (sortedOKXLevels it ?am False)"
  have taken: "taken \<longleftrightarrow> (\<exists>status. okx_verdict it b u = Inr status)"
    and held: "taken \<Longrightarrow> \<exists>status. okx_verdict it b u = Inr status \<and> b' = okx_install b u ?bm ?am status"
    using okx_apply_verdict [OF assms(1), of it] unfolding taken_def b'_def by (auto split: sum.splits)
  note best = sortedOKXLevels_best [of _ ?bm ?am]
  show ?thesis
  proof (cases "ox_source_time u < OKXChecksumCutoverTimeNS")
    case True
    then have crc: "taken \<longleftrightarrow> ?crc it = ox_checksum u" by (simp add: taken validateOKXChecksum_def not_le)
    have left: "ob_bids b' = ?bm" "ob_asks b' = ?am" "ob_status b' = Some OKXChecksumValidated" if taken
      using held [OF that] True by (auto simp: validateOKXChecksum_def okx_install_def split: if_splits)
    have one: "OKXChecksum bids asks = ?crc it'" if "one_text ?bm" "one_text ?am" "best_first ?bm ?am bids asks" "iterates it'" for bids asks it'
      using best_first_unique [OF that(1-3) best [OF that(4)]] by simp
    have view: "OKXChecksum (ov_bids (View it' b')) (ov_asks (View it' b')) = ?crc it'" if taken for it'
      using left [OF that] by (simp add: View_def)
    have some: "\<exists>bids asks. best_first ?bm ?am bids asks \<and> OKXChecksum bids asks = ox_checksum u" if taken
      using that crc best [OF assms(2)] by blast
    have iff: "taken \<longleftrightarrow> (\<exists>bids asks. best_first ?bm ?am bids asks \<and> OKXChecksum bids asks = ox_checksum u)"
      if "one_text ?bm" "one_text ?am" using some crc one [OF that _ assms(2)] by metis
    have all: "OKXChecksum (ov_bids (View it' b')) (ov_asks (View it' b')) = ox_checksum u"
      if "one_text ?bm" "one_text ?am" "iterates it'" taken for it'
      using view [OF that(4)] one [OF that(1,2) best [OF assms(2)] that(3)] crc that(4) by simp
    show ?thesis unfolding if_P [OF True] using some left iff all by simp
  next
    case False
    then show ?thesis using taken held by (auto simp: validateOKXChecksum_def okx_install_def split: if_splits)
  qed
qed

text \<open>
  A live OKX book follows the sequence: in any run of updates in which a
  reachable book stays live, the updates applied form one chain of previous and
  own sequence numbers, broken only by full snapshots, from the book's sequence
  before the run to the one after; an update that repeats its number is empty.
\<close>

theorem okx_live_chain:
  assumes "okx_reach b" "ob_state b = OKXBookLive" "run_book okx_step b ms = (b', entries)"
    and "\<forall>(m, c, r) \<in> set entries. ob_state c = OKXBookLive"
  shows "linked (\<lambda>q m. okx_follows q (fst m)) (\<lambda>m. ox_seq (fst m)) (ob_sequence b)
    (map fst (filter (\<lambda>(m, c, r). snd r = None) entries)) (ob_sequence b')"
  using okx.run_linked [OF okx_reach_ok [OF assms(1)] assms(2-4)] .

subsection \<open>A run\<close>

text \<open>A published test vector of the checksum: the CRC32 of the text 1.\<close>

lemma crc32_ieee_vector: "crc32_ieee (str_bytes ''1'') = 0x83DCEFB7"
  by code_simp

definition sample_okx_book :: okx_book where
  "sample_okx_book = \<lparr>ob_channel = ''books'', ob_instrument = ''BTC-USDT'', ob_liquidity = OKXRegularLiquidity, ob_depth = 5,
     ob_state = OKXBookUnseeded, ob_sequence = 0, ob_status = None, ob_bids = [], ob_asks = []\<rparr>"

definition sample_okx_level :: "string \<Rightarrow> string \<Rightarrow> okx_level" where
  "sample_okx_level p q = \<lparr>ol_price = p, ol_size = q, ol_deprecated = ''0'', ol_count = ''1''\<rparr>"

definition sample_okx_update :: "string \<Rightarrow> i64 \<Rightarrow> i64 \<Rightarrow> okx_level list \<Rightarrow> okx_update" where
  "sample_okx_update action prev seqn bids = \<lparr>ox_channel = ''books'', ox_instrument = ''BTC-USDT'', ox_action = action,
     ox_source_time = OKXChecksumCutoverTimeNS, ox_received_time = 1, ox_previous = prev, ox_seq = seqn, ox_checksum = 0,
     ox_bids = bids, ox_asks = []\<rparr>"

definition as_stored :: okx_order where "as_stored d ls = ls"
definition reversed :: okx_order where "reversed d ls = rev ls"

lemma sample_orders: "iterates as_stored" "iterates reversed"
  by (simp_all add: iterates_def as_stored_def reversed_def)

definition sample_okx_live :: okx_book where
  "sample_okx_live = fst (okx_apply as_stored sample_okx_book (sample_okx_update ''snapshot'' (-1) 3
     [sample_okx_level ''1.0'' ''2'', sample_okx_level ''1.00'' ''5'']))"

definition sample_okx_changes :: "(okx_update \<times> okx_order) list" where
  "sample_okx_changes = [(sample_okx_update ''update'' 3 8 [sample_okx_level ''1.0'' ''0.0''], as_stored),
     (sample_okx_update ''update'' 8 8 [], reversed)]"

lemma sample_okx_reach: "okx_reach sample_okx_book" "okx_reach sample_okx_live"
proof -
  have "NewOKXBook ''books'' ''BTC-USDT'' 5 = Inr sample_okx_book" by code_simp
  then show "okx_reach sample_okx_book" by (rule okx_reach.New)
  then show "okx_reach sample_okx_live" unfolding sample_okx_live_def using sample_orders(1) by (rule okx_reach.Apply)
qed

lemma sample_okx_runs: "ob_state sample_okx_live = OKXBookLive" "length (ov_bids (View reversed sample_okx_live)) = 2"
  "list_all (\<lambda>(m, c, r). ob_state c = OKXBookLive) (snd (run_book okx_step sample_okx_live sample_okx_changes))"
  "map (\<lambda>(m, c, r). snd r) (snd (run_book okx_step sample_okx_live sample_okx_changes)) = [None, None]"
  by code_simp+

theorem okx_reachable_view_witness:
  "sorted_wrt (\<ge>) (map okx_price (ov_bids (View reversed sample_okx_live))) \<and> length (ov_bids (View reversed sample_okx_live)) = 2"
  using okx_reachable_view [OF sample_okx_reach(2) sample_orders(2)] sample_okx_runs(2) by blast

text \<open>A snapshot from before the cutover, with the checksum of its two levels.\<close>

definition sample_okx_checked :: okx_update where
  "sample_okx_checked = (sample_okx_update ''snapshot'' (-1) 3 [sample_okx_level ''1.0'' ''2''])
     \<lparr>ox_source_time := 1, ox_asks := [sample_okx_level ''3'' ''4''], ox_checksum := 1484436452\<rparr>"

lemma sample_okx_admits: "okx_admits sample_okx_book sample_okx_checked"
  by code_simp

lemma sample_okx_distinct: "one_text (okx_next_bids sample_okx_book sample_okx_checked)"
  "one_text (okx_next_asks sample_okx_book sample_okx_checked)"
  by code_simp+

lemma sample_okx_arranged: "best_first (okx_next_bids sample_okx_book sample_okx_checked) (okx_next_asks sample_okx_book sample_okx_checked)
    [sample_okx_level ''1.0'' ''2''] [sample_okx_level ''3'' ''4'']"
  by code_simp

lemma crc32_shifts: "(crc32_shift ^^ 8) c =
    crc32_shift (crc32_shift (crc32_shift (crc32_shift (crc32_shift (crc32_shift (crc32_shift (crc32_shift c)))))))"
  by (simp add: eval_nat_numeral)

lemmas crc32_eval = OKXChecksum_def sample_okx_level_def str_bytes_def char_byte_def crc32_ieee_def crc32_byte_def crc32_shifts
  crc32_shift_def

lemma sample_okx_crc: "OKXChecksum [sample_okx_level ''1.0'' ''2''] [sample_okx_level ''3'' ''4''] = 1484436452"
  by (simp add: crc32_eval)

theorem okx_checksum_guard_witness:
  "OKXChecksum (ov_bids (View reversed (fst (okx_apply as_stored sample_okx_book sample_okx_checked))))
     (ov_asks (View reversed (fst (okx_apply as_stored sample_okx_book sample_okx_checked)))) = 1484436452 \<and>
   ob_status (fst (okx_apply as_stored sample_okx_book sample_okx_checked)) = Some OKXChecksumValidated"
proof -
  have "ox_source_time sample_okx_checked < OKXChecksumCutoverTimeNS" "ox_checksum sample_okx_checked = 1484436452"
    by (simp_all add: OKXChecksumCutoverTimeNS_def sample_okx_checked_def)
  then show ?thesis
    using okx_checksum_guard [OF sample_okx_admits sample_orders(1)] sample_okx_distinct sample_okx_arranged sample_okx_crc sample_orders(2)
    by auto
qed

theorem okx_live_chain_witness:
  "linked (\<lambda>q m. okx_follows q (fst m)) (\<lambda>m. ox_seq (fst m)) (ob_sequence sample_okx_live) sample_okx_changes
     (ob_sequence (fst (run_book okx_step sample_okx_live sample_okx_changes)))"
proof -
  obtain b' entries where run: "run_book okx_step sample_okx_live sample_okx_changes = (b', entries)"
    by (rule prod.exhaust)
  have live: "\<forall>(m, c, r) \<in> set entries. ob_state c = OKXBookLive" using sample_okx_runs(3) unfolding run by (simp add: list_all_iff)
  have "map fst entries = sample_okx_changes" using run run_book_messages [of okx_step sample_okx_live sample_okx_changes] by simp
  moreover have "filter (\<lambda>(m, c, r). snd r = None) entries = entries"
    using sample_okx_runs(4) unfolding run filter_id_conv by (auto simp: map_eq_Cons_conv)
  ultimately show ?thesis
    using okx_live_chain [OF sample_okx_reach(2) sample_okx_runs(1) run live] unfolding run by simp
qed

text \<open>
  Sides are keyed by price text, not by price: a reachable live book can show
  two levels for one price, when the venue writes it once with fewer digits.
\<close>

theorem okx_price_alias:
  "\<exists>b l l'. okx_reach b \<and> ob_state b = OKXBookLive \<and> l \<in> set (ov_bids (View as_stored b)) \<and> l' \<in> set (ov_bids (View as_stored b)) \<and>
     l \<noteq> l' \<and> okx_price l = okx_price l'"
proof -
  let ?l = "sample_okx_level ''1.0'' ''2''" and ?l' = "sample_okx_level ''1.00'' ''5''"
  have "list_all (\<lambda>l. l \<in> set (ov_bids (View as_stored sample_okx_live))) [?l, ?l'] \<and> ?l \<noteq> ?l' \<and> okx_price ?l = okx_price ?l'"
    by code_simp
  then show ?thesis using sample_okx_reach(2) sample_okx_runs(1) by auto
qed

text \<open>
  Such a book need not show what the checksum confirmed: one order of the map gives the
  checksum that the update carried, and the view in another order has a different one.
\<close>

theorem okx_tied_checksum:
  "\<exists>it it' b u. okx_reach b \<and> iterates it \<and> iterates it' \<and> snd (snd (okx_apply it b u)) = None \<and>
     ob_status (fst (okx_apply it b u)) = Some OKXChecksumValidated \<and>
     OKXChecksum (ov_bids (View it' (fst (okx_apply it b u)))) (ov_asks (View it' (fst (okx_apply it b u)))) \<noteq> ox_checksum u"
proof -
  let ?u = "(sample_okx_update ''snapshot'' (-1) 3 [sample_okx_level ''1.0'' ''2'', sample_okx_level ''1.00'' ''5''])
    \<lparr>ox_source_time := 1, ox_checksum := 774454459\<rparr>"
  let ?l = "sample_okx_level ''1.0'' ''2''" and ?l' = "sample_okx_level ''1.00'' ''5''"
  have adm: "okx_admits sample_okx_book ?u" by code_simp
  have orders: "sortedOKXLevels as_stored (okx_next_bids sample_okx_book ?u) True = [?l, ?l']"
    "sortedOKXLevels reversed (okx_next_bids sample_okx_book ?u) True = [?l', ?l]"
    "sortedOKXLevels as_stored (okx_next_asks sample_okx_book ?u) False = []"
    "sortedOKXLevels reversed (okx_next_asks sample_okx_book ?u) False = []" by code_simp+
  have crc: "OKXChecksum [?l, ?l'] [] = 774454459" "OKXChecksum [?l', ?l] [] \<noteq> 774454459" by (simp_all add: crc32_eval)
  then have "okx_verdict as_stored sample_okx_book ?u = Inr OKXChecksumValidated"
    by (simp add: validateOKXChecksum_def orders OKXChecksumCutoverTimeNS_def)
  with okx_apply_verdict [OF adm, of as_stored] have "snd (snd (okx_apply as_stored sample_okx_book ?u)) = None"
    "ob_status (fst (okx_apply as_stored sample_okx_book ?u)) = Some OKXChecksumValidated"
    "OKXChecksum (ov_bids (View reversed (fst (okx_apply as_stored sample_okx_book ?u))))
       (ov_asks (View reversed (fst (okx_apply as_stored sample_okx_book ?u)))) \<noteq> ox_checksum ?u"
    using crc(2) by (simp_all add: okx_install_def View_def orders)
  then show ?thesis using sample_okx_reach(1) sample_orders by blast
qed

end
