(* ===== verification/BybitBook.thy ===== *)
theory BybitBook
  imports SideMap "HOL-Library.Sublist"
begin

text \<open>
  \<open>src/bybit/book.go\<close> and \<open>src/bybit/option_book.go\<close>: the four Bybit books, from the
  decoded levels on.  The bounded, RPI and option books are seeded by snapshot
  messages and changed by deltas; the full book buffers deltas until a REST
  snapshot matches one of them exactly and then follows the update IDs.  The
  methods return the book they leave and the error; a nil receiver, which the
  methods answer with \<open>ErrInvalidPayload\<close> and which keeps no state, is left to the
  callers.  Of the parsing functions only the checks on levels are modelled
  (JSON is not).
\<close>

subsection \<open>Categories, symbols, topics\<close>

datatype bybit_error = ErrInvalidCategory | ErrInvalidTopic | ErrInvalidPayload | ErrBookNeedsSnapshot
  | ErrFullBookGap | ErrFullSequence | ErrFullSnapshotStale

definition Category_Validate :: "string \<Rightarrow> bool" where
  "Category_Validate c \<longleftrightarrow> c \<in> set [''spot'', ''linear'', ''inverse'']"

definition validBoundedDepth :: "int \<Rightarrow> bool" where
  "validBoundedDepth d \<longleftrightarrow> d \<in> set [1, 50, 200, 1000]"

definition is_upper :: "char \<Rightarrow> bool" where
  "is_upper c \<longleftrightarrow> 65 \<le> (of_char c :: nat) \<and> (of_char c :: nat) \<le> 90"

definition validSymbol :: "string \<Rightarrow> bool" where
  "validSymbol s \<longleftrightarrow> \<not> (s = [] \<or> length s > 64) \<and> list_all (\<lambda>c. is_upper c \<or> is_digit c \<or> c = CHR ''-'') s"

definition validBaseCoin :: "string \<Rightarrow> bool" where
  "validBaseCoin s \<longleftrightarrow> \<not> (s = [] \<or> length s > 16) \<and> list_all (\<lambda>c. is_upper c \<or> is_digit c) s"

fun text_scan :: "nat \<Rightarrow> string \<Rightarrow> nat \<Rightarrow> nat \<Rightarrow> (nat \<times> nat) option" where
  "text_scan i [] digits dots = Some (digits, dots)"
| "text_scan i (c # cs) digits dots =
     (if c = CHR ''-'' \<and> i = 0 then text_scan (Suc i) cs digits dots
      else if c = CHR ''.'' then text_scan (Suc i) cs digits (Suc dots)
      else if \<not> is_digit c then None
      else text_scan (Suc i) cs (Suc digits) dots)"

definition validDecimalText :: "string \<Rightarrow> bool" where
  "validDecimalText t \<longleftrightarrow>
     (if t = [] \<or> length t > 128 \<or> hd t = CHR ''+'' then False
      else (case text_scan 0 t 0 0 of
              None \<Rightarrow> False
            | Some (digits, dots) \<Rightarrow> digits > 0 \<and> dots \<le> 1 \<and> t \<noteq> ''.'' \<and> t \<noteq> ''-.'' \<and> last t \<noteq> CHR ''.''))"

text \<open>\<open>strings.Split\<close> on one character.\<close>

fun split_on :: "char \<Rightarrow> string \<Rightarrow> string list" where
  "split_on sep [] = [[]]"
| "split_on sep (c # cs) =
     (if c = sep then [] # split_on sep cs
      else (case split_on sep cs of [] \<Rightarrow> [[c]] | p # ps \<Rightarrow> (c # p) # ps))"

text \<open>
  \<open>time.Parse\<close> with the layout 02Jan06 followed by the comparison with the
  upper-cased \<open>Format\<close>: two digits, an upper-case month name, two digits, and a day
  that the month has in that year (two-digit years from 69 on are 19xx).
\<close>

definition option_months :: "(string \<times> nat) list" where
  "option_months = [(''JAN'', 31), (''FEB'', 28), (''MAR'', 31), (''APR'', 30), (''MAY'', 31), (''JUN'', 30),
     (''JUL'', 31), (''AUG'', 31), (''SEP'', 30), (''OCT'', 31), (''NOV'', 30), (''DEC'', 31)]"

definition option_year :: "nat \<Rightarrow> nat" where
  "option_year yy = (if yy \<ge> 69 then 1900 + yy else 2000 + yy)"

definition option_expiry_ok :: "string \<Rightarrow> bool" where
  "option_expiry_ok s \<longleftrightarrow> length s = 7 \<and> list_all is_digit (take 2 s @ drop 5 s) \<and>
     (case map_of option_months (take 3 (drop 2 s)) of
        None \<Rightarrow> False
      | Some n \<Rightarrow>
          let day = nat_of_digits (take 2 s); y = option_year (nat_of_digits (drop 5 s));
              leap = (y mod 4 = 0 \<and> (y mod 100 \<noteq> 0 \<or> y mod 400 = 0))
          in 1 \<le> day \<and> day \<le> n + (if take 3 (drop 2 s) = ''FEB'' \<and> leap then 1 else 0))"

definition validOptionSymbol :: "string \<Rightarrow> bool" where
  "validOptionSymbol s \<longleftrightarrow>
     (if s = [] \<or> length s > 64 \<or> has_nul s then False
      else let ps = split_on CHR ''-'' s in
        if (length ps \<noteq> 4 \<and> length ps \<noteq> 5) \<or> \<not> validBaseCoin (ps ! 0) \<or> \<not> validDecimalText (ps ! 2) then False
        else option_expiry_ok (ps ! 1) \<and> ps ! 3 \<in> set [''C'', ''P''] \<and> (length ps = 5 \<longrightarrow> validBaseCoin (ps ! 4)))"

definition validOptionBookDepth :: "int \<Rightarrow> bool" where
  "validOptionBookDepth d \<longleftrightarrow> d = 25 \<or> d = 100"

definition book_topic :: "int \<Rightarrow> string \<Rightarrow> string" where
  "book_topic depth symb = ''orderbook.'' @ big_string depth @ ''.'' @ symb"

subsection \<open>Levels\<close>

record price_level =
  pl_price :: string
  pl_amount :: string

record rpi_level =
  rl_price :: string
  rl_plain :: string
  rl_rpi :: string

definition trim_left :: "string \<Rightarrow> string \<Rightarrow> string" where
  "trim_left cutset s = dropWhile (\<lambda>c. c \<in> set cutset) s"

definition isZeroDecimal :: "string \<Rightarrow> bool" where
  "isZeroDecimal v \<longleftrightarrow> trim_left ''.0'' (trim_left ''-0'' v) = []"

fun decode_side :: "string list list \<Rightarrow> bybit_error + price_level list" where
  "decode_side [] = Inr []"
| "decode_side (l # ls) =
     (if length l \<noteq> 2 \<or> \<not> validDecimalText (l ! 0) \<or> \<not> validDecimalText (l ! 1) then Inl ErrInvalidPayload
      else (case decode_side ls of Inl err \<Rightarrow> Inl err
            | Inr xs \<Rightarrow> Inr (\<lparr>pl_price = l ! 0, pl_amount = l ! 1\<rparr> # xs)))"

definition decodeRegularLevels :: "string list list \<Rightarrow> string list list \<Rightarrow> bybit_error + price_level list \<times> price_level list" where
  "decodeRegularLevels bidsNative asksNative =
     (case decode_side bidsNative of Inl err \<Rightarrow> Inl err
      | Inr bids \<Rightarrow> (case decode_side asksNative of Inl err \<Rightarrow> Inl err | Inr asks \<Rightarrow> Inr (bids, asks)))"

fun decodeRPILevels :: "string list list \<Rightarrow> bybit_error + rpi_level list" where
  "decodeRPILevels [] = Inr []"
| "decodeRPILevels (l # ls) =
     (if length l \<noteq> 3 \<or> \<not> validDecimalText (l ! 0) \<or> \<not> validDecimalText (l ! 1) \<or> \<not> validDecimalText (l ! 2)
      then Inl ErrInvalidPayload
      else (case decodeRPILevels ls of Inl err \<Rightarrow> Inl err
            | Inr xs \<Rightarrow> Inr (\<lparr>rl_price = l ! 0, rl_plain = l ! 1, rl_rpi = l ! 2\<rparr> # xs)))"

type_synonym text_side = "(string \<times> string) list"
type_synonym rpi_side = "(string \<times> rpi_level) list"

fun applyLevels :: "text_side \<Rightarrow> price_level list \<Rightarrow> text_side" where
  "applyLevels m [] = m"
| "applyLevels m (l # ls) =
     applyLevels (if isZeroDecimal (pl_amount l) then go_delete (pl_price l) m else go_put (pl_price l) (pl_amount l) m) ls"

fun applyRPILevels :: "rpi_side \<Rightarrow> rpi_level list \<Rightarrow> rpi_side" where
  "applyRPILevels m [] = m"
| "applyRPILevels m (l # ls) =
     applyRPILevels (if isZeroDecimal (rl_plain l) \<and> isZeroDecimal (rl_rpi l) then go_delete (rl_price l) m
                     else go_put (rl_price l) l m) ls"

interpretation bybit_side: delta_side applyLevels pl_price "\<lambda>l. isZeroDecimal (pl_amount l)" pl_amount
  by unfold_locales simp_all

interpretation rpi_side: delta_side applyRPILevels rl_price "\<lambda>l. isZeroDecimal (rl_plain l) \<and> isZeroDecimal (rl_rpi l)" "\<lambda>l. l"
  by unfold_locales simp_all

subsection \<open>The bounded, RPI and option books\<close>

datatype book_kind = BookSnapshot | BookDelta | BookOther

record bounded_message =
  bm_category :: string
  bm_topic :: string
  bm_symbol :: string
  bm_depth :: int
  bm_kind :: book_kind
  bm_system_time :: i64
  bm_engine_time :: i64
  bm_id :: u64
  bm_seq :: u64
  bm_bids :: "price_level list"
  bm_asks :: "price_level list"

record bounded_book =
  bb_category :: string
  bb_symbol :: string
  bb_depth :: int
  bb_seeded :: bool
  bb_id :: u64
  bb_seq :: u64
  bb_bids :: text_side
  bb_asks :: text_side

definition NewBoundedBook :: "string \<Rightarrow> string \<Rightarrow> int \<Rightarrow> bybit_error + bounded_book" where
  "NewBoundedBook category symb depth =
     (if \<not> Category_Validate category then Inl ErrInvalidCategory
      else if \<not> validSymbol symb \<or> \<not> validBoundedDepth depth then Inl ErrInvalidTopic
      else Inr \<lparr>bb_category = category, bb_symbol = symb, bb_depth = depth, bb_seeded = False, bb_id = 0, bb_seq = 0,
        bb_bids = [], bb_asks = []\<rparr>)"

definition bounded_Reset :: "bounded_book \<Rightarrow> bounded_book" where
  "bounded_Reset b = b\<lparr>bb_seeded := False, bb_id := 0, bb_seq := 0, bb_bids := [], bb_asks := []\<rparr>"

definition bounded_Apply :: "bounded_book \<Rightarrow> bounded_message \<Rightarrow> bounded_book \<times> bybit_error option" where
  "bounded_Apply b m =
     (if bm_category m \<noteq> bb_category b \<or> bm_symbol m \<noteq> bb_symbol b \<or> bm_depth m \<noteq> bb_depth b \<or>
         bm_topic m \<noteq> book_topic (bb_depth b) (bb_symbol b) then (b, Some ErrInvalidPayload)
      else if bm_kind m = BookSnapshot then
        (b\<lparr>bb_bids := applyLevels [] (bm_bids m), bb_asks := applyLevels [] (bm_asks m), bb_seeded := True,
           bb_id := bm_id m, bb_seq := bm_seq m\<rparr>, None)
      else if bm_kind m \<noteq> BookDelta \<or> bb_depth b = 1 then (b, Some ErrInvalidPayload)
      else if bm_id m = 1 then (bounded_Reset b, Some ErrBookNeedsSnapshot)
      else if \<not> bb_seeded b then (b, Some ErrBookNeedsSnapshot)
      else (b\<lparr>bb_bids := applyLevels (bb_bids b) (bm_bids m), bb_asks := applyLevels (bb_asks b) (bm_asks m),
              bb_id := bm_id m, bb_seq := bm_seq m\<rparr>, None))"

record rpi_message =
  rm_category :: string
  rm_topic :: string
  rm_symbol :: string
  rm_kind :: book_kind
  rm_system_time :: i64
  rm_engine_time :: i64
  rm_id :: u64
  rm_seq :: u64
  rm_bids :: "rpi_level list"
  rm_asks :: "rpi_level list"

record rpi_book =
  rb_category :: string
  rb_symbol :: string
  rb_seeded :: bool
  rb_id :: u64
  rb_seq :: u64
  rb_bids :: rpi_side
  rb_asks :: rpi_side

definition NewRPIBook :: "string \<Rightarrow> string \<Rightarrow> bybit_error + rpi_book" where
  "NewRPIBook category symb =
     (if \<not> Category_Validate category then Inl ErrInvalidCategory
      else if \<not> validSymbol symb then Inl ErrInvalidTopic
      else Inr \<lparr>rb_category = category, rb_symbol = symb, rb_seeded = False, rb_id = 0, rb_seq = 0, rb_bids = [], rb_asks = []\<rparr>)"

definition rpi_Reset :: "rpi_book \<Rightarrow> rpi_book" where
  "rpi_Reset b = b\<lparr>rb_seeded := False, rb_id := 0, rb_seq := 0, rb_bids := [], rb_asks := []\<rparr>"

definition rpi_Apply :: "rpi_book \<Rightarrow> rpi_message \<Rightarrow> rpi_book \<times> bybit_error option" where
  "rpi_Apply b m =
     (if rm_category m \<noteq> rb_category b \<or> rm_symbol m \<noteq> rb_symbol b \<or> rm_topic m \<noteq> ''orderbook.rpi.'' @ rb_symbol b
      then (b, Some ErrInvalidPayload)
      else if rm_kind m = BookSnapshot then
        (b\<lparr>rb_bids := applyRPILevels [] (rm_bids m), rb_asks := applyRPILevels [] (rm_asks m), rb_seeded := True,
           rb_id := rm_id m, rb_seq := rm_seq m\<rparr>, None)
      else if rm_kind m \<noteq> BookDelta \<or> \<not> rb_seeded b then (b, Some ErrBookNeedsSnapshot)
      else if rm_id m = 1 then (rpi_Reset b, Some ErrBookNeedsSnapshot)
      else (b\<lparr>rb_bids := applyRPILevels (rb_bids b) (rm_bids m), rb_asks := applyRPILevels (rb_asks b) (rm_asks m),
              rb_id := rm_id m, rb_seq := rm_seq m\<rparr>, None))"

record option_message =
  om_topic :: string
  om_symbol :: string
  om_depth :: int
  om_kind :: book_kind
  om_system_time :: i64
  om_engine_time :: i64
  om_id :: u64
  om_seq :: u64
  om_bids :: "price_level list"
  om_asks :: "price_level list"

record option_book =
  pb_symbol :: string
  pb_depth :: int
  pb_seeded :: bool
  pb_id :: u64
  pb_seq :: u64
  pb_bids :: text_side
  pb_asks :: text_side

definition NewOptionBook :: "string \<Rightarrow> int \<Rightarrow> bybit_error + option_book" where
  "NewOptionBook symb depth =
     (if \<not> validOptionSymbol symb \<or> \<not> validOptionBookDepth depth then Inl ErrInvalidTopic
      else Inr \<lparr>pb_symbol = symb, pb_depth = depth, pb_seeded = False, pb_id = 0, pb_seq = 0, pb_bids = [], pb_asks = []\<rparr>)"

definition option_Reset :: "option_book \<Rightarrow> option_book" where
  "option_Reset b = b\<lparr>pb_seeded := False, pb_id := 0, pb_seq := 0, pb_bids := [], pb_asks := []\<rparr>"

definition option_Apply :: "option_book \<Rightarrow> option_message \<Rightarrow> option_book \<times> bybit_error option" where
  "option_Apply b m =
     (if om_symbol m \<noteq> pb_symbol b \<or> om_depth m \<noteq> pb_depth b \<or> om_topic m \<noteq> book_topic (pb_depth b) (pb_symbol b)
      then (b, Some ErrInvalidPayload)
      else if om_kind m = BookSnapshot then
        (b\<lparr>pb_bids := applyLevels [] (om_bids m), pb_asks := applyLevels [] (om_asks m), pb_seeded := True,
           pb_id := om_id m, pb_seq := om_seq m\<rparr>, None)
      else if om_kind m \<noteq> BookDelta then (b, Some ErrInvalidPayload)
      else if om_id m = 1 then (option_Reset b, Some ErrBookNeedsSnapshot)
      else if \<not> pb_seeded b then (b, Some ErrBookNeedsSnapshot)
      else (b\<lparr>pb_bids := applyLevels (pb_bids b) (om_bids m), pb_asks := applyLevels (pb_asks b) (om_asks m),
              pb_id := om_id m, pb_seq := om_seq m\<rparr>, None))"

interpretation bounded: seeded_book bounded_Apply bb_seeded "\<lambda>b. (bb_bids b, bb_asks b)" "\<lambda>m. bm_kind m = BookSnapshot"
  "\<lambda>m. (applyLevels [] (bm_bids m), applyLevels [] (bm_asks m))"
  "\<lambda>(bids, asks) m. (applyLevels bids (bm_bids m), applyLevels asks (bm_asks m))" "([], [])"
  by unfold_locales (auto simp: bounded_Apply_def bounded_Reset_def split: if_splits)

interpretation rpi: seeded_book rpi_Apply rb_seeded "\<lambda>b. (rb_bids b, rb_asks b)" "\<lambda>m. rm_kind m = BookSnapshot"
  "\<lambda>m. (applyRPILevels [] (rm_bids m), applyRPILevels [] (rm_asks m))"
  "\<lambda>(bids, asks) m. (applyRPILevels bids (rm_bids m), applyRPILevels asks (rm_asks m))" "([], [])"
  by unfold_locales (auto simp: rpi_Apply_def rpi_Reset_def split: if_splits)

interpretation option_bk: seeded_book option_Apply pb_seeded "\<lambda>b. (pb_bids b, pb_asks b)" "\<lambda>m. om_kind m = BookSnapshot"
  "\<lambda>m. (applyLevels [] (om_bids m), applyLevels [] (om_asks m))"
  "\<lambda>(bids, asks) m. (applyLevels bids (om_bids m), applyLevels asks (om_asks m))" "([], [])"
  by unfold_locales (auto simp: option_Apply_def option_Reset_def split: if_splits)

subsection \<open>The full book\<close>

datatype full_state = FullBookBuffering | FullBookLive | FullBookNeedsResync | FullBookUnavailable

record full_delta =
  fd_category :: string
  fd_topic :: string
  fd_symbol :: string
  fd_system_time :: i64
  fd_engine_time :: i64
  fd_id :: u64
  fd_seq :: u64
  fd_bids :: "price_level list"
  fd_asks :: "price_level list"

record full_snapshot =
  fs_category :: string
  fs_symbol :: string
  fs_id :: u64
  fs_seq :: u64
  fs_bids :: "price_level list"
  fs_asks :: "price_level list"
  fs_maximum :: u32

record full_book =
  fb_category :: string
  fb_symbol :: string
  fb_state :: full_state
  fb_id :: u64
  fb_seq :: u64
  fb_buffer :: "full_delta list"
  fb_bids :: text_side
  fb_asks :: text_side

definition NewFullBook :: "string \<Rightarrow> string \<Rightarrow> bybit_error + full_book" where
  "NewFullBook category symb =
     (if \<not> Category_Validate category then Inl ErrInvalidCategory
      else if \<not> validSymbol symb then Inl ErrInvalidTopic
      else Inr \<lparr>fb_category = category, fb_symbol = symb, fb_state = FullBookBuffering, fb_id = 0, fb_seq = 0,
        fb_buffer = [], fb_bids = [], fb_asks = []\<rparr>)"

definition clearForResync :: "full_book \<Rightarrow> full_state \<Rightarrow> full_book" where
  "clearForResync b st = b\<lparr>fb_state := st, fb_id := 0, fb_seq := 0, fb_buffer := [], fb_bids := [], fb_asks := []\<rparr>"

definition full_write :: "full_book \<Rightarrow> full_delta \<Rightarrow> full_book" where
  "full_write b d = b\<lparr>fb_bids := applyLevels (fb_bids b) (fd_bids d), fb_asks := applyLevels (fb_asks b) (fd_asks d),
     fb_id := fd_id d, fb_seq := fd_seq d\<rparr>"

definition full_delta_ok :: "full_book \<Rightarrow> full_delta \<Rightarrow> bool" where
  "full_delta_ok b d \<longleftrightarrow>
     \<not> (fd_category d \<noteq> fb_category b \<or> fd_symbol d \<noteq> fb_symbol b \<or> fd_topic d \<noteq> ''orderbook.full.'' @ fb_symbol b \<or>
        fd_id d = 0 \<or> fd_seq d = 0)"

definition full_restart :: "full_book \<Rightarrow> full_delta \<Rightarrow> full_book" where
  "full_restart b d = (clearForResync b FullBookNeedsResync)\<lparr>fb_buffer := [d]\<rparr>"

definition full_accept_live :: "full_book \<Rightarrow> full_delta \<Rightarrow> full_book \<times> bybit_error option" where
  "full_accept_live b d =
     (if fd_seq d < fb_seq b then (b, Some ErrFullSequence)
      else if fd_id d \<le> fb_id b then (b, None)
      else if fd_id d \<noteq> fb_id b + 1 then (full_restart b d, Some ErrFullBookGap)
      else (full_write b d, None))"

definition full_accept_buffering :: "full_book \<Rightarrow> full_delta \<Rightarrow> full_book \<times> bybit_error option" where
  "full_accept_buffering b d =
     (if fb_buffer b \<noteq> [] \<and> fd_seq d < fd_seq (last (fb_buffer b)) then (b, Some ErrFullSequence)
      else if fb_buffer b \<noteq> [] \<and> fd_id d \<noteq> fd_id (last (fb_buffer b)) + 1
      then (b\<lparr>fb_buffer := [d], fb_state := FullBookNeedsResync\<rparr>, Some ErrFullBookGap)
      else (b\<lparr>fb_buffer := fb_buffer b @ [d],
              fb_state := (if fb_state b = FullBookUnavailable then FullBookBuffering else fb_state b)\<rparr>, None))"

definition full_Accept :: "full_book \<Rightarrow> full_delta \<Rightarrow> full_book \<times> bybit_error option" where
  "full_Accept b d =
     (if \<not> full_delta_ok b d then (b, Some ErrInvalidPayload)
      else if fd_id d = 1 then (full_restart b d, Some ErrBookNeedsSnapshot)
      else if fb_state b = FullBookLive then full_accept_live b d
      else full_accept_buffering b d)"

text \<open>
  The search for the buffered delta that the snapshot matches; it gives the
  deltas after it.  Both failures of the loop return \<open>ErrFullSnapshotStale\<close>.
\<close>

fun full_find :: "full_snapshot \<Rightarrow> full_delta list \<Rightarrow> full_delta list option" where
  "full_find s [] = None"
| "full_find s (d # ds) =
     (if fd_seq d < fs_seq s then full_find s ds
      else if fd_seq d = fs_seq s then (if fd_id d \<noteq> fs_id s then None else Some ds)
      else None)"

fun full_replay :: "full_book \<Rightarrow> full_delta list \<Rightarrow> full_book \<times> bybit_error option" where
  "full_replay b [] = (b\<lparr>fb_buffer := [], fb_state := FullBookLive\<rparr>, None)"
| "full_replay b (d # ds) =
     (if fd_id d \<noteq> fb_id b + 1 \<or> fd_seq d < fb_seq b then (clearForResync b FullBookNeedsResync, Some ErrFullBookGap)
      else full_replay (full_write b d) ds)"

definition full_snapshot_ok :: "full_book \<Rightarrow> full_snapshot \<Rightarrow> bool" where
  "full_snapshot_ok b s \<longleftrightarrow>
     \<not> (fs_category s \<noteq> fb_category b \<or> fs_symbol s \<noteq> fb_symbol b \<or> fs_id s = 0 \<or> fs_seq s = 0 \<or> fs_maximum s = 0 \<or>
        fs_maximum s > 10000 \<or> length (fs_bids s) > unat (fs_maximum s) \<or> length (fs_asks s) > unat (fs_maximum s) \<or>
        length (fb_buffer b) = 0)"

definition full_seeded :: "full_book \<Rightarrow> full_snapshot \<Rightarrow> full_book" where
  "full_seeded b s = b\<lparr>fb_bids := applyLevels [] (fs_bids s), fb_asks := applyLevels [] (fs_asks s),
     fb_id := fs_id s, fb_seq := fs_seq s\<rparr>"

definition full_Seed :: "full_book \<Rightarrow> full_snapshot \<Rightarrow> full_book \<times> bybit_error option" where
  "full_Seed b s =
     (if \<not> full_snapshot_ok b s then (b, Some ErrFullSnapshotStale)
      else (case full_find s (fb_buffer b) of
              None \<Rightarrow> (b, Some ErrFullSnapshotStale)
            | Some rest \<Rightarrow> full_replay (full_seeded b s) rest))"

definition MarkUnavailable :: "full_book \<Rightarrow> full_book" where
  "MarkUnavailable b = clearForResync b FullBookUnavailable"

record full_view =
  fv_category :: string
  fv_symbol :: string
  fv_state :: full_state
  fv_id :: u64
  fv_seq :: u64
  fv_buffered :: nat
  fv_bids :: text_side
  fv_asks :: text_side
  fv_maximum :: u32
  fv_complete :: bool
  fv_rpi :: bool

definition full_Snapshot :: "full_book \<Rightarrow> full_view" where
  "full_Snapshot b = \<lparr>fv_category = fb_category b, fv_symbol = fb_symbol b, fv_state = fb_state b, fv_id = fb_id b,
     fv_seq = fb_seq b, fv_buffered = length (fb_buffer b), fv_bids = fb_bids b, fv_asks = fb_asks b,
     fv_maximum = 10000, fv_complete = False, fv_rpi = False\<rparr>"

subsection \<open>The full book's invariant\<close>

definition full_next :: "full_delta \<Rightarrow> full_delta \<Rightarrow> bool" where
  "full_next d e \<longleftrightarrow> fd_id e = fd_id d + 1 \<and> fd_seq d \<le> fd_seq e"

definition full_ok :: "full_book \<Rightarrow> bool" where
  "full_ok b \<longleftrightarrow> wf_map (fb_bids b) \<and> wf_map (fb_asks b) \<and> successively full_next (fb_buffer b) \<and>
     list_all (full_delta_ok b) (fb_buffer b) \<and>
     (if fb_state b = FullBookLive then fb_buffer b = [] \<and> fb_id b \<noteq> 0 \<and> fb_seq b \<noteq> 0
      else fb_id b = 0 \<and> fb_seq b = 0 \<and> fb_bids b = [] \<and> fb_asks b = [])"

lemma full_delta_ok_cong [simp]:
  "full_delta_ok (b\<lparr>fb_state := st\<rparr>) = full_delta_ok b" "full_delta_ok (b\<lparr>fb_id := i\<rparr>) = full_delta_ok b"
  "full_delta_ok (b\<lparr>fb_seq := i\<rparr>) = full_delta_ok b" "full_delta_ok (b\<lparr>fb_buffer := ds\<rparr>) = full_delta_ok b"
  "full_delta_ok (b\<lparr>fb_bids := m\<rparr>) = full_delta_ok b" "full_delta_ok (b\<lparr>fb_asks := m\<rparr>) = full_delta_ok b"
  by (auto simp: full_delta_ok_def fun_eq_iff)

lemma full_clear_ok: "full_ok b \<Longrightarrow> st \<noteq> FullBookLive \<Longrightarrow> full_ok (clearForResync b st)"
  by (simp add: full_ok_def clearForResync_def)

lemma full_restart_ok: "full_ok b \<Longrightarrow> full_delta_ok b d \<Longrightarrow> full_ok (full_restart b d)"
  by (simp add: full_ok_def full_restart_def clearForResync_def)

lemma full_write_ok:
  "full_ok b \<Longrightarrow> full_delta_ok b d \<Longrightarrow> fb_state b = FullBookLive \<Longrightarrow> full_ok (full_write b d)"
  by (auto simp: full_ok_def full_write_def bybit_side.apply_wf full_delta_ok_def)

lemma full_append_ok:
  assumes "full_ok b" "full_delta_ok b d" "fb_state b \<noteq> FullBookLive" "st \<noteq> FullBookLive"
    and "fb_buffer b = [] \<or> full_next (last (fb_buffer b)) d"
  shows "full_ok (b\<lparr>fb_buffer := fb_buffer b @ [d], fb_state := st\<rparr>)"
  using assms by (auto simp: full_ok_def successively_append_iff)

lemma full_Accept_ok:
  assumes "full_ok b"
  shows "full_ok (fst (full_Accept b d))"
proof (cases "full_delta_ok b d \<and> fd_id d \<noteq> 1")
  case False
  then show ?thesis using assms full_restart_ok by (auto simp: full_Accept_def)
next
  case True
  show ?thesis
  proof (cases "fb_state b = FullBookLive")
    case live: True
    then show ?thesis using assms True full_restart_ok full_write_ok
      by (auto simp: full_Accept_def full_accept_live_def)
  next
    case idle: False
    have one: "full_ok (b\<lparr>fb_buffer := [d], fb_state := FullBookNeedsResync\<rparr>)"
      using assms idle True by (simp add: full_ok_def)
    have app: "full_ok (b\<lparr>fb_buffer := fb_buffer b @ [d],
        fb_state := (if fb_state b = FullBookUnavailable then FullBookBuffering else fb_state b)\<rparr>)"
      if "fb_buffer b = [] \<or> full_next (last (fb_buffer b)) d"
      using assms idle True that by (intro full_append_ok) auto
    show ?thesis using assms True idle one app
      by (auto simp: full_Accept_def full_accept_buffering_def full_next_def not_less)
  qed
qed

subsection \<open>Seeding the full book\<close>

lemma full_find_spec:
  "full_find s ds = Some rest \<longleftrightarrow>
     (\<exists>pre d. ds = pre @ d # rest \<and> (\<forall>p \<in> set pre. fd_seq p < fs_seq s) \<and> fd_seq d = fs_seq s \<and> fd_id d = fs_id s)"
proof (induction ds)
  case (Cons x ds)
  show ?case
  proof (cases "fd_seq x < fs_seq s")
    case True
    then have "(\<exists>pre d. x # ds = pre @ d # rest \<and> (\<forall>p \<in> set pre. fd_seq p < fs_seq s) \<and> fd_seq d = fs_seq s \<and> fd_id d = fs_id s) \<longleftrightarrow>
      (\<exists>pre d. ds = pre @ d # rest \<and> (\<forall>p \<in> set pre. fd_seq p < fs_seq s) \<and> fd_seq d = fs_seq s \<and> fd_id d = fs_id s)"
      by (auto simp: Cons_eq_append_conv)
    with True Cons show ?thesis by simp
  next
    case False
    then show ?thesis by (auto simp: Cons_eq_append_conv)
  qed
qed simp

lemma full_replay_chain:
  assumes "successively full_next (d # ds)" "fb_id b = fd_id d" "fb_seq b = fd_seq d"
  shows "full_replay b ds = (b\<lparr>fb_bids := applyLevels (fb_bids b) (concat (map fd_bids ds)),
      fb_asks := applyLevels (fb_asks b) (concat (map fd_asks ds)), fb_id := fd_id (last (d # ds)),
      fb_seq := fd_seq (last (d # ds)), fb_buffer := [], fb_state := FullBookLive\<rparr>, None)"
  using assms
proof (induction ds arbitrary: b d)
  case (Cons e ds)
  then have "full_next d e" "successively full_next (e # ds)" by simp_all
  with Cons.IH [of e "full_write b e"] Cons.prems(2,3) show ?case
    by (simp add: full_next_def full_write_def bybit_side.apply_append not_less)
qed simp

text \<open>What a seed that matches leaves.\<close>

definition full_bridged :: "full_book \<Rightarrow> full_snapshot \<Rightarrow> full_delta list \<Rightarrow> full_book" where
  "full_bridged b s ds = b\<lparr>fb_bids := applyLevels (applyLevels [] (fs_bids s)) (concat (map fd_bids (tl ds))),
     fb_asks := applyLevels (applyLevels [] (fs_asks s)) (concat (map fd_asks (tl ds))),
     fb_id := fd_id (last ds), fb_seq := fd_seq (last ds), fb_buffer := [], fb_state := FullBookLive\<rparr>"

lemma full_Seed_cases:
  assumes "full_ok b"
  shows "(full_Seed b s = (b, Some ErrFullSnapshotStale) \<and>
      \<not> (full_snapshot_ok b s \<and> (\<exists>pre d rest. fb_buffer b = pre @ d # rest \<and> (\<forall>p \<in> set pre. fd_seq p < fs_seq s) \<and>
           fd_seq d = fs_seq s \<and> fd_id d = fs_id s))) \<or>
    (\<exists>pre d rest. full_snapshot_ok b s \<and> fb_buffer b = pre @ d # rest \<and> (\<forall>p \<in> set pre. fd_seq p < fs_seq s) \<and>
       fd_seq d = fs_seq s \<and> fd_id d = fs_id s \<and> full_Seed b s = (full_bridged b s (d # rest), None))"
proof (cases "full_snapshot_ok b s \<and> full_find s (fb_buffer b) \<noteq> None")
  case True
  then obtain rest pre d where f: "full_find s (fb_buffer b) = Some rest" "fb_buffer b = pre @ d # rest"
    "\<forall>p \<in> set pre. fd_seq p < fs_seq s" "fd_seq d = fs_seq s" "fd_id d = fs_id s"
    using full_find_spec by (metis not_None_eq)
  have "successively full_next (d # rest)" using assms f(2) by (auto simp: full_ok_def successively_append_iff)
  then have "full_replay (full_seeded b s) rest = (full_bridged b s (d # rest), None)"
    using full_replay_chain [of d rest "full_seeded b s"] f(4,5) by (simp add: full_seeded_def full_bridged_def)
  with True f show ?thesis by (auto simp: full_Seed_def)
next
  case False
  then have "full_Seed b s = (b, Some ErrFullSnapshotStale)" by (auto simp: full_Seed_def)
  moreover have "full_find s (fb_buffer b) = None \<Longrightarrow> \<not> (\<exists>pre d rest. fb_buffer b = pre @ d # rest \<and>
      (\<forall>p \<in> set pre. fd_seq p < fs_seq s) \<and> fd_seq d = fs_seq s \<and> fd_id d = fs_id s)"
    using full_find_spec by (metis option.distinct(1))
  ultimately show ?thesis using False by blast
qed

lemma full_Seed_ok:
  assumes "full_ok b"
  shows "full_ok (fst (full_Seed b s))"
  using full_Seed_cases [OF assms, of s]
proof (elim disjE exE conjE)
  fix pre d rest
  assume a: "fb_buffer b = pre @ d # rest" "full_Seed b s = (full_bridged b s (d # rest), None)"
  have "last (d # rest) \<in> set (fb_buffer b)" unfolding a(1) by simp
  then have "full_delta_ok b (last (d # rest))" using assms by (simp add: full_ok_def list_all_iff)
  then have "fd_id (last (d # rest)) \<noteq> 0" "fd_seq (last (d # rest)) \<noteq> 0" by (simp_all only: full_delta_ok_def) blast+
  then show ?thesis using a(2) by (simp add: full_bridged_def full_ok_def bybit_side.apply_wf del: last.simps)
qed (use assms in simp)

subsection \<open>Amount texts\<close>

lemma text_scan_chars: "text_scan (Suc i) cs a b = Some r \<Longrightarrow> c \<in> set cs \<Longrightarrow> c = CHR ''.'' \<or> is_digit c"
  by (induction "Suc i" cs a b arbitrary: i rule: text_scan.induct) (auto split: if_splits)

lemma validDecimalText_shape:
  assumes "validDecimalText t"
  obtains c cs where "t = c # cs" "c = CHR ''-'' \<or> c = CHR ''.'' \<or> is_digit c" "\<forall>x \<in> set cs. x = CHR ''.'' \<or> is_digit x"
proof -
  obtain r where r: "text_scan 0 t 0 0 = Some r" "t \<noteq> []"
    using assms by (auto simp: validDecimalText_def split: if_splits option.splits)
  obtain c cs where t: "t = c # cs" using r(2) by (cases t) auto
  have "\<exists>a b. text_scan (Suc 0) cs a b = Some r" "c = CHR ''-'' \<or> c = CHR ''.'' \<or> is_digit c"
    using r(1) unfolding t by (auto split: if_splits)
  then show thesis using that [OF t] text_scan_chars by blast
qed

lemma dropWhile_either: "\<forall>c \<in> set (dropWhile P xs). Q c \<Longrightarrow> c \<in> set xs \<Longrightarrow> P c \<or> Q c"
  by (induction xs) (auto split: if_splits)

text \<open>
  The zero test on amounts, which decides whether a level is removed, is exact
  on every text that the decoder lets through: an amount is zero exactly when all
  its digits are zeros, whatever its sign and the position of its point.
\<close>

theorem bybit_zero_exact:
  assumes "validDecimalText t"
  shows "isZeroDecimal t \<longleftrightarrow> (\<forall>c \<in> set t. is_digit c \<longrightarrow> c = CHR ''0'')"
proof
  assume "isZeroDecimal t"
  then have "\<forall>c \<in> set (dropWhile (\<lambda>c. c \<in> set ''-0'') t). c \<in> set ''.0''"
    unfolding isZeroDecimal_def trim_left_def dropWhile_eq_Nil_conv .
  then have "c \<in> set ''-0'' \<or> c \<in> set ''.0''" if "c \<in> set t" for c using that by (rule dropWhile_either)
  moreover have "\<not> is_digit CHR ''-''" "\<not> is_digit CHR ''.''" by (simp_all add: is_digit_def)
  ultimately show "\<forall>c \<in> set t. is_digit c \<longrightarrow> c = CHR ''0''" by auto
next
  assume z: "\<forall>c \<in> set t. is_digit c \<longrightarrow> c = CHR ''0''"
  obtain c cs where t: "t = c # cs" "c = CHR ''-'' \<or> c = CHR ''.'' \<or> is_digit c"
    "\<forall>x \<in> set cs. x = CHR ''.'' \<or> is_digit x"
    using validDecimalText_shape [OF assms] by blast
  have cs: "\<forall>x \<in> set cs. x \<in> set ''.0''" using z t by auto
  have "\<forall>x \<in> set (dropWhile (\<lambda>c. c \<in> set ''-0'') t). x \<in> set ''.0''"
    using cs z t by (auto dest: set_dropWhileD)
  then show "isZeroDecimal t" unfolding isZeroDecimal_def trim_left_def dropWhile_eq_Nil_conv .
qed

theorem bybit_zero_exact_witness: "isZeroDecimal ''-0.00'' \<and> \<not> isZeroDecimal ''0.001''"
proof -
  have v: "validDecimalText ''-0.00''" "validDecimalText ''0.001''" by code_simp+
  have "is_digit CHR ''1''" "\<not> is_digit CHR ''-''" "\<not> is_digit CHR ''.''" by (simp_all add: is_digit_def)
  then show ?thesis using bybit_zero_exact [OF v(1)] bybit_zero_exact [OF v(2)] by simp
qed

subsection \<open>Reachable books\<close>

text \<open>
  C23. A bounded Bybit book shows only what its last snapshot and the deltas since
  then say.  After any sequence of messages to a new book: if the book is seeded,
  its sides are those of the last accepted snapshot with the deltas accepted after
  it applied in order, and nothing older; otherwise both sides are empty.
\<close>

theorem bounded_book_rebuilt:
  assumes "NewBoundedBook category symb depth = Inr b" "run_book bounded_Apply b ms = (b', lg)"
  shows "if bb_seeded b' then
      rebuilt (\<lambda>m. bm_kind m = BookSnapshot) (\<lambda>m. (applyLevels [] (bm_bids m), applyLevels [] (bm_asks m)))
        (\<lambda>(bids, asks) m. (applyLevels bids (bm_bids m), applyLevels asks (bm_asks m))) (accepted lg) (bb_bids b', bb_asks b')
    else bb_bids b' = [] \<and> bb_asks b' = []"
proof -
  have "\<not> bb_seeded b" "(bb_bids b, bb_asks b) = ([], [])"
    using assms(1) by (auto simp: NewBoundedBook_def split: if_splits)
  then show ?thesis
    using bounded.run_rebuilt [OF _ assms(2)] bounded.run_blank_unseeded [OF _ assms(2)] by simp
qed

text \<open>
  The same holds of the RPI book and of the option book, each with its own
  levels: a seeded book is its last accepted snapshot and the deltas after it.
\<close>

theorem rpi_option_books_rebuilt:
  assumes "NewRPIBook category symb = Inr r" "run_book rpi_Apply r ms = (r', lg)"
    and "NewOptionBook osymb depth = Inr p" "run_book option_Apply p ns = (p', ol)"
  shows "(if rb_seeded r' then
      rebuilt (\<lambda>m. rm_kind m = BookSnapshot) (\<lambda>m. (applyRPILevels [] (rm_bids m), applyRPILevels [] (rm_asks m)))
        (\<lambda>(bids, asks) m. (applyRPILevels bids (rm_bids m), applyRPILevels asks (rm_asks m))) (accepted lg) (rb_bids r', rb_asks r')
      else rb_bids r' = [] \<and> rb_asks r' = []) \<and>
    (if pb_seeded p' then
      rebuilt (\<lambda>m. om_kind m = BookSnapshot) (\<lambda>m. (applyLevels [] (om_bids m), applyLevels [] (om_asks m)))
        (\<lambda>(bids, asks) m. (applyLevels bids (om_bids m), applyLevels asks (om_asks m))) (accepted ol) (pb_bids p', pb_asks p')
      else pb_bids p' = [] \<and> pb_asks p' = [])"
proof -
  have "\<not> rb_seeded r" "(rb_bids r, rb_asks r) = ([], [])" "\<not> pb_seeded p" "(pb_bids p, pb_asks p) = ([], [])"
    using assms(1,3) by (auto simp: NewRPIBook_def NewOptionBook_def split: if_splits)
  then show ?thesis
    using rpi.run_rebuilt [OF _ assms(2)] rpi.run_blank_unseeded [OF _ assms(2)]
      option_bk.run_rebuilt [OF _ assms(4)] option_bk.run_blank_unseeded [OF _ assms(4)] by simp
qed

inductive full_reach :: "full_book \<Rightarrow> bool" where
  New: "NewFullBook category symb = Inr b \<Longrightarrow> full_reach b"
| Accept: "full_reach b \<Longrightarrow> full_reach (fst (full_Accept b d))"
| Seed: "full_reach b \<Longrightarrow> full_reach (fst (full_Seed b s))"
| Unavailable: "full_reach b \<Longrightarrow> full_reach (MarkUnavailable b)"

lemma full_New_ok: "NewFullBook category symb = Inr b \<Longrightarrow> full_ok b"
  by (auto simp: NewFullBook_def full_ok_def split: if_splits)

lemma full_reach_ok: "full_reach b \<Longrightarrow> full_ok b"
  by (induction rule: full_reach.induct)
    (simp_all add: full_New_ok full_Accept_ok full_Seed_ok MarkUnavailable_def full_clear_ok)

text \<open>
  C22. Seeding a reachable full book never fails halfway: the gap branch of the
  replay is unreachable.  Either the snapshot is refused as stale and the book is
  untouched, exactly when the snapshot is malformed or no buffered delta matches
  its sequence and update ID, or the book goes live with the snapshot's levels and
  every delta buffered after the matching one applied, at the last delta's ID and
  sequence.
\<close>

theorem full_seed_exact:
  assumes "full_reach b"
  shows "(full_Seed b s = (b, Some ErrFullSnapshotStale) \<and>
      \<not> (full_snapshot_ok b s \<and> (\<exists>pre d rest. fb_buffer b = pre @ d # rest \<and> (\<forall>p \<in> set pre. fd_seq p < fs_seq s) \<and>
           fd_seq d = fs_seq s \<and> fd_id d = fs_id s))) \<or>
    (\<exists>pre d rest. full_snapshot_ok b s \<and> fb_buffer b = pre @ d # rest \<and> (\<forall>p \<in> set pre. fd_seq p < fs_seq s) \<and>
       fd_seq d = fs_seq s \<and> fd_id d = fs_id s \<and> full_Seed b s = (full_bridged b s (d # rest), None))"
  by (rule full_Seed_cases [OF full_reach_ok [OF assms]])

text \<open>The reply of a delta together with whether the book moved.\<close>

definition full_step :: "full_book \<Rightarrow> full_delta \<Rightarrow> full_book \<times> bybit_error option \<times> bool" where
  "full_step b d = (fst (full_Accept b d), snd (full_Accept b d), fb_id (fst (full_Accept b d)) \<noteq> fb_id b)"

definition full_follows :: "u64 \<times> u64 \<Rightarrow> full_delta \<Rightarrow> bool" where
  "full_follows q d \<longleftrightarrow> fd_id d = fst q + 1 \<and> snd q \<le> fd_seq d"

lemma full_step_live:
  assumes "full_ok b" "fb_state b = FullBookLive" "full_step b d = (b', err, moved)"
  obtains (applied) "err = None" "moved" "full_follows (fb_id b, fb_seq b) d" "b' = full_write b d"
  | (kept) "b' = b" "\<not> moved"
  | (dropped) "err \<noteq> None" "fb_state b' = FullBookNeedsResync"
proof -
  have b': "b' = fst (full_Accept b d)" "err = snd (full_Accept b d)" "moved \<longleftrightarrow> fb_id b' \<noteq> fb_id b"
    using assms(3) by (auto simp: full_step_def)
  consider "\<not> full_delta_ok b d" | "full_delta_ok b d" "fd_id d = 1" | "full_delta_ok b d" "fd_id d \<noteq> 1" "fd_seq d < fb_seq b \<or> fd_id d \<le> fb_id b"
    | "full_delta_ok b d" "fd_id d \<noteq> 1" "\<not> fd_seq d < fb_seq b" "\<not> fd_id d \<le> fb_id b" "fd_id d \<noteq> fb_id b + 1"
    | "full_delta_ok b d" "fd_id d \<noteq> 1" "\<not> fd_seq d < fb_seq b" "\<not> fd_id d \<le> fb_id b" "fd_id d = fb_id b + 1" by blast
  then show thesis
  proof cases
    case 5
    then have "full_Accept b d = (full_write b d, None)" using assms(2) by (simp add: full_Accept_def full_accept_live_def)
    then show thesis using applied b' 5 by (auto simp: full_write_def full_follows_def not_less)
  qed (use assms(2) b' kept dropped in \<open>auto simp: full_Accept_def full_accept_live_def full_restart_def clearForResync_def\<close>)
qed

interpretation full: sequenced_book full_step full_ok "\<lambda>b. fb_state b = FullBookLive" "\<lambda>b. (fb_id b, fb_seq b)"
  "\<lambda>r. fst r = None \<and> snd r" full_follows "\<lambda>d. (fd_id d, fd_seq d)"
  "\<lambda>b. fv_bids (full_Snapshot b) = [] \<and> fv_asks (full_Snapshot b) = []"
proof
  show "full_ok s'" if "full_ok s" "full_step s u = (s', r)" for s u s' r
    using full_Accept_ok [OF that(1), of u] that(2) by (auto simp: full_step_def)
  show "full_follows (fb_id s, fb_seq s) u \<and> (fb_id s', fb_seq s') = (fd_id u, fd_seq u) \<and> fb_state s' = FullBookLive"
    if "full_ok s" "fb_state s = FullBookLive" "full_step s u = (s', r)" "fst r = None \<and> snd r" for s u s' r
  proof -
    have "full_step s u = (s', fst r, snd r)" using that(3) by simp
    from that(1,2) this show ?thesis by (cases rule: full_step_live) (use that in \<open>auto simp: full_write_def\<close>)
  qed
  show "s' = s" if "full_ok s" "fb_state s = FullBookLive" "full_step s u = (s', r)" "\<not> (fst r = None \<and> snd r)"
    "fb_state s' = FullBookLive" for s u s' r
  proof -
    have "full_step s u = (s', fst r, snd r)" using that(3) by simp
    from that(1,2) this show ?thesis by (cases rule: full_step_live) (use that in auto)
  qed
  show "fv_bids (full_Snapshot s) = [] \<and> fv_asks (full_Snapshot s) = []" if "full_ok s" "fb_state s \<noteq> FullBookLive" for s
    using that by (simp add: full_ok_def full_Snapshot_def)
qed

text \<open>
  A live full book misses no update: in any run of deltas in which a reachable
  book stays live, the deltas it applied have consecutive update IDs and
  cross sequences that never go back, from its position before the run to the one
  after.
\<close>

theorem full_live_chain:
  assumes "full_reach b" "fb_state b = FullBookLive" "run_book full_step b ds = (b', lg)"
    and "\<forall>(d, c, r) \<in> set lg. fb_state c = FullBookLive"
  shows "linked full_follows (\<lambda>d. (fd_id d, fd_seq d)) (fb_id b, fb_seq b)
     (map fst (filter (\<lambda>(d, c, r). fst r = None \<and> snd r) lg)) (fb_id b', fb_seq b')"
  using full.run_linked [OF full_reach_ok [OF assms(1)] assms(2-4)] .

subsection \<open>Runs\<close>

definition sample_bounded :: "book_kind \<Rightarrow> u64 \<Rightarrow> string \<Rightarrow> bounded_message" where
  "sample_bounded kind i amount = \<lparr>bm_category = ''linear'', bm_topic = book_topic 50 ''BTCUSDT'', bm_symbol = ''BTCUSDT'',
     bm_depth = 50, bm_kind = kind, bm_system_time = 1, bm_engine_time = 1, bm_id = i, bm_seq = i,
     bm_bids = [\<lparr>pl_price = ''9'', pl_amount = amount\<rparr>], bm_asks = []\<rparr>"

theorem bounded_book_rebuilt_witness:
  "\<exists>b b' lg. NewBoundedBook ''linear'' ''BTCUSDT'' 50 = Inr b \<and>
     run_book bounded_Apply b [sample_bounded BookSnapshot 5 ''2'', sample_bounded BookDelta 6 ''3''] = (b', lg) \<and>
     bb_bids b' = [(''9'', ''3'')] \<and>
     rebuilt (\<lambda>m. bm_kind m = BookSnapshot) (\<lambda>m. (applyLevels [] (bm_bids m), applyLevels [] (bm_asks m)))
        (\<lambda>(bids, asks) m. (applyLevels bids (bm_bids m), applyLevels asks (bm_asks m))) (accepted lg) (bb_bids b', bb_asks b')"
proof -
  let ?b = "\<lparr>bb_category = ''linear'', bb_symbol = ''BTCUSDT'', bb_depth = 50, bb_seeded = False, bb_id = 0, bb_seq = 0,
        bb_bids = [], bb_asks = []\<rparr>"
  let ?run = "run_book bounded_Apply ?b [sample_bounded BookSnapshot 5 ''2'', sample_bounded BookDelta 6 ''3'']"
  have new: "NewBoundedBook ''linear'' ''BTCUSDT'' 50 = Inr ?b" by code_simp
  have live: "bb_seeded (fst ?run)" "bb_bids (fst ?run) = [(''9'', ''3'')]" by code_simp+
  obtain b' lg where run: "?run = (b', lg)" by (rule prod.exhaust)
  note facts = live [unfolded run fst_conv]
  show ?thesis
    by (rule exI [of _ ?b], rule exI [of _ b'], rule exI [of _ lg], intro conjI)
      (use bounded_book_rebuilt [OF new run] facts in \<open>simp_all only: new run if_True\<close>)
qed

definition sample_rpi :: rpi_message where
  "sample_rpi = \<lparr>rm_category = ''spot'', rm_topic = ''orderbook.rpi.BTCUSDT'', rm_symbol = ''BTCUSDT'', rm_kind = BookSnapshot,
     rm_system_time = 1, rm_engine_time = 1, rm_id = 5, rm_seq = 5,
     rm_bids = [\<lparr>rl_price = ''9'', rl_plain = ''0'', rl_rpi = ''1''\<rparr>], rm_asks = []\<rparr>"

definition sample_option :: option_message where
  "sample_option = \<lparr>om_topic = book_topic 25 ''BTC-29FEB24-90000-C'', om_symbol = ''BTC-29FEB24-90000-C'', om_depth = 25,
     om_kind = BookSnapshot, om_system_time = 1, om_engine_time = 1, om_id = 5, om_seq = 5,
     om_bids = [\<lparr>pl_price = ''9'', pl_amount = ''1''\<rparr>], om_asks = []\<rparr>"

theorem rpi_option_books_rebuilt_witness:
  "\<exists>r p. NewRPIBook ''spot'' ''BTCUSDT'' = Inr r \<and> NewOptionBook ''BTC-29FEB24-90000-C'' 25 = Inr p \<and>
     rebuilt (\<lambda>m. rm_kind m = BookSnapshot) (\<lambda>m. (applyRPILevels [] (rm_bids m), applyRPILevels [] (rm_asks m)))
        (\<lambda>(bids, asks) m. (applyRPILevels bids (rm_bids m), applyRPILevels asks (rm_asks m)))
        (accepted (snd (run_book rpi_Apply r [sample_rpi])))
        (rb_bids (fst (run_book rpi_Apply r [sample_rpi])), rb_asks (fst (run_book rpi_Apply r [sample_rpi])))"
proof -
  let ?r = "\<lparr>rb_category = ''spot'', rb_symbol = ''BTCUSDT'', rb_seeded = False, rb_id = 0, rb_seq = 0, rb_bids = [], rb_asks = []\<rparr>"
  let ?p = "\<lparr>pb_symbol = ''BTC-29FEB24-90000-C'', pb_depth = 25, pb_seeded = False, pb_id = 0, pb_seq = 0, pb_bids = [], pb_asks = []\<rparr>"
  have new: "NewRPIBook ''spot'' ''BTCUSDT'' = Inr ?r" "NewOptionBook ''BTC-29FEB24-90000-C'' 25 = Inr ?p" by code_simp+
  have live: "rb_seeded (fst (run_book rpi_Apply ?r [sample_rpi]))" by code_simp
  obtain r' lg where run: "run_book rpi_Apply ?r [sample_rpi] = (r', lg)" by (rule prod.exhaust)
  obtain p' ol where orun: "run_book option_Apply ?p [sample_option] = (p', ol)" by (rule prod.exhaust)
  note seeded = live [unfolded run fst_conv]
  show ?thesis
    by (rule exI [of _ ?r], rule exI [of _ ?p], intro conjI)
      (use rpi_option_books_rebuilt [OF new(1) run new(2) orun] seeded in \<open>simp_all only: new run fst_conv snd_conv if_True\<close>)
qed

definition sample_full_delta :: "u64 \<Rightarrow> full_delta" where
  "sample_full_delta i = \<lparr>fd_category = ''linear'', fd_topic = ''orderbook.full.BTCUSDT'', fd_symbol = ''BTCUSDT'',
     fd_system_time = 1, fd_engine_time = 1, fd_id = i, fd_seq = 10 * i, fd_bids = [\<lparr>pl_price = ''9'', pl_amount = ''2''\<rparr>],
     fd_asks = []\<rparr>"

definition sample_full_snapshot :: full_snapshot where
  "sample_full_snapshot = \<lparr>fs_category = ''linear'', fs_symbol = ''BTCUSDT'', fs_id = 4, fs_seq = 40,
     fs_bids = [\<lparr>pl_price = ''8'', pl_amount = ''1''\<rparr>], fs_asks = [], fs_maximum = 500\<rparr>"

definition sample_full_new :: full_book where
  "sample_full_new = \<lparr>fb_category = ''linear'', fb_symbol = ''BTCUSDT'', fb_state = FullBookBuffering, fb_id = 0, fb_seq = 0,
     fb_buffer = [], fb_bids = [], fb_asks = []\<rparr>"

definition sample_full_buffered :: full_book where
  "sample_full_buffered = fst (full_Accept (fst (full_Accept (fst (full_Accept sample_full_new (sample_full_delta 3)))
     (sample_full_delta 4))) (sample_full_delta 5))"

definition sample_full_live :: full_book where
  "sample_full_live = fst (full_Seed sample_full_buffered sample_full_snapshot)"

lemma sample_full_reach: "full_reach sample_full_buffered" "full_reach sample_full_live"
proof -
  have "NewFullBook ''linear'' ''BTCUSDT'' = Inr sample_full_new" by code_simp
  then show "full_reach sample_full_buffered"
    unfolding sample_full_buffered_def by (intro full_reach.Accept full_reach.New)
  then show "full_reach sample_full_live" unfolding sample_full_live_def by (rule full_reach.Seed)
qed

lemma sample_full_runs: "fb_state sample_full_live = FullBookLive" "fb_id sample_full_live = 5"
  "snd (full_Seed sample_full_buffered sample_full_snapshot) = None"
  "list_all (\<lambda>(d, c, r). fb_state c = FullBookLive) (snd (run_book full_step sample_full_live [sample_full_delta 5, sample_full_delta 6]))"
  "map fst (filter (\<lambda>(d, c, r). fst r = None \<and> snd r)
     (snd (run_book full_step sample_full_live [sample_full_delta 5, sample_full_delta 6]))) = [sample_full_delta 6]"
  by code_simp+

theorem full_seed_exact_witness:
  "\<exists>pre d rest. fb_buffer sample_full_buffered = pre @ d # rest \<and> fd_id d = fs_id sample_full_snapshot \<and>
     sample_full_live = full_bridged sample_full_buffered sample_full_snapshot (d # rest)"
proof -
  have "full_Seed sample_full_buffered sample_full_snapshot \<noteq> (sample_full_buffered, Some ErrFullSnapshotStale)"
    using sample_full_runs(3) by auto
  with full_seed_exact [OF sample_full_reach(1), of sample_full_snapshot]
  show ?thesis unfolding sample_full_live_def by (metis fst_conv)
qed

theorem full_live_chain_witness:
  "linked full_follows (\<lambda>d. (fd_id d, fd_seq d)) (fb_id sample_full_live, fb_seq sample_full_live) [sample_full_delta 6]
     (fb_id (fst (run_book full_step sample_full_live [sample_full_delta 5, sample_full_delta 6])),
      fb_seq (fst (run_book full_step sample_full_live [sample_full_delta 5, sample_full_delta 6])))"
proof -
  obtain b' lg where run: "run_book full_step sample_full_live [sample_full_delta 5, sample_full_delta 6] = (b', lg)"
    by (rule prod.exhaust)
  have "\<forall>(d, c, r) \<in> set lg. fb_state c = FullBookLive" using sample_full_runs(4) unfolding run by (simp add: list_all_iff)
  from full_live_chain [OF sample_full_reach(2) sample_full_runs(1) run this] sample_full_runs(5)
  show ?thesis unfolding run by simp
qed

end
