(* ===== verification/Lease.thy ===== *)
theory Lease
  imports Prelude
begin

text \<open>
  \<open>src/deployment/lease.go\<close>: the canonical writer lease.  The store is a Go
  interface; here it is a record of its three operations, which the manager takes
  as an argument, with the locale \<open>fenced_store\<close> for what the interface promises
  and \<open>MemoryLeaseStore\<close> as the interpretation.  An operation of the store takes a
  flag that says whether its context is already cancelled.  A manager operation is
  a load and a compare-and-swap; the step relation \<open>lease_step\<close> lets any number of
  clients interleave these two halves and fenced commits in any order.

  The lemmas show that fencing works: tokens of one key are issued with strictly
  increasing fences, and a commit is only ever executed under the latest of them.
\<close>

subsection \<open>Types\<close>

definition LeaseActive :: string where "LeaseActive = ''active''"
definition LeaseDraining :: string where "LeaseDraining = ''draining''"
definition LeaseReleased :: string where "LeaseReleased = ''released''"

lemmas lease_states = LeaseActive_def LeaseDraining_def LeaseReleased_def

record lease_record =
  lr_key :: string
  lr_holder :: string
  lr_fence :: u64
  lr_state :: string
  lr_version :: u64

record lease_token =
  tk_key :: string
  tk_holder :: string
  tk_fence :: u64

text \<open>
  The errors: a missing argument, a conflict, an error of the store or its
  context, a refused swap value, a failed drain, and an error of the commit itself.
\<close>

datatype lease_error = LeaseArgument | ErrLeaseConflict | LeaseStoreError | LeaseInvalidSwap | ErrDrainFailed | CommitError

record 's lease_store =
  ls_load :: "'s \<Rightarrow> bool \<Rightarrow> string \<Rightarrow> lease_error + lease_record option"
  ls_cas :: "'s \<Rightarrow> bool \<Rightarrow> string \<Rightarrow> u64 \<Rightarrow> lease_record \<Rightarrow> 's \<times> lease_error option"
  ls_admit :: "'s \<Rightarrow> bool \<Rightarrow> lease_token \<Rightarrow> lease_error option"

text \<open>
  \<open>CommitFenced\<close> of a store checks the token and runs the commit in one critical
  section: \<open>ls_admit\<close> is the check, and \<open>commit_fenced\<close> the whole.  The commit acts
  on the durable state \<open>'d\<close>.
\<close>

definition commit_fenced :: "'s lease_store \<Rightarrow> 's \<Rightarrow> bool \<Rightarrow> lease_token \<Rightarrow> ('d \<Rightarrow> 'd \<times> bool) \<Rightarrow> 'd \<Rightarrow> 'd \<times> lease_error option" where
  "commit_fenced st s c t commit d =
     (case ls_admit st s c t of
        Some err \<Rightarrow> (d, Some err)
      | None \<Rightarrow> (case commit d of (d', ok) \<Rightarrow> (d', if ok then None else Some CommitError)))"

subsection \<open>The manager\<close>

text \<open>What \<open>Acquire\<close> decides from the loaded record: the expected version and the next record.\<close>

definition acquire_plan :: "string \<Rightarrow> string \<Rightarrow> lease_record option \<Rightarrow> lease_error + u64 \<times> lease_record" where
  "acquire_plan key holder cur =
     (case cur of
        None \<Rightarrow> Inr (0, \<lparr>lr_key = key, lr_holder = holder, lr_fence = 1, lr_state = LeaseActive, lr_version = 0 + 1\<rparr>)
      | Some r \<Rightarrow>
          if lr_state r \<noteq> LeaseReleased then Inl ErrLeaseConflict
          else if lr_key r \<noteq> key \<or> lr_fence r = max_u64 \<or> lr_version r = max_u64 then Inl ErrLeaseConflict
          else Inr (lr_version r, \<lparr>lr_key = key, lr_holder = holder, lr_fence = lr_fence r + 1, lr_state = LeaseActive,
                 lr_version = lr_version r + 1\<rparr>))"

definition Acquire :: "'s lease_store \<Rightarrow> 's \<Rightarrow> bool \<Rightarrow> bool \<Rightarrow> string \<Rightarrow> string \<Rightarrow> 's \<times> (lease_error + lease_token)" where
  "Acquire st s c1 c2 key holder =
     (if key = [] \<or> holder = [] then (s, Inl LeaseArgument)
      else (case ls_load st s c1 key of
              Inl err \<Rightarrow> (s, Inl err)
            | Inr cur \<Rightarrow> (case acquire_plan key holder cur of
                Inl err \<Rightarrow> (s, Inl err)
              | Inr (expected, nx) \<Rightarrow> (case ls_cas st s c2 key expected nx of
                  (s', Some _) \<Rightarrow> (s', Inl ErrLeaseConflict)
                | (s', None) \<Rightarrow> (s', Inr \<lparr>tk_key = key, tk_holder = holder, tk_fence = lr_fence nx\<rparr>)))))"

definition token_complete :: "lease_token \<Rightarrow> bool" where
  "token_complete t \<longleftrightarrow> \<not> (tk_key t = [] \<or> tk_holder t = [] \<or> tk_fence t = 0)"

definition owned_plan :: "lease_token \<Rightarrow> string \<Rightarrow> lease_record option \<Rightarrow> lease_error + lease_record" where
  "owned_plan t required cur =
     (case cur of
        None \<Rightarrow> Inl ErrLeaseConflict
      | Some r \<Rightarrow> if lr_key r \<noteq> tk_key t \<or> lr_holder r \<noteq> tk_holder t \<or> lr_fence r \<noteq> tk_fence t \<or> lr_state r \<noteq> required
          then Inl ErrLeaseConflict else Inr r)"

definition loadOwned :: "'s lease_store \<Rightarrow> 's \<Rightarrow> bool \<Rightarrow> lease_token \<Rightarrow> string \<Rightarrow> lease_error + lease_record" where
  "loadOwned st s c t required =
     (if \<not> token_complete t then Inl ErrLeaseConflict
      else (case ls_load st s c (tk_key t) of Inl err \<Rightarrow> Inl err | Inr cur \<Rightarrow> owned_plan t required cur))"

definition drain_next :: "lease_record \<Rightarrow> lease_record" where
  "drain_next r = r\<lparr>lr_state := LeaseDraining, lr_version := lr_version r + 1\<rparr>"

definition release_next :: "lease_record \<Rightarrow> lease_record" where
  "release_next r = r\<lparr>lr_holder := [], lr_state := LeaseReleased, lr_version := lr_version r + 1\<rparr>"

definition swap_owned :: "'s lease_store \<Rightarrow> 's \<Rightarrow> bool \<Rightarrow> lease_token \<Rightarrow> u64 \<Rightarrow> lease_record \<Rightarrow> 's \<times> lease_error option" where
  "swap_owned st s c t expected nx =
     (case ls_cas st s c (tk_key t) expected nx of
        (s', Some _) \<Rightarrow> (s', Some ErrLeaseConflict) | (s', None) \<Rightarrow> (s', None))"

definition BeginDrain :: "'s lease_store \<Rightarrow> 's \<Rightarrow> bool \<Rightarrow> bool \<Rightarrow> lease_token \<Rightarrow> 's \<times> lease_error option" where
  "BeginDrain st s c1 c2 t =
     (case loadOwned st s c1 t LeaseActive of
        Inl err \<Rightarrow> (s, Some err)
      | Inr r \<Rightarrow> swap_owned st s c2 t (lr_version r) (drain_next r))"

definition Release :: "'s lease_store \<Rightarrow> 's \<Rightarrow> bool \<Rightarrow> bool \<Rightarrow> lease_token \<Rightarrow> 's \<times> lease_error option" where
  "Release st s c1 c2 t =
     (case loadOwned st s c1 t LeaseDraining of
        Inl err \<Rightarrow> (s, Some err)
      | Inr r \<Rightarrow> swap_owned st s c2 t (lr_version r) (release_next r))"

definition CommitFenced :: "'s lease_store \<Rightarrow> 's \<Rightarrow> bool \<Rightarrow> lease_token \<Rightarrow> ('d \<Rightarrow> 'd \<times> bool) \<Rightarrow> 'd \<Rightarrow> 'd \<times> lease_error option" where
  "CommitFenced st s c t commit d =
     (if \<not> token_complete t then (d, Some ErrLeaseConflict) else commit_fenced st s c t commit d)"

text \<open>
  The drain function is an argument, which may itself use the store and says
  whether it succeeded; the contexts of the six store calls are flags.
\<close>

definition Handoff :: "'s lease_store \<Rightarrow> 's \<Rightarrow> (nat \<Rightarrow> bool) \<Rightarrow> lease_token \<Rightarrow> string \<Rightarrow> ('s \<Rightarrow> lease_token \<Rightarrow> 's \<times> bool) \<Rightarrow>
    's \<times> (lease_error + lease_token)" where
  "Handoff st s c old newHolder drain =
     (case BeginDrain st s (c 0) (c 1) old of
        (s1, Some err) \<Rightarrow> (s1, Inl err)
      | (s1, None) \<Rightarrow> (case drain s1 old of
          (s2, False) \<Rightarrow> (s2, Inl ErrDrainFailed)
        | (s2, True) \<Rightarrow> (case Release st s2 (c 2) (c 3) old of
            (s3, Some err) \<Rightarrow> (s3, Inl err)
          | (s3, None) \<Rightarrow> Acquire st s3 (c 4) (c 5) (tk_key old) newHolder)))"

subsection \<open>The fenced boundary of a collector\<close>

text \<open>The inner boundary's \<open>FlushCommit\<close> is an argument: it changes the durable state and returns a commit or fails.\<close>

definition NewFencedDurableBoundary :: "lease_token \<Rightarrow> lease_error option" where
  "NewFencedDurableBoundary t = (if \<not> token_complete t then Some ErrLeaseConflict else None)"

definition fenced_FlushCommit :: "'s lease_store \<Rightarrow> 's \<Rightarrow> bool \<Rightarrow> lease_token \<Rightarrow> ('d \<Rightarrow> 'd \<times> 'c option) \<Rightarrow> 'd \<Rightarrow> 'd \<times> (lease_error + 'c)" where
  "fenced_FlushCommit st s c t flush d =
     (case CommitFenced st s c t (\<lambda>d. (fst (flush d), snd (flush d) \<noteq> None)) d of
        (d', Some err) \<Rightarrow> (d', Inl err)
      | (d', None) \<Rightarrow> (d', case snd (flush d) of None \<Rightarrow> Inl CommitError | Some k \<Rightarrow> Inr k))"

subsection \<open>The in-process store\<close>

type_synonym memory_store = "(string \<times> lease_record) list"

definition memory_load :: "memory_store \<Rightarrow> bool \<Rightarrow> string \<Rightarrow> lease_error + lease_record option" where
  "memory_load s c key = (if c then Inl LeaseStoreError else Inr (go_get s key))"

definition memory_cas :: "memory_store \<Rightarrow> bool \<Rightarrow> string \<Rightarrow> u64 \<Rightarrow> lease_record \<Rightarrow> memory_store \<times> lease_error option" where
  "memory_cas s c key expected nx =
     (if c then (s, Some LeaseStoreError)
      else if (go_get s key = None \<and> expected \<noteq> 0) \<or> (\<exists>r \<in> set_option (go_get s key). lr_version r \<noteq> expected)
      then (s, Some ErrLeaseConflict)
      else if lr_key nx \<noteq> key \<or> lr_version nx \<noteq> expected + 1 \<or> lr_fence nx = 0 then (s, Some LeaseInvalidSwap)
      else (go_put key nx s, None))"

definition memory_admit :: "memory_store \<Rightarrow> bool \<Rightarrow> lease_token \<Rightarrow> lease_error option" where
  "memory_admit s c t =
     (if c then Some LeaseStoreError
      else (case go_get s (tk_key t) of
              None \<Rightarrow> Some ErrLeaseConflict
            | Some r \<Rightarrow> if lr_key r \<noteq> tk_key t \<or> lr_holder r \<noteq> tk_holder t \<or> lr_fence r \<noteq> tk_fence t \<or>
                  (lr_state r \<noteq> LeaseActive \<and> lr_state r \<noteq> LeaseDraining)
                then Some ErrLeaseConflict else None))"

definition MemoryLeaseStore :: "memory_store lease_store" where
  "MemoryLeaseStore = \<lparr>ls_load = memory_load, ls_cas = memory_cas, ls_admit = memory_admit\<rparr>"

definition NewMemoryLeaseStore :: memory_store where
  "NewMemoryLeaseStore = []"

subsection \<open>Interleaved clients\<close>

text \<open>
  A system: the store, the compare-and-swaps that clients have decided on but not
  yet made (with the token they will return, for an acquisition), the tokens
  issued and the tokens under which commits ran, in order.
\<close>

record pending_swap =
  pw_key :: string
  pw_expected :: u64
  pw_next :: lease_record
  pw_token :: "lease_token option"

record 's lease_system =
  sy_store :: 's
  sy_pending :: "pending_swap list"
  sy_issued :: "lease_token list"
  sy_commits :: "lease_token list"

inductive lease_step :: "'s lease_store \<Rightarrow> 's lease_system \<Rightarrow> 's lease_system \<Rightarrow> bool" for st where
  load_acquire: "key \<noteq> [] \<Longrightarrow> holder \<noteq> [] \<Longrightarrow> ls_load st (sy_store y) c key = Inr cur \<Longrightarrow>
    acquire_plan key holder cur = Inr (e, n) \<Longrightarrow>
    lease_step st y (y\<lparr>sy_pending := \<lparr>pw_key = key, pw_expected = e, pw_next = n,
      pw_token = Some \<lparr>tk_key = key, tk_holder = holder, tk_fence = lr_fence n\<rparr>\<rparr> # sy_pending y\<rparr>)"
| load_drain: "loadOwned st (sy_store y) c t LeaseActive = Inr r \<Longrightarrow>
    lease_step st y (y\<lparr>sy_pending := \<lparr>pw_key = tk_key t, pw_expected = lr_version r, pw_next = drain_next r,
      pw_token = None\<rparr> # sy_pending y\<rparr>)"
| load_release: "loadOwned st (sy_store y) c t LeaseDraining = Inr r \<Longrightarrow>
    lease_step st y (y\<lparr>sy_pending := \<lparr>pw_key = tk_key t, pw_expected = lr_version r, pw_next = release_next r,
      pw_token = None\<rparr> # sy_pending y\<rparr>)"
| swap: "p \<in> set (sy_pending y) \<Longrightarrow> ls_cas st (sy_store y) c (pw_key p) (pw_expected p) (pw_next p) = (s', err) \<Longrightarrow>
    lease_step st y (y\<lparr>sy_store := s', sy_pending := remove1 p (sy_pending y),
      sy_issued := sy_issued y @ (if err = None then (case pw_token p of None \<Rightarrow> [] | Some t \<Rightarrow> [t]) else [])\<rparr>)"
| commit: "token_complete t \<Longrightarrow> ls_admit st (sy_store y) c t = None \<Longrightarrow>
    lease_step st y (y\<lparr>sy_commits := sy_commits y @ [t]\<rparr>)"

definition lease_start :: "'s \<Rightarrow> 's lease_system" where
  "lease_start s = \<lparr>sy_store = s, sy_pending = [], sy_issued = [], sy_commits = []\<rparr>"

text \<open>Systems reached in at most the given number of steps.\<close>

inductive lease_reach :: "'s lease_store \<Rightarrow> 's \<Rightarrow> nat \<Rightarrow> 's lease_system \<Rightarrow> bool" for st s0 where
  start: "lease_reach st s0 0 (lease_start s0)"
| more: "lease_reach st s0 n y \<Longrightarrow> lease_step st y y' \<Longrightarrow> lease_reach st s0 (Suc n) y'"

subsection \<open>Fencing\<close>

definition rec_version :: "lease_record option \<Rightarrow> u64" where
  "rec_version cur = (case cur of None \<Rightarrow> 0 | Some r \<Rightarrow> lr_version r)"

definition tokens_for :: "string \<Rightarrow> lease_token list \<Rightarrow> lease_token list" where
  "tokens_for k ts = filter (\<lambda>t. tk_key t = k) ts"

definition fence_of :: "lease_token \<Rightarrow> nat" where
  "fence_of t = unat (tk_fence t)"

text \<open>A swap that is right for the record it was decided on.\<close>

definition legit :: "lease_record option \<Rightarrow> pending_swap \<Rightarrow> bool" where
  "legit cur p \<longleftrightarrow>
     (case pw_token p of
        Some t \<Rightarrow> tk_key t = pw_key p \<and> tk_fence t = lr_fence (pw_next p) \<and> tk_holder t = lr_holder (pw_next p) \<and>
          (\<forall>r. cur = Some r \<longrightarrow> unat (lr_fence r) < unat (lr_fence (pw_next p)))
      | None \<Rightarrow> \<exists>r. cur = Some r \<and> lr_fence (pw_next p) = lr_fence r \<and>
          (lr_state (pw_next p) = LeaseReleased \<or> (lr_holder (pw_next p) = lr_holder r \<and> lr_state r \<noteq> LeaseReleased)))"

definition swap_ok :: "(string \<Rightarrow> lease_record option) \<Rightarrow> pending_swap \<Rightarrow> bool" where
  "swap_ok look p \<longleftrightarrow> pw_expected p \<le> rec_version (look (pw_key p)) \<and>
     (pw_expected p = rec_version (look (pw_key p)) \<longrightarrow> legit (look (pw_key p)) p)"

definition key_ok :: "nat \<Rightarrow> lease_record option \<Rightarrow> lease_token list \<Rightarrow> bool" where
  "key_ok n cur ts \<longleftrightarrow> unat (rec_version cur) \<le> n \<and> sorted_wrt (<) (map fence_of ts) \<and>
     (case cur of
        None \<Rightarrow> ts = []
      | Some r \<Rightarrow> lr_version r \<noteq> 0 \<and> ts \<noteq> [] \<and> tk_fence (last ts) = lr_fence r \<and>
          (lr_state r \<noteq> LeaseReleased \<longrightarrow> tk_holder (last ts) = lr_holder r))"

definition commits_ok :: "lease_token list \<Rightarrow> lease_token list \<Rightarrow> bool" where
  "commits_ok ts cs \<longleftrightarrow> sorted (map fence_of cs) \<and> set cs \<subseteq> set ts"

definition lease_inv :: "nat \<Rightarrow> (string \<Rightarrow> lease_record option) \<Rightarrow> 's lease_system \<Rightarrow> bool" where
  "lease_inv n look y \<longleftrightarrow> (\<forall>p \<in> set (sy_pending y). swap_ok look p) \<and>
     (\<forall>k. key_ok n (look k) (tokens_for k (sy_issued y)) \<and> commits_ok (tokens_for k (sy_issued y)) (tokens_for k (sy_commits y)))"

lemma states_distinct: "LeaseActive \<noteq> LeaseReleased" "LeaseDraining \<noteq> LeaseReleased"
  by (simp_all add: lease_states)

lemma tokens_for_append [simp]: "tokens_for k (ts @ us) = tokens_for k ts @ tokens_for k us"
  by (simp add: tokens_for_def)

lemma tokens_for_single [simp]: "tokens_for k [t] = (if tk_key t = k then [t] else [])" "tokens_for k [] = []"
  by (simp_all add: tokens_for_def)

lemma sorted_last_max: "sorted_wrt (<) (map f ts) \<Longrightarrow> t \<in> set ts \<Longrightarrow> (f t :: nat) \<le> f (last ts)"
  by (induction ts) (auto, metis less_imp_le last_in_set)

lemma key_ok_mono: "key_ok n cur ts \<Longrightarrow> key_ok (Suc n) cur ts"
  by (auto simp: key_ok_def)

lemma legit_acquire:
  assumes "acquire_plan key holder cur = Inr (e, n)"
  shows "e = rec_version cur \<and> legit cur \<lparr>pw_key = key, pw_expected = e, pw_next = n,
    pw_token = Some \<lparr>tk_key = key, tk_holder = holder, tk_fence = lr_fence n\<rparr>\<rparr>"
proof (cases cur)
  case (Some r)
  then have r: "lr_fence r \<noteq> max_u64" "n = \<lparr>lr_key = key, lr_holder = holder, lr_fence = lr_fence r + 1, lr_state = LeaseActive,
      lr_version = lr_version r + 1\<rparr>" "e = lr_version r"
    using assms by (auto simp: acquire_plan_def split: if_splits)
  then show ?thesis using Some word_succ_no_wrap [of "lr_fence r"] by (simp add: legit_def rec_version_def)
qed (use assms in \<open>auto simp: acquire_plan_def legit_def rec_version_def\<close>)

lemma legit_owned:
  assumes "owned_plan t required cur = Inr r" "required \<noteq> LeaseReleased"
  shows "cur = Some r" "lr_state r \<noteq> LeaseReleased"
  using assms by (auto simp: owned_plan_def split: option.splits if_splits)

text \<open>A swap that is legitimate and made at the right version keeps the key's record and tokens in step.\<close>

lemma key_ok_swap:
  assumes "key_ok n cur ts" "legit cur p" "n < 2 ^ 64 - 1" "lr_version (pw_next p) = rec_version cur + 1"
  shows "key_ok (Suc n) (Some (pw_next p)) (ts @ (case pw_token p of None \<Rightarrow> [] | Some t \<Rightarrow> [t]))"
proof -
  have "rec_version cur \<noteq> max_u64"
    using assms(1,3) by (auto simp: key_ok_def unsigned_minus_1_eq_mask mask_eq_exp_minus_1)
  then have v: "unat (lr_version (pw_next p)) = unat (rec_version cur) + 1" "lr_version (pw_next p) \<noteq> 0"
    using assms(4) word_succ_no_wrap by (metis, metis add_eq_0_iff2)
  show ?thesis
  proof (cases "pw_token p")
    case None
    then obtain r where r: "cur = Some r" "lr_fence (pw_next p) = lr_fence r"
      "lr_state (pw_next p) = LeaseReleased \<or> (lr_holder (pw_next p) = lr_holder r \<and> lr_state r \<noteq> LeaseReleased)"
      using assms(2) by (auto simp: legit_def)
    with None v assms(1) show ?thesis by (auto simp: key_ok_def rec_version_def)
  next
    case (Some t)
    have t: "tk_fence t = lr_fence (pw_next p)" "tk_holder t = lr_holder (pw_next p)"
      "\<And>r. cur = Some r \<Longrightarrow> unat (lr_fence r) < unat (lr_fence (pw_next p))"
      using assms(2) Some by (auto simp: legit_def)
    have below: "fence_of u < fence_of t" if "u \<in> set ts" for u
    proof -
      have "ts \<noteq> []" "sorted_wrt (<) (map fence_of ts)" using that assms(1) by (auto simp: key_ok_def)
      then obtain r where "cur = Some r" "tk_fence (last ts) = lr_fence r"
        using assms(1) by (cases cur) (auto simp: key_ok_def)
      then have "fence_of (last ts) < fence_of t" using t by (simp add: fence_of_def)
      moreover have "fence_of u \<le> fence_of (last ts)"
        using sorted_last_max [OF \<open>sorted_wrt (<) (map fence_of ts)\<close> that] .
      ultimately show ?thesis by simp
    qed
    with assms(1) v Some t show ?thesis
      by (auto simp: key_ok_def rec_version_def sorted_wrt_append)
  qed
qed

lemma swap_ok_later:
  assumes "swap_ok look q" "look' = look(k \<mapsto> n)" "lr_version n = rec_version (look k) + 1" "rec_version (look k) \<noteq> max_u64"
  shows "swap_ok look' q"
proof (cases "pw_key q = k")
  case True
  have "pw_expected q < lr_version n"
    using assms True unfolding swap_ok_def by (simp add: word_less_succ_iff)
  with True assms(2) show ?thesis by (auto simp: swap_ok_def rec_version_def)
qed (use assms in \<open>simp add: swap_ok_def\<close>)

locale fenced_store =
  fixes st :: "'s lease_store" and lookup :: "'s \<Rightarrow> string \<Rightarrow> lease_record option"
  assumes load_law: "ls_load st s c k = Inr cur \<Longrightarrow> cur = lookup s k"
    and cas_law: "ls_cas st s c k e n = (s', None) \<Longrightarrow>
      (lookup s k = None \<longrightarrow> e = 0) \<and> (\<forall>r. lookup s k = Some r \<longrightarrow> lr_version r = e) \<and>
      lr_version n = e + 1 \<and> lookup s' = (lookup s)(k \<mapsto> n)"
    and cas_keeps: "ls_cas st s c k e n = (s', Some err) \<Longrightarrow> lookup s' = lookup s"
    and admit_law: "ls_admit st s c t = None \<Longrightarrow> \<exists>r. lookup s (tk_key t) = Some r \<and>
      lr_holder r = tk_holder t \<and> lr_fence r = tk_fence t \<and> lr_state r \<noteq> LeaseReleased"
begin

lemma inv_pending:
  assumes "lease_inv n (lookup (sy_store y)) y" "swap_ok (lookup (sy_store y)) p"
  shows "lease_inv (Suc n) (lookup (sy_store y)) (y\<lparr>sy_pending := p # sy_pending y\<rparr>)"
  using assms by (auto simp: lease_inv_def intro: key_ok_mono)

lemma owned_pending:
  assumes "loadOwned st (sy_store y) c t required = Inr r" "required \<noteq> LeaseReleased"
  shows "lookup (sy_store y) (tk_key t) = Some r \<and> lr_state r \<noteq> LeaseReleased"
proof -
  obtain cur where "ls_load st (sy_store y) c (tk_key t) = Inr cur" "owned_plan t required cur = Inr r"
    using assms(1) by (auto simp: loadOwned_def split: if_splits sum.splits)
  then show ?thesis using load_law legit_owned [OF _ assms(2)] by metis
qed

lemma inv_swap:
  assumes inv: "lease_inv n (lookup (sy_store y)) y" and p: "p \<in> set (sy_pending y)" and n: "n < 2 ^ 64 - 1"
    and cas: "ls_cas st (sy_store y) c (pw_key p) (pw_expected p) (pw_next p) = (s', err)"
  shows "lease_inv (Suc n) (lookup s') (y\<lparr>sy_store := s', sy_pending := remove1 p (sy_pending y),
      sy_issued := sy_issued y @ (if err = None then (case pw_token p of None \<Rightarrow> [] | Some t \<Rightarrow> [t]) else [])\<rparr>)"
proof (cases err)
  case (Some e)
  then have "lookup s' = lookup (sy_store y)" using cas_keeps cas by blast
  then show ?thesis using inv Some set_remove1_subset [of p "sy_pending y"]
    by (auto simp: lease_inv_def intro: key_ok_mono)
next
  case None
  let ?look = "lookup (sy_store y)" and ?k = "pw_key p"
  let ?new = "case pw_token p of None \<Rightarrow> [] | Some t \<Rightarrow> [t]"
  have law: "pw_expected p = rec_version (?look ?k)" "lr_version (pw_next p) = pw_expected p + 1"
    and upd: "lookup s' = ?look(?k \<mapsto> pw_next p)"
    using cas_law [of "sy_store y" c ?k "pw_expected p" "pw_next p" s'] cas None
    by (auto simp: rec_version_def split: option.splits)
  have lg: "legit (?look ?k) p" using inv p law(1) by (auto simp: lease_inv_def swap_ok_def)
  have ko: "key_ok n (?look k) (tokens_for k (sy_issued y))" "commits_ok (tokens_for k (sy_issued y)) (tokens_for k (sy_commits y))" for k
    using inv by (auto simp: lease_inv_def)
  have max: "rec_version (?look ?k) \<noteq> max_u64"
    using ko(1) [of ?k] n by (auto simp: key_ok_def unsigned_minus_1_eq_mask mask_eq_exp_minus_1)
  have new: "tokens_for k ?new = (if k = ?k then ?new else [])" for k
    using lg by (auto simp: legit_def split: option.splits)
  have "swap_ok (lookup s') q" if "q \<in> set (remove1 p (sy_pending y))" for q
    using swap_ok_later [OF _ upd _ max] law inv that set_remove1_subset [of p "sy_pending y"] by (auto simp: lease_inv_def)
  moreover have "key_ok (Suc n) (lookup s' k) (tokens_for k (sy_issued y @ ?new))" for k
    using key_ok_swap [OF ko(1) [of ?k] lg n] law key_ok_mono [OF ko(1) [of k]] unfolding upd tokens_for_append new by auto
  moreover have "commits_ok (tokens_for k (sy_issued y @ ?new)) (tokens_for k (sy_commits y))" for k
    using ko(2) [of k] by (auto simp: commits_ok_def)
  ultimately show ?thesis using None by (simp add: lease_inv_def)
qed

text \<open>An admitted token is the latest one issued for its key.\<close>

lemma admitted_latest:
  assumes "lease_inv n (lookup (sy_store y)) y" "ls_admit st (sy_store y) c t = None"
  shows "tokens_for (tk_key t) (sy_issued y) \<noteq> [] \<and> last (tokens_for (tk_key t) (sy_issued y)) = t"
proof -
  let ?ts = "tokens_for (tk_key t) (sy_issued y)"
  obtain r where r: "lookup (sy_store y) (tk_key t) = Some r" "lr_holder r = tk_holder t" "lr_fence r = tk_fence t"
    "lr_state r \<noteq> LeaseReleased" using admit_law [OF assms(2)] by blast
  then have k: "?ts \<noteq> []" "tk_fence (last ?ts) = tk_fence t" "tk_holder (last ?ts) = tk_holder t"
    using assms(1) by (auto simp: lease_inv_def key_ok_def dest!: spec [of _ "tk_key t"])
  have "last ?ts \<in> set ?ts" using k(1) by (rule last_in_set)
  then have "tk_key (last ?ts) = tk_key t" by (simp add: tokens_for_def)
  with k show ?thesis by simp
qed

lemma inv_commit:
  assumes "lease_inv n (lookup (sy_store y)) y" "ls_admit st (sy_store y) c t = None"
  shows "lease_inv (Suc n) (lookup (sy_store y)) (y\<lparr>sy_commits := sy_commits y @ [t]\<rparr>)"
proof -
  let ?ts = "tokens_for (tk_key t) (sy_issued y)"
  have k: "key_ok n (lookup (sy_store y) k) (tokens_for k (sy_issued y))"
    "commits_ok (tokens_for k (sy_issued y)) (tokens_for k (sy_commits y))" for k
    using assms(1) by (auto simp: lease_inv_def)
  have t: "t \<in> set ?ts" "last ?ts = t" using admitted_latest [OF assms] by (metis last_in_set)+
  have "fence_of u \<le> fence_of t" if "u \<in> set ?ts" for u
    using sorted_last_max [of fence_of ?ts u] k(1) [of "tk_key t"] t(2) that by (simp add: key_ok_def)
  then have "commits_ok (tokens_for k (sy_issued y)) (tokens_for k (sy_commits y @ [t]))" for k
    using k(2) [of k] t(1) by (auto simp: commits_ok_def sorted_append)
  then show ?thesis using assms(1) k(1) by (auto simp: lease_inv_def intro: key_ok_mono)
qed

lemma inv_step:
  assumes "lease_step st y y'" "lease_inv n (lookup (sy_store y)) y" "n < 2 ^ 64 - 1"
  shows "lease_inv (Suc n) (lookup (sy_store y')) y'"
  using assms(1)
proof cases
  case (load_acquire key holder c cur e n')
  then have "e = rec_version cur" "legit cur \<lparr>pw_key = key, pw_expected = e, pw_next = n',
    pw_token = Some \<lparr>tk_key = key, tk_holder = holder, tk_fence = lr_fence n'\<rparr>\<rparr>" "cur = lookup (sy_store y) key"
    using legit_acquire [of key holder cur e n'] load_law by auto
  then show ?thesis unfolding load_acquire(1)
    using inv_pending [OF assms(2), where p = "\<lparr>pw_key = key, pw_expected = e, pw_next = n',
      pw_token = Some \<lparr>tk_key = key, tk_holder = holder, tk_fence = lr_fence n'\<rparr>\<rparr>"] by (simp add: swap_ok_def)
next
  case (load_drain c t r)
  have "lookup (sy_store y) (tk_key t) = Some r \<and> lr_state r \<noteq> LeaseReleased"
    by (rule owned_pending [OF load_drain(2) states_distinct(1)])
  then show ?thesis unfolding load_drain(1)
    using inv_pending [OF assms(2), where p = "\<lparr>pw_key = tk_key t, pw_expected = lr_version r, pw_next = drain_next r, pw_token = None\<rparr>"]
    by (simp add: swap_ok_def rec_version_def legit_def drain_next_def)
next
  case (load_release c t r)
  have "lookup (sy_store y) (tk_key t) = Some r \<and> lr_state r \<noteq> LeaseReleased"
    by (rule owned_pending [OF load_release(2) states_distinct(2)])
  then show ?thesis unfolding load_release(1)
    using inv_pending [OF assms(2), where p = "\<lparr>pw_key = tk_key t, pw_expected = lr_version r, pw_next = release_next r, pw_token = None\<rparr>"]
    by (simp add: swap_ok_def rec_version_def legit_def release_next_def)
next
  case (swap p c s' err)
  then show ?thesis using inv_swap [OF assms(2) swap(2) assms(3) swap(3)] by simp
next
  case (commit t c)
  then show ?thesis using inv_commit [OF assms(2) commit(3)] by simp
qed

lemma reach_inv:
  assumes "lease_reach st s0 n y" "\<And>k. lookup s0 k = None" "n < 2 ^ 64"
  shows "lease_inv n (lookup (sy_store y)) y"
  using assms(1,3)
proof (induction rule: lease_reach.induct)
  case start
  then show ?case using assms(2) by (simp add: lease_start_def lease_inv_def key_ok_def rec_version_def commits_ok_def)
next
  case (more n y y')
  then have "n < 2 ^ 64 - 1" by simp
  then show ?case using inv_step [OF more.hyps(2)] more.IH by simp
qed

end

subsection \<open>The in-process store keeps the promises\<close>

lemma MemoryLeaseStore_simps [simp]:
  "ls_load MemoryLeaseStore = memory_load" "ls_cas MemoryLeaseStore = memory_cas" "ls_admit MemoryLeaseStore = memory_admit"
  by (simp_all add: MemoryLeaseStore_def)

interpretation memory: fenced_store MemoryLeaseStore "\<lambda>s k. go_get s k"
proof
  show "cur = go_get s k" if "ls_load MemoryLeaseStore s c k = Inr cur" for s c k cur
    using that by (simp add: memory_load_def split: if_splits)
  show "(go_get s k = None \<longrightarrow> e = 0) \<and> (\<forall>r. go_get s k = Some r \<longrightarrow> lr_version r = e) \<and> lr_version n = e + 1 \<and>
      (\<lambda>k. go_get s' k) = (\<lambda>k. go_get s k)(k \<mapsto> n)" if "ls_cas MemoryLeaseStore s c k e n = (s', None)" for s c k e n s'
    using that by (auto simp: memory_cas_def fun_eq_iff split: if_splits)
  show "(\<lambda>k. go_get s' k) = (\<lambda>k. go_get s k)" if "ls_cas MemoryLeaseStore s c k e n = (s', Some err)" for s c k e n s' err
    using that by (auto simp: memory_cas_def split: if_splits)
  show "\<exists>r. go_get s (tk_key t) = Some r \<and> lr_holder r = tk_holder t \<and> lr_fence r = tk_fence t \<and> lr_state r \<noteq> LeaseReleased"
    if "ls_admit MemoryLeaseStore s c t = None" for s c t
    using that by (auto simp: memory_admit_def lease_states split: if_splits option.splits)
qed

text \<open>
  C29. Fencing is sound under every interleaving.  However any number of clients
  interleave the loads and swaps of acquisitions, drains and releases on the
  store (for fewer than \<open>2 ^ 64\<close> steps, so that versions cannot wrap): the tokens
  issued for a key carry strictly increasing fences; commits for a key happen in
  the order of their fences and only under issued tokens; and a commit that is
  admitted now is under the latest token issued for its key.
\<close>

theorem lease_fencing:
  assumes "lease_reach MemoryLeaseStore NewMemoryLeaseStore n y" "n < 2 ^ 64"
  shows "sorted_wrt (<) (map fence_of (tokens_for k (sy_issued y))) \<and>
    sorted (map fence_of (tokens_for k (sy_commits y))) \<and>
    set (tokens_for k (sy_commits y)) \<subseteq> set (tokens_for k (sy_issued y)) \<and>
    (tk_key t = k \<and> ls_admit MemoryLeaseStore (sy_store y) c t = None \<longrightarrow> last (tokens_for k (sy_issued y)) = t)"
proof -
  have inv: "lease_inv n (\<lambda>k. go_get (sy_store y) k) y"
    using assms(1) _ assms(2) by (rule memory.reach_inv) (simp add: NewMemoryLeaseStore_def)
  then have "key_ok n (go_get (sy_store y) k) (tokens_for k (sy_issued y))"
    "commits_ok (tokens_for k (sy_issued y)) (tokens_for k (sy_commits y))" by (auto simp: lease_inv_def)
  then show ?thesis using memory.admitted_latest [OF inv, of c t] by (auto simp: key_ok_def commits_ok_def)
qed

subsection \<open>Handoff\<close>

definition lease_at :: "memory_store \<Rightarrow> lease_token \<Rightarrow> string \<Rightarrow> bool" where
  "lease_at s t st \<longleftrightarrow> (\<exists>r. go_get s (tk_key t) = Some r \<and> lr_key r = tk_key t \<and> lr_holder r = tk_holder t \<and>
     lr_fence r = tk_fence t \<and> lr_state r = st)"

lemma loadOwned_memory:
  "loadOwned MemoryLeaseStore s c t required = Inr r \<longleftrightarrow> \<not> c \<and> token_complete t \<and> go_get s (tk_key t) = Some r \<and>
     lr_key r = tk_key t \<and> lr_holder r = tk_holder t \<and> lr_fence r = tk_fence t \<and> lr_state r = required"
  by (auto simp: loadOwned_def memory_load_def owned_plan_def split: option.splits)

lemma swap_owned_memory:
  "swap_owned MemoryLeaseStore s c t e n = (s', None) \<Longrightarrow> s' = go_put (tk_key t) n s \<and> lr_fence n \<noteq> 0"
  by (auto simp: swap_owned_def memory_cas_def split: if_splits)

lemma BeginDrain_memory:
  assumes "BeginDrain MemoryLeaseStore s c1 c2 t = (s', None)"
  obtains r where "go_get s (tk_key t) = Some r" "lr_state r = LeaseActive" "lease_at s' t LeaseDraining" "token_complete t"
    "s' = go_put (tk_key t) (drain_next r) s" "lr_holder r = tk_holder t" "lr_fence r = tk_fence t" "lr_key r = tk_key t"
proof -
  obtain r where l: "loadOwned MemoryLeaseStore s c1 t LeaseActive = Inr r"
    using assms by (cases "loadOwned MemoryLeaseStore s c1 t LeaseActive") (auto simp: BeginDrain_def)
  then have "s' = go_put (tk_key t) (drain_next r) s"
    using assms swap_owned_memory by (auto simp: BeginDrain_def)
  with l show thesis using that by (auto simp: loadOwned_memory lease_at_def drain_next_def)
qed

lemma Release_memory:
  assumes "Release MemoryLeaseStore s c1 c2 t = (s', None)"
  obtains r where "go_get s (tk_key t) = Some r" "lr_fence r = tk_fence t" "lr_key r = tk_key t"
    "s' = go_put (tk_key t) (release_next r) s"
proof -
  obtain r where l: "loadOwned MemoryLeaseStore s c1 t LeaseDraining = Inr r"
    using assms by (cases "loadOwned MemoryLeaseStore s c1 t LeaseDraining") (auto simp: Release_def)
  then have "s' = go_put (tk_key t) (release_next r) s"
    using assms swap_owned_memory by (auto simp: Release_def)
  with l show thesis using that by (auto simp: loadOwned_memory)
qed

lemma Acquire_memory_held:
  "go_get s key = Some r \<Longrightarrow> lr_state r \<noteq> LeaseReleased \<Longrightarrow> \<exists>err. Acquire MemoryLeaseStore s c1 c2 key holder = (s, Inl err)"
  by (simp add: Acquire_def memory_load_def acquire_plan_def)

lemma Acquire_memory:
  assumes "Acquire MemoryLeaseStore s c1 c2 key holder = (s', Inr t)"
  shows "tk_key t = key \<and> tk_holder t = holder \<and> memory_admit s' False t = None \<and>
    (\<forall>r. go_get s key = Some r \<longrightarrow> lr_state r = LeaseReleased \<and> lr_fence r \<noteq> max_u64 \<and> tk_fence t = lr_fence r + 1)"
  using assms
  by (auto simp: Acquire_def memory_load_def acquire_plan_def memory_cas_def memory_admit_def lease_states
      split: if_splits option.splits prod.splits)

text \<open>None of the three calls on the store reports a failed drain.\<close>

lemma swap_error: "swap_owned MemoryLeaseStore s c t e n = (s', Some err) \<Longrightarrow> err = ErrLeaseConflict"
  by (auto simp: swap_owned_def split: option.splits prod.splits)

lemma loadOwned_error: "loadOwned MemoryLeaseStore s c t required = Inl err \<Longrightarrow> err \<noteq> ErrDrainFailed"
  by (auto simp: loadOwned_def owned_plan_def memory_load_def split: if_splits option.splits)

lemma handoff_call_errors:
  "BeginDrain MemoryLeaseStore s c1 c2 t = (s', Some err) \<Longrightarrow> err \<noteq> ErrDrainFailed"
  "Release MemoryLeaseStore s c1 c2 t = (s', Some err) \<Longrightarrow> err \<noteq> ErrDrainFailed"
  "Acquire MemoryLeaseStore s c1 c2 key holder = (s', Inl err) \<Longrightarrow> err \<noteq> ErrDrainFailed"
  by (auto simp: BeginDrain_def Release_def Acquire_def acquire_plan_def memory_load_def
      dest: swap_error loadOwned_error split: sum.splits if_splits option.splits prod.splits)

text \<open>A release and the acquisition after it pass the lease on.\<close>

lemma released_then_acquired:
  assumes "Release MemoryLeaseStore s c1 c2 old = (s1, None)"
    and "Acquire MemoryLeaseStore s1 c3 c4 (tk_key old) holder = (s', Inr t)"
  shows "tk_key t = tk_key old \<and> tk_holder t = holder \<and> fence_of t = fence_of old + 1 \<and>
    memory_admit s' False t = None \<and> memory_admit s' False old \<noteq> None"
proof -
  obtain r where r: "lr_fence r = tk_fence old" "s1 = go_put (tk_key old) (release_next r) s"
    using assms(1) by (rule Release_memory)
  have a: "tk_key t = tk_key old" "tk_holder t = holder" "memory_admit s' False t = None"
    "tk_fence old \<noteq> max_u64" "tk_fence t = tk_fence old + 1"
    using Acquire_memory [OF assms(2)] r by (auto simp: release_next_def)
  then have f: "fence_of t = fence_of old + 1" by (simp add: fence_of_def word_succ_no_wrap)
  then have "memory_admit s' False old \<noteq> None"
    using a(1,3) by (auto simp: memory_admit_def fence_of_def split: option.splits if_splits)
  with a f show ?thesis by simp
qed

text \<open>
  A handoff never leaves two writers.  If it succeeds, the new token can
  commit, its fence is one above the old one, and the old token can no longer
  commit, whatever the drain did.  If the drain fails, the store is as the drain
  left it, and the drain was run with the old lease draining: there the old token
  still commits and no acquisition of the key succeeds, whoever tries.
\<close>

theorem handoff_exclusive:
  "case Handoff MemoryLeaseStore s c old newHolder drain of
     (s', Inr t) \<Rightarrow> tk_key t = tk_key old \<and> tk_holder t = newHolder \<and> fence_of t = fence_of old + 1 \<and>
        ls_admit MemoryLeaseStore s' False t = None \<and> ls_admit MemoryLeaseStore s' False old \<noteq> None
   | (s', Inl err) \<Rightarrow> if err = ErrDrainFailed
        then (\<exists>s1. drain s1 old = (s', False) \<and> ls_admit MemoryLeaseStore s1 False old = None \<and>
          (\<forall>c1 c2 holder. \<exists>e. Acquire MemoryLeaseStore s1 c1 c2 (tk_key old) holder = (s1, Inl e)))
        else True"
proof (cases "BeginDrain MemoryLeaseStore s (c 0) (c 1) old")
  case (Pair s1 e1)
  note bd = this
  show ?thesis
  proof (cases e1)
    case (Some err)
    with bd show ?thesis using handoff_call_errors(1) [of s "c 0" "c 1" old s1 err] by (simp add: Handoff_def)
  next
    case None
    with bd have b: "BeginDrain MemoryLeaseStore s (c 0) (c 1) old = (s1, None)" by simp
    then obtain r where r: "lease_at s1 old LeaseDraining" "s1 = go_put (tk_key old) (drain_next r) s"
      by (rule BeginDrain_memory)
    have held: "go_get s1 (tk_key old) = Some (drain_next r)" "lr_state (drain_next r) \<noteq> LeaseReleased"
      by (simp_all add: r(2) drain_next_def lease_states)
    have admit: "memory_admit s1 False old = None" using r(1) by (auto simp: lease_at_def memory_admit_def)
    obtain s2 ok where d: "drain s1 old = (s2, ok)" by fastforce
    obtain s3 e3 where rel: "Release MemoryLeaseStore s2 (c 2) (c 3) old = (s3, e3)" by fastforce
    obtain s' res where acq: "Acquire MemoryLeaseStore s3 (c 4) (c 5) (tk_key old) newHolder = (s', res)" by fastforce
    show ?thesis
    proof (cases ok)
      case False
      with b d have "Handoff MemoryLeaseStore s c old newHolder drain = (s2, Inl ErrDrainFailed)" by (simp add: Handoff_def)
      moreover have "drain s1 old = (s2, False)" using d False by simp
      ultimately show ?thesis using admit Acquire_memory_held [OF held] by (auto intro!: exI [of _ s1])
    next
      case True
      with b d have h: "Handoff MemoryLeaseStore s c old newHolder drain =
          (case (s3, e3) of (s3, Some err) \<Rightarrow> (s3, Inl err) | (s3, None) \<Rightarrow> Acquire MemoryLeaseStore s3 (c 4) (c 5) (tk_key old) newHolder)"
        by (simp add: Handoff_def rel)
      show ?thesis
      proof (cases e3)
        case (Some err)
        with h show ?thesis using handoff_call_errors(2) [OF rel [unfolded Some]] by simp
      next
        case e3: None
        with h acq have h': "Handoff MemoryLeaseStore s c old newHolder drain = (s', res)" by simp
        show ?thesis
        proof (cases res)
          case (Inl err)
          with h' show ?thesis using handoff_call_errors(3) [OF acq [unfolded Inl]] by simp
        next
          case (Inr t)
          with h' show ?thesis using released_then_acquired [OF rel [unfolded e3] acq [unfolded Inr]] by simp
        qed
      qed
    qed
  qed
qed

subsection \<open>A run\<close>

theorem lease_fencing_witness:
  "\<exists>y. lease_reach MemoryLeaseStore NewMemoryLeaseStore 2 y \<and> sorted_wrt (<) (map fence_of (tokens_for ''k'' (sy_issued y))) \<and>
     length (sy_issued y) = 1"
proof -
  let ?n = "\<lparr>lr_key = ''k'', lr_holder = ''a'', lr_fence = 1, lr_state = LeaseActive, lr_version = 0 + 1\<rparr>"
  let ?p = "\<lparr>pw_key = ''k'', pw_expected = 0, pw_next = ?n,
      pw_token = Some \<lparr>tk_key = ''k'', tk_holder = ''a'', tk_fence = lr_fence ?n\<rparr>\<rparr>"
  let ?y0 = "lease_start NewMemoryLeaseStore"
  let ?y1 = "?y0\<lparr>sy_pending := ?p # sy_pending ?y0\<rparr>"
  have s1: "lease_step MemoryLeaseStore ?y0 ?y1"
    by (rule lease_step.load_acquire [where c = False and cur = None])
      (simp_all add: lease_start_def NewMemoryLeaseStore_def memory_load_def acquire_plan_def)
  have cas: "ls_cas MemoryLeaseStore (sy_store ?y1) False (pw_key ?p) (pw_expected ?p) (pw_next ?p) = ([(''k'', ?n)], None)"
    by (simp add: lease_start_def NewMemoryLeaseStore_def memory_cas_def go_put_def)
  have s2: "lease_step MemoryLeaseStore ?y1 (?y1\<lparr>sy_store := [(''k'', ?n)], sy_pending := remove1 ?p (sy_pending ?y1),
      sy_issued := sy_issued ?y1 @ (if (None :: lease_error option) = None then (case pw_token ?p of None \<Rightarrow> [] | Some t \<Rightarrow> [t]) else [])\<rparr>)"
    (is "lease_step _ _ ?y2")
    by (rule lease_step.swap [OF _ cas]) simp
  have "lease_reach MemoryLeaseStore NewMemoryLeaseStore (Suc (Suc 0)) ?y2"
    by (rule lease_reach.more [OF lease_reach.more [OF lease_reach.start s1] s2])
  then have reach: "lease_reach MemoryLeaseStore NewMemoryLeaseStore 2 ?y2" by (simp add: numeral_2_eq_2)
  have "length (sy_issued ?y2) = 1" by (simp add: lease_start_def)
  moreover have "sorted_wrt (<) (map fence_of (tokens_for ''k'' (sy_issued ?y2)))"
    using lease_fencing [OF reach, of "''k''"] by simp
  ultimately show ?thesis using reach by blast
qed

end
