(* ===== verification/Wire.thy ===== *)
theory Wire
  imports Prelude
begin

text \<open>
  Reading and writing byte strings: the cursor of \<open>src/segment/format.go\<close> as a
  reader that consumes a byte list, and the contract between an encoder and a
  reader.  The locale \<open>codec\<close> states that contract as one equivalence (a reader
  accepts exactly the encodings of admissible values, whatever follows them), so
  that both halves of a round trip come from the same law; the primitive readers
  are its interpretations, and the readers of optional fields inherit it.
\<close>

unbundle bit_operations_syntax

named_theorems run_simps \<open>how a sequence of readers runs on the encodings of admissible values\<close>
named_theorems wire_simps \<open>what a sequence of readers accepts\<close>

subsection \<open>Readers\<close>

datatype seg_error = ErrBounds | ErrCorrupt | ErrTruncated | ErrVersion | ErrPayloadHash

text \<open>A cursor is the bytes that remain; an error ends the whole decoding, so no cursor is kept then.\<close>

type_synonym 'a reader = "bytes \<Rightarrow> seg_error + 'a \<times> bytes"

definition rd_return :: "'a \<Rightarrow> 'a reader" where
  "rd_return a s = Inr (a, s)"

definition rd_fail :: "seg_error \<Rightarrow> 'a reader" where
  "rd_fail e s = Inl e"

definition rd_bind :: "'a reader \<Rightarrow> ('a \<Rightarrow> 'b reader) \<Rightarrow> 'b reader" where
  "rd_bind p f s = (case p s of Inl e \<Rightarrow> Inl e | Inr (a, s') \<Rightarrow> f a s')"

definition rd_guard :: "bool \<Rightarrow> seg_error \<Rightarrow> 'a reader \<Rightarrow> 'a reader" where
  "rd_guard c e p = (if c then p else rd_fail e)"

definition rd_take :: "nat \<Rightarrow> bytes reader" where
  "rd_take n s = (if n > length s then Inl ErrTruncated else Inr (take n s, drop n s))"

definition rd_u8 :: "u8 reader" where
  "rd_u8 = rd_bind (rd_take 1) (\<lambda>v. rd_return (v ! 0))"

definition rd_u16 :: "u16 reader" where
  "rd_u16 = rd_bind (rd_take 2) (\<lambda>v. rd_return (of_nat (le_get v)))"

definition rd_u32 :: "u32 reader" where
  "rd_u32 = rd_bind (rd_take 4) (\<lambda>v. rd_return (of_nat (le_get v)))"

definition rd_u64 :: "u64 reader" where
  "rd_u64 = rd_bind (rd_take 8) (\<lambda>v. rd_return (of_nat (le_get v)))"

definition rd_i64 :: "i64 reader" where
  "rd_i64 = rd_bind rd_u64 (\<lambda>v. rd_return (sint v))"

definition bytes_str :: "bytes \<Rightarrow> string" where
  "bytes_str bs = map (\<lambda>b. char_of (unat b)) bs"

definition rd_string :: "nat \<Rightarrow> string reader" where
  "rd_string maxBytes = rd_bind rd_u16 (\<lambda>len.
     rd_guard (\<not> unat len > maxBytes) ErrBounds (rd_bind (rd_take (unat len)) (\<lambda>v. rd_return (bytes_str v))))"

definition appendString :: "string \<Rightarrow> bytes" where
  "appendString v = le_u16 (of_nat (length v)) @ str_bytes v"

definition i64_bytes :: "i64 \<Rightarrow> bytes" where
  "i64_bytes v = le_u64 (of_int v)"

record 'a optional =
  o_value :: 'a
  o_valid :: bool

definition rd_optional :: "bool \<Rightarrow> 'a \<Rightarrow> 'a reader \<Rightarrow> 'a optional reader" where
  "rd_optional present zero p =
     (if present then rd_bind p (\<lambda>v. rd_return \<lparr>o_value = v, o_valid = True\<rparr>)
      else rd_return \<lparr>o_value = zero, o_valid = False\<rparr>)"

definition append_optional :: "('a \<Rightarrow> bytes) \<Rightarrow> 'a optional \<Rightarrow> bytes" where
  "append_optional enc v = (if o_valid v then enc (o_value v) else [])"

text \<open>What such a reader returns: a value exactly when it is present, and the zero value otherwise.\<close>

definition opt_ok :: "bool \<Rightarrow> 'a \<Rightarrow> ('a \<Rightarrow> bool) \<Rightarrow> 'a optional \<Rightarrow> bool" where
  "opt_ok present zero ok v \<longleftrightarrow> o_valid v = present \<and> (if present then ok (o_value v) else o_value v = zero)"

subsection \<open>The contract\<close>

lemma rd_bind_Inr: "rd_bind p f s = Inr r \<longleftrightarrow> (\<exists>x s'. p s = Inr (x, s') \<and> f x s' = Inr r)"
  by (auto simp: rd_bind_def split: sum.splits)

lemma rd_return_Inr [simp, wire_simps]: "rd_return a s = Inr (x, r) \<longleftrightarrow> x = a \<and> r = s"
  by (auto simp: rd_return_def)

lemma rd_fail_Inr [simp, wire_simps]: "rd_fail e s \<noteq> Inr r"
  by (simp add: rd_fail_def)

lemma rd_guard_Inr [wire_simps]: "rd_guard c e p s = Inr r \<longleftrightarrow> c \<and> p s = Inr r"
  by (simp add: rd_guard_def)

locale codec =
  fixes enc :: "'a \<Rightarrow> bytes" and rd :: "'a reader" and ok :: "'a \<Rightarrow> bool"
  assumes accepts: "rd s = Inr (x, r) \<longleftrightarrow> ok x \<and> s = enc x @ r"
begin

lemma read_back: "ok x \<Longrightarrow> rd (enc x @ r) = Inr (x, r)"
  by (simp add: accepts)

lemma bind_accepts: "rd_bind rd f s = Inr (y, r) \<longleftrightarrow> (\<exists>x s'. ok x \<and> s = enc x @ s' \<and> f x s' = Inr (y, r))"
  by (auto simp: rd_bind_Inr accepts)

lemma bind_run: "ok x \<Longrightarrow> rd_bind rd f (enc x @ r) = f x r"
  by (simp add: rd_bind_def read_back)

lemma unique: "ok x \<Longrightarrow> ok y \<Longrightarrow> enc x @ r = enc y @ t \<Longrightarrow> x = y \<and> r = t"
  using read_back [of x r] read_back [of y t] by (metis Inr_inject Pair_inject)

lemma optional_accepts:
  "rd_optional present zero rd s = Inr (o1, r) \<longleftrightarrow>
     opt_ok present zero ok o1 \<and> s = append_optional enc o1 @ r"
  by (cases o1) (auto simp: rd_optional_def bind_accepts append_optional_def opt_ok_def)

lemma mapped_accepts:
  assumes "\<And>x. ok x \<longleftrightarrow> ok' (f x)" "\<And>x. ok x \<Longrightarrow> g (f x) = x" "\<And>y. ok' y \<Longrightarrow> f (g y) = y" "\<And>y. ok' y \<Longrightarrow> ok (g y)"
  shows "rd_bind rd (\<lambda>v. rd_return (f v)) s = Inr (y, r) \<longleftrightarrow> ok' y \<and> s = enc (g y) @ r"
proof -
  have "rd_bind rd (\<lambda>v. rd_return (f v)) s = Inr (y, r) \<longleftrightarrow> (\<exists>x. ok x \<and> s = enc x @ r \<and> y = f x)"
    by (auto simp: bind_accepts)
  also have "\<dots> \<longleftrightarrow> ok' y \<and> s = enc (g y) @ r"
  proof
    assume "\<exists>x. ok x \<and> s = enc x @ r \<and> y = f x"
    then show "ok' y \<and> s = enc (g y) @ r" using assms(1,2) by auto
  next
    assume "ok' y \<and> s = enc (g y) @ r"
    then show "\<exists>x. ok x \<and> s = enc x @ r \<and> y = f x" using assms(3,4) by (intro exI [of _ "g y"]) simp
  qed
  finally show ?thesis .
qed

end

lemma take_accepts: "rd_take n s = Inr (x, r) \<longleftrightarrow> length x = n \<and> s = x @ r"
  by (auto simp: rd_take_def)

interpretation u8: codec "\<lambda>b. [b]" rd_u8 "\<lambda>_. True"
proof
  fix s and x :: u8 and r
  have "rd_u8 s = Inr (x, r) \<longleftrightarrow> (\<exists>v. length v = 1 \<and> s = v @ r \<and> x = v ! 0)"
    by (auto simp: rd_u8_def rd_bind_Inr take_accepts)
  also have "\<dots> \<longleftrightarrow> s = [x] @ r" by (auto simp: length_Suc_conv)
  finally show "rd_u8 s = Inr (x, r) \<longleftrightarrow> True \<and> s = [x] @ r" by simp
qed

text \<open>A byte string of \<open>k\<close> bytes is the little-endian image of exactly one number below \<open>256 ^ k\<close>.\<close>

lemma le_put_get: "le_put (length v) (le_get v) = v"
proof (induction v)
  case (Cons b v)
  have "unat b < 256" using unat_bound [of b] by simp
  then show ?case using Cons by simp
qed simp

lemma le_word_accepts:
  assumes "LENGTH('a) = 8 * k"
  shows "(\<exists>v. length v = k \<and> s = v @ r \<and> (x :: 'a::len word) = of_nat (le_get v)) \<longleftrightarrow> s = le_put k (unat x) @ r"
proof -
  have pow: "(256 :: nat) ^ k = 2 ^ LENGTH('a)" by (simp add: assms power_mult)
  have "le_put k (unat (of_nat (le_get v) :: 'a word)) = v" if "length v = k" for v
  proof -
    have "le_get v < 2 ^ LENGTH('a)" using le_get_less [of v] that pow by simp
    then have "unat (of_nat (le_get v) :: 'a word) = le_get v" by (simp add: unat_of_nat)
    then show ?thesis using le_put_get [of v] that by simp
  qed
  moreover have "le_get (le_put k (unat x)) = unat x"
    using unat_bound [of x] pow by (intro le_get_put) simp
  moreover have "of_nat (unat x) = x" by simp
  ultimately show ?thesis by (metis length_le_put)
qed

interpretation u16: codec le_u16 rd_u16 "\<lambda>_. True"
proof
  show "rd_u16 s = Inr (x, r) \<longleftrightarrow> True \<and> s = le_u16 x @ r" for s x r
    using le_word_accepts [where 'a = 16 and k = 2] by (auto simp: rd_u16_def rd_bind_Inr take_accepts le_u16_def)
qed

interpretation u32: codec le_u32 rd_u32 "\<lambda>_. True"
proof
  show "rd_u32 s = Inr (x, r) \<longleftrightarrow> True \<and> s = le_u32 x @ r" for s x r
    using le_word_accepts [where 'a = 32 and k = 4] by (auto simp: rd_u32_def rd_bind_Inr take_accepts le_u32_def)
qed

interpretation u64: codec le_u64 rd_u64 "\<lambda>_. True"
proof
  show "rd_u64 s = Inr (x, r) \<longleftrightarrow> True \<and> s = le_u64 x @ r" for s x r
    using le_word_accepts [where 'a = 64 and k = 8] by (auto simp: rd_u64_def rd_bind_Inr take_accepts le_u64_def)
qed

lemma sint_of_int_i64: "in_i64 x \<Longrightarrow> sint (of_int x :: u64) = x"
  by (simp add: in_i64_def signed_of_int signed_take_bit_int_eq_self)

lemma in_i64_sint: "in_i64 (sint (w :: u64))"
  using sint_greater_eq [of w] sint_less [of w] by (simp add: in_i64_def)

interpretation i64: codec i64_bytes rd_i64 in_i64
proof
  fix s x r
  show "rd_i64 s = Inr (x, r) \<longleftrightarrow> in_i64 x \<and> s = i64_bytes x @ r"
    unfolding rd_i64_def i64_bytes_def
    by (rule u64.mapped_accepts) (auto simp: in_i64_sint sint_of_int_i64)
qed

lemma char_byte_of: "char_byte (char_of (unat b)) = b"
proof -
  have "unat b < 256" using unat_bound [of b] by simp
  then show ?thesis by (simp add: char_byte_def)
qed

lemma str_bytes_str [simp]: "str_bytes (bytes_str v) = v"
  by (induction v) (simp_all add: str_bytes_def bytes_str_def char_byte_of)

lemma bytes_str_bytes [simp]: "bytes_str (str_bytes v) = v"
  by (induction v) (simp_all add: str_bytes_def bytes_str_def unat_char_byte)

lemma length_bytes_str [simp]: "length (bytes_str v) = length v"
  by (simp add: bytes_str_def)

text \<open>A string field, for any bound that its 16-bit length can express.\<close>

lemma codec_string: "m < 2 ^ 16 \<Longrightarrow> codec appendString (rd_string m) (\<lambda>v. length v \<le> m)"
proof
  fix s x r
  assume m: "m < 2 ^ 16"
  have len: "unat (of_nat (length x) :: u16) = length x" if "length x \<le> m" for x :: string
    using that m by (simp add: unat_of_nat)
  have "rd_string m s = Inr (x, r) \<longleftrightarrow>
      (\<exists>n v. s = le_u16 n @ v @ r \<and> unat n \<le> m \<and> length v = unat n \<and> x = bytes_str v)"
    by (auto simp: rd_string_def u16.accepts rd_guard_Inr rd_bind_Inr take_accepts not_less)
  also have "\<dots> \<longleftrightarrow> length x \<le> m \<and> s = appendString x @ r"
  proof
    assume "\<exists>n v. s = le_u16 n @ v @ r \<and> unat n \<le> m \<and> length v = unat n \<and> x = bytes_str v"
    then obtain n v where v: "s = le_u16 n @ v @ r" "unat n \<le> m" "length v = unat n" "x = bytes_str v" by blast
    then show "length x \<le> m \<and> s = appendString x @ r" by (simp add: appendString_def)
  next
    assume "length x \<le> m \<and> s = appendString x @ r"
    then show "\<exists>n v. s = le_u16 n @ v @ r \<and> unat n \<le> m \<and> length v = unat n \<and> x = bytes_str v"
      using len by (intro exI [of _ "of_nat (length x)"] exI [of _ "str_bytes x"]) (simp add: appendString_def)
  qed
  finally show "rd_string m s = Inr (x, r) \<longleftrightarrow> length x \<le> m \<and> s = appendString x @ r" .
qed

interpretation str128: codec appendString "rd_string 128" "\<lambda>v. length v \<le> 128"
  by (rule codec_string) simp

interpretation str256: codec appendString "rd_string 256" "\<lambda>v. length v \<le> 256"
  by (rule codec_string) simp

lemma codec_take: "codec (\<lambda>b. b) (rd_take n) (\<lambda>b. length b = n)"
  by unfold_locales (rule take_accepts)

interpretation take16: codec "\<lambda>b. b" "rd_take 16" "\<lambda>b. length b = 16"
  by (rule codec_take)

interpretation take32: codec "\<lambda>b. b" "rd_take 32" "\<lambda>b. length b = 32"
  by (rule codec_take)

lemma bind_take_accepts [wire_simps]:
  "rd_bind (rd_take n) f s = Inr (y, r) \<longleftrightarrow> (\<exists>x s'. length x = n \<and> s = x @ s' \<and> f x s' = Inr (y, r))"
  by (rule codec.bind_accepts [OF codec_take])

lemma bind_optional_accepts:
  "codec enc p ok \<Longrightarrow> rd_bind (rd_optional present zero p) f s = Inr (y, r) \<longleftrightarrow>
     (\<exists>v s'. opt_ok present zero ok v \<and> s = append_optional enc v @ s' \<and> f v s' = Inr (y, r))"
  by (auto simp: rd_bind_Inr codec.optional_accepts)

lemmas bind_optionals [wire_simps] =
  bind_optional_accepts [OF str256.codec_axioms] bind_optional_accepts [OF i64.codec_axioms]
  bind_optional_accepts [OF take16.codec_axioms] bind_optional_accepts [OF take32.codec_axioms]

lemmas bind_codecs [wire_simps] =
  u8.bind_accepts u16.bind_accepts u32.bind_accepts u64.bind_accepts i64.bind_accepts
  str128.bind_accepts str256.bind_accepts

lemma bind_optional_run:
  "codec enc p ok \<Longrightarrow> opt_ok present zero ok v \<Longrightarrow>
     rd_bind (rd_optional present zero p) f (append_optional enc v @ r) = f v r"
proof -
  assume c: "codec enc p ok" and v: "opt_ok present zero ok v"
  then have "rd_optional present zero p (append_optional enc v @ r) = Inr (v, r)"
    by (simp add: codec.optional_accepts [OF c])
  then show ?thesis by (simp add: rd_bind_def)
qed

lemma bind_take_run: "length b = n \<Longrightarrow> rd_bind (rd_take n) f (b @ r) = f b r"
  by (rule codec.bind_run [OF codec_take])

lemma bind_u8_run: "rd_bind rd_u8 f (b # r) = f b r"
  using u8.bind_run [where x = b and f = f and r = r] by simp

lemmas run_codecs [run_simps] =
  bind_u8_run u16.bind_run [OF TrueI] u32.bind_run [OF TrueI] u64.bind_run [OF TrueI] i64.bind_run str128.bind_run str256.bind_run
  bind_optional_run [OF str256.codec_axioms] bind_optional_run [OF i64.codec_axioms]
  bind_optional_run [OF take16.codec_axioms] bind_optional_run [OF take32.codec_axioms] bind_take_run

lemma length_append_optional:
  "length (append_optional enc v) = (if o_valid v then length (enc (o_value v)) else 0)"
  by (simp add: append_optional_def)

lemma length_appendString [simp]: "length (appendString v) = 2 + length v"
  by (simp add: appendString_def)

lemma length_i64_bytes [simp]: "length (i64_bytes v) = 8"
  by (simp add: i64_bytes_def)

subsection \<open>CRC-32C\<close>

text \<open>\<open>hash/crc32\<close> with the Castagnoli table, bit by bit on the reflected polynomial.\<close>

definition crc32c_shift :: "u32 \<Rightarrow> u32" where
  "crc32c_shift c = (if bit c 0 then (drop_bit 1 c) XOR 0x82F63B78 else drop_bit 1 c)"

definition crc32c_byte :: "u32 \<Rightarrow> u8 \<Rightarrow> u32" where
  "crc32c_byte c b = (crc32c_shift ^^ 8) (c XOR ucast b)"

definition crc32c :: "bytes \<Rightarrow> u32" where
  "crc32c bs = (foldl crc32c_byte 0xFFFFFFFF bs) XOR 0xFFFFFFFF"

text \<open>A published value of CRC-32C: the checksum of the text a.\<close>

lemma crc32c_vector: "crc32c (str_bytes ''a'') = 0xC1D04330"
  by code_simp

subsection \<open>Slices\<close>

text \<open>\<open>s[a:b]\<close> within bounds, and overwriting in place.\<close>

definition slice :: "nat \<Rightarrow> nat \<Rightarrow> bytes \<Rightarrow> bytes" where
  "slice a b s = take (b - a) (drop a s)"

definition put_at :: "nat \<Rightarrow> bytes \<Rightarrow> bytes \<Rightarrow> bytes" where
  "put_at k v s = take k s @ v @ drop (k + length v) s"

lemma slice_append: "length p = a \<Longrightarrow> length v = b - a \<Longrightarrow> slice a b (p @ v @ t) = v"
  by (simp add: slice_def)

lemma put_at_append: "length p = k \<Longrightarrow> length v = length w \<Longrightarrow> put_at k v (p @ w @ t) = p @ v @ t"
  by (simp add: put_at_def)

lemma length_slice: "b \<le> length s \<Longrightarrow> length (slice a b s) = b - a"
  by (simp add: slice_def)

lemma slice_split: "a \<le> b \<Longrightarrow> b \<le> length s \<Longrightarrow> drop a s = slice a b s @ drop b s"
  unfolding slice_def by (metis append_take_drop_id drop_drop le_add_diff_inverse2)

lemma le_word_get:
  "length v = 2 \<Longrightarrow> le_u16 (of_nat (le_get v)) = v" "length v = 4 \<Longrightarrow> le_u32 (of_nat (le_get v)) = v"
  "length v = 8 \<Longrightarrow> le_u64 (of_nat (le_get v)) = v"
  using u16.accepts [of v "of_nat (le_get v)" "[]"] u32.accepts [of v "of_nat (le_get v)" "[]"] u64.accepts [of v "of_nat (le_get v)" "[]"]
  by (simp_all add: rd_u16_def rd_u32_def rd_u64_def rd_bind_def rd_take_def rd_return_def)

end
