(* ===== verification/Envelope.thy ===== *)
theory Envelope
  imports Wire
begin

text \<open>
  \<open>src/segment/format.go\<close>: the v1 capture envelope and its framing.  A Go
  \<open>[16]byte\<close> or \<open>[32]byte\<close> is a byte list whose length the predicate
  \<open>envelope_shape\<close> fixes, as it fixes the range of the \<open>int64\<close> fields; the
  optional fields are structs of a value and a flag, as in the code, so that an
  absent value may still carry bytes.  SHA-256 is the parameter \<open>sha\<close>.  The
  duration measurements do not affect the bytes and are left out.

  The lemmas show that the encoder and the decoder are inverse in both
  directions: every valid envelope is read back (with absent values cleared), and
  whatever the decoder accepts is the encoding of what it returns, so no two byte
  strings decode to the same envelope.
\<close>

subsection \<open>Constants and the envelope\<close>

definition FormatVersion :: u16 where "FormatVersion = 1"
definition EnvelopeVersion :: u16 where "EnvelopeVersion = 1"
definition RecordHeaderSize :: nat where "RecordHeaderSize = 16"
definition MaxPayloadBytes :: nat where "MaxPayloadBytes = 16777216"
definition MaxExtensionBytes :: nat where "MaxExtensionBytes = 65536"
definition MaxRecordBytes :: nat where "MaxRecordBytes = MaxPayloadBytes + MaxExtensionBytes + 4096"
definition minimumEncodedRecordBytes :: nat where
  "minimumEncodedRecordBytes = RecordHeaderSize + 40 + 4 * (2 + 1) + 4 + 32 + 4"

text \<open>The string bounds: 128 bytes for identifiers of sources, contracts, clocks and recorders, 256 for symbols and identities.\<close>

definition MaxSourceIDBytes :: nat where "MaxSourceIDBytes = 128"
definition MaxContractIDBytes :: nat where "MaxContractIDBytes = 128"
definition MaxSymbolBytes :: nat where "MaxSymbolBytes = 256"
definition MaxIdentityBytes :: nat where "MaxIdentityBytes = 256"
definition MaxClockEpochIDBytes :: nat where "MaxClockEpochIDBytes = 128"
definition MaxRecorderVersionBytes :: nat where "MaxRecorderVersionBytes = 128"

lemmas string_bounds = MaxSourceIDBytes_def MaxContractIDBytes_def MaxSymbolBytes_def MaxIdentityBytes_def
  MaxClockEpochIDBytes_def MaxRecorderVersionBytes_def

definition recordMagic :: bytes where "recordMagic = str_bytes ''EMR1''"

definition RecordKindWebSocket :: u8 where "RecordKindWebSocket = 1"
definition RecordKindREST :: u8 where "RecordKindREST = 2"
definition RecordKindControl :: u8 where "RecordKindControl = 3"

definition PayloadEncodingJSON :: u8 where "PayloadEncodingJSON = 1"
definition PayloadEncodingNone :: u8 where "PayloadEncodingNone = 4"

definition TimeResolutionAbsent :: u8 where "TimeResolutionAbsent = 0"
definition TimeResolutionSecond :: u8 where "TimeResolutionSecond = 4"

definition OutcomeObserved :: u8 where "OutcomeObserved = 1"
definition OutcomeDisconnected :: u8 where "OutcomeDisconnected = 8"

record envelope =
  e_kind :: u8
  e_source :: string
  e_channel :: string
  e_symbol :: "string optional"
  e_uid :: "string optional"
  e_conn :: "bytes optional"
  e_poll :: "bytes optional"
  e_arrival :: u64
  e_message :: u32
  e_scheduled :: "i64 optional"
  e_started :: "i64 optional"
  e_completed :: "i64 optional"
  e_exchange :: "i64 optional"
  e_resolution :: u8
  e_received :: i64
  e_clock :: string
  e_mono :: u64
  e_offset :: "i64 optional"
  e_uncertainty :: "i64 optional"
  e_sub :: "string optional"
  e_http :: "string optional"
  e_encoding :: u8
  e_payload :: bytes
  e_fingerprint :: "bytes optional"
  e_outcome :: u8
  e_recorder :: string
  e_ext :: bytes

abbreviation zero16 :: bytes where "zero16 \<equiv> replicate 16 0"
abbreviation zero32 :: bytes where "zero32 \<equiv> replicate 32 0"

text \<open>\<open>Envelope{}\<close>.\<close>

definition zero_envelope :: envelope where
  "zero_envelope = \<lparr>e_kind = 0, e_source = [], e_channel = [], e_symbol = \<lparr>o_value = [], o_valid = False\<rparr>,
     e_uid = \<lparr>o_value = [], o_valid = False\<rparr>, e_conn = \<lparr>o_value = zero16, o_valid = False\<rparr>,
     e_poll = \<lparr>o_value = zero16, o_valid = False\<rparr>, e_arrival = 0, e_message = 0,
     e_scheduled = \<lparr>o_value = 0, o_valid = False\<rparr>, e_started = \<lparr>o_value = 0, o_valid = False\<rparr>,
     e_completed = \<lparr>o_value = 0, o_valid = False\<rparr>, e_exchange = \<lparr>o_value = 0, o_valid = False\<rparr>,
     e_resolution = 0, e_received = 0, e_clock = [], e_mono = 0, e_offset = \<lparr>o_value = 0, o_valid = False\<rparr>,
     e_uncertainty = \<lparr>o_value = 0, o_valid = False\<rparr>, e_sub = \<lparr>o_value = [], o_valid = False\<rparr>,
     e_http = \<lparr>o_value = [], o_valid = False\<rparr>, e_encoding = 0, e_payload = [],
     e_fingerprint = \<lparr>o_value = zero32, o_valid = False\<rparr>, e_outcome = 0, e_recorder = [], e_ext = []\<rparr>"

text \<open>The presence bits, in the order of the iota list.\<close>

definition presenceNativeSymbol :: u16 where "presenceNativeSymbol = push_bit 0 1"
definition presenceInstrumentUID :: u16 where "presenceInstrumentUID = push_bit 1 1"
definition presenceConnectionEpoch :: u16 where "presenceConnectionEpoch = push_bit 2 1"
definition presencePollCycle :: u16 where "presencePollCycle = push_bit 3 1"
definition presenceScheduled :: u16 where "presenceScheduled = push_bit 4 1"
definition presenceRequestStarted :: u16 where "presenceRequestStarted = push_bit 5 1"
definition presenceRequestCompleted :: u16 where "presenceRequestCompleted = push_bit 6 1"
definition presenceExchangeTime :: u16 where "presenceExchangeTime = push_bit 7 1"
definition presenceClockOffset :: u16 where "presenceClockOffset = push_bit 8 1"
definition presenceClockUncertainty :: u16 where "presenceClockUncertainty = push_bit 9 1"
definition presenceSubscription :: u16 where "presenceSubscription = push_bit 10 1"
definition presenceHTTPState :: u16 where "presenceHTTPState = push_bit 11 1"
definition presenceSchemaFingerprint :: u16 where "presenceSchemaFingerprint = push_bit 12 1"

text \<open>The bits the decoder knows, \<open>(1 << 13) - 1\<close>.\<close>

definition knownPresence :: u16 where "knownPresence = push_bit 13 1 - 1"

lemmas presence_defs = presenceNativeSymbol_def presenceInstrumentUID_def presenceConnectionEpoch_def presencePollCycle_def
  presenceScheduled_def presenceRequestStarted_def presenceRequestCompleted_def presenceExchangeTime_def
  presenceClockOffset_def presenceClockUncertainty_def presenceSubscription_def presenceHTTPState_def
  presenceSchemaFingerprint_def

definition envelopePresence :: "envelope \<Rightarrow> u16" where
  "envelopePresence r =
     (if o_valid (e_symbol r) then presenceNativeSymbol else 0) OR
     (if o_valid (e_uid r) then presenceInstrumentUID else 0) OR
     (if o_valid (e_conn r) then presenceConnectionEpoch else 0) OR
     (if o_valid (e_poll r) then presencePollCycle else 0) OR
     (if o_valid (e_scheduled r) then presenceScheduled else 0) OR
     (if o_valid (e_started r) then presenceRequestStarted else 0) OR
     (if o_valid (e_completed r) then presenceRequestCompleted else 0) OR
     (if o_valid (e_exchange r) then presenceExchangeTime else 0) OR
     (if o_valid (e_offset r) then presenceClockOffset else 0) OR
     (if o_valid (e_uncertainty r) then presenceClockUncertainty else 0) OR
     (if o_valid (e_sub r) then presenceSubscription else 0) OR
     (if o_valid (e_http r) then presenceHTTPState else 0) OR
     (if o_valid (e_fingerprint r) then presenceSchemaFingerprint else 0)"

subsection \<open>Validation\<close>

definition validateEnvelope :: "envelope \<Rightarrow> bool" where
  "validateEnvelope r \<longleftrightarrow>
     \<not> (e_kind r < RecordKindWebSocket \<or> e_kind r > RecordKindControl) \<and>
     \<not> (e_encoding r < PayloadEncodingJSON \<or> e_encoding r > PayloadEncodingNone) \<and>
     \<not> (e_encoding r = PayloadEncodingNone \<and> length (e_payload r) \<noteq> 0) \<and>
     \<not> e_resolution r > TimeResolutionSecond \<and>
     \<not> o_valid (e_exchange r) \<noteq> (e_resolution r \<noteq> TimeResolutionAbsent) \<and>
     \<not> (e_outcome r < OutcomeObserved \<or> e_outcome r > OutcomeDisconnected) \<and>
     \<not> (e_source r = [] \<or> length (e_source r) > MaxSourceIDBytes) \<and>
     \<not> (e_channel r = [] \<or> length (e_channel r) > MaxContractIDBytes) \<and>
     \<not> (e_clock r = [] \<or> length (e_clock r) > MaxClockEpochIDBytes) \<and>
     \<not> (e_recorder r = [] \<or> length (e_recorder r) > MaxRecorderVersionBytes) \<and>
     \<not> length (e_payload r) > MaxPayloadBytes \<and>
     \<not> length (e_ext r) > MaxExtensionBytes \<and>
     \<not> (o_valid (e_symbol r) \<and> length (o_value (e_symbol r)) > MaxSymbolBytes) \<and>
     \<not> (o_valid (e_uid r) \<and> length (o_value (e_uid r)) > MaxIdentityBytes) \<and>
     \<not> (o_valid (e_sub r) \<and> length (o_value (e_sub r)) > MaxIdentityBytes) \<and>
     \<not> (o_valid (e_http r) \<and> length (o_value (e_http r)) > MaxIdentityBytes)"

subsection \<open>Encoding\<close>

definition optional_size :: "nat \<Rightarrow> 'a optional \<Rightarrow> nat" where
  "optional_size n v = (if o_valid v then n else 0)"

definition encoded_body_size :: "envelope \<Rightarrow> nat" where
  "encoded_body_size r =
     40 + (2 + length (e_source r)) + (2 + length (e_channel r)) +
     optional_size (2 + length (o_value (e_symbol r))) (e_symbol r) +
     optional_size (2 + length (o_value (e_uid r))) (e_uid r) +
     optional_size 16 (e_conn r) + optional_size 16 (e_poll r) +
     sum_list (map (optional_size 8) [e_scheduled r, e_started r, e_completed r, e_exchange r]) +
     (2 + length (e_clock r)) + optional_size 8 (e_offset r) + optional_size 8 (e_uncertainty r) +
     optional_size (2 + length (o_value (e_sub r))) (e_sub r) +
     optional_size (2 + length (o_value (e_http r))) (e_http r) +
     (4 + length (e_payload r) + 32) + optional_size 32 (e_fingerprint r) +
     (2 + length (e_recorder r)) + (4 + length (e_ext r))"

definition encodedRecordSize :: "envelope \<Rightarrow> seg_error + nat" where
  "encodedRecordSize r =
     (if \<not> validateEnvelope r then Inl ErrBounds
      else if encoded_body_size r > MaxRecordBytes - RecordHeaderSize then Inl ErrBounds
      else Inr (RecordHeaderSize + encoded_body_size r))"

definition body_fixed :: "u16 \<Rightarrow> envelope \<Rightarrow> bytes" where
  "body_fixed presence r =
     e_kind r # e_encoding r # e_resolution r # e_outcome r # le_u16 presence @ le_u16 0 @
     le_u64 (e_arrival r) @ le_u32 (e_message r) @ le_u32 0 @ i64_bytes (e_received r) @ le_u64 (e_mono r) @
     appendString (e_source r) @ appendString (e_channel r)"

definition body_identity :: "envelope \<Rightarrow> bytes" where
  "body_identity r =
     append_optional appendString (e_symbol r) @ append_optional appendString (e_uid r) @
     append_optional (\<lambda>b. b) (e_conn r) @ append_optional (\<lambda>b. b) (e_poll r)"

definition body_clocks :: "envelope \<Rightarrow> bytes" where
  "body_clocks r =
     append_optional i64_bytes (e_scheduled r) @ append_optional i64_bytes (e_started r) @
     append_optional i64_bytes (e_completed r) @ append_optional i64_bytes (e_exchange r) @
     appendString (e_clock r) @ append_optional i64_bytes (e_offset r) @ append_optional i64_bytes (e_uncertainty r)"

definition body_payload :: "(bytes \<Rightarrow> hash) \<Rightarrow> envelope \<Rightarrow> bytes" where
  "body_payload sha r =
     append_optional appendString (e_sub r) @ append_optional appendString (e_http r) @
     le_u32 (of_nat (length (e_payload r))) @ e_payload r @ sha (e_payload r) @
     append_optional (\<lambda>b. b) (e_fingerprint r) @ appendString (e_recorder r) @
     le_u32 (of_nat (length (e_ext r))) @ e_ext r"

definition record_body :: "(bytes \<Rightarrow> hash) \<Rightarrow> envelope \<Rightarrow> bytes" where
  "record_body sha r = body_fixed (envelopePresence r) r @ body_identity r @ body_clocks r @ body_payload sha r"

text \<open>The header is written with zero length and checksum, which are filled in once the body is there.\<close>

definition appendEncodedRecord :: "(bytes \<Rightarrow> hash) \<Rightarrow> bytes \<Rightarrow> envelope \<Rightarrow> bytes" where
  "appendEncodedRecord sha dst r =
     (let start = length dst;
          d = dst @ recordMagic @ le_u16 EnvelopeVersion @ le_u16 (of_nat RecordHeaderSize) @ le_u32 0 @ le_u32 0;
          bodyStart = length d;
          d = d @ record_body sha r;
          body = drop bodyStart d;
          d = put_at (start + 8) (le_u32 (of_nat (length body))) d
      in put_at (start + 12) (le_u32 (crc32c body)) d)"

definition encodeRecord :: "(bytes \<Rightarrow> hash) \<Rightarrow> envelope \<Rightarrow> seg_error + bytes" where
  "encodeRecord sha r = (case encodedRecordSize r of Inl e \<Rightarrow> Inl e | Inr _ \<Rightarrow> Inr (appendEncodedRecord sha [] r))"

definition MarshalEnvelope :: "(bytes \<Rightarrow> hash) \<Rightarrow> envelope \<Rightarrow> seg_error + bytes" where
  "MarshalEnvelope sha r = encodeRecord sha r"

definition AppendEnvelope :: "(bytes \<Rightarrow> hash) \<Rightarrow> bytes \<Rightarrow> envelope \<Rightarrow> bytes \<times> seg_error option" where
  "AppendEnvelope sha dst r =
     (case encodedRecordSize r of Inl e \<Rightarrow> (dst, Some e) | Inr _ \<Rightarrow> (appendEncodedRecord sha dst r, None))"

subsection \<open>Decoding\<close>

definition decode_identity :: "u16 \<Rightarrow> envelope \<Rightarrow> envelope reader" where
  "decode_identity presence r =
     rd_bind (rd_optional (presence AND presenceNativeSymbol \<noteq> 0) [] (rd_string MaxSymbolBytes)) (\<lambda>sym.
     rd_bind (rd_optional (presence AND presenceInstrumentUID \<noteq> 0) [] (rd_string MaxIdentityBytes)) (\<lambda>uid.
     rd_bind (rd_optional (presence AND presenceConnectionEpoch \<noteq> 0) zero16 (rd_take 16)) (\<lambda>conn.
     rd_bind (rd_optional (presence AND presencePollCycle \<noteq> 0) zero16 (rd_take 16)) (\<lambda>poll.
     rd_return (r\<lparr>e_symbol := sym, e_uid := uid, e_conn := conn, e_poll := poll\<rparr>)))))"

definition decode_clocks :: "u16 \<Rightarrow> envelope \<Rightarrow> envelope reader" where
  "decode_clocks presence r =
     rd_bind (rd_optional (presence AND presenceScheduled \<noteq> 0) 0 rd_i64) (\<lambda>scheduled.
     rd_bind (rd_optional (presence AND presenceRequestStarted \<noteq> 0) 0 rd_i64) (\<lambda>started.
     rd_bind (rd_optional (presence AND presenceRequestCompleted \<noteq> 0) 0 rd_i64) (\<lambda>completed.
     rd_bind (rd_optional (presence AND presenceExchangeTime \<noteq> 0) 0 rd_i64) (\<lambda>exchange.
     rd_bind (rd_string MaxClockEpochIDBytes) (\<lambda>clock.
     rd_bind (rd_optional (presence AND presenceClockOffset \<noteq> 0) 0 rd_i64) (\<lambda>offset.
     rd_bind (rd_optional (presence AND presenceClockUncertainty \<noteq> 0) 0 rd_i64) (\<lambda>uncertainty.
     rd_return (r\<lparr>e_scheduled := scheduled, e_started := started, e_completed := completed, e_exchange := exchange,
       e_clock := clock, e_offset := offset, e_uncertainty := uncertainty\<rparr>))))))))"

definition decode_payload :: "(bytes \<Rightarrow> hash) \<Rightarrow> u16 \<Rightarrow> envelope \<Rightarrow> envelope reader" where
  "decode_payload sha presence r =
     rd_bind (rd_optional (presence AND presenceSubscription \<noteq> 0) [] (rd_string MaxIdentityBytes)) (\<lambda>sub.
     rd_bind (rd_optional (presence AND presenceHTTPState \<noteq> 0) [] (rd_string MaxIdentityBytes)) (\<lambda>http.
     rd_bind rd_u32 (\<lambda>payloadLen.
     rd_guard (\<not> unat payloadLen > MaxPayloadBytes) ErrBounds (
     rd_bind (rd_take (unat payloadLen)) (\<lambda>payload.
     rd_bind (rd_take 32) (\<lambda>storedHash.
     rd_guard (storedHash = sha payload) ErrPayloadHash (
     rd_bind (rd_optional (presence AND presenceSchemaFingerprint \<noteq> 0) zero32 (rd_take 32)) (\<lambda>fingerprint.
     rd_bind (rd_string MaxRecorderVersionBytes) (\<lambda>recorder.
     rd_bind rd_u32 (\<lambda>extensionLen.
     rd_guard (\<not> unat extensionLen > MaxExtensionBytes) ErrBounds (
     rd_bind (rd_take (unat extensionLen)) (\<lambda>extensions.
     rd_return (r\<lparr>e_sub := sub, e_http := http, e_payload := payload, e_fingerprint := fingerprint,
       e_recorder := recorder, e_ext := extensions\<rparr>)))))))))))))"

definition decodeOptionalFields :: "(bytes \<Rightarrow> hash) \<Rightarrow> u16 \<Rightarrow> envelope \<Rightarrow> envelope reader" where
  "decodeOptionalFields sha presence r =
     rd_bind (decode_identity presence r) (\<lambda>r1. rd_bind (decode_clocks presence r1) (\<lambda>r2. decode_payload sha presence r2))"

definition decode_fixed :: "(u16 \<times> envelope) reader" where
  "decode_fixed =
     rd_bind rd_u8 (\<lambda>kind. rd_bind rd_u8 (\<lambda>encoding. rd_bind rd_u8 (\<lambda>resolution. rd_bind rd_u8 (\<lambda>outcome.
     rd_bind rd_u16 (\<lambda>presence.
     rd_guard (presence AND NOT knownPresence = 0) ErrVersion (
     rd_bind rd_u16 (\<lambda>reserved.
     rd_guard (reserved = 0) ErrVersion (
     rd_bind rd_u64 (\<lambda>arrival. rd_bind rd_u32 (\<lambda>message. rd_bind rd_u32 (\<lambda>reserved32.
     rd_guard (reserved32 = 0) ErrVersion (
     rd_bind rd_i64 (\<lambda>received. rd_bind rd_u64 (\<lambda>monotonic.
     rd_bind (rd_string MaxSourceIDBytes) (\<lambda>source. rd_bind (rd_string MaxContractIDBytes) (\<lambda>contract.
     rd_return (presence, zero_envelope\<lparr>e_kind := kind, e_encoding := encoding, e_resolution := resolution,
       e_outcome := outcome, e_arrival := arrival, e_message := message, e_received := received, e_mono := monotonic,
       e_source := source, e_channel := contract\<rparr>)))))))))))))))))"

definition decode_body :: "(bytes \<Rightarrow> hash) \<Rightarrow> envelope reader" where
  "decode_body sha = rd_bind decode_fixed (\<lambda>(presence, r). decodeOptionalFields sha presence r)"

definition decodeRecord :: "(bytes \<Rightarrow> hash) \<Rightarrow> bytes \<Rightarrow> seg_error + envelope \<times> nat" where
  "decodeRecord sha src =
     (if length src < RecordHeaderSize then Inl ErrTruncated
      else if slice 0 4 src \<noteq> recordMagic then Inl ErrCorrupt
      else if (of_nat (le_get (slice 4 6 src)) :: u16) \<noteq> EnvelopeVersion then Inl ErrVersion
      else if (of_nat (le_get (slice 6 8 src)) :: u16) \<noteq> of_nat RecordHeaderSize then Inl ErrVersion
      else let bodyLen = unat (of_nat (le_get (slice 8 12 src)) :: u32) in
        if bodyLen > MaxRecordBytes - RecordHeaderSize then Inl ErrBounds
        else let total = RecordHeaderSize + bodyLen in
          if length src < total then Inl ErrTruncated
          else let body = slice RecordHeaderSize total src in
            if crc32c body \<noteq> of_nat (le_get (slice 12 16 src)) then Inl ErrCorrupt
            else (case decode_body sha body of
                    Inl e \<Rightarrow> Inl e
                  | Inr (r, remaining) \<Rightarrow>
                      if \<not> validateEnvelope r then Inl ErrCorrupt
                      else if length remaining \<noteq> 0 then Inl ErrCorrupt
                      else Inr (r, total)))"

definition UnmarshalEnvelope :: "(bytes \<Rightarrow> hash) \<Rightarrow> bytes \<Rightarrow> seg_error + envelope" where
  "UnmarshalEnvelope sha data =
     (case decodeRecord sha data of
        Inl e \<Rightarrow> Inl e
      | Inr (r, consumed) \<Rightarrow> if consumed \<noteq> length data then Inl ErrCorrupt else Inr r)"

subsection \<open>Presence bits\<close>

lemma flag_bits [simp]:
  "p AND presenceNativeSymbol \<noteq> 0 \<longleftrightarrow> bit p 0" "p AND presenceInstrumentUID \<noteq> 0 \<longleftrightarrow> bit p 1"
  "p AND presenceConnectionEpoch \<noteq> 0 \<longleftrightarrow> bit p 2" "p AND presencePollCycle \<noteq> 0 \<longleftrightarrow> bit p 3"
  "p AND presenceScheduled \<noteq> 0 \<longleftrightarrow> bit p 4" "p AND presenceRequestStarted \<noteq> 0 \<longleftrightarrow> bit p 5"
  "p AND presenceRequestCompleted \<noteq> 0 \<longleftrightarrow> bit p 6" "p AND presenceExchangeTime \<noteq> 0 \<longleftrightarrow> bit p 7"
  "p AND presenceClockOffset \<noteq> 0 \<longleftrightarrow> bit p 8" "p AND presenceClockUncertainty \<noteq> 0 \<longleftrightarrow> bit p 9"
  "p AND presenceSubscription \<noteq> 0 \<longleftrightarrow> bit p 10" "p AND presenceHTTPState \<noteq> 0 \<longleftrightarrow> bit p 11"
  "p AND presenceSchemaFingerprint \<noteq> 0 \<longleftrightarrow> bit p 12"
  unfolding presence_defs push_bit_eq_mult mult_1 by (simp_all only: and_exp_eq_0_iff_not_bit not_not)

lemma bit_flag: "bit ((if b then push_bit i 1 else 0) :: u16) k \<longleftrightarrow> b \<and> i = k \<and> k < 16"
  by (auto simp: bit_simps)

lemma bit_presence:
  "bit (envelopePresence r) k \<longleftrightarrow> k < 16 \<and> (o_valid (e_symbol r) \<and> 0 = k \<or> o_valid (e_uid r) \<and> 1 = k \<or>
     o_valid (e_conn r) \<and> 2 = k \<or> o_valid (e_poll r) \<and> 3 = k \<or> o_valid (e_scheduled r) \<and> 4 = k \<or>
     o_valid (e_started r) \<and> 5 = k \<or> o_valid (e_completed r) \<and> 6 = k \<or> o_valid (e_exchange r) \<and> 7 = k \<or>
     o_valid (e_offset r) \<and> 8 = k \<or> o_valid (e_uncertainty r) \<and> 9 = k \<or> o_valid (e_sub r) \<and> 10 = k \<or>
     o_valid (e_http r) \<and> 11 = k \<or> o_valid (e_fingerprint r) \<and> 12 = k)"
  unfolding envelopePresence_def presence_defs bit_or_iff bit_flag by (cases "k < 16") simp_all

lemma presence_bits [simp]:
  "bit (envelopePresence r) 0 = o_valid (e_symbol r)" "bit (envelopePresence r) (Suc 0) = o_valid (e_uid r)"
  "bit (envelopePresence r) 2 = o_valid (e_conn r)" "bit (envelopePresence r) 3 = o_valid (e_poll r)"
  "bit (envelopePresence r) 4 = o_valid (e_scheduled r)" "bit (envelopePresence r) 5 = o_valid (e_started r)"
  "bit (envelopePresence r) 6 = o_valid (e_completed r)" "bit (envelopePresence r) 7 = o_valid (e_exchange r)"
  "bit (envelopePresence r) 8 = o_valid (e_offset r)" "bit (envelopePresence r) 9 = o_valid (e_uncertainty r)"
  "bit (envelopePresence r) 10 = o_valid (e_sub r)" "bit (envelopePresence r) 11 = o_valid (e_http r)"
  "bit (envelopePresence r) 12 = o_valid (e_fingerprint r)"
  by (simp_all add: bit_presence)

text \<open>No bit above the twelfth is known: the mask of the decoder.\<close>

lemma low_bits_iff: "(p :: u16) AND NOT knownPresence = 0 \<longleftrightarrow> (\<forall>k. bit p k \<longrightarrow> k < 13)"
proof -
  have known: "knownPresence = mask 13" by (simp add: knownPresence_def mask_eq_exp_minus_1)
  have "p AND NOT (mask 13) = 0 \<longleftrightarrow> (\<forall>k < 16. \<not> bit (p AND NOT (mask 13)) k)" by (simp add: bit_eq_iff)
  also have "\<dots> \<longleftrightarrow> (\<forall>k < 16. bit p k \<longrightarrow> k < 13)" by (auto simp: bit_and_iff bit_not_iff bit_mask_iff)
  also have "\<dots> \<longleftrightarrow> (\<forall>k. bit p k \<longrightarrow> k < 13)" using bit_imp_le_length [of p] by auto
  finally have "p AND NOT (mask 13) = 0 \<longleftrightarrow> (\<forall>k. bit p k \<longrightarrow> k < 13)" .
  then show ?thesis unfolding known .
qed

lemma presence_known [simp]: "envelopePresence r AND NOT knownPresence = 0"
  by (auto simp: low_bits_iff bit_presence)
lemma upto_13: "(k :: nat) < 13 \<longleftrightarrow> k \<in> {0, Suc 0, 2, 3, 4, 5, 6, 7, 8, 9, 10, 11, 12}"
  unfolding insert_iff empty_iff by presburger

lemma presence_unique:
  assumes "p AND NOT knownPresence = 0" "\<forall>k \<in> {0, Suc 0, 2, 3, 4, 5, 6, 7, 8, 9, 10, 11, 12}. bit p k = bit (envelopePresence r) k"
  shows "envelopePresence r = p"
proof (rule bit_eqI)
  fix k
  show "bit (envelopePresence r) k = bit p k"
  proof (cases "k < 13")
    case True
    then show ?thesis using assms(2) unfolding upto_13 by blast
  next
    case False
    then show ?thesis using assms(1) presence_known [of r] unfolding low_bits_iff by auto
  qed
qed

subsection \<open>Reading the body\<close>

text \<open>What each part of the body admits, for the presence bits it is read under.\<close>

definition identity_ok :: "u16 \<Rightarrow> envelope \<Rightarrow> bool" where
  "identity_ok p r \<longleftrightarrow> opt_ok (bit p 0) [] (\<lambda>v. length v \<le> 256) (e_symbol r) \<and>
     opt_ok (bit p 1) [] (\<lambda>v. length v \<le> 256) (e_uid r) \<and>
     opt_ok (bit p 2) zero16 (\<lambda>v. length v = 16) (e_conn r) \<and> opt_ok (bit p 3) zero16 (\<lambda>v. length v = 16) (e_poll r)"

definition clocks_ok :: "u16 \<Rightarrow> envelope \<Rightarrow> bool" where
  "clocks_ok p r \<longleftrightarrow> opt_ok (bit p 4) 0 in_i64 (e_scheduled r) \<and> opt_ok (bit p 5) 0 in_i64 (e_started r) \<and>
     opt_ok (bit p 6) 0 in_i64 (e_completed r) \<and> opt_ok (bit p 7) 0 in_i64 (e_exchange r) \<and>
     length (e_clock r) \<le> 128 \<and> opt_ok (bit p 8) 0 in_i64 (e_offset r) \<and> opt_ok (bit p 9) 0 in_i64 (e_uncertainty r)"

definition payload_ok :: "u16 \<Rightarrow> envelope \<Rightarrow> bool" where
  "payload_ok p r \<longleftrightarrow> opt_ok (bit p 10) [] (\<lambda>v. length v \<le> 256) (e_sub r) \<and>
     opt_ok (bit p 11) [] (\<lambda>v. length v \<le> 256) (e_http r) \<and> length (e_payload r) \<le> MaxPayloadBytes \<and>
     opt_ok (bit p 12) zero32 (\<lambda>v. length v = 32) (e_fingerprint r) \<and> length (e_recorder r) \<le> 128 \<and>
     length (e_ext r) \<le> MaxExtensionBytes"

definition fixed_ok :: "envelope \<Rightarrow> bool" where
  "fixed_ok r \<longleftrightarrow> in_i64 (e_received r) \<and> length (e_source r) \<le> 128 \<and> length (e_channel r) \<le> 128"

lemma u32_length: "n \<le> MaxPayloadBytes \<Longrightarrow> unat (of_nat n :: u32) = n" "n \<le> MaxExtensionBytes \<Longrightarrow> unat (of_nat n :: u32) = n"
  by (simp_all add: MaxPayloadBytes_def MaxExtensionBytes_def unat_of_nat_u32)

lemma decode_identity_run:
  "identity_ok p x \<Longrightarrow> decode_identity p r (body_identity x @ t) =
     Inr (r\<lparr>e_symbol := e_symbol x, e_uid := e_uid x, e_conn := e_conn x, e_poll := e_poll x\<rparr>, t)"
  by (simp add: decode_identity_def body_identity_def identity_ok_def string_bounds run_simps)

lemma decode_clocks_run:
  "clocks_ok p x \<Longrightarrow> decode_clocks p r (body_clocks x @ t) =
     Inr (r\<lparr>e_scheduled := e_scheduled x, e_started := e_started x, e_completed := e_completed x, e_exchange := e_exchange x,
       e_clock := e_clock x, e_offset := e_offset x, e_uncertainty := e_uncertainty x\<rparr>, t)"
  by (simp add: decode_clocks_def body_clocks_def clocks_ok_def string_bounds run_simps)

lemma decode_payload_run:
  assumes "payload_ok p x" "length (sha (e_payload x)) = 32"
  shows "decode_payload sha p r (body_payload sha x @ t) =
     Inr (r\<lparr>e_sub := e_sub x, e_http := e_http x, e_payload := e_payload x, e_fingerprint := e_fingerprint x,
       e_recorder := e_recorder x, e_ext := e_ext x\<rparr>, t)"
  using assms
  by (simp add: decode_payload_def body_payload_def payload_ok_def string_bounds run_simps rd_guard_def u32_length)

lemma decode_fixed_run:
  "fixed_ok x \<Longrightarrow> p AND NOT knownPresence = 0 \<Longrightarrow> decode_fixed (body_fixed p x @ t) =
     Inr ((p, zero_envelope\<lparr>e_kind := e_kind x, e_encoding := e_encoding x, e_resolution := e_resolution x,
       e_outcome := e_outcome x, e_arrival := e_arrival x, e_message := e_message x, e_received := e_received x,
       e_mono := e_mono x, e_source := e_source x, e_channel := e_channel x\<rparr>), t)"
  by (simp add: decode_fixed_def body_fixed_def fixed_ok_def string_bounds run_simps rd_guard_def)

text \<open>Conversely, what a part reads is the encoding of what it returns.\<close>

lemma decode_identity_inv:
  assumes "decode_identity p r s = Inr (r', t)"
  shows "identity_ok p r' \<and> s = body_identity r' @ t \<and>
    (\<exists>a b c d. r' = r\<lparr>e_symbol := a, e_uid := b, e_conn := c, e_poll := d\<rparr>)"
  using assms unfolding decode_identity_def string_bounds
  by (auto simp add: wire_simps body_identity_def identity_ok_def)

lemma decode_clocks_inv:
  assumes "decode_clocks p r s = Inr (r', t)"
  shows "clocks_ok p r' \<and> s = body_clocks r' @ t \<and>
    (\<exists>a b c d f g h. r' = r\<lparr>e_scheduled := a, e_started := b, e_completed := c, e_exchange := d, e_clock := f,
       e_offset := g, e_uncertainty := h\<rparr>)"
  using assms unfolding decode_clocks_def string_bounds
  by (auto simp add: wire_simps body_clocks_def clocks_ok_def) ((intro exI, rule refl)+)

lemma decode_payload_inv:
  assumes "decode_payload sha p r s = Inr (r', t)"
  shows "payload_ok p r' \<and> s = body_payload sha r' @ t \<and>
    (\<exists>a b c d f g. r' = r\<lparr>e_sub := a, e_http := b, e_payload := c, e_fingerprint := d, e_recorder := f, e_ext := g\<rparr>)"
  using assms unfolding decode_payload_def string_bounds
  by (auto simp add: wire_simps body_payload_def payload_ok_def not_less) ((intro exI, rule refl)+)

lemma decode_fixed_inv:
  assumes "decode_fixed s = Inr ((p, r), t)"
  shows "fixed_ok r \<and> s = body_fixed p r @ t \<and> p AND NOT knownPresence = 0 \<and>
    (\<exists>k n l u a m v w c d. r = zero_envelope\<lparr>e_kind := k, e_encoding := n, e_resolution := l, e_outcome := u, e_arrival := a,
       e_message := m, e_received := v, e_mono := w, e_source := c, e_channel := d\<rparr>)"
  using assms unfolding decode_fixed_def string_bounds
  by (auto simp add: wire_simps body_fixed_def fixed_ok_def) ((intro exI, rule refl)+)

lemma decode_body_run:
  assumes "fixed_ok x" "identity_ok (envelopePresence x) x" "clocks_ok (envelopePresence x) x" "payload_ok (envelopePresence x) x"
    and "length (sha (e_payload x)) = 32"
  shows "decode_body sha (record_body sha x @ t) = Inr (x, t)"
proof -
  have "decode_body sha (record_body sha x @ t) = Inr (zero_envelope\<lparr>e_kind := e_kind x, e_encoding := e_encoding x,
       e_resolution := e_resolution x, e_outcome := e_outcome x, e_arrival := e_arrival x, e_message := e_message x,
       e_received := e_received x, e_mono := e_mono x, e_source := e_source x, e_channel := e_channel x,
       e_symbol := e_symbol x, e_uid := e_uid x, e_conn := e_conn x, e_poll := e_poll x,
       e_scheduled := e_scheduled x, e_started := e_started x, e_completed := e_completed x, e_exchange := e_exchange x,
       e_clock := e_clock x, e_offset := e_offset x, e_uncertainty := e_uncertainty x,
       e_sub := e_sub x, e_http := e_http x, e_payload := e_payload x, e_fingerprint := e_fingerprint x,
       e_recorder := e_recorder x, e_ext := e_ext x\<rparr>, t)"
    using assms
    by (simp add: decode_body_def decodeOptionalFields_def record_body_def rd_bind_def decode_fixed_run decode_identity_run
        decode_clocks_run decode_payload_run)
  also have "\<dots> = Inr (x, t)" by (cases x) (simp add: zero_envelope_def)
  finally show ?thesis .
qed

lemma decode_body_inv:
  assumes "decode_body sha s = Inr (r, t)"
  shows "fixed_ok r \<and> identity_ok (envelopePresence r) r \<and> clocks_ok (envelopePresence r) r \<and>
    payload_ok (envelopePresence r) r \<and> s = record_body sha r @ t"
proof -
  obtain p r0 s0 r1 s1 r2 s2 where steps: "decode_fixed s = Inr ((p, r0), s0)" "decode_identity p r0 s0 = Inr (r1, s1)"
    "decode_clocks p r1 s1 = Inr (r2, s2)" "decode_payload sha p r2 s2 = Inr (r, t)"
    using assms by (auto simp: decode_body_def decodeOptionalFields_def rd_bind_Inr)
  note inv = decode_fixed_inv [OF steps(1)] decode_identity_inv [OF steps(2)] decode_clocks_inv [OF steps(3)]
    decode_payload_inv [OF steps(4)]
  obtain a b c d where r1: "r1 = r0\<lparr>e_symbol := a, e_uid := b, e_conn := c, e_poll := d\<rparr>" using inv(2) by blast
  obtain a b c d f g h where r2: "r2 = r1\<lparr>e_scheduled := a, e_started := b, e_completed := c, e_exchange := d, e_clock := f,
       e_offset := g, e_uncertainty := h\<rparr>" using inv(3) by blast
  obtain a b c d f g where r: "r = r2\<lparr>e_sub := a, e_http := b, e_payload := c, e_fingerprint := d, e_recorder := f, e_ext := g\<rparr>"
    using inv(4) by blast
  have ok: "fixed_ok r" "identity_ok p r" "clocks_ok p r" "payload_ok p r" and p: "p AND NOT knownPresence = 0"
    using inv by (simp_all add: r r2 r1 fixed_ok_def identity_ok_def clocks_ok_def)
  have "envelopePresence r = p"
    by (rule presence_unique [OF p]) (use ok in \<open>simp add: identity_ok_def clocks_ok_def payload_ok_def opt_ok_def\<close>)
  moreover have "body_fixed p r0 = body_fixed p r" "body_identity r1 = body_identity r" "body_clocks r2 = body_clocks r"
    by (simp_all add: r r2 r1 body_fixed_def body_identity_def body_clocks_def)
  ultimately show ?thesis using ok inv by (simp add: record_body_def)
qed

subsection \<open>Framing\<close>

text \<open>The Go types: fixed arrays and \<open>int64\<close> ranges.\<close>

definition envelope_shape :: "envelope \<Rightarrow> bool" where
  "envelope_shape r \<longleftrightarrow> length (o_value (e_conn r)) = 16 \<and> length (o_value (e_poll r)) = 16 \<and>
     length (o_value (e_fingerprint r)) = 32 \<and> in_i64 (e_received r) \<and>
     list_all (\<lambda>v. in_i64 (o_value v)) [e_scheduled r, e_started r, e_completed r, e_exchange r, e_offset r, e_uncertainty r]"

definition clear :: "'a \<Rightarrow> 'a optional \<Rightarrow> 'a optional" where
  "clear zero v = (if o_valid v then v else \<lparr>o_value = zero, o_valid = False\<rparr>)"

text \<open>An envelope with the values of absent fields cleared.\<close>

definition canonical :: "envelope \<Rightarrow> envelope" where
  "canonical r = r\<lparr>e_symbol := clear [] (e_symbol r), e_uid := clear [] (e_uid r), e_conn := clear zero16 (e_conn r),
     e_poll := clear zero16 (e_poll r), e_scheduled := clear 0 (e_scheduled r), e_started := clear 0 (e_started r),
     e_completed := clear 0 (e_completed r), e_exchange := clear 0 (e_exchange r), e_offset := clear 0 (e_offset r),
     e_uncertainty := clear 0 (e_uncertainty r), e_sub := clear [] (e_sub r), e_http := clear [] (e_http r),
     e_fingerprint := clear zero32 (e_fingerprint r)\<rparr>"

lemma clear_simps [simp]: "o_valid (clear z v) = o_valid v" "append_optional enc (clear z v) = append_optional enc v"
  by (simp_all add: clear_def append_optional_def)

lemma clear_value [simp]: "o_value (clear z v) = (if o_valid v then o_value v else z)"
  by (simp add: clear_def)

lemma clear_ok: "opt_ok (o_valid v) z ok (clear z v) \<longleftrightarrow> (if o_valid v then ok (o_value v) else True)"
  by (simp add: opt_ok_def clear_def)

lemma ok_cleared: "opt_ok p z ok v \<Longrightarrow> clear z v = v"
  by (cases v) (auto simp: opt_ok_def clear_def)

lemma presence_canonical [simp]: "envelopePresence (canonical r) = envelopePresence r"
  by (simp add: envelopePresence_def canonical_def)

lemma record_body_canonical: "record_body sha (canonical r) = record_body sha r"
  by (simp add: record_body_def body_identity_def body_clocks_def body_payload_def body_fixed_def)
    (simp add: canonical_def)

lemma validateEnvelope_canonical: "validateEnvelope (canonical r) = validateEnvelope r"
  by (auto simp add: validateEnvelope_def canonical_def)

lemma valid_bounds:
  assumes "validateEnvelope r"
  shows "length (e_source r) \<le> 128" "length (e_channel r) \<le> 128" "length (e_clock r) \<le> 128" "length (e_recorder r) \<le> 128"
    "length (e_payload r) \<le> MaxPayloadBytes" "length (e_ext r) \<le> MaxExtensionBytes"
    "o_valid (e_symbol r) \<Longrightarrow> length (o_value (e_symbol r)) \<le> 256" "o_valid (e_uid r) \<Longrightarrow> length (o_value (e_uid r)) \<le> 256"
    "o_valid (e_sub r) \<Longrightarrow> length (o_value (e_sub r)) \<le> 256" "o_valid (e_http r) \<Longrightarrow> length (o_value (e_http r)) \<le> 256"
  using assms by (simp_all add: validateEnvelope_def string_bounds)

lemma canonical_ok:
  assumes "envelope_shape r" "validateEnvelope r"
  shows "fixed_ok (canonical r) \<and> identity_ok (envelopePresence r) (canonical r) \<and>
    clocks_ok (envelopePresence r) (canonical r) \<and> payload_ok (envelopePresence r) (canonical r)"
  using assms(1) valid_bounds [OF assms(2)]
  by (simp add: envelope_shape_def fixed_ok_def identity_ok_def clocks_ok_def payload_ok_def canonical_def clear_ok)

lemma opt_length: "opt_ok p z (\<lambda>b. length b = n) v \<Longrightarrow> length z = n \<Longrightarrow> length (o_value v) = n"
  by (auto simp: opt_ok_def split: if_splits)

lemma opt_i64: "opt_ok p 0 in_i64 v \<Longrightarrow> in_i64 (o_value v)"
  by (auto simp: opt_ok_def in_i64_def split: if_splits)

lemma decoded_canonical:
  assumes "fixed_ok r" "identity_ok p r" "clocks_ok p r" "payload_ok p r"
  shows "canonical r = r" "envelope_shape r"
proof -
  show "canonical r = r"
    using assms by (cases r) (auto simp: canonical_def identity_ok_def clocks_ok_def payload_ok_def intro: ok_cleared)
  show "envelope_shape r"
    using assms by (auto simp: envelope_shape_def fixed_ok_def identity_ok_def clocks_ok_def payload_ok_def intro: opt_length opt_i64)
qed

text \<open>
  The size computed before the encoding is its length, and the bound on the body
  is never reached by a valid envelope: the bounds on the fields imply it.
\<close>

lemma length_optional_fields:
  "length (append_optional appendString v) = optional_size (2 + length (o_value v)) v"
  "length (append_optional i64_bytes t) = optional_size 8 t"
  "length (append_optional (\<lambda>b. b) w) = optional_size (length (o_value w)) w"
  by (simp_all add: append_optional_def optional_size_def)

lemma length_record_body:
  assumes "envelope_shape r" "length (sha (e_payload r)) = 32"
  shows "length (record_body sha r) = encoded_body_size r"
  using assms
  by (simp add: record_body_def body_fixed_def body_identity_def body_clocks_def body_payload_def encoded_body_size_def
      length_optional_fields envelope_shape_def)

lemma optional_size_le: "optional_size n v \<le> n"
  by (simp add: optional_size_def)

lemma valid_body_fits:
  assumes "validateEnvelope r"
  shows "encoded_body_size r \<le> MaxRecordBytes - RecordHeaderSize"
proof -
  note len = valid_bounds [OF assms, unfolded MaxPayloadBytes_def MaxExtensionBytes_def]
  have texts: "optional_size (2 + length (o_value (e_symbol r))) (e_symbol r) \<le> 258"
    "optional_size (2 + length (o_value (e_uid r))) (e_uid r) \<le> 258"
    "optional_size (2 + length (o_value (e_sub r))) (e_sub r) \<le> 258"
    "optional_size (2 + length (o_value (e_http r))) (e_http r) \<le> 258"
    using len(7-10) by (simp_all add: optional_size_def)
  have "encoded_body_size r \<le> 40 + 130 + 130 + 258 + 258 + 16 + 16 + (8 + (8 + (8 + 8))) + 130 + 8 + 8 + 258 + 258 +
      (4 + 16777216 + 32) + 32 + 130 + (4 + 65536)"
    unfolding encoded_body_size_def list.map sum_list_simps
    using len(1-6) texts by (intro add_mono optional_size_le) (simp_all add: optional_size_le)
  then show ?thesis by (simp add: MaxRecordBytes_def RecordHeaderSize_def MaxPayloadBytes_def MaxExtensionBytes_def)
qed

text \<open>The framed record, flat: the two header fields end up in place.\<close>

definition record_frame :: "bytes \<Rightarrow> bytes" where
  "record_frame body = recordMagic @ le_u16 EnvelopeVersion @ le_u16 (of_nat RecordHeaderSize) @
     le_u32 (of_nat (length body)) @ le_u32 (crc32c body) @ body"

lemma length_recordMagic [simp]: "length recordMagic = 4"
  by (simp add: recordMagic_def)

lemma length_record_frame: "length (record_frame body) = RecordHeaderSize + length body"
  by (simp add: record_frame_def RecordHeaderSize_def)

lemma appendEncodedRecord_flat: "appendEncodedRecord sha dst r = dst @ record_frame (record_body sha r)"
proof -
  let ?b = "record_body sha r"
  let ?h = "dst @ recordMagic @ le_u16 EnvelopeVersion @ le_u16 (of_nat RecordHeaderSize)"
  have "put_at (length dst + 8) (le_u32 (of_nat (length ?b))) (?h @ le_u32 0 @ le_u32 0 @ ?b) =
      ?h @ le_u32 (of_nat (length ?b)) @ le_u32 0 @ ?b"
    by (rule put_at_append) simp_all
  moreover have "put_at (length dst + 12) (le_u32 (crc32c ?b)) ((?h @ le_u32 (of_nat (length ?b))) @ le_u32 0 @ ?b) =
      (?h @ le_u32 (of_nat (length ?b))) @ le_u32 (crc32c ?b) @ ?b"
    by (rule put_at_append) simp_all
  ultimately show ?thesis by (simp add: appendEncodedRecord_def Let_def record_frame_def)
qed

lemma slice_at: "length p = a \<Longrightarrow> length v = n \<Longrightarrow> b = a + n \<Longrightarrow> slice a b (p @ v @ t) = v"
  by (simp add: slice_def)

lemma frame_slices:
  assumes "length body < 2 ^ 32"
  shows "slice 0 4 (record_frame body @ t) = recordMagic"
    "(of_nat (le_get (slice 4 6 (record_frame body @ t))) :: u16) = EnvelopeVersion"
    "(of_nat (le_get (slice 6 8 (record_frame body @ t))) :: u16) = of_nat RecordHeaderSize"
    "unat (of_nat (le_get (slice 8 12 (record_frame body @ t))) :: u32) = length body"
    "(of_nat (le_get (slice 12 16 (record_frame body @ t))) :: u32) = crc32c body"
    "slice 16 (16 + length body) (record_frame body @ t) = body"
proof -
  show "slice 0 4 (record_frame body @ t) = recordMagic"
    by (simp add: record_frame_def slice_def)
  have "slice 4 6 (record_frame body @ t) = le_u16 EnvelopeVersion" by (simp add: record_frame_def slice_def)
  then show "(of_nat (le_get (slice 4 6 (record_frame body @ t))) :: u16) = EnvelopeVersion" by simp
  have "slice 6 8 (record_frame body @ t) = le_u16 (of_nat RecordHeaderSize)" by (simp add: record_frame_def slice_def)
  then show "(of_nat (le_get (slice 6 8 (record_frame body @ t))) :: u16) = of_nat RecordHeaderSize" by simp
  have "slice 8 12 (record_frame body @ t) = le_u32 (of_nat (length body))" by (simp add: record_frame_def slice_def)
  then show "unat (of_nat (le_get (slice 8 12 (record_frame body @ t))) :: u32) = length body"
    using assms by (simp add: unat_of_nat_u32)
  have "slice 12 16 (record_frame body @ t) = le_u32 (crc32c body)" by (simp add: record_frame_def slice_def)
  then show "(of_nat (le_get (slice 12 16 (record_frame body @ t))) :: u32) = crc32c body" by simp
  show "slice 16 (16 + length body) (record_frame body @ t) = body" by (simp add: record_frame_def slice_def)
qed

lemma small_body: "n \<le> MaxRecordBytes - RecordHeaderSize \<Longrightarrow> n < 2 ^ 32"
  by (simp add: MaxRecordBytes_def RecordHeaderSize_def MaxPayloadBytes_def MaxExtensionBytes_def)

lemma decodeRecord_frame:
  assumes "length body \<le> MaxRecordBytes - RecordHeaderSize" "decode_body sha body = Inr (r, [])" "validateEnvelope r"
  shows "decodeRecord sha (record_frame body @ t) = Inr (r, RecordHeaderSize + length body)"
  using assms frame_slices [OF small_body [OF assms(1)], of t]
  by (simp add: decodeRecord_def length_record_frame Let_def RecordHeaderSize_def)

lemma decodeRecord_inv:
  assumes "decodeRecord sha src = Inr (r, n)"
  obtains body where "src = record_frame body @ drop n src" "n = RecordHeaderSize + length body" "n \<le> length src"
    "decode_body sha body = Inr (r, [])" "validateEnvelope r" "length body \<le> MaxRecordBytes - RecordHeaderSize"
proof -
  define len where "len = unat (of_nat (le_get (slice 8 12 src)) :: u32)"
  define body where "body = slice 16 (16 + len) src"
  have d: "length src \<ge> 16 + len" "slice 0 4 src = recordMagic"
    "(of_nat (le_get (slice 4 6 src)) :: u16) = EnvelopeVersion"
    "(of_nat (le_get (slice 6 8 src)) :: u16) = of_nat RecordHeaderSize"
    "len \<le> MaxRecordBytes - RecordHeaderSize" "of_nat (le_get (slice 12 16 src)) = crc32c body"
    "decode_body sha body = Inr (r, [])" "validateEnvelope r" "n = 16 + len"
    using assms by (auto simp: decodeRecord_def RecordHeaderSize_def Let_def not_less body_def len_def split: if_splits sum.splits)
  have l: "length body = len" using d(1) by (simp add: body_def length_slice)
  have "(of_nat (length body) :: u32) = of_nat (le_get (slice 8 12 src))" unfolding l len_def by simp
  then have parts: "slice 4 6 src = le_u16 EnvelopeVersion" "slice 6 8 src = le_u16 (of_nat RecordHeaderSize)"
    "slice 8 12 src = le_u32 (of_nat (length body))" "slice 12 16 src = le_u32 (crc32c body)"
    using d(1,3,4,6) le_word_get(1) [of "slice 4 6 src"] le_word_get(1) [of "slice 6 8 src"]
      le_word_get(2) [of "slice 8 12 src"] le_word_get(2) [of "slice 12 16 src"]
    by (simp_all add: length_slice)
  have "src = slice 0 4 src @ slice 4 6 src @ slice 6 8 src @ slice 8 12 src @ slice 12 16 src @ body @ drop n src"
    using d(1) slice_split [of 0 4 src] slice_split [of 4 6 src] slice_split [of 6 8 src] slice_split [of 8 12 src]
      slice_split [of 12 16 src] slice_split [of 16 "16 + len" src] unfolding d(9) body_def by simp
  also have "\<dots> = record_frame body @ drop n src"
    unfolding parts d(2) record_frame_def append_assoc ..
  finally have "src = record_frame body @ drop n src" .
  with d l show thesis using that [of body] by (simp add: RecordHeaderSize_def)
qed

subsection \<open>Round trips\<close>

lemma encodeRecord_valid:
  "encodeRecord sha r = Inr bs \<longleftrightarrow> validateEnvelope r \<and> bs = record_frame (record_body sha r)"
  using valid_body_fits [of r] by (auto simp: encodeRecord_def encodedRecordSize_def appendEncodedRecord_flat)

lemma decode_encoded:
  assumes "length (sha (e_payload r)) = 32" "envelope_shape r" "validateEnvelope r"
  shows "decodeRecord sha (record_frame (record_body sha r) @ t) = Inr (canonical r, RecordHeaderSize + encoded_body_size r)"
proof -
  have "length (sha (e_payload (canonical r))) = 32" using assms(1) by (simp add: canonical_def)
  then have "decode_body sha (record_body sha r) = Inr (canonical r, [])"
    using decode_body_run [of "canonical r" sha "[]"] canonical_ok [OF assms(2,3)] by (simp add: record_body_canonical)
  moreover have "length (record_body sha r) \<le> MaxRecordBytes - RecordHeaderSize"
    using length_record_body [of r sha] valid_body_fits [of r] assms by simp
  ultimately show ?thesis
    using decodeRecord_frame [of "record_body sha r" sha "canonical r" t] assms length_record_body [of r sha]
    by (simp add: validateEnvelope_canonical)
qed

lemma decodeRecord_encodes:
  assumes "decodeRecord sha src = Inr (r, n)"
  shows "n \<le> length src \<and> encodeRecord sha r = Inr (take n src) \<and> canonical r = r \<and> envelope_shape r"
proof -
  obtain body where b: "src = record_frame body @ drop n src" "n = RecordHeaderSize + length body" "n \<le> length src"
    "decode_body sha body = Inr (r, [])" "validateEnvelope r" "length body \<le> MaxRecordBytes - RecordHeaderSize"
    using assms by (rule decodeRecord_inv)
  note body = decode_body_inv [OF b(4)]
  have "take n src = record_frame body" using b(1,2) length_record_frame [of body] by (metis append_eq_conv_conj)
  moreover have "body = record_body sha r" using body by simp
  ultimately have "encodeRecord sha r = Inr (take n src)" using b(5) by (simp add: encodeRecord_valid)
  moreover have "canonical r = r" "envelope_shape r" using body decoded_canonical by blast+
  ultimately show ?thesis using b(3) by blast
qed

definition sample_envelope :: envelope where
  "sample_envelope = zero_envelope\<lparr>e_kind := RecordKindWebSocket, e_source := ''s'', e_channel := ''c'',
     e_conn := \<lparr>o_value = replicate 16 1, o_valid = True\<rparr>, e_arrival := 1, e_received := 5, e_clock := ''k'',
     e_encoding := PayloadEncodingJSON, e_payload := [7], e_outcome := OutcomeObserved, e_recorder := ''v''\<rparr>"

definition sha_zero :: "bytes \<Rightarrow> hash" where "sha_zero b = zero32"

lemma sample_envelope_ok: "envelope_shape sample_envelope" "validateEnvelope sample_envelope"
  by (simp_all add: sample_envelope_def zero_envelope_def envelope_shape_def validateEnvelope_def in_i64_def string_bounds
      RecordKindWebSocket_def RecordKindControl_def PayloadEncodingJSON_def PayloadEncodingNone_def TimeResolutionSecond_def
      TimeResolutionAbsent_def OutcomeObserved_def OutcomeDisconnected_def MaxPayloadBytes_def MaxExtensionBytes_def)

lemma sample_envelope_canonical: "canonical sample_envelope = sample_envelope"
  by (simp add: canonical_def clear_def sample_envelope_def zero_envelope_def)

text \<open>
  Every valid envelope survives storage.  Encoding succeeds, takes exactly the
  number of bytes computed beforehand (the bound on the body is never hit), and
  decoding what was written, whatever bytes follow, consumes exactly those bytes
  and gives the envelope back, with the values of absent fields cleared.
\<close>

theorem envelope_roundtrip:
  assumes "\<And>b. length (sha b) = 32" "envelope_shape r" "validateEnvelope r"
  shows "\<exists>bs. encodeRecord sha r = Inr bs \<and> encodedRecordSize r = Inr (length bs) \<and>
    decodeRecord sha (bs @ rest) = Inr (canonical r, length bs) \<and> UnmarshalEnvelope sha bs = Inr (canonical r)"
proof -
  let ?bs = "record_frame (record_body sha r)"
  have len: "length ?bs = RecordHeaderSize + encoded_body_size r"
    using length_record_body [of r sha] assms by (simp add: length_record_frame)
  have "encodeRecord sha r = Inr ?bs" using assms(3) by (simp add: encodeRecord_valid)
  moreover have "encodedRecordSize r = Inr (length ?bs)"
    using valid_body_fits [OF assms(3)] assms(3) len by (simp add: encodedRecordSize_def)
  moreover have dec: "decodeRecord sha (?bs @ t) = Inr (canonical r, length ?bs)" for t
    using decode_encoded [of sha r t] assms len by simp
  moreover have "UnmarshalEnvelope sha ?bs = Inr (canonical r)"
    using dec [of "[]"] by (simp add: UnmarshalEnvelope_def)
  ultimately show ?thesis by blast
qed

theorem envelope_roundtrip_witness:
  "\<exists>bs. encodeRecord sha_zero sample_envelope = Inr bs \<and> UnmarshalEnvelope sha_zero bs = Inr sample_envelope"
proof -
  have "length (sha_zero b) = 32" for b by (simp add: sha_zero_def)
  from envelope_roundtrip [of sha_zero, OF this sample_envelope_ok, where rest = "[]"]
  obtain bs where "encodeRecord sha_zero sample_envelope = Inr bs" "UnmarshalEnvelope sha_zero bs = Inr (canonical sample_envelope)"
    by blast
  moreover have "canonical sample_envelope = sample_envelope" by (rule sample_envelope_canonical)
  ultimately show ?thesis by auto
qed

text \<open>
  C33. Stored bytes are canonical.  Whatever the decoder accepts is exactly the
  encoding of what it returns: its payload digest and checksum are right, its
  lengths are exact, no bit is ignored, absent fields are zero.  Two different
  byte strings never decode to the same envelope.
\<close>

theorem envelope_bytes_canonical:
  assumes "UnmarshalEnvelope sha data = Inr r"
  shows "MarshalEnvelope sha r = Inr data \<and> validateEnvelope r \<and> envelope_shape r \<and> canonical r = r"
proof -
  have d: "decodeRecord sha data = Inr (r, length data)"
    using assms by (auto simp: UnmarshalEnvelope_def split: sum.splits if_splits)
  then show ?thesis using decodeRecord_encodes [OF d] by (simp add: MarshalEnvelope_def encodeRecord_valid)
qed

theorem envelope_bytes_canonical_witness:
  "\<exists>data. UnmarshalEnvelope sha_zero data = Inr sample_envelope \<and> MarshalEnvelope sha_zero sample_envelope = Inr data"
proof -
  let ?data = "record_frame (record_body sha_zero sample_envelope)"
  have "decodeRecord sha_zero (?data @ []) = Inr (canonical sample_envelope, RecordHeaderSize + encoded_body_size sample_envelope)"
    by (rule decode_encoded [OF _ sample_envelope_ok]) (simp add: sha_zero_def)
  moreover have "length ?data = RecordHeaderSize + encoded_body_size sample_envelope"
    using length_record_body [OF sample_envelope_ok(1), of sha_zero] by (simp add: length_record_frame sha_zero_def)
  moreover have "canonical sample_envelope = sample_envelope" by (rule sample_envelope_canonical)
  ultimately have u: "UnmarshalEnvelope sha_zero ?data = Inr sample_envelope" by (simp add: UnmarshalEnvelope_def)
  from envelope_bytes_canonical [OF u] u show ?thesis by blast
qed

end
