(* ===== verification/Segment.thy ===== *)
theory Segment
  imports Envelope
begin

text \<open>
  \<open>src/segment/segment.go\<close>: segments, which pack envelopes into frames, compress
  each frame with Zstandard and describe the result in a manifest.  The
  compression library is the parameter \<open>z\<close>, a record of what the code calls: the
  smallest window, the encoder that \<open>NewWriter\<close> gives for a window (or none, when
  it fails) and the decoder that \<open>NewReader\<close> gives for its limits on memory and
  window.  The workers of
  \<open>compressFrames\<close> write to the slot of their job, so their order does not matter
  and the outputs are those of the jobs in order.  The measured durations are left
  out.

  The lemmas show that a segment read with its manifest gives its records back,
  that the packing of the encoder is the one the decoder demands, and that damage
  never costs the records of the frames before it.
\<close>

subsection \<open>Types\<close>

definition FrameHeaderSize :: nat where "FrameHeaderSize = 88"
definition MaxSupportedFrameBytes :: int where "MaxSupportedFrameBytes = 16777216"
definition maxEncodedFrameWindowBytes :: nat where "maxEncodedFrameWindowBytes = 33554432"
definition maxDecodedFrameBytes :: nat where "maxDecodedFrameBytes = maxEncodedFrameWindowBytes + MaxRecordBytes"
definition DefaultFrameBytes :: int where "DefaultFrameBytes = 4194304"
definition frameMagic :: bytes where "frameMagic = str_bytes ''EMSGFRM1''"

record encode_options =
  eo_frame_bytes :: int
  eo_concurrency :: int

record frame_index =
  fx_ordinal :: u32
  fx_offset :: u64
  fx_compressed :: u64
  fx_plain :: u64
  fx_count :: u32
  fx_first :: u64
  fx_last :: u64
  fx_first_ns :: i64
  fx_last_ns :: i64
  fx_compressed_sha :: hash
  fx_plain_sha :: hash

record manifest =
  mf_version :: u16
  mf_frame_bytes :: u64
  mf_count :: u64
  mf_plain :: u64
  mf_compressed :: u64
  mf_first :: u64
  mf_last :: u64
  mf_first_ns :: i64
  mf_last_ns :: i64
  mf_compressed_sha :: hash
  mf_plain_sha :: hash
  mf_frames :: "frame_index list"

record encoded_segment =
  es_bytes :: bytes
  es_manifest :: manifest

record decode_result =
  dr_records :: "envelope list"
  dr_frames :: "frame_index list"
  dr_complete :: u64

text \<open>An error of the segment, one located at a frame and its offset, or a failure to set up the library.\<close>

datatype decode_error = SegmentError seg_error | FrameError u32 u64 seg_error | ZstdError

record frame_job =
  fj_plain :: bytes
  fj_count :: nat
  fj_first :: u64
  fj_last :: u64
  fj_first_ns :: i64
  fj_last_ns :: i64

record zstd_lib =
  z_min_window :: nat
  z_writer :: "nat \<Rightarrow> (bytes \<Rightarrow> bytes) option"
  z_reader :: "nat \<Rightarrow> nat \<Rightarrow> (bytes \<Rightarrow> bytes option) option"

subsection \<open>Encoding\<close>

definition normalizeEncodeOptions :: "encode_options \<Rightarrow> seg_error + encode_options" where
  "normalizeEncodeOptions opts =
     (let fb = (if eo_frame_bytes opts = 0 then DefaultFrameBytes else eo_frame_bytes opts);
          cc = (if eo_concurrency opts = 0 then 1 else eo_concurrency opts) in
      if fb < 1048576 \<or> fb > MaxSupportedFrameBytes \<or> fb AND (fb - 1) \<noteq> 0 then Inl ErrBounds
      else if cc < 1 \<or> cc > 64 then Inl ErrBounds
      else Inr \<lparr>eo_frame_bytes = fb, eo_concurrency = cc\<rparr>)"

fun segment_records_ok :: "envelope \<Rightarrow> envelope option \<Rightarrow> envelope list \<Rightarrow> bool" where
  "segment_records_ok f prev [] = True"
| "segment_records_ok f prev (r # rs) =
     (\<not> (e_source r \<noteq> e_source f \<or> e_channel r \<noteq> e_channel f \<or> e_conn r \<noteq> e_conn f \<or> e_poll r \<noteq> e_poll f) \<and>
      \<not> (case prev of None \<Rightarrow> False | Some p \<Rightarrow> e_arrival r \<le> e_arrival p) \<and>
      segment_records_ok f (Some r) rs)"

definition validateSegmentRecords :: "envelope list \<Rightarrow> bool" where
  "validateSegmentRecords rs = segment_records_ok (hd rs) None rs"

definition frame_plain :: "(bytes \<Rightarrow> hash) \<Rightarrow> u32 \<Rightarrow> u32 \<Rightarrow> u64 \<Rightarrow> u64 \<Rightarrow> i64 \<Rightarrow> i64 \<Rightarrow> bytes \<Rightarrow> bytes" where
  "frame_plain sha ordinal recordCount firstO lastO firstR lastR recs =
     frameMagic @ le_u16 FormatVersion @ le_u16 (of_nat FrameHeaderSize) @ le_u32 ordinal @ le_u32 recordCount @
     le_u32 (of_nat (length recs)) @ le_u64 firstO @ le_u64 lastO @ i64_bytes firstR @ i64_bytes lastR @ sha recs @ recs"

text \<open>The header fields tile the 88 bytes before the records.\<close>

definition makeFrameJob :: "(bytes \<Rightarrow> hash) \<Rightarrow> u32 \<Rightarrow> bytes list \<Rightarrow> envelope list \<Rightarrow> frame_job" where
  "makeFrameJob sha ordinal encodedRecords rs =
     \<lparr>fj_plain = frame_plain sha ordinal (of_nat (length rs)) (e_arrival (hd rs)) (e_arrival (last rs))
        (e_received (hd rs)) (e_received (last rs)) (concat encodedRecords),
      fj_count = length rs, fj_first = e_arrival (hd rs), fj_last = e_arrival (last rs),
      fj_first_ns = e_received (hd rs), fj_last_ns = e_received (last rs)\<rparr>"

text \<open>The loop over the records: the jobs so far, and the encodings, records and bytes of the open frame.\<close>

fun frame_jobs_loop :: "(bytes \<Rightarrow> hash) \<Rightarrow> int \<Rightarrow> frame_job list \<Rightarrow> bytes list \<Rightarrow> envelope list \<Rightarrow> nat \<Rightarrow> envelope list \<Rightarrow>
    seg_error + frame_job list" where
  "frame_jobs_loop sha target jobs encs open n [] =
     Inr (if encs \<noteq> [] then jobs @ [makeFrameJob sha (of_nat (length jobs)) encs open] else jobs)"
| "frame_jobs_loop sha target jobs encs open n (r # rs) =
     (case encodeRecord sha r of
        Inl err \<Rightarrow> Inl err
      | Inr encoded \<Rightarrow>
          if encs \<noteq> [] \<and> int (FrameHeaderSize + n + length encoded) > target
          then frame_jobs_loop sha target (jobs @ [makeFrameJob sha (of_nat (length jobs)) encs open])
                 [encoded] [r] (length encoded) rs
          else frame_jobs_loop sha target jobs (encs @ [encoded]) (open @ [r]) (n + length encoded) rs)"

definition buildFrameJobs :: "(bytes \<Rightarrow> hash) \<Rightarrow> envelope list \<Rightarrow> int \<Rightarrow> seg_error + frame_job list" where
  "buildFrameJobs sha rs target = frame_jobs_loop sha target [] [] [] 0 rs"

function next_power :: "nat \<Rightarrow> nat \<Rightarrow> nat" where
  "next_power p v = (if 0 < p \<and> p < v then next_power (2 * p) v else p)"
  by auto
termination by (relation "measure (\<lambda>(p, v). v - p)") auto

declare next_power.simps [simp del]

definition nextPowerOfTwo :: "nat \<Rightarrow> nat" where
  "nextPowerOfTwo v = next_power 1 v"

definition compress_frame :: "zstd_lib \<Rightarrow> frame_job \<Rightarrow> bytes option" where
  "compress_frame z job =
     (case z_writer z (nextPowerOfTwo (max (length (fj_plain job)) (z_min_window z))) of
        None \<Rightarrow> None | Some encoder \<Rightarrow> Some (encoder (fj_plain job)))"

fun compressFrames :: "zstd_lib \<Rightarrow> frame_job list \<Rightarrow> bytes list option" where
  "compressFrames z [] = Some []"
| "compressFrames z (job # jobs) =
     (case compress_frame z job of
        None \<Rightarrow> None
      | Some out \<Rightarrow> (case compressFrames z jobs of None \<Rightarrow> None | Some outs \<Rightarrow> Some (out # outs)))"

fun encode_frames :: "(bytes \<Rightarrow> hash) \<Rightarrow> nat \<Rightarrow> bytes \<Rightarrow> u64 \<Rightarrow> (frame_job \<times> bytes) list \<Rightarrow> frame_index list \<times> bytes \<times> u64" where
  "encode_frames sha i out plainBytes [] = ([], out, plainBytes)"
| "encode_frames sha i out plainBytes ((job, compressed) # rest) =
     (let index = \<lparr>fx_ordinal = of_nat i, fx_offset = of_nat (length out), fx_compressed = of_nat (length compressed),
            fx_plain = of_nat (length (fj_plain job)), fx_count = of_nat (fj_count job), fx_first = fj_first job,
            fx_last = fj_last job, fx_first_ns = fj_first_ns job, fx_last_ns = fj_last_ns job,
            fx_compressed_sha = sha compressed, fx_plain_sha = sha (fj_plain job)\<rparr>;
          (indices, bs, t) = encode_frames sha (Suc i) (out @ compressed) (plainBytes + of_nat (length (fj_plain job))) rest
      in (index # indices, bs, t))"

definition Encode :: "(bytes \<Rightarrow> hash) \<Rightarrow> zstd_lib \<Rightarrow> envelope list \<Rightarrow> encode_options \<Rightarrow> decode_error + encoded_segment" where
  "Encode sha z rs opts0 =
     (case normalizeEncodeOptions opts0 of
        Inl err \<Rightarrow> Inl (SegmentError err)
      | Inr opts \<Rightarrow>
          if rs = [] then
            Inr \<lparr>es_bytes = [], es_manifest = \<lparr>mf_version = FormatVersion, mf_frame_bytes = of_int (eo_frame_bytes opts), mf_count = 0,
              mf_plain = 0, mf_compressed = 0, mf_first = 0, mf_last = 0, mf_first_ns = 0, mf_last_ns = 0,
              mf_compressed_sha = sha [], mf_plain_sha = sha [], mf_frames = []\<rparr>\<rparr>
          else if \<not> validateSegmentRecords rs then Inl (SegmentError ErrBounds)
          else (case buildFrameJobs sha rs (eo_frame_bytes opts) of
            Inl err \<Rightarrow> Inl (SegmentError err)
          | Inr jobs \<Rightarrow> (case compressFrames z jobs of
              None \<Rightarrow> Inl ZstdError
            | Some outputs \<Rightarrow>
                (case encode_frames sha 0 [] 0 (zip jobs outputs) of (indices, bs, plainBytes) \<Rightarrow>
                  Inr \<lparr>es_bytes = bs, es_manifest = \<lparr>mf_version = FormatVersion, mf_frame_bytes = of_int (eo_frame_bytes opts),
                    mf_count = of_nat (length rs), mf_plain = plainBytes, mf_compressed = of_nat (length bs),
                    mf_first = e_arrival (hd rs), mf_last = e_arrival (last rs), mf_first_ns = e_received (hd rs),
                    mf_last_ns = e_received (last rs), mf_compressed_sha = sha (concat outputs),
                    mf_plain_sha = sha (concat (map fj_plain jobs)), mf_frames = indices\<rparr>\<rparr>))))"

subsection \<open>The length of a Zstandard frame\<close>

definition block_header :: "bytes \<Rightarrow> nat \<Rightarrow> u32" where
  "block_header src cursor =
     (ucast (src ! cursor) :: u32) OR push_bit 8 (ucast (src ! (cursor + 1))) OR push_bit 16 (ucast (src ! (cursor + 2)))"

definition block_size :: "u32 \<Rightarrow> seg_error + nat" where
  "block_size header =
     (let blockType = drop_bit 1 header AND 3 in
      if blockType = 3 then Inl ErrCorrupt
      else Inr (if blockType = 1 then 1 else unat (drop_bit 3 header)))"

function zstd_blocks :: "bytes \<Rightarrow> nat \<Rightarrow> seg_error + nat" where
  "zstd_blocks src cursor =
     (if length src - cursor < 3 then Inl ErrTruncated
      else let header = block_header src cursor in
        (case block_size header of
           Inl err \<Rightarrow> Inl err
         | Inr blockSize \<Rightarrow>
             if blockSize > length src - (cursor + 3) then Inl ErrTruncated
             else if header AND 1 \<noteq> 0 then Inr (cursor + 3 + blockSize)
             else zstd_blocks src (cursor + 3 + blockSize)))"
  by pat_completeness auto
termination by (relation "measure (\<lambda>(src, cursor). length src - cursor)") auto

declare zstd_blocks.simps [simp del]

definition fcs_size :: "u8 \<Rightarrow> nat" where
  "fcs_size descriptor =
     (let fcsFlag = drop_bit 6 descriptor in if fcsFlag = 0 then 1 else if fcsFlag = 1 then 2 else if fcsFlag = 2 then 4 else 8)"

definition zstdFrameLength :: "bytes \<Rightarrow> seg_error + nat" where
  "zstdFrameLength src =
     (if length src < 5 then Inl ErrTruncated
      else if (of_nat (le_get (slice 0 4 src)) :: u32) \<noteq> 0xfd2fb528 then Inl ErrCorrupt
      else let descriptor = src ! 4 in
        if descriptor AND 24 \<noteq> 0 then Inl ErrCorrupt
        else if descriptor AND 4 = 0 \<or> descriptor AND 32 = 0 \<or> descriptor AND 3 \<noteq> 0 then Inl ErrVersion
        else let cursor = 5 + fcs_size descriptor in
          if cursor > length src then Inl ErrTruncated
          else (case zstd_blocks src cursor of
                  Inl err \<Rightarrow> Inl err
                | Inr end \<Rightarrow> if length src - end < 4 then Inl ErrTruncated else Inr (end + 4)))"

subsection \<open>Decoding\<close>

lemma decodeRecord_positive: "decodeRecord sha src = Inr (r, n) \<Longrightarrow> 0 < n \<and> n \<le> length src"
  by (erule decodeRecord_inv) (simp add: RecordHeaderSize_def)

function decode_records :: "(bytes \<Rightarrow> hash) \<Rightarrow> bytes \<Rightarrow> envelope list \<Rightarrow> seg_error + envelope list" where
  "decode_records sha s acc =
     (if s = [] then Inr acc
      else (case decodeRecord sha s of
              Inl err \<Rightarrow> Inl err
            | Inr (r, k) \<Rightarrow> decode_records sha (drop k s) (acc @ [r])))"
  by pat_completeness auto
termination
  by (relation "measure (\<lambda>(sha, s, acc). length s)") (auto dest: decodeRecord_positive)

declare decode_records.simps [simp del]

definition decodeFrame :: "(bytes \<Rightarrow> hash) \<Rightarrow> bytes \<Rightarrow> u32 \<Rightarrow> u64 \<Rightarrow> u64 \<Rightarrow> seg_error + envelope list \<times> frame_index" where
  "decodeFrame sha plain ordinal compressedOffset compressedBytes =
     (if length plain < FrameHeaderSize then Inl ErrTruncated
      else if slice 0 8 plain \<noteq> frameMagic then Inl ErrCorrupt
      else if (of_nat (le_get (slice 8 10 plain)) :: u16) \<noteq> FormatVersion then Inl ErrVersion
      else if (of_nat (le_get (slice 10 12 plain)) :: u16) \<noteq> of_nat FrameHeaderSize then Inl ErrVersion
      else if of_nat (le_get (slice 12 16 plain)) \<noteq> ordinal then Inl ErrCorrupt
      else let recordCount = (of_nat (le_get (slice 16 20 plain)) :: u32);
               recordBytes = (of_nat (le_get (slice 20 24 plain)) :: u32) in
        if recordCount = 0 then Inl ErrCorrupt
        else if FrameHeaderSize + unat recordBytes \<noteq> length plain then Inl ErrCorrupt
        else if unat recordCount > unat recordBytes div minimumEncodedRecordBytes then Inl ErrCorrupt
        else if slice 56 88 plain \<noteq> sha (drop FrameHeaderSize plain) then Inl ErrCorrupt
        else (case decode_records sha (drop FrameHeaderSize plain) [] of
                Inl err \<Rightarrow> Inl err
              | Inr rs \<Rightarrow>
                  if length rs \<noteq> unat recordCount then Inl ErrCorrupt
                  else let firstOrdinal = (of_nat (le_get (slice 24 32 plain)) :: u64);
                           lastOrdinal = (of_nat (le_get (slice 32 40 plain)) :: u64);
                           firstReceived = sint (of_nat (le_get (slice 40 48 plain)) :: u64);
                           lastReceived = sint (of_nat (le_get (slice 48 56 plain)) :: u64) in
                    if e_arrival (hd rs) \<noteq> firstOrdinal \<or> e_arrival (last rs) \<noteq> lastOrdinal \<or>
                       e_received (hd rs) \<noteq> firstReceived \<or> e_received (last rs) \<noteq> lastReceived then Inl ErrCorrupt
                    else Inr (rs, \<lparr>fx_ordinal = ordinal, fx_offset = compressedOffset, fx_compressed = compressedBytes,
                           fx_plain = of_nat (length plain), fx_count = recordCount, fx_first = firstOrdinal, fx_last = lastOrdinal,
                           fx_first_ns = firstReceived, fx_last_ns = lastReceived, fx_compressed_sha = zero32,
                           fx_plain_sha = sha plain\<rparr>)))"

definition validateCompressedAgainstIndex :: "(bytes \<Rightarrow> hash) \<Rightarrow> bytes \<Rightarrow> u64 \<Rightarrow> frame_index \<Rightarrow> bool" where
  "validateCompressedAgainstIndex sha compressed offset expected \<longleftrightarrow>
     offset = fx_offset expected \<and> of_nat (length compressed) = fx_compressed expected \<and>
     sha compressed = fx_compressed_sha expected"

definition compareFrameIndex :: "frame_index \<Rightarrow> frame_index \<Rightarrow> bool" where
  "compareFrameIndex got want \<longleftrightarrow> got\<lparr>fx_compressed_sha := fx_compressed_sha want\<rparr> = want"

text \<open>One frame at an offset, against the index the manifest has for it, if there is a manifest.\<close>

definition decode_one :: "(bytes \<Rightarrow> hash) \<Rightarrow> (bytes \<Rightarrow> bytes option) \<Rightarrow> frame_index list option \<Rightarrow> bytes \<Rightarrow> nat \<Rightarrow> u32 \<Rightarrow>
    seg_error + nat \<times> bytes \<times> envelope list \<times> frame_index" where
  "decode_one sha dec expected data offset ordinal =
     (case zstdFrameLength (drop offset data) of
        Inl err \<Rightarrow> Inl err
      | Inr frameLen \<Rightarrow>
          let compressed = take frameLen (drop offset data) in
          if \<not> (case expected of None \<Rightarrow> True
                | Some fs \<Rightarrow> unat ordinal < length fs \<and>
                    validateCompressedAgainstIndex sha compressed (of_nat offset) (fs ! unat ordinal)) then Inl ErrCorrupt
          else (case dec compressed of
                  None \<Rightarrow> Inl ErrCorrupt
                | Some plain \<Rightarrow>
                    (case decodeFrame sha plain ordinal (of_nat offset) (of_nat frameLen) of
                       Inl err \<Rightarrow> Inl err
                     | Inr (rs, index0) \<Rightarrow>
                         let index = index0\<lparr>fx_compressed_sha := (case expected of None \<Rightarrow> sha compressed
                               | Some fs \<Rightarrow> fx_compressed_sha (fs ! unat ordinal))\<rparr> in
                         if \<not> (case expected of None \<Rightarrow> True | Some fs \<Rightarrow> compareFrameIndex index (fs ! unat ordinal)) then Inl ErrCorrupt
                         else Inr (frameLen, plain, rs, index))))"

lemma zstd_blocks_bounds: "zstd_blocks src cursor = Inr n \<Longrightarrow> cursor + 3 \<le> n \<and> n \<le> length src"
proof (induction src cursor rule: zstd_blocks.induct)
  case (1 src cursor)
  from "1.prems" show ?case
    by (subst (asm) zstd_blocks.simps) (auto simp: Let_def split: if_splits sum.splits dest!: "1.IH" [rotated -1])
qed

lemma zstdFrameLength_bounds: "zstdFrameLength src = Inr n \<Longrightarrow> 0 < n \<and> n \<le> length src"
  by (auto simp: zstdFrameLength_def Let_def split: if_splits sum.splits dest!: zstd_blocks_bounds)

lemma decode_one_progress:
  "decode_one sha dec expected data offset ordinal = Inr (n, plain, rs, index) \<Longrightarrow> 0 < n \<and> n \<le> length data - offset"
  using zstdFrameLength_bounds [of "drop offset data"]
  by (auto simp: decode_one_def Let_def split: sum.splits if_splits option.splits)

function decode_loop :: "(bytes \<Rightarrow> hash) \<Rightarrow> (bytes \<Rightarrow> bytes option) \<Rightarrow> frame_index list option \<Rightarrow> bytes \<Rightarrow> nat \<Rightarrow> decode_result \<Rightarrow>
    bytes \<Rightarrow> decode_result \<times> bytes \<times> decode_error option" where
  "decode_loop sha dec expected data offset result plains =
     (if \<not> offset < length data then (result, plains, None)
      else let frameOrdinal = of_nat (length (dr_frames result)) in
        (case decode_one sha dec expected data offset frameOrdinal of
           Inl err \<Rightarrow> (result, plains, Some (FrameError frameOrdinal (of_nat offset) err))
         | Inr (frameLen, plain, rs, index) \<Rightarrow>
             decode_loop sha dec expected data (offset + frameLen)
               \<lparr>dr_records = dr_records result @ rs, dr_frames = dr_frames result @ [index],
                dr_complete = of_nat (offset + frameLen)\<rparr> (plains @ plain)))"
  by pat_completeness auto
termination
  by (relation "measure (\<lambda>(sha, dec, expected, data, offset, result, plains). length data - offset)")
    (auto dest: decode_one_progress)

declare decode_loop.simps [simp del]

fun frame_target_ok :: "int \<Rightarrow> nat list \<Rightarrow> frame_index list \<Rightarrow> nat \<Rightarrow> bool" where
  "frame_target_ok target sizes [] recordOffset \<longleftrightarrow> recordOffset = length sizes"
| "frame_target_ok target sizes (f # fs) recordOffset \<longleftrightarrow>
     (let frameEnd = recordOffset + unat (fx_count f);
          calculatedBytes = FrameHeaderSize + sum_list (take (unat (fx_count f)) (drop recordOffset sizes)) in
      \<not> frameEnd > length sizes \<and> of_nat calculatedBytes = fx_plain f \<and>
      \<not> (int calculatedBytes > target \<and> fx_count f \<noteq> 1) \<and>
      \<not> (frameEnd < length sizes \<and> int (calculatedBytes + sizes ! frameEnd) \<le> target) \<and>
      frame_target_ok target sizes fs frameEnd)"

definition record_size :: "envelope \<Rightarrow> nat" where
  "record_size r = (case encodedRecordSize r of Inl _ \<Rightarrow> 0 | Inr n \<Rightarrow> n)"

definition validateManifestFrameTarget :: "envelope list \<Rightarrow> frame_index list \<Rightarrow> int \<Rightarrow> bool" where
  "validateManifestFrameTarget rs frames target \<longleftrightarrow>
     list_all (\<lambda>r. case encodedRecordSize r of Inl _ \<Rightarrow> False | Inr _ \<Rightarrow> True) rs \<and> frame_target_ok target (map record_size rs) frames 0"

definition validateManifestSummary :: "(bytes \<Rightarrow> hash) \<Rightarrow> bytes \<Rightarrow> decode_result \<Rightarrow> hash \<Rightarrow> manifest \<Rightarrow> bool" where
  "validateManifestSummary sha data result plainHash expected \<longleftrightarrow>
     (dr_records result \<noteq> [] \<longrightarrow> validateSegmentRecords (dr_records result)) \<and>
     mf_count expected = sum_list (map (\<lambda>f. ucast (fx_count f)) (dr_frames result)) \<and>
     mf_plain expected = sum_list (map fx_plain (dr_frames result)) \<and>
     mf_compressed expected = of_nat (length data) \<and>
     mf_plain_sha expected = plainHash \<and> mf_compressed_sha expected = sha data \<and>
     (let rs = dr_records result in
       mf_first expected = (if rs \<noteq> [] then e_arrival (hd rs) else 0) \<and>
       mf_last expected = (if rs \<noteq> [] then e_arrival (last rs) else 0) \<and>
       mf_first_ns expected = (if rs \<noteq> [] then e_received (hd rs) else 0) \<and>
       mf_last_ns expected = (if rs \<noteq> [] then e_received (last rs) else 0)) \<and>
     validateManifestFrameTarget (dr_records result) (dr_frames result) (sint (mf_frame_bytes expected))"

definition empty_result :: decode_result where
  "empty_result = \<lparr>dr_records = [], dr_frames = [], dr_complete = 0\<rparr>"

text \<open>\<open>Decode(data, expected)\<close>; \<open>expected\<close> is nil when there is no manifest.\<close>

definition segment_Decode :: "(bytes \<Rightarrow> hash) \<Rightarrow> zstd_lib \<Rightarrow> bytes \<Rightarrow> manifest option \<Rightarrow> decode_result \<times> decode_error option" where
  "segment_Decode sha z data expected =
     (case expected of
        Some m \<Rightarrow>
          if mf_version m \<noteq> FormatVersion then (empty_result, Some (SegmentError ErrVersion))
          else (case normalizeEncodeOptions \<lparr>eo_frame_bytes = sint (mf_frame_bytes m), eo_concurrency = 1\<rparr> of
            Inl _ \<Rightarrow> (empty_result, Some (SegmentError ErrCorrupt))
          | Inr _ \<Rightarrow> (case z_reader z maxDecodedFrameBytes maxEncodedFrameWindowBytes of
              None \<Rightarrow> (empty_result, Some ZstdError)
            | Some dec \<Rightarrow> (case decode_loop sha dec (Some (mf_frames m)) data 0 empty_result [] of
                (result, plains, Some err) \<Rightarrow> (result, Some err)
              | (result, plains, None) \<Rightarrow>
                  if length (dr_frames result) \<noteq> length (mf_frames m)
                  then (result, Some (FrameError (of_nat (length (dr_frames result))) (of_nat (length data)) ErrTruncated))
                  else if \<not> validateManifestSummary sha data result (sha plains) m
                  then (result, Some (SegmentError ErrCorrupt)) else (result, None))))
      | None \<Rightarrow> (case z_reader z maxDecodedFrameBytes maxEncodedFrameWindowBytes of
          None \<Rightarrow> (empty_result, Some ZstdError)
        | Some dec \<Rightarrow> (case decode_loop sha dec None data 0 empty_result [] of (result, plains, err) \<Rightarrow> (result, err))))"

subsection \<open>The packing\<close>

text \<open>
  A reference for the packing of records into frames: greedy, by size, at least
  one record per frame.  The loop of \<open>buildFrameJobs\<close> makes one job per chunk.
\<close>

fun pack :: "int \<Rightarrow> envelope list \<Rightarrow> nat \<Rightarrow> envelope list \<Rightarrow> envelope list list" where
  "pack target open n [] = (if open \<noteq> [] then [open] else [])"
| "pack target open n (r # rs) =
     (if open \<noteq> [] \<and> int (FrameHeaderSize + n + record_size r) > target
      then open # pack target [r] (record_size r) rs
      else pack target (open @ [r]) (n + record_size r) rs)"

definition encoding :: "(bytes \<Rightarrow> hash) \<Rightarrow> envelope \<Rightarrow> bytes" where
  "encoding sha r = record_frame (record_body sha r)"

fun jobs_from :: "(bytes \<Rightarrow> hash) \<Rightarrow> nat \<Rightarrow> envelope list list \<Rightarrow> frame_job list" where
  "jobs_from sha k [] = []"
| "jobs_from sha k (c # cs) = makeFrameJob sha (of_nat k) (map (encoding sha) c) c # jobs_from sha (Suc k) cs"

definition good_record :: "envelope \<Rightarrow> bool" where
  "good_record r \<longleftrightarrow> envelope_shape r \<and> validateEnvelope r"

lemma record_size_good: "good_record r \<Longrightarrow> encodedRecordSize r = Inr (RecordHeaderSize + encoded_body_size r)"
  using valid_body_fits [of r] by (simp add: good_record_def encodedRecordSize_def)

lemma encoding_good:
  assumes "\<And>b. length (sha b) = 32" "good_record r"
  shows "encodeRecord sha r = Inr (encoding sha r)" "length (encoding sha r) = record_size r"
  using assms length_record_body [of r sha] record_size_good [of r]
  by (auto simp: encoding_def encodeRecord_valid good_record_def record_size_def length_record_frame)

lemma jobs_from_append: "jobs_from sha k (xs @ ys) = jobs_from sha k xs @ jobs_from sha (k + length xs) ys"
  by (induction xs arbitrary: k) simp_all

lemma frame_jobs_loop_pack:
  assumes sha: "\<And>b. length (sha b) = 32" and "list_all good_record rs" "encs = map (encoding sha) open"
  shows "frame_jobs_loop sha target jobs encs open n rs = Inr (jobs @ jobs_from sha (length jobs) (pack target open n rs))"
  using assms(2,3)
proof (induction rs arbitrary: jobs encs "open" n)
  case (Cons r rs)
  then have r: "encodeRecord sha r = Inr (encoding sha r)" "length (encoding sha r) = record_size r"
    using encoding_good [OF sha] by simp_all
  show ?case
  proof (cases "open \<noteq> [] \<and> int (FrameHeaderSize + n + record_size r) > target")
    case True
    then show ?thesis
      using Cons.prems Cons.IH [of "[encoding sha r]" "[r]" "jobs @ [makeFrameJob sha (of_nat (length jobs)) encs open]" "record_size r"] r
      by simp
  next
    case False
    then show ?thesis
      using Cons.prems Cons.IH [of "encs @ [encoding sha r]" "open @ [r]" jobs "n + record_size r"] r by auto
  qed
qed simp

lemma concat_pack: "concat (pack target open n rs) = open @ rs"
  by (induction target "open" n rs rule: pack.induct) auto

lemma pack_nonempty: "c \<in> set (pack target open n rs) \<Longrightarrow> c \<noteq> []"
  by (induction target "open" n rs rule: pack.induct) (auto split: if_splits)

text \<open>What the decoder demands of the chunks of a segment.\<close>

fun packing_ok :: "int \<Rightarrow> envelope list list \<Rightarrow> bool" where
  "packing_ok target [] = True"
| "packing_ok target (c # cs) =
     ((length c = 1 \<or> int (FrameHeaderSize + sum_list (map record_size c)) \<le> target) \<and>
      (case concat cs of [] \<Rightarrow> True | r # _ \<Rightarrow> int (FrameHeaderSize + sum_list (map record_size c) + record_size r) > target) \<and>
      packing_ok target cs)"

lemma pack_ok:
  "n = sum_list (map record_size open) \<Longrightarrow>
   length open \<le> 1 \<or> int (FrameHeaderSize + n) \<le> target \<Longrightarrow> packing_ok target (pack target open n rs)"
proof (induction target "open" n rs rule: pack.induct)
  case (1 target "open" n)
  then show ?case by (cases "open" rule: list.exhaust) (auto simp: le_Suc_eq)
next
  case (2 target "open" n r rs)
  show ?case
  proof (cases "open \<noteq> [] \<and> int (FrameHeaderSize + n + record_size r) > target")
    case True
    have "packing_ok target (pack target [r] (record_size r) rs)" using 2(1) [OF True] by simp
    moreover have "length open = 1 \<or> int (FrameHeaderSize + n) \<le> target"
      using 2(4) True by (cases "open") (auto simp: le_Suc_eq)
    ultimately show ?thesis using True 2(3) by (simp add: concat_pack)
  next
    case False
    have "length (open @ [r]) \<le> 1 \<or> int (FrameHeaderSize + (n + record_size r)) \<le> target"
      using False by (auto simp: not_less)
    then have "packing_ok target (pack target (open @ [r]) (n + record_size r) rs)" using 2(2) [OF False] 2(3) by simp
    then show ?thesis by (simp only: pack.simps False if_False)
  qed
qed

subsection \<open>Reading the frames back\<close>

lemma decode_records_encoded:
  assumes sha: "\<And>b. length (sha b) = 32" and "list_all good_record c"
  shows "decode_records sha (concat (map (encoding sha) c)) acc = Inr (acc @ map canonical c)"
  using assms(2)
proof (induction c arbitrary: acc)
  case Nil
  show ?case by (simp add: decode_records.simps)
next
  case (Cons r c)
  let ?t = "concat (map (encoding sha) c)"
  have r: "good_record r" using Cons.prems by simp
  have "decodeRecord sha (encoding sha r @ ?t) = Inr (canonical r, length (encoding sha r))"
    using decode_encoded [of sha r ?t] sha r encoding_good [OF sha r] record_size_good [OF r]
    by (simp add: encoding_def good_record_def record_size_def)
  moreover have "encoding sha r \<noteq> []" by (simp add: encoding_def record_frame_def recordMagic_def str_bytes_def)
  ultimately show ?case using Cons by (simp add: decode_records.simps [of sha "encoding sha r @ ?t"])
qed

lemma encoding_min:
  assumes "good_record r"
  shows "minimumEncodedRecordBytes \<le> record_size r" "record_size r \<le> MaxRecordBytes"
proof -
  have v: "0 < length (e_source r)" "0 < length (e_channel r)" "0 < length (e_clock r)" "0 < length (e_recorder r)"
    using assms by (auto simp: good_record_def validateEnvelope_def)
  have rs: "record_size r = RecordHeaderSize + encoded_body_size r" using record_size_good [OF assms] by (simp add: record_size_def)
  have "40 + (2 + length (e_source r)) + (2 + length (e_channel r)) + (2 + length (e_clock r)) + (4 + length (e_payload r) + 32) +
      (2 + length (e_recorder r)) + (4 + length (e_ext r)) \<le> encoded_body_size r"
    unfolding encoded_body_size_def by linarith
  then have "92 \<le> encoded_body_size r" using v by linarith
  then show "minimumEncodedRecordBytes \<le> record_size r"
    unfolding rs minimumEncodedRecordBytes_def RecordHeaderSize_def by simp
  have "RecordHeaderSize \<le> MaxRecordBytes" by (simp add: RecordHeaderSize_def MaxRecordBytes_def MaxPayloadBytes_def)
  then show "record_size r \<le> MaxRecordBytes"
    using valid_body_fits [of r] assms unfolding rs good_record_def by linarith
qed

lemma length_encodings:
  assumes "\<And>b. length (sha b) = 32" "list_all good_record c"
  shows "length (concat (map (encoding sha) c)) = sum_list (map record_size c)"
  using assms(2) by (induction c) (simp_all add: encoding_good [OF assms(1)])

lemma sum_sizes_min: "list_all good_record c \<Longrightarrow> length c * minimumEncodedRecordBytes \<le> sum_list (map record_size c)"
  by (induction c) (auto dest: encoding_min(1) intro: add_mono)

lemma length_frameMagic [simp]: "length frameMagic = 8"
  by (simp add: frameMagic_def)

lemma frame_plain_slices:
  assumes "length (sha recs) = 32" "p = frame_plain sha ordinal recordCount firstO lastO firstR lastR recs"
  shows "length p = FrameHeaderSize + length recs" "slice 0 8 p = frameMagic" "slice 8 10 p = le_u16 FormatVersion"
    "slice 10 12 p = le_u16 (of_nat FrameHeaderSize)" "slice 12 16 p = le_u32 ordinal" "slice 16 20 p = le_u32 recordCount"
    "slice 20 24 p = le_u32 (of_nat (length recs))" "slice 24 32 p = le_u64 firstO" "slice 32 40 p = le_u64 lastO"
    "slice 40 48 p = i64_bytes firstR" "slice 48 56 p = i64_bytes lastR" "slice 56 88 p = sha recs"
    "drop FrameHeaderSize p = recs"
  unfolding assms(2) using assms(1) by (simp_all add: frame_plain_def slice_def FrameHeaderSize_def)

lemma i64_get: "in_i64 v \<Longrightarrow> sint (of_nat (le_get (i64_bytes v)) :: u64) = v"
  by (simp add: i64_bytes_def sint_of_int_i64)

text \<open>
  A chunk as the encoder makes it: its frame is within the window of the decoder, and so in
  bounds for the 32-bit fields of the frame.
\<close>

definition good_chunk :: "envelope list \<Rightarrow> bool" where
  "good_chunk c \<longleftrightarrow> c \<noteq> [] \<and> list_all good_record c \<and>
     FrameHeaderSize + sum_list (map record_size c) \<le> maxEncodedFrameWindowBytes"

lemma good_chunk_size: "good_chunk c \<Longrightarrow> sum_list (map record_size c) < 2 ^ 32"
  by (simp add: good_chunk_def maxEncodedFrameWindowBytes_def)

lemma good_chunk_length: "good_chunk c \<Longrightarrow> length c < 2 ^ 32"
  using sum_sizes_min [of c] good_chunk_size [of c]
  by (auto simp: good_chunk_def minimumEncodedRecordBytes_def RecordHeaderSize_def)

definition job_index :: "(bytes \<Rightarrow> hash) \<Rightarrow> nat \<Rightarrow> nat \<Rightarrow> bytes \<Rightarrow> frame_job \<Rightarrow> frame_index" where
  "job_index sha i offset compressed job =
     \<lparr>fx_ordinal = of_nat i, fx_offset = of_nat offset, fx_compressed = of_nat (length compressed),
      fx_plain = of_nat (length (fj_plain job)), fx_count = of_nat (fj_count job), fx_first = fj_first job,
      fx_last = fj_last job, fx_first_ns = fj_first_ns job, fx_last_ns = fj_last_ns job,
      fx_compressed_sha = sha compressed, fx_plain_sha = sha (fj_plain job)\<rparr>"

lemma canonical_fields [simp]: "e_arrival (canonical r) = e_arrival r" "e_received (canonical r) = e_received r"
  "e_source (canonical r) = e_source r" "e_channel (canonical r) = e_channel r"
  "e_conn (canonical r) = clear zero16 (e_conn r)" "e_poll (canonical r) = clear zero16 (e_poll r)"
  by (simp_all add: canonical_def)

lemma decodeFrame_job:
  assumes sha: "\<And>b. length (sha b) = 32" and c: "good_chunk c"
    and job_def: "job = makeFrameJob sha (of_nat i) (map (encoding sha) c) c"
  shows "decodeFrame sha (fj_plain job) (of_nat i) (of_nat offset) (of_nat (length compressed)) =
    Inr (map canonical c, (job_index sha i offset compressed job)\<lparr>fx_compressed_sha := zero32\<rparr>)"
proof -
  let ?recs = "concat (map (encoding sha) c)"
  have plain: "fj_plain job = frame_plain sha (of_nat i) (of_nat (length c)) (e_arrival (hd c)) (e_arrival (last c))
      (e_received (hd c)) (e_received (last c)) ?recs"
    and job: "fj_count job = length c" "fj_first job = e_arrival (hd c)" "fj_last job = e_arrival (last c)"
      "fj_first_ns job = e_received (hd c)" "fj_last_ns job = e_received (last c)"
    by (simp_all add: job_def makeFrameJob_def)
  note sl = frame_plain_slices [OF sha plain]
  have good: "c \<noteq> []" "list_all good_record c" and len: "length ?recs = sum_list (map record_size c)"
    using c length_encodings [OF sha] by (auto simp: good_chunk_def)
  have words: "unat (of_nat (length ?recs) :: u32) = length ?recs" "unat (of_nat (length c) :: u32) = length c"
    using good_chunk_size [OF c] good_chunk_length [OF c] by (simp_all add: len unat_of_nat_u32)
  have nz: "(of_nat (length c) :: u32) \<noteq> 0" using words(2) good(1) by (metis length_0_conv unat_0)
  have room: "\<not> length c > length ?recs div minimumEncodedRecordBytes"
    using sum_sizes_min [OF good(2)] by (simp add: len not_less less_eq_div_iff_mult_less_eq minimumEncodedRecordBytes_def)
  have i64: "in_i64 (e_received (hd c))" "in_i64 (e_received (last c))"
    using good by (auto simp: list_all_iff good_record_def envelope_shape_def)
  have rs: "decode_records sha ?recs [] = Inr (map canonical c)" using decode_records_encoded [OF sha good(2)] by simp
  show ?thesis
    unfolding decodeFrame_def sl
    using words nz room rs good(1) i64
    by (simp add: Let_def sl(1) FrameHeaderSize_def hd_map last_map i64_get job_index_def job)
qed

text \<open>
  What the code relies on in the compression of one frame: the decoder gives the
  plain bytes back, and the output is one frame of the fixed profile, whose length
  can be told from its first bytes.
\<close>

definition stored :: "(bytes \<Rightarrow> bytes option) \<Rightarrow> bytes \<Rightarrow> bytes \<Rightarrow> bool" where
  "stored dec plain out \<longleftrightarrow> dec out = Some plain \<and> (\<forall>rest. zstdFrameLength (out @ rest) = Inr (length out))"

lemma stored_nonempty: "stored dec plain out \<Longrightarrow> out \<noteq> []"
  using zstdFrameLength_bounds [of "out @ []"] by (auto simp: stored_def)

lemma encode_frames_bytes:
  "fst (snd (encode_frames sha k out acc ps)) = out @ concat (map snd ps)"
  by (induction sha k out acc ps rule: encode_frames.induct) (auto simp: Let_def split: prod.splits)

lemma encode_frames_Cons:
  "encode_frames sha k pre acc ((job, out) # ps) = (ixs, bs, t) \<longleftrightarrow>
     (\<exists>rest. encode_frames sha (Suc k) (pre @ out) (acc + of_nat (length (fj_plain job))) ps = (rest, bs, t) \<and>
        ixs = job_index sha k (length pre) out job # rest)"
  by (auto simp: Let_def job_index_def split: prod.splits)

text \<open>Whether a list of expected indices, if there is one, has the given indices at a position.\<close>

definition expects :: "frame_index list option \<Rightarrow> nat \<Rightarrow> frame_index list \<Rightarrow> bool" where
  "expects expected k ixs \<longleftrightarrow> (case expected of None \<Rightarrow> True | Some fs \<Rightarrow> \<exists>pf sf. fs = pf @ ixs @ sf \<and> length pf = k)"

lemma expects_Cons: "expects expected k (x # xs) \<Longrightarrow> expects expected (Suc k) xs"
  by (auto simp: expects_def split: option.splits) (metis append_Cons append_Nil append_assoc length_append_singleton)

lemma expects_nth: "expects (Some fs) k (x # xs) \<Longrightarrow> k < length fs \<and> fs ! k = x"
  by (auto simp: expects_def)

lemma decode_one_frame:
  assumes sha: "\<And>b. length (sha b) = 32" and c: "good_chunk c" "k < 2 ^ 32"
    and job: "job = makeFrameJob sha (of_nat k) (map (encoding sha) c) c"
    and out: "stored dec (fj_plain job) out" and ex: "expects expected k (job_index sha k (length pre) out job # ixs)"
  shows "decode_one sha dec expected (pre @ out @ post) (length pre) (of_nat k) =
    Inr (length out, fj_plain job, map canonical c, job_index sha k (length pre) out job)"
proof -
  have k: "unat (of_nat k :: u32) = k" using c(2) by (simp add: unat_of_nat_u32)
  have len: "zstdFrameLength (out @ post) = Inr (length out)" and dec: "dec out = Some (fj_plain job)"
    using out by (simp_all add: stored_def)
  note frame = decodeFrame_job [OF sha c(1) job, of "length pre" out]
  show ?thesis
  proof (cases expected)
    case None
    then show ?thesis by (simp add: decode_one_def len dec frame job_index_def)
  next
    case (Some fs)
    then have fs: "k < length fs" "fs ! k = job_index sha k (length pre) out job" using ex expects_nth by blast+
    have "validateCompressedAgainstIndex sha out (of_nat (length pre)) (job_index sha k (length pre) out job)"
      by (simp add: validateCompressedAgainstIndex_def job_index_def)
    moreover have "compareFrameIndex (job_index sha k (length pre) out job) (job_index sha k (length pre) out job)"
      by (simp add: compareFrameIndex_def)
    moreover have "(job_index sha k (length pre) out job)\<lparr>fx_compressed_sha := fx_compressed_sha (job_index sha k (length pre) out job)\<rparr> =
        job_index sha k (length pre) out job" by simp
    ultimately show ?thesis using Some fs by (simp add: decode_one_def len dec frame k)
  qed
qed

lemma decode_loop_step:
  "decode_one sha dec expected data offset (of_nat (length (dr_frames res))) = Inr (n, plain, rs, ix) \<Longrightarrow>
   decode_loop sha dec expected data offset res acc = decode_loop sha dec expected data (offset + n)
     \<lparr>dr_records = dr_records res @ rs, dr_frames = dr_frames res @ [ix], dr_complete = of_nat (offset + n)\<rparr> (acc @ plain)"
  using decode_one_progress [of sha dec expected data offset "of_nat (length (dr_frames res))" n plain rs ix]
  by (subst decode_loop.simps) auto

lemma decode_loop_frames:
  assumes sha: "\<And>b. length (sha b) = 32"
  shows "list_all good_chunk cs \<Longrightarrow> list_all2 (stored dec) (map fj_plain (jobs_from sha k cs)) outs \<Longrightarrow>
    encode_frames sha k pre tot (zip (jobs_from sha k cs) outs) = (ixs, bs, t) \<Longrightarrow>
    k = length (dr_frames res) \<Longrightarrow> k + length cs \<le> 2 ^ 32 \<Longrightarrow> expects expected k ixs \<Longrightarrow>
    decode_loop sha dec expected (bs @ post) (length pre) res acc =
      decode_loop sha dec expected (bs @ post) (length bs)
        \<lparr>dr_records = dr_records res @ map canonical (concat cs), dr_frames = dr_frames res @ ixs,
         dr_complete = (if cs = [] then dr_complete res else of_nat (length bs))\<rparr>
        (acc @ concat (map fj_plain (jobs_from sha k cs)))"
proof (induction cs arbitrary: k outs pre tot ixs res acc)
  case Nil
  then have "ixs = []" "bs = pre" by simp_all
  then show ?case by (cases res) simp
next
  case (Cons c cs)
  let ?job = "makeFrameJob sha (of_nat k) (map (encoding sha) c) c"
  from Cons.prems(2) obtain out outs' where outs: "outs = out # outs'" "stored dec (fj_plain ?job) out"
    "list_all2 (stored dec) (map fj_plain (jobs_from sha (Suc k) cs)) outs'" by (cases outs) auto
  let ?rest = "zip (jobs_from sha (Suc k) cs) outs'"
  obtain ixs' where ixs: "encode_frames sha (Suc k) (pre @ out) (tot + of_nat (length (fj_plain ?job))) ?rest = (ixs', bs, t)"
    "ixs = job_index sha k (length pre) out ?job # ixs'"
    using Cons.prems(3) unfolding outs(1) jobs_from.simps zip_Cons_Cons encode_frames_Cons by blast
  have "bs = (pre @ out) @ concat (map snd ?rest)"
    using encode_frames_bytes [of sha "Suc k" "pre @ out" "tot + of_nat (length (fj_plain ?job))" ?rest] ixs(1) by simp
  then have data: "bs @ post = pre @ out @ (concat (map snd ?rest) @ post)" by simp
  have "decode_one sha dec expected (bs @ post) (length pre) (of_nat (length (dr_frames res))) =
      Inr (length out, fj_plain ?job, map canonical c, job_index sha k (length pre) out ?job)"
    unfolding data Cons.prems(4) [symmetric]
    by (rule decode_one_frame [OF sha _ _ refl outs(2)]) (use Cons.prems ixs(2) in auto)
  note step = decode_loop_step [OF this, of acc]
  have ex: "expects expected (Suc k) ixs'" using Cons.prems(6) ixs(2) expects_Cons by blast
  show ?case
    unfolding step using Cons.prems(1,4,5) ixs(2)
      Cons.IH [OF _ outs(3) ixs(1) _ _ ex, of "\<lparr>dr_records = dr_records res @ map canonical c,
        dr_frames = dr_frames res @ [job_index sha k (length pre) out ?job], dr_complete = of_nat (length pre + length out)\<rparr>"
        "acc @ fj_plain ?job"]
    by (simp add: \<open>bs = _\<close>)
qed

subsection \<open>The summary of the manifest\<close>

text \<open>An index that describes a chunk.\<close>

definition describes :: "frame_index \<Rightarrow> envelope list \<Rightarrow> bool" where
  "describes f c \<longleftrightarrow> fx_count f = of_nat (length c) \<and> fx_plain f = of_nat (FrameHeaderSize + sum_list (map record_size c))"

lemma indices_describe:
  assumes sha: "\<And>b. length (sha b) = 32"
  shows "list_all good_chunk cs \<Longrightarrow> length outs = length cs \<Longrightarrow>
    encode_frames sha k pre tot (zip (jobs_from sha k cs) outs) = (ixs, bs, t) \<Longrightarrow>
    list_all2 describes ixs cs \<and> t = tot + sum_list (map fx_plain ixs)"
proof (induction cs arbitrary: k outs pre tot ixs)
  case (Cons c cs)
  let ?job = "makeFrameJob sha (of_nat k) (map (encoding sha) c) c"
  from Cons.prems(2) obtain out outs' where outs: "outs = out # outs'" "length outs' = length cs" by (cases outs) auto
  obtain ixs' where ixs: "encode_frames sha (Suc k) (pre @ out) (tot + of_nat (length (fj_plain ?job)))
      (zip (jobs_from sha (Suc k) cs) outs') = (ixs', bs, t)" "ixs = job_index sha k (length pre) out ?job # ixs'"
    using Cons.prems(3) unfolding outs(1) jobs_from.simps zip_Cons_Cons encode_frames_Cons by blast
  have "length (fj_plain ?job) = FrameHeaderSize + sum_list (map record_size c)"
    using frame_plain_slices(1) [of sha, OF sha refl] length_encodings [OF sha, of c] Cons.prems(1)
    by (simp add: makeFrameJob_def good_chunk_def)
  then have "describes (job_index sha k (length pre) out ?job) c"
    by (simp add: describes_def job_index_def makeFrameJob_def)
  then show ?case using Cons.IH [OF _ outs(2) ixs(1)] Cons.prems(1) ixs(2) by (simp add: job_index_def algebra_simps)
qed simp

lemma ucast_count: "n < 2 ^ 32 \<Longrightarrow> (ucast (of_nat n :: u32) :: u64) = of_nat n"
  by (simp add: unsigned_of_nat take_bit_nat_eq_self)

lemma counts_add_up:
  "list_all2 describes ixs cs \<Longrightarrow> list_all good_chunk cs \<Longrightarrow>
   sum_list (map (\<lambda>f. ucast (fx_count f) :: u64) ixs) = of_nat (length (concat cs))"
  by (induction ixs cs rule: list_all2_induct) (auto simp: describes_def ucast_count dest: good_chunk_length)

lemma packing_target:
  "list_all2 describes ixs cs \<Longrightarrow> packing_ok target cs \<Longrightarrow> list_all good_chunk cs \<Longrightarrow>
   frame_target_ok target (pre @ map record_size (concat cs)) ixs (length pre)"
proof (induction ixs cs arbitrary: pre rule: list_all2_induct)
  case (Cons f ixs c cs)
  have n: "unat (fx_count f) = length c" and c: "c \<noteq> []"
    using Cons good_chunk_length [of c] by (auto simp: describes_def unat_of_nat_u32 good_chunk_def)
  have one: "fx_count f \<noteq> 1 \<longleftrightarrow> length c \<noteq> 1" using n by (metis unat_1 word_unat_eq_iff)
  have "frame_target_ok target ((pre @ map record_size c) @ map record_size (concat cs)) ixs (length (pre @ map record_size c))"
    using Cons.IH [of "pre @ map record_size c"] Cons.prems by simp
  moreover have "int (FrameHeaderSize + sum_list (map record_size c) + (map record_size (concat cs)) ! 0) > target"
    if "concat cs \<noteq> []" using Cons.prems(1) that by (cases "concat cs") auto
  ultimately show ?case
    using Cons n one by (auto simp: describes_def nth_append Let_def not_le)
qed simp

lemma segment_records_canonical:
  "segment_records_ok f p rs \<Longrightarrow> segment_records_ok (canonical f) (map_option canonical p) (map canonical rs)"
  by (induction f p rs rule: segment_records_ok.induct) (auto split: option.splits)

lemma optional_size_clear [simp]: "optional_size n (clear z v) = optional_size n v"
  "optional_size (Suc (Suc (length (o_value (clear y t))))) t = optional_size (Suc (Suc (length (o_value t)))) t"
  by (simp_all add: optional_size_def)

lemma record_size_canonical: "encodedRecordSize (canonical r) = encodedRecordSize r"
proof -
  have "encoded_body_size (canonical r) = encoded_body_size r"
    by (simp add: encoded_body_size_def canonical_def del: clear_value)
  then show ?thesis by (simp add: encodedRecordSize_def validateEnvelope_canonical)
qed

lemma packing_size:
  "packing_ok target cs \<Longrightarrow> c \<in> set cs \<Longrightarrow> length c = 1 \<or> int (FrameHeaderSize + sum_list (map record_size c)) \<le> target"
  by (induction cs) auto

lemma pack_good:
  assumes "list_all good_record rs" "target \<le> MaxSupportedFrameBytes" "c \<in> set (pack target [] 0 rs)"
  shows "good_chunk c"
proof -
  let ?cs = "pack target [] 0 rs"
  have "packing_ok target ?cs" by (rule pack_ok) simp_all
  then have size: "length c = 1 \<or> int (FrameHeaderSize + sum_list (map record_size c)) \<le> target"
    using assms(3) packing_size by blast
  have "set c \<subseteq> set (concat ?cs)" using assms(3) by auto
  then have good: "list_all good_record c" using assms(1) by (auto simp: concat_pack list_all_iff)
  have "FrameHeaderSize + sum_list (map record_size c) \<le> maxEncodedFrameWindowBytes"
    using size
  proof
    assume "length c = 1"
    then obtain r where r: "c = [r]" by (auto simp: length_Suc_conv)
    then have "record_size r \<le> MaxRecordBytes" using good encoding_min(2) by simp
    then show ?thesis
      using r by (simp add: MaxRecordBytes_def MaxPayloadBytes_def MaxExtensionBytes_def FrameHeaderSize_def maxEncodedFrameWindowBytes_def)
  next
    assume "int (FrameHeaderSize + sum_list (map record_size c)) \<le> target"
    then show ?thesis using assms(2) by (simp add: MaxSupportedFrameBytes_def maxEncodedFrameWindowBytes_def)
  qed
  then show ?thesis using good pack_nonempty [OF assms(3)] by (simp add: good_chunk_def)
qed

subsection \<open>A segment survives\<close>

lemma next_power_ge: "0 < p \<Longrightarrow> v \<le> next_power p v"
  by (induction p v rule: next_power.induct) (subst next_power.simps, auto)

lemma nextPowerOfTwo_ge: "v \<le> nextPowerOfTwo v"
  by (simp add: nextPowerOfTwo_def next_power_ge)

lemma next_power_le: "0 < p \<Longrightarrow> p dvd m \<Longrightarrow> (\<exists>k. m = p * 2 ^ k) \<Longrightarrow> v \<le> m \<Longrightarrow> next_power p v \<le> m"
proof (induction p v rule: next_power.induct)
  case (1 p v)
  obtain k where k: "m = p * 2 ^ k" using "1.prems"(3) by blast
  show ?case
  proof (cases "p < v")
    case True
    then have "k \<noteq> 0" using k "1.prems"(4) by (intro notI) simp
    then obtain j where "k = Suc j" by (cases k) auto
    then have "m = 2 * p * 2 ^ j" using k by simp
    then have "next_power (2 * p) v \<le> m" using "1.IH" True "1.prems" by auto
    then show ?thesis using True "1.prems"(1) by (subst next_power.simps) simp
  next
    case False
    then show ?thesis using k "1.prems"(1) by (subst next_power.simps) simp
  qed
qed

lemma nextPowerOfTwo_le: "v \<le> 2 ^ k \<Longrightarrow> nextPowerOfTwo v \<le> 2 ^ k"
  by (auto simp: nextPowerOfTwo_def intro!: next_power_le)

text \<open>
  What the documentation of the library promises: the smallest window is one kibibyte; a
  decoder can be made with the limits of the code; and for any limits, what an encoder
  makes of a non-empty text that fits its window, when that window is within the
  window limit and the text within the memory limit, is one frame of the fixed profile
  that the decoder turns back into the text.
\<close>

definition zstd_law :: "zstd_lib \<Rightarrow> (bytes \<Rightarrow> bytes option) \<Rightarrow> bool" where
  "zstd_law z dec \<longleftrightarrow> z_min_window z = 1024 \<and> z_reader z maxDecodedFrameBytes maxEncodedFrameWindowBytes = Some dec \<and>
     (\<forall>memory window r w f plain. z_reader z memory window = Some r \<longrightarrow> z_writer z w = Some f \<longrightarrow> plain \<noteq> [] \<longrightarrow>
        length plain \<le> w \<longrightarrow> w \<le> window \<longrightarrow> length plain \<le> memory \<longrightarrow> stored r plain (f plain))"

lemma compress_frame_stored:
  assumes "zstd_law z dec" "compress_frame z job = Some out" "fj_plain job \<noteq> []" "length (fj_plain job) \<le> maxEncodedFrameWindowBytes"
  shows "stored dec (fj_plain job) out"
proof -
  let ?w = "nextPowerOfTwo (max (length (fj_plain job)) (z_min_window z))"
  obtain f where f: "z_writer z ?w = Some f" "out = f (fj_plain job)"
    using assms(2) by (auto simp: compress_frame_def split: option.splits)
  have "length (fj_plain job) \<le> ?w" using nextPowerOfTwo_ge [of "max (length (fj_plain job)) (z_min_window z)"] by linarith
  moreover have "?w \<le> 2 ^ 25"
    using assms(1,4) by (intro nextPowerOfTwo_le) (simp add: zstd_law_def maxEncodedFrameWindowBytes_def)
  then have "?w \<le> maxEncodedFrameWindowBytes" by (simp add: maxEncodedFrameWindowBytes_def)
  moreover have "length (fj_plain job) \<le> maxDecodedFrameBytes" using assms(4) by (simp add: maxDecodedFrameBytes_def)
  ultimately show ?thesis using assms(1,3) f unfolding zstd_law_def by blast
qed

lemma job_plain_size:
  assumes "\<And>b. length (sha b) = 32" "good_chunk c"
  shows "length (fj_plain (makeFrameJob sha k (map (encoding sha) c) c)) = FrameHeaderSize + sum_list (map record_size c)"
proof -
  have "length (concat (map (encoding sha) c)) = sum_list (map record_size c)"
    using assms(2) by (intro length_encodings [OF assms(1)]) (simp add: good_chunk_def)
  then show ?thesis by (simp add: makeFrameJob_def frame_plain_def assms(1) FrameHeaderSize_def)
qed

lemma compressFrames_stored:
  assumes z: "zstd_law z dec" and sha: "\<And>b. length (sha b) = 32"
  shows "compressFrames z (jobs_from sha k cs) = Some outs \<Longrightarrow> list_all good_chunk cs \<Longrightarrow>
    list_all2 (stored dec) (map fj_plain (jobs_from sha k cs)) outs"
proof (induction cs arbitrary: k outs)
  case (Cons c cs)
  let ?job = "makeFrameJob sha (of_nat k) (map (encoding sha) c) c"
  obtain out outs' where o1: "compress_frame z ?job = Some out" "compressFrames z (jobs_from sha (Suc k) cs) = Some outs'" "outs = out # outs'"
    using Cons.prems(1) by (auto split: option.splits)
  have c: "good_chunk c" using Cons.prems(2) by simp
  have len: "length (fj_plain ?job) = FrameHeaderSize + sum_list (map record_size c)" by (rule job_plain_size [OF sha c])
  then have "fj_plain ?job \<noteq> []" by (auto simp: FrameHeaderSize_def)
  moreover have "length (fj_plain ?job) \<le> maxEncodedFrameWindowBytes" using len c by (simp add: good_chunk_def)
  ultimately have "stored dec (fj_plain ?job) out" using compress_frame_stored [OF z o1(1)] by simp
  then show ?case using Cons.IH [OF o1(2)] Cons.prems(2) o1(3) by simp
qed simp

lemma normalized_target:
  assumes "normalizeEncodeOptions opts = Inr o1"
  shows "eo_frame_bytes o1 \<le> MaxSupportedFrameBytes" "sint (of_int (eo_frame_bytes o1) :: u64) = eo_frame_bytes o1"
    "\<exists>o2. normalizeEncodeOptions \<lparr>eo_frame_bytes = eo_frame_bytes o1, eo_concurrency = 1\<rparr> = Inr o2"
proof -
  have r: "1048576 \<le> eo_frame_bytes o1 \<and> eo_frame_bytes o1 \<le> MaxSupportedFrameBytes \<and>
      eo_frame_bytes o1 AND (eo_frame_bytes o1 - 1) = 0"
    using assms by (auto simp: normalizeEncodeOptions_def Let_def split: if_splits)
  then show "eo_frame_bytes o1 \<le> MaxSupportedFrameBytes" by simp
  have "in_i64 (eo_frame_bytes o1)" using r by (simp add: in_i64_def MaxSupportedFrameBytes_def)
  then show "sint (of_int (eo_frame_bytes o1) :: u64) = eo_frame_bytes o1" by (rule sint_of_int_i64)
  show "\<exists>o2. normalizeEncodeOptions \<lparr>eo_frame_bytes = eo_frame_bytes o1, eo_concurrency = 1\<rparr> = Inr o2"
    using r by (auto simp: normalizeEncodeOptions_def Let_def)
qed

lemma frame_jobs_loop_valid: "frame_jobs_loop sha target jobs encs open n rs = Inr js \<Longrightarrow> list_all validateEnvelope rs"
  by (induction sha target jobs encs "open" n rs rule: frame_jobs_loop.induct)
    (auto split: sum.splits if_splits simp: encodeRecord_valid)

text \<open>What a successful encoding of records consists of.\<close>

lemma Encode_parts:
  assumes "Encode sha z rs opts = Inr seg" "rs \<noteq> []" "\<And>b. length (sha b) = 32" "list_all envelope_shape rs"
  obtains o1 cs outs ixs t where "normalizeEncodeOptions opts = Inr o1" "validateSegmentRecords rs" "list_all good_record rs"
    "cs = pack (eo_frame_bytes o1) [] 0 rs" "compressFrames z (jobs_from sha 0 cs) = Some outs"
    "encode_frames sha 0 [] 0 (zip (jobs_from sha 0 cs) outs) = (ixs, es_bytes seg, t)"
    "es_manifest seg = \<lparr>mf_version = FormatVersion, mf_frame_bytes = of_int (eo_frame_bytes o1),
       mf_count = of_nat (length rs), mf_plain = t, mf_compressed = of_nat (length (es_bytes seg)),
       mf_first = e_arrival (hd rs), mf_last = e_arrival (last rs), mf_first_ns = e_received (hd rs),
       mf_last_ns = e_received (last rs), mf_compressed_sha = sha (concat outs),
       mf_plain_sha = sha (concat (map fj_plain (jobs_from sha 0 cs))), mf_frames = ixs\<rparr>"
proof -
  obtain o1 where o1: "normalizeEncodeOptions opts = Inr o1" using assms(1) by (auto simp: Encode_def split: sum.splits)
  obtain jobs where v: "validateSegmentRecords rs" and jobs: "buildFrameJobs sha rs (eo_frame_bytes o1) = Inr jobs"
    using assms(1,2) o1 by (auto simp: Encode_def split: sum.splits if_splits)
  have good: "list_all good_record rs"
    using frame_jobs_loop_valid [OF jobs [unfolded buildFrameJobs_def]] assms(4) by (simp add: list_all_iff good_record_def)
  have j: "jobs = jobs_from sha 0 (pack (eo_frame_bytes o1) [] 0 rs)"
    using jobs frame_jobs_loop_pack [of sha rs "[]" "[]" "eo_frame_bytes o1" "[]" 0, OF assms(3) good] by (simp add: buildFrameJobs_def)
  obtain outs where outs: "compressFrames z jobs = Some outs"
    using assms(1,2) o1 v jobs by (auto simp: Encode_def split: option.splits)
  obtain ixs bs t where e: "encode_frames sha 0 [] 0 (zip jobs outs) = (ixs, bs, t)" by (metis prod_cases3)
  then have seg: "seg = \<lparr>es_bytes = bs, es_manifest = \<lparr>mf_version = FormatVersion, mf_frame_bytes = of_int (eo_frame_bytes o1),
       mf_count = of_nat (length rs), mf_plain = t, mf_compressed = of_nat (length bs),
       mf_first = e_arrival (hd rs), mf_last = e_arrival (last rs), mf_first_ns = e_received (hd rs),
       mf_last_ns = e_received (last rs), mf_compressed_sha = sha (concat outs),
       mf_plain_sha = sha (concat (map fj_plain jobs)), mf_frames = ixs\<rparr>\<rparr>"
    using assms(1,2) o1 v jobs outs by (simp add: Encode_def)
  show thesis
    by (rule that [OF o1 v good refl outs [unfolded j]]) (use e in \<open>simp_all add: seg j\<close>)
qed

lemma length_jobs_from [simp]: "length (jobs_from sha k cs) = length cs"
  by (induction cs arbitrary: k) simp_all

lemma length_compressFrames: "compressFrames z jobs = Some outs \<Longrightarrow> length outs = length jobs"
  by (induction jobs arbitrary: outs) (auto split: option.splits)

lemma pack_count: "length (pack target [] 0 rs) \<le> length rs"
proof -
  have "length cs \<le> length (concat cs)" if "\<And>c. c \<in> set cs \<Longrightarrow> c \<noteq> []" for cs :: "envelope list list"
    using that
  proof (induction cs)
    case (Cons c cs)
    then have "length cs \<le> length (concat cs)" "1 \<le> length c" by (auto simp: Suc_le_eq)
    then have "1 + length cs \<le> length c + length (concat cs)" by (rule add_mono [rotated])
    then show ?case by simp
  qed simp
  from this [of "pack target [] 0 rs"] show ?thesis using pack_nonempty by (simp add: concat_pack)
qed

lemma summary_holds:
  assumes "validateSegmentRecords rs" "list_all good_record rs" "rs \<noteq> []" "concat cs = rs" "list_all good_chunk cs"
    "list_all2 describes ixs cs" "packing_ok (sint (mf_frame_bytes m)) cs"
    and "mf_count m = of_nat (length rs)" "mf_plain m = sum_list (map fx_plain ixs)" "mf_compressed m = of_nat (length data)"
    "mf_compressed_sha m = sha data" "mf_plain_sha m = ph"
    "mf_first m = e_arrival (hd rs)" "mf_last m = e_arrival (last rs)" "mf_first_ns m = e_received (hd rs)"
    "mf_last_ns m = e_received (last rs)"
  shows "validateManifestSummary sha data \<lparr>dr_records = map canonical rs, dr_frames = ixs, dr_complete = n\<rparr> ph m"
proof -
  have "validateSegmentRecords (map canonical rs)"
    using segment_records_canonical [of "hd rs" None rs] assms(1,3) by (simp add: validateSegmentRecords_def hd_map)
  moreover have "validateManifestFrameTarget (map canonical rs) ixs (sint (mf_frame_bytes m))"
  proof -
    have "map record_size (map canonical rs) = map record_size (concat cs)"
      by (simp add: record_size_def record_size_canonical assms(4))
    moreover have "list_all (\<lambda>r. case encodedRecordSize r of Inl _ \<Rightarrow> False | Inr _ \<Rightarrow> True) (map canonical rs)"
      using assms(2) record_size_good by (auto simp: list_all_iff record_size_canonical)
    ultimately show ?thesis
      using packing_target [OF assms(6,7,5), of "[]"] by (simp only: validateManifestFrameTarget_def append_Nil list.size(3) simp_thms)
  qed
  moreover have "mf_count m = sum_list (map (\<lambda>f. ucast (fx_count f)) ixs)"
    using counts_add_up [OF assms(6,5)] assms(4,8) by simp
  ultimately show ?thesis
    using assms(3) assms(9-16) unfolding validateManifestSummary_def by (simp add: hd_map last_map)
qed

lemma Decode_run:
  assumes "mf_version m = FormatVersion"
    "normalizeEncodeOptions \<lparr>eo_frame_bytes = sint (mf_frame_bytes m), eo_concurrency = 1\<rparr> = Inr o2" "z_reader z maxDecodedFrameBytes maxEncodedFrameWindowBytes = Some dec"
    and "decode_loop sha dec (Some (mf_frames m)) data 0 empty_result [] = (result, plains, None)"
    "length (dr_frames result) = length (mf_frames m)" "validateManifestSummary sha data result (sha plains) m"
  shows "segment_Decode sha z data (Some m) = (result, None)"
  using assms by (simp add: segment_Decode_def)

lemma decode_loop_end: "decode_loop sha dec expected data (length data) res acc = (res, acc, None)"
  by (simp add: decode_loop.simps)

text \<open>All that is known of a segment that was encoded from records and stored by a lawful library.\<close>

definition manifest_of :: "(bytes \<Rightarrow> hash) \<Rightarrow> envelope list \<Rightarrow> bytes \<Rightarrow> int \<Rightarrow> envelope list list \<Rightarrow> manifest \<Rightarrow> bool" where
  "manifest_of sha rs bs target cs m \<longleftrightarrow> mf_version m = FormatVersion \<and> sint (mf_frame_bytes m) = target \<and>
     mf_count m = of_nat (length rs) \<and> mf_plain m = sum_list (map fx_plain (mf_frames m)) \<and>
     mf_compressed m = of_nat (length bs) \<and> mf_first m = e_arrival (hd rs) \<and> mf_last m = e_arrival (last rs) \<and>
     mf_first_ns m = e_received (hd rs) \<and> mf_last_ns m = e_received (last rs) \<and> mf_compressed_sha m = sha bs \<and>
     mf_plain_sha m = sha (concat (map fj_plain (jobs_from sha 0 cs))) \<and> list_all2 describes (mf_frames m) cs"

definition segment_made :: "(bytes \<Rightarrow> hash) \<Rightarrow> (bytes \<Rightarrow> bytes option) \<Rightarrow> envelope list \<Rightarrow> bytes \<Rightarrow> manifest \<Rightarrow> int \<Rightarrow>
    envelope list list \<Rightarrow> bytes list \<Rightarrow> bool" where
  "segment_made sha dec rs bs m target cs outs \<longleftrightarrow>
     validateSegmentRecords rs \<and> list_all good_record rs \<and> concat cs = rs \<and> list_all good_chunk cs \<and>
     packing_ok target cs \<and> length cs \<le> length rs \<and> cs \<noteq> [] \<and> length outs = length cs \<and>
     list_all2 (stored dec) (map fj_plain (jobs_from sha 0 cs)) outs \<and> bs = concat outs \<and>
     (\<exists>t. encode_frames sha 0 [] 0 (zip (jobs_from sha 0 cs) outs) = (mf_frames m, bs, t)) \<and>
     (\<exists>o2. normalizeEncodeOptions \<lparr>eo_frame_bytes = target, eo_concurrency = 1\<rparr> = Inr o2) \<and> manifest_of sha rs bs target cs m"

lemma Encode_made:
  assumes sha: "\<And>b. length (sha b) = 32" and z: "zstd_law z dec" and rs: "list_all envelope_shape rs" "rs \<noteq> []"
    and enc: "Encode sha z rs opts = Inr seg"
  obtains target cs outs where "segment_made sha dec rs (es_bytes seg) (es_manifest seg) target cs outs"
proof -
  from enc rs(2) sha rs(1) obtain o1 cs outs ixs t where p: "normalizeEncodeOptions opts = Inr o1" "validateSegmentRecords rs"
    "list_all good_record rs" "cs = pack (eo_frame_bytes o1) [] 0 rs" "compressFrames z (jobs_from sha 0 cs) = Some outs"
    "encode_frames sha 0 [] 0 (zip (jobs_from sha 0 cs) outs) = (ixs, es_bytes seg, t)"
    and m: "es_manifest seg = \<lparr>mf_version = FormatVersion, mf_frame_bytes = of_int (eo_frame_bytes o1),
       mf_count = of_nat (length rs), mf_plain = t, mf_compressed = of_nat (length (es_bytes seg)),
       mf_first = e_arrival (hd rs), mf_last = e_arrival (last rs), mf_first_ns = e_received (hd rs),
       mf_last_ns = e_received (last rs), mf_compressed_sha = sha (concat outs),
       mf_plain_sha = sha (concat (map fj_plain (jobs_from sha 0 cs))), mf_frames = ixs\<rparr>"
    by (rule Encode_parts)
  note target = normalized_target [OF p(1)]
  have cs: "concat cs = rs" "list_all good_chunk cs" "packing_ok (eo_frame_bytes o1) cs" "length cs \<le> length rs" "cs \<noteq> []"
    using pack_good [OF p(3) target(1)] pack_ok [of 0 "[]" "eo_frame_bytes o1" rs] pack_count [of "eo_frame_bytes o1" rs] rs(2)
      concat_pack [of "eo_frame_bytes o1" "[]" 0 rs] unfolding p(4) list_all_iff by auto
  have len: "length outs = length cs" using length_compressFrames [OF p(5)] by simp
  have bytes: "es_bytes seg = concat outs"
    using encode_frames_bytes [of sha 0 "[]" 0 "zip (jobs_from sha 0 cs) outs"] p(6) len by simp
  have "segment_made sha dec rs (es_bytes seg) (es_manifest seg) (eo_frame_bytes o1) cs outs"
    using p cs len bytes target indices_describe [OF sha cs(2) len p(6)] compressFrames_stored [OF z sha p(5) cs(2)]
    by (simp add: segment_made_def manifest_of_def m)
  then show thesis by (rule that)
qed

text \<open>The frames of such a segment, or a first part of them, are read back from the start, whatever follows.\<close>

lemma encode_frames_take:
  "encode_frames sha k pre tot ps = (ixs, bs, t) \<Longrightarrow>
   \<exists>t'. encode_frames sha k pre tot (take n ps) = (take n ixs, pre @ concat (map snd (take n ps)), t')"
proof (induction ps arbitrary: k pre tot ixs n)
  case (Cons p ps)
  obtain job out where p: "p = (job, out)" by fastforce
  obtain ixs' where ixs: "encode_frames sha (Suc k) (pre @ out) (tot + of_nat (length (fj_plain job))) ps = (ixs', bs, t)"
    "ixs = job_index sha k (length pre) out job # ixs'"
    using Cons.prems unfolding p encode_frames_Cons by blast
  show ?case
  proof (cases n)
    case (Suc j)
    obtain t' where "encode_frames sha (Suc k) (pre @ out) (tot + of_nat (length (fj_plain job))) (take j ps) =
        (take j ixs', (pre @ out) @ concat (map snd (take j ps)), t')"
      using Cons.IH [OF ixs(1)] by blast
    then show ?thesis using ixs(2) unfolding Suc p take_Suc_Cons encode_frames_Cons by auto
  qed simp
qed simp

lemma jobs_from_take: "take n (jobs_from sha k cs) = jobs_from sha k (take n cs)"
  by (induction cs arbitrary: k n) (auto simp: take_Cons split: nat.split)

lemma expects_take: "\<exists>sf. fs = take n fs @ sf"
  by (metis append_take_drop_id)

lemma made_prefix_decoded:
  assumes sha: "\<And>b. length (sha b) = 32" and made: "segment_made sha dec rs bs m target cs outs" and "length rs \<le> 2 ^ 32"
    and expected: "expected = None \<or> expected = Some (mf_frames m)" and pre: "pre = concat (take n outs)"
  shows "decode_loop sha dec expected (pre @ post) 0 empty_result [] =
    decode_loop sha dec expected (pre @ post) (length pre)
      \<lparr>dr_records = map canonical (concat (take n cs)), dr_frames = take n (mf_frames m),
       dr_complete = (if take n cs = [] then 0 else of_nat (length pre))\<rparr> (concat (map fj_plain (jobs_from sha 0 (take n cs))))"
proof -
  note f = made [unfolded segment_made_def]
  then obtain t where "encode_frames sha 0 [] 0 (zip (jobs_from sha 0 cs) outs) = (mf_frames m, bs, t)" by blast
  from encode_frames_take [OF this, of n]
  obtain t' where ef: "encode_frames sha 0 [] 0 (zip (jobs_from sha 0 (take n cs)) (take n outs)) = (take n (mf_frames m), pre, t')"
    using f pre by (auto simp: take_zip jobs_from_take)
  have st: "list_all2 (stored dec) (map fj_plain (jobs_from sha 0 (take n cs))) (take n outs)"
    using f list_all2_takeI [of "stored dec" "map fj_plain (jobs_from sha 0 cs)" outs n] by (simp add: take_map jobs_from_take)
  have ex: "expects expected 0 (take n (mf_frames m))"
    using expected expects_take by (auto simp: expects_def split: option.splits)
  have good: "list_all good_chunk (take n cs)" using f by (metis list_all_append append_take_drop_id)
  have "0 + length (take n cs) \<le> 2 ^ 32" using f assms(3) by auto
  from decode_loop_frames [OF sha good st ef _ this ex, of empty_result post "[]"] show ?thesis by (simp add: empty_result_def)
qed

lemma Decode_encoded:
  assumes sha: "\<And>b. length (sha b) = 32" and z: "zstd_law z dec"
    and rs: "list_all envelope_shape rs" "length rs \<le> 2 ^ 32" and enc: "Encode sha z rs opts = Inr seg"
  shows "segment_Decode sha z (es_bytes seg) (Some (es_manifest seg)) =
    (\<lparr>dr_records = map canonical rs, dr_frames = mf_frames (es_manifest seg), dr_complete = of_nat (length (es_bytes seg))\<rparr>, None)"
proof (cases "rs = []")
  case True
  obtain o1 where o1: "normalizeEncodeOptions opts = Inr o1" using enc by (auto simp: Encode_def split: sum.splits)
  obtain o2 where "normalizeEncodeOptions \<lparr>eo_frame_bytes = eo_frame_bytes o1, eo_concurrency = 1\<rparr> = Inr o2"
    using normalized_target(3) [OF o1] by blast
  then show ?thesis
    using True enc z o1 normalized_target(2) [OF o1]
    by (auto simp: Encode_def segment_Decode_def zstd_law_def empty_result_def decode_loop.simps validateManifestSummary_def
        validateManifestFrameTarget_def)
next
  case False
  from sha z rs(1) False enc obtain target cs outs where made: "segment_made sha dec rs (es_bytes seg) (es_manifest seg) target cs outs"
    by (rule Encode_made)
  let ?m = "es_manifest seg"
  note f = made [unfolded segment_made_def manifest_of_def]
  have all: "take (length cs) cs = cs" "take (length cs) (mf_frames ?m) = mf_frames ?m" "es_bytes seg = concat (take (length cs) outs)"
    using f by (auto dest: list_all2_lengthD)
  let ?res = "\<lparr>dr_records = map canonical rs, dr_frames = mf_frames ?m, dr_complete = of_nat (length (es_bytes seg))\<rparr>"
  have loop: "decode_loop sha dec (Some (mf_frames ?m)) (es_bytes seg) 0 empty_result [] =
      (?res, concat (map fj_plain (jobs_from sha 0 cs)), None)"
    using made_prefix_decoded [OF sha made rs(2) disjI2 [OF refl] all(3), of "[]"] f all(1,2) decode_loop_end by simp
  have "validateManifestSummary sha (es_bytes seg) ?res (sha (concat (map fj_plain (jobs_from sha 0 cs)))) ?m"
    by (rule summary_holds [OF _ _ False, of cs]) (use f in simp_all)
  then show ?thesis
    using f z Decode_run [OF _ _ _ loop, of _ z] by (auto simp: zstd_law_def)
qed

text \<open>
  C4. A segment read with its manifest gives back what was written.  If encoding
  succeeds, decoding the bytes against the manifest succeeds, consumes them all
  and returns the records in order (absent values cleared) with exactly the frame
  indices of the manifest; in particular the greedy packing of the encoder passes
  the decoder's check, every frame fits the decoder's limits on window and memory, and no
  32-bit field of a frame wraps.  Zstandard is assumed to give back a non-empty text that
  is within these limits, from one frame of the fixed profile.
\<close>

theorem segment_roundtrip:
  assumes sha: "\<And>b. length (sha b) = 32" and z: "zstd_law z dec"
    and rs: "list_all envelope_shape rs" "length rs \<le> 2 ^ 32" and enc: "Encode sha z rs opts = Inr seg"
  shows "segment_Decode sha z (es_bytes seg) (Some (es_manifest seg)) =
    (\<lparr>dr_records = map canonical rs, dr_frames = mf_frames (es_manifest seg), dr_complete = of_nat (length (es_bytes seg))\<rparr>, None)"
  by (rule Decode_encoded [of sha, OF sha z rs enc])

subsection \<open>Damage\<close>

lemma decode_loop_extends:
  "decode_loop sha dec expected data offset res acc = (res', acc', err) \<Longrightarrow> \<exists>more. dr_records res' = dr_records res @ more"
proof (induction sha dec expected data offset res acc rule: decode_loop.induct)
  case (1 sha dec expected data offset res acc)
  show ?case
  proof (cases "offset < length data")
    case False
    then show ?thesis using "1.prems" by (simp add: decode_loop.simps)
  next
    case True
    show ?thesis
    proof (cases "decode_one sha dec expected data offset (of_nat (length (dr_frames res)))")
      case (Inl e)
      then show ?thesis using "1.prems" True by (simp add: decode_loop.simps [of sha dec expected data offset])
    next
      case (Inr b)
      obtain n plain rs ix where b: "b = (n, plain, rs, ix)" by (metis prod_cases4)
      note step = decode_loop_step [OF Inr [unfolded b], of acc]
      show ?thesis
        using "1.IH" [OF _ refl Inr b [symmetric] refl refl] True "1.prems" unfolding step by auto
    qed
  qed
qed

text \<open>How many records the first frames of a manifest hold, and how many bytes they take.\<close>

definition frames_records :: "nat \<Rightarrow> manifest \<Rightarrow> nat" where
  "frames_records n m = sum_list (map (\<lambda>f. unat (fx_count f)) (take n (mf_frames m)))"

definition frames_bytes :: "nat \<Rightarrow> manifest \<Rightarrow> nat" where
  "frames_bytes n m = sum_list (map (\<lambda>f. unat (fx_compressed f)) (take n (mf_frames m)))"

lemma encode_frames_compressed:
  "encode_frames sha k pre tot ps = (ixs, bs, t) \<Longrightarrow> list_all (\<lambda>p. length (snd p) < 2 ^ 64) ps \<Longrightarrow>
   map (\<lambda>f. unat (fx_compressed f)) ixs = map (\<lambda>p. length (snd p)) ps"
proof (induction ps arbitrary: k pre tot ixs)
  case (Cons p ps)
  obtain job out where p: "p = (job, out)" by fastforce
  show ?case using Cons.prems Cons.IH unfolding p encode_frames_Cons
    by (auto simp: job_index_def unat_of_nat_u64)
qed simp

lemma made_prefix:
  assumes made: "segment_made sha dec rs bs m target cs outs" and "length bs < 2 ^ 64"
  shows "take (frames_bytes n m) bs = concat (take n outs)" "take (frames_records n m) rs = concat (take n cs)"
proof -
  note f = made [unfolded segment_made_def manifest_of_def]
  have small: "length c < 2 ^ 64" if "c \<in> set outs" for c
    using that f assms(2) member_le_sum_list [of "length c" "map length outs"] by (auto simp: length_concat)
  obtain t where ef: "encode_frames sha 0 [] 0 (zip (jobs_from sha 0 cs) outs) = (mf_frames m, bs, t)" using f by blast
  have "list_all (\<lambda>p. length (snd p) < 2 ^ 64) (zip (jobs_from sha 0 cs) outs)"
    using small by (auto simp: list_all_iff dest: set_zip_rightD)
  from encode_frames_compressed [OF ef this]
  have "map (\<lambda>f. unat (fx_compressed f)) (mf_frames m) = map length (map snd (zip (jobs_from sha 0 cs) outs))"
    by (simp add: o_def)
  then have c: "map (\<lambda>f. unat (fx_compressed f)) (mf_frames m) = map length outs" using f by simp
  have "frames_bytes n m = length (concat (take n outs))"
    unfolding frames_bytes_def take_map [symmetric] c by (simp add: take_map length_concat)
  moreover have "bs = concat (take n outs) @ concat (drop n outs)" using f by (metis append_take_drop_id concat_append)
  ultimately show "take (frames_bytes n m) bs = concat (take n outs)" by simp
  have "map (\<lambda>f. unat (fx_count f)) (mf_frames m) = map length cs"
  proof -
    have "list_all2 describes (mf_frames m) cs" "list_all good_chunk cs" using f by blast+
    then show ?thesis
      by (induction rule: list_all2_induct) (auto simp: describes_def unat_of_nat_u32 dest!: good_chunk_length)
  qed
  then have "frames_records n m = length (concat (take n cs))"
    unfolding frames_records_def take_map [symmetric] by (simp add: take_map length_concat)
  moreover have "rs = concat (take n cs) @ concat (drop n cs)" using f by (metis append_take_drop_id concat_append)
  ultimately show "take (frames_records n m) rs = concat (take n cs)" by simp
qed

text \<open>
  C32. Damage never costs earlier frames.  Keep the first \<open>n\<close> frames of an encoded
  segment and replace everything after them by anything at all: decoding, with or
  without the manifest, still returns every record of those frames first, in order.
\<close>

theorem segment_damage_prefix:
  assumes sha: "\<And>b. length (sha b) = 32" and z: "zstd_law z dec"
    and rs: "list_all envelope_shape rs" "length rs \<le> 2 ^ 32" and enc: "Encode sha z rs opts = Inr seg" "length (es_bytes seg) < 2 ^ 64"
    and expected: "expected = None \<or> expected = Some (es_manifest seg)"
    and damaged: "segment_Decode sha z (take (frames_bytes n (es_manifest seg)) (es_bytes seg) @ junk) expected = (result, err)"
  shows "\<exists>more. dr_records result = map canonical (take (frames_records n (es_manifest seg)) rs) @ more"
proof (cases "rs = []")
  case False
  let ?m = "es_manifest seg"
  let ?fs = "map_option mf_frames expected"
  from sha z rs(1) False enc(1) obtain target cs outs where made: "segment_made sha dec rs (es_bytes seg) ?m target cs outs"
    by (rule Encode_made)
  note f = made [unfolded segment_made_def manifest_of_def]
  note pre = made_prefix [OF made enc(2), of n]
  have "?fs = None \<or> ?fs = Some (mf_frames ?m)" using expected by auto
  note loop = made_prefix_decoded [OF sha made rs(2) this refl, where n = n and post = junk, folded pre]
  obtain res acc e where d: "decode_loop sha dec ?fs (take (frames_bytes n ?m) (es_bytes seg) @ junk) 0 empty_result [] = (res, acc, e)"
    by (metis prod_cases3)
  have "dr_records result = dr_records res"
  proof -
    obtain o2 where "normalizeEncodeOptions \<lparr>eo_frame_bytes = sint (mf_frame_bytes ?m), eo_concurrency = 1\<rparr> = Inr o2" using f by auto
    then show ?thesis
      using expected damaged d f z by (auto simp: segment_Decode_def zstd_law_def split: option.splits if_splits)
  qed
  moreover from d [unfolded loop] have "\<exists>more. dr_records res = map canonical (take (frames_records n ?m) rs) @ more"
    by (drule_tac decode_loop_extends) simp
  ultimately show ?thesis by simp
qed simp

subsection \<open>A library that stores frames uncompressed\<close>

text \<open>
  The Zstandard format allows raw blocks: one frame with the checksum and
  single-segment flags, an eight-byte content size and one last raw block.  This
  is a lawful library for windows up to one mebibyte.
\<close>

definition store_frame :: "bytes \<Rightarrow> bytes" where
  "store_frame p = le_u32 0xfd2fb528 @ [228] @ le_u64 (of_nat (length p)) @ le_put 3 (1 + 8 * length p) @ p @ [0, 0, 0, 0]"

definition store_dec :: "nat \<Rightarrow> nat \<Rightarrow> bytes \<Rightarrow> bytes option" where
  "store_dec memory window c =
     (if length c - 20 > memory \<or> length c - 20 > window then None else Some (take (length c - 20) (drop 16 c)))"

definition store_lib :: zstd_lib where
  "store_lib = \<lparr>z_min_window = 1024, z_writer = (\<lambda>w. if w \<le> 1048576 then Some store_frame else None),
     z_reader = (\<lambda>memory window. Some (store_dec memory window))\<rparr>"

lemma byte_of_nat: "ucast (of_nat (n mod 256) :: u8) = (of_nat (take_bit 8 n) :: u32)"
  by (simp add: unsigned_of_nat take_bit_eq_mod)

lemma block_header_put:
  assumes "n < 2 ^ 24"
  shows "block_header (pre @ le_put 3 n @ t) (length pre) = of_nat n"
proof -
  have "block_header (pre @ le_put 3 n @ t) (length pre) =
      (of_nat (take_bit 8 n) :: u32) OR push_bit 8 (of_nat (take_bit 8 (drop_bit 8 n))) OR
        push_bit 16 (of_nat (take_bit 8 (drop_bit 16 n)))"
    by (simp add: block_header_def nth_append numeral_3_eq_3 byte_of_nat drop_bit_eq_div div_mult2_eq [symmetric]
        del: of_nat_mod unsigned_of_nat)
  also have "\<dots> = of_nat n"
  proof (rule bit_eqI)
    fix k
    have hi: "\<not> bit n k" if "24 \<le> k"
    proof -
      have "n < 2 ^ k" using assms power_increasing [OF that, of "2 :: nat"] by linarith
      then show ?thesis by (simp add: bit_iff_odd)
    qed
    show "bit ((of_nat (take_bit 8 n) :: u32) OR push_bit 8 (of_nat (take_bit 8 (drop_bit 8 n))) OR
        push_bit 16 (of_nat (take_bit 8 (drop_bit 16 n)))) k = bit (of_nat n :: u32) k"
      using hi by (cases "k < 8"; cases "k < 16"; cases "k < 24") (auto simp: bit_simps)
  qed
  finally show ?thesis .
qed

lemma store_block:
  assumes "length p \<le> 1048576" "length pre = 13"
  shows "zstd_blocks (pre @ le_put 3 (1 + 8 * length p) @ p @ t) 13 = Inr (16 + length p)"
proof -
  let ?n = "1 + 8 * length p" and ?src = "pre @ le_put 3 (1 + 8 * length p) @ p @ t"
  have n: "?n < 2 ^ 24" using assms(1) by simp
  have h: "block_header ?src 13 = of_nat ?n" using block_header_put [OF n, of pre "p @ t"] assms(2) by simp
  have u: "unat (of_nat ?n :: u32) = ?n" using n by (simp add: unat_of_nat_u32 del: of_nat_add of_nat_mult of_nat_Suc)
  have size: "unat (drop_bit 3 (of_nat ?n :: u32)) = length p"
    unfolding unat_drop_bit_eq u by (simp add: drop_bit_eq_div)
  have type: "drop_bit 1 (of_nat ?n :: u32) AND 3 = 0"
  proof -
    have "drop_bit 1 (of_nat ?n :: u32) = of_nat (4 * length p)"
    proof (rule word_unat_eq_iff [THEN iffD2])
      have "unat (of_nat (4 * length p) :: u32) = 4 * length p" using assms(1) by (intro unat_of_nat_u32) simp
      then show "unat (drop_bit 1 (of_nat ?n :: u32)) = unat (of_nat (4 * length p) :: u32)"
        unfolding unat_drop_bit_eq u by (simp add: drop_bit_eq_div)
    qed
    then have "drop_bit 1 (of_nat ?n :: u32) AND 3 = of_nat (4 * length p) AND 3" by (rule arg_cong)
    also have "\<dots> = take_bit 2 (of_nat (4 * length p))"
      by (simp add: take_bit_eq_mask mask_eq_exp_minus_1)
    also have "\<dots> = of_nat (take_bit 2 (4 * length p))" by (rule take_bit_of_nat)
    also have "take_bit 2 (4 * length p) = 0" by (simp add: take_bit_eq_mod)
    finally show ?thesis by (simp only: semiring_1_class.of_nat_simps(1))
  qed
  have "unat ((of_nat ?n :: u32) AND 1) = 1" unfolding unsigned_and_eq u by (simp add: and_one_eq mod_Suc)
  then have last: "(of_nat ?n :: u32) AND 1 \<noteq> 0" by auto
  have block: "block_size (of_nat ?n) = Inr (length p)" unfolding block_size_def Let_def type size by simp
  have len: "length ?src = 16 + length p + length t" using assms(2) by simp
  show ?thesis
    by (subst zstd_blocks.simps) (simp only: h len block Let_def, use last in simp)
qed

lemma store_stored:
  assumes "length p \<le> 1048576" "length p \<le> memory" "length p \<le> window"
  shows "stored (store_dec memory window) p (store_frame p)"
proof -
  have "zstdFrameLength (store_frame p @ rest) = Inr (length (store_frame p))" for rest
  proof -
    let ?pre = "le_u32 0xfd2fb528 @ [228] @ le_u64 (of_nat (length p))"
    have src: "store_frame p @ rest = ?pre @ le_put 3 (1 + 8 * length p) @ p @ ([0, 0, 0, 0] @ rest)" by (simp add: store_frame_def)
    have "slice 0 4 (store_frame p @ rest) = le_u32 0xfd2fb528" by (simp add: src slice_def)
    then have magic: "(of_nat (le_get (slice 0 4 (store_frame p @ rest))) :: u32) = 0xfd2fb528" by (simp only: le_get_u32)
    have d: "(store_frame p @ rest) ! 4 = 228" by (simp add: src nth_append)
    have blocks: "zstd_blocks (store_frame p @ rest) 13 = Inr (16 + length p)"
      unfolding src by (rule store_block [OF assms(1)]) simp
    have flags: "(228 :: u8) AND 24 = 0" "(228 :: u8) AND 4 \<noteq> 0" "(228 :: u8) AND 32 \<noteq> 0" "(228 :: u8) AND 3 = 0" "fcs_size 228 = 8"
      by (simp_all add: fcs_size_def) 
    have len: "length (store_frame p) = 20 + length p" by (simp add: store_frame_def)
    show ?thesis
      unfolding zstdFrameLength_def magic d Let_def using blocks flags by (simp add: len)
  qed
  moreover have "store_dec memory window (store_frame p) = Some p" using assms(2,3) by (simp add: store_dec_def store_frame_def)
  ultimately show ?thesis by (simp add: stored_def)
qed

lemma store_lawful: "zstd_law store_lib (store_dec maxDecodedFrameBytes maxEncodedFrameWindowBytes)"
  by (auto simp: zstd_law_def store_lib_def store_stored split: if_splits)

definition default_options :: encode_options where
  "default_options = \<lparr>eo_frame_bytes = 0, eo_concurrency = 0\<rparr>"

definition sample_plain :: bytes where
  "sample_plain = fj_plain (makeFrameJob sha_zero 0 [encoding sha_zero sample_envelope] [sample_envelope])"

lemma sha_zero_length: "length (sha_zero b) = 32" by (simp add: sha_zero_def)

lemma sample_good: "good_record sample_envelope"
  by (simp add: good_record_def sample_envelope_ok)

lemma sample_plain_length: "length sample_plain \<le> 1024"
proof -
  have "encoded_body_size sample_envelope \<le> 500"
    by (simp add: encoded_body_size_def sample_envelope_def zero_envelope_def optional_size_def)
  then have "length (encoding sha_zero sample_envelope) \<le> 516"
    using record_size_good [OF sample_good]
    by (simp add: encoding_good [OF sha_zero_length sample_good] record_size_def RecordHeaderSize_def)
  then show ?thesis by (simp add: sample_plain_def makeFrameJob_def frame_plain_def sha_zero_length)
qed

lemma sample_encoded:
  obtains seg where "Encode sha_zero store_lib [sample_envelope] default_options = Inr seg" "es_bytes seg = store_frame sample_plain"
    "mf_count (es_manifest seg) = 1" "frames_records 1 (es_manifest seg) = 1"
proof -
  have n: "normalizeEncodeOptions default_options = Inr \<lparr>eo_frame_bytes = 4194304, eo_concurrency = 1\<rparr>"
    by (simp add: normalizeEncodeOptions_def default_options_def DefaultFrameBytes_def MaxSupportedFrameBytes_def)
  let ?job = "makeFrameJob sha_zero 0 [encoding sha_zero sample_envelope] [sample_envelope]"
  have jobs: "buildFrameJobs sha_zero [sample_envelope] 4194304 = Inr [?job]"
    by (simp add: buildFrameJobs_def encoding_good [OF sha_zero_length sample_good])
  have "nextPowerOfTwo 1024 = 1024" by (simp add: nextPowerOfTwo_def next_power.simps [of _ 1024])
  then have outs: "compress_frame store_lib ?job = Some (store_frame sample_plain)"
    using sample_plain_length by (simp add: compress_frame_def store_lib_def sample_plain_def max_absorb2)
  have c: "fj_count ?job = 1" by (simp add: makeFrameJob_def)
  have "\<exists>seg. Encode sha_zero store_lib [sample_envelope] default_options = Inr seg"
    by (simp add: Encode_def n jobs outs validateSegmentRecords_def)
  then obtain seg where seg: "Encode sha_zero store_lib [sample_envelope] default_options = Inr seg" by blast
  show thesis
    by (rule that [OF seg])
      (use seg c in \<open>auto simp: Encode_def n jobs outs validateSegmentRecords_def frames_records_def\<close>)
qed

lemma sample_bytes_short: "length (store_frame sample_plain) < 2 ^ 64"
  using sample_plain_length by (simp add: store_frame_def)

theorem segment_roundtrip_witness:
  "\<exists>seg. Encode sha_zero store_lib [sample_envelope] default_options = Inr seg \<and>
     dr_records (fst (segment_Decode sha_zero store_lib (es_bytes seg) (Some (es_manifest seg)))) = [sample_envelope] \<and>
     snd (segment_Decode sha_zero store_lib (es_bytes seg) (Some (es_manifest seg))) = None"
proof -
  obtain seg where seg: "Encode sha_zero store_lib [sample_envelope] default_options = Inr seg" by (rule sample_encoded)
  from segment_roundtrip [OF sha_zero_length store_lawful _ _ seg] show ?thesis
    using seg sample_envelope_ok(1) by (simp add: sample_envelope_canonical)
qed

theorem segment_damage_prefix_witness:
  "\<exists>seg more. Encode sha_zero store_lib [sample_envelope] default_options = Inr seg \<and>
     dr_records (fst (segment_Decode sha_zero store_lib (take (frames_bytes 1 (es_manifest seg)) (es_bytes seg) @ [9]) None)) =
       sample_envelope # more"
proof -
  obtain seg where seg: "Encode sha_zero store_lib [sample_envelope] default_options = Inr seg"
      "es_bytes seg = store_frame sample_plain" "frames_records 1 (es_manifest seg) = 1" by (rule sample_encoded)
  from segment_damage_prefix [OF sha_zero_length store_lawful _ _ seg(1), of None 1 "[9]"] show ?thesis
    using seg sample_envelope_ok(1) sample_bytes_short by (simp add: sample_envelope_canonical) (metis fst_conv surj_pair)
qed

end
