(* ===== verification/Capture.thy ===== *)
theory Capture
  imports Envelope
begin

text \<open>
  \<open>src/capture/envelope.go\<close>, \<open>control.go\<close>, \<open>segment.go\<close> and \<open>ordinal.go\<close>: the semantic
  capture envelope, its control records, its lowering to the framing envelope of
  \<open>Envelope\<close>, and the assignment of arrival ordinals.

  \<open>EnvelopeV1\<close> has every field of the framing envelope, a version, the digest of
  the payload and the kind of a control record, so it extends that record.  An
  error is the field it names and the sentinel errors it joins; the text of the
  problem is left out.  Copies of byte slices need no model, as nothing is mutated
  through them.  The mutex of \<open>OrdinalAssigner\<close> makes its calls a sequence.

  The lemmas show that the stored bytes and the validated envelopes are in exact
  correspondence, and that the assigner numbers the records of an epoch without
  gap, repetition or wrap-around, whole batches at a time.
\<close>

subsection \<open>Errors and types\<close>

datatype cause = CauseInvalidEnvelope | CausePayloadHash | CauseInvalidEpoch | CauseInvalidControl |
  CauseOrdinalExhausted | CauseOrdinalAlreadyAssigned | CauseOrdinalFinalized | CauseOrdinalCommitMismatch |
  CauseOrdinalUninitialized

datatype capture_error = ValidationError string "cause list" | FramingError seg_error

definition envelopeError :: "string \<Rightarrow> cause list \<Rightarrow> capture_error" where
  "envelopeError field causes = ValidationError field (CauseInvalidEnvelope # causes)"

definition controlError :: "string \<Rightarrow> capture_error" where
  "controlError field = ValidationError field [CauseInvalidEnvelope, CauseInvalidControl]"

text \<open>A sequence of checks, each an early return.\<close>

definition fail_if :: "bool \<Rightarrow> 'e \<Rightarrow> 'e option" where
  "fail_if c err = (if c then Some err else None)"

fun first_error :: "'e option list \<Rightarrow> 'e option" where
  "first_error [] = None"
| "first_error (None # rest) = first_error rest"
| "first_error (Some err # rest) = Some err"

lemma fail_if_None [simp]: "fail_if c err = None \<longleftrightarrow> \<not> c" "fail_if False err = None" "fail_if True err = Some err"
  by (simp_all add: fail_if_def)

lemma first_error_None [simp]: "first_error (x # xs) = None \<longleftrightarrow> x = None \<and> first_error xs = None"
  by (cases x) simp_all

record envelope_v1 = envelope +
  v_version :: u16
  v_sha :: hash
  v_control :: "u8 optional"

definition EpochConnection :: u8 where "EpochConnection = 1"
definition EpochPollCycle :: u8 where "EpochPollCycle = 2"

record stream_epoch =
  se_kind :: u8
  se_id :: bytes

definition ControlConnectAttempt :: u8 where "ControlConnectAttempt = 1"
definition ControlConnected :: u8 where "ControlConnected = 2"
definition ControlSubscribeRequest :: u8 where "ControlSubscribeRequest = 3"
definition ControlAcknowledgement :: u8 where "ControlAcknowledgement = 4"
definition ControlHeartbeat :: u8 where "ControlHeartbeat = 5"
definition ControlDisconnect :: u8 where "ControlDisconnect = 6"
definition ControlReconnect :: u8 where "ControlReconnect = 7"
definition ControlPollScheduled :: u8 where "ControlPollScheduled = 8"
definition ControlRequestStarted :: u8 where "ControlRequestStarted = 13"

definition controlExtensionHeaderSize :: nat where "controlExtensionHeaderSize = 8"
definition controlExtensionMagic :: bytes where "controlExtensionMagic = str_bytes ''ELC1''"
definition captureExtensionVersion :: u8 where "captureExtensionVersion = 1"
definition captureExtensionControl :: u8 where "captureExtensionControl = 1"

subsection \<open>Validation\<close>

definition SetRawPayload :: "(bytes \<Rightarrow> hash) \<Rightarrow> bytes \<Rightarrow> envelope_v1 \<Rightarrow> envelope_v1" where
  "SetRawPayload sha payload e = e\<lparr>e_payload := payload, v_sha := sha payload\<rparr>"

definition StreamEpoch :: "envelope_v1 \<Rightarrow> capture_error + stream_epoch" where
  "StreamEpoch e =
     (if o_valid (e_conn e) = o_valid (e_poll e) then Inl (envelopeError ''stream epoch'' [CauseInvalidEpoch])
      else if o_valid (e_conn e) then Inr \<lparr>se_kind = EpochConnection, se_id = o_value (e_conn e)\<rparr>
      else Inr \<lparr>se_kind = EpochPollCycle, se_id = o_value (e_poll e)\<rparr>)"

definition validateRequiredString :: "string \<Rightarrow> string \<Rightarrow> nat \<Rightarrow> capture_error option" where
  "validateRequiredString field value maximum =
     first_error [fail_if (value = []) (envelopeError field []), fail_if (length value > maximum) (envelopeError field [])]"

definition validateOptionalString :: "string \<Rightarrow> string optional \<Rightarrow> nat \<Rightarrow> capture_error option" where
  "validateOptionalString field v maximum =
     first_error [fail_if (\<not> o_valid v \<and> o_value v \<noteq> []) (envelopeError field []),
       fail_if (o_valid v \<and> length (o_value v) > maximum) (envelopeError field [])]"

definition validateOptionalInt64 :: "string \<Rightarrow> i64 optional \<Rightarrow> capture_error option" where
  "validateOptionalInt64 field v = fail_if (\<not> o_valid v \<and> o_value v \<noteq> 0) (envelopeError field [])"

definition validateOptionalEpoch :: "string \<Rightarrow> bytes optional \<Rightarrow> capture_error option" where
  "validateOptionalEpoch field v =
     first_error [fail_if (\<not> o_valid v \<and> o_value v \<noteq> zero16) (envelopeError field [CauseInvalidEpoch]),
       fail_if (o_valid v \<and> o_value v = zero16) (envelopeError field [CauseInvalidEpoch])]"

definition validateOptionalHash :: "string \<Rightarrow> bytes optional \<Rightarrow> capture_error option" where
  "validateOptionalHash field v = fail_if (\<not> o_valid v \<and> o_value v \<noteq> zero32) (envelopeError field [])"

definition validateOptionalControlKind :: "u8 optional \<Rightarrow> capture_error option" where
  "validateOptionalControlKind v =
     (if \<not> o_valid v then fail_if (o_value v \<noteq> 0) (controlError ''control_kind'')
      else fail_if (o_value v < ControlConnectAttempt \<or> o_value v > ControlRequestStarted) (controlError ''control_kind''))"

definition validateControlEnvelope :: "envelope_v1 \<Rightarrow> stream_epoch \<Rightarrow> capture_error option" where
  "validateControlEnvelope e epoch =
     (let kind = o_value (v_control e);
          requireConnection = kind \<in> {ControlConnectAttempt, ControlConnected, ControlSubscribeRequest, ControlAcknowledgement,
            ControlHeartbeat, ControlDisconnect, ControlReconnect}
      in first_error [validateOptionalControlKind (v_control e),
        fail_if (requireConnection \<and> se_kind epoch \<noteq> EpochConnection) (controlError ''connection_epoch''),
        fail_if (kind = ControlPollScheduled \<and> se_kind epoch \<noteq> EpochPollCycle) (controlError ''poll_cycle_id''),
        fail_if (kind = ControlPollScheduled \<and> \<not> o_valid (e_scheduled e)) (controlError ''scheduled_at_ns''),
        fail_if (kind = ControlRequestStarted \<and> se_kind epoch \<noteq> EpochPollCycle) (controlError ''poll_cycle_id''),
        fail_if (kind = ControlRequestStarted \<and> (\<not> o_valid (e_scheduled e) \<or> \<not> o_valid (e_started e) \<or> \<not> o_valid (e_sub e)))
          (controlError ''request boundary''),
        fail_if (kind = ControlRequestStarted \<and> length (e_ext e) = 0) (controlError ''extensions'')])"

definition validateRecordSemantics :: "envelope_v1 \<Rightarrow> stream_epoch \<Rightarrow> capture_error option" where
  "validateRecordSemantics e epoch =
     (if e_kind e = RecordKindWebSocket then first_error [
        fail_if (se_kind epoch \<noteq> EpochConnection) (envelopeError ''connection_epoch'' [CauseInvalidEpoch]),
        fail_if (o_valid (e_scheduled e) \<or> o_valid (e_started e) \<or> o_valid (e_completed e)) (envelopeError ''request clocks'' []),
        fail_if (o_valid (v_control e)) (envelopeError ''control_kind'' [CauseInvalidControl])]
      else if e_kind e = RecordKindREST then first_error [
        fail_if (se_kind epoch \<noteq> EpochPollCycle) (envelopeError ''poll_cycle_id'' [CauseInvalidEpoch]),
        fail_if (\<not> o_valid (e_started e) \<or> \<not> o_valid (e_completed e)) (envelopeError ''request clocks'' []),
        fail_if (o_valid (v_control e)) (envelopeError ''control_kind'' [CauseInvalidControl])]
      else if e_kind e = RecordKindControl then first_error [
        fail_if (\<not> o_valid (v_control e)) (envelopeError ''control_kind'' [CauseInvalidControl]),
        validateControlEnvelope e epoch]
      else None)"

definition envelopeBodyBytes :: "envelope_v1 \<Rightarrow> nat \<Rightarrow> nat" where
  "envelopeBodyBytes e extensionBytes =
     40 + (2 + length (e_source e)) + (2 + length (e_channel e)) + (2 + length (e_clock e)) + (2 + length (e_recorder e)) +
     (if o_valid (e_symbol e) then 2 + length (o_value (e_symbol e)) else 0) +
     (if o_valid (e_uid e) then 2 + length (o_value (e_uid e)) else 0) +
     (if o_valid (e_conn e) then 16 else 0) + (if o_valid (e_poll e) then 16 else 0) +
     sum_list (map (\<lambda>v. if o_valid v then 8 else 0)
       [e_scheduled e, e_started e, e_completed e, e_exchange e, e_offset e, e_uncertainty e]) +
     (if o_valid (e_sub e) then 2 + length (o_value (e_sub e)) else 0) +
     (if o_valid (e_http e) then 2 + length (o_value (e_http e)) else 0) +
     (4 + length (e_payload e) + 32) + (if o_valid (e_fingerprint e) then 32 else 0) + (4 + extensionBytes)"

definition encodedExtensionBytes :: "envelope_v1 \<Rightarrow> nat" where
  "encodedExtensionBytes e = length (e_ext e) + (if e_kind e = RecordKindControl then controlExtensionHeaderSize else 0)"

text \<open>\<open>validate\<close> in two halves: up to the epoch, and what follows it.\<close>

definition validate_identity :: "envelope_v1 \<Rightarrow> capture_error option" where
  "validate_identity e = first_error [
     fail_if (v_version e \<noteq> EnvelopeVersion) (envelopeError ''envelope_version'' []),
     fail_if (e_kind e < RecordKindWebSocket \<or> e_kind e > RecordKindControl) (envelopeError ''record_kind'' []),
     validateRequiredString ''source_id'' (e_source e) MaxSourceIDBytes,
     validateRequiredString ''channel_or_endpoint'' (e_channel e) MaxContractIDBytes,
     validateOptionalString ''native_symbol'' (e_symbol e) MaxSymbolBytes,
     validateOptionalString ''instrument_uid'' (e_uid e) MaxIdentityBytes,
     validateOptionalEpoch ''connection_epoch'' (e_conn e),
     validateOptionalEpoch ''poll_cycle_id'' (e_poll e)]"

definition validate_content :: "(bytes \<Rightarrow> hash) \<Rightarrow> envelope_v1 \<Rightarrow> bool \<Rightarrow> stream_epoch \<Rightarrow> capture_error option" where
  "validate_content sha e checkPayloadHash epoch = first_error [
     fail_if (e_arrival e = 0) (envelopeError ''arrival_ordinal'' []),
     validateOptionalInt64 ''scheduled_at_ns'' (e_scheduled e),
     validateOptionalInt64 ''request_started_at_ns'' (e_started e),
     validateOptionalInt64 ''request_completed_at_ns'' (e_completed e),
     validateOptionalInt64 ''exchange_time_ns'' (e_exchange e),
     fail_if (e_resolution e > TimeResolutionSecond) (envelopeError ''exchange_time_resolution'' []),
     fail_if (o_valid (e_exchange e) \<noteq> (e_resolution e \<noteq> TimeResolutionAbsent)) (envelopeError ''exchange_time_resolution'' []),
     validateRequiredString ''clock_epoch_id'' (e_clock e) MaxClockEpochIDBytes,
     validateOptionalInt64 ''clock_offset_ns'' (e_offset e),
     validateOptionalInt64 ''clock_uncertainty_ns'' (e_uncertainty e),
     fail_if (o_valid (e_offset e) \<noteq> o_valid (e_uncertainty e)) (envelopeError ''process_clock'' []),
     fail_if (o_valid (e_uncertainty e) \<and> o_value (e_uncertainty e) < 0) (envelopeError ''clock_uncertainty_ns'' []),
     validateOptionalString ''subscription_or_request_id'' (e_sub e) MaxIdentityBytes,
     validateOptionalString ''http_status_or_ws_state'' (e_http e) MaxIdentityBytes,
     fail_if (e_encoding e < PayloadEncodingJSON \<or> e_encoding e > PayloadEncodingNone) (envelopeError ''payload_encoding'' []),
     fail_if (length (e_payload e) > MaxPayloadBytes) (envelopeError ''raw_payload'' []),
     fail_if (e_encoding e = PayloadEncodingNone \<and> length (e_payload e) \<noteq> 0) (envelopeError ''raw_payload'' []),
     fail_if (checkPayloadHash \<and> sha (e_payload e) \<noteq> v_sha e) (envelopeError ''raw_payload_sha256'' [CausePayloadHash]),
     validateOptionalHash ''schema_fingerprint'' (e_fingerprint e),
     fail_if (e_outcome e < OutcomeObserved \<or> e_outcome e > OutcomeDisconnected) (envelopeError ''terminal_outcome'' []),
     validateRequiredString ''recorder_version'' (e_recorder e) MaxRecorderVersionBytes,
     validateOptionalControlKind (v_control e),
     validateRecordSemantics e epoch,
     fail_if (encodedExtensionBytes e > MaxExtensionBytes) (envelopeError ''extensions'' []),
     fail_if (envelopeBodyBytes e (encodedExtensionBytes e) > MaxRecordBytes - RecordHeaderSize) (envelopeError ''envelope'' [])]"

definition envelope_validate :: "(bytes \<Rightarrow> hash) \<Rightarrow> envelope_v1 \<Rightarrow> bool \<Rightarrow> capture_error option" where
  "envelope_validate sha e checkPayloadHash =
     (case validate_identity e of
        Some err \<Rightarrow> Some err
      | None \<Rightarrow> (case StreamEpoch e of
          Inl err \<Rightarrow> Some err
        | Inr epoch \<Rightarrow> validate_content sha e checkPayloadHash epoch))"

definition Validate :: "(bytes \<Rightarrow> hash) \<Rightarrow> envelope_v1 \<Rightarrow> capture_error option" where
  "Validate sha e = envelope_validate sha e True"

subsection \<open>Lowering to and raising from the framing envelope\<close>

definition ToSegment :: "(bytes \<Rightarrow> hash) \<Rightarrow> envelope_v1 \<Rightarrow> capture_error + envelope" where
  "ToSegment sha e =
     (case Validate sha e of
        Some err \<Rightarrow> Inl err
      | None \<Rightarrow>
          let extensions = (if e_kind e = RecordKindControl
            then controlExtensionMagic @ [captureExtensionVersion, captureExtensionControl, o_value (v_control e), 0] @ e_ext e
            else e_ext e)
          in Inr (envelope.truncate e\<lparr>e_ext := extensions\<rparr>))"

definition decodeControlExtension :: "bytes \<Rightarrow> capture_error + u8 optional \<times> bytes" where
  "decodeControlExtension ext =
     (if length ext < controlExtensionHeaderSize then Inl (controlError ''extensions'')
      else if take 4 ext \<noteq> controlExtensionMagic then Inl (controlError ''extensions'')
      else if ext ! 4 \<noteq> captureExtensionVersion then Inl (controlError ''extensions'')
      else if ext ! 5 \<noteq> captureExtensionControl then Inl (controlError ''extensions'')
      else if ext ! 7 \<noteq> 0 then Inl (controlError ''extensions'')
      else let kind = \<lparr>o_value = ext ! 6, o_valid = True\<rparr> in
        (case validateOptionalControlKind kind of
           Some err \<Rightarrow> Inl err
         | None \<Rightarrow> Inr (kind, drop controlExtensionHeaderSize ext)))"

text \<open>\<open>cloneBytes\<close> only decides whether the slices are copied.\<close>

definition envelopeV1FromSegment :: "(bytes \<Rightarrow> hash) \<Rightarrow> envelope \<Rightarrow> capture_error + envelope_v1" where
  "envelopeV1FromSegment sha r =
     (case (if e_kind r = RecordKindControl then decodeControlExtension (e_ext r)
            else Inr (\<lparr>o_value = 0, o_valid = False\<rparr>, e_ext r)) of
        Inl err \<Rightarrow> Inl err
      | Inr (controlKind, extensions) \<Rightarrow>
          let e = envelope.extend (r\<lparr>e_ext := extensions\<rparr>)
                (envelope_v1.fields EnvelopeVersion (sha (e_payload r)) controlKind)
          in (case envelope_validate sha e False of Some err \<Rightarrow> Inl err | None \<Rightarrow> Inr e))"

definition MarshalEnvelopeV1 :: "(bytes \<Rightarrow> hash) \<Rightarrow> envelope_v1 \<Rightarrow> capture_error + bytes" where
  "MarshalEnvelopeV1 sha e =
     (case ToSegment sha e of
        Inl err \<Rightarrow> Inl err
      | Inr r \<Rightarrow> (case MarshalEnvelope sha r of Inl err \<Rightarrow> Inl (FramingError err) | Inr bs \<Rightarrow> Inr bs))"

definition UnmarshalEnvelopeV1 :: "(bytes \<Rightarrow> hash) \<Rightarrow> bytes \<Rightarrow> capture_error + envelope_v1" where
  "UnmarshalEnvelopeV1 sha data =
     (case UnmarshalEnvelope sha data of Inl err \<Rightarrow> Inl (FramingError err) | Inr r \<Rightarrow> envelopeV1FromSegment sha r)"

subsection \<open>Control records\<close>

text \<open>A \<open>ControlRecord\<close> wraps its envelope.\<close>

definition ControlRecord_Validate :: "(bytes \<Rightarrow> hash) \<Rightarrow> envelope_v1 \<Rightarrow> capture_error option" where
  "ControlRecord_Validate sha e =
     (if e_kind e \<noteq> RecordKindControl then Some (controlError ''record_kind'') else Validate sha e)"

definition NewControlRecord :: "(bytes \<Rightarrow> hash) \<Rightarrow> u8 \<Rightarrow> envelope_v1 \<Rightarrow> capture_error + envelope_v1" where
  "NewControlRecord sha kind e0 =
     (let e = e0\<lparr>v_version := EnvelopeVersion, e_kind := RecordKindControl, v_control := \<lparr>o_value = kind, o_valid = True\<rparr>,
            v_sha := sha (e_payload e0)\<rparr>
      in (case ControlRecord_Validate sha e of Some err \<Rightarrow> Inl err | None \<Rightarrow> Inr e))"

definition ControlRecord_ToSegment :: "(bytes \<Rightarrow> hash) \<Rightarrow> envelope_v1 \<Rightarrow> capture_error + envelope" where
  "ControlRecord_ToSegment sha e = (case ControlRecord_Validate sha e of Some err \<Rightarrow> Inl err | None \<Rightarrow> ToSegment sha e)"

definition ControlRecordFromSegment :: "(bytes \<Rightarrow> hash) \<Rightarrow> envelope \<Rightarrow> capture_error + envelope_v1" where
  "ControlRecordFromSegment sha r =
     (case envelopeV1FromSegment sha r of
        Inl err \<Rightarrow> Inl err
      | Inr e \<Rightarrow> (case ControlRecord_Validate sha e of Some err \<Rightarrow> Inl err | None \<Rightarrow> Inr e))"

subsection \<open>Bytes and validated envelopes correspond\<close>

lemmas validation_defs = Validate_def envelope_validate_def validate_identity_def validate_content_def validateRequiredString_def
  validateOptionalString_def validateOptionalInt64_def validateOptionalEpoch_def validateOptionalHash_def

definition capture_shape :: "envelope_v1 \<Rightarrow> bool" where
  "capture_shape e \<longleftrightarrow> envelope_shape (envelope.truncate e)"

definition control_header :: "u8 \<Rightarrow> bytes" where
  "control_header kind = controlExtensionMagic @ [captureExtensionVersion, captureExtensionControl, kind, 0]"

lemma length_control_header [simp]: "length controlExtensionMagic = 4" "length (control_header k) = 8"
  by (simp_all add: control_header_def controlExtensionMagic_def)

text \<open>The framing envelope of a valid envelope.\<close>

definition lowered :: "envelope_v1 \<Rightarrow> envelope" where
  "lowered e = envelope.truncate e\<lparr>e_ext := (if e_kind e = RecordKindControl then control_header (o_value (v_control e)) else []) @ e_ext e\<rparr>"

lemma ToSegment_lowered: "ToSegment sha e = (case Validate sha e of Some err \<Rightarrow> Inl err | None \<Rightarrow> Inr (lowered e))"
  by (simp add: ToSegment_def lowered_def control_header_def split: option.split)

lemma truncate_simps [simp]:
  "e_kind (envelope.truncate e) = e_kind e" "e_payload (envelope.truncate e) = e_payload e" "e_ext (envelope.truncate e) = e_ext e"
  by (simp_all add: envelope.truncate_def)

lemma cleared: "\<not> o_valid v \<longrightarrow> o_value v = z \<Longrightarrow> clear z v = v"
  by (cases v) (auto simp: clear_def)

lemma envelope_validate_None:
  "envelope_validate sha e c = None \<longleftrightarrow> validate_identity e = None \<and> (\<exists>epoch. StreamEpoch e = Inr epoch \<and> validate_content sha e c epoch = None)"
  by (auto simp: envelope_validate_def split: option.split sum.split)

lemma validate_hash: "Validate sha e = None \<longleftrightarrow> envelope_validate sha e False = None \<and> v_sha e = sha (e_payload e)"
  by (auto simp: Validate_def envelope_validate_None validate_content_def)

text \<open>The checks of the framing layer follow from those of the capture layer, and nothing is stored beside an absent value.\<close>

lemma validate_lowered:
  assumes "envelope_validate sha e c = None"
  shows "validateEnvelope (lowered e)"
proof -
  obtain epoch where i: "validate_identity e = None" and v: "validate_content sha e c epoch = None"
    using assms unfolding envelope_validate_None by blast
  have "length (e_ext (lowered e)) = encodedExtensionBytes e"
    by (simp add: lowered_def encodedExtensionBytes_def controlExtensionHeaderSize_def)
  then have ext: "\<not> length (e_ext (lowered e)) > MaxExtensionBytes" using v by (simp add: validate_content_def)
  show ?thesis
    using i v ext unfolding validate_identity_def validate_content_def
    by (simp add: validateEnvelope_def lowered_def envelope.truncate_def validateRequiredString_def validateOptionalString_def)
qed

lemma validated_clear:
  "validateOptionalString f so m = None \<Longrightarrow> clear [] so = so"
  "validateOptionalInt64 f io = None \<Longrightarrow> clear 0 io = io"
  "validateOptionalEpoch f ep = None \<Longrightarrow> clear zero16 ep = ep"
  "validateOptionalHash f h = None \<Longrightarrow> clear zero32 h = h"
  by (auto intro!: cleared simp: validateOptionalString_def validateOptionalInt64_def validateOptionalEpoch_def validateOptionalHash_def)

lemma canonical_lowered:
  assumes "envelope_validate sha e c = None"
  shows "canonical (lowered e) = lowered e"
proof -
  obtain epoch where i: "validate_identity e = None" and v: "validate_content sha e c epoch = None"
    using assms unfolding envelope_validate_None by blast
  have "clear [] (e_symbol e) = e_symbol e" "clear [] (e_uid e) = e_uid e" "clear zero16 (e_conn e) = e_conn e"
    "clear zero16 (e_poll e) = e_poll e"
    using i unfolding validate_identity_def first_error_None by (blast intro: validated_clear)+
  moreover have "clear 0 (e_scheduled e) = e_scheduled e" "clear 0 (e_started e) = e_started e" "clear 0 (e_completed e) = e_completed e"
    "clear 0 (e_exchange e) = e_exchange e" "clear 0 (e_offset e) = e_offset e" "clear 0 (e_uncertainty e) = e_uncertainty e"
    "clear [] (e_sub e) = e_sub e" "clear [] (e_http e) = e_http e" "clear zero32 (e_fingerprint e) = e_fingerprint e"
    using v unfolding validate_content_def first_error_None by (blast intro: validated_clear)+
  ultimately show ?thesis by (simp add: canonical_def lowered_def envelope.truncate_def)
qed

lemma record_kind_range:
  assumes "\<not> (k < RecordKindWebSocket \<or> k > RecordKindControl)"
  obtains "k = RecordKindWebSocket" | "k = RecordKindREST" | "k = RecordKindControl"
proof -
  have "unat k \<in> {1, 2, 3}"
    using assms by (auto simp: word_less_nat_alt RecordKindWebSocket_def RecordKindControl_def)
  then have "k = 1 \<or> k = 2 \<or> k = 3" by (auto simp: word_unat_eq_iff)
  then show thesis using that by (auto simp: RecordKindWebSocket_def RecordKindREST_def RecordKindControl_def)
qed

lemma record_kinds_differ: "RecordKindWebSocket \<noteq> RecordKindControl" "RecordKindREST \<noteq> RecordKindControl" "RecordKindWebSocket \<noteq> RecordKindREST"
  by (simp_all add: RecordKindWebSocket_def RecordKindREST_def RecordKindControl_def)

lemma control_kind_present:
  assumes "envelope_validate sha e c = None"
  shows "o_valid (v_control e) = (e_kind e = RecordKindControl)" "validateOptionalControlKind (v_control e) = None"
    "v_version e = EnvelopeVersion"
proof -
  obtain epoch where i: "validate_identity e = None" and v: "validate_content sha e c epoch = None"
    using assms unfolding envelope_validate_None by blast
  have s: "validateRecordSemantics e epoch = None" using v unfolding validate_content_def by simp
  have "\<not> (e_kind e < RecordKindWebSocket \<or> e_kind e > RecordKindControl)" using i unfolding validate_identity_def by simp
  then show "o_valid (v_control e) = (e_kind e = RecordKindControl)"
    using s record_kinds_differ by (cases rule: record_kind_range) (auto simp: validateRecordSemantics_def)
  show "validateOptionalControlKind (v_control e) = None" using v unfolding validate_content_def by simp
  show "v_version e = EnvelopeVersion" using i unfolding validate_identity_def by simp
qed

lemma decodeControlExtension_header:
  "decodeControlExtension x = Inr (k, ext) \<longleftrightarrow>
   o_valid k \<and> validateOptionalControlKind k = None \<and> x = control_header (o_value k) @ ext"
proof (cases "length x < 8")
  case False
  obtain m t where "x = m @ t" and m: "length m = 4" and t: "4 \<le> length t"
    by (rule that [of "take 4 x" "drop 4 x"]) (use False in auto)
  moreover from t obtain a4 a5 a6 a7 b where "t = a4 # a5 # a6 # a7 # b"
    by (auto simp: Suc_le_length_iff eval_nat_numeral)
  ultimately have x: "x = m @ a4 # a5 # a6 # a7 # b" by simp
  then show ?thesis unfolding x using m
    by (cases k) (auto simp: decodeControlExtension_def control_header_def controlExtensionHeaderSize_def Let_def nth_append
        split: option.splits)
qed (auto simp: decodeControlExtension_def controlExtensionHeaderSize_def)

lemma raise_lowered:
  assumes "Validate sha e = None"
  shows "envelopeV1FromSegment sha (lowered e) = Inr e"
proof -
  have v: "envelope_validate sha e False = None" and h: "v_sha e = sha (e_payload e)" using assms by (simp_all add: validate_hash)
  note c = control_kind_present [OF v]
  have "(if e_kind (lowered e) = RecordKindControl then decodeControlExtension (e_ext (lowered e))
            else Inr (\<lparr>o_value = 0, o_valid = False\<rparr>, e_ext (lowered e))) = Inr (v_control e, e_ext e)"
  proof (cases "e_kind e = RecordKindControl")
    case True
    then have "decodeControlExtension (e_ext (lowered e)) = Inr (v_control e, e_ext e)"
      unfolding decodeControlExtension_header using c by (simp add: lowered_def)
    then show ?thesis using True by (simp add: lowered_def)
  next
    case False
    then have "v_control e = \<lparr>o_value = 0, o_valid = False\<rparr>" using c by (cases "v_control e") (simp add: validateOptionalControlKind_def)
    then show ?thesis using False by (simp add: lowered_def)
  qed
  moreover have "envelope.extend (lowered e\<lparr>e_ext := e_ext e\<rparr>) (envelope_v1.fields EnvelopeVersion (sha (e_payload (lowered e))) (v_control e)) = e"
    using h c(3) by (cases e) (simp add: lowered_def envelope.extend_def envelope_v1.fields_def envelope.truncate_def)
  ultimately show ?thesis using v by (simp add: envelopeV1FromSegment_def Let_def)
qed

lemma raised_lowers:
  assumes "envelopeV1FromSegment sha r = Inr e"
  shows "Validate sha e = None \<and> lowered e = r"
proof -
  obtain k ext where d: "(if e_kind r = RecordKindControl then decodeControlExtension (e_ext r)
      else Inr (\<lparr>o_value = 0, o_valid = False\<rparr>, e_ext r)) = Inr (k, ext)"
    and e: "e = envelope.extend (r\<lparr>e_ext := ext\<rparr>) (envelope_v1.fields EnvelopeVersion (sha (e_payload r)) k)"
    and v: "envelope_validate sha e False = None"
    using assms by (auto simp: envelopeV1FromSegment_def Let_def split: sum.splits option.splits)
  have f: "e_kind e = e_kind r" "e_payload e = e_payload r" "v_sha e = sha (e_payload r)" "v_control e = k" "e_ext e = ext"
    "envelope.truncate e = r\<lparr>e_ext := ext\<rparr>"
    unfolding e by (cases r; simp add: envelope.extend_def envelope_v1.fields_def envelope.truncate_def)+
  have "e_ext r = (if e_kind r = RecordKindControl then control_header (o_value k) else []) @ ext"
    using d by (auto simp: decodeControlExtension_header split: if_splits)
  then have "lowered e = r" unfolding lowered_def f by simp
  then show ?thesis using v f by (simp add: validate_hash)
qed

lemma UnmarshalEnvelope_iff:
  assumes "\<And>b. length (sha b) = 32"
  shows "UnmarshalEnvelope sha bs = Inr r \<longleftrightarrow> encodeRecord sha r = Inr bs \<and> canonical r = r \<and> envelope_shape r"
proof
  assume "UnmarshalEnvelope sha bs = Inr r"
  then have "decodeRecord sha bs = Inr (r, length bs)" by (auto simp: UnmarshalEnvelope_def split: sum.splits if_splits)
  from decodeRecord_encodes [OF this] show "encodeRecord sha r = Inr bs \<and> canonical r = r \<and> envelope_shape r" by simp
next
  assume a: "encodeRecord sha r = Inr bs \<and> canonical r = r \<and> envelope_shape r"
  then have v: "validateEnvelope r" "bs = record_frame (record_body sha r)" by (simp_all add: encodeRecord_valid)
  then show "UnmarshalEnvelope sha bs = Inr r"
    using decode_encoded [of sha r "[]", OF assms] a length_record_body [of r sha] assms
    by (simp add: UnmarshalEnvelope_def length_record_frame)
qed

lemma shape_lowered: "envelope_shape (lowered e) \<longleftrightarrow> capture_shape e"
  by (simp add: capture_shape_def envelope_shape_def lowered_def envelope.truncate_def)

text \<open>
  C34. The stored bytes and the valid capture envelopes correspond one to one.  Bytes
  are read as an envelope exactly when that envelope is written as those bytes, and
  an envelope can be written exactly when it passes \<open>Validate\<close>: the framing layer
  never rejects what the semantic layer accepted, the bounds of both agree, and the
  typed control header and the payload digest survive.
\<close>

theorem capture_codec_exact:
  assumes "\<And>b. length (sha b) = 32"
  shows "(UnmarshalEnvelopeV1 sha data = Inr e \<longleftrightarrow> capture_shape e \<and> MarshalEnvelopeV1 sha e = Inr data) \<and>
    ((\<exists>bs. MarshalEnvelopeV1 sha e = Inr bs) \<longleftrightarrow> Validate sha e = None)"
proof -
  have marshal: "MarshalEnvelopeV1 sha e = Inr bs \<longleftrightarrow> Validate sha e = None \<and> encodeRecord sha (lowered e) = Inr bs" for bs
    by (auto simp: MarshalEnvelopeV1_def ToSegment_lowered MarshalEnvelope_def split: option.splits sum.splits)
  have canon: "canonical (lowered e) = lowered e" "validateEnvelope (lowered e)" if "Validate sha e = None"
    using that canonical_lowered validate_lowered unfolding Validate_def by blast+
  have "UnmarshalEnvelopeV1 sha data = Inr e \<longleftrightarrow> capture_shape e \<and> MarshalEnvelopeV1 sha e = Inr data"
  proof
    assume "UnmarshalEnvelopeV1 sha data = Inr e"
    then obtain r where u: "UnmarshalEnvelope sha data = Inr r" and e: "envelopeV1FromSegment sha r = Inr e"
      by (auto simp: UnmarshalEnvelopeV1_def split: sum.splits)
    show "capture_shape e \<and> MarshalEnvelopeV1 sha e = Inr data"
      using raised_lowers [OF e] u unfolding UnmarshalEnvelope_iff [OF assms] marshal by (metis shape_lowered)
  next
    assume m: "capture_shape e \<and> MarshalEnvelopeV1 sha e = Inr data"
    then have v: "Validate sha e = None" by (simp add: marshal)
    have "UnmarshalEnvelope sha data = Inr (lowered e)"
      unfolding UnmarshalEnvelope_iff [OF assms] using m canon(1) [OF v] by (simp add: marshal shape_lowered)
    then show "UnmarshalEnvelopeV1 sha data = Inr e" by (simp add: UnmarshalEnvelopeV1_def raise_lowered [OF v])
  qed
  moreover have "(\<exists>bs. MarshalEnvelopeV1 sha e = Inr bs) \<longleftrightarrow> Validate sha e = None"
    using canon(2) by (auto simp: marshal encodeRecord_valid)
  ultimately show ?thesis ..
qed

definition sample_v1 :: envelope_v1 where
  "sample_v1 = envelope.extend sample_envelope
     (envelope_v1.fields EnvelopeVersion (sha_zero (e_payload sample_envelope)) \<lparr>o_value = 0, o_valid = False\<rparr>)"

lemmas sample_v1_defs = sample_v1_def sample_envelope_def zero_envelope_def envelope.extend_def envelope_v1.fields_def
  string_bounds RecordKindWebSocket_def RecordKindControl_def PayloadEncodingJSON_def PayloadEncodingNone_def TimeResolutionSecond_def
  TimeResolutionAbsent_def OutcomeObserved_def OutcomeDisconnected_def

lemma sample_v1_ok: "capture_shape sample_v1 \<and> Validate sha_zero sample_v1 = None"
proof -
  let ?epoch = "\<lparr>se_kind = EpochConnection, se_id = replicate 16 1\<rparr>"
  have "StreamEpoch sample_v1 = Inr ?epoch" by (simp add: StreamEpoch_def sample_v1_defs)
  moreover have "validate_identity sample_v1 = None"
    by (simp add: validation_defs sample_v1_defs)
  moreover have "validateRecordSemantics sample_v1 ?epoch = None" by (simp add: validateRecordSemantics_def sample_v1_defs)
  then have "validate_content sha_zero sample_v1 False ?epoch = None"
    unfolding validate_content_def first_error_None
    by (simp add: validation_defs sample_v1_defs validateOptionalControlKind_def encodedExtensionBytes_def
        envelopeBodyBytes_def MaxRecordBytes_def RecordHeaderSize_def MaxPayloadBytes_def MaxExtensionBytes_def)
  ultimately have "Validate sha_zero sample_v1 = None"
    unfolding validate_hash envelope_validate_None by (simp add: sample_v1_defs)
  then show ?thesis by (simp add: capture_shape_def envelope_shape_def envelope.truncate_def in_i64_def sample_v1_defs)
qed

theorem capture_codec_exact_witness:
  "\<exists>bs. MarshalEnvelopeV1 sha_zero sample_v1 = Inr bs \<and> UnmarshalEnvelopeV1 sha_zero bs = Inr sample_v1"
proof -
  have sha: "length (sha_zero b) = 32" for b by (simp add: sha_zero_def)
  note exact = capture_codec_exact [of sha_zero, OF sha]
  show ?thesis using exact sample_v1_ok by metis
qed

end
