(* ===== verification/Ordinal.thy ===== *)
theory Ordinal
  imports Capture
begin

text \<open>
  \<open>src/capture/ordinal.go\<close>: the assigner of arrival ordinals for one source and
  epoch.  Its mutex makes the calls a sequence, so a history is a list of calls;
  a record whose ordinal was assigned is returned, as the caller's record is
  updated in place.  Ordinals are 64-bit words.

  The lemmas show that the records numbered in a history carry the ordinals
  one, two, three and so on, whatever was refused in between, that a batch is
  numbered as a whole or not at all, and that a finalized assigner never numbers
  a record again.
\<close>

subsection \<open>The assigner\<close>

record epoch_commit =
  ec_source :: string
  ec_epoch :: stream_epoch
  ec_last :: u64

record ordinal_assigner =
  oa_source :: string
  oa_epoch :: stream_epoch
  oa_last :: u64
  oa_initialized :: bool
  oa_finalized :: bool

definition StreamEpoch_Validate :: "stream_epoch \<Rightarrow> capture_error option" where
  "StreamEpoch_Validate e = first_error [
     fail_if (se_kind e \<noteq> EpochConnection \<and> se_kind e \<noteq> EpochPollCycle) (ValidationError ''epoch kind'' [CauseInvalidEpoch]),
     fail_if (se_id e = zero16) (ValidationError ''epoch ID'' [CauseInvalidEpoch])]"

definition newOrdinalAssigner :: "string \<Rightarrow> stream_epoch \<Rightarrow> u64 \<Rightarrow> capture_error + ordinal_assigner" where
  "newOrdinalAssigner source epoch high =
     (case first_error [validateRequiredString ''source_id'' source MaxSourceIDBytes, StreamEpoch_Validate epoch] of
        Some err \<Rightarrow> Inl err
      | None \<Rightarrow> Inr \<lparr>oa_source = source, oa_epoch = epoch, oa_last = high, oa_initialized = True, oa_finalized = False\<rparr>)"

definition NewOrdinalAssigner :: "string \<Rightarrow> stream_epoch \<Rightarrow> capture_error + ordinal_assigner" where
  "NewOrdinalAssigner source epoch = newOrdinalAssigner source epoch 0"

definition ResumeOrdinalAssigner :: "string \<Rightarrow> stream_epoch \<Rightarrow> u64 \<Rightarrow> capture_error + ordinal_assigner" where
  "ResumeOrdinalAssigner source epoch high = newOrdinalAssigner source epoch high"

definition checkActiveLocked :: "ordinal_assigner \<Rightarrow> string \<Rightarrow> stream_epoch \<Rightarrow> capture_error option" where
  "checkActiveLocked a source epoch = first_error [
     fail_if (oa_finalized a) (ValidationError ''stream epoch'' [CauseOrdinalFinalized]),
     fail_if (\<not> oa_initialized a) (ValidationError ''stream epoch'' [CauseOrdinalUninitialized]),
     fail_if (source \<noteq> oa_source a \<or> epoch \<noteq> oa_epoch a) (ValidationError ''stream epoch'' [CauseInvalidEpoch])]"

text \<open>What both assignments check of the first record before and after the lock is taken.\<close>

definition check_record :: "ordinal_assigner \<Rightarrow> envelope_v1 \<Rightarrow> capture_error option" where
  "check_record a r =
     (case validateRequiredString ''source_id'' (e_source r) MaxSourceIDBytes of
        Some err \<Rightarrow> Some err
      | None \<Rightarrow> (case StreamEpoch r of
          Inl err \<Rightarrow> Some err
        | Inr epoch \<Rightarrow> first_error [StreamEpoch_Validate epoch, checkActiveLocked a (e_source r) epoch]))"

definition Assign :: "ordinal_assigner \<Rightarrow> envelope_v1 option \<Rightarrow> ordinal_assigner \<times> envelope_v1 option \<times> capture_error option" where
  "Assign a rec =
     (case rec of
        None \<Rightarrow> (a, rec, Some (ValidationError ''envelope'' [CauseInvalidEnvelope]))
      | Some r \<Rightarrow>
          (case first_error [check_record a r,
              fail_if (e_arrival r \<noteq> 0) (ValidationError ''arrival_ordinal'' [CauseOrdinalAlreadyAssigned]),
              fail_if (oa_last a = NOT 0) (ValidationError ''arrival_ordinal'' [CauseOrdinalExhausted])] of
             Some err \<Rightarrow> (a, rec, Some err)
           | None \<Rightarrow> let high = oa_last a + 1 in (a\<lparr>oa_last := high\<rparr>, Some (r\<lparr>e_arrival := high\<rparr>), None)))"

fun check_batch :: "ordinal_assigner \<Rightarrow> envelope_v1 list \<Rightarrow> capture_error option" where
  "check_batch a [] = None"
| "check_batch a (r # rs) =
     (if e_arrival r \<noteq> 0 then Some (ValidationError ''arrival_ordinal'' [CauseOrdinalAlreadyAssigned])
      else (case StreamEpoch r of
        Inl err \<Rightarrow> Some err
      | Inr candidate \<Rightarrow>
          if e_source r \<noteq> oa_source a \<or> candidate \<noteq> oa_epoch a then Some (ValidationError ''stream epoch'' [CauseInvalidEpoch])
          else check_batch a rs))"

definition AssignBatch :: "ordinal_assigner \<Rightarrow> envelope_v1 list \<Rightarrow> ordinal_assigner \<times> envelope_v1 list \<times> capture_error option" where
  "AssignBatch a rs =
     (if rs = [] then (a, rs, None)
      else (case first_error [
          fail_if (length rs > 0xFFFFFFFF + 1) (ValidationError ''message_ordinal'' [CauseInvalidEnvelope]),
          check_record a (hd rs), check_batch a rs,
          fail_if (oa_last a > NOT 0 - of_nat (length rs)) (ValidationError ''arrival_ordinal'' [CauseOrdinalExhausted])] of
         Some err \<Rightarrow> (a, rs, Some err)
       | None \<Rightarrow>
           (a\<lparr>oa_last := oa_last a + of_nat (length rs)\<rparr>,
            map (\<lambda>(i, r). r\<lparr>e_arrival := oa_last a + of_nat i + 1, e_message := of_nat i\<rparr>) (enumerate 0 rs), None)))"

definition zero_epoch :: stream_epoch where
  "zero_epoch = \<lparr>se_kind = 0, se_id = zero16\<rparr>"

definition Finalize :: "ordinal_assigner \<Rightarrow> epoch_commit \<Rightarrow> ordinal_assigner \<times> capture_error option" where
  "Finalize a commit =
     (case first_error [validateRequiredString ''source_id'' (ec_source commit) MaxSourceIDBytes, StreamEpoch_Validate (ec_epoch commit),
         fail_if (oa_finalized a) (ValidationError ''stream epoch'' [CauseOrdinalFinalized]),
         fail_if (\<not> oa_initialized a) (ValidationError ''stream epoch'' [CauseOrdinalUninitialized]),
         fail_if (ec_source commit \<noteq> oa_source a \<or> ec_epoch commit \<noteq> oa_epoch a \<or> ec_last commit \<noteq> oa_last a)
           (ValidationError ''epoch commit'' [CauseOrdinalCommitMismatch])] of
        Some err \<Rightarrow> (a, Some err)
      | None \<Rightarrow> (a\<lparr>oa_source := [], oa_epoch := zero_epoch, oa_last := 0, oa_initialized := False, oa_finalized := True\<rparr>, None))"

subsection \<open>Histories\<close>

datatype assigner_call = CallAssign "envelope_v1 option" | CallBatch "envelope_v1 list" | CallFinalize epoch_commit

text \<open>A call, with the records it numbered.\<close>

fun assigner_step :: "ordinal_assigner \<Rightarrow> assigner_call \<Rightarrow> ordinal_assigner \<times> envelope_v1 list" where
  "assigner_step a (CallAssign rec) =
     (case Assign a rec of (a', rec', err) \<Rightarrow> (a', case err of Some _ \<Rightarrow> [] | None \<Rightarrow> (case rec' of None \<Rightarrow> [] | Some r \<Rightarrow> [r])))"
| "assigner_step a (CallBatch rs) = (case AssignBatch a rs of (a', rs', err) \<Rightarrow> (a', case err of Some _ \<Rightarrow> [] | None \<Rightarrow> rs'))"
| "assigner_step a (CallFinalize commit) = (case Finalize a commit of (a', err) \<Rightarrow> (a', []))"

fun assigner_run :: "ordinal_assigner \<Rightarrow> assigner_call list \<Rightarrow> ordinal_assigner \<times> envelope_v1 list" where
  "assigner_run a [] = (a, [])"
| "assigner_run a (c # cs) =
     (case assigner_step a c of (a', issued) \<Rightarrow> (case assigner_run a' cs of (a'', later) \<Rightarrow> (a'', issued @ later)))"

text \<open>The records numbered next: the ordinals that follow the high-water mark, in the assigner's source and epoch.\<close>

definition numbered_from :: "ordinal_assigner \<Rightarrow> envelope_v1 list \<Rightarrow> bool" where
  "numbered_from a rs \<longleftrightarrow>
     map (\<lambda>r. unat (e_arrival r)) rs = [Suc (unat (oa_last a)) ..< Suc (unat (oa_last a)) + length rs] \<and>
     list_all (\<lambda>r. e_source r = oa_source a \<and> StreamEpoch r = Inr (oa_epoch a)) rs"

lemma batch_range:
  assumes "\<not> (l :: u64) > NOT 0 - of_nat n" "n \<le> 2 ^ 32" "i \<le> n"
  shows "unat (l + of_nat i) = unat l + i"
proof -
  have n: "unat (of_nat n :: u64) = n" and i: "unat (of_nat i :: u64) = i"
    using assms(2,3) by (auto intro: unat_of_nat_u64)
  have "unat (NOT 0 - of_nat n :: u64) = 2 ^ 64 - 1 - n"
    using n assms(2) by (subst unat_sub) (simp_all add: word_le_nat_alt unsigned_minus_1_eq_mask mask_eq_exp_minus_1)
  then have "unat l + i < 2 ^ 64" using assms by (simp add: word_less_nat_alt not_less)
  then show ?thesis using i by (subst unat_add_lem [THEN iffD1]) simp_all
qed

lemma check_record_active:
  "check_record a r = None \<Longrightarrow> e_source r = oa_source a \<and> StreamEpoch r = Inr (oa_epoch a) \<and> \<not> oa_finalized a \<and> oa_initialized a"
  by (auto simp: check_record_def checkActiveLocked_def split: option.splits sum.splits)

lemma check_batch_None:
  "check_batch a rs = None \<longleftrightarrow> list_all (\<lambda>r. e_arrival r = 0 \<and> e_source r = oa_source a \<and> StreamEpoch r = Inr (oa_epoch a)) rs"
  by (induction rs) (auto split: sum.splits)

lemma StreamEpoch_numbered [simp]: "StreamEpoch (r\<lparr>e_arrival := k\<rparr>) = StreamEpoch r" "StreamEpoch (r\<lparr>e_arrival := k, e_message := m\<rparr>) = StreamEpoch r"
  by (simp_all add: StreamEpoch_def)

lemma Assign_spec:
  obtains err where "Assign a rec = (a, rec, Some err)"
  | r where "rec = Some r" "Assign a rec = (a\<lparr>oa_last := oa_last a + 1\<rparr>, Some (r\<lparr>e_arrival := oa_last a + 1\<rparr>), None)"
      "e_source r = oa_source a" "StreamEpoch r = Inr (oa_epoch a)" "\<not> oa_finalized a" "unat (oa_last a + 1) = Suc (unat (oa_last a))"
proof (cases rec)
  case None
  then show thesis using that(1) by (simp add: Assign_def)
next
  case (Some r)
  show thesis
  proof (cases "check_record a r = None \<and> e_arrival r = 0 \<and> oa_last a \<noteq> NOT 0")
    case True
    then have "unat (oa_last a + 1) = Suc (unat (oa_last a))" using unatSuc [of "oa_last a"] by (simp add: add.commute add_eq_0_iff)
    then show thesis using True Some check_record_active [of a r] that(2) by (simp add: Assign_def Let_def)
  next
    case False
    let ?e = "first_error [check_record a r,
              fail_if (e_arrival r \<noteq> 0) (ValidationError ''arrival_ordinal'' [CauseOrdinalAlreadyAssigned]),
              fail_if (oa_last a = NOT 0) (ValidationError ''arrival_ordinal'' [CauseOrdinalExhausted])]"
    have "?e \<noteq> None" using False by auto
    then obtain err where e: "?e = Some err" by blast
    have "Assign a rec = (a, rec, Some err)" unfolding Assign_def Some option.case e ..
    then show thesis by (rule that(1))
  qed
qed

definition numbered_batch :: "u64 \<Rightarrow> envelope_v1 list \<Rightarrow> envelope_v1 list" where
  "numbered_batch high rs = map (\<lambda>(i, r). r\<lparr>e_arrival := high + of_nat i + 1, e_message := of_nat i\<rparr>) (enumerate 0 rs)"

lemma AssignBatch_spec:
  obtains err where "AssignBatch a rs = (a, rs, Some err)"
  | "rs = []" "AssignBatch a rs = (a, [], None)"
  | "rs \<noteq> []" "AssignBatch a rs = (a\<lparr>oa_last := oa_last a + of_nat (length rs)\<rparr>, numbered_batch (oa_last a) rs, None)"
      "list_all (\<lambda>r. e_arrival r = 0 \<and> e_source r = oa_source a \<and> StreamEpoch r = Inr (oa_epoch a)) rs" "\<not> oa_finalized a"
      "length rs \<le> 2 ^ 32" "\<And>i. i \<le> length rs \<Longrightarrow> unat (oa_last a + of_nat i) = unat (oa_last a) + i"
proof (cases "rs = []")
  case True
  then show thesis using that(2) by (simp add: AssignBatch_def)
next
  case False
  let ?e = "first_error [
          fail_if (length rs > 0xFFFFFFFF + 1) (ValidationError ''message_ordinal'' [CauseInvalidEnvelope]),
          check_record a (hd rs), check_batch a rs,
          fail_if (oa_last a > NOT 0 - of_nat (length rs)) (ValidationError ''arrival_ordinal'' [CauseOrdinalExhausted])]"
  show thesis
  proof (cases ?e)
    case None
    then have c: "length rs \<le> 2 ^ 32" "check_record a (hd rs) = None" "check_batch a rs = None" "\<not> oa_last a > NOT 0 - of_nat (length rs)"
      by simp_all
    have r: "AssignBatch a rs = (a\<lparr>oa_last := oa_last a + of_nat (length rs)\<rparr>, numbered_batch (oa_last a) rs, None)"
      unfolding AssignBatch_def None numbered_batch_def using False by simp
    show thesis
      using that(3) [OF False r] c check_record_active [OF c(2)] batch_range [OF c(4,1)] unfolding check_batch_None by blast
  next
    case (Some err)
    then have "AssignBatch a rs = (a, rs, Some err)" unfolding AssignBatch_def Some using False by simp
    then show thesis by (rule that(1))
  qed
qed

lemma numbered_batch_from:
  assumes "list_all (\<lambda>r. e_arrival r = 0 \<and> e_source r = oa_source a \<and> StreamEpoch r = Inr (oa_epoch a)) rs"
    "\<And>i. i \<le> length rs \<Longrightarrow> unat (oa_last a + of_nat i) = unat (oa_last a) + i"
  shows "numbered_from a (numbered_batch (oa_last a) rs)"
proof -
  have "unat (oa_last a + of_nat i + 1) = Suc (unat (oa_last a) + i)" if "i < length rs" for i
    using assms(2) [of "Suc i"] that by (simp add: algebra_simps)
  then have "map (\<lambda>r. unat (e_arrival r)) (numbered_batch (oa_last a) rs) = [Suc (unat (oa_last a)) ..< Suc (unat (oa_last a)) + length rs]"
    by (intro nth_equalityI) (simp_all add: numbered_batch_def nth_enumerate_eq del: upt_Suc)
  moreover have "list_all (\<lambda>r. e_source r = oa_source a \<and> StreamEpoch r = Inr (oa_epoch a)) (numbered_batch (oa_last a) rs)"
    using assms(1) by (simp add: numbered_batch_def list_all_length nth_enumerate_eq)
  ultimately show ?thesis by (simp add: numbered_from_def numbered_batch_def)
qed

lemma Finalize_spec:
  obtains err where "Finalize a commit = (a, Some err)"
  | "Finalize a commit = (a\<lparr>oa_source := [], oa_epoch := zero_epoch, oa_last := 0, oa_initialized := False, oa_finalized := True\<rparr>, None)"
      "\<not> oa_finalized a" "ec_last commit = oa_last a"
  by (cases "snd (Finalize a commit)") (auto simp: Finalize_def split: option.splits)

text \<open>A finalized assigner refuses everything and stays as it is; an active one numbers the next records.\<close>

lemma step_finalized:
  assumes "oa_finalized a" "assigner_step a c = (a', issued)"
  shows "a' = a \<and> issued = []"
proof (cases c)
  case (CallAssign rec)
  then show ?thesis using assms by (cases rule: Assign_spec [of a rec]) auto
next
  case (CallBatch rs)
  then show ?thesis using assms by (cases rule: AssignBatch_spec [of a rs]) auto
next
  case (CallFinalize commit)
  then show ?thesis using assms by (cases rule: Finalize_spec [of a commit]) auto
qed

lemma run_finalized: "oa_finalized a \<Longrightarrow> assigner_run a cs = (a, [])"
proof (induction cs)
  case (Cons c cs)
  obtain a' issued where "assigner_step a c = (a', issued)" by fastforce
  then show ?case using Cons step_finalized by fastforce
qed simp

lemma step_numbers:
  assumes "assigner_step a c = (a', issued)"
  shows "numbered_from a issued \<and>
    (oa_finalized a' \<or> oa_source a' = oa_source a \<and> oa_epoch a' = oa_epoch a \<and> unat (oa_last a') = unat (oa_last a) + length issued)"
proof (cases c)
  case (CallAssign rec)
  then show ?thesis using assms by (cases rule: Assign_spec [of a rec]) (auto simp: numbered_from_def)
next
  case (CallBatch rs)
  then show ?thesis using assms
  proof (cases rule: AssignBatch_spec [of a rs])
    case 3
    have "issued = numbered_batch (oa_last a) rs" "a' = a\<lparr>oa_last := oa_last a + of_nat (length rs)\<rparr>"
      using assms CallBatch 3(2) by simp_all
    then show ?thesis using numbered_batch_from [OF 3(3,6)] 3(6) [of "length rs"] by (simp add: numbered_batch_def)
  qed (auto simp: numbered_from_def)
next
  case (CallFinalize commit)
  then show ?thesis using assms by (cases rule: Finalize_spec [of a commit]) (auto simp: numbered_from_def)
qed

lemma numbered_from_append:
  assumes "numbered_from a xs" "numbered_from b ys" "oa_source b = oa_source a" "oa_epoch b = oa_epoch a"
    "unat (oa_last b) = unat (oa_last a) + length xs"
  shows "numbered_from a (xs @ ys)"
proof -
  let ?k = "Suc (unat (oa_last a))"
  have "[?k ..< ?k + length (xs @ ys)] = [?k ..< ?k + length xs] @ [?k + length xs ..< ?k + length xs + length ys]"
    using upt_add_eq_append [of ?k "?k + length xs" "length ys"] by (simp add: add.assoc del: upt_Suc)
  then show ?thesis using assms by (simp add: numbered_from_def del: upt_Suc)
qed

lemma run_numbers: "assigner_run a cs = (a', issued) \<Longrightarrow> numbered_from a issued"
proof (induction cs arbitrary: a a' issued)
  case Nil
  then show ?case by (simp add: numbered_from_def)
next
  case (Cons c cs)
  obtain b xs where s: "assigner_step a c = (b, xs)" by fastforce
  obtain d ys where r: "assigner_run b cs = (d, ys)" by fastforce
  have i: "issued = xs @ ys" using Cons.prems s r by simp
  show ?case
  proof (cases "oa_finalized b")
    case True
    then show ?thesis using r i step_numbers [OF s] run_finalized [OF True] by simp
  next
    case False
    then show ?thesis unfolding i using step_numbers [OF s] Cons.IH [OF r] by (blast intro: numbered_from_append)
  qed
qed

text \<open>
  C35. Arrival ordinals number an epoch without gap, repetition or wrap-around.  From
  a new assigner, whatever sequence of single assignments, batches and finalizations
  follows, refused calls included, the records numbered successfully carry, in the
  order they were numbered, the ordinals one up to their number, and all belong to
  the assigner's source and epoch.
\<close>

theorem ordinals_consecutive:
  assumes "NewOrdinalAssigner source epoch = Inr a" "assigner_run a calls = (a', issued)"
  shows "map (\<lambda>r. unat (e_arrival r)) issued = [1 ..< length issued + 1] \<and>
    list_all (\<lambda>r. e_source r = source \<and> StreamEpoch r = Inr epoch) issued"
proof -
  have "oa_last a = 0" "oa_source a = source" "oa_epoch a = epoch"
    using assms(1) by (auto simp: NewOrdinalAssigner_def newOrdinalAssigner_def split: option.splits)
  then show ?thesis using run_numbers [OF assms(2)] by (simp add: numbered_from_def)
qed

definition sample_record :: envelope_v1 where
  "sample_record = sample_v1\<lparr>e_arrival := 0\<rparr>"

definition sample_epoch :: stream_epoch where
  "sample_epoch = \<lparr>se_kind = EpochConnection, se_id = replicate 16 1\<rparr>"

definition sample_assigner :: ordinal_assigner where
  "sample_assigner = \<lparr>oa_source = ''s'', oa_epoch = sample_epoch, oa_last = 0, oa_initialized = True, oa_finalized = False\<rparr>"

lemma sample_assigner_new: "NewOrdinalAssigner ''s'' sample_epoch = Inr sample_assigner"
  by (simp add: NewOrdinalAssigner_def newOrdinalAssigner_def sample_assigner_def sample_epoch_def validateRequiredString_def
      StreamEpoch_Validate_def MaxSourceIDBytes_def)

theorem ordinals_consecutive_witness:
  "map (\<lambda>r. unat (e_arrival r)) (snd (assigner_run sample_assigner [CallBatch [sample_record, sample_record], CallAssign None,
     CallAssign (Some sample_record)])) = [1, 2, 3]"
proof -
  obtain a' issued where r: "assigner_run sample_assigner [CallBatch [sample_record, sample_record], CallAssign None,
     CallAssign (Some sample_record)] = (a', issued)" by fastforce
  have "StreamEpoch sample_record = Inr sample_epoch" "e_source sample_record = ''s''" "e_arrival sample_record = 0"
    by (simp_all add: sample_record_def sample_v1_defs StreamEpoch_def sample_epoch_def)
  moreover have "StreamEpoch_Validate sample_epoch = None" by (simp add: StreamEpoch_Validate_def sample_epoch_def)
  ultimately have "length issued = 3"
    using r by (auto simp: AssignBatch_def Assign_def check_record_def validateRequiredString_def checkActiveLocked_def MaxSourceIDBytes_def
        sample_assigner_def enumerate_eq_zip split: if_splits)
  then show ?thesis using ordinals_consecutive [OF sample_assigner_new r] r by (simp add: upt_rec)
qed

text \<open>
  A batch is numbered as a whole or not at all.  Either the call reports an error
  and neither the assigner nor any record has changed, or every record belonged to
  the assigner and was unnumbered, the records carry consecutive ordinals with
  message ordinals from zero, only those two fields change, and nothing wrapped.
\<close>

theorem assign_batch_atomic:
  "(\<exists>err. AssignBatch a rs = (a, rs, Some err)) \<or>
   (\<exists>a' rs'. AssignBatch a rs = (a', rs', None) \<and> length rs' = length rs \<and>
      list_all (\<lambda>r. e_arrival r = 0 \<and> e_source r = oa_source a \<and> StreamEpoch r = Inr (oa_epoch a)) rs \<and>
      unat (oa_last a') = unat (oa_last a) + length rs \<and> a' = a\<lparr>oa_last := oa_last a'\<rparr> \<and>
      list_all (\<lambda>i. unat (e_arrival (rs' ! i)) = unat (oa_last a) + i + 1 \<and> unat (e_message (rs' ! i)) = i \<and>
        rs' ! i = (rs ! i)\<lparr>e_arrival := e_arrival (rs' ! i), e_message := e_message (rs' ! i)\<rparr>) [0 ..< length rs])"
proof (cases rule: AssignBatch_spec [of a rs])
  case 3
  let ?rs = "numbered_batch (oa_last a) rs"
  have "unat (e_arrival (?rs ! i)) = unat (oa_last a) + i + 1 \<and> unat (e_message (?rs ! i)) = i \<and>
      ?rs ! i = (rs ! i)\<lparr>e_arrival := e_arrival (?rs ! i), e_message := e_message (?rs ! i)\<rparr>" if "i < length rs" for i
    using that 3(5) 3(6) [of "Suc i"]
    by (simp add: numbered_batch_def nth_enumerate_eq unat_of_nat_u32 algebra_simps)
  then show ?thesis using 3 by (auto simp: list_all_iff numbered_batch_def)
qed auto

end
