(* ===== verification/Plan.thy ===== *)
theory Plan
  imports Segment Ordinal "HOL-Library.Product_Lexorder"
begin

text \<open>
  \<open>src/replay/types.go\<close> and the planning half of \<open>native.go\<close>: the limits of a
  replay, the descriptors of committed segments, and the grouping of descriptors
  by source and epoch.

  Go maps are association lists; \<open>slices.Sorted\<close> and \<open>slices.SortFunc\<close> are sorts,
  and since Go's sort is not stable, a lemma shows that the comparators used here
  leave only one sorted order.

  The lemmas show which inputs are planned and that the plan depends only on which
  segments are given, not on their order.
\<close>

subsection \<open>Types\<close>

datatype replay_error = ErrInvalidInput | ErrInputBound | ErrIntegrity | ErrEmitter string | ErrObject string string

definition MaximumWorkers :: int where "MaximumWorkers = 64"
definition MaximumPrefetch :: int where "MaximumPrefetch = 64"

record replay_config =
  rp_concurrency :: int
  rp_prefetch :: int
  rp_sources :: int
  rp_segments :: int
  rp_bytes :: i64
  rp_records :: u64
  rp_frames :: int

definition DefaultConfig :: replay_config where
  "DefaultConfig = \<lparr>rp_concurrency = 1, rp_prefetch = 2, rp_sources = 64, rp_segments = 1000000, rp_bytes = 335544320,
     rp_records = 4000000, rp_frames = 4096\<rparr>"

definition normalized :: "replay_config \<Rightarrow> replay_error + replay_config" where
  "normalized c0 =
     (let d = DefaultConfig;
          c = \<lparr>rp_concurrency = (if rp_concurrency c0 = 0 then rp_concurrency d else rp_concurrency c0),
               rp_prefetch = (if rp_prefetch c0 = 0 then rp_prefetch d else rp_prefetch c0),
               rp_sources = (if rp_sources c0 = 0 then rp_sources d else rp_sources c0),
               rp_segments = (if rp_segments c0 = 0 then rp_segments d else rp_segments c0),
               rp_bytes = (if rp_bytes c0 = 0 then rp_bytes d else rp_bytes c0),
               rp_records = (if rp_records c0 = 0 then rp_records d else rp_records c0),
               rp_frames = (if rp_frames c0 = 0 then rp_frames d else rp_frames c0)\<rparr> in
      if rp_concurrency c < 1 \<or> rp_concurrency c > MaximumWorkers then Inl ErrInputBound
      else if rp_prefetch c < 1 \<or> rp_prefetch c > MaximumPrefetch then Inl ErrInputBound
      else if rp_sources c < 1 \<or> rp_segments c < 1 \<or> rp_bytes c < 1 \<or> rp_records c < 1 \<or> rp_frames c < 1 then Inl ErrInputBound
      else Inr c)"

text \<open>The manifest a spool writes beside a closed segment.\<close>

record ready_manifest =
  rm_version :: u16
  rm_source :: string
  rm_channel :: string
  rm_epoch_kind :: string
  rm_epoch :: string
  rm_writer :: string
  rm_rotation :: string
  rm_file :: string
  rm_object :: string
  rm_fingerprints :: "hash list"
  rm_segment :: manifest

record input_descriptor =
  id_segment :: string
  id_source :: string
  id_channel :: string
  id_epoch :: string
  id_epoch_bytes :: bytes
  id_object :: string
  id_sha :: hash
  id_bytes :: i64
  id_start_ns :: i64
  id_end_ns :: i64
  id_first :: u64
  id_last :: u64
  id_manifest_sha :: hash
  id_manifest_bytes :: bytes
  id_manifest :: ready_manifest

record epoch_plan =
  ep_source :: string
  ep_epoch :: string
  ep_first_ns :: i64
  ep_segments :: "input_descriptor list"

record source_plan =
  sp_source :: string
  sp_epochs :: "epoch_plan list"

subsection \<open>Comparators\<close>

text \<open>The pair of tests that returns -1 or 1 and falls through when neither holds.\<close>

definition compare_then :: "('a :: linorder) \<Rightarrow> 'a \<Rightarrow> int \<Rightarrow> int" where
  "compare_then l r rest = (if l < r then - 1 else if l > r then 1 else rest)"

definition compareDescriptorRange :: "input_descriptor \<Rightarrow> input_descriptor \<Rightarrow> int" where
  "compareDescriptorRange l r =
     compare_then (id_first l) (id_first r) (compare_then (id_last l) (id_last r) (compare_then (id_segment l) (id_segment r) 0))"

definition compare_epochs :: "epoch_plan \<Rightarrow> epoch_plan \<Rightarrow> int" where
  "compare_epochs l r = compare_then (ep_first_ns l) (ep_first_ns r) (compare_then (ep_epoch l) (ep_epoch r) 0)"

fun insert_by :: "('a \<Rightarrow> 'a \<Rightarrow> int) \<Rightarrow> 'a \<Rightarrow> 'a list \<Rightarrow> 'a list" where
  "insert_by cmp x [] = [x]"
| "insert_by cmp x (y # ys) = (if cmp x y \<le> 0 then x # y # ys else y # insert_by cmp x ys)"

definition SortFunc :: "('a \<Rightarrow> 'a \<Rightarrow> int) \<Rightarrow> 'a list \<Rightarrow> 'a list" where
  "SortFunc cmp xs = foldr (insert_by cmp) xs []"

subsection \<open>Planning\<close>

type_synonym epoch_map = "(string \<times> input_descriptor list) list"

definition add_input :: "input_descriptor \<Rightarrow> (string \<times> epoch_map) list \<Rightarrow> (string \<times> epoch_map) list" where
  "add_input input bySource =
     (let epochs = (case go_get bySource (id_source input) of None \<Rightarrow> [] | Some m \<Rightarrow> m);
          ds = (case go_get epochs (id_epoch input) of None \<Rightarrow> [] | Some ds \<Rightarrow> ds)
      in go_put (id_source input) (go_put (id_epoch input) (ds @ [input]) epochs) bySource)"

fun plan_inputs :: "replay_config \<Rightarrow> (string \<times> epoch_map) list \<Rightarrow> string list \<Rightarrow> string list \<Rightarrow> input_descriptor list \<Rightarrow>
    replay_error + (string \<times> epoch_map) list" where
  "plan_inputs config bySource segmentIDs objectKeys [] = Inr bySource"
| "plan_inputs config bySource segmentIDs objectKeys (input # rest) =
     (if id_source input = [] \<or> id_epoch input = [] \<or> id_segment input = [] then Inl ErrInvalidInput
      else if id_bytes input > rp_bytes config \<or> mf_count (rm_segment (id_manifest input)) > rp_records config \<or>
              int (length (mf_frames (rm_segment (id_manifest input)))) > rp_frames config then Inl ErrInputBound
      else if id_segment input \<in> set segmentIDs then Inl ErrInvalidInput
      else if id_object input \<in> set objectKeys then Inl ErrInvalidInput
      else plan_inputs config (add_input input bySource) (id_segment input # segmentIDs) (id_object input # objectKeys) rest)"

definition plan_epoch :: "string \<Rightarrow> epoch_map \<Rightarrow> string \<Rightarrow> epoch_plan" where
  "plan_epoch sourceID epochMap epochID =
     (let descriptors = SortFunc compareDescriptorRange (case go_get epochMap epochID of None \<Rightarrow> [] | Some ds \<Rightarrow> ds)
      in \<lparr>ep_source = sourceID, ep_epoch = epochID, ep_first_ns = id_start_ns (hd descriptors), ep_segments = descriptors\<rparr>)"

definition plan_source :: "(string \<times> epoch_map) list \<Rightarrow> string \<Rightarrow> source_plan" where
  "plan_source bySource sourceID =
     (let epochMap = (case go_get bySource sourceID of None \<Rightarrow> [] | Some m \<Rightarrow> m)
      in \<lparr>sp_source = sourceID,
          sp_epochs = SortFunc compare_epochs (map (plan_epoch sourceID epochMap) (sort (map fst epochMap)))\<rparr>)"

definition buildSourcePlans :: "input_descriptor list \<Rightarrow> replay_config \<Rightarrow> replay_error + source_plan list" where
  "buildSourcePlans inputs config =
     (if int (length inputs) > rp_segments config then Inl ErrInputBound
      else (case plan_inputs config [] [] [] inputs of
        Inl err \<Rightarrow> Inl err
      | Inr bySource \<Rightarrow>
          if int (length bySource) > rp_sources config then Inl ErrInputBound
          else Inr (map (plan_source bySource) (sort (map fst bySource)))))"

subsection \<open>Sorting\<close>

lemma compare_then_le:
  "compare_then l r k \<le> 0 \<longleftrightarrow> l < r \<or> l = r \<and> k \<le> 0" "compare_then l r k < 0 \<longleftrightarrow> l < r \<or> l = r \<and> k < 0"
  "compare_then l r k = 0 \<longleftrightarrow> l = r \<and> k = 0"
  by (auto simp: compare_then_def)

definition range_key :: "input_descriptor \<Rightarrow> u64 \<times> u64 \<times> string" where
  "range_key d = (id_first d, id_last d, id_segment d)"

definition epoch_key :: "epoch_plan \<Rightarrow> i64 \<times> string" where
  "epoch_key e = (ep_first_ns e, ep_epoch e)"

lemma compareDescriptorRange_key: "compareDescriptorRange l r \<le> 0 \<longleftrightarrow> range_key l \<le> range_key r"
  by (auto simp: compareDescriptorRange_def compare_then_le range_key_def less_eq_prod_def)

lemma compareDescriptorRange_less: "compareDescriptorRange l r < 0 \<longleftrightarrow> range_key l < range_key r"
  by (auto simp: compareDescriptorRange_def compare_then_le range_key_def less_prod_def)

lemma compare_epochs_key: "compare_epochs l r \<le> 0 \<longleftrightarrow> epoch_key l \<le> epoch_key r"
  by (auto simp: compare_epochs_def compare_then_le epoch_key_def less_eq_prod_def)

lemma SortFunc_key:
  fixes key :: "'a \<Rightarrow> 'b :: linorder"
  assumes "\<And>l r. cmp l r \<le> 0 \<longleftrightarrow> key l \<le> key r"
  shows "SortFunc cmp xs = sort_key key xs"
proof -
  have "insert_by cmp x ys = insort_key key x ys" for x ys by (induction ys) (simp_all add: assms)
  then have "insert_by cmp = insort_key key" by (intro ext)
  then show ?thesis by (simp add: SortFunc_def sort_key_def)
qed

text \<open>Whatever sorting algorithm is used: with distinct keys there is one sorted order.\<close>

lemma SortFunc_unique:
  fixes key :: "'a \<Rightarrow> 'b :: linorder"
  assumes "\<And>l r. cmp l r \<le> 0 \<longleftrightarrow> key l \<le> key r" "mset ys = mset xs" "sorted_wrt (\<lambda>l r. cmp l r \<le> 0) ys" "inj_on key (set xs)"
  shows "ys = SortFunc cmp xs"
proof -
  have "sorted (map key ys)" using assms(1,3) by (simp add: sorted_map)
  then have "sort_key key ys = ys" by (rule sort_key_id_if_sorted)
  then show ?thesis using sort_key_mset_unique [of ys xs key] assms(2,4) mset_eq_setD [OF assms(2)] by (simp add: SortFunc_key [OF assms(1)])
qed

subsection \<open>What is planned\<close>

definition of_epoch :: "string \<Rightarrow> string \<Rightarrow> input_descriptor list \<Rightarrow> input_descriptor list" where
  "of_epoch s e ds = filter (\<lambda>d. id_source d = s \<and> id_epoch d = e) ds"

text \<open>The maps after some inputs: an entry for each source and epoch seen, with its inputs in order.\<close>

definition grouped :: "(string \<times> epoch_map) list \<Rightarrow> input_descriptor list \<Rightarrow> bool" where
  "grouped bySource done \<longleftrightarrow> wf_map bySource \<and>
     (\<forall>s. case go_get bySource s of
        None \<Rightarrow> s \<notin> id_source ` set done
      | Some m \<Rightarrow> s \<in> id_source ` set done \<and> wf_map m \<and>
          (\<forall>e. go_get m e = (if of_epoch s e done = [] then None else Some (of_epoch s e done))))"

lemma of_epoch_simps [simp]:
  "of_epoch s e (ds @ [d]) = of_epoch s e ds @ (if id_source d = s \<and> id_epoch d = e then [d] else [])" "of_epoch s e [] = []"
  by (simp_all add: of_epoch_def)

lemma of_epoch_Nil: "s \<notin> id_source ` set ds \<Longrightarrow> of_epoch s e ds = []"
  by (auto simp: of_epoch_def filter_empty_conv)

lemma add_input_grouped:
  assumes "grouped bySource done"
  shows "grouped (add_input d bySource) (done @ [d])"
proof -
  let ?m = "case go_get bySource (id_source d) of None \<Rightarrow> [] | Some m \<Rightarrow> m"
  have m: "wf_map ?m" "go_get ?m e = (if of_epoch (id_source d) e done = [] then None else Some (of_epoch (id_source d) e done))" for e
  proof -
    have g: "case go_get bySource (id_source d) of
        None \<Rightarrow> id_source d \<notin> id_source ` set done
      | Some m \<Rightarrow> id_source d \<in> id_source ` set done \<and> wf_map m \<and>
          (\<forall>e. go_get m e = (if of_epoch (id_source d) e done = [] then None else Some (of_epoch (id_source d) e done)))"
      using assms unfolding grouped_def by blast
    show "wf_map ?m" using g by (simp split: option.splits)
    show "go_get ?m e = (if of_epoch (id_source d) e done = [] then None else Some (of_epoch (id_source d) e done))"
      using g by (auto split: option.splits simp: of_epoch_Nil)
  qed
  have ds: "(case go_get ?m e of None \<Rightarrow> [] | Some ds \<Rightarrow> ds) = of_epoch (id_source d) e done" for e
    by (simp add: m(2))
  have add: "add_input d bySource = go_put (id_source d) (go_put (id_epoch d) (of_epoch (id_source d) (id_epoch d) done @ [d]) ?m) bySource"
    unfolding add_input_def Let_def ds ..
  show ?thesis
    unfolding grouped_def add
  proof (intro conjI allI)
    show "wf_map (go_put (id_source d) (go_put (id_epoch d) (of_epoch (id_source d) (id_epoch d) done @ [d]) ?m) bySource)"
      using assms by (simp add: grouped_def)
  next
    fix s
    have other: "of_epoch s e (done @ [d]) = of_epoch s e done" if "s \<noteq> id_source d" for e using that by auto
    show "case go_get (go_put (id_source d) (go_put (id_epoch d) (of_epoch (id_source d) (id_epoch d) done @ [d]) ?m) bySource) s of
        None \<Rightarrow> s \<notin> id_source ` set (done @ [d])
      | Some m \<Rightarrow> s \<in> id_source ` set (done @ [d]) \<and> wf_map m \<and>
          (\<forall>e. go_get m e = (if of_epoch s e (done @ [d]) = [] then None else Some (of_epoch s e (done @ [d]))))"
    proof (cases "s = id_source d")
      case True
      then show ?thesis using m by auto
    next
      case False
      have "case go_get bySource s of None \<Rightarrow> s \<notin> id_source ` set done
        | Some m \<Rightarrow> s \<in> id_source ` set done \<and> wf_map m \<and>
            (\<forall>e. go_get m e = (if of_epoch s e done = [] then None else Some (of_epoch s e done)))"
        using assms unfolding grouped_def by blast
      then show ?thesis unfolding other [OF False] using False by (auto split: option.splits)
    qed
  qed
qed

definition input_ok :: "replay_config \<Rightarrow> input_descriptor \<Rightarrow> bool" where
  "input_ok config d \<longleftrightarrow> id_source d \<noteq> [] \<and> id_epoch d \<noteq> [] \<and> id_segment d \<noteq> [] \<and>
     id_bytes d \<le> rp_bytes config \<and> mf_count (rm_segment (id_manifest d)) \<le> rp_records config \<and>
     int (length (mf_frames (rm_segment (id_manifest d)))) \<le> rp_frames config"

lemma plan_inputs_Inr:
  "plan_inputs config m ids keys ds = Inr m' \<longleftrightarrow>
     list_all (input_ok config) ds \<and> distinct (map id_segment ds) \<and> distinct (map id_object ds) \<and>
     set (map id_segment ds) \<inter> set ids = {} \<and> set (map id_object ds) \<inter> set keys = {} \<and> m' = fold add_input ds m"
  by (induction ds arbitrary: m ids keys) (auto simp: input_ok_def)

lemma fold_grouped: "grouped m done \<Longrightarrow> grouped (fold add_input ds m) (done @ ds)"
proof (induction ds arbitrary: m "done")
  case (Cons d ds)
  from Cons.IH [OF add_input_grouped [OF Cons.prems, of d]] show ?case by simp
qed simp

definition admissible :: "replay_config \<Rightarrow> input_descriptor list \<Rightarrow> bool" where
  "admissible config ds \<longleftrightarrow> int (length ds) \<le> rp_segments config \<and> list_all (input_ok config) ds \<and>
     distinct (map id_segment ds) \<and> distinct (map id_object ds) \<and> int (card (id_source ` set ds)) \<le> rp_sources config"

definition spec_epoch :: "input_descriptor list \<Rightarrow> string \<Rightarrow> string \<Rightarrow> epoch_plan" where
  "spec_epoch ds s e = (let segs = sort_key range_key (of_epoch s e ds) in
     \<lparr>ep_source = s, ep_epoch = e, ep_first_ns = id_start_ns (hd segs), ep_segments = segs\<rparr>)"

definition spec_source :: "input_descriptor list \<Rightarrow> string \<Rightarrow> source_plan" where
  "spec_source ds s = \<lparr>sp_source = s,
     sp_epochs = sort_key epoch_key (map (spec_epoch ds s) (sorted_list_of_set (id_epoch ` {d \<in> set ds. id_source d = s})))\<rparr>"

lemma sorted_keys: "wf_map m \<Longrightarrow> fst ` set m = K \<Longrightarrow> sort (map fst m) = sorted_list_of_set K"
  using sorted_list_of_set_sort_remdups [of "map fst m"] by (simp add: wf_map_def distinct_remdups_id)

lemma go_get_domain: "fst ` set m = {k. go_get m k \<noteq> None}"
  by (auto simp: go_get_None)

lemma plan_source_grouped:
  assumes "grouped m ds" "s \<in> id_source ` set ds"
  shows "plan_source m s = spec_source ds s"
proof -
  obtain em where em: "go_get m s = Some em" "wf_map em"
    "\<And>e. go_get em e = (if of_epoch s e ds = [] then None else Some (of_epoch s e ds))"
    using assms unfolding grouped_def by (auto split: option.splits dest!: spec [of _ s])
  have "fst ` set em = id_epoch ` {d \<in> set ds. id_source d = s}"
    unfolding go_get_domain em(3) by (auto simp: of_epoch_def filter_empty_conv)
  then have keys: "sort (map fst em) = sorted_list_of_set (id_epoch ` {d \<in> set ds. id_source d = s})"
    by (rule sorted_keys [OF em(2)])
  have "plan_epoch s em e = spec_epoch ds s e" for e
    by (simp add: plan_epoch_def spec_epoch_def em(3) SortFunc_key [OF compareDescriptorRange_key] Let_def)
  then have "plan_epoch s em = spec_epoch ds s" by (rule ext)
  then show ?thesis
    by (simp add: plan_source_def spec_source_def em(1) keys SortFunc_key [OF compare_epochs_key])
qed

lemma buildSourcePlans_Inr:
  "buildSourcePlans ds config = Inr plans \<longleftrightarrow>
     admissible config ds \<and> plans = map (spec_source ds) (sorted_list_of_set (id_source ` set ds))"
proof -
  let ?m = "fold add_input ds []"
  have g: "grouped ?m ds" using fold_grouped [of "[]" "[]" ds] by (simp add: grouped_def)
  then have keys: "fst ` set ?m = id_source ` set ds" and wf: "wf_map ?m"
    unfolding go_get_domain grouped_def by (auto split: option.splits)
  have len: "length ?m = card (id_source ` set ds)" using wf keys by (metis distinct_card length_map list.set_map wf_map_def)
  have "map (plan_source ?m) (sort (map fst ?m)) = map (spec_source ds) (sorted_list_of_set (id_source ` set ds))"
    unfolding sorted_keys [OF wf keys] using plan_source_grouped [OF g] by simp
  note plans = this
  have loop: "plan_inputs config [] [] [] ds = Inr m' \<longleftrightarrow>
      list_all (input_ok config) ds \<and> distinct (map id_segment ds) \<and> distinct (map id_object ds) \<and> m' = ?m" for m'
    by (simp add: plan_inputs_Inr)
  show ?thesis
  proof (cases "plan_inputs config [] [] [] ds")
    case (Inl err)
    then have "\<not> (list_all (input_ok config) ds \<and> distinct (map id_segment ds) \<and> distinct (map id_object ds))"
      using loop [of ?m] by auto
    then show ?thesis using Inl by (auto simp: buildSourcePlans_def admissible_def)
  next
    case (Inr m')
    then have m': "list_all (input_ok config) ds \<and> distinct (map id_segment ds) \<and> distinct (map id_object ds)" "m' = ?m"
      using loop [of m'] by simp_all
    have "buildSourcePlans ds config =
        (if int (length ds) > rp_segments config then Inl ErrInputBound
         else if int (card (id_source ` set ds)) > rp_sources config then Inl ErrInputBound
         else Inr (map (spec_source ds) (sorted_list_of_set (id_source ` set ds))))"
      unfolding buildSourcePlans_def Inr m'(2) sum.case plans len ..
    then show ?thesis using m'(1) by (auto simp: admissible_def not_less)
  qed
qed

subsection \<open>The plan is canonical\<close>

lemma mset_groups:
  assumes "finite K" "f ` set xs \<subseteq> K"
  shows "(\<Sum>k\<in>K. mset (filter (\<lambda>x. f x = k) xs)) = mset xs"
  using assms(2)
proof (induction xs)
  case (Cons x xs)
  have "(\<Sum>k\<in>K. mset (filter (\<lambda>x. f x = k) (x # xs))) =
      (\<Sum>k\<in>K. (if k = f x then {#x#} else {#}) + mset (filter (\<lambda>x. f x = k) xs))"
    by (intro sum.cong) auto
  also have "\<dots> = {#x#} + mset xs" using Cons assms(1) by (simp add: sum.distrib)
  finally show ?case by simp
qed simp

lemma mset_concat_sorted: "finite K \<Longrightarrow> mset (concat (map f (sorted_list_of_set K))) = (\<Sum>k\<in>K. mset (f k))"
  by (simp add: mset_concat sum_list_distinct_conv_sum_set comp_def)

definition plan_segments :: "source_plan list \<Rightarrow> input_descriptor list" where
  "plan_segments plans = concat (map (\<lambda>p. concat (map ep_segments (sp_epochs p))) plans)"

lemma spec_source_segments: "mset (concat (map ep_segments (sp_epochs (spec_source ds s)))) = mset (filter (\<lambda>d. id_source d = s) ds)"
proof -
  let ?E = "id_epoch ` {d \<in> set ds. id_source d = s}" and ?f = "filter (\<lambda>d. id_source d = s) ds"
  have e: "mset (ep_segments (spec_epoch ds s e)) = mset (filter (\<lambda>d. id_epoch d = e) ?f)" for e
    by (simp add: spec_epoch_def of_epoch_def Let_def conj_commute)
  have "mset (concat (map ep_segments (sp_epochs (spec_source ds s)))) =
      (\<Sum>p\<in>#mset (map (spec_epoch ds s) (sorted_list_of_set ?E)). mset (ep_segments p))"
    by (simp only: mset_concat spec_source_def source_plan.select_convs map_map comp_def sum_mset_sum_list [symmetric] mset_map mset_sort
        image_mset.compositionality)
  also have "\<dots> = mset (concat (map (\<lambda>e. ep_segments (spec_epoch ds s e)) (sorted_list_of_set ?E)))"
    by (simp add: mset_concat sum_mset_sum_list [symmetric] comp_def image_mset.compositionality)
  also have "\<dots> = (\<Sum>e\<in>?E. mset (ep_segments (spec_epoch ds s e)))" by (rule mset_concat_sorted) simp
  also have "\<dots> = mset ?f" unfolding e by (rule mset_groups) auto
  finally show ?thesis .
qed

lemma spec_segments: "mset (plan_segments (map (spec_source ds) (sorted_list_of_set (id_source ` set ds)))) = mset ds"
  using mset_groups [of "id_source ` set ds" id_source ds]
  unfolding plan_segments_def map_map comp_def by (simp add: mset_concat_sorted spec_source_segments)

lemma range_key_inj: "distinct (map id_segment ds) \<Longrightarrow> inj_on range_key (set ds)"
  by (auto simp: range_key_def inj_on_def distinct_map)

lemma spec_source_cong:
  assumes "mset ys = mset xs" "distinct (map id_segment xs)"
  shows "spec_source ys s = spec_source xs s"
proof -
  have set: "set ys = set xs" using assms(1) by (rule mset_eq_setD)
  have "sort_key range_key (of_epoch s e ys) = sort_key range_key (of_epoch s e xs)" for e
  proof (rule sort_key_mset_unique)
    show "mset (of_epoch s e ys) = mset (of_epoch s e xs)" using assms(1) by (simp add: of_epoch_def)
    show "inj_on range_key (set (of_epoch s e ys))"
      using range_key_inj [OF assms(2)] set by (auto simp: of_epoch_def intro: inj_on_subset)
  qed
  then have "spec_epoch ys s = spec_epoch xs s" by (intro ext) (simp add: spec_epoch_def)
  then show ?thesis by (simp add: spec_source_def set)
qed

lemma admissible_cong: "mset ys = mset xs \<Longrightarrow> admissible config ys = admissible config xs"
  by (simp add: admissible_def list_all_iff mset_eq_setD [of ys xs] mset_eq_length [of ys xs] distinct_map
      mset_eq_imp_distinct_iff [of ys xs] cong: conj_cong)

lemma spec_epoch_ok:
  assumes "distinct (map id_segment ds)" "d \<in> set ds" "id_source d = s"
  shows "ep_segments (spec_epoch ds s (id_epoch d)) \<noteq> []"
    "sorted_wrt (\<lambda>l r. compareDescriptorRange l r < 0) (ep_segments (spec_epoch ds s (id_epoch d)))"
proof -
  let ?segs = "sort_key range_key (of_epoch s (id_epoch d) ds)"
  have segs: "ep_segments (spec_epoch ds s (id_epoch d)) = ?segs" by (simp add: spec_epoch_def Let_def)
  have "d \<in> set ?segs" using assms(2,3) by (simp add: of_epoch_def)
  then show "ep_segments (spec_epoch ds s (id_epoch d)) \<noteq> []" unfolding segs by (metis list.distinct(1) list.set_cases)
  have "distinct (map range_key ?segs)"
    using assms(1) range_key_inj [OF assms(1)] by (auto simp: of_epoch_def distinct_map intro: inj_on_subset)
  then have "sorted_wrt (<) (map range_key ?segs)" by (simp add: strict_sorted_iff)
  then show "sorted_wrt (\<lambda>l r. compareDescriptorRange l r < 0) (ep_segments (spec_epoch ds s (id_epoch d)))"
    unfolding segs by (simp add: sorted_wrt_map compareDescriptorRange_less)
qed

lemma buildSourcePlans_perm:
  assumes "mset ys = mset xs" "buildSourcePlans xs config = Inr plans"
  shows "buildSourcePlans ys config = Inr plans"
proof -
  have a: "admissible config xs" and p: "plans = map (spec_source xs) (sorted_list_of_set (id_source ` set xs))"
    using assms(2) by (simp_all add: buildSourcePlans_Inr)
  have d: "distinct (map id_segment xs)" using a by (simp add: admissible_def)
  show ?thesis
    unfolding buildSourcePlans_Inr p
    using a admissible_cong [OF assms(1)] spec_source_cong [OF assms(1) d] mset_eq_setD [OF assms(1)] by simp
qed

text \<open>
  The plan of a replay depends only on which segments are given.  When planning
  succeeds, every reordering of the inputs gives the very same plan; the plan holds
  each input exactly once, its sources are in strictly increasing order, and within
  an epoch the segments are in strictly increasing order of ordinal range and
  segment identifier, so no sorting algorithm could have produced another plan.
\<close>

theorem replay_plan_canonical:
  assumes "mset ys = mset xs" "buildSourcePlans xs config = Inr plans"
  shows "buildSourcePlans ys config = Inr plans \<and> mset (plan_segments plans) = mset xs \<and>
    sorted_wrt (<) (map sp_source plans) \<and>
    list_all (\<lambda>p. list_all (\<lambda>e. ep_segments e \<noteq> [] \<and> sorted_wrt (\<lambda>l r. compareDescriptorRange l r < 0) (ep_segments e)) (sp_epochs p)) plans"
proof -
  have a: "admissible config xs" and p: "plans = map (spec_source xs) (sorted_list_of_set (id_source ` set xs))"
    using assms(2) by (simp_all add: buildSourcePlans_Inr)
  have d: "distinct (map id_segment xs)" using a by (simp add: admissible_def)
  have "buildSourcePlans ys config = Inr plans" by (rule buildSourcePlans_perm [OF assms])
  moreover have "map sp_source plans = sorted_list_of_set (id_source ` set xs)"
    unfolding p by (simp add: spec_source_def comp_def)
  then have "sorted_wrt (<) (map sp_source plans)" by (simp add: strict_sorted_list_of_set)
  moreover have "ep_segments e \<noteq> [] \<and> sorted_wrt (\<lambda>l r. compareDescriptorRange l r < 0) (ep_segments e)"
    if q: "q \<in> set plans" and e: "e \<in> set (sp_epochs q)" for q e
  proof -
    obtain s where "q = spec_source xs s" using q unfolding p by auto
    then obtain x where "x \<in> set xs" "id_source x = s" "e = spec_epoch xs s (id_epoch x)"
      using e by (auto simp: spec_source_def)
    then show ?thesis using spec_epoch_ok [OF d] by blast
  qed
  ultimately show ?thesis using spec_segments [of xs] unfolding p list_all_iff by blast
qed

definition sample_manifest :: manifest where
  "sample_manifest = \<lparr>mf_version = 1, mf_frame_bytes = 4194304, mf_count = 1, mf_plain = 0, mf_compressed = 0, mf_first = 1, mf_last = 1,
     mf_first_ns = 5, mf_last_ns = 5, mf_compressed_sha = zero32, mf_plain_sha = zero32, mf_frames = []\<rparr>"

definition sample_descriptor :: "string \<Rightarrow> u64 \<Rightarrow> input_descriptor" where
  "sample_descriptor name k = \<lparr>id_segment = name, id_source = ''s'', id_channel = ''c'', id_epoch = ''e'', id_epoch_bytes = replicate 16 1,
     id_object = name, id_sha = zero32, id_bytes = 1, id_start_ns = 5, id_end_ns = 5, id_first = k, id_last = k, id_manifest_sha = zero32,
     id_manifest_bytes = [], id_manifest = \<lparr>rm_version = 1, rm_source = ''s'', rm_channel = ''c'', rm_epoch_kind = ''connection'',
       rm_epoch = ''e'', rm_writer = ''w'', rm_rotation = [], rm_file = ''f'', rm_object = name, rm_fingerprints = [],
       rm_segment = sample_manifest\<rparr>\<rparr>"

theorem replay_plan_canonical_witness:
  "\<exists>plans. buildSourcePlans [sample_descriptor ''b'' 2, sample_descriptor ''a'' 1] DefaultConfig = Inr plans \<and>
     buildSourcePlans [sample_descriptor ''a'' 1, sample_descriptor ''b'' 2] DefaultConfig = Inr plans \<and>
     mset (plan_segments plans) = {#sample_descriptor ''a'' 1, sample_descriptor ''b'' 2#}"
proof -
  let ?a = "sample_descriptor ''a'' 1" and ?b = "sample_descriptor ''b'' 2"
  have "admissible DefaultConfig [?a, ?b]"
    by (simp add: admissible_def input_ok_def DefaultConfig_def sample_descriptor_def sample_manifest_def)
  then obtain plans where p: "buildSourcePlans [?a, ?b] DefaultConfig = Inr plans" by (simp add: buildSourcePlans_Inr)
  from replay_plan_canonical [OF _ p, of "[?b, ?a]"] p show ?thesis by (auto simp: add_mset_commute)
qed

end
