(* ===== verification/Policy.thy ===== *)
theory Policy
  imports Plan
begin

text \<open>
  \<open>src/deployment/policy.go\<close>: the roles of the deployment and what each may do.  Roles,
  operations and resources are strings, as in the code; a permission set is a Go map
  with empty values, here the list of its keys.

  The lemmas show that access is denied unless it is listed, that no role can replace
  an object it created, that the listing of a role shows exactly what it is granted, and
  how the roles are separated.
\<close>

subsection \<open>Roles\<close>

definition RoleCollector :: string where "RoleCollector = ''collector''"
definition RoleCatalogSync :: string where "RoleCatalogSync = ''catalog-sync''"
definition RoleMigrationJob :: string where "RoleMigrationJob = ''migration-job''"
definition RoleDatasetBuilder :: string where "RoleDatasetBuilder = ''dataset-builder''"
definition RoleWarehouseLoader :: string where "RoleWarehouseLoader = ''warehouse-loader''"
definition RoleQueryReplayServer :: string where "RoleQueryReplayServer = ''query-replay-server''"
definition RoleVerifier :: string where "RoleVerifier = ''verifier''"
definition RoleBackupRecovery :: string where "RoleBackupRecovery = ''backup-recovery''"

definition allRoles :: "string list" where
  "allRoles = [RoleCollector, RoleCatalogSync, RoleMigrationJob, RoleDatasetBuilder, RoleWarehouseLoader,
     RoleQueryReplayServer, RoleVerifier, RoleBackupRecovery]"

definition ParseRole :: "string \<Rightarrow> string option" where
  "ParseRole value = (if value \<notin> set allRoles then None else Some value)"

definition RuntimeRole :: "string \<Rightarrow> string option" where
  "RuntimeRole operation =
     (if operation \<in> {''collect'', RoleCollector} then Some RoleCollector
      else if operation \<in> {''catalog sync'', RoleCatalogSync} then Some RoleCatalogSync
      else if operation \<in> {''migration job'', RoleMigrationJob} then Some RoleMigrationJob
      else if operation \<in> {''export parquet'', RoleDatasetBuilder} then Some RoleDatasetBuilder
      else if operation \<in> {''warehouse load'', RoleWarehouseLoader} then Some RoleWarehouseLoader
      else if operation \<in> {''catalog inspect'', ''replay native'', ''replay normalized'', ''serve'', RoleQueryReplayServer}
        then Some RoleQueryReplayServer
      else if operation \<in> {''verify segment'', ''verify replay'', ''verify coverage'', ''verify venue'', RoleVerifier}
        then Some RoleVerifier
      else if operation \<in> {''backup recovery'', RoleBackupRecovery} then Some RoleBackupRecovery
      else None)"

subsection \<open>Permissions\<close>

definition OperationConnect :: string where "OperationConnect = ''connect''"
definition OperationRead :: string where "OperationRead = ''read''"
definition OperationCreate :: string where "OperationCreate = ''create''"
definition OperationAppend :: string where "OperationAppend = ''append''"
definition OperationWrite :: string where "OperationWrite = ''write''"
definition OperationDDL :: string where "OperationDDL = ''ddl''"
definition OperationLock :: string where "OperationLock = ''lock''"
definition OperationCorrect :: string where "OperationCorrect = ''correct''"
definition OperationDelete :: string where "OperationDelete = ''delete''"
definition OperationSnapshot :: string where "OperationSnapshot = ''snapshot''"
definition OperationVersion :: string where "OperationVersion = ''version''"

definition ResourcePublicMarketDataNetwork :: string where "ResourcePublicMarketDataNetwork = ''network/public-market-data''"
definition ResourceOfficialMetadataNetwork :: string where "ResourceOfficialMetadataNetwork = ''network/official-metadata''"
definition ResourceRawObjects :: string where "ResourceRawObjects = ''object/raw''"
definition ResourceRawMetadata :: string where "ResourceRawMetadata = ''object/raw-metadata''"
definition ResourceCommittedObjects :: string where "ResourceCommittedObjects = ''object/committed''"
definition ResourceDerivedObjects :: string where "ResourceDerivedObjects = ''object/derived''"
definition ResourceCommittedParquet :: string where "ResourceCommittedParquet = ''object/parquet-committed''"
definition ResourceOpportunityLedger :: string where "ResourceOpportunityLedger = ''catalog/opportunity-subset''"
definition ResourceSegmentLedger :: string where "ResourceSegmentLedger = ''catalog/segment-subset''"
definition ResourceTemporalCatalog :: string where "ResourceTemporalCatalog = ''catalog/temporal''"
definition ResourcePostgreSQLSchema :: string where "ResourcePostgreSQLSchema = ''postgresql/schema''"
definition ResourcePostgreSQLAdvisoryLock :: string where "ResourcePostgreSQLAdvisoryLock = ''postgresql/advisory-lock''"
definition ResourceDatasetManifest :: string where "ResourceDatasetManifest = ''dataset/manifest''"
definition ResourceClickHouse :: string where "ResourceClickHouse = ''clickhouse/warehouse''"
definition ResourceLoadGeneration :: string where "ResourceLoadGeneration = ''warehouse/load-generation''"
definition ResourceQuarantineReport :: string where "ResourceQuarantineReport = ''quality/quarantine-report''"
definition ResourceCallerSnapshot :: string where "ResourceCallerSnapshot = ''backup/caller-snapshot''"
definition ResourceObjectVersion :: string where "ResourceObjectVersion = ''backup/object-version''"

record access_request =
  ac_operation :: string
  ac_resource :: string
  ac_existing :: bool

definition access :: "string \<Rightarrow> string \<Rightarrow> access_request" where
  "access operation resource = \<lparr>ac_operation = operation, ac_resource = resource, ac_existing = False\<rparr>"

definition permissionSet :: "access_request list \<Rightarrow> access_request list" where
  "permissionSet values = remdups values"

definition rolePermissions :: "(string \<times> access_request list) list" where
  "rolePermissions = [
     (RoleCollector, permissionSet [access OperationConnect ResourcePublicMarketDataNetwork,
        access OperationCreate ResourceRawObjects,
        access OperationAppend ResourceOpportunityLedger,
        access OperationAppend ResourceSegmentLedger,
        access OperationAppend ResourceTemporalCatalog]),
     (RoleCatalogSync, permissionSet [access OperationConnect ResourceOfficialMetadataNetwork,
        access OperationCreate ResourceRawMetadata,
        access OperationAppend ResourceTemporalCatalog]),
     (RoleMigrationJob, permissionSet [access OperationDDL ResourcePostgreSQLSchema,
        access OperationLock ResourcePostgreSQLAdvisoryLock]),
     (RoleDatasetBuilder, permissionSet [access OperationRead ResourceCommittedObjects,
        access OperationCreate ResourceDerivedObjects,
        access OperationAppend ResourceDatasetManifest]),
     (RoleWarehouseLoader, permissionSet [access OperationRead ResourceCommittedParquet,
        access OperationWrite ResourceClickHouse,
        access OperationWrite ResourceLoadGeneration]),
     (RoleQueryReplayServer, permissionSet [access OperationRead ResourceTemporalCatalog,
        access OperationRead ResourceClickHouse,
        access OperationRead ResourceCommittedObjects,
        access OperationRead ResourceDerivedObjects,
        access OperationRead ResourceCommittedParquet]),
     (RoleVerifier, permissionSet [access OperationRead ResourceTemporalCatalog,
        access OperationRead ResourceClickHouse,
        access OperationRead ResourceCommittedObjects,
        access OperationRead ResourceDerivedObjects,
        access OperationRead ResourceCommittedParquet,
        access OperationCreate ResourceQuarantineReport]),
     (RoleBackupRecovery, permissionSet [access OperationSnapshot ResourceCallerSnapshot,
        access OperationVersion ResourceObjectVersion])]"

record authorizer =
  au_permissions :: "(string \<times> access_request list) list"

definition NewAuthorizer :: authorizer where
  "NewAuthorizer = \<lparr>au_permissions = rolePermissions\<rparr>"

datatype permission_error = UnknownRole | CannotOverwrite | NoPermissions | CannotAccess

definition Authorize :: "authorizer \<Rightarrow> string \<Rightarrow> access_request \<Rightarrow> permission_error option" where
  "Authorize a role request =
     (if ParseRole role = None then Some UnknownRole
      else if ac_existing request \<and> ac_operation request = OperationCreate then Some CannotOverwrite
      else case go_get (au_permissions a) role of
        None \<Rightarrow> Some NoPermissions
      | Some allowed \<Rightarrow> if request\<lparr>ac_existing := False\<rparr> \<notin> set allowed then Some CannotAccess else None)"

definition compare_access :: "access_request \<Rightarrow> access_request \<Rightarrow> int" where
  "compare_access l r = compare_then (ac_resource l) (ac_resource r) (compare_then (ac_operation l) (ac_operation r) 0)"

definition Allowed :: "authorizer \<Rightarrow> string \<Rightarrow> access_request list" where
  "Allowed a role = SortFunc compare_access (case go_get (au_permissions a) role of None \<Rightarrow> [] | Some allowed \<Rightarrow> allowed)"

subsection \<open>What is granted\<close>

lemma new_authorizer_permissions [simp]: "au_permissions NewAuthorizer = rolePermissions"
  by (simp add: NewAuthorizer_def)

lemma access_eq: "ac_existing x = False \<Longrightarrow> x = access (ac_operation x) (ac_resource x)"
  by (simp add: access_def)

text \<open>The permissions written out: those of the table, none for an object that is there already.\<close>

lemma authorize_iff:
  "Authorize a role x = None \<longleftrightarrow> role \<in> set allRoles \<and> \<not> (ac_existing x \<and> ac_operation x = OperationCreate) \<and>
     (\<exists>allowed. go_get (au_permissions a) role = Some allowed \<and> access (ac_operation x) (ac_resource x) \<in> set allowed)"
proof -
  have "x\<lparr>ac_existing := False\<rparr> = access (ac_operation x) (ac_resource x)" by (simp add: access_def)
  then show ?thesis by (auto simp: Authorize_def ParseRole_def split: option.splits)
qed

lemma zero_authorizer_denies: "Authorize \<lparr>au_permissions = []\<rparr> role x \<noteq> None"
  by (simp add: authorize_iff)

lemma create_never_overwrites: "ac_existing x \<Longrightarrow> ac_operation x = OperationCreate \<Longrightarrow> Authorize a role x \<noteq> None"
  by (simp add: authorize_iff)

lemma runtime_role_known: "RuntimeRole s = Some r \<Longrightarrow> ParseRole r = Some r"
  by (auto simp: RuntimeRole_def ParseRole_def allRoles_def split: if_splits)

lemma runtime_role_own_name: "r \<in> set allRoles \<Longrightarrow> RuntimeRole r = Some r"
proof -
  have "list_all (\<lambda>r. RuntimeRole r = Some r) allRoles" by code_simp
  then show "r \<in> set allRoles \<Longrightarrow> RuntimeRole r = Some r" by (simp add: list_all_iff)
qed

text \<open>A property of every line of the table is one of everything that is granted.\<close>

lemma permission_lines:
  assumes "list_all (\<lambda>(r, xs). list_all (P r) xs) rolePermissions" "go_get rolePermissions role = Some xs" "x \<in> set xs"
  shows "P role x"
proof -
  have "(role, xs) \<in> set rolePermissions" using assms(2) by (simp add: go_get_def map_of_SomeD)
  then show ?thesis using assms(1,3) by (auto simp: list_all_iff)
qed

lemma granted_lines:
  assumes "list_all (\<lambda>(r, xs). list_all (\<lambda>y. P r (ac_operation y) (ac_resource y)) xs) rolePermissions"
    and "Authorize NewAuthorizer role x = None"
  shows "P role (ac_operation x) (ac_resource x)"
proof -
  obtain xs where "go_get rolePermissions role = Some xs" "access (ac_operation x) (ac_resource x) \<in> set xs"
    using assms(2) by (auto simp: authorize_iff)
  from permission_lines [OF assms(1) this] show ?thesis by (simp add: access_def)
qed

lemma only_migration_ddl: "Authorize NewAuthorizer role x = None \<Longrightarrow> ac_operation x = OperationDDL \<longrightarrow> role = RoleMigrationJob"
  by (rule granted_lines [where P = "\<lambda>r p q. p = OperationDDL \<longrightarrow> r = RoleMigrationJob"]) code_simp

lemma nobody_deletes: "Authorize NewAuthorizer role x = None \<Longrightarrow> ac_operation x \<noteq> OperationDelete \<and> ac_operation x \<noteq> OperationCorrect"
  by (rule granted_lines [where P = "\<lambda>r p q. p \<noteq> OperationDelete \<and> p \<noteq> OperationCorrect"]) code_simp

lemma only_collector_raw:
  "Authorize NewAuthorizer role x = None \<Longrightarrow> ac_resource x = ResourceRawObjects \<longrightarrow> role = RoleCollector \<and> ac_operation x = OperationCreate"
  by (rule granted_lines [where P = "\<lambda>r p q. q = ResourceRawObjects \<longrightarrow> r = RoleCollector \<and> p = OperationCreate"]) code_simp

lemma lines_plain: "list_all (\<lambda>(r, xs). list_all (\<lambda>x. \<not> ac_existing x) xs) rolePermissions"
  by code_simp

lemma compare_access_key: "compare_access l r \<le> 0 \<longleftrightarrow> (ac_resource l, ac_operation l) \<le> (ac_resource r, ac_operation r)"
  by (auto simp: compare_access_def compare_then_le less_eq_prod_def)

lemma allowed_exact:
  "set (Allowed NewAuthorizer role) = {x. \<not> ac_existing x \<and> Authorize NewAuthorizer role x = None}"
  "sorted (map (\<lambda>x. (ac_resource x, ac_operation x)) (Allowed NewAuthorizer role))"
proof -
  let ?key = "\<lambda>x. (ac_resource x, ac_operation x)"
  have sorts: "Allowed NewAuthorizer role = sort_key ?key (case go_get rolePermissions role of None \<Rightarrow> [] | Some xs \<Rightarrow> xs)"
    unfolding Allowed_def by (simp add: SortFunc_key [where key = ?key, OF compare_access_key])
  show "sorted (map ?key (Allowed NewAuthorizer role))" unfolding sorts by simp
  have plain: "\<not> ac_existing x" if "go_get rolePermissions role = Some xs" "x \<in> set xs" for x xs
    using permission_lines [OF lines_plain that] .
  have role: "role \<in> set allRoles" if "go_get rolePermissions role = Some xs" for xs
    using that by (auto simp: go_get_def rolePermissions_def allRoles_def split: if_splits)
  have self: "access (ac_operation x) (ac_resource x) = x" if "\<not> ac_existing x" for x using access_eq [of x] that by simp
  show "set (Allowed NewAuthorizer role) = {x. \<not> ac_existing x \<and> Authorize NewAuthorizer role x = None}"
  proof (cases "go_get rolePermissions role")
    case (Some xs)
    then have "x \<in> set xs \<longleftrightarrow> \<not> ac_existing x \<and> Authorize NewAuthorizer role x = None" for x
      using plain role self by (auto simp: authorize_iff)
    then show ?thesis using Some sorts by auto
  qed (simp add: sorts authorize_iff)
qed

end
