(* ===== verification/Rate.thy ===== *)
theory Rate
  imports Prelude
begin

text \<open>
  \<open>src/capture/rate.go\<close>: the token bucket that admits requests to a venue, with its
  retry-after and circuit state, all in the machine arithmetic of the code
  (\<open>uint32\<close> tokens, \<open>uint64\<close> nanoseconds).  The mutex makes every method one step.

  The lemmas show that the arithmetic is exact: nothing wraps, a refill adds what
  the elapsed intervals are worth and no more than the capacity, the bucket never
  grants more than its rate over any run, and the time it names for a retry is
  the earliest one that succeeds.
\<close>

subsection \<open>Policy and state\<close>

record rate_policy =
  rp_capacity :: u32
  rp_refill :: u32
  rp_interval :: u64
  rp_connection_cost :: u32
  rp_request_cost :: u32
  rp_attempts :: u16
  rp_default_retry :: u64
  rp_max_retry :: u64
  rp_circuit_open :: u64
  rp_retryable :: "int list"
  rp_retryable_5xx :: bool
  rp_terminal :: "int list"
  rp_circuit :: "int list"

definition MaxStatusCodes :: nat where "MaxStatusCodes = 32"

fun statuses_ok :: "int list \<Rightarrow> int list \<Rightarrow> bool" where
  "statuses_ok seen [] = True"
| "statuses_ok seen (x # xs) = (\<not> (x < 100 \<or> x > 599) \<and> x \<notin> set seen \<and> statuses_ok (x # seen) xs)"

fun status_sets_ok :: "int list \<Rightarrow> int list list \<Rightarrow> bool" where
  "status_sets_ok seen [] = True"
| "status_sets_ok seen (vs # vss) =
     (\<not> length vs > MaxStatusCodes \<and> statuses_ok seen vs \<and> sorted vs \<and> status_sets_ok (vs @ seen) vss)"

definition validateRatePolicy :: "rate_policy \<Rightarrow> bool" where
  "validateRatePolicy p \<longleftrightarrow>
     \<not> (rp_capacity p = 0 \<or> rp_refill p = 0 \<or> rp_interval p = 0) \<and>
     \<not> (rp_connection_cost p > rp_capacity p \<or> rp_request_cost p > rp_capacity p) \<and>
     rp_attempts p \<noteq> 0 \<and>
     \<not> (rp_default_retry p = 0 \<or> rp_max_retry p = 0 \<or> rp_default_retry p > rp_max_retry p) \<and>
     rp_circuit_open p \<noteq> 0 \<and>
     status_sets_ok [] [rp_retryable p, rp_terminal p, rp_circuit p]"

record rate_budget =
  rb_policy :: rate_policy
  rb_tokens :: u32
  rb_last :: u64
  rb_retry_until :: u64
  rb_circuit_until :: u64

datatype block_reason = BudgetAllowed | BudgetExhausted | BudgetRetryAfter | BudgetCircuitOpen

record budget_decision =
  bd_allowed :: bool
  bd_reason :: block_reason
  bd_remaining :: u32
  bd_retry_at :: u64

datatype response_disposition = ResponseAccepted | ResponseRetryable | ResponseTerminal | ResponseCircuitOpened

record response_decision =
  rd_disposition :: response_disposition
  rd_retry_at :: u64
  rd_clamped :: bool

datatype rate_error = InvalidRatePolicy | ErrRateClockRegression | CostExceedsCapacity

subsection \<open>Operations\<close>

definition multiplySaturating :: "u64 \<Rightarrow> u64 \<Rightarrow> u64" where
  "multiplySaturating l r = (if l \<noteq> 0 \<and> r > max_u64 div l then max_u64 else l * r)"

definition addSaturating :: "u64 \<Rightarrow> u64 \<Rightarrow> u64" where
  "addSaturating v d = (if d > max_u64 - v then max_u64 else v + d)"

definition NewTokenRateBudget :: "rate_policy \<Rightarrow> u64 \<Rightarrow> rate_error + rate_budget" where
  "NewTokenRateBudget p now =
     (if \<not> validateRatePolicy p then Inl InvalidRatePolicy
      else Inr \<lparr>rb_policy = p, rb_tokens = rp_capacity p, rb_last = now, rb_retry_until = 0, rb_circuit_until = 0\<rparr>)"

definition refill :: "rate_budget \<Rightarrow> u64 \<Rightarrow> rate_budget" where
  "refill b now =
     (let p = rb_policy b; elapsed = now - rb_last b; intervals = elapsed div rp_interval p in
      if intervals = 0 then b
      else let missing = rp_capacity p - rb_tokens b;
               added = (if intervals > max_u64 div ucast (rp_refill p) then max_u64 else intervals * ucast (rp_refill p))
        in b\<lparr>rb_tokens := (if added \<ge> ucast missing then rp_capacity p else rb_tokens b + ucast added),
             rb_last := rb_last b + intervals * rp_interval p\<rparr>)"

definition rate_Acquire :: "rate_budget \<Rightarrow> u64 \<Rightarrow> u32 \<Rightarrow> rate_budget \<times> (rate_error + budget_decision)" where
  "rate_Acquire b0 now cost =
     (if now < rb_last b0 then (b0, Inl ErrRateClockRegression)
      else let b = refill b0 now; p = rb_policy b in
        if now < rb_circuit_until b then (b, Inr \<lparr>bd_allowed = False, bd_reason = BudgetCircuitOpen,
             bd_remaining = rb_tokens b, bd_retry_at = rb_circuit_until b\<rparr>)
        else if now < rb_retry_until b then (b, Inr \<lparr>bd_allowed = False, bd_reason = BudgetRetryAfter,
             bd_remaining = rb_tokens b, bd_retry_at = rb_retry_until b\<rparr>)
        else if cost > rp_capacity p then (b, Inl CostExceedsCapacity)
        else if cost > rb_tokens b then
          let deficit = cost - rb_tokens b;
              intervals = ucast (deficit div rp_refill p) + (if deficit mod rp_refill p \<noteq> 0 then 1 else 0);
              delay = multiplySaturating intervals (rp_interval p)
          in (b, Inr \<lparr>bd_allowed = False, bd_reason = BudgetExhausted, bd_remaining = rb_tokens b,
                bd_retry_at = addSaturating (rb_last b) delay\<rparr>)
        else let b' = b\<lparr>rb_tokens := rb_tokens b - cost\<rparr>
          in (b', Inr \<lparr>bd_allowed = True, bd_reason = BudgetAllowed, bd_remaining = rb_tokens b', bd_retry_at = 0\<rparr>))"

definition ObserveResponse :: "rate_budget \<Rightarrow> u64 \<Rightarrow> int \<Rightarrow> u64 \<Rightarrow> rate_budget \<times> (rate_error + response_decision)" where
  "ObserveResponse b0 now status retryAfter =
     (if now < rb_last b0 then (b0, Inl ErrRateClockRegression)
      else let b = refill b0 now; p = rb_policy b in
        if status \<in> set (rp_circuit p) then
          let b' = b\<lparr>rb_circuit_until := max (rb_circuit_until b) (addSaturating now (rp_circuit_open p))\<rparr>
          in (b', Inr \<lparr>rd_disposition = ResponseCircuitOpened, rd_retry_at = rb_circuit_until b', rd_clamped = False\<rparr>)
        else if status \<in> set (rp_terminal p) then (b, Inr \<lparr>rd_disposition = ResponseTerminal, rd_retry_at = 0, rd_clamped = False\<rparr>)
        else if status \<in> set (rp_retryable p) \<or> (rp_retryable_5xx p \<and> status \<ge> 500 \<and> status \<le> 599) then
          let wanted = (if retryAfter = 0 then rp_default_retry p else retryAfter);
              clamped = (wanted > rp_max_retry p);
              b' = b\<lparr>rb_retry_until := max (rb_retry_until b) (addSaturating now (if clamped then rp_max_retry p else wanted))\<rparr>
          in (b', Inr \<lparr>rd_disposition = ResponseRetryable, rd_retry_at = rb_retry_until b', rd_clamped = clamped\<rparr>)
        else (b, Inr \<lparr>rd_disposition = ResponseAccepted, rd_retry_at = 0, rd_clamped = False\<rparr>))"

definition ReconcileHeaders :: "rate_budget \<Rightarrow> u64 \<Rightarrow> u64 option \<Rightarrow> u64 option \<Rightarrow> u64 \<Rightarrow> rate_budget \<times> rate_error option" where
  "ReconcileHeaders b0 now used remaining resetAfter =
     (if now < rb_last b0 then (b0, Some ErrRateClockRegression)
      else let b = refill b0 now; cap = (ucast (rp_capacity (rb_policy b)) :: u64) in
        if used = None \<and> remaining = None then (b, None)
        else let a1 = (case used of None \<Rightarrow> cap | Some u \<Rightarrow> if u \<ge> cap then 0 else cap - u);
                 a2 = (case remaining of None \<Rightarrow> a1 | Some r \<Rightarrow> if r < a1 then r else a1);
                 a3 = (if a2 > cap then cap else a2);
                 b1 = b\<lparr>rb_tokens := ucast a3, rb_last := now\<rparr>
          in (if rb_tokens b1 = 0 \<and> resetAfter > 0
              then b1\<lparr>rb_retry_until := max (rb_retry_until b1) (addSaturating now resetAfter)\<rparr> else b1, None))"

text \<open>A small policy for the examples: two tokens, one back every ten ticks.\<close>

definition rate_demo :: rate_policy where
  "rate_demo = \<lparr>rp_capacity = 2, rp_refill = 1, rp_interval = 10, rp_connection_cost = 1, rp_request_cost = 1, rp_attempts = 3,
     rp_default_retry = 5, rp_max_retry = 50, rp_circuit_open = 100,
     rp_retryable = [429], rp_retryable_5xx = True, rp_terminal = [401], rp_circuit = [418]\<rparr>"

definition rate_demo_budget :: rate_budget where
  "rate_demo_budget = \<lparr>rb_policy = rate_demo, rb_tokens = 2, rb_last = 100, rb_retry_until = 0, rb_circuit_until = 0\<rparr>"

subsection \<open>Exact arithmetic\<close>

lemma unat_max_u64: "unat max_u64 = 2 ^ 64 - 1"
  by (simp add: unsigned_minus_1_eq_mask mask_eq_exp_minus_1)

lemma unat_up: "unat (ucast (x :: u32) :: u64) = unat x"
proof -
  have "unat x < 2 ^ 64" using unat_bound [of x] by simp
  then show ?thesis by (simp add: unsigned_ucast_eq take_bit_nat_eq_self)
qed

lemma unat_down: "unat (y :: u64) < 2 ^ 32 \<Longrightarrow> unat (ucast y :: u32) = unat y"
  by (simp add: unsigned_ucast_eq take_bit_nat_eq_self)

lemma unat_mult_no_wrap: "unat (a :: u64) * unat b < 2 ^ 64 \<Longrightarrow> unat (a * b) = unat a * unat b"
  by (simp add: unat_word_ariths)

lemma unat_divide: "unat ((a :: 'a::len word) div b) = unat a div unat b"
  by (rule unat_div)

lemma multiplySaturating_exact: "unat (multiplySaturating l r) = min (2 ^ 64 - 1) (unat l * unat r)"
proof (cases "l = 0")
  case False
  then have pos: "0 < unat l" by (simp add: unat_gt_0)
  have "r > max_u64 div l \<longleftrightarrow> (2 ^ 64 - 1) div unat l < unat r"
    by (simp add: word_less_nat_alt unat_divide unat_max_u64)
  also have "\<dots> \<longleftrightarrow> 2 ^ 64 - 1 < unat l * unat r"
    using pos by (metis div_less_iff_less_mult mult.commute)
  finally show ?thesis
    using False unat_mult_no_wrap [of l r] by (auto simp: multiplySaturating_def unat_max_u64)
qed (simp add: multiplySaturating_def)

lemma addSaturating_exact: "unat (addSaturating v d) = min (2 ^ 64 - 1) (unat v + unat d)"
proof -
  have "d > max_u64 - v \<longleftrightarrow> 2 ^ 64 - 1 - unat v < unat d" by (simp add: word_less_nat_alt unat_max_minus)
  then show ?thesis
    using unat_bound [of v] unat_add_no_wrap [of v d] by (auto simp: addSaturating_def unat_max_u64)
qed

subsection \<open>The bucket\<close>

definition rate_ok :: "rate_budget \<Rightarrow> bool" where
  "rate_ok b \<longleftrightarrow> validateRatePolicy (rb_policy b) \<and> rb_tokens b \<le> rp_capacity (rb_policy b)"

abbreviation r_cap :: "rate_budget \<Rightarrow> nat" where "r_cap b \<equiv> unat (rp_capacity (rb_policy b))"
abbreviation r_ref :: "rate_budget \<Rightarrow> nat" where "r_ref b \<equiv> unat (rp_refill (rb_policy b))"
abbreviation r_int :: "rate_budget \<Rightarrow> nat" where "r_int b \<equiv> unat (rp_interval (rb_policy b))"

lemma rate_ok_pos: "rate_ok b \<Longrightarrow> 0 < r_cap b \<and> 0 < r_ref b \<and> 0 < r_int b"
  by (simp add: rate_ok_def validateRatePolicy_def unat_gt_0)

text \<open>A refill adds exactly what the whole elapsed intervals are worth, up to the capacity.\<close>

lemma refill_exact:
  assumes "rate_ok b" "rb_last b \<le> now"
  defines "k \<equiv> (unat now - unat (rb_last b)) div r_int b"
  shows "unat (rb_tokens (refill b now)) = min (r_cap b) (unat (rb_tokens b) + k * r_ref b) \<and>
    unat (rb_last (refill b now)) = unat (rb_last b) + k * r_int b \<and>
    rb_policy (refill b now) = rb_policy b \<and> rb_retry_until (refill b now) = rb_retry_until b \<and>
    rb_circuit_until (refill b now) = rb_circuit_until b"
proof -
  let ?p = "rb_policy b" and ?w = "(now - rb_last b) div rp_interval (rb_policy b)"
  have k: "unat ?w = k" using assms(2) by (simp add: k_def unat_divide unat_sub_no_wrap)
  have tok: "unat (rb_tokens b) \<le> r_cap b" using assms(1) by (simp add: rate_ok_def word_le_nat_alt)
  show ?thesis
  proof (cases "?w = 0")
    case True
    then have "k = 0" using k by simp
    with True tok show ?thesis by (simp add: refill_def Let_def)
  next
    case False
    have le: "k * r_int b \<le> unat now - unat (rb_last b)" unfolding k_def by (rule div_times_less_eq_dividend)
    have last_le: "unat (rb_last b) \<le> unat now" using assms(2) by (simp add: word_le_nat_alt)
    have adv: "unat (?w * rp_interval ?p) = k * r_int b"
      using unat_mult_no_wrap [of ?w "rp_interval ?p"] k le unat_bound [of now] by simp
    have last: "unat (rb_last b + ?w * rp_interval ?p) = unat (rb_last b) + k * r_int b"
      using unat_add_no_wrap [of "rb_last b" "?w * rp_interval ?p"] adv le last_le unat_bound [of now] by simp
    let ?added = "if ?w > max_u64 div ucast (rp_refill ?p) then max_u64 else ?w * ucast (rp_refill ?p)"
    have added: "?added = multiplySaturating (ucast (rp_refill ?p)) ?w"
      using rate_ok_pos [OF assms(1)] unat_up [of "rp_refill ?p"]
      by (auto simp: multiplySaturating_def mult.commute unat_eq_0)
    have un: "unat ?added = min (2 ^ 64 - 1) (k * r_ref b)"
      unfolding added multiplySaturating_exact unat_up k by (simp add: mult.commute)
    let ?missing = "rp_capacity ?p - rb_tokens b"
    have miss: "unat (ucast ?missing :: u64) = r_cap b - unat (rb_tokens b)"
      using assms(1) by (simp add: unat_up unat_sub_no_wrap rate_ok_def)
    have cap: "r_cap b < 2 ^ 32" using unat_bound [of "rp_capacity ?p"] by simp
    have full: "?added \<ge> ucast ?missing \<longleftrightarrow> r_cap b \<le> unat (rb_tokens b) + k * r_ref b"
      unfolding word_le_nat_alt miss un using cap tok by auto
    have part: "unat (rb_tokens b + ucast ?added) = unat (rb_tokens b) + k * r_ref b"
      if "\<not> r_cap b \<le> unat (rb_tokens b) + k * r_ref b"
    proof -
      have "unat ?added = k * r_ref b" "k * r_ref b < 2 ^ 32" using that cap un by auto
      then show ?thesis using unat_down [of ?added] unat_add_no_wrap [of "rb_tokens b" "ucast ?added"] that cap by simp
    qed
    have r: "refill b now = b\<lparr>rb_tokens := (if ?added \<ge> ucast ?missing then rp_capacity ?p else rb_tokens b + ucast ?added),
             rb_last := rb_last b + ?w * rp_interval ?p\<rparr>"
      using False by (simp add: refill_def Let_def)
    show ?thesis unfolding r using full part last by auto
  qed
qed

lemma refill_ok:
  assumes "rate_ok b" "rb_last b \<le> now"
  shows "rate_ok (refill b now)" "rb_last (refill b now) \<le> now"
    "unat now - unat (rb_last (refill b now)) < r_int b"
proof -
  let ?k = "(unat now - unat (rb_last b)) div r_int b"
  note e = refill_exact [OF assms]
  have le: "unat (rb_last b) \<le> unat now" using assms(2) by (simp add: word_le_nat_alt)
  have d: "?k * r_int b \<le> unat now - unat (rb_last b)" by (rule div_times_less_eq_dividend)
  show "rate_ok (refill b now)" using assms(1) e by (simp add: rate_ok_def word_le_nat_alt)
  show "rb_last (refill b now) \<le> now" unfolding word_le_nat_alt using e d le by linarith
  have "(unat now - unat (rb_last b)) mod r_int b < r_int b" using rate_ok_pos [OF assms(1)] by simp
  moreover have "(unat now - unat (rb_last b)) - ?k * r_int b = (unat now - unat (rb_last b)) mod r_int b"
    by (simp add: minus_div_mult_eq_mod)
  ultimately show "unat now - unat (rb_last (refill b now)) < r_int b" using e by simp
qed

text \<open>The admission, by cases.\<close>

lemma rate_Acquire_cases:
  assumes "rb_last b \<le> now"
  defines "f \<equiv> refill b now"
  obtains (blocked) d where "rate_Acquire b now cost = (f, Inr d)" "\<not> bd_allowed d" "bd_reason d \<noteq> BudgetExhausted"
      "now < rb_circuit_until f \<or> now < rb_retry_until f"
  | (dear) "rate_Acquire b now cost = (f, Inl CostExceedsCapacity)" "cost > rp_capacity (rb_policy f)"
  | (exhausted) d where "rate_Acquire b now cost = (f, Inr d)" "\<not> bd_allowed d" "bd_reason d = BudgetExhausted"
      "rb_circuit_until f \<le> now" "rb_retry_until f \<le> now" "cost \<le> rp_capacity (rb_policy f)" "cost > rb_tokens f"
      "bd_retry_at d = addSaturating (rb_last f) (multiplySaturating (ucast ((cost - rb_tokens f) div rp_refill (rb_policy f)) +
         (if (cost - rb_tokens f) mod rp_refill (rb_policy f) \<noteq> 0 then 1 else 0)) (rp_interval (rb_policy f)))"
  | (allowed) d where "rate_Acquire b now cost = (f\<lparr>rb_tokens := rb_tokens f - cost\<rparr>, Inr d)" "bd_allowed d"
      "rb_circuit_until f \<le> now" "rb_retry_until f \<le> now" "cost \<le> rp_capacity (rb_policy f)" "cost \<le> rb_tokens f"
proof -
  have n: "\<not> now < rb_last b" using assms by simp
  consider "now < rb_circuit_until f" | "\<not> now < rb_circuit_until f" "now < rb_retry_until f"
    | "\<not> now < rb_circuit_until f" "\<not> now < rb_retry_until f" "cost > rp_capacity (rb_policy f)"
    | "\<not> now < rb_circuit_until f" "\<not> now < rb_retry_until f" "\<not> cost > rp_capacity (rb_policy f)" "cost > rb_tokens f"
    | "\<not> now < rb_circuit_until f" "\<not> now < rb_retry_until f" "\<not> cost > rp_capacity (rb_policy f)" "\<not> cost > rb_tokens f"
    by blast
  then show thesis
  proof cases
    case 1
    then show thesis using n by (intro blocked [of "\<lparr>bd_allowed = False, bd_reason = BudgetCircuitOpen,
        bd_remaining = rb_tokens f, bd_retry_at = rb_circuit_until f\<rparr>"]) (simp_all add: rate_Acquire_def f_def Let_def)
  next
    case 2
    then show thesis using n by (intro blocked [of "\<lparr>bd_allowed = False, bd_reason = BudgetRetryAfter,
        bd_remaining = rb_tokens f, bd_retry_at = rb_retry_until f\<rparr>"]) (simp_all add: rate_Acquire_def f_def Let_def)
  next
    case 3
    then show thesis using n by (intro dear) (simp_all add: rate_Acquire_def f_def Let_def)
  next
    case 4
    then show thesis using n
      by (intro exhausted [of "\<lparr>bd_allowed = False, bd_reason = BudgetExhausted, bd_remaining = rb_tokens f,
          bd_retry_at = addSaturating (rb_last f) (multiplySaturating (ucast ((cost - rb_tokens f) div rp_refill (rb_policy f)) +
         (if (cost - rb_tokens f) mod rp_refill (rb_policy f) \<noteq> 0 then 1 else 0)) (rp_interval (rb_policy f)))\<rparr>"])
        (simp_all add: rate_Acquire_def f_def Let_def not_less)
  next
    case 5
    then show thesis using n by (intro allowed [of "\<lparr>bd_allowed = True, bd_reason = BudgetAllowed,
        bd_remaining = rb_tokens f - cost, bd_retry_at = 0\<rparr>"]) (simp_all add: rate_Acquire_def f_def Let_def not_less)
  qed
qed

subsection \<open>The rate\<close>

datatype rate_op = AcquireOp u64 u32 | ObserveOp u64 int u64

fun op_time :: "rate_op \<Rightarrow> u64" where
  "op_time (AcquireOp now cost) = now"
| "op_time (ObserveOp now status retry) = now"

text \<open>The budget after a call, and the tokens it granted.\<close>

fun rate_exec :: "rate_budget \<Rightarrow> rate_op \<Rightarrow> rate_budget \<times> nat" where
  "rate_exec b (AcquireOp now cost) =
     (fst (rate_Acquire b now cost),
      case snd (rate_Acquire b now cost) of Inl _ \<Rightarrow> 0 | Inr d \<Rightarrow> if bd_allowed d then unat cost else 0)"
| "rate_exec b (ObserveOp now status retry) = (fst (ObserveResponse b now status retry), 0)"

fun rate_run :: "rate_budget \<Rightarrow> rate_op list \<Rightarrow> rate_budget \<times> nat" where
  "rate_run b [] = (b, 0)"
| "rate_run b (x # xs) = (let (b1, g) = rate_exec b x; (b2, gs) = rate_run b1 xs in (b2, g + gs))"

text \<open>Each step pays for what it grants with whole intervals of its clock.\<close>

definition paid :: "rate_budget \<Rightarrow> rate_budget \<Rightarrow> nat \<Rightarrow> nat \<Rightarrow> bool" where
  "paid b b' g k \<longleftrightarrow> unat (rb_tokens b') + g \<le> unat (rb_tokens b) + k * r_ref b \<and>
     unat (rb_last b') = unat (rb_last b) + k * r_int b \<and> rb_policy b' = rb_policy b"

lemma refill_paid:
  assumes "rate_ok b" "rb_last b \<le> now" "f' = (refill b now)\<lparr>rb_tokens := rb_tokens (refill b now) - cost\<rparr>"
    "cost \<le> rb_tokens (refill b now)"
  shows "\<exists>k. paid b f' (unat cost) k" "rate_ok f'"
  using refill_exact [OF assms(1,2)] refill_ok [OF assms(1,2)] assms(3,4)
  by (auto simp: paid_def unat_sub_no_wrap word_le_nat_alt rate_ok_def)

lemma observe_keeps:
  "rb_last b \<le> now \<Longrightarrow> rb_tokens (fst (ObserveResponse b now status retry)) = rb_tokens (refill b now) \<and>
     rb_last (fst (ObserveResponse b now status retry)) = rb_last (refill b now) \<and>
     rb_policy (fst (ObserveResponse b now status retry)) = rb_policy (refill b now)"
  by (auto simp: ObserveResponse_def Let_def)

lemma rate_exec_paid:
  assumes "rate_ok b" "rate_exec b x = (b', g)"
  shows "(\<exists>k. paid b b' g k) \<and> rate_ok b' \<and> rb_last b' \<le> max (rb_last b) (op_time x)"
proof (cases "op_time x < rb_last b")
  case True
  then have "b' = b" "g = 0" using assms(2) by (cases x; simp add: rate_Acquire_def ObserveResponse_def)+
  then show ?thesis using assms(1) by (auto simp: paid_def intro!: exI [of _ 0])
next
  case False
  then have le: "rb_last b \<le> op_time x" by simp
  note f = refill_paid [OF assms(1) le refl, of 0, simplified] refill_ok [OF assms(1) le]
  show ?thesis
  proof (cases x)
    case (AcquireOp now cost)
    have le': "rb_last b \<le> now" using le AcquireOp by simp
    from le' show ?thesis
    proof (cases rule: rate_Acquire_cases [where cost = cost])
      case (allowed d)
      then show ?thesis using assms(2) AcquireOp le' refill_paid [OF assms(1) le' refl, of cost] f(4)
        by (auto simp: max_def)
    qed (use assms(2) AcquireOp le' f in \<open>auto simp: max_def\<close>)
  next
    case (ObserveOp now status retry)
    then show ?thesis using assms(2) f le observe_keeps [of b now status retry] by (auto simp: paid_def rate_ok_def max_def)
  qed
qed

lemma paid_trans:
  "paid b b1 g k \<Longrightarrow> paid b1 b2 h j \<Longrightarrow> paid b b2 (g + h) (k + j)"
  by (auto simp: paid_def algebra_simps)

lemma rate_run_paid:
  assumes "rate_ok b" "rate_run b xs = (b', g)" "list_all (\<lambda>x. op_time x \<le> t) xs" "rb_last b \<le> t"
  shows "(\<exists>k. paid b b' g k) \<and> rate_ok b' \<and> rb_last b' \<le> t"
  using assms
proof (induction xs arbitrary: b g)
  case Nil
  then show ?case by (auto simp: paid_def intro!: exI [of _ 0])
next
  case (Cons x xs)
  obtain b1 g1 where x: "rate_exec b x = (b1, g1)" by fastforce
  obtain g2 where xs: "rate_run b1 xs = (b', g2)" "g = g1 + g2"
    using Cons.prems(2) x by (auto simp: Let_def split: prod.splits)
  have step: "\<exists>k. paid b b1 g1 k" "rate_ok b1" "rb_last b1 \<le> max (rb_last b) (op_time x)"
    using rate_exec_paid [OF Cons.prems(1) x] by simp_all
  moreover have "op_time x \<le> t" using Cons.prems(3) by simp
  ultimately have "rb_last b1 \<le> t" using Cons.prems(4) by (meson max.boundedI order_trans)
  with Cons.IH [OF step(2) xs(1)] Cons.prems(3) step(1) xs(2) show ?case using paid_trans by (auto; blast)
qed

lemma paid_mono: "paid b b' g k \<Longrightarrow> h \<le> g \<Longrightarrow> paid b b' h k"
  by (simp add: paid_def)

text \<open>What a new budget can pay for by the time \<open>t\<close>.\<close>

lemma paid_bound:
  assumes "NewTokenRateBudget p t0 = Inr b" "paid b b' granted k" "rate_ok b'" "rb_last b' \<le> t"
  shows "granted + unat (rb_tokens b') \<le> unat (rp_capacity p) + (unat t - unat t0) div unat (rp_interval p) * unat (rp_refill p)"
    "rb_tokens b' \<le> rp_capacity p"
proof -
  have b: "rate_ok b" "rb_policy b = p" "rb_tokens b = rp_capacity p" "rb_last b = t0"
    using assms(1) by (auto simp: NewTokenRateBudget_def rate_ok_def split: if_splits)
  have "unat t0 + k * unat (rp_interval p) \<le> unat t" using assms(2,4) b by (simp add: paid_def word_le_nat_alt)
  then have "k * unat (rp_interval p) \<le> unat t - unat t0" by simp
  then have "k \<le> (unat t - unat t0) div unat (rp_interval p)"
    using rate_ok_pos [OF b(1)] b(2) by (simp add: less_eq_div_iff_mult_less_eq)
  then have "k * unat (rp_refill p) \<le> (unat t - unat t0) div unat (rp_interval p) * unat (rp_refill p)"
    by (rule mult_le_mono1)
  moreover have "granted + unat (rb_tokens b') \<le> unat (rp_capacity p) + k * unat (rp_refill p)"
    using assms(2) b by (simp add: paid_def)
  ultimately show "granted + unat (rb_tokens b') \<le>
      unat (rp_capacity p) + (unat t - unat t0) div unat (rp_interval p) * unat (rp_refill p)" by linarith
  show "rb_tokens b' \<le> rp_capacity p" using assms(2,3) b(2) by (simp add: rate_ok_def paid_def)
qed

text \<open>
  The bucket keeps its rate.  From a new budget, over any sequence of
  admissions and responses whose clock readings do not pass \<open>t\<close>, the tokens granted
  and those still in the bucket are at most the capacity plus one refill for each
  whole interval since the budget was made, and the bucket never holds more than
  its capacity: no wrap-around in the arithmetic can grant more.
\<close>

theorem rate_bound:
  assumes "NewTokenRateBudget p t0 = Inr b" "rate_run b xs = (b', granted)" "list_all (\<lambda>x. op_time x \<le> t) xs" "t0 \<le> t"
  shows "granted + unat (rb_tokens b') \<le> unat (rp_capacity p) + (unat t - unat t0) div unat (rp_interval p) * unat (rp_refill p) \<and>
    rb_tokens b' \<le> rp_capacity p"
proof -
  have "rate_ok b" "rb_last b \<le> t"
    using assms(1,4) by (auto simp: NewTokenRateBudget_def rate_ok_def split: if_splits)
  from rate_run_paid [OF this(1) assms(2,3) this(2)] show ?thesis using paid_bound [OF assms(1)] by blast
qed

theorem rate_bound_witness:
  "snd (rate_run rate_demo_budget [AcquireOp 101 2, ObserveOp 102 429 0, AcquireOp 125 1]) +
     unat (rb_tokens (fst (rate_run rate_demo_budget [AcquireOp 101 2, ObserveOp 102 429 0, AcquireOp 125 1]))) \<le>
     unat (rp_capacity rate_demo) + (unat (125 :: u64) - unat (100 :: u64)) div unat (rp_interval rate_demo) * unat (rp_refill rate_demo)"
proof -
  let ?ops = "[AcquireOp 101 2, ObserveOp 102 429 0, AcquireOp 125 1]"
  have "NewTokenRateBudget rate_demo 100 = Inr rate_demo_budget" by code_simp
  moreover have "rate_run rate_demo_budget ?ops = (fst (rate_run rate_demo_budget ?ops), snd (rate_run rate_demo_budget ?ops))"
    by simp
  moreover have "list_all (\<lambda>x. op_time x \<le> 125) ?ops" by simp
  moreover have "(100 :: u64) \<le> 125" by simp
  ultimately show ?thesis by (rule rate_bound [THEN conjunct1])
qed

subsection \<open>The retry time\<close>

definition ceil_div :: "nat \<Rightarrow> nat \<Rightarrow> nat" where
  "ceil_div a b = a div b + (if a mod b \<noteq> 0 then 1 else 0)"

lemma ceil_div_le_iff: "0 < b \<Longrightarrow> ceil_div a b \<le> k \<longleftrightarrow> a \<le> k * b"
proof -
  assume b: "0 < b"
  have a: "a = a div b * b + a mod b" by (rule div_mult_mod_eq [symmetric])
  show ?thesis
  proof (cases "a mod b = 0")
    case True
    then have "a = a div b * b" using a by simp
    then show ?thesis using True b by (metis ceil_div_def add.right_neutral mult_le_cancel2)
  next
    case False
    have "ceil_div a b \<le> k \<longleftrightarrow> a div b < k" using False by (auto simp: ceil_div_def)
    also have "\<dots> \<longleftrightarrow> a < k * b" using b by (simp add: div_less_iff_less_mult)
    also have "\<dots> \<longleftrightarrow> a \<le> k * b" using False by (metis mod_mult_self2_is_0 order_le_less)
    finally show ?thesis .
  qed
qed

lemma intervals_exact:
  fixes d r :: u32
  assumes "r \<noteq> 0"
  shows "unat ((ucast (d div r) :: u64) + (if d mod r \<noteq> 0 then 1 else 0)) = ceil_div (unat d) (unat r)"
proof -
  have m: "d mod r \<noteq> 0 \<longleftrightarrow> unat d mod unat r \<noteq> 0" by (metis unat_mod unat_eq_0)
  have "unat (d div r) < 2 ^ 32" using unat_bound [of "d div r"] by simp
  then have "unat ((ucast (d div r) :: u64) + (if d mod r \<noteq> 0 then 1 else 0)) = unat (d div r) + (if d mod r \<noteq> 0 then 1 else 0)"
    using unat_add_no_wrap [of "ucast (d div r) :: u64" 1] by (simp add: unat_up)
  with m show ?thesis by (simp add: ceil_div_def unat_divide)
qed

lemma rate_exhausted:
  assumes n: "rb_last b \<le> now" and eq: "rate_Acquire b now cost = (b1, Inr d)" "bd_reason d = BudgetExhausted"
  shows "b1 = refill b now" "rb_circuit_until b1 \<le> now" "rb_retry_until b1 \<le> now" "cost \<le> rp_capacity (rb_policy b1)"
    "cost > rb_tokens b1" "bd_retry_at d = addSaturating (rb_last b1)
       (multiplySaturating (ucast ((cost - rb_tokens b1) div rp_refill (rb_policy b1)) +
         (if (cost - rb_tokens b1) mod rp_refill (rb_policy b1) \<noteq> 0 then 1 else 0)) (rp_interval (rb_policy b1)))"
proof -
  define f where "f = refill b now"
  have n': "\<not> now < rb_last b" using n by simp
  have g: "\<not> now < rb_circuit_until f" "\<not> now < rb_retry_until f" "\<not> cost > rp_capacity (rb_policy f)" "cost > rb_tokens f"
    using n' eq by (auto simp: rate_Acquire_def Let_def f_def split: if_splits)
  define e where "e = \<lparr>bd_allowed = False, bd_reason = BudgetExhausted, bd_remaining = rb_tokens f,
          bd_retry_at = addSaturating (rb_last f) (multiplySaturating (ucast ((cost - rb_tokens f) div rp_refill (rb_policy f)) +
            (if (cost - rb_tokens f) mod rp_refill (rb_policy f) \<noteq> 0 then 1 else 0)) (rp_interval (rb_policy f)))\<rparr>"
  have "rate_Acquire b now cost = (f, Inr e)"
    using n' g by (simp add: rate_Acquire_def f_def e_def Let_def)
  with eq(1) have d: "b1 = f" "d = e" by simp_all
  show "b1 = refill b now" using d(1) by (simp add: f_def)
  show "rb_circuit_until b1 \<le> now" "rb_retry_until b1 \<le> now" "cost \<le> rp_capacity (rb_policy b1)" "cost > rb_tokens b1"
    using g d(1) by simp_all
  show "bd_retry_at d = addSaturating (rb_last b1)
       (multiplySaturating (ucast ((cost - rb_tokens b1) div rp_refill (rb_policy b1)) +
         (if (cost - rb_tokens b1) mod rp_refill (rb_policy b1) \<noteq> 0 then 1 else 0)) (rp_interval (rb_policy b1)))"
    unfolding d e_def by simp
qed

text \<open>
  C31. The retry time of an exhausted bucket is exact.  When an admission is
  refused for lack of tokens and the time it returns is below the largest clock
  value, the same request made at any later reading, with nothing in between, is
  allowed exactly from that time on.
\<close>

theorem rate_retry_exact:
  assumes "rate_ok b" "rate_Acquire b now cost = (b1, Inr d)" "bd_reason d = BudgetExhausted" "bd_retry_at d \<noteq> max_u64"
    and "now \<le> later" "rate_Acquire b1 later cost = (b2, Inr d2)"
  shows "bd_allowed d2 \<longleftrightarrow> bd_retry_at d \<le> later"
proof -
  have n: "rb_last b \<le> now" using assms(2) by (auto simp: rate_Acquire_def split: if_splits)
  note f = rate_exhausted [OF n assms(2,3)]
  have ok: "rate_ok b1" "rb_last b1 \<le> now" using refill_ok [OF assms(1) n] f(1) by simp_all
  have l: "rb_last b1 \<le> later" using ok(2) assms(5) by simp
  note pos = rate_ok_pos [OF ok(1)]
  have r0: "rp_refill (rb_policy b1) \<noteq> 0" using pos by (metis unat_eq_0 less_numeral_extra(3))
  define deficit where "deficit = unat cost - unat (rb_tokens b1)"
  have def: "unat (cost - rb_tokens b1) = deficit" using f(5) by (simp add: deficit_def unat_sub_no_wrap)
  have ret: "unat (bd_retry_at d) = unat (rb_last b1) + ceil_div deficit (r_ref b1) * r_int b1"
  proof -
    have "unat (bd_retry_at d) \<noteq> 2 ^ 64 - 1" using assms(4) by (metis unat_max_u64 word_unat_eq_iff)
    then show ?thesis unfolding f(6) addSaturating_exact multiplySaturating_exact intervals_exact [OF r0] def by auto
  qed
  let ?k = "(unat later - unat (rb_last b1)) div r_int b1"
  have ll: "unat (rb_last b1) \<le> unat later" using l by (simp add: word_le_nat_alt)
  have "bd_retry_at d \<le> later \<longleftrightarrow> ceil_div deficit (r_ref b1) \<le> ?k"
    unfolding word_le_nat_alt ret using ll pos by (auto simp: less_eq_div_iff_mult_less_eq)
  also have "\<dots> \<longleftrightarrow> deficit \<le> ?k * r_ref b1" using pos by (simp add: ceil_div_le_iff)
  also have "\<dots> \<longleftrightarrow> cost \<le> rb_tokens (refill b1 later)"
    unfolding word_le_nat_alt using refill_exact [OF ok(1) l] f(4) by (auto simp: deficit_def word_le_nat_alt)
  finally have eq: "bd_retry_at d \<le> later \<longleftrightarrow> cost \<le> rb_tokens (refill b1 later)" .
  have keep: "rb_circuit_until (refill b1 later) = rb_circuit_until b1" "rb_retry_until (refill b1 later) = rb_retry_until b1"
    "rb_policy (refill b1 later) = rb_policy b1" using refill_exact [OF ok(1) l] by simp_all
  show ?thesis
    using assms(6) eq keep f(2,3,4) assms(5)
    by (cases rule: rate_Acquire_cases [OF l, of cost]) auto
qed

theorem rate_retry_exact_witness:
  "rate_ok (fst (rate_Acquire rate_demo_budget 100 2)) \<and>
   bd_reason \<lparr>bd_allowed = False, bd_reason = BudgetExhausted, bd_remaining = 0, bd_retry_at = 120\<rparr> = BudgetExhausted \<and>
   bd_allowed \<lparr>bd_allowed = True, bd_reason = BudgetAllowed, bd_remaining = 0, bd_retry_at = 0\<rparr> = ((120 :: u64) \<le> 121)"
proof -
  let ?b = "fst (rate_Acquire rate_demo_budget 100 2)"
  let ?d = "\<lparr>bd_allowed = False, bd_reason = BudgetExhausted, bd_remaining = 0, bd_retry_at = 120\<rparr>"
  let ?d2 = "\<lparr>bd_allowed = True, bd_reason = BudgetAllowed, bd_remaining = 0, bd_retry_at = 0\<rparr>"
  have ok: "rate_ok ?b" by code_simp
  have run1: "rate_Acquire ?b 101 2 = (fst (rate_Acquire ?b 101 2), Inr ?d)" by code_simp
  have run2: "rate_Acquire (fst (rate_Acquire ?b 101 2)) 121 2 =
      (fst (rate_Acquire (fst (rate_Acquire ?b 101 2)) 121 2), Inr ?d2)" by code_simp
  have "bd_allowed ?d2 = (bd_retry_at ?d \<le> 121)"
    by (rule rate_retry_exact [OF ok run1 _ _ _ run2]) (simp_all, code_simp?)
  then show ?thesis using ok by simp
qed

end
