(* ===== verification/RateOwner.thy ===== *)
theory RateOwner
  imports Rate
begin

text \<open>
  \<open>src/capture/pressure_rate_owner.go\<close>: the owner of one venue budget.  It keeps a
  table of the operations it has been asked to send, admits each attempt through
  the token bucket of \<open>Rate\<close>, and tracks whether an attempt is in flight, has an
  unknown outcome or is over.  The mutex makes every method one step; the reading of
  the owner's clock is an argument of the step.  A nil owner, which every method
  refuses, and a nil clock are not modelled.

  The lemmas show that the flags of an operation exclude each other, that an operation
  is sent at most as often as its policy allows, that one whose outcome is
  unknown is not sent again before it is reconciled, and that all the operations of an
  owner together keep the rate of its bucket.
\<close>

subsection \<open>Types\<close>

datatype owner_error = ErrRateOwnerFull | ErrRateOperationUnknown | ErrRateOperationTerminal | ErrRateReconcileRequired
  | InvalidOwnerConfig | InvalidRateOperation | OperationReused | OperationInFlight | InvalidCompletion
  | OperationNotInFlight | InvalidReconciliation | ReconcileNotRequired | LiveOperation | OwnerSetBounds
  | DuplicateOwner | OwnerBudget rate_error

type_synonym rate_scope_kind = string

definition rate_scope_kinds :: "rate_scope_kind list" where
  "rate_scope_kinds = [''ip'', ''account'', ''endpoint'', ''shared_pool'']"

type_synonym rate_operation_kind = string

definition rate_operation_kinds :: "rate_operation_kind list" where
  "rate_operation_kinds = [''connection'', ''request'', ''handshake'', ''subscribe'', ''session'']"

record rate_owner_identity =
  oi_venue :: string
  oi_api :: string
  oi_scope_kind :: rate_scope_kind
  oi_scope_id :: string

record rate_owner_config =
  oc_identity :: rate_owner_identity
  oc_policy :: rate_policy
  oc_max_operations :: int

record rate_operation =
  ro_id :: string
  ro_kind :: rate_operation_kind
  ro_cost :: u32
  ro_max_attempts :: u32
  ro_deadline :: u64

record rate_attempt =
  ra_allowed :: bool
  ra_attempt :: u32
  ra_retry_at :: u64
  ra_reason :: block_reason

text \<open>\<open>RateOutcomeCertainty\<close> and \<open>ReconcileResult\<close> are bytes with named values.\<close>

definition RateOutcomeKnown :: u8 where "RateOutcomeKnown = 1"
definition RateOutcomeUnknown :: u8 where "RateOutcomeUnknown = 2"

record rate_response =
  rr_status :: int
  rr_retry_after :: u64
  rr_used :: u64
  rr_used_present :: bool
  rr_remaining :: u64
  rr_remaining_present :: bool
  rr_reset_after :: u64
  rr_certainty :: u8

definition no_response :: rate_response where
  "no_response = \<lparr>rr_status = 0, rr_retry_after = 0, rr_used = 0, rr_used_present = False, rr_remaining = 0,
     rr_remaining_present = False, rr_reset_after = 0, rr_certainty = 0\<rparr>"

text \<open>A completion without a disposition has the zero value of the type, here \<open>None\<close>.\<close>

record rate_completion =
  rc_disposition :: "response_disposition option"
  rc_retry_at :: u64
  rc_reconcile :: bool

definition ReconcileApplied :: u8 where "ReconcileApplied = 1"
definition ReconcileNotApplied :: u8 where "ReconcileNotApplied = 2"
definition ReconcileTerminal :: u8 where "ReconcileTerminal = 3"

record rate_operation_state =
  os_operation :: rate_operation
  os_last_response :: rate_response
  os_attempts :: u32
  os_retry_at :: u64
  os_in_flight :: bool
  os_unknown :: bool
  os_terminal :: bool

record rate_owner =
  ow_identity :: rate_owner_identity
  ow_budget :: rate_budget
  ow_maximum :: int
  ow_max_attempts :: u32
  ow_operations :: "(string \<times> rate_operation_state) list"

subsection \<open>Validation\<close>

definition owner_text_char :: "char \<Rightarrow> bool" where
  "owner_text_char c \<longleftrightarrow>
     (of_char c \<ge> (97 :: nat) \<and> of_char c \<le> (122 :: nat)) \<or> (of_char c \<ge> (65 :: nat) \<and> of_char c \<le> (90 :: nat)) \<or>
     (of_char c \<ge> (48 :: nat) \<and> of_char c \<le> (57 :: nat)) \<or>
     c = CHR ''-'' \<or> c = CHR ''_'' \<or> c = CHR ''.'' \<or> c = CHR '':'' \<or> c = CHR ''/''"

definition validRateOwnerText :: "string \<Rightarrow> bool" where
  "validRateOwnerText v \<longleftrightarrow> \<not> (v = [] \<or> length v > 256) \<and> list_all owner_text_char v"

definition validRateOwnerIdentity :: "rate_owner_identity \<Rightarrow> bool" where
  "validRateOwnerIdentity i \<longleftrightarrow> validRateOwnerText (oi_venue i) \<and> validRateOwnerText (oi_api i) \<and>
     validRateOwnerText (oi_scope_id i) \<and> oi_scope_kind i \<in> set rate_scope_kinds"

definition validRateOperation :: "rate_operation \<Rightarrow> bool" where
  "validRateOperation x \<longleftrightarrow> validRateOwnerText (ro_id x) \<and> ro_cost x > 0 \<and> ro_max_attempts x > 0 \<and> ro_deadline x > 0 \<and>
     ro_kind x \<in> set rate_operation_kinds"

subsection \<open>Operations\<close>

definition NewRateOwner :: "rate_owner_config \<Rightarrow> u64 \<Rightarrow> owner_error + rate_owner" where
  "NewRateOwner c now =
     (if \<not> validRateOwnerIdentity (oc_identity c) \<or> oc_max_operations c < 1 \<or> oc_max_operations c > 1000000
      then Inl InvalidOwnerConfig
      else case NewTokenRateBudget (oc_policy c) now of
        Inl e \<Rightarrow> Inl (OwnerBudget e)
      | Inr b \<Rightarrow> Inr \<lparr>ow_identity = oc_identity c, ow_budget = b, ow_maximum = oc_max_operations c,
          ow_max_attempts = ucast (rp_attempts (oc_policy c)), ow_operations = []\<rparr>)"

definition set_state :: "rate_owner \<Rightarrow> string \<Rightarrow> rate_operation_state \<Rightarrow> rate_owner" where
  "set_state w k s = w\<lparr>ow_operations := go_put k s (ow_operations w)\<rparr>"

definition new_operation_state :: "rate_operation \<Rightarrow> rate_operation_state" where
  "new_operation_state x = \<lparr>os_operation = x, os_last_response = no_response, os_attempts = 0, os_retry_at = 0,
     os_in_flight = False, os_unknown = False, os_terminal = False\<rparr>"

text \<open>The part of \<open>Attempt\<close> after the lookup, on the state of the operation.\<close>

definition attempt_state :: "rate_owner \<Rightarrow> u64 \<Rightarrow> rate_operation \<Rightarrow> rate_operation_state \<Rightarrow>
    rate_owner \<times> (owner_error + rate_attempt)" where
  "attempt_state w now x s =
     (if os_terminal s then (w, Inl ErrRateOperationTerminal)
      else if os_unknown s then (w, Inl ErrRateReconcileRequired)
      else if os_in_flight s then (w, Inl OperationInFlight)
      else if now \<ge> ro_deadline x then (set_state w (ro_id x) (s\<lparr>os_terminal := True\<rparr>), Inl ErrRateOperationTerminal)
      else if os_attempts s \<ge> ro_max_attempts x
        then (set_state w (ro_id x) (s\<lparr>os_terminal := True\<rparr>), Inl ErrRateOperationTerminal)
      else if now < os_retry_at s then (w, Inr \<lparr>ra_allowed = False, ra_attempt = os_attempts s + 1,
             ra_retry_at = os_retry_at s, ra_reason = BudgetRetryAfter\<rparr>)
      else let (b, r) = rate_Acquire (ow_budget w) now (ro_cost x); w' = w\<lparr>ow_budget := b\<rparr> in
        case r of
          Inl e \<Rightarrow> (w', Inl (OwnerBudget e))
        | Inr d \<Rightarrow>
            if \<not> bd_allowed d then (w', Inr \<lparr>ra_allowed = False, ra_attempt = os_attempts s + 1,
                 ra_retry_at = bd_retry_at d, ra_reason = bd_reason d\<rparr>)
            else let s' = s\<lparr>os_attempts := os_attempts s + 1, os_in_flight := True\<rparr> in
              (set_state w' (ro_id x) s', Inr \<lparr>ra_allowed = True, ra_attempt = os_attempts s',
                 ra_retry_at = 0, ra_reason = BudgetAllowed\<rparr>))"

definition owner_Attempt :: "rate_owner \<Rightarrow> u64 \<Rightarrow> rate_operation \<Rightarrow> rate_owner \<times> (owner_error + rate_attempt)" where
  "owner_Attempt w now x =
     (if \<not> validRateOperation x \<or> ro_max_attempts x > ow_max_attempts w then (w, Inl InvalidRateOperation)
      else case go_get (ow_operations w) (ro_id x) of
        None \<Rightarrow>
          if int (length (ow_operations w)) \<ge> ow_maximum w then (w, Inl ErrRateOwnerFull)
          else let s = new_operation_state x in attempt_state (set_state w (ro_id x) s) now x s
      | Some s \<Rightarrow> if os_operation s \<noteq> x then (w, Inl OperationReused) else attempt_state w now x s)"

text \<open>What a decision of the bucket makes of the operation.\<close>

definition settle_state :: "response_decision \<Rightarrow> rate_operation_state \<Rightarrow> rate_operation_state" where
  "settle_state d s =
     (case rd_disposition d of
        ResponseRetryable \<Rightarrow>
          let s' = s\<lparr>os_retry_at := rd_retry_at d\<rparr> in
          if os_attempts s' \<ge> ro_max_attempts (os_operation s') \<or> os_retry_at s' \<ge> ro_deadline (os_operation s')
          then s'\<lparr>os_terminal := True\<rparr> else s'
      | _ \<Rightarrow> s\<lparr>os_terminal := True\<rparr>)"

definition owner_Complete :: "rate_owner \<Rightarrow> u64 \<Rightarrow> string \<Rightarrow> rate_response \<Rightarrow> rate_owner \<times> (owner_error + rate_completion)" where
  "owner_Complete w now k r =
     (if \<not> validRateOwnerText k \<or> rr_status r < 0 \<or> rr_certainty r < RateOutcomeKnown \<or> rr_certainty r > RateOutcomeUnknown
      then (w, Inl InvalidCompletion)
      else case go_get (ow_operations w) k of
        None \<Rightarrow> (w, Inl ErrRateOperationUnknown)
      | Some s0 \<Rightarrow>
          if os_terminal s0 then (w, Inl ErrRateOperationTerminal)
          else if \<not> os_in_flight s0 then (w, Inl OperationNotInFlight)
          else let s = s0\<lparr>os_last_response := r, os_in_flight := False\<rparr> in
            if rr_certainty r = RateOutcomeUnknown
            then (set_state w k (s\<lparr>os_unknown := True\<rparr>), Inr \<lparr>rc_disposition = None, rc_retry_at = 0, rc_reconcile = True\<rparr>)
            else case ReconcileHeaders (ow_budget w) now (if rr_used_present r then Some (rr_used r) else None)
                   (if rr_remaining_present r then Some (rr_remaining r) else None) (rr_reset_after r) of
              (b1, Some e) \<Rightarrow> ((set_state w k s)\<lparr>ow_budget := b1\<rparr>, Inl (OwnerBudget e))
            | (b1, None) \<Rightarrow>
                case ObserveResponse b1 now (rr_status r) (max (rr_retry_after r) (rr_reset_after r)) of
                  (b2, Inl e) \<Rightarrow> ((set_state w k s)\<lparr>ow_budget := b2\<rparr>, Inl (OwnerBudget e))
                | (b2, Inr d) \<Rightarrow> ((set_state w k (settle_state d s))\<lparr>ow_budget := b2\<rparr>,
                     Inr \<lparr>rc_disposition = Some (rd_disposition d), rc_retry_at = rd_retry_at d, rc_reconcile = False\<rparr>))"

definition owner_Snapshot :: "rate_owner \<Rightarrow> string \<Rightarrow> owner_error + rate_operation_state" where
  "owner_Snapshot w k = (case go_get (ow_operations w) k of None \<Rightarrow> Inl ErrRateOperationUnknown | Some s \<Rightarrow> Inr s)"

definition owner_Reconcile :: "rate_owner \<Rightarrow> u64 \<Rightarrow> string \<Rightarrow> u8 \<Rightarrow> rate_owner \<times> owner_error option" where
  "owner_Reconcile w now k result =
     (if \<not> validRateOwnerText k \<or> result < ReconcileApplied \<or> result > ReconcileTerminal then (w, Some InvalidReconciliation)
      else case go_get (ow_operations w) k of
        None \<Rightarrow> (w, Some ErrRateOperationUnknown)
      | Some s0 \<Rightarrow>
          if \<not> os_unknown s0 then (w, Some ReconcileNotRequired)
          else let s = s0\<lparr>os_unknown := False\<rparr> in
            if result = ReconcileApplied \<or> result = ReconcileTerminal then (set_state w k (s\<lparr>os_terminal := True\<rparr>), None)
            else if os_attempts s \<ge> ro_max_attempts (os_operation s) \<or> now \<ge> ro_deadline (os_operation s)
            then (set_state w k (s\<lparr>os_terminal := True\<rparr>), Some ErrRateOperationTerminal)
            else (set_state w k s, None))"

definition owner_Forget :: "rate_owner \<Rightarrow> string \<Rightarrow> rate_owner \<times> owner_error option" where
  "owner_Forget w k =
     (case go_get (ow_operations w) k of
        None \<Rightarrow> (w, Some ErrRateOperationUnknown)
      | Some s \<Rightarrow> if \<not> os_terminal s then (w, Some LiveOperation)
                  else (w\<lparr>ow_operations := go_delete k (ow_operations w)\<rparr>, None))"

text \<open>The set of owners; each new owner reads the clock once.\<close>

fun add_owners :: "(rate_owner_identity \<times> rate_owner) list \<Rightarrow> (rate_owner_config \<times> u64) list \<Rightarrow>
    owner_error + (rate_owner_identity \<times> rate_owner) list" where
  "add_owners m [] = Inr m"
| "add_owners m ((c, now) # cs) =
     (if go_get m (oc_identity c) \<noteq> None then Inl DuplicateOwner
      else case NewRateOwner c now of
        Inl e \<Rightarrow> Inl e
      | Inr w \<Rightarrow> add_owners (go_put (oc_identity c) w m) cs)"

definition NewRateOwners :: "(rate_owner_config \<times> u64) list \<Rightarrow> owner_error + (rate_owner_identity \<times> rate_owner) list" where
  "NewRateOwners cs = (if cs = [] \<or> length cs > 1024 then Inl OwnerSetBounds else add_owners [] cs)"

definition owners_Owner :: "(rate_owner_identity \<times> rate_owner) list \<Rightarrow> rate_owner_identity \<Rightarrow> rate_owner option" where
  "owners_Owner m i = go_get m i"

subsection \<open>The calls of an owner\<close>

datatype owner_call =
    AttemptCall u64 rate_operation
  | CompleteCall u64 string rate_response
  | ReconcileCall u64 string u8
  | ForgetCall string

fun sends :: "owner_error + rate_attempt \<Rightarrow> rate_operation \<Rightarrow> rate_operation list" where
  "sends (Inl e) x = []"
| "sends (Inr a) x = (if ra_allowed a then [x] else [])"

text \<open>The owner after a call, and the operation the caller may now send.\<close>

fun owner_exec :: "rate_owner \<Rightarrow> owner_call \<Rightarrow> rate_owner \<times> rate_operation list" where
  "owner_exec w (AttemptCall now x) = (let (w', r) = owner_Attempt w now x in (w', sends r x))"
| "owner_exec w (CompleteCall now k r) = (fst (owner_Complete w now k r), [])"
| "owner_exec w (ReconcileCall now k r) = (fst (owner_Reconcile w now k r), [])"
| "owner_exec w (ForgetCall k) = (fst (owner_Forget w k), [])"

fun owner_run :: "rate_owner \<Rightarrow> owner_call list \<Rightarrow> rate_owner \<times> rate_operation list" where
  "owner_run w [] = (w, [])"
| "owner_run w (c # cs) = (let (w1, s1) = owner_exec w c; (w2, s2) = owner_run w1 cs in (w2, s1 @ s2))"

text \<open>An owner with the small policy of \<open>Rate\<close>, an operation of two attempts and its responses, for the examples.\<close>

definition owner_demo_config :: rate_owner_config where
  "owner_demo_config = \<lparr>oc_identity = \<lparr>oi_venue = ''okx'', oi_api = ''rest'', oi_scope_kind = ''ip'', oi_scope_id = ''egress-1''\<rparr>,
     oc_policy = rate_demo, oc_max_operations = 2\<rparr>"

definition owner_demo :: rate_owner where
  "owner_demo = \<lparr>ow_identity = oc_identity owner_demo_config, ow_budget = rate_demo_budget, ow_maximum = 2, ow_max_attempts = 3,
     ow_operations = []\<rparr>"

definition demo_operation :: rate_operation where
  "demo_operation = \<lparr>ro_id = ''snapshot/1'', ro_kind = ''request'', ro_cost = 1, ro_max_attempts = 2, ro_deadline = 1000\<rparr>"

definition demo_response :: "int \<Rightarrow> u8 \<Rightarrow> rate_response" where
  "demo_response status certainty = no_response\<lparr>rr_status := status, rr_certainty := certainty\<rparr>"

definition demo_calls :: "owner_call list" where
  "demo_calls = [AttemptCall 101 demo_operation, CompleteCall 102 ''snapshot/1'' (demo_response 429 RateOutcomeKnown),
     AttemptCall 103 demo_operation, AttemptCall 130 demo_operation]"

lemma owner_demo_new: "NewRateOwner owner_demo_config 100 = Inr owner_demo"
  by code_simp

subsection \<open>The invariant\<close>

definition state_ok :: "rate_owner \<Rightarrow> string \<Rightarrow> rate_operation_state \<Rightarrow> bool" where
  "state_ok w k s \<longleftrightarrow> ro_id (os_operation s) = k \<and> ro_max_attempts (os_operation s) \<le> ow_max_attempts w \<and>
     os_attempts s \<le> ro_max_attempts (os_operation s) \<and>
     \<not> (os_in_flight s \<and> os_unknown s) \<and> \<not> (os_in_flight s \<and> os_terminal s) \<and> \<not> (os_unknown s \<and> os_terminal s)"

definition owner_ok :: "rate_owner \<Rightarrow> bool" where
  "owner_ok w \<longleftrightarrow> wf_map (ow_operations w) \<and> int (length (ow_operations w)) \<le> ow_maximum w \<and>
     list_all (\<lambda>(k, s). state_ok w k s) (ow_operations w)"

lemma owner_ok_get:
  "owner_ok w \<longleftrightarrow> wf_map (ow_operations w) \<and> int (length (ow_operations w)) \<le> ow_maximum w \<and>
     (\<forall>k s. go_get (ow_operations w) k = Some s \<longrightarrow> state_ok w k s)"
  by (auto simp: owner_ok_def list_all_iff go_get_mem)

lemma owner_ok_state: "owner_ok w \<Longrightarrow> go_get (ow_operations w) k = Some s \<Longrightarrow> state_ok w k s"
  by (simp add: owner_ok_get)

lemma length_go_put_present: "go_get m k \<noteq> None \<Longrightarrow> length (go_put k v m) = length m"
  by (induction m) (auto simp: go_get_def go_put_def split: if_splits)

lemma set_state_simps [simp]:
  "ow_operations (set_state w k s) = go_put k s (ow_operations w)" "ow_budget (set_state w k s) = ow_budget w"
  "ow_maximum (set_state w k s) = ow_maximum w" "ow_max_attempts (set_state w k s) = ow_max_attempts w"
  "ow_identity (set_state w k s) = ow_identity w"
  by (simp_all add: set_state_def)

lemma owner_put_ok:
  assumes "owner_ok w" "state_ok w k s" "go_get (ow_operations w) k \<noteq> None \<or> int (length (ow_operations w)) < ow_maximum w"
    and w': "ow_operations w' = go_put k s (ow_operations w)" "ow_maximum w' = ow_maximum w" "ow_max_attempts w' = ow_max_attempts w"
  shows "owner_ok w'"
  unfolding owner_ok_get
proof (intro conjI allI impI)
  have ok: "wf_map (ow_operations w)" "int (length (ow_operations w)) \<le> ow_maximum w" using assms(1) by (simp_all add: owner_ok_get)
  show "wf_map (ow_operations w')" using ok w' by simp
  show "int (length (ow_operations w')) \<le> ow_maximum w'"
    using assms(3) ok(2) w' length_go_put_present [of "ow_operations w" k s] length_go_put_le [of k s "ow_operations w"] by auto
  fix k' s' assume "go_get (ow_operations w') k' = Some s'"
  then show "state_ok w' k' s'"
    using assms(2) owner_ok_state [OF assms(1)] w' by (auto simp: state_ok_def split: if_splits)
qed

lemma set_state_ok:
  "owner_ok w \<Longrightarrow> state_ok w k s \<Longrightarrow> go_get (ow_operations w) k \<noteq> None \<or> int (length (ow_operations w)) < ow_maximum w \<Longrightarrow>
    owner_ok (set_state w k s)"
  by (rule owner_put_ok) simp_all

lemma owner_ok_budget [simp]: "owner_ok (w\<lparr>ow_budget := b\<rparr>) = owner_ok w"
  by (simp add: owner_ok_def state_ok_def)

lemma new_owner_ok: "NewRateOwner c now = Inr w \<Longrightarrow> owner_ok w \<and> ow_operations w = [] \<and> rate_ok (ow_budget w) \<and>
    NewTokenRateBudget (oc_policy c) now = Inr (ow_budget w) \<and> ow_max_attempts w = ucast (rp_attempts (oc_policy c))"
  by (auto simp: NewRateOwner_def owner_ok_def NewTokenRateBudget_def rate_ok_def split: if_splits sum.splits)

text \<open>The attempt, by what it makes of the table and the bucket.\<close>

lemma attempt_state_cases:
  assumes "attempt_state w now x s = (w', r)"
  obtains (same) "w' = w" "sends r x = []"
  | (over) "w' = set_state w (ro_id x) (s\<lparr>os_terminal := True\<rparr>)" "sends r x = []"
      "\<not> os_terminal s" "\<not> os_unknown s" "\<not> os_in_flight s"
  | (refused) "w' = w\<lparr>ow_budget := fst (rate_Acquire (ow_budget w) now (ro_cost x))\<rparr>" "sends r x = []"
  | (sent) d where "w' = (set_state w (ro_id x) (s\<lparr>os_attempts := os_attempts s + 1, os_in_flight := True\<rparr>))
        \<lparr>ow_budget := fst (rate_Acquire (ow_budget w) now (ro_cost x))\<rparr>"
      "sends r x = [x]" "snd (rate_Acquire (ow_budget w) now (ro_cost x)) = Inr d" "bd_allowed d"
      "\<not> os_terminal s" "\<not> os_unknown s" "\<not> os_in_flight s" "os_attempts s < ro_max_attempts x" "now < ro_deadline x"
      "os_retry_at s \<le> now"
proof -
  show thesis
    using assms same over refused sent
    by (auto simp: attempt_state_def Let_def set_state_def not_le not_less split: if_splits prod.splits sum.splits)
qed

lemma state_ok_flags:
  "state_ok w k s \<Longrightarrow> \<not> os_unknown s \<Longrightarrow> \<not> os_in_flight s \<Longrightarrow> state_ok w k (s\<lparr>os_terminal := True\<rparr>)"
  by (simp add: state_ok_def)

lemma state_ok_sent:
  "state_ok w k s \<Longrightarrow> \<not> os_terminal s \<Longrightarrow> \<not> os_unknown s \<Longrightarrow> os_attempts s < ro_max_attempts (os_operation s) \<Longrightarrow>
     state_ok w k (s\<lparr>os_attempts := os_attempts s + 1, os_in_flight := True\<rparr>)"
  by (simp add: state_ok_def inc_le)

lemma attempt_state_ok:
  assumes "owner_ok w" "go_get (ow_operations w) (ro_id x) = Some s" "os_operation s = x" "attempt_state w now x s = (w', r)"
  shows "owner_ok w'"
proof -
  note ok = owner_ok_state [OF assms(1,2)]
  note put = set_state_ok [OF assms(1), of "ro_id x"]
  from assms(4) show ?thesis
  proof (cases rule: attempt_state_cases)
    case over
    then show ?thesis using put [OF state_ok_flags [OF ok]] assms(2) by simp
  next
    case (sent d)
    then show ?thesis using put [OF state_ok_sent [OF ok]] assms(2,3) by simp
  qed (use assms(1) in simp_all)
qed

text \<open>
  An attempt that passes the guards works on an owner that holds its operation,
  registered just now when it was not there.
\<close>

lemma owner_Attempt_cases:
  assumes "owner_ok w" "owner_Attempt w now x = (w', r)"
  obtains (same) "w' = w" "sends r x = []"
  | (go) w1 s where "attempt_state w1 now x s = (w', r)" "owner_ok w1" "go_get (ow_operations w1) (ro_id x) = Some s"
      "os_operation s = x" "ow_budget w1 = ow_budget w" "w1 = w \<or> w1 = set_state w (ro_id x) (new_operation_state x)"
      "w1 = w \<or> go_get (ow_operations w) (ro_id x) = None" "w1 = w \<or> s = new_operation_state x"
proof (cases "\<not> validRateOperation x \<or> ro_max_attempts x > ow_max_attempts w")
  case True
  then show thesis using assms(2) same by (auto simp: owner_Attempt_def)
next
  case valid: False
  let ?n = "new_operation_state x" and ?w = "set_state w (ro_id x) (new_operation_state x)"
  show thesis
  proof (cases "go_get (ow_operations w) (ro_id x)")
    case None
    show thesis
    proof (cases "int (length (ow_operations w)) \<ge> ow_maximum w")
      case True
      then show thesis using assms(2) None valid same by (auto simp: owner_Attempt_def)
    next
      case False
      have "state_ok w (ro_id x) ?n" using valid by (simp add: state_ok_def new_operation_state_def not_less)
      then have "owner_ok ?w" using set_state_ok [OF assms(1)] False by simp
      moreover have "attempt_state ?w now x ?n = (w', r)" using assms(2) None valid False by (simp add: owner_Attempt_def Let_def)
      ultimately show thesis using None by (intro go [of ?w ?n]) (simp_all add: new_operation_state_def)
    qed
  next
    case (Some s)
    then show thesis using assms valid same go [of w s] by (auto simp: owner_Attempt_def split: if_splits)
  qed
qed

lemma settle_state_simps [simp]:
  "os_operation (settle_state d s) = os_operation s" "os_attempts (settle_state d s) = os_attempts s"
  "os_unknown (settle_state d s) = os_unknown s" "os_in_flight (settle_state d s) = os_in_flight s"
  by (simp_all add: settle_state_def Let_def split: response_disposition.splits)

text \<open>A completion changes the state of its own operation, which was in flight and no longer is.\<close>

lemma owner_Complete_cases:
  assumes "owner_Complete w now k r = (w', res)"
  obtains (same) "w' = w"
  | (finished) s s' where "ow_operations w' = go_put k s' (ow_operations w)" "ow_maximum w' = ow_maximum w"
      "ow_max_attempts w' = ow_max_attempts w" "go_get (ow_operations w) k = Some s" "os_in_flight s"
      "\<not> os_terminal s" "os_operation s' = os_operation s" "os_attempts s' = os_attempts s" "\<not> os_in_flight s'"
      "os_unknown s' \<longrightarrow> \<not> os_terminal s' \<or> os_unknown s"
proof -
  have "w' = w \<or> (\<exists>s s'. go_get (ow_operations w) k = Some s \<and> os_in_flight s \<and> \<not> os_terminal s \<and>
      ow_operations w' = go_put k s' (ow_operations w) \<and> ow_maximum w' = ow_maximum w \<and>
      ow_max_attempts w' = ow_max_attempts w \<and> os_operation s' = os_operation s \<and> os_attempts s' = os_attempts s \<and>
      \<not> os_in_flight s' \<and> (os_unknown s' \<longrightarrow> \<not> os_terminal s' \<or> os_unknown s))"
    using assms
    by (simp add: owner_Complete_def Let_def split: if_splits option.splits prod.splits sum.splits;
        elim conjE; hypsubst?; fastforce)
  then show thesis using same finished by blast
qed

lemma owner_Reconcile_cases:
  assumes "owner_Reconcile w now k r = (w', res)"
  obtains (same) "w' = w"
  | (reconciled) s s' where "w' = set_state w k s'" "go_get (ow_operations w) k = Some s" "os_unknown s" "\<not> os_unknown s'"
      "os_operation s' = os_operation s" "os_attempts s' = os_attempts s" "os_in_flight s' = os_in_flight s"
proof -
  have "w' = w \<or> (\<exists>s s'. w' = set_state w k s' \<and> go_get (ow_operations w) k = Some s \<and> os_unknown s \<and> \<not> os_unknown s' \<and>
      os_operation s' = os_operation s \<and> os_attempts s' = os_attempts s \<and> os_in_flight s' = os_in_flight s)"
    using assms
    by (simp add: owner_Reconcile_def Let_def split: if_splits option.splits; elim conjE; hypsubst?; fastforce)
  then show thesis using same reconciled by blast
qed

lemma owner_Forget_cases:
  assumes "owner_Forget w k = (w', res)"
  obtains (same) "w' = w"
  | (forgotten) s where "w' = w\<lparr>ow_operations := go_delete k (ow_operations w)\<rparr>" "go_get (ow_operations w) k = Some s" "os_terminal s"
  using assms by (auto simp: owner_Forget_def split: option.splits if_splits)

lemma owner_Complete_ok: "owner_ok w \<Longrightarrow> owner_Complete w now k r = (w', res) \<Longrightarrow> owner_ok w'"
proof (erule owner_Complete_cases)
  fix s s'
  assume ok: "owner_ok w" and c: "ow_operations w' = go_put k s' (ow_operations w)" "ow_maximum w' = ow_maximum w"
    "ow_max_attempts w' = ow_max_attempts w" "go_get (ow_operations w) k = Some s" "os_in_flight s" "\<not> os_terminal s"
    "os_operation s' = os_operation s" "os_attempts s' = os_attempts s" "\<not> os_in_flight s'"
    "os_unknown s' \<longrightarrow> \<not> os_terminal s' \<or> os_unknown s"
  have "state_ok w k s'" using owner_ok_state [OF ok c(4)] c by (auto simp: state_ok_def)
  then show "owner_ok w'" using owner_put_ok [OF ok _ _ c(1,2,3)] c(4) by simp
qed simp

lemma owner_Reconcile_ok: "owner_ok w \<Longrightarrow> owner_Reconcile w now k r = (w', res) \<Longrightarrow> owner_ok w'"
proof (erule owner_Reconcile_cases)
  fix s s'
  assume ok: "owner_ok w" and c: "w' = set_state w k s'" "go_get (ow_operations w) k = Some s" "os_unknown s" "\<not> os_unknown s'"
      "os_operation s' = os_operation s" "os_attempts s' = os_attempts s" "os_in_flight s' = os_in_flight s"
  have "state_ok w k s'" using owner_ok_state [OF ok c(2)] c by (auto simp: state_ok_def)
  then show "owner_ok w'" using set_state_ok [OF ok] c(1,2) by simp
qed simp

lemma owner_Forget_ok: "owner_ok w \<Longrightarrow> owner_Forget w k = (w', res) \<Longrightarrow> owner_ok w'"
  using length_go_delete_le [of k "ow_operations w"]
  by (erule_tac owner_Forget_cases) (auto simp: owner_ok_get state_ok_def split: if_splits)

lemma owner_Attempt_ok:
  assumes "owner_ok w" "owner_Attempt w now x = (w', r)"
  shows "owner_ok w'"
  using assms by (cases rule: owner_Attempt_cases) (simp_all add: assms(1) attempt_state_ok)

lemma owner_exec_cases:
  assumes "owner_exec w c = (w', out)"
  obtains (attempt) now x r where "c = AttemptCall now x" "owner_Attempt w now x = (w', r)" "out = sends r x"
  | (complete) now k r res where "c = CompleteCall now k r" "owner_Complete w now k r = (w', res)" "out = []"
  | (reconcile) now k r res where "c = ReconcileCall now k r" "owner_Reconcile w now k r = (w', res)" "out = []"
  | (forget) k res where "c = ForgetCall k" "owner_Forget w k = (w', res)" "out = []"
proof (cases c)
  case (AttemptCall now x)
  then show thesis using assms attempt by (auto split: prod.splits)
next
  case (CompleteCall now k r)
  then show thesis using assms complete [of now k r "snd (owner_Complete w now k r)"] by auto
next
  case (ReconcileCall now k r)
  then show thesis using assms reconcile [of now k r "snd (owner_Reconcile w now k r)"] by auto
next
  case (ForgetCall k)
  then show thesis using assms forget [of k "snd (owner_Forget w k)"] by auto
qed

lemma owner_exec_ok:
  assumes "owner_ok w" "owner_exec w c = (w', out)"
  shows "owner_ok w'"
  using assms(2)
  by (cases rule: owner_exec_cases)
    (erule owner_Attempt_ok [OF assms(1)] owner_Complete_ok [OF assms(1)] owner_Reconcile_ok [OF assms(1)] owner_Forget_ok [OF assms(1)])+

lemma owner_run_Cons:
  assumes "owner_run w (c # cs) = (w', out)"
  obtains w1 out1 out2 where "owner_exec w c = (w1, out1)" "owner_run w1 cs = (w', out2)" "out = out1 @ out2"
  using assms by (auto simp: Let_def split: prod.splits)

lemma owner_run_ok: "owner_ok w \<Longrightarrow> owner_run w cs = (w', out) \<Longrightarrow> owner_ok w'"
proof (induction cs arbitrary: w out)
  case (Cons c cs)
  from Cons.prems(2) show ?case by (rule owner_run_Cons) (blast intro: Cons.IH owner_exec_ok [OF Cons.prems(1)])
qed simp

subsection \<open>How often an operation is sent\<close>

definition attempts_of :: "rate_owner \<Rightarrow> string \<Rightarrow> nat" where
  "attempts_of w k = (case go_get (ow_operations w) k of None \<Rightarrow> 0 | Some s \<Rightarrow> unat (os_attempts s))"

definition operation_of :: "rate_owner \<Rightarrow> string \<Rightarrow> rate_operation option" where
  "operation_of w k = map_option os_operation (go_get (ow_operations w) k)"

abbreviation sent_as :: "string \<Rightarrow> rate_operation list \<Rightarrow> rate_operation list" where
  "sent_as k xs \<equiv> filter (\<lambda>x. ro_id x = k) xs"

text \<open>The table counts what is sent, and keeps the operation it counts for.\<close>

definition tracked :: "string \<Rightarrow> rate_owner \<Rightarrow> rate_owner \<Rightarrow> rate_operation list \<Rightarrow> bool" where
  "tracked k w w' out \<longleftrightarrow> attempts_of w' k = attempts_of w k + length (sent_as k out) \<and>
     (operation_of w k \<noteq> None \<longrightarrow> operation_of w' k = operation_of w k) \<and>
     (\<forall>x\<in>set (sent_as k out). operation_of w' k = Some x) \<and> ow_max_attempts w' = ow_max_attempts w"

lemma tracked_refl: "tracked k w w []"
  by (simp add: tracked_def)

lemma tracked_trans: "tracked k w w1 o1 \<Longrightarrow> tracked k w1 w2 o2 \<Longrightarrow> tracked k w w2 (o1 @ o2)"
  by (auto simp: tracked_def)

lemma tracked_put:
  assumes "ow_operations w' = go_put j s' (ow_operations w)" "go_get (ow_operations w) j = Some s"
    "os_operation s' = os_operation s" "os_attempts s' = os_attempts s" "ow_max_attempts w' = ow_max_attempts w"
  shows "tracked k w w' []"
  using assms by (auto simp: tracked_def attempts_of_def operation_of_def)

lemma attempt_state_tracked:
  assumes "owner_ok w" "go_get (ow_operations w) (ro_id x) = Some s" "os_operation s = x" "attempt_state w now x s = (w', r)"
  shows "tracked k w w' (sends r x)"
  using assms(4)
proof (cases rule: attempt_state_cases)
  case (sent d)
  have "unat (os_attempts s + 1) = unat (os_attempts s) + 1" using sent(8) by (intro word_succ_no_wrap) auto
  then show ?thesis using sent assms(2,3) by (auto simp: tracked_def attempts_of_def operation_of_def)
qed (use assms(2) in \<open>auto simp: tracked_def attempts_of_def operation_of_def\<close>)

lemma owner_Attempt_tracked:
  assumes "owner_ok w" "owner_Attempt w now x = (w', r)"
  shows "tracked k w w' (sends r x)"
  using assms
proof (cases rule: owner_Attempt_cases)
  case (go w1 s)
  have "tracked k w w1 []"
    using go(6,7) by (auto simp: tracked_def attempts_of_def operation_of_def new_operation_state_def)
  then show ?thesis using tracked_trans attempt_state_tracked [OF go(2,3,4,1)] by fastforce
qed (simp add: tracked_refl)

lemma owner_exec_tracked:
  assumes "owner_ok w" "owner_exec w c = (w', out)" "c \<noteq> ForgetCall k"
  shows "tracked k w w' out"
  using assms(2)
proof (cases rule: owner_exec_cases)
  case (attempt now x r)
  then show ?thesis using owner_Attempt_tracked [OF assms(1)] by simp
next
  case (complete now j r res)
  from complete(2) show ?thesis
    unfolding complete(3) by (cases rule: owner_Complete_cases) (simp add: tracked_refl, rule tracked_put)
next
  case (reconcile now j r res)
  from reconcile(2) show ?thesis
    unfolding reconcile(3) by (cases rule: owner_Reconcile_cases) (auto simp: tracked_refl intro: tracked_put)
next
  case (forget j res)
  from forget(2) show ?thesis
    using forget(1,3) assms(3)
    by (cases rule: owner_Forget_cases) (auto simp: tracked_def attempts_of_def operation_of_def)
qed

lemma owner_run_tracked:
  "owner_ok w \<Longrightarrow> owner_run w cs = (w', out) \<Longrightarrow> ForgetCall k \<notin> set cs \<Longrightarrow> tracked k w w' out"
proof (induction cs arbitrary: w out)
  case (Cons c cs)
  obtain w1 o1 o2 where c: "owner_exec w c = (w1, o1)" "owner_run w1 cs = (w', o2)" "out = o1 @ o2"
    using Cons.prems(2) by (rule owner_run_Cons)
  have "tracked k w w1 o1" using owner_exec_tracked [OF Cons.prems(1) c(1)] Cons.prems(3) by auto
  moreover have "tracked k w1 w' o2" using Cons.IH [OF owner_exec_ok [OF Cons.prems(1) c(1)] c(2)] Cons.prems(3) by simp
  ultimately show ?case using c(3) tracked_trans by blast
qed (simp add: tracked_refl)

text \<open>
  C18. An operation is sent at most as often as its policy allows.  Over any
  sequence of calls to a new owner, with any clock readings, that does not forget the
  operation, every request sent under its identity is the same operation, and
  there are no more of them than its maximum of attempts, which is within the
  maximum of the owner's policy.
\<close>

theorem owner_attempts_bounded:
  assumes "NewRateOwner cfg t = Inr w" "owner_run w cs = (w', out)" "ForgetCall (ro_id x) \<notin> set cs" "x \<in> set out"
  shows "length (filter (\<lambda>y. ro_id y = ro_id x) out) \<le> unat (ro_max_attempts x) \<and>
    unat (ro_max_attempts x) \<le> unat (rp_attempts (oc_policy cfg)) \<and> (\<forall>y\<in>set out. ro_id y = ro_id x \<longrightarrow> y = x)"
proof -
  note new = new_owner_ok [OF assms(1)]
  have ok: "owner_ok w'" using new owner_run_ok assms(2) by blast
  have tr: "tracked (ro_id x) w w' out" using new owner_run_tracked assms(2,3) by blast
  have same: "\<forall>y\<in>set out. ro_id y = ro_id x \<longrightarrow> operation_of w' (ro_id x) = Some y" using tr by (auto simp: tracked_def)
  then have x: "operation_of w' (ro_id x) = Some x" using assms(4) by blast
  then obtain s where s: "go_get (ow_operations w') (ro_id x) = Some s" "os_operation s = x" by (auto simp: operation_of_def)
  have st: "state_ok w' (ro_id x) s" by (rule owner_ok_state [OF ok s(1)])
  have "length (sent_as (ro_id x) out) = unat (os_attempts s)"
    using tr new s(1) by (simp add: tracked_def attempts_of_def)
  moreover have "os_attempts s \<le> ro_max_attempts x" "ro_max_attempts x \<le> ucast (rp_attempts (oc_policy cfg))"
    using st s(2) tr new by (simp_all add: state_ok_def tracked_def)
  moreover have "unat (ucast (rp_attempts (oc_policy cfg)) :: u32) = unat (rp_attempts (oc_policy cfg))"
    using unat_bound [of "rp_attempts (oc_policy cfg)"] by (simp add: unsigned_ucast_eq take_bit_nat_eq_self)
  ultimately show ?thesis using same x by (auto simp: word_le_nat_alt)
qed

theorem owner_attempts_bounded_witness:
  "snd (owner_run owner_demo demo_calls) = [demo_operation, demo_operation] \<and>
   length (filter (\<lambda>y. ro_id y = ro_id demo_operation) (snd (owner_run owner_demo demo_calls))) \<le> unat (ro_max_attempts demo_operation)"
proof -
  have out: "snd (owner_run owner_demo demo_calls) = [demo_operation, demo_operation]" by code_simp
  moreover have "ForgetCall (ro_id demo_operation) \<notin> set demo_calls" by code_simp
  ultimately show ?thesis
    using owner_attempts_bounded [OF owner_demo_new surjective_pairing, of demo_operation demo_calls] by simp
qed

subsection \<open>Unknown outcomes\<close>

fun reconciles :: "string \<Rightarrow> owner_call \<Rightarrow> bool" where
  "reconciles k (ReconcileCall now j r) = (j = k)"
| "reconciles k _ = False"

lemma owner_exec_unknown:
  assumes "owner_ok w" "go_get (ow_operations w) k = Some s" "os_unknown s" "owner_exec w c = (w', out)" "\<not> reconciles k c"
  shows "go_get (ow_operations w') k = Some s" "sent_as k out = []"
proof -
  have flags: "\<not> os_in_flight s" "\<not> os_terminal s" using owner_ok_state [OF assms(1,2)] assms(3) by (auto simp: state_ok_def)
  from assms(4) have "go_get (ow_operations w') k = Some s \<and> sent_as k out = []"
  proof (cases rule: owner_exec_cases)
    case (attempt now x r)
    from assms(1) attempt(2) show ?thesis
    proof (cases rule: owner_Attempt_cases)
      case (go w1 s1)
      have w1: "go_get (ow_operations w1) k = Some s" using go(6,7) assms(2) by (auto simp: new_operation_state_def)
      from go(1) show ?thesis
        using w1 go(3) assms(3) flags attempt(3) by (cases rule: attempt_state_cases) auto
    qed (use assms(2) attempt(3) in simp)
  next
    case (complete now j r res)
    from complete(2) show ?thesis
      using complete(3) assms(2) flags by (cases rule: owner_Complete_cases) auto
  next
    case (reconcile now j r res)
    from reconcile(2) show ?thesis
      using reconcile(1,3) assms(2,5) by (cases rule: owner_Reconcile_cases) auto
  next
    case (forget j res)
    from forget(2) show ?thesis
      using forget(3) assms(2) flags by (cases rule: owner_Forget_cases) auto
  qed
  then show "go_get (ow_operations w') k = Some s" "sent_as k out = []" by simp_all
qed

lemma owner_run_unknown:
  "owner_ok w \<Longrightarrow> go_get (ow_operations w) k = Some s \<Longrightarrow> os_unknown s \<Longrightarrow> owner_run w cs = (w', out) \<Longrightarrow>
    \<forall>c\<in>set cs. \<not> reconciles k c \<Longrightarrow> go_get (ow_operations w') k = Some s \<and> sent_as k out = []"
proof (induction cs arbitrary: w out)
  case (Cons c cs)
  obtain w1 o1 o2 where c: "owner_exec w c = (w1, o1)" "owner_run w1 cs = (w', o2)" "out = o1 @ o2"
    using Cons.prems(4) by (rule owner_run_Cons)
  have "\<not> reconciles k c" using Cons.prems(5) by simp
  note step = owner_exec_unknown [OF Cons.prems(1-3) c(1) this]
  show ?case using Cons.IH [OF owner_exec_ok [OF Cons.prems(1) c(1)] step(1) Cons.prems(3) c(2)] Cons.prems(5) step(2) c(3) by simp
qed simp

lemma owner_Complete_unknown:
  assumes "owner_Complete w now k r = (w', Inr d)" "rc_reconcile d"
  obtains s where "go_get (ow_operations w') k = Some s" "os_unknown s"
  using assms by (auto simp: owner_Complete_def Let_def split: if_splits option.splits prod.splits sum.splits)

text \<open>
  C13. An operation whose outcome is unknown is not sent again before it is
  reconciled.  After a completion that asks for reconciliation, whatever calls
  follow on the owner, at whatever clock readings, as long as none of them reconciles that
  operation nothing is sent under its identity and the owner keeps reporting the
  outcome as unknown: the operation cannot expire, be forgotten or be registered anew.
\<close>

theorem unknown_outcome_blocks:
  assumes "NewRateOwner cfg t = Inr w" "owner_run w before = (w1, out1)"
    and "owner_Complete w1 now k r = (w2, Inr d)" "rc_reconcile d"
    and "owner_run w2 after = (w3, out)" "\<forall>c\<in>set after. \<not> reconciles k c"
  shows "(\<forall>x\<in>set out. ro_id x \<noteq> k) \<and> (\<exists>s. owner_Snapshot w3 k = Inr s \<and> os_unknown s)"
proof -
  have ok: "owner_ok w2" using new_owner_ok [OF assms(1)] owner_run_ok [OF _ assms(2)] owner_Complete_ok [OF _ assms(3)] by blast
  obtain s where s: "go_get (ow_operations w2) k = Some s" "os_unknown s" using assms(3,4) by (rule owner_Complete_unknown)
  have "go_get (ow_operations w3) k = Some s \<and> sent_as k out = []" using owner_run_unknown [OF ok s assms(5,6)] .
  then show ?thesis using s(2) by (auto simp: owner_Snapshot_def filter_empty_conv)
qed

theorem unknown_outcome_blocks_witness:
  "''snapshot/1'' \<notin> set (map ro_id (snd (owner_run (fst (owner_Complete (fst (owner_run owner_demo [AttemptCall 101 demo_operation]))
      102 ''snapshot/1'' (demo_response 0 RateOutcomeUnknown))) [AttemptCall 2000 demo_operation, ForgetCall ''snapshot/1''])))"
proof -
  let ?w1 = "fst (owner_run owner_demo [AttemptCall 101 demo_operation])"
  let ?c = "owner_Complete ?w1 102 ''snapshot/1'' (demo_response 0 RateOutcomeUnknown)"
  have "snd ?c = Inr \<lparr>rc_disposition = None, rc_retry_at = 0, rc_reconcile = True\<rparr>" by code_simp
  then have "?c = (fst ?c, Inr \<lparr>rc_disposition = None, rc_retry_at = 0, rc_reconcile = True\<rparr>)" by (metis prod.collapse)
  from unknown_outcome_blocks [OF owner_demo_new surjective_pairing this _ surjective_pairing,
      of "[AttemptCall 2000 demo_operation, ForgetCall ''snapshot/1'']"]
  show ?thesis by auto
qed

subsection \<open>The rate of an owner\<close>

fun call_time :: "owner_call \<Rightarrow> u64" where
  "call_time (AttemptCall now x) = now"
| "call_time (CompleteCall now k r) = now"
| "call_time (ReconcileCall now k r) = now"
| "call_time (ForgetCall k) = 0"

text \<open>A call whose response carries no evidence of the venue's own count.\<close>

fun no_evidence :: "owner_call \<Rightarrow> bool" where
  "no_evidence (CompleteCall now k r) = (\<not> rr_used_present r \<and> \<not> rr_remaining_present r)"
| "no_evidence _ = True"

definition costs :: "rate_operation list \<Rightarrow> nat" where
  "costs xs = sum_list (map (\<lambda>x. unat (ro_cost x)) xs)"

definition pays :: "u64 \<Rightarrow> rate_budget \<Rightarrow> rate_budget \<Rightarrow> nat \<Rightarrow> bool" where
  "pays now b b' g \<longleftrightarrow> (\<exists>k. paid b b' g k) \<and> rate_ok b' \<and> rb_last b' \<le> max (rb_last b) now"

lemma pays_refl: "rate_ok b \<Longrightarrow> pays now b b 0"
  by (auto simp: pays_def paid_def intro!: exI [of _ 0])

lemma pays_mono: "pays now b b' g \<Longrightarrow> h \<le> g \<Longrightarrow> pays now b b' h"
  by (auto simp: pays_def intro: paid_mono)

lemma pays_exec: "rate_ok b \<Longrightarrow> rate_exec b x = (b', g) \<Longrightarrow> pays (op_time x) b b' g"
  using rate_exec_paid by (simp add: pays_def)

lemma pays_trans: "pays now b b1 g \<Longrightarrow> pays now b1 b2 h \<Longrightarrow> pays now b b2 (g + h)"
  by (auto simp: pays_def intro: paid_trans order_trans)

lemma pays_refill: "rate_ok b \<Longrightarrow> rb_last b \<le> now \<Longrightarrow> pays now b (refill b now) 0"
  using refill_paid [of b now "refill b now" 0] refill_ok [of b now] by (auto simp: pays_def max_def)

lemma attempt_state_pays:
  assumes "rate_ok (ow_budget w)" "attempt_state w now x s = (w', r)"
  shows "pays now (ow_budget w) (ow_budget w') (costs (sends r x))"
proof -
  have acq: "pays now (ow_budget w) (fst (rate_Acquire (ow_budget w) now (ro_cost x))) (snd (rate_exec (ow_budget w) (AcquireOp now (ro_cost x))))"
    using pays_exec [OF assms(1), of "AcquireOp now (ro_cost x)"] by simp
  from assms(2) show ?thesis
  proof (cases rule: attempt_state_cases)
    case (sent d)
    then show ?thesis using acq by (simp add: costs_def)
  next
    case refused
    then show ?thesis using pays_mono [OF acq, of 0] by (simp add: costs_def)
  qed (use assms(1) in \<open>simp_all add: costs_def pays_refl\<close>)
qed

lemma owner_Complete_pays:
  assumes "rate_ok (ow_budget w)" "owner_Complete w now k r = (w', res)" "\<not> rr_used_present r" "\<not> rr_remaining_present r"
  shows "pays now (ow_budget w) (ow_budget w') 0"
proof -
  let ?b = "ow_budget w" and ?o = "ObserveOp now (rr_status r) (max (rr_retry_after r) (rr_reset_after r))"
  have "ow_budget w' = ?b \<or> (rb_last ?b \<le> now \<and> ow_budget w' = fst (rate_exec (refill ?b now) ?o))"
    using assms(2-4)
    by (auto simp: owner_Complete_def ReconcileHeaders_def Let_def split: if_splits option.splits prod.splits sum.splits)
  moreover have "pays now ?b (fst (rate_exec (refill ?b now) ?o)) 0" if "rb_last ?b \<le> now"
    using pays_trans [OF pays_refill [OF assms(1) that] pays_exec [of "refill ?b now" ?o, simplified]]
      refill_ok(1) [OF assms(1) that] by simp
  ultimately show ?thesis using pays_refl [OF assms(1)] by auto
qed

lemma owner_exec_pays:
  assumes "owner_ok w" "rate_ok (ow_budget w)" "owner_exec w c = (w', out)" "no_evidence c"
  shows "pays (call_time c) (ow_budget w) (ow_budget w') (costs out)"
  using assms(3)
proof (cases rule: owner_exec_cases)
  case (attempt now x r)
  from assms(1) attempt(2) show ?thesis
  proof (cases rule: owner_Attempt_cases)
    case (go w1 s)
    then show ?thesis using attempt_state_pays [of w1 now x s w' r] assms(2) attempt by simp
  qed (use attempt assms(2) pays_refl in \<open>simp add: costs_def\<close>)
next
  case (complete now k r res)
  then show ?thesis using owner_Complete_pays assms(2,4) by (simp add: costs_def)
next
  case (reconcile now k r res)
  from reconcile(2) show ?thesis
    using reconcile(3) pays_refl [OF assms(2)] by (cases rule: owner_Reconcile_cases) (simp_all add: costs_def)
next
  case (forget k res)
  from forget(2) show ?thesis
    using forget(3) pays_refl [OF assms(2)] by (cases rule: owner_Forget_cases) (simp_all add: costs_def)
qed

lemma owner_run_pays:
  "owner_ok w \<Longrightarrow> rate_ok (ow_budget w) \<Longrightarrow> owner_run w cs = (w', out) \<Longrightarrow> \<forall>c\<in>set cs. no_evidence c \<and> call_time c \<le> t \<Longrightarrow>
    pays t (ow_budget w) (ow_budget w') (costs out)"
proof (induction cs arbitrary: w out)
  case (Cons c cs)
  obtain w1 o1 o2 where c: "owner_exec w c = (w1, o1)" "owner_run w1 cs = (w', o2)" "out = o1 @ o2"
    using Cons.prems(3) by (rule owner_run_Cons)
  have "pays (call_time c) (ow_budget w) (ow_budget w1) (costs o1)"
    using owner_exec_pays [OF Cons.prems(1,2) c(1)] Cons.prems(4) by simp
  then have p: "pays t (ow_budget w) (ow_budget w1) (costs o1)" using Cons.prems(4) by (auto simp: pays_def intro: order_trans max.mono)
  moreover have "pays t (ow_budget w1) (ow_budget w') (costs o2)"
    using Cons.IH [OF owner_exec_ok [OF Cons.prems(1) c(1)] _ c(2)] p Cons.prems(4) by (simp add: pays_def)
  ultimately show ?case using pays_trans c(3) by (fastforce simp: costs_def)
qed (simp add: costs_def pays_refl)

lemma new_budget_last: "NewTokenRateBudget p t = Inr b \<Longrightarrow> rb_last b = t"
  by (auto simp: NewTokenRateBudget_def split: if_splits)

text \<open>
  C30. All the operations of an owner share its rate.  Over any sequence of calls to a
  new owner up to the clock reading \<open>t\<close>, whose responses carry no count of the
  venue's own, the costs of everything sent and the tokens left are together at most the
  capacity plus one refill for each whole interval since the owner was made.
\<close>

theorem owner_rate_bound:
  assumes "NewRateOwner cfg t0 = Inr w" "owner_run w cs = (w', out)" "\<forall>c\<in>set cs. no_evidence c \<and> call_time c \<le> t" "t0 \<le> t"
  defines "p \<equiv> oc_policy cfg"
  shows "costs out + unat (rb_tokens (ow_budget w')) \<le>
    unat (rp_capacity p) + (unat t - unat t0) div unat (rp_interval p) * unat (rp_refill p)"
proof -
  note new = new_owner_ok [OF assms(1)]
  then have b: "NewTokenRateBudget p t0 = Inr (ow_budget w)" by (simp add: p_def)
  then have last: "rb_last (ow_budget w) = t0" by (rule new_budget_last)
  have "pays t (ow_budget w) (ow_budget w') (costs out)" using owner_run_pays [OF _ _ assms(2,3)] new by blast
  then obtain k where "paid (ow_budget w) (ow_budget w') (costs out) k" "rate_ok (ow_budget w')" "rb_last (ow_budget w') \<le> t"
    using last assms(4) by (auto simp: pays_def max_def)
  then show ?thesis using paid_bound(1) [OF b] by blast
qed

theorem owner_rate_bound_witness:
  "costs (snd (owner_run owner_demo demo_calls)) = 2 \<and>
   costs (snd (owner_run owner_demo demo_calls)) + unat (rb_tokens (ow_budget (fst (owner_run owner_demo demo_calls)))) \<le>
     unat (rp_capacity rate_demo) + (unat (130 :: u64) - unat (100 :: u64)) div unat (rp_interval rate_demo) * unat (rp_refill rate_demo)"
proof -
  have "costs (snd (owner_run owner_demo demo_calls)) = 2" by code_simp
  moreover have "\<forall>c\<in>set demo_calls. no_evidence c \<and> call_time c \<le> 130" by code_simp
  moreover have "oc_policy owner_demo_config = rate_demo" by (simp add: owner_demo_config_def)
  ultimately show ?thesis
    using owner_rate_bound [OF owner_demo_new surjective_pairing, of demo_calls 130] by simp
qed

subsection \<open>The set of owners\<close>

lemma add_owners_sound:
  "add_owners m cs = Inr m' \<Longrightarrow> wf_map m \<Longrightarrow> wf_map m' \<and>
     distinct (map (oc_identity \<circ> fst) cs) \<and> (\<forall>(c, now)\<in>set cs. go_get m (oc_identity c) = None) \<and>
     (\<forall>(c, now)\<in>set cs. \<exists>w. NewRateOwner c now = Inr w \<and> go_get m' (oc_identity c) = Some w) \<and>
     (\<forall>i. i \<notin> set (map (oc_identity \<circ> fst) cs) \<longrightarrow> go_get m' i = go_get m i)"
proof (induction m cs rule: add_owners.induct)
  case (2 m c now cs)
  obtain w where w: "go_get m (oc_identity c) = None" "NewRateOwner c now = Inr w"
    "add_owners (go_put (oc_identity c) w m) cs = Inr m'"
    using "2.prems"(1) by (auto split: if_splits sum.splits)
  note ih = "2.IH" [OF _ w(2,3)]
  have "\<not> go_get m (oc_identity c) \<noteq> None" using w(1) by simp
  note ih = ih [OF this wf_map_put [OF "2.prems"(2)]]
  then show ?case using w by (fastforce split: if_splits)
qed simp

text \<open>Exactly the configured identities have an owner, each the one made from its configuration.\<close>

lemma rate_owners_unique:
  assumes "NewRateOwners cs = Inr m"
  shows "distinct (map (oc_identity \<circ> fst) cs)" "(c, now) \<in> set cs \<Longrightarrow> \<exists>w. NewRateOwner c now = Inr w \<and> owners_Owner m (oc_identity c) = Some w"
    "owners_Owner m i \<noteq> None \<longleftrightarrow> i \<in> set (map (oc_identity \<circ> fst) cs)"
proof -
  have a: "add_owners [] cs = Inr m" using assms by (auto simp: NewRateOwners_def split: if_splits)
  note s = add_owners_sound [OF a wf_map_Nil]
  then show "distinct (map (oc_identity \<circ> fst) cs)" by blast
  show own: "(c, now) \<in> set cs \<Longrightarrow> \<exists>w. NewRateOwner c now = Inr w \<and> owners_Owner m (oc_identity c) = Some w" for c now
    using s by (fastforce simp: owners_Owner_def)
  show "owners_Owner m i \<noteq> None \<longleftrightarrow> i \<in> set (map (oc_identity \<circ> fst) cs)"
    using s own by (fastforce simp: owners_Owner_def)
qed

end
