(* ===== verification/Descriptor.thy ===== *)
theory Descriptor
  imports Plan
begin

text \<open>
  \<open>src/replay/descriptor.go\<close>: the construction of input descriptors from committed
  catalog rows.  Decoding the JSON of the manifest (with no unknown field and
  nothing after it) is the parameter \<open>decode\<close>; SHA-256 is the parameter \<open>sha\<close>.
  \<open>utf8.ValidString\<close>, \<open>strings.TrimSpace\<close> and \<open>encoding/hex\<close> are written out on
  bytes.

  The lemmas show that a descriptor binds its row to the exact manifest bytes, has
  the bounds the replay relies on, and carries identifiers in canonical form.
\<close>

subsection \<open>Text\<close>

definition cont :: "u8 \<Rightarrow> bool" where "cont b \<longleftrightarrow> 0x80 \<le> b \<and> b \<le> 0xBF"

text \<open>Well-formed UTF-8: no overlong form, no surrogate, nothing above U+10FFFF.\<close>

fun utf8_valid :: "bytes \<Rightarrow> bool" where
  "utf8_valid [] = True"
| "utf8_valid (a # rest) =
     (if a < 0x80 then utf8_valid rest
      else (case rest of
        [] \<Rightarrow> False
      | b # rest1 \<Rightarrow>
          if 0xC2 \<le> a \<and> a \<le> 0xDF then cont b \<and> utf8_valid rest1
          else (case rest1 of
            [] \<Rightarrow> False
          | c # rest2 \<Rightarrow>
              if 0xE0 \<le> a \<and> a \<le> 0xEF then
                cont b \<and> cont c \<and> (a = 0xE0 \<longrightarrow> 0xA0 \<le> b) \<and> (a = 0xED \<longrightarrow> b \<le> 0x9F) \<and> utf8_valid rest2
              else (case rest2 of
                [] \<Rightarrow> False
              | d # rest3 \<Rightarrow>
                  0xF0 \<le> a \<and> a \<le> 0xF4 \<and> cont b \<and> cont c \<and> cont d \<and> (a = 0xF0 \<longrightarrow> 0x90 \<le> b) \<and> (a = 0xF4 \<longrightarrow> b \<le> 0x8F) \<and>
                  utf8_valid rest3))))"

text \<open>The encodings of the white space characters of Unicode.\<close>

definition white_space :: "bytes list" where
  "white_space = map (\<lambda>b. [b]) [9, 10, 11, 12, 13, 32] @ [[0xC2, 0x85], [0xC2, 0xA0], [0xE1, 0x9A, 0x80]] @
     map (\<lambda>b. [0xE2, 0x80, b]) [0x80, 0x81, 0x82, 0x83, 0x84, 0x85, 0x86, 0x87, 0x88, 0x89, 0x8A, 0xA8, 0xA9, 0xAF] @
     [[0xE2, 0x81, 0x9F], [0xE3, 0x80, 0x80]]"

text \<open>On valid UTF-8, \<open>strings.TrimSpace\<close> changes nothing when no white space is at either end.\<close>

definition trimmed :: "bytes \<Rightarrow> bool" where
  "trimmed v \<longleftrightarrow> list_all (\<lambda>w. take (length w) v \<noteq> w \<and> drop (length v - length w) v \<noteq> w) white_space"

definition validateSourceID :: "string \<Rightarrow> replay_error option" where
  "validateSourceID v = first_error [
     fail_if (v = []) ErrInvalidInput,
     fail_if (length v > MaxSourceIDBytes) ErrInvalidInput,
     fail_if (\<not> utf8_valid (str_bytes v)) ErrInvalidInput,
     fail_if (\<not> trimmed (str_bytes v)) ErrInvalidInput,
     fail_if (0 \<in> set (str_bytes v)) ErrInvalidInput]"

subsection \<open>UUIDs\<close>

definition hex_value :: "char \<Rightarrow> nat option" where
  "hex_value c =
     (if CHR ''0'' \<le> c \<and> c \<le> CHR ''9'' then Some (of_char c - 48)
      else if CHR ''a'' \<le> c \<and> c \<le> CHR ''f'' then Some (of_char c - 87)
      else if CHR ''A'' \<le> c \<and> c \<le> CHR ''F'' then Some (of_char c - 55)
      else None)"

fun hex_DecodeString :: "string \<Rightarrow> bytes option" where
  "hex_DecodeString [] = Some []"
| "hex_DecodeString [c] = None"
| "hex_DecodeString (a # b # rest) =
     (case (hex_value a, hex_value b) of
        (Some x, Some y) \<Rightarrow> (case hex_DecodeString rest of None \<Rightarrow> None | Some bs \<Rightarrow> Some (of_nat (16 * x + y) # bs))
      | _ \<Rightarrow> None)"

definition hex_digit :: "nat \<Rightarrow> char" where
  "hex_digit n = (if n < 10 then char_of (48 + n) else char_of (87 + n))"

definition hex_EncodeToString :: "bytes \<Rightarrow> string" where
  "hex_EncodeToString bs = concat (map (\<lambda>b. [hex_digit (unat b div 16), hex_digit (unat b mod 16)]) bs)"

definition uuid_raw :: "string \<Rightarrow> string option" where
  "uuid_raw v =
     (if length v = 32 then Some v
      else if length v = 36 then
        (if v ! 8 \<noteq> CHR ''-'' \<or> v ! 13 \<noteq> CHR ''-'' \<or> v ! 18 \<noteq> CHR ''-'' \<or> v ! 23 \<noteq> CHR ''-'' then None
         else Some (take 8 v @ take 4 (drop 9 v) @ take 4 (drop 14 v) @ take 4 (drop 19 v) @ drop 24 v))
      else None)"

definition parseCanonicalUUID :: "string \<Rightarrow> replay_error + string \<times> bytes" where
  "parseCanonicalUUID v =
     (case uuid_raw v of
        None \<Rightarrow> Inl ErrInvalidInput
      | Some raw \<Rightarrow>
          (case hex_DecodeString raw of
             None \<Rightarrow> Inl ErrInvalidInput
           | Some decoded \<Rightarrow>
               if length decoded \<noteq> 16 then Inl ErrInvalidInput
               else let e = hex_EncodeToString decoded in
                 Inr (take 8 e @ ''-'' @ take 4 (drop 8 e) @ ''-'' @ take 4 (drop 12 e) @ ''-'' @ take 4 (drop 16 e) @ ''-'' @ drop 20 e,
                      decoded)))"

subsection \<open>Descriptors\<close>

definition MaximumManifestBytes :: nat where "MaximumManifestBytes = 4194304"

text \<open>\<open>catalog.RawSegmentPublication\<close>.\<close>

record raw_segment_publication =
  ps_segment :: string
  ps_source :: string
  ps_channel :: string
  ps_epoch :: string
  ps_start_ns :: i64
  ps_end_ns :: i64
  ps_first :: u64
  ps_last :: u64
  ps_object :: string
  ps_sha :: hash
  ps_bytes :: i64
  ps_version :: u16
  ps_manifest_sha :: hash
  ps_manifest_bytes :: bytes
  ps_state :: string

definition SpoolManifestVersion :: u16 where "SpoolManifestVersion = 1"

definition check_row :: "(bytes \<Rightarrow> hash) \<Rightarrow> raw_segment_publication \<Rightarrow> replay_error option" where
  "check_row sha p = first_error [
     fail_if (ps_state p \<noteq> ''committed'') ErrInvalidInput,
     fail_if (ps_segment p = [] \<or> ps_source p = [] \<or> ps_channel p = [] \<or> ps_epoch p = [] \<or> ps_object p = [] \<or> ps_bytes p \<le> 0) ErrInvalidInput,
     fail_if (length (ps_manifest_bytes p) = 0 \<or> length (ps_manifest_bytes p) > MaximumManifestBytes) ErrInputBound,
     fail_if (sha (ps_manifest_bytes p) \<noteq> ps_manifest_sha p) ErrIntegrity]"

definition check_identity :: "raw_segment_publication \<Rightarrow> ready_manifest \<Rightarrow> replay_error + bytes" where
  "check_identity p m =
     (case parseCanonicalUUID (ps_segment p) of
        Inl err \<Rightarrow> Inl ErrInvalidInput
      | Inr (segmentID, _) \<Rightarrow>
          if segmentID \<noteq> ps_segment p then Inl ErrInvalidInput
          else (case validateSourceID (ps_source p) of
            Some err \<Rightarrow> Inl err
          | None \<Rightarrow> (case parseCanonicalUUID (ps_epoch p) of
              Inl err \<Rightarrow> Inl ErrInvalidInput
            | Inr (epochID, epochBytes) \<Rightarrow>
                if epochID \<noteq> ps_epoch p then Inl ErrInvalidInput
                else (case parseCanonicalUUID (rm_epoch m) of
                  Inl err \<Rightarrow> Inl ErrIntegrity
                | Inr (manifestEpochID, manifestEpochBytes) \<Rightarrow>
                    if manifestEpochID \<noteq> epochID \<or> manifestEpochBytes \<noteq> epochBytes then Inl ErrIntegrity else Inr epochBytes))))"

definition check_manifest :: "raw_segment_publication \<Rightarrow> ready_manifest \<Rightarrow> replay_error option" where
  "check_manifest p m =
     (let s = rm_segment m in first_error [
     fail_if (rm_version m \<noteq> SpoolManifestVersion \<or> ps_version p \<noteq> rm_version m \<or> mf_version s \<noteq> FormatVersion) ErrIntegrity,
     fail_if (rm_source m \<noteq> ps_source p \<or> rm_channel m \<noteq> ps_channel p \<or> rm_object m \<noteq> ps_object p) ErrIntegrity,
     fail_if (rm_epoch_kind m \<noteq> ''connection'' \<and> rm_epoch_kind m \<noteq> ''poll'') ErrIntegrity,
     fail_if (rm_writer m = [] \<or> rm_file m = [] \<or> mf_count s = 0 \<or> length (mf_frames s) = 0) ErrIntegrity,
     fail_if (mf_compressed s > drop_bit 1 max_u64 \<or> int (unat (mf_compressed s)) \<noteq> ps_bytes p \<or> mf_compressed_sha s \<noteq> ps_sha p) ErrIntegrity,
     fail_if (mf_first_ns s \<noteq> ps_start_ns p \<or> mf_last_ns s \<noteq> ps_end_ns p \<or> mf_first s \<noteq> ps_first p \<or> mf_last s \<noteq> ps_last p) ErrIntegrity,
     fail_if (ps_start_ns p < 0 \<or> ps_end_ns p < ps_start_ns p \<or> ps_last p < ps_first p \<or> ps_last p > 0x7FFFFFFFFFFFFFFF) ErrInvalidInput])"

definition NewInputDescriptor :: "(bytes \<Rightarrow> hash) \<Rightarrow> (bytes \<Rightarrow> ready_manifest option) \<Rightarrow> raw_segment_publication \<Rightarrow> replay_error + input_descriptor" where
  "NewInputDescriptor sha decode p =
     (case check_row sha p of
        Some err \<Rightarrow> Inl err
      | None \<Rightarrow>
          (case decode (ps_manifest_bytes p) of
             None \<Rightarrow> Inl ErrIntegrity
           | Some m \<Rightarrow>
               (case check_identity p m of
                  Inl err \<Rightarrow> Inl err
                | Inr epochBytes \<Rightarrow>
                    (case check_manifest p m of
                       Some err \<Rightarrow> Inl err
                     | None \<Rightarrow>
                         Inr \<lparr>id_segment = ps_segment p, id_source = ps_source p, id_channel = ps_channel p, id_epoch = ps_epoch p,
                           id_epoch_bytes = epochBytes, id_object = ps_object p, id_sha = ps_sha p, id_bytes = ps_bytes p,
                           id_start_ns = ps_start_ns p, id_end_ns = ps_end_ns p, id_first = ps_first p, id_last = ps_last p,
                           id_manifest_sha = ps_manifest_sha p, id_manifest_bytes = ps_manifest_bytes p, id_manifest = m\<rparr>))))"

text \<open>Loading the rows of a catalog stream, which may itself end in an error.\<close>

fun load_rows :: "(bytes \<Rightarrow> hash) \<Rightarrow> (bytes \<Rightarrow> ready_manifest option) \<Rightarrow> int \<Rightarrow> input_descriptor list \<Rightarrow> raw_segment_publication list \<Rightarrow>
    replay_error option \<Rightarrow> replay_error + input_descriptor list" where
  "load_rows sha decode maxSegments inputs [] err = (case err of Some e \<Rightarrow> Inl e | None \<Rightarrow> Inr inputs)"
| "load_rows sha decode maxSegments inputs (p # ps) err =
     (if int (length inputs) = maxSegments then Inl ErrInputBound
      else (case NewInputDescriptor sha decode p of
        Inl e \<Rightarrow> Inl e
      | Inr d \<Rightarrow> load_rows sha decode maxSegments (inputs @ [d]) ps err))"

definition LoadInputs :: "(bytes \<Rightarrow> hash) \<Rightarrow> (bytes \<Rightarrow> ready_manifest option) \<Rightarrow> int \<Rightarrow> raw_segment_publication list \<Rightarrow> replay_error option \<Rightarrow>
    replay_error + input_descriptor list" where
  "LoadInputs sha decode maxSegments rows err =
     (if maxSegments < 1 then Inl ErrInvalidInput else load_rows sha decode maxSegments [] rows err)"

subsection \<open>What a descriptor guarantees\<close>

lemma hex_value_digit: "n < 16 \<Longrightarrow> hex_value (hex_digit n) = Some n"
proof -
  have "list_all (\<lambda>n. hex_value (hex_digit n) = Some n) [0 ..< 16]"
    by (simp add: upt_rec hex_value_def hex_digit_def less_eq_char_def)
  then show "n < 16 \<Longrightarrow> hex_value (hex_digit n) = Some n" by (simp add: list_all_iff)
qed

lemma hex_decode_encode: "hex_DecodeString (hex_EncodeToString bs) = Some bs"
proof (induction bs)
  case (Cons b bs)
  have "unat b < 256" using unat_bound [of b] by simp
  then have "unat b div 16 < 16" "unat b mod 16 < 16" by auto
  moreover have "16 * (unat b div 16) + unat b mod 16 = unat b" by (rule mult_div_mod_eq)
  ultimately show ?case using Cons by (simp add: hex_EncodeToString_def hex_value_digit del: of_nat_add of_nat_mult)
qed (simp add: hex_EncodeToString_def)

lemma length_hex_encode: "length (hex_EncodeToString bs) = 2 * length bs"
  by (induction bs) (simp_all add: hex_EncodeToString_def)

text \<open>A UUID has one canonical spelling, of 36 characters, and it is read back as itself.\<close>

lemma uuid_raw_dashed:
  assumes "length e = 32"
  shows "uuid_raw (take 8 e @ ''-'' @ take 4 (drop 8 e) @ ''-'' @ take 4 (drop 12 e) @ ''-'' @ take 4 (drop 16 e) @ ''-'' @ drop 20 e) = Some e"
proof -
  define a b c d t where "a = take 8 e" "b = take 4 (drop 8 e)" "c = take 4 (drop 12 e)" "d = take 4 (drop 16 e)" "t = drop 20 e"
  note defs = this
  have len: "length a = 8" "length b = 4" "length c = 4" "length d = 4" "length t = 12" using assms by (simp_all add: defs)
  have "e = a @ b @ c @ d @ t"
  proof -
    have "take 4 (drop (8 + 4 * k) e) @ drop (8 + 4 * Suc k) e = drop (8 + 4 * k) e" for k
      using append_take_drop_id [of 4 "drop (8 + 4 * k) e"] by (simp add: add.commute)
    from this [of 0] this [of 1] this [of 2] append_take_drop_id [of 8 e] show ?thesis by (simp add: defs)
  qed
  then show ?thesis unfolding defs(1-5) [symmetric] by (simp add: uuid_raw_def len nth_append)
qed

lemma parseCanonicalUUID_canonical:
  assumes "parseCanonicalUUID v = Inr (canonical_id, raw)"
  shows "length raw = 16 \<and> length canonical_id = 36 \<and> parseCanonicalUUID canonical_id = Inr (canonical_id, raw)"
proof -
  let ?e = "hex_EncodeToString raw"
  let ?c = "take 8 ?e @ ''-'' @ take 4 (drop 8 ?e) @ ''-'' @ take 4 (drop 12 ?e) @ ''-'' @ take 4 (drop 16 ?e) @ ''-'' @ drop 20 ?e"
  have r: "length raw = 16" "canonical_id = ?c"
    using assms by (auto simp: parseCanonicalUUID_def Let_def split: option.splits if_splits)
  then have e: "length ?e = 32" by (simp add: length_hex_encode)
  have "parseCanonicalUUID ?c = Inr (?c, raw)"
    unfolding parseCanonicalUUID_def uuid_raw_dashed [OF e] using r(1) by (simp add: hex_decode_encode Let_def)
  then show ?thesis using r e by simp
qed

definition descriptor_bounds :: "input_descriptor \<Rightarrow> bool" where
  "descriptor_bounds d \<longleftrightarrow> id_first d \<le> id_last d \<and> id_last d < 2 ^ 63"

text \<open>What binds a descriptor to its manifest and its row.\<close>

definition descriptor_bound :: "(bytes \<Rightarrow> hash) \<Rightarrow> (bytes \<Rightarrow> ready_manifest option) \<Rightarrow> input_descriptor \<Rightarrow> bool" where
  "descriptor_bound sha decode d \<longleftrightarrow>
     sha (id_manifest_bytes d) = id_manifest_sha d \<and> decode (id_manifest_bytes d) = Some (id_manifest d) \<and>
     parseCanonicalUUID (id_segment d) \<noteq> Inl ErrInvalidInput \<and> parseCanonicalUUID (id_epoch d) = Inr (id_epoch d, id_epoch_bytes d) \<and>
     rm_source (id_manifest d) = id_source d \<and> rm_channel (id_manifest d) = id_channel d \<and> rm_object (id_manifest d) = id_object d \<and>
     int (unat (mf_compressed (rm_segment (id_manifest d)))) = id_bytes d \<and> mf_compressed_sha (rm_segment (id_manifest d)) = id_sha d \<and>
     mf_first (rm_segment (id_manifest d)) = id_first d \<and> mf_last (rm_segment (id_manifest d)) = id_last d"

lemma NewInputDescriptor_sound:
  assumes "NewInputDescriptor sha decode p = Inr d"
  shows "descriptor_bounds d" "descriptor_bound sha decode d"
proof -
  obtain m epochBytes where row: "check_row sha p = None" and m: "decode (ps_manifest_bytes p) = Some m"
    and ident: "check_identity p m = Inr epochBytes" and man: "check_manifest p m = None"
    and d: "d = \<lparr>id_segment = ps_segment p, id_source = ps_source p, id_channel = ps_channel p, id_epoch = ps_epoch p,
       id_epoch_bytes = epochBytes, id_object = ps_object p, id_sha = ps_sha p, id_bytes = ps_bytes p,
       id_start_ns = ps_start_ns p, id_end_ns = ps_end_ns p, id_first = ps_first p, id_last = ps_last p,
       id_manifest_sha = ps_manifest_sha p, id_manifest_bytes = ps_manifest_bytes p, id_manifest = m\<rparr>"
    using assms by (auto simp: NewInputDescriptor_def split: option.splits sum.splits)
  have "ps_first p \<le> ps_last p" "ps_last p \<le> 0x7FFFFFFFFFFFFFFF" using man by (auto simp: check_manifest_def Let_def)
  then show "descriptor_bounds d" by (simp add: d descriptor_bounds_def word_le_nat_alt word_less_nat_alt)
  have "parseCanonicalUUID (ps_epoch p) = Inr (ps_epoch p, epochBytes)" "parseCanonicalUUID (ps_segment p) \<noteq> Inl ErrInvalidInput"
    using ident by (auto simp: check_identity_def split: sum.splits option.splits if_splits prod.splits)
  then show "descriptor_bound sha decode d"
    using row m man by (simp add: d descriptor_bound_def check_row_def check_manifest_def Let_def)
qed

lemma LoadInputs_sound:
  assumes "LoadInputs sha decode maxSegments rows err = Inr inputs"
  shows "list_all (\<lambda>d. descriptor_bounds d \<and> descriptor_bound sha decode d) inputs \<and> int (length inputs) \<le> maxSegments \<and> length inputs = length rows"
proof -
  have "load_rows sha decode maxSegments acc rows err = Inr inputs \<Longrightarrow> list_all (\<lambda>d. descriptor_bounds d \<and> descriptor_bound sha decode d) acc \<Longrightarrow>
      int (length acc) \<le> maxSegments \<Longrightarrow>
      list_all (\<lambda>d. descriptor_bounds d \<and> descriptor_bound sha decode d) inputs \<and> int (length inputs) \<le> maxSegments \<and>
      length inputs = length acc + length rows" for acc
  proof (induction rows arbitrary: acc)
    case (Cons p rows)
    then obtain d where d: "NewInputDescriptor sha decode p = Inr d" "load_rows sha decode maxSegments (acc @ [d]) rows err = Inr inputs"
      "int (length acc) \<noteq> maxSegments" by (auto split: if_splits sum.splits)
    from Cons.IH [OF d(2)] show ?case using Cons.prems(2,3) d(3) NewInputDescriptor_sound [OF d(1)] by simp
  qed (auto split: option.splits)
  from this [of "[]"] show ?thesis using assms by (auto simp: LoadInputs_def split: if_splits)
qed

end
