(* ===== verification/Replay.thy ===== *)
theory Replay
  imports Descriptor
begin

text \<open>
  The replaying half of \<open>src/replay/native.go\<close>: fetching and checking a segment,
  emitting its records with the discontinuities around them, and running through
  the epochs of a source.

  The object store is the parameter \<open>reader\<close>, which gives for a key what the code
  can see of \<open>Get\<close> and of the body it returns.  A function that takes an emitter is
  modelled by the events it emits while the emitter accepts them and the error it
  ends with; the callers fold their emitter over the events.  The workers of
  \<open>replayEpoch\<close> finish in any order: \<open>arrivals\<close> lists the indices of their results
  as they come in, and a result that waits for an index that never comes is the
  value \<open>None\<close>.  Cancellation of the context is left out.

  The lemmas show that the order in which the workers finish does not matter, and
  that every ordinal of an epoch is accounted for.
\<close>

subsection \<open>Events\<close>

definition EventRecord :: u8 where "EventRecord = 1"
definition EventDiscontinuity :: u8 where "EventDiscontinuity = 2"

definition DiscontinuityEpochBoundary :: u8 where "DiscontinuityEpochBoundary = 1"
definition DiscontinuityDisconnect :: u8 where "DiscontinuityDisconnect = 2"
definition DiscontinuityQuarantinedFrame :: u8 where "DiscontinuityQuarantinedFrame = 3"
definition DiscontinuityMissingSegment :: u8 where "DiscontinuityMissingSegment = 4"
definition DiscontinuityOrdinalGap :: u8 where "DiscontinuityOrdinalGap = 5"
definition DiscontinuityOrdinalOverlap :: u8 where "DiscontinuityOrdinalOverlap = 6"

lemmas discontinuity_kinds = DiscontinuityEpochBoundary_def DiscontinuityDisconnect_def DiscontinuityQuarantinedFrame_def
  DiscontinuityMissingSegment_def DiscontinuityOrdinalGap_def DiscontinuityOrdinalOverlap_def

definition IntegrityReasonNone :: u8 where "IntegrityReasonNone = 0"
definition IntegrityReasonObjectLength :: u8 where "IntegrityReasonObjectLength = 1"
definition IntegrityReasonObjectSHA256 :: u8 where "IntegrityReasonObjectSHA256 = 2"
definition IntegrityReasonFrame :: u8 where "IntegrityReasonFrame = 3"
definition IntegrityReasonRecord :: u8 where "IntegrityReasonRecord = 4"
definition IntegrityReasonRecordCount :: u8 where "IntegrityReasonRecordCount = 5"
definition IntegrityReasonIdentity :: u8 where "IntegrityReasonIdentity = 6"
definition IntegrityReasonOrdinalOrder :: u8 where "IntegrityReasonOrdinalOrder = 7"

record coordinate =
  co_received :: i64
  co_source :: string
  co_epoch_first :: i64
  co_epoch :: string
  co_arrival :: u64
  co_message :: u32

record discontinuity =
  dc_kind :: u8
  dc_reason :: u8
  dc_segment :: string
  dc_previous :: string
  dc_first :: u64
  dc_last :: u64
  dc_frame :: u32
  dc_offset :: u64

record event =
  ev_kind :: u8
  ev_order :: string
  ev_coord :: coordinate
  ev_record :: envelope
  ev_disc :: discontinuity

definition zero_disc :: discontinuity where
  "zero_disc = \<lparr>dc_kind = 0, dc_reason = 0, dc_segment = [], dc_previous = [], dc_first = 0, dc_last = 0, dc_frame = 0, dc_offset = 0\<rparr>"

record decoded_segment =
  ds_index :: nat
  ds_descriptor :: input_descriptor
  ds_records :: "envelope list"
  ds_disconnects :: "bool list"
  ds_failure :: "discontinuity option"
  ds_err :: "replay_error option"

subsection \<open>Fetching\<close>

text \<open>
  What \<open>Get\<close> returns: no such object, another error, a nil body, or a body with its
  bytes, how reading ends after them (\<open>None\<close> for the end of the file) and how
  closing ends.
\<close>

record object_body =
  ob_bytes :: bytes
  ob_end :: "string option"
  ob_close :: "string option"

datatype fetched = FetchNotFound | FetchError string | FetchNil | FetchBody object_body

definition segmentFailure :: "input_descriptor \<Rightarrow> u8 \<Rightarrow> u32 \<Rightarrow> u64 \<Rightarrow> discontinuity" where
  "segmentFailure d reason frame offset = \<lparr>dc_kind = DiscontinuityQuarantinedFrame, dc_reason = reason, dc_segment = id_segment d,
     dc_previous = [], dc_first = id_first d, dc_last = id_last d, dc_frame = frame, dc_offset = offset\<rparr>"

definition missingFailure :: "input_descriptor \<Rightarrow> discontinuity" where
  "missingFailure d = \<lparr>dc_kind = DiscontinuityMissingSegment, dc_reason = 0, dc_segment = id_segment d, dc_previous = [],
     dc_first = id_first d, dc_last = id_last d, dc_frame = 0, dc_offset = 0\<rparr>"

text \<open>\<open>Inr (Inl failure)\<close> is a discontinuity to emit, \<open>Inr (Inr data)\<close> the object.\<close>

definition readExactObject :: "(string \<Rightarrow> fetched) \<Rightarrow> input_descriptor \<Rightarrow> replay_error + discontinuity + bytes" where
  "readExactObject reader d =
     (case reader (id_object d) of
        FetchNotFound \<Rightarrow> Inr (Inl (missingFailure d))
      | FetchError err \<Rightarrow> Inl (ErrObject (id_segment d) err)
      | FetchNil \<Rightarrow> Inl (ErrObject (id_segment d) ''nil body'')
      | FetchBody body \<Rightarrow>
          let n = nat (id_bytes d) in
          if length (ob_bytes body) < n then
            (case ob_end body of
               None \<Rightarrow> Inr (Inl (segmentFailure d IntegrityReasonObjectLength 0 0))
             | Some err \<Rightarrow> Inl (ErrObject (id_segment d) err))
          else if length (ob_bytes body) > n then Inr (Inl (segmentFailure d IntegrityReasonObjectLength 0 0))
          else (case ob_end body of
               Some err \<Rightarrow> Inl (ErrObject (id_segment d) err)
             | None \<Rightarrow> (case ob_close body of
                 Some err \<Rightarrow> Inl (ErrObject (id_segment d) err)
               | None \<Rightarrow> Inr (Inr (ob_bytes body)))))"

definition validateRecordIdentity :: "input_descriptor \<Rightarrow> envelope \<Rightarrow> bool" where
  "validateRecordIdentity d r \<longleftrightarrow>
     \<not> (e_source r \<noteq> id_source d \<or> e_channel r \<noteq> id_channel d) \<and>
     (if rm_epoch_kind (id_manifest d) = ''connection'' then
        \<not> (\<not> o_valid (e_conn r) \<or> o_valid (e_poll r) \<or> o_value (e_conn r) \<noteq> id_epoch_bytes d)
      else if rm_epoch_kind (id_manifest d) = ''poll'' then
        \<not> (\<not> o_valid (e_poll r) \<or> o_valid (e_conn r) \<or> o_value (e_poll r) \<noteq> id_epoch_bytes d)
      else False)"

definition compareRecordCoordinate :: "envelope \<Rightarrow> envelope \<Rightarrow> int" where
  "compareRecordCoordinate l r = compare_then (e_arrival l) (e_arrival r) (compare_then (e_message l) (e_message r) 0)"

text \<open>The loop over the decoded records: the reason they are refused for, or which of them are disconnects.\<close>

fun check_records :: "(bytes \<Rightarrow> hash) \<Rightarrow> input_descriptor \<Rightarrow> envelope option \<Rightarrow> envelope list \<Rightarrow> u8 + bool list" where
  "check_records sha d prev [] = Inr []"
| "check_records sha d prev (r # rs) =
     (if \<not> validateRecordIdentity d r then Inl IntegrityReasonIdentity
      else if (case prev of None \<Rightarrow> False | Some p \<Rightarrow> compareRecordCoordinate p r \<ge> 0) then Inl IntegrityReasonOrdinalOrder
      else (case (if e_kind r = RecordKindControl then
                    (case ControlRecordFromSegment sha r of
                       Inl err \<Rightarrow> Inl IntegrityReasonRecord
                     | Inr control \<Rightarrow> Inr (o_value (v_control control) = ControlDisconnect))
                  else Inr False) of
        Inl reason \<Rightarrow> Inl reason
      | Inr disconnect \<Rightarrow>
          (case check_records sha d (Some r) rs of Inl reason \<Rightarrow> Inl reason | Inr later \<Rightarrow> Inr (disconnect # later))))"

definition decode_checked :: "(bytes \<Rightarrow> hash) \<Rightarrow> zstd_lib \<Rightarrow> input_descriptor \<Rightarrow> bytes \<Rightarrow> discontinuity + envelope list \<times> bool list" where
  "decode_checked sha z d body =
     (if sha body \<noteq> id_sha d then Inl (segmentFailure d IntegrityReasonObjectSHA256 0 0)
      else (case segment_Decode sha z body (Some (rm_segment (id_manifest d))) of
        (decoded, Some (FrameError frame offset err)) \<Rightarrow> Inl (segmentFailure d IntegrityReasonFrame frame offset)
      | (decoded, Some other) \<Rightarrow> Inl (segmentFailure d IntegrityReasonFrame 0 0)
      | (decoded, None) \<Rightarrow>
          let rs = dr_records decoded in
          if of_nat (length rs) \<noteq> mf_count (rm_segment (id_manifest d)) then Inl (segmentFailure d IntegrityReasonRecordCount 0 0)
          else (case check_records sha d None rs of
            Inl reason \<Rightarrow> Inl (segmentFailure d reason 0 0)
          | Inr disconnects \<Rightarrow>
              if rs = [] \<or> e_arrival (hd rs) \<noteq> id_first d \<or> e_arrival (last rs) \<noteq> id_last d
              then Inl (segmentFailure d IntegrityReasonOrdinalOrder 0 0)
              else Inr (rs, disconnects))))"

definition validateAndDecodeSegment :: "(bytes \<Rightarrow> hash) \<Rightarrow> zstd_lib \<Rightarrow> (string \<Rightarrow> fetched) \<Rightarrow> nat \<Rightarrow> input_descriptor \<Rightarrow> decoded_segment" where
  "validateAndDecodeSegment sha z reader index d =
     (let result = \<lparr>ds_index = index, ds_descriptor = d, ds_records = [], ds_disconnects = [], ds_failure = None, ds_err = None\<rparr> in
      case readExactObject reader d of
        Inl err \<Rightarrow> result\<lparr>ds_err := Some err\<rparr>
      | Inr (Inl failure) \<Rightarrow> result\<lparr>ds_failure := Some failure\<rparr>
      | Inr (Inr body) \<Rightarrow>
          (case decode_checked sha z d body of
             Inl failure \<Rightarrow> result\<lparr>ds_failure := Some failure\<rparr>
           | Inr (rs, disconnects) \<Rightarrow> result\<lparr>ds_records := rs, ds_disconnects := disconnects\<rparr>))"

subsection \<open>Emitting a segment\<close>

definition discontinuityEvent :: "epoch_plan \<Rightarrow> input_descriptor \<Rightarrow> discontinuity \<Rightarrow> i64 \<Rightarrow> u64 \<Rightarrow> u32 \<Rightarrow> event" where
  "discontinuityEvent epoch d dc receivedNS arrival message =
     \<lparr>ev_kind = EventDiscontinuity, ev_order = [],
      ev_coord = \<lparr>co_received = receivedNS, co_source = id_source d, co_epoch_first = ep_first_ns epoch, co_epoch = id_epoch d,
        co_arrival = arrival, co_message = message\<rparr>, ev_record = zero_envelope, ev_disc = dc\<rparr>"

definition gap_disc :: "u64 \<Rightarrow> u64 \<Rightarrow> discontinuity" where
  "gap_disc a b = zero_disc\<lparr>dc_kind := DiscontinuityOrdinalGap, dc_first := a, dc_last := b\<rparr>"

definition record_event :: "epoch_plan \<Rightarrow> envelope \<Rightarrow> event" where
  "record_event epoch r =
     \<lparr>ev_kind = EventRecord, ev_order = [],
      ev_coord = \<lparr>co_received = e_received r, co_source = ep_source epoch, co_epoch_first = ep_first_ns epoch, co_epoch = ep_epoch epoch,
        co_arrival = e_arrival r, co_message = e_message r\<rparr>, ev_record = r, ev_disc = zero_disc\<rparr>"

definition disconnect_disc :: "input_descriptor \<Rightarrow> envelope \<Rightarrow> discontinuity" where
  "disconnect_disc d r = zero_disc\<lparr>dc_kind := DiscontinuityDisconnect, dc_segment := id_segment d,
     dc_first := e_arrival r, dc_last := e_arrival r\<rparr>"

fun emit_records :: "epoch_plan \<Rightarrow> input_descriptor \<Rightarrow> u64 \<Rightarrow> u64 option \<Rightarrow> (envelope \<times> bool) list \<Rightarrow> event list" where
  "emit_records epoch d cursor lastArrival [] = []"
| "emit_records epoch d cursor lastArrival ((r, disconnect) # rest) =
     (if e_arrival r < cursor then emit_records epoch d cursor lastArrival rest
      else let gapStart = (case lastArrival of None \<Rightarrow> cursor | Some a \<Rightarrow> a + 1) in
        (if e_arrival r > gapStart
         then [discontinuityEvent epoch d (gap_disc gapStart (e_arrival r - 1)) (e_received r) gapStart 0] else []) @
        [record_event epoch r] @
        (if disconnect then [discontinuityEvent epoch d (disconnect_disc d r) (e_received r) (e_arrival r) (e_message r)] else []) @
        emit_records epoch d cursor (Some (e_arrival r)) rest)"

definition emitDecodedSegment :: "epoch_plan \<Rightarrow> decoded_segment \<Rightarrow> u64 \<Rightarrow> event list \<times> u64" where
  "emitDecodedSegment epoch decoded nextOrdinal =
     (let d = ds_descriptor decoded;
          overlap = (if id_first d < nextOrdinal then
            [discontinuityEvent epoch d (zero_disc\<lparr>dc_kind := DiscontinuityOrdinalOverlap, dc_reason := IntegrityReasonOrdinalOrder,
               dc_segment := id_segment d, dc_first := id_first d, dc_last := min (id_last d) (nextOrdinal - 1)\<rparr>)
               (id_start_ns d) (id_first d) 0] else []);
          gap = (if id_first d > nextOrdinal then
            [discontinuityEvent epoch d (gap_disc nextOrdinal (id_first d - 1)) (id_start_ns d) nextOrdinal 0] else []);
          cursor = (if id_first d > nextOrdinal then id_first d else nextOrdinal)
      in (case ds_failure decoded of
            Some failure \<Rightarrow>
              (overlap @ gap @ [discontinuityEvent epoch d failure (id_start_ns d) (id_first d) 0],
               if id_last d \<ge> nextOrdinal then id_last d + 1 else nextOrdinal)
          | None \<Rightarrow>
              if id_last d < cursor then (overlap @ gap, nextOrdinal)
              else (overlap @ gap @ emit_records epoch d cursor None (zip (ds_records decoded) (ds_disconnects decoded)), id_last d + 1)))"

subsection \<open>Epochs and sources\<close>

text \<open>
  Waiting for the result of index \<open>next\<close>: from the results kept aside, or from the
  channel, keeping aside the others.  The result carries what remains of both.
\<close>

fun await :: "(nat \<Rightarrow> decoded_segment) \<Rightarrow> (nat \<times> decoded_segment) list \<Rightarrow> nat \<Rightarrow> nat list \<Rightarrow>
    (decoded_segment \<times> (nat \<times> decoded_segment) list \<times> nat list) option" where
  "await work pending next arrivals =
     (case go_get pending next of
        Some result \<Rightarrow> Some (result, go_delete next pending, arrivals)
      | None \<Rightarrow>
          (case arrivals of
             [] \<Rightarrow> None
           | i # rest \<Rightarrow>
               if i \<noteq> next then await work (go_put i (work i) pending) next rest
               else Some (work i, go_delete next pending, rest)))"

declare await.simps [simp del]

fun epoch_loop :: "epoch_plan \<Rightarrow> (nat \<Rightarrow> decoded_segment) \<Rightarrow> (nat \<times> decoded_segment) list \<Rightarrow> u64 \<Rightarrow> nat list \<Rightarrow> nat list \<Rightarrow>
    (event list \<times> replay_error option) option" where
  "epoch_loop epoch work pending nextOrdinal arrivals [] = Some ([], None)"
| "epoch_loop epoch work pending nextOrdinal arrivals (next # rest) =
     (case await work pending next arrivals of
        None \<Rightarrow> None
      | Some (result, pending', arrivals') \<Rightarrow>
          (case ds_err result of
             Some err \<Rightarrow> Some ([], Some err)
           | None \<Rightarrow>
               (case emitDecodedSegment epoch result nextOrdinal of (events, nextOrdinal') \<Rightarrow>
                  (case epoch_loop epoch work pending' nextOrdinal' arrivals' rest of
                     None \<Rightarrow> None
                   | Some (later, err) \<Rightarrow> Some (events @ later, err)))))"

definition replayEpoch :: "(bytes \<Rightarrow> hash) \<Rightarrow> zstd_lib \<Rightarrow> (string \<Rightarrow> fetched) \<Rightarrow> nat list \<Rightarrow> epoch_plan \<Rightarrow> (event list \<times> replay_error option) option" where
  "replayEpoch sha z reader arrivals epoch =
     epoch_loop epoch (\<lambda>i. validateAndDecodeSegment sha z reader i (ep_segments epoch ! i)) [] 1 arrivals [0 ..< length (ep_segments epoch)]"

definition boundary_event :: "source_plan \<Rightarrow> epoch_plan \<Rightarrow> epoch_plan \<Rightarrow> event" where
  "boundary_event plan previous epoch =
     (let first = hd (ep_segments epoch) in
      \<lparr>ev_kind = EventDiscontinuity, ev_order = [],
       ev_coord = \<lparr>co_received = ep_first_ns epoch, co_source = sp_source plan, co_epoch_first = ep_first_ns epoch,
         co_epoch = ep_epoch epoch, co_arrival = id_first first, co_message = 0\<rparr>,
       ev_record = zero_envelope,
       ev_disc = zero_disc\<lparr>dc_kind := DiscontinuityEpochBoundary, dc_previous := ep_epoch previous,
         dc_first := id_first first, dc_last := id_first first\<rparr>\<rparr>)"

text \<open>The schedule gives, for each epoch, the order in which its segments are finished.\<close>

fun replay_epochs :: "(bytes \<Rightarrow> hash) \<Rightarrow> zstd_lib \<Rightarrow> (string \<Rightarrow> fetched) \<Rightarrow> (epoch_plan \<Rightarrow> nat list) \<Rightarrow> source_plan \<Rightarrow> epoch_plan option \<Rightarrow>
    epoch_plan list \<Rightarrow> (event list \<times> replay_error option) option" where
  "replay_epochs sha z reader sched plan previous [] = Some ([], None)"
| "replay_epochs sha z reader sched plan previous (epoch # rest) =
     (let boundary = (case previous of None \<Rightarrow> [] | Some p \<Rightarrow> [boundary_event plan p epoch]) in
      case replayEpoch sha z reader (sched epoch) epoch of
        None \<Rightarrow> None
      | Some (events, Some err) \<Rightarrow> Some (boundary @ events, Some err)
      | Some (events, None) \<Rightarrow>
          (case replay_epochs sha z reader sched plan (Some epoch) rest of
             None \<Rightarrow> None
           | Some (later, err) \<Rightarrow> Some (boundary @ events @ later, err)))"

definition replaySourcePlan :: "(bytes \<Rightarrow> hash) \<Rightarrow> zstd_lib \<Rightarrow> (string \<Rightarrow> fetched) \<Rightarrow> (epoch_plan \<Rightarrow> nat list) \<Rightarrow> source_plan \<Rightarrow>
    (event list \<times> replay_error option) option" where
  "replaySourcePlan sha z reader sched plan = replay_epochs sha z reader sched plan None (sp_epochs plan)"

subsection \<open>The order in which the workers finish\<close>

definition available :: "(nat \<times> decoded_segment) list \<Rightarrow> nat list \<Rightarrow> nat set" where
  "available pending arrivals = {i. go_get pending i \<noteq> None} \<union> set arrivals"

definition genuine :: "(nat \<Rightarrow> decoded_segment) \<Rightarrow> (nat \<times> decoded_segment) list \<Rightarrow> bool" where
  "genuine work pending \<longleftrightarrow> wf_map pending \<and> (\<forall>i r. go_get pending i = Some r \<longrightarrow> r = work i)"

lemma await_next:
  assumes "next \<in> available pending arrivals" "genuine work pending"
  shows "\<exists>pending' arrivals'. await work pending next arrivals = Some (work next, pending', arrivals') \<and>
    genuine work pending' \<and> available pending arrivals - {next} \<subseteq> available pending' arrivals'"
  using assms
proof (induction arrivals arbitrary: pending)
  case Nil
  then obtain r where "go_get pending next = Some r" by (auto simp: available_def)
  then show ?case using Nil by (subst await.simps) (auto simp: genuine_def available_def split: if_splits)
next
  case (Cons i arrivals)
  consider r where "go_get pending next = Some r" | "go_get pending next = None" "i = next" | "go_get pending next = None" "i \<noteq> next"
    by fastforce
  then show ?case
  proof cases
    case 1
    then show ?thesis using Cons.prems by (subst await.simps) (auto simp: genuine_def available_def split: if_splits)
  next
    case 2
    then show ?thesis using Cons.prems by (subst await.simps) (auto simp: genuine_def available_def split: if_splits)
  next
    case 3
    have g: "genuine work (go_put i (work i) pending)" using Cons.prems(2) by (auto simp: genuine_def split: if_splits)
    have "next \<in> available (go_put i (work i) pending) arrivals" using Cons.prems(1) 3 by (auto simp: available_def)
    from Cons.IH [OF this g] obtain p a where
      "await work (go_put i (work i) pending) next arrivals = Some (work next, p, a)" "genuine work p"
      "available (go_put i (work i) pending) arrivals - {next} \<subseteq> available p a" by blast
    moreover have "available pending (i # arrivals) \<subseteq> available (go_put i (work i) pending) arrivals"
      by (auto simp: available_def)
    ultimately show ?thesis using 3 by (subst await.simps) auto
  qed
qed

text \<open>What the loop does with every result at hand.\<close>

fun epoch_events :: "epoch_plan \<Rightarrow> (nat \<Rightarrow> decoded_segment) \<Rightarrow> u64 \<Rightarrow> nat list \<Rightarrow> event list \<times> replay_error option" where
  "epoch_events epoch work n [] = ([], None)"
| "epoch_events epoch work n (i # rest) =
     (case ds_err (work i) of
        Some err \<Rightarrow> ([], Some err)
      | None \<Rightarrow> (case emitDecodedSegment epoch (work i) n of (events, n') \<Rightarrow>
          (case epoch_events epoch work n' rest of (later, err) \<Rightarrow> (events @ later, err))))"

lemma epoch_loop_events:
  assumes "set todo \<subseteq> available pending arrivals" "distinct todo" "genuine work pending"
  shows "epoch_loop epoch work pending n arrivals todo = Some (epoch_events epoch work n todo)"
  using assms
proof (induction todo arbitrary: pending n arrivals)
  case (Cons i todo)
  then have "i \<in> available pending arrivals" by simp
  from await_next [OF this Cons.prems(3)] obtain p a where
    aw: "await work pending i arrivals = Some (work i, p, a)" and g: "genuine work p"
    and av: "available pending arrivals - {i} \<subseteq> available p a" by blast
  have "set todo \<subseteq> available p a" using Cons.prems(1,2) av by auto
  with Cons.IH [OF this _ g] Cons.prems(2) aw show ?case by (auto split: option.splits prod.splits)
qed simp

definition segment_results :: "(bytes \<Rightarrow> hash) \<Rightarrow> zstd_lib \<Rightarrow> (string \<Rightarrow> fetched) \<Rightarrow> epoch_plan \<Rightarrow> nat \<Rightarrow> decoded_segment" where
  "segment_results sha z reader epoch i = validateAndDecodeSegment sha z reader i (ep_segments epoch ! i)"

lemma replayEpoch_events:
  assumes "{0 ..< length (ep_segments epoch)} \<subseteq> set arrivals"
  shows "replayEpoch sha z reader arrivals epoch =
    Some (epoch_events epoch (segment_results sha z reader epoch) 1 [0 ..< length (ep_segments epoch)])"
  unfolding replayEpoch_def segment_results_def
  by (rule epoch_loop_events) (use assms in \<open>auto simp: available_def genuine_def\<close>)

definition complete_schedule :: "(epoch_plan \<Rightarrow> nat list) \<Rightarrow> bool" where
  "complete_schedule sched \<longleftrightarrow> (\<forall>epoch. mset (sched epoch) = mset [0 ..< length (ep_segments epoch)])"

lemma complete_covers: "complete_schedule sched \<Longrightarrow> {0 ..< length (ep_segments epoch)} \<subseteq> set (sched epoch)"
  unfolding complete_schedule_def by (metis atLeastLessThan_upt mset_eq_setD order_refl)

lemma replay_epochs_schedule:
  assumes "complete_schedule s1" "complete_schedule s2"
  shows "replay_epochs sha z reader s1 plan previous epochs = replay_epochs sha z reader s2 plan previous epochs \<and>
    replay_epochs sha z reader s1 plan previous epochs \<noteq> None"
proof (induction epochs arbitrary: previous)
  case (Cons epoch epochs)
  have "replayEpoch sha z reader (s1 epoch) epoch = replayEpoch sha z reader (s2 epoch) epoch" "replayEpoch sha z reader (s1 epoch) epoch \<noteq> None"
    using assms complete_covers replayEpoch_events by (metis, metis option.distinct(1))
  then show ?case using Cons [of "Some epoch"] by (auto simp: Let_def split: option.splits prod.splits)
qed simp

text \<open>
  Workers never change a replay.  Whatever the order in which the concurrent
  workers finish the segments of each epoch, the replay of a source neither waits
  for a result that does not come nor emits anything different: the same events in
  the same order, ending with the same error if there is one.
\<close>

theorem replay_schedule_independent:
  assumes "complete_schedule s1" "complete_schedule s2"
  shows "\<exists>events err. replaySourcePlan sha z reader s1 plan = Some (events, err) \<and> replaySourcePlan sha z reader s2 plan = Some (events, err)"
  using replay_epochs_schedule [OF assms, of sha z reader plan None "sp_epochs plan"]
  unfolding replaySourcePlan_def by (metis option.exhaust surj_pair)

subsection \<open>What a checked segment holds\<close>

definition record_key :: "envelope \<Rightarrow> u64 \<times> u32" where
  "record_key r = (e_arrival r, e_message r)"

lemma compareRecordCoordinate_less: "compareRecordCoordinate l r < 0 \<longleftrightarrow> record_key l < record_key r"
  by (auto simp: compareRecordCoordinate_def compare_then_le record_key_def less_prod_def)

lemma check_records_sorted:
  "check_records sha d prev rs = Inr flags \<Longrightarrow>
   length flags = length rs \<and> sorted_wrt (<) (map record_key rs) \<and>
   (\<forall>p. prev = Some p \<longrightarrow> (\<forall>r\<in>set rs. record_key p < record_key r))"
proof (induction rs arbitrary: prev flags)
  case (Cons r rs)
  obtain later where l: "check_records sha d (Some r) rs = Inr later" and flags: "length flags = Suc (length later)"
    using Cons.prems by (auto split: if_splits sum.splits)
  have p: "record_key p < record_key r" if "prev = Some p" for p
    using Cons.prems that compareRecordCoordinate_less [of p r] by (auto split: if_splits)
  from Cons.IH [OF l] show ?case using p flags by (auto dest: order_less_trans)
qed simp

definition failure_of :: "input_descriptor \<Rightarrow> discontinuity \<Rightarrow> bool" where
  "failure_of d f \<longleftrightarrow> (dc_kind f = DiscontinuityQuarantinedFrame \<or> dc_kind f = DiscontinuityMissingSegment) \<and>
     dc_first f = id_first d \<and> dc_last f = id_last d"

definition checked :: "decoded_segment \<Rightarrow> bool" where
  "checked ds \<longleftrightarrow>
     (case ds_failure ds of
        Some f \<Rightarrow> failure_of (ds_descriptor ds) f
      | None \<Rightarrow> ds_records ds \<noteq> [] \<and> length (ds_disconnects ds) = length (ds_records ds) \<and>
          sorted_wrt (<) (map record_key (ds_records ds)) \<and>
          e_arrival (hd (ds_records ds)) = id_first (ds_descriptor ds) \<and> e_arrival (last (ds_records ds)) = id_last (ds_descriptor ds))"

lemma failure_of_simps [simp]: "failure_of d (segmentFailure d reason frame offset)" "failure_of d (missingFailure d)"
  by (simp_all add: failure_of_def segmentFailure_def missingFailure_def)

lemma readExactObject_failure: "readExactObject reader d = Inr (Inl f) \<Longrightarrow> failure_of d f"
  by (auto simp: readExactObject_def Let_def split: fetched.splits if_splits option.splits)

lemma decode_checked_cases:
  "decode_checked sha z d body = Inl f \<Longrightarrow> failure_of d f"
  "decode_checked sha z d body = Inr (rs, flags) \<Longrightarrow>
   rs \<noteq> [] \<and> e_arrival (hd rs) = id_first d \<and> e_arrival (last rs) = id_last d \<and> check_records sha d None rs = Inr flags"
  by (auto simp: decode_checked_def Let_def split: if_splits prod.splits option.splits decode_error.splits sum.splits)

lemma validate_checked:
  assumes "ds_err (validateAndDecodeSegment sha z reader i d) = None"
  shows "checked (validateAndDecodeSegment sha z reader i d)"
proof -
  consider f where "readExactObject reader d = Inr (Inl f)"
    | body f where "readExactObject reader d = Inr (Inr body)" "decode_checked sha z d body = Inl f"
    | body rs flags where "readExactObject reader d = Inr (Inr body)" "decode_checked sha z d body = Inr (rs, flags)"
    using assms unfolding validateAndDecodeSegment_def by (auto simp: Let_def split: sum.splits)
  then show ?thesis
  proof cases
    case 1
    then show ?thesis using readExactObject_failure by (simp add: validateAndDecodeSegment_def checked_def Let_def)
  next
    case 2
    then show ?thesis using decode_checked_cases(1) by (simp add: validateAndDecodeSegment_def checked_def Let_def)
  next
    case 3
    then show ?thesis
      using decode_checked_cases(2) [OF 3(2)] check_records_sorted [of sha d None rs flags]
      by (simp add: validateAndDecodeSegment_def checked_def Let_def)
  qed
qed

lemma validate_descriptor [simp]: "ds_descriptor (validateAndDecodeSegment sha z reader i d) = d"
  by (auto simp: validateAndDecodeSegment_def Let_def split: sum.splits)

subsection \<open>Every ordinal is accounted for\<close>

text \<open>The ordinals an event accounts for: of a record its own, of a gap or a lost segment the whole range.\<close>

definition covered :: "event \<Rightarrow> nat set" where
  "covered ev =
     (if ev_kind ev = EventRecord then {unat (co_arrival (ev_coord ev))}
      else if dc_kind (ev_disc ev) \<in> {DiscontinuityOrdinalGap, DiscontinuityQuarantinedFrame, DiscontinuityMissingSegment}
      then {unat (dc_first (ev_disc ev)) .. unat (dc_last (ev_disc ev))} else {})"

definition covers :: "event list \<Rightarrow> nat set" where
  "covers events = (\<Union>ev\<in>set events. covered ev)"

lemma covers_simps [simp]: "covers [] = {}" "covers (ev # es) = covered ev \<union> covers es" "covers (xs @ ys) = covers xs \<union> covers ys"
  by (auto simp: covers_def)

lemma covered_simps [simp]:
  "covered (record_event epoch r) = {unat (e_arrival r)}"
  "covered (discontinuityEvent epoch d (gap_disc a b) ns arr msg) = {unat a .. unat b}"
  "covered (discontinuityEvent epoch d (disconnect_disc d r) ns arr msg) = {}"
  "failure_of d f \<Longrightarrow> covered (discontinuityEvent epoch d f ns arr msg) = {unat (id_first d) .. unat (id_last d)}"
  by (auto simp: covered_def record_event_def discontinuityEvent_def gap_disc_def disconnect_disc_def zero_disc_def failure_of_def
      EventRecord_def EventDiscontinuity_def discontinuity_kinds)

text \<open>A record or a gap, as the range of ordinals it stands for, and the order in which such events must follow each other.\<close>

definition is_span :: "event \<Rightarrow> bool" where
  "is_span ev \<longleftrightarrow> ev_kind ev = EventRecord \<or> dc_kind (ev_disc ev) = DiscontinuityOrdinalGap"

definition span_low :: "event \<Rightarrow> nat" where
  "span_low ev = unat (if ev_kind ev = EventRecord then co_arrival (ev_coord ev) else dc_first (ev_disc ev))"

definition span_high :: "event \<Rightarrow> nat" where
  "span_high ev = unat (if ev_kind ev = EventRecord then co_arrival (ev_coord ev) else dc_last (ev_disc ev))"

definition follows :: "event \<Rightarrow> event \<Rightarrow> bool" where
  "follows a b \<longleftrightarrow> span_high a < span_low b \<or>
     ev_kind a = EventRecord \<and> ev_kind b = EventRecord \<and> co_arrival (ev_coord a) = co_arrival (ev_coord b) \<and>
     co_message (ev_coord a) < co_message (ev_coord b)"

lemma span_simps [simp]:
  "is_span (record_event epoch r)" "is_span (discontinuityEvent epoch d (gap_disc a b) ns arr msg)"
  "\<not> is_span (discontinuityEvent epoch d (disconnect_disc d r) ns arr msg)"
  "failure_of d f \<Longrightarrow> \<not> is_span (discontinuityEvent epoch d f ns arr msg)"
  "span_low (record_event epoch r) = unat (e_arrival r)" "span_high (record_event epoch r) = unat (e_arrival r)"
  "span_low (discontinuityEvent epoch d (gap_disc a b) ns arr msg) = unat a"
  "span_high (discontinuityEvent epoch d (gap_disc a b) ns arr msg) = unat b"
  by (auto simp: is_span_def span_low_def span_high_def record_event_def discontinuityEvent_def gap_disc_def disconnect_disc_def
      zero_disc_def failure_of_def EventRecord_def EventDiscontinuity_def discontinuity_kinds)

lemma follows_high: "span_high a < span_low b \<Longrightarrow> follows a b" by (simp add: follows_def)

lemma record_key_less: "record_key r < record_key s \<longleftrightarrow> e_arrival r < e_arrival s \<or> e_arrival r = e_arrival s \<and> e_message r < e_message s"
  by (auto simp: record_key_def less_prod_def)

lemma follows_records: "record_key r < record_key s \<Longrightarrow> follows (record_event epoch r) (record_event epoch s)"
  by (auto simp: follows_def record_key_less word_less_nat_alt record_event_def span_high_def span_low_def)

text \<open>The next ordinal the record loop expects, and what it may assume of the records that remain.\<close>

definition expected :: "u64 \<Rightarrow> u64 option \<Rightarrow> u64" where
  "expected cursor lastArrival = (case lastArrival of None \<Rightarrow> cursor | Some a \<Rightarrow> a + 1)"

definition resumes :: "u64 \<Rightarrow> u64 option \<Rightarrow> (envelope \<times> bool) list \<Rightarrow> bool" where
  "resumes cursor lastArrival ps \<longleftrightarrow> sorted_wrt (<) (map (record_key \<circ> fst) ps) \<and> list_all (\<lambda>p. e_arrival (fst p) < 2 ^ 63) ps \<and>
     (\<forall>a. lastArrival = Some a \<longrightarrow> cursor \<le> a \<and> a < 2 ^ 63 \<and> list_all (\<lambda>p. a \<le> e_arrival (fst p)) ps)"

lemma unat_succ_small: "(a :: u64) < 2 ^ 63 \<Longrightarrow> unat (a + 1) = Suc (unat a)"
proof -
  assume "a < 2 ^ 63"
  then have "a \<noteq> - 1" by (auto simp: word_less_nat_alt unsigned_minus_1_eq_mask mask_eq_exp_minus_1)
  then show ?thesis using word_succ_no_wrap [of a] by simp
qed

lemma resumes_Cons:
  assumes "resumes cursor lastArrival ((r, f) # ps)"
  shows "e_arrival r < cursor \<Longrightarrow> lastArrival = None \<and> resumes cursor None ps"
    "cursor \<le> e_arrival r \<Longrightarrow> resumes cursor (Some (e_arrival r)) ps"
    "cursor \<le> e_arrival r \<Longrightarrow> unat (expected cursor lastArrival) \<le> Suc (unat (e_arrival r))"
    "e_arrival r < 2 ^ 63" "\<And>p. p \<in> set ps \<Longrightarrow> record_key r < record_key (fst p)"
proof -
  show "e_arrival r < cursor \<Longrightarrow> lastArrival = None \<and> resumes cursor None ps"
    using assms by (cases lastArrival) (auto simp: resumes_def)
  show "cursor \<le> e_arrival r \<Longrightarrow> resumes cursor (Some (e_arrival r)) ps"
    using assms by (auto simp: resumes_def list_all_iff record_key_less)
  show "cursor \<le> e_arrival r \<Longrightarrow> unat (expected cursor lastArrival) \<le> Suc (unat (e_arrival r))"
    using assms by (cases lastArrival) (auto simp: resumes_def expected_def word_le_nat_alt unat_succ_small)
  show "e_arrival r < 2 ^ 63" "\<And>p. p \<in> set ps \<Longrightarrow> record_key r < record_key (fst p)"
    using assms by (auto simp: resumes_def)
qed

text \<open>The events of one record: the gap before it if there is one, the record, and the disconnect it reports.\<close>

definition record_events :: "epoch_plan \<Rightarrow> input_descriptor \<Rightarrow> u64 \<Rightarrow> envelope \<Rightarrow> bool \<Rightarrow> event list" where
  "record_events epoch d gapStart r disconnect =
     (if e_arrival r > gapStart
      then [discontinuityEvent epoch d (gap_disc gapStart (e_arrival r - 1)) (e_received r) gapStart 0] else []) @
     [record_event epoch r] @
     (if disconnect then [discontinuityEvent epoch d (disconnect_disc d r) (e_received r) (e_arrival r) (e_message r)] else [])"

lemma emit_records_Cons:
  "emit_records epoch d cursor lastArrival ((r, f) # ps) =
     (if e_arrival r < cursor then emit_records epoch d cursor lastArrival ps
      else record_events epoch d (expected cursor lastArrival) r f @ emit_records epoch d cursor (Some (e_arrival r)) ps)"
  by (simp add: record_events_def expected_def Let_def)

lemma record_events_spans:
  assumes "ev \<in> set (filter is_span (record_events epoch d g r f))"
  shows "ev = record_event epoch r \<or> span_low ev = unat g \<and> unat g < unat (e_arrival r) \<and> span_high ev < unat (e_arrival r)"
proof -
  have "unat (e_arrival r - 1) < unat (e_arrival r)" if "g < e_arrival r"
    using that by (simp add: unat_sub_no_wrap word_le_nat_alt word_less_nat_alt)
  then show ?thesis
    using assms by (auto simp: record_events_def word_less_nat_alt split: if_splits)
qed

lemma record_events_covers:
  assumes "unat g \<le> Suc (unat (e_arrival r))"
  shows "{..< unat g} \<union> covers (record_events epoch d g r f) = {..< Suc (unat (e_arrival r))}"
proof (cases "g < e_arrival r")
  case True
  then have "unat (e_arrival r - 1) = unat (e_arrival r) - 1" "unat g < unat (e_arrival r)"
    by (auto simp: unat_sub_no_wrap word_le_nat_alt word_less_nat_alt)
  then show ?thesis using True by (auto simp: record_events_def)
next
  case False
  then show ?thesis using assms by (auto simp: record_events_def word_less_nat_alt not_less)
qed

lemma emit_records_spans:
  assumes "resumes cursor lastArrival ps" "ev \<in> set (filter is_span (emit_records epoch d cursor lastArrival ps))"
  shows "unat cursor \<le> span_low ev \<and> (\<exists>p\<in>set ps. span_high ev \<le> unat (e_arrival (fst p))) \<and>
    ((\<exists>p\<in>set ps. ev = record_event epoch (fst p)) \<or> unat (expected cursor lastArrival) \<le> span_low ev)"
  using assms
proof (induction ps arbitrary: lastArrival)
  case (Cons p ps)
  obtain r f where p: "p = (r, f)" by fastforce
  note res = resumes_Cons [OF Cons.prems(1) [unfolded p]]
  show ?case
  proof (cases "e_arrival r < cursor")
    case True
    then have "lastArrival = None" "resumes cursor None ps" using res(1) by auto
    then show ?thesis using Cons.IH [of None] Cons.prems(2) True unfolding p emit_records_Cons by auto
  next
    case False
    then have c: "cursor \<le> e_arrival r" by simp
    have low: "unat cursor \<le> unat (expected cursor lastArrival)"
      using Cons.prems(1) by (cases lastArrival) (auto simp: expected_def resumes_def unat_succ_small word_le_nat_alt)
    have "ev \<in> set (filter is_span (record_events epoch d (expected cursor lastArrival) r f)) \<or>
        ev \<in> set (filter is_span (emit_records epoch d cursor (Some (e_arrival r)) ps))"
      using Cons.prems(2) False unfolding p emit_records_Cons by auto
    then show ?thesis
    proof
      assume "ev \<in> set (filter is_span (record_events epoch d (expected cursor lastArrival) r f))"
      then show ?thesis using record_events_spans [of ev epoch d "expected cursor lastArrival" r f] c low
        by (auto simp: p word_le_nat_alt)
    next
      assume "ev \<in> set (filter is_span (emit_records epoch d cursor (Some (e_arrival r)) ps))"
      from Cons.IH [OF res(2) [OF c] this] show ?thesis
        using res(3) [OF c] by (auto simp: p expected_def unat_succ_small [OF res(4)])
    qed
  qed
qed simp

lemma emit_records_sorted:
  "resumes cursor lastArrival ps \<Longrightarrow> sorted_wrt follows (filter is_span (emit_records epoch d cursor lastArrival ps))"
proof (induction ps arbitrary: lastArrival)
  case (Cons p ps)
  obtain r f where p: "p = (r, f)" by fastforce
  note res = resumes_Cons [OF Cons.prems [unfolded p]]
  show ?case
  proof (cases "e_arrival r < cursor")
    case True
    then show ?thesis using Cons.IH [of None] res(1) unfolding p emit_records_Cons by auto
  next
    case False
    then have c: "cursor \<le> e_arrival r" by simp
    have first: "sorted_wrt follows (filter is_span (record_events epoch d g r f))" for g
    proof -
      have "unat (e_arrival r - 1) < unat (e_arrival r)" if "g < e_arrival r"
        using that by (simp add: unat_sub_no_wrap word_le_nat_alt word_less_nat_alt)
      then show ?thesis by (simp add: record_events_def follows_high)
    qed
    have rest: "follows a b" if a: "a \<in> set (filter is_span (record_events epoch d g r f))"
      and b: "b \<in> set (filter is_span (emit_records epoch d cursor (Some (e_arrival r)) ps))" for a b g
    proof -
      have high: "span_high a \<le> unat (e_arrival r)" using record_events_spans [OF a] by auto
      from emit_records_spans [OF res(2) [OF c] b] consider q where "q \<in> set ps" "b = record_event epoch (fst q)"
        | "unat (e_arrival r) < span_low b" by (auto simp: expected_def unat_succ_small [OF res(4)])
      then show ?thesis
      proof cases
        case 1
        note q = res(5) [OF 1(1)]
        show ?thesis
        proof (cases "a = record_event epoch r")
          case True
          then show ?thesis using follows_records [OF q] 1(2) by simp
        next
          case False
          then have "span_high a < unat (e_arrival r)" using record_events_spans [OF a] by blast
          moreover have "unat (e_arrival r) \<le> unat (e_arrival (fst q))" using q by (auto simp: record_key_less word_less_nat_alt)
          ultimately show ?thesis using 1(2) by (auto intro: follows_high)
        qed
      next
        case 2
        then show ?thesis using high by (auto intro: follows_high)
      qed
    qed
    show ?thesis
      using False first rest Cons.IH [OF res(2) [OF c]] unfolding p emit_records_Cons
      by (simp only: if_False filter_append sorted_wrt_append) blast
  qed
qed simp

lemma emit_records_covers:
  assumes "resumes cursor lastArrival ps" "ps \<noteq> [] \<Longrightarrow> cursor \<le> e_arrival (fst (last ps))"
  shows "{..< unat (expected cursor lastArrival)} \<union> covers (emit_records epoch d cursor lastArrival ps) =
    {..< if ps = [] then unat (expected cursor lastArrival) else Suc (unat (e_arrival (fst (last ps))))}"
  using assms
proof (induction ps arbitrary: lastArrival)
  case (Cons p ps)
  obtain r f where p: "p = (r, f)" by fastforce
  note res = resumes_Cons [OF Cons.prems(1) [unfolded p]]
  show ?case
  proof (cases "e_arrival r < cursor")
    case True
    then have "ps \<noteq> []" using Cons.prems(2) p by auto
    then show ?thesis using Cons.IH [of None] res(1) True Cons.prems(2) unfolding p emit_records_Cons by auto
  next
    case False
    then have c: "cursor \<le> e_arrival r" by simp
    have "{..< unat (expected cursor lastArrival)} \<union> covers (emit_records epoch d cursor lastArrival (p # ps)) =
        {..< unat (expected cursor (Some (e_arrival r)))} \<union> covers (emit_records epoch d cursor (Some (e_arrival r)) ps)"
      using False record_events_covers [OF res(3) [OF c], of epoch d f]
      by (simp add: p emit_records_Cons Un_assoc [symmetric] expected_def unat_succ_small [OF res(4)] del: emit_records.simps)
    also have "\<dots> = {..< if ps = [] then unat (expected cursor (Some (e_arrival r))) else Suc (unat (e_arrival (fst (last ps))))}"
      by (rule Cons.IH [OF res(2) [OF c]]) (use Cons.prems(2) in simp)
    finally show ?thesis by (simp add: p expected_def unat_succ_small [OF res(4)])
  qed
qed simp

lemma sorted_map_last_le: "sorted (map f xs) \<Longrightarrow> x \<in> set xs \<Longrightarrow> f x \<le> f (last xs)"
  by (induction xs) auto

text \<open>One segment: it continues the accounting from the next ordinal expected before it to the one after it.\<close>

definition next_after :: "input_descriptor \<Rightarrow> u64 \<Rightarrow> u64" where
  "next_after d n = (if id_last d \<ge> n then id_last d + 1 else n)"

lemma zip_records:
  assumes "checked ds" "ds_failure ds = None" "descriptor_bounds (ds_descriptor ds)"
  shows "resumes cursor None (zip (ds_records ds) (ds_disconnects ds))" "zip (ds_records ds) (ds_disconnects ds) \<noteq> []"
    "fst (last (zip (ds_records ds) (ds_disconnects ds))) = last (ds_records ds)"
    "\<And>p. p \<in> set (zip (ds_records ds) (ds_disconnects ds)) \<Longrightarrow> e_arrival (fst p) \<le> id_last (ds_descriptor ds)"
proof -
  let ?ps = "zip (ds_records ds) (ds_disconnects ds)"
  have c: "ds_records ds \<noteq> []" "length (ds_disconnects ds) = length (ds_records ds)" "sorted_wrt (<) (map record_key (ds_records ds))"
      "e_arrival (last (ds_records ds)) = id_last (ds_descriptor ds)"
    using assms(1,2) by (simp_all add: checked_def)
  have f: "map fst ?ps = ds_records ds" using c(2) by simp
  have "e_arrival r \<le> id_last (ds_descriptor ds)" if "r \<in> set (ds_records ds)" for r
  proof -
    have "sorted (map record_key (ds_records ds))" using c(3) by (rule strict_sorted_imp_sorted)
    then have "record_key r \<le> record_key (last (ds_records ds))"
      using that c(1) by (metis sorted_map_last_le)
    then show ?thesis using c(4) by (auto simp: record_key_def less_eq_prod_def)
  qed
  then show le: "\<And>p. p \<in> set ?ps \<Longrightarrow> e_arrival (fst p) \<le> id_last (ds_descriptor ds)"
    using f by (metis in_set_conv_decomp list.set_map imageI)
  show ne: "?ps \<noteq> []" using f c(1) by auto
  show "fst (last ?ps) = last (ds_records ds)" using f ne by (metis last_map)
  have "sorted_wrt (<) (map (record_key \<circ> fst) ?ps)" using c(3) f by (metis map_map)
  moreover have "list_all (\<lambda>p. e_arrival (fst p) < 2 ^ 63) ?ps"
    using le assms(3) by (auto simp: list_all_iff descriptor_bounds_def intro: order.strict_trans1)
  ultimately show "resumes cursor None ?ps" by (simp add: resumes_def)
qed

definition overlap_events :: "epoch_plan \<Rightarrow> input_descriptor \<Rightarrow> u64 \<Rightarrow> event list" where
  "overlap_events epoch d n = (if id_first d < n then
     [discontinuityEvent epoch d (zero_disc\<lparr>dc_kind := DiscontinuityOrdinalOverlap, dc_reason := IntegrityReasonOrdinalOrder,
        dc_segment := id_segment d, dc_first := id_first d, dc_last := min (id_last d) (n - 1)\<rparr>) (id_start_ns d) (id_first d) 0] else [])"

definition gap_events :: "epoch_plan \<Rightarrow> input_descriptor \<Rightarrow> u64 \<Rightarrow> event list" where
  "gap_events epoch d n = (if id_first d > n then
     [discontinuityEvent epoch d (gap_disc n (id_first d - 1)) (id_start_ns d) n 0] else [])"

lemma overlap_events_simps [simp]: "filter is_span (overlap_events epoch d n) = []" "covers (overlap_events epoch d n) = {}"
  by (simp_all add: overlap_events_def is_span_def covered_def discontinuityEvent_def EventRecord_def EventDiscontinuity_def
      discontinuity_kinds zero_disc_def)

lemma gap_events_facts:
  "{..< unat n} \<union> covers (gap_events epoch d n) = {..< unat (max (id_first d) n)}"
  "sorted_wrt follows (filter is_span (gap_events epoch d n))"
  "ev \<in> set (filter is_span (gap_events epoch d n)) \<Longrightarrow> span_low ev = unat n \<and> span_high ev < unat (id_first d) \<and> n < id_first d"
proof -
  have pred: "unat (id_first d - 1) = unat (id_first d) - 1" "unat n < unat (id_first d)" if "n < id_first d"
    using that by (auto simp: unat_sub_no_wrap word_le_nat_alt word_less_nat_alt)
  show "{..< unat n} \<union> covers (gap_events epoch d n) = {..< unat (max (id_first d) n)}"
    using pred by (auto simp: gap_events_def max_def word_le_nat_alt word_less_nat_alt)
  show "sorted_wrt follows (filter is_span (gap_events epoch d n))" by (simp add: gap_events_def)
  show "ev \<in> set (filter is_span (gap_events epoch d n)) \<Longrightarrow> span_low ev = unat n \<and> span_high ev < unat (id_first d) \<and> n < id_first d"
    using pred by (auto simp: gap_events_def split: if_splits)
qed

lemma emitDecodedSegment_parts:
  assumes "descriptor_bounds (ds_descriptor ds)"
  shows "emitDecodedSegment epoch ds n =
    (let d = ds_descriptor ds in
     (overlap_events epoch d n @ gap_events epoch d n @
        (case ds_failure ds of
           Some f \<Rightarrow> [discontinuityEvent epoch d f (id_start_ns d) (id_first d) 0]
         | None \<Rightarrow> if id_last d < max (id_first d) n then []
             else emit_records epoch d (max (id_first d) n) None (zip (ds_records ds) (ds_disconnects ds))),
      next_after d n))"
proof -
  have "id_last d < max (id_first d) n \<longleftrightarrow> id_last d < n" if "d = ds_descriptor ds" for d
    using assms that by (auto simp: descriptor_bounds_def max_def)
  moreover have "(if id_first d > n then id_first d else n) = max (id_first d) n" for d by (auto simp: max_def)
  ultimately show ?thesis
    unfolding emitDecodedSegment_def overlap_events_def gap_events_def next_after_def Let_def
    by (auto split: option.splits)
qed

lemma unat_next_after: "descriptor_bounds d \<Longrightarrow> unat (next_after d n) = max (unat n) (Suc (unat (id_last d)))"
  by (auto simp: next_after_def descriptor_bounds_def unat_succ_small word_le_nat_alt max_def)

definition segment_tail :: "epoch_plan \<Rightarrow> decoded_segment \<Rightarrow> u64 \<Rightarrow> event list" where
  "segment_tail epoch ds n =
     (let d = ds_descriptor ds in
      case ds_failure ds of
        Some f \<Rightarrow> [discontinuityEvent epoch d f (id_start_ns d) (id_first d) 0]
      | None \<Rightarrow> if id_last d < max (id_first d) n then []
          else emit_records epoch d (max (id_first d) n) None (zip (ds_records ds) (ds_disconnects ds)))"

lemma segment_tail_facts:
  assumes "checked ds" and b: "descriptor_bounds (ds_descriptor ds)"
  shows "{..< unat (max (id_first (ds_descriptor ds)) n)} \<union> covers (segment_tail epoch ds n) = {..< unat (next_after (ds_descriptor ds) n)}"
    "sorted_wrt follows (filter is_span (segment_tail epoch ds n))"
    "ev \<in> set (filter is_span (segment_tail epoch ds n)) \<Longrightarrow>
       unat (max (id_first (ds_descriptor ds)) n) \<le> span_low ev \<and> span_high ev < unat (next_after (ds_descriptor ds) n)"
proof -
  let ?d = "ds_descriptor ds" and ?ps = "zip (ds_records ds) (ds_disconnects ds)"
  let ?c = "max (id_first ?d) n"
  have fl: "unat (id_first ?d) \<le> unat (id_last ?d)" using b by (simp add: descriptor_bounds_def word_le_nat_alt)
  have c: "unat ?c = max (unat (id_first ?d)) (unat n)" by (auto simp: max_def word_le_nat_alt)
  note nx = unat_next_after [OF b, of n]
  show "{..< unat ?c} \<union> covers (segment_tail epoch ds n) = {..< unat (next_after ?d n)}"
  proof (cases "ds_failure ds")
    case (Some f)
    then have "failure_of ?d f" using assms(1) by (simp add: checked_def)
    then show ?thesis using fl Some unfolding nx c by (auto simp: segment_tail_def Let_def)
  next
    case None
    note z = zip_records [OF assms(1) None b]
    have l: "e_arrival (fst (last ?ps)) = id_last ?d" unfolding z(3) using assms(1) None by (simp add: checked_def)
    show ?thesis
    proof (cases "id_last ?d < ?c")
      case True
      then show ?thesis using fl None unfolding nx c by (auto simp: segment_tail_def Let_def word_less_nat_alt c)
    next
      case False
      then have "?c \<le> e_arrival (fst (last ?ps))" unfolding l by (rule leI)
      from emit_records_covers [OF z(1) this] have "{..< unat ?c} \<union> covers (segment_tail epoch ds n) = {..< Suc (unat (id_last ?d))}"
        using z(2) False None by (simp add: segment_tail_def Let_def expected_def l)
      moreover have "unat n \<le> unat (id_last ?d)" using leI [OF False] unfolding word_le_nat_alt c by simp
      ultimately show ?thesis unfolding nx by simp
    qed
  qed
  show "sorted_wrt follows (filter is_span (segment_tail epoch ds n))"
    using assms(1) emit_records_sorted [OF zip_records(1) [OF assms(1) _ b]]
    by (cases "ds_failure ds") (auto simp: segment_tail_def Let_def checked_def)
  show "unat ?c \<le> span_low ev \<and> span_high ev < unat (next_after ?d n)" if "ev \<in> set (filter is_span (segment_tail epoch ds n))"
  proof (cases "ds_failure ds")
    case (Some f)
    then show ?thesis using that assms(1) by (auto simp: segment_tail_def Let_def checked_def)
  next
    case None
    note z = zip_records [OF assms(1) None b]
    have "ev \<in> set (filter is_span (emit_records epoch ?d ?c None ?ps))"
      using that None by (auto simp: segment_tail_def Let_def split: if_splits)
    from emit_records_spans [OF z(1) this] z(4) show ?thesis unfolding nx by (fastforce simp: word_le_nat_alt)
  qed
qed

lemma segment_facts:
  assumes "checked ds" "descriptor_bounds (ds_descriptor ds)" "emitDecodedSegment epoch ds n = (events, n')"
  shows "n' = next_after (ds_descriptor ds) n" "{..< unat n} \<union> covers events = {..< unat n'}" "sorted_wrt follows (filter is_span events)"
    "ev \<in> set (filter is_span events) \<Longrightarrow> unat n \<le> span_low ev \<and> span_high ev < unat n'"
proof -
  let ?d = "ds_descriptor ds" and ?tail = "segment_tail epoch ds n"
  have e: "events = overlap_events epoch ?d n @ gap_events epoch ?d n @ ?tail" and n': "n' = next_after ?d n"
    using assms(3) unfolding emitDecodedSegment_parts [OF assms(2)] segment_tail_def Let_def by simp_all
  note g = gap_events_facts [where n = n and epoch = epoch and d = ?d] and t = segment_tail_facts [OF assms(1,2), where n = n and epoch = epoch]
  have low: "unat n \<le> unat (max (id_first ?d) n)" by (auto simp: max_def word_le_nat_alt)
  have high: "unat (id_first ?d) < unat n'"
    using assms(2) unfolding n' unat_next_after [OF assms(2)] by (auto simp: descriptor_bounds_def word_le_nat_alt)
  show "n' = next_after ?d n" by (rule n')
  show "{..< unat n} \<union> covers events = {..< unat n'}" unfolding e n' using g(1) t(1) by (simp add: Un_assoc [symmetric])
  have "follows a b" if a: "a \<in> set (filter is_span (gap_events epoch ?d n))" and b: "b \<in> set (filter is_span ?tail)" for a b
    using g(3) [OF a] t(3) [OF b] by (intro follows_high) (auto simp: max_def word_less_nat_alt word_le_nat_alt split: if_splits)
  then show "sorted_wrt follows (filter is_span events)"
    unfolding e using g(2) t(2) by (simp only: filter_append overlap_events_simps append_Nil sorted_wrt_append) blast
  show "unat n \<le> span_low ev \<and> span_high ev < unat n'" if "ev \<in> set (filter is_span events)"
  proof -
    have "ev \<in> set (filter is_span (gap_events epoch ?d n)) \<or> ev \<in> set (filter is_span ?tail)"
      using that unfolding e by (metis Un_iff filter_append overlap_events_simps(1) append_Nil set_append)
    then show ?thesis using g(3) [of ev] t(3) [of ev] low high unfolding n' by fastforce
  qed
qed

lemma epoch_events_facts:
  assumes "\<And>i. i \<in> set is \<Longrightarrow> ds_err (work i) = None \<Longrightarrow> checked (work i)"
    "\<And>i. i \<in> set is \<Longrightarrow> descriptor_bounds (ds_descriptor (work i))"
    "epoch_events epoch work n is = (events, None)"
  shows "{..< unat n} \<union> covers events = {k. k < unat n \<or> (\<exists>i\<in>set is. k \<le> unat (id_last (ds_descriptor (work i))))} \<and>
    sorted_wrt follows (filter is_span events) \<and> (\<forall>ev\<in>set (filter is_span events). unat n \<le> span_low ev)"
  using assms
proof (induction "is" arbitrary: n events)
  case (Cons i "is")
  have ok: "ds_err (work i) = None" using Cons.prems(3) by (auto split: option.splits)
  obtain ev1 m where e1: "emitDecodedSegment epoch (work i) n = (ev1, m)" by fastforce
  obtain ev2 where e2: "epoch_events epoch work m is = (ev2, None)" and events: "events = ev1 @ ev2"
    using Cons.prems(3) ok e1 by (auto split: prod.splits)
  have b: "descriptor_bounds (ds_descriptor (work i))" and c: "checked (work i)" using Cons.prems(1,2) ok by simp_all
  note s = segment_facts [OF c b e1]
  have "{..< unat m} \<union> covers ev2 = {k. k < unat m \<or> (\<exists>i\<in>set is. k \<le> unat (id_last (ds_descriptor (work i))))} \<and>
    sorted_wrt follows (filter is_span ev2) \<and> (\<forall>ev\<in>set (filter is_span ev2). unat m \<le> span_low ev)"
    by (rule Cons.IH [OF _ _ e2]) (use Cons.prems in simp_all)
  then have ih: "{..< unat m} \<union> covers ev2 = {k. k < unat m \<or> (\<exists>i\<in>set is. k \<le> unat (id_last (ds_descriptor (work i))))}"
    "sorted_wrt follows (filter is_span ev2)" "\<And>ev. ev \<in> set (filter is_span ev2) \<Longrightarrow> unat m \<le> span_low ev" by blast+
  have m: "unat m = max (unat n) (Suc (unat (id_last (ds_descriptor (work i)))))" unfolding s(1) by (rule unat_next_after [OF b])
  have "{..< unat n} \<union> covers events = {k. k < unat n \<or> (\<exists>i\<in>set (i # is). k \<le> unat (id_last (ds_descriptor (work i))))}"
  proof -
    have "{..< unat n} \<union> covers events = {..< unat m} \<union> covers ev2" unfolding events using s(2) by auto
    also have "\<dots> = {k. k < unat n \<or> (\<exists>i\<in>set (i # is). k \<le> unat (id_last (ds_descriptor (work i))))}" unfolding ih(1) unfolding m by (auto simp: less_Suc_eq_le)
    finally show ?thesis .
  qed
  moreover have "follows a b" if "a \<in> set (filter is_span ev1)" "b \<in> set (filter is_span ev2)" for a b
    using s(4) [OF that(1)] ih(3) [OF that(2)] by (intro follows_high) simp
  then have "sorted_wrt follows (filter is_span events)"
    unfolding events filter_append sorted_wrt_append using s(3) ih(2) by blast
  moreover have "unat n \<le> span_low ev" if "ev \<in> set (filter is_span events)" for ev
    using that s(4) [of ev] ih(3) [of ev] m unfolding events by (auto simp: le_max_iff_disj)
  ultimately show ?case by blast
qed auto

text \<open>
  C3. Every ordinal of an epoch is accounted for.  When an epoch is replayed without
  a fetch error, each ordinal from one up to the highest any segment of the epoch
  declares is either that of an emitted record or inside an emitted gap, missing or
  quarantined range, and no higher ordinal is; and the records and gaps come in
  strictly increasing order without overlap, so nothing is delivered twice and no
  gap hides a delivered record, however the segments overlap, fail or leave holes.
\<close>

theorem epoch_ordinals_accounted:
  assumes "list_all descriptor_bounds (ep_segments epoch)" "mset arrivals = mset [0 ..< length (ep_segments epoch)]"
    "replayEpoch sha z reader arrivals epoch = Some (events, None)"
  shows "{k \<in> covers events. 1 \<le> k} = {k. 1 \<le> k \<and> (\<exists>d\<in>set (ep_segments epoch). k \<le> unat (id_last d))} \<and>
    sorted_wrt follows (filter is_span events)"
proof -
  let ?n = "length (ep_segments epoch)" and ?work = "segment_results sha z reader epoch"
  have "{0 ..< ?n} \<subseteq> set arrivals" using mset_eq_setD [OF assms(2)] by auto
  from replayEpoch_events [OF this, of sha z reader] assms(3)
  have e: "epoch_events epoch ?work 1 [0 ..< ?n] = (events, None)" by simp
  have d: "ds_descriptor (?work i) = ep_segments epoch ! i" for i by (simp add: segment_results_def)
  have "{..< unat (1 :: u64)} \<union> covers events = {k. k < unat (1 :: u64) \<or> (\<exists>i\<in>set [0 ..< ?n]. k \<le> unat (id_last (ds_descriptor (?work i))))} \<and>
      sorted_wrt follows (filter is_span events) \<and> (\<forall>ev\<in>set (filter is_span events). unat (1 :: u64) \<le> span_low ev)"
    by (rule epoch_events_facts [OF _ _ e])
      (use assms(1) d in \<open>simp_all add: segment_results_def validate_checked list_all_length\<close>)
  moreover have ex: "(\<exists>i\<in>set [0 ..< ?n]. k \<le> unat (id_last (ds_descriptor (?work i)))) \<longleftrightarrow>
      (\<exists>d\<in>set (ep_segments epoch). k \<le> unat (id_last d))" for k
    unfolding d by (auto simp: set_conv_nth)
  ultimately have c: "{..< 1} \<union> covers events = {k. k < 1 \<or> (\<exists>d\<in>set (ep_segments epoch). k \<le> unat (id_last d))}"
    and s: "sorted_wrt follows (filter is_span events)"
    unfolding ex by simp_all
  have "k \<in> covers events \<longleftrightarrow> (\<exists>d\<in>set (ep_segments epoch). k \<le> unat (id_last d))" if "1 \<le> k" for k
  proof -
    have "k \<in> {..< 1} \<union> covers events \<longleftrightarrow> k < 1 \<or> (\<exists>d\<in>set (ep_segments epoch). k \<le> unat (id_last d))" unfolding c by simp
    then show ?thesis using that by simp
  qed
  then show ?thesis using s by auto
qed

text \<open>Two segments of a source, the second after a hole, when the store has lost both objects.\<close>

definition sample_epoch_plan :: epoch_plan where
  "sample_epoch_plan = \<lparr>ep_source = ''s'', ep_epoch = ''e'', ep_first_ns = 5,
     ep_segments = [sample_descriptor ''a'' 1, sample_descriptor ''b'' 3]\<rparr>"

definition forward :: "epoch_plan \<Rightarrow> nat list" where "forward epoch = [0 ..< length (ep_segments epoch)]"
definition backward :: "epoch_plan \<Rightarrow> nat list" where "backward epoch = rev [0 ..< length (ep_segments epoch)]"

theorem replay_schedule_independent_witness:
  "\<exists>events err.
     replaySourcePlan sha_zero store_lib (\<lambda>_. FetchNotFound) forward \<lparr>sp_source = ''s'', sp_epochs = [sample_epoch_plan]\<rparr> = Some (events, err) \<and>
     replaySourcePlan sha_zero store_lib (\<lambda>_. FetchNotFound) backward \<lparr>sp_source = ''s'', sp_epochs = [sample_epoch_plan]\<rparr> = Some (events, err)"
  by (rule replay_schedule_independent) (simp_all add: complete_schedule_def forward_def backward_def)

theorem epoch_ordinals_accounted_witness:
  "\<exists>events. replayEpoch sha_zero store_lib (\<lambda>_. FetchNotFound) [1, 0] sample_epoch_plan = Some (events, None) \<and>
     {k \<in> covers events. 1 \<le> k} = {1, 2, 3}"
proof -
  have ds: "validateAndDecodeSegment sha_zero store_lib (\<lambda>_. FetchNotFound) i d =
      \<lparr>ds_index = i, ds_descriptor = d, ds_records = [], ds_disconnects = [], ds_failure = Some (missingFailure d), ds_err = None\<rparr>" for i d
    by (simp add: validateAndDecodeSegment_def readExactObject_def Let_def)
  have "\<exists>events. replayEpoch sha_zero store_lib (\<lambda>_. FetchNotFound) [1, 0] sample_epoch_plan = Some (events, None)"
    by (subst replayEpoch_events) (auto simp: sample_epoch_plan_def segment_results_def ds split: prod.splits)
  then obtain events where e: "replayEpoch sha_zero store_lib (\<lambda>_. FetchNotFound) [1, 0] sample_epoch_plan = Some (events, None)" by blast
  have "{k \<in> covers events. 1 \<le> k} = {k. 1 \<le> k \<and> (\<exists>d\<in>set (ep_segments sample_epoch_plan). k \<le> unat (id_last d))} \<and>
      sorted_wrt follows (filter is_span events)"
    by (rule epoch_ordinals_accounted [OF _ _ e])
      (simp_all add: sample_epoch_plan_def sample_descriptor_def descriptor_bounds_def add_mset_commute)
  moreover have "{k. 1 \<le> k \<and> (\<exists>d\<in>set (ep_segments sample_epoch_plan). k \<le> unat (id_last d))} = {1, 2, 3}"
    by (auto simp: sample_epoch_plan_def sample_descriptor_def)
  ultimately show ?thesis using e by auto
qed

end
