(* ===== verification/LogicalHash.thy ===== *)
theory LogicalHash
  imports Replay
begin

text \<open>
  \<open>src/replay/hash.go\<close>: the logical hash of a replay.  The state of the hasher is
  the bytes written to it so far; its sum is the digest of them.

  The lemmas show that these bytes determine the events: two replays that write the
  same bytes emitted the same events, so equal logical hashes with different events
  would be a collision of SHA-256.
\<close>

subsection \<open>The hasher\<close>

definition logicalHashDomainV1 :: bytes where
  "logicalHashDomainV1 = str_bytes ''enable-marketdata/native-replay/logical-hash'' @ [0]"

definition LogicalHashVersionV1 :: u16 where "LogicalHashVersionV1 = 1"

datatype hash_error = ErrUnsupportedHash | HashError replay_error

definition newLogicalHasher :: "u16 \<Rightarrow> hash_error + bytes" where
  "newLogicalHasher version =
     (if version \<noteq> LogicalHashVersionV1 then Inl ErrUnsupportedHash else Inr (logicalHashDomainV1 @ be_u16 version))"

definition writeBytes :: "bytes \<Rightarrow> bytes \<Rightarrow> replay_error + bytes" where
  "writeBytes h v = (if length v > 0xFFFFFFFF then Inl ErrInputBound else Inr (h @ be_u32 (of_nat (length v)) @ v))"

definition writeString :: "bytes \<Rightarrow> string \<Rightarrow> replay_error + bytes" where
  "writeString h v = writeBytes h (str_bytes v)"

definition writeInt64 :: "bytes \<Rightarrow> i64 \<Rightarrow> bytes" where
  "writeInt64 h v = h @ be_u64 (of_int v)"

definition segmentAppend :: "(bytes \<Rightarrow> hash) \<Rightarrow> bytes \<Rightarrow> event \<Rightarrow> bytes \<times> seg_error option" where
  "segmentAppend sha dst ev = AppendEnvelope sha dst (ev_record ev)"

definition write_coordinate :: "bytes \<Rightarrow> event \<Rightarrow> replay_error + bytes" where
  "write_coordinate h0 ev =
     (case writeString (h0 @ [ev_kind ev]) (ev_order ev) of
        Inl err \<Rightarrow> Inl err
      | Inr h1 \<Rightarrow> (case writeString (writeInt64 h1 (co_received (ev_coord ev))) (co_source (ev_coord ev)) of
          Inl err \<Rightarrow> Inl err
        | Inr h2 \<Rightarrow> (case writeString (writeInt64 h2 (co_epoch_first (ev_coord ev))) (co_epoch (ev_coord ev)) of
            Inl err \<Rightarrow> Inl err
          | Inr h3 \<Rightarrow> Inr (h3 @ be_u64 (co_arrival (ev_coord ev)) @ be_u32 (co_message (ev_coord ev))))))"

definition write_discontinuity :: "bytes \<Rightarrow> discontinuity \<Rightarrow> replay_error + bytes" where
  "write_discontinuity h dc =
     (case writeString (h @ [dc_kind dc, dc_reason dc]) (dc_segment dc) of
        Inl err \<Rightarrow> Inl err
      | Inr h1 \<Rightarrow> (case writeString h1 (dc_previous dc) of
          Inl err \<Rightarrow> Inl err
        | Inr h2 \<Rightarrow> Inr (h2 @ be_u64 (dc_first dc) @ be_u64 (dc_last dc) @ be_u32 (dc_frame dc) @ be_u64 (dc_offset dc))))"

definition writeEvent :: "(bytes \<Rightarrow> hash) \<Rightarrow> bytes \<Rightarrow> event \<Rightarrow> replay_error + bytes" where
  "writeEvent sha h0 ev =
     (case write_coordinate h0 ev of
        Inl err \<Rightarrow> Inl err
      | Inr h \<Rightarrow>
          if ev_kind ev = EventRecord then
            (case segmentAppend sha [] ev of
               (recordBuffer, Some err) \<Rightarrow> Inl ErrIntegrity
             | (recordBuffer, None) \<Rightarrow> writeBytes h recordBuffer)
          else if ev_kind ev = EventDiscontinuity then write_discontinuity h (ev_disc ev)
          else Inl ErrIntegrity)"

definition hasher_sum :: "(bytes \<Rightarrow> hash) \<Rightarrow> bytes \<Rightarrow> hash" where
  "hasher_sum sha h = sha h"

text \<open>Writing a sequence of events.\<close>

fun writeEvents :: "(bytes \<Rightarrow> hash) \<Rightarrow> bytes \<Rightarrow> event list \<Rightarrow> replay_error + bytes" where
  "writeEvents sha h [] = Inr h"
| "writeEvents sha h (ev # evs) = (case writeEvent sha h ev of Inl err \<Rightarrow> Inl err | Inr h' \<Rightarrow> writeEvents sha h' evs)"

subsection \<open>The bytes determine the events\<close>

definition framed :: "bytes \<Rightarrow> bytes" where
  "framed v = be_u32 (of_nat (length v)) @ v"

lemma writeBytes_Inr: "writeBytes h v = Inr h' \<longleftrightarrow> length v \<le> 0xFFFFFFFF \<and> h' = h @ framed v"
  by (auto simp: writeBytes_def framed_def)

lemma framed_inj:
  assumes "length v \<le> 0xFFFFFFFF" "length w \<le> 0xFFFFFFFF" "framed v @ r = framed w @ t"
  shows "v = w \<and> r = t"
proof -
  have "be_u32 (of_nat (length v)) = be_u32 (of_nat (length w))" "v @ r = w @ t"
    using assms(3) by (simp_all add: framed_def)
  then have "(of_nat (length v) :: u32) = of_nat (length w)" by (simp only: be_u32_inj)
  moreover have "unat (of_nat (length v) :: u32) = length v" using assms(1) by (intro unat_of_nat_u32) simp
  moreover have "unat (of_nat (length w) :: u32) = length w" using assms(2) by (intro unat_of_nat_u32) simp
  ultimately have "length v = length w" by metis
  then show ?thesis using \<open>v @ r = w @ t\<close> by simp
qed

definition short :: "string \<Rightarrow> bool" where "short v \<longleftrightarrow> length v \<le> 0xFFFFFFFF"

lemma framed_str_inj: "short v \<Longrightarrow> short w \<Longrightarrow> framed (str_bytes v) @ r = framed (str_bytes w) @ t \<longleftrightarrow> v = w \<and> r = t"
  using framed_inj [of "str_bytes v" "str_bytes w" r t] by (auto simp: str_bytes_inj short_def)

lemma writeString_Inr: "writeString h v = Inr h' \<longleftrightarrow> short v \<and> h' = h @ framed (str_bytes v)"
  by (simp add: writeString_def writeBytes_Inr short_def)

lemma be_append_inj [simp]:
  "be_u64 v @ r = be_u64 w @ t \<longleftrightarrow> v = w \<and> r = t" "be_u32 a @ r = be_u32 b @ t \<longleftrightarrow> a = b \<and> r = t"
  by (auto simp: be_u64_inj be_u32_inj)

lemma i64_word_inj: "in_i64 x \<Longrightarrow> in_i64 y \<Longrightarrow> (of_int x :: u64) = of_int y \<longleftrightarrow> x = y"
  by (metis sint_of_int_i64)

definition coordinate_bytes :: "event \<Rightarrow> bytes" where
  "coordinate_bytes ev = ev_kind ev # framed (str_bytes (ev_order ev)) @ be_u64 (of_int (co_received (ev_coord ev))) @
     framed (str_bytes (co_source (ev_coord ev))) @ be_u64 (of_int (co_epoch_first (ev_coord ev))) @
     framed (str_bytes (co_epoch (ev_coord ev))) @ be_u64 (co_arrival (ev_coord ev)) @ be_u32 (co_message (ev_coord ev))"

definition coordinate_short :: "event \<Rightarrow> bool" where
  "coordinate_short ev \<longleftrightarrow> short (ev_order ev) \<and> short (co_source (ev_coord ev)) \<and> short (co_epoch (ev_coord ev))"

lemma write_coordinate_Inr: "write_coordinate h ev = Inr h' \<longleftrightarrow> coordinate_short ev \<and> h' = h @ coordinate_bytes ev"
  unfolding write_coordinate_def coordinate_short_def coordinate_bytes_def
  by (auto simp: writeString_Inr writeInt64_def split: sum.splits)
    (auto simp: writeString_def writeBytes_def short_def split: if_splits)

definition disc_bytes :: "discontinuity \<Rightarrow> bytes" where
  "disc_bytes dc = dc_kind dc # dc_reason dc # framed (str_bytes (dc_segment dc)) @ framed (str_bytes (dc_previous dc)) @
     be_u64 (dc_first dc) @ be_u64 (dc_last dc) @ be_u32 (dc_frame dc) @ be_u64 (dc_offset dc)"

lemma write_discontinuity_Inr:
  "write_discontinuity h dc = Inr h' \<longleftrightarrow> short (dc_segment dc) \<and> short (dc_previous dc) \<and> h' = h @ disc_bytes dc"
  unfolding write_discontinuity_def disc_bytes_def
  by (auto simp: writeString_Inr split: sum.splits) (auto simp: writeString_def writeBytes_def short_def split: if_splits)

definition event_bytes :: "(bytes \<Rightarrow> hash) \<Rightarrow> event \<Rightarrow> bytes" where
  "event_bytes sha ev = coordinate_bytes ev @
     (if ev_kind ev = EventRecord then framed (appendEncodedRecord sha [] (ev_record ev)) else disc_bytes (ev_disc ev))"

definition event_writable :: "(bytes \<Rightarrow> hash) \<Rightarrow> event \<Rightarrow> bool" where
  "event_writable sha ev \<longleftrightarrow> coordinate_short ev \<and>
     (if ev_kind ev = EventRecord
      then validateEnvelope (ev_record ev) \<and> length (appendEncodedRecord sha [] (ev_record ev)) \<le> 0xFFFFFFFF
      else ev_kind ev = EventDiscontinuity \<and> short (dc_segment (ev_disc ev)) \<and> short (dc_previous (ev_disc ev)))"

lemma AppendEnvelope_valid:
  "AppendEnvelope sha dst r = (bs, None) \<longleftrightarrow> validateEnvelope r \<and> bs = appendEncodedRecord sha dst r"
  using valid_body_fits [of r] by (auto simp: AppendEnvelope_def encodedRecordSize_def)

lemma writeEvent_Inr: "writeEvent sha h ev = Inr h' \<longleftrightarrow> event_writable sha ev \<and> h' = h @ event_bytes sha ev"
proof (cases "write_coordinate h ev")
  case (Inl err)
  then have "\<not> coordinate_short ev" using write_coordinate_Inr [of h ev "h @ coordinate_bytes ev"] by auto
  then show ?thesis using Inl by (simp add: writeEvent_def event_writable_def)
next
  case (Inr h1)
  then have c: "coordinate_short ev" "h1 = h @ coordinate_bytes ev" by (simp_all add: write_coordinate_Inr)
  obtain buf err where b: "AppendEnvelope sha [] (ev_record ev) = (buf, err)" by fastforce
  then have buf: "err = None \<longleftrightarrow> validateEnvelope (ev_record ev)" "err = None \<Longrightarrow> buf = appendEncodedRecord sha [] (ev_record ev)"
    using AppendEnvelope_valid [of sha "[]" "ev_record ev" buf]
      AppendEnvelope_valid [of sha "[]" "ev_record ev" "appendEncodedRecord sha [] (ev_record ev)"] by auto
  have w: "writeEvent sha h ev = (if ev_kind ev = EventRecord then (case err of Some _ \<Rightarrow> Inl ErrIntegrity | None \<Rightarrow> writeBytes h1 buf)
      else if ev_kind ev = EventDiscontinuity then write_discontinuity h1 (ev_disc ev) else Inl ErrIntegrity)"
    by (simp add: writeEvent_def Inr segmentAppend_def b split: option.split)
  consider "ev_kind ev = EventRecord" "err = None" | e where "ev_kind ev = EventRecord" "err = Some e" | "ev_kind ev \<noteq> EventRecord" by blast
  then show ?thesis
  proof cases
    case 1
    then show ?thesis using c buf unfolding w by (auto simp: event_writable_def event_bytes_def writeBytes_Inr)
  next
    case 2
    then show ?thesis using c buf unfolding w by (simp add: event_writable_def)
  next
    case 3
    then show ?thesis using c unfolding w by (auto simp: event_writable_def event_bytes_def write_discontinuity_Inr)
  qed
qed

text \<open>An event as the replay builds it: the part its kind does not use is zero, and a record is a decoded one.\<close>

definition event_ok :: "event \<Rightarrow> bool" where
  "event_ok ev \<longleftrightarrow> in_i64 (co_received (ev_coord ev)) \<and> in_i64 (co_epoch_first (ev_coord ev)) \<and>
     (if ev_kind ev = EventRecord then ev_disc ev = zero_disc \<and> envelope_shape (ev_record ev) \<and> canonical (ev_record ev) = ev_record ev
      else ev_record ev = zero_envelope)"

lemma appendEncodedRecord_inj:
  assumes "\<And>b. length (sha b) = 32" "envelope_shape r" "envelope_shape s" "canonical r = r" "canonical s = s"
    "validateEnvelope r" "validateEnvelope s" "appendEncodedRecord sha [] r = appendEncodedRecord sha [] s"
  shows "r = s"
proof -
  have d: "decodeRecord sha (appendEncodedRecord sha [] x) = Inr (x, RecordHeaderSize + encoded_body_size x)"
    if "envelope_shape x" "canonical x = x" "validateEnvelope x" for x
    using decode_encoded [of sha x "[]", OF assms(1) that(1,3)] unfolding appendEncodedRecord_flat append_Nil append_Nil2 that(2) .
  show ?thesis using d [OF assms(2,4,6)] d [OF assms(3,5,7)] unfolding assms(8) by (metis Inr_inject fst_conv)
qed

lemma coordinate_bytes_inj:
  assumes "coordinate_short a" "coordinate_short b" "event_ok a" "event_ok b" "coordinate_bytes a @ r = coordinate_bytes b @ t"
  shows "ev_kind a = ev_kind b \<and> ev_order a = ev_order b \<and> ev_coord a = ev_coord b \<and> r = t"
proof -
  have s: "short (ev_order a)" "short (ev_order b)" "short (co_source (ev_coord a))" "short (co_source (ev_coord b))"
    "short (co_epoch (ev_coord a))" "short (co_epoch (ev_coord b))" using assms(1,2) by (simp_all add: coordinate_short_def)
  have i: "in_i64 (co_received (ev_coord a))" "in_i64 (co_received (ev_coord b))"
    "in_i64 (co_epoch_first (ev_coord a))" "in_i64 (co_epoch_first (ev_coord b))" using assms(3,4) by (simp_all add: event_ok_def)
  note parts = assms(5) [unfolded coordinate_bytes_def append_Cons append_assoc list.inject framed_str_inj [OF s(1,2)]
      framed_str_inj [OF s(3,4)] framed_str_inj [OF s(5,6)] be_append_inj i64_word_inj [OF i(1,2)] i64_word_inj [OF i(3,4)]]
  then show ?thesis by (auto intro: coordinate.equality)
qed

lemma disc_bytes_inj:
  assumes "short (dc_segment a)" "short (dc_segment b)" "short (dc_previous a)" "short (dc_previous b)" "disc_bytes a @ r = disc_bytes b @ t"
  shows "a = b \<and> r = t"
  using assms(5) unfolding disc_bytes_def append_Cons append_assoc list.inject framed_str_inj [OF assms(1,2)]
    framed_str_inj [OF assms(3,4)] be_append_inj by (auto intro: discontinuity.equality)

lemma event_bytes_inj:
  assumes sha: "\<And>b. length (sha b) = 32" and "event_ok a" "event_ok b" "event_writable sha a" "event_writable sha b"
    "event_bytes sha a @ r = event_bytes sha b @ t"
  shows "a = b \<and> r = t"
proof -
  let ?tail = "\<lambda>ev. if ev_kind ev = EventRecord then framed (appendEncodedRecord sha [] (ev_record ev)) else disc_bytes (ev_disc ev)"
  have eq: "coordinate_bytes a @ ?tail a @ r = coordinate_bytes b @ ?tail b @ t" using assms(6) by (simp only: event_bytes_def append_assoc)
  have s: "coordinate_short a" "coordinate_short b" using assms(4,5) by (simp_all add: event_writable_def)
  note c = coordinate_bytes_inj [OF s assms(2,3) eq]
  show ?thesis
  proof (cases "ev_kind a = EventRecord")
    case True
    have e: "framed (appendEncodedRecord sha [] (ev_record a)) @ r = framed (appendEncodedRecord sha [] (ev_record b)) @ t"
      using c True by simp
    have w: "validateEnvelope (ev_record a)" "validateEnvelope (ev_record b)"
      "length (appendEncodedRecord sha [] (ev_record a)) \<le> 0xFFFFFFFF" "length (appendEncodedRecord sha [] (ev_record b)) \<le> 0xFFFFFFFF"
      using assms(4,5) c True by (simp_all add: event_writable_def)
    have k: "envelope_shape (ev_record a)" "canonical (ev_record a) = ev_record a" "ev_disc a = zero_disc"
      "envelope_shape (ev_record b)" "canonical (ev_record b) = ev_record b" "ev_disc b = zero_disc"
      using assms(2,3) c True by (simp_all add: event_ok_def)
    note f = framed_inj [OF w(3,4) e]
    have "ev_record a = ev_record b" using appendEncodedRecord_inj [of sha, OF sha k(1,4,2,5) w(1,2)] f by blast
    then show ?thesis using c k f by (auto intro: event.equality)
  next
    case False
    then have "ev_kind b \<noteq> EventRecord" using c by metis
    then have d: "disc_bytes (ev_disc a) @ r = disc_bytes (ev_disc b) @ t" using c False by (simp only: if_False)
    have "ev_disc a = ev_disc b \<and> r = t"
      by (rule disc_bytes_inj [OF _ _ _ _ d]) (use assms(4,5) c False in \<open>simp_all add: event_writable_def\<close>)
    then show ?thesis using c assms(2,3) False by (auto simp: event_ok_def intro: event.equality)
  qed
qed

lemma writeEvents_inj:
  assumes sha: "\<And>b. length (sha b) = 32"
  shows "list_all event_ok xs \<Longrightarrow> list_all event_ok ys \<Longrightarrow> writeEvents sha h xs = Inr b \<Longrightarrow> writeEvents sha h ys = Inr b \<Longrightarrow> xs = ys"
proof -
  have bytes: "writeEvents sha h xs = Inr b \<longleftrightarrow> list_all (event_writable sha) xs \<and> b = h @ concat (map (event_bytes sha) xs)" for h xs b
  proof (induction xs arbitrary: h)
    case (Cons x xs)
    show ?case
    proof (cases "writeEvent sha h x")
      case (Inl err)
      then have "\<not> event_writable sha x" using writeEvent_Inr [of sha h x "h @ event_bytes sha x"] by auto
      then show ?thesis using Inl by simp
    next
      case (Inr h1)
      then have "event_writable sha x" "h1 = h @ event_bytes sha x" by (simp_all only: writeEvent_Inr)
      moreover have "writeEvents sha h (x # xs) = writeEvents sha h1 xs" by (simp add: Inr)
      ultimately show ?thesis using Cons [of h1] by simp
    qed
  qed auto
  have ne: "event_bytes sha x \<noteq> []" for x by (simp add: event_bytes_def coordinate_bytes_def)
  have "concat (map (event_bytes sha) xs) = concat (map (event_bytes sha) ys) \<Longrightarrow> list_all event_ok xs \<Longrightarrow> list_all event_ok ys \<Longrightarrow>
      list_all (event_writable sha) xs \<Longrightarrow> list_all (event_writable sha) ys \<Longrightarrow> xs = ys" for xs ys
  proof (induction xs arbitrary: ys)
    case Nil
    then show ?case using ne by (cases ys) simp_all
  next
    case (Cons x xs)
    then obtain y ys' where ys: "ys = y # ys'" using ne by (cases ys) simp_all
    have "x = y \<and> concat (map (event_bytes sha) xs) = concat (map (event_bytes sha) ys')"
      by (rule event_bytes_inj [OF sha]) (use Cons.prems in \<open>simp_all add: ys\<close>)
    then show ?case using Cons.IH [of ys'] Cons.prems by (simp add: ys)
  qed
  then show "list_all event_ok xs \<Longrightarrow> list_all event_ok ys \<Longrightarrow> writeEvents sha h xs = Inr b \<Longrightarrow> writeEvents sha h ys = Inr b \<Longrightarrow> xs = ys"
    unfolding bytes by simp
qed

text \<open>
  C36. The logical hash identifies the replay.  If two sequences of events, hashed
  from the same start, give the same logical hash, they are the same sequence, event
  by event and field by field, or else their inputs are a collision of SHA-256: the
  framing of strings, records and discontinuities is unambiguous.
\<close>

theorem logical_hash_identifies:
  assumes "\<And>b. length (sha b) = 32" "list_all event_ok xs" "list_all event_ok ys"
    "newLogicalHasher LogicalHashVersionV1 = Inr h" "writeEvents sha h xs = Inr b1" "writeEvents sha h ys = Inr b2"
    "hasher_sum sha b1 = hasher_sum sha b2"
  shows "xs = ys \<or> b1 \<noteq> b2 \<and> sha b1 = sha b2"
proof (cases "b1 = b2")
  case True
  then show ?thesis using writeEvents_inj [of sha, OF assms(1-3)] assms(5,6) by blast
next
  case False
  then show ?thesis using assms(7) by (simp add: hasher_sum_def)
qed

text \<open>With a digest that maps everything to zero, one event and none have the same hash, and the inputs differ.\<close>

theorem logical_hash_identifies_witness:
  "\<exists>h b1 b2. newLogicalHasher LogicalHashVersionV1 = Inr h \<and>
     writeEvents sha_zero h [boundary_event \<lparr>sp_source = ''s'', sp_epochs = []\<rparr> sample_epoch_plan sample_epoch_plan] = Inr b1 \<and>
     writeEvents sha_zero h [] = Inr b2 \<and> hasher_sum sha_zero b1 = hasher_sum sha_zero b2 \<and> b1 \<noteq> b2"
proof -
  let ?ev = "boundary_event \<lparr>sp_source = ''s'', sp_epochs = []\<rparr> sample_epoch_plan sample_epoch_plan"
  obtain h where h: "newLogicalHasher LogicalHashVersionV1 = Inr h" by (simp add: newLogicalHasher_def)
  have k: "ev_kind ?ev \<noteq> EventRecord" by (simp add: boundary_event_def Let_def EventRecord_def EventDiscontinuity_def)
  have "event_writable sha_zero ?ev"
    using k by (simp add: event_writable_def coordinate_short_def short_def boundary_event_def Let_def sample_epoch_plan_def zero_disc_def)
  then have "writeEvent sha_zero h ?ev = Inr (h @ event_bytes sha_zero ?ev)" by (simp add: writeEvent_Inr)
  then have "writeEvents sha_zero h [?ev] = Inr (h @ event_bytes sha_zero ?ev)" by simp
  then obtain b where b: "writeEvents sha_zero h [?ev] = Inr b" by blast
  have ok: "list_all event_ok [?ev]"
    using k by (simp add: event_ok_def boundary_event_def Let_def sample_epoch_plan_def in_i64_def)
  have nil: "list_all event_ok []" "writeEvents sha_zero h [] = Inr h" by simp_all
  have eq: "hasher_sum sha_zero b = hasher_sum sha_zero h" by (simp add: hasher_sum_def sha_zero_def)
  from logical_hash_identifies [of sha_zero, OF sha_zero_length ok nil(1) h b nil(2) eq] have "b \<noteq> h" by auto
  then show ?thesis using h b nil(2) eq by blast
qed

end
