(* ===== verification/Heap.thy ===== *)
theory Heap
  imports Prelude
begin

text \<open>
  The binary heap of Go's \<open>container/heap\<close>, as \<open>src/replay/merge.go\<close> uses it: a
  slice in which the parent of index \<open>j\<close> is \<open>(j - 1) / 2\<close>, with \<open>Init\<close>, \<open>Push\<close> and
  \<open>Pop\<close> over the loops \<open>up\<close> and \<open>down\<close>.  The comparison is the argument \<open>lt\<close>.

  The locale \<open>min_heap\<close> states what the operations need of \<open>lt\<close> (that it compares
  keys of a linear order) and proves once what they promise: they keep the elements
  and the heap order, and \<open>Pop\<close> removes an element of least key.
\<close>

subsection \<open>Operations\<close>

definition swap :: "nat \<Rightarrow> nat \<Rightarrow> 'a list \<Rightarrow> 'a list" where
  "swap i j xs = xs[i := xs ! j, j := xs ! i]"

function heap_up :: "('a \<Rightarrow> 'a \<Rightarrow> bool) \<Rightarrow> nat \<Rightarrow> 'a list \<Rightarrow> 'a list" where
  "heap_up lt j xs =
     (let i = (j - 1) div 2 in
      if i = j \<or> \<not> lt (xs ! j) (xs ! i) then xs else heap_up lt i (swap i j xs))"
  by pat_completeness auto
termination by (relation "measure (\<lambda>(lt, j, xs). j)") auto

definition smaller_child :: "('a \<Rightarrow> 'a \<Rightarrow> bool) \<Rightarrow> nat \<Rightarrow> nat \<Rightarrow> 'a list \<Rightarrow> nat" where
  "smaller_child lt i n xs =
     (let j1 = 2 * i + 1; j2 = j1 + 1 in if j2 < n \<and> lt (xs ! j2) (xs ! j1) then j2 else j1)"

function heap_down :: "('a \<Rightarrow> 'a \<Rightarrow> bool) \<Rightarrow> nat \<Rightarrow> nat \<Rightarrow> 'a list \<Rightarrow> 'a list" where
  "heap_down lt i n xs =
     (if 2 * i + 1 \<ge> n then xs
      else let j = smaller_child lt i n xs in
        if \<not> lt (xs ! j) (xs ! i) then xs else heap_down lt j n (swap i j xs))"
  by pat_completeness auto
termination by (relation "measure (\<lambda>(lt, i, n, xs). n - i)") (auto simp: smaller_child_def Let_def)

declare heap_up.simps [simp del] heap_down.simps [simp del]

definition heap_Init :: "('a \<Rightarrow> 'a \<Rightarrow> bool) \<Rightarrow> 'a list \<Rightarrow> 'a list" where
  "heap_Init lt xs = fold (\<lambda>i ys. heap_down lt i (length ys) ys) (rev [0 ..< length xs div 2]) xs"

definition heap_Push :: "('a \<Rightarrow> 'a \<Rightarrow> bool) \<Rightarrow> 'a \<Rightarrow> 'a list \<Rightarrow> 'a list" where
  "heap_Push lt x xs = heap_up lt (length xs) (xs @ [x])"

definition heap_Pop :: "('a \<Rightarrow> 'a \<Rightarrow> bool) \<Rightarrow> 'a list \<Rightarrow> 'a \<times> 'a list" where
  "heap_Pop lt xs =
     (let n = length xs - 1; ys = heap_down lt 0 n (swap 0 n xs) in (last ys, butlast ys))"

subsection \<open>Elements are kept\<close>

lemma length_swap [simp]: "length (swap i j xs) = length xs" by (simp add: swap_def)

lemma mset_swapped: "i < length xs \<Longrightarrow> j < length xs \<Longrightarrow> mset (swap i j xs) = mset xs"
  by (simp add: swap_def mset_swap)

lemma nth_swap: "i < length xs \<Longrightarrow> j < length xs \<Longrightarrow> k < length xs \<Longrightarrow>
    swap i j xs ! k = (if k = j then xs ! i else if k = i then xs ! j else xs ! k)"
  by (auto simp: swap_def nth_list_update)

lemma smaller_child_range: "2 * i + 1 < n \<Longrightarrow> i < smaller_child lt i n xs \<and> smaller_child lt i n xs < n \<and>
    (smaller_child lt i n xs - 1) div 2 = i"
  by (auto simp: smaller_child_def Let_def)

lemma length_heap_up [simp]: "length (heap_up lt j xs) = length xs"
  by (induction lt j xs rule: heap_up.induct) (subst heap_up.simps, simp add: Let_def)

lemma length_heap_down [simp]: "length (heap_down lt i n xs) = length xs"
  by (induction lt i n xs rule: heap_down.induct) (subst heap_down.simps, simp add: Let_def)

lemma mset_heap_up: "j < length xs \<Longrightarrow> mset (heap_up lt j xs) = mset xs"
proof (induction lt j xs rule: heap_up.induct)
  case (1 lt j xs)
  then show ?case by (subst heap_up.simps) (auto simp: Let_def mset_swapped)
qed

lemma mset_heap_down: "n \<le> length xs \<Longrightarrow> mset (heap_down lt i n xs) = mset xs"
proof (induction lt i n xs rule: heap_down.induct)
  case (1 lt i n xs)
  show ?case
  proof (cases "2 * i + 1 < n")
    case True
    note r = smaller_child_range [OF True, of lt xs]
    then show ?thesis using 1 True by (subst heap_down.simps) (auto simp: Let_def mset_swapped)
  next
    case False
    then show ?thesis by (subst heap_down.simps) simp
  qed
qed

lemma heap_down_above: "n \<le> k \<Longrightarrow> n \<le> length xs \<Longrightarrow> k < length xs \<Longrightarrow> heap_down lt i n xs ! k = xs ! k"
proof (induction lt i n xs rule: heap_down.induct)
  case (1 lt i n xs)
  show ?case
  proof (cases "2 * i + 1 < n")
    case True
    note r = smaller_child_range [OF True, of lt xs]
    then show ?thesis using 1 True by (subst heap_down.simps) (auto simp: Let_def nth_swap)
  next
    case False
    then show ?thesis by (subst heap_down.simps) simp
  qed
qed

subsection \<open>The heap order\<close>

text \<open>Within the first \<open>n\<close> elements, every element whose parent is at \<open>lo\<close> or above it respects its parent.\<close>

definition heap_from :: "('a \<Rightarrow> 'k :: linorder) \<Rightarrow> nat \<Rightarrow> nat \<Rightarrow> 'a list \<Rightarrow> bool" where
  "heap_from key lo n xs \<longleftrightarrow> (\<forall>j<n. 0 < j \<and> lo \<le> (j - 1) div 2 \<longrightarrow> key (xs ! ((j - 1) div 2)) \<le> key (xs ! j))"

text \<open>The same but for the children of \<open>i\<close>, which still respect their grandparent.\<close>

definition heap_hole :: "('a \<Rightarrow> 'k :: linorder) \<Rightarrow> nat \<Rightarrow> nat \<Rightarrow> nat \<Rightarrow> 'a list \<Rightarrow> bool" where
  "heap_hole key lo i n xs \<longleftrightarrow> lo \<le> i \<and>
     (\<forall>j<n. 0 < j \<and> lo \<le> (j - 1) div 2 \<and> (j - 1) div 2 \<noteq> i \<longrightarrow> key (xs ! ((j - 1) div 2)) \<le> key (xs ! j)) \<and>
     (\<forall>j<n. 0 < j \<and> (j - 1) div 2 = i \<and> 0 < i \<and> lo \<le> (i - 1) div 2 \<longrightarrow> key (xs ! ((i - 1) div 2)) \<le> key (xs ! j))"

text \<open>Or but for \<open>i\<close> itself, whose children respect its parent.\<close>

definition heap_raised :: "('a \<Rightarrow> 'k :: linorder) \<Rightarrow> nat \<Rightarrow> 'a list \<Rightarrow> bool" where
  "heap_raised key i xs \<longleftrightarrow>
     (\<forall>j<length xs. 0 < j \<and> j \<noteq> i \<longrightarrow> key (xs ! ((j - 1) div 2)) \<le> key (xs ! j)) \<and>
     (\<forall>j<length xs. 0 < j \<and> (j - 1) div 2 = i \<and> 0 < i \<longrightarrow> key (xs ! ((i - 1) div 2)) \<le> key (xs ! j))"

lemma children: "0 < j \<Longrightarrow> (j - 1) div 2 = i \<longleftrightarrow> j = 2 * i + 1 \<or> j = 2 * i + 2" for j i :: nat
  by auto

lemma parent_less: "0 < i \<Longrightarrow> (i - 1) div 2 < i" for i :: nat
  by linarith

locale min_heap =
  fixes lt :: "'a \<Rightarrow> 'a \<Rightarrow> bool" and key :: "'a \<Rightarrow> 'k :: linorder"
  assumes less_key: "lt x y \<longleftrightarrow> key x < key y"
begin

lemma smaller_child_least:
  assumes "2 * i + 1 < n" "j < n" "0 < j" "(j - 1) div 2 = i"
  shows "key (xs ! smaller_child lt i n xs) \<le> key (xs ! j)"
  using assms unfolding children [OF assms(3)] by (auto simp: smaller_child_def Let_def less_key)

lemma down_step:
  assumes hole: "heap_hole key lo i n xs" and n: "n \<le> length xs" "2 * i + 1 < n"
    and smaller: "key (xs ! smaller_child lt i n xs) < key (xs ! i)"
  shows "heap_hole key lo (smaller_child lt i n xs) n (swap i (smaller_child lt i n xs) xs)"
proof -
  let ?c = "smaller_child lt i n xs"
  let ?ys = "swap i ?c xs"
  note c = smaller_child_range [OF n(2), of lt xs]
  have nth: "?ys ! k = (if k = ?c then xs ! i else if k = i then xs ! ?c else xs ! k)" if "k < n" for k
    using that n c by (intro nth_swap) auto
  have order: "key (?ys ! ((j - 1) div 2)) \<le> key (?ys ! j)"
    if j: "j < n" "0 < j" "lo \<le> (j - 1) div 2" "(j - 1) div 2 \<noteq> ?c" for j
  proof (cases "(j - 1) div 2 = i")
    case True
    then have "?ys ! ((j - 1) div 2) = xs ! ?c" using nth [of i] c n by auto
    moreover have "key (xs ! ?c) \<le> key (?ys ! j)"
      using smaller_child_least [OF n(2) j(1,2) True, of xs] smaller nth [OF j(1)] True by auto
    ultimately show ?thesis by simp
  next
    case False
    have p: "(j - 1) div 2 < n" using j by auto
    have "?ys ! ((j - 1) div 2) = xs ! ((j - 1) div 2)" using nth [OF p] False j(4) by simp
    moreover have "key (xs ! ((j - 1) div 2)) \<le> key (?ys ! j)"
    proof (cases "j = i")
      case True
      have "key (xs ! ((i - 1) div 2)) \<le> key (xs ! ?c)"
        using hole c j True unfolding heap_hole_def by auto
      then show ?thesis using nth [OF j(1)] True c by simp
    next
      case False
      have "j \<noteq> ?c" using \<open>(j - 1) div 2 \<noteq> i\<close> c by auto
      then show ?thesis using nth [OF j(1)] False hole j \<open>(j - 1) div 2 \<noteq> i\<close> unfolding heap_hole_def by simp
    qed
    ultimately show ?thesis by simp
  qed
  have grand: "key (?ys ! ((?c - 1) div 2)) \<le> key (?ys ! j)" if j: "j < n" "0 < j" "(j - 1) div 2 = ?c" for j
  proof -
    have "j \<noteq> ?c" "j \<noteq> i" using j c by auto
    then have "?ys ! j = xs ! j" using nth [OF j(1)] by simp
    moreover have "?ys ! ((?c - 1) div 2) = xs ! ?c" using nth [of i] c n by auto
    moreover have "key (xs ! ?c) \<le> key (xs ! j)" using hole j c unfolding heap_hole_def by auto
    ultimately show ?thesis by simp
  qed
  show ?thesis using hole c order grand unfolding heap_hole_def by auto
qed

lemma down_heap: "heap_hole key lo i n xs \<Longrightarrow> n \<le> length xs \<Longrightarrow> heap_from key lo n (heap_down lt i n xs)"
proof (induction "n - i" arbitrary: i xs rule: less_induct)
  case less
  show ?case
  proof (cases "2 * i + 1 < n")
    case False
    then have "(j - 1) div 2 \<noteq> i" if "j < n" "0 < j" for j using that by (auto simp: children)
    then have "heap_from key lo n xs" using less.prems(1) unfolding heap_hole_def heap_from_def by blast
    then show ?thesis using False by (subst heap_down.simps) simp
  next
    case True
    let ?c = "smaller_child lt i n xs"
    note c = smaller_child_range [OF True, of lt xs]
    show ?thesis
    proof (cases "lt (xs ! ?c) (xs ! i)")
      case swap: True
      then have "heap_hole key lo ?c n (swap i ?c xs)" by (intro down_step less.prems True) (simp add: less_key)
      then have "heap_from key lo n (heap_down lt ?c n (swap i ?c xs))"
        using c less.prems(2) by (intro less.hyps) auto
      then show ?thesis using True swap by (subst heap_down.simps) (simp add: Let_def)
    next
      case stop: False
      have "key (xs ! i) \<le> key (xs ! j)" if "j < n" "0 < j" "(j - 1) div 2 = i" for j
        using smaller_child_least [OF True that, of xs] stop by (simp add: less_key)
      then have "heap_from key lo n xs" using less.prems(1) unfolding heap_hole_def heap_from_def by blast
      then show ?thesis using True stop by (subst heap_down.simps) (simp add: Let_def)
    qed
  qed
qed

lemma up_heap: "heap_raised key j xs \<Longrightarrow> j < length xs \<Longrightarrow> heap_from key 0 (length xs) (heap_up lt j xs)"
proof (induction j arbitrary: xs rule: less_induct)
  case (less j)
  let ?i = "(j - 1) div 2"
  show ?case
  proof (cases "?i = j \<or> \<not> lt (xs ! j) (xs ! ?i)")
    case True
    then have "0 < j \<Longrightarrow> key (xs ! ?i) \<le> key (xs ! j)" by (auto simp: less_key)
    then have "heap_from key 0 (length xs) xs" using less.prems(1) unfolding heap_raised_def heap_from_def by metis
    then show ?thesis using True by (subst heap_up.simps) (simp add: Let_def)
  next
    case False
    then have i: "?i < j" "0 < j" "key (xs ! j) < key (xs ! ?i)" by (auto simp: less_key)
    let ?ys = "swap ?i j xs"
    have nth: "?ys ! k = (if k = j then xs ! ?i else if k = ?i then xs ! j else xs ! k)" if "k < length xs" for k
      using that i less.prems(2) by (intro nth_swap) auto
    have order: "key (?ys ! ((k - 1) div 2)) \<le> key (?ys ! k)" if k: "k < length xs" "0 < k" "k \<noteq> ?i" for k
    proof -
      have p: "(k - 1) div 2 < length xs" using k by auto
      consider "k = j" | "k \<noteq> j" "(k - 1) div 2 = j" | "k \<noteq> j" "(k - 1) div 2 = ?i" | "k \<noteq> j" "(k - 1) div 2 \<noteq> j" "(k - 1) div 2 \<noteq> ?i" by blast
      then show ?thesis
      proof cases
        case 1
        then show ?thesis using nth [OF p] nth [OF k(1)] i by simp
      next
        case 2
        then have "key (xs ! ?i) \<le> key (xs ! k)" using less.prems(1) k i(2) unfolding heap_raised_def by blast
        then show ?thesis using 2 k nth [OF p] nth [OF k(1)] by simp
      next
        case 3
        then have "key (xs ! ?i) \<le> key (xs ! k)" using less.prems(1) k unfolding heap_raised_def by metis
        then show ?thesis using 3 k nth [OF p] nth [OF k(1)] i by simp
      next
        case 4
        then have "key (xs ! ((k - 1) div 2)) \<le> key (xs ! k)" using less.prems(1) k unfolding heap_raised_def by blast
        then show ?thesis using 4 k nth [OF p] nth [OF k(1)] by simp
      qed
    qed
    have grand: "key (?ys ! ((?i - 1) div 2)) \<le> key (?ys ! k)" if k: "k < length xs" "0 < k" "(k - 1) div 2 = ?i" "0 < ?i" for k
    proof -
      have g: "(?i - 1) div 2 < length xs" "(?i - 1) div 2 \<noteq> j" "(?i - 1) div 2 \<noteq> ?i" "?i < length xs" "?i \<noteq> j" "k \<noteq> ?i"
        using parent_less [OF k(4)] parent_less [OF k(2)] i less.prems(2) unfolding k(3) by linarith+
      have up: "key (xs ! ((?i - 1) div 2)) \<le> key (xs ! ?i)" using less.prems(1) g k(4) unfolding heap_raised_def by blast
      have "key (xs ! ?i) \<le> key (?ys ! k)"
      proof (cases "k = j")
        case True
        then show ?thesis using nth [OF k(1)] by simp
      next
        case False
        then have "key (xs ! ?i) \<le> key (xs ! k)" using less.prems(1) k(1,2,3) unfolding heap_raised_def by metis
        then show ?thesis using nth [OF k(1)] False g by simp
      qed
      then show ?thesis using up nth [OF g(1)] g by simp
    qed
    have "heap_raised key ?i ?ys" unfolding heap_raised_def using order grand by simp
    then have "heap_from key 0 (length ?ys) (heap_up lt ?i ?ys)" using i less.prems(2) by (intro less.IH) auto
    then show ?thesis using False by (subst heap_up.simps) (simp add: Let_def)
  qed
qed

lemma heap_least: "heap_from key 0 n xs \<Longrightarrow> j < n \<Longrightarrow> key (xs ! 0) \<le> key (xs ! j)"
proof (induction j rule: less_induct)
  case (less j)
  show ?case
  proof (cases "j = 0")
    case False
    then have "key (xs ! 0) \<le> key (xs ! ((j - 1) div 2))" using less by auto
    also have "\<dots> \<le> key (xs ! j)" using less.prems False by (simp add: heap_from_def)
    finally show ?thesis .
  qed simp
qed

lemma Init_heap: "heap_from key 0 (length xs) (heap_Init lt xs) \<and> mset (heap_Init lt xs) = mset xs"
proof -
  have "heap_from key 0 (length xs) (fold (\<lambda>i ys. heap_down lt i (length ys) ys) (rev [0 ..< m]) ys) \<and>
      mset (fold (\<lambda>i ys. heap_down lt i (length ys) ys) (rev [0 ..< m]) ys) = mset xs"
    if "heap_from key m (length xs) ys" "mset ys = mset xs" for m ys
    using that
  proof (induction m arbitrary: ys)
    case (Suc m)
    have len: "length ys = length xs" using Suc.prems(2) by (rule mset_eq_length)
    have "heap_hole key m m (length xs) ys" using Suc.prems(1) unfolding heap_hole_def heap_from_def by auto
    then have "heap_from key m (length xs) (heap_down lt m (length ys) ys)" using down_heap [of m m "length xs" ys] len by simp
    moreover have "mset (heap_down lt m (length ys) ys) = mset xs" using mset_heap_down [of "length ys" ys lt m] Suc.prems(2) by simp
    ultimately show ?case using Suc.IH by simp
  qed simp
  moreover have "heap_from key (length xs div 2) (length xs) xs" by (auto simp: heap_from_def)
  ultimately show ?thesis unfolding heap_Init_def by blast
qed

lemma Push_heap:
  assumes "heap_from key 0 (length xs) xs"
  shows "heap_from key 0 (Suc (length xs)) (heap_Push lt x xs)" "mset (heap_Push lt x xs) = add_mset x (mset xs)"
proof -
  have "heap_raised key (length xs) (xs @ [x])"
    using assms unfolding heap_raised_def heap_from_def by (auto simp: nth_append less_Suc_eq)
  from up_heap [OF this] show "heap_from key 0 (Suc (length xs)) (heap_Push lt x xs)" by (simp add: heap_Push_def)
  show "mset (heap_Push lt x xs) = add_mset x (mset xs)" by (simp add: heap_Push_def mset_heap_up)
qed

lemma Pop_heap:
  assumes "heap_from key 0 (length xs) xs" "xs \<noteq> []" "heap_Pop lt xs = (x, ys)"
  shows "heap_from key 0 (length ys) ys" "mset xs = add_mset x (mset ys)" "\<And>y. y \<in> set xs \<Longrightarrow> key x \<le> key y"
proof -
  let ?n = "length xs - 1"
  let ?zs = "swap 0 ?n xs"
  have n: "?n < length xs" using assms(2) by simp
  have x: "x = last (heap_down lt 0 ?n ?zs)" and ys: "ys = butlast (heap_down lt 0 ?n ?zs)"
    using assms(3) by (simp_all add: heap_Pop_def Let_def)
  have ne: "heap_down lt 0 ?n ?zs \<noteq> []" using assms(2) by (metis length_0_conv length_heap_down length_swap)
  have "heap_down lt 0 ?n ?zs ! ?n = ?zs ! ?n" using n by (intro heap_down_above) auto
  also have "\<dots> = xs ! 0" using n assms(2) by (simp add: nth_swap)
  finally have x0: "x = xs ! 0" unfolding x last_conv_nth [OF ne] by simp
  show "\<And>y. y \<in> set xs \<Longrightarrow> key x \<le> key y" unfolding x0 using heap_least [OF assms(1)] by (metis in_set_conv_nth)
  have "mset (heap_down lt 0 ?n ?zs) = mset xs" using n mset_swapped [of 0 xs ?n] assms(2) by (simp add: mset_heap_down)
  moreover have "mset (heap_down lt 0 ?n ?zs) = add_mset x (mset ys)"
    unfolding x ys using ne by (metis append_butlast_last_id mset_append mset.simps add.right_neutral union_mset_add_mset_right)
  ultimately show "mset xs = add_mset x (mset ys)" by simp
  have "key (?zs ! ((j - 1) div 2)) \<le> key (?zs ! j)" if j: "j < ?n" "0 < j" "(j - 1) div 2 \<noteq> 0" for j
  proof -
    have "(j - 1) div 2 < ?n" using parent_less [OF j(2)] j(1) by simp
    then have "?zs ! ((j - 1) div 2) = xs ! ((j - 1) div 2)" "?zs ! j = xs ! j"
      using j n assms(2) nth_swap [of 0 xs ?n "(j - 1) div 2"] nth_swap [of 0 xs ?n j] by (simp_all split: if_splits)
    then show ?thesis using assms(1) j unfolding heap_from_def by simp
  qed
  then have "heap_hole key 0 0 ?n ?zs" unfolding heap_hole_def by blast
  from down_heap [OF this] n have "heap_from key 0 ?n (heap_down lt 0 ?n ?zs)" by simp
  then show "heap_from key 0 (length ys) ys" unfolding ys heap_from_def by (auto simp: nth_butlast)
qed

end

end
