(* ===== verification/Merge.thy ===== *)
theory Merge
  imports LogicalHash Heap
begin

text \<open>
  \<open>src/replay/merge.go\<close> and the entry points of \<open>native.go\<close>: the merge of the source
  streams in the order the collector observed them.  The goroutine of a source and
  its channel are a stream: the events still to come and the error sent after them.
  As in \<open>Replay\<close>, the loops give the events they emit and the error they end with,
  and the entry points fold the logical hash and the emitter over them.

  The lemmas show that the heap merge is the greedy merge that always takes the
  least head, and that it keeps every event and the order of each source.
\<close>

type_synonym stream = "event list \<times> replay_error option"

subsection \<open>The merge\<close>

definition compareMergeCoordinate :: "coordinate \<Rightarrow> coordinate \<Rightarrow> int" where
  "compareMergeCoordinate l r =
     compare_then (co_received l) (co_received r) (compare_then (co_source l) (co_source r)
       (compare_then (co_epoch_first l) (co_epoch_first r) (compare_then (co_epoch l) (co_epoch r)
         (compare_then (co_arrival l) (co_arrival r) (compare_then (co_message l) (co_message r) 0)))))"

text \<open>A head is its source index and its event; \<open>Push\<close> and \<open>Pop\<close> of the heap interface append and drop the last.\<close>

type_synonym merge_head = "nat \<times> event"

definition headHeap_Less :: "merge_head \<Rightarrow> merge_head \<Rightarrow> bool" where
  "headHeap_Less a b \<longleftrightarrow> compareMergeCoordinate (ev_coord (snd a)) (ev_coord (snd b)) < 0"

datatype item = ItemEvent event | ItemError replay_error | Closed

text \<open>Receiving from the channel of a source (every index used is that of a stream).\<close>

definition recv_item :: "nat \<Rightarrow> stream list \<Rightarrow> item \<times> stream list" where
  "recv_item i ss =
     (if i < length ss then
        (case ss ! i of
           (ev # evs, err) \<Rightarrow> (ItemEvent ev, ss[i := (evs, err)])
         | ([], Some err) \<Rightarrow> (ItemError err, ss[i := ([], None)])
         | ([], None) \<Rightarrow> (Closed, ss))
      else (Closed, ss))"

fun first_heads :: "nat list \<Rightarrow> merge_head list \<Rightarrow> stream list \<Rightarrow> replay_error + merge_head list \<times> stream list" where
  "first_heads [] heads ss = Inr (heads, ss)"
| "first_heads (i # rest) heads ss =
     (case recv_item i ss of
        (Closed, ss') \<Rightarrow> first_heads rest heads ss'
      | (ItemError err, ss') \<Rightarrow> Inl err
      | (ItemEvent ev, ss') \<Rightarrow> first_heads rest (heads @ [(i, ev)]) ss')"

definition stream_size :: "stream list \<Rightarrow> nat" where
  "stream_size ss = sum_list (map (\<lambda>s. length (fst s)) ss)"

lemma length_heap_Pop: "heap_Pop lt xs = (x, ys) \<Longrightarrow> length ys = length xs - 1"
  by (auto simp: heap_Pop_def Let_def)

lemma length_heap_Push: "length (heap_Push lt x xs) = Suc (length xs)"
  by (simp add: heap_Push_def)

lemma stream_size_update:
  "i < length ss \<Longrightarrow> stream_size (ss[i := s]) + length (fst (ss ! i)) = stream_size ss + length (fst s)"
  unfolding stream_size_def
proof (induction ss arbitrary: i)
  case (Cons a ss)
  then show ?case by (cases i) auto
qed simp

lemma recv_size:
  assumes "recv_item i ss = (it, ss')"
  shows "(\<exists>ev. it = ItemEvent ev) \<Longrightarrow> Suc (stream_size ss') = stream_size ss"
    "it = Closed \<Longrightarrow> ss' = ss" "length ss' = length ss"
  using assms stream_size_update [of i ss "(tl (fst (ss ! i)), snd (ss ! i))"]
  by (auto simp: recv_item_def split: prod.splits list.splits option.splits if_splits)

function merge_loop :: "merge_head list \<Rightarrow> stream list \<Rightarrow> event list \<times> replay_error option" where
  "merge_loop heads ss =
     (if heads = [] then ([], None)
      else (case heap_Pop headHeap_Less heads of ((source, event), heads') \<Rightarrow>
        (case recv_item source ss of
           (Closed, ss') \<Rightarrow> (case merge_loop heads' ss of (later, err) \<Rightarrow> (event # later, err))
         | (ItemError err, ss') \<Rightarrow> ([event], Some err)
         | (ItemEvent ev, ss') \<Rightarrow>
             (case merge_loop (heap_Push headHeap_Less (source, ev) heads') ss' of (later, err) \<Rightarrow> (event # later, err)))))"
  by pat_completeness auto
termination
  by (relation "measure (\<lambda>(heads, ss). length heads + stream_size ss)")
    (auto dest!: length_heap_Pop [OF sym] recv_size(1) [OF sym] simp: length_heap_Push neq_Nil_conv)

declare merge_loop.simps [simp del]

definition merge_streams :: "stream list \<Rightarrow> event list \<times> replay_error option" where
  "merge_streams ss =
     (case first_heads [0 ..< length ss] [] ss of
        Inl err \<Rightarrow> ([], Some err)
      | Inr (heads, ss') \<Rightarrow> merge_loop (heap_Init headHeap_Less heads) ss')"

subsection \<open>Entry points\<close>

definition SourceNativeOrder :: string where "SourceNativeOrder = ''source-native''"
definition CollectorObservedOrder :: string where "CollectorObservedOrder = ''collector-observed''"

record replay_result =
  rr_order :: string
  rr_version :: u16
  rr_hash :: hash
  rr_count :: u64

datatype replay_outcome = Returned replay_result | Failed replay_error

text \<open>
  Delivering events in an order: each is labelled, hashed, handed to the emitter and
  counted.  The emitter has a state of its own, which is returned with the outcome.
\<close>

fun deliver :: "(bytes \<Rightarrow> hash) \<Rightarrow> ('s \<Rightarrow> event \<Rightarrow> string + 's) \<Rightarrow> string \<Rightarrow> 's \<Rightarrow> bytes \<Rightarrow> u64 \<Rightarrow> event list \<Rightarrow> replay_error option \<Rightarrow>
    's \<times> replay_outcome" where
  "deliver sha emit order s h n [] err =
     (s, case err of Some e \<Rightarrow> Failed e
         | None \<Rightarrow> Returned \<lparr>rr_order = order, rr_version = LogicalHashVersionV1, rr_hash = hasher_sum sha h, rr_count = n\<rparr>)"
| "deliver sha emit order s h n (ev # evs) err =
     (case writeEvent sha h (ev\<lparr>ev_order := order\<rparr>) of
        Inl e \<Rightarrow> (s, Failed e)
      | Inr h' \<Rightarrow>
          (case emit s (ev\<lparr>ev_order := order\<rparr>) of
             Inl msg \<Rightarrow> (s, Failed (ErrEmitter msg))
           | Inr s' \<Rightarrow> deliver sha emit order s' h' (n + 1) evs err))"

definition initial_hash :: bytes where
  "initial_hash = logicalHashDomainV1 @ be_u16 LogicalHashVersionV1"

definition ReplaySource :: "(bytes \<Rightarrow> hash) \<Rightarrow> zstd_lib \<Rightarrow> (string \<Rightarrow> fetched) \<Rightarrow> (epoch_plan \<Rightarrow> nat list) \<Rightarrow> input_descriptor list \<Rightarrow>
    replay_config \<Rightarrow> ('s \<Rightarrow> event \<Rightarrow> string + 's) \<Rightarrow> 's \<Rightarrow> ('s \<times> replay_outcome) option" where
  "ReplaySource sha z reader sched inputs config emit s =
     (case normalized config of
        Inl err \<Rightarrow> Some (s, Failed err)
      | Inr cfg \<Rightarrow>
          (case buildSourcePlans inputs cfg of
             Inl err \<Rightarrow> Some (s, Failed err)
           | Inr [plan] \<Rightarrow>
               (case replaySourcePlan sha z reader sched plan of
                  None \<Rightarrow> None
                | Some (events, err) \<Rightarrow> Some (deliver sha emit SourceNativeOrder s initial_hash 0 events err))
           | Inr plans \<Rightarrow> Some (s, Failed ErrInvalidInput)))"

fun all_streams :: "(bytes \<Rightarrow> hash) \<Rightarrow> zstd_lib \<Rightarrow> (string \<Rightarrow> fetched) \<Rightarrow> (epoch_plan \<Rightarrow> nat list) \<Rightarrow> source_plan list \<Rightarrow> stream list option" where
  "all_streams sha z reader sched [] = Some []"
| "all_streams sha z reader sched (plan # plans) =
     (case replaySourcePlan sha z reader sched plan of
        None \<Rightarrow> None
      | Some s \<Rightarrow> (case all_streams sha z reader sched plans of None \<Rightarrow> None | Some ss \<Rightarrow> Some (s # ss)))"

definition ReplayCollectorObserved :: "(bytes \<Rightarrow> hash) \<Rightarrow> zstd_lib \<Rightarrow> (string \<Rightarrow> fetched) \<Rightarrow> (epoch_plan \<Rightarrow> nat list) \<Rightarrow> input_descriptor list \<Rightarrow>
    replay_config \<Rightarrow> ('s \<Rightarrow> event \<Rightarrow> string + 's) \<Rightarrow> 's \<Rightarrow> ('s \<times> replay_outcome) option" where
  "ReplayCollectorObserved sha z reader sched inputs config emit s =
     (case normalized config of
        Inl err \<Rightarrow> Some (s, Failed err)
      | Inr cfg \<Rightarrow>
          (case buildSourcePlans inputs cfg of
             Inl err \<Rightarrow> Some (s, Failed err)
           | Inr plans \<Rightarrow>
               (case all_streams sha z reader sched plans of
                  None \<Rightarrow> None
                | Some ss \<Rightarrow>
                    (case merge_streams ss of
                       (events, err) \<Rightarrow> Some (deliver sha emit CollectorObservedOrder s initial_hash 0 events err)))))"

subsection \<open>The greedy merge\<close>

definition merge_key :: "event \<Rightarrow> i64 \<times> string \<times> i64 \<times> string \<times> u64 \<times> u32" where
  "merge_key ev = (let c = ev_coord ev in (co_received c, co_source c, co_epoch_first c, co_epoch c, co_arrival c, co_message c))"

lemma compareMergeCoordinate_key: "compareMergeCoordinate (ev_coord a) (ev_coord b) < 0 \<longleftrightarrow> merge_key a < merge_key b"
  by (auto simp: compareMergeCoordinate_def compare_then_le merge_key_def less_prod_def Let_def)

interpretation heads: min_heap headHeap_Less "\<lambda>h. merge_key (snd h)"
  by unfold_locales (simp add: headHeap_Less_def compareMergeCoordinate_key)

text \<open>The reference: report a stream that has failed; otherwise take the least head of all streams.\<close>

fun failed_stream :: "stream list \<Rightarrow> replay_error option" where
  "failed_stream [] = None"
| "failed_stream (([], Some err) # ss) = Some err"
| "failed_stream (s # ss) = failed_stream ss"

fun least_head :: "stream list \<Rightarrow> (nat \<times> event) option" where
  "least_head [] = None"
| "least_head (s # ss) =
     (let rest = map_option (\<lambda>(i, ev). (Suc i, ev)) (least_head ss) in
      case fst s of
        [] \<Rightarrow> rest
      | ev # _ \<Rightarrow> (case rest of None \<Rightarrow> Some (0, ev) | Some (j, e) \<Rightarrow> if merge_key ev \<le> merge_key e then Some (0, ev) else rest))"

definition advance :: "nat \<Rightarrow> stream list \<Rightarrow> stream list" where
  "advance i ss = ss[i := (tl (fst (ss ! i)), snd (ss ! i))]"

lemma least_head_Some: "least_head ss = Some (i, ev) \<Longrightarrow> i < length ss \<and> (\<exists>evs. fst (ss ! i) = ev # evs)"
proof (induction ss arbitrary: i ev)
  case (Cons s ss)
  show ?case
  proof (cases i)
    case 0
    then show ?thesis using Cons.prems by (auto simp: Let_def split: list.splits option.splits if_splits prod.splits)
  next
    case (Suc j)
    then have "least_head ss = Some (j, ev)"
      using Cons.prems by (auto simp: Let_def split: list.splits option.splits if_splits prod.splits)
    then show ?thesis using Cons.IH Suc by auto
  qed
qed simp

lemma advance_size: "least_head ss = Some (i, ev) \<Longrightarrow> stream_size (advance i ss) < stream_size ss"
  using least_head_Some [of ss i ev] stream_size_update [of i ss "(tl (fst (ss ! i)), snd (ss ! i))"] by (auto simp: advance_def)

function greedy_merge :: "stream list \<Rightarrow> event list \<times> replay_error option" where
  "greedy_merge ss =
     (case failed_stream ss of
        Some err \<Rightarrow> ([], Some err)
      | None \<Rightarrow>
          (case least_head ss of
             None \<Rightarrow> ([], None)
           | Some (i, ev) \<Rightarrow> (case greedy_merge (advance i ss) of (later, err) \<Rightarrow> (ev # later, err))))"
  by pat_completeness auto
termination by (relation "measure stream_size") (auto intro: advance_size)

declare greedy_merge.simps [simp del]

lemma least_head_None: "least_head ss = None \<longleftrightarrow> list_all (\<lambda>s. fst s = []) ss"
  by (induction ss) (auto simp: Let_def split: list.splits option.splits)

lemma least_head_least:
  "least_head ss = Some (i, ev) \<Longrightarrow> j < length ss \<Longrightarrow> fst (ss ! j) = e # es \<Longrightarrow> merge_key ev \<le> merge_key e"
proof (induction ss arbitrary: i ev j)
  case (Cons s ss)
  show ?case
  proof (cases j)
    case 0
    then show ?thesis using Cons.prems by (auto simp: Let_def split: option.splits if_splits prod.splits)
  next
    case (Suc k)
    have "least_head ss \<noteq> None" using Cons.prems Suc unfolding least_head_None by (auto simp: list_all_length)
    then obtain i' e' where l: "least_head ss = Some (i', e')" by fastforce
    have "merge_key e' \<le> merge_key e" using Cons.IH [OF l] Cons.prems Suc by simp
    then show ?thesis using Cons.prems(1) l by (auto simp: Let_def split: list.splits if_splits)
  qed
qed simp

lemma failed_stream_None: "failed_stream ss = None \<longleftrightarrow> list_all (\<lambda>s. fst s = [] \<longrightarrow> snd s = None) ss"
proof (induction ss)
  case (Cons s ss)
  then show ?case by (cases "fst s"; cases "snd s"; cases s) auto
qed simp

lemma failed_stream_update:
  "failed_stream ss = None \<Longrightarrow> i < length ss \<Longrightarrow> failed_stream (ss[i := (evs, err)]) = (if evs = [] then err else None)"
proof (induction ss arbitrary: i)
  case (Cons s ss)
  have r: "failed_stream ss = None" "failed_stream (s # ss') = failed_stream ss'" for ss'
    using Cons.prems(1) by (cases s; cases "fst s"; cases "snd s"; auto)+
  show ?case
  proof (cases i)
    case 0
    then show ?thesis using r by (cases evs; cases err) auto
  next
    case (Suc j)
    then show ?thesis using Cons r by simp
  qed
qed simp

fun heads_from :: "nat \<Rightarrow> stream list \<Rightarrow> merge_head list" where
  "heads_from k [] = []"
| "heads_from k (s # ss) = (case fst s of [] \<Rightarrow> [] | ev # _ \<Rightarrow> [(k, ev)]) @ heads_from (Suc k) ss"

definition behind :: "stream \<Rightarrow> stream" where
  "behind s = (tl (fst s), snd s)"

lemma heads_from_mem: "(i, ev) \<in> set (heads_from k ss) \<longleftrightarrow> k \<le> i \<and> i < k + length ss \<and> (\<exists>evs. fst (ss ! (i - k)) = ev # evs)"
proof (induction ss arbitrary: k)
  case (Cons s ss)
  have "(i, ev) \<in> set (heads_from k (s # ss)) \<longleftrightarrow> i = k \<and> (\<exists>evs. fst s = ev # evs) \<or> (i, ev) \<in> set (heads_from (Suc k) ss)"
    by (cases "fst s") auto
  also have "\<dots> \<longleftrightarrow> k \<le> i \<and> i < k + length (s # ss) \<and> (\<exists>evs. fst ((s # ss) ! (i - k)) = ev # evs)"
    unfolding Cons.IH by (cases "i = k") (auto simp: nth_Cons' Suc_diff_le)
  finally show ?case .
qed simp

lemma heads_from_update:
  "i < length ss \<Longrightarrow> mset (heads_from k (ss[i := s])) + mset (case fst (ss ! i) of [] \<Rightarrow> [] | ev # _ \<Rightarrow> [(k + i, ev)]) =
     mset (heads_from k ss) + mset (case fst s of [] \<Rightarrow> [] | ev # _ \<Rightarrow> [(k + i, ev)])"
proof (induction ss arbitrary: i k)
  case (Cons a ss)
  show ?case
  proof (cases i)
    case (Suc j)
    have k: "Suc k + j = k + i" using Suc by simp
    show ?thesis using Cons.IH [of j "Suc k", unfolded k] Cons.prems Suc by (simp add: add.assoc)
  next
    case 0
    have "k + 0 = k" by simp
    then show ?thesis unfolding 0 by simp
  qed
qed simp

lemma first_heads_run:
  "first_heads [length pre ..< length pre + length suf] heads (map behind pre @ suf) =
     (case failed_stream suf of
        Some err \<Rightarrow> Inl err
      | None \<Rightarrow> Inr (heads @ heads_from (length pre) suf, map behind (pre @ suf)))"
proof (induction suf arbitrary: pre heads)
  case (Cons s suf)
  note ih = Cons.IH [of "pre @ [s]"]
  have upt: "[length pre ..< length pre + length (s # suf)] = length pre # [length (pre @ [s]) ..< length (pre @ [s]) + length suf]"
    by (simp add: upt_conv_Cons del: upt_Suc)
  obtain evs err where s: "s = (evs, err)" by fastforce
  show ?case
  proof (cases evs)
    case (Cons ev es)
    then show ?thesis unfolding upt using ih by (simp add: s recv_item_def behind_def nth_append list_update_append del: upt_Suc split: option.splits)
  next
    case Nil
    then show ?thesis unfolding upt using ih
      by (cases err) (simp_all add: s recv_item_def behind_def nth_append del: upt_Suc split: option.splits)
  qed
qed simp

text \<open>Each stream belongs to a source of its own, so two heads never tie.\<close>

definition sourced :: "string list \<Rightarrow> stream list \<Rightarrow> bool" where
  "sourced srcs ss \<longleftrightarrow> length srcs = length ss \<and> distinct srcs \<and>
     (\<forall>i<length ss. \<forall>ev\<in>set (fst (ss ! i)). co_source (ev_coord ev) = srcs ! i)"

lemma sourced_advance:
  assumes "sourced srcs ss"
  shows "sourced srcs (advance i ss)"
proof -
  have tl: "set (tl xs) \<subseteq> set xs" for xs :: "event list" by (cases xs) auto
  have "set (fst (advance i ss ! j)) \<subseteq> set (fst (ss ! j))" if "j < length ss" for j
    using that tl by (cases "j = i") (simp_all add: advance_def)
  then show ?thesis using assms by (fastforce simp: sourced_def advance_def)
qed

lemma least_head_unique:
  assumes "sourced srcs ss" "i < length ss" "fst (ss ! i) = ev # evs"
    "\<And>j e es. j < length ss \<Longrightarrow> fst (ss ! j) = e # es \<Longrightarrow> merge_key ev \<le> merge_key e"
  shows "least_head ss = Some (i, ev)"
proof -
  have "\<not> list_all (\<lambda>s. fst s = []) ss" using assms(2,3) by (auto simp: list_all_length)
  then obtain j e where l: "least_head ss = Some (j, e)" using least_head_None [of ss] by fastforce
  obtain es where j: "j < length ss" "fst (ss ! j) = e # es" using least_head_Some [OF l] by blast
  have "merge_key ev = merge_key e" using assms(4) [OF j] least_head_least [OF l assms(2,3)] by (rule order.antisym)
  then have "co_source (ev_coord ev) = co_source (ev_coord e)" by (simp add: merge_key_def Let_def)
  then have "srcs ! i = srcs ! j" using assms(1-3) j unfolding sourced_def by auto
  then have "i = j" using assms(1,2) j(1) by (simp add: sourced_def nth_eq_iff_index_eq)
  then show ?thesis using l assms(3) j(2) by simp
qed

lemma merge_loop_greedy:
  assumes "sourced srcs ss" "failed_stream ss = None" "heap_from (\<lambda>h. merge_key (snd h)) 0 (length heads) heads"
    "mset heads = mset (heads_from 0 ss)"
  shows "merge_loop heads (map behind ss) = greedy_merge ss"
  using assms
proof (induction "stream_size ss" arbitrary: ss heads rule: less_induct)
  case less
  show ?case
  proof (cases "heads = []")
    case True
    then have "heads_from 0 ss = []" using less.prems(4) by simp
    then have "list_all (\<lambda>s. fst s = []) ss"
      using heads_from_mem [of _ _ 0 ss] by (auto simp: list_all_length) (metis list.exhaust)
    then have "least_head ss = None" by (simp only: least_head_None)
    then show ?thesis using True less.prems(2) by (simp add: merge_loop.simps [of "[]"] greedy_merge.simps [of ss])
  next
    case False
    obtain i ev heads' where pop: "heap_Pop headHeap_Less heads = ((i, ev), heads')" by (metis surj_pair)
    note p = heads.Pop_heap [OF less.prems(3) False pop]
    have set: "set heads = set (heads_from 0 ss)" using less.prems(4) by (rule mset_eq_setD)
    have "(i, ev) \<in> set heads" using p(2) by (metis set_mset_mset union_single_eq_member)
    then obtain evs where i: "i < length ss" "fst (ss ! i) = ev # evs" unfolding set heads_from_mem by auto
    have l: "least_head ss = Some (i, ev)"
    proof (rule least_head_unique [OF less.prems(1) i])
      fix j e es assume "j < length ss" "fst (ss ! j) = e # es"
      then have "(j, e) \<in> set heads" unfolding set heads_from_mem by simp
      from p(3) [OF this] show "merge_key ev \<le> merge_key e" by simp
    qed
    have adv: "advance i ss = ss[i := (evs, snd (ss ! i))]" using i(2) by (simp add: advance_def)
    have small: "stream_size (advance i ss) < stream_size ss" using advance_size [OF l] .
    have failed: "failed_stream (advance i ss) = (if evs = [] then snd (ss ! i) else None)"
      unfolding adv by (rule failed_stream_update [OF less.prems(2) i(1)])
    have g: "greedy_merge ss = (case greedy_merge (advance i ss) of (later, err) \<Rightarrow> (ev # later, err))"
      using less.prems(2) l by (simp add: greedy_merge.simps [of ss])
    have m: "mset (heads_from 0 (advance i ss)) = mset heads' + mset (case evs of [] \<Rightarrow> [] | e # _ \<Rightarrow> [(i, e)])"
      using heads_from_update [OF i(1), of 0 "(evs, snd (ss ! i))"] p(2) less.prems(4) i(2) unfolding adv by (simp cong: list.case_cong)
    have b: "map behind ss ! i = (evs, snd (ss ! i))" using i by (simp add: behind_def)
    note ih = less.hyps [OF small sourced_advance [OF less.prems(1)]]
    show ?thesis
    proof (cases evs)
      case (Cons e es)
      have up: "map behind (advance i ss) = (map behind ss)[i := (es, snd (ss ! i))]"
        unfolding adv by (simp add: map_update behind_def Cons)
      have "merge_loop (heap_Push headHeap_Less (i, e) heads') (map behind (advance i ss)) = greedy_merge (advance i ss)"
        by (rule ih) (use failed heads.Push_heap [OF p(1), of "(i, e)"] m Cons in \<open>simp_all add: length_heap_Push\<close>)
      then show ?thesis
        using False pop i(1) unfolding g merge_loop.simps [of heads] up by (simp add: recv_item_def b Cons)
    next
      case Nil
      show ?thesis
      proof (cases "snd (ss ! i)")
        case None
        have up: "map behind (advance i ss) = map behind ss"
          unfolding adv map_update using b Nil None by (metis behind_def fst_conv snd_conv list.sel(2) list_update_id)
        have "merge_loop heads' (map behind (advance i ss)) = greedy_merge (advance i ss)"
          by (rule ih) (use failed p(1) m Nil None in simp_all)
        then show ?thesis
          using False pop i(1) unfolding g merge_loop.simps [of heads] up by (simp add: recv_item_def b Nil None)
      next
        case (Some err)
        then have "greedy_merge (advance i ss) = ([], Some err)" using failed Nil by (simp add: greedy_merge.simps [of "advance i ss"])
        then show ?thesis
          using False pop i(1) unfolding g merge_loop.simps [of heads] by (simp add: recv_item_def b Nil Some)
      qed
    qed
  qed
qed

lemma merge_streams_greedy:
  assumes "sourced srcs ss"
  shows "merge_streams ss = greedy_merge ss"
proof (cases "failed_stream ss")
  case (Some err)
  then show ?thesis using first_heads_run [of "[]" ss "[]"] by (simp add: merge_streams_def greedy_merge.simps [of ss])
next
  case None
  have "merge_loop (heap_Init headHeap_Less (heads_from 0 ss)) (map behind ss) = greedy_merge ss"
    by (rule merge_loop_greedy [OF assms None])
      (use heads.Init_heap [of "heads_from 0 ss"] in \<open>auto dest: mset_eq_length\<close>)
  then show ?thesis using None first_heads_run [of "[]" ss "[]"] by (simp add: merge_streams_def)
qed

subsection \<open>What the merge keeps\<close>

lemma greedy_keeps:
  assumes "sourced srcs ss" "greedy_merge ss = (out, err)" "i < length ss"
  shows "\<exists>rest. fst (ss ! i) = filter (\<lambda>ev. co_source (ev_coord ev) = srcs ! i) out @ rest \<and> (err = None \<longrightarrow> rest = [])"
  using assms
proof (induction "stream_size ss" arbitrary: ss out rule: less_induct)
  case less
  show ?case
  proof (cases "failed_stream ss")
    case (Some e)
    then show ?thesis using less.prems(2) by (auto simp: greedy_merge.simps [of ss])
  next
    case None
    show ?thesis
    proof (cases "least_head ss")
      case n: None
      then have "fst (ss ! i) = []" using less.prems(3) unfolding least_head_None by (simp add: list_all_length)
      then show ?thesis using less.prems(2) None n by (auto simp: greedy_merge.simps [of ss])
    next
      case (Some p)
      obtain j ev where p: "p = (j, ev)" by fastforce
      note l = Some [unfolded p]
      obtain evs where j: "j < length ss" "fst (ss ! j) = ev # evs" using least_head_Some [OF l] by blast
      obtain later where g: "greedy_merge (advance j ss) = (later, err)" and out: "out = ev # later"
        using less.prems(2) None l by (auto simp: greedy_merge.simps [of ss] split: prod.splits)
      have "i < length (advance j ss)" using less.prems(3) by (simp add: advance_def)
      from less.hyps [OF advance_size [OF l] sourced_advance [OF less.prems(1)] g this] obtain rest where
        r: "fst (advance j ss ! i) = filter (\<lambda>ev. co_source (ev_coord ev) = srcs ! i) later @ rest" "err = None \<longrightarrow> rest = []" by blast
      have src: "co_source (ev_coord ev) = srcs ! j" using less.prems(1) j by (auto simp: sourced_def)
      have "co_source (ev_coord ev) = srcs ! i \<longleftrightarrow> i = j"
        using src less.prems(1,3) j(1) by (auto simp: sourced_def nth_eq_iff_index_eq)
      then show ?thesis using r j less.prems(3) unfolding out by (cases "i = j") (auto simp: advance_def)
    qed
  qed
qed

lemma greedy_sorted:
  assumes "\<And>i. i < length ss \<Longrightarrow> sorted (map merge_key (fst (ss ! i)))" "greedy_merge ss = (out, err)"
  shows "sorted (map merge_key out) \<and>
    (\<forall>k. (\<forall>i<length ss. \<forall>ev\<in>set (fst (ss ! i)). k \<le> merge_key ev) \<longrightarrow> (\<forall>ev\<in>set out. k \<le> merge_key ev))"
  using assms
proof (induction "stream_size ss" arbitrary: ss out rule: less_induct)
  case less
  show ?case
  proof (cases "failed_stream ss = None \<and> least_head ss \<noteq> None")
    case False
    then have "out = []" using less.prems(2) by (auto simp: greedy_merge.simps [of ss] split: option.splits)
    then show ?thesis by simp
  next
    case True
    then obtain j ev where l: "least_head ss = Some (j, ev)" by fastforce
    obtain evs where j: "j < length ss" "fst (ss ! j) = ev # evs" using least_head_Some [OF l] by blast
    obtain later where g: "greedy_merge (advance j ss) = (later, err)" and out: "out = ev # later"
      using less.prems(2) True l by (auto simp: greedy_merge.simps [of ss] split: prod.splits)
    have sub: "sorted (map merge_key (fst (advance j ss ! i)))" "set (fst (advance j ss ! i)) \<subseteq> set (fst (ss ! i))" if "i < length ss" for i
      using less.prems(1) [OF that] j by (cases "i = j"; auto simp: advance_def)+
    have ih: "sorted (map merge_key later) \<and>
        (\<forall>k. (\<forall>i<length (advance j ss). \<forall>ev\<in>set (fst (advance j ss ! i)). k \<le> merge_key ev) \<longrightarrow> (\<forall>ev\<in>set later. k \<le> merge_key ev))"
      by (rule less.hyps [OF advance_size [OF l] _ g]) (use sub(1) in \<open>simp add: advance_def\<close>)
    have least: "merge_key ev \<le> merge_key e" if e: "i < length ss" "e \<in> set (fst (ss ! i))" for i e
    proof -
      obtain h hs where h: "fst (ss ! i) = h # hs" using e(2) by (cases "fst (ss ! i)") auto
      have "merge_key ev \<le> merge_key h" by (rule least_head_least [OF l e(1) h])
      also have "\<dots> \<le> merge_key e" using less.prems(1) [OF e(1)] e(2) h by auto
      finally show ?thesis .
    qed
    have len: "length (advance j ss) = length ss" by (simp add: advance_def)
    have below: "\<forall>e\<in>set later. k \<le> merge_key e" if k: "\<forall>i<length ss. \<forall>ev\<in>set (fst (ss ! i)). k \<le> merge_key ev" for k
    proof -
      have "\<forall>i<length (advance j ss). \<forall>ev\<in>set (fst (advance j ss ! i)). k \<le> merge_key ev" unfolding len using k sub(2) by blast
      then show ?thesis using ih by blast
    qed
    have "\<forall>e\<in>set later. merge_key ev \<le> merge_key e" using below least by blast
    then have "sorted (map merge_key out)" using ih unfolding out by simp
    moreover have "\<forall>e\<in>set out. k \<le> merge_key e" if k: "\<forall>i<length ss. \<forall>ev\<in>set (fst (ss ! i)). k \<le> merge_key ev" for k
    proof -
      have "k \<le> merge_key ev" using k j by auto
      then show ?thesis using below [OF k] unfolding out by simp
    qed
    ultimately show ?thesis by blast
  qed
qed

subsection \<open>The streams of a plan\<close>

definition plan_sourced :: "source_plan \<Rightarrow> bool" where
  "plan_sourced plan \<longleftrightarrow> list_all (\<lambda>e. ep_source e = sp_source plan \<and> list_all (\<lambda>d. id_source d = sp_source plan) (ep_segments e)) (sp_epochs plan)"

lemma plans_sourced:
  assumes "buildSourcePlans inputs cfg = Inr plans"
  shows "list_all plan_sourced plans \<and> distinct (map sp_source plans)"
proof -
  have p: "plans = map (spec_source inputs) (sorted_list_of_set (id_source ` set inputs))" using assms by (simp add: buildSourcePlans_Inr)
  have "plan_sourced (spec_source inputs s)" for s
    by (auto simp: plan_sourced_def spec_source_def spec_epoch_def Let_def list_all_iff of_epoch_def)
  then show ?thesis unfolding p by (simp add: list_all_iff comp_def spec_source_def distinct_map)
qed

lemma emit_records_source:
  "ev \<in> set (emit_records epoch d c l ps) \<Longrightarrow> co_source (ev_coord ev) \<in> {ep_source epoch, id_source d}"
proof (induction ps arbitrary: l)
  case (Cons p ps)
  obtain r f where p: "p = (r, f)" by fastforce
  show ?case
    using Cons.prems Cons.IH unfolding p emit_records_Cons
    by (auto simp: record_events_def record_event_def discontinuityEvent_def split: if_splits)
qed simp

lemma emitDecodedSegment_source:
  "ev \<in> set (fst (emitDecodedSegment epoch ds n)) \<Longrightarrow> co_source (ev_coord ev) \<in> {ep_source epoch, id_source (ds_descriptor ds)}"
  by (auto simp: emitDecodedSegment_def Let_def discontinuityEvent_def dest!: emit_records_source split: option.splits if_splits)

lemma epoch_events_source:
  "ev \<in> set (fst (epoch_events epoch work n is)) \<Longrightarrow> \<exists>i\<in>set is. co_source (ev_coord ev) \<in> {ep_source epoch, id_source (ds_descriptor (work i))}"
proof (induction "is" arbitrary: n)
  case (Cons i "is")
  obtain evs n' where e: "emitDecodedSegment epoch (work i) n = (evs, n')" by fastforce
  obtain later err where l: "epoch_events epoch work n' is = (later, err)" by fastforce
  show ?case
    using Cons.prems Cons.IH [of n'] emitDecodedSegment_source [of ev epoch "work i" n] e l by (auto split: option.splits)
qed simp

lemma replay_epochs_source:
  assumes "complete_schedule sched" "list_all (\<lambda>e. ep_source e = sp_source plan \<and> list_all (\<lambda>d. id_source d = sp_source plan) (ep_segments e)) epochs"
    "replay_epochs sha z reader sched plan previous epochs = Some (events, err)" "ev \<in> set events"
  shows "co_source (ev_coord ev) = sp_source plan"
  using assms(2-4)
proof (induction epochs arbitrary: previous events)
  case (Cons epoch epochs)
  let ?work = "segment_results sha z reader epoch"
  obtain es e1 where ee: "epoch_events epoch ?work 1 [0 ..< length (ep_segments epoch)] = (es, e1)" by fastforce
  have r: "replayEpoch sha z reader (sched epoch) epoch = Some (es, e1)"
    using replayEpoch_events [OF complete_covers [OF assms(1)], where sha = sha and z = z and reader = reader and epoch = epoch] ee by simp
  have es: "co_source (ev_coord ev) = sp_source plan" if "ev \<in> set es" for ev
    using epoch_events_source [of ev epoch ?work 1 "[0 ..< length (ep_segments epoch)]"] that Cons.prems(1)
    by (auto simp: ee segment_results_def list_all_length)
  have b: "co_source (ev_coord (boundary_event plan p epoch)) = sp_source plan" for p by (simp add: boundary_event_def Let_def)
  show ?case
    using Cons.prems r es b Cons.IH [of "Some epoch"] by (auto simp: Let_def split: option.splits)
qed simp

lemma all_streams_sourced:
  assumes "complete_schedule sched" "list_all plan_sourced plans" "distinct (map sp_source plans)"
  shows "\<exists>ss. all_streams sha z reader sched plans = Some ss \<and> sourced (map sp_source plans) ss"
  using assms(2,3)
proof (induction plans)
  case (Cons plan plans)
  then obtain ss where ss: "all_streams sha z reader sched plans = Some ss" "sourced (map sp_source plans) ss" by auto
  obtain events err where s: "replaySourcePlan sha z reader sched plan = Some (events, err)"
    using replay_epochs_schedule [OF assms(1) assms(1), of sha z reader plan None "sp_epochs plan"] by (auto simp: replaySourcePlan_def)
  have "co_source (ev_coord ev) = sp_source plan" if "ev \<in> set events" for ev
    using replay_epochs_source [OF assms(1) _ s [unfolded replaySourcePlan_def] that] Cons.prems(1) by (simp add: plan_sourced_def)
  then have "sourced (map sp_source (plan # plans)) ((events, err) # ss)"
    using ss(2) Cons.prems(2) by (auto simp: sourced_def nth_Cons')
  then show ?case using ss s by simp
qed (simp add: sourced_def)

text \<open>
  C37. The collector-observed replay is the greedy merge of its sources.  The heap
  always hands out the head with the least six-field key, so the merge equals the
  reference that compares all heads; each source's events come out in the order of
  that source and, unless a stream fails, all of them do; and when every source is
  itself in key order, so is the whole output.
\<close>

theorem collector_merge_greedy:
  assumes "buildSourcePlans inputs cfg = Inr plans" "complete_schedule sched"
  shows "\<exists>ss. all_streams sha z reader sched plans = Some ss \<and> merge_streams ss = greedy_merge ss \<and>
    list_all (\<lambda>i. \<exists>rest. fst (ss ! i) = filter (\<lambda>ev. co_source (ev_coord ev) = sp_source (plans ! i)) (fst (merge_streams ss)) @ rest \<and>
      (snd (merge_streams ss) = None \<longrightarrow> rest = [])) [0 ..< length plans] \<and>
    (list_all (\<lambda>s. sorted_wrt (\<lambda>a b. compareMergeCoordinate (ev_coord a) (ev_coord b) \<le> 0) (fst s)) ss \<longrightarrow>
     sorted_wrt (\<lambda>a b. compareMergeCoordinate (ev_coord a) (ev_coord b) \<le> 0) (fst (merge_streams ss)))"
proof -
  obtain ss where ss: "all_streams sha z reader sched plans = Some ss" "sourced (map sp_source plans) ss"
    using all_streams_sourced [OF assms(2)] plans_sourced [OF assms(1)] by blast
  obtain out err where g: "greedy_merge ss = (out, err)" by fastforce
  have m: "merge_streams ss = greedy_merge ss" by (rule merge_streams_greedy [OF ss(2)])
  have key: "compareMergeCoordinate (ev_coord a) (ev_coord b) \<le> 0 \<longleftrightarrow> merge_key a \<le> merge_key b" for a b
    by (auto simp: compareMergeCoordinate_def compare_then_le merge_key_def less_eq_prod_def Let_def)
  have "list_all (\<lambda>i. \<exists>rest. fst (ss ! i) = filter (\<lambda>ev. co_source (ev_coord ev) = sp_source (plans ! i)) out @ rest \<and>
      (err = None \<longrightarrow> rest = [])) [0 ..< length plans]"
    using greedy_keeps [OF ss(2) g] ss(2) by (simp add: list_all_iff sourced_def)
  moreover have "list_all (\<lambda>s. sorted_wrt (\<lambda>a b. merge_key a \<le> merge_key b) (fst s)) ss \<longrightarrow> sorted_wrt (\<lambda>a b. merge_key a \<le> merge_key b) out"
    using greedy_sorted [OF _ g] by (simp add: list_all_length sorted_map)
  ultimately show ?thesis using ss(1) m g unfolding key by (intro exI [of _ ss]) simp
qed

theorem collector_merge_greedy_witness:
  "\<exists>plans ss. buildSourcePlans [sample_descriptor ''a'' 1, sample_descriptor ''b'' 3] DefaultConfig = Inr plans \<and>
     all_streams sha_zero store_lib (\<lambda>_. FetchNotFound) forward plans = Some ss \<and> merge_streams ss = greedy_merge ss"
proof -
  have "admissible DefaultConfig [sample_descriptor ''a'' 1, sample_descriptor ''b'' 3]"
    by (simp add: admissible_def input_ok_def DefaultConfig_def sample_descriptor_def sample_manifest_def)
  then obtain plans where p: "buildSourcePlans [sample_descriptor ''a'' 1, sample_descriptor ''b'' 3] DefaultConfig = Inr plans"
    by (simp add: buildSourcePlans_Inr)
  have "complete_schedule forward" by (simp add: complete_schedule_def forward_def)
  from collector_merge_greedy [OF p this, of sha_zero store_lib "\<lambda>_. FetchNotFound"] p show ?thesis by blast
qed

text \<open>Neither the order of the inputs nor that of the workers reaches the outcome.\<close>

lemma all_streams_schedule:
  "complete_schedule s1 \<Longrightarrow> complete_schedule s2 \<Longrightarrow> all_streams sha z reader s1 plans = all_streams sha z reader s2 plans"
  by (induction plans) (simp_all add: replaySourcePlan_def replay_epochs_schedule [of s1 s2] cong: option.case_cong)

lemma collector_schedule:
  assumes "normalized config = Inr cfg" "buildSourcePlans xs cfg = Inr plans" "mset ys = mset xs" "complete_schedule s1" "complete_schedule s2"
  shows "ReplayCollectorObserved sha z reader s1 xs config emit s = ReplayCollectorObserved sha z reader s2 ys config emit s"
    "ReplayCollectorObserved sha z reader s1 xs config emit s \<noteq> None"
proof -
  have p: "buildSourcePlans ys cfg = Inr plans" by (rule buildSourcePlans_perm [OF assms(3,2)])
  obtain ss where ss: "all_streams sha z reader s1 plans = Some ss"
    using all_streams_sourced [OF assms(4)] plans_sourced [OF assms(2)] by blast
  then have "all_streams sha z reader s2 plans = Some ss" using all_streams_schedule [OF assms(4,5)] by simp
  then show "ReplayCollectorObserved sha z reader s1 xs config emit s = ReplayCollectorObserved sha z reader s2 ys config emit s"
    "ReplayCollectorObserved sha z reader s1 xs config emit s \<noteq> None"
    using assms(1,2) p ss by (simp_all add: ReplayCollectorObserved_def split: prod.split)
qed

end
