(* ===== verification/Lossless.thy ===== *)
theory Lossless
  imports Merge
begin

text \<open>
  From capture to replay: envelopes that pass validation and carry consecutive
  ordinals, lowered, packed into segments, stored and described by their manifests,
  come back from a replay as the same records, with nothing around them but the
  disconnects they report.  This composes \<open>Capture\<close>, \<open>Segment\<close>, \<open>Plan\<close> and \<open>Replay\<close>.
\<close>

subsection \<open>A published segment\<close>

text \<open>
  A descriptor of the segment that encodes the lowered envelopes of a chunk, with
  the store holding its bytes.  The equations are what \<open>NewInputDescriptor\<close> checks
  between the catalog row and the manifest.
\<close>

definition published :: "(bytes \<Rightarrow> hash) \<Rightarrow> zstd_lib \<Rightarrow> encode_options \<Rightarrow> (string \<Rightarrow> fetched) \<Rightarrow> input_descriptor \<Rightarrow> envelope_v1 list \<Rightarrow> bool" where
  "published sha z opts reader d chunk \<longleftrightarrow>
     (case Encode sha z (map lowered chunk) opts of
        Inl err \<Rightarrow> False
      | Inr seg \<Rightarrow> id_sha d = sha (es_bytes seg) \<and> id_bytes d = int (length (es_bytes seg)) \<and>
          rm_segment (id_manifest d) = es_manifest seg \<and>
          id_first d = mf_first (es_manifest seg) \<and> id_last d = mf_last (es_manifest seg) \<and>
          list_all (\<lambda>e. validateRecordIdentity d (lowered e)) chunk \<and>
          reader (id_object d) = FetchBody \<lparr>ob_bytes = es_bytes seg, ob_end = None, ob_close = None\<rparr>)"

definition captured :: "(bytes \<Rightarrow> hash) \<Rightarrow> envelope_v1 \<Rightarrow> bool" where
  "captured sha e \<longleftrightarrow> capture_shape e \<and> Validate sha e = None"

text \<open>What the replay makes of one envelope.\<close>

definition is_disconnect :: "envelope_v1 \<Rightarrow> bool" where
  "is_disconnect e \<longleftrightarrow> e_kind e = RecordKindControl \<and> o_value (v_control e) = ControlDisconnect"

definition replayed :: "epoch_plan \<Rightarrow> input_descriptor \<Rightarrow> envelope_v1 \<Rightarrow> event list" where
  "replayed epoch d e =
     record_event epoch (lowered e) #
     (if is_disconnect e
      then [discontinuityEvent epoch d (disconnect_disc d (lowered e)) (e_received e) (e_arrival e) (e_message e)] else [])"

lemma lowered_fields [simp]:
  "e_kind (lowered e) = e_kind e" "e_arrival (lowered e) = e_arrival e" "e_message (lowered e) = e_message e" "e_received (lowered e) = e_received e"
  by (simp_all add: lowered_def envelope.truncate_def)

lemma captured_lowered:
  assumes "captured sha e"
  shows "canonical (lowered e) = lowered e" "envelope_shape (lowered e)"
    "e_kind e = RecordKindControl \<Longrightarrow> ControlRecordFromSegment sha (lowered e) = Inr e"
proof -
  have v: "Validate sha e = None" and s: "capture_shape e" using assms by (simp_all add: captured_def)
  show "canonical (lowered e) = lowered e" using v canonical_lowered unfolding Validate_def by blast
  show "envelope_shape (lowered e)" using s by (simp add: shape_lowered)
  show "e_kind e = RecordKindControl \<Longrightarrow> ControlRecordFromSegment sha (lowered e) = Inr e"
    using raise_lowered [OF v] v by (simp add: ControlRecordFromSegment_def ControlRecord_Validate_def)
qed

text \<open>Envelopes numbered from \<open>n\<close> on.\<close>

definition numbered :: "nat \<Rightarrow> envelope_v1 list \<Rightarrow> bool" where
  "numbered n es \<longleftrightarrow> map (\<lambda>e. unat (e_arrival e)) es = [n ..< n + length es]"

lemma numbered_Cons: "numbered n (e # es) \<longleftrightarrow> unat (e_arrival e) = n \<and> numbered (Suc n) es"
  by (auto simp: numbered_def upt_conv_Cons simp del: upt_Suc)

lemma numbered_append: "numbered n (xs @ ys) \<longleftrightarrow> numbered n xs \<and> numbered (n + length xs) ys"
  by (induction xs arbitrary: n) (auto simp: numbered_Cons numbered_def [of _ "[]"])

lemma numbered_last: "numbered n es \<Longrightarrow> es \<noteq> [] \<Longrightarrow> Suc (unat (e_arrival (last es))) = n + length es"
proof (induction es arbitrary: n)
  case (Cons e es)
  then show ?case using Cons.IH [of "Suc n"] by (cases "es = []") (auto simp: numbered_Cons)
qed simp

lemma check_records_captured:
  assumes "list_all (captured sha) es" "list_all (\<lambda>e. validateRecordIdentity d (lowered e)) es" "numbered n es"
    "\<forall>p. prev = Some p \<longrightarrow> unat (e_arrival p) < n"
  shows "check_records sha d prev (map lowered es) = Inr (map is_disconnect es)"
  using assms
proof (induction es arbitrary: prev n)
  case (Cons e es)
  have ord: "\<not> (case prev of None \<Rightarrow> False | Some p \<Rightarrow> compareRecordCoordinate p (lowered e) \<ge> 0)"
  proof (cases prev)
    case (Some p)
    then have "e_arrival p < e_arrival e" using Cons.prems(3,4) by (simp add: numbered_Cons word_less_nat_alt)
    then show ?thesis using Some by (simp add: compareRecordCoordinate_def compare_then_def)
  qed simp
  have "check_records sha d (Some (lowered e)) (map lowered es) = Inr (map is_disconnect es)"
    by (rule Cons.IH [of "Suc n"]) (use Cons.prems in \<open>simp_all add: numbered_Cons\<close>)
  then show ?case
    using Cons.prems(1,2) ord captured_lowered(3) [of sha e] by (auto simp: is_disconnect_def)
qed simp

lemma emit_records_numbered:
  assumes "numbered (unat (expected cursor lastArrival)) es" "unat cursor \<le> unat (expected cursor lastArrival)"
    "unat (expected cursor lastArrival) + length es \<le> 2 ^ 63"
  shows "emit_records epoch d cursor lastArrival (zip (map lowered es) (map is_disconnect es)) = concat (map (replayed epoch d) es)"
  using assms
proof (induction es arbitrary: lastArrival)
  case (Cons e es)
  have a: "unat (e_arrival e) = unat (expected cursor lastArrival)" using Cons.prems(1) by (simp add: numbered_Cons)
  then have eq: "e_arrival e = expected cursor lastArrival" by (simp add: word_unat_eq_iff)
  have "e_arrival e < 2 ^ 63" using a Cons.prems(3) by (simp add: word_less_nat_alt)
  then have s: "unat (expected cursor (Some (e_arrival e))) = Suc (unat (e_arrival e))" by (simp add: expected_def unat_succ_small)
  have "emit_records epoch d cursor (Some (e_arrival e)) (zip (map lowered es) (map is_disconnect es)) = concat (map (replayed epoch d) es)"
    by (rule Cons.IH) (use Cons.prems a s in \<open>simp_all add: numbered_Cons\<close>)
  moreover have "\<not> e_arrival e < cursor" using Cons.prems(2) a by (simp add: word_less_nat_alt)
  ultimately show ?case
    by (simp add: emit_records_Cons record_events_def eq [symmetric] replayed_def [of _ _ e] del: emit_records.simps)
qed simp

lemma Encode_manifest:
  assumes "Encode sha z rs opts = Inr seg" "rs \<noteq> []"
  shows "mf_count (es_manifest seg) = of_nat (length rs)" "mf_first (es_manifest seg) = e_arrival (hd rs)"
    "mf_last (es_manifest seg) = e_arrival (last rs)"
  using assms by (auto simp: Encode_def split: sum.splits if_splits option.splits prod.splits)

lemma published_decoded:
  assumes sha: "\<And>b. length (sha b) = 32" and z: "zstd_law z dec" and pub: "published sha z opts reader d es"
    and es: "es \<noteq> []" "list_all (captured sha) es" "numbered n es" "length es \<le> 2 ^ 32"
  shows "validateAndDecodeSegment sha z reader i d =
      \<lparr>ds_index = i, ds_descriptor = d, ds_records = map lowered es, ds_disconnects = map is_disconnect es, ds_failure = None, ds_err = None\<rparr>"
    "id_first d = e_arrival (hd es)" "id_last d = e_arrival (last es)"
proof -
  obtain seg where enc: "Encode sha z (map lowered es) opts = Inr seg"
    and p: "id_sha d = sha (es_bytes seg)" "id_bytes d = int (length (es_bytes seg))" "rm_segment (id_manifest d) = es_manifest seg"
      "id_first d = mf_first (es_manifest seg)" "id_last d = mf_last (es_manifest seg)"
      "list_all (\<lambda>e. validateRecordIdentity d (lowered e)) es"
      "reader (id_object d) = FetchBody \<lparr>ob_bytes = es_bytes seg, ob_end = None, ob_close = None\<rparr>"
    using pub by (auto simp: published_def split: sum.splits)
  note m = Encode_manifest [OF enc]
  show f: "id_first d = e_arrival (hd es)" "id_last d = e_arrival (last es)"
    using m es(1) p(4,5) by (simp_all add: hd_map last_map)
  have shape: "list_all envelope_shape (map lowered es)" and canon: "map canonical (map lowered es) = map lowered es"
    using es(2) captured_lowered by (auto simp: list_all_iff)
  have dec: "segment_Decode sha z (es_bytes seg) (Some (es_manifest seg)) =
      (\<lparr>dr_records = map lowered es, dr_frames = mf_frames (es_manifest seg), dr_complete = of_nat (length (es_bytes seg))\<rparr>, None)"
    using Decode_encoded [of sha, OF sha z shape _ enc] es(4) unfolding canon by simp
  have chk: "check_records sha d None (map lowered es) = Inr (map is_disconnect es)"
    by (rule check_records_captured [OF es(2) p(6) es(3)]) simp
  have "decode_checked sha z d (es_bytes seg) = Inr (map lowered es, map is_disconnect es)"
    using es(1) m(1) f by (simp add: decode_checked_def p(1,3) dec chk Let_def hd_map last_map)
  then show "validateAndDecodeSegment sha z reader i d =
      \<lparr>ds_index = i, ds_descriptor = d, ds_records = map lowered es, ds_disconnects = map is_disconnect es, ds_failure = None, ds_err = None\<rparr>"
    by (simp add: validateAndDecodeSegment_def readExactObject_def p(2,7) Let_def)
qed

lemma emit_published:
  assumes "ds_descriptor ds = d" "ds_records ds = map lowered es" "ds_disconnects ds = map is_disconnect es" "ds_failure ds = None"
    "id_first d = e_arrival (hd es)" "id_last d = e_arrival (last es)" "es \<noteq> []" "numbered (unat n) es" "unat n + length es \<le> 2 ^ 63"
  shows "\<exists>n'. emitDecodedSegment epoch ds n = (concat (map (replayed epoch d) es), n') \<and> unat n' = unat n + length es"
proof -
  have first: "id_first d = n" using assms(5,7,8) by (cases es) (auto simp: numbered_Cons word_unat_eq_iff)
  have last: "Suc (unat (id_last d)) = unat n + length es" using numbered_last [OF assms(8,7)] assms(6) by simp
  have "length es \<noteq> 0" using assms(7) by simp
  then have le: "unat n \<le> unat (id_last d)" using last by linarith
  have "id_last d < 2 ^ 63" using last assms(9) by (simp add: word_less_nat_alt)
  then have "unat (id_last d + 1) = unat n + length es" using last by (simp add: unat_succ_small)
  moreover have "emit_records epoch d n None (zip (map lowered es) (map is_disconnect es)) = concat (map (replayed epoch d) es)"
    by (rule emit_records_numbered) (use assms(8,9) in \<open>simp_all add: expected_def\<close>)
  moreover have "\<not> id_last d < n" using le by (simp add: word_less_nat_alt)
  ultimately show ?thesis
    unfolding emitDecodedSegment_def by (simp add: assms(1-4) first Let_def)
qed

text \<open>The loop over the results, as a recursion on them.\<close>

fun results_events :: "epoch_plan \<Rightarrow> u64 \<Rightarrow> decoded_segment list \<Rightarrow> event list \<times> replay_error option" where
  "results_events epoch n [] = ([], None)"
| "results_events epoch n (ds # rest) =
     (case ds_err ds of
        Some err \<Rightarrow> ([], Some err)
      | None \<Rightarrow> (case emitDecodedSegment epoch ds n of (events, n') \<Rightarrow>
          (case results_events epoch n' rest of (later, err) \<Rightarrow> (events @ later, err))))"

lemma epoch_events_results: "epoch_events epoch work n is = results_events epoch n (map work is)"
  by (induction "is" arbitrary: n) (auto split: option.splits prod.splits)

definition intact :: "decoded_segment \<Rightarrow> input_descriptor \<times> envelope_v1 list \<Rightarrow> bool" where
  "intact ds p \<longleftrightarrow> ds_err ds = None \<and> ds_failure ds = None \<and> ds_descriptor ds = fst p \<and> ds_records ds = map lowered (snd p) \<and>
     ds_disconnects ds = map is_disconnect (snd p) \<and> id_first (fst p) = e_arrival (hd (snd p)) \<and>
     id_last (fst p) = e_arrival (last (snd p)) \<and> snd p \<noteq> []"

lemma results_intact:
  assumes "list_all2 intact dss ps" "numbered (unat n) (concat (map snd ps))" "unat n + length (concat (map snd ps)) \<le> 2 ^ 63"
  shows "results_events epoch n dss = (concat (map (\<lambda>(d, es). concat (map (replayed epoch d) es)) ps), None)"
  using assms
proof (induction arbitrary: n rule: list_all2_induct)
  case (Cons ds dss p ps)
  obtain d es where p: "p = (d, es)" by fastforce
  have num: "numbered (unat n) es" "numbered (unat n + length es) (concat (map snd ps))"
    using Cons.prems(1) by (simp_all add: p numbered_append)
  obtain n' where e: "emitDecodedSegment epoch ds n = (concat (map (replayed epoch d) es), n')" "unat n' = unat n + length es"
    using emit_published [of ds d es n epoch] Cons.hyps(1) num(1) Cons.prems(2) by (auto simp: intact_def p)
  have "results_events epoch n' dss = (concat (map (\<lambda>(d, es). concat (map (replayed epoch d) es)) ps), None)"
    by (rule Cons.IH) (use num(2) e(2) Cons.prems(2) in \<open>simp_all add: p\<close>)
  then show ?case using Cons.hyps(1) e(1) by (simp add: intact_def p)
qed simp

lemma published_replayed:
  assumes sha: "\<And>b. length (sha b) = 32" and z: "zstd_law z dec"
    and pub: "list_all2 (published sha z opts reader) (ep_segments epoch) chunks"
    and chunks: "list_all (\<lambda>es. es \<noteq> [] \<and> length es \<le> 2 ^ 32 \<and> list_all (captured sha) es) chunks"
      "numbered 1 (concat chunks)" "length (concat chunks) < 2 ^ 63"
    and arrivals: "mset arrivals = mset [0 ..< length (ep_segments epoch)]"
  shows "replayEpoch sha z reader arrivals epoch =
    Some (concat (map (\<lambda>(d, es). concat (map (replayed epoch d) es)) (zip (ep_segments epoch) chunks)), None)"
proof -
  let ?ps = "zip (ep_segments epoch) chunks" and ?work = "segment_results sha z reader epoch"
  have len: "length (ep_segments epoch) = length chunks" using pub by (rule list_all2_lengthD)
  have each: "\<exists>n. numbered n (chunks ! i)" if "i < length chunks" for i
  proof -
    have "concat chunks = concat (take i chunks) @ chunks ! i @ concat (drop (Suc i) chunks)"
      using id_take_nth_drop [OF that] by (metis concat.simps(2) concat_append)
    then show ?thesis using chunks(2) by (auto simp: numbered_append)
  qed
  have "list_all2 intact (map ?work [0 ..< length chunks]) ?ps"
  proof (rule list_all2_all_nthI)
    show "length (map ?work [0 ..< length chunks]) = length ?ps" using len by simp
    fix i assume "i < length (map ?work [0 ..< length chunks])"
    then have i: "i < length chunks" by simp
    obtain n where n: "numbered n (chunks ! i)" using each [OF i] by blast
    have p: "published sha z opts reader (ep_segments epoch ! i) (chunks ! i)" using pub i len by (simp add: list_all2_conv_all_nth)
    have c: "chunks ! i \<noteq> []" "list_all (captured sha) (chunks ! i)" "length (chunks ! i) \<le> 2 ^ 32"
      using chunks(1) i by (simp_all add: list_all_length)
    note r = published_decoded [of sha, OF sha z p c(1,2) n c(3)]
    show "intact (map ?work [0 ..< length chunks] ! i) (?ps ! i)"
      using i len c(1) r by (simp add: intact_def segment_results_def)
  qed
  moreover have "concat (map snd ?ps) = concat chunks" using len by simp
  ultimately have "results_events epoch 1 (map ?work [0 ..< length chunks]) =
      (concat (map (\<lambda>(d, es). concat (map (replayed epoch d) es)) ?ps), None)"
    using chunks(2,3) by (intro results_intact) simp_all
  moreover have "{0 ..< length (ep_segments epoch)} \<subseteq> set arrivals" using mset_eq_setD [OF arrivals] by auto
  ultimately show ?thesis by (simp add: replayEpoch_events epoch_events_results len)
qed

subsection \<open>A sample\<close>

definition sample_store :: "bytes \<Rightarrow> string \<Rightarrow> fetched" where
  "sample_store bs key = FetchBody \<lparr>ob_bytes = bs, ob_end = None, ob_close = None\<rparr>"

definition sample_input :: "encoded_segment \<Rightarrow> input_descriptor" where
  "sample_input seg = (sample_descriptor ''a'' 1)\<lparr>id_sha := sha_zero (es_bytes seg), id_bytes := int (length (es_bytes seg)),
     id_manifest := (id_manifest (sample_descriptor ''a'' 1))\<lparr>rm_segment := es_manifest seg\<rparr>\<rparr>"

lemma lowered_sample: "lowered sample_v1 = sample_envelope"
  by (simp add: lowered_def sample_v1_def envelope.truncate_def envelope.extend_def envelope_v1.fields_def sample_envelope_def
      zero_envelope_def RecordKindWebSocket_def RecordKindControl_def)

lemma sample_published:
  assumes "Encode sha_zero store_lib [sample_envelope] default_options = Inr seg"
  shows "published sha_zero store_lib default_options (sample_store (es_bytes seg)) (sample_input seg) [sample_v1]"
proof -
  have "mf_first (es_manifest seg) = 1" "mf_last (es_manifest seg) = 1"
    using Encode_manifest [OF assms] by (simp_all add: sample_envelope_def)
  moreover have "validateRecordIdentity (sample_input seg) sample_envelope"
    by (simp add: validateRecordIdentity_def sample_input_def sample_descriptor_def sample_envelope_def zero_envelope_def)
  ultimately show ?thesis
    by (simp add: published_def lowered_sample assms sample_store_def) (simp add: sample_input_def sample_descriptor_def)
qed

end
