(* ===== verification/Opportunity.thy ===== *)
theory Opportunity
  imports Plan
begin

text \<open>
  \<open>src/quality/opportunity.go\<close>, rows: one immutable expected event or window of the
  opportunity ledger, its validation and its logical hash, with the expectations and
  outcomes of \<open>src/capture/opportunity.go\<close>.  The JSON library is a parameter: its
  decoder of a single value, and its marshaller.  SHA-256 is a parameter as well, and
  the state of a hasher is the bytes written to it.

  The lemmas show that the hashed bytes of a valid row determine the row.
\<close>

subsection \<open>JSON\<close>

datatype json = JNull | JBool bool | JString string | JNumber string | JArray "json list" | JObject "(string \<times> json) list"

record json_lib =
  jl_decode :: "bytes \<Rightarrow> json option"
  jl_marshal :: "json \<Rightarrow> bytes option"

definition canonicalJSONObject :: "json_lib \<Rightarrow> bytes \<Rightarrow> bytes option" where
  "canonicalJSONObject jl value =
     (if length value = 0 then None
      else (case jl_decode jl value of
        Some (JObject kvs) \<Rightarrow> jl_marshal jl (JObject kvs)
      | _ \<Rightarrow> None))"

definition canonicalJSONArray :: "json_lib \<Rightarrow> bytes \<Rightarrow> bytes option" where
  "canonicalJSONArray jl value =
     (case jl_decode jl value of
        Some (JArray items) \<Rightarrow> jl_marshal jl (JArray items)
      | _ \<Rightarrow> None)"

subsection \<open>Expectations and outcomes\<close>

definition OpportunityScheduledRESTPoll :: u8 where "OpportunityScheduledRESTPoll = 1"
definition OpportunityAcknowledgementDeadline :: u8 where "OpportunityAcknowledgementDeadline = 2"
definition OpportunityHeartbeatDeadline :: u8 where "OpportunityHeartbeatDeadline = 3"
definition OpportunityPeriodicPublication :: u8 where "OpportunityPeriodicPublication = 4"
definition OpportunitySubscriptionInventory :: u8 where "OpportunitySubscriptionInventory = 5"
definition OpportunitySequenceInterval :: u8 where "OpportunitySequenceInterval = 6"
definition OpportunityMetadataDiscovery :: u8 where "OpportunityMetadataDiscovery = 7"
definition OpportunityNativeFilePublication :: u8 where "OpportunityNativeFilePublication = 8"
definition OpportunityStochasticTradeSilence :: u8 where "OpportunityStochasticTradeSilence = 0x80"
definition OpportunityChangeTriggeredBBOSilence :: u8 where "OpportunityChangeTriggeredBBOSilence = 0x81"
definition OpportunityUndocumentedTickerSilence :: u8 where "OpportunityUndocumentedTickerSilence = 0x82"

definition OpportunityOutcomeObserved :: u8 where "OpportunityOutcomeObserved = 1"
definition OpportunityOutcomeUnknown :: u8 where "OpportunityOutcomeUnknown = 11"

lemmas expectation_defs = OpportunityScheduledRESTPoll_def OpportunityAcknowledgementDeadline_def OpportunityHeartbeatDeadline_def
  OpportunityPeriodicPublication_def OpportunitySubscriptionInventory_def OpportunitySequenceInterval_def
  OpportunityMetadataDiscovery_def OpportunityNativeFilePublication_def OpportunityStochasticTradeSilence_def
  OpportunityChangeTriggeredBBOSilence_def OpportunityUndocumentedTickerSilence_def

definition Expectation_String :: "u8 \<Rightarrow> string" where
  "Expectation_String e =
     (if e = OpportunityScheduledRESTPoll then ''scheduled_rest_poll''
      else if e = OpportunityAcknowledgementDeadline then ''acknowledgement_deadline''
      else if e = OpportunityHeartbeatDeadline then ''heartbeat_deadline''
      else if e = OpportunityPeriodicPublication then ''periodic_publication''
      else if e = OpportunitySubscriptionInventory then ''subscription_inventory''
      else if e = OpportunitySequenceInterval then ''sequence_interval''
      else if e = OpportunityMetadataDiscovery then ''metadata_discovery''
      else if e = OpportunityNativeFilePublication then ''native_file_publication''
      else if e = OpportunityStochasticTradeSilence then ''stochastic_trade_silence''
      else if e = OpportunityChangeTriggeredBBOSilence then ''change_triggered_bbo_silence''
      else if e = OpportunityUndocumentedTickerSilence then ''undocumented_ticker_silence''
      else ''opportunity_expectation('' @ nat_text (unat e) @ '')'')"

text \<open>The names of the outcomes, in the order of their values from one.\<close>

definition outcome_names :: "string list" where
  "outcome_names = [''observed'', ''observed_unchanged'', ''venue_unavailable'', ''source_stale'', ''sequence_gap'', ''rate_limited'',
     ''malformed'', ''schema_rejected'', ''collector_failed'', ''intentionally_excluded'', ''unknown'']"

definition Outcome_String :: "u8 \<Rightarrow> string" where
  "Outcome_String out =
     (if OpportunityOutcomeObserved \<le> out \<and> out \<le> OpportunityOutcomeUnknown then outcome_names ! (unat out - 1)
      else ''opportunity_outcome('' @ nat_text (unat out) @ '')'')"

definition ParseOpportunityOutcome :: "string \<Rightarrow> u8 option" where
  "ParseOpportunityOutcome value = map_of (zip outcome_names (map of_nat [1 ..< 12])) value"

definition DefensibleOpportunity :: "u8 \<Rightarrow> bool" where
  "DefensibleOpportunity e \<longleftrightarrow> e \<in> {OpportunityScheduledRESTPoll, OpportunityAcknowledgementDeadline, OpportunityHeartbeatDeadline,
     OpportunityPeriodicPublication, OpportunitySubscriptionInventory, OpportunitySequenceInterval, OpportunityMetadataDiscovery,
     OpportunityNativeFilePublication}"

definition ParseOpportunityExpectation :: "string \<Rightarrow> u8 option" where
  "ParseOpportunityExpectation value = map_of
     [(''scheduled_rest_poll'', OpportunityScheduledRESTPoll), (''acknowledgement_deadline'', OpportunityAcknowledgementDeadline),
      (''heartbeat_deadline'', OpportunityHeartbeatDeadline), (''periodic_publication'', OpportunityPeriodicPublication),
      (''subscription_inventory'', OpportunitySubscriptionInventory), (''sequence_interval'', OpportunitySequenceInterval),
      (''metadata_discovery'', OpportunityMetadataDiscovery), (''native_file_publication'', OpportunityNativeFilePublication)] value"

subsection \<open>Recorded opportunities\<close>

text \<open>The terminal record a recorder makes of an expected event, and its validation.\<close>

datatype opportunity_cause = CauseInvalidOpportunity | CauseStochasticDenominator | CauseOpportunityEpoch

datatype opportunity_error = OpportunityError string "opportunity_cause list"

definition opportunityErrorWithCause :: "string \<Rightarrow> opportunity_cause list \<Rightarrow> opportunity_error" where
  "opportunityErrorWithCause field causes = OpportunityError field (CauseInvalidOpportunity # causes)"

definition opportunityError :: "string \<Rightarrow> opportunity_error" where
  "opportunityError field = opportunityErrorWithCause field []"

record opportunity_record =
  or_id :: string
  or_expectation :: u8
  or_source :: string
  or_channel :: string
  or_symbol :: "string optional"
  or_instrument :: "string optional"
  or_connection :: "bytes optional"
  or_poll :: "bytes optional"
  or_subscription :: "string optional"
  or_scheduled :: "i64 optional"
  or_deadline :: "i64 optional"
  or_seq_start :: "u64 optional"
  or_seq_end :: "u64 optional"
  or_inventory :: "bytes optional"
  or_outcome :: u8
  or_terminal :: "i64 optional"
  or_recorder :: string

definition validateOpportunityRequiredString :: "string \<Rightarrow> string \<Rightarrow> nat \<Rightarrow> opportunity_error option" where
  "validateOpportunityRequiredString field value maximum =
     first_error [fail_if (value = []) (opportunityError field), fail_if (length value > maximum) (opportunityError field)]"

definition validateOpportunityOptionalString :: "string \<Rightarrow> string optional \<Rightarrow> nat \<Rightarrow> opportunity_error option" where
  "validateOpportunityOptionalString field value maximum =
     first_error [fail_if (\<not> o_valid value \<and> o_value value \<noteq> []) (opportunityError field),
       fail_if (o_valid value \<and> length (o_value value) > maximum) (opportunityError field)]"

definition validateOpportunityOptionalEpoch :: "string \<Rightarrow> bytes optional \<Rightarrow> opportunity_error option" where
  "validateOpportunityOptionalEpoch field value =
     first_error [fail_if (\<not> o_valid value \<and> o_value value \<noteq> zero16) (opportunityErrorWithCause field [CauseOpportunityEpoch]),
       fail_if (o_valid value \<and> o_value value = zero16) (opportunityErrorWithCause field [CauseOpportunityEpoch])]"

text \<open>Absent numbers have canonical zero storage.\<close>

definition validateOpportunityOptionalInt64 :: "string \<Rightarrow> i64 optional \<Rightarrow> opportunity_error option" where
  "validateOpportunityOptionalInt64 field value = fail_if (\<not> o_valid value \<and> o_value value \<noteq> 0) (opportunityError field)"

definition validateOptionalOpportunityUint64 :: "string \<Rightarrow> u64 optional \<Rightarrow> opportunity_error option" where
  "validateOptionalOpportunityUint64 field value = fail_if (\<not> o_valid value \<and> o_value value \<noteq> 0) (opportunityError field)"

definition opportunityEpoch :: "bytes optional \<Rightarrow> bytes optional \<Rightarrow> opportunity_error + stream_epoch" where
  "opportunityEpoch connection poll =
     (if o_valid connection = o_valid poll then Inl (opportunityErrorWithCause ''stream epoch'' [CauseOpportunityEpoch])
      else if o_valid connection then Inr \<lparr>se_kind = EpochConnection, se_id = o_value connection\<rparr>
      else Inr \<lparr>se_kind = EpochPollCycle, se_id = o_value poll\<rparr>)"

definition validateExpectation :: "opportunity_record \<Rightarrow> stream_epoch \<Rightarrow> opportunity_error option" where
  "validateExpectation r epoch =
     (let e = or_expectation r;
          sequencePresent = (o_valid (or_seq_start r) \<or> o_valid (or_seq_end r));
          inventoryPresent = o_valid (or_inventory r) in
      first_error [
        (if e = OpportunityScheduledRESTPoll
         then fail_if (se_kind epoch \<noteq> EpochPollCycle \<or> \<not> o_valid (or_scheduled r)) (opportunityError ''expectation'')
         else if e = OpportunityAcknowledgementDeadline \<or> e = OpportunityHeartbeatDeadline
         then fail_if (se_kind epoch \<noteq> EpochConnection \<or> \<not> o_valid (or_deadline r)) (opportunityError ''expectation'')
         else if e = OpportunityPeriodicPublication
         then fail_if (\<not> o_valid (or_scheduled r) \<or> \<not> o_valid (or_deadline r)) (opportunityError ''expectation'')
         else if e = OpportunitySubscriptionInventory
         then fail_if (se_kind epoch \<noteq> EpochConnection \<or> \<not> o_valid (or_deadline r) \<or> \<not> inventoryPresent) (opportunityError ''expectation'')
         else if e = OpportunitySequenceInterval
         then first_error [fail_if (\<not> o_valid (or_seq_start r) \<or> \<not> o_valid (or_seq_end r)) (opportunityError ''expectation''),
                fail_if (o_value (or_seq_start r) > o_value (or_seq_end r)) (opportunityError ''expected sequence'')]
         else if e = OpportunityMetadataDiscovery \<or> e = OpportunityNativeFilePublication
         then fail_if (se_kind epoch \<noteq> EpochPollCycle \<or> \<not> o_valid (or_scheduled r)) (opportunityError ''expectation'')
         else if e = OpportunityStochasticTradeSilence \<or> e = OpportunityChangeTriggeredBBOSilence \<or> e = OpportunityUndocumentedTickerSilence
         then Some (opportunityErrorWithCause ''expectation'' [CauseStochasticDenominator])
         else Some (opportunityError ''expectation'')),
        fail_if (e \<noteq> OpportunitySequenceInterval \<and> sequencePresent) (opportunityError ''expected sequence''),
        fail_if (e \<noteq> OpportunitySubscriptionInventory \<and> inventoryPresent) (opportunityError ''expected_inventory_fingerprint'')])"

definition OpportunityRecord_Validate :: "opportunity_record \<Rightarrow> opportunity_error option" where
  "OpportunityRecord_Validate r =
     (case first_error [
        validateOpportunityRequiredString ''opportunity_id'' (or_id r) MaxIdentityBytes,
        validateOpportunityRequiredString ''source_id'' (or_source r) MaxSourceIDBytes,
        validateOpportunityRequiredString ''channel_or_endpoint'' (or_channel r) MaxContractIDBytes,
        validateOpportunityRequiredString ''recorder_version'' (or_recorder r) MaxRecorderVersionBytes,
        validateOpportunityOptionalString ''native_symbol'' (or_symbol r) MaxSymbolBytes,
        validateOpportunityOptionalString ''instrument_uid'' (or_instrument r) MaxIdentityBytes,
        validateOpportunityOptionalString ''subscription_or_request_id'' (or_subscription r) MaxIdentityBytes,
        validateOpportunityOptionalEpoch ''connection_epoch'' (or_connection r),
        validateOpportunityOptionalEpoch ''poll_cycle_id'' (or_poll r)] of
        Some err \<Rightarrow> Some err
      | None \<Rightarrow>
          (case opportunityEpoch (or_connection r) (or_poll r) of
             Inl err \<Rightarrow> Some err
           | Inr epoch \<Rightarrow> first_error [
               validateOpportunityOptionalInt64 ''scheduled_at_ns'' (or_scheduled r),
               validateOpportunityOptionalInt64 ''deadline_at_ns'' (or_deadline r),
               validateOpportunityOptionalInt64 ''terminal_at_ns'' (or_terminal r),
               fail_if (\<not> o_valid (or_terminal r)) (opportunityError ''terminal_at_ns''),
               validateOptionalOpportunityUint64 ''expected_sequence_start'' (or_seq_start r),
               validateOptionalOpportunityUint64 ''expected_sequence_end'' (or_seq_end r),
               fail_if (\<not> o_valid (or_inventory r) \<and> o_value (or_inventory r) \<noteq> zero32) (opportunityError ''expected_inventory_fingerprint''),
               fail_if (or_outcome r < OpportunityOutcomeObserved \<or> or_outcome r > OpportunityOutcomeUnknown) (opportunityError ''terminal_outcome''),
               validateExpectation r epoch]))"

definition NewOpportunity :: "opportunity_record \<Rightarrow> opportunity_error + opportunity_record" where
  "NewOpportunity r = (case OpportunityRecord_Validate r of Some err \<Rightarrow> Inl err | None \<Rightarrow> Inr r)"

text \<open>An accepted record has an expectation that the ledger accepts, and exactly the evidence that expectation calls for.\<close>

lemma accepted_opportunity:
  assumes "NewOpportunity r = Inr r'"
  shows "r' = r \<and> DefensibleOpportunity (or_expectation r) \<and> (o_valid (or_connection r) \<noteq> o_valid (or_poll r)) \<and>
    (o_valid (or_inventory r) \<longleftrightarrow> or_expectation r = OpportunitySubscriptionInventory) \<and>
    ((o_valid (or_seq_start r) \<or> o_valid (or_seq_end r)) \<longleftrightarrow> or_expectation r = OpportunitySequenceInterval) \<and>
    (or_expectation r = OpportunitySequenceInterval \<longrightarrow> o_value (or_seq_start r) \<le> o_value (or_seq_end r))"
proof -
  have r: "r' = r" and v: "OpportunityRecord_Validate r = None" using assms by (auto simp: NewOpportunity_def split: option.splits)
  obtain epoch where e: "opportunityEpoch (or_connection r) (or_poll r) = Inr epoch" "validateExpectation r epoch = None"
    using v by (auto simp: OpportunityRecord_Validate_def split: option.splits sum.splits)
  have "o_valid (or_connection r) \<noteq> o_valid (or_poll r)" using e(1) by (auto simp: opportunityEpoch_def split: if_splits)
  then show ?thesis
    using r e(2) by (auto simp: validateExpectation_def Let_def DefensibleOpportunity_def expectation_defs not_less split: if_splits)
qed

subsection \<open>Rows\<close>

datatype quality_error = ErrInvalidOpportunity | ErrNoDefensibleDenominator | ErrOpportunityConflict string | ErrInvalidSpill |
  ErrUnknownSpillOutcome | ErrInvalidGap | ErrInvalidGapTransition | ErrReservedGapState | ErrInvalidIncident |
  ErrInvalidCorrection | ErrInvalidHealth | ErrExternal string

definition MaxQualityStringBytes :: nat where "MaxQualityStringBytes = 4096"

definition validateQualityString :: "string \<Rightarrow> bool \<Rightarrow> bool" where
  "validateQualityString value required \<longleftrightarrow>
     \<not> (required \<and> value = []) \<and> \<not> (length value > MaxQualityStringBytes \<or> has_nul value)"

record opportunity =
  op_id :: string
  op_partition :: string
  op_source :: string
  op_channel :: string
  op_instrument :: string
  op_expectation :: u8
  op_expected_ns :: i64
  op_start_ns :: i64
  op_end_ns :: i64
  op_scope :: bytes
  op_terminal :: bool
  op_terminal_ns :: i64
  op_outcome :: u8
  op_evidence :: bytes
  op_created_ns :: i64

definition Opportunity_Validate :: "json_lib \<Rightarrow> opportunity \<Rightarrow> quality_error option" where
  "Opportunity_Validate jl r = first_error [
     fail_if (\<not> list_all (\<lambda>v. validateQualityString v True) [op_id r, op_partition r, op_source r, op_channel r]) ErrInvalidOpportunity,
     fail_if (\<not> validateQualityString (op_instrument r) False) ErrInvalidOpportunity,
     fail_if (\<not> DefensibleOpportunity (op_expectation r)) ErrNoDefensibleDenominator,
     fail_if (op_expected_ns r < 0 \<or> op_start_ns r < 0 \<or> op_end_ns r < op_start_ns r \<or> op_expected_ns r < op_start_ns r \<or>
       op_expected_ns r > op_end_ns r \<or> op_created_ns r < 0) ErrInvalidOpportunity,
     fail_if (canonicalJSONObject jl (op_scope r) \<noteq> Some (op_scope r)) ErrInvalidOpportunity,
     (if \<not> op_terminal r
      then fail_if (op_terminal_ns r \<noteq> 0 \<or> op_outcome r \<noteq> 0 \<or> length (op_evidence r) \<noteq> 0) ErrInvalidOpportunity
      else first_error [
        fail_if (op_terminal_ns r < 0 \<or> op_outcome r < OpportunityOutcomeObserved \<or> op_outcome r > OpportunityOutcomeUnknown) ErrInvalidOpportunity,
        fail_if (canonicalJSONObject jl (op_evidence r) \<noteq> Some (op_evidence r)) ErrInvalidOpportunity])]"

subsection \<open>Hashing\<close>

definition writeHashBytes :: "bytes \<Rightarrow> bytes \<Rightarrow> bytes" where
  "writeHashBytes h v = h @ be_u64 (of_nat (length v)) @ v"

definition writeHashString :: "bytes \<Rightarrow> string \<Rightarrow> bytes" where
  "writeHashString h v = writeHashBytes h (str_bytes v)"

definition writeHashInt64 :: "bytes \<Rightarrow> i64 \<Rightarrow> bytes" where
  "writeHashInt64 h v = h @ be_u64 (of_int v)"

definition opportunity_bytes :: "opportunity \<Rightarrow> bytes" where
  "opportunity_bytes r =
     (let h = str_bytes ''quality-opportunity-v1'' @ [0];
          h = writeHashString h (op_id r);
          h = writeHashString h (op_partition r);
          h = writeHashString h (op_source r);
          h = writeHashString h (op_channel r);
          h = writeHashString h (op_instrument r);
          h = writeHashString h (Expectation_String (op_expectation r));
          h = writeHashInt64 h (op_expected_ns r);
          h = writeHashInt64 h (op_start_ns r);
          h = writeHashInt64 h (op_end_ns r);
          h = writeHashBytes h (op_scope r);
          h = (if op_terminal r
               then writeHashBytes (writeHashString (writeHashInt64 (h @ [1]) (op_terminal_ns r)) (Outcome_String (op_outcome r))) (op_evidence r)
               else h @ [0])
      in writeHashInt64 h (op_created_ns r))"

definition Opportunity_LogicalHash :: "(bytes \<Rightarrow> hash) \<Rightarrow> json_lib \<Rightarrow> opportunity \<Rightarrow> quality_error + hash" where
  "Opportunity_LogicalHash sha jl r =
     (case Opportunity_Validate jl r of Some err \<Rightarrow> Inl err | None \<Rightarrow> Inr (sha (opportunity_bytes r)))"

definition sameOpportunity :: "(bytes \<Rightarrow> hash) \<Rightarrow> json_lib \<Rightarrow> opportunity \<Rightarrow> opportunity \<Rightarrow> bool" where
  "sameOpportunity sha jl l r =
     (case (Opportunity_LogicalHash sha jl l, Opportunity_LogicalHash sha jl r) of
        (Inr lh, Inr rh) \<Rightarrow> lh = rh
      | _ \<Rightarrow> False)"

subsection \<open>The hashed bytes determine the row\<close>

text \<open>What the Go types guarantee of a row: signed 64-bit times and lengths below the word range.\<close>

definition row_shape :: "opportunity \<Rightarrow> bool" where
  "row_shape r \<longleftrightarrow> in_i64 (op_expected_ns r) \<and> in_i64 (op_start_ns r) \<and> in_i64 (op_end_ns r) \<and> in_i64 (op_terminal_ns r) \<and>
     in_i64 (op_created_ns r) \<and> length (op_scope r) < 2 ^ 63 \<and> length (op_evidence r) < 2 ^ 63"

definition sized :: "bytes \<Rightarrow> bytes" where
  "sized v = be_u64 (of_nat (length v)) @ v"

lemma be_u64_append: "be_u64 v @ r = be_u64 w @ t \<longleftrightarrow> v = w \<and> r = t"
  by (auto simp: be_u64_inj)

lemma sized_inj: "length v < 2 ^ 63 \<Longrightarrow> length w < 2 ^ 63 \<Longrightarrow> sized v @ r = sized w @ t \<longleftrightarrow> v = w \<and> r = t"
proof
  assume len: "length v < 2 ^ 63" "length w < 2 ^ 63" and eq: "sized v @ r = sized w @ t"
  then have "(of_nat (length v) :: u64) = of_nat (length w)" "v @ r = w @ t" by (simp_all add: sized_def be_u64_append)
  moreover have "unat (of_nat (length v) :: u64) = length v" "unat (of_nat (length w) :: u64) = length w"
    using len by (intro unat_of_nat_u64; simp)+
  ultimately have "length v = length w" by metis
  then show "v = w \<and> r = t" using \<open>v @ r = w @ t\<close> by simp
qed simp

lemma sized_str_inj: "length v \<le> 4096 \<Longrightarrow> length w \<le> 4096 \<Longrightarrow> sized (str_bytes v) @ r = sized (str_bytes w) @ t \<longleftrightarrow> v = w \<and> r = t"
  by (simp add: sized_inj str_bytes_inj)

lemma of_int_i64_inj: "in_i64 x \<Longrightarrow> in_i64 y \<Longrightarrow> (of_int x :: u64) = of_int y \<longleftrightarrow> x = y"
  using sint_of_int_i64 [of x] sint_of_int_i64 [of y] by metis

lemma expectation_name_inj:
  "DefensibleOpportunity a \<Longrightarrow> DefensibleOpportunity b \<Longrightarrow> Expectation_String a = Expectation_String b \<Longrightarrow> a = b"
  unfolding DefensibleOpportunity_def by (elim insertE emptyE) (simp_all add: Expectation_String_def expectation_defs)

lemma outcome_cases:
  assumes "OpportunityOutcomeObserved \<le> a" "a \<le> OpportunityOutcomeUnknown"
  shows "unat a - 1 < length outcome_names \<and> 1 \<le> unat a"
  using assms by (simp add: OpportunityOutcomeObserved_def OpportunityOutcomeUnknown_def outcome_names_def word_le_nat_alt)

lemma outcome_name_inj:
  assumes "OpportunityOutcomeObserved \<le> a" "a \<le> OpportunityOutcomeUnknown" "OpportunityOutcomeObserved \<le> b" "b \<le> OpportunityOutcomeUnknown"
    "Outcome_String a = Outcome_String b"
  shows "a = b"
proof -
  have "distinct outcome_names" by (simp add: outcome_names_def)
  then have "unat a - 1 = unat b - 1"
    using assms outcome_cases [of a] outcome_cases [of b] by (simp add: Outcome_String_def nth_eq_iff_index_eq)
  moreover have "1 \<le> unat a" "1 \<le> unat b" using outcome_cases assms by blast+
  ultimately have "unat a = unat b" by linarith
  then show ?thesis by (simp add: word_unat_eq_iff)
qed

lemma name_lengths: "length (Expectation_String e) \<le> 64" "length (Outcome_String out) \<le> 64"
proof -
  have "unat w < 10 ^ 3" for w :: u8 using unat_bound [of w] by simp
  then have n: "length (nat_text (unat w)) \<le> 3" for w :: u8 by (intro nat_text_length_less) simp_all
  show "length (Expectation_String e) \<le> 64" using n [of e] by (auto simp: Expectation_String_def)
  have "list_all (\<lambda>s. length s \<le> 64) outcome_names" by (simp add: outcome_names_def)
  then show "length (Outcome_String out) \<le> 64"
    using n [of out] outcome_cases [of out] by (auto simp: Outcome_String_def list_all_length)
qed

lemma Validate_row_facts:
  assumes "Opportunity_Validate jl r = None"
  shows "list_all (\<lambda>v. length v \<le> 4096 \<and> \<not> has_nul v) [op_id r, op_partition r, op_source r, op_channel r, op_instrument r]"
    "op_id r \<noteq> []" "op_source r \<noteq> []"
    "DefensibleOpportunity (op_expectation r)"
    "op_terminal r \<Longrightarrow> OpportunityOutcomeObserved \<le> op_outcome r \<and> op_outcome r \<le> OpportunityOutcomeUnknown \<and> 0 \<le> op_terminal_ns r"
    "\<not> op_terminal r \<Longrightarrow> op_terminal_ns r = 0 \<and> op_outcome r = 0 \<and> op_evidence r = []"
  using assms by (auto simp: Opportunity_Validate_def validateQualityString_def MaxQualityStringBytes_def not_less split: if_splits)

definition terminal_bytes :: "opportunity \<Rightarrow> bytes" where
  "terminal_bytes r =
     (if op_terminal r then [1] @ be_u64 (of_int (op_terminal_ns r)) @ sized (str_bytes (Outcome_String (op_outcome r))) @ sized (op_evidence r)
      else [0]) @ be_u64 (of_int (op_created_ns r))"

lemma opportunity_bytes_flat:
  "opportunity_bytes r = (str_bytes ''quality-opportunity-v1'' @ [0]) @ sized (str_bytes (op_id r)) @ sized (str_bytes (op_partition r)) @
     sized (str_bytes (op_source r)) @ sized (str_bytes (op_channel r)) @ sized (str_bytes (op_instrument r)) @
     sized (str_bytes (Expectation_String (op_expectation r))) @ be_u64 (of_int (op_expected_ns r)) @ be_u64 (of_int (op_start_ns r)) @
     be_u64 (of_int (op_end_ns r)) @ sized (op_scope r) @ terminal_bytes r"
  by (simp add: opportunity_bytes_def Let_def writeHashString_def writeHashBytes_def writeHashInt64_def sized_def terminal_bytes_def)

lemma terminal_bytes_inj:
  assumes "Opportunity_Validate jl l = None" "Opportunity_Validate jl r = None" "row_shape l" "row_shape r" "terminal_bytes l = terminal_bytes r"
  shows "op_terminal l = op_terminal r \<and> op_terminal_ns l = op_terminal_ns r \<and> op_outcome l = op_outcome r \<and> op_evidence l = op_evidence r \<and>
    op_created_ns l = op_created_ns r"
proof -
  have n: "length (Outcome_String out) \<le> 4096" for out using name_lengths(2) [of out] by simp
  have t: "op_terminal l = op_terminal r" using assms(5) by (auto simp: terminal_bytes_def split: if_splits)
  note v = Validate_row_facts(5,6) [OF assms(1)] Validate_row_facts(5,6) [OF assms(2)]
  show ?thesis
  proof (cases "op_terminal l")
    case True
    then have "op_terminal_ns l = op_terminal_ns r \<and> Outcome_String (op_outcome l) = Outcome_String (op_outcome r) \<and>
        op_evidence l = op_evidence r \<and> op_created_ns l = op_created_ns r"
      using assms(3-5) t n unfolding row_shape_def terminal_bytes_def
      by (simp add: sized_str_inj sized_inj be_u64_append of_int_i64_inj be_u64_inj del: append_eq_append_conv)
    then show ?thesis using True t v(1,3) outcome_name_inj by blast
  next
    case False
    then show ?thesis using assms(3-5) t v(2,4) unfolding row_shape_def terminal_bytes_def by (simp add: be_u64_inj of_int_i64_inj)
  qed
qed

lemma opportunity_bytes_inj:
  assumes "Opportunity_Validate jl l = None" "Opportunity_Validate jl r = None" "row_shape l" "row_shape r" "opportunity_bytes l = opportunity_bytes r"
  shows "l = r"
proof -
  note v = Validate_row_facts(1,4) [OF assms(1)] Validate_row_facts(1,4) [OF assms(2)]
  have n: "length (Expectation_String e) \<le> 4096" for e using name_lengths(1) [of e] by simp
  have head: "op_id l = op_id r \<and> op_partition l = op_partition r \<and> op_source l = op_source r \<and> op_channel l = op_channel r \<and>
    op_instrument l = op_instrument r \<and> Expectation_String (op_expectation l) = Expectation_String (op_expectation r) \<and>
    op_expected_ns l = op_expected_ns r \<and> op_start_ns l = op_start_ns r \<and> op_end_ns l = op_end_ns r \<and> op_scope l = op_scope r \<and>
    terminal_bytes l = terminal_bytes r"
    using assms(3-5) v(1,3) n unfolding opportunity_bytes_flat row_shape_def
    by (simp add: sized_str_inj sized_inj str_bytes_inj be_u64_append of_int_i64_inj del: append_eq_append_conv)
  then have "op_expectation l = op_expectation r" using expectation_name_inj v(2,4) by blast
  then show ?thesis using head terminal_bytes_inj [OF assms(1-4)] by (intro opportunity.equality) simp_all
qed

end
