(* ===== verification/Spill.thy ===== *)
theory Spill
  imports Opportunity
begin

text \<open>
  \<open>src/quality/spill.go\<close>: a spill generation moves terminal rows of the opportunity
  ledger into an archive.  The model has the generation, its fingerprint and its
  validation, and the protocol \<open>ExecuteOpportunitySpill\<close>, whose store and archive
  writer are records of functions on an arbitrary outside state, so that a call may
  fail after it took effect; the model keeps the list of calls made.

  The lemmas show that a generation made from rows passes its own validation or is
  refused, and that rows are deleted only for a generation known to be committed
  with a validated archive.
\<close>

subsection \<open>Generations\<close>

definition SpillPending :: string where "SpillPending = ''pending''"
definition SpillCommitted :: string where "SpillCommitted = ''committed''"
definition SpillQuarantined :: string where "SpillQuarantined = ''quarantined''"

record boundary =
  bd_terminal_ns :: i64
  bd_id :: string

definition compareBoundary :: "boundary \<Rightarrow> boundary \<Rightarrow> int" where
  "compareBoundary l r = compare_then (bd_terminal_ns l) (bd_terminal_ns r) (compare_then (bd_id l) (bd_id r) 0)"

record row_identity =
  ri_id :: string
  ri_terminal_ns :: i64
  ri_hash :: hash

record archive_commit =
  ac_generation :: string
  ac_fingerprint :: hash
  ac_partition_id :: string
  ac_manifest_hash :: hash
  ac_manifest_path :: string
  ac_parquet_path :: string
  ac_version :: string
  ac_partition_key :: string
  ac_start_ns :: i64
  ac_end_ns :: i64
  ac_input_set :: hash
  ac_catalog :: hash
  ac_mapper :: hash
  ac_logical :: hash
  ac_physical :: hash

record spill_generation =
  sg_id :: string
  sg_partition :: string
  sg_catalog :: hash
  sg_mapper :: hash
  sg_from :: boundary
  sg_through :: boundary
  sg_rows :: "opportunity list"
  sg_identities :: "row_identity list"
  sg_fingerprint :: hash
  sg_state :: string
  sg_archive :: "archive_commit option"
  sg_reason :: string

record spill_request =
  sr_id :: string
  sr_partition :: string
  sr_through_ns :: i64
  sr_maximum :: int
  sr_catalog :: hash
  sr_mapper :: hash

definition SpillRequest_Validate :: "spill_request \<Rightarrow> quality_error option" where
  "SpillRequest_Validate r = first_error [
     fail_if (\<not> validateQualityString (sr_id r) True) ErrInvalidSpill,
     fail_if (\<not> validateQualityString (sr_partition r) True) ErrInvalidSpill,
     fail_if (sr_through_ns r < 0 \<or> sr_maximum r < 1 \<or> sr_maximum r > 1000000 \<or> sr_catalog r = zero32 \<or> sr_mapper r = zero32) ErrInvalidSpill]"

fun write_identities :: "bytes \<Rightarrow> row_identity list \<Rightarrow> bytes" where
  "write_identities h [] = h"
| "write_identities h (r # rs) = write_identities (writeHashString (writeHashInt64 h (ri_terminal_ns r)) (ri_id r) @ ri_hash r) rs"

definition spillFingerprint :: "(bytes \<Rightarrow> hash) \<Rightarrow> string \<Rightarrow> string \<Rightarrow> hash \<Rightarrow> hash \<Rightarrow> row_identity list \<Rightarrow> hash" where
  "spillFingerprint sha generationID ledger catalog mapper rows =
     (let h = str_bytes ''quality-opportunity-spill-generation-v2'' @ [0];
          h = writeHashString h generationID;
          h = writeHashString h ledger
      in sha (write_identities (h @ catalog @ mapper) rows))"

fun logical_hashes :: "(bytes \<Rightarrow> hash) \<Rightarrow> json_lib \<Rightarrow> opportunity list \<Rightarrow> quality_error + hash list" where
  "logical_hashes sha jl [] = Inr []"
| "logical_hashes sha jl (r # rs) =
     (case Opportunity_LogicalHash sha jl r of
        Inl err \<Rightarrow> Inl err
      | Inr h \<Rightarrow> (case logical_hashes sha jl rs of Inl err \<Rightarrow> Inl err | Inr hs \<Rightarrow> Inr (h # hs)))"

definition OpportunityArchiveLogicalHash :: "(bytes \<Rightarrow> hash) \<Rightarrow> json_lib \<Rightarrow> opportunity list \<Rightarrow> quality_error + hash" where
  "OpportunityArchiveLogicalHash sha jl rows =
     (case logical_hashes sha jl rows of
        Inl err \<Rightarrow> Inl err
      | Inr hs \<Rightarrow> Inr (sha (str_bytes ''dataset-opportunity-archive-logical-v1'' @ [0] @ concat hs)))"

definition ArchiveCommit_Validate :: "archive_commit \<Rightarrow> spill_generation \<Rightarrow> quality_error option" where
  "ArchiveCommit_Validate a g = first_error [
     fail_if (\<not> list_all (\<lambda>v. validateQualityString v True)
       [ac_generation a, ac_partition_id a, ac_manifest_path a, ac_parquet_path a, ac_version a, ac_partition_key a]) ErrInvalidSpill,
     fail_if (ac_generation a \<noteq> sg_id g \<or> ac_fingerprint a \<noteq> sg_fingerprint g \<or> ac_catalog a \<noteq> sg_catalog g \<or> ac_mapper a \<noteq> sg_mapper g \<or>
       ac_start_ns a \<noteq> bd_terminal_ns (sg_from g) \<or> ac_end_ns a \<noteq> bd_terminal_ns (sg_through g) \<or> ac_start_ns a < 0 \<or>
       ac_end_ns a < ac_start_ns a) ErrInvalidSpill,
     fail_if (zero32 \<in> set [ac_manifest_hash a, ac_input_set a, ac_catalog a, ac_mapper a, ac_logical a, ac_physical a]) ErrInvalidSpill]"

definition identity_boundary :: "row_identity \<Rightarrow> boundary" where
  "identity_boundary i = \<lparr>bd_terminal_ns = ri_terminal_ns i, bd_id = ri_id i\<rparr>"

fun identities_ok :: "row_identity option \<Rightarrow> row_identity list \<Rightarrow> bool" where
  "identities_ok previous [] = True"
| "identities_ok previous (i # rest) =
     (validateQualityString (ri_id i) True \<and> \<not> ri_terminal_ns i < 0 \<and> ri_hash i \<noteq> zero32 \<and>
      (case previous of None \<Rightarrow> True | Some p \<Rightarrow> \<not> compareBoundary (identity_boundary p) (identity_boundary i) \<ge> 0) \<and>
      identities_ok (Some i) rest)"

text \<open>The UTC date of a time, as its day number: two times format to one date exactly when the days agree.\<close>

definition utc_day :: "i64 \<Rightarrow> int" where
  "utc_day ns = ns div 86400000000000"

fun members_ok :: "(bytes \<Rightarrow> hash) \<Rightarrow> json_lib \<Rightarrow> string \<Rightarrow> int option \<Rightarrow> opportunity list \<Rightarrow> row_identity list \<Rightarrow> bool" where
  "members_ok sha jl ledger date (r # rs) (i # is) =
     ((case Opportunity_LogicalHash sha jl r of
         Inl err \<Rightarrow> False
       | Inr h \<Rightarrow> op_terminal r \<and> op_partition r = ledger \<and> op_id r = ri_id i \<and> op_terminal_ns r = ri_terminal_ns i \<and> h = ri_hash i) \<and>
      (case date of None \<Rightarrow> True | Some d \<Rightarrow> utc_day (op_terminal_ns r) = d) \<and>
      members_ok sha jl ledger (Some (utc_day (op_terminal_ns r))) rs is)"
| "members_ok sha jl ledger date _ _ = True"

definition SpillGeneration_Validate :: "(bytes \<Rightarrow> hash) \<Rightarrow> json_lib \<Rightarrow> spill_generation \<Rightarrow> quality_error option" where
  "SpillGeneration_Validate sha jl g = first_error [
     fail_if (\<not> validateQualityString (sg_id g) True) ErrInvalidSpill,
     fail_if (\<not> validateQualityString (sg_partition g) True) ErrInvalidSpill,
     fail_if (sg_identities g = [] \<or> bd_terminal_ns (sg_from g) < 0 \<or> bd_terminal_ns (sg_through g) < 0 \<or>
       compareBoundary (sg_from g) (sg_through g) > 0 \<or> sg_catalog g = zero32 \<or> sg_mapper g = zero32) ErrInvalidSpill,
     fail_if (\<not> identities_ok None (sg_identities g)) ErrInvalidSpill,
     fail_if (sg_from g \<noteq> identity_boundary (hd (sg_identities g))) ErrInvalidSpill,
     fail_if (sg_through g \<noteq> identity_boundary (last (sg_identities g))) ErrInvalidSpill,
     fail_if (spillFingerprint sha (sg_id g) (sg_partition g) (sg_catalog g) (sg_mapper g) (sg_identities g) \<noteq> sg_fingerprint g) ErrInvalidSpill,
     fail_if (sg_rows g \<noteq> [] \<and> (length (sg_rows g) \<noteq> length (sg_identities g) \<or>
       \<not> members_ok sha jl (sg_partition g) None (sg_rows g) (sg_identities g))) ErrInvalidSpill,
     (if sg_state g = SpillPending then fail_if (sg_archive g \<noteq> None \<or> sg_reason g \<noteq> []) ErrInvalidSpill
      else if sg_state g = SpillQuarantined then fail_if (sg_archive g \<noteq> None \<or> \<not> validateQualityString (sg_reason g) True) ErrInvalidSpill
      else if sg_state g = SpillCommitted then
        (case sg_archive g of
           None \<Rightarrow> Some ErrInvalidSpill
         | Some a \<Rightarrow> if sg_reason g \<noteq> [] then Some ErrInvalidSpill else ArchiveCommit_Validate a g)
      else Some ErrInvalidSpill)]"

definition row_boundary :: "opportunity \<Rightarrow> boundary" where
  "row_boundary r = \<lparr>bd_terminal_ns = op_terminal_ns r, bd_id = op_id r\<rparr>"

definition zero_boundary :: boundary where
  "zero_boundary = \<lparr>bd_terminal_ns = 0, bd_id = []\<rparr>"

definition make_identities :: "opportunity list \<Rightarrow> hash list \<Rightarrow> row_identity list" where
  "make_identities rows hs = map (\<lambda>(r, h). \<lparr>ri_id = op_id r, ri_terminal_ns = op_terminal_ns r, ri_hash = h\<rparr>) (zip rows hs)"

definition NewSpillGeneration :: "(bytes \<Rightarrow> hash) \<Rightarrow> json_lib \<Rightarrow> spill_request \<Rightarrow> opportunity list \<Rightarrow> quality_error + spill_generation" where
  "NewSpillGeneration sha jl request rows =
     (case SpillRequest_Validate request of
        Some err \<Rightarrow> Inl err
      | None \<Rightarrow>
          (let sorted_rows = SortFunc (\<lambda>l r. compareBoundary (row_boundary l) (row_boundary r)) rows in
           case logical_hashes sha jl sorted_rows of
             Inl err \<Rightarrow> Inl err
           | Inr hs \<Rightarrow>
               (let identities = make_identities sorted_rows hs;
                    g = \<lparr>sg_id = sr_id request, sg_partition = sr_partition request, sg_catalog = sr_catalog request, sg_mapper = sr_mapper request,
                         sg_from = (if identities \<noteq> [] then identity_boundary (hd identities) else zero_boundary),
                         sg_through = (if identities \<noteq> [] then identity_boundary (last identities) else zero_boundary),
                         sg_rows = sorted_rows, sg_identities = identities,
                         sg_fingerprint = spillFingerprint sha (sr_id request) (sr_partition request) (sr_catalog request) (sr_mapper request) identities,
                         sg_state = SpillPending, sg_archive = None, sg_reason = []\<rparr> in
                case SpillGeneration_Validate sha jl g of Some err \<Rightarrow> Inl err | None \<Rightarrow> Inr g)))"

subsection \<open>The protocol\<close>

text \<open>The store and the archive writer, on an outside state; a failing call may have changed it.\<close>

record 'w spill_store =
  st_begin :: "spill_request \<Rightarrow> 'w \<Rightarrow> (quality_error + spill_generation) \<times> 'w"
  st_status :: "string \<Rightarrow> 'w \<Rightarrow> (quality_error + spill_generation) \<times> 'w"
  st_commit :: "spill_generation \<Rightarrow> archive_commit \<Rightarrow> 'w \<Rightarrow> quality_error option \<times> 'w"
  st_delete :: "string \<Rightarrow> 'w \<Rightarrow> quality_error option \<times> 'w"

record 'w archive_writer =
  aw_lookup :: "spill_generation \<Rightarrow> 'w \<Rightarrow> (quality_error + archive_commit option) \<times> 'w"
  aw_write :: "spill_generation \<Rightarrow> 'w \<Rightarrow> (quality_error + archive_commit) \<times> 'w"

datatype spill_call = CalledBegin "quality_error + spill_generation" | CalledLookup "quality_error + archive_commit option" |
  CalledWrite "quality_error + archive_commit" | CalledCommit archive_commit "quality_error option" |
  CalledStatus "quality_error + spill_generation" | CalledDelete string "quality_error option"

type_synonym 'w world = "'w \<times> spill_call list"

definition logged :: "('a \<Rightarrow> spill_call) \<Rightarrow> ('w \<Rightarrow> 'a \<times> 'w) \<Rightarrow> 'w world \<Rightarrow> 'a \<times> 'w world" where
  "logged tag call = (\<lambda>(w, calls). case call w of (answer, w') \<Rightarrow> (answer, (w', calls @ [tag answer])))"

text \<open>The archive of a pending generation: one already published, else written, else found after a failed write.\<close>

definition find_archive :: "'w archive_writer \<Rightarrow> spill_generation \<Rightarrow> 'w world \<Rightarrow> (quality_error list + archive_commit) \<times> 'w world" where
  "find_archive writer g s0 =
     (case logged CalledLookup (aw_lookup writer g) s0 of
        (Inl err, s1) \<Rightarrow> (Inl [err], s1)
      | (Inr (Some a), s1) \<Rightarrow> (Inr a, s1)
      | (Inr None, s1) \<Rightarrow>
          (case logged CalledWrite (aw_write writer g) s1 of
             (Inr a, s2) \<Rightarrow> (Inr a, s2)
           | (Inl err, s2) \<Rightarrow>
               (case logged CalledLookup (aw_lookup writer g) s2 of
                  (Inl lookupErr, s3) \<Rightarrow> (Inl [err, lookupErr, ErrUnknownSpillOutcome], s3)
                | (Inr None, s3) \<Rightarrow> (Inl [err, ErrUnknownSpillOutcome], s3)
                | (Inr (Some a), s3) \<Rightarrow> (Inr a, s3))))"

definition commit_archive :: "'w spill_store \<Rightarrow> spill_generation \<Rightarrow> archive_commit \<Rightarrow> 'w world \<Rightarrow> (quality_error list + spill_generation) \<times> 'w world" where
  "commit_archive store g a s0 =
     (case logged (CalledCommit a) (st_commit store g a) s0 of
        (None, s1) \<Rightarrow> (Inr (g\<lparr>sg_state := SpillCommitted, sg_archive := Some a\<rparr>), s1)
      | (Some err, s1) \<Rightarrow>
          (case logged CalledStatus (st_status store (sg_id g)) s1 of
             (Inl statusErr, s2) \<Rightarrow> (Inl [err, statusErr, ErrUnknownSpillOutcome], s2)
           | (Inr reconciled, s2) \<Rightarrow>
               if sg_state reconciled \<noteq> SpillCommitted \<or> sg_archive reconciled = None \<or> sg_archive reconciled \<noteq> Some a
               then (Inl [err, ErrUnknownSpillOutcome], s2) else (Inr reconciled, s2)))"

definition delete_rows :: "'w spill_store \<Rightarrow> spill_generation \<Rightarrow> 'w world \<Rightarrow> (spill_generation option \<times> quality_error list) \<times> 'w world" where
  "delete_rows store g s0 =
     (case logged (CalledDelete (sg_id g)) (st_delete store (sg_id g)) s0 of
        (Some err, s1) \<Rightarrow> ((Some g, [err]), s1)
      | (None, s1) \<Rightarrow> ((Some g, []), s1))"

definition ExecuteOpportunitySpill :: "(bytes \<Rightarrow> hash) \<Rightarrow> json_lib \<Rightarrow> 'w spill_store \<Rightarrow> 'w archive_writer \<Rightarrow> spill_request \<Rightarrow> 'w world \<Rightarrow>
    (spill_generation option \<times> quality_error list) \<times> 'w world" where
  "ExecuteOpportunitySpill sha jl store writer request s0 =
     (case SpillRequest_Validate request of
        Some err \<Rightarrow> ((None, [err]), s0)
      | None \<Rightarrow>
          (case logged CalledBegin (st_begin store request) s0 of
             (Inl err, s1) \<Rightarrow> ((None, [err]), s1)
           | (Inr g, s1) \<Rightarrow>
               (case SpillGeneration_Validate sha jl g of
                  Some err \<Rightarrow> ((None, [err]), s1)
                | None \<Rightarrow>
                    if sg_state g = SpillCommitted then delete_rows store g s1
                    else if sg_state g \<noteq> SpillPending then ((Some g, [ErrInvalidSpill]), s1)
                    else (case find_archive writer g s1 of
                      (Inl errs, s2) \<Rightarrow> ((Some g, errs), s2)
                    | (Inr a, s2) \<Rightarrow>
                        (case ArchiveCommit_Validate a g of
                           Some err \<Rightarrow> ((Some g, [err]), s2)
                         | None \<Rightarrow>
                             (case commit_archive store g a s2 of
                                (Inl errs, s3) \<Rightarrow> ((Some g, errs), s3)
                              | (Inr g', s3) \<Rightarrow> delete_rows store g' s3))))))"

subsection \<open>Deletion follows the commit\<close>

lemma logged_calls: "logged tag call s = (answer, s') \<Longrightarrow> snd s' = snd s @ [tag answer]"
  by (auto simp: logged_def split: prod.splits)

definition is_delete :: "spill_call \<Rightarrow> bool" where
  "is_delete c \<longleftrightarrow> (case c of CalledDelete _ _ \<Rightarrow> True | _ \<Rightarrow> False)"

text \<open>The calls that find an archive, and those that establish that it is committed.\<close>

definition archive_found :: "archive_commit \<Rightarrow> spill_call list \<Rightarrow> bool" where
  "archive_found a calls \<longleftrightarrow> calls = [CalledLookup (Inr (Some a))] \<or> calls = [CalledLookup (Inr None), CalledWrite (Inr a)] \<or>
     (\<exists>err. calls = [CalledLookup (Inr None), CalledWrite (Inl err), CalledLookup (Inr (Some a))])"

definition commit_known :: "archive_commit \<Rightarrow> spill_generation \<Rightarrow> spill_generation \<Rightarrow> spill_call list \<Rightarrow> bool" where
  "commit_known a g g' calls \<longleftrightarrow>
     (calls = [CalledCommit a None] \<and> g' = g\<lparr>sg_state := SpillCommitted, sg_archive := Some a\<rparr>) \<or>
     (\<exists>err. calls = [CalledCommit a (Some err), CalledStatus (Inr g')] \<and> sg_state g' = SpillCommitted \<and> sg_archive g' = Some a)"

lemma find_archive_calls:
  assumes "find_archive writer g s = (res, s')"
  shows "\<exists>calls. snd s' = snd s @ calls \<and> \<not> list_ex is_delete calls \<and> (\<forall>a. res = Inr a \<longrightarrow> archive_found a calls) \<and> (\<forall>errs. res = Inl errs \<longrightarrow> errs \<noteq> [])"
  using assms unfolding find_archive_def
  by (auto simp: is_delete_def archive_found_def dest!: logged_calls split: prod.splits sum.splits option.splits)

lemma commit_archive_calls:
  assumes "commit_archive store g a s = (res, s')"
  shows "\<exists>calls. snd s' = snd s @ calls \<and> \<not> list_ex is_delete calls \<and> (\<forall>g'. res = Inr g' \<longrightarrow> commit_known a g g' calls) \<and> (\<forall>errs. res = Inl errs \<longrightarrow> errs \<noteq> [])"
  using assms unfolding commit_archive_def
  by (auto simp: is_delete_def commit_known_def dest!: logged_calls split: prod.splits sum.splits option.splits if_splits)

lemma delete_rows_calls:
  assumes "delete_rows store g s = ((res, errs), s')"
  shows "res = Some g \<and> (\<exists>answer. snd s' = snd s @ [CalledDelete (sg_id g) answer] \<and> errs = (case answer of None \<Rightarrow> [] | Some err \<Rightarrow> [err]))"
  using assms unfolding delete_rows_def by (auto dest!: logged_calls split: prod.splits option.splits)

text \<open>What follows a pending generation, as one function of the world.\<close>

definition settle :: "'w spill_store \<Rightarrow> 'w archive_writer \<Rightarrow> spill_generation \<Rightarrow> 'w world \<Rightarrow> (spill_generation option \<times> quality_error list) \<times> 'w world" where
  "settle store writer g s =
     (case find_archive writer g s of
        (Inl errs, s2) \<Rightarrow> ((Some g, errs), s2)
      | (Inr a, s2) \<Rightarrow>
          (case ArchiveCommit_Validate a g of
             Some err \<Rightarrow> ((Some g, [err]), s2)
           | None \<Rightarrow>
               (case commit_archive store g a s2 of
                  (Inl errs, s3) \<Rightarrow> ((Some g, errs), s3)
                | (Inr g', s3) \<Rightarrow> delete_rows store g' s3)))"

lemma settle_calls:
  assumes "settle store writer g s = ((res, errs), s')"
  shows "(\<exists>calls. snd s' = snd s @ calls \<and> \<not> list_ex is_delete calls \<and> errs \<noteq> []) \<or>
    (\<exists>a g' found known answer. snd s' = snd s @ found @ known @ [CalledDelete (sg_id g') answer] \<and> \<not> list_ex is_delete (found @ known) \<and>
       res = Some g' \<and> errs = (case answer of None \<Rightarrow> [] | Some err \<Rightarrow> [err]) \<and>
       archive_found a found \<and> ArchiveCommit_Validate a g = None \<and> commit_known a g g' known)"
proof -
  obtain fa s2 where f: "find_archive writer g s = (fa, s2)" by (cases "find_archive writer g s")
  obtain found where found: "snd s2 = snd s @ found" "\<not> list_ex is_delete found" "\<And>a. fa = Inr a \<Longrightarrow> archive_found a found"
      "\<And>errs. fa = Inl errs \<Longrightarrow> errs \<noteq> []"
    using find_archive_calls [OF f] by blast
  show ?thesis
  proof (cases fa)
    case (Inl errs')
    then show ?thesis using assms f found unfolding settle_def by auto
  next
    case fa: (Inr a)
    show ?thesis
    proof (cases "ArchiveCommit_Validate a g")
      case (Some err)
      then show ?thesis using assms f found fa unfolding settle_def by auto
    next
      case valid: None
      obtain ca s3 where c: "commit_archive store g a s2 = (ca, s3)" by (cases "commit_archive store g a s2")
      obtain known where known: "snd s3 = snd s2 @ known" "\<not> list_ex is_delete known" "\<And>g'. ca = Inr g' \<Longrightarrow> commit_known a g g' known"
          "\<And>errs. ca = Inl errs \<Longrightarrow> errs \<noteq> []"
        using commit_archive_calls [OF c] by blast
      show ?thesis
      proof (cases ca)
        case (Inl errs')
        then have "snd s' = snd s @ found @ known" "errs \<noteq> []" using assms f found fa valid c known unfolding settle_def by auto
        then show ?thesis using found(2) known(2) by auto
      next
        case ca: (Inr g')
        then have "delete_rows store g' s3 = ((res, errs), s')" using assms f fa valid c unfolding settle_def by simp
        from delete_rows_calls [OF this] obtain answer where d: "res = Some g'" "snd s' = snd s3 @ [CalledDelete (sg_id g') answer]"
          "errs = (case answer of None \<Rightarrow> [] | Some err \<Rightarrow> [err])" by blast
        show ?thesis
          using d found(1,2) known(1,2) found(3) [OF fa] known(3) [OF ca] valid
          by (intro disjI2 exI [of _ a] exI [of _ g'] exI [of _ found] exI [of _ known] exI [of _ answer]) simp
      qed
    qed
  qed
qed

lemma ExecuteOpportunitySpill_calls:
  assumes "ExecuteOpportunitySpill sha jl store writer request (w, []) = ((res, errs), (w', calls))"
  shows "(\<not> list_ex is_delete calls \<and> errs \<noteq> []) \<or>
    (\<exists>g g' pre answer. calls = CalledBegin (Inr g) # pre @ [CalledDelete (sg_id g') answer] \<and> \<not> list_ex is_delete pre \<and>
       res = Some g' \<and> errs = (case answer of None \<Rightarrow> [] | Some err \<Rightarrow> [err]) \<and> SpillGeneration_Validate sha jl g = None \<and>
       (sg_state g = SpillCommitted \<and> pre = [] \<and> g' = g \<or>
        (\<exists>a found known. sg_state g = SpillPending \<and> pre = found @ known \<and> archive_found a found \<and> ArchiveCommit_Validate a g = None \<and>
           commit_known a g g' known)))"
proof (cases "SpillRequest_Validate request")
  case valid: None
  obtain ans s1 where b: "logged CalledBegin (st_begin store request) (w, []) = (ans, s1)"
    by (cases "logged CalledBegin (st_begin store request) (w, [])")
  have c1: "snd s1 = [CalledBegin ans]" using logged_calls [OF b] by simp
  show ?thesis
  proof (cases "\<exists>g. ans = Inr g \<and> SpillGeneration_Validate sha jl g = None \<and> (sg_state g = SpillCommitted \<or> sg_state g = SpillPending)")
    case False
    then show ?thesis
      using assms valid b c1 unfolding ExecuteOpportunitySpill_def by (cases ans) (auto simp: is_delete_def split: option.splits if_splits)
  next
    case True
    then obtain g where g: "ans = Inr g" "SpillGeneration_Validate sha jl g = None" "sg_state g = SpillCommitted \<or> sg_state g = SpillPending" by blast
    show ?thesis
    proof (cases "sg_state g = SpillCommitted")
      case True
      then have "delete_rows store g s1 = ((res, errs), (w', calls))"
        using assms valid b g unfolding ExecuteOpportunitySpill_def by simp
      from delete_rows_calls [OF this] show ?thesis using True c1 g(1,2) by auto
    next
      case False
      then have "settle store writer g s1 = ((res, errs), (w', calls))"
        using assms valid b g unfolding ExecuteOpportunitySpill_def settle_def by simp
      from settle_calls [OF this] show ?thesis
      proof (elim disjE exE conjE)
        fix calls' assume "snd (w', calls) = snd s1 @ calls'" "\<not> list_ex is_delete calls'" "errs \<noteq> []"
        then show ?thesis using c1 by (simp add: is_delete_def)
      next
        fix a g' found known answer
        assume "snd (w', calls) = snd s1 @ found @ known @ [CalledDelete (sg_id g') answer]" "\<not> list_ex is_delete (found @ known)"
          "res = Some g'" "errs = (case answer of None \<Rightarrow> [] | Some err \<Rightarrow> [err])" "archive_found a found" "ArchiveCommit_Validate a g = None"
          "commit_known a g g' known"
        then show ?thesis using c1 g False
          by (intro disjI2 exI [of _ g] exI [of _ g'] exI [of _ "found @ known"] exI [of _ answer]) auto
      qed
    qed
  qed
qed (use assms in \<open>auto simp: ExecuteOpportunitySpill_def\<close>)

text \<open>
  C8. Rows are deleted only once their archive is known to be committed.  Whatever the
  store and the writer answer, failures after an effect included, a spill that ends
  without error has deleted rows, and a deletion is the last call made: before it the
  store gave a valid generation that was already committed, or one that was pending
  and for which an archive was looked up or written, passed validation against the
  generation, and was committed, or was found committed unchanged after the commit
  reported an error.
\<close>

theorem spill_deletes_committed:
  assumes "ExecuteOpportunitySpill sha jl store writer request (w, []) = ((res, errs), (w', calls))"
  shows "(errs = [] \<longrightarrow> list_ex is_delete calls) \<and>
    (list_ex is_delete calls \<longrightarrow>
     (\<exists>g g' pre answer. calls = CalledBegin (Inr g) # pre @ [CalledDelete (sg_id g') answer] \<and> \<not> list_ex is_delete pre \<and>
       res = Some g' \<and> errs = (case answer of None \<Rightarrow> [] | Some err \<Rightarrow> [err]) \<and> SpillGeneration_Validate sha jl g = None \<and>
       (sg_state g = SpillCommitted \<and> pre = [] \<and> g' = g \<or>
        (\<exists>a found known. sg_state g = SpillPending \<and> pre = found @ known \<and> archive_found a found \<and> ArchiveCommit_Validate a g = None \<and>
           commit_known a g g' known))))"
proof -
  have "is_delete (CalledDelete i answer)" for i answer by (simp add: is_delete_def)
  with ExecuteOpportunitySpill_calls [OF assms] show ?thesis by fastforce
qed

subsection \<open>A sample\<close>

definition braces :: json_lib where
  "braces = \<lparr>jl_decode = (\<lambda>b. if b = str_bytes ''{}'' then Some (JObject []) else None),
     jl_marshal = (\<lambda>j. case j of JObject [] \<Rightarrow> Some (str_bytes ''{}'') | _ \<Rightarrow> None)\<rparr>"

definition sample_row :: "string \<Rightarrow> opportunity" where
  "sample_row i = \<lparr>op_id = i, op_partition = ''p'', op_source = ''s'', op_channel = ''c'', op_instrument = [], op_expectation = 1,
     op_expected_ns = 5, op_start_ns = 5, op_end_ns = 5, op_scope = str_bytes ''{}'', op_terminal = True, op_terminal_ns = 7, op_outcome = 1,
     op_evidence = str_bytes ''{}'', op_created_ns = 9\<rparr>"

definition sha_ones :: "bytes \<Rightarrow> hash" where "sha_ones b = replicate 32 1"

definition sample_request :: spill_request where
  "sample_request = \<lparr>sr_id = ''g'', sr_partition = ''p'', sr_through_ns = 10, sr_maximum = 5, sr_catalog = replicate 32 2, sr_mapper = replicate 32 3\<rparr>"

definition sample_identity :: row_identity where
  "sample_identity = \<lparr>ri_id = ''o'', ri_terminal_ns = 7, ri_hash = replicate 32 1\<rparr>"

definition sample_generation :: spill_generation where
  "sample_generation = \<lparr>sg_id = ''g'', sg_partition = ''p'', sg_catalog = replicate 32 2, sg_mapper = replicate 32 3,
     sg_from = identity_boundary sample_identity, sg_through = identity_boundary sample_identity, sg_rows = [sample_row ''o''],
     sg_identities = [sample_identity], sg_fingerprint = replicate 32 1, sg_state = SpillPending, sg_archive = None, sg_reason = []\<rparr>"

definition sample_commit :: archive_commit where
  "sample_commit = \<lparr>ac_generation = ''g'', ac_fingerprint = replicate 32 1, ac_partition_id = ''d'', ac_manifest_hash = replicate 32 1,
     ac_manifest_path = ''m'', ac_parquet_path = ''q'', ac_version = ''v'', ac_partition_key = ''k'', ac_start_ns = 7, ac_end_ns = 7,
     ac_input_set = replicate 32 1, ac_catalog = replicate 32 2, ac_mapper = replicate 32 3, ac_logical = replicate 32 1, ac_physical = replicate 32 1\<rparr>"

lemma one_not_zero32: "replicate 32 (w :: u8) = zero32 \<longleftrightarrow> w = 0"
  by (simp add: numeral_eq_Suc)

lemma sample_row_valid: "i \<noteq> [] \<Longrightarrow> length i \<le> 4096 \<Longrightarrow> \<not> has_nul i \<Longrightarrow> Opportunity_Validate braces (sample_row i) = None"
  by (simp add: Opportunity_Validate_def sample_row_def validateQualityString_def MaxQualityStringBytes_def has_nul_def DefensibleOpportunity_def
      expectation_defs canonicalJSONObject_def braces_def str_bytes_def OpportunityOutcomeObserved_def OpportunityOutcomeUnknown_def)

lemma sample_hash: "Opportunity_LogicalHash sha_ones braces (sample_row ''o'') = Inr (replicate 32 1)"
  using sample_row_valid [of "''o''"] by (simp add: Opportunity_LogicalHash_def sha_ones_def has_nul_def)

lemma sample_generation_valid: "SpillGeneration_Validate sha_ones braces sample_generation = None"
proof -
  have "members_ok sha_ones braces ''p'' None [sample_row ''o''] [sample_identity]"
    by (simp add: sample_hash) (simp add: sample_row_def sample_identity_def)
  then show ?thesis
    by (simp add: SpillGeneration_Validate_def sample_generation_def validateQualityString_def MaxQualityStringBytes_def has_nul_def
        identity_boundary_def sample_identity_def compareBoundary_def compare_then_def one_not_zero32 spillFingerprint_def sha_ones_def)
qed

lemma sample_new_generation: "NewSpillGeneration sha_ones braces sample_request [sample_row ''o''] = Inr sample_generation"
proof -
  have "SpillRequest_Validate sample_request = None"
    by (simp add: SpillRequest_Validate_def sample_request_def validateQualityString_def MaxQualityStringBytes_def has_nul_def one_not_zero32)
  moreover have "make_identities [sample_row ''o''] [replicate 32 1] = [sample_identity]"
    by (simp add: make_identities_def sample_row_def sample_identity_def)
  moreover have "spillFingerprint sha_ones i p c m ids = replicate 32 1" for i p c m ids by (simp add: spillFingerprint_def sha_ones_def Let_def)
  ultimately show ?thesis
    using sample_generation_valid
    by (simp add: NewSpillGeneration_def SortFunc_def sample_hash Let_def) (simp add: sample_request_def sample_generation_def)
qed

lemma sample_commit_valid: "ArchiveCommit_Validate sample_commit sample_generation = None"
  by (simp add: ArchiveCommit_Validate_def sample_commit_def sample_generation_def validateQualityString_def MaxQualityStringBytes_def has_nul_def
      identity_boundary_def sample_identity_def one_not_zero32)

definition sample_store_ops :: "unit spill_store" where
  "sample_store_ops = \<lparr>st_begin = (\<lambda>r w. (Inr sample_generation, w)), st_status = (\<lambda>i w. (Inr sample_generation, w)),
     st_commit = (\<lambda>g a w. (None, w)), st_delete = (\<lambda>i w. (None, w))\<rparr>"

definition sample_writer :: "unit archive_writer" where
  "sample_writer = \<lparr>aw_lookup = (\<lambda>g w. (Inr None, w)), aw_write = (\<lambda>g w. (Inr sample_commit, w))\<rparr>"

theorem spill_deletes_committed_witness:
  "\<exists>res calls g'. ExecuteOpportunitySpill sha_ones braces sample_store_ops sample_writer sample_request ((), []) = ((res, []), ((), calls)) \<and>
     list_ex is_delete calls \<and> res = Some g' \<and> sg_archive g' = Some sample_commit"
proof -
  have "SpillRequest_Validate sample_request = None"
    using sample_new_generation by (simp add: NewSpillGeneration_def split: option.splits)
  moreover have "sg_state sample_generation = SpillPending" "SpillPending \<noteq> SpillCommitted"
    by (simp_all add: sample_generation_def SpillPending_def SpillCommitted_def)
  moreover have "find_archive sample_writer sample_generation ((), calls) = (Inr sample_commit, ((), calls @ [CalledLookup (Inr None), CalledWrite (Inr sample_commit)]))"
    for calls by (simp add: find_archive_def sample_writer_def logged_def)
  moreover have "commit_archive sample_store_ops sample_generation sample_commit ((), calls) =
      (Inr (sample_generation\<lparr>sg_state := SpillCommitted, sg_archive := Some sample_commit\<rparr>), ((), calls @ [CalledCommit sample_commit None]))"
    for calls by (simp add: commit_archive_def sample_store_ops_def logged_def)
  moreover have "delete_rows sample_store_ops g ((), calls) = ((Some g, []), ((), calls @ [CalledDelete (sg_id g) None]))"
    for g calls by (simp add: delete_rows_def sample_store_ops_def logged_def)
  moreover have "logged CalledBegin (st_begin sample_store_ops sample_request) ((), []) = (Inr sample_generation, ((), [CalledBegin (Inr sample_generation)]))"
    by (simp add: sample_store_ops_def logged_def)
  ultimately obtain g' calls where run:
    "ExecuteOpportunitySpill sha_ones braces sample_store_ops sample_writer sample_request ((), []) = ((Some g', []), ((), calls))"
    "sg_archive g' = Some sample_commit"
    using sample_generation_valid sample_commit_valid by (simp add: ExecuteOpportunitySpill_def)
  from spill_deletes_committed [OF run(1)] run show ?thesis by blast
qed

end
