(* ===== verification/Quality.thy ===== *)
theory Quality
  imports Complex_Main Spill
begin

text \<open>
  \<open>src/quality/state.go\<close>: gaps and their lifecycle, incidents, corrections and
  source-health transitions, each with its validation.  A \<open>float64\<close> is a rational, an
  infinity or not a number, compared as IEEE 754 does.

  The lemmas show the only edges a gap has and that a resolution changes nothing but
  the state and the resolution time.
\<close>

subsection \<open>Gaps\<close>

datatype float64 = NaN | NegInf | Finite rat | PosInf

definition f64_less :: "float64 \<Rightarrow> float64 \<Rightarrow> bool" where
  "f64_less a b \<longleftrightarrow> (case (a, b) of
     (NaN, _) \<Rightarrow> False | (_, NaN) \<Rightarrow> False
   | (Finite x, Finite y) \<Rightarrow> x < y
   | (NegInf, NegInf) \<Rightarrow> False | (NegInf, _) \<Rightarrow> True | (_, NegInf) \<Rightarrow> False
   | (PosInf, _) \<Rightarrow> False | (_, PosInf) \<Rightarrow> True)"

definition GapOpen :: string where "GapOpen = ''open''"
definition GapRecoveredCurrentState :: string where "GapRecoveredCurrentState = ''recovered_current_state''"
definition GapBackfilledExplicitly :: string where "GapBackfilledExplicitly = ''backfilled_explicitly''"
definition GapPermanent :: string where "GapPermanent = ''permanent''"

lemmas gap_states = GapOpen_def GapRecoveredCurrentState_def GapBackfilledExplicitly_def GapPermanent_def

record gap =
  g_id :: string
  g_source :: string
  g_channel :: string
  g_instrument :: string
  g_start_ns :: i64
  g_end_ns :: i64
  g_basis :: string
  g_first_good :: bytes
  g_last_good :: bytes
  g_families :: "string list"
  g_confidence :: float64
  g_evidence :: bytes
  g_state :: string
  g_detected_ns :: i64
  g_resolved_ns :: i64

fun families_ok :: "string option \<Rightarrow> string list \<Rightarrow> bool" where
  "families_ok previous [] = True"
| "families_ok previous (f # fs) = (validateQualityString f True \<and> previous \<noteq> Some f \<and> families_ok (Some f) fs)"

definition is_canonical_object :: "json_lib \<Rightarrow> bytes \<Rightarrow> bool" where
  "is_canonical_object jl v \<longleftrightarrow> canonicalJSONObject jl v = Some v"

definition Gap_Validate :: "json_lib \<Rightarrow> gap \<Rightarrow> quality_error option" where
  "Gap_Validate jl g = first_error [
     fail_if (\<not> (validateQualityString (g_id g) True \<and> validateQualityString (g_source g) True \<and> validateQualityString (g_channel g) True \<and>
       validateQualityString (g_instrument g) False \<and> validateQualityString (g_basis g) True)) ErrInvalidGap,
     fail_if (g_start_ns g < 0 \<or> g_end_ns g < g_start_ns g \<or> g_detected_ns g < 0 \<or> f64_less (g_confidence g) (Finite 0) \<or>
       f64_less (Finite 1) (g_confidence g)) ErrInvalidGap,
     fail_if (g_families g = [] \<or> \<not> sorted (g_families g)) ErrInvalidGap,
     fail_if (\<not> families_ok None (g_families g)) ErrInvalidGap,
     fail_if (\<not> list_all (is_canonical_object jl) [g_first_good g, g_last_good g, g_evidence g]) ErrInvalidGap,
     (if g_state g = GapOpen then fail_if (g_resolved_ns g \<noteq> 0) ErrInvalidGap
      else if g_state g = GapRecoveredCurrentState \<or> g_state g = GapPermanent then fail_if (g_resolved_ns g < g_detected_ns g) ErrInvalidGap
      else if g_state g = GapBackfilledExplicitly then Some ErrReservedGapState
      else Some ErrInvalidGap)]"

definition NewGap :: "json_lib \<Rightarrow> gap \<Rightarrow> quality_error + gap" where
  "NewGap jl gap0 =
     (let g = (if g_state gap0 = [] then gap0\<lparr>g_state := GapOpen\<rparr> else gap0) in
      if g_state g \<noteq> GapOpen \<or> g_resolved_ns g \<noteq> 0 then Inl ErrInvalidGap
      else (case Gap_Validate jl g of Some err \<Rightarrow> Inl err | None \<Rightarrow> Inr g))"

definition TransitionGap :: "json_lib \<Rightarrow> gap \<Rightarrow> string \<Rightarrow> i64 \<Rightarrow> quality_error + gap" where
  "TransitionGap jl g target resolved_ns =
     (if g_state g \<noteq> GapOpen then Inl ErrInvalidGapTransition
      else if target = GapBackfilledExplicitly then Inl ErrReservedGapState
      else if target \<noteq> GapRecoveredCurrentState \<and> target \<noteq> GapPermanent then Inl ErrInvalidGapTransition
      else (let resolved = g\<lparr>g_state := target, g_resolved_ns := resolved_ns\<rparr> in
        case Gap_Validate jl resolved of Some err \<Rightarrow> Inl err | None \<Rightarrow> Inr resolved))"

subsection \<open>Incidents, corrections and health\<close>

record incident =
  in_id :: string
  in_annotation :: string
  in_report :: string
  in_tuples :: bytes
  in_has_range :: bool
  in_start_ns :: i64
  in_end_ns :: i64
  in_reported_ns :: i64
  in_created_ns :: i64

definition Incident_Validate :: "json_lib \<Rightarrow> incident \<Rightarrow> quality_error option" where
  "Incident_Validate jl i = first_error [
     fail_if (\<not> list_all (\<lambda>v. validateQualityString v True) [in_id i, in_annotation i, in_report i]) ErrInvalidIncident,
     fail_if (canonicalJSONArray jl (in_tuples i) \<noteq> Some (in_tuples i)) ErrInvalidIncident,
     fail_if (in_reported_ns i < 0 \<or> in_created_ns i < 0 \<or> (in_has_range i \<and> (in_start_ns i < 0 \<or> in_end_ns i < in_start_ns i)) \<or>
       (\<not> in_has_range i \<and> (in_start_ns i \<noteq> 0 \<or> in_end_ns i \<noteq> 0))) ErrInvalidIncident]"

definition NewIncident :: "json_lib \<Rightarrow> incident \<Rightarrow> quality_error + incident" where
  "NewIncident jl i = (case Incident_Validate jl i of Some err \<Rightarrow> Inl err | None \<Rightarrow> Inr i)"

record correction =
  cn_id :: string
  cn_segment :: string
  cn_gap :: string
  cn_dataset :: string
  cn_mapper :: string
  cn_supersedes :: string
  cn_reason :: string
  cn_lineage :: bytes
  cn_created_ns :: i64

definition Correction_Validate :: "json_lib \<Rightarrow> correction \<Rightarrow> quality_error option" where
  "Correction_Validate jl c = first_error [
     fail_if (\<not> (validateQualityString (cn_id c) True \<and> validateQualityString (cn_segment c) True \<and> validateQualityString (cn_gap c) False \<and>
       validateQualityString (cn_dataset c) True \<and> validateQualityString (cn_mapper c) True \<and> validateQualityString (cn_supersedes c) False \<and>
       validateQualityString (cn_reason c) True)) ErrInvalidCorrection,
     fail_if (cn_id c = cn_supersedes c \<or> cn_created_ns c < 0) ErrInvalidCorrection,
     fail_if (\<not> is_canonical_object jl (cn_lineage c)) ErrInvalidCorrection]"

definition NewCorrection :: "json_lib \<Rightarrow> correction \<Rightarrow> quality_error + correction" where
  "NewCorrection jl c = (case Correction_Validate jl c of Some err \<Rightarrow> Inl err | None \<Rightarrow> Inr c)"

definition validHealthState :: "string \<Rightarrow> bool" where
  "validHealthState st \<longleftrightarrow> st \<in> {''healthy'', ''degraded'', ''unavailable'', ''stale'', ''recovering'', ''quarantined''}"

record health_transition =
  ht_id :: string
  ht_source :: string
  ht_channel :: string
  ht_dimension :: string
  ht_from :: string
  ht_to :: string
  ht_observed_ns :: i64
  ht_evidence :: bytes

definition HealthTransition_Validate :: "json_lib \<Rightarrow> health_transition \<Rightarrow> quality_error option" where
  "HealthTransition_Validate jl h = first_error [
     fail_if (\<not> (validateQualityString (ht_id h) True \<and> validateQualityString (ht_source h) True \<and> validateQualityString (ht_channel h) False \<and>
       validateQualityString (ht_dimension h) True)) ErrInvalidHealth,
     fail_if (\<not> validHealthState (ht_from h) \<or> \<not> validHealthState (ht_to h) \<or> ht_from h = ht_to h \<or> ht_observed_ns h < 0) ErrInvalidHealth,
     fail_if (\<not> is_canonical_object jl (ht_evidence h)) ErrInvalidHealth]"

subsection \<open>The lifecycle of a gap\<close>

lemma families_distinct: "families_ok previous fs \<Longrightarrow> sorted fs \<Longrightarrow> (\<forall>p. previous = Some p \<longrightarrow> list_all (\<lambda>f. p \<le> f) fs) \<Longrightarrow>
    distinct fs \<and> (\<forall>p. previous = Some p \<longrightarrow> p \<notin> set fs)"
proof (induction previous fs rule: families_ok.induct)
  case (2 previous f fs)
  have "list_all (\<lambda>x. f \<le> x) fs" using "2.prems"(2) by (simp add: list_all_iff)
  with 2 have "distinct fs" "f \<notin> set fs" by simp_all
  moreover have "p \<notin> set (f # fs)" if "previous = Some p" for p
  proof -
    have "p < f" using 2 that by (auto simp: less_le)
    then show ?thesis using "2.prems"(2) by auto
  qed
  ultimately show ?case by simp
qed simp

inductive gap_history :: "json_lib \<Rightarrow> gap \<Rightarrow> gap \<Rightarrow> bool" for jl :: json_lib where
  gap_new: "NewGap jl g0 = Inr g \<Longrightarrow> gap_history jl g0 g"
| gap_resolve: "gap_history jl g0 g \<Longrightarrow> TransitionGap jl g target t = Inr g' \<Longrightarrow> gap_history jl g0 g'"

lemma gap_states_distinct:
  "GapRecoveredCurrentState \<noteq> GapOpen" "GapPermanent \<noteq> GapOpen" "GapBackfilledExplicitly \<noteq> GapOpen"
  "GapBackfilledExplicitly \<noteq> GapRecoveredCurrentState" "GapBackfilledExplicitly \<noteq> GapPermanent"
  by (simp_all add: gap_states)

lemma TransitionGap_Inr:
  "TransitionGap jl g target t = Inr g' \<longleftrightarrow>
     g_state g = GapOpen \<and> target \<in> {GapRecoveredCurrentState, GapPermanent} \<and> g' = g\<lparr>g_state := target, g_resolved_ns := t\<rparr> \<and> Gap_Validate jl g' = None"
  using gap_states_distinct by (auto simp: TransitionGap_def Let_def split: option.splits)

text \<open>
  C40. The life of a gap.  Every gap that creation and any sequence of resolutions
  produce is valid and is the created gap with at most its state and resolution time
  changed, so the blind interval and its evidence never change; an open gap has no
  resolution time, a resolved one is recovered or permanent, was resolved no earlier
  than it was detected and admits no further transition, and no gap is ever
  explicitly backfilled.
\<close>

theorem gap_lifecycle:
  assumes "gap_history jl g0 g"
  shows "Gap_Validate jl g = None \<and> g = g0\<lparr>g_state := g_state g, g_resolved_ns := g_resolved_ns g\<rparr> \<and> distinct (g_families g) \<and>
    (g_state g = GapOpen \<and> g_resolved_ns g = 0 \<or>
     g_state g \<in> {GapRecoveredCurrentState, GapPermanent} \<and> g_detected_ns g \<le> g_resolved_ns g \<and>
       (\<forall>target t. TransitionGap jl g target t = Inl ErrInvalidGapTransition))"
proof -
  have same: "h = h\<lparr>g_state := g_state h, g_resolved_ns := g_resolved_ns h\<rparr>" for h :: gap by simp
  have "Gap_Validate jl g = None \<and> (\<exists>st t. g = g0\<lparr>g_state := st, g_resolved_ns := t\<rparr>)"
    using assms
  proof induction
    case (gap_new g0 g)
    then have "Gap_Validate jl g = None" "g = g0 \<or> g = g0\<lparr>g_state := GapOpen\<rparr>"
      by (auto simp: NewGap_def Let_def split: option.splits if_splits)
    moreover have "g0\<lparr>g_state := GapOpen\<rparr> = g0\<lparr>g_state := GapOpen, g_resolved_ns := g_resolved_ns g0\<rparr>" by simp
    ultimately show ?case using same [of g0] by metis
  next
    case (gap_resolve g0 g target t g')
    then have "g' = g\<lparr>g_state := target, g_resolved_ns := t\<rparr>" "Gap_Validate jl g' = None" unfolding TransitionGap_Inr by blast+
    moreover from this gap_resolve.IH have "g' = g0\<lparr>g_state := target, g_resolved_ns := t\<rparr>" by auto
    ultimately show ?case by blast
  qed
  then have "Gap_Validate jl g = None \<and> g = g0\<lparr>g_state := g_state g, g_resolved_ns := g_resolved_ns g\<rparr>" by auto
  moreover from this have "distinct (g_families g)" using families_distinct [of None "g_families g"] by (simp add: Gap_Validate_def)
  moreover have "g_state g = GapOpen \<and> g_resolved_ns g = 0 \<or> g_state g \<in> {GapRecoveredCurrentState, GapPermanent} \<and> g_detected_ns g \<le> g_resolved_ns g"
    using calculation(1) by (auto simp: Gap_Validate_def not_less split: if_splits)
  moreover have "TransitionGap jl g target t = Inl ErrInvalidGapTransition" if "g_state g \<in> {GapRecoveredCurrentState, GapPermanent}" for target t
    using that gap_states_distinct by (auto simp: TransitionGap_def)
  ultimately show ?thesis by blast
qed

definition sample_gap :: gap where
  "sample_gap = \<lparr>g_id = ''g'', g_source = ''s'', g_channel = ''c'', g_instrument = [], g_start_ns = 1, g_end_ns = 2, g_basis = ''b'',
     g_first_good = str_bytes ''{}'', g_last_good = str_bytes ''{}'', g_families = [''book'', ''trade''], g_confidence = Finite 1, g_evidence = str_bytes ''{}'',
     g_state = [], g_detected_ns = 3, g_resolved_ns = 0\<rparr>"

theorem gap_lifecycle_witness:
  "\<exists>g. gap_history braces sample_gap g \<and> g_state g = GapPermanent \<and> g_resolved_ns g = 9 \<and> g_end_ns g = 2 \<and>
     TransitionGap braces g GapPermanent 9 = Inl ErrInvalidGapTransition"
proof -
  let ?g = "sample_gap\<lparr>g_state := GapOpen\<rparr>" and ?r = "sample_gap\<lparr>g_state := GapPermanent, g_resolved_ns := 9\<rparr>"
  note defs = Gap_Validate_def sample_gap_def validateQualityString_def MaxQualityStringBytes_def has_nul_def f64_less_def is_canonical_object_def
    canonicalJSONObject_def braces_def gap_states less_eq_char_def
  have "NewGap braces sample_gap = Inr ?g"
    by (simp add: NewGap_def defs Let_def str_bytes_def)
  then have "gap_history braces sample_gap ?g" by (rule gap_new)
  moreover have "TransitionGap braces ?g GapPermanent 9 = Inr ?r"
    by (simp add: TransitionGap_Inr) (simp add: defs str_bytes_def)
  ultimately have h: "gap_history braces sample_gap ?r" by (rule gap_resolve)
  show ?thesis using gap_lifecycle [OF h] h gap_states_distinct by (intro exI [of _ ?r]) (auto simp: sample_gap_def)
qed

end
