(* ===== verification/Coverage.thy ===== *)
theory Coverage
  imports Quality
begin

text \<open>
  \<open>src/quality/opportunity.go\<close>, coverage: the report recomputed from the rows still in
  the ledger and the committed archives, as their logical union.  The union and the
  counts are Go maps, ranged over in an arbitrary order.

  The lemmas show that the report counts every logical row exactly once, and that
  moving rows to an archive does not change it.
\<close>

subsection \<open>Reports\<close>

record coverage_scope =
  cs_partition :: string
  cs_source :: string
  cs_channel :: string
  cs_instrument :: string
  cs_expectation :: u8

text \<open>The outcome counts are a map that is only looked up.\<close>

record coverage_count =
  cc_scope :: coverage_scope
  cc_total :: u64
  cc_open :: u64
  cc_outcomes :: "u8 \<rightharpoonup> u64"

record coverage_report =
  cr_opportunities :: u64
  cr_counts :: "coverage_count list"
  cr_incidents :: "string list"

record opportunity_archive =
  oa_generation :: spill_generation
  oa_rows :: "opportunity list"

fun join_nul :: "string list \<Rightarrow> string" where
  "join_nul [] = []"
| "join_nul [s] = s"
| "join_nul (s # rest) = s @ CHR 0x00 # join_nul rest"

definition scope_text :: "coverage_scope \<Rightarrow> string" where
  "scope_text s = join_nul [cs_partition s, cs_source s, cs_channel s, cs_instrument s, Expectation_String (cs_expectation s)]"

definition compareCoverageCount :: "coverage_count \<Rightarrow> coverage_count \<Rightarrow> int" where
  "compareCoverageCount l r = compare_then (scope_text (cc_scope l)) (scope_text (cc_scope r)) 0"

definition row_scope :: "opportunity \<Rightarrow> coverage_scope" where
  "row_scope r = \<lparr>cs_partition = op_partition r, cs_source = op_source r, cs_channel = op_channel r, cs_instrument = op_instrument r,
     cs_expectation = op_expectation r\<rparr>"

subsection \<open>Recomputation\<close>

type_synonym row_union = "(string \<times> opportunity) list"

definition add_row :: "(bytes \<Rightarrow> hash) \<Rightarrow> json_lib \<Rightarrow> opportunity \<Rightarrow> row_union \<Rightarrow> quality_error + row_union" where
  "add_row sha jl row u =
     (case Opportunity_Validate jl row of
        Some err \<Rightarrow> Inl err
      | None \<Rightarrow>
          (case go_get u (op_id row) of
             Some existing \<Rightarrow> if \<not> sameOpportunity sha jl existing row then Inl (ErrOpportunityConflict (op_id row)) else Inr u
           | None \<Rightarrow> Inr (go_put (op_id row) row u)))"

fun add_rows :: "(bytes \<Rightarrow> hash) \<Rightarrow> json_lib \<Rightarrow> opportunity list \<Rightarrow> row_union \<Rightarrow> quality_error + row_union" where
  "add_rows sha jl [] u = Inr u"
| "add_rows sha jl (r # rs) u = (case add_row sha jl r u of Inl err \<Rightarrow> Inl err | Inr u' \<Rightarrow> add_rows sha jl rs u')"

definition archive_row_ok :: "(bytes \<Rightarrow> hash) \<Rightarrow> json_lib \<Rightarrow> string \<Rightarrow> opportunity \<Rightarrow> row_identity \<Rightarrow> bool" where
  "archive_row_ok sha jl ledger r i =
     (case Opportunity_LogicalHash sha jl r of
        Inl err \<Rightarrow> False
      | Inr h \<Rightarrow> op_terminal r \<and> op_partition r = ledger \<and> op_id r = ri_id i \<and> op_terminal_ns r = ri_terminal_ns i \<and> h = ri_hash i)"

definition check_archive :: "(bytes \<Rightarrow> hash) \<Rightarrow> json_lib \<Rightarrow> opportunity_archive \<Rightarrow> quality_error option" where
  "check_archive sha jl a =
     (let g = oa_generation a in
      case SpillGeneration_Validate sha jl g of
        Some err \<Rightarrow> Some err
      | None \<Rightarrow>
          (case sg_archive g of
             None \<Rightarrow> Some ErrInvalidSpill
           | Some commit \<Rightarrow>
               if sg_state g \<noteq> SpillCommitted then Some ErrInvalidSpill
               else if length (oa_rows a) \<noteq> length (sg_identities g) then Some ErrInvalidSpill
               else if \<not> list_all2 (archive_row_ok sha jl (sg_partition g)) (oa_rows a) (sg_identities g) then Some ErrInvalidSpill
               else if OpportunityArchiveLogicalHash sha jl (oa_rows a) \<noteq> Inr (ac_logical commit) then Some ErrInvalidSpill
               else None))"

fun add_archives :: "(bytes \<Rightarrow> hash) \<Rightarrow> json_lib \<Rightarrow> opportunity_archive list \<Rightarrow> row_union \<Rightarrow> quality_error + row_union" where
  "add_archives sha jl [] u = Inr u"
| "add_archives sha jl (a # as) u =
     (case check_archive sha jl a of
        Some err \<Rightarrow> Inl err
      | None \<Rightarrow> (case add_rows sha jl (oa_rows a) u of Inl err \<Rightarrow> Inl err | Inr u' \<Rightarrow> add_archives sha jl as u'))"

definition zero_count :: "coverage_scope \<Rightarrow> coverage_count" where
  "zero_count s = \<lparr>cc_scope = s, cc_total = 0, cc_open = 0, cc_outcomes = Map.empty\<rparr>"

definition bump :: "opportunity \<Rightarrow> coverage_count \<Rightarrow> coverage_count" where
  "bump r c =
     (let c1 = c\<lparr>cc_total := cc_total c + 1\<rparr> in
      if op_terminal r
      then c1\<lparr>cc_outcomes := (cc_outcomes c1)(op_outcome r \<mapsto> (case cc_outcomes c1 (op_outcome r) of None \<Rightarrow> 0 | Some n \<Rightarrow> n) + 1)\<rparr>
      else c1\<lparr>cc_open := cc_open c1 + 1\<rparr>)"

definition count_row :: "opportunity \<Rightarrow> (coverage_scope \<times> coverage_count) list \<Rightarrow> (coverage_scope \<times> coverage_count) list" where
  "count_row r counts =
     (let s = row_scope r; c = (case go_get counts s of None \<Rightarrow> zero_count s | Some c \<Rightarrow> c) in go_put s (bump r c) counts)"

definition count_rows :: "row_union \<Rightarrow> (coverage_scope \<times> coverage_count) list" where
  "count_rows u = fold (\<lambda>(i, r). count_row r) u []"

fun incident_ids :: "json_lib \<Rightarrow> incident list \<Rightarrow> quality_error + string list" where
  "incident_ids jl [] = Inr []"
| "incident_ids jl (i # is) =
     (case Incident_Validate jl i of
        Some err \<Rightarrow> Inl err
      | None \<Rightarrow> (case incident_ids jl is of Inl err \<Rightarrow> Inl err | Inr ids \<Rightarrow> Inr (in_id i # ids)))"

definition RecomputeCoverage :: "(bytes \<Rightarrow> hash) \<Rightarrow> json_lib \<Rightarrow> opportunity list \<Rightarrow> opportunity_archive list \<Rightarrow> incident list \<Rightarrow>
    quality_error + coverage_report" where
  "RecomputeCoverage sha jl current archives incidents =
     (case add_rows sha jl current [] of
        Inl err \<Rightarrow> Inl err
      | Inr u0 \<Rightarrow>
          (case add_archives sha jl archives u0 of
             Inl err \<Rightarrow> Inl err
           | Inr u \<Rightarrow>
               (case incident_ids jl incidents of
                  Inl err \<Rightarrow> Inl err
                | Inr ids \<Rightarrow> Inr \<lparr>cr_opportunities = of_nat (length u),
                    cr_counts = SortFunc compareCoverageCount (map snd (count_rows u)), cr_incidents = remdups_adj (sort ids)\<rparr>)))"

subsection \<open>The logical union\<close>

text \<open>Rows whose hashes identify them: no two different rows hashed here collide.\<close>

definition faithful :: "(bytes \<Rightarrow> hash) \<Rightarrow> opportunity set \<Rightarrow> bool" where
  "faithful sha R \<longleftrightarrow> inj_on sha (opportunity_bytes ` R) \<and> (\<forall>r\<in>R. row_shape r)"

definition union_ok :: "json_lib \<Rightarrow> row_union \<Rightarrow> bool" where
  "union_ok jl u \<longleftrightarrow> wf_map u \<and> list_all (\<lambda>(i, r). i = op_id r \<and> Opportunity_Validate jl r = None) u"

definition union_rows :: "row_union \<Rightarrow> opportunity set" where
  "union_rows u = snd ` set u"

lemma same_iff:
  assumes "faithful sha R" "l \<in> R" "r \<in> R" "Opportunity_Validate jl l = None" "Opportunity_Validate jl r = None"
  shows "sameOpportunity sha jl l r \<longleftrightarrow> l = r"
proof -
  have inj: "inj_on sha (opportunity_bytes ` R)" using assms(1) by (simp add: faithful_def)
  have "sha (opportunity_bytes l) = sha (opportunity_bytes r) \<longleftrightarrow> opportunity_bytes l = opportunity_bytes r"
    by (rule inj_on_eq_iff [OF inj]) (use assms(2,3) in simp_all)
  then show ?thesis
    using opportunity_bytes_inj [OF assms(4,5)] assms by (auto simp: sameOpportunity_def Opportunity_LogicalHash_def faithful_def)
qed

lemma union_get: "union_ok jl u \<Longrightarrow> go_get u i = Some r \<longleftrightarrow> r \<in> union_rows u \<and> op_id r = i"
  by (force simp: union_ok_def union_rows_def go_get_mem list_all_iff image_iff)

lemma union_valid: "union_ok jl u \<Longrightarrow> r \<in> union_rows u \<Longrightarrow> Opportunity_Validate jl r = None"
  by (auto simp: union_ok_def union_rows_def list_all_iff)

lemma union_inj: "union_ok jl u \<Longrightarrow> inj_on op_id (union_rows u)"
  by (rule inj_onI) (metis union_get option.inject)

lemma union_put:
  assumes "union_ok jl u" "Opportunity_Validate jl r = None" "go_get u (op_id r) = None"
  shows "union_ok jl (go_put (op_id r) r u)" "union_rows (go_put (op_id r) r u) = insert r (union_rows u)"
proof -
  have wf: "wf_map (go_put (op_id r) r u)" using assms(1) by (simp add: union_ok_def)
  have mem: "(i, x) \<in> set (go_put (op_id r) r u) \<longleftrightarrow> (if i = op_id r then x = r else (i, x) \<in> set u)" for i x
    using go_get_mem [OF wf, of i x] go_get_mem [of u i x] assms(1) by (auto simp: union_ok_def)
  have "op_id r \<notin> fst ` set u" using assms(3) by (simp add: go_get_None)
  then have keep: "(i, x) \<in> set (go_put (op_id r) r u) \<longleftrightarrow> (i, x) = (op_id r, r) \<or> (i, x) \<in> set u" for i x
    using mem [of i x] by force
  show "union_ok jl (go_put (op_id r) r u)" using wf assms(1,2) keep by (auto simp: union_ok_def list_all_iff)
  show "union_rows (go_put (op_id r) r u) = insert r (union_rows u)" using keep by (force simp: union_rows_def)
qed

lemma add_row_Inr:
  assumes "faithful sha R" "union_ok jl u" "union_rows u \<subseteq> R" "r \<in> R" "add_row sha jl r u = Inr u'"
  shows "union_ok jl u' \<and> union_rows u' = insert r (union_rows u) \<and> Opportunity_Validate jl r = None"
proof -
  have v: "Opportunity_Validate jl r = None" using assms(5) by (simp add: add_row_def split: option.splits)
  show ?thesis
  proof (cases "go_get u (op_id r)")
    case None
    then show ?thesis using assms(5) v union_put [OF assms(2) v None] by (simp add: add_row_def)
  next
    case (Some e)
    then have e: "e \<in> union_rows u" using union_get [OF assms(2)] by simp
    moreover have "sameOpportunity sha jl e r" "u' = u" using assms(5) v Some by (auto simp: add_row_def split: if_splits)
    ultimately have "e = r" using same_iff [OF assms(1) _ assms(4) union_valid [OF assms(2) e] v] assms(3) by blast
    then show ?thesis using e v assms(2) \<open>u' = u\<close> by auto
  qed
qed

lemma add_row_total:
  assumes "faithful sha R" "union_ok jl u" "union_rows u \<subseteq> R" "r \<in> R" "Opportunity_Validate jl r = None" "inj_on op_id (insert r (union_rows u))"
  shows "\<exists>u'. add_row sha jl r u = Inr u'"
proof (cases "go_get u (op_id r)")
  case (Some e)
  then have e: "e \<in> union_rows u" "op_id e = op_id r" using union_get [OF assms(2)] by simp_all
  then have "e = r" using assms(6) by (simp add: inj_on_def)
  moreover from this have "sameOpportunity sha jl e r" using same_iff [OF assms(1) assms(4,4,5,5)] by simp
  ultimately show ?thesis using Some assms(5) by (simp add: add_row_def)
qed (use assms(5) in \<open>simp add: add_row_def\<close>)

lemma add_rows_Inr:
  assumes "faithful sha R" "union_ok jl u" "union_rows u \<subseteq> R" "set rs \<subseteq> R" "add_rows sha jl rs u = Inr u'"
  shows "union_ok jl u' \<and> union_rows u' = union_rows u \<union> set rs \<and> list_all (\<lambda>r. Opportunity_Validate jl r = None) rs"
  using assms(2-)
proof (induction rs arbitrary: u)
  case (Cons r rs)
  obtain v where v: "add_row sha jl r u = Inr v" "add_rows sha jl rs v = Inr u'" using Cons.prems(4) by (auto split: sum.splits)
  have a: "union_ok jl v \<and> union_rows v = insert r (union_rows u) \<and> Opportunity_Validate jl r = None"
    using add_row_Inr [OF assms(1) Cons.prems(1,2) _ v(1)] Cons.prems(3) by simp
  then have "union_rows v \<subseteq> R" using Cons.prems(2,3) by auto
  with Cons.IH [of v] a v(2) Cons.prems(3) show ?case by auto
qed simp

lemma add_rows_total:
  assumes "faithful sha R" "union_ok jl u" "union_rows u \<union> set rs \<subseteq> R" "list_all (\<lambda>r. Opportunity_Validate jl r = None) rs"
    "inj_on op_id (union_rows u \<union> set rs)"
  shows "\<exists>u'. add_rows sha jl rs u = Inr u'"
  using assms(2-)
proof (induction rs arbitrary: u)
  case (Cons r rs)
  have inj: "inj_on op_id (insert r (union_rows u))" by (rule inj_on_subset [OF Cons.prems(4)]) auto
  obtain v where v: "add_row sha jl r u = Inr v" using add_row_total [OF assms(1) Cons.prems(1) _ _ _ inj] Cons.prems(2,3) by auto
  then have "union_ok jl v \<and> union_rows v = insert r (union_rows u)"
    using add_row_Inr [OF assms(1) Cons.prems(1) _ _ v] Cons.prems(2) by simp
  moreover from this have "union_rows v \<union> set rs = union_rows u \<union> set (r # rs)" by auto
  ultimately show ?case using Cons.IH [of v] Cons.prems(2-4) v by simp
qed simp

definition archive_rows :: "opportunity_archive list \<Rightarrow> opportunity set" where
  "archive_rows as = (\<Union>a\<in>set as. set (oa_rows a))"

lemma check_archive_valid: "check_archive sha jl a = None \<Longrightarrow> list_all (\<lambda>r. Opportunity_Validate jl r = None) (oa_rows a)"
proof -
  assume "check_archive sha jl a = None"
  then have "list_all2 (archive_row_ok sha jl (sg_partition (oa_generation a))) (oa_rows a) (sg_identities (oa_generation a))"
    by (auto simp: check_archive_def Let_def split: option.splits if_splits)
  then show ?thesis
    by (induction rule: list_all2_induct) (auto simp: archive_row_ok_def Opportunity_LogicalHash_def split: option.splits)
qed

lemma add_archives_Inr:
  assumes "faithful sha R" "union_ok jl u" "union_rows u \<union> archive_rows as \<subseteq> R" "add_archives sha jl as u = Inr u'"
  shows "union_ok jl u' \<and> union_rows u' = union_rows u \<union> archive_rows as \<and> list_all (\<lambda>a. check_archive sha jl a = None) as"
  using assms(2-)
proof (induction as arbitrary: u)
  case (Cons a as)
  obtain v where v: "check_archive sha jl a = None" "add_rows sha jl (oa_rows a) u = Inr v" "add_archives sha jl as v = Inr u'"
    using Cons.prems(3) by (auto split: option.splits sum.splits)
  have "union_ok jl v \<and> union_rows v = union_rows u \<union> set (oa_rows a)"
    using add_rows_Inr [OF assms(1) Cons.prems(1) _ _ v(2)] Cons.prems(2) by (auto simp: archive_rows_def)
  with Cons.IH [of v] v(1,3) Cons.prems(2) show ?case by (auto simp: archive_rows_def)
qed (simp add: archive_rows_def)

lemma add_archives_total:
  assumes "faithful sha R" "union_ok jl u" "union_rows u \<union> archive_rows as \<subseteq> R" "list_all (\<lambda>a. check_archive sha jl a = None) as"
    "inj_on op_id (union_rows u \<union> archive_rows as)"
  shows "\<exists>u'. add_archives sha jl as u = Inr u'"
  using assms(2-)
proof (induction as arbitrary: u)
  case (Cons a as)
  have eq: "union_rows u \<union> archive_rows (a # as) = (union_rows u \<union> set (oa_rows a)) \<union> archive_rows as" by (auto simp: archive_rows_def)
  have inj: "inj_on op_id (union_rows u \<union> set (oa_rows a))" by (rule inj_on_subset [OF Cons.prems(4)]) (auto simp: eq)
  obtain v where v: "add_rows sha jl (oa_rows a) u = Inr v"
    using add_rows_total [OF assms(1) Cons.prems(1) _ _ inj] Cons.prems(2,3) check_archive_valid [of sha jl a] eq by auto
  then have "union_ok jl v \<and> union_rows v = union_rows u \<union> set (oa_rows a)"
    using add_rows_Inr [OF assms(1) Cons.prems(1) _ _ v] Cons.prems(2) eq by auto
  then show ?case using Cons.IH [of v] Cons.prems(2-4) v eq by simp
qed simp

subsection \<open>Counting\<close>

text \<open>The count a scope should have over a set of rows.\<close>

definition counted :: "nat \<Rightarrow> u64 option" where
  "counted n = (if n = 0 then None else Some (of_nat n))"

definition tally :: "opportunity set \<Rightarrow> coverage_scope \<Rightarrow> coverage_count" where
  "tally U s = \<lparr>cc_scope = s, cc_total = of_nat (card {r \<in> U. row_scope r = s}), cc_open = of_nat (card {r \<in> U. row_scope r = s \<and> \<not> op_terminal r}),
     cc_outcomes = (\<lambda>out. counted (card {r \<in> U. row_scope r = s \<and> op_terminal r \<and> op_outcome r = out}))\<rparr>"

lemma card_insert_where: "finite U \<Longrightarrow> r \<notin> U \<Longrightarrow> card {x \<in> insert r U. P x} = (if P r then Suc (card {x \<in> U. P x}) else card {x \<in> U. P x})"
proof -
  assume U: "finite U" "r \<notin> U"
  have "{x \<in> insert r U. P x} = (if P r then insert r {x \<in> U. P x} else {x \<in> U. P x})" by auto
  then show ?thesis using U by simp
qed

lemma counted_Suc: "counted (Suc n) = Some ((case counted n of None \<Rightarrow> 0 | Some k \<Rightarrow> k) + 1)"
  by (simp add: counted_def)

lemma tally_insert:
  assumes "finite U" "r \<notin> U"
  shows "tally (insert r U) s = (if row_scope r = s then bump r (tally U s) else tally U s)"
proof (cases "row_scope r = s")
  case True
  then show ?thesis
    unfolding tally_def bump_def Let_def card_insert_where [OF assms] by (auto simp: counted_Suc fun_eq_iff)
next
  case False
  then show ?thesis unfolding tally_def card_insert_where [OF assms] by simp
qed

lemma tally_fresh: "finite U \<Longrightarrow> s \<notin> row_scope ` U \<Longrightarrow> tally U s = zero_count s"
proof -
  assume "s \<notin> row_scope ` U"
  then have e: "{r \<in> U. row_scope r = s} = {}" "\<And>P. {r \<in> U. row_scope r = s \<and> P r} = {}" by auto
  show ?thesis unfolding tally_def e zero_count_def counted_def by simp
qed

lemma count_rows_tally:
  assumes "distinct (map snd u)"
  shows "wf_map (count_rows u) \<and> (\<forall>s. go_get (count_rows u) s = (if s \<in> row_scope ` union_rows u then Some (tally (union_rows u) s) else None))"
  using assms
proof (induction u rule: rev_induct)
  case Nil
  then show ?case by (simp add: count_rows_def union_rows_def)
next
  case (snoc e u)
  obtain i r where e: "e = (i, r)" by fastforce
  have r: "r \<notin> union_rows u" "finite (union_rows u)" "union_rows (u @ [e]) = insert r (union_rows u)"
    using snoc.prems by (auto simp: e union_rows_def)
  have ih: "wf_map (count_rows u)" "\<And>s. go_get (count_rows u) s = (if s \<in> row_scope ` union_rows u then Some (tally (union_rows u) s) else None)"
    using snoc by simp_all
  have step: "count_rows (u @ [e]) = count_row r (count_rows u)" by (simp add: count_rows_def e)
  have old: "(case go_get (count_rows u) s of None \<Rightarrow> zero_count s | Some c \<Rightarrow> c) = tally (union_rows u) s" for s
    using ih(2) [of s] tally_fresh [OF r(2), of s] by simp
  show ?case
    using ih unfolding step r(3) count_row_def Let_def old by (auto simp: tally_insert [OF r(2,1)])
qed

lemma union_distinct: "union_ok jl u \<Longrightarrow> distinct (map snd u)"
proof -
  assume u: "union_ok jl u"
  then have "map fst u = map op_id (map snd u)" by (auto simp: union_ok_def list_all_iff)
  moreover have "distinct (map fst u)" using u by (simp add: union_ok_def wf_map_def)
  ultimately have "distinct (map op_id (map snd u))" by metis
  then show ?thesis unfolding distinct_map [of op_id] by (rule conjunct1)
qed

lemma length_union: "union_ok jl u \<Longrightarrow> length u = card (union_rows u)"
  using union_distinct [of jl u] distinct_card [of "map snd u"] by (simp add: union_rows_def)

lemma counts_of_union:
  assumes "union_ok jl u"
  shows "distinct (map cc_scope (map snd (count_rows u)))" "set (map snd (count_rows u)) = tally (union_rows u) ` row_scope ` union_rows u"
proof -
  note c = count_rows_tally [OF union_distinct [OF assms]]
  have mem: "(s, x) \<in> set (count_rows u) \<longleftrightarrow> s \<in> row_scope ` union_rows u \<and> x = tally (union_rows u) s" for s x
    using c go_get_mem [of "count_rows u" s x] by (auto split: if_splits)
  then have "cc_scope (snd p) = fst p" if "p \<in> set (count_rows u)" for p using that by (cases p) (auto simp: tally_def)
  then have "map cc_scope (map snd (count_rows u)) = map fst (count_rows u)" by simp
  moreover have "distinct (map fst (count_rows u))" using c by (simp add: wf_map_def)
  ultimately show "distinct (map cc_scope (map snd (count_rows u)))" by metis
  show "set (map snd (count_rows u)) = tally (union_rows u) ` row_scope ` union_rows u" using mem by (force simp: image_iff)
qed

subsection \<open>Sorting\<close>

lemma nul_split: "CHR 0x00 \<notin> set a \<Longrightarrow> CHR 0x00 \<notin> set b \<Longrightarrow> a @ CHR 0x00 # x = b @ CHR 0x00 # y \<longleftrightarrow> a = b \<and> x = y"
proof (induction a arbitrary: b)
  case (Cons c a)
  then show ?case by (cases b) auto
next
  case Nil
  then show ?case by (cases b) auto
qed

definition plain_scope :: "coverage_scope \<Rightarrow> bool" where
  "plain_scope s \<longleftrightarrow> \<not> has_nul (cs_partition s) \<and> \<not> has_nul (cs_source s) \<and> \<not> has_nul (cs_channel s) \<and> \<not> has_nul (cs_instrument s) \<and>
     DefensibleOpportunity (cs_expectation s)"

lemma scope_text_inj: "plain_scope s \<Longrightarrow> plain_scope t \<Longrightarrow> scope_text s = scope_text t \<Longrightarrow> s = t"
  by (rule coverage_scope.equality) (auto simp: plain_scope_def scope_text_def has_nul_def nul_split intro: expectation_name_inj)

lemma row_scope_plain: "Opportunity_Validate jl r = None \<Longrightarrow> plain_scope (row_scope r)"
  using Validate_row_facts(1,4) [of jl r] by (simp add: plain_scope_def row_scope_def)

lemma compareCoverageCount_key: "compareCoverageCount l r \<le> 0 \<longleftrightarrow> scope_text (cc_scope l) \<le> scope_text (cc_scope r)"
  by (auto simp: compareCoverageCount_def compare_then_le)

lemma counts_sorted:
  assumes "union_ok jl u"
  shows "SortFunc compareCoverageCount (map snd (count_rows u)) = sort_key (\<lambda>c. scope_text (cc_scope c)) (map snd (count_rows u))"
    "inj_on (\<lambda>c. scope_text (cc_scope c)) (set (map snd (count_rows u)))" "distinct (map snd (count_rows u))"
proof -
  show "SortFunc compareCoverageCount (map snd (count_rows u)) = sort_key (\<lambda>c. scope_text (cc_scope c)) (map snd (count_rows u))"
    by (rule SortFunc_key) (rule compareCoverageCount_key)
  show "distinct (map snd (count_rows u))" using counts_of_union(1) [OF assms] unfolding distinct_map [of cc_scope] by (rule conjunct1)
  show "inj_on (\<lambda>c. scope_text (cc_scope c)) (set (map snd (count_rows u)))"
  proof (rule inj_onI)
    fix c d assume cd: "c \<in> set (map snd (count_rows u))" "d \<in> set (map snd (count_rows u))" "scope_text (cc_scope c) = scope_text (cc_scope d)"
    have scope: "x = tally (union_rows u) (cc_scope x) \<and> plain_scope (cc_scope x)" if x: "x \<in> set (map snd (count_rows u))" for x
    proof -
      obtain r where r: "r \<in> union_rows u" "x = tally (union_rows u) (row_scope r)" using x unfolding counts_of_union(2) [OF assms] by blast
      then have "cc_scope x = row_scope r" by (simp add: tally_def)
      then show ?thesis using r row_scope_plain union_valid [OF assms] by metis
    qed
    then have "cc_scope c = cc_scope d" using scope_text_inj cd by blast
    then show "c = d" using scope cd(1,2) by metis
  qed
qed

lemma same_counts:
  assumes "union_ok jl u" "union_ok jl v" "union_rows u = union_rows v"
  shows "SortFunc compareCoverageCount (map snd (count_rows u)) = SortFunc compareCoverageCount (map snd (count_rows v))"
proof -
  have "set (map snd (count_rows u)) = set (map snd (count_rows v))" using counts_of_union(2) assms by metis
  then have "mset (map snd (count_rows u)) = mset (map snd (count_rows v))"
    using set_eq_iff_mset_eq_distinct [OF counts_sorted(3) [OF assms(1)] counts_sorted(3) [OF assms(2)]] by blast
  then show ?thesis
    using sort_key_mset_unique [of "map snd (count_rows u)" "map snd (count_rows v)"] counts_sorted [OF assms(1)] counts_sorted(1) [OF assms(2)] by simp
qed

subsection \<open>The report\<close>

definition all_rows :: "opportunity list \<Rightarrow> opportunity_archive list \<Rightarrow> opportunity set" where
  "all_rows current archives = set current \<union> archive_rows archives"

lemma RecomputeCoverage_Inr:
  assumes "faithful sha (all_rows current archives)" "RecomputeCoverage sha jl current archives incidents = Inr report"
  obtains u ids where "union_ok jl u" "union_rows u = all_rows current archives" "list_all (\<lambda>a. check_archive sha jl a = None) archives"
    "list_all (\<lambda>r. Opportunity_Validate jl r = None) current" "incident_ids jl incidents = Inr ids"
    "report = \<lparr>cr_opportunities = of_nat (length u), cr_counts = SortFunc compareCoverageCount (map snd (count_rows u)), cr_incidents = remdups_adj (sort ids)\<rparr>"
proof -
  obtain u0 u ids where r: "add_rows sha jl current [] = Inr u0" "add_archives sha jl archives u0 = Inr u" "incident_ids jl incidents = Inr ids"
    "report = \<lparr>cr_opportunities = of_nat (length u), cr_counts = SortFunc compareCoverageCount (map snd (count_rows u)), cr_incidents = remdups_adj (sort ids)\<rparr>"
    using assms(2) by (auto simp: RecomputeCoverage_def split: sum.splits)
  have "union_ok jl []" "union_rows [] = {}" by (simp_all add: union_ok_def union_rows_def)
  then have u0: "union_ok jl u0" "union_rows u0 = set current" "list_all (\<lambda>r. Opportunity_Validate jl r = None) current"
    using add_rows_Inr [OF assms(1) _ _ _ r(1)] by (auto simp: all_rows_def)
  then have "union_ok jl u" "union_rows u = all_rows current archives" "list_all (\<lambda>a. check_archive sha jl a = None) archives"
    using add_archives_Inr [OF assms(1) u0(1) _ r(2)] by (auto simp: all_rows_def)
  then show thesis using that u0(3) r(3,4) by blast
qed

lemma RecomputeCoverage_total:
  assumes "faithful sha (all_rows current archives)" "inj_on op_id (all_rows current archives)"
    "list_all (\<lambda>r. Opportunity_Validate jl r = None) current" "list_all (\<lambda>a. check_archive sha jl a = None) archives" "incident_ids jl incidents = Inr ids"
  shows "\<exists>report. RecomputeCoverage sha jl current archives incidents = Inr report"
proof -
  have e: "union_ok jl []" "union_rows [] = {}" by (simp_all add: union_ok_def union_rows_def)
  have "inj_on op_id (set current)" by (rule inj_on_subset [OF assms(2)]) (simp add: all_rows_def)
  then obtain u0 where u0: "add_rows sha jl current [] = Inr u0"
    using add_rows_total [OF assms(1) e(1) _ assms(3)] e(2) by (auto simp: all_rows_def)
  then have ok: "union_ok jl u0" "union_rows u0 = set current" using add_rows_Inr [OF assms(1) e(1) _ _ u0] e(2) by (auto simp: all_rows_def)
  then obtain u where "add_archives sha jl archives u0 = Inr u"
    using add_archives_total [OF assms(1) ok(1) _ assms(4)] assms(2) unfolding all_rows_def ok(2) by blast
  then show ?thesis using u0 assms(5) by (simp add: RecomputeCoverage_def)
qed

text \<open>
  C39. Coverage counts every opportunity exactly once.  When no two different rows
  collide in their hashes, a report that is returned states the number of logical
  rows of the ledger and its archives together, has one count per scope that occurs
  among them, in strictly increasing order of the scopes, and each count has the
  exact number of rows of its scope, of open ones and of those with each outcome;
  rows with the same identity are one and the same row.
\<close>

theorem coverage_exact:
  assumes "faithful sha (all_rows current archives)" "RecomputeCoverage sha jl current archives incidents = Inr report"
  shows "cr_opportunities report = of_nat (card (all_rows current archives)) \<and> inj_on op_id (all_rows current archives) \<and>
    set (cr_counts report) = tally (all_rows current archives) ` row_scope ` all_rows current archives \<and>
    sorted_wrt (\<lambda>l r. scope_text (cc_scope l) < scope_text (cc_scope r)) (cr_counts report)"
proof -
  obtain u ids where u: "union_ok jl u" "union_rows u = all_rows current archives"
    "report = \<lparr>cr_opportunities = of_nat (length u), cr_counts = SortFunc compareCoverageCount (map snd (count_rows u)), cr_incidents = remdups_adj (sort ids)\<rparr>"
    by (rule RecomputeCoverage_Inr [OF assms])
  let ?k = "\<lambda>c. scope_text (cc_scope c)" and ?c = "map snd (count_rows u)"
  note c = counts_sorted [OF u(1)]
  have "distinct (map ?k (sort_key ?k ?c))" using c(2,3) by (simp add: distinct_map)
  then have "sorted_wrt (<) (map ?k (sort_key ?k ?c))" using sorted_sort_key [of ?k ?c] by (simp add: strict_sorted_iff)
  then have "sorted_wrt (\<lambda>l r. ?k l < ?k r) (cr_counts report)" using u(3) c(1) by (simp add: sorted_wrt_map)
  then show ?thesis
    using u(3) c(1) length_union [OF u(1)] union_inj [OF u(1)] counts_of_union(2) [OF u(1)] unfolding u(2) by simp
qed

lemma members_rows: "members_ok sha jl ledger date rs is \<Longrightarrow> length rs = length is \<Longrightarrow> list_all2 (archive_row_ok sha jl ledger) rs is"
  by (induction sha jl ledger date rs "is" rule: members_ok.induct) (auto simp: archive_row_ok_def split: sum.splits)

lemma logical_hashes_length: "logical_hashes sha jl rs = Inr hs \<Longrightarrow> length hs = length rs"
  by (induction rs arbitrary: hs) (auto split: sum.splits)

lemma NewSpillGeneration_facts:
  assumes "NewSpillGeneration sha jl request rows = Inr g"
  shows "SpillGeneration_Validate sha jl g = None" "set (sg_rows g) = set rows" "sg_reason g = []" "length (sg_rows g) = length (sg_identities g)"
    "list_all2 (archive_row_ok sha jl (sg_partition g)) (sg_rows g) (sg_identities g)"
proof -
  have key: "compareBoundary (row_boundary l) (row_boundary r) \<le> 0 \<longleftrightarrow> (op_terminal_ns l, op_id l) \<le> (op_terminal_ns r, op_id r)" for l r
    by (auto simp: compareBoundary_def compare_then_le row_boundary_def less_eq_prod_def)
  have sort: "SortFunc (\<lambda>l r. compareBoundary (row_boundary l) (row_boundary r)) rows = sort_key (\<lambda>r. (op_terminal_ns r, op_id r)) rows"
    by (rule SortFunc_key) (rule key)
  obtain hs where hs: "logical_hashes sha jl (sg_rows g) = Inr hs" "sg_identities g = make_identities (sg_rows g) hs"
    and g: "sg_rows g = sort_key (\<lambda>r. (op_terminal_ns r, op_id r)) rows" "sg_reason g = []" "SpillGeneration_Validate sha jl g = None"
    using assms unfolding NewSpillGeneration_def sort by (auto simp: Let_def split: option.splits sum.splits)
  show "SpillGeneration_Validate sha jl g = None" "set (sg_rows g) = set rows" "sg_reason g = []" using g by simp_all
  show len: "length (sg_rows g) = length (sg_identities g)" using hs logical_hashes_length [OF hs(1)] by (simp add: make_identities_def)
  then have "sg_rows g \<noteq> []" using g(3) by (auto simp: SpillGeneration_Validate_def)
  then have "members_ok sha jl (sg_partition g) None (sg_rows g) (sg_identities g)" using g(3) by (simp add: SpillGeneration_Validate_def)
  then show "list_all2 (archive_row_ok sha jl (sg_partition g)) (sg_rows g) (sg_identities g)" using len by (rule members_rows)
qed

lemma committed_archive_ok:
  assumes "NewSpillGeneration sha jl request rows = Inr g" "ArchiveCommit_Validate commit g = None"
    "OpportunityArchiveLogicalHash sha jl (sg_rows g) = Inr (ac_logical commit)"
  shows "check_archive sha jl \<lparr>oa_generation = g\<lparr>sg_state := SpillCommitted, sg_archive := Some commit\<rparr>, oa_rows = sg_rows g\<rparr> = None"
proof -
  let ?g = "g\<lparr>sg_state := SpillCommitted, sg_archive := Some commit\<rparr>"
  note n = NewSpillGeneration_facts [OF assms(1)]
  have "ArchiveCommit_Validate commit ?g = ArchiveCommit_Validate commit g" by (simp add: ArchiveCommit_Validate_def)
  moreover have "SpillCommitted \<noteq> SpillPending" "SpillCommitted \<noteq> SpillQuarantined"
    by (simp_all add: SpillCommitted_def SpillPending_def SpillQuarantined_def)
  ultimately have "SpillGeneration_Validate sha jl ?g = None" using n(1,3) assms(2) by (auto simp: SpillGeneration_Validate_def)
  then show ?thesis using n(4,5) assms(3) by (simp add: check_archive_def)
qed

text \<open>
  C5. Spilling does not change coverage.  Take a report; make a spill generation of
  some rows of the ledger and commit an archive of it that records the hash of those
  rows.  Then the report recomputed with that archive added is the same, whether all,
  some or none of the archived rows have already been deleted from the ledger, and in
  whatever order the ledger lists what remains.
\<close>

theorem coverage_spill_invariant:
  assumes "faithful sha (all_rows current archives)" "RecomputeCoverage sha jl current archives incidents = Inr report"
    and "NewSpillGeneration sha jl request rows = Inr g" "set rows \<subseteq> set current"
    and "ArchiveCommit_Validate commit g = None" "OpportunityArchiveLogicalHash sha jl (sg_rows g) = Inr (ac_logical commit)"
    and "set current - set rows \<subseteq> set remaining" "set remaining \<subseteq> set current"
  shows "RecomputeCoverage sha jl remaining
    (archives @ [\<lparr>oa_generation = g\<lparr>sg_state := SpillCommitted, sg_archive := Some commit\<rparr>, oa_rows = sg_rows g\<rparr>]) incidents = Inr report"
proof -
  let ?a = "\<lparr>oa_generation = g\<lparr>sg_state := SpillCommitted, sg_archive := Some commit\<rparr>, oa_rows = sg_rows g\<rparr>" and ?U = "all_rows current archives"
  have rows: "set (sg_rows g) = set rows" by (rule NewSpillGeneration_facts [OF assms(3)])
  have same: "all_rows remaining (archives @ [?a]) = ?U" using assms(4,7,8) rows by (auto simp: all_rows_def archive_rows_def)
  have f: "faithful sha (all_rows remaining (archives @ [?a]))" unfolding same by (rule assms(1))
  obtain u ids where u: "union_ok jl u" "union_rows u = ?U" "list_all (\<lambda>a. check_archive sha jl a = None) archives"
    "list_all (\<lambda>r. Opportunity_Validate jl r = None) current" "incident_ids jl incidents = Inr ids"
    "report = \<lparr>cr_opportunities = of_nat (length u), cr_counts = SortFunc compareCoverageCount (map snd (count_rows u)), cr_incidents = remdups_adj (sort ids)\<rparr>"
    by (rule RecomputeCoverage_Inr [OF assms(1,2)])
  have "list_all (\<lambda>r. Opportunity_Validate jl r = None) remaining" using u(4) assms(8) by (auto simp: list_all_iff)
  moreover have "list_all (\<lambda>a. check_archive sha jl a = None) (archives @ [?a])" using u(3) committed_archive_ok [OF assms(3,5,6)] by simp
  moreover have "inj_on op_id (all_rows remaining (archives @ [?a]))" unfolding same using union_inj [OF u(1)] u(2) by simp
  ultimately obtain report' where r: "RecomputeCoverage sha jl remaining (archives @ [?a]) incidents = Inr report'"
    using RecomputeCoverage_total [OF f] u(5) by blast
  obtain v ids' where v: "union_ok jl v" "union_rows v = ?U" "incident_ids jl incidents = Inr ids'"
    "report' = \<lparr>cr_opportunities = of_nat (length v), cr_counts = SortFunc compareCoverageCount (map snd (count_rows v)), cr_incidents = remdups_adj (sort ids')\<rparr>"
    using RecomputeCoverage_Inr [OF f r] unfolding same by blast
  have "report' = report"
    unfolding u(6) v(4) using u(2,5) v(2,3) same_counts [OF u(1) v(1)] length_union [OF u(1)] length_union [OF v(1)] by simp
  then show ?thesis using r by simp
qed

lemma strictly_sorted_distinct: "sorted_wrt (\<lambda>l r. (k l :: 'b :: linorder) < k r) xs \<Longrightarrow> distinct xs"
  by (induction xs) auto

lemma sample_row_shape: "row_shape (sample_row i)"
  by (simp add: row_shape_def sample_row_def in_i64_def)

theorem coverage_exact_witness:
  "\<exists>report. RecomputeCoverage (\<lambda>b. b) braces [sample_row ''o'', sample_row ''q'', sample_row ''o''] [] [] = Inr report \<and>
     cr_opportunities report = 2 \<and> length (cr_counts report) = 1"
proof -
  let ?rows = "[sample_row ''o'', sample_row ''q'', sample_row ''o'']"
  have U: "all_rows ?rows [] = {sample_row ''o'', sample_row ''q''}" by (auto simp: all_rows_def archive_rows_def)
  have d: "sample_row ''o'' \<noteq> sample_row ''q''" by (simp add: sample_row_def)
  have f: "faithful (\<lambda>b. b) (all_rows ?rows [])" using sample_row_shape by (simp add: faithful_def U)
  have "\<exists>report. RecomputeCoverage (\<lambda>b. b) braces ?rows [] [] = Inr report"
  proof (rule RecomputeCoverage_total [OF f])
    show "inj_on op_id (all_rows ?rows [])" unfolding U by (simp add: sample_row_def)
    show "list_all (\<lambda>r. Opportunity_Validate braces r = None) ?rows" by (simp add: sample_row_valid has_nul_def)
    show "incident_ids braces [] = Inr []" by simp
  qed simp
  then obtain report where r: "RecomputeCoverage (\<lambda>b. b) braces ?rows [] [] = Inr report" by blast
  from coverage_exact [OF f r] have e: "cr_opportunities report = of_nat (card (all_rows ?rows []))"
      "set (cr_counts report) = tally (all_rows ?rows []) ` row_scope ` all_rows ?rows []"
      "sorted_wrt (\<lambda>l r. scope_text (cc_scope l) < scope_text (cc_scope r)) (cr_counts report)" by simp_all
  have "row_scope (sample_row ''q'') = row_scope (sample_row ''o'')" by (simp add: row_scope_def sample_row_def)
  then have "set (cr_counts report) = {tally (all_rows ?rows []) (row_scope (sample_row ''o''))}" using e(2) unfolding U by simp
  moreover have "distinct (cr_counts report)" using e(3) by (rule strictly_sorted_distinct)
  ultimately have "length (cr_counts report) = 1" using distinct_card [of "cr_counts report"] by simp
  then show ?thesis using r e(1) d unfolding U by simp
qed

theorem coverage_spill_invariant_witness:
  "\<exists>report. RecomputeCoverage sha_ones braces [sample_row ''o''] [] [] = Inr report \<and>
     RecomputeCoverage sha_ones braces []
       [\<lparr>oa_generation = sample_generation\<lparr>sg_state := SpillCommitted, sg_archive := Some sample_commit\<rparr>, oa_rows = sg_rows sample_generation\<rparr>] [] = Inr report"
proof -
  have U: "all_rows [sample_row ''o''] [] = {sample_row ''o''}" by (simp add: all_rows_def archive_rows_def)
  have f: "faithful sha_ones (all_rows [sample_row ''o''] [])" using sample_row_shape by (simp add: faithful_def U)
  have "\<exists>report. RecomputeCoverage sha_ones braces [sample_row ''o''] [] [] = Inr report"
  proof (rule RecomputeCoverage_total [OF f])
    show "inj_on op_id (all_rows [sample_row ''o''] [])" unfolding U by simp
    show "list_all (\<lambda>r. Opportunity_Validate braces r = None) [sample_row ''o'']" by (simp add: sample_row_valid has_nul_def)
    show "incident_ids braces [] = Inr []" by simp
  qed simp
  then obtain report where r: "RecomputeCoverage sha_ones braces [sample_row ''o''] [] [] = Inr report" by blast
  have "OpportunityArchiveLogicalHash sha_ones braces (sg_rows sample_generation) = Inr (ac_logical sample_commit)"
    by (simp add: OpportunityArchiveLogicalHash_def sample_generation_def sample_hash) (simp add: sha_ones_def sample_commit_def)
  from coverage_spill_invariant [OF f r sample_new_generation _ sample_commit_valid this, of "[]"] r show ?thesis by simp
qed

end
