(* ===== verification/Events.thy ===== *)
theory Events
  imports Derivative
begin

text \<open>
  The normalized events beside book updates and derivative tickers: trades, quotes
  and tickers (\<open>src/normalize/types.go\<close>, \<open>events.go\<close>), option summaries
  (\<open>option.go\<close>), liquidations (\<open>liquidation.go\<close>), instrument events
  (\<open>instrument.go\<close>) and source health (\<open>source_health.go\<close>), with the validation of each.

  The source has ten struct types that consist of a source state, a value and a
  provenance and differ in the type of the value: they are instances of the record
  \<open>sourced_field\<close>, each with a validator of its own.  A validator is true where the Go
  function returns nil.
\<close>

subsection \<open>Fields with a source state, for any type of value\<close>

record 'a sourced_field =
  sf_state :: string
  sf_value :: 'a
  sf_provenance :: field_provenance

text \<open>The shape shared by the validators: \<open>zero\<close> is the zero value of the type, \<open>valid\<close> the test of a supplied value.\<close>

definition field_ok :: "'a \<Rightarrow> ('a \<Rightarrow> bool) \<Rightarrow> 'a sourced_field \<Rightarrow> bool" where
  "field_ok zero valid f \<longleftrightarrow>
     validFieldState (sf_state f) \<and>
     FieldProvenance_Validate (sf_provenance f) (sf_state f \<noteq> SourceMissing) \<and>
     (if sf_state f \<noteq> SourceValue then sf_value f = zero else valid (sf_value f))"

definition bounded_text :: "nat \<Rightarrow> string \<Rightarrow> bool" where
  "bounded_text maximum s \<longleftrightarrow> \<not> (s = [] \<or> length s > maximum \<or> has_nul s)"

subsection \<open>Trades, quotes and tickers\<close>

record trade =
  tr_meta :: metadata
  tr_id :: u64
  tr_aggressor :: string
  tr_buyer_maker :: bool
  tr_ignore :: bool
  tr_price :: numeric
  tr_amount :: numeric
  tr_aggregation :: string
  tr_duplicate :: string

definition AggregationSingleMatch :: string where "AggregationSingleMatch = ''single_match''"
definition DuplicateUnassessed :: string where "DuplicateUnassessed = ''unassessed_raw_row''"

definition Trade_Validate :: "(bytes \<Rightarrow> hash) \<Rightarrow> trade \<Rightarrow> bool" where
  "Trade_Validate sha e \<longleftrightarrow>
     validateSchema sha (tr_meta e) ''TradeV1'' 1 \<and>
     \<not> (md_exchange_resolution (tr_meta e) \<noteq> md_source_resolution (tr_meta e) \<or>
        (tr_aggressor e \<noteq> SideBuy \<and> tr_aggressor e \<noteq> SideSell)) \<and>
     \<not> (tr_aggregation e \<noteq> AggregationSingleMatch \<or> tr_duplicate e \<noteq> DuplicateUnassessed) \<and>
     Numeric_Validate (tr_price e) \<and> Numeric_Validate (tr_amount e) \<and>
     \<not> (u_kind (n_unit (tr_price e)) \<noteq> UnitQuotePerBase \<or> u_kind (n_unit (tr_amount e)) \<noteq> UnitBaseAssetAmount \<or>
        u_base (n_unit (tr_price e)) \<noteq> u_asset (n_unit (tr_amount e)))"

record quote =
  qt_meta :: metadata
  qt_role :: string
  qt_update :: u64
  qt_bid_price :: numeric
  qt_bid_amount :: numeric
  qt_ask_price :: numeric
  qt_ask_amount :: numeric
  qt_rpi :: string
  qt_source_time :: opt_i64

definition RPINotApplicable :: string where "RPINotApplicable = ''not_applicable''"

definition Quote_Validate :: "(bytes \<Rightarrow> hash) \<Rightarrow> quote \<Rightarrow> bool" where
  "Quote_Validate sha e \<longleftrightarrow>
     validateSchema sha (qt_meta e) ''QuoteV1'' 1 \<and>
     \<not> (qt_role e \<noteq> ''bookTicker_native_bbo'' \<or> qt_rpi e \<noteq> RPINotApplicable \<or> oi_valid (qt_source_time e)) \<and>
     list_all Numeric_Validate [qt_bid_price e, qt_bid_amount e, qt_ask_price e, qt_ask_amount e] \<and>
     \<not> (u_kind (n_unit (qt_bid_price e)) \<noteq> UnitQuotePerBase \<or> n_unit (qt_ask_price e) \<noteq> n_unit (qt_bid_price e) \<or>
        u_kind (n_unit (qt_bid_amount e)) \<noteq> UnitBaseAssetAmount \<or> n_unit (qt_ask_amount e) \<noteq> n_unit (qt_bid_amount e) \<or>
        u_base (n_unit (qt_bid_price e)) \<noteq> u_asset (n_unit (qt_bid_amount e)))"

record ticker =
  tk_meta :: metadata
  tk_role :: string
  tk_window_kind :: string
  tk_open_semantics :: string
  tk_close_semantics :: string
  tk_open_ns :: i64
  tk_close_ns :: i64
  tk_resolution :: string
  tk_duration :: u64
  tk_price_change :: numeric
  tk_price_change_percent :: numeric
  tk_weighted_average :: numeric
  tk_first_before :: numeric
  tk_last_price :: numeric
  tk_last_amount :: numeric
  tk_bid_price :: numeric
  tk_bid_amount :: numeric
  tk_ask_price :: numeric
  tk_ask_amount :: numeric
  tk_open_price :: numeric
  tk_high :: numeric
  tk_low :: numeric
  tk_base_volume :: numeric
  tk_quote_volume :: numeric
  tk_first_id :: u64
  tk_last_id :: u64
  tk_count :: u64

definition WindowRolling24Hours :: string where "WindowRolling24Hours = ''rolling_previous_24_hours_not_utc_day''"

definition tk_prices :: "ticker \<Rightarrow> numeric list" where
  "tk_prices e = [tk_price_change e, tk_weighted_average e, tk_first_before e, tk_last_price e, tk_bid_price e, tk_ask_price e,
     tk_open_price e, tk_high e, tk_low e]"

definition tk_base_amounts :: "ticker \<Rightarrow> numeric list" where
  "tk_base_amounts e = [tk_last_amount e, tk_bid_amount e, tk_ask_amount e, tk_base_volume e]"

text \<open>The guards on the window; the difference of the bounds is a Go \<open>int64\<close> read as a \<open>uint64\<close>.\<close>

definition ticker_window_ok :: "ticker \<Rightarrow> bool" where
  "ticker_window_ok e \<longleftrightarrow>
     \<not> (tk_role e \<noteq> ''24hrTicker_statistics_not_bbo'' \<or> tk_window_kind e \<noteq> WindowRolling24Hours \<or>
        tk_open_semantics e \<noteq> ''native_statistics_open_time'' \<or> tk_close_semantics e \<noteq> ''native_statistics_close_time'' \<or>
        tk_open_ns e < 0 \<or> tk_close_ns e < tk_open_ns e \<or>
        word_of_int (wrap_i64 (tk_close_ns e - tk_open_ns e)) \<noteq> tk_duration e \<or>
        tk_resolution e = ResolutionAbsent \<or> tk_resolution e \<noteq> md_source_resolution (tk_meta e) \<or>
        md_exchange_resolution (tk_meta e) \<noteq> md_source_resolution (tk_meta e) \<or>
        tk_duration e \<noteq> 86400000000000 \<or> tk_first_id e > tk_last_id e)"

definition Ticker_Validate :: "(bytes \<Rightarrow> hash) \<Rightarrow> ticker \<Rightarrow> bool" where
  "Ticker_Validate sha e \<longleftrightarrow>
     validateSchema sha (tk_meta e) ''TickerV1'' 1 \<and> ticker_window_ok e \<and>
     list_all (\<lambda>n. Numeric_Validate n \<and> u_kind (n_unit n) = UnitQuotePerBase) (tk_prices e) \<and>
     Numeric_Validate (tk_price_change_percent e) \<and> u_kind (n_unit (tk_price_change_percent e)) = UnitPercent \<and>
     list_all (\<lambda>n. Numeric_Validate n \<and> u_kind (n_unit n) = UnitBaseAssetAmount) (tk_base_amounts e) \<and>
     Numeric_Validate (tk_quote_volume e) \<and> u_kind (n_unit (tk_quote_volume e)) = UnitQuoteAssetAmount \<and>
     list_all (\<lambda>n. n_unit n = n_unit (tk_last_price e)) (tk_prices e) \<and>
     list_all (\<lambda>n. n_unit n = n_unit (tk_base_volume e)) (tk_base_amounts e) \<and>
     \<not> (u_base (n_unit (tk_last_price e)) \<noteq> u_asset (n_unit (tk_base_volume e)) \<or>
        u_quote (n_unit (tk_last_price e)) \<noteq> u_asset (n_unit (tk_quote_volume e)))"

subsection \<open>Option summaries\<close>

type_synonym text_field = "string sourced_field"
type_synonym native_numeric_field = "native_value sourced_field"
type_synonym option_kind_field = "string sourced_field"

definition MaxOptionIdentityBytes :: nat where "MaxOptionIdentityBytes = 256"
definition MaxOptionSourceRoleBytes :: nat where "MaxOptionSourceRoleBytes = 128"

definition TextField_Validate :: "text_field \<Rightarrow> bool" where
  "TextField_Validate = field_ok [] (bounded_text MaxOptionIdentityBytes)"

definition NativeNumericField_Validate :: "native_numeric_field \<Rightarrow> bool" where
  "NativeNumericField_Validate = field_ok zero_native_value NativeValue_Validate"

definition OptionCall :: string where "OptionCall = ''call''"
definition OptionPut :: string where "OptionPut = ''put''"

definition OptionKindField_Validate :: "option_kind_field \<Rightarrow> bool" where
  "OptionKindField_Validate = field_ok [] (\<lambda>v. \<not> (v \<noteq> OptionCall \<and> v \<noteq> OptionPut))"

definition ImpliedVolatilityUnit :: nunit where
  "ImpliedVolatilityUnit = \<lparr>u_kind = UnitImpliedVolatility, u_asset = [], u_base = [], u_quote = []\<rparr>"

record option_summary =
  os_meta :: metadata
  os_role :: string
  os_instrument :: text_field
  os_underlying :: text_field
  os_index :: text_field
  os_expiry :: time_field
  os_strike :: numeric_field
  os_call_put :: option_kind_field
  os_bid_price :: numeric_field
  os_ask_price :: numeric_field
  os_last_price :: numeric_field
  os_mark_price :: numeric_field
  os_bid_iv :: numeric_field
  os_ask_iv :: numeric_field
  os_mark_iv :: numeric_field
  os_delta :: native_numeric_field
  os_gamma :: native_numeric_field
  os_vega :: native_numeric_field
  os_theta :: native_numeric_field
  os_rho :: native_numeric_field
  os_open_interest :: native_numeric_field
  os_volume :: native_numeric_field
  os_forward_price :: numeric_field
  os_underlying_price :: numeric_field
  os_index_price :: numeric_field

definition os_natives :: "option_summary \<Rightarrow> native_numeric_field list" where
  "os_natives e = [os_delta e, os_gamma e, os_vega e, os_theta e, os_rho e, os_open_interest e, os_volume e]"

definition OptionSummary_Validate :: "(bytes \<Rightarrow> hash) \<Rightarrow> option_summary \<Rightarrow> bool" where
  "OptionSummary_Validate sha e \<longleftrightarrow>
     validateSchema sha (os_meta e) ''OptionSummaryV1'' 1 \<and> bounded_text MaxOptionSourceRoleBytes (os_role e) \<and>
     list_all (\<lambda>f. TextField_Validate f \<and> sf_state f = SourceValue) [os_instrument e, os_underlying e, os_index e] \<and>
     sf_value (os_instrument e) = md_instrument (os_meta e) \<and>
     TimeField_Validate (os_expiry e) \<and> tf_state (os_expiry e) = SourceValue \<and>
     NumericField_Validate (os_strike e) \<and> nf_state (os_strike e) = SourceValue \<and>
     OptionKindField_Validate (os_call_put e) \<and> sf_state (os_call_put e) = SourceValue \<and>
     list_all NumericField_Validate [os_bid_price e, os_ask_price e, os_last_price e, os_mark_price e,
       os_bid_iv e, os_ask_iv e, os_mark_iv e, os_forward_price e, os_underlying_price e, os_index_price e] \<and>
     list_all (\<lambda>f. \<not> (nf_state f = SourceValue \<and> n_unit (nf_value f) \<noteq> ImpliedVolatilityUnit \<and> n_unit (nf_value f) \<noteq> RateUnit))
       [os_bid_iv e, os_ask_iv e, os_mark_iv e] \<and>
     list_all NativeNumericField_Validate (os_natives e)"

subsection \<open>Liquidations\<close>

definition MaxLiquidationRoleBytes :: nat where "MaxLiquidationRoleBytes = 128"
definition MaxLiquidationBatchIDBytes :: nat where "MaxLiquidationBatchIDBytes = 256"
definition LiquidationAllObserved :: string where "LiquidationAllObserved = ''all_observed''"
definition LiquidationLargestPerSymbol :: string where "LiquidationLargestPerSymbol = ''largest_per_symbol''"
definition LiquidationWindowSelectionUnknown :: string where "LiquidationWindowSelectionUnknown = ''unknown''"
definition LiquidationComplete :: string where "LiquidationComplete = ''complete''"
definition LiquidationLargestInWindow :: string where "LiquidationLargestInWindow = ''largest_in_window''"
definition LiquidationPartialNonchronological :: string where "LiquidationPartialNonchronological = ''partial_nonchronological''"
definition LiquidationTradeFlagOnly :: string where "LiquidationTradeFlagOnly = ''trade_flag_only''"

definition native_roles :: "string list" where "native_roles = [''event'', ''snapshot'']"
definition side_semantics :: "string list" where "side_semantics = [''order_side'', ''liquidated_position_side'', ''unspecified'']"
definition price_types :: "string list" where
  "price_types = [''order_price'', ''average_fill_price'', ''bankruptcy_price'', ''mark_price'', ''unspecified'']"

record liquidation_window =
  lw_start :: opt_i64
  lw_end :: opt_i64
  lw_duration :: u64
  lw_selection :: string
  lw_per_symbol :: bool
  lw_batch :: string

definition LiquidationWindow_Validate :: "liquidation_window \<Rightarrow> string \<Rightarrow> bool" where
  "LiquidationWindow_Validate w completeness \<longleftrightarrow>
     \<not> (oi_valid (lw_start w) \<noteq> oi_valid (lw_end w) \<or>
        (\<not> oi_valid (lw_start w) \<and> (oi_value (lw_start w) \<noteq> 0 \<or> oi_value (lw_end w) \<noteq> 0))) \<and>
     \<not> (oi_valid (lw_start w) \<and> (oi_value (lw_start w) < 0 \<or> oi_value (lw_end w) < oi_value (lw_start w) \<or>
        word_of_int (wrap_i64 (oi_value (lw_end w) - oi_value (lw_start w))) \<noteq> lw_duration w)) \<and>
     \<not> (length (lw_batch w) > MaxLiquidationBatchIDBytes \<or> has_nul (lw_batch w)) \<and>
     \<not> (lw_selection w \<noteq> LiquidationAllObserved \<and> lw_selection w \<noteq> LiquidationLargestPerSymbol \<and>
        lw_selection w \<noteq> LiquidationWindowSelectionUnknown) \<and>
     (if completeness = LiquidationLargestInWindow then
        \<not> (lw_duration w = 0 \<or> lw_selection w \<noteq> LiquidationLargestPerSymbol \<or> \<not> lw_per_symbol w)
      else if completeness = LiquidationComplete then
        \<not> (lw_selection w \<noteq> LiquidationAllObserved \<or> lw_duration w \<noteq> 0 \<or> lw_per_symbol w)
      else if completeness = LiquidationPartialNonchronological \<or> completeness = LiquidationTradeFlagOnly then
        lw_selection w \<noteq> []
      else False)"

record liquidation =
  lq_meta :: metadata
  lq_source_role :: string
  lq_role :: string
  lq_side :: string
  lq_semantics :: string
  lq_amount :: native_value
  lq_price :: numeric_field
  lq_price_type :: string
  lq_completeness :: string
  lq_window :: liquidation_window

definition Liquidation_Validate :: "(bytes \<Rightarrow> hash) \<Rightarrow> liquidation \<Rightarrow> bool" where
  "Liquidation_Validate sha e \<longleftrightarrow>
     validateSchema sha (lq_meta e) ''LiquidationV1'' 1 \<and> bounded_text MaxLiquidationRoleBytes (lq_source_role e) \<and>
     lq_role e \<in> set native_roles \<and> \<not> (lq_side e \<noteq> SideBuy \<and> lq_side e \<noteq> SideSell) \<and>
     lq_semantics e \<in> set side_semantics \<and> NativeValue_Validate (lq_amount e) \<and> NumericField_Validate (lq_price e) \<and>
     \<not> (nf_state (lq_price e) \<noteq> SourceValue \<or> lq_price_type e \<notin> set price_types) \<and>
     LiquidationWindow_Validate (lq_window e) (lq_completeness e)"

subsection \<open>Instrument events\<close>

type_synonym uint64_field = "u64 sourced_field"
type_synonym hash_field = "hash sourced_field"
type_synonym instrument_state_field = "string sourced_field"
type_synonym instrument_resolution_field = "string sourced_field"

definition instrument_states :: "string list" where
  "instrument_states = [''unknown'', ''pre_listing'', ''listed'', ''auction'', ''continuous_trading'', ''suspended'',
     ''expired'', ''delivery'', ''delivered'', ''delisted'']"

definition instrument_resolutions :: "string list" where
  "instrument_resolutions = [''resolved'', ''unresolved'', ''ambiguous'', ''unsupported'']"

definition Uint64Field_Validate :: "uint64_field \<Rightarrow> bool" where
  "Uint64Field_Validate = field_ok 0 (\<lambda>_. True)"

definition HashField_Validate :: "hash_field \<Rightarrow> bool" where
  "HashField_Validate = field_ok zero_hash (\<lambda>v. v \<noteq> zero_hash)"

definition InstrumentStateField_Validate :: "instrument_state_field \<Rightarrow> bool" where
  "InstrumentStateField_Validate = field_ok [] (\<lambda>v. v \<in> set instrument_states)"

definition InstrumentResolutionField_Validate :: "instrument_resolution_field \<Rightarrow> bool" where
  "InstrumentResolutionField_Validate = field_ok [] (\<lambda>v. v \<in> set instrument_resolutions)"

record 'f change =
  ch_old :: 'f
  ch_new :: 'f

type_synonym numeric_change = "numeric_field change"
type_synonym native_numeric_change = "native_numeric_field change"
type_synonym text_change = "text_field change"

definition numeric_observed :: "numeric_change \<Rightarrow> bool" where
  "numeric_observed c \<longleftrightarrow> nf_state (ch_old c) \<noteq> SourceMissing \<or> nf_state (ch_new c) \<noteq> SourceMissing"

definition NumericChange_Validate :: "numeric_change \<Rightarrow> bool" where
  "NumericChange_Validate c \<longleftrightarrow>
     NumericField_Validate (ch_old c) \<and> NumericField_Validate (ch_new c) \<and>
     \<not> ((nf_state (ch_old c) \<noteq> SourceMissing \<or> nf_state (ch_new c) \<noteq> SourceMissing) \<and>
        nf_state (ch_old c) = nf_state (ch_new c) \<and> nf_value (ch_old c) = nf_value (ch_new c))"

text \<open>\<open>NativeNumericChange\<close> and \<open>TextChange\<close> differ in the field they validate.\<close>

definition sourced_observed :: "'a sourced_field change \<Rightarrow> bool" where
  "sourced_observed c \<longleftrightarrow> sf_state (ch_old c) \<noteq> SourceMissing \<or> sf_state (ch_new c) \<noteq> SourceMissing"

definition sourced_change_ok :: "('a sourced_field \<Rightarrow> bool) \<Rightarrow> 'a sourced_field change \<Rightarrow> bool" where
  "sourced_change_ok valid c \<longleftrightarrow>
     valid (ch_old c) \<and> valid (ch_new c) \<and>
     \<not> ((sf_state (ch_old c) \<noteq> SourceMissing \<or> sf_state (ch_new c) \<noteq> SourceMissing) \<and>
        sf_state (ch_old c) = sf_state (ch_new c) \<and> sf_value (ch_old c) = sf_value (ch_new c))"

definition NativeNumericChange_Validate :: "native_numeric_change \<Rightarrow> bool" where
  "NativeNumericChange_Validate = sourced_change_ok NativeNumericField_Validate"

definition TextChange_Validate :: "text_change \<Rightarrow> bool" where
  "TextChange_Validate = sourced_change_ok TextField_Validate"

record instrument_event =
  ie_meta :: metadata
  ie_generation :: uint64_field
  ie_before :: instrument_state_field
  ie_after :: instrument_state_field
  ie_listing :: time_field
  ie_continuous :: time_field
  ie_expiry :: time_field
  ie_delivery :: time_field
  ie_delisting :: time_field
  ie_tick :: numeric_change
  ie_lot :: native_numeric_change
  ie_multiplier :: native_numeric_change
  ie_payoff :: text_change
  ie_old_hash :: hash_field
  ie_new_hash :: hash_field
  ie_resolution :: instrument_resolution_field

definition ie_times :: "instrument_event \<Rightarrow> time_field list" where
  "ie_times e = [ie_listing e, ie_continuous e, ie_expiry e, ie_delivery e, ie_delisting e]"

definition terms_observed :: "instrument_event \<Rightarrow> bool" where
  "terms_observed e \<longleftrightarrow> numeric_observed (ie_tick e) \<or> sourced_observed (ie_lot e) \<or> sourced_observed (ie_multiplier e) \<or>
     sourced_observed (ie_payoff e)"

definition InstrumentEvent_Validate :: "(bytes \<Rightarrow> hash) \<Rightarrow> instrument_event \<Rightarrow> bool" where
  "InstrumentEvent_Validate sha e \<longleftrightarrow>
     validateSchema sha (ie_meta e) ''InstrumentEventV1'' 1 \<and>
     Uint64Field_Validate (ie_generation e) \<and> sf_state (ie_generation e) = SourceValue \<and>
     InstrumentStateField_Validate (ie_before e) \<and> InstrumentStateField_Validate (ie_after e) \<and>
     list_all TimeField_Validate (ie_times e) \<and>
     NumericChange_Validate (ie_tick e) \<and> NativeNumericChange_Validate (ie_lot e) \<and>
     NativeNumericChange_Validate (ie_multiplier e) \<and> TextChange_Validate (ie_payoff e) \<and>
     HashField_Validate (ie_old_hash e) \<and> HashField_Validate (ie_new_hash e) \<and> sf_state (ie_new_hash e) = SourceValue \<and>
     InstrumentResolutionField_Validate (ie_resolution e) \<and> sf_state (ie_resolution e) = SourceValue \<and>
     (sf_state (ie_before e) \<noteq> SourceMissing \<or> sf_state (ie_after e) \<noteq> SourceMissing \<or>
      list_ex (\<lambda>f. tf_state f \<noteq> SourceMissing) (ie_times e) \<or> terms_observed e) \<and>
     \<not> (sf_state (ie_before e) = SourceValue \<and> sf_state (ie_after e) = SourceValue \<and>
        sf_value (ie_before e) = sf_value (ie_after e) \<and> \<not> terms_observed e)"

subsection \<open>Source health\<close>

type_synonym health_status_field = "string sourced_field"
type_synonym health_text_field = "string sourced_field"

definition MaxHealthIdentityBytes :: nat where "MaxHealthIdentityBytes = 256"
definition MaxHealthDetailBytes :: nat where "MaxHealthDetailBytes = 4096"
definition HealthScopeInstrument :: string where "HealthScopeInstrument = ''instrument''"

definition health_dimensions :: "string list" where
  "health_dimensions = [''dns'', ''tls'', ''connect'', ''auth'', ''subscription_ack'', ''ping'', ''pong'', ''useful_data_silence'',
     ''channel_message_rate'', ''channel_byte_rate'', ''channel_inter_arrival'', ''exchange_lag'', ''clock'', ''sequence'',
     ''snapshot'', ''checksum'', ''reconstruction'', ''decode'', ''schema'', ''rest_latency'', ''rest_status'', ''rest_timeout'',
     ''rest_weight'', ''rest_ban'', ''writer_queue'', ''spool'', ''commit'', ''catalog_age'', ''catalog_association'',
     ''parquet_lag'', ''clickhouse_lag'', ''replay_pressure'', ''query_pressure'']"

definition health_scopes :: "string list" where
  "health_scopes = [''source'', ''channel'', HealthScopeInstrument, ''writer'', ''dataset'', ''service'']"

definition health_statuses :: "string list" where
  "health_statuses = [''unknown'', ''up'', ''down'', ''pending'', ''acknowledged'', ''timed_out'', ''within_limit'', ''rate_limited'',
     ''banned'', ''compatible'', ''incompatible'', ''contiguous'', ''gap'', ''valid'', ''invalid'', ''available'', ''unavailable'',
     ''current'', ''stale'', ''associated'', ''unassociated'', ''idle'', ''pressured'', ''queued'', ''committed'']"

definition health_units :: "string list" where
  "health_units = [''count'', ''bytes'', ''nanoseconds'', ''ratio'', ''status_code'', ''weight'', ''messages_per_second'',
     ''bytes_per_second'', ''unix_nanoseconds'']"

definition validHealthDimension :: "string \<Rightarrow> bool" where
  "validHealthDimension d \<longleftrightarrow> d \<in> set health_dimensions"

definition validHealthStatus :: "string \<Rightarrow> bool" where
  "validHealthStatus s \<longleftrightarrow> s \<in> set health_statuses"

definition HealthStatusField_Validate :: "health_status_field \<Rightarrow> bool" where
  "HealthStatusField_Validate = field_ok [] validHealthStatus"

record health_measurement =
  hm_dec :: decimal
  hm_unit :: string

type_synonym health_measurement_field = "health_measurement sourced_field"

definition HealthMeasurement_Validate :: "health_measurement \<Rightarrow> bool" where
  "HealthMeasurement_Validate m \<longleftrightarrow> Decimal_Validate (hm_dec m) \<and> hm_unit m \<in> set health_units"

definition HealthMeasurementField_Validate :: "health_measurement_field \<Rightarrow> bool" where
  "HealthMeasurementField_Validate = field_ok \<lparr>hm_dec = zero_decimal, hm_unit = []\<rparr> HealthMeasurement_Validate"

definition HealthTextField_Validate :: "health_text_field \<Rightarrow> bool" where
  "HealthTextField_Validate = field_ok [] (bounded_text MaxHealthDetailBytes)"

record source_health =
  sh_meta :: metadata
  sh_dimension :: string
  sh_scope :: string
  sh_component :: string
  sh_role :: string
  sh_previous :: health_status_field
  sh_current :: health_status_field
  sh_native_previous :: health_text_field
  sh_native_current :: health_text_field
  sh_previous_measurement :: health_measurement_field
  sh_current_measurement :: health_measurement_field
  sh_window_start :: time_field
  sh_window_end :: time_field
  sh_code :: health_text_field
  sh_detail :: health_text_field

definition SourceHealth_Validate :: "(bytes \<Rightarrow> hash) \<Rightarrow> source_health \<Rightarrow> bool" where
  "SourceHealth_Validate sha e \<longleftrightarrow>
     validateSchema sha (sh_meta e) ''SourceHealthV1'' 1 \<and>
     validHealthDimension (sh_dimension e) \<and> sh_scope e \<in> set health_scopes \<and>
     list_all (bounded_text MaxHealthIdentityBytes) [sh_component e, sh_role e] \<and>
     \<not> (sh_scope e = HealthScopeInstrument \<and> md_instrument (sh_meta e) = []) \<and>
     HealthStatusField_Validate (sh_previous e) \<and> HealthStatusField_Validate (sh_current e) \<and>
     sf_state (sh_current e) = SourceValue \<and>
     list_all HealthTextField_Validate [sh_native_previous e, sh_native_current e, sh_code e, sh_detail e] \<and>
     HealthMeasurementField_Validate (sh_previous_measurement e) \<and> HealthMeasurementField_Validate (sh_current_measurement e) \<and>
     TimeField_Validate (sh_window_start e) \<and> TimeField_Validate (sh_window_end e) \<and>
     (tf_state (sh_window_start e) = SourceValue) = (tf_state (sh_window_end e) = SourceValue) \<and>
     \<not> (tf_state (sh_window_start e) = SourceValue \<and> tf_value (sh_window_end e) < tf_value (sh_window_start e)) \<and>
     (let statusChanged = (sf_state (sh_previous e) \<noteq> SourceValue \<or> sf_value (sh_previous e) \<noteq> sf_value (sh_current e));
          nativeChanged = (sf_state (sh_native_previous e) \<noteq> sf_state (sh_native_current e) \<or>
            sf_value (sh_native_previous e) \<noteq> sf_value (sh_native_current e));
          measurementChanged = (sf_state (sh_previous_measurement e) \<noteq> sf_state (sh_current_measurement e) \<or>
            sf_value (sh_previous_measurement e) \<noteq> sf_value (sh_current_measurement e))
      in \<not> (\<not> statusChanged \<and> \<not> nativeChanged \<and> \<not> measurementChanged))"

end
