(* ===== verification/RowHash.thy ===== *)
theory RowHash
  imports Events Digest
begin

text \<open>
  \<open>src/normalize/encoding.go\<close>: the canonical encoding of every normalized event, and
  the rows of \<open>events.go\<close>, a closed union of the nine events with the hash of the
  encoding.  Every method of the encoder is the function from its argument to the bytes
  it appends.

  Each encoder is an interpretation of the locale \<open>framed\<close>, so that the hash of a row
  determines the row.  The predicates \<open>_go\<close> say what holds of any value of the Go type
  (fixed array sizes and the range of \<open>int64\<close>), that lengths fit the 32-bit prefix, and,
  beyond typing, that an optional that is not valid holds zero.  The encoder does not
  write the value behind an invalid optional, so two rows that differ only there have
  one hash; most validators demand the zero, but those of \<open>QuoteV1\<close> (\<open>SourceTimeNS\<close>) and
  \<open>BookUpdateV1\<close> (\<open>PreviousSequence\<close>) do not.
\<close>

subsection \<open>The encoder\<close>

definition ce_bool :: "bool \<Rightarrow> bytes" where
  "ce_bool b = (if b then [1] else [0])"

definition ce_i64 :: "i64 \<Rightarrow> bytes" where
  "ce_i64 v = be_u64 (word_of_int v)"

definition ce_optionalInt64 :: "opt_i64 \<Rightarrow> bytes" where
  "ce_optionalInt64 v = ce_bool (oi_valid v) @ (if oi_valid v then ce_i64 (oi_value v) else [])"

definition ce_optionalUint64 :: "opt_u64 \<Rightarrow> bytes" where
  "ce_optionalUint64 v = ce_bool (ou_valid v) @ (if ou_valid v then be_u64 (ou_value v) else [])"

definition ce_decimal :: "decimal \<Rightarrow> bytes" where
  "ce_decimal d = ce_string (coefficient d) @ [dec_scale d]"

definition ce_unit :: "nunit \<Rightarrow> bytes" where
  "ce_unit u = ce_string (u_kind u) @ ce_string (u_asset u) @ ce_string (u_base u) @ ce_string (u_quote u)"

definition ce_numeric :: "numeric \<Rightarrow> bytes" where
  "ce_numeric n = ce_decimal (n_dec n) @ ce_unit (n_unit n)"

text \<open>A length and the elements.\<close>

definition ce_counted :: "('a \<Rightarrow> bytes) \<Rightarrow> 'a list \<Rightarrow> bytes" where
  "ce_counted enc xs = be_u32 (of_nat (length xs)) @ concat (map enc xs)"

definition encodeMetadata :: "metadata \<Rightarrow> bytes" where
  "encodeMetadata m =
     md_event_id m @ be_u16 (md_event_id_version m) @ ce_string (md_schema m) @ be_u16 (md_schema_version m) @
     ce_string (md_source m) @ ce_string (md_channel m) @ ce_string (md_instrument m) @ ce_string (md_epoch_kind m) @
     md_epoch_id m @ be_u64 (md_arrival m) @ be_u32 (md_message m) @ ce_optionalInt64 (md_exchange_time m) @
     ce_string (md_exchange_resolution m) @ ce_optionalInt64 (md_source_time m) @ ce_string (md_source_resolution m) @
     ce_i64 (md_received m) @ md_segment m @ be_u64 (md_record m) @ md_payload m @ md_fingerprint m @
     ce_string (md_mapper_version m) @ md_binding m @ md_catalog m @ ce_counted ce_string (md_flags m)"

definition encodeTrade :: "trade \<Rightarrow> bytes" where
  "encodeTrade e =
     encodeMetadata (tr_meta e) @ be_u64 (tr_id e) @ ce_string (tr_aggressor e) @ ce_bool (tr_buyer_maker e) @
     ce_bool (tr_ignore e) @ ce_numeric (tr_price e) @ ce_numeric (tr_amount e) @ ce_string (tr_aggregation e) @
     ce_string (tr_duplicate e)"

definition encodeBookLevel :: "book_level \<Rightarrow> bytes" where
  "encodeBookLevel l =
     ce_string (bl_side l) @ be_u32 (bl_ordinal l) @ ce_string (bl_action l) @ ce_numeric (bl_price l) @ ce_numeric (bl_amount l)"

definition encodeBookUpdate :: "book_update \<Rightarrow> bytes" where
  "encodeBookUpdate e =
     encodeMetadata (bu_meta e) @ ce_string (bu_kind e) @ ce_string (bu_depth e) @ ce_string (bu_aggregation e) @
     be_u64 (bu_first e) @ be_u64 (bu_last e) @ ce_optionalUint64 (bu_previous e) @ ce_string (bu_checksum e) @
     ce_counted encodeBookLevel (bu_bids e) @ ce_counted encodeBookLevel (bu_asks e) @
     ce_string (bu_semantics e) @ ce_string (bu_eligibility e)"

definition encodeQuote :: "quote \<Rightarrow> bytes" where
  "encodeQuote e =
     encodeMetadata (qt_meta e) @ ce_string (qt_role e) @ be_u64 (qt_update e) @ ce_numeric (qt_bid_price e) @
     ce_numeric (qt_bid_amount e) @ ce_numeric (qt_ask_price e) @ ce_numeric (qt_ask_amount e) @ ce_string (qt_rpi e) @
     ce_optionalInt64 (qt_source_time e)"

definition encodeTicker :: "ticker \<Rightarrow> bytes" where
  "encodeTicker e =
     encodeMetadata (tk_meta e) @ ce_string (tk_role e) @ ce_string (tk_window_kind e) @ ce_string (tk_open_semantics e) @
     ce_string (tk_close_semantics e) @ ce_i64 (tk_open_ns e) @ ce_i64 (tk_close_ns e) @ ce_string (tk_resolution e) @
     be_u64 (tk_duration e) @ ce_numeric (tk_price_change e) @ ce_numeric (tk_price_change_percent e) @
     ce_numeric (tk_weighted_average e) @ ce_numeric (tk_first_before e) @ ce_numeric (tk_last_price e) @
     ce_numeric (tk_last_amount e) @ ce_numeric (tk_bid_price e) @ ce_numeric (tk_bid_amount e) @ ce_numeric (tk_ask_price e) @
     ce_numeric (tk_ask_amount e) @ ce_numeric (tk_open_price e) @ ce_numeric (tk_high e) @ ce_numeric (tk_low e) @
     ce_numeric (tk_base_volume e) @ ce_numeric (tk_quote_volume e) @ be_u64 (tk_first_id e) @ be_u64 (tk_last_id e) @
     be_u64 (tk_count e)"

definition encodeFieldProvenance :: "field_provenance \<Rightarrow> bytes" where
  "encodeFieldProvenance p = ce_optionalInt64 (fp_time p) @ ce_string (fp_resolution p) @ ce_optionalUint64 (fp_age p)"

definition encodeNumericField :: "numeric_field \<Rightarrow> bytes" where
  "encodeNumericField f =
     ce_string (nf_state f) @ (if nf_state f = SourceValue then ce_numeric (nf_value f) else []) @ encodeFieldProvenance (nf_provenance f)"

definition encodeTimeField :: "time_field \<Rightarrow> bytes" where
  "encodeTimeField f =
     ce_string (tf_state f) @ (if tf_state f = SourceValue then ce_i64 (tf_value f) @ ce_string (tf_resolution f) else []) @
     encodeFieldProvenance (tf_provenance f)"

definition encodeNativeUnit :: "native_unit \<Rightarrow> bytes" where
  "encodeNativeUnit u = ce_string (nu_kind u) @ ce_string (nu_asset u) @ ce_string (nu_instrument u) @ ce_string (nu_label u)"

definition encodeNativeValue :: "native_value \<Rightarrow> bytes" where
  "encodeNativeValue v = ce_decimal (nv_dec v) @ encodeNativeUnit (nv_unit v)"

definition encodeDerivedValue :: "derived_value \<Rightarrow> bytes" where
  "encodeDerivedValue v =
     encodeNumericField (dv_field v) @ ce_string (dv_formula v) @ ce_string (dv_catalog v) @ ce_string (dv_confidence v)"

definition encode_reported :: "reported_value \<Rightarrow> bytes" where
  "encode_reported v = ce_string (rv_name v) @ encodeNativeValue (rv_value v)"

definition encodeOpenInterest :: "open_interest \<Rightarrow> bytes" where
  "encodeOpenInterest v =
     ce_string (oi_state v) @ ce_string (oi_variant v) @
     (if oi_state v = SourceValue
      then encodeNativeValue (oi_native v) @ ce_string (oi_sidedness v) @ ce_counted encode_reported (oi_reported v) @
        ce_string (oi_multiplier v)
      else []) @
     encodeDerivedValue (oi_base v) @ encodeDerivedValue (oi_quote v) @ encodeDerivedValue (oi_usd v) @
     encodeFieldProvenance (oi_provenance v)"

definition encodeDerivativeTicker :: "derivative_ticker \<Rightarrow> bytes" where
  "encodeDerivativeTicker e =
     encodeMetadata (dt_meta e) @ ce_string (dt_role e) @ encodeNumericField (dt_last e) @ encodeNumericField (dt_mark e) @
     encodeNumericField (dt_index e) @ encodeNumericField (dt_funding e) @ encodeTimeField (dt_next_funding e) @
     ce_counted encodeOpenInterest (dt_open_interest e) @ encodeNumericField (dt_settlement e) @ encodeNumericField (dt_basis e) @
     encodeNumericField (dt_premium e)"

definition encode_window :: "liquidation_window \<Rightarrow> bytes" where
  "encode_window w =
     ce_optionalInt64 (lw_start w) @ ce_optionalInt64 (lw_end w) @ be_u64 (lw_duration w) @ ce_string (lw_selection w) @
     ce_bool (lw_per_symbol w) @ ce_string (lw_batch w)"

definition encodeLiquidation :: "liquidation \<Rightarrow> bytes" where
  "encodeLiquidation e =
     encodeMetadata (lq_meta e) @ ce_string (lq_source_role e) @ ce_string (lq_role e) @ ce_string (lq_side e) @
     ce_string (lq_semantics e) @ encodeNativeValue (lq_amount e) @ encodeNumericField (lq_price e) @ ce_string (lq_price_type e) @
     ce_string (lq_completeness e) @ encode_window (lq_window e)"

text \<open>The encoders of the ten kinds of fields: a state, the value when there is one, and the provenance.\<close>

definition ce_field :: "('a \<Rightarrow> bytes) \<Rightarrow> 'a sourced_field \<Rightarrow> bytes" where
  "ce_field enc f =
     ce_string (sf_state f) @ (if sf_state f = SourceValue then enc (sf_value f) else []) @ encodeFieldProvenance (sf_provenance f)"

abbreviation encodeTextField :: "string sourced_field \<Rightarrow> bytes" where
  "encodeTextField \<equiv> ce_field ce_string"

abbreviation encodeNativeNumericField :: "native_numeric_field \<Rightarrow> bytes" where
  "encodeNativeNumericField \<equiv> ce_field encodeNativeValue"

abbreviation encodeOptionKindField :: "option_kind_field \<Rightarrow> bytes" where
  "encodeOptionKindField \<equiv> ce_field ce_string"

abbreviation encodeUint64Field :: "uint64_field \<Rightarrow> bytes" where
  "encodeUint64Field \<equiv> ce_field be_u64"

abbreviation encodeHashField :: "hash_field \<Rightarrow> bytes" where
  "encodeHashField \<equiv> ce_field (\<lambda>h. h)"

abbreviation encodeInstrumentStateField :: "instrument_state_field \<Rightarrow> bytes" where
  "encodeInstrumentStateField \<equiv> ce_field ce_string"

abbreviation encodeInstrumentResolutionField :: "instrument_resolution_field \<Rightarrow> bytes" where
  "encodeInstrumentResolutionField \<equiv> ce_field ce_string"

abbreviation encodeHealthStatusField :: "health_status_field \<Rightarrow> bytes" where
  "encodeHealthStatusField \<equiv> ce_field ce_string"

abbreviation encodeHealthTextField :: "health_text_field \<Rightarrow> bytes" where
  "encodeHealthTextField \<equiv> ce_field ce_string"

definition encode_measurement :: "health_measurement \<Rightarrow> bytes" where
  "encode_measurement m = ce_decimal (hm_dec m) @ ce_string (hm_unit m)"

abbreviation encodeHealthMeasurementField :: "health_measurement_field \<Rightarrow> bytes" where
  "encodeHealthMeasurementField \<equiv> ce_field encode_measurement"

definition ce_change :: "('f \<Rightarrow> bytes) \<Rightarrow> 'f change \<Rightarrow> bytes" where
  "ce_change enc c = enc (ch_old c) @ enc (ch_new c)"

abbreviation encodeNumericChange :: "numeric_change \<Rightarrow> bytes" where
  "encodeNumericChange \<equiv> ce_change encodeNumericField"

abbreviation encodeNativeNumericChange :: "native_numeric_change \<Rightarrow> bytes" where
  "encodeNativeNumericChange \<equiv> ce_change encodeNativeNumericField"

abbreviation encodeTextChange :: "text_change \<Rightarrow> bytes" where
  "encodeTextChange \<equiv> ce_change encodeTextField"

definition encodeOptionSummary :: "option_summary \<Rightarrow> bytes" where
  "encodeOptionSummary e =
     encodeMetadata (os_meta e) @ ce_string (os_role e) @ encodeTextField (os_instrument e) @ encodeTextField (os_underlying e) @
     encodeTextField (os_index e) @ encodeTimeField (os_expiry e) @ encodeNumericField (os_strike e) @
     encodeOptionKindField (os_call_put e) @ encodeNumericField (os_bid_price e) @ encodeNumericField (os_ask_price e) @
     encodeNumericField (os_last_price e) @ encodeNumericField (os_mark_price e) @ encodeNumericField (os_bid_iv e) @
     encodeNumericField (os_ask_iv e) @ encodeNumericField (os_mark_iv e) @ encodeNativeNumericField (os_delta e) @
     encodeNativeNumericField (os_gamma e) @ encodeNativeNumericField (os_vega e) @ encodeNativeNumericField (os_theta e) @
     encodeNativeNumericField (os_rho e) @ encodeNativeNumericField (os_open_interest e) @ encodeNativeNumericField (os_volume e) @
     encodeNumericField (os_forward_price e) @ encodeNumericField (os_underlying_price e) @ encodeNumericField (os_index_price e)"

definition encodeInstrumentEvent :: "instrument_event \<Rightarrow> bytes" where
  "encodeInstrumentEvent e =
     encodeMetadata (ie_meta e) @ encodeUint64Field (ie_generation e) @ encodeInstrumentStateField (ie_before e) @ encodeInstrumentStateField (ie_after e) @
     encodeTimeField (ie_listing e) @ encodeTimeField (ie_continuous e) @ encodeTimeField (ie_expiry e) @
     encodeTimeField (ie_delivery e) @ encodeTimeField (ie_delisting e) @ encodeNumericChange (ie_tick e) @
     encodeNativeNumericChange (ie_lot e) @ encodeNativeNumericChange (ie_multiplier e) @
     encodeTextChange (ie_payoff e) @ encodeHashField (ie_old_hash e) @ encodeHashField (ie_new_hash e) @
     encodeInstrumentResolutionField (ie_resolution e)"

definition encodeSourceHealth :: "source_health \<Rightarrow> bytes" where
  "encodeSourceHealth e =
     encodeMetadata (sh_meta e) @ ce_string (sh_dimension e) @ ce_string (sh_scope e) @ ce_string (sh_component e) @
     ce_string (sh_role e) @ encodeHealthStatusField (sh_previous e) @ encodeHealthStatusField (sh_current e) @
     encodeHealthTextField (sh_native_previous e) @ encodeHealthTextField (sh_native_current e) @
     encodeHealthMeasurementField (sh_previous_measurement e) @ encodeHealthMeasurementField (sh_current_measurement e) @
     encodeTimeField (sh_window_start e) @ encodeTimeField (sh_window_end e) @ encodeHealthTextField (sh_code e) @
     encodeHealthTextField (sh_detail e)"

subsection \<open>Rows\<close>

record row =
  r_kind :: string
  r_trade :: "trade option"
  r_book_update :: "book_update option"
  r_quote :: "quote option"
  r_ticker :: "ticker option"
  r_derivative_ticker :: "derivative_ticker option"
  r_liquidation :: "liquidation option"
  r_option_summary :: "option_summary option"
  r_instrument_event :: "instrument_event option"
  r_source_health :: "source_health option"
  r_version :: u16
  r_hash :: hash

definition EventTrade :: string where "EventTrade = ''trade''"
definition EventBookUpdate :: string where "EventBookUpdate = ''book_update''"
definition EventQuote :: string where "EventQuote = ''quote''"
definition EventTicker :: string where "EventTicker = ''ticker''"
definition EventDerivativeTicker :: string where "EventDerivativeTicker = ''derivative_ticker''"
definition EventLiquidation :: string where "EventLiquidation = ''liquidation''"
definition EventOptionSummary :: string where "EventOptionSummary = ''option_summary''"
definition EventInstrument :: string where "EventInstrument = ''instrument_event''"
definition EventSourceHealth :: string where "EventSourceHealth = ''source_health''"

lemmas event_kinds = EventTrade_def EventBookUpdate_def EventQuote_def EventTicker_def EventDerivativeTicker_def
  EventLiquidation_def EventOptionSummary_def EventInstrument_def EventSourceHealth_def

definition LogicalEncodingVersion :: u16 where "LogicalEncodingVersion = 1"

text \<open>The event of a kind that is present is encoded; \<open>validateEvent\<close> has excluded a nil pointer.\<close>

definition ce_event :: "('a \<Rightarrow> bytes) \<Rightarrow> 'a option \<Rightarrow> bytes" where
  "ce_event enc e = (case e of None \<Rightarrow> [] | Some x \<Rightarrow> enc x)"

definition row_event_bytes :: "row \<Rightarrow> bytes" where
  "row_event_bytes r =
     (if r_kind r = EventTrade then ce_event encodeTrade (r_trade r)
      else if r_kind r = EventBookUpdate then ce_event encodeBookUpdate (r_book_update r)
      else if r_kind r = EventQuote then ce_event encodeQuote (r_quote r)
      else if r_kind r = EventTicker then ce_event encodeTicker (r_ticker r)
      else if r_kind r = EventDerivativeTicker then ce_event encodeDerivativeTicker (r_derivative_ticker r)
      else if r_kind r = EventLiquidation then ce_event encodeLiquidation (r_liquidation r)
      else if r_kind r = EventOptionSummary then ce_event encodeOptionSummary (r_option_summary r)
      else if r_kind r = EventInstrument then ce_event encodeInstrumentEvent (r_instrument_event r)
      else if r_kind r = EventSourceHealth then ce_event encodeSourceHealth (r_source_health r)
      else [])"

definition row_bytes :: "row \<Rightarrow> bytes" where
  "row_bytes r =
     ce_string ''normalized-logical-row'' @ be_u16 LogicalEncodingVersion @ ce_string (r_kind r) @ row_event_bytes r"

definition logicalHash :: "(bytes \<Rightarrow> hash) \<Rightarrow> row \<Rightarrow> hash" where
  "logicalHash sha r = sha (row_bytes r)"

definition present :: "row \<Rightarrow> bool list" where
  "present r = [r_trade r \<noteq> None, r_book_update r \<noteq> None, r_quote r \<noteq> None, r_ticker r \<noteq> None, r_derivative_ticker r \<noteq> None,
     r_liquidation r \<noteq> None, r_option_summary r \<noteq> None, r_instrument_event r \<noteq> None, r_source_health r \<noteq> None]"

definition event_valid :: "('a \<Rightarrow> bool) \<Rightarrow> 'a option \<Rightarrow> bool" where
  "event_valid valid e = (case e of None \<Rightarrow> False | Some x \<Rightarrow> valid x)"

definition validateEvent :: "(bytes \<Rightarrow> hash) \<Rightarrow> row \<Rightarrow> bool" where
  "validateEvent sha r \<longleftrightarrow>
     length (filter (\<lambda>b. b) (present r)) = 1 \<and>
     (if r_kind r = EventTrade then event_valid (Trade_Validate sha) (r_trade r)
      else if r_kind r = EventBookUpdate then event_valid (BookUpdate_Validate sha) (r_book_update r)
      else if r_kind r = EventQuote then event_valid (Quote_Validate sha) (r_quote r)
      else if r_kind r = EventTicker then event_valid (Ticker_Validate sha) (r_ticker r)
      else if r_kind r = EventDerivativeTicker then event_valid (DerivativeTicker_Validate sha) (r_derivative_ticker r)
      else if r_kind r = EventLiquidation then event_valid (Liquidation_Validate sha) (r_liquidation r)
      else if r_kind r = EventOptionSummary then event_valid (OptionSummary_Validate sha) (r_option_summary r)
      else if r_kind r = EventInstrument then event_valid (InstrumentEvent_Validate sha) (r_instrument_event r)
      else if r_kind r = EventSourceHealth then event_valid (SourceHealth_Validate sha) (r_source_health r)
      else False)"

definition Row_Validate :: "(bytes \<Rightarrow> hash) \<Rightarrow> row \<Rightarrow> bool" where
  "Row_Validate sha r \<longleftrightarrow>
     \<not> (r_version r \<noteq> LogicalEncodingVersion \<or> r_hash r = zero_hash) \<and> validateEvent sha r \<and> r_hash r = logicalHash sha r"

definition finalizeRow :: "(bytes \<Rightarrow> hash) \<Rightarrow> row \<Rightarrow> row option" where
  "finalizeRow sha r =
     (if \<not> validateEvent sha r then None
      else let r' = r\<lparr>r_hash := logicalHash sha r\<rparr> in if Row_Validate sha r' then Some r' else None)"

definition no_event :: "string \<Rightarrow> row" where
  "no_event kind = \<lparr>r_kind = kind, r_trade = None, r_book_update = None, r_quote = None, r_ticker = None, r_derivative_ticker = None,
     r_liquidation = None, r_option_summary = None, r_instrument_event = None, r_source_health = None,
     r_version = LogicalEncodingVersion, r_hash = zero_hash\<rparr>"

definition NewTradeRow :: "(bytes \<Rightarrow> hash) \<Rightarrow> trade \<Rightarrow> row option" where
  "NewTradeRow sha e = finalizeRow sha ((no_event EventTrade)\<lparr>r_trade := Some e\<rparr>)"

definition NewBookUpdateRow :: "(bytes \<Rightarrow> hash) \<Rightarrow> book_update \<Rightarrow> row option" where
  "NewBookUpdateRow sha e = finalizeRow sha ((no_event EventBookUpdate)\<lparr>r_book_update := Some e\<rparr>)"

definition NewQuoteRow :: "(bytes \<Rightarrow> hash) \<Rightarrow> quote \<Rightarrow> row option" where
  "NewQuoteRow sha e = finalizeRow sha ((no_event EventQuote)\<lparr>r_quote := Some e\<rparr>)"

definition NewTickerRow :: "(bytes \<Rightarrow> hash) \<Rightarrow> ticker \<Rightarrow> row option" where
  "NewTickerRow sha e = finalizeRow sha ((no_event EventTicker)\<lparr>r_ticker := Some e\<rparr>)"

definition NewDerivativeTickerRow :: "(bytes \<Rightarrow> hash) \<Rightarrow> derivative_ticker \<Rightarrow> row option" where
  "NewDerivativeTickerRow sha e = finalizeRow sha ((no_event EventDerivativeTicker)\<lparr>r_derivative_ticker := Some e\<rparr>)"

definition NewLiquidationRow :: "(bytes \<Rightarrow> hash) \<Rightarrow> liquidation \<Rightarrow> row option" where
  "NewLiquidationRow sha e = finalizeRow sha ((no_event EventLiquidation)\<lparr>r_liquidation := Some e\<rparr>)"

definition NewOptionSummaryRow :: "(bytes \<Rightarrow> hash) \<Rightarrow> option_summary \<Rightarrow> row option" where
  "NewOptionSummaryRow sha e = finalizeRow sha ((no_event EventOptionSummary)\<lparr>r_option_summary := Some e\<rparr>)"

definition NewInstrumentEventRow :: "(bytes \<Rightarrow> hash) \<Rightarrow> instrument_event \<Rightarrow> row option" where
  "NewInstrumentEventRow sha e = finalizeRow sha ((no_event EventInstrument)\<lparr>r_instrument_event := Some e\<rparr>)"

definition NewSourceHealthRow :: "(bytes \<Rightarrow> hash) \<Rightarrow> source_health \<Rightarrow> row option" where
  "NewSourceHealthRow sha e = finalizeRow sha ((no_event EventSourceHealth)\<lparr>r_source_health := Some e\<rparr>)"

text \<open>The zero value of the metadata, which \<open>Common\<close> returns for a row whose kind has no event.\<close>

definition zero_metadata :: metadata where
  "zero_metadata = \<lparr>md_event_id = zero_hash, md_event_id_version = 0, md_schema = [], md_schema_version = 0, md_source = [],
     md_channel = [], md_instrument = [], md_epoch_kind = [], md_epoch_id = zero_epoch_id, md_arrival = 0, md_message = 0,
     md_exchange_time = \<lparr>oi_value = 0, oi_valid = False\<rparr>, md_exchange_resolution = [],
     md_source_time = \<lparr>oi_value = 0, oi_valid = False\<rparr>, md_source_resolution = [], md_received = 0, md_segment = zero_hash,
     md_record = 0, md_payload = zero_hash, md_fingerprint = zero_hash, md_mapper_version = [], md_binding = zero_hash,
     md_catalog = zero_hash, md_flags = []\<rparr>"

definition meta_of :: "('a \<Rightarrow> metadata) \<Rightarrow> 'a option \<Rightarrow> metadata" where
  "meta_of meta e = (case e of None \<Rightarrow> zero_metadata | Some x \<Rightarrow> meta x)"

definition Common :: "row \<Rightarrow> metadata" where
  "Common r =
     (if r_kind r = EventTrade then meta_of tr_meta (r_trade r)
      else if r_kind r = EventBookUpdate then meta_of bu_meta (r_book_update r)
      else if r_kind r = EventQuote then meta_of qt_meta (r_quote r)
      else if r_kind r = EventTicker then meta_of tk_meta (r_ticker r)
      else if r_kind r = EventDerivativeTicker then meta_of dt_meta (r_derivative_ticker r)
      else if r_kind r = EventLiquidation then meta_of lq_meta (r_liquidation r)
      else if r_kind r = EventOptionSummary then meta_of os_meta (r_option_summary r)
      else if r_kind r = EventInstrument then meta_of ie_meta (r_instrument_event r)
      else if r_kind r = EventSourceHealth then meta_of sh_meta (r_source_health r)
      else zero_metadata)"

subsection \<open>The encodings are framed\<close>

abbreviation short :: "'a list \<Rightarrow> bool" where
  "short xs \<equiv> length xs < 2 ^ 32"

context framed
begin

lemma counted32:
  assumes "list_all ok xs \<and> short xs" "list_all ok ys \<and> short ys" "ce_counted enc xs @ u = ce_counted enc ys @ v"
  shows "xs = ys \<and> u = v"
proof -
  have "be_u32 (of_nat (length xs)) = be_u32 (of_nat (length ys))" and rest: "concat (map enc xs) @ u = concat (map enc ys) @ v"
    using assms(3) by (simp_all add: ce_counted_def)
  then have "length xs = length ys" using assms(1,2) by (metis be_u32_inj unat_of_nat_u32)
  with rest assms show ?thesis by (intro concat_frame) auto
qed

end

interpretation cstr: framed ce_string short
  by unfold_locales (simp add: ce_string_append_inj)

lemma ce_bool_frame: "ce_bool a @ u = ce_bool b @ v \<longleftrightarrow> a = b \<and> u = v"
  by (simp add: ce_bool_def)

lemma word_of_int_i64: "in_i64 x \<Longrightarrow> in_i64 y \<Longrightarrow> (word_of_int x :: u64) = word_of_int y \<longleftrightarrow> x = y"
proof
  assume "in_i64 x" "in_i64 y" "(word_of_int x :: u64) = word_of_int y"
  then have "x mod 2 ^ 64 = y mod 2 ^ 64" by (simp add: word_of_int_eq_iff take_bit_eq_mod)
  then have "wrap_i64 x = wrap_i64 y" unfolding wrap_i64_def by (metis mod_add_cong)
  then show "x = y" using \<open>in_i64 x\<close> \<open>in_i64 y\<close> by (simp add: wrap_i64_id)
qed simp

interpretation ci64: framed ce_i64 in_i64
  by unfold_locales (simp add: ce_i64_def be_u64_inj word_of_int_i64)

text \<open>
  A side condition on optionals, not a fact of Go typing: what is not valid is zero.
\<close>

definition opt_i64_go :: "opt_i64 \<Rightarrow> bool" where
  "opt_i64_go v \<longleftrightarrow> in_i64 (oi_value v) \<and> (oi_valid v \<or> oi_value v = 0)"

definition opt_u64_go :: "opt_u64 \<Rightarrow> bool" where
  "opt_u64_go v \<longleftrightarrow> ou_valid v \<or> ou_value v = 0"

interpretation copti: framed ce_optionalInt64 opt_i64_go
  by unfold_locales (auto simp: ce_optionalInt64_def opt_i64_go_def ce_bool_frame ci64.frame_iff split: if_splits)

interpretation coptu: framed ce_optionalUint64 opt_u64_go
  by unfold_locales (auto simp: ce_optionalUint64_def opt_u64_go_def ce_bool_frame be_u64_inj split: if_splits)

definition decimal_go :: "decimal \<Rightarrow> bool" where
  "decimal_go d \<longleftrightarrow> short (coefficient d)"

definition unit_go :: "nunit \<Rightarrow> bool" where
  "unit_go u \<longleftrightarrow> short (u_kind u) \<and> short (u_asset u) \<and> short (u_base u) \<and> short (u_quote u)"

definition numeric_go :: "numeric \<Rightarrow> bool" where
  "numeric_go n \<longleftrightarrow> decimal_go (n_dec n) \<and> unit_go (n_unit n)"

interpretation cdec: framed ce_decimal decimal_go
  by unfold_locales (auto simp: ce_decimal_def decimal_go_def cstr.frame_iff)

interpretation cunit: framed ce_unit unit_go
  by unfold_locales (auto simp: ce_unit_def unit_go_def cstr.frame_iff)

interpretation cnum: framed ce_numeric numeric_go
  by unfold_locales (auto simp: ce_numeric_def numeric_go_def cdec.frame_iff cunit.frame_iff)

lemmas word_frame = be_u16_inj be_u32_inj be_u64_inj ce_bool_frame cstr.frame_iff ci64.frame_iff copti.frame_iff coptu.frame_iff
  cdec.frame_iff cnum.frame_iff

definition metadata_go :: "metadata \<Rightarrow> bool" where
  "metadata_go m \<longleftrightarrow>
     list_all (\<lambda>h. length h = 32) [md_event_id m, md_segment m, md_payload m, md_fingerprint m, md_binding m, md_catalog m] \<and>
     length (md_epoch_id m) = 16 \<and> opt_i64_go (md_exchange_time m) \<and> opt_i64_go (md_source_time m) \<and> in_i64 (md_received m) \<and>
     list_all short [md_schema m, md_source m, md_channel m, md_instrument m, md_epoch_kind m, md_exchange_resolution m,
       md_source_resolution m, md_mapper_version m] \<and>
     list_all short (md_flags m) \<and> short (md_flags m)"

interpretation cflags: framed "ce_counted ce_string" "\<lambda>fs. list_all short fs \<and> short fs"
  by unfold_locales (rule cstr.counted32)

interpretation cmeta: framed encodeMetadata metadata_go
  by unfold_locales (auto simp: encodeMetadata_def metadata_go_def word_frame cflags.frame_iff)

text \<open>Provenance and fields: an absent value is the zero value.\<close>

definition provenance_go :: "field_provenance \<Rightarrow> bool" where
  "provenance_go p \<longleftrightarrow> opt_i64_go (fp_time p) \<and> short (fp_resolution p) \<and> opt_u64_go (fp_age p)"

interpretation cprov: framed encodeFieldProvenance provenance_go
  by unfold_locales (auto simp: encodeFieldProvenance_def provenance_go_def word_frame)

definition numeric_field_go :: "numeric_field \<Rightarrow> bool" where
  "numeric_field_go f \<longleftrightarrow> short (nf_state f) \<and> provenance_go (nf_provenance f) \<and>
     (if nf_state f = SourceValue then numeric_go (nf_value f) else nf_value f = zero_numeric)"

interpretation cnf: framed encodeNumericField numeric_field_go
  by unfold_locales (auto simp: encodeNumericField_def numeric_field_go_def word_frame cprov.frame_iff split: if_splits)

definition time_field_go :: "time_field \<Rightarrow> bool" where
  "time_field_go f \<longleftrightarrow> short (tf_state f) \<and> provenance_go (tf_provenance f) \<and>
     (if tf_state f = SourceValue then in_i64 (tf_value f) \<and> short (tf_resolution f)
      else tf_value f = 0 \<and> tf_resolution f = ResolutionAbsent)"

interpretation ctf: framed encodeTimeField time_field_go
  by unfold_locales (auto simp: encodeTimeField_def time_field_go_def word_frame cprov.frame_iff split: if_splits)

definition field_go :: "'a \<Rightarrow> ('a \<Rightarrow> bool) \<Rightarrow> 'a sourced_field \<Rightarrow> bool" where
  "field_go zero ok f \<longleftrightarrow> short (sf_state f) \<and> provenance_go (sf_provenance f) \<and>
     (if sf_state f = SourceValue then ok (sf_value f) else sf_value f = zero)"

context framed
begin

lemma field_frame: "framed (ce_field enc) (field_go zero ok)"
  by unfold_locales
    (auto simp: ce_field_def field_go_def cstr.frame_iff cprov.frame_iff frame_iff split: if_splits)

lemma change_frame: "framed (ce_change enc) (\<lambda>c. ok (ch_old c) \<and> ok (ch_new c))"
  by unfold_locales (auto simp: ce_change_def frame_iff)

end

definition native_unit_go :: "native_unit \<Rightarrow> bool" where
  "native_unit_go u \<longleftrightarrow> short (nu_kind u) \<and> short (nu_asset u) \<and> short (nu_instrument u) \<and> short (nu_label u)"

definition native_value_go :: "native_value \<Rightarrow> bool" where
  "native_value_go v \<longleftrightarrow> decimal_go (nv_dec v) \<and> native_unit_go (nv_unit v)"

interpretation cnunit: framed encodeNativeUnit native_unit_go
  by unfold_locales (auto simp: encodeNativeUnit_def native_unit_go_def word_frame)

interpretation cnv: framed encodeNativeValue native_value_go
  by unfold_locales (auto simp: encodeNativeValue_def native_value_go_def word_frame cnunit.frame_iff)

definition measurement_go :: "health_measurement \<Rightarrow> bool" where
  "measurement_go m \<longleftrightarrow> decimal_go (hm_dec m) \<and> short (hm_unit m)"

interpretation cmeas: framed encode_measurement measurement_go
  by unfold_locales (auto simp: encode_measurement_def measurement_go_def word_frame)

interpretation cword: framed be_u64 "\<lambda>_. True"
  by unfold_locales (simp add: be_u64_inj)

interpretation chash: framed "\<lambda>h :: hash. h" "\<lambda>h. length h = 32"
  by unfold_locales simp

abbreviation text_go :: "string sourced_field \<Rightarrow> bool" where
  "text_go \<equiv> field_go [] short"

abbreviation native_go :: "native_numeric_field \<Rightarrow> bool" where
  "native_go \<equiv> field_go zero_native_value native_value_go"

abbreviation uint64_go :: "uint64_field \<Rightarrow> bool" where
  "uint64_go \<equiv> field_go 0 (\<lambda>_. True)"

abbreviation hash_go :: "hash_field \<Rightarrow> bool" where
  "hash_go \<equiv> field_go zero_hash (\<lambda>h. length h = 32)"

abbreviation measurement_field_go :: "health_measurement_field \<Rightarrow> bool" where
  "measurement_field_go \<equiv> field_go \<lparr>hm_dec = zero_decimal, hm_unit = []\<rparr> measurement_go"

lemmas field_frames = framed.frame_iff [OF cstr.field_frame] framed.frame_iff [OF cnv.field_frame] framed.frame_iff [OF cword.field_frame]
  framed.frame_iff [OF chash.field_frame] framed.frame_iff [OF cmeas.field_frame] cnf.frame_iff ctf.frame_iff cmeta.frame_iff

definition both :: "('f \<Rightarrow> bool) \<Rightarrow> 'f change \<Rightarrow> bool" where
  "both go c \<longleftrightarrow> go (ch_old c) \<and> go (ch_new c)"

lemma change_frames:
  "both numeric_field_go a \<Longrightarrow> both numeric_field_go b \<Longrightarrow> encodeNumericChange a @ u = encodeNumericChange b @ v \<longleftrightarrow> a = b \<and> u = v"
  "both native_go c \<Longrightarrow> both native_go d \<Longrightarrow> encodeNativeNumericChange c @ u = encodeNativeNumericChange d @ v \<longleftrightarrow> c = d \<and> u = v"
  "both text_go e \<Longrightarrow> both text_go f \<Longrightarrow> encodeTextChange e @ u = encodeTextChange f @ v \<longleftrightarrow> e = f \<and> u = v"
  unfolding both_def
  by (auto simp: framed.frame_iff [OF cnf.change_frame] framed.frame_iff [OF framed.change_frame [OF cnv.field_frame]]
      framed.frame_iff [OF framed.change_frame [OF cstr.field_frame]])

text \<open>The nine events.\<close>

definition trade_go :: "trade \<Rightarrow> bool" where
  "trade_go e \<longleftrightarrow> metadata_go (tr_meta e) \<and> short (tr_aggressor e) \<and> numeric_go (tr_price e) \<and> numeric_go (tr_amount e) \<and>
     short (tr_aggregation e) \<and> short (tr_duplicate e)"

lemma trade_frame: "trade_go x \<Longrightarrow> trade_go y \<Longrightarrow> encodeTrade x = encodeTrade y \<Longrightarrow> x = y"
  by (auto simp: encodeTrade_def trade_go_def word_frame cmeta.frame_iff cstr.frame_end)

definition book_level_go :: "book_level \<Rightarrow> bool" where
  "book_level_go l \<longleftrightarrow> short (bl_side l) \<and> short (bl_action l) \<and> numeric_go (bl_price l) \<and> numeric_go (bl_amount l)"

interpretation clevel: framed encodeBookLevel book_level_go
  by unfold_locales (auto simp: encodeBookLevel_def book_level_go_def word_frame)

interpretation clevels: framed "ce_counted encodeBookLevel" "\<lambda>ls. list_all book_level_go ls \<and> short ls"
  by unfold_locales (rule clevel.counted32)

definition book_update_go :: "book_update \<Rightarrow> bool" where
  "book_update_go e \<longleftrightarrow> metadata_go (bu_meta e) \<and> opt_u64_go (bu_previous e) \<and>
     list_all short [bu_kind e, bu_depth e, bu_aggregation e, bu_checksum e, bu_semantics e, bu_eligibility e] \<and>
     list_all book_level_go (bu_bids e) \<and> short (bu_bids e) \<and> list_all book_level_go (bu_asks e) \<and> short (bu_asks e)"

lemma book_update_frame: "book_update_go x \<Longrightarrow> book_update_go y \<Longrightarrow> encodeBookUpdate x = encodeBookUpdate y \<Longrightarrow> x = y"
  by (auto simp: encodeBookUpdate_def book_update_go_def word_frame cmeta.frame_iff clevels.frame_iff cstr.frame_end)

definition quote_go :: "quote \<Rightarrow> bool" where
  "quote_go e \<longleftrightarrow> metadata_go (qt_meta e) \<and> short (qt_role e) \<and> short (qt_rpi e) \<and> opt_i64_go (qt_source_time e) \<and>
     list_all numeric_go [qt_bid_price e, qt_bid_amount e, qt_ask_price e, qt_ask_amount e]"

lemma quote_frame: "quote_go x \<Longrightarrow> quote_go y \<Longrightarrow> encodeQuote x = encodeQuote y \<Longrightarrow> x = y"
  by (auto simp: encodeQuote_def quote_go_def word_frame cmeta.frame_iff copti.frame_end)

definition ticker_go :: "ticker \<Rightarrow> bool" where
  "ticker_go e \<longleftrightarrow> metadata_go (tk_meta e) \<and> in_i64 (tk_open_ns e) \<and> in_i64 (tk_close_ns e) \<and>
     list_all short [tk_role e, tk_window_kind e, tk_open_semantics e, tk_close_semantics e, tk_resolution e] \<and>
     list_all numeric_go (tk_prices e) \<and> list_all numeric_go (tk_base_amounts e) \<and> numeric_go (tk_price_change_percent e) \<and>
     numeric_go (tk_quote_volume e)"

lemma ticker_frame: "ticker_go x \<Longrightarrow> ticker_go y \<Longrightarrow> encodeTicker x = encodeTicker y \<Longrightarrow> x = y"
  by (auto simp: encodeTicker_def ticker_go_def tk_prices_def tk_base_amounts_def word_frame cmeta.frame_iff cnum.frame_end)

definition derived_value_go :: "derived_value \<Rightarrow> bool" where
  "derived_value_go v \<longleftrightarrow> numeric_field_go (dv_field v) \<and> short (dv_formula v) \<and> short (dv_catalog v) \<and> short (dv_confidence v)"

interpretation cderived: framed encodeDerivedValue derived_value_go
  by unfold_locales (auto simp: encodeDerivedValue_def derived_value_go_def word_frame field_frames)

definition reported_go :: "reported_value \<Rightarrow> bool" where
  "reported_go v \<longleftrightarrow> short (rv_name v) \<and> native_value_go (rv_value v)"

interpretation crep: framed encode_reported reported_go
  by unfold_locales (auto simp: encode_reported_def reported_go_def word_frame cnv.frame_iff)

interpretation creps: framed "ce_counted encode_reported" "\<lambda>vs. list_all reported_go vs \<and> short vs"
  by unfold_locales (rule crep.counted32)

definition open_interest_go :: "open_interest \<Rightarrow> bool" where
  "open_interest_go v \<longleftrightarrow> short (oi_state v) \<and> short (oi_variant v) \<and> provenance_go (oi_provenance v) \<and>
     derived_value_go (oi_base v) \<and> derived_value_go (oi_quote v) \<and> derived_value_go (oi_usd v) \<and>
     (if oi_state v = SourceValue
      then native_value_go (oi_native v) \<and> short (oi_sidedness v) \<and> list_all reported_go (oi_reported v) \<and> short (oi_reported v) \<and>
        short (oi_multiplier v)
      else oi_native v = zero_native_value \<and> oi_sidedness v = [] \<and> oi_reported v = [] \<and> oi_multiplier v = [])"

interpretation coi: framed encodeOpenInterest open_interest_go
  by unfold_locales
    (auto simp: encodeOpenInterest_def open_interest_go_def word_frame cnv.frame_iff creps.frame_iff cderived.frame_iff cprov.frame_iff
      split: if_splits)

interpretation cois: framed "ce_counted encodeOpenInterest" "\<lambda>vs. list_all open_interest_go vs \<and> short vs"
  by unfold_locales (rule coi.counted32)

definition derivative_ticker_go :: "derivative_ticker \<Rightarrow> bool" where
  "derivative_ticker_go e \<longleftrightarrow> metadata_go (dt_meta e) \<and> short (dt_role e) \<and> list_all numeric_field_go (dt_fields e) \<and>
     time_field_go (dt_next_funding e) \<and> list_all open_interest_go (dt_open_interest e) \<and> short (dt_open_interest e)"

lemma derivative_ticker_frame:
  "derivative_ticker_go x \<Longrightarrow> derivative_ticker_go y \<Longrightarrow> encodeDerivativeTicker x = encodeDerivativeTicker y \<Longrightarrow> x = y"
  by (auto simp: encodeDerivativeTicker_def derivative_ticker_go_def dt_fields_def word_frame field_frames cois.frame_iff cnf.frame_end)

definition window_go :: "liquidation_window \<Rightarrow> bool" where
  "window_go w \<longleftrightarrow> opt_i64_go (lw_start w) \<and> opt_i64_go (lw_end w) \<and> short (lw_selection w) \<and> short (lw_batch w)"

interpretation cwindow: framed encode_window window_go
  by unfold_locales (auto simp: encode_window_def window_go_def word_frame)

definition liquidation_go :: "liquidation \<Rightarrow> bool" where
  "liquidation_go e \<longleftrightarrow> metadata_go (lq_meta e) \<and> native_value_go (lq_amount e) \<and> numeric_field_go (lq_price e) \<and> window_go (lq_window e) \<and>
     list_all short [lq_source_role e, lq_role e, lq_side e, lq_semantics e, lq_price_type e, lq_completeness e]"

lemma liquidation_frame: "liquidation_go x \<Longrightarrow> liquidation_go y \<Longrightarrow> encodeLiquidation x = encodeLiquidation y \<Longrightarrow> x = y"
  by (auto simp: encodeLiquidation_def liquidation_go_def word_frame field_frames cnv.frame_iff cwindow.frame_end)

definition option_summary_go :: "option_summary \<Rightarrow> bool" where
  "option_summary_go e \<longleftrightarrow> metadata_go (os_meta e) \<and> short (os_role e) \<and> time_field_go (os_expiry e) \<and>
     list_all text_go [os_instrument e, os_underlying e, os_index e, os_call_put e] \<and>
     list_all numeric_field_go [os_strike e, os_bid_price e, os_ask_price e, os_last_price e, os_mark_price e, os_bid_iv e, os_ask_iv e,
       os_mark_iv e, os_forward_price e, os_underlying_price e, os_index_price e] \<and>
     list_all native_go (os_natives e)"

lemma option_summary_frame: "option_summary_go x \<Longrightarrow> option_summary_go y \<Longrightarrow> encodeOptionSummary x = encodeOptionSummary y \<Longrightarrow> x = y"
  by (auto simp: encodeOptionSummary_def option_summary_go_def os_natives_def word_frame field_frames cnf.frame_end)

definition instrument_event_go :: "instrument_event \<Rightarrow> bool" where
  "instrument_event_go e \<longleftrightarrow> metadata_go (ie_meta e) \<and> uint64_go (ie_generation e) \<and>
     list_all text_go [ie_before e, ie_after e, ie_resolution e] \<and> list_all time_field_go (ie_times e) \<and>
     both numeric_field_go (ie_tick e) \<and> both native_go (ie_lot e) \<and> both native_go (ie_multiplier e) \<and> both text_go (ie_payoff e) \<and>
     hash_go (ie_old_hash e) \<and> hash_go (ie_new_hash e)"

lemma instrument_event_frame:
  "instrument_event_go x \<Longrightarrow> instrument_event_go y \<Longrightarrow> encodeInstrumentEvent x = encodeInstrumentEvent y \<Longrightarrow> x = y"
  by (auto simp: encodeInstrumentEvent_def instrument_event_go_def ie_times_def field_frames change_frames
      framed.frame_end [OF cstr.field_frame])

definition source_health_go :: "source_health \<Rightarrow> bool" where
  "source_health_go e \<longleftrightarrow> metadata_go (sh_meta e) \<and> list_all short [sh_dimension e, sh_scope e, sh_component e, sh_role e] \<and>
     list_all text_go [sh_previous e, sh_current e, sh_native_previous e, sh_native_current e, sh_code e, sh_detail e] \<and>
     measurement_field_go (sh_previous_measurement e) \<and> measurement_field_go (sh_current_measurement e) \<and>
     time_field_go (sh_window_start e) \<and> time_field_go (sh_window_end e)"

lemma source_health_frame: "source_health_go x \<Longrightarrow> source_health_go y \<Longrightarrow> encodeSourceHealth x = encodeSourceHealth y \<Longrightarrow> x = y"
  by (auto simp: encodeSourceHealth_def source_health_go_def word_frame field_frames framed.frame_end [OF cstr.field_frame])

subsection \<open>What the hash of a row binds\<close>

definition event_go :: "('a \<Rightarrow> bool) \<Rightarrow> 'a option \<Rightarrow> bool" where
  "event_go go e = (case e of None \<Rightarrow> True | Some x \<Rightarrow> go x)"

definition row_go :: "row \<Rightarrow> bool" where
  "row_go r \<longleftrightarrow>
     event_go trade_go (r_trade r) \<and> event_go book_update_go (r_book_update r) \<and> event_go quote_go (r_quote r) \<and>
     event_go ticker_go (r_ticker r) \<and> event_go derivative_ticker_go (r_derivative_ticker r) \<and>
     event_go liquidation_go (r_liquidation r) \<and> event_go option_summary_go (r_option_summary r) \<and>
     event_go instrument_event_go (r_instrument_event r) \<and> event_go source_health_go (r_source_health r)"

definition known_kinds :: "string list" where
  "known_kinds = [EventTrade, EventBookUpdate, EventQuote, EventTicker, EventDerivativeTicker, EventLiquidation, EventOptionSummary,
     EventInstrument, EventSourceHealth]"

lemma known_kinds_distinct: "distinct known_kinds"
  by (simp add: known_kinds_def event_kinds)

lemma known_kinds_short: "k \<in> set known_kinds \<Longrightarrow> short k"
  by (auto simp: known_kinds_def event_kinds)

lemma one_present:
  assumes "length (filter (\<lambda>b. b) bs) = 1" "i < length bs" "bs ! i"
  shows "bs = (replicate (length bs) False)[i := True]"
proof (rule nth_equalityI)
  fix j assume j: "j < length bs"
  have "\<not> bs ! j" if "j \<noteq> i"
  proof
    assume "bs ! j"
    with assms(2,3) j have "{i, j} \<subseteq> {k. k < length bs \<and> bs ! k}" by auto
    then have "card {i, j} \<le> card {k. k < length bs \<and> bs ! k}" by (intro card_mono) auto
    then show False using assms(1) \<open>j \<noteq> i\<close> by (simp add: length_filter_conv_card)
  qed
  then show "bs ! j = (replicate (length bs) False)[i := True] ! j" using assms(2,3) j by (cases "j = i") auto
qed simp

lemma validateEvent_one: "validateEvent sha r \<Longrightarrow> length (filter (\<lambda>b. b) (present r)) = 1"
  unfolding validateEvent_def by (rule conjunct1)

lemma validateEvent_kind: "validateEvent sha r \<Longrightarrow> r_kind r \<in> set known_kinds"
  by (simp add: validateEvent_def known_kinds_def split: if_splits)

lemma only_present:
  assumes "validateEvent sha r" "i < 9" "present r ! i"
  shows "present r = (replicate (length (present r)) False)[i := True]"
proof -
  have "length (present r) = 9" by (simp add: present_def)
  then show ?thesis using one_present [OF validateEvent_one [OF assms(1)], of i] assms(2,3) by (simp only:)
qed

text \<open>A valid row is the empty row of its kind with one event and the hash.\<close>

lemma row_shapes:
  assumes "validateEvent sha r" "r_version r = LogicalEncodingVersion"
  shows "r_kind r = EventTrade \<Longrightarrow> \<exists>e. r_trade r = Some e \<and> r\<lparr>r_hash := zero_hash\<rparr> = (no_event EventTrade)\<lparr>r_trade := Some e\<rparr>"
    and "r_kind r = EventBookUpdate \<Longrightarrow> \<exists>e. r_book_update r = Some e \<and> r\<lparr>r_hash := zero_hash\<rparr> = (no_event EventBookUpdate)\<lparr>r_book_update := Some e\<rparr>"
    and "r_kind r = EventQuote \<Longrightarrow> \<exists>e. r_quote r = Some e \<and> r\<lparr>r_hash := zero_hash\<rparr> = (no_event EventQuote)\<lparr>r_quote := Some e\<rparr>"
    and "r_kind r = EventTicker \<Longrightarrow> \<exists>e. r_ticker r = Some e \<and> r\<lparr>r_hash := zero_hash\<rparr> = (no_event EventTicker)\<lparr>r_ticker := Some e\<rparr>"
    and "r_kind r = EventDerivativeTicker \<Longrightarrow> \<exists>e. r_derivative_ticker r = Some e \<and> r\<lparr>r_hash := zero_hash\<rparr> = (no_event EventDerivativeTicker)\<lparr>r_derivative_ticker := Some e\<rparr>"
    and "r_kind r = EventLiquidation \<Longrightarrow> \<exists>e. r_liquidation r = Some e \<and> r\<lparr>r_hash := zero_hash\<rparr> = (no_event EventLiquidation)\<lparr>r_liquidation := Some e\<rparr>"
    and "r_kind r = EventOptionSummary \<Longrightarrow> \<exists>e. r_option_summary r = Some e \<and> r\<lparr>r_hash := zero_hash\<rparr> = (no_event EventOptionSummary)\<lparr>r_option_summary := Some e\<rparr>"
    and "r_kind r = EventInstrument \<Longrightarrow> \<exists>e. r_instrument_event r = Some e \<and> r\<lparr>r_hash := zero_hash\<rparr> = (no_event EventInstrument)\<lparr>r_instrument_event := Some e\<rparr>"
    and "r_kind r = EventSourceHealth \<Longrightarrow> \<exists>e. r_source_health r = Some e \<and> r\<lparr>r_hash := zero_hash\<rparr> = (no_event EventSourceHealth)\<lparr>r_source_health := Some e\<rparr>"
proof -
  show "\<exists>e. r_trade r = Some e \<and> r\<lparr>r_hash := zero_hash\<rparr> = (no_event EventTrade)\<lparr>r_trade := Some e\<rparr>" if k: "r_kind r = EventTrade"
  proof -
    have "r_trade r \<noteq> None" using assms(1) k by (auto simp: validateEvent_def event_valid_def event_kinds split: option.splits)
    with only_present [OF assms(1), of 0] show ?thesis
      by (intro exI [of _ "the (r_trade r)"] conjI row.equality) (simp_all add: present_def no_event_def assms(2) k)
  qed
  show "\<exists>e. r_book_update r = Some e \<and> r\<lparr>r_hash := zero_hash\<rparr> = (no_event EventBookUpdate)\<lparr>r_book_update := Some e\<rparr>" if k: "r_kind r = EventBookUpdate"
  proof -
    have "r_book_update r \<noteq> None" using assms(1) k by (auto simp: validateEvent_def event_valid_def event_kinds split: option.splits)
    with only_present [OF assms(1), of 1] show ?thesis
      by (intro exI [of _ "the (r_book_update r)"] conjI row.equality) (simp_all add: present_def no_event_def assms(2) k)
  qed
  show "\<exists>e. r_quote r = Some e \<and> r\<lparr>r_hash := zero_hash\<rparr> = (no_event EventQuote)\<lparr>r_quote := Some e\<rparr>" if k: "r_kind r = EventQuote"
  proof -
    have "r_quote r \<noteq> None" using assms(1) k by (auto simp: validateEvent_def event_valid_def event_kinds split: option.splits)
    with only_present [OF assms(1), of 2] show ?thesis
      by (intro exI [of _ "the (r_quote r)"] conjI row.equality) (simp_all add: present_def no_event_def assms(2) k)
  qed
  show "\<exists>e. r_ticker r = Some e \<and> r\<lparr>r_hash := zero_hash\<rparr> = (no_event EventTicker)\<lparr>r_ticker := Some e\<rparr>" if k: "r_kind r = EventTicker"
  proof -
    have "r_ticker r \<noteq> None" using assms(1) k by (auto simp: validateEvent_def event_valid_def event_kinds split: option.splits)
    with only_present [OF assms(1), of 3] show ?thesis
      by (intro exI [of _ "the (r_ticker r)"] conjI row.equality) (simp_all add: present_def no_event_def assms(2) k)
  qed
  show "\<exists>e. r_derivative_ticker r = Some e \<and> r\<lparr>r_hash := zero_hash\<rparr> = (no_event EventDerivativeTicker)\<lparr>r_derivative_ticker := Some e\<rparr>" if k: "r_kind r = EventDerivativeTicker"
  proof -
    have "r_derivative_ticker r \<noteq> None" using assms(1) k by (auto simp: validateEvent_def event_valid_def event_kinds split: option.splits)
    with only_present [OF assms(1), of 4] show ?thesis
      by (intro exI [of _ "the (r_derivative_ticker r)"] conjI row.equality) (simp_all add: present_def no_event_def assms(2) k)
  qed
  show "\<exists>e. r_liquidation r = Some e \<and> r\<lparr>r_hash := zero_hash\<rparr> = (no_event EventLiquidation)\<lparr>r_liquidation := Some e\<rparr>" if k: "r_kind r = EventLiquidation"
  proof -
    have "r_liquidation r \<noteq> None" using assms(1) k by (auto simp: validateEvent_def event_valid_def event_kinds split: option.splits)
    with only_present [OF assms(1), of 5] show ?thesis
      by (intro exI [of _ "the (r_liquidation r)"] conjI row.equality) (simp_all add: present_def no_event_def assms(2) k)
  qed
  show "\<exists>e. r_option_summary r = Some e \<and> r\<lparr>r_hash := zero_hash\<rparr> = (no_event EventOptionSummary)\<lparr>r_option_summary := Some e\<rparr>" if k: "r_kind r = EventOptionSummary"
  proof -
    have "r_option_summary r \<noteq> None" using assms(1) k by (auto simp: validateEvent_def event_valid_def event_kinds split: option.splits)
    with only_present [OF assms(1), of 6] show ?thesis
      by (intro exI [of _ "the (r_option_summary r)"] conjI row.equality) (simp_all add: present_def no_event_def assms(2) k)
  qed
  show "\<exists>e. r_instrument_event r = Some e \<and> r\<lparr>r_hash := zero_hash\<rparr> = (no_event EventInstrument)\<lparr>r_instrument_event := Some e\<rparr>" if k: "r_kind r = EventInstrument"
  proof -
    have "r_instrument_event r \<noteq> None" using assms(1) k by (auto simp: validateEvent_def event_valid_def event_kinds split: option.splits)
    with only_present [OF assms(1), of 7] show ?thesis
      by (intro exI [of _ "the (r_instrument_event r)"] conjI row.equality) (simp_all add: present_def no_event_def assms(2) k)
  qed
  show "\<exists>e. r_source_health r = Some e \<and> r\<lparr>r_hash := zero_hash\<rparr> = (no_event EventSourceHealth)\<lparr>r_source_health := Some e\<rparr>" if k: "r_kind r = EventSourceHealth"
  proof -
    have "r_source_health r \<noteq> None" using assms(1) k by (auto simp: validateEvent_def event_valid_def event_kinds split: option.splits)
    with only_present [OF assms(1), of 8] show ?thesis
      by (intro exI [of _ "the (r_source_health r)"] conjI row.equality) (simp_all add: present_def no_event_def assms(2) k)
  qed
qed

lemma row_bytes_kind:
  assumes "validateEvent sha r" "validateEvent sha r'" "row_bytes r = row_bytes r'"
  shows "r_kind r = r_kind r'"
proof -
  have "short (r_kind r)" "short (r_kind r')" using assms(1,2) validateEvent_kind known_kinds_short by blast+
  then show ?thesis using assms(3) by (simp add: row_bytes_def cstr.frame_iff)
qed

lemma row_same: "r'\<lparr>r_hash := h\<rparr> = r\<lparr>r_hash := h\<rparr> \<Longrightarrow> r' = r\<lparr>r_hash := r_hash r'\<rparr>" for r r' :: row
  by (cases r, cases r') simp

lemma row_bytes_inj:
  assumes "Row_Validate sha r" "Row_Validate sha r'" "row_go r" "row_go r'" "row_bytes r = row_bytes r'"
  shows "r' = r\<lparr>r_hash := r_hash r'\<rparr>"
proof -
  have e: "validateEvent sha r" "validateEvent sha r'" "r_version r = LogicalEncodingVersion" "r_version r' = LogicalEncodingVersion"
    using assms(1,2) by (simp_all add: Row_Validate_def)
  note kind = row_bytes_kind [OF e(1,2) assms(5)] and shapes = row_shapes [OF e(1,3)] row_shapes [OF e(2,4)]
  consider "r_kind r = EventTrade" | "r_kind r = EventBookUpdate" | "r_kind r = EventQuote" | "r_kind r = EventTicker" | "r_kind r = EventDerivativeTicker" | "r_kind r = EventLiquidation" | "r_kind r = EventOptionSummary" | "r_kind r = EventInstrument" | "r_kind r = EventSourceHealth"
    using validateEvent_kind [OF e(1)] by (auto simp: known_kinds_def)
  then show ?thesis
  proof cases
    case 1
    then obtain x y where r: "r_trade r = Some x" "r\<lparr>r_hash := zero_hash\<rparr> = (no_event EventTrade)\<lparr>r_trade := Some x\<rparr>"
      "r_trade r' = Some y" "r'\<lparr>r_hash := zero_hash\<rparr> = (no_event EventTrade)\<lparr>r_trade := Some y\<rparr>"
      using shapes(1) shapes(10) kind by metis
    have "x = y" by (rule trade_frame) (use assms(3-5) 1 kind r(1,3) in \<open>simp_all add: row_bytes_def row_event_bytes_def row_go_def event_go_def ce_event_def event_kinds\<close>)
    then show ?thesis using r by (intro row_same [where h = zero_hash]) simp
  next
    case 2
    then obtain x y where r: "r_book_update r = Some x" "r\<lparr>r_hash := zero_hash\<rparr> = (no_event EventBookUpdate)\<lparr>r_book_update := Some x\<rparr>"
      "r_book_update r' = Some y" "r'\<lparr>r_hash := zero_hash\<rparr> = (no_event EventBookUpdate)\<lparr>r_book_update := Some y\<rparr>"
      using shapes(2) shapes(11) kind by metis
    have "x = y" by (rule book_update_frame) (use assms(3-5) 2 kind r(1,3) in \<open>simp_all add: row_bytes_def row_event_bytes_def row_go_def event_go_def ce_event_def event_kinds\<close>)
    then show ?thesis using r by (intro row_same [where h = zero_hash]) simp
  next
    case 3
    then obtain x y where r: "r_quote r = Some x" "r\<lparr>r_hash := zero_hash\<rparr> = (no_event EventQuote)\<lparr>r_quote := Some x\<rparr>"
      "r_quote r' = Some y" "r'\<lparr>r_hash := zero_hash\<rparr> = (no_event EventQuote)\<lparr>r_quote := Some y\<rparr>"
      using shapes(3) shapes(12) kind by metis
    have "x = y" by (rule quote_frame) (use assms(3-5) 3 kind r(1,3) in \<open>simp_all add: row_bytes_def row_event_bytes_def row_go_def event_go_def ce_event_def event_kinds\<close>)
    then show ?thesis using r by (intro row_same [where h = zero_hash]) simp
  next
    case 4
    then obtain x y where r: "r_ticker r = Some x" "r\<lparr>r_hash := zero_hash\<rparr> = (no_event EventTicker)\<lparr>r_ticker := Some x\<rparr>"
      "r_ticker r' = Some y" "r'\<lparr>r_hash := zero_hash\<rparr> = (no_event EventTicker)\<lparr>r_ticker := Some y\<rparr>"
      using shapes(4) shapes(13) kind by metis
    have "x = y" by (rule ticker_frame) (use assms(3-5) 4 kind r(1,3) in \<open>simp_all add: row_bytes_def row_event_bytes_def row_go_def event_go_def ce_event_def event_kinds\<close>)
    then show ?thesis using r by (intro row_same [where h = zero_hash]) simp
  next
    case 5
    then obtain x y where r: "r_derivative_ticker r = Some x" "r\<lparr>r_hash := zero_hash\<rparr> = (no_event EventDerivativeTicker)\<lparr>r_derivative_ticker := Some x\<rparr>"
      "r_derivative_ticker r' = Some y" "r'\<lparr>r_hash := zero_hash\<rparr> = (no_event EventDerivativeTicker)\<lparr>r_derivative_ticker := Some y\<rparr>"
      using shapes(5) shapes(14) kind by metis
    have "x = y" by (rule derivative_ticker_frame) (use assms(3-5) 5 kind r(1,3) in \<open>simp_all add: row_bytes_def row_event_bytes_def row_go_def event_go_def ce_event_def event_kinds\<close>)
    then show ?thesis using r by (intro row_same [where h = zero_hash]) simp
  next
    case 6
    then obtain x y where r: "r_liquidation r = Some x" "r\<lparr>r_hash := zero_hash\<rparr> = (no_event EventLiquidation)\<lparr>r_liquidation := Some x\<rparr>"
      "r_liquidation r' = Some y" "r'\<lparr>r_hash := zero_hash\<rparr> = (no_event EventLiquidation)\<lparr>r_liquidation := Some y\<rparr>"
      using shapes(6) shapes(15) kind by metis
    have "x = y" by (rule liquidation_frame) (use assms(3-5) 6 kind r(1,3) in \<open>simp_all add: row_bytes_def row_event_bytes_def row_go_def event_go_def ce_event_def event_kinds\<close>)
    then show ?thesis using r by (intro row_same [where h = zero_hash]) simp
  next
    case 7
    then obtain x y where r: "r_option_summary r = Some x" "r\<lparr>r_hash := zero_hash\<rparr> = (no_event EventOptionSummary)\<lparr>r_option_summary := Some x\<rparr>"
      "r_option_summary r' = Some y" "r'\<lparr>r_hash := zero_hash\<rparr> = (no_event EventOptionSummary)\<lparr>r_option_summary := Some y\<rparr>"
      using shapes(7) shapes(16) kind by metis
    have "x = y" by (rule option_summary_frame) (use assms(3-5) 7 kind r(1,3) in \<open>simp_all add: row_bytes_def row_event_bytes_def row_go_def event_go_def ce_event_def event_kinds\<close>)
    then show ?thesis using r by (intro row_same [where h = zero_hash]) simp
  next
    case 8
    then obtain x y where r: "r_instrument_event r = Some x" "r\<lparr>r_hash := zero_hash\<rparr> = (no_event EventInstrument)\<lparr>r_instrument_event := Some x\<rparr>"
      "r_instrument_event r' = Some y" "r'\<lparr>r_hash := zero_hash\<rparr> = (no_event EventInstrument)\<lparr>r_instrument_event := Some y\<rparr>"
      using shapes(8) shapes(17) kind by metis
    have "x = y" by (rule instrument_event_frame) (use assms(3-5) 8 kind r(1,3) in \<open>simp_all add: row_bytes_def row_event_bytes_def row_go_def event_go_def ce_event_def event_kinds\<close>)
    then show ?thesis using r by (intro row_same [where h = zero_hash]) simp
  next
    case 9
    then obtain x y where r: "r_source_health r = Some x" "r\<lparr>r_hash := zero_hash\<rparr> = (no_event EventSourceHealth)\<lparr>r_source_health := Some x\<rparr>"
      "r_source_health r' = Some y" "r'\<lparr>r_hash := zero_hash\<rparr> = (no_event EventSourceHealth)\<lparr>r_source_health := Some y\<rparr>"
      using shapes(9) shapes(18) kind by metis
    have "x = y" by (rule source_health_frame) (use assms(3-5) 9 kind r(1,3) in \<open>simp_all add: row_bytes_def row_event_bytes_def row_go_def event_go_def ce_event_def event_kinds\<close>)
    then show ?thesis using r by (intro row_same [where h = zero_hash]) simp
  qed
qed

text \<open>
  C7. The hash of a row names the row.  Two valid rows of any of the nine kinds with the
  same logical hash are the same row, metadata with its raw coordinate and every field
  with its source state, value and provenance included, or their encodings are a
  collision of the hash.  The rows are Go values (fixed-size arrays, 64-bit times) with
  lengths that fit the 32-bit prefix and, as a condition of its own, zero behind every
  optional that is not valid: the encoder does not write what is there, and validation
  does not exclude it for the source time of a quote and the previous sequence of a
  book update.
\<close>

theorem row_hash_identifies:
  assumes "Row_Validate sha r" "Row_Validate sha r'" "row_go r" "row_go r'" "r_hash r = r_hash r'"
  shows "r = r' \<or> row_bytes r \<noteq> row_bytes r' \<and> sha (row_bytes r) = sha (row_bytes r')"
proof (cases "row_bytes r = row_bytes r'")
  case True
  then have "r' = r\<lparr>r_hash := r_hash r'\<rparr>" by (rule row_bytes_inj [OF assms(1-4)])
  moreover have "r\<lparr>r_hash := r_hash r'\<rparr> = r" unfolding assms(5) [symmetric] by simp
  ultimately show ?thesis by simp
next
  case False
  then show ?thesis using assms(1,2,5) by (simp add: Row_Validate_def logicalHash_def)
qed

definition sample_number :: "nunit \<Rightarrow> numeric" where
  "sample_number u = \<lparr>n_dec = \<lparr>coefficient = ''7'', dec_scale = 18\<rparr>, n_unit = u\<rparr>"

definition sample_trade :: "u64 \<Rightarrow> trade" where
  "sample_trade n = \<lparr>tr_meta = sample_metadata\<lparr>md_schema := ''TradeV1''\<rparr>, tr_id = n, tr_aggressor = SideBuy, tr_buyer_maker = False,
     tr_ignore = False, tr_price = sample_number (SpotPriceUnit ''BTC'' ''USDT''), tr_amount = sample_number (BaseAssetUnit ''BTC''),
     tr_aggregation = AggregationSingleMatch, tr_duplicate = DuplicateUnassessed\<rparr>"

definition sample_trade_row :: "u64 \<Rightarrow> row" where
  "sample_trade_row n = (no_event EventTrade)\<lparr>r_trade := Some (sample_trade n), r_hash := replicate 32 7\<rparr>"

lemma sample_trade_valid: "Trade_Validate (\<lambda>_. replicate 32 7) (sample_trade n)"
proof -
  have "Trade_Validate (\<lambda>_. replicate 32 7) (sample_trade 0)"
    unfolding Trade_Validate_def validateSchema_def Metadata_Validate_def eventID_def by code_simp
  moreover have "sample_trade n = (sample_trade 0)\<lparr>tr_id := n\<rparr>" by (simp add: sample_trade_def)
  ultimately show ?thesis by (simp add: Trade_Validate_def)
qed

lemma sample_trade_row_valid: "Row_Validate (\<lambda>_. replicate 32 7) (sample_trade_row n)"
  using sample_trade_valid [of n]
  by (simp add: Row_Validate_def validateEvent_def sample_trade_row_def present_def event_valid_def no_event_def logicalHash_def)

lemma sample_trade_row_go: "row_go (sample_trade_row n)"
  by (simp add: row_go_def event_go_def sample_trade_row_def no_event_def trade_go_def metadata_go_def opt_i64_go_def in_i64_def
      numeric_go_def decimal_go_def unit_go_def sample_trade_def sample_metadata_def sample_number_def SpotPriceUnit_def BaseAssetUnit_def
      UnitQuotePerBase_def UnitBaseAssetAmount_def SideBuy_def AggregationSingleMatch_def DuplicateUnassessed_def)

theorem row_hash_identifies_witness:
  "Row_Validate (\<lambda>_. replicate 32 7) (sample_trade_row 3) \<and> Row_Validate (\<lambda>_. replicate 32 7) (sample_trade_row 4) \<and>
   row_bytes (sample_trade_row 3) \<noteq> row_bytes (sample_trade_row 4)"
proof -
  have "r_hash (sample_trade_row 3) = r_hash (sample_trade_row 4)" "sample_trade_row 3 \<noteq> sample_trade_row 4"
    by (simp_all add: sample_trade_row_def sample_trade_def no_event_def)
  then show ?thesis
    using row_hash_identifies [OF sample_trade_row_valid sample_trade_row_valid sample_trade_row_go sample_trade_row_go, of 3 4]
      sample_trade_row_valid by blast
qed

end
