(* ===== verification/RawRecord.thy ===== *)
theory RawRecord
  imports RowHash Opportunity
begin

text \<open>
  The inputs of normalization: raw records bound to their place in a segment and the
  metadata made from them (\<open>src/normalize/types.go\<close>), the view of a catalog snapshot
  (\<open>catalog.go\<close>) and the structural fingerprint of a payload (\<open>fingerprint.go\<close>).

  JSON decoding is the parameter \<open>json_lib\<close> of \<open>Opportunity\<close>, and for the catalog a
  function from the bytes to the decoded document; the validity of UTF-8 is written out.
  The lemmas show that binding keeps the identity of a captured record, that a catalog
  view resolves no symbol to two instruments, and what the fingerprint of an object
  depends on.
\<close>

subsection \<open>Raw records\<close>

record raw_record =
  rr_envelope :: envelope_v1
  rr_coordinate :: raw_coordinate
  rr_flags :: "string list"

definition MaxQualityFlags :: nat where "MaxQualityFlags = 64"

definition RawRecord_Validate :: "(bytes \<Rightarrow> hash) \<Rightarrow> raw_record \<Rightarrow> bool" where
  "RawRecord_Validate sha r \<longleftrightarrow>
     (let e = rr_envelope r; c = rr_coordinate r in
      Validate sha e = None \<and>
      \<not> (rc_source c \<noteq> e_source e \<or> rc_channel c \<noteq> e_channel e \<or> rc_arrival c \<noteq> e_arrival e \<or> rc_message c \<noteq> e_message e \<or>
         rc_payload c \<noteq> v_sha e) \<and>
      (case StreamEpoch e of
         Inl err \<Rightarrow> False
       | Inr epoch \<Rightarrow> se_id epoch = rc_epoch_id c \<and> (se_kind epoch = EpochConnection) = (rc_epoch_kind c = ConnectionEpoch)) \<and>
      rc_segment c \<noteq> zero_hash \<and> \<not> length (rr_flags r) > MaxQualityFlags \<and> list_all (\<lambda>f. f \<in> set valid_quality_flags) (rr_flags r))"

definition BindRawRecord :: "(bytes \<Rightarrow> hash) \<Rightarrow> envelope_v1 \<Rightarrow> hash \<Rightarrow> u64 \<Rightarrow> string list \<Rightarrow> raw_record option" where
  "BindRawRecord sha e segment ordinal flags =
     (if Validate sha e \<noteq> None then None
      else (case StreamEpoch e of
        Inl err \<Rightarrow> None
      | Inr epoch \<Rightarrow>
          (let kind = (if se_kind epoch = EpochPollCycle then PollCycleEpoch else ConnectionEpoch);
               r = \<lparr>rr_envelope = e,
                 rr_coordinate = \<lparr>rc_source = e_source e, rc_channel = e_channel e, rc_epoch_kind = kind, rc_epoch_id = se_id epoch,
                   rc_arrival = e_arrival e, rc_message = e_message e, rc_segment = segment, rc_record = ordinal, rc_payload = v_sha e\<rparr>,
                 rr_flags = flags\<rparr>
           in if RawRecord_Validate sha r then Some r else None)))"

record metadata_input =
  mi_record :: raw_record
  mi_schema :: string
  mi_schema_version :: u16
  mi_instrument :: string
  mi_exchange_time :: opt_i64
  mi_exchange_resolution :: string
  mi_source_time :: opt_i64
  mi_source_resolution :: string
  mi_fingerprint :: hash
  mi_mapper_version :: string
  mi_binding :: hash
  mi_catalog :: hash
  mi_flags :: "string list"

definition new_metadata :: "metadata_input \<Rightarrow> metadata" where
  "new_metadata i =
     (let c = rr_coordinate (mi_record i) in
      \<lparr>md_event_id = zero_hash, md_event_id_version = EventIDEncodingVersion, md_schema = mi_schema i, md_schema_version = mi_schema_version i,
       md_source = rc_source c, md_channel = rc_channel c, md_instrument = mi_instrument i, md_epoch_kind = rc_epoch_kind c,
       md_epoch_id = rc_epoch_id c, md_arrival = rc_arrival c, md_message = rc_message c, md_exchange_time = mi_exchange_time i,
       md_exchange_resolution = mi_exchange_resolution i, md_source_time = mi_source_time i, md_source_resolution = mi_source_resolution i,
       md_received = e_received (rr_envelope (mi_record i)), md_segment = rc_segment c, md_record = rc_record c, md_payload = rc_payload c,
       md_fingerprint = mi_fingerprint i, md_mapper_version = mi_mapper_version i, md_binding = mi_binding i, md_catalog = mi_catalog i,
       md_flags = remdups_adj (sort (rr_flags (mi_record i) @ mi_flags i))\<rparr>)"

definition NewMetadata :: "(bytes \<Rightarrow> hash) \<Rightarrow> metadata_input \<Rightarrow> metadata option" where
  "NewMetadata sha i =
     (if \<not> RawRecord_Validate sha (mi_record i) then None
      else (let m = new_metadata i; m' = m\<lparr>md_event_id := eventID sha m\<rparr> in if Metadata_Validate sha m' then Some m' else None))"

subsection \<open>Catalog views\<close>

record catalog_snapshot =
  cs_version :: u16
  cs_sha :: hash
  cs_bytes :: bytes
  cs_count :: nat

record catalog_instrument =
  ci_uid :: string
  ci_native :: string
  ci_aliases :: "string list"
  ci_base :: string
  ci_quote :: string

record mapper_catalog_document =
  mc_version :: u16
  mc_source :: string
  mc_instruments :: "catalog_instrument list"

record catalog_view =
  cv_version :: u16
  cv_id :: hash
  cv_source :: string
  cv_instruments :: "(string \<times> instrument_identity) list"

definition SnapshotVersion :: u16 where "SnapshotVersion = 1"
definition MaxCatalogJSONBytes :: nat where "MaxCatalogJSONBytes = 16777216"
definition MaxCatalogInstruments :: nat where "MaxCatalogInstruments = 100000"
definition MaxCatalogAliases :: nat where "MaxCatalogAliases = 32"
definition MaxCatalogStringBytes :: nat where "MaxCatalogStringBytes = 4096"

text \<open>The loop over the keys of one instrument, and the loop over the instruments.\<close>

fun add_keys :: "instrument_identity \<Rightarrow> string list \<Rightarrow> (string \<times> instrument_identity) list \<Rightarrow> (string \<times> instrument_identity) list option" where
  "add_keys identity [] m = Some m"
| "add_keys identity (k # ks) m =
     (if k = [] \<or> length k > MaxCatalogStringBytes then None
      else if (\<exists>existing \<in> set_option (go_get m k). ii_uid existing \<noteq> ii_uid identity) then None
      else add_keys identity ks (go_put k identity m))"

definition identity_of :: "catalog_instrument \<Rightarrow> instrument_identity" where
  "identity_of v = \<lparr>ii_uid = ci_uid v, ii_native = ci_native v, ii_base = ci_base v, ii_quote = ci_quote v\<rparr>"

definition incomplete :: "catalog_instrument \<Rightarrow> bool" where
  "incomplete v \<longleftrightarrow> ci_uid v = [] \<or> ci_native v = [] \<or> ci_base v = [] \<or> ci_quote v = [] \<or> ci_base v = ci_quote v \<or>
     length (ci_aliases v) > MaxCatalogAliases"

fun add_instruments :: "catalog_instrument list \<Rightarrow> (string \<times> instrument_identity) list \<Rightarrow> (string \<times> instrument_identity) list option" where
  "add_instruments [] m = Some m"
| "add_instruments (v # vs) m =
     (if incomplete v then None
      else (case add_keys (identity_of v) (ci_aliases v @ [ci_native v]) m of
        None \<Rightarrow> None
      | Some m' \<Rightarrow> add_instruments vs m'))"

definition NewCatalogView :: "(bytes \<Rightarrow> hash) \<Rightarrow> (bytes \<Rightarrow> mapper_catalog_document option) \<Rightarrow> catalog_snapshot \<Rightarrow> catalog_view option" where
  "NewCatalogView sha decode s =
     (if cs_version s \<noteq> SnapshotVersion \<or> cs_version s = 0 \<or> length (cs_bytes s) = 0 \<or> length (cs_bytes s) > MaxCatalogJSONBytes \<or>
         sha (cs_bytes s) \<noteq> cs_sha s then None
      else (case decode (cs_bytes s) of
        None \<Rightarrow> None
      | Some d \<Rightarrow>
          if mc_version d \<noteq> cs_version s \<or> mc_source d = [] \<or> length (mc_instruments d) \<noteq> cs_count s \<or>
             length (mc_instruments d) > MaxCatalogInstruments then None
          else map_option (\<lambda>m. \<lparr>cv_version = cs_version s, cv_id = cs_sha s, cv_source = mc_source d, cv_instruments = m\<rparr>)
                 (add_instruments (mc_instruments d) [])))"

definition Lookup :: "catalog_view \<Rightarrow> string \<Rightarrow> string \<Rightarrow> instrument_identity option" where
  "Lookup v source symbol = (if source \<noteq> cv_source v \<or> symbol = [] then None else go_get (cv_instruments v) symbol)"

subsection \<open>Structural fingerprints\<close>

definition MaxFingerprintPayloadBytes :: nat where "MaxFingerprintPayloadBytes = 1048576"
definition MaxFingerprintDepth :: nat where "MaxFingerprintDepth = 32"
definition MaxFingerprintFields :: nat where "MaxFingerprintFields = 512"
definition MaxFingerprintArrayItems :: nat where "MaxFingerprintArrayItems = 20000"
definition MaxFingerprintNodes :: nat where "MaxFingerprintNodes = 100000"
definition MaxFingerprintStringBytes :: nat where "MaxFingerprintStringBytes = 4096"
definition MaxFingerprintNumberBytes :: nat where "MaxFingerprintNumberBytes = 128"
definition FingerprintEncodingVersion :: u16 where "FingerprintEncodingVersion = 1"

text \<open>\<open>unicode/utf8.Valid\<close>: the well-formed byte sequences of one to four bytes.\<close>

definition between :: "u8 \<Rightarrow> u8 \<Rightarrow> u8 \<Rightarrow> bool" where
  "between lo hi b \<longleftrightarrow> lo \<le> b \<and> b \<le> hi"

fun utf8_valid :: "bytes \<Rightarrow> bool" where
  "utf8_valid [] = True"
| "utf8_valid (a # rest) =
     (if a < 0x80 then utf8_valid rest
      else (case rest of
        [] \<Rightarrow> False
      | b # rest1 \<Rightarrow>
          if between 0xC2 0xDF a then between 0x80 0xBF b \<and> utf8_valid rest1
          else (case rest1 of
            [] \<Rightarrow> False
          | c # rest2 \<Rightarrow>
              if between 0xE0 0xEF a then
                between (if a = 0xE0 then 0xA0 else 0x80) (if a = 0xED then 0x9F else 0xBF) b \<and> between 0x80 0xBF c \<and> utf8_valid rest2
              else (case rest2 of
                [] \<Rightarrow> False
              | d # rest3 \<Rightarrow>
                  between 0xF0 0xF4 a \<and> between (if a = 0xF0 then 0x90 else 0x80) (if a = 0xF4 then 0x8F else 0xBF) b \<and>
                  between 0x80 0xBF c \<and> between 0x80 0xBF d \<and> utf8_valid rest3))))"

fun join_comma :: "string list \<Rightarrow> string" where
  "join_comma [] = []"
| "join_comma [s] = s"
| "join_comma (s # t # rest) = s @ '','' @ join_comma (t # rest)"

text \<open>The result is the shape and the number of nodes seen; None is an error.\<close>

function (sequential) fingerprintShape :: "nat \<Rightarrow> nat \<Rightarrow> json \<Rightarrow> (string \<times> nat) option"
  and shape_items :: "nat \<Rightarrow> nat \<Rightarrow> json list \<Rightarrow> (string list \<times> nat) option"
  and shape_fields :: "nat \<Rightarrow> nat \<Rightarrow> (string \<times> json) list \<Rightarrow> (string \<times> nat) option" where
  "fingerprintShape depth seen value =
     (let nodes = seen + 1 in
      if nodes > MaxFingerprintNodes \<or> depth > MaxFingerprintDepth then None
      else (case value of
        JNull \<Rightarrow> Some (''null'', nodes)
      | JBool b \<Rightarrow> Some (''boolean'', nodes)
      | JString s \<Rightarrow> if length s > MaxFingerprintStringBytes then None else Some (''string'', nodes)
      | JNumber t \<Rightarrow>
          if length t = 0 \<or> length t > MaxFingerprintNumberBytes then None
          else if CHR ''e'' \<in> set t \<or> CHR ''E'' \<in> set t then Some (''number:exponent'', nodes)
          else if CHR ''.'' \<in> set t then Some (''number:decimal'', nodes)
          else Some (''number:integer'', nodes)
      | JArray items \<Rightarrow>
          if length items > MaxFingerprintArrayItems then None
          else if items = [] then Some (''array:empty'', nodes)
          else (case shape_items (depth + 1) nodes items of
            None \<Rightarrow> None
          | Some (shapes, nodes') \<Rightarrow> Some (''array['' @ join_comma (remdups_adj (sort shapes)) @ '']'', nodes'))
      | JObject kvs \<Rightarrow>
          if length kvs > MaxFingerprintFields then None
          else (case shape_fields (depth + 1) nodes (sort_key fst kvs) of
            None \<Rightarrow> None
          | Some (text, nodes') \<Rightarrow> Some (''object{'' @ text @ ''}'', nodes'))))"
| "shape_items depth nodes [] = Some ([], nodes)"
| "shape_items depth nodes (item # items) =
     (case fingerprintShape depth nodes item of
        None \<Rightarrow> None
      | Some (shape, nodes1) \<Rightarrow>
          (case shape_items depth nodes1 items of None \<Rightarrow> None | Some (shapes, nodes2) \<Rightarrow> Some (shape # shapes, nodes2)))"
| "shape_fields depth nodes [] = Some ([], nodes)"
| "shape_fields depth nodes ((key, value) # kvs) =
     (if key = [] \<or> length key > MaxFingerprintStringBytes then None
      else (case fingerprintShape depth nodes value of
        None \<Rightarrow> None
      | Some (shape, nodes1) \<Rightarrow>
          (case shape_fields depth nodes1 kvs of
             None \<Rightarrow> None
           | Some (rest, nodes2) \<Rightarrow> Some (key @ '':'' @ shape @ '';'' @ rest, nodes2))))"
  by pat_completeness auto
termination
  by (relation "measures [\<lambda>x. case x of Inl (d, n, v) \<Rightarrow> 34 - d | Inr (Inl (d, n, vs)) \<Rightarrow> 34 - d | Inr (Inr (d, n, fs)) \<Rightarrow> 34 - d,
      \<lambda>x. case x of Inl (d, n, v) \<Rightarrow> 0 | Inr (Inl (d, n, vs)) \<Rightarrow> Suc (length vs) | Inr (Inr (d, n, fs)) \<Rightarrow> Suc (length fs)]")
    (auto simp: MaxFingerprintDepth_def)

declare fingerprintShape.simps [simp del]

definition StructuralFingerprint :: "(bytes \<Rightarrow> hash) \<Rightarrow> json_lib \<Rightarrow> bytes \<Rightarrow> hash option" where
  "StructuralFingerprint sha jl payload =
     (if length payload = 0 \<or> length payload > MaxFingerprintPayloadBytes \<or> \<not> utf8_valid payload then None
      else (case jl_decode jl payload of
        None \<Rightarrow> None
      | Some value \<Rightarrow>
          (case fingerprintShape 1 0 value of
             None \<Rightarrow> None
           | Some (shape, nodes) \<Rightarrow>
               Some (sha (ce_string ''structural-schema-fingerprint'' @ be_u16 FingerprintEncodingVersion @ ce_string shape)))))"

subsection \<open>Binding keeps identity\<close>

lemma BindRawRecord_Some:
  assumes "BindRawRecord sha e segment ordinal flags = Some r"
  shows "RawRecord_Validate sha r \<and> rr_envelope r = e \<and> rc_segment (rr_coordinate r) = segment \<and> rc_record (rr_coordinate r) = ordinal \<and>
    rr_flags r = flags"
  using assms by (auto simp: BindRawRecord_def Let_def split: if_splits sum.splits)

lemma RawRecord_coordinate:
  assumes "RawRecord_Validate sha r"
  shows "rc_source (rr_coordinate r) = e_source (rr_envelope r)" "rc_channel (rr_coordinate r) = e_channel (rr_envelope r)"
    "rc_arrival (rr_coordinate r) = e_arrival (rr_envelope r)" "rc_message (rr_coordinate r) = e_message (rr_envelope r)"
    "rc_payload (rr_coordinate r) = v_sha (rr_envelope r)"
  using assms by (simp_all add: RawRecord_Validate_def Let_def)

lemma BindRawRecord_total:
  assumes "Validate sha e = None" "segment \<noteq> zero_hash" "length flags \<le> MaxQualityFlags" "set flags \<subseteq> set valid_quality_flags"
    and "StreamEpoch e = Inr epoch"
  shows "\<exists>r. BindRawRecord sha e segment ordinal flags = Some r"
proof -
  have "se_kind epoch = EpochConnection \<or> se_kind epoch = EpochPollCycle"
    using assms(5) by (auto simp: StreamEpoch_def split: if_splits)
  moreover have "EpochConnection \<noteq> EpochPollCycle" "ConnectionEpoch \<noteq> PollCycleEpoch"
    by (simp_all add: EpochConnection_def EpochPollCycle_def ConnectionEpoch_def PollCycleEpoch_def)
  ultimately show ?thesis
    using assms by (auto simp: BindRawRecord_def Let_def RawRecord_Validate_def list_all_iff)
qed

lemma NewMetadata_identity:
  assumes "NewMetadata sha i = Some m"
  shows "Metadata_Validate sha m \<and> fst (event_identity m) = rr_coordinate (mi_record i)"
  using assms by (auto simp: NewMetadata_def new_metadata_def event_identity_def Let_def split: if_splits)

subsection \<open>A catalog view is unambiguous\<close>

lemma add_keys_Some:
  "add_keys identity ks m = Some m' \<Longrightarrow>
     (\<forall>k \<in> set ks. go_get m' k = Some identity) \<and>
     (\<forall>k x. go_get m k = Some x \<longrightarrow> (\<exists>y. go_get m' k = Some y \<and> ii_uid y = ii_uid x)) \<and>
     (\<forall>k y. go_get m' k = Some y \<longrightarrow> go_get m k = Some y \<or> y = identity \<and> k \<in> set ks)"
proof (induction ks arbitrary: m)
  case (Cons a ks)
  from Cons.prems have rest: "add_keys identity ks (go_put a identity m) = Some m'"
    and same: "\<And>z. go_get m a = Some z \<Longrightarrow> ii_uid z = ii_uid identity" by (auto split: if_splits)
  note IH = Cons.IH [OF rest]
  from IH have "\<exists>y. go_get m' a = Some y \<and> ii_uid y = ii_uid identity" by simp
  with IH have a: "go_get m' a = Some identity" by fastforce
  moreover have "\<exists>y. go_get m' k = Some y \<and> ii_uid y = ii_uid x" if "go_get m k = Some x" for k x
    using IH that same a by (cases "k = a") auto
  moreover have "go_get m k = Some y \<or> y = identity \<and> k \<in> set (a # ks)" if "go_get m' k = Some y" for k y
    using conjunct2 [OF conjunct2 [OF IH]] that a by (cases "k = a") (simp, fastforce)
  ultimately show ?case using IH by auto
qed simp

lemma add_instruments_Some:
  "add_instruments vs m = Some m' \<Longrightarrow>
     (\<forall>v \<in> set vs. \<forall>k \<in> set (ci_aliases v @ [ci_native v]). \<exists>y. go_get m' k = Some y \<and> ii_uid y = ci_uid v) \<and>
     (\<forall>k x. go_get m k = Some x \<longrightarrow> (\<exists>y. go_get m' k = Some y \<and> ii_uid y = ii_uid x)) \<and>
     (\<forall>k y. go_get m' k = Some y \<longrightarrow> go_get m k = Some y \<or> (\<exists>v \<in> set vs. y = identity_of v))"
proof (induction vs arbitrary: m)
  case (Cons a vs)
  from Cons.prems obtain m1 where m1: "add_keys (identity_of a) (ci_aliases a @ [ci_native a]) m = Some m1" "add_instruments vs m1 = Some m'"
    by (auto split: if_splits option.splits)
  note IH = Cons.IH [OF m1(2)] and keys = add_keys_Some [OF m1(1)]
  have "\<exists>y. go_get m' k = Some y \<and> ii_uid y = ci_uid a" if "k \<in> set (ci_aliases a @ [ci_native a])" for k
  proof -
    from keys that have "go_get m1 k = Some (identity_of a)" by blast
    with IH show ?thesis by (fastforce simp: identity_of_def)
  qed
  moreover have "\<exists>y. go_get m' k = Some y \<and> ii_uid y = ii_uid x" if "go_get m k = Some x" for k x
    using IH keys that by metis
  moreover have "go_get m k = Some y \<or> (\<exists>v \<in> set (a # vs). y = identity_of v)" if "go_get m' k = Some y" for k y
    using IH keys that by (metis list.set_intros)
  ultimately show ?case using IH by auto
qed simp

lemma catalog_view_resolves:
  assumes "NewCatalogView sha decode s = Some view" "decode (cs_bytes s) = Some d"
  shows "v \<in> set (mc_instruments d) \<Longrightarrow> k \<in> set (ci_aliases v @ [ci_native v]) \<Longrightarrow> k \<noteq> [] \<Longrightarrow>
      \<exists>i. Lookup view (mc_source d) k = Some i \<and> ii_uid i = ci_uid v"
    and "Lookup view source k = Some i \<Longrightarrow> source = mc_source d \<and> (\<exists>v \<in> set (mc_instruments d). i = identity_of v)"
proof -
  obtain m where m: "add_instruments (mc_instruments d) [] = Some m" "cv_source view = mc_source d" "cv_instruments view = m"
    using assms by (auto simp: NewCatalogView_def split: if_splits option.splits)
  show "\<exists>i. Lookup view (mc_source d) k = Some i \<and> ii_uid i = ci_uid v"
    if "v \<in> set (mc_instruments d)" "k \<in> set (ci_aliases v @ [ci_native v])" "k \<noteq> []"
    using conjunct1 [OF add_instruments_Some [OF m(1)]] m that by (auto simp: Lookup_def)
  show "source = mc_source d \<and> (\<exists>v \<in> set (mc_instruments d). i = identity_of v)" if "Lookup view source k = Some i"
    using add_instruments_Some [OF m(1)] that m by (auto simp: Lookup_def split: if_splits)
qed

subsection \<open>What a fingerprint does not see\<close>

text \<open>The shape of an object does not depend on the order in which its fields arrive.\<close>

lemma shape_field_order:
  assumes "mset kvs = mset kvs'" "distinct (map fst kvs)"
  shows "fingerprintShape d n (JObject kvs) = fingerprintShape d n (JObject kvs')"
proof -
  have "sort_key fst kvs = sort_key fst kvs'"
    using sort_key_mset_unique [of kvs kvs' fst] assms by (simp add: distinct_map)
  moreover have "length kvs = length kvs'" using assms(1) by (rule mset_eq_length)
  ultimately show ?thesis by (simp add: fingerprintShape.simps)
qed

text \<open>
  Keys are written without escaping, so the shape does not determine the fields: an
  object with one field whose name contains the delimiters has the shape, and for every
  hash the fingerprint, of an object with two fields.
\<close>

lemma shape_key_delimiters:
  "map_option fst (fingerprintShape 1 0 (JObject [(''a:string;b'', JNumber ''1'')])) =
   map_option fst (fingerprintShape 1 0 (JObject [(''a'', JString ''x''), (''b'', JNumber ''1'')]))"
  by (simp add: fingerprintShape.simps MaxFingerprintNodes_def MaxFingerprintDepth_def MaxFingerprintFields_def MaxFingerprintStringBytes_def
      MaxFingerprintNumberBytes_def)

end
