(* ===== verification/Orchestrator.thy ===== *)
theory Orchestrator
  imports RawRecord
begin

text \<open>
  \<open>src/normalize/orchestrator.go\<close>: bindings of mappers to a source, a channel and an
  interval of time, and the normalization of a batch of raw records, each of which is
  mapped to rows or quarantined.  A mapper is an interface of the source: here any
  function from its input to rows or an error.  \<open>slices.BinarySearchFunc\<close> is written out.

  The lemmas show that at most one binding covers a record, that binary search finds the
  rule of a fingerprint, and that a batch accounts for every record exactly once.
\<close>

subsection \<open>Bindings\<close>

definition MapperBindingVersion :: u16 where "MapperBindingVersion = 1"
definition MaxMapperBindings :: nat where "MaxMapperBindings = 1024"
definition MaxFingerprintRules :: nat where "MaxFingerprintRules = 256"
definition MaxAllowedUnknownFields :: nat where "MaxAllowedUnknownFields = 64"
definition MaxNormalizationBatch :: nat where "MaxNormalizationBatch = 100000"
definition MaxMapperVersionBytes :: nat where "MaxMapperVersionBytes = 128"

datatype normalize_error = ErrInvalidMapperBinding | ErrNormalizationBoundary | ErrInvalidCatalogSnapshot

definition FingerprintExact :: string where "FingerprintExact = ''exact''"
definition FingerprintAdditiveHarmless :: string where "FingerprintAdditiveHarmless = ''additive_harmless''"
definition FingerprintSemanticAdditive :: string where "FingerprintSemanticAdditive = ''semantic_additive''"
definition FingerprintTypeOrMeaningChange :: string where "FingerprintTypeOrMeaningChange = ''type_or_meaning_change''"
definition FingerprintUnknown :: string where "FingerprintUnknown = ''unknown''"

record fingerprint_rule =
  fr_fingerprint :: hash
  fr_class :: string
  fr_allowed :: "string list"

record mapper_binding =
  mb_version :: u16
  mb_id :: hash
  mb_source :: string
  mb_channel :: string
  mb_from :: i64
  mb_until :: opt_i64
  mb_mapper :: string
  mb_resolution :: string
  mb_catalog :: hash
  mb_rules :: "fingerprint_rule list"

record mapping_input =
  mx_record :: raw_record
  mx_catalog :: catalog_view
  mx_binding :: mapper_binding
  mx_rule :: fingerprint_rule

text \<open>The error of a mapper: a \<open>ProjectionError\<close> with code, field and state, or any other.\<close>

datatype map_error = ProjectionError string string string | OtherMapError

definition RejectProjection :: "string \<Rightarrow> string \<Rightarrow> string \<Rightarrow> map_error" where
  "RejectProjection code field state = ProjectionError code field (if state = [] then SourceValue else state)"

record mapper =
  mp_version :: string
  mp_map :: "mapping_input \<Rightarrow> map_error + row list"

record bound_mapper =
  bo_binding :: mapper_binding
  bo_mapper :: "mapper option"

record orchestrator =
  oc_catalog :: catalog_view
  oc_bindings :: "bound_mapper list"

definition validFingerprintClass :: "string \<Rightarrow> bool" where
  "validFingerprintClass c \<longleftrightarrow> c \<in> set [FingerprintExact, FingerprintAdditiveHarmless, FingerprintSemanticAdditive,
     FingerprintTypeOrMeaningChange, FingerprintUnknown]"

definition bind_rule_bytes :: "fingerprint_rule \<Rightarrow> bytes" where
  "bind_rule_bytes r = fr_fingerprint r @ ce_string (fr_class r) @ ce_counted ce_string (fr_allowed r)"

definition binding_bytes :: "mapper_binding \<Rightarrow> bytes" where
  "binding_bytes b =
     ce_string ''mapper-binding'' @ be_u16 (mb_version b) @ ce_string (mb_source b) @ ce_string (mb_channel b) @ ce_i64 (mb_from b) @
     ce_optionalInt64 (mb_until b) @ ce_string (mb_mapper b) @ ce_string (mb_resolution b) @ mb_catalog b @
     ce_counted bind_rule_bytes (mb_rules b)"

definition bindingHash :: "(bytes \<Rightarrow> hash) \<Rightarrow> mapper_binding \<Rightarrow> hash" where
  "bindingHash sha b = sha (binding_bytes b)"

definition canonical_rule :: "fingerprint_rule \<Rightarrow> fingerprint_rule option" where
  "canonical_rule r =
     (if fr_fingerprint r = zero_hash \<or> \<not> validFingerprintClass (fr_class r) \<or> length (fr_allowed r) > MaxAllowedUnknownFields then None
      else (let allowed = sort (fr_allowed r) in
        if length allowed \<noteq> length (remdups_adj allowed) then None
        else if list_ex (\<lambda>f. f = [] \<or> length f > MaxFingerprintStringBytes \<or> has_nul f) allowed then None
        else if fr_class r \<noteq> FingerprintAdditiveHarmless \<and> length allowed \<noteq> 0 then None
        else Some (r\<lparr>fr_allowed := allowed\<rparr>)))"

fun canonical_rules :: "fingerprint_rule list \<Rightarrow> fingerprint_rule list option" where
  "canonical_rules [] = Some []"
| "canonical_rules (r # rs) =
     (case canonical_rule r of
        None \<Rightarrow> None
      | Some r' \<Rightarrow> (case canonical_rules rs of None \<Rightarrow> None | Some rs' \<Rightarrow> Some (r' # rs')))"

fun adjacent_distinct :: "fingerprint_rule list \<Rightarrow> bool" where
  "adjacent_distinct (a # b # rest) = (fr_fingerprint b \<noteq> fr_fingerprint a \<and> adjacent_distinct (b # rest))"
| "adjacent_distinct _ = True"

definition compare_rules :: "fingerprint_rule \<Rightarrow> fingerprint_rule \<Rightarrow> int" where
  "compare_rules a b = compare_then (fr_fingerprint a) (fr_fingerprint b) 0"

definition canonicalBinding :: "(bytes \<Rightarrow> hash) \<Rightarrow> mapper_binding \<Rightarrow> mapper option \<Rightarrow> catalog_view \<Rightarrow> mapper_binding option" where
  "canonicalBinding sha b m view =
     (if m = None \<or> mb_version b \<noteq> MapperBindingVersion \<or> mb_source b = [] \<or> mb_channel b = [] \<or> mb_from b < 0 \<or> mb_mapper b = [] \<or>
         length (mb_mapper b) > MaxMapperVersionBytes \<or> map_option mp_version m \<noteq> Some (mb_mapper b) \<or> mb_catalog b \<noteq> cv_id view \<or>
         mb_source b \<noteq> cv_source view \<or> mb_resolution b = ResolutionAbsent \<or> \<not> validTimeResolution (mb_resolution b) \<or>
         length (mb_rules b) = 0 \<or> length (mb_rules b) > MaxFingerprintRules then None
      else if oi_valid (mb_until b) \<and> oi_value (mb_until b) \<le> mb_from b then None
      else (case canonical_rules (mb_rules b) of
        None \<Rightarrow> None
      | Some rules \<Rightarrow>
          (let sorted_rules = SortFunc compare_rules rules in
           if \<not> adjacent_distinct sorted_rules then None
           else (let b' = b\<lparr>mb_rules := sorted_rules\<rparr> in Some (b'\<lparr>mb_id := bindingHash sha b'\<rparr>)))))"

definition compareBoundMapper :: "bound_mapper \<Rightarrow> bound_mapper \<Rightarrow> int" where
  "compareBoundMapper a b =
     compare_then (mb_source (bo_binding a)) (mb_source (bo_binding b))
       (compare_then (mb_channel (bo_binding a)) (mb_channel (bo_binding b))
         (compare_then (mb_from (bo_binding a)) (mb_from (bo_binding b))
           (compare_then (mb_id (bo_binding a)) (mb_id (bo_binding b)) 0)))"

definition effective_end :: "mapper_binding \<Rightarrow> i64" where
  "effective_end b = (if oi_valid (mb_until b) then oi_value (mb_until b) else 2 ^ 63 - 1)"

fun overlap_free :: "bound_mapper list \<Rightarrow> bool" where
  "overlap_free (a # b # rest) =
     (\<not> (mb_source (bo_binding a) = mb_source (bo_binding b) \<and> mb_channel (bo_binding a) = mb_channel (bo_binding b) \<and>
         mb_from (bo_binding b) < effective_end (bo_binding a)) \<and> overlap_free (b # rest))"
| "overlap_free _ = True"

fun canonical_bindings :: "(bytes \<Rightarrow> hash) \<Rightarrow> catalog_view \<Rightarrow> bound_mapper list \<Rightarrow> bound_mapper list option" where
  "canonical_bindings sha view [] = Some []"
| "canonical_bindings sha view (c # cs) =
     (case canonicalBinding sha (bo_binding c) (bo_mapper c) view of
        None \<Rightarrow> None
      | Some b \<Rightarrow> (case canonical_bindings sha view cs of None \<Rightarrow> None | Some bs \<Rightarrow> Some (c\<lparr>bo_binding := b\<rparr> # bs)))"

definition NewOrchestrator :: "(bytes \<Rightarrow> hash) \<Rightarrow> (bytes \<Rightarrow> mapper_catalog_document option) \<Rightarrow> catalog_snapshot \<Rightarrow> bound_mapper list \<Rightarrow>
    normalize_error + orchestrator" where
  "NewOrchestrator sha decode snapshot bound =
     (case NewCatalogView sha decode snapshot of
        None \<Rightarrow> Inl ErrInvalidCatalogSnapshot
      | Some view \<Rightarrow>
          if length bound = 0 \<or> length bound > MaxMapperBindings then Inl ErrInvalidMapperBinding
          else (case canonical_bindings sha view bound of
            None \<Rightarrow> Inl ErrInvalidMapperBinding
          | Some bindings \<Rightarrow>
              (let sorted_bindings = SortFunc compareBoundMapper bindings in
               if \<not> overlap_free sorted_bindings then Inl ErrInvalidMapperBinding
               else Inr \<lparr>oc_catalog = view, oc_bindings = sorted_bindings\<rparr>)))"

subsection \<open>Normalization\<close>

definition binding_covers :: "mapper_binding \<Rightarrow> raw_record \<Rightarrow> bool" where
  "binding_covers b r \<longleftrightarrow>
     \<not> (mb_source b \<noteq> rc_source (rr_coordinate r) \<or> mb_channel b \<noteq> rc_channel (rr_coordinate r) \<or>
        e_received (rr_envelope r) < mb_from b) \<and>
     \<not> (oi_valid (mb_until b) \<and> e_received (rr_envelope r) \<ge> oi_value (mb_until b))"

definition selectBinding :: "orchestrator \<Rightarrow> raw_record \<Rightarrow> bound_mapper option" where
  "selectBinding o' r = List.find (\<lambda>b. binding_covers (bo_binding b) r) (oc_bindings o')"

text \<open>The loop of \<open>slices.BinarySearchFunc\<close>: the first index in \<open>[i, j)\<close> at which the comparison is not negative.\<close>

function bsearch :: "('a \<Rightarrow> int) \<Rightarrow> 'a list \<Rightarrow> nat \<Rightarrow> nat \<Rightarrow> nat" where
  "bsearch cmp xs i j =
     (if i < j then (let h = (i + j) div 2 in if cmp (xs ! h) < 0 then bsearch cmp xs (h + 1) j else bsearch cmp xs i h) else i)"
  by pat_completeness auto
termination by (relation "measure (\<lambda>(cmp, xs, i, j). j - i)") auto

declare bsearch.simps [simp del]

definition findFingerprintRule :: "fingerprint_rule list \<Rightarrow> hash \<Rightarrow> fingerprint_rule option" where
  "findFingerprintRule rules fingerprint =
     (let cmp = (\<lambda>r. compare_then (fr_fingerprint r) fingerprint 0); i = bsearch cmp rules 0 (length rules) in
      if i < length rules \<and> cmp (rules ! i) = 0 then Some (rules ! i) else None)"

record schema_quarantine =
  sq_version :: u16
  sq_id :: hash
  sq_code :: string
  sq_field :: string
  sq_state :: string
  sq_class :: string
  sq_fingerprint :: hash
  sq_source :: string
  sq_channel :: string
  sq_received :: i64
  sq_coordinate :: raw_coordinate
  sq_mapper :: string
  sq_binding :: hash
  sq_resolution :: string
  sq_catalog :: hash

definition SchemaQuarantineVersion :: u16 where "SchemaQuarantineVersion = 1"

definition quarantine_bytes :: "schema_quarantine \<Rightarrow> bytes" where
  "quarantine_bytes q =
     (let c = sq_coordinate q in
      ce_string ''schema-quarantine'' @ be_u16 (sq_version q) @ ce_string (sq_code q) @ ce_string (sq_field q) @ ce_string (sq_state q) @
      ce_string (sq_class q) @ sq_fingerprint q @ ce_string (sq_source q) @ ce_string (sq_channel q) @ ce_i64 (sq_received q) @
      ce_string (rc_epoch_kind c) @ rc_epoch_id c @ be_u64 (rc_arrival c) @ be_u32 (rc_message c) @ rc_segment c @
      be_u64 (rc_record c) @ rc_payload c @ ce_string (sq_mapper q) @ sq_binding q @ ce_string (sq_resolution q) @ sq_catalog q)"

definition zero_binding :: mapper_binding where
  "zero_binding = \<lparr>mb_version = 0, mb_id = zero_hash, mb_source = [], mb_channel = [], mb_from = 0,
     mb_until = \<lparr>oi_value = 0, oi_valid = False\<rparr>, mb_mapper = [], mb_resolution = [], mb_catalog = zero_hash, mb_rules = []\<rparr>"

definition newQuarantine :: "(bytes \<Rightarrow> hash) \<Rightarrow> raw_record \<Rightarrow> mapper_binding \<Rightarrow> hash \<Rightarrow> string \<Rightarrow> string \<Rightarrow> string \<Rightarrow> string \<Rightarrow> hash \<Rightarrow>
    schema_quarantine" where
  "newQuarantine sha r b fingerprint cls code field state catalogID =
     (let q = \<lparr>sq_version = SchemaQuarantineVersion, sq_id = zero_hash, sq_code = code, sq_field = field, sq_state = state, sq_class = cls,
        sq_fingerprint = fingerprint, sq_source = rc_source (rr_coordinate r), sq_channel = rc_channel (rr_coordinate r),
        sq_received = e_received (rr_envelope r), sq_coordinate = rr_coordinate r, sq_mapper = mb_mapper b, sq_binding = mb_id b,
        sq_resolution = (if mb_resolution b = [] then ResolutionAbsent else mb_resolution b), sq_catalog = catalogID\<rparr>
      in q\<lparr>sq_id := sha (quarantine_bytes q)\<rparr>)"

definition row_traced :: "(bytes \<Rightarrow> hash) \<Rightarrow> raw_record \<Rightarrow> hash \<Rightarrow> mapper_binding \<Rightarrow> catalog_view \<Rightarrow> row \<Rightarrow> bool" where
  "row_traced sha r fingerprint b view row \<longleftrightarrow>
     (let m = Common row; c = rr_coordinate r in
      \<not> (\<not> Row_Validate sha row \<or> md_source m \<noteq> rc_source c \<or> md_channel m \<noteq> rc_channel c \<or> md_epoch_id m \<noteq> rc_epoch_id c \<or>
         md_arrival m \<noteq> rc_arrival c \<or> md_message m \<noteq> rc_message c \<or> md_segment m \<noteq> rc_segment c \<or> md_record m \<noteq> rc_record c \<or>
         md_payload m \<noteq> rc_payload c \<or> md_fingerprint m \<noteq> fingerprint \<or> md_binding m \<noteq> mb_id b \<or> md_mapper_version m \<noteq> mb_mapper b \<or>
         md_catalog m \<noteq> cv_id view \<or> md_source_resolution m \<noteq> mb_resolution b))"

text \<open>One iteration of the loop: rows, or the quarantine of the record.\<close>

definition map_rows :: "(bytes \<Rightarrow> hash) \<Rightarrow> orchestrator \<Rightarrow> raw_record \<Rightarrow> bound_mapper \<Rightarrow> hash \<Rightarrow> fingerprint_rule \<Rightarrow>
    schema_quarantine + row list" where
  "map_rows sha o' r b fingerprint rule =
     (let quarantine = (\<lambda>code field state. Inl (newQuarantine sha r (bo_binding b) fingerprint (fr_class rule) code field state
            (cv_id (oc_catalog o'))));
          input = \<lparr>mx_record = r, mx_catalog = oc_catalog o', mx_binding = bo_binding b, mx_rule = rule\<rparr>
      in case (case bo_mapper b of None \<Rightarrow> Inl OtherMapError | Some m \<Rightarrow> mp_map m input) of
           Inl (ProjectionError code field state) \<Rightarrow> quarantine code field state
         | Inl OtherMapError \<Rightarrow> quarantine ''invalid_field'' ''payload'' SourceValue
         | Inr rows \<Rightarrow>
             if length rows = 0 \<or> length rows > 4 then quarantine ''invalid_mapper_output'' ''rows'' SourceValue
             else if \<not> list_all (row_traced sha r fingerprint (bo_binding b) (oc_catalog o')) rows
             then quarantine ''invalid_mapper_output'' ''row'' SourceValue
             else Inr rows)"

definition normalize_record :: "(bytes \<Rightarrow> hash) \<Rightarrow> json_lib \<Rightarrow> orchestrator \<Rightarrow> raw_record \<Rightarrow> schema_quarantine + row list" where
  "normalize_record sha jl o' r =
     (let catalogID = cv_id (oc_catalog o') in
      case selectBinding o' r of
        None \<Rightarrow> Inl (newQuarantine sha r zero_binding zero_hash FingerprintUnknown ''mapper_binding_unavailable'' ''mapper_binding''
          SourceMissing catalogID)
      | Some b \<Rightarrow>
          (case StructuralFingerprint sha jl (e_payload (rr_envelope r)) of
             None \<Rightarrow> Inl (newQuarantine sha r (bo_binding b) zero_hash FingerprintUnknown ''schema_malformed'' ''payload'' SourceValue catalogID)
           | Some fingerprint \<Rightarrow>
               (case findFingerprintRule (mb_rules (bo_binding b)) fingerprint of
                  None \<Rightarrow> Inl (newQuarantine sha r (bo_binding b) fingerprint FingerprintUnknown ''schema_unknown'' ''payload'' SourceValue catalogID)
                | Some rule \<Rightarrow>
                    if fr_class rule = FingerprintExact \<or> fr_class rule = FingerprintAdditiveHarmless then map_rows sha o' r b fingerprint rule
                    else Inl (newQuarantine sha r (bo_binding b) fingerprint (fr_class rule)
                      (if fr_class rule = FingerprintSemanticAdditive then ''schema_semantic_change''
                       else if fr_class rule = FingerprintTypeOrMeaningChange then ''schema_type_or_meaning_change''
                       else ''schema_unknown'') ''payload'' SourceValue catalogID))))"

record batch =
  bt_rows :: "row list"
  bt_quarantines :: "schema_quarantine list"

definition streamOrderKey :: "raw_record \<Rightarrow> string \<times> string \<times> bytes" where
  "streamOrderKey r = (rc_source (rr_coordinate r), rc_epoch_kind (rr_coordinate r), rc_epoch_id (rr_coordinate r))"

definition add_outcome :: "schema_quarantine + row list \<Rightarrow> batch \<Rightarrow> batch" where
  "add_outcome out b =
     (case out of Inl q \<Rightarrow> b\<lparr>bt_quarantines := bt_quarantines b @ [q]\<rparr> | Inr rows \<Rightarrow> b\<lparr>bt_rows := bt_rows b @ rows\<rparr>)"

fun normalize_loop :: "(bytes \<Rightarrow> hash) \<Rightarrow> json_lib \<Rightarrow> orchestrator \<Rightarrow> ((string \<times> string \<times> bytes) \<times> u64) list \<Rightarrow> batch \<Rightarrow> raw_record list \<Rightarrow>
    normalize_error + batch" where
  "normalize_loop sha jl o' seen b [] = Inr b"
| "normalize_loop sha jl o' seen b (r # rs) =
     (if \<not> RawRecord_Validate sha r then Inl ErrNormalizationBoundary
      else (let key = streamOrderKey r; current = rc_arrival (rr_coordinate r) in
        if (\<exists>previous \<in> set_option (go_get seen key). current \<le> previous) then Inl ErrNormalizationBoundary
        else normalize_loop sha jl o' (go_put key current seen) (add_outcome (normalize_record sha jl o' r) b) rs))"

definition Normalize_batch :: "(bytes \<Rightarrow> hash) \<Rightarrow> json_lib \<Rightarrow> orchestrator \<Rightarrow> raw_record list \<Rightarrow> normalize_error + batch" where
  "Normalize_batch sha jl o' records =
     (if length records > MaxNormalizationBatch then Inl ErrNormalizationBoundary
      else normalize_loop sha jl o' [] \<lparr>bt_rows = [], bt_quarantines = []\<rparr> records)"

subsection \<open>Binary search\<close>

lemma bsearch_spec:
  assumes "\<And>a b. a \<le> b \<Longrightarrow> b < length xs \<Longrightarrow> cmp (xs ! b) < 0 \<Longrightarrow> cmp (xs ! a) < 0"
    and "i \<le> j" "j \<le> length xs" "\<forall>k < i. cmp (xs ! k) < 0" "\<forall>k. j \<le> k \<and> k < length xs \<longrightarrow> \<not> cmp (xs ! k) < 0"
  shows "bsearch cmp xs i j \<le> length xs \<and> (\<forall>k < bsearch cmp xs i j. cmp (xs ! k) < 0) \<and>
    (\<forall>k. bsearch cmp xs i j \<le> k \<and> k < length xs \<longrightarrow> \<not> cmp (xs ! k) < 0)"
  using assms
proof (induction cmp xs i j rule: bsearch.induct)
  case (1 cmp xs i j)
  note mono = "1.prems"(1) and bounds = "1.prems"(2,3) and lower = "1.prems"(4) and upper = "1.prems"(5)
  show ?case
  proof (cases "i < j")
    case True
    define h where "h = (i + j) div 2"
    have h: "i \<le> h" "h < j" using True by (auto simp: h_def)
    show ?thesis
    proof (cases "cmp (xs ! h) < 0")
      case neg: True
      have below: "\<forall>k < h + 1. cmp (xs ! k) < 0" using neg h bounds mono [of _ h] by (auto simp: less_Suc_eq_le)
      have "bsearch cmp xs i j = bsearch cmp xs (h + 1) j" using True neg by (simp add: bsearch.simps [of cmp xs i j] h_def)
      then show ?thesis using "1.IH"(1) [OF True h_def neg mono _ bounds(2) below upper] h by simp
    next
      case pos: False
      have above: "\<forall>k. h \<le> k \<and> k < length xs \<longrightarrow> \<not> cmp (xs ! k) < 0" using pos mono by blast
      have "bsearch cmp xs i j = bsearch cmp xs i h" using True pos by (simp add: bsearch.simps [of cmp xs i j] h_def)
      then show ?thesis using "1.IH"(2) [OF True h_def pos mono h(1) _ lower above] h bounds by simp
    qed
  next
    case False
    then have "bsearch cmp xs i j = i" by (simp add: bsearch.simps [of cmp xs i j])
    then show ?thesis using False bounds lower upper by simp
  qed
qed

lemma adjacent_distinct_sorted:
  assumes "adjacent_distinct rules" "sorted (map fr_fingerprint rules)"
  shows "distinct (map fr_fingerprint rules)"
  using assms
proof (induction rules rule: adjacent_distinct.induct)
  case (1 a b rest)
  have "fr_fingerprint a < fr_fingerprint b" using "1.prems" by (auto simp: order.strict_iff_order)
  moreover have "\<forall>c \<in> set rest. fr_fingerprint b \<le> fr_fingerprint c" using "1.prems"(2) by simp
  ultimately have "fr_fingerprint a \<notin> fr_fingerprint ` set (b # rest)" by fastforce
  moreover have "distinct (map fr_fingerprint (b # rest))" using "1.IH" "1.prems" by simp
  ultimately show ?case by simp
qed simp_all

lemma findFingerprintRule_iff:
  assumes "sorted (map fr_fingerprint rules)" "distinct (map fr_fingerprint rules)"
  shows "findFingerprintRule rules fp = Some rule \<longleftrightarrow> rule \<in> set rules \<and> fr_fingerprint rule = fp"
proof -
  define cmp :: "fingerprint_rule \<Rightarrow> int" where "cmp = (\<lambda>r. compare_then (fr_fingerprint r) fp 0)"
  define p where "p = bsearch cmp rules 0 (length rules)"
  have neg: "cmp r < 0 \<longleftrightarrow> fr_fingerprint r < fp" and zero: "cmp r = 0 \<longleftrightarrow> fr_fingerprint r = fp" for r
    by (simp_all add: cmp_def compare_then_le)
  have mono: "cmp (rules ! a) < 0" if "a \<le> b" "b < length rules" "cmp (rules ! b) < 0" for a b
    using that sorted_nth_mono [OF assms(1), of a b] unfolding neg by simp
  have spec: "p \<le> length rules \<and> (\<forall>k < p. cmp (rules ! k) < 0) \<and> (\<forall>k. p \<le> k \<and> k < length rules \<longrightarrow> \<not> cmp (rules ! k) < 0)"
    unfolding p_def by (rule bsearch_spec) (use mono in auto)
  have ps: "\<forall>k < p. fr_fingerprint (rules ! k) < fp" "\<forall>k. p \<le> k \<and> k < length rules \<longrightarrow> \<not> fr_fingerprint (rules ! k) < fp"
    using spec unfolding neg by blast+
  have "p = k" if k: "k < length rules" "fr_fingerprint (rules ! k) = fp" for k
  proof -
    have "p \<le> k" using ps(1) k by (meson not_le order.irrefl)
    moreover have "\<not> p < k"
    proof
      assume "p < k"
      then have "fr_fingerprint (rules ! p) < fp"
        using k sorted_nth_mono [OF assms(1), of p k] nth_eq_iff_index_eq [OF assms(2), of p k] by (simp add: order.strict_iff_order)
      then show False using ps(2) \<open>p < k\<close> k(1) by simp
    qed
    ultimately show ?thesis by simp
  qed
  then show ?thesis by (auto simp: findFingerprintRule_def Let_def zero in_set_conv_nth simp flip: cmp_def p_def split: if_splits)
qed

lemma canonicalBinding_rules:
  assumes "canonicalBinding sha b m view = Some b'"
  shows "sorted (map fr_fingerprint (mb_rules b'))" "distinct (map fr_fingerprint (mb_rules b'))"
proof -
  obtain rules where r: "mb_rules b' = SortFunc compare_rules rules" "adjacent_distinct (mb_rules b')"
    using assms by (auto simp: canonicalBinding_def Let_def split: if_splits option.splits)
  have "SortFunc compare_rules rules = sort_key fr_fingerprint rules"
    by (rule SortFunc_key) (auto simp: compare_rules_def compare_then_le)
  then show "sorted (map fr_fingerprint (mb_rules b'))" using r(1) by simp
  then show "distinct (map fr_fingerprint (mb_rules b'))" by (rule adjacent_distinct_sorted [OF r(2)])
qed

subsection \<open>At most one binding covers a record\<close>

definition binding_key :: "bound_mapper \<Rightarrow> string \<times> string \<times> i64 \<times> hash" where
  "binding_key b = (mb_source (bo_binding b), mb_channel (bo_binding b), mb_from (bo_binding b), mb_id (bo_binding b))"

lemma compareBoundMapper_key: "compareBoundMapper a b \<le> 0 \<longleftrightarrow> binding_key a \<le> binding_key b"
  by (auto simp: compareBoundMapper_def compare_then_le binding_key_def less_eq_prod_def)

definition same_stream :: "bound_mapper \<Rightarrow> bound_mapper \<Rightarrow> bool" where
  "same_stream a b \<longleftrightarrow> mb_source (bo_binding a) = mb_source (bo_binding b) \<and> mb_channel (bo_binding a) = mb_channel (bo_binding b)"

lemma overlap_free_apart:
  "overlap_free bs \<Longrightarrow> sorted (map binding_key bs) \<Longrightarrow>
     sorted_wrt (\<lambda>a b. same_stream a b \<longrightarrow> effective_end (bo_binding a) \<le> mb_from (bo_binding b)) bs"
proof (induction bs rule: overlap_free.induct)
  case (1 a b rest)
  have IH: "sorted_wrt (\<lambda>a b. same_stream a b \<longrightarrow> effective_end (bo_binding a) \<le> mb_from (bo_binding b)) (b # rest)"
    using "1.IH" "1.prems" by simp
  have "effective_end (bo_binding a) \<le> mb_from (bo_binding c)" if "same_stream a c" "c \<in> set (b # rest)" for c
  proof -
    have le: "binding_key a \<le> binding_key b" "binding_key b \<le> binding_key c" using "1.prems"(2) that(2) by auto
    then have ab: "same_stream a b" "mb_from (bo_binding b) \<le> mb_from (bo_binding c)"
      using that(1) by (auto simp: same_stream_def binding_key_def less_eq_prod_def)
    then show ?thesis using "1.prems"(1) by (auto simp: same_stream_def)
  qed
  then show ?case using IH by simp
qed simp_all

lemma canonical_bindings_from:
  "canonical_bindings sha view cs = Some bs \<Longrightarrow> b \<in> set bs \<Longrightarrow>
     \<exists>c \<in> set cs. canonicalBinding sha (bo_binding c) (bo_mapper c) view = Some (bo_binding b)"
  by (induction cs arbitrary: bs) (auto split: option.splits)

lemma NewOrchestrator_bindings:
  assumes "NewOrchestrator sha decode snapshot bound = Inr o'"
  shows "sorted_wrt (\<lambda>a b. same_stream a b \<longrightarrow> effective_end (bo_binding a) \<le> mb_from (bo_binding b)) (oc_bindings o')"
    and "b \<in> set (oc_bindings o') \<Longrightarrow> \<exists>c \<in> set bound. \<exists>view. canonicalBinding sha (bo_binding c) (bo_mapper c) view = Some (bo_binding b)"
proof -
  obtain view bs where bs: "canonical_bindings sha view bound = Some bs" "oc_bindings o' = SortFunc compareBoundMapper bs"
    "overlap_free (oc_bindings o')"
    using assms by (auto simp: NewOrchestrator_def Let_def split: if_splits option.splits)
  have key: "oc_bindings o' = sort_key binding_key bs" unfolding bs(2) by (rule SortFunc_key) (rule compareBoundMapper_key)
  then show "sorted_wrt (\<lambda>a b. same_stream a b \<longrightarrow> effective_end (bo_binding a) \<le> mb_from (bo_binding b)) (oc_bindings o')"
    using bs(3) by (intro overlap_free_apart) simp_all
  show "b \<in> set (oc_bindings o') \<Longrightarrow> \<exists>c \<in> set bound. \<exists>view. canonicalBinding sha (bo_binding c) (bo_mapper c) view = Some (bo_binding b)"
    using key canonical_bindings_from [OF bs(1), of b] by (metis set_sort)
qed

lemma covers_apart:
  assumes "binding_covers (bo_binding a) r" "binding_covers (bo_binding b) r" "e_received (rr_envelope r) < 2 ^ 63 - 1"
  shows "\<not> (same_stream a b \<longrightarrow> effective_end (bo_binding a) \<le> mb_from (bo_binding b))"
  using assms by (auto simp: binding_covers_def same_stream_def effective_end_def)

lemma one_covers:
  assumes "sorted_wrt (\<lambda>a b. same_stream a b \<longrightarrow> effective_end (bo_binding a) \<le> mb_from (bo_binding b)) bs"
    and "b \<in> set bs" "binding_covers (bo_binding b) r" "e_received (rr_envelope r) < 2 ^ 63 - 1"
  shows "filter (\<lambda>c. binding_covers (bo_binding c) r) bs = [b]"
  using assms(1,2)
proof (induction bs)
  case (Cons a bs)
  show ?case
  proof (cases "binding_covers (bo_binding a) r")
    case True
    then have none: "\<not> binding_covers (bo_binding c) r" if "c \<in> set bs" for c
      using Cons.prems(1) that covers_apart [OF True _ assms(4)] by auto
    then have "b = a" using Cons.prems(2) assms(3) by auto
    with True none show ?thesis by (simp add: filter_empty_conv)
  qed (use Cons assms(3) in auto)
qed simp

lemma find_as_filter: "List.find P xs = (case filter P xs of [] \<Rightarrow> None | x # _ \<Rightarrow> Some x)"
  by (induction xs) auto

text \<open>
  C38. Which mapper a record gets does not depend on the order of the bindings.  In an
  orchestrator that was accepted, a binding that covers a record (source, channel and
  time of receipt before the last nanosecond of the 64-bit range) is the only one in the
  list that does and is the one selected, and binary search in its rules finds exactly
  the rule of a fingerprint.
\<close>

theorem binding_unique:
  assumes "NewOrchestrator sha decode snapshot bound = Inr o'" "b \<in> set (oc_bindings o')" "binding_covers (bo_binding b) r"
    and "e_received (rr_envelope r) < 2 ^ 63 - 1"
  shows "filter (\<lambda>c. binding_covers (bo_binding c) r) (oc_bindings o') = [b] \<and> selectBinding o' r = Some b \<and>
    (findFingerprintRule (mb_rules (bo_binding b)) fp = Some rule) = (rule \<in> set (mb_rules (bo_binding b)) \<and> fr_fingerprint rule = fp)"
proof -
  have one: "filter (\<lambda>c. binding_covers (bo_binding c) r) (oc_bindings o') = [b]"
    by (rule one_covers [OF NewOrchestrator_bindings(1) [OF assms(1)] assms(2-4)])
  obtain c :: bound_mapper and view where "canonicalBinding sha (bo_binding c) (bo_mapper c) view = Some (bo_binding b)"
    using NewOrchestrator_bindings(2) [OF assms(1,2)] by blast
  then show ?thesis
    using one canonicalBinding_rules findFingerprintRule_iff by (simp add: selectBinding_def find_as_filter)
qed

definition sample_catalog :: catalog_snapshot where
  "sample_catalog = \<lparr>cs_version = 1, cs_sha = zero_hash, cs_bytes = [1], cs_count = 0\<rparr>"

definition sample_document :: mapper_catalog_document where
  "sample_document = \<lparr>mc_version = 1, mc_source = ''s'', mc_instruments = []\<rparr>"

definition sample_rule :: fingerprint_rule where
  "sample_rule = \<lparr>fr_fingerprint = replicate 32 9, fr_class = FingerprintExact, fr_allowed = []\<rparr>"

definition sample_bound :: "i64 \<Rightarrow> opt_i64 \<Rightarrow> bound_mapper" where
  "sample_bound from until = \<lparr>bo_binding = \<lparr>mb_version = 1, mb_id = zero_hash, mb_source = ''s'', mb_channel = ''c'', mb_from = from,
     mb_until = until, mb_mapper = ''m'', mb_resolution = ''second'', mb_catalog = zero_hash, mb_rules = [sample_rule]\<rparr>,
     bo_mapper = Some \<lparr>mp_version = ''m'', mp_map = (\<lambda>_. Inl OtherMapError)\<rparr>\<rparr>"

definition sample_bindings :: "bound_mapper list" where
  "sample_bindings = [sample_bound 0 \<lparr>oi_value = 3, oi_valid = True\<rparr>, sample_bound 3 \<lparr>oi_value = 0, oi_valid = False\<rparr>]"

definition sample_orchestrator :: orchestrator where
  "sample_orchestrator = \<lparr>oc_catalog = \<lparr>cv_version = 1, cv_id = zero_hash, cv_source = ''s'', cv_instruments = []\<rparr>, oc_bindings = sample_bindings\<rparr>"

definition sample_raw :: raw_record where
  "sample_raw = \<lparr>rr_envelope = sample_v1, rr_coordinate = \<lparr>rc_source = ''s'', rc_channel = ''c'', rc_epoch_kind = ConnectionEpoch,
     rc_epoch_id = replicate 16 1, rc_arrival = 1, rc_message = 0, rc_segment = replicate 32 1, rc_record = 0, rc_payload = zero_hash\<rparr>,
     rr_flags = []\<rparr>"

lemma sample_canonical:
  assumes "from \<ge> 0" "oi_valid until \<Longrightarrow> from < oi_value until"
  shows "canonicalBinding sha_zero (bo_binding (sample_bound from until)) (bo_mapper (sample_bound from until)) (oc_catalog sample_orchestrator) =
    Some (bo_binding (sample_bound from until))"
proof -
  have "canonical_rule sample_rule = Some sample_rule"
    by (simp add: canonical_rule_def sample_rule_def validFingerprintClass_def MaxAllowedUnknownFields_def)
  moreover have "validTimeResolution ''second''" "''second'' \<noteq> ResolutionAbsent" by (simp_all add: validTimeResolution_def ResolutionAbsent_def)
  ultimately show ?thesis
    using assms
    by (auto simp: canonicalBinding_def sample_bound_def sample_orchestrator_def MapperBindingVersion_def MaxMapperVersionBytes_def
        MaxFingerprintRules_def SortFunc_def bindingHash_def sha_zero_def Let_def)
qed

lemma sample_orchestrator_new: "NewOrchestrator sha_zero (\<lambda>_. Some sample_document) sample_catalog sample_bindings = Inr sample_orchestrator"
proof -
  have "NewCatalogView sha_zero (\<lambda>_. Some sample_document) sample_catalog = Some (oc_catalog sample_orchestrator)"
    by (simp add: NewCatalogView_def sample_catalog_def sample_document_def sample_orchestrator_def SnapshotVersion_def sha_zero_def
        MaxCatalogJSONBytes_def MaxCatalogInstruments_def)
  moreover have "canonical_bindings sha_zero (oc_catalog sample_orchestrator) sample_bindings = Some sample_bindings"
    using sample_canonical [of 0 "\<lparr>oi_value = 3, oi_valid = True\<rparr>"] sample_canonical [of 3 "\<lparr>oi_value = 0, oi_valid = False\<rparr>"]
    by (simp add: sample_bindings_def)
  moreover have "SortFunc compareBoundMapper sample_bindings = sample_bindings" "overlap_free sample_bindings"
    by (simp_all add: SortFunc_def sample_bindings_def sample_bound_def compareBoundMapper_def compare_then_def effective_end_def)
  moreover have "oc_bindings sample_orchestrator = sample_bindings" "length sample_bindings = 2"
    by (simp_all add: sample_orchestrator_def sample_bindings_def)
  ultimately show ?thesis by (simp add: NewOrchestrator_def MaxMapperBindings_def)
qed

theorem binding_unique_witness:
  "selectBinding sample_orchestrator sample_raw = Some (sample_bound 3 \<lparr>oi_value = 0, oi_valid = False\<rparr>) \<and>
   findFingerprintRule [sample_rule] (replicate 32 9) = Some sample_rule"
proof -
  let ?b = "sample_bound 3 \<lparr>oi_value = 0, oi_valid = False\<rparr>"
  have "?b \<in> set (oc_bindings sample_orchestrator)" by (simp add: sample_orchestrator_def sample_bindings_def)
  moreover have "binding_covers (bo_binding ?b) sample_raw" "e_received (rr_envelope sample_raw) < 2 ^ 63 - 1"
    by (simp_all add: binding_covers_def sample_bound_def sample_raw_def sample_v1_defs)
  ultimately have "filter (\<lambda>c. binding_covers (bo_binding c) sample_raw) (oc_bindings sample_orchestrator) = [?b] \<and>
      selectBinding sample_orchestrator sample_raw = Some ?b \<and>
      (findFingerprintRule (mb_rules (bo_binding ?b)) (replicate 32 9) = Some sample_rule) =
        (sample_rule \<in> set (mb_rules (bo_binding ?b)) \<and> fr_fingerprint sample_rule = replicate 32 9)"
    by (rule binding_unique [OF sample_orchestrator_new])
  then show ?thesis by (simp add: sample_bound_def sample_rule_def)
qed

subsection \<open>A batch accounts for every record\<close>

definition arrives_after :: "raw_record \<Rightarrow> raw_record \<Rightarrow> bool" where
  "arrives_after a b \<longleftrightarrow> (streamOrderKey a = streamOrderKey b \<longrightarrow> rc_arrival (rr_coordinate a) < rc_arrival (rr_coordinate b))"

definition admissible_records :: "(bytes \<Rightarrow> hash) \<Rightarrow> raw_record list \<Rightarrow> bool" where
  "admissible_records sha rs \<longleftrightarrow>
     length rs \<le> MaxNormalizationBatch \<and> list_all (RawRecord_Validate sha) rs \<and> sorted_wrt arrives_after rs"

definition fresh :: "((string \<times> string \<times> bytes) \<times> u64) list \<Rightarrow> raw_record \<Rightarrow> bool" where
  "fresh seen r \<longleftrightarrow> (\<forall>p. go_get seen (streamOrderKey r) = Some p \<longrightarrow> p < rc_arrival (rr_coordinate r))"

lemma fresh_put:
  "fresh seen r \<Longrightarrow> fresh (go_put (streamOrderKey r) (rc_arrival (rr_coordinate r)) seen) x \<longleftrightarrow> arrives_after r x \<and> fresh seen x"
  by (auto simp: fresh_def arrives_after_def dest: order.strict_trans)

lemma normalize_loop_cases:
  "normalize_loop sha jl o' seen b rs =
     (if list_all (RawRecord_Validate sha) rs \<and> sorted_wrt arrives_after rs \<and> list_all (fresh seen) rs
      then Inr (fold (\<lambda>r. add_outcome (normalize_record sha jl o' r)) rs b) else Inl ErrNormalizationBoundary)"
proof (induction rs arbitrary: seen b)
  case (Cons r rs)
  have f: "(\<exists>previous \<in> set_option (go_get seen (streamOrderKey r)). rc_arrival (rr_coordinate r) \<le> previous) \<longleftrightarrow> \<not> fresh seen r"
    by (auto simp: fresh_def not_le)
  have "list_all (fresh (go_put (streamOrderKey r) (rc_arrival (rr_coordinate r)) seen)) rs \<longleftrightarrow>
      (\<forall>x \<in> set rs. arrives_after r x) \<and> list_all (fresh seen) rs" if "fresh seen r"
    using fresh_put [OF that] by (auto simp: list_all_iff)
  then show ?case by (auto simp: Cons.IH f Let_def)
qed simp

definition out_rows :: "schema_quarantine + row list \<Rightarrow> row list" where
  "out_rows out = (case out of Inl q \<Rightarrow> [] | Inr rows \<Rightarrow> rows)"

definition out_quarantines :: "schema_quarantine + row list \<Rightarrow> schema_quarantine list" where
  "out_quarantines out = (case out of Inl q \<Rightarrow> [q] | Inr rows \<Rightarrow> [])"

lemma fold_outcomes:
  "fold (\<lambda>r. add_outcome (f r)) rs b =
     \<lparr>bt_rows = bt_rows b @ concat (map (\<lambda>r. out_rows (f r)) rs), bt_quarantines = bt_quarantines b @ concat (map (\<lambda>r. out_quarantines (f r)) rs)\<rparr>"
  by (induction rs arbitrary: b) (auto simp: add_outcome_def out_rows_def out_quarantines_def split: sum.splits)

text \<open>
  A row names the record it comes from, in every part of its coordinate but the epoch kind:
  \<open>orchestrator.go\<close> does not compare that, so the row's own is put into the record's coordinate.
  A quarantine carries the whole coordinate of the record under its own hash.
\<close>

definition row_of :: "(bytes \<Rightarrow> hash) \<Rightarrow> orchestrator \<Rightarrow> raw_record \<Rightarrow> row \<Rightarrow> bool" where
  "row_of sha o' r row \<longleftrightarrow> Row_Validate sha row \<and> fst (event_identity (Common row)) = (rr_coordinate r)\<lparr>rc_epoch_kind := md_epoch_kind (Common row)\<rparr> \<and>
     md_catalog (Common row) = cv_id (oc_catalog o') \<and>
     (\<exists>b. selectBinding o' r = Some b \<and> md_binding (Common row) = mb_id (bo_binding b) \<and> md_mapper_version (Common row) = mb_mapper (bo_binding b))"

definition quarantine_of :: "(bytes \<Rightarrow> hash) \<Rightarrow> orchestrator \<Rightarrow> raw_record \<Rightarrow> schema_quarantine \<Rightarrow> bool" where
  "quarantine_of sha o' r q \<longleftrightarrow> sq_coordinate q = rr_coordinate r \<and> sq_received q = e_received (rr_envelope r) \<and>
     sq_catalog q = cv_id (oc_catalog o') \<and> sq_id q = sha (quarantine_bytes q)"

definition accounted :: "(bytes \<Rightarrow> hash) \<Rightarrow> orchestrator \<Rightarrow> raw_record \<Rightarrow> row list \<Rightarrow> schema_quarantine list \<Rightarrow> bool" where
  "accounted sha o' r rows qs \<longleftrightarrow>
     qs = [] \<and> 1 \<le> length rows \<and> length rows \<le> 4 \<and> list_all (row_of sha o' r) rows \<or>
     rows = [] \<and> length qs = 1 \<and> list_all (quarantine_of sha o' r) qs"

lemma newQuarantine_of:
  "quarantine_of sha o' r (newQuarantine sha r b fp cls code field state (cv_id (oc_catalog o')))"
  by (simp add: newQuarantine_def quarantine_of_def quarantine_bytes_def Let_def)

lemma row_traced_of:
  "row_traced sha r fp (bo_binding b) (oc_catalog o') row \<Longrightarrow> selectBinding o' r = Some b \<Longrightarrow> row_of sha o' r row"
  by (auto simp: row_traced_def row_of_def event_identity_def Let_def)

lemma record_accounted:
  "accounted sha o' r (out_rows (normalize_record sha jl o' r)) (out_quarantines (normalize_record sha jl o' r))"
proof (cases "normalize_record sha jl o' r")
  case (Inl q)
  then have "quarantine_of sha o' r q"
    by (auto simp: normalize_record_def map_rows_def Let_def newQuarantine_of split: option.splits if_splits sum.splits map_error.splits)
  with Inl show ?thesis by (simp add: accounted_def out_rows_def out_quarantines_def)
next
  case (Inr rows)
  then obtain b fp where "selectBinding o' r = Some b" "rows \<noteq> []" "length rows \<le> 4" "list_all (row_traced sha r fp (bo_binding b) (oc_catalog o')) rows"
    by (auto simp: normalize_record_def map_rows_def Let_def split: option.splits if_splits sum.splits map_error.splits)
  with Inr show ?thesis
    by (auto simp: accounted_def out_rows_def out_quarantines_def list_all_iff Suc_le_eq intro: row_traced_of)
qed

text \<open>
  C6. Normalization loses no record and invents none.  A batch is refused exactly when it is
  too long, holds an invalid record, or repeats or reverses arrival ordinals within a
  stream epoch, whatever the mappers do.  Otherwise its rows and quarantines are, record by
  record, one to four valid rows, or exactly one quarantine with the record's coordinate.
  A row names the catalog, the selected binding and the record's coordinate except its
  epoch kind, which the code does not compare: that one is the row's own.
\<close>

theorem normalize_accounts:
  "case Normalize_batch sha jl o' records of
     Inl err \<Rightarrow> err = ErrNormalizationBoundary \<and> \<not> admissible_records sha records
   | Inr batch \<Rightarrow> admissible_records sha records \<and>
       (\<exists>rows qs. list_all2 (\<lambda>r (row, q). accounted sha o' r row q) records (zip rows qs) \<and> length rows = length qs \<and>
          bt_rows batch = concat rows \<and> bt_quarantines batch = concat qs)"
proof -
  let ?out = "normalize_record sha jl o'"
  have "list_all2 (\<lambda>r (row, q). accounted sha o' r row q) records
      (zip (map (\<lambda>r. out_rows (?out r)) records) (map (\<lambda>r. out_quarantines (?out r)) records))"
    by (simp add: list_all2_conv_all_nth record_accounted)
  moreover have "list_all (fresh []) records" by (simp add: fresh_def list_all_iff)
  ultimately show ?thesis
    by (auto simp: Normalize_batch_def normalize_loop_cases admissible_records_def fold_outcomes
        intro!: exI [of _ "map (\<lambda>r. out_rows (?out r)) records"] exI [of _ "map (\<lambda>r. out_quarantines (?out r)) records"])
qed

end
