(* ===== verification/Ticker.thy ===== *)
theory Ticker
  imports Derivative
begin

text \<open>
  An abstract derivative ticker, and that the validation of \<open>src/normalize/derivative.go\<close>
  accepts exactly its representations.  The Go structs write a tagged value
  as a state text beside fields that must be zero in some states; here the ticker is a
  datatype in which absent data has no place to be.  The encoding maps it to the
  records of \<open>Derivative\<close>, and a notion of representation that is closed under
  products, lists and fields with a source state carries the proof from the parts to the
  ticker.
\<close>

subsection \<open>Representations\<close>

text \<open>The valid concrete values are the encodings of the abstract ones, each of exactly one.\<close>

definition represents :: "('a \<Rightarrow> bool) \<Rightarrow> ('a \<Rightarrow> 'c) \<Rightarrow> ('c \<Rightarrow> bool) \<Rightarrow> bool" where
  "represents ok enc valid \<longleftrightarrow> (\<forall>c. valid c \<longleftrightarrow> (\<exists>a. ok a \<and> enc a = c)) \<and> (\<forall>a a'. ok a \<longrightarrow> ok a' \<longrightarrow> enc a = enc a' \<longrightarrow> a = a')"

lemma representsI:
  assumes "\<And>a. ok a \<Longrightarrow> valid (enc a)" "\<And>c. valid c \<Longrightarrow> \<exists>a. ok a \<and> enc a = c"
    and "\<And>a a'. ok a \<Longrightarrow> ok a' \<Longrightarrow> enc a = enc a' \<Longrightarrow> a = a'"
  shows "represents ok enc valid"
  using assms unfolding represents_def by metis

lemma represents_valid: "represents ok enc valid \<Longrightarrow> ok a \<Longrightarrow> valid (enc a)"
  unfolding represents_def by blast

lemma represents_obtain:
  assumes "represents ok enc valid" "valid c"
  obtains a where "ok a" "enc a = c"
  using assms unfolding represents_def by blast

lemma represents_inj: "represents ok enc valid \<Longrightarrow> ok a \<Longrightarrow> ok a' \<Longrightarrow> enc a = enc a' \<Longrightarrow> a = a'"
  unfolding represents_def by blast

lemma represents_unique: "represents ok enc valid \<Longrightarrow> valid c \<longleftrightarrow> (\<exists>!a. ok a \<and> enc a = c)"
  unfolding represents_def by blast

lemma represents_pair:
  assumes "represents ok1 enc1 valid1" "represents ok2 enc2 valid2"
  shows "represents (\<lambda>(a, b). ok1 a \<and> ok2 b) (\<lambda>(a, b). (enc1 a, enc2 b)) (\<lambda>(c, d). valid1 c \<and> valid2 d)"
proof (rule representsI)
  show "\<exists>a. (case a of (a, b) \<Rightarrow> ok1 a \<and> ok2 b) \<and> (case a of (a, b) \<Rightarrow> (enc1 a, enc2 b)) = c"
    if "case c of (c, d) \<Rightarrow> valid1 c \<and> valid2 d" for c
    using that assms unfolding represents_def by fastforce
qed (use assms in \<open>auto simp: represents_valid dest: represents_inj\<close>)

lemma represents_list:
  assumes "represents ok enc valid"
  shows "represents (list_all ok) (map enc) (list_all valid)"
proof (rule representsI)
  show "\<exists>as. list_all ok as \<and> map enc as = cs" if "list_all valid cs" for cs
    using that
  proof (induction cs)
    case (Cons c cs)
    obtain a where "ok a" "enc a = c" using represents_obtain [OF assms, of c] Cons.prems by auto
    moreover obtain as where "list_all ok as" "map enc as = cs" using Cons by auto
    ultimately show ?case by (intro exI [of _ "a # as"]) simp
  qed simp
  show "as = bs" if "list_all ok as" "list_all ok bs" "map enc as = map enc bs" for as bs
    using that
  proof (induction as arbitrary: bs)
    case (Cons a as)
    then show ?case using represents_inj [OF assms] by (cases bs) auto
  qed simp
qed (use assms in \<open>auto simp: list_all_iff represents_valid\<close>)

text \<open>A condition on both sides, and a change of the concrete type.\<close>

lemma represents_where:
  assumes "represents ok enc valid" "\<And>a. ok a \<Longrightarrow> P a \<longleftrightarrow> Q (enc a)"
  shows "represents (\<lambda>a. ok a \<and> P a) enc (\<lambda>c. valid c \<and> Q c)"
proof (rule representsI)
  show "\<exists>a. (ok a \<and> P a) \<and> enc a = c" if "valid c \<and> Q c" for c
    using that assms(2) represents_obtain [OF assms(1), of c] by metis
qed (use assms in \<open>auto simp: represents_valid dest: represents_inj\<close>)

lemma represents_via:
  assumes "represents ok enc valid" "\<And>c. f (g c) = c" "\<And>x. g (f x) = x" "\<And>c. valid' c \<longleftrightarrow> valid (g c)"
  shows "represents ok (\<lambda>a. f (enc a)) valid'"
proof (rule representsI)
  show "valid' (f (enc a))" if "ok a" for a using that assms by (simp add: represents_valid)
  show "\<exists>a. ok a \<and> f (enc a) = c" if "valid' c" for c
    using that assms represents_obtain [OF assms(1), of "g c"] by metis
  show "a = a'" if "ok a" "ok a'" "f (enc a) = f (enc a')" for a a'
    using represents_inj [OF assms(1) that(1,2)] that(3) assms(3) by metis
qed

subsection \<open>Numbers and units\<close>

text \<open>An integer and the power of ten that scales it down.\<close>

type_synonym number = "int \<times> u8"

fun number_ok :: "number \<Rightarrow> bool" where
  "number_ok (z, scale) \<longleftrightarrow> \<bar>z\<bar> < 10 ^ 38 \<and> scale \<le> 38"

fun number_enc :: "number \<Rightarrow> decimal" where
  "number_enc (z, scale) = \<lparr>coefficient = big_string z, dec_scale = scale\<rparr>"

lemma number_represents: "represents number_ok number_enc Decimal_Validate"
proof (rule representsI)
  show "Decimal_Validate (number_enc a)" if "number_ok a" for a
    using that by (cases a) (auto simp: Decimal_Validate_iff)
  show "\<exists>a. number_ok a \<and> number_enc a = d" if "Decimal_Validate d" for d
    using that by (cases d) (fastforce simp: Decimal_Validate_iff)
  show "a = a'" if "number_enc a = number_enc a'" for a a'
    using that by (cases a, cases a') (auto dest: arg_cong [of _ _ coef_int])
qed

definition name_ok :: "nat \<Rightarrow> string \<Rightarrow> bool" where
  "name_ok n s \<longleftrightarrow> s \<noteq> [] \<and> length s \<le> n \<and> \<not> has_nul s"

datatype measure_unit = BaseAmount string | QuoteAmount string | QuotePerBase string string | Percentage | PureRate | Volatility

fun unit_ok :: "measure_unit \<Rightarrow> bool" where
  "unit_ok (BaseAmount a) = name_ok 256 a"
| "unit_ok (QuoteAmount a) = name_ok 256 a"
| "unit_ok (QuotePerBase b q) = (name_ok 256 b \<and> name_ok 256 q \<and> b \<noteq> q)"
| "unit_ok _ = True"

fun unit_enc :: "measure_unit \<Rightarrow> nunit" where
  "unit_enc (BaseAmount a) = zero_unit\<lparr>u_kind := UnitBaseAssetAmount, u_asset := a\<rparr>"
| "unit_enc (QuoteAmount a) = zero_unit\<lparr>u_kind := UnitQuoteAssetAmount, u_asset := a\<rparr>"
| "unit_enc (QuotePerBase b q) = zero_unit\<lparr>u_kind := UnitQuotePerBase, u_base := b, u_quote := q\<rparr>"
| "unit_enc Percentage = zero_unit\<lparr>u_kind := UnitPercent\<rparr>"
| "unit_enc PureRate = zero_unit\<lparr>u_kind := UnitRate\<rparr>"
| "unit_enc Volatility = zero_unit\<lparr>u_kind := UnitImpliedVolatility\<rparr>"

lemmas unit_kinds = UnitBaseAssetAmount_def UnitQuoteAssetAmount_def UnitQuotePerBase_def UnitPercent_def UnitRate_def
  UnitImpliedVolatility_def

lemma unit_cover: "Unit_Validate u \<Longrightarrow> \<exists>x. unit_ok x \<and> unit_enc x = u"
proof (cases u)
  case (fields k a b q)
  assume "Unit_Validate u"
  then consider "unit_enc (BaseAmount a) = u \<and> unit_ok (BaseAmount a)" | "unit_enc (QuoteAmount a) = u \<and> unit_ok (QuoteAmount a)"
    | "unit_enc (QuotePerBase b q) = u \<and> unit_ok (QuotePerBase b q)" | "unit_enc Percentage = u" | "unit_enc PureRate = u"
    | "unit_enc Volatility = u"
    unfolding fields Unit_Validate_def by (auto simp: zero_unit_def name_ok_def MaxUnitIDBytes_def split: if_splits)
  then show ?thesis by cases (metis unit_ok.simps)+
qed

lemma unit_represents: "represents unit_ok unit_enc Unit_Validate"
proof (rule representsI)
  show "Unit_Validate (unit_enc x)" if "unit_ok x" for x
    using that by (cases x) (auto simp: Unit_Validate_def has_nul_def unit_kinds zero_unit_def name_ok_def MaxUnitIDBytes_def)
  show "\<exists>x. unit_ok x \<and> unit_enc x = u" if "Unit_Validate u" for u using that by (rule unit_cover)
  show "x = y" if "unit_enc x = unit_enc y" for x y
    using that by (cases x; cases y) (auto simp: unit_kinds zero_unit_def)
qed

datatype native_kind = NativeBase string | NativeQuote string | NativeContracts string | NativeUSD | NativeRate
  | NativeVolatility | NativeLabel string

fun native_ok :: "native_kind \<Rightarrow> bool" where
  "native_ok (NativeBase a) = name_ok 256 a"
| "native_ok (NativeQuote a) = name_ok 256 a"
| "native_ok (NativeContracts i) = name_ok 256 i"
| "native_ok (NativeLabel l) = name_ok 128 l"
| "native_ok _ = True"

fun native_enc :: "native_kind \<Rightarrow> native_unit" where
  "native_enc (NativeBase a) = zero_native_unit\<lparr>nu_kind := NativeUnitBaseAsset, nu_asset := a\<rparr>"
| "native_enc (NativeQuote a) = zero_native_unit\<lparr>nu_kind := NativeUnitQuoteAsset, nu_asset := a\<rparr>"
| "native_enc (NativeContracts i) = zero_native_unit\<lparr>nu_kind := NativeUnitContracts, nu_instrument := i\<rparr>"
| "native_enc NativeUSD = zero_native_unit\<lparr>nu_kind := NativeUnitUSD, nu_asset := ''USD''\<rparr>"
| "native_enc NativeRate = zero_native_unit\<lparr>nu_kind := NativeUnitRate\<rparr>"
| "native_enc NativeVolatility = zero_native_unit\<lparr>nu_kind := NativeUnitImpliedVolatility\<rparr>"
| "native_enc (NativeLabel l) = zero_native_unit\<lparr>nu_kind := NativeUnitVenueUnspecified, nu_label := l\<rparr>"

lemmas native_kinds = NativeUnitBaseAsset_def NativeUnitQuoteAsset_def NativeUnitContracts_def NativeUnitUSD_def
  NativeUnitRate_def NativeUnitImpliedVolatility_def NativeUnitVenueUnspecified_def

lemma native_cover: "NativeUnit_Validate u \<Longrightarrow> \<exists>x. native_ok x \<and> native_enc x = u"
proof (cases u)
  case (fields k a i l)
  assume "NativeUnit_Validate u"
  then consider "native_enc (NativeBase a) = u \<and> native_ok (NativeBase a)" | "native_enc (NativeQuote a) = u \<and> native_ok (NativeQuote a)"
    | "native_enc (NativeContracts i) = u \<and> native_ok (NativeContracts i)" | "native_enc NativeUSD = u" | "native_enc NativeRate = u"
    | "native_enc NativeVolatility = u" | "native_enc (NativeLabel l) = u \<and> native_ok (NativeLabel l)"
    unfolding fields NativeUnit_Validate_def
    by (auto simp: zero_native_unit_def name_ok_def MaxUnitIDBytes_def MaxNativeUnitLabelBytes_def split: if_splits)
  then show ?thesis by cases (metis native_ok.simps)+
qed

lemma native_represents: "represents native_ok native_enc NativeUnit_Validate"
proof (rule representsI)
  show "NativeUnit_Validate (native_enc x)" if "native_ok x" for x
    using that by (cases x) (auto simp: NativeUnit_Validate_def has_nul_def native_kinds zero_native_unit_def name_ok_def MaxUnitIDBytes_def
        MaxNativeUnitLabelBytes_def)
  show "\<exists>x. native_ok x \<and> native_enc x = u" if "NativeUnit_Validate u" for u using that by (rule native_cover)
  show "x = y" if "native_enc x = native_enc y" for x y
    using that by (cases x; cases y) (auto simp: native_kinds zero_native_unit_def)
qed

text \<open>A number in a unit, canonical or native.\<close>

definition measure_ok :: "number \<times> measure_unit \<Rightarrow> bool" where "measure_ok = (\<lambda>(x, u). number_ok x \<and> unit_ok u)"
definition measure_enc :: "number \<times> measure_unit \<Rightarrow> numeric" where
  "measure_enc = (\<lambda>(x, u). \<lparr>n_dec = number_enc x, n_unit = unit_enc u\<rparr>)"

definition native_value_ok :: "number \<times> native_kind \<Rightarrow> bool" where "native_value_ok = (\<lambda>(x, u). number_ok x \<and> native_ok u)"
definition native_value_enc :: "number \<times> native_kind \<Rightarrow> native_value" where
  "native_value_enc = (\<lambda>(x, u). \<lparr>nv_dec = number_enc x, nv_unit = native_enc u\<rparr>)"

lemma measure_represents: "represents measure_ok measure_enc Numeric_Validate"
  using represents_via [OF represents_pair [OF number_represents unit_represents],
      of "\<lambda>(d, u). \<lparr>n_dec = d, n_unit = u\<rparr>" "\<lambda>n. (n_dec n, n_unit n)" Numeric_Validate]
  by (simp add: measure_ok_def measure_enc_def Numeric_Validate_def case_prod_beta split_beta')

lemma native_value_represents: "represents native_value_ok native_value_enc NativeValue_Validate"
  using represents_via [OF represents_pair [OF number_represents native_represents],
      of "\<lambda>(d, u). \<lparr>nv_dec = d, nv_unit = u\<rparr>" "\<lambda>n. (nv_dec n, nv_unit n)" NativeValue_Validate]
  by (simp add: native_value_ok_def native_value_enc_def NativeValue_Validate_def case_prod_beta split_beta')

subsection \<open>Fields with a source state\<close>

datatype time_unit = Nanoseconds | Microseconds | Milliseconds | Seconds

fun time_unit_enc :: "time_unit \<Rightarrow> string" where
  "time_unit_enc Nanoseconds = ''nanosecond''"
| "time_unit_enc Microseconds = ''microsecond''"
| "time_unit_enc Milliseconds = ''millisecond''"
| "time_unit_enc Seconds = ''second''"

lemma time_unit_represents: "represents (\<lambda>_. True) time_unit_enc (\<lambda>r. r \<noteq> ResolutionAbsent \<and> validTimeResolution r)"
proof (rule representsI)
  show "time_unit_enc r \<noteq> ResolutionAbsent \<and> validTimeResolution (time_unit_enc r)" for r
    by (cases r) (simp_all add: ResolutionAbsent_def validTimeResolution_def)
  show "\<exists>x. True \<and> time_unit_enc x = r" if "r \<noteq> ResolutionAbsent \<and> validTimeResolution r" for r
    using that by (auto simp: validTimeResolution_def) (metis time_unit_enc.simps)+
  show "x = y" if "time_unit_enc x = time_unit_enc y" for x y
    using that by (cases x; cases y) simp_all
qed

text \<open>When the source sent a field: its time, the unit it was given in, and its age.\<close>

datatype observation = Observed i64 time_unit u64

fun observation_ok :: "observation \<Rightarrow> bool" where
  "observation_ok (Observed t r age) \<longleftrightarrow> 0 \<le> t"

fun observation_enc :: "observation \<Rightarrow> field_provenance" where
  "observation_enc (Observed t r age) = \<lparr>fp_time = \<lparr>oi_value = t, oi_valid = True\<rparr>, fp_resolution = time_unit_enc r,
     fp_age = \<lparr>ou_value = age, ou_valid = True\<rparr>\<rparr>"

lemma observation_represents: "represents observation_ok observation_enc (\<lambda>p. FieldProvenance_Validate p True)"
proof (rule representsI)
  show "FieldProvenance_Validate (observation_enc o') True" if "observation_ok o'" for o'
    using that represents_valid [OF time_unit_represents] by (cases o') (simp add: FieldProvenance_Validate_def)
  show "\<exists>o'. observation_ok o' \<and> observation_enc o' = p" if "FieldProvenance_Validate p True" for p
  proof -
    have v: "fp_resolution p \<noteq> ResolutionAbsent \<and> validTimeResolution (fp_resolution p)" "oi_valid (fp_time p)"
      "0 \<le> oi_value (fp_time p)" "ou_valid (fp_age p)"
      using that by (auto simp: FieldProvenance_Validate_def)
    obtain r where r: "time_unit_enc r = fp_resolution p" using represents_obtain [OF time_unit_represents v(1)] by blast
    have "observation_enc (Observed (oi_value (fp_time p)) r (ou_value (fp_age p))) = p" using r v(2,4)
      by (cases p; cases "fp_time p"; cases "fp_age p") simp
    then show ?thesis using v(3) observation_ok.simps by blast
  qed
  show "o' = o''" if "observation_enc o' = observation_enc o''" for o' o''
    using that by (cases o'; cases o'') (auto dest: represents_inj [OF time_unit_represents, simplified])
qed

text \<open>
  A field is missing, null, empty, or has a value.  A missing field has no provenance; the
  code writes that in two ways, with the empty resolution text and with the one for absent.
\<close>

datatype 'v sourced_field = FieldMissing bool | FieldNull observation | FieldEmpty observation | FieldValue 'v observation

fun field_ok :: "('v \<Rightarrow> bool) \<Rightarrow> 'v sourced_field \<Rightarrow> bool" where
  "field_ok ok (FieldMissing _) \<longleftrightarrow> True"
| "field_ok ok (FieldNull o') \<longleftrightarrow> observation_ok o'"
| "field_ok ok (FieldEmpty o') \<longleftrightarrow> observation_ok o'"
| "field_ok ok (FieldValue v o') \<longleftrightarrow> ok v \<and> observation_ok o'"

fun field_enc :: "'c \<Rightarrow> ('v \<Rightarrow> 'c) \<Rightarrow> 'v sourced_field \<Rightarrow> string \<times> 'c \<times> field_provenance" where
  "field_enc blank enc (FieldMissing absent) =
     (''missing'', blank, if absent then zero_provenance\<lparr>fp_resolution := ''absent''\<rparr> else zero_provenance)"
| "field_enc blank enc (FieldNull o') = (''null'', blank, observation_enc o')"
| "field_enc blank enc (FieldEmpty o') = (''empty'', blank, observation_enc o')"
| "field_enc blank enc (FieldValue v o') = (''value'', enc v, observation_enc o')"

definition field_valid :: "'c \<Rightarrow> ('c \<Rightarrow> bool) \<Rightarrow> string \<times> 'c \<times> field_provenance \<Rightarrow> bool" where
  "field_valid blank valid = (\<lambda>(st, c, p). validFieldState st \<and> FieldProvenance_Validate p (st \<noteq> SourceMissing) \<and>
     (if st \<noteq> SourceValue then c = blank else valid c))"

lemmas field_states = SourceMissing_def SourceNull_def SourceEmpty_def SourceValue_def validFieldState_def

lemma field_represents:
  assumes "represents ok enc valid"
  shows "represents (field_ok ok) (field_enc blank enc) (field_valid blank valid)"
proof (rule representsI)
  note obs = observation_represents
  show "field_valid blank valid (field_enc blank enc f)" if "field_ok ok f" for f
    using that represents_valid [OF assms] represents_valid [OF obs]
    by (cases f) (auto simp: field_valid_def field_states FieldProvenance_Validate_def ResolutionAbsent_def)
  show "\<exists>f. field_ok ok f \<and> field_enc blank enc f = x" if "field_valid blank valid x" for x
  proof (cases x)
    case (fields st c p)
    from that have st: "st \<in> {''missing'', ''null'', ''empty'', ''value''}" unfolding fields by (auto simp: field_valid_def field_states)
    show ?thesis
    proof (cases "st = ''missing''")
      case True
      then have "c = blank" "p = zero_provenance \<or> p = zero_provenance\<lparr>fp_resolution := ''absent''\<rparr>"
        using that unfolding fields by (auto simp: field_valid_def field_states FieldProvenance_Validate_def ResolutionAbsent_def)
      then have "field_enc blank enc (FieldMissing (p \<noteq> zero_provenance)) = x" unfolding fields using True by auto
      then show ?thesis using field_ok.simps(1) by blast
    next
      case False
      then have "FieldProvenance_Validate p True" using that unfolding fields by (simp add: field_valid_def field_states)
      then obtain o' where o: "observation_ok o'" "observation_enc o' = p" using represents_obtain [OF obs] by blast
      show ?thesis
      proof (cases "st = ''value''")
        case True
        then have "valid c" using that unfolding fields by (simp add: field_valid_def field_states)
        then obtain v where "ok v" "enc v = c" using represents_obtain [OF assms] by blast
        then show ?thesis using o True fields by (intro exI [of _ "FieldValue v o'"]) simp
      next
        case blank: False
        then have "c = blank" using that unfolding fields by (simp add: field_valid_def field_states)
        then have "field_enc blank enc (FieldNull o') = x \<or> field_enc blank enc (FieldEmpty o') = x"
          using o(2) st False blank unfolding fields by auto
        then show ?thesis using o(1) field_ok.simps(2,3) by blast
      qed
    qed
  qed
  show "f = f'" if "field_ok ok f" "field_ok ok f'" "field_enc blank enc f = field_enc blank enc f'" for f f'
    using that by (cases f; cases f') (auto simp: zero_provenance_def dest: represents_inj [OF obs] represents_inj [OF assms] split: if_splits)
qed

text \<open>The fields of the ticker: numbers, the next funding time, and values derived from native ones.\<close>

definition numeric_field_enc :: "(number \<times> measure_unit) sourced_field \<Rightarrow> numeric_field" where
  "numeric_field_enc f = (case field_enc zero_numeric measure_enc f of
     (st, v, p) \<Rightarrow> \<lparr>nf_state = st, nf_value = v, nf_provenance = p\<rparr>)"

lemma numeric_field_represents: "represents (field_ok measure_ok) numeric_field_enc NumericField_Validate"
  unfolding numeric_field_enc_def
  by (rule represents_via [OF field_represents [OF measure_represents, of zero_numeric], of _ "\<lambda>f. (nf_state f, nf_value f, nf_provenance f)"])
    (auto simp: NumericField_Validate_def field_valid_def)

definition instant_ok :: "i64 \<times> time_unit \<Rightarrow> bool" where "instant_ok = (\<lambda>(t, r). 0 \<le> t \<and> True)"
definition instant_enc :: "i64 \<times> time_unit \<Rightarrow> i64 \<times> string" where "instant_enc = (\<lambda>(t, r). (t, time_unit_enc r))"

definition time_field_enc :: "(i64 \<times> time_unit) sourced_field \<Rightarrow> time_field" where
  "time_field_enc f = (case field_enc (0, ''absent'') instant_enc f of
     (st, (t, r), p) \<Rightarrow> \<lparr>tf_state = st, tf_value = t, tf_resolution = r, tf_provenance = p\<rparr>)"

lemma represents_self: "represents ok (\<lambda>a. a) ok"
  by (simp add: represents_def)

lemma time_field_represents: "represents (field_ok instant_ok) time_field_enc TimeField_Validate"
proof -
  have "represents instant_ok instant_enc (\<lambda>(t, r). 0 \<le> t \<and> r \<noteq> ResolutionAbsent \<and> validTimeResolution r)"
    unfolding instant_ok_def instant_enc_def by (rule represents_pair [OF represents_self time_unit_represents])
  from field_represents [OF this] show ?thesis unfolding time_field_enc_def
    by (rule represents_via [where g = "\<lambda>f. (tf_state f, (tf_value f, tf_resolution f), tf_provenance f)"])
      (auto simp: TimeField_Validate_def field_valid_def ResolutionAbsent_def)
qed

text \<open>A derived value names its formula and catalog and says whether the conversion is exact.\<close>

datatype derivation = Derivation "number \<times> measure_unit" string string bool

fun derivation_ok :: "derivation \<Rightarrow> bool" where
  "derivation_ok (Derivation m formula catalog exact) \<longleftrightarrow> measure_ok m \<and> formula \<noteq> [] \<and> catalog \<noteq> []"

fun derivation_enc :: "derivation \<Rightarrow> numeric \<times> string \<times> string \<times> string" where
  "derivation_enc (Derivation m formula catalog exact) =
     (measure_enc m, formula, catalog, if exact then ''exact'' else ''provisional'')"

lemma derivation_represents: "represents derivation_ok derivation_enc
    (\<lambda>(n, f, c, q). Numeric_Validate n \<and> f \<noteq> [] \<and> c \<noteq> [] \<and> (q = ''exact'' \<or> q = ''provisional''))"
proof (rule representsI)
  show "\<exists>d. derivation_ok d \<and> derivation_enc d = x"
    if v: "case x of (n, f, c, q) \<Rightarrow> Numeric_Validate n \<and> f \<noteq> [] \<and> c \<noteq> [] \<and> (q = ''exact'' \<or> q = ''provisional'')" for x
  proof -
    obtain n f c q where x: "x = (n, f, c, q)" by (cases x)
    with v have "Numeric_Validate n" by simp
    from represents_obtain [OF measure_represents this] obtain m where "measure_ok m" "measure_enc m = n" .
    then show ?thesis using v x by (intro exI [of _ "Derivation m f c (q = ''exact'')"]) auto
  qed
  show "d = d'" if "derivation_ok d" "derivation_ok d'" "derivation_enc d = derivation_enc d'" for d d'
    using that represents_inj [OF measure_represents] by (cases d; cases d') (auto split: if_splits)
  show "case derivation_enc d of (n, f, c, q) \<Rightarrow> Numeric_Validate n \<and> f \<noteq> [] \<and> c \<noteq> [] \<and> (q = ''exact'' \<or> q = ''provisional'')"
    if "derivation_ok d" for d
    using that represents_valid [OF measure_represents] by (cases d) auto
qed

definition derived_enc :: "derivation sourced_field \<Rightarrow> derived_value" where
  "derived_enc d = (case field_enc (zero_numeric, [], [], []) derivation_enc d of
     (st, (n, f, c, q), p) \<Rightarrow> \<lparr>dv_field = \<lparr>nf_state = st, nf_value = n, nf_provenance = p\<rparr>, dv_formula = f, dv_catalog = c, dv_confidence = q\<rparr>)"

lemma derived_represents: "represents (field_ok derivation_ok) derived_enc DerivedValue_Validate"
  unfolding derived_enc_def
  by (rule represents_via [OF field_represents [OF derivation_represents],
        where g = "\<lambda>d. (nf_state (dv_field d), (nf_value (dv_field d), dv_formula d, dv_catalog d, dv_confidence d), nf_provenance (dv_field d))"])
    (auto simp: DerivedValue_Validate_def NumericField_Validate_def field_valid_def ConversionConfidenceExact_def
      ConversionConfidenceProvisional_def)

subsection \<open>Open interest\<close>

datatype sidedness = SingleSide | BothSides | Unspecified

fun sidedness_enc :: "sidedness \<Rightarrow> string" where
  "sidedness_enc SingleSide = ''single_side''"
| "sidedness_enc BothSides = ''both_sides''"
| "sidedness_enc Unspecified = ''unspecified''"

text \<open>The native figure, which sides it counts, the other figures the venue reports, and the multiplier's name.\<close>

datatype holding = Holding "number \<times> native_kind" sidedness "(string \<times> number \<times> native_kind) list" string

fun holding_ok :: "holding \<Rightarrow> bool" where
  "holding_ok (Holding v side reported multiplier) \<longleftrightarrow> native_value_ok v \<and> length reported \<le> 16 \<and>
     distinct (map fst reported) \<and> list_all (\<lambda>(name, w). name_ok 128 name \<and> native_value_ok w) reported"

definition reported_enc :: "string \<times> number \<times> native_kind \<Rightarrow> reported_value" where
  "reported_enc = (\<lambda>(name, w). \<lparr>rv_name = name, rv_value = native_value_enc w\<rparr>)"

fun holding_enc :: "holding \<Rightarrow> native_value \<times> string \<times> reported_value list \<times> string" where
  "holding_enc (Holding v side reported multiplier) =
     (native_value_enc v, sidedness_enc side, map reported_enc reported, multiplier)"

lemma reported_represents: "represents (list_all (\<lambda>(name, w). name_ok 128 name \<and> native_value_ok w)) (map reported_enc)
    (list_all (\<lambda>r. name_ok 128 (rv_name r) \<and> NativeValue_Validate (rv_value r)))"
proof (rule represents_list)
  show "represents (\<lambda>(name, w). name_ok 128 name \<and> native_value_ok w) reported_enc
      (\<lambda>r. name_ok 128 (rv_name r) \<and> NativeValue_Validate (rv_value r))"
    using represents_via [OF represents_pair [OF represents_self native_value_represents],
        of "\<lambda>(n, v). \<lparr>rv_name = n, rv_value = v\<rparr>" "\<lambda>r. (rv_name r, rv_value r)"
          "\<lambda>r. name_ok 128 (rv_name r) \<and> NativeValue_Validate (rv_value r)" "name_ok 128"]
    by (simp add: reported_enc_def case_prod_beta split_beta')
qed

lemma reported_ok_spec: "reported_ok [] rs \<longleftrightarrow> distinct (map rv_name rs) \<and>
    list_all (\<lambda>r. name_ok 128 (rv_name r) \<and> NativeValue_Validate (rv_value r)) rs"
  by (auto simp: reported_ok_iff list_all_iff name_ok_def MaxReportedVariantNameBytes_def)

lemma reported_names: "map rv_name (map reported_enc rs) = map fst rs"
  by (simp add: reported_enc_def case_prod_beta o_def)

definition holding_valid :: "native_value \<times> string \<times> reported_value list \<times> string \<Rightarrow> bool" where
  "holding_valid = (\<lambda>(v, side, rs, mx). NativeValue_Validate v \<and> side \<in> {''single_side'', ''both_sides'', ''unspecified''} \<and>
     length rs \<le> 16 \<and> reported_ok [] rs)"

lemma holding_represents: "represents holding_ok holding_enc holding_valid"
proof (rule representsI)
  show "holding_valid (holding_enc h)" if "holding_ok h" for h
  proof (cases h)
    case (Holding v side rs mx)
    have "list_all (\<lambda>r. name_ok 128 (rv_name r) \<and> NativeValue_Validate (rv_value r)) (map reported_enc rs)"
      using that represents_valid [OF reported_represents, of rs] unfolding Holding by simp
    moreover have "sidedness_enc side \<in> {''single_side'', ''both_sides'', ''unspecified''}" by (cases side) simp_all
    ultimately show ?thesis using that represents_valid [OF native_value_represents, of v] unfolding Holding
      by (simp add: holding_valid_def reported_ok_spec reported_names del: map_map)
  qed
  show "\<exists>h. holding_ok h \<and> holding_enc h = x" if "holding_valid x" for x
  proof -
    obtain v side rs mx where x: "x = (v, side, rs, mx)" by (cases x)
    have v: "NativeValue_Validate v" "list_all (\<lambda>r. name_ok 128 (rv_name r) \<and> NativeValue_Validate (rv_value r)) rs"
      "length rs \<le> 16" "distinct (map rv_name rs)" using that unfolding x by (simp_all add: holding_valid_def reported_ok_spec)
    obtain v' where v': "native_value_ok v'" "native_value_enc v' = v" using represents_obtain [OF native_value_represents v(1)] .
    obtain rs' where rs': "list_all (\<lambda>(name, w). name_ok 128 name \<and> native_value_ok w) rs'" "map reported_enc rs' = rs"
      using represents_obtain [OF reported_represents v(2)] .
    have "side \<in> {''single_side'', ''both_sides'', ''unspecified''}" using that unfolding x by (simp add: holding_valid_def)
    then obtain side' where "sidedness_enc side' = side" using sidedness_enc.simps by (metis insertE singletonD)
    then show ?thesis using v' rs' v(3,4) reported_names [of rs'] x
      by (intro exI [of _ "Holding v' side' rs' mx"]) (auto simp del: map_map)
  qed
  show "h = h'" if "holding_ok h" "holding_ok h'" "holding_enc h = holding_enc h'" for h h'
  proof -
    obtain v s rs m v' s' rs' m' where h: "h = Holding v s rs m" "h' = Holding v' s' rs' m'" by (cases h; cases h') blast
    have "s = s'" using that(3) unfolding h by (cases s; cases s') simp_all
    moreover have "v = v'" by (rule represents_inj [OF native_value_represents]) (use that h in simp_all)
    moreover have "rs = rs'" by (rule represents_inj [OF reported_represents]) (use that h in simp_all)
    ultimately show ?thesis using that(3) h by simp
  qed
qed

record interest =
  in_variant :: string
  in_holding :: "holding sourced_field"
  in_base :: "derivation sourced_field"
  in_quote :: "derivation sourced_field"
  in_usd :: "derivation sourced_field"

definition interest_ok :: "interest \<Rightarrow> bool" where
  "interest_ok x \<longleftrightarrow> name_ok 128 (in_variant x) \<and> field_ok holding_ok (in_holding x) \<and>
     field_ok derivation_ok (in_base x) \<and> field_ok derivation_ok (in_quote x) \<and> field_ok derivation_ok (in_usd x)"

definition interest_enc :: "interest \<Rightarrow> open_interest" where
  "interest_enc x = (case field_enc (zero_native_value, [], [], []) holding_enc (in_holding x) of
     (st, (v, side, rs, mx), p) \<Rightarrow> \<lparr>oi_state = st, oi_variant = in_variant x, oi_native = v, oi_sidedness = side, oi_reported = rs,
       oi_multiplier = mx, oi_base = derived_enc (in_base x), oi_quote = derived_enc (in_quote x), oi_usd = derived_enc (in_usd x),
       oi_provenance = p\<rparr>)"

text \<open>The part of an open interest that its state governs.\<close>

definition oi_core :: "open_interest \<Rightarrow> string \<times> (native_value \<times> string \<times> reported_value list \<times> string) \<times> field_provenance" where
  "oi_core c = (oi_state c, (oi_native c, oi_sidedness c, oi_reported c, oi_multiplier c), oi_provenance c)"

lemma oi_core_enc: "oi_core (interest_enc x) = field_enc (zero_native_value, [], [], []) holding_enc (in_holding x)"
  by (simp add: oi_core_def interest_enc_def case_prod_beta)

lemma interest_enc_simps [simp]: "oi_variant (interest_enc x) = in_variant x" "oi_base (interest_enc x) = derived_enc (in_base x)"
  "oi_quote (interest_enc x) = derived_enc (in_quote x)" "oi_usd (interest_enc x) = derived_enc (in_usd x)"
  by (simp_all add: interest_enc_def case_prod_beta)

lemma OpenInterest_spec:
  "OpenInterest_Validate c \<longleftrightarrow> name_ok 128 (oi_variant c) \<and> field_valid (zero_native_value, [], [], []) holding_valid (oi_core c) \<and>
     DerivedValue_Validate (oi_base c) \<and> DerivedValue_Validate (oi_quote c) \<and> DerivedValue_Validate (oi_usd c)"
  by (auto simp: OpenInterest_Validate_def oi_core_def field_valid_def holding_valid_def name_ok_def MaxReportedVariantNameBytes_def
      MaxOpenInterestVariants_def OpenInterestSingleSide_def OpenInterestBothSides_def OpenInterestUnspecified_def)

lemma holding_field_represents: "represents (field_ok holding_ok) (field_enc blank holding_enc) (field_valid blank holding_valid)"
  by (rule field_represents [OF holding_represents])

lemma interest_represents: "represents interest_ok interest_enc OpenInterest_Validate"
proof (rule representsI)
  note reps = holding_field_represents [of "(zero_native_value, [], [], [])"] derived_represents
  show "OpenInterest_Validate (interest_enc x)" if "interest_ok x" for x
    using that represents_valid [OF reps(1)] represents_valid [OF reps(2)]
    by (simp add: OpenInterest_spec interest_ok_def oi_core_enc)
  show "\<exists>x. interest_ok x \<and> interest_enc x = c" if "OpenInterest_Validate c" for c
  proof -
    have v: "field_valid (zero_native_value, [], [], []) holding_valid (oi_core c)" "DerivedValue_Validate (oi_base c)"
      "DerivedValue_Validate (oi_quote c)" "DerivedValue_Validate (oi_usd c)" "name_ok 128 (oi_variant c)"
      using that by (simp_all add: OpenInterest_spec)
    obtain h where h: "field_ok holding_ok h" "field_enc (zero_native_value, [], [], []) holding_enc h = oi_core c"
      using represents_obtain [OF reps(1) v(1)] .
    obtain b where b: "field_ok derivation_ok b" "derived_enc b = oi_base c" using represents_obtain [OF reps(2) v(2)] .
    obtain q where q: "field_ok derivation_ok q" "derived_enc q = oi_quote c" using represents_obtain [OF reps(2) v(3)] .
    obtain u where u: "field_ok derivation_ok u" "derived_enc u = oi_usd c" using represents_obtain [OF reps(2) v(4)] .
    let ?x = "\<lparr>in_variant = oi_variant c, in_holding = h, in_base = b, in_quote = q, in_usd = u\<rparr>"
    have "interest_enc ?x = c" using h(2) b(2) q(2) u(2) by (simp add: interest_enc_def oi_core_def)
    moreover have "interest_ok ?x" using h(1) b(1) q(1) u(1) v(5) by (simp add: interest_ok_def)
    ultimately show ?thesis by blast
  qed
  show "x = y" if ok: "interest_ok x" "interest_ok y" and eq: "interest_enc x = interest_enc y" for x y
  proof (rule interest.equality)
    show "in_variant x = in_variant y" using arg_cong [OF eq, of oi_variant] by simp
    show "in_holding x = in_holding y" using arg_cong [OF eq, of oi_core] ok
      by (intro represents_inj [OF reps(1)]) (simp_all add: oi_core_enc interest_ok_def)
    show "in_base x = in_base y" using arg_cong [OF eq, of oi_base] ok
      by (intro represents_inj [OF reps(2)]) (simp_all add: interest_ok_def)
    show "in_quote x = in_quote y" using arg_cong [OF eq, of oi_quote] ok
      by (intro represents_inj [OF reps(2)]) (simp_all add: interest_ok_def)
    show "in_usd x = in_usd y" using arg_cong [OF eq, of oi_usd] ok
      by (intro represents_inj [OF reps(2)]) (simp_all add: interest_ok_def)
  qed simp
qed

subsection \<open>The ticker\<close>

record abstract_ticker =
  t_meta :: metadata
  t_role :: string
  t_numbers :: "(number \<times> measure_unit) sourced_field list"
  t_next_funding :: "(i64 \<times> time_unit) sourced_field"
  t_interest :: "interest list"

text \<open>The seven numeric fields are in the order of \<open>DerivativeTickerV1\<close>: last, mark, index, funding, settlement, basis, premium.\<close>

definition ticker_ok :: "(bytes \<Rightarrow> hash) \<Rightarrow> abstract_ticker \<Rightarrow> bool" where
  "ticker_ok sha t \<longleftrightarrow> validateSchema sha (t_meta t) ''DerivativeTickerV1'' 1 \<and> name_ok 128 (t_role t) \<and>
     length (t_numbers t) = 7 \<and> list_all (field_ok measure_ok) (t_numbers t) \<and> field_ok instant_ok (t_next_funding t) \<and>
     length (t_interest t) \<le> 16 \<and> distinct (map in_variant (t_interest t)) \<and> list_all interest_ok (t_interest t)"

definition ticker_enc :: "abstract_ticker \<Rightarrow> derivative_ticker" where
  "ticker_enc t = (let n = (\<lambda>i. numeric_field_enc (t_numbers t ! i)) in
     \<lparr>dt_meta = t_meta t, dt_role = t_role t, dt_last = n 0, dt_mark = n 1, dt_index = n 2, dt_funding = n 3,
      dt_next_funding = time_field_enc (t_next_funding t), dt_open_interest = map interest_enc (t_interest t),
      dt_settlement = n 4, dt_basis = n 5, dt_premium = n 6\<rparr>)"

lemma ticker_enc_simps [simp]: "dt_meta (ticker_enc t) = t_meta t" "dt_role (ticker_enc t) = t_role t"
  "dt_next_funding (ticker_enc t) = time_field_enc (t_next_funding t)" "dt_open_interest (ticker_enc t) = map interest_enc (t_interest t)"
  by (simp_all add: ticker_enc_def Let_def)

lemma seven: "length xs = 7 \<Longrightarrow> map f xs = [f (xs ! 0), f (xs ! 1), f (xs ! 2), f (xs ! 3), f (xs ! 4), f (xs ! 5), f (xs ! 6)]"
  by (simp add: eval_nat_numeral length_Suc_conv) auto

lemma dt_fields_enc: "length (t_numbers t) = 7 \<Longrightarrow> dt_fields (ticker_enc t) = map numeric_field_enc (t_numbers t)"
  by (simp add: dt_fields_def ticker_enc_def Let_def seven)

lemma ticker_spec:
  "DerivativeTicker_Validate sha e \<longleftrightarrow> validateSchema sha (dt_meta e) ''DerivativeTickerV1'' 1 \<and> name_ok 128 (dt_role e) \<and>
     list_all NumericField_Validate (dt_fields e) \<and> TimeField_Validate (dt_next_funding e) \<and>
     length (dt_open_interest e) \<le> 16 \<and> distinct (map oi_variant (dt_open_interest e)) \<and> list_all OpenInterest_Validate (dt_open_interest e)"
  by (auto simp: DerivativeTicker_Validate_def name_ok_def MaxDerivativeSourceRoleBytes_def MaxOpenInterestVariants_def
      observations_ok_iff list_all_iff)

lemma interest_variants: "map oi_variant (map interest_enc xs) = map in_variant xs"
  by simp

lemmas ticker_lists = represents_list [OF numeric_field_represents] represents_list [OF interest_represents]

lemma ticker_represents: "represents (ticker_ok sha) ticker_enc (DerivativeTicker_Validate sha)"
proof (rule representsI)
  note reps = ticker_lists time_field_represents
  show "DerivativeTicker_Validate sha (ticker_enc t)" if "ticker_ok sha t" for t
    using that represents_valid [OF reps(1)] represents_valid [OF reps(2)] represents_valid [OF reps(3)]
    by (simp add: ticker_spec ticker_ok_def dt_fields_enc interest_variants del: map_map)
  show "\<exists>t. ticker_ok sha t \<and> ticker_enc t = e" if v: "DerivativeTicker_Validate sha e" for e
  proof -
    obtain ns where ns: "list_all (field_ok measure_ok) ns" "map numeric_field_enc ns = dt_fields e"
      using represents_obtain [OF reps(1)] v ticker_spec by metis
    obtain xs where xs: "list_all interest_ok xs" "map interest_enc xs = dt_open_interest e"
      using represents_obtain [OF reps(2)] v ticker_spec by metis
    obtain w where w: "field_ok instant_ok w" "time_field_enc w = dt_next_funding e"
      using represents_obtain [OF reps(3)] v ticker_spec by metis
    have len: "length ns = 7" using arg_cong [OF ns(2), of length] by (simp add: dt_fields_def)
    have size: "length (dt_open_interest e) = length xs" unfolding xs(2) [symmetric] by simp
    let ?t = "\<lparr>t_meta = dt_meta e, t_role = dt_role e, t_numbers = ns, t_next_funding = w, t_interest = xs\<rparr>"
    have "ticker_enc ?t = e" using ns(2) xs(2) w(2) unfolding seven [OF len] dt_fields_def
      by (simp add: ticker_enc_def Let_def)
    moreover have "ticker_ok sha ?t"
      using v ns(1) xs w(1) len interest_variants [of xs] size by (simp add: ticker_ok_def ticker_spec)
    ultimately show ?thesis by blast
  qed
  show "t = t'" if ok: "ticker_ok sha t" "ticker_ok sha t'" and eq: "ticker_enc t = ticker_enc t'" for t t'
  proof (rule abstract_ticker.equality)
    show "t_meta t = t_meta t'" using arg_cong [OF eq, of dt_meta] by simp
    show "t_role t = t_role t'" using arg_cong [OF eq, of dt_role] by simp
    show "t_numbers t = t_numbers t'" using arg_cong [OF eq, of dt_fields] ok
      by (intro represents_inj [OF reps(1)]) (simp_all add: ticker_ok_def dt_fields_enc)
    show "t_next_funding t = t_next_funding t'" using arg_cong [OF eq, of dt_next_funding] ok
      by (intro represents_inj [OF reps(3)]) (simp_all add: ticker_ok_def)
    show "t_interest t = t_interest t'" using arg_cong [OF eq, of dt_open_interest] ok
      by (intro represents_inj [OF reps(2)]) (simp_all add: ticker_ok_def)
  qed simp
qed

text \<open>
  C28. Validation accepts a derivative ticker exactly when it is the encoding of one abstract
  ticker, and of no other.  In an abstract ticker each of the seven numbers, the next
  funding time, each open interest and each value derived from it is missing, null,
  empty, or a value, and only a field that the source sent has a source time, its unit
  and an age; a number is an integer of at most 38 digits with a scale and a well-formed
  unit, a derived value names its formula, its catalog and whether it is exact, an open
  interest has a named variant, a native value and distinct reported variants, and
  the variants of the at most sixteen open interests differ.  Data that the state of a field
  rules out cannot pass, and no two abstract tickers share an encoding.
\<close>

theorem derivative_ticker_represented:
  "DerivativeTicker_Validate sha e \<longleftrightarrow> (\<exists>!t. ticker_ok sha t \<and> ticker_enc t = e)"
  by (rule represents_unique [OF ticker_represents])

theorem derivative_ticker_represented_witness:
  "\<exists>!t. ticker_ok (\<lambda>_. replicate 32 7) t \<and> ticker_enc t = sample_ticker"
  using derivative_ticker_represented [of "\<lambda>_. replicate 32 7" sample_ticker] sample_ticker_valid by blast

end
