(* ===== verification/Spec2Isabelle.thy ===== *)
theory Spec2Isabelle
  imports SpotBook CoinMBook DeribitBook OkxBook BybitBook Lease Policy RateOwner Lossless Coverage Orchestrator Ticker
begin

text \<open>
  Verification development of a market data platform written in Go.  The program
  captures what trading venues send, stores it losslessly, replays it, and rebuilds
  order books and coverage statistics from it.  Its parts, in the order in which a
  message passes through them:

  \<^item> capture (\<open>src/capture\<close>): a received message or a control event becomes an
    \<open>EnvelopeV1\<close>, is numbered within its stream epoch, and REST requests are admitted
    by a rate budget; only the holder of the writer lease (\<open>src/deployment\<close>) commits;
  \<^item> storage (\<open>src/segment\<close>): envelopes are framed, packed into compressed segments
    and published with a manifest;
  \<^item> replay (\<open>src/replay\<close>): published segments are planned by source and epoch,
    fetched by concurrent workers, checked, merged and hashed;
  \<^item> normalization (\<open>src/normalize\<close>): decimals, units and typed events with an
    identity that names the raw record they come from;
  \<^item> order books (\<open>src/orderbook\<close>, \<open>src/binance\<close>, \<open>src/bybit\<close>): the events of one
    instrument are joined with snapshots into books;
  \<^item> quality (\<open>src/quality\<close>): expected events, gaps and incidents, the archival of old
    ledger rows and the coverage report over ledger and archives.

  Conventions.  Go integers are words of their width (\<open>u8\<close> to \<open>u64\<close>) or, where the
  source compares or formats signed values, integers with the range written out
  (\<open>i64\<close>, with \<open>in_i64\<close>); additions on words wrap as in Go.  A struct is a record
  with a short prefix on its fields, an error is a value of a datatype (the message
  texts are left out, the sentinel errors are kept), a function that returns a value
  and an error has type \<open>error + value\<close> or \<open>error option\<close>, and a method that changes
  its receiver returns the new record.  A Go map is an association list with distinct
  keys (\<open>go_get\<close>, \<open>go_put\<close>), so that theorems about a map iteration cover every order
  of its entries.  Strings are lists of bytes.  Definitions carry the names of the
  source; a loop or a branch of a long function that has a definition of its own has
  a lower-case name.

  \<^bold>\<open>Theories.\<close>

  \<^item> \<open>Prelude\<close>: machine types, Go maps, byte encodings of integers, the collections of
    simplification rules and generic lemmas on lists, options and words.
  \<^item> \<open>Decimal\<close>, \<open>Normalize\<close>, \<open>Derivative\<close>, \<open>Ticker\<close>, \<open>DeribitUnits\<close>: \<open>normalize/decimal.go\<close>;
    units, metadata, event identity and book updates of \<open>types.go\<close>, \<open>encoding.go\<close>,
    \<open>events.go\<close>; \<open>derivative.go\<close>; \<open>deribit.go\<close>.  \<open>ParseDecimal\<close> accepts exactly
    the bounded decimals and is exact; equal event identities mean equal origin or a
    hash collision.  \<open>Ticker\<close> has an abstract derivative ticker, a datatype in which
    data that the source did not send has no place; validation accepts exactly the
    encodings of abstract tickers, each of one.
  \<^item> \<open>Events\<close>, \<open>RowHash\<close>: the remaining events of \<open>events.go\<close>, \<open>option.go\<close>,
    \<open>liquidation.go\<close>, \<open>instrument.go\<close> and \<open>source_health.go\<close>, the rows that hold one of the nine
    kinds, and their canonical encoding (\<open>encoding.go\<close>).  Every encoder interprets
    \<open>framed\<close>, so the logical hash of a valid row determines the row, given that what
    is behind an invalid optional is zero (the encoder leaves it out, and two of the
    validators do not demand it).
  \<^item> \<open>RawRecord\<close>, \<open>Orchestrator\<close>: raw records and metadata, \<open>catalog.go\<close>,
    \<open>fingerprint.go\<close> and \<open>orchestrator.go\<close>.  A record is bound to its segment, its mapper is
    selected and its payload fingerprinted; at most one binding covers a record, and
    every record of a batch yields rows that name it (all of its coordinate but the
    epoch kind, which the code does not compare) or exactly one quarantine.
  \<^item> \<open>Book\<close>, \<open>Digest\<close>: \<open>orderbook/book.go\<close> and \<open>hash.go\<close>.  Applying an event refines
    assignment and deletion on a map from price to amount, and the checks made before
    the mutation are exact for the book after it; the locale \<open>framed\<close> (length-prefixed
    encoders) gives that equal projection hashes mean equal projections.
  \<^item> \<open>Engine\<close>, \<open>EngineInv\<close>, \<open>EngineSeed\<close>, \<open>EngineSpec\<close>, \<open>SpotBook\<close>: \<open>orderbook/engine.go\<close>,
    with one definition per method (\<open>New\<close>, \<open>Accept\<close>, \<open>Seed\<close>, \<open>Discontinuity\<close>, \<open>Close\<close>),
    its invariant over every reachable engine, and the locale \<open>sequence_policy\<close>, the
    contract a venue's policy owes the engine, interpreted by the policy of
    \<open>binance/spot_book.go\<close>.  The theorems say what \<open>Seed\<close> emits, the snapshot that it
    chose among the fetched ones with exactly the buffered updates beyond it applied in
    order, and what \<open>Accept\<close> emits.
  \<^item> \<open>SideMap\<close>: three locales that the venue books share, for a side that deltas are
    applied to (\<open>delta_side\<close>), a book that follows a sequence (\<open>sequenced_book\<close>) and a
    book seeded by a snapshot (\<open>seeded_book\<close>).  \<open>UsdmBook\<close>, \<open>CoinMBook\<close>, \<open>DeribitBook\<close>,
    \<open>OkxBook\<close>, \<open>BybitBook\<close> interpret them for \<open>binance/usdm_book.go\<close>,
    \<open>coinm_book.go\<close>, \<open>orderbook/deribit.go\<close>, \<open>okx.go\<close>, \<open>bybit/book.go\<close> and
    \<open>option_book.go\<close>.  They show that a live book is its snapshot with an unbroken chain
    of updates applied, when seeding a USD-M book bridges, waits or reports a gap
    and what the book then holds at every price, what a COIN-M update does to a book
    in each of its states, and what the CRC-32 of OKX (computed bit by bit in the model)
    confirms.  The order in which \<open>okx.go\<close> reads its maps is an argument of \<open>Apply\<close> and of
    \<open>View\<close>: a view has the confirmed checksum when the prices of a side differ, and
    need not when one price is written in two ways.
  \<^item> \<open>Lease\<close>: \<open>deployment/lease.go\<close>.  Clients interleave loads and compare-and-swap
    steps in any order; the locale \<open>fenced_store\<close> states what a store owes them and is
    interpreted by the in-process store.  Fences increase and a commit runs only under
    the latest token.
  \<^item> \<open>Policy\<close>: \<open>deployment/policy.go\<close>, the roles and their permissions.  What is not
    listed is denied, nothing is created over an existing object, and the listing of
    a role is exactly what it is granted.
  \<^item> \<open>Rate\<close>: \<open>capture/rate.go\<close>, the token bucket with saturating arithmetic.  Grants
    are bounded, and the retry time it reports is exact.
  \<^item> \<open>RateOwner\<close>: \<open>capture/pressure_rate_owner.go\<close>, the table of the operations that
    share one bucket.  An operation is sent at most as often as its policy allows, one
    with an unknown outcome not before it is reconciled, and all of them together
    within the rate of the bucket.
  \<^item> \<open>Wire\<close>, \<open>Envelope\<close>, \<open>Segment\<close>: \<open>segment/format.go\<close> and \<open>segment.go\<close>.  The locale
    \<open>codec\<close> (a reader accepts exactly what its writer wrote) is interpreted for every
    wire field; the record bytes are canonical, a segment decodes to what was encoded,
    and a damaged one to the records before the damage.
  \<^item> \<open>Capture\<close>, \<open>Ordinal\<close>: \<open>capture/envelope.go\<close>, \<open>control.go\<close>, \<open>segment.go\<close>,
    \<open>ordinal.go\<close>.  Lowering to the segment record and back is exact; ordinals are
    consecutive whatever calls are made.
  \<^item> \<open>Plan\<close>, \<open>Descriptor\<close>, \<open>Replay\<close>, \<open>LogicalHash\<close>, \<open>Heap\<close>, \<open>Merge\<close>: \<open>replay/types.go\<close>,
    \<open>descriptor.go\<close>, \<open>native.go\<close>, \<open>hash.go\<close>, \<open>merge.go\<close>; \<open>Heap\<close> is the binary heap of
    Go's \<open>container/heap\<close>, verified in the locale \<open>min_heap\<close>.  Every ordinal is
    accounted for, the plan and the outcome depend neither on the order of the inputs
    nor on the workers, the merge is the greedy one, and the logical hash identifies
    the event sequence.
  \<^item> \<open>Lossless\<close> and this theory compose capture, storage and replay.
  \<^item> \<open>Opportunity\<close>, \<open>Spill\<close>, \<open>Quality\<close>, \<open>Coverage\<close>: \<open>capture/opportunity.go\<close> and
    \<open>quality/opportunity.go\<close>, \<open>spill.go\<close>, \<open>state.go\<close>.  Rows are deleted only after
    their archive is known to be committed, archiving never changes the coverage
    report, the report counts every row once, and a gap is resolved at most once.

  \<^bold>\<open>Code outside the repository\<close> is a parameter of the definitions: SHA-256 (\<open>sha\<close>,
  assumed only to give 32 bytes; identity theorems conclude equality or a collision,
  or assume \<open>faithful\<close>: no collision among the rows at hand), Zstandard (\<open>zstd_lib\<close> with
  \<open>zstd_law\<close>: a reader with the window and memory limits of \<open>segment.go\<close> exists, and a reader
  gives back what compression stored, in one frame of the fixed profile, for a
  plain text that is not empty and fits the window, which is within the reader's limit,
  and its memory), JSON (\<open>json_lib\<close>), the object reader, the sink of replayed events, the
  snapshot fetcher, the mappers (any function from a record to rows or an error), and the
  stores behind the interfaces of the source
  (\<open>spill_store\<close>, \<open>archive_writer\<close>), whose answers are arbitrary functions of their
  state.  The order in which workers finish is a parameter too (\<open>schedule\<close>).

  \<^bold>\<open>Loops and bounds.\<close>  Every definition is total.  Loops over lists are structural;
  the others (frame walk, heap sifting, merge, decimal scan) terminate by a measure.  The
  one wait of the program, of \<open>replayEpoch\<close> for the workers, has an option as its result,
  None where a segment never arrives; theorems conclude \<open>Some\<close> for every schedule in
  which each worker finishes.  Bounds of theorems (\<open>2 ^ 32\<close> records in a segment,
  \<open>2 ^ 63\<close> records in an epoch) are those beyond which a field of the format overflows.

  \<^bold>\<open>Not modelled.\<close>  The segment spool (file creation, fsync and rename), the catalog
  (SQL), the collector and the capture runner (goroutines and sockets), datasets and
  warehouse (Parquet and ClickHouse through libraries), the object store client, the
  pipeline and HTTP services, configuration files, telemetry, and the JSON payloads of
  the venues including Hyperliquid: their behaviour is that of the libraries and
  systems they drive.  Of \<open>src/normalize\<close> the mappers of the single venues and the texts of
  the schema contracts, and of \<open>src/replay\<close> the mapper cutover, are not modelled either.
  Cancellation by a context, timings and error texts are left out throughout.
\<close>

section \<open>From capture to replay\<close>

text \<open>
  C1. What is captured is what is replayed.  Take the records an ordinal assigner
  numbers, whatever calls are made on it; split them into segments, encode each and
  store its bytes under the manifest that describes it.  Replaying the epoch, in any
  order of arrival of the segments, gives every record once, in ordinal order, with
  nothing between them but the disconnects the records themselves report: no gap, no
  failure and no error.
\<close>

theorem capture_replay_lossless:
  assumes "NewOrdinalAssigner source stream = Inr a" "assigner_run a calls = (a', concat chunks)"
    and "\<And>b. length (sha b) = 32" "zstd_law z dec"
    and "list_all2 (published sha z opts reader) (ep_segments epoch) chunks"
    and "list_all (\<lambda>es. es \<noteq> [] \<and> length es \<le> 2 ^ 32 \<and> list_all (captured sha) es) chunks" "length (concat chunks) < 2 ^ 63"
    and "mset arrivals = mset [0 ..< length (ep_segments epoch)]"
  shows "replayEpoch sha z reader arrivals epoch =
    Some (concat (map (\<lambda>(d, es). concat (map (replayed epoch d) es)) (zip (ep_segments epoch) chunks)), None)"
proof (rule published_replayed [of sha, OF assms(3-6) _ assms(7,8)])
  have "oa_last a = 0" using assms(1) by (auto simp: NewOrdinalAssigner_def newOrdinalAssigner_def split: option.splits)
  then show "numbered 1 (concat chunks)" using run_numbers [OF assms(2)] by (simp add: numbered_from_def numbered_def)
qed

definition sample_plan :: "encoded_segment \<Rightarrow> epoch_plan" where
  "sample_plan seg = \<lparr>ep_source = ''s'', ep_epoch = ''e'', ep_first_ns = 0, ep_segments = [sample_input seg]\<rparr>"

lemma sample_run: "snd (assigner_run sample_assigner [CallAssign (Some sample_record)]) = [sample_v1]"
proof -
  have "StreamEpoch sample_record = Inr sample_epoch" "e_source sample_record = ''s''" "e_arrival sample_record = 0"
    by (simp_all add: sample_record_def sample_v1_defs StreamEpoch_def sample_epoch_def)
  moreover have "StreamEpoch_Validate sample_epoch = None" by (simp add: StreamEpoch_Validate_def sample_epoch_def)
  moreover have "sample_record\<lparr>e_arrival := 1\<rparr> = sample_v1" by (simp add: sample_record_def sample_v1_defs)
  ultimately show ?thesis
    by (simp add: Assign_def check_record_def validateRequiredString_def checkActiveLocked_def MaxSourceIDBytes_def sample_assigner_def)
qed

theorem capture_replay_lossless_witness:
  "\<exists>seg. Encode sha_zero store_lib [sample_envelope] default_options = Inr seg \<and>
     replayEpoch sha_zero store_lib (sample_store (es_bytes seg)) [0] (sample_plan seg) =
       Some (replayed (sample_plan seg) (sample_input seg) sample_v1, None)"
proof -
  obtain seg where seg: "Encode sha_zero store_lib [sample_envelope] default_options = Inr seg" by (rule sample_encoded)
  obtain a' where run: "assigner_run sample_assigner [CallAssign (Some sample_record)] = (a', concat [[sample_v1]])"
    using sample_run by (cases "assigner_run sample_assigner [CallAssign (Some sample_record)]") simp
  have seg_plan: "ep_segments (sample_plan seg) = [sample_input seg]" by (simp add: sample_plan_def)
  have "replayEpoch sha_zero store_lib (sample_store (es_bytes seg)) [0] (sample_plan seg) =
    Some (concat (map (\<lambda>(d, es). concat (map (replayed (sample_plan seg) d) es)) (zip (ep_segments (sample_plan seg)) [[sample_v1]])), None)"
    using capture_replay_lossless [of "''s''" sample_epoch sample_assigner _ a' "[[sample_v1]]" sha_zero store_lib _ default_options
        "sample_store (es_bytes seg)" "sample_plan seg" "[0]",
      OF sample_assigner_new run sha_zero_length store_lawful]
    using sample_published [OF seg] sample_v1_ok by (simp add: seg_plan captured_def)
  then show ?thesis using seg by (auto simp: seg_plan)
qed

text \<open>
  C2. A replay is a function of its inputs.  For any two orders in which the same
  inputs are listed and any two orders in which the workers finish the segments, the
  collector-observed replay ends, delivers the same events to the callback in the
  same order with the same callback state, and reports the same result: order, number
  of events and logical hash.
\<close>

theorem replay_deterministic:
  assumes "normalized config = Inr cfg" "buildSourcePlans xs cfg = Inr plans" "mset ys = mset xs"
    and "complete_schedule s1" "complete_schedule s2"
  shows "\<exists>outcome. ReplayCollectorObserved sha z reader s1 xs config sink st = Some outcome \<and>
    ReplayCollectorObserved sha z reader s2 ys config sink st = Some outcome"
  using collector_schedule [OF assms, of sha z reader sink st] by auto

theorem replay_deterministic_witness:
  "\<exists>outcome. ReplayCollectorObserved sha_zero store_lib (\<lambda>_. FetchNotFound) forward [sample_descriptor ''a'' 1, sample_descriptor ''b'' 3]
       DefaultConfig (\<lambda>s ev. Inr (s @ [ev])) [] = Some outcome \<and>
     ReplayCollectorObserved sha_zero store_lib (\<lambda>_. FetchNotFound) backward [sample_descriptor ''b'' 3, sample_descriptor ''a'' 1]
       DefaultConfig (\<lambda>s ev. Inr (s @ [ev])) [] = Some outcome"
proof -
  let ?a = "sample_descriptor ''a'' 1" and ?b = "sample_descriptor ''b'' 3"
  have "admissible DefaultConfig [?a, ?b]"
    by (simp add: admissible_def input_ok_def DefaultConfig_def sample_descriptor_def sample_manifest_def)
  then obtain plans where p: "buildSourcePlans [?a, ?b] DefaultConfig = Inr plans" by (simp add: buildSourcePlans_Inr)
  have "normalized DefaultConfig = Inr DefaultConfig" by (simp add: normalized_def DefaultConfig_def Let_def MaximumWorkers_def MaximumPrefetch_def)
  moreover have "complete_schedule forward" "complete_schedule backward" by (simp_all add: complete_schedule_def forward_def backward_def)
  ultimately show ?thesis using p by (intro replay_deterministic) (auto simp: add_mset_commute)
qed

end
